(* ===== verification/Sim_Prelude.thy ===== *)
theory Sim_Prelude
  imports Main "HOL-Library.Word" "HOL-Library.Multiset" "HOL-Library.Product_Lexorder"
begin

text \<open>
  Shared vocabulary of the development: the simulator's scalar types, the errors a
  C++ call can end in, the result monad every stateful operation returns, bounded
  loops over it, and the address-indexed FIFO tables that the arbiter and the memory
  channels use to remember outstanding transactions.
\<close>

named_theorems run_simps \<open>equations that evaluate a computation of the result monad\<close>
named_theorems run_elims \<open>equivalences that take a successful computation apart\<close>

section \<open>Scalar types\<close>

type_synonym tick = "64 word"
type_synonym addr_t = "64 word"

text \<open>The conversion of an \<open>int\<close> to \<open>size_t\<close> and the increment of an \<open>unsigned int\<close>.\<close>

definition to_size_t :: "int \<Rightarrow> nat" where
  "to_size_t i = nat (i mod 2 ^ 64)"

definition inc32 :: "nat \<Rightarrow> nat" where
  "inc32 n = (n + 1) mod 2 ^ 32"

lemma to_size_t_id [simp]: "0 \<le> i \<Longrightarrow> i < 2 ^ 64 \<Longrightarrow> to_size_t i = nat i"
  by (simp add: to_size_t_def)

lemma to_size_t_neg: "- (2 ^ 64) \<le> i \<Longrightarrow> i < 0 \<Longrightarrow> to_size_t i = nat (i + 2 ^ 64)"
proof -
  assume "- (2 ^ 64) \<le> i" "i < 0"
  then have "(i + 2 ^ 64) mod 2 ^ 64 = i + 2 ^ 64"
    by (intro mod_pos_pos_trivial) auto
  then have "i mod 2 ^ 64 = i + 2 ^ 64" by simp
  then show ?thesis by (simp add: to_size_t_def)
qed

lemma inc32_id [simp]: "n + 1 < 2 ^ 32 \<Longrightarrow> inc32 n = Suc n"
  by (simp add: inc32_def)

section \<open>Errors and the result monad\<close>

datatype sim_error =
    AssertFailed
  | RuntimeError string
  | UnboundPort
  | NullDeref
  | OutOfBounds
  | AbruptExit
  | DivideByZero

type_synonym 'a result = "sim_error + 'a"

text \<open>
  \<open>None\<close> is a call that does not return, \<open>Some (Inl e)\<close> one that ends in an error,
  \<open>Some (Inr x)\<close> one that returns \<open>x\<close>.
\<close>

type_synonym 'a run = "'a result option"

abbreviation ret :: "'a \<Rightarrow> 'a run" where
  "ret x \<equiv> Some (Inr x)"

abbreviation raise :: "sim_error \<Rightarrow> 'a run" where
  "raise e \<equiv> Some (Inl e)"

definition run_bind :: "'a run \<Rightarrow> ('a \<Rightarrow> 'b run) \<Rightarrow> 'b run" where
  "run_bind m f = (case m of None \<Rightarrow> None | Some (Inl e) \<Rightarrow> raise e | Some (Inr x) \<Rightarrow> f x)"

definition assert_that :: "bool \<Rightarrow> 'a run \<Rightarrow> 'a run" where
  "assert_that b m = (if b then m else raise AssertFailed)"

text \<open>An access to an array that is guarded by its bounds here and not in the code.\<close>

definition checked :: "bool \<Rightarrow> 'a run \<Rightarrow> 'a run" where
  "checked b m = (if b then m else raise OutOfBounds)"

lemma run_bind_simps [simp, run_simps]:
  "run_bind None f = None"
  "run_bind (raise e) f = raise e"
  "run_bind (ret x) f = f x"
  by (simp_all add: run_bind_def)

lemma run_bind_cong [fundef_cong]:
  "m = m' \<Longrightarrow> (\<And>x. m' = ret x \<Longrightarrow> f x = g x) \<Longrightarrow> run_bind m f = run_bind m' g"
  by (auto simp: run_bind_def split: option.splits sum.splits)

lemma run_bind_assoc:
  "run_bind (run_bind m f) g = run_bind m (\<lambda>x. run_bind (f x) g)"
  by (auto simp: run_bind_def split: option.splits sum.splits)

lemma run_bind_ret [run_elims]:
  "run_bind m f = ret y \<longleftrightarrow> (\<exists>x. m = ret x \<and> f x = ret y)"
  by (auto simp: run_bind_def split: option.splits sum.splits)

lemma assert_that_simps [simp, run_simps]:
  "assert_that True m = m"
  "assert_that False m = raise AssertFailed"
  by (simp_all add: assert_that_def)

lemma checked_simps [simp, run_simps]: "checked True m = m" "checked False m = raise OutOfBounds"
  by (simp_all add: checked_def)

lemma assert_that_ret [run_elims]: "assert_that b m = ret y \<longleftrightarrow> b \<and> m = ret y"
  by (cases b) auto

section \<open>Counting loops\<close>

text \<open>\<open>for_run f [i, ..., j] s\<close> is the loop \<open>for (k = i; k <= j; k++) f(k)\<close>.\<close>

fun for_run :: "('i \<Rightarrow> 's \<Rightarrow> 's run) \<Rightarrow> 'i list \<Rightarrow> 's \<Rightarrow> 's run" where
  "for_run f [] s = ret s"
| "for_run f (i # is) s = run_bind (f i s) (for_run f is)"

lemma for_run_append:
  "for_run f (xs @ ys) s = run_bind (for_run f xs s) (for_run f ys)"
  by (induction xs arbitrary: s) (auto simp: run_bind_assoc intro: run_bind_cong)

lemma for_run_inv:
  assumes "for_run f xs s = ret s'" "P s"
    and "\<And>i t t'. i \<in> set xs \<Longrightarrow> P t \<Longrightarrow> f i t = ret t' \<Longrightarrow> P t'"
  shows "P s'"
  using assms
proof (induction xs arbitrary: s)
  case (Cons i xs)
  then obtain t where "f i s = ret t" "for_run f xs t = ret s'"
    by (auto simp: run_elims)
  with Cons show ?case by (metis list.set_intros)
qed simp

lemma for_run_total:
  assumes "P s"
    and "\<And>i t. i \<in> set xs \<Longrightarrow> P t \<Longrightarrow> \<exists>t'. f i t = ret t' \<and> P t'"
  shows "\<exists>s'. for_run f xs s = ret s' \<and> P s'"
  using assms
proof (induction xs arbitrary: s)
  case (Cons i xs)
  then obtain t where "f i s = ret t" "P t"
    by (metis list.set_intros(1))
  with Cons show ?case by (metis for_run.simps(2) list.set_intros(2) run_bind_simps(3))
qed simp

section \<open>Address-indexed FIFO tables\<close>

text \<open>
  \<open>std::unordered_map<addr_t, std::queue<T>>\<close>: \<open>mq_push\<close> is \<open>m[k].push(v)\<close>,
  \<open>mq_pop\<close> is the lookup, \<open>front\<close>, \<open>pop\<close> and the erasure of a queue that became
  empty, \<open>None\<close> where the lookup finds nothing.
\<close>

type_synonym 'v mqueue = "addr_t \<Rightarrow> 'v list option"

definition mq_at :: "'v mqueue \<Rightarrow> addr_t \<Rightarrow> 'v list" where
  "mq_at m k = (case m k of None \<Rightarrow> [] | Some q \<Rightarrow> q)"

definition mq_push :: "'v mqueue \<Rightarrow> addr_t \<Rightarrow> 'v \<Rightarrow> 'v mqueue" where
  "mq_push m k v = m(k := Some (mq_at m k @ [v]))"

definition mq_pop :: "'v mqueue \<Rightarrow> addr_t \<Rightarrow> ('v \<times> 'v mqueue) option" where
  "mq_pop m k =
     (case mq_at m k of
        [] \<Rightarrow> None
      | v # q \<Rightarrow> Some (v, m(k := (if q = [] then None else Some q))))"

definition mq_wf :: "'v mqueue \<Rightarrow> bool" where
  "mq_wf m \<longleftrightarrow> finite (dom m) \<and> (\<forall>k. m k \<noteq> Some [])"

definition mq_count :: "'v mqueue \<Rightarrow> nat" where
  "mq_count m = (\<Sum>k\<in>dom m. length (mq_at m k))"

lemma mq_at_empty [simp]: "mq_at (\<lambda>_. None) k = []"
  by (simp add: mq_at_def)

lemma mq_at_push: "mq_at (mq_push m k v) k' = (if k' = k then mq_at m k @ [v] else mq_at m k')"
  by (simp add: mq_at_def mq_push_def)

lemma mq_at_pop:
  "mq_pop m k = Some (v, m') \<Longrightarrow>
     mq_at m k = v # mq_at m' k \<and> (\<forall>k'. k' \<noteq> k \<longrightarrow> mq_at m' k' = mq_at m k')"
  by (auto simp: mq_pop_def mq_at_def split: list.splits option.splits if_splits)

lemma mq_pop_None_iff: "mq_pop m k = None \<longleftrightarrow> mq_at m k = []"
  by (simp add: mq_pop_def split: list.splits)

lemma mq_wf_empty [simp]: "mq_wf (\<lambda>_. None)"
  by (simp add: mq_wf_def)

lemma mq_wf_push [simp]: "mq_wf m \<Longrightarrow> mq_wf (mq_push m k v)"
  by (auto simp: mq_wf_def mq_push_def)

lemma mq_wf_pop: "mq_wf m \<Longrightarrow> mq_pop m k = Some (v, m') \<Longrightarrow> mq_wf m'"
  by (auto simp: mq_wf_def mq_pop_def split: list.splits if_splits)

lemma mq_count_empty [simp]: "mq_count (\<lambda>_. None) = 0"
  by (simp add: mq_count_def)

lemma mq_count_alt:
  assumes "finite K" "dom m \<subseteq> K"
  shows "mq_count m = (\<Sum>k\<in>K. length (mq_at m k))"
  unfolding mq_count_def
  by (rule sum.mono_neutral_left [OF assms])
     (auto simp: mq_at_def split: option.splits)

lemma mq_count_push [simp]:
  assumes "mq_wf m"
  shows "mq_count (mq_push m k v) = Suc (mq_count m)"
proof -
  let ?K = "insert k (dom m)"
  have fin: "finite ?K" using assms by (simp add: mq_wf_def)
  have "mq_count (mq_push m k v) = (\<Sum>k'\<in>?K. length (mq_at (mq_push m k v) k'))"
    by (rule mq_count_alt [OF fin]) (auto simp: mq_push_def)
  also have "\<dots> = Suc (\<Sum>k'\<in>?K. length (mq_at m k'))"
    using fin by (simp add: sum.remove [where x = k] mq_at_push)
  also have "\<dots> = Suc (mq_count m)"
    using mq_count_alt [OF fin subset_insertI] by simp
  finally show ?thesis .
qed

lemma mq_count_pop:
  assumes "mq_wf m" "mq_pop m k = Some (v, m')"
  shows "mq_count m = Suc (mq_count m')"
proof -
  let ?K = "insert k (dom m)"
  have fin: "finite ?K" using assms by (simp add: mq_wf_def)
  have sub: "dom m' \<subseteq> ?K"
    using assms(2) by (auto simp: mq_pop_def split: list.splits if_splits)
  note at = mq_at_pop [OF assms(2)]
  have "mq_count m = (\<Sum>k'\<in>?K. length (mq_at m k'))"
    using mq_count_alt [OF fin, of m] by auto
  also have "\<dots> = Suc (\<Sum>k'\<in>?K. length (mq_at m' k'))"
    using fin at by (simp add: sum.remove [where x = k])
  also have "\<dots> = Suc (mq_count m')"
    using mq_count_alt [OF fin sub] by simp
  finally show ?thesis .
qed

lemma mq_count_pos: "mq_wf m \<Longrightarrow> mq_at m k \<noteq> [] \<Longrightarrow> 0 < mq_count m"
  by (metis mq_count_pop mq_pop_None_iff not_Some_eq surj_pair zero_less_Suc)

end
