(* ===== verification/Event_Queue.thy ===== *)
theory Event_Queue
  imports Sim_Prelude
begin

text \<open>
  The discrete-event kernel of \<open>src/event/eventq.h\<close> and \<open>src/event/eventq.cpp\<close>, as
  the code has it: \<open>Event\<close> objects in a store, linked through \<open>nextBin\<close> (the chain
  of bins, one per time and priority) and \<open>nextInBin\<close> (the events of one bin). The
  loops follow pointers, so they are partial functions; that they return on a
  well-formed queue is proved in \<open>Event_Queue_Refine\<close>.

  Every operation takes the queue record with an open end (\<open>'a EventQueue_scheme\<close>):
  the whole simulator state extends it, and the callback that \<open>serviceOne\<close> runs acts
  on that whole state. Assertions are enabled, as in the repository's build.
\<close>

section \<open>Events\<close>

type_synonym eid = nat

record event =
  nextBin :: "eid option"
  nextInBin :: "eid option"
  ev_when :: tick
  ev_priority :: int
  ev_scheduled :: bool

type_synonym ev_store = "eid \<Rightarrow> event"

definition Default_Pri :: int where "Default_Pri = 0"
definition Minimum_Pri :: int where "Minimum_Pri = - 102"
definition Maximum_Pri :: int where "Maximum_Pri = 102"

definition new_Event :: "int \<Rightarrow> event" where
  "new_Event p = \<lparr>nextBin = None, nextInBin = None, ev_when = 0, ev_priority = p,
                  ev_scheduled = False\<rparr>"

text \<open>The comparison operators on events.\<close>

definition ev_lt :: "event \<Rightarrow> event \<Rightarrow> bool" where
  "ev_lt l r \<longleftrightarrow> ev_when l < ev_when r \<or> (ev_when l = ev_when r \<and> ev_priority l < ev_priority r)"

definition ev_gt :: "event \<Rightarrow> event \<Rightarrow> bool" where
  "ev_gt l r \<longleftrightarrow> ev_when l > ev_when r \<or> (ev_when l = ev_when r \<and> ev_priority l > ev_priority r)"

definition ev_le :: "event \<Rightarrow> event \<Rightarrow> bool" where
  "ev_le l r \<longleftrightarrow> ev_when l < ev_when r \<or> (ev_when l = ev_when r \<and> ev_priority l \<le> ev_priority r)"

definition ev_ge :: "event \<Rightarrow> event \<Rightarrow> bool" where
  "ev_ge l r \<longleftrightarrow> ev_when l > ev_when r \<or> (ev_when l = ev_when r \<and> ev_priority l \<ge> ev_priority r)"

definition ev_eq :: "event \<Rightarrow> event \<Rightarrow> bool" where
  "ev_eq l r \<longleftrightarrow> ev_when l = ev_when r \<and> ev_priority l = ev_priority r"

definition ev_ne :: "event \<Rightarrow> event \<Rightarrow> bool" where
  "ev_ne l r \<longleftrightarrow> ev_when l \<noteq> ev_when r \<or> ev_priority l \<noteq> ev_priority r"

section \<open>Bins\<close>

text \<open>\<open>Event::insertBefore\<close>: the returned pointer is always \<open>event\<close> itself.\<close>

definition insertBefore :: "ev_store \<Rightarrow> eid \<Rightarrow> eid option \<Rightarrow> ev_store run" where
  "insertBefore h e cur =
     (let h' = (case cur of
           None \<Rightarrow> h(e := (h e)\<lparr>nextBin := None, nextInBin := None\<rparr>)
         | Some c \<Rightarrow>
             if ev_lt (h e) (h c)
             then h(e := (h e)\<lparr>nextBin := Some c, nextInBin := None\<rparr>)
             else h(e := (h e)\<lparr>nextBin := nextBin (h c), nextInBin := Some c\<rparr>))
      in assert_that (nextBin (h' e) \<noteq> Some e) (ret h'))"

definition event_not_found :: sim_error where
  "event_not_found = RuntimeError ''event not found!''"

text \<open>The loop of \<open>Event::removeItem\<close>: the predecessor of \<open>event\<close> in its bin.\<close>

partial_function (option) removeItem_scan ::
    "eid option \<Rightarrow> eid \<Rightarrow> ev_store \<Rightarrow> eid \<Rightarrow> eid run" where
  "removeItem_scan nxt cur h e =
     (case nxt of
        None \<Rightarrow> raise event_not_found
      | Some n \<Rightarrow> if n = e then ret cur else removeItem_scan (nextInBin (h n)) n h e)"

definition removeItem :: "ev_store \<Rightarrow> eid \<Rightarrow> eid \<Rightarrow> (ev_store \<times> eid option) run" where
  "removeItem h e tp =
     (if e = tp
      then (case nextInBin (h tp) of
              None \<Rightarrow> ret (h, nextBin (h tp))
            | Some n \<Rightarrow> ret (h(n := (h n)\<lparr>nextBin := nextBin (h tp)\<rparr>), Some n))
      else run_bind (removeItem_scan (nextInBin (h tp)) tp h e)
             (\<lambda>cur. ret (h(cur := (h cur)\<lparr>nextInBin := nextInBin (h e)\<rparr>), Some tp)))"

section \<open>The queue\<close>

record EventQueue =
  objName :: string
  qhead :: "eid option"
  cur_tick :: tick
  events :: ev_store

definition new_EventQueue :: "string \<Rightarrow> ev_store \<Rightarrow> EventQueue" where
  "new_EventQueue n h = \<lparr>objName = n, qhead = None, cur_tick = 0, events = h\<rparr>"

text \<open>The loop shared by \<open>EventQueue::insert\<close> and \<open>EventQueue::remove\<close>.\<close>

partial_function (option) bin_scan ::
    "eid option \<Rightarrow> eid \<Rightarrow> ev_store \<Rightarrow> eid \<Rightarrow> (eid \<times> eid option) option" where
  "bin_scan cur prev h e =
     (case cur of
        None \<Rightarrow> Some (prev, None)
      | Some c \<Rightarrow> if ev_lt (h c) (h e) then bin_scan (nextBin (h c)) c h e
                  else Some (prev, Some c))"

definition eq_insert :: "eid \<Rightarrow> 'a EventQueue_scheme \<Rightarrow> 'a EventQueue_scheme run" where
  "eq_insert e q =
     (let h = (events q)(e := (events q e)\<lparr>ev_scheduled := True\<rparr>)
      in case qhead q of
           None \<Rightarrow> run_bind (insertBefore h e None)
                     (\<lambda>h'. ret (q\<lparr>events := h', qhead := Some e\<rparr>))
         | Some hd0 \<Rightarrow>
             if ev_le (h e) (h hd0)
             then run_bind (insertBefore h e (Some hd0))
                    (\<lambda>h'. ret (q\<lparr>events := h', qhead := Some e\<rparr>))
             else (case bin_scan (nextBin (h hd0)) hd0 h e of
                     None \<Rightarrow> None
                   | Some (prev, cur) \<Rightarrow>
                       run_bind (insertBefore h e cur) (\<lambda>h1.
                       run_bind (insertBefore h1 e cur) (\<lambda>h2.
                       ret (q\<lparr>events := h2(prev := (h2 prev)\<lparr>nextBin := Some e\<rparr>)\<rparr>)))))"

definition eq_remove :: "eid \<Rightarrow> 'a EventQueue_scheme \<Rightarrow> 'a EventQueue_scheme run" where
  "eq_remove e q =
     (let h = (events q)(e := (events q e)\<lparr>ev_scheduled := False\<rparr>)
      in case qhead q of
           None \<Rightarrow> raise event_not_found
         | Some hd0 \<Rightarrow>
             if ev_eq (h hd0) (h e)
             then run_bind (removeItem h e hd0)
                    (\<lambda>(h', tp). ret (q\<lparr>events := h', qhead := tp\<rparr>))
             else (case bin_scan (nextBin (h hd0)) hd0 h e of
                     None \<Rightarrow> None
                   | Some (prev, None) \<Rightarrow> raise event_not_found
                   | Some (prev, Some c) \<Rightarrow>
                       if ev_ne (h c) (h e) then raise event_not_found
                       else run_bind (removeItem h e c) (\<lambda>(h', tp).
                            ret (q\<lparr>events := h'(prev := (h' prev)\<lparr>nextBin := tp\<rparr>)\<rparr>))))"

definition eq_schedule :: "eid \<Rightarrow> tick \<Rightarrow> 'a EventQueue_scheme \<Rightarrow> 'a EventQueue_scheme run" where
  "eq_schedule e w q =
     assert_that (\<not> ev_scheduled (events q e))
       (assert_that (cur_tick q \<le> w)
         (eq_insert e (q\<lparr>events := (events q)(e := (events q e)\<lparr>ev_when := w\<rparr>)\<rparr>)))"

definition eq_deschedule :: "eid \<Rightarrow> 'a EventQueue_scheme \<Rightarrow> 'a EventQueue_scheme run" where
  "eq_deschedule e q = eq_remove e q"

definition eq_reschedule :: "eid \<Rightarrow> tick \<Rightarrow> 'a EventQueue_scheme \<Rightarrow> 'a EventQueue_scheme run" where
  "eq_reschedule e w q =
     assert_that (cur_tick q \<le> w)
       (eq_insert e (q\<lparr>events := (events q)(e := (events q e)\<lparr>ev_when := w\<rparr>)\<rparr>))"

definition eq_empty :: "'a EventQueue_scheme \<Rightarrow> bool" where
  "eq_empty q \<longleftrightarrow> qhead q = None"

definition eq_nextTick :: "'a EventQueue_scheme \<Rightarrow> tick run" where
  "eq_nextTick q = (case qhead q of None \<Rightarrow> raise NullDeref | Some e \<Rightarrow> ret (ev_when (events q e)))"

definition eq_setCurTick :: "tick \<Rightarrow> 'a EventQueue_scheme \<Rightarrow> 'a EventQueue_scheme" where
  "eq_setCurTick t q = q\<lparr>cur_tick := t\<rparr>"

definition eq_replaceHead ::
    "eid option \<Rightarrow> 'a EventQueue_scheme \<Rightarrow> eid option \<times> 'a EventQueue_scheme" where
  "eq_replaceHead s q = (qhead q, q\<lparr>qhead := s\<rparr>)"

text \<open>
  \<open>serviceOne\<close>: unlink the head, advance the clock to its time, run its callback.
  \<open>process\<close> is the virtual \<open>Event::process\<close>, the callback of each event.
\<close>

definition eq_pop :: "eid \<Rightarrow> 'a EventQueue_scheme \<Rightarrow> 'a EventQueue_scheme" where
  "eq_pop e q =
     (let h = (events q)(e := (events q e)\<lparr>ev_scheduled := False\<rparr>)
      in (case nextInBin (h e) of
            Some n \<Rightarrow> q\<lparr>events := h(n := (h n)\<lparr>nextBin := nextBin (h e)\<rparr>), qhead := Some n,
                        cur_tick := ev_when (h e)\<rparr>
          | None \<Rightarrow> q\<lparr>events := h, qhead := nextBin (h e), cur_tick := ev_when (h e)\<rparr>))"

definition eq_serviceOne ::
    "(eid \<Rightarrow> 'a EventQueue_scheme \<Rightarrow> 'a EventQueue_scheme run) \<Rightarrow>
     'a EventQueue_scheme \<Rightarrow> 'a EventQueue_scheme run" where
  "eq_serviceOne process q =
     (case qhead q of None \<Rightarrow> raise NullDeref | Some e \<Rightarrow> process e (eq_pop e q))"

partial_function (option) eq_serviceEvents ::
    "(eid \<Rightarrow> 'a EventQueue_scheme \<Rightarrow> 'a EventQueue_scheme run) \<Rightarrow> tick \<Rightarrow>
     'a EventQueue_scheme \<Rightarrow> 'a EventQueue_scheme run" where
  "eq_serviceEvents process w q =
     (case qhead q of
        None \<Rightarrow> ret (eq_setCurTick w q)
      | Some e \<Rightarrow>
          if ev_when (events q e) > w then ret (eq_setCurTick w q)
          else (case eq_serviceOne process q of
                  None \<Rightarrow> None
                | Some (Inl err) \<Rightarrow> raise err
                | Some (Inr q') \<Rightarrow> eq_serviceEvents process w q'))"

text \<open>The simulation loop of \<open>main\<close>: service events until the queue is empty or time is up.\<close>

partial_function (option) simulate ::
    "(eid \<Rightarrow> 'a EventQueue_scheme \<Rightarrow> 'a EventQueue_scheme run) \<Rightarrow> tick \<Rightarrow>
     'a EventQueue_scheme \<Rightarrow> 'a EventQueue_scheme run" where
  "simulate process limit q =
     (if \<not> eq_empty q \<and> cur_tick q < limit
      then (case eq_serviceOne process q of
              None \<Rightarrow> None
            | Some (Inl err) \<Rightarrow> raise err
            | Some (Inr q') \<Rightarrow> simulate process limit q')
      else ret q)"

text \<open>The destructor: deschedule the head until the queue is empty.\<close>

partial_function (option) eq_destroy :: "'a EventQueue_scheme \<Rightarrow> 'a EventQueue_scheme run" where
  "eq_destroy q =
     (case qhead q of
        None \<Rightarrow> ret q
      | Some e \<Rightarrow> (case eq_deschedule e q of
                     None \<Rightarrow> None
                   | Some (Inl err) \<Rightarrow> raise err
                   | Some (Inr q') \<Rightarrow> eq_destroy q'))"

section \<open>The order of events\<close>

definition ev_key :: "event \<Rightarrow> tick \<times> int" where
  "ev_key e = (ev_when e, ev_priority e)"

text \<open>The operators are the lexicographic order on time and priority.\<close>

lemma ev_order_key:
  "ev_lt l r \<longleftrightarrow> ev_key l < ev_key r"
  "ev_gt l r \<longleftrightarrow> ev_key l > ev_key r"
  "ev_le l r \<longleftrightarrow> ev_key l \<le> ev_key r"
  "ev_ge l r \<longleftrightarrow> ev_key l \<ge> ev_key r"
  "ev_eq l r \<longleftrightarrow> ev_key l = ev_key r"
  "ev_ne l r \<longleftrightarrow> ev_key l \<noteq> ev_key r"
  by (auto simp: ev_lt_def ev_gt_def ev_le_def ev_ge_def ev_eq_def ev_ne_def ev_key_def)

lemma ev_key_update [simp]:
  "ev_key (e\<lparr>nextBin := x\<rparr>) = ev_key e"
  "ev_key (e\<lparr>nextInBin := x\<rparr>) = ev_key e"
  "ev_key (e\<lparr>ev_scheduled := b\<rparr>) = ev_key e"
  by (simp_all add: ev_key_def)

end
