(* ===== verification/Event_Queue_Spec.thy ===== *)
theory Event_Queue_Spec
  imports Event_Queue_Refine
begin

text \<open>
  The contract of the event queue as its clients use it. \<open>eq_list q xs\<close> says that the
  queue \<open>q\<close> holds exactly the events \<open>xs\<close>, in the order in which they will be
  serviced; every public operation is specified on that list. \<open>eq_wf\<close> adds that no
  pending event lies in the past, the invariant that makes simulated time monotone.
\<close>

section \<open>The queue as a list in service order\<close>

definition eq_list :: "'a EventQueue_scheme \<Rightarrow> eid list \<Rightarrow> bool" where
  "eq_list q xs \<longleftrightarrow> (\<exists>bs. eq_repr q bs \<and> xs = members bs)"

text \<open>Insertion in front of the first event whose time and priority are not smaller.\<close>

definition insert_at :: "('e \<Rightarrow> 'k::linorder) \<Rightarrow> 'k \<Rightarrow> 'e \<Rightarrow> 'e list \<Rightarrow> 'e list" where
  "insert_at k v e xs = takeWhile (\<lambda>x. k x < v) xs @ e # dropWhile (\<lambda>x. k x < v) xs"

lemma set_insert_at [simp]: "set (insert_at k v e xs) = insert e (set xs)"
  by (induction xs) (auto simp: insert_at_def)

lemma mset_insert_at [simp]: "mset (insert_at k v e xs) = add_mset e (mset xs)"
  by (induction xs) (auto simp: insert_at_def)

lemma insert_at_cong:
  "(\<And>x. x \<in> set xs \<Longrightarrow> k x = k' x) \<Longrightarrow> insert_at k v e xs = insert_at k' v e xs"
  by (simp add: insert_at_def cong: takeWhile_cong dropWhile_cong)

lemma members_bins_insert:
  "bins_ok k bs \<Longrightarrow> members (bins_insert v e bs) = insert_at k v e (members bs)"
proof (induction v e bs rule: bins_insert.induct)
  case (2 v e w b bs)
  have ge: "w \<le> k x" if "x \<in> set b \<union> set (members bs)" for x
    using bins_ok_hd_min [OF "2.prems" that] .
  have eq: "k x = w" if "x \<in> set b" for x using "2.prems" that by simp
  show ?case
  proof (cases "v \<le> w")
    case True
    have ne: "b @ members bs \<noteq> []" using "2.prems" by simp
    then have "hd (b @ members bs) \<in> set b \<union> set (members bs)" by (metis hd_in_set set_append)
    from ge [OF this] True have "v \<le> k (hd (b @ members bs))" by (rule order.trans [rotated])
    then have nlt: "\<not> k (hd (b @ members bs)) < v" by (rule leD)
    have "takeWhile (\<lambda>x. k x < v) (b @ members bs) = []"
      "dropWhile (\<lambda>x. k x < v) (b @ members bs) = b @ members bs"
      using nlt by (simp_all only: takeWhile_eq_Nil_iff dropWhile_eq_self_iff disj_not1 simp_thms)
    with True show ?thesis by (auto simp: insert_at_def order.order_iff_strict)
  next
    case False
    then have "w < v" by simp
    then have "insert_at k v e (b @ members bs) = b @ insert_at k v e (members bs)"
      using eq by (simp add: insert_at_def takeWhile_append2 dropWhile_append2)
    with False \<open>w < v\<close> 2 show ?thesis by auto
  qed
qed (simp add: insert_at_def)

lemma members_bins_remove:
  "bins_ok k bs \<Longrightarrow> e \<in> set (members bs) \<Longrightarrow> k e = v \<Longrightarrow>
     members (bins_remove v e bs) = remove1 e (members bs)"
proof (induction v e bs rule: bins_remove.induct)
  case (2 v e w b bs)
  show ?case
  proof (cases "e \<in> set b")
    case True
    then have "w = v" using "2.prems" by simp
    with True show ?thesis by (simp add: remove1_append)
  next
    case False
    then have e: "e \<in> set (members bs)" and ok: "bins_ok k bs" using "2.prems" by simp_all
    have "v \<in> fst ` set bs" using members_key [OF ok e] "2.prems"(3) by simp
    then have "w \<noteq> v" using "2.prems"(1) by auto
    with "2.IH" [OF _ ok e "2.prems"(3)] False show ?thesis by (simp add: remove1_append)
  qed
qed simp

lemma eq_repr_cur_tick [simp]: "eq_repr (q\<lparr>cur_tick := t\<rparr>) bs = eq_repr q bs"
  by (simp add: eq_repr_def)

lemma eq_list_cur_tick [simp]: "eq_list (q\<lparr>cur_tick := t\<rparr>) xs = eq_list q xs"
  by (simp add: eq_list_def)

lemma eq_list_sorted: "eq_list q xs \<Longrightarrow> sorted (map (key_of (events q)) xs)"
  by (auto simp: eq_list_def eq_repr_def bins_ok_sorted)

lemma eq_list_distinct: "eq_list q xs \<Longrightarrow> distinct xs"
  by (auto simp: eq_list_def eq_repr_def bins_ok_def)

lemma eq_list_scheduled: "eq_list q xs \<Longrightarrow> ev_scheduled (events q e) \<longleftrightarrow> e \<in> set xs"
  by (auto simp: eq_list_def eq_repr_def)

lemma eq_list_new:
  "(\<And>e. \<not> ev_scheduled (h e)) \<Longrightarrow> eq_list (new_EventQueue n h) []"
  by (auto simp: eq_list_def eq_repr_def new_EventQueue_def intro!: exI [of _ "[]"])

lemma eq_list_head:
  assumes "eq_list q xs"
  shows "qhead q = (case xs of [] \<Rightarrow> None | x # _ \<Rightarrow> Some x)"
proof -
  obtain bs where bs: "eq_repr q bs" "xs = members bs" using assms by (auto simp: eq_list_def)
  show ?thesis
  proof (cases bs)
    case (Cons c bs')
    obtain v b where "c = (v, b)" by (cases c)
    with bs Cons show ?thesis
      by (cases b) (auto simp: eq_repr_def)
  qed (use bs in \<open>simp add: eq_repr_def\<close>)
qed

lemma eq_insert_list:
  assumes "eq_list q xs" "e \<notin> set xs"
  shows "\<exists>h' p'. eq_insert e q = ret (q\<lparr>events := h', qhead := p'\<rparr>) \<and>
           eq_list (q\<lparr>events := h', qhead := p'\<rparr>)
             (insert_at (key_of (events q)) (key_of (events q) e) e xs) \<and>
           key_of h' = key_of (events q)"
proof -
  obtain bs where bs: "eq_repr q bs" "xs = members bs" using assms by (auto simp: eq_list_def)
  then have "bins_ok (key_of (events q)) bs" by (simp add: eq_repr_def)
  from members_bins_insert [OF this] eq_insert_refines [OF bs(1)] assms(2) bs(2)
  show ?thesis unfolding eq_list_def by metis
qed

lemma eq_remove_list:
  assumes "eq_list q xs" "e \<in> set xs"
  shows "\<exists>h' p'. eq_remove e q = ret (q\<lparr>events := h', qhead := p'\<rparr>) \<and>
           eq_list (q\<lparr>events := h', qhead := p'\<rparr>) (remove1 e xs) \<and>
           key_of h' = key_of (events q)"
proof -
  obtain bs where bs: "eq_repr q bs" "xs = members bs" using assms by (auto simp: eq_list_def)
  then have "bins_ok (key_of (events q)) bs" by (simp add: eq_repr_def)
  from members_bins_remove [OF this _ refl] eq_remove_refines [OF bs(1)] assms(2) bs(2)
  show ?thesis unfolding eq_list_def by metis
qed

lemma eq_pop_list:
  assumes "eq_list q (e # xs)"
  shows "eq_list (eq_pop e q) xs" "cur_tick (eq_pop e q) = ev_when (events q e)"
    "key_of (events (eq_pop e q)) = key_of (events q)"
proof -
  obtain bs0 where bs0: "eq_repr q bs0" "e # xs = members bs0" using assms by (auto simp: eq_list_def)
  have nonempty: "\<forall>(v, b)\<in>set bs0. b \<noteq> []" using bs0(1) by (auto simp: eq_repr_def bins_ok_def)
  obtain v ys bs where bs: "bs0 = (v, e # ys) # bs" "xs = ys @ members bs"
    using bs0(2) nonempty by (cases bs0) (auto simp: Cons_eq_append_conv)
  note repr = bs0(1) [unfolded bs]
  define h where "h = (events q)(e := (events q e)\<lparr>ev_scheduled := False\<rparr>)"
  note mark = eq_repr_unmark [OF repr h_def]
  have v': "key_of (events q) e = v" using mark(2) by (simp add: mark(4))
  from removeItem_bin [OF mark(1,2), of e] obtain h' p' where
    r: "removeItem h e e = ret (h', p')" "bin_path h' p' (bins_remove v e ((v, e # ys) # bs)) None"
      "\<And>x. ev_key (h' x) = ev_key (h x) \<and> ev_scheduled (h' x) = ev_scheduled (h x)"
    by auto
  have keep: "ev_when (h e) = ev_when (events q e)" by (simp add: h_def)
  have pop: "eq_pop e q = q\<lparr>events := h', qhead := p', cur_tick := ev_when (events q e)\<rparr>"
    using r(1) unfolding eq_pop_def Let_def h_def [symmetric] keep
    by (auto simp: removeItem_def split: option.splits)
  have mem: "e \<in> set (members ((v, e # ys) # bs))" by simp
  have path: "bin_path h' p' (bins_remove (key_of (events q) e) e ((v, e # ys) # bs)) None"
    unfolding v' by (rule r(2))
  have "eq_repr (q\<lparr>events := h', qhead := p'\<rparr>) (bins_remove v e ((v, e # ys) # bs)) \<and>
      key_of h' = key_of (events q)"
    using eq_remove_conclude [OF repr mem h_def path r(3)] unfolding v' .
  then have rq: "eq_repr (q\<lparr>events := h', qhead := p'\<rparr>) (cons_bin (v, ys) bs)"
    and keys: "key_of h' = key_of (events q)" by simp_all
  have pop': "eq_pop e q = q\<lparr>events := h', qhead := p'\<rparr>\<lparr>cur_tick := ev_when (events q e)\<rparr>"
    by (simp only: pop)
  show "eq_list (eq_pop e q) xs"
    unfolding pop' eq_list_def eq_repr_cur_tick bs(2) 
    using rq by (intro exI [of _ "cons_bin (v, ys) bs"]) simp
  show "key_of (events (eq_pop e q)) = key_of (events q)" 
    using keys by (simp add: pop)
  show "cur_tick (eq_pop e q) = ev_when (events q e)" by (simp add: pop)
qed

text \<open>\<open>schedule\<close>: the event is queued at its new time, in front of its equals.\<close>

lemma eq_schedule_list:
  assumes "eq_list q xs" "e \<notin> set xs" "cur_tick q \<le> w"
    and k_def: "k = (\<lambda>x. if x = e then (w, ev_priority (events q e)) else key_of (events q) x)"
  shows "\<exists>h' p'. eq_schedule e w q = ret (q\<lparr>events := h', qhead := p'\<rparr>) \<and>
           eq_list (q\<lparr>events := h', qhead := p'\<rparr>) (insert_at k (k e) e xs) \<and> key_of h' = k"
proof -
  define q1 where "q1 = q\<lparr>events := (events q)(e := (events q e)\<lparr>ev_when := w\<rparr>)\<rparr>"
  obtain bs where bs: "eq_repr q bs" "xs = members bs" using assms(1) by (auto simp: eq_list_def)
  have k: "key_of (events q1) = k" by (auto simp: q1_def k_def ev_key_def)
  have "bins_ok (key_of (events q1)) bs"
    using bs assms(2) by (subst bins_ok_cong [where k' = "key_of (events q)"])
      (auto simp: eq_repr_def q1_def)
  then have "eq_repr q1 bs" using bs assms(2) by (auto simp: eq_repr_def q1_def)
  then have "eq_list q1 xs" using bs(2) by (auto simp: eq_list_def)
  from eq_insert_list [OF this assms(2)] have
    "\<exists>h' p'. eq_insert e q1 = ret (q1\<lparr>events := h', qhead := p'\<rparr>) \<and>
       eq_list (q1\<lparr>events := h', qhead := p'\<rparr>) (insert_at k (k e) e xs) \<and> key_of h' = k"
    unfolding k fun_cong [OF k] .
  moreover have "q1\<lparr>events := h', qhead := p'\<rparr> = q\<lparr>events := h', qhead := p'\<rparr>" for h' p'
    by (simp add: q1_def)
  moreover have "eq_schedule e w q = eq_insert e q1"
    using assms(1-3) by (simp add: eq_schedule_def eq_list_scheduled q1_def)
  ultimately show ?thesis by simp
qed

lemma eq_schedule_scheduled:
  "ev_scheduled (events q e) \<Longrightarrow> eq_schedule e w q = raise AssertFailed"
  by (simp add: eq_schedule_def)

lemma eq_deschedule_missing:
  "eq_list q xs \<Longrightarrow> e \<notin> set xs \<Longrightarrow> eq_deschedule e q = raise event_not_found"
  by (auto simp: eq_deschedule_def eq_list_def eq_remove_missing)

section \<open>The invariant of a running queue\<close>

definition eq_wf :: "'a EventQueue_scheme \<Rightarrow> bool" where
  "eq_wf q \<longleftrightarrow> (\<exists>xs. eq_list q xs \<and> (\<forall>e\<in>set xs. cur_tick q \<le> ev_when (events q e)))"

definition pending :: "'a EventQueue_scheme \<Rightarrow> eid set" where
  "pending q = {e. ev_scheduled (events q e)}"

lemma eq_wf_pending:
  "eq_wf q \<Longrightarrow> ev_scheduled (events q e) \<Longrightarrow> cur_tick q \<le> ev_when (events q e)"
  by (auto simp: eq_wf_def eq_list_scheduled)

lemma eq_list_pending: "eq_list q xs \<Longrightarrow> pending q = set xs"
  by (auto simp: pending_def eq_list_scheduled)

lemma key_of_when: "key_of h = k \<Longrightarrow> ev_when (h x) = fst (k x)"
  by (auto simp: ev_key_def)

lemma key_of_priority: "key_of h = k \<Longrightarrow> ev_priority (h x) = snd (k x)"
  by (auto simp: ev_key_def)

lemma eq_schedule_wf:
  assumes "eq_wf q" "\<not> ev_scheduled (events q e)" "cur_tick q \<le> w"
  shows "\<exists>h' p'. eq_schedule e w q = ret (q\<lparr>events := h', qhead := p'\<rparr>) \<and>
           eq_wf (q\<lparr>events := h', qhead := p'\<rparr>) \<and>
           (\<forall>x. ev_scheduled (h' x) \<longleftrightarrow> x = e \<or> ev_scheduled (events q x)) \<and>
           (\<forall>x. ev_when (h' x) = (if x = e then w else ev_when (events q x))) \<and>
           (\<forall>x. ev_priority (h' x) = ev_priority (events q x))"
proof -
  obtain xs where xs: "eq_list q xs" "\<forall>x\<in>set xs. cur_tick q \<le> ev_when (events q x)"
    using assms(1) by (auto simp: eq_wf_def)
  have e: "e \<notin> set xs" using assms(2) xs(1) by (simp add: eq_list_scheduled)
  define k where "k = (\<lambda>x. if x = e then (w, ev_priority (events q e)) else key_of (events q) x)"
  obtain h' p' where r: "eq_schedule e w q = ret (q\<lparr>events := h', qhead := p'\<rparr>)"
      "eq_list (q\<lparr>events := h', qhead := p'\<rparr>) (insert_at k (k e) e xs)" "key_of h' = k"
    using eq_schedule_list [OF xs(1) e assms(3) k_def] by blast
  have w: "ev_when (h' x) = (if x = e then w else ev_when (events q x))" for x
    using key_of_when [OF r(3)] by (simp add: k_def ev_key_def)
  have p: "ev_priority (h' x) = ev_priority (events q x)" for x
    using key_of_priority [OF r(3)] by (simp add: k_def ev_key_def)
  have s: "ev_scheduled (h' x) \<longleftrightarrow> x = e \<or> ev_scheduled (events q x)" for x
    using eq_list_scheduled [OF r(2), of x] eq_list_scheduled [OF xs(1), of x] by simp
  have "eq_wf (q\<lparr>events := h', qhead := p'\<rparr>)"
    unfolding eq_wf_def using r(2) w xs(2) e assms(3)
    by (intro exI [of _ "insert_at k (k e) e xs"]) auto
  with r(1) w p s show ?thesis by blast
qed

lemma eq_deschedule_wf:
  assumes "eq_wf q" "ev_scheduled (events q e)"
  shows "\<exists>h' p'. eq_deschedule e q = ret (q\<lparr>events := h', qhead := p'\<rparr>) \<and>
           eq_wf (q\<lparr>events := h', qhead := p'\<rparr>) \<and>
           (\<forall>x. ev_scheduled (h' x) \<longleftrightarrow> x \<noteq> e \<and> ev_scheduled (events q x)) \<and>
           key_of h' = key_of (events q)"
proof -
  obtain xs where xs: "eq_list q xs" "\<forall>x\<in>set xs. cur_tick q \<le> ev_when (events q x)"
    using assms(1) by (auto simp: eq_wf_def)
  have e: "e \<in> set xs" using assms(2) xs(1) by (simp add: eq_list_scheduled)
  obtain h' p' where r: "eq_remove e q = ret (q\<lparr>events := h', qhead := p'\<rparr>)"
      "eq_list (q\<lparr>events := h', qhead := p'\<rparr>) (remove1 e xs)" "key_of h' = key_of (events q)"
    using eq_remove_list [OF xs(1) e] by blast
  note w = key_of_when [OF r(3), unfolded ev_key_def fst_conv]
  have s: "ev_scheduled (h' x) \<longleftrightarrow> x \<noteq> e \<and> ev_scheduled (events q x)" for x
    using eq_list_scheduled [OF r(2), of x] eq_list_scheduled [OF xs(1), of x]
      eq_list_distinct [OF xs(1)] by auto
  have "eq_wf (q\<lparr>events := h', qhead := p'\<rparr>)"
    unfolding eq_wf_def using r(2) w xs(2) set_remove1_subset
    by (intro exI [of _ "remove1 e xs"]) auto
  with r s show ?thesis unfolding eq_deschedule_def by blast
qed

text \<open>
  Popping the head: the clock moves forward to the earliest pending time, and the
  invariant holds again for the rest.
\<close>

lemma eq_pop_wf:
  assumes "eq_wf q" "qhead q = Some e"
  shows "eq_wf (eq_pop e q)" "ev_scheduled (events q e)"
    "cur_tick (eq_pop e q) = ev_when (events q e)" "cur_tick q \<le> cur_tick (eq_pop e q)"
    "\<And>x. ev_scheduled (events q x) \<Longrightarrow> key_of (events q) e \<le> key_of (events q) x"
    "\<And>x. ev_scheduled (events (eq_pop e q) x) \<longleftrightarrow> x \<noteq> e \<and> ev_scheduled (events q x)"
    "key_of (events (eq_pop e q)) = key_of (events q)"
proof -
  obtain ys where ys: "eq_list q ys" "\<forall>x\<in>set ys. cur_tick q \<le> ev_when (events q x)"
    using assms(1) by (auto simp: eq_wf_def)
  obtain xs where xs: "ys = e # xs"
    using eq_list_head [OF ys(1)] assms(2) by (cases ys) auto
  note l = ys(1) [unfolded xs]
  note pop = eq_pop_list [OF l]
  have min: "key_of (events q) e \<le> key_of (events q) x" if "x \<in> set xs" for x
    using eq_list_sorted [OF l] that by simp
  show "ev_scheduled (events q e)" using l by (simp add: eq_list_scheduled)
  show "key_of (events q) e \<le> key_of (events q) x" if "ev_scheduled (events q x)" for x
    using min that eq_list_scheduled [OF l, of x] by auto
  show "cur_tick (eq_pop e q) = ev_when (events q e)" by (rule pop(2))
  show "cur_tick q \<le> cur_tick (eq_pop e q)" using ys(2) by (simp add: pop(2) xs)
  show "key_of (events (eq_pop e q)) = key_of (events q)" by (rule pop(3))
  show "ev_scheduled (events (eq_pop e q) x) \<longleftrightarrow> x \<noteq> e \<and> ev_scheduled (events q x)" for x
    using eq_list_scheduled [OF pop(1), of x] eq_list_scheduled [OF l, of x]
      eq_list_distinct [OF l] by auto
  have times: "ev_when (events (eq_pop e q) x) = ev_when (events q x)" for x
    using key_of_when [OF pop(3)] by (simp add: ev_key_def)
  have "ev_when (events q e) \<le> ev_when (events q x)" if "x \<in> set xs" for x
    using min [OF that] by (auto simp: ev_key_def)
  then show "eq_wf (eq_pop e q)"
    unfolding eq_wf_def using pop(1,2) times by (intro exI [of _ xs]) simp
qed

end
