(* ===== verification/Event_Queue_Run.thy ===== *)
theory Event_Queue_Run
  imports Event_Queue_Spec
begin

text \<open>
  Runs of the event queue. The locale \<open>timed_queue\<close> is the interface through which the
  components see the queue (schedule at a time, take the earliest); its client lemmas
  are about batches of scheduled events. The locale \<open>event_handler\<close> is the contract of
  the callbacks; under it the simulation loop returns. The first is interpreted on the
  queue of \<open>Event_Queue\<close>, the second in \<open>Main_Run\<close> on the callbacks of the program.
\<close>

section \<open>The interface of the queue\<close>

locale timed_queue =
  fixes holds :: "'s \<Rightarrow> 'e list \<Rightarrow> bool"
    and key :: "'s \<Rightarrow> 'e \<Rightarrow> 'k::linorder"
    and at_time :: "'s \<Rightarrow> 'e \<Rightarrow> 't::order \<Rightarrow> 'k"
    and now :: "'s \<Rightarrow> 't"
    and push :: "'e \<Rightarrow> 't \<Rightarrow> 's \<Rightarrow> 's run"
    and front :: "'s \<Rightarrow> 'e option"
    and pop :: "'e \<Rightarrow> 's \<Rightarrow> 's"
  assumes holds_sorted: "holds s xs \<Longrightarrow> sorted (map (key s) xs)"
    and push_holds: "holds s xs \<Longrightarrow> e \<notin> set xs \<Longrightarrow> now s \<le> t \<Longrightarrow>
      \<exists>s'. push e t s = ret s' \<and> holds s' (insert_at (key s') (key s' e) e xs) \<and>
        key s' = (key s)(e := at_time s e t) \<and> now s' = now s \<and> at_time s' = at_time s"
    and front_holds: "holds s xs \<Longrightarrow> front s = (case xs of [] \<Rightarrow> None | x # _ \<Rightarrow> Some x)"
    and pop_holds: "holds s (x # xs) \<Longrightarrow> holds (pop x s) xs \<and> key (pop x s) = key s"
begin

text \<open>Scheduling a batch of distinct events succeeds and queues exactly them, in order.\<close>

lemma push_all:
  assumes "holds s xs" "distinct (map fst es)" "set xs \<inter> fst ` set es = {}"
    "\<forall>(e, t)\<in>set es. now s \<le> t"
  shows "\<exists>s' ys. for_run (\<lambda>(e, t). push e t) es s = ret s' \<and> holds s' ys \<and>
    mset ys = mset xs + mset (map fst es) \<and> sorted (map (key s') ys) \<and>
    (\<forall>(e, t)\<in>set es. key s' e = at_time s e t) \<and>
    (\<forall>e. e \<notin> fst ` set es \<longrightarrow> key s' e = key s e) \<and> now s' = now s"
  using assms
proof (induction es arbitrary: s xs)
  case Nil
  then show ?case by (auto intro!: exI [of _ xs] dest: holds_sorted)
next
  case (Cons et es)
  obtain e t where et: "et = (e, t)" by (cases et)
  have e: "e \<notin> set xs" "now s \<le> t" using Cons.prems by (auto simp: et)
  obtain s1 where s1: "push e t s = ret s1" "holds s1 (insert_at (key s1) (key s1 e) e xs)"
      "key s1 = (key s)(e := at_time s e t)" "now s1 = now s" "at_time s1 = at_time s"
    using push_holds [OF Cons.prems(1) e] by blast
  have hyps: "distinct (map fst es)"
      "set (insert_at (key s1) (key s1 e) e xs) \<inter> fst ` set es = {}"
      "\<forall>(e, t)\<in>set es. now s1 \<le> t"
    using Cons.prems s1(4) by (auto simp: et)
  from Cons.IH [OF s1(2) hyps] obtain s' ys where r:
      "for_run (\<lambda>(e, t). push e t) es s1 = ret s'" "holds s' ys"
      "mset ys = mset (insert_at (key s1) (key s1 e) e xs) + mset (map fst es)"
      "sorted (map (key s') ys)" "\<forall>(e, t)\<in>set es. key s' e = at_time s1 e t"
      "\<forall>e. e \<notin> fst ` set es \<longrightarrow> key s' e = key s1 e" "now s' = now s1"
    by blast
  have "key s' e = at_time s e t" using r(6) s1(3) Cons.prems(2) by (simp add: et)
  then show ?case
    using r s1 Cons.prems(2) by (intro exI [of _ s'] exI [of _ ys]) (auto simp: et mset_insert_at)
qed

lemma front_minimal: "holds s xs \<Longrightarrow> front s = Some x \<Longrightarrow> y \<in> set xs \<Longrightarrow> key s x \<le> key s y"
  using holds_sorted [of s xs] front_holds [of s xs] by (cases xs) auto

end

interpretation evq: timed_queue eq_list "\<lambda>q. key_of (events q)"
  "\<lambda>q e t. (t, ev_priority (events q e))" cur_tick eq_schedule qhead eq_pop
proof
  fix q :: "'a EventQueue_scheme" and xs e t
  assume asm: "eq_list q xs" "e \<notin> set xs" "cur_tick q \<le> t"
  define k where "k = (\<lambda>x. if x = e then (t, ev_priority (events q e)) else key_of (events q) x)"
  obtain h' p' where r: "eq_schedule e t q = ret (q\<lparr>events := h', qhead := p'\<rparr>)"
    "eq_list (q\<lparr>events := h', qhead := p'\<rparr>) (insert_at k (k e) e xs)" "key_of h' = k"
    using eq_schedule_list [OF asm k_def] by blast
  have "ev_priority (h' x) = ev_priority (events q x)" for x
    using key_of_priority [OF r(3)] by (simp add: k_def ev_key_def)
  then show "\<exists>s'. eq_schedule e t q = ret s' \<and>
      eq_list s' (insert_at (key_of (events s')) (key_of (events s') e) e xs) \<and>
      key_of (events s') = (key_of (events q))(e := (t, ev_priority (events q e))) \<and>
      cur_tick s' = cur_tick q \<and>
      (\<lambda>e t. (t, ev_priority (events s' e))) = (\<lambda>e t. (t, ev_priority (events q e)))"
    using r(1,2) fun_cong [OF r(3)] by (auto simp: r(3) k_def intro!: exI)
qed (use eq_pop_list in \<open>auto dest: eq_list_sorted eq_list_head\<close>)

section \<open>The contract of the callbacks\<close>

text \<open>
  What a callback may do to the queue: it leaves the clock alone, and what is scheduled
  after it was scheduled before for the same time, or is for the next tick.
\<close>

definition later :: "'a EventQueue_scheme \<Rightarrow> 'a EventQueue_scheme \<Rightarrow> bool" where
  "later s s' \<longleftrightarrow>
     cur_tick s' = cur_tick s \<and>
     (\<forall>x. ev_scheduled (events s' x) \<longrightarrow>
        ev_scheduled (events s x) \<and> ev_when (events s' x) = ev_when (events s x) \<or>
        ev_when (events s' x) = cur_tick s + 1)"

lemma later_refl [simp]: "later s s"
  by (simp add: later_def)

lemma later_trans: "later s s' \<Longrightarrow> later s' s'' \<Longrightarrow> later s s''"
  unfolding later_def by metis

lemma later_cong: "events s' = events s \<Longrightarrow> cur_tick s' = cur_tick s \<Longrightarrow> later s0 s' = later s0 s"
  by (simp add: later_def)

text \<open>
  \<open>inv\<close> is the invariant of the whole simulator state up to the time \<open>limit\<close>. A callback
  finds it for the state from which its own event is popped, returns, and establishes it
  again.
\<close>

locale event_handler =
  fixes process :: "eid \<Rightarrow> 'a EventQueue_scheme \<Rightarrow> 'a EventQueue_scheme run"
    and inv :: "'a EventQueue_scheme \<Rightarrow> bool"
    and limit :: tick
  assumes inv_wf: "inv q \<Longrightarrow> eq_wf q"
    and process_inv: "inv q \<Longrightarrow> qhead q = Some e \<Longrightarrow> cur_tick q < limit \<Longrightarrow>
      \<exists>q'. process e (eq_pop e q) = ret q' \<and> inv q' \<and> later (eq_pop e q) q'"
begin

text \<open>The time that is left, and the events that are due at the current time.\<close>

definition time_left :: "'a EventQueue_scheme \<Rightarrow> nat" where
  "time_left q = unat limit - unat (cur_tick q)"

definition due_now :: "'a EventQueue_scheme \<Rightarrow> eid set" where
  "due_now q = {x. ev_scheduled (events q x) \<and> ev_when (events q x) = cur_tick q}"

lemma due_now_finite: "eq_wf q \<Longrightarrow> finite (due_now q)"
  by (auto simp: eq_wf_def due_now_def eq_list_scheduled)

lemma serviceOne_total:
  assumes "inv q" "\<not> eq_empty q" "cur_tick q < limit"
  shows "\<exists>q'. eq_serviceOne process q = ret q' \<and> inv q' \<and> cur_tick q \<le> cur_tick q' \<and>
    (time_left q' < time_left q \<or> time_left q' = time_left q \<and> card (due_now q') < card (due_now q))"
proof -
  obtain e where e: "qhead q = Some e" using assms(2) by (auto simp: eq_empty_def)
  note pop = eq_pop_wf [OF inv_wf [OF assms(1)] e]
  obtain q' where q': "process e (eq_pop e q) = ret q'" "inv q'" "later (eq_pop e q) q'"
    using process_inv [OF assms(1) e assms(3)] by blast
  have t: "cur_tick q' = ev_when (events q e)" using q'(3) pop(3) by (simp add: later_def)
  have le: "cur_tick q \<le> cur_tick q'" using pop(3,4) t by simp
  have w: "ev_when (events (eq_pop e q) x) = ev_when (events q x)" for x
    using key_of_when [OF pop(7)] by (simp add: ev_key_def)
  have "time_left q' < time_left q \<or> time_left q' = time_left q \<and> card (due_now q') < card (due_now q)"
  proof (cases "cur_tick q' = cur_tick q")
    case True
    have "due_now q' \<subseteq> due_now q - {e}"
    proof
      fix x assume x: "x \<in> due_now q'"
      then have "ev_when (events q' x) \<noteq> cur_tick (eq_pop e q) + 1" using t pop(3) by (simp add: due_now_def)
      then have "ev_scheduled (events (eq_pop e q) x)" "ev_when (events (eq_pop e q) x) = cur_tick q'"
        using x q'(3) by (auto simp: due_now_def later_def)
      then show "x \<in> due_now q - {e}" using pop(6) w True by (auto simp: due_now_def)
    qed
    moreover have "e \<in> due_now q" using pop(2) t True by (simp add: due_now_def)
    ultimately have "card (due_now q') < card (due_now q)"
      using due_now_finite [OF inv_wf [OF assms(1)]] by (intro psubset_card_mono) auto
    then show ?thesis using True by (simp add: time_left_def)
  next
    case False
    then have "unat (cur_tick q) < unat (cur_tick q')" using le by (simp add: word_less_nat_alt [symmetric])
    moreover have "unat (cur_tick q) < unat limit" using assms(3) by (simp add: word_less_nat_alt)
    ultimately show ?thesis by (simp add: time_left_def diff_less_mono2)
  qed
  then show ?thesis using q' e le by (auto simp: eq_serviceOne_def)
qed

text \<open>The simulation loop returns: time moves on, and each tick has finitely many events.\<close>

lemma simulate_total:
  "inv q \<Longrightarrow> \<exists>q'. simulate process limit q = ret q' \<and> inv q' \<and> cur_tick q \<le> cur_tick q' \<and>
     (eq_empty q' \<or> limit \<le> cur_tick q')"
proof (induction q rule: wf_induct_rule [OF wf_inv_image [OF wf_lex_prod [OF wf_less wf_less],
      where f = "\<lambda>q. (time_left q, card (due_now q))"]])
  case (1 q)
  show ?case
  proof (cases "\<not> eq_empty q \<and> cur_tick q < limit")
    case True
    then obtain q1 where q1: "eq_serviceOne process q = ret q1" "inv q1" "cur_tick q \<le> cur_tick q1"
        "time_left q1 < time_left q \<or> time_left q1 = time_left q \<and> card (due_now q1) < card (due_now q)"
      using serviceOne_total [OF 1(2)] by blast
    obtain q' where "simulate process limit q1 = ret q'" "inv q'" "cur_tick q1 \<le> cur_tick q'"
        "eq_empty q' \<or> limit \<le> cur_tick q'"
      using 1(1) [of q1] q1(2,4) by (auto simp: inv_image_def)
    moreover have "simulate process limit q = simulate process limit q1"
      using True q1(1) by (subst simulate.simps) simp
    ultimately show ?thesis using q1(3) by auto
  next
    case False
    then have "simulate process limit q = ret q" by (subst simulate.simps) auto
    then show ?thesis using 1(2) False by (auto simp: not_less)
  qed
qed

end

section \<open>Runs whose callbacks leave the queue alone\<close>

text \<open>
  With callbacks that only change the component state behind the queue
  (\<open>EventQueue.more\<close>), servicing up to a time runs exactly the events due by
  then, in order, and returns.
\<close>

definition pure_process ::
    "(eid \<Rightarrow> 'a \<Rightarrow> 'a) \<Rightarrow> eid \<Rightarrow> 'a EventQueue_scheme \<Rightarrow> 'a EventQueue_scheme run" where
  "pure_process f e q = ret (EventQueue.more_update (f e) q)"

lemma eq_list_more [simp]: "eq_list (EventQueue.more_update f q) xs = eq_list q xs"
  by (simp add: eq_list_def eq_repr_def)

lemma eq_pop_more [simp]: "EventQueue.more (eq_pop e q) = EventQueue.more q"
  by (simp add: eq_pop_def Let_def split: option.splits)

lemma eq_serviceEvents_pure:
  assumes "eq_list q xs"
  shows "\<exists>q'. eq_serviceEvents (pure_process f) w q = ret q' \<and> cur_tick q' = w \<and>
    eq_list q' (dropWhile (\<lambda>e. ev_when (events q e) \<le> w) xs) \<and>
    EventQueue.more q' = fold f (takeWhile (\<lambda>e. ev_when (events q e) \<le> w) xs) (EventQueue.more q) \<and>
    key_of (events q') = key_of (events q)"
  using assms
proof (induction xs arbitrary: q)
  case Nil
  then show ?case
    using eq_list_head [OF Nil] by (subst eq_serviceEvents.simps) (simp add: eq_setCurTick_def)
next
  case (Cons e xs)
  have hd: "qhead q = Some e" using eq_list_head [OF Cons.prems] by simp
  define q1 where "q1 = EventQueue.more_update (f e) (eq_pop e q)"
  have q1: "eq_serviceOne (pure_process f) q = ret q1"
    by (simp add: eq_serviceOne_def hd pure_process_def q1_def)
  note pop = eq_pop_list [OF Cons.prems]
  have l1: "eq_list q1 xs" using pop(1) by (simp add: q1_def)
  have k1: "key_of (events q1) = key_of (events q)" using pop(3) by (simp add: q1_def)
  have w1: "ev_when (events q1 x) = ev_when (events q x)" for x
    using key_of_when [OF k1] by (simp add: ev_key_def)
  have m1: "EventQueue.more q1 = f e (EventQueue.more q)" by (simp add: q1_def)
  show ?case
  proof (cases "ev_when (events q e) \<le> w")
    case True
    then have "eq_serviceEvents (pure_process f) w q = eq_serviceEvents (pure_process f) w q1"
      by (subst eq_serviceEvents.simps) (simp add: hd q1 leD)
    with Cons.IH [OF l1] True k1 show ?thesis by (simp add: w1 m1)
  next
    case False
    then have late: "(ev_when (events q e) \<le> w) = False" "(w < ev_when (events q e)) = True"
      by simp_all
    show ?thesis
      using Cons.prems by (subst eq_serviceEvents.simps) (simp add: hd eq_setCurTick_def late)
  qed
qed

text \<open>The destructor empties any well-formed queue.\<close>

lemma eq_destroy_list:
  assumes "eq_list q xs"
  shows "\<exists>h'. eq_destroy q = ret (q\<lparr>events := h', qhead := None\<rparr>) \<and> (\<forall>e. \<not> ev_scheduled (h' e))"
  using assms
proof (induction xs arbitrary: q)
  case Nil
  have "eq_destroy q = ret (q\<lparr>events := events q, qhead := None\<rparr>)"
    using eq_list_head [OF Nil] by (subst eq_destroy.simps) (cases q; simp)
  with Nil show ?case by (metis eq_list_scheduled empty_iff empty_set)
next
  case (Cons e xs)
  obtain h' p' where r: "eq_remove e q = ret (q\<lparr>events := h', qhead := p'\<rparr>)"
      "eq_list (q\<lparr>events := h', qhead := p'\<rparr>) xs"
    using eq_remove_list [OF Cons.prems, of e] by auto
  have "eq_destroy q = eq_destroy (q\<lparr>events := h', qhead := p'\<rparr>)"
    using eq_list_head [OF Cons.prems] by (subst eq_destroy.simps) (simp add: eq_deschedule_def r(1))
  with Cons.IH [OF r(2)] show ?case by simp
qed

section \<open>The scheduling idiom of the components\<close>

text \<open>\<open>schedule(ev, curTick() + 1)\<close> unless the event is already scheduled.\<close>

definition schedule_next :: "eid \<Rightarrow> 'a EventQueue_scheme \<Rightarrow> 'a EventQueue_scheme run" where
  "schedule_next e s =
     (if ev_scheduled (events s e) then ret s else eq_schedule e (cur_tick s + 1) s)"

lemma upd_same_events [simp]: "q\<lparr>events := events q, qhead := qhead q\<rparr> = q"
  by simp

lemma next_tick_le: "t \<noteq> - 1 \<Longrightarrow> t \<le> t + (1 :: tick)"
  by (metis inc_less_eq_self_iff_eq linorder_le_cases)

lemma schedule_next_wf:
  assumes "eq_wf s" "cur_tick s \<noteq> - 1"
  shows "\<exists>h p. schedule_next e s = ret (s\<lparr>events := h, qhead := p\<rparr>) \<and>
    eq_wf (s\<lparr>events := h, qhead := p\<rparr>) \<and>
    (\<forall>x. ev_scheduled (h x) \<longleftrightarrow> x = e \<or> ev_scheduled (events s x)) \<and> later s (s\<lparr>events := h, qhead := p\<rparr>)"
proof (cases "ev_scheduled (events s e)")
  case True
  then show ?thesis
    using assms by (intro exI [of _ "events s"] exI [of _ "qhead s"]) (auto simp: schedule_next_def)
next
  case False
  from eq_schedule_wf [OF assms(1) False next_tick_le [OF assms(2)]] obtain h p where
    hp: "eq_schedule e (cur_tick s + 1) s = ret (s\<lparr>events := h, qhead := p\<rparr>)" "eq_wf (s\<lparr>events := h, qhead := p\<rparr>)"
      "\<forall>x. ev_scheduled (h x) \<longleftrightarrow> x = e \<or> ev_scheduled (events s x)"
      "\<forall>x. ev_when (h x) = (if x = e then cur_tick s + 1 else ev_when (events s x))"
    by blast
  have "later s (s\<lparr>events := h, qhead := p\<rparr>)" using hp(3,4) by (simp add: later_def)
  then show ?thesis using hp(1-3) False by (simp add: schedule_next_def) blast
qed

end
