(* ===== verification/Packets.thy ===== *)
theory Packets
  imports Event_Queue_Run
begin

text \<open>
  Packets and packet queues (\<open>src/common/packet.h\<close>). A \<open>PacketPtr\<close> is an address in the
  packet heap of the simulator state; reading through a pointer that was never
  allocated or was deleted is an error, so that the safety theorems of the components
  also exclude uses after a delete.
\<close>

section \<open>Data packets\<close>

record DataPacket =
  dp_addr :: addr_t
  dp_size :: nat
  dp_data :: "32 word list"
  dp_is_write :: bool

definition new_DataPacket :: "addr_t \<Rightarrow> nat \<Rightarrow> bool \<Rightarrow> DataPacket" where
  "new_DataPacket a s r = \<lparr>dp_addr = a, dp_size = s, dp_data = [], dp_is_write = r\<rparr>"

definition getAddr :: "DataPacket \<Rightarrow> addr_t" where "getAddr p = dp_addr p"
definition getSize :: "DataPacket \<Rightarrow> nat" where "getSize p = dp_size p"
definition get_data :: "DataPacket \<Rightarrow> 32 word list" where "get_data p = dp_data p"
definition isRead :: "DataPacket \<Rightarrow> bool" where "isRead p \<longleftrightarrow> \<not> dp_is_write p"
definition isWrite :: "DataPacket \<Rightarrow> bool" where "isWrite p \<longleftrightarrow> dp_is_write p"
definition setData :: "32 word list \<Rightarrow> DataPacket \<Rightarrow> DataPacket" where
  "setData d p = p\<lparr>dp_data := d\<rparr>"
definition setAddr :: "addr_t \<Rightarrow> DataPacket \<Rightarrow> DataPacket" where
  "setAddr a p = p\<lparr>dp_addr := a\<rparr>"
definition setWrite :: "addr_t \<Rightarrow> DataPacket \<Rightarrow> DataPacket" where
  "setWrite w p = p\<lparr>dp_is_write := (w \<noteq> 0)\<rparr>"
definition setSize :: "nat \<Rightarrow> DataPacket \<Rightarrow> DataPacket" where
  "setSize s p = p\<lparr>dp_size := s\<rparr>"

lemmas packet_defs = new_DataPacket_def getAddr_def getSize_def get_data_def isRead_def
  isWrite_def setData_def setAddr_def setWrite_def setSize_def

section \<open>The packet heap\<close>

type_synonym pptr = nat

record kernel = EventQueue +
  pkts :: "pptr \<Rightarrow> DataPacket option"
  next_pkt :: pptr

definition deref :: "pptr \<Rightarrow> 'a kernel_scheme \<Rightarrow> DataPacket run" where
  "deref p s = (case pkts s p of None \<Rightarrow> raise NullDeref | Some d \<Rightarrow> ret d)"

definition alloc_pkt :: "DataPacket \<Rightarrow> 'a kernel_scheme \<Rightarrow> pptr \<times> 'a kernel_scheme" where
  "alloc_pkt d s = (next_pkt s, s\<lparr>pkts := (pkts s)(next_pkt s := Some d), next_pkt := Suc (next_pkt s)\<rparr>)"

definition delete_pkt :: "pptr \<Rightarrow> 'a kernel_scheme \<Rightarrow> 'a kernel_scheme run" where
  "delete_pkt p s =
     (case pkts s p of None \<Rightarrow> raise NullDeref | Some _ \<Rightarrow> ret (s\<lparr>pkts := (pkts s)(p := None)\<rparr>))"

definition heap_wf :: "'a kernel_scheme \<Rightarrow> bool" where
  "heap_wf s \<longleftrightarrow> (\<forall>p. pkts s p \<noteq> None \<longrightarrow> p < next_pkt s)"

section \<open>Packet queues\<close>

type_synonym PacketQueue = "pptr list"

definition pq_push :: "pptr \<Rightarrow> PacketQueue \<Rightarrow> PacketQueue" where
  "pq_push p q = q @ [p]"

definition pq_pop :: "PacketQueue \<Rightarrow> pptr option \<times> PacketQueue" where
  "pq_pop q = (case q of [] \<Rightarrow> (None, []) | p # ps \<Rightarrow> (Some p, ps))"

definition pq_empty :: "PacketQueue \<Rightarrow> bool" where "pq_empty q \<longleftrightarrow> q = []"
definition pq_size :: "PacketQueue \<Rightarrow> nat" where "pq_size q = length q"
definition pq_clear :: "PacketQueue \<Rightarrow> PacketQueue" where "pq_clear q = []"
definition pq_peek :: "PacketQueue \<Rightarrow> pptr option" where
  "pq_peek q = (case q of [] \<Rightarrow> None | p # _ \<Rightarrow> Some p)"

text \<open>The factory functions of \<open>PacketQueue\<close>.\<close>

definition PQ_create_read_packet :: "addr_t \<Rightarrow> nat \<Rightarrow> 'a kernel_scheme \<Rightarrow> pptr \<times> 'a kernel_scheme" where
  "PQ_create_read_packet a n s = alloc_pkt (new_DataPacket a n True) s"

definition PQ_create_write_packet ::
    "addr_t \<Rightarrow> 32 word list \<Rightarrow> 'a kernel_scheme \<Rightarrow> pptr \<times> 'a kernel_scheme" where
  "PQ_create_write_packet a d s = alloc_pkt (setData d (new_DataPacket a (length d) False)) s"

text \<open>The factory functions of \<open>PacketManager\<close>, the ones the components call.\<close>

definition create_read_packet :: "addr_t \<Rightarrow> nat \<Rightarrow> 'a kernel_scheme \<Rightarrow> pptr \<times> 'a kernel_scheme" where
  "create_read_packet a n s = alloc_pkt (new_DataPacket a n False) s"

definition create_write_packet ::
    "addr_t \<Rightarrow> 32 word list \<Rightarrow> 'a kernel_scheme \<Rightarrow> pptr \<times> 'a kernel_scheme" where
  "create_write_packet a d s = alloc_pkt (setData d (new_DataPacket a (length d) True)) s"

definition free_packet :: "pptr \<Rightarrow> 'a kernel_scheme \<Rightarrow> 'a kernel_scheme run" where
  "free_packet p s = delete_pkt p s"

fun create_batch_read_packets ::
    "(addr_t \<times> nat) list \<Rightarrow> 'a kernel_scheme \<Rightarrow> pptr list \<times> 'a kernel_scheme" where
  "create_batch_read_packets [] s = ([], s)"
| "create_batch_read_packets ((a, n) # rs) s =
     (let (p, s1) = create_read_packet a n s;
          (ps, s2) = create_batch_read_packets rs s1
      in (p # ps, s2))"

definition free_packets :: "pptr list \<Rightarrow> 'a kernel_scheme \<Rightarrow> 'a kernel_scheme run" where
  "free_packets ps = for_run free_packet ps"

section \<open>Facts about packets\<close>

lemma deref_ret [run_elims]: "deref p s = ret d \<longleftrightarrow> pkts s p = Some d"
  by (auto simp: deref_def split: option.splits)

lemma deref_Some [simp]: "pkts s p = Some d \<Longrightarrow> deref p s = ret d"
  by (simp add: deref_def)

lemma heap_wf_fresh: "heap_wf s \<Longrightarrow> next_pkt s \<le> p \<Longrightarrow> pkts s p = None"
  by (auto simp: heap_wf_def leD)

lemma alloc_pkt_wf:
  "heap_wf s \<Longrightarrow> alloc_pkt d s = (p, s') \<Longrightarrow>
     heap_wf s' \<and> pkts s p = None \<and> pkts s' p = Some d \<and>
     (\<forall>x. x \<noteq> p \<longrightarrow> pkts s' x = pkts s x)"
  by (auto simp: alloc_pkt_def heap_wf_def less_SucI split: if_splits)

lemma create_batch_spec:
  assumes "heap_wf s" "create_batch_read_packets rs s = (ps, s')"
  shows "ps = [next_pkt s ..< next_pkt s + length rs] \<and> heap_wf s' \<and>
    (\<forall>p < next_pkt s. pkts s' p = pkts s p) \<and>
    map (\<lambda>p. pkts s' p) ps = map (\<lambda>(a, n). Some (new_DataPacket a n False)) rs \<and>
    next_pkt s' = next_pkt s + length rs"
  using assms
proof (induction rs arbitrary: s ps s')
  case (Cons r rs)
  obtain a n where r: "r = (a, n)" by (cases r)
  define s1 where "s1 = snd (create_read_packet a n s)"
  obtain qs where qs: "create_batch_read_packets rs s1 = (qs, s')" "ps = next_pkt s # qs"
    using Cons.prems(2)
    by (auto simp: r s1_def create_read_packet_def alloc_pkt_def split: prod.splits)
  have s1: "heap_wf s1" "next_pkt s1 = Suc (next_pkt s)"
      "pkts s1 = (pkts s)(next_pkt s := Some (new_DataPacket a n False))"
    using Cons.prems(1) by (auto simp: s1_def create_read_packet_def alloc_pkt_def heap_wf_def less_SucI)
  from Cons.IH [OF s1(1) qs(1)] show ?case
    by (auto simp: qs(2) s1 r upt_conv_Cons less_SucI simp del: upt_Suc)
qed simp

text \<open>Freeing a batch in any order succeeds exactly when the pointers are live and distinct.\<close>

lemma free_packets_spec:
  assumes "distinct ps" "\<forall>p\<in>set ps. pkts s p \<noteq> None"
  shows "free_packets ps s = ret (s\<lparr>pkts := (\<lambda>p. if p \<in> set ps then None else pkts s p)\<rparr>)"
  using assms
proof (induction ps arbitrary: s)
  case (Cons p ps)
  obtain d where d: "pkts s p = Some d" using Cons.prems by auto
  define s1 where "s1 = s\<lparr>pkts := (pkts s)(p := None)\<rparr>"
  have "free_packet p s = ret s1" by (simp add: free_packet_def delete_pkt_def d s1_def)
  moreover have "free_packets ps s1 = ret (s1\<lparr>pkts := (\<lambda>x. if x \<in> set ps then None else pkts s1 x)\<rparr>)"
    using Cons.prems by (intro Cons.IH) (auto simp: s1_def)
  moreover have "(\<lambda>x. if x \<in> set ps then None else pkts s1 x) =
      (\<lambda>x. if x \<in> set (p # ps) then None else pkts s x)"
    by (auto simp: s1_def)
  ultimately show ?case by (simp add: free_packets_def s1_def)
qed (simp add: free_packets_def)

lemma free_packets_double: "free_packets [p, p] s = raise NullDeref"
  by (simp add: free_packets_def free_packet_def delete_pkt_def split: option.splits)

end
