(* ===== verification/Ports.thy ===== *)
theory Ports
  imports Packets
begin

text \<open>
  Ports and the timing protocol (\<open>src/common/port.h\<close>, \<open>src/common/port.cpp\<close>,
  \<open>src/common/timing.h\<close>, \<open>src/common/timing.cpp\<close>). Port objects live in a table that is
  part of the simulator state; a request port and a response port point at each
  other once bound, and at the default ports, whose receivers throw, before that. The
  receivers of the components are virtual functions, here a record of functions on
  the whole simulator state.
\<close>

section \<open>Port objects\<close>

datatype port_kind = RequestPort | ResponsePort | PlainPort

text \<open>What \<open>_responsePort\<close> and \<open>_requestPort\<close> point to.\<close>

datatype 'p link = DefaultPort | NullPort | Linked 'p

record 'p Port =
  portName :: string
  port_kind :: port_kind
  peer :: "'p option"
  connected :: bool
  link :: "'p link"

type_synonym 'p net = "'p \<Rightarrow> 'p Port"

definition new_Port :: "port_kind \<Rightarrow> string \<Rightarrow> 'p Port" where
  "new_Port k n = \<lparr>portName = n, port_kind = k, peer = None, connected = False, link = DefaultPort\<rparr>"

definition getPeer :: "'p \<Rightarrow> 'p net \<Rightarrow> 'p run" where
  "getPeer p n = (case peer (n p) of None \<Rightarrow> raise NullDeref | Some q \<Rightarrow> ret q)"

definition Port_bind :: "'p \<Rightarrow> 'p \<Rightarrow> 'p net \<Rightarrow> 'p net" where
  "Port_bind p q n = n(p := (n p)\<lparr>peer := Some q, connected := True\<rparr>)"

definition Port_unbind :: "'p \<Rightarrow> 'p net \<Rightarrow> 'p net" where
  "Port_unbind p n = n(p := (n p)\<lparr>peer := None, connected := False\<rparr>)"

definition responderBind :: "'p \<Rightarrow> 'p \<Rightarrow> 'p net \<Rightarrow> 'p net" where
  "responderBind q p n = Port_bind q p (n(q := (n q)\<lparr>link := Linked p\<rparr>))"

definition responderUnbind :: "'p \<Rightarrow> 'p net \<Rightarrow> 'p net" where
  "responderUnbind q n = Port_unbind q (n(q := (n q)\<lparr>link := DefaultPort\<rparr>))"

text \<open>
  \<open>RequestPort::bind\<close>: the \<open>dynamic_cast\<close> of a peer that is no response port is null,
  and binding goes on to call through it.
\<close>

definition RequestPort_bind :: "'p \<Rightarrow> 'p \<Rightarrow> 'p net \<Rightarrow> 'p net run" where
  "RequestPort_bind p q n =
     (let l = (if port_kind (n q) = ResponsePort then Linked q else NullPort);
          n1 = Port_bind p q (n(p := (n p)\<lparr>link := l\<rparr>))
      in case l of Linked r \<Rightarrow> ret (responderBind r p n1) | _ \<Rightarrow> raise NullDeref)"

text \<open>\<open>RequestPort::unbind\<close>: unbinding the default response port changes no other port.\<close>

definition RequestPort_unbind :: "'p \<Rightarrow> 'p net \<Rightarrow> 'p net run" where
  "RequestPort_unbind p n =
     (case link (n p) of
        NullPort \<Rightarrow> raise NullDeref
      | DefaultPort \<Rightarrow> ret (Port_unbind p (n(p := (n p)\<lparr>link := DefaultPort\<rparr>)))
      | Linked q \<Rightarrow>
          let n1 = responderUnbind q n
          in ret (Port_unbind p (n1(p := (n1 p)\<lparr>link := DefaultPort\<rparr>))))"

text \<open>The virtual \<open>bind\<close> and \<open>unbind\<close>: those of a response port do nothing.\<close>

definition port_bind :: "'p \<Rightarrow> 'p \<Rightarrow> 'p net \<Rightarrow> 'p net run" where
  "port_bind p q n =
     (case port_kind (n p) of
        RequestPort \<Rightarrow> RequestPort_bind p q n
      | ResponsePort \<Rightarrow> ret n
      | PlainPort \<Rightarrow> ret (Port_bind p q n))"

definition port_unbind :: "'p \<Rightarrow> 'p net \<Rightarrow> 'p net run" where
  "port_unbind p n =
     (case port_kind (n p) of
        RequestPort \<Rightarrow> RequestPort_unbind p n
      | ResponsePort \<Rightarrow> ret n
      | PlainPort \<Rightarrow> ret (Port_unbind p n))"

text \<open>The helper \<open>bindPorts\<close> of \<open>main\<close>.\<close>

definition bindPorts :: "'p \<Rightarrow> 'p \<Rightarrow> 'p net \<Rightarrow> 'p net run" where
  "bindPorts p q n = run_bind (port_bind p q n) (port_bind q p)"

section \<open>The timing protocol\<close>

text \<open>The virtual receivers of a port, on the whole simulator state \<open>'s\<close>.\<close>

record 's receivers =
  rcv_TimingReq :: "pptr \<Rightarrow> 's \<Rightarrow> (bool \<times> 's) run"
  rcv_tryTiming :: "pptr \<Rightarrow> 's \<Rightarrow> (bool \<times> 's) run"
  rcv_RespRetry :: "'s \<Rightarrow> 's run"
  rcv_TimingResp :: "pptr \<Rightarrow> 's \<Rightarrow> (bool \<times> 's) run"
  rcv_ReqRetry :: "'s \<Rightarrow> 's run"

definition default_receivers :: "'s receivers" where
  "default_receivers =
     \<lparr>rcv_TimingReq = (\<lambda>_ _. raise UnboundPort), rcv_tryTiming = (\<lambda>_ _. raise UnboundPort),
      rcv_RespRetry = (\<lambda>_. raise UnboundPort), rcv_TimingResp = (\<lambda>_ _. raise UnboundPort),
      rcv_ReqRetry = (\<lambda>_. raise UnboundPort)\<rparr>"

text \<open>
  The call through a link. The protocol functions of \<open>timing.cpp\<close> forward to the
  receiver of the peer they are given.
\<close>

definition through ::
    "('p \<Rightarrow> 's receivers) \<Rightarrow> 'p Port \<Rightarrow> ('s receivers \<Rightarrow> 'r run) \<Rightarrow> 'r run" where
  "through rc pt f =
     (case link pt of
        DefaultPort \<Rightarrow> f default_receivers
      | NullPort \<Rightarrow> raise NullDeref
      | Linked q \<Rightarrow> f (rc q))"

text \<open>
  The \<open>try\<close> block around a send. No receiver of the repository throws after it has
  changed the state, so the handler continues from the state of the caller.
\<close>

definition catch_unbound :: "'r run \<Rightarrow> 'r run \<Rightarrow> 'r run" where
  "catch_unbound m handler = (case m of Some (Inl UnboundPort) \<Rightarrow> handler | _ \<Rightarrow> m)"

definition sendTimingReq ::
    "('p \<Rightarrow> 's receivers) \<Rightarrow> 'p Port \<Rightarrow> pptr \<Rightarrow> 's \<Rightarrow> (bool \<times> 's) run" where
  "sendTimingReq rc pt pkt s =
     catch_unbound (through rc pt (\<lambda>r. rcv_TimingReq r pkt s)) (ret (False, s))"

text \<open>\<open>tryTiming\<close> flows off its end after the handler: there is no value to return.\<close>

definition tryTiming ::
    "('p \<Rightarrow> 's receivers) \<Rightarrow> 'p Port \<Rightarrow> pptr \<Rightarrow> 's \<Rightarrow> (bool \<times> 's) run" where
  "tryTiming rc pt pkt s =
     catch_unbound (through rc pt (\<lambda>r. rcv_tryTiming r pkt s)) (raise (RuntimeError ''no return''))"

definition sendRetryResp :: "('p \<Rightarrow> 's receivers) \<Rightarrow> 'p Port \<Rightarrow> 's \<Rightarrow> 's run" where
  "sendRetryResp rc pt s = catch_unbound (through rc pt (\<lambda>r. rcv_RespRetry r s)) (ret s)"

text \<open>The response side: \<open>sendTimingResp\<close> lets the exception escape.\<close>

definition sendTimingResp ::
    "('p \<Rightarrow> 's receivers) \<Rightarrow> 'p Port \<Rightarrow> pptr \<Rightarrow> 's \<Rightarrow> (bool \<times> 's) run" where
  "sendTimingResp rc pt pkt s = through rc pt (\<lambda>r. rcv_TimingResp r pkt s)"

definition sendRetryReq :: "('p \<Rightarrow> 's receivers) \<Rightarrow> 'p Port \<Rightarrow> 's \<Rightarrow> 's run" where
  "sendRetryReq rc pt s = catch_unbound (through rc pt (\<lambda>r. rcv_ReqRetry r s)) (ret s)"

lemmas port_defs = Port_bind_def Port_unbind_def responderBind_def responderUnbind_def
  RequestPort_bind_def RequestPort_unbind_def port_bind_def port_unbind_def
lemmas timing_defs = through_def catch_unbound_def sendTimingReq_def tryTiming_def
  sendRetryResp_def sendTimingResp_def sendRetryReq_def default_receivers_def

section \<open>Well-formed networks\<close>

definition linked :: "'p net \<Rightarrow> 'p \<Rightarrow> 'p \<Rightarrow> bool" where
  "linked n p q \<longleftrightarrow>
     port_kind (n p) = RequestPort \<and> port_kind (n q) = ResponsePort \<and>
     link (n p) = Linked q \<and> link (n q) = Linked p \<and>
     peer (n p) = Some q \<and> peer (n q) = Some p \<and> connected (n p) \<and> connected (n q)"

definition unlinked :: "'p Port \<Rightarrow> bool" where
  "unlinked pt \<longleftrightarrow> link pt = DefaultPort \<and> peer pt = None \<and> \<not> connected pt"

text \<open>Every port is unbound or half of a pair that points at each other.\<close>

definition net_ok :: "'p net \<Rightarrow> bool" where
  "net_ok n \<longleftrightarrow>
     (\<forall>p. port_kind (n p) \<noteq> PlainPort \<longrightarrow>
        unlinked (n p) \<or> (\<exists>q. linked n p q) \<or> (\<exists>q. linked n q p))"

lemma port_bind_frame:
  assumes "port_kind (n p) = RequestPort" "port_kind (n q) = ResponsePort"
  shows "\<exists>n'. port_bind p q n = ret n' \<and> linked n' p q \<and>
    (\<forall>x. x \<noteq> p \<and> x \<noteq> q \<longrightarrow> n' x = n x) \<and> (\<forall>x. port_kind (n' x) = port_kind (n x))"
  using assms by (auto simp: port_defs Let_def linked_def)

lemma bindPorts_bind:
  assumes "port_kind (n p) = RequestPort" "port_kind (n q) = ResponsePort"
  shows "bindPorts p q n = port_bind p q n"
  using port_bind_frame [OF assms] assms by (auto simp: bindPorts_def port_bind_def [of q p])

lemma linked_frame: "n' p = n p \<Longrightarrow> n' q = n q \<Longrightarrow> linked n p q \<Longrightarrow> linked n' p q"
  by (simp add: linked_def)

lemma linked_unlinked: "linked n p q \<Longrightarrow> \<not> unlinked (n p) \<and> \<not> unlinked (n q)"
  by (simp add: linked_def unlinked_def)

lemma port_bind_ok:
  assumes "net_ok n" "port_kind (n p) = RequestPort" "port_kind (n q) = ResponsePort"
    "unlinked (n p)" "unlinked (n q)" "port_bind p q n = ret n'"
  shows "net_ok n'"
proof -
  have f: "linked n' p q" "\<And>x. x \<noteq> p \<Longrightarrow> x \<noteq> q \<Longrightarrow> n' x = n x"
    using port_bind_frame [OF assms(2,3)] assms(6) by auto
  have keep: "linked n' x y" if "linked n x y" for x y
    using f(2) linked_unlinked [OF that] assms(4,5) by (intro linked_frame [OF _ _ that]) metis+
  show ?thesis
    unfolding net_ok_def
  proof (intro allI impI)
    fix x
    assume k: "port_kind (n' x) \<noteq> PlainPort"
    show "unlinked (n' x) \<or> (\<exists>q. linked n' x q) \<or> (\<exists>q. linked n' q x)"
    proof (cases "x = p \<or> x = q")
      case True
      then show ?thesis using f(1) by blast
    next
      case False
      then have "n' x = n x" using f(2) by blast
      then show ?thesis using assms(1) k keep unfolding net_ok_def by metis
    qed
  qed
qed

text \<open>Unbinding undoes binding.\<close>

lemma port_unbind_bind:
  assumes "port_kind (n p) = RequestPort" "port_kind (n q) = ResponsePort"
    "unlinked (n p)" "unlinked (n q)"
  shows "run_bind (port_bind p q n) (port_unbind p) = ret n"
proof -
  have "p \<noteq> q" using assms by auto
  then show ?thesis using assms by (auto simp: port_defs Let_def unlinked_def fun_eq_iff)
qed

text \<open>Binding a list of pairs with no port named twice links exactly these pairs.\<close>

lemma bind_all:
  assumes "net_ok n" "distinct (map fst pqs @ map snd pqs)"
    "\<forall>(p, q)\<in>set pqs. port_kind (n p) = RequestPort \<and> port_kind (n q) = ResponsePort \<and>
        unlinked (n p) \<and> unlinked (n q)"
  shows "\<exists>n'. for_run (\<lambda>(p, q). bindPorts p q) pqs n = ret n' \<and> net_ok n' \<and>
    (\<forall>(p, q)\<in>set pqs. linked n' p q) \<and>
    (\<forall>x. x \<notin> set (map fst pqs @ map snd pqs) \<longrightarrow> n' x = n x)"
  using assms
proof (induction pqs arbitrary: n)
  case (Cons pq pqs)
  obtain p q where pq: "pq = (p, q)" by (cases pq)
  have k: "port_kind (n p) = RequestPort" "port_kind (n q) = ResponsePort"
      "unlinked (n p)" "unlinked (n q)"
    using Cons.prems(3) by (auto simp: pq)
  obtain n1 where n1: "port_bind p q n = ret n1" "linked n1 p q"
      "\<And>x. x \<noteq> p \<Longrightarrow> x \<noteq> q \<Longrightarrow> n1 x = n x"
    using port_bind_frame [OF k(1,2)] by auto
  have ok: "net_ok n1" using port_bind_ok [OF Cons.prems(1) k n1(1)] .
  have fresh: "p \<notin> fst ` set pqs" "p \<notin> snd ` set pqs" "q \<notin> fst ` set pqs" "q \<notin> snd ` set pqs"
    using Cons.prems(2) by (auto simp: pq)
  have rest: "\<forall>(p, q)\<in>set pqs. port_kind (n1 p) = RequestPort \<and> port_kind (n1 q) = ResponsePort \<and>
      unlinked (n1 p) \<and> unlinked (n1 q)"
  proof (clarify)
    fix a b assume ab: "(a, b) \<in> set pqs"
    then have "n1 a = n a" "n1 b = n b" using fresh by (auto intro!: n1(3) simp: image_iff)
    then show "port_kind (n1 a) = RequestPort \<and> port_kind (n1 b) = ResponsePort \<and>
        unlinked (n1 a) \<and> unlinked (n1 b)"
      using Cons.prems(3) ab by auto
  qed
  have dist: "distinct (map fst pqs @ map snd pqs)" using Cons.prems(2) by simp
  from Cons.IH [OF ok dist rest] obtain n' where n':
      "for_run (\<lambda>(p, q). bindPorts p q) pqs n1 = ret n'" "net_ok n'"
      "\<forall>(p, q)\<in>set pqs. linked n' p q"
      "\<forall>x. x \<notin> set (map fst pqs @ map snd pqs) \<longrightarrow> n' x = n1 x" by blast
  have "linked n' p q" using n'(4) fresh by (intro linked_frame [OF _ _ n1(2)]) auto
  moreover have "for_run (\<lambda>(p, q). bindPorts p q) (pq # pqs) n = ret n'"
    using n1(1) n'(1) by (simp add: pq bindPorts_bind [OF k(1,2)])
  ultimately show ?case using n' n1(3) by (auto simp: pq)
qed simp

text \<open>Sends on a linked pair reach the peer; on an unbound port they are refused or throw.\<close>

lemma send_linked [run_simps]:
  "link pt = Linked q \<Longrightarrow> rcv_TimingReq (rc q) pkt s = ret r \<Longrightarrow> sendTimingReq rc pt pkt s = ret r"
  "link pt = Linked q \<Longrightarrow> sendTimingResp rc pt pkt s = rcv_TimingResp (rc q) pkt s"
  "link pt = Linked q \<Longrightarrow> rcv_ReqRetry (rc q) s = ret s' \<Longrightarrow> sendRetryReq rc pt s = ret s'"
  "link pt = Linked q \<Longrightarrow> rcv_RespRetry (rc q) s = ret s' \<Longrightarrow> sendRetryResp rc pt s = ret s'"
  by (simp_all add: timing_defs)

lemma send_unbound [run_simps]:
  "link pt = DefaultPort \<Longrightarrow> sendTimingReq rc pt pkt s = ret (False, s)"
  "link pt = DefaultPort \<Longrightarrow> sendTimingResp rc pt pkt s = raise UnboundPort"
  "link pt = DefaultPort \<Longrightarrow> sendRetryReq rc pt s = ret s"
  "link pt = DefaultPort \<Longrightarrow> sendRetryResp rc pt s = ret s"
  "link pt = DefaultPort \<Longrightarrow> tryTiming rc pt pkt s = raise (RuntimeError ''no return'')"
  by (simp_all add: timing_defs)

section \<open>The ports of the system\<close>

text \<open>
  The port objects of the components: port \<open>i\<close> of upstream buffer \<open>u\<close>, the response
  port of the arbiter for a bank and an upstream, its request port for a bank, the
  port of a memory channel, and those of the stand-alone \<open>Buffer\<close> and \<open>Dram\<close>.
\<close>

datatype port_id =
    UpSide int int
  | ArbResponse int int
  | ArbRequest int
  | MemSide int
  | BufferMem
  | DramMem

record sim = kernel +
  ports :: "port_id net"

end
