(* ===== verification/Cpp_Strings.thy ===== *)
theory Cpp_Strings
  imports Sim_Prelude
begin

text \<open>
  The string functions of the C++ library that port names are built and parsed with:
  \<open>std::to_string\<close>, \<open>std::stoi\<close>, \<open>find\<close> and \<open>substr\<close>. \<open>stoi\<close> skips leading white
  space, takes an optional sign, reads the longest run of digits and ignores what
  follows; it throws when there is no digit or the value does not fit an \<open>int\<close>.
\<close>

definition digit_char :: "nat \<Rightarrow> char" where
  "digit_char d = char_of (48 + d)"

definition is_digit :: "char \<Rightarrow> bool" where
  "is_digit c \<longleftrightarrow> 48 \<le> (of_char c :: nat) \<and> (of_char c :: nat) \<le> 57"

definition digit_val :: "char \<Rightarrow> nat" where
  "digit_val c = of_char c - 48"

definition is_space :: "char \<Rightarrow> bool" where
  "is_space c \<longleftrightarrow> of_char c = (32 :: nat) \<or> (9 \<le> (of_char c :: nat) \<and> (of_char c :: nat) \<le> 13)"

lemma is_space_code [code]:
  "is_space c \<longleftrightarrow> (let n = of_char c :: int in n = 32 \<or> (9 \<le> n \<and> n \<le> 13))"
proof -
  have n: "(of_char c :: int) = int (of_char c)" by (simp add: of_nat_of_char)
  show ?thesis unfolding Let_def n is_space_def by linarith
qed

fun nat_to_string :: "nat \<Rightarrow> string" where
  "nat_to_string n =
     (if n < 10 then [digit_char n] else nat_to_string (n div 10) @ [digit_char (n mod 10)])"

declare nat_to_string.simps [simp del]

definition to_string :: "int \<Rightarrow> string" where
  "to_string i = (if i < 0 then CHR ''-'' # nat_to_string (nat (- i)) else nat_to_string (nat i))"

definition digits_val :: "string \<Rightarrow> nat" where
  "digits_val ds = foldl (\<lambda>v c. 10 * v + digit_val c) 0 ds"

definition fits_int :: "int \<Rightarrow> bool" where
  "fits_int i \<longleftrightarrow> - (2 ^ 31) \<le> i \<and> i < 2 ^ 31"

definition stoi_unsigned :: "int \<Rightarrow> string \<Rightarrow> int option" where
  "stoi_unsigned sign s =
     (let ds = takeWhile is_digit s; v = sign * int (digits_val ds)
      in if ds = [] \<or> \<not> fits_int v then None else Some v)"

definition stoi :: "string \<Rightarrow> int option" where
  "stoi s =
     (case dropWhile is_space s of
        c # cs \<Rightarrow> if c = CHR ''-'' then stoi_unsigned (- 1) cs
                  else if c = CHR ''+'' then stoi_unsigned 1 cs
                  else stoi_unsigned 1 (c # cs)
      | [] \<Rightarrow> None)"

text \<open>\<open>s.find(p) == 0\<close>.\<close>

fun starts_with :: "string \<Rightarrow> string \<Rightarrow> bool" where
  "starts_with [] s = True"
| "starts_with (p # ps) [] = False"
| "starts_with (p # ps) (c # cs) = (p = c \<and> starts_with ps cs)"

section \<open>Printing and parsing\<close>

lemma of_char_digit: "d < 10 \<Longrightarrow> (of_char (digit_char d) :: nat) = 48 + d"
  by (simp add: digit_char_def)

lemma digit_char_facts [simp]:
  assumes "d < 10"
  shows "is_digit (digit_char d)" "digit_val (digit_char d) = d" "\<not> is_space (digit_char d)"
    "digit_char d \<noteq> CHR ''-''" "digit_char d \<noteq> CHR ''+''" "digit_char d \<noteq> CHR ''_''"
proof -
  note c = of_char_digit [OF assms]
  show "is_digit (digit_char d)" "digit_val (digit_char d) = d" "\<not> is_space (digit_char d)"
    using assms by (simp_all add: is_digit_def digit_val_def is_space_def c)
  show "digit_char d \<noteq> CHR ''-''" "digit_char d \<noteq> CHR ''+''" "digit_char d \<noteq> CHR ''_''"
    using assms c by auto
qed

lemma nat_to_string_digits: "\<forall>c\<in>set (nat_to_string n). \<exists>d<10. c = digit_char d"
  by (induction n rule: nat_to_string.induct) (subst nat_to_string.simps, auto intro: exI [of _ "_ mod 10"])

lemma nat_to_string_nonempty [simp]: "nat_to_string n \<noteq> []"
  by (subst nat_to_string.simps) simp

lemma digits_val_snoc: "digits_val (ds @ [c]) = 10 * digits_val ds + digit_val c"
  by (simp add: digits_val_def)

lemma digits_val_nat_to_string [simp]: "digits_val (nat_to_string n) = n"
proof (induction n rule: nat_to_string.induct)
  case (1 n)
  show ?case
  proof (cases "n < 10")
    case True
    then show ?thesis by (subst nat_to_string.simps) (simp add: digits_val_def)
  next
    case False
    then show ?thesis using 1 by (subst nat_to_string.simps) (simp add: digits_val_snoc)
  qed
qed

text \<open>
  A printed number is read back, whatever follows it, as long as that does not start
  with another digit.
\<close>

lemma takeWhile_printed:
  assumes "case rest of [] \<Rightarrow> True | c # _ \<Rightarrow> \<not> is_digit c"
  shows "takeWhile is_digit (nat_to_string n @ rest) = nat_to_string n"
proof -
  have "\<forall>c\<in>set (nat_to_string n). is_digit c"
    using nat_to_string_digits [of n] by auto
  with assms show ?thesis by (cases rest) (auto simp: takeWhile_append)
qed

lemma stoi_printed:
  assumes "int n < 2 ^ 31" "case rest of [] \<Rightarrow> True | c # _ \<Rightarrow> \<not> is_digit c"
  shows "stoi (nat_to_string n @ rest) = Some (int n)"
proof -
  obtain c cs where c: "nat_to_string n = c # cs" by (cases "nat_to_string n") auto
  obtain d where "d < 10" "c = digit_char d" using nat_to_string_digits [of n] by (auto simp: c)
  then have f: "\<not> is_space c" "c \<noteq> CHR ''-''" "c \<noteq> CHR ''+''" by simp_all
  have "stoi (nat_to_string n @ rest) = stoi_unsigned 1 (nat_to_string n @ rest)"
    using f by (simp add: stoi_def c)
  also have "\<dots> = Some (int n)"
    using assms(1) by (simp add: stoi_unsigned_def takeWhile_printed [OF assms(2)] fits_int_def)
  finally show ?thesis .
qed

lemma stoi_to_string:
  assumes "0 \<le> i" "i < 2 ^ 31" "case rest of [] \<Rightarrow> True | c # _ \<Rightarrow> \<not> is_digit c"
  shows "stoi (to_string i @ rest) = Some i"
  using stoi_printed [of "nat i" rest] assms by (simp add: to_string_def)

lemma to_string_no_underscore: "0 \<le> i \<Longrightarrow> CHR ''_'' \<notin> set (to_string i)"
proof
  assume "0 \<le> i" "CHR ''_'' \<in> set (to_string i)"
  then have "CHR ''_'' \<in> set (nat_to_string (nat i))" by (simp add: to_string_def)
  with nat_to_string_digits obtain d where "d < 10" "CHR ''_'' = digit_char d" by blast
  then show False using digit_char_facts(6) by metis
qed

lemma starts_with_append [simp]: "starts_with p (p @ s)"
  by (induction p) auto

lemma starts_with_iff: "starts_with p s \<longleftrightarrow> (\<exists>r. s = p @ r)"
  by (induction p s rule: starts_with.induct) auto

end
