(* ===== verification/Dram_Arb.thy ===== *)
theory Dram_Arb
  imports Ports Cpp_Strings
begin

text \<open>
  The DRAM arbiter (\<open>src/dram/dram_arb.h\<close>, \<open>src/dram/dram_arb.cpp\<close>): per bank and
  upstream it buffers requests, forwards at most one per bank and round by round-robin,
  reads first, and returns responses in order. The arrays are functions of their
  index; the statically sized retry arrays (\<open>num_banks\<close> by \<open>num_up\<close>) check their bound.
  \<open>rc\<close> are the receivers of the peers, which run on the whole simulator state and may
  call back into the arbiter.
\<close>

section \<open>State\<close>

definition num_banks :: int where "num_banks = 8"
definition num_up :: int where "num_up = 5"

record DramArb =
  outstandingReads :: "int \<Rightarrow> pptr mqueue"
  nbrOutstandingReads :: "int \<Rightarrow> nat"
  readInBufs :: "int \<Rightarrow> int \<Rightarrow> pptr list"
  writeInBufs :: "int \<Rightarrow> int \<Rightarrow> pptr list"
  responseQueue :: "int \<Rightarrow> (pptr \<times> int) list"
  buf_size :: int
  retryReq :: "int \<Rightarrow> int \<Rightarrow> bool"
  retryResp :: "int \<Rightarrow> int \<Rightarrow> bool"
  num_upstreams :: int
  rrReadIdx :: "int \<Rightarrow> int"
  rrWriteIdx :: "int \<Rightarrow> int"
  outstandingUpstream :: "int \<Rightarrow> int mqueue"
  sendResponseEvent :: eid
  arbEvent :: eid

record arb_sys = sim +
  arb :: DramArb

text \<open>Updating one entry of a two-dimensional table.\<close>

definition upd2 :: "('i \<Rightarrow> 'j \<Rightarrow> 'v) \<Rightarrow> 'i \<Rightarrow> 'j \<Rightarrow> 'v \<Rightarrow> 'i \<Rightarrow> 'j \<Rightarrow> 'v" where
  "upd2 t i j v = t(i := (t i)(j := v))"

text \<open>The bound of \<open>retryReq\<close> and \<open>retryResp\<close>.\<close>

definition in_retry_bounds :: "int \<Rightarrow> int \<Rightarrow> bool" where
  "in_retry_bounds bank up \<longleftrightarrow> 0 \<le> bank \<and> bank < num_banks \<and> 0 \<le> up \<and> up < num_up"

section \<open>Construction\<close>

text \<open>
  The object before its constructor body runs; \<open>jnbr\<close>, \<open>jreq\<close> and \<open>jresp\<close> are the
  indeterminate contents of the arrays that have no member initialiser.
\<close>

definition arb_blank ::
    "(int \<Rightarrow> nat) \<Rightarrow> (int \<Rightarrow> int \<Rightarrow> bool) \<Rightarrow> (int \<Rightarrow> int \<Rightarrow> bool) \<Rightarrow>
     int \<Rightarrow> int \<Rightarrow> eid \<Rightarrow> eid \<Rightarrow> DramArb" where
  "arb_blank jnbr jreq jresp bsize ups ae re =
     \<lparr>outstandingReads = (\<lambda>_ _. None), nbrOutstandingReads = jnbr,
      readInBufs = (\<lambda>_ _. []), writeInBufs = (\<lambda>_ _. []), responseQueue = (\<lambda>_. []),
      buf_size = bsize, retryReq = jreq, retryResp = jresp,
      num_upstreams = ups, rrReadIdx = (\<lambda>_. 0), rrWriteIdx = (\<lambda>_. 0),
      outstandingUpstream = (\<lambda>_ _. None), sendResponseEvent = re, arbEvent = ae\<rparr>"

definition initializeBasicState :: "DramArb \<Rightarrow> DramArb run" where
  "initializeBasicState a =
     run_bind
       (for_run (\<lambda>bank b. ret (b\<lparr>nbrOutstandingReads := (nbrOutstandingReads b)(bank := 0)\<rparr>))
          [0..num_banks - 1] a)
       (for_run (\<lambda>bank. for_run (\<lambda>up b.
            checked (in_retry_bounds bank up)
              (ret (b\<lparr>retryReq := upd2 (retryReq b) bank up False,
                      retryResp := upd2 (retryResp b) bank up False\<rparr>)))
            [0..num_upstreams a - 1])
          [0..num_banks - 1])"

definition allocateInputBuffers :: "DramArb \<Rightarrow> DramArb run" where
  "allocateInputBuffers a =
     (if num_upstreams a < 0 then raise (RuntimeError ''length_error'')
      else for_run (\<lambda>bank b. ret (b\<lparr>readInBufs := (readInBufs b)(bank := (\<lambda>_. [])),
                                   writeInBufs := (writeInBufs b)(bank := (\<lambda>_. []))\<rparr>))
             [0..num_banks - 1] a)"

definition response_name :: "string \<Rightarrow> int \<Rightarrow> int \<Rightarrow> string" where
  "response_name n bank up = n @ ''.response'' @ to_string bank @ ''_'' @ to_string up"

definition request_name :: "string \<Rightarrow> int \<Rightarrow> string" where
  "request_name n bank = n @ ''.request'' @ to_string bank"

definition createPorts :: "string \<Rightarrow> int \<Rightarrow> port_id net \<Rightarrow> port_id net" where
  "createPorts n ups net =
     (\<lambda>p. case p of
        ArbResponse bank up \<Rightarrow>
          if 0 \<le> bank \<and> bank < num_banks \<and> 0 \<le> up \<and> up < ups
          then new_Port ResponsePort (response_name n bank up) else net p
      | ArbRequest bank \<Rightarrow>
          if 0 \<le> bank \<and> bank < num_banks then new_Port RequestPort (request_name n bank) else net p
      | _ \<Rightarrow> net p)"

definition new_DramArb ::
    "(int \<Rightarrow> nat) \<Rightarrow> (int \<Rightarrow> int \<Rightarrow> bool) \<Rightarrow> (int \<Rightarrow> int \<Rightarrow> bool) \<Rightarrow>
     int \<Rightarrow> int \<Rightarrow> eid \<Rightarrow> eid \<Rightarrow> DramArb run" where
  "new_DramArb jnbr jreq jresp bsize ups ae re =
     run_bind (initializeBasicState (arb_blank jnbr jreq jresp bsize ups ae re)) allocateInputBuffers"

section \<open>Port names\<close>

text \<open>The exceptions of the name parser; their texts are messages in Chinese.\<close>

definition bad_format :: sim_error where "bad_format = RuntimeError ''bad response port name''"
definition bad_index :: sim_error where "bad_index = RuntimeError ''port index out of range''"
definition unknown_port :: sim_error where "unknown_port = RuntimeError ''unknown port name''"
definition bad_stoi :: sim_error where "bad_stoi = RuntimeError ''stoi''"

definition parseResponsePortName :: "int \<Rightarrow> string \<Rightarrow> int \<Rightarrow> port_id run" where
  "parseResponsePortName ups name idx =
     (let rest = drop 8 name;
          sbank = takeWhile (\<lambda>c. c \<noteq> CHR ''_'') rest;
          tail = dropWhile (\<lambda>c. c \<noteq> CHR ''_'') rest;
          up = (case tail of
                  c # us \<Rightarrow> stoi us
                | [] \<Rightarrow> if idx \<ge> 0 then Some idx else Some 0)
      in case stoi sbank of
           None \<Rightarrow> raise bad_format
         | Some bank \<Rightarrow>
             (case up of
                None \<Rightarrow> raise bad_format
              | Some u \<Rightarrow>
                  if 0 \<le> bank \<and> bank < num_banks \<and> 0 \<le> u \<and> u < ups
                  then ret (ArbResponse bank u) else raise bad_index))"

definition parseRequestPortName :: "string \<Rightarrow> port_id run" where
  "parseRequestPortName name =
     (case stoi (drop 7 name) of
        None \<Rightarrow> raise bad_stoi
      | Some bank \<Rightarrow> if 0 \<le> bank \<and> bank < num_banks then ret (ArbRequest bank) else raise bad_index)"

definition arb_getPort :: "DramArb \<Rightarrow> string \<Rightarrow> int \<Rightarrow> port_id run" where
  "arb_getPort a name idx =
     (if starts_with ''response'' name then parseResponsePortName (num_upstreams a) name idx
      else if starts_with ''request'' name then parseRequestPortName name
      else raise unknown_port)"

section \<open>Requests from upstream\<close>

definition can_accept_read :: "DramArb \<Rightarrow> int \<Rightarrow> bool" where
  "can_accept_read a bank \<longleftrightarrow>
     nbrOutstandingReads a bank + length (responseQueue a bank) < to_size_t (buf_size a)"

definition accept_read :: "pptr \<Rightarrow> addr_t \<Rightarrow> int \<Rightarrow> int \<Rightarrow> DramArb \<Rightarrow> DramArb" where
  "accept_read pkt addr bank up a =
     a\<lparr>readInBufs := upd2 (readInBufs a) bank up (readInBufs a bank up @ [pkt]),
       outstandingReads := (outstandingReads a)(bank := mq_push (outstandingReads a bank) addr pkt),
       outstandingUpstream := (outstandingUpstream a)(bank := mq_push (outstandingUpstream a bank) addr up),
       nbrOutstandingReads := (nbrOutstandingReads a)(bank := inc32 (nbrOutstandingReads a bank))\<rparr>"

definition accept_write :: "pptr \<Rightarrow> int \<Rightarrow> int \<Rightarrow> DramArb \<Rightarrow> DramArb" where
  "accept_write pkt bank up a =
     a\<lparr>writeInBufs := upd2 (writeInBufs a) bank up (writeInBufs a bank up @ [pkt])\<rparr>"

definition arb_recvTimingReqUp ::
    "pptr \<Rightarrow> int \<Rightarrow> int \<Rightarrow> 'a arb_sys_scheme \<Rightarrow> (bool \<times> 'a arb_sys_scheme) run" where
  "arb_recvTimingReqUp pkt bank up s =
     assert_that (0 \<le> bank \<and> bank < num_banks)
    (assert_that (0 \<le> up \<and> up < num_upstreams (arb s))
    (run_bind (deref pkt s) (\<lambda>d.
     let can_read = can_accept_read (arb s) bank;
         (accepted, a) =
           (if isRead d
            then (if can_read then (True, accept_read pkt (getAddr d) bank up (arb s))
                  else (False, arb s))
            else if isWrite d
            then (if length (writeInBufs (arb s) bank up) < to_size_t (buf_size (arb s))
                  then (True, accept_write pkt bank up (arb s)) else (False, arb s))
            else (False, arb s))
     in if accepted
        then run_bind (schedule_next (arbEvent a) (s\<lparr>arb := a\<rparr>)) (\<lambda>s'. ret (True, s'))
        else checked (in_retry_bounds bank up)
               (ret (False, s\<lparr>arb := a\<lparr>retryReq := upd2 (retryReq a) bank up True\<rparr>\<rparr>)))))"

definition arb_recvTimingReq ::
    "pptr \<Rightarrow> int \<Rightarrow> 'a arb_sys_scheme \<Rightarrow> (bool \<times> 'a arb_sys_scheme) run" where
  "arb_recvTimingReq pkt bank = arb_recvTimingReqUp pkt bank 0"

section \<open>Responses from downstream\<close>

definition arb_accessAndRespond ::
    "int \<Rightarrow> pptr \<Rightarrow> int \<Rightarrow> 'a arb_sys_scheme \<Rightarrow> 'a arb_sys_scheme run" where
  "arb_accessAndRespond bank pkt up s =
     (let a = arb s;
          a' = a\<lparr>responseQueue := (responseQueue a)(bank := responseQueue a bank @ [(pkt, up)])\<rparr>
      in schedule_next (sendResponseEvent a) (s\<lparr>arb := a'\<rparr>))"

definition arb_recvTimingResp ::
    "pptr \<Rightarrow> int \<Rightarrow> 'a arb_sys_scheme \<Rightarrow> (bool \<times> 'a arb_sys_scheme) run" where
  "arb_recvTimingResp pkt bank s =
     assert_that (0 \<le> bank \<and> bank < num_banks)
    (run_bind (deref pkt s) (\<lambda>d.
     let addr = getAddr d; a = arb s
     in case mq_pop (outstandingReads a bank) addr of
          None \<Rightarrow> raise AssertFailed
        | Some (res_pkt, m) \<Rightarrow>
            assert_that (nbrOutstandingReads a bank > 0)
             (let a1 = a\<lparr>outstandingReads := (outstandingReads a)(bank := m),
                         nbrOutstandingReads := (nbrOutstandingReads a)(bank := nbrOutstandingReads a bank - 1)\<rparr>
              in case mq_pop (outstandingUpstream a1 bank) addr of
                   None \<Rightarrow> raise AssertFailed
                 | Some (up, mu) \<Rightarrow>
                     run_bind (arb_accessAndRespond bank res_pkt up
                        (s\<lparr>arb := a1\<lparr>outstandingUpstream := (outstandingUpstream a1)(bank := mu)\<rparr>\<rparr>))
                       (\<lambda>s'. ret (True, s')))))"

section \<open>Sending responses\<close>

definition arb_pop_response :: "int \<Rightarrow> 'a arb_sys_scheme \<Rightarrow> 'a arb_sys_scheme" where
  "arb_pop_response bank s =
     s\<lparr>arb := (arb s)\<lparr>responseQueue := (responseQueue (arb s))(bank := tl (responseQueue (arb s) bank))\<rparr>\<rparr>"

definition arb_set_retryReq :: "int \<Rightarrow> int \<Rightarrow> bool \<Rightarrow> 'a arb_sys_scheme \<Rightarrow> 'a arb_sys_scheme" where
  "arb_set_retryReq bank up v s = s\<lparr>arb := (arb s)\<lparr>retryReq := upd2 (retryReq (arb s)) bank up v\<rparr>\<rparr>"

definition arb_set_retryResp :: "int \<Rightarrow> int \<Rightarrow> bool \<Rightarrow> 'a arb_sys_scheme \<Rightarrow> 'a arb_sys_scheme" where
  "arb_set_retryResp bank up v s = s\<lparr>arb := (arb s)\<lparr>retryResp := upd2 (retryResp (arb s)) bank up v\<rparr>\<rparr>"

text \<open>After a response was delivered: pop it, go on next tick, and wake a refused sender.\<close>

definition arb_response_sent ::
    "(port_id \<Rightarrow> 'a arb_sys_scheme receivers) \<Rightarrow> int \<Rightarrow> int \<Rightarrow> int \<Rightarrow>
     'a arb_sys_scheme \<Rightarrow> 'a arb_sys_scheme run" where
  "arb_response_sent rc bank up target s =
     (let s1 = arb_pop_response bank s
      in run_bind
           (if responseQueue (arb s1) bank \<noteq> [] then schedule_next (sendResponseEvent (arb s1)) s1
            else ret s1)
           (\<lambda>s2. if retryReq (arb s2) bank up
                 then run_bind (sendRetryReq rc (ports s2 (ArbResponse bank target)) s2)
                        (\<lambda>s3. ret (arb_set_retryReq bank up False s3))
                 else ret s2))"

text \<open>The body of the two loops of \<open>sendResponse\<close>.\<close>

definition arb_sendResponse_at ::
    "(port_id \<Rightarrow> 'a arb_sys_scheme receivers) \<Rightarrow> int \<Rightarrow> int \<Rightarrow>
     'a arb_sys_scheme \<Rightarrow> 'a arb_sys_scheme run" where
  "arb_sendResponse_at rc bank up s =
     checked (in_retry_bounds bank up)
      (if retryResp (arb s) bank up then ret s
       else case responseQueue (arb s) bank of
              [] \<Rightarrow> ret s
            | (pkt, target) # _ \<Rightarrow>
                run_bind (sendTimingResp rc (ports s (ArbResponse bank target)) pkt s)
                  (\<lambda>(success, s1).
                     if success then arb_response_sent rc bank up target s1
                     else ret (arb_set_retryResp bank up True s1)))"

definition arb_sendResponse ::
    "(port_id \<Rightarrow> 'a arb_sys_scheme receivers) \<Rightarrow> 'a arb_sys_scheme \<Rightarrow> 'a arb_sys_scheme run" where
  "arb_sendResponse rc s =
     for_run (\<lambda>bank. for_run (arb_sendResponse_at rc bank) [0..num_upstreams (arb s) - 1])
       [0..num_banks - 1] s"

definition arb_handleRespRetry ::
    "(port_id \<Rightarrow> 'a arb_sys_scheme receivers) \<Rightarrow> int \<Rightarrow> int \<Rightarrow>
     'a arb_sys_scheme \<Rightarrow> 'a arb_sys_scheme run" where
  "arb_handleRespRetry rc bank up s =
     assert_that (0 \<le> bank \<and> bank < num_banks)
    (assert_that (0 \<le> up \<and> up < num_upstreams (arb s))
    (checked (in_retry_bounds bank up)
       (arb_sendResponse rc (arb_set_retryResp bank up False s))))"

section \<open>Arbitration\<close>

text \<open>The loops over the upstreams, from the round-robin position; the first sent request ends them.\<close>

fun arb_read_scan ::
    "(port_id \<Rightarrow> 'a arb_sys_scheme receivers) \<Rightarrow> int \<Rightarrow> int list \<Rightarrow>
     'a arb_sys_scheme \<Rightarrow> (bool \<times> 'a arb_sys_scheme) run" where
  "arb_read_scan rc bank [] s = ret (False, s)"
| "arb_read_scan rc bank (k # ks) s =
     (let n = num_upstreams (arb s); up = (rrReadIdx (arb s) bank + k) mod n
      in case readInBufs (arb s) bank up of
           [] \<Rightarrow> arb_read_scan rc bank ks s
         | pkt # _ \<Rightarrow>
             run_bind (sendTimingReq rc (ports s (ArbRequest bank)) pkt s)
               (\<lambda>(ok, s1).
                  if ok
                  then let a = arb s1
                       in ret (True, s1\<lparr>arb := a\<lparr>readInBufs := upd2 (readInBufs a) bank up (tl (readInBufs a bank up)),
                                                rrReadIdx := (rrReadIdx a)(bank := (up + 1) mod num_upstreams a)\<rparr>\<rparr>)
                  else arb_read_scan rc bank ks s1))"

definition arbitrateReadRequests ::
    "(port_id \<Rightarrow> 'a arb_sys_scheme receivers) \<Rightarrow> int \<Rightarrow>
     'a arb_sys_scheme \<Rightarrow> (bool \<times> 'a arb_sys_scheme) run" where
  "arbitrateReadRequests rc bank s = arb_read_scan rc bank [0..num_upstreams (arb s) - 1] s"

fun arb_write_scan ::
    "(port_id \<Rightarrow> 'a arb_sys_scheme receivers) \<Rightarrow> int \<Rightarrow> int list \<Rightarrow>
     'a arb_sys_scheme \<Rightarrow> (bool \<times> 'a arb_sys_scheme) run" where
  "arb_write_scan rc bank [] s = ret (False, s)"
| "arb_write_scan rc bank (k # ks) s =
     (let n = num_upstreams (arb s); up = (rrWriteIdx (arb s) bank + k) mod n
      in case writeInBufs (arb s) bank up of
           [] \<Rightarrow> arb_write_scan rc bank ks s
         | pkt # _ \<Rightarrow>
             run_bind (sendTimingReq rc (ports s (ArbRequest bank)) pkt s)
               (\<lambda>(ok, s1).
                  if ok
                  then let a = arb s1
                       in ret (True, s1\<lparr>arb := a\<lparr>writeInBufs := upd2 (writeInBufs a) bank up (tl (writeInBufs a bank up)),
                                                rrWriteIdx := (rrWriteIdx a)(bank := (up + 1) mod num_upstreams a)\<rparr>\<rparr>)
                  else arb_write_scan rc bank ks s1))"

definition arbitrateWriteRequests ::
    "(port_id \<Rightarrow> 'a arb_sys_scheme receivers) \<Rightarrow> int \<Rightarrow>
     'a arb_sys_scheme \<Rightarrow> (bool \<times> 'a arb_sys_scheme) run" where
  "arbitrateWriteRequests rc bank s = arb_write_scan rc bank [0..num_upstreams (arb s) - 1] s"

definition checkPendingRequests :: "DramArb \<Rightarrow> int \<Rightarrow> bool" where
  "checkPendingRequests a bank \<longleftrightarrow>
     (\<exists>up\<in>set [0..num_upstreams a - 1]. readInBufs a bank up \<noteq> [] \<or> writeInBufs a bank up \<noteq> [])"

text \<open>One bank of the loop of \<open>arbitrate\<close>, with \<open>has_pending\<close> and \<open>need_resched\<close> threaded through.\<close>

definition arbitrate_bank ::
    "(port_id \<Rightarrow> 'a arb_sys_scheme receivers) \<Rightarrow> int \<Rightarrow> (bool \<times> bool) \<times> 'a arb_sys_scheme \<Rightarrow>
     ((bool \<times> bool) \<times> 'a arb_sys_scheme) run" where
  "arbitrate_bank rc bank = (\<lambda>((has_pending, need_resched), s).
     run_bind (arbitrateReadRequests rc bank s) (\<lambda>(sent, s1).
     run_bind (if sent then ret (True, s1) else arbitrateWriteRequests rc bank s1) (\<lambda>(sent', s2).
     ret ((checkPendingRequests (arb s2) bank, need_resched \<or> \<not> sent'), s2))))"

definition arbitrate ::
    "(port_id \<Rightarrow> 'a arb_sys_scheme receivers) \<Rightarrow> 'a arb_sys_scheme \<Rightarrow> 'a arb_sys_scheme run" where
  "arbitrate rc s =
     run_bind (for_run (arbitrate_bank rc) [0..num_banks - 1] ((False, False), s))
       (\<lambda>((has_pending, need_resched), s1).
          if \<not> ev_scheduled (events s1 (arbEvent (arb s1))) \<and> (has_pending \<or> need_resched)
          then eq_schedule (arbEvent (arb s1)) (cur_tick s1 + 1) s1
          else ret s1)"

definition arb_handleReqRetry :: "int \<Rightarrow> 'a arb_sys_scheme \<Rightarrow> 'a arb_sys_scheme run" where
  "arb_handleReqRetry bank s =
     assert_that (0 \<le> bank \<and> bank < num_banks) (schedule_next (arbEvent (arb s)) s)"

text \<open>The callback of the arbiter's events and the receivers of its ports.\<close>

definition arb_process ::
    "(port_id \<Rightarrow> 'a arb_sys_scheme receivers) \<Rightarrow> eid \<Rightarrow> 'a arb_sys_scheme \<Rightarrow> 'a arb_sys_scheme run" where
  "arb_process rc e s =
     (if e = arbEvent (arb s) then arbitrate rc s
      else if e = sendResponseEvent (arb s) then arb_sendResponse rc s
      else ret s)"

definition ArbResponsePort_receivers ::
    "(port_id \<Rightarrow> 'a arb_sys_scheme receivers) \<Rightarrow> int \<Rightarrow> int \<Rightarrow> 'a arb_sys_scheme receivers" where
  "ArbResponsePort_receivers rc bank up =
     default_receivers\<lparr>rcv_TimingReq := (\<lambda>pkt. arb_recvTimingReqUp pkt bank up),
       rcv_tryTiming := (\<lambda>pkt s. ret (False, s)),
       rcv_RespRetry := arb_handleRespRetry rc bank up\<rparr>"

definition ArbRequestPort_receivers :: "int \<Rightarrow> 'a arb_sys_scheme receivers" where
  "ArbRequestPort_receivers bank =
     default_receivers\<lparr>rcv_TimingResp := (\<lambda>pkt. arb_recvTimingResp pkt bank),
       rcv_ReqRetry := arb_handleReqRetry bank\<rparr>"

end
