(* ===== verification/Dram_Arb_Inv.thy ===== *)
theory Dram_Arb_Inv
  imports Dram_Arb
begin

text \<open>
  The invariant of the arbiter and what each of its entry points does to it: the flow
  control bound, the agreement of the two tables of outstanding reads, the FIFO order of
  responses per address, the round-robin discipline, and the names of its ports.
\<close>

section \<open>The invariant\<close>

definition valid_bank :: "int \<Rightarrow> bool" where
  "valid_bank b \<longleftrightarrow> 0 \<le> b \<and> b < num_banks"

definition valid_up :: "DramArb \<Rightarrow> int \<Rightarrow> bool" where
  "valid_up a u \<longleftrightarrow> 0 \<le> u \<and> u < num_upstreams a"

definition bank_ok :: "DramArb \<Rightarrow> int \<Rightarrow> bool" where
  "bank_ok a b \<longleftrightarrow>
     mq_wf (outstandingReads a b) \<and> mq_wf (outstandingUpstream a b) \<and>
     nbrOutstandingReads a b = mq_count (outstandingReads a b) \<and>
     (\<forall>k. length (mq_at (outstandingUpstream a b) k) = length (mq_at (outstandingReads a b) k)) \<and>
     (\<forall>k. \<forall>u\<in>set (mq_at (outstandingUpstream a b) k). valid_up a u) \<and>
     (\<forall>(p, u)\<in>set (responseQueue a b). valid_up a u) \<and>
     int (nbrOutstandingReads a b + length (responseQueue a b)) \<le> buf_size a \<and>
     (\<forall>u. valid_up a u \<longrightarrow> int (length (writeInBufs a b u)) \<le> buf_size a) \<and>
     valid_up a (rrReadIdx a b) \<and> valid_up a (rrWriteIdx a b)"

definition arb_ok :: "DramArb \<Rightarrow> bool" where
  "arb_ok a \<longleftrightarrow>
     0 < num_upstreams a \<and> num_upstreams a \<le> num_up \<and> 0 \<le> buf_size a \<and> buf_size a < 2 ^ 31 \<and>
     arbEvent a \<noteq> sendResponseEvent a \<and> (\<forall>b. valid_bank b \<longrightarrow> bank_ok a b)"

lemma arb_ok_bank: "arb_ok a \<Longrightarrow> valid_bank b \<Longrightarrow> bank_ok a b"
  by (simp add: arb_ok_def)

lemma upd2_apply [simp]:
  "upd2 t i j v i' j' = (if i' = i \<and> j' = j then v else t i' j')"
  by (simp add: upd2_def)

lemma in_retry_bounds_valid:
  "arb_ok a \<Longrightarrow> valid_bank b \<Longrightarrow> valid_up a u \<Longrightarrow> in_retry_bounds b u"
  by (auto simp: arb_ok_def valid_bank_def valid_up_def in_retry_bounds_def)

text \<open>A change that keeps the fields the invariant reads keeps the invariant.\<close>

lemma arb_ok_cong:
  assumes "outstandingReads a' = outstandingReads a" "nbrOutstandingReads a' = nbrOutstandingReads a"
    "writeInBufs a' = writeInBufs a" "responseQueue a' = responseQueue a" "buf_size a' = buf_size a"
    "num_upstreams a' = num_upstreams a" "rrReadIdx a' = rrReadIdx a" "rrWriteIdx a' = rrWriteIdx a"
    "outstandingUpstream a' = outstandingUpstream a" "sendResponseEvent a' = sendResponseEvent a"
    "arbEvent a' = arbEvent a"
  shows "arb_ok a' = arb_ok a"
  using assms by (simp add: arb_ok_def bank_ok_def valid_up_def)

lemma arb_ok_retry [simp]:
  "arb_ok (a\<lparr>retryReq := r\<rparr>) = arb_ok a" "arb_ok (a\<lparr>retryResp := r\<rparr>) = arb_ok a"
  by (rule arb_ok_cong; simp)+

section \<open>Construction\<close>

lemma for_run_ret: "for_run (\<lambda>i s. ret (f i s)) xs s = ret (fold f xs s)"
  by (induction xs arbitrary: s) auto

definition init_retry_at :: "int \<Rightarrow> int \<Rightarrow> DramArb \<Rightarrow> DramArb run" where
  "init_retry_at b u c = checked (in_retry_bounds b u)
     (ret (c\<lparr>retryReq := upd2 (retryReq c) b u False, retryResp := upd2 (retryResp c) b u False\<rparr>))"

definition clear2 :: "int set \<Rightarrow> int set \<Rightarrow> (int \<Rightarrow> int \<Rightarrow> bool) \<Rightarrow> int \<Rightarrow> int \<Rightarrow> bool" where
  "clear2 B U t b u \<longleftrightarrow> \<not> (b \<in> B \<and> u \<in> U) \<and> t b u"

lemma init_retry_row:
  assumes "\<forall>u\<in>set us. in_retry_bounds b u"
  shows "for_run (init_retry_at b) us c =
    ret (c\<lparr>retryReq := clear2 {b} (set us) (retryReq c), retryResp := clear2 {b} (set us) (retryResp c)\<rparr>)"
  using assms
proof (induction us arbitrary: c)
  case (Cons u us)
  let ?c1 = "c\<lparr>retryReq := upd2 (retryReq c) b u False, retryResp := upd2 (retryResp c) b u False\<rparr>"
  have "clear2 {b} (set us) (upd2 t b u False) = clear2 {b} (set (u # us)) t" for t
    by (auto simp: clear2_def fun_eq_iff)
  moreover have "init_retry_at b u c = ret ?c1" using Cons.prems by (simp add: init_retry_at_def)
  ultimately show ?case using Cons.IH [of ?c1] Cons.prems by (simp del: upd2_apply)
qed (simp add: clear2_def [abs_def])

lemma init_retry_all:
  assumes "\<forall>b\<in>set bs. \<forall>u\<in>set us. in_retry_bounds b u"
  shows "for_run (\<lambda>b. for_run (init_retry_at b) us) bs c =
    ret (c\<lparr>retryReq := clear2 (set bs) (set us) (retryReq c),
           retryResp := clear2 (set bs) (set us) (retryResp c)\<rparr>)"
  using assms
proof (induction bs arbitrary: c)
  case (Cons b bs)
  have "clear2 (set bs) (set us) (clear2 {b} (set us) t) = clear2 (set (b # bs)) (set us) t" for t
    by (auto simp: clear2_def fun_eq_iff)
  with Cons show ?case by (simp add: init_retry_row)
qed (simp add: clear2_def [abs_def])

lemma initializeBasicState_alt:
  "initializeBasicState a =
     for_run (\<lambda>b. for_run (init_retry_at b) [0..num_upstreams a - 1]) [0..num_banks - 1]
       (fold (\<lambda>b c. c\<lparr>nbrOutstandingReads := (nbrOutstandingReads c)(b := 0)\<rparr>) [0..num_banks - 1] a)"
  by (simp add: initializeBasicState_def for_run_ret init_retry_at_def [abs_def])

lemma valid_bank_list: "set [0..num_banks - 1] = {b. valid_bank b}"
  by (auto simp: valid_bank_def)

lemma valid_up_list: "set [0..num_upstreams a - 1] = {u. valid_up a u}"
  by (auto simp: valid_up_def)

lemma fold_nbr:
  "fold (\<lambda>b c. c\<lparr>nbrOutstandingReads := (nbrOutstandingReads c)(b := 0)\<rparr>) bs a =
     a\<lparr>nbrOutstandingReads := (\<lambda>b. if b \<in> set bs then 0 else nbrOutstandingReads a b)\<rparr>"
  by (induction bs arbitrary: a) (auto intro!: arg_cong [where f = "\<lambda>f. a\<lparr>nbrOutstandingReads := f\<rparr>" for a])

lemma fold_bufs:
  "fold (\<lambda>b c. c\<lparr>readInBufs := (readInBufs c)(b := (\<lambda>_. [])),
                  writeInBufs := (writeInBufs c)(b := (\<lambda>_. []))\<rparr>) bs a =
     a\<lparr>readInBufs := (\<lambda>b. if b \<in> set bs then (\<lambda>_. []) else readInBufs a b),
       writeInBufs := (\<lambda>b. if b \<in> set bs then (\<lambda>_. []) else writeInBufs a b)\<rparr>"
  by (induction bs arbitrary: a)
    (auto intro!: arg_cong2 [where f = "\<lambda>f g. a\<lparr>readInBufs := f, writeInBufs := g\<rparr>" for a])

text \<open>The constructor initialises everything the invariant reads, whatever the memory held.\<close>

lemma new_DramArb_ok:
  assumes "0 < ups" "ups \<le> num_up" "0 \<le> bsize" "bsize < 2 ^ 31" "ae \<noteq> re"
  shows "\<exists>a. new_DramArb jnbr jreq jresp bsize ups ae re = ret a \<and> arb_ok a \<and>
    num_upstreams a = ups \<and> buf_size a = bsize \<and> arbEvent a = ae \<and> sendResponseEvent a = re \<and>
    (\<forall>b u. valid_bank b \<and> valid_up a u \<longrightarrow> \<not> retryReq a b u \<and> \<not> retryResp a b u) \<and>
    (\<forall>b u. readInBufs a b u = [] \<and> writeInBufs a b u = [] \<and> responseQueue a b = []) \<and>
    outstandingReads a = (\<lambda>_ _. None)"
proof -
  define a0 where "a0 = arb_blank jnbr jreq jresp bsize ups ae re"
  have ups: "num_upstreams a0 = ups" by (simp add: a0_def arb_blank_def)
  define a1 where "a1 = a0\<lparr>
    nbrOutstandingReads := (\<lambda>b. if b \<in> {0..num_banks - 1} then 0 else nbrOutstandingReads a0 b),
    retryReq := clear2 {0..num_banks - 1} {0..ups - 1} (retryReq a0),
    retryResp := clear2 {0..num_banks - 1} {0..ups - 1} (retryResp a0)\<rparr>"
  have bounds: "\<forall>b\<in>set [0..num_banks - 1]. \<forall>u\<in>set [0..num_upstreams a0 - 1]. in_retry_bounds b u"
    using assms(2) by (auto simp: in_retry_bounds_def ups)
  have "initializeBasicState a0 = ret a1"
    unfolding initializeBasicState_alt fold_nbr init_retry_all [OF bounds] a1_def
    by (simp add: ups)
  moreover have "allocateInputBuffers a1 = ret (a1\<lparr>readInBufs := (\<lambda>b _. []), writeInBufs := (\<lambda>b _. [])\<rparr>)"
    using assms(1) by (simp add: allocateInputBuffers_def a1_def ups for_run_ret fold_bufs)
      (simp add: a0_def arb_blank_def cong: if_cong)
  ultimately show ?thesis
    using assms unfolding new_DramArb_def a0_def [symmetric]
    by (auto simp: a1_def a0_def arb_blank_def arb_ok_def bank_ok_def valid_up_def valid_bank_def clear2_def num_up_def)
qed

text \<open>More upstreams than \<open>num_up\<close> write past the end of the retry arrays.\<close>

lemma for_run_raise:
  assumes "x \<in> set xs" "\<And>s. f x s = raise err" "\<And>y s. y \<in> set xs \<Longrightarrow> f y s = raise err \<or> (\<exists>s'. f y s = ret s')"
  shows "for_run f xs s = raise err"
  using assms
proof (induction xs arbitrary: s)
  case (Cons y xs)
  show ?case
  proof (cases "f y s = raise err")
    case False
    then obtain s' where s': "f y s = ret s'" using Cons.prems(3) by fastforce
    have "x \<noteq> y" using s' Cons.prems(2) [of s] by auto
    then have "for_run f xs s' = raise err" using Cons by auto
    with s' show ?thesis by simp
  qed simp
qed simp

lemma new_DramArb_too_many:
  assumes "num_up < ups"
  shows "new_DramArb jnbr jreq jresp bsize ups ae re = raise OutOfBounds"
proof -
  define a0 where "a0 = arb_blank jnbr jreq jresp bsize ups ae re"
  have ups: "num_upstreams a0 = ups" by (simp add: a0_def arb_blank_def)
  have row: "for_run (init_retry_at b) [0..ups - 1] c = raise OutOfBounds" for b c
    by (rule for_run_raise [where x = num_up])
      (use assms in \<open>auto simp: init_retry_at_def checked_def in_retry_bounds_def num_up_def\<close>)
  have "initializeBasicState a0 = raise OutOfBounds"
    unfolding initializeBasicState_alt ups
    by (rule for_run_raise [where x = 0]) (auto simp: row num_banks_def)
  then show ?thesis unfolding new_DramArb_def a0_def [symmetric] by simp
qed

lemma new_DramArb_upstreams:
  assumes "new_DramArb jn jq jr bsize ups ae re = ret a"
  shows "num_upstreams a = ups"
proof -
  have row: "num_upstreams c' = num_upstreams c" if "for_run (init_retry_at b) us c = ret c'" for b us c c'
    by (rule for_run_inv [OF that, of "\<lambda>d. num_upstreams d = num_upstreams c"])
      (auto simp: init_retry_at_def checked_def split: if_splits)
  have all: "num_upstreams c' = num_upstreams c" if "for_run (\<lambda>b. for_run (init_retry_at b) us) bs c = ret c'" for us bs c c'
    by (rule for_run_inv [OF that, of "\<lambda>d. num_upstreams d = num_upstreams c"]) (auto dest: row)
  show ?thesis
    using assms
    by (auto simp: new_DramArb_def run_elims initializeBasicState_alt fold_nbr allocateInputBuffers_def for_run_ret fold_bufs
        arb_blank_def split: if_splits dest!: all)
qed

section \<open>Port names\<close>

lemma drop_prefix: "length p = n \<Longrightarrow> drop n (p @ s) = s"
  by auto

lemma getPort_response:
  assumes "valid_bank b" "valid_up a u" "u < 2 ^ 31"
  shows "arb_getPort a (''response'' @ to_string b @ ''_'' @ to_string u) idx = ret (ArbResponse b u)"
proof -
  have b: "0 \<le> b" "b < num_banks" "b < 2 ^ 31" and u: "0 \<le> u" "u < num_upstreams a"
    using assms by (auto simp: valid_bank_def valid_up_def num_banks_def)
  have no: "c \<in> set (to_string b) \<Longrightarrow> c \<noteq> CHR ''_''" for c
    using to_string_no_underscore [OF b(1)] by auto
  have split: "takeWhile (\<lambda>c. c \<noteq> CHR ''_'') (to_string b @ ''_'' @ to_string u) = to_string b"
    "dropWhile (\<lambda>c. c \<noteq> CHR ''_'') (to_string b @ ''_'' @ to_string u) = ''_'' @ to_string u"
    using no by (auto simp: takeWhile_append dropWhile_append)
  have "stoi (to_string b) = Some b" "stoi (to_string u) = Some u"
    using stoi_to_string [of b "[]"] stoi_to_string [of u "[]"] b u assms(3) by simp_all
  then have "parseResponsePortName (num_upstreams a) (''response'' @ to_string b @ ''_'' @ to_string u) idx
      = ret (ArbResponse b u)"
    unfolding parseResponsePortName_def Let_def
    by (subst (1 2) drop_prefix [where n = 8]) (use b u in \<open>simp_all add: split [simplified]\<close>)
  then show ?thesis unfolding arb_getPort_def by (simp only: starts_with_append if_True)
qed

lemma getPort_request:
  assumes "valid_bank b"
  shows "arb_getPort a (''request'' @ to_string b) idx = ret (ArbRequest b)"
proof -
  have b: "0 \<le> b" "b < num_banks" "b < 2 ^ 31"
    using assms by (auto simp: valid_bank_def num_banks_def)
  have "stoi (to_string b) = Some b" using stoi_to_string [of b "[]"] b by simp
  then have "parseRequestPortName (''request'' @ to_string b) = ret (ArbRequest b)"
    unfolding parseRequestPortName_def by (subst drop_prefix) (use b in simp_all)
  moreover have "\<not> starts_with ''response'' (''request'' @ to_string b)" by simp
  ultimately show ?thesis
    unfolding arb_getPort_def by (simp only: starts_with_append if_True if_False)
qed

section \<open>Accepting requests\<close>

lemma bank_ok_cong:
  assumes "outstandingReads a' b = outstandingReads a b"
    "nbrOutstandingReads a' b = nbrOutstandingReads a b"
    "writeInBufs a' b = writeInBufs a b" "responseQueue a' b = responseQueue a b"
    "buf_size a' = buf_size a" "num_upstreams a' = num_upstreams a"
    "rrReadIdx a' b = rrReadIdx a b" "rrWriteIdx a' b = rrWriteIdx a b"
    "outstandingUpstream a' b = outstandingUpstream a b"
  shows "bank_ok a' b = bank_ok a b"
  using assms by (simp add: bank_ok_def valid_up_def)

text \<open>Changing one bank only: the invariant has to be shown for that bank.\<close>

lemma arb_ok_bankI:
  assumes "arb_ok a" "buf_size a' = buf_size a" "num_upstreams a' = num_upstreams a"
    "arbEvent a' = arbEvent a" "sendResponseEvent a' = sendResponseEvent a" "bank_ok a' b"
    "\<And>c. c \<noteq> b \<Longrightarrow> bank_ok a c \<Longrightarrow> bank_ok a' c"
  shows "arb_ok a'"
  unfolding arb_ok_def
proof (intro conjI allI impI)
  fix c assume "valid_bank c"
  with assms(1) have "bank_ok a c" by (simp add: arb_ok_def)
  with assms(6,7) show "bank_ok a' c" by (cases "c = b") auto
qed (use assms(1-5) in \<open>auto simp: arb_ok_def\<close>)

lemma can_accept_bound:
  assumes "arb_ok a"
  shows "can_accept_read a b \<longleftrightarrow>
    int (nbrOutstandingReads a b + length (responseQueue a b)) < buf_size a"
proof -
  have "0 \<le> buf_size a" "buf_size a < 2 ^ 31" using assms by (auto simp: arb_ok_def)
  then have "to_size_t (buf_size a) = nat (buf_size a)" by (intro to_size_t_id) auto
  then show ?thesis unfolding can_accept_read_def by linarith
qed

lemma accept_read_ok:
  assumes ok: "arb_ok a" and b: "valid_bank b" and u: "valid_up a u" and can: "can_accept_read a b"
  shows "arb_ok (accept_read pkt addr b u a)"
    "nbrOutstandingReads (accept_read pkt addr b u a) b = Suc (nbrOutstandingReads a b)"
proof -
  let ?a = "accept_read pkt addr b u a"
  note bk = arb_ok_bank [OF ok b, unfolded bank_ok_def]
  have lim: "int (nbrOutstandingReads a b + length (responseQueue a b)) < buf_size a"
    using can can_accept_bound [OF ok] by simp
  moreover have "buf_size a < 2 ^ 31" using ok by (simp add: arb_ok_def)
  ultimately have small: "nbrOutstandingReads a b + 1 < 2 ^ 32" by simp
  then show nbr: "nbrOutstandingReads ?a b = Suc (nbrOutstandingReads a b)"
    by (simp add: accept_read_def)
  have "bank_ok ?a b"
    unfolding bank_ok_def nbr
    using bk u lim by (auto simp: accept_read_def mq_at_push valid_up_def)
  then show "arb_ok ?a"
    by (rule arb_ok_bankI [OF ok, rotated 4])
      (auto simp: accept_read_def bank_ok_def valid_up_def)
qed

lemma accept_write_ok:
  assumes ok: "arb_ok a" and b: "valid_bank b" and u: "valid_up a u"
    and len: "length (writeInBufs a b u) < to_size_t (buf_size a)"
  shows "arb_ok (accept_write pkt b u a)"
proof -
  let ?a = "accept_write pkt b u a"
  have "0 \<le> buf_size a" "buf_size a < 2 ^ 31" using ok by (auto simp: arb_ok_def)
  then have "int (length (writeInBufs a b u)) < buf_size a" using len by simp
  then have "bank_ok ?a b"
    using arb_ok_bank [OF ok b] by (auto simp: accept_write_def bank_ok_def valid_up_def)
  then show ?thesis
    by (rule arb_ok_bankI [OF ok, rotated 4]) (auto simp: accept_write_def bank_ok_def valid_up_def)
qed

text \<open>The receiver of a request, on each of its branches.\<close>

lemma recvTimingReqUp_accept:
  assumes "arb_ok (arb s)" "valid_bank b" "valid_up (arb s) u" "pkts s pkt = Some d"
    "eq_wf s" "cur_tick s \<noteq> - 1"
    and acc: "if isRead d then can_accept_read (arb s) b
              else length (writeInBufs (arb s) b u) < to_size_t (buf_size (arb s))"
    and a': "a' = (if isRead d then accept_read pkt (getAddr d) b u (arb s) else accept_write pkt b u (arb s))"
  shows "\<exists>h p. arb_recvTimingReqUp pkt b u s = ret (True, s\<lparr>arb := a', events := h, qhead := p\<rparr>) \<and>
    eq_wf (s\<lparr>arb := a', events := h, qhead := p\<rparr>) \<and> arb_ok a' \<and>
    (\<forall>x. ev_scheduled (h x) \<longleftrightarrow> x = arbEvent (arb s) \<or> ev_scheduled (events s x)) \<and>
    later s (s\<lparr>arb := a', events := h, qhead := p\<rparr>)"
proof -
  have ev: "arbEvent a' = arbEvent (arb s)"
    by (simp add: a' accept_read_def accept_write_def)
  have wf: "eq_wf (s\<lparr>arb := a'\<rparr>)" using assms(5) by (simp add: eq_wf_def eq_list_def eq_repr_def)
  obtain h p where hp: "schedule_next (arbEvent a') (s\<lparr>arb := a'\<rparr>) = ret (s\<lparr>arb := a', events := h, qhead := p\<rparr>)"
      "eq_wf (s\<lparr>arb := a', events := h, qhead := p\<rparr>)"
      "\<forall>x. ev_scheduled (h x) \<longleftrightarrow> x = arbEvent a' \<or> ev_scheduled (events s x)"
      "later s (s\<lparr>arb := a', events := h, qhead := p\<rparr>)"
    using schedule_next_wf [OF wf, of "arbEvent a'"] assms(6) by (auto simp: later_def)
  have "arb_ok a'"
    using accept_read_ok(1) [OF assms(1-3)] accept_write_ok [OF assms(1-3)] acc by (simp add: a')
  moreover have "arb_recvTimingReqUp pkt b u s = ret (True, s\<lparr>arb := a', events := h, qhead := p\<rparr>)"
    using assms(2-4) acc hp(1)
    by (auto simp: arb_recvTimingReqUp_def valid_bank_def valid_up_def Let_def a' isRead_def isWrite_def
        split: if_splits)
  ultimately show ?thesis using hp(2-4) ev by auto
qed

lemma recvTimingReqUp_refuse:
  assumes "arb_ok (arb s)" "valid_bank b" "valid_up (arb s) u" "pkts s pkt = Some d"
    and ref: "if isRead d then \<not> can_accept_read (arb s) b
              else \<not> length (writeInBufs (arb s) b u) < to_size_t (buf_size (arb s))"
  shows "arb_recvTimingReqUp pkt b u s = ret (False, arb_set_retryReq b u True s)"
  using assms in_retry_bounds_valid [OF assms(1-3)]
  by (auto simp: arb_recvTimingReqUp_def valid_bank_def valid_up_def Let_def isRead_def isWrite_def
      arb_set_retryReq_def)

section \<open>Responses\<close>

text \<open>The two tables agree: a popped read has its upstream.\<close>

lemma pop_agree:
  assumes "bank_ok a b" "mq_pop (outstandingReads a b) k = Some (r, m)"
  obtains u mu where "mq_pop (outstandingUpstream a b) k = Some (u, mu)" "valid_up a u"
    "nbrOutstandingReads a b = Suc (mq_count m)"
proof -
  have len: "length (mq_at (outstandingUpstream a b) k) = length (mq_at (outstandingReads a b) k)"
    using assms(1) by (simp add: bank_ok_def)
  have "mq_at (outstandingReads a b) k = r # mq_at m k" using mq_at_pop [OF assms(2)] by simp
  with len obtain u us where at: "mq_at (outstandingUpstream a b) k = u # us"
    by (cases "mq_at (outstandingUpstream a b) k") auto
  then obtain u' mu where pop: "mq_pop (outstandingUpstream a b) k = Some (u', mu)"
    by (auto simp: mq_pop_def)
  moreover have "u' = u" using mq_at_pop [OF pop] at by simp
  moreover have "valid_up a u" using assms(1) at unfolding bank_ok_def by (metis list.set_intros(1))
  moreover have "nbrOutstandingReads a b = Suc (mq_count m)"
    using assms mq_count_pop [of "outstandingReads a b" k r m] by (auto simp: bank_ok_def)
  ultimately show thesis using that by blast
qed

definition arb_complete ::
    "int \<Rightarrow> pptr \<Rightarrow> pptr mqueue \<Rightarrow> int \<Rightarrow> int mqueue \<Rightarrow> DramArb \<Rightarrow> DramArb" where
  "arb_complete b r m u mu a =
     a\<lparr>outstandingReads := (outstandingReads a)(b := m),
       nbrOutstandingReads := (nbrOutstandingReads a)(b := nbrOutstandingReads a b - 1),
       outstandingUpstream := (outstandingUpstream a)(b := mu),
       responseQueue := (responseQueue a)(b := responseQueue a b @ [(r, u)])\<rparr>"

lemma arb_complete_ok:
  assumes ok: "arb_ok a" and b: "valid_bank b"
    and r: "mq_pop (outstandingReads a b) k = Some (r, m)"
    and u: "mq_pop (outstandingUpstream a b) k = Some (u, mu)"
  shows "arb_ok (arb_complete b r m u mu a)"
proof -
  let ?a = "arb_complete b r m u mu a"
  note bk = arb_ok_bank [OF ok b]
  obtain u' mu' where u': "mq_pop (outstandingUpstream a b) k = Some (u', mu')" "valid_up a u'"
      "nbrOutstandingReads a b = Suc (mq_count m)"
    using pop_agree [OF bk r] .
  with u have uu: "u' = u" "mu' = mu" by simp_all
  note atr = mq_at_pop [OF r] and atu = mq_at_pop [OF u]
  have len: "length (mq_at mu x) = length (mq_at m x)" for x
  proof -
    have "length (mq_at (outstandingUpstream a b) x) = length (mq_at (outstandingReads a b) x)"
      using bk by (simp add: bank_ok_def)
    with atr atu show ?thesis by (cases "x = k") auto
  qed
  have ups: "valid_up a v" if "v \<in> set (mq_at mu x)" for v x
  proof -
    have "set (mq_at mu x) \<subseteq> set (mq_at (outstandingUpstream a b) x)" using atu by (cases "x = k") auto
    with that bk show ?thesis by (auto simp: bank_ok_def)
  qed
  have wf: "mq_wf m" "mq_wf mu"
    using bk mq_wf_pop [OF _ r] mq_wf_pop [OF _ u] by (auto simp: bank_ok_def)
  have vu: "valid_up ?a = valid_up a" by (simp add: fun_eq_iff valid_up_def arb_complete_def)
  have "bank_ok ?a b"
    using bk len ups wf u'(2,3) unfolding bank_ok_def vu
    by (auto simp: arb_complete_def uu)
  then show ?thesis
    by (rule arb_ok_bankI [OF ok, rotated 4]) (auto simp: arb_complete_def bank_ok_def valid_up_def)
qed

text \<open>
  A response for an address completes the oldest outstanding read of that address and is
  queued for the upstream that sent it.
\<close>

lemma recvTimingResp_spec:
  assumes ok: "arb_ok (arb s)" and b: "valid_bank b" and d: "pkts s pkt = Some d"
    and wf: "eq_wf s" "cur_tick s \<noteq> - 1"
    and r: "mq_pop (outstandingReads (arb s) b) (getAddr d) = Some (r, m)"
    and u: "mq_pop (outstandingUpstream (arb s) b) (getAddr d) = Some (u, mu)"
    and a': "a' = arb_complete b r m u mu (arb s)"
  shows "\<exists>h p. arb_recvTimingResp pkt b s = ret (True, s\<lparr>arb := a', events := h, qhead := p\<rparr>) \<and>
    eq_wf (s\<lparr>arb := a', events := h, qhead := p\<rparr>) \<and> arb_ok a' \<and>
    (\<forall>x. ev_scheduled (h x) \<longleftrightarrow> x = sendResponseEvent (arb s) \<or> ev_scheduled (events s x)) \<and>
    later s (s\<lparr>arb := a', events := h, qhead := p\<rparr>)"
proof -
  have pos: "0 < nbrOutstandingReads (arb s) b"
    using pop_agree [OF arb_ok_bank [OF ok b] r] by (metis zero_less_Suc)
  have wf': "eq_wf (s\<lparr>arb := a'\<rparr>)" using wf(1) by (simp add: eq_wf_def eq_list_def eq_repr_def)
  obtain h p where hp: "schedule_next (sendResponseEvent (arb s)) (s\<lparr>arb := a'\<rparr>) =
        ret (s\<lparr>arb := a', events := h, qhead := p\<rparr>)"
      "eq_wf (s\<lparr>arb := a', events := h, qhead := p\<rparr>)"
      "\<forall>x. ev_scheduled (h x) \<longleftrightarrow> x = sendResponseEvent (arb s) \<or> ev_scheduled (events s x)"
      "later s (s\<lparr>arb := a', events := h, qhead := p\<rparr>)"
    using schedule_next_wf [OF wf', of "sendResponseEvent (arb s)"] wf(2) by (auto simp: later_def)
  have "arb_recvTimingResp pkt b s = ret (True, s\<lparr>arb := a', events := h, qhead := p\<rparr>)"
    using b d r u pos hp(1)
    by (simp add: arb_recvTimingResp_def valid_bank_def Let_def arb_accessAndRespond_def a' arb_complete_def)
  with hp(2-4) arb_complete_ok [OF ok b r u] show ?thesis unfolding a' by blast
qed

lemma recvTimingResp_unknown:
  assumes "valid_bank b" "pkts s pkt = Some d" "mq_at (outstandingReads (arb s) b) (getAddr d) = []"
  shows "arb_recvTimingResp pkt b s = raise AssertFailed"
proof -
  have "mq_pop (outstandingReads (arb s) b) (getAddr d) = None" using assms(3) by (simp add: mq_pop_None_iff)
  then show ?thesis using assms(1,2) by (simp add: arb_recvTimingResp_def valid_bank_def Let_def)
qed

text \<open>Delivering a response keeps the invariant and frees one slot.\<close>

lemma arb_pop_response_ok:
  assumes "arb_ok (arb s)" "responseQueue (arb s) b \<noteq> []"
  shows "arb_ok (arb (arb_pop_response b s))"
proof -
  let ?a = "arb (arb_pop_response b s)"
  have "bank_ok (arb s) c \<Longrightarrow> bank_ok ?a c" for c
    by (cases "responseQueue (arb s) b")
      (auto simp: bank_ok_def arb_pop_response_def valid_up_def)
  then show ?thesis using assms(1) by (auto simp: arb_ok_def arb_pop_response_def)
qed

end
