(* ===== verification/Dram_Arb_Run.thy ===== *)
theory Dram_Arb_Run
  imports Dram_Arb_Inv
begin

text \<open>
  The rounds of the arbiter. The locale \<open>arb_env\<close> is the contract between the arbiter and
  the peers behind its ports: what a request, a response or a retry that it sends does to
  the invariant \<open>I\<close> of the simulator. Under it an arbitration round and a response round
  return and keep \<open>I\<close>. Round-robin fairness and the re-arming of the arbitration event
  are stated without it, for a downstream that takes what it is offered.
\<close>

section \<open>Sent requests\<close>

definition arb_read_sent :: "int \<Rightarrow> int \<Rightarrow> 'a arb_sys_scheme \<Rightarrow> 'a arb_sys_scheme" where
  "arb_read_sent b up s =
     (let a = arb s
      in s\<lparr>arb := a\<lparr>readInBufs := upd2 (readInBufs a) b up (tl (readInBufs a b up)),
                    rrReadIdx := (rrReadIdx a)(b := (up + 1) mod num_upstreams a)\<rparr>\<rparr>)"

definition arb_write_sent :: "int \<Rightarrow> int \<Rightarrow> 'a arb_sys_scheme \<Rightarrow> 'a arb_sys_scheme" where
  "arb_write_sent b up s =
     (let a = arb s
      in s\<lparr>arb := a\<lparr>writeInBufs := upd2 (writeInBufs a) b up (tl (writeInBufs a b up)),
                    rrWriteIdx := (rrWriteIdx a)(b := (up + 1) mod num_upstreams a)\<rparr>\<rparr>)"

lemma arb_read_sent_ok: "arb_ok (arb s) \<Longrightarrow> arb_ok (arb (arb_read_sent b u s))"
  by (auto simp: arb_ok_def arb_read_sent_def Let_def bank_ok_def valid_up_def)

lemma int_pred_le: "int n \<le> i \<Longrightarrow> int (n - Suc 0) \<le> i"
  by simp

lemma arb_write_sent_ok: "arb_ok (arb s) \<Longrightarrow> arb_ok (arb (arb_write_sent b u s))"
  by (auto simp: arb_ok_def arb_write_sent_def Let_def bank_ok_def valid_up_def intro: int_pred_le)

lemma rr_valid: "0 < num_upstreams a \<Longrightarrow> valid_up a ((i + k) mod num_upstreams a)"
  by (simp add: valid_up_def)

section \<open>The contract of the peers\<close>

locale arb_env =
  fixes rc :: "port_id \<Rightarrow> 'a arb_sys_scheme receivers"
    and I :: "'a arb_sys_scheme \<Rightarrow> bool"
    and nup :: int
  assumes I_ok: "I s \<Longrightarrow> arb_ok (arb s) \<and> num_upstreams (arb s) = nup"
    and down_read: "I s \<Longrightarrow> valid_bank b \<Longrightarrow> valid_up (arb s) u \<Longrightarrow>
      readInBufs (arb s) b u = pkt # ps \<Longrightarrow>
      \<exists>ok s1. sendTimingReq rc (ports s (ArbRequest b)) pkt s = ret (ok, s1) \<and> arb s1 = arb s \<and>
        (if ok then I (arb_read_sent b u s1) else I s1)"
    and down_write: "I s \<Longrightarrow> valid_bank b \<Longrightarrow> valid_up (arb s) u \<Longrightarrow>
      writeInBufs (arb s) b u = pkt # ps \<Longrightarrow>
      \<exists>ok s1. sendTimingReq rc (ports s (ArbRequest b)) pkt s = ret (ok, s1) \<and> arb s1 = arb s \<and>
        (if ok then I (arb_write_sent b u s1) else I s1)"
    and up_resp: "I s \<Longrightarrow> valid_bank b \<Longrightarrow> valid_up (arb s) u \<Longrightarrow>
      responseQueue (arb s) b = (pkt, t) # rs \<Longrightarrow>
      \<exists>ok s1. sendTimingResp rc (ports s (ArbResponse b t)) pkt s = ret (ok, s1) \<and> arb s1 = arb s \<and>
        (if ok then I (arb_pop_response b s1) else I (arb_set_retryResp b u True s1))"
    and up_retry: "I s \<Longrightarrow> valid_bank b \<Longrightarrow> valid_up (arb s) u \<Longrightarrow> valid_up (arb s) t \<Longrightarrow>
      \<exists>s1. sendRetryReq rc (ports s (ArbResponse b t)) s = ret s1 \<and> I (arb_set_retryReq b u False s1)"
    and sched: "I s \<Longrightarrow> e \<in> {arbEvent (arb s), sendResponseEvent (arb s)} \<Longrightarrow>
      \<exists>s1. schedule_next e s = ret s1 \<and> I s1"
begin

lemma I_pos: "I s \<Longrightarrow> 0 < num_upstreams (arb s)"
  using I_ok [of s] by (simp add: arb_ok_def)

lemma read_scan_total:
  assumes "I s" "valid_bank b"
  shows "\<exists>sent s'. arb_read_scan rc b ks s = ret (sent, s') \<and> I s'"
  using assms
proof (induction ks arbitrary: s)
  case step: (Cons k ks)
  define u where "u = (rrReadIdx (arb s) b + k) mod num_upstreams (arb s)"
  have u: "valid_up (arb s) u" unfolding u_def by (rule rr_valid [OF I_pos [OF step.prems(1)]])
  show ?case
  proof (cases "readInBufs (arb s) b u")
    case Nil
    with step show ?thesis by (simp add: Let_def u_def)
  next
    case (Cons pkt ps)
    from down_read [OF step.prems u Cons] obtain ok s1 where
      s1: "sendTimingReq rc (ports s (ArbRequest b)) pkt s = ret (ok, s1)" "arb s1 = arb s"
        "if ok then I (arb_read_sent b u s1) else I s1" by blast
    with Cons step.IH [of s1] step.prems(2) show ?thesis
      by (cases ok) (auto simp: Let_def u_def arb_read_sent_def)
  qed
qed auto

lemma write_scan_total:
  assumes "I s" "valid_bank b"
  shows "\<exists>sent s'. arb_write_scan rc b ks s = ret (sent, s') \<and> I s'"
  using assms
proof (induction ks arbitrary: s)
  case step: (Cons k ks)
  define u where "u = (rrWriteIdx (arb s) b + k) mod num_upstreams (arb s)"
  have u: "valid_up (arb s) u" unfolding u_def by (rule rr_valid [OF I_pos [OF step.prems(1)]])
  show ?case
  proof (cases "writeInBufs (arb s) b u")
    case Nil
    with step show ?thesis by (simp add: Let_def u_def)
  next
    case (Cons pkt ps)
    from down_write [OF step.prems u Cons] obtain ok s1 where
      s1: "sendTimingReq rc (ports s (ArbRequest b)) pkt s = ret (ok, s1)" "arb s1 = arb s"
        "if ok then I (arb_write_sent b u s1) else I s1" by blast
    with Cons step.IH [of s1] step.prems(2) show ?thesis
      by (cases ok) (auto simp: Let_def u_def arb_write_sent_def)
  qed
qed auto

text \<open>One bank, then all banks: the round returns and keeps the invariant.\<close>

lemma bank_total:
  assumes "I s" "valid_bank b"
  shows "\<exists>f s'. arbitrate_bank rc b (g, s) = ret (f, s') \<and> I s'"
proof -
  obtain g1 g2 where g: "g = (g1, g2)" by (cases g)
  obtain sent s1 where s1: "arbitrateReadRequests rc b s = ret (sent, s1)" "I s1"
    using read_scan_total [OF assms] unfolding arbitrateReadRequests_def by blast
  obtain sent' s2 where s2: "arbitrateWriteRequests rc b s1 = ret (sent', s2)" "I s2"
    using write_scan_total [OF s1(2) assms(2)] unfolding arbitrateWriteRequests_def by blast
  show ?thesis using s1 s2 by (cases sent) (auto simp: arbitrate_bank_def g)
qed

lemma arbitrate_total:
  assumes "I s"
  shows "\<exists>s'. arbitrate rc s = ret s' \<and> I s'"
proof -
  have "\<exists>t. for_run (arbitrate_bank rc) [0..num_banks - 1] ((False, False), s) = ret t \<and> I (snd t)"
  proof (rule for_run_total)
    fix b and t :: "(bool \<times> bool) \<times> 'a arb_sys_scheme"
    assume "b \<in> set [0..num_banks - 1]" "I (snd t)"
    then show "\<exists>t'. arbitrate_bank rc b t = ret t' \<and> I (snd t')"
      using bank_total [of "snd t" b "fst t"] by (auto simp: valid_bank_def)
  qed (use assms in simp)
  then obtain f s1 where s1: "for_run (arbitrate_bank rc) [0..num_banks - 1] ((False, False), s) = ret (f, s1)"
    "I s1" by (metis surj_pair snd_conv)
  obtain s2 where "schedule_next (arbEvent (arb s1)) s1 = ret s2" "I s2" using sched [OF s1(2)] by blast
  with s1 show ?thesis by (cases f) (auto simp: arbitrate_def schedule_next_def split: if_splits)
qed

section \<open>Response rounds\<close>

lemma response_sent_total:
  assumes "I (arb_pop_response b s)" "valid_bank b" "valid_up (arb s) u" "valid_up (arb s) t"
  shows "\<exists>s'. arb_response_sent rc b u t s = ret s' \<and> I s'"
proof -
  let ?s1 = "arb_pop_response b s"
  have nup: "num_upstreams (arb s) = nup"
    using I_ok [OF assms(1)] by (simp add: arb_pop_response_def)
  obtain s2 where s2: "(if responseQueue (arb ?s1) b \<noteq> [] then schedule_next (sendResponseEvent (arb ?s1)) ?s1
      else ret ?s1) = ret s2" "I s2"
    using assms(1) sched [OF assms(1), of "sendResponseEvent (arb ?s1)"]
    by (cases "responseQueue (arb ?s1) b = []") auto
  have v: "valid_up (arb s2) u" "valid_up (arb s2) t"
    using I_ok [OF s2(2)] assms(3,4) nup by (auto simp: valid_up_def)
  show ?thesis
    unfolding arb_response_sent_def Let_def s2(1)
    using s2(2) up_retry [OF s2(2) assms(2) v] by auto
qed

lemma sendResponse_at_total:
  assumes "I s" "valid_bank b" "valid_up (arb s) u"
  shows "\<exists>s'. arb_sendResponse_at rc b u s = ret s' \<and> I s'"
proof -
  have ok: "arb_ok (arb s)" using I_ok [OF assms(1)] by simp
  have bounds: "in_retry_bounds b u" using in_retry_bounds_valid [OF ok assms(2,3)] .
  show ?thesis
  proof (cases "retryResp (arb s) b u \<or> responseQueue (arb s) b = []")
    case True
    then show ?thesis using assms(1) bounds by (auto simp: arb_sendResponse_at_def)
  next
    case False
    then obtain pkt t rs where q: "responseQueue (arb s) b = (pkt, t) # rs"
      by (cases "responseQueue (arb s) b") auto
    obtain k s1 where s1: "sendTimingResp rc (ports s (ArbResponse b t)) pkt s = ret (k, s1)"
        "arb s1 = arb s" "if k then I (arb_pop_response b s1) else I (arb_set_retryResp b u True s1)"
      using up_resp [OF assms q] by blast
    have "valid_up (arb s) t" using arb_ok_bank [OF ok assms(2)] q by (auto simp: bank_ok_def)
    then show ?thesis
      using response_sent_total [of b s1 u t] assms s1 False bounds
      by (cases k) (auto simp: arb_sendResponse_at_def q)
  qed
qed

lemma sendResponse_total:
  assumes "I s"
  shows "\<exists>s'. arb_sendResponse rc s = ret s' \<and> I s'"
  unfolding arb_sendResponse_def
proof (rule for_run_total [where P = I], rule assms, rule for_run_total [where P = I])
  fix b u and t :: "'a arb_sys_scheme"
  assume "b \<in> set [0..num_banks - 1]" "u \<in> set [0..num_upstreams (arb s) - 1]" "I t"
  moreover from this have "valid_up (arb t) u"
    using I_ok [OF assms] I_ok [of t] by (auto simp: valid_up_def)
  ultimately show "\<exists>t'. arb_sendResponse_at rc b u t = ret t' \<and> I t'"
    by (intro sendResponse_at_total) (auto simp: valid_bank_def)
qed

lemma process_total: "I s \<Longrightarrow> \<exists>s'. arb_process rc e s = ret s' \<and> I s'"
  using arbitrate_total sendResponse_total by (simp add: arb_process_def)

end

section \<open>Round robin\<close>

text \<open>How many upstreams are ahead of \<open>u\<close> in the read rotation of a bank.\<close>

definition rr_dist :: "DramArb \<Rightarrow> int \<Rightarrow> int \<Rightarrow> int" where
  "rr_dist a b u = (u - rrReadIdx a b) mod num_upstreams a"

text \<open>A downstream port that takes every request and leaves the arbiter alone.\<close>

definition ready_downstream :: "(port_id \<Rightarrow> 'a arb_sys_scheme receivers) \<Rightarrow> int \<Rightarrow> 'a arb_sys_scheme \<Rightarrow> bool" where
  "ready_downstream rc b s \<longleftrightarrow>
     (\<forall>pkt. \<exists>s1. sendTimingReq rc (ports s (ArbRequest b)) pkt s = ret (True, s1) \<and> arb s1 = arb s)"

lemma read_scan_first:
  assumes "ready_downstream rc b s" "k \<in> set ks"
    "readInBufs (arb s) b ((rrReadIdx (arb s) b + k) mod num_upstreams (arb s)) \<noteq> []"
  shows "\<exists>pre j post s1. ks = pre @ j # post \<and>
    (\<forall>i\<in>set pre. readInBufs (arb s) b ((rrReadIdx (arb s) b + i) mod num_upstreams (arb s)) = []) \<and>
    readInBufs (arb s) b ((rrReadIdx (arb s) b + j) mod num_upstreams (arb s)) \<noteq> [] \<and>
    arb s1 = arb s \<and>
    arb_read_scan rc b ks s =
      ret (True, arb_read_sent b ((rrReadIdx (arb s) b + j) mod num_upstreams (arb s)) s1)"
  using assms
proof (induction ks)
  case (Cons i ks)
  show ?case
  proof (cases "readInBufs (arb s) b ((rrReadIdx (arb s) b + i) mod num_upstreams (arb s))")
    case Nil
    then have "k \<in> set ks" using Cons.prems by auto
    from Cons.IH [OF Cons.prems(1) this Cons.prems(3)] obtain pre j post s1 where
      "ks = pre @ j # post"
      "\<forall>i\<in>set pre. readInBufs (arb s) b ((rrReadIdx (arb s) b + i) mod num_upstreams (arb s)) = []"
      "readInBufs (arb s) b ((rrReadIdx (arb s) b + j) mod num_upstreams (arb s)) \<noteq> []"
      "arb s1 = arb s"
      "arb_read_scan rc b ks s =
        ret (True, arb_read_sent b ((rrReadIdx (arb s) b + j) mod num_upstreams (arb s)) s1)" by blast
    with Nil show ?thesis
      by (intro exI [of _ "i # pre"] exI [of _ j] exI [of _ post] exI [of _ s1]) (simp add: Let_def)
  next
    case (Cons pkt ps)
    obtain s1 where "sendTimingReq rc (ports s (ArbRequest b)) pkt s = ret (True, s1)" "arb s1 = arb s"
      using \<open>ready_downstream rc b s\<close> by (auto simp: ready_downstream_def)
    with Cons show ?thesis
      by (intro exI [of _ "[]"] exI [of _ i] exI [of _ ks] exI [of _ s1])
        (simp add: Let_def arb_read_sent_def)
  qed
qed simp

lemma rr_dist_range: "arb_ok a \<Longrightarrow> 0 \<le> rr_dist a b u \<and> rr_dist a b u < num_upstreams a"
  by (simp add: rr_dist_def arb_ok_def)

lemma rr_dist_position:
  "valid_up a u \<Longrightarrow> (rrReadIdx a b + rr_dist a b u) mod num_upstreams a = u"
  by (simp add: rr_dist_def valid_up_def mod_add_right_eq)

lemma rr_dist_advance:
  assumes "0 \<le> j" "j < rr_dist a b u" "rr_dist a b u < num_upstreams a"
    "rrReadIdx a' b = ((rrReadIdx a b + j) mod num_upstreams a + 1) mod num_upstreams a"
    "num_upstreams a' = num_upstreams a"
  shows "rr_dist a' b u = rr_dist a b u - j - 1"
proof -
  let ?n = "num_upstreams a" and ?r = "rrReadIdx a b"
  have "rr_dist a' b u = (u - ((?r + j) mod ?n + 1) mod ?n) mod ?n"
    by (simp add: rr_dist_def assms(4,5))
  also have "\<dots> = (u - (?r + j + 1)) mod ?n"
    by (simp add: mod_diff_right_eq mod_add_left_eq)
  also have "\<dots> = ((u - ?r) mod ?n - (j + 1)) mod ?n"
    by (simp add: mod_diff_left_eq algebra_simps)
  also have "\<dots> = rr_dist a b u - (j + 1)"
    unfolding rr_dist_def [symmetric] using assms(1-3) by (intro mod_pos_pos_trivial) auto
  finally show ?thesis by simp
qed

text \<open>
  Every successful read round of a bank serves a waiting upstream or brings it strictly
  closer to its turn.
\<close>

lemma round_robin_progress:
  assumes ok: "arb_ok (arb s)" and ready: "ready_downstream rc b s"
    and u: "valid_up (arb s) u" and wait: "readInBufs (arb s) b u \<noteq> []"
  shows "\<exists>v s1. arbitrateReadRequests rc b s = ret (True, arb_read_sent b v s1) \<and> arb s1 = arb s \<and>
    readInBufs (arb s) b v \<noteq> [] \<and> valid_up (arb s) v \<and>
    (v = u \<or> rr_dist (arb (arb_read_sent b v s1)) b u < rr_dist (arb s) b u)"
proof -
  let ?n = "num_upstreams (arb s)" and ?r = "rrReadIdx (arb s) b" and ?d = "rr_dist (arb s) b u"
  have n: "0 < ?n" using ok by (simp add: arb_ok_def)
  have d: "0 \<le> ?d" "?d < ?n" "(?r + ?d) mod ?n = u"
    using rr_dist_range [OF ok, of b u] rr_dist_position [OF u] by auto
  obtain pre j post s1 where p: "[0..?n - 1] = pre @ j # post"
      "\<forall>i\<in>set pre. readInBufs (arb s) b ((?r + i) mod ?n) = []"
      "readInBufs (arb s) b ((?r + j) mod ?n) \<noteq> []" "arb s1 = arb s"
      "arb_read_scan rc b [0..?n - 1] s = ret (True, arb_read_sent b ((?r + j) mod ?n) s1)"
    using read_scan_first [OF ready, of ?d "[0..?n - 1]"] d wait by auto
  have "j \<in> set [0..?n - 1]" unfolding p(1) by simp
  then have j0: "0 \<le> j" by simp
  have "?d \<in> set (pre @ j # post)" unfolding p(1) [symmetric] using d by simp
  moreover have "?d \<notin> set pre" using p(2) d(3) wait by auto
  moreover have "sorted (pre @ j # post)" unfolding p(1) [symmetric] by simp
  ultimately have jd: "j \<le> ?d" by (auto simp: sorted_append)
  let ?v = "(?r + j) mod ?n" and ?a = "arb (arb_read_sent b ((?r + j) mod ?n) s1)"
  have "?v = u \<or> rr_dist ?a b u < ?d"
  proof (cases "j = ?d")
    case False
    with jd have "j < ?d" by simp
    then have "rr_dist ?a b u = ?d - j - 1"
      by (intro rr_dist_advance [OF j0 _ d(2)]) (simp_all add: arb_read_sent_def Let_def p(4))
    with j0 show ?thesis by simp
  qed (use d(3) in simp)
  then show ?thesis
    using p(3-5) n by (intro exI [of _ ?v] exI [of _ s1]) (simp add: arbitrateReadRequests_def rr_valid)
qed

section \<open>An idle arbiter\<close>

lemma scan_idle:
  "(\<And>u. readInBufs (arb s) b u = []) \<Longrightarrow> arb_read_scan rc b ks s = ret (False, s)"
  "(\<And>u. writeInBufs (arb s) b u = []) \<Longrightarrow> arb_write_scan rc b ks s = ret (False, s)"
  by (induction ks) (simp_all add: Let_def)

lemma arbitrate_idle:
  assumes "\<And>b u. readInBufs (arb s) b u = []" "\<And>b u. writeInBufs (arb s) b u = []"
  shows "arbitrate rc s = schedule_next (arbEvent (arb s)) s"
proof -
  have step: "arbitrate_bank rc b (g, s) = ret ((False, True), s)" for b g
    using assms by (cases g)
      (simp add: arbitrate_bank_def arbitrateReadRequests_def arbitrateWriteRequests_def
        scan_idle checkPendingRequests_def)
  have "for_run (arbitrate_bank rc) (b # bs) (g, s) = ret ((False, True), s)" for b bs g
    by (induction bs arbitrary: b g) (auto simp: step)
  then have "for_run (arbitrate_bank rc) [0..num_banks - 1] ((False, False), s) = ret ((False, True), s)"
    by (simp add: num_banks_def upto_rec1)
  then show ?thesis by (simp add: arbitrate_def schedule_next_def)
qed

end
