(* ===== verification/Up_Buffer.thy ===== *)
theory Up_Buffer
  imports Dram_Arb_Run
begin

text \<open>
  The upstream buffers (\<open>src/buffer/UpBuffer.h\<close>, \<open>src/buffer/UpBuffer.cpp\<close>): each owns
  eight request ports, asks for one line per port, stores the responses and hands them
  to the compute side. A buffer is named by its index \<open>u\<close>; \<open>rc\<close> are the receivers of the
  peers, as for the arbiter.
\<close>

section \<open>State\<close>

definition up_num_ports :: int where "up_num_ports = 8"

record UpBuffer =
  up_addr :: addr_t
  buffer_Data :: "int \<Rightarrow> pptr list"
  bufferdata_num :: "int \<Rightarrow> nat"
  up_retryReq :: "int \<Rightarrow> bool"
  up_retryResp :: "int \<Rightarrow> bool"
  addr_init :: addr_t
  up_buf_size :: int
  up_tickEvent :: eid
  send_data_retryrespEvent :: eid

record up_sys = arb_sys +
  ups :: "int \<Rightarrow> UpBuffer"

definition to_uint32 :: "int \<Rightarrow> nat" where
  "to_uint32 i = nat (i mod 2 ^ 32)"

definition dec32 :: "nat \<Rightarrow> nat" where
  "dec32 n = (n + 2 ^ 32 - 1) mod 2 ^ 32"

text \<open>\<open>jresp\<close> is the indeterminate content of \<open>retryResp\<close>, which the constructor leaves out.\<close>

definition new_UpBuffer :: "(int \<Rightarrow> bool) \<Rightarrow> addr_t \<Rightarrow> eid \<Rightarrow> eid \<Rightarrow> UpBuffer" where
  "new_UpBuffer jresp a te se =
     \<lparr>up_addr = a, buffer_Data = (\<lambda>_. []), bufferdata_num = (\<lambda>_. 0), up_retryReq = (\<lambda>_. False),
      up_retryResp = jresp, addr_init = a, up_buf_size = 3,
      up_tickEvent = te, send_data_retryrespEvent = se\<rparr>"

definition up_createPorts :: "string \<Rightarrow> int \<Rightarrow> port_id net \<Rightarrow> port_id net" where
  "up_createPorts n u net =
     (\<lambda>p. case p of
        UpSide v i \<Rightarrow>
          if v = u \<and> 0 \<le> i \<and> i < up_num_ports
          then new_Port RequestPort (n @ ''.buf_side'' @ to_string i) else net p
      | _ \<Rightarrow> net p)"

definition no_such_port :: sim_error where "no_such_port = RuntimeError ''No such port''"

definition up_getPort :: "int \<Rightarrow> string \<Rightarrow> port_id run" where
  "up_getPort u name =
     (if starts_with ''buf_side'' name
      then (case stoi (drop 8 name) of
              None \<Rightarrow> raise bad_stoi
            | Some i \<Rightarrow> if 0 \<le> i \<and> i < up_num_ports then ret (UpSide u i) else raise no_such_port)
      else raise no_such_port)"

section \<open>Operations\<close>

definition upd_up :: "int \<Rightarrow> (UpBuffer \<Rightarrow> UpBuffer) \<Rightarrow> 'a up_sys_scheme \<Rightarrow> 'a up_sys_scheme" where
  "upd_up u f s = s\<lparr>ups := (ups s)(u := f (ups s u))\<rparr>"

definition up_full :: "UpBuffer \<Rightarrow> int \<Rightarrow> bool" where
  "up_full b i \<longleftrightarrow> to_uint32 (up_buf_size b) < bufferdata_num b i"

definition up_sendTimingReq ::
    "(port_id \<Rightarrow> 'a up_sys_scheme receivers) \<Rightarrow> int \<Rightarrow> pptr \<Rightarrow> int \<Rightarrow>
     'a up_sys_scheme \<Rightarrow> (bool \<times> 'a up_sys_scheme) run" where
  "up_sendTimingReq rc u pkt i s =
     (if 0 \<le> i \<and> i < up_num_ports then sendTimingReq rc (ports s (UpSide u i)) pkt s
      else ret (False, s))"

definition up_init_port ::
    "(port_id \<Rightarrow> 'a up_sys_scheme receivers) \<Rightarrow> int \<Rightarrow> int \<Rightarrow> 'a up_sys_scheme \<Rightarrow> 'a up_sys_scheme run" where
  "up_init_port rc u i s =
     (let (pkt, s1) = create_read_packet (up_addr (ups s u)) 64 s;
          s2 = upd_up u (\<lambda>b. b\<lparr>up_addr := up_addr b + 64\<rparr>) s1
      in run_bind (up_sendTimingReq rc u pkt i s2) (\<lambda>(ok, s3). ret s3))"

definition up_init ::
    "(port_id \<Rightarrow> 'a up_sys_scheme receivers) \<Rightarrow> int \<Rightarrow> 'a up_sys_scheme \<Rightarrow> 'a up_sys_scheme run" where
  "up_init rc u s = for_run (up_init_port rc u) [0..up_num_ports - 1] s"

definition up_set_retryReq :: "int \<Rightarrow> int \<Rightarrow> bool \<Rightarrow> 'a up_sys_scheme \<Rightarrow> 'a up_sys_scheme" where
  "up_set_retryReq u i v s = upd_up u (\<lambda>b. b\<lparr>up_retryReq := (up_retryReq b)(i := v)\<rparr>) s"

text \<open>The line that port \<open>i\<close> asks for.\<close>

definition up_line :: "UpBuffer \<Rightarrow> int \<Rightarrow> addr_t" where
  "up_line b i = up_addr b + of_int (i * 64)"

definition up_sendpkt_port ::
    "(port_id \<Rightarrow> 'a up_sys_scheme receivers) \<Rightarrow> int \<Rightarrow> int \<Rightarrow> 'a up_sys_scheme \<Rightarrow> 'a up_sys_scheme run" where
  "up_sendpkt_port rc u i s =
     (if up_full (ups s u) i then ret (up_set_retryReq u i True s)
      else let (pkt, s1) = create_read_packet (up_line (ups s u) i) 64 s
           in run_bind (up_sendTimingReq rc u pkt i s1)
                (\<lambda>(ok, s2). ret (if ok then s2 else up_set_retryReq u i True s2)))"

definition sendpkt_event ::
    "(port_id \<Rightarrow> 'a up_sys_scheme receivers) \<Rightarrow> int \<Rightarrow> 'a up_sys_scheme \<Rightarrow> 'a up_sys_scheme run" where
  "sendpkt_event rc u s = for_run (up_sendpkt_port rc u) [0..up_num_ports - 1] s"

definition up_recvTimingResp ::
    "int \<Rightarrow> pptr \<Rightarrow> int \<Rightarrow> 'a up_sys_scheme \<Rightarrow> (bool \<times> 'a up_sys_scheme) run" where
  "up_recvTimingResp u pkt i s =
     assert_that (0 \<le> i \<and> i < up_num_ports)
      (if up_full (ups s u) i
       then ret (False, upd_up u (\<lambda>b. b\<lparr>up_retryResp := (up_retryResp b)(i := True)\<rparr>) s)
       else let s1 = upd_up u (\<lambda>b. b\<lparr>buffer_Data := (buffer_Data b)(i := buffer_Data b i @ [pkt]),
                                     bufferdata_num := (bufferdata_num b)(i := inc32 (bufferdata_num b i))\<rparr>) s
            in run_bind (schedule_next (up_tickEvent (ups s1 u)) s1) (\<lambda>s2. ret (True, s2)))"

definition up_take :: "int \<Rightarrow> UpBuffer \<Rightarrow> UpBuffer" where
  "up_take i b =
     (case buffer_Data b i of
        [] \<Rightarrow> b
      | _ # ps \<Rightarrow> b\<lparr>buffer_Data := (buffer_Data b)(i := ps),
                     bufferdata_num := (bufferdata_num b)(i := dec32 (bufferdata_num b i))\<rparr>)"

definition up_has_pending :: "UpBuffer \<Rightarrow> bool" where
  "up_has_pending b \<longleftrightarrow> (\<exists>i\<in>set [0..up_num_ports - 1]. buffer_Data b i \<noteq> [])"

definition send_data_2cal :: "int \<Rightarrow> 'a up_sys_scheme \<Rightarrow> 'a up_sys_scheme run" where
  "send_data_2cal u s =
     (let s1 = upd_up u (fold up_take [0..up_num_ports - 1]) s; e = send_data_retryrespEvent (ups s1 u)
      in if \<not> ev_scheduled (events s1 e) \<and> up_has_pending (ups s1 u)
         then eq_schedule e (cur_tick s1 + 1) s1 else ret s1)"

definition up_sendRetryReq ::
    "(port_id \<Rightarrow> 'a up_sys_scheme receivers) \<Rightarrow> int \<Rightarrow> int \<Rightarrow> 'a up_sys_scheme \<Rightarrow> 'a up_sys_scheme run" where
  "up_sendRetryReq rc u i s =
     (if i < 0 \<or> up_num_ports \<le> i then ret s
      else let (pkt, s1) = create_read_packet (up_line (ups s u) i) 64 s
           in run_bind (up_sendTimingReq rc u pkt i s1)
                (\<lambda>(ok, s2). ret (up_set_retryReq u i (\<not> ok) s2)))"

definition UpRequestPort_receivers ::
    "(port_id \<Rightarrow> 'a up_sys_scheme receivers) \<Rightarrow> int \<Rightarrow> int \<Rightarrow> 'a up_sys_scheme receivers" where
  "UpRequestPort_receivers rc u i =
     default_receivers\<lparr>rcv_TimingResp := (\<lambda>pkt. up_recvTimingResp u pkt i),
       rcv_ReqRetry := up_sendRetryReq rc u i\<rparr>"

definition up_process ::
    "(port_id \<Rightarrow> 'a up_sys_scheme receivers) \<Rightarrow> int \<Rightarrow> eid \<Rightarrow> 'a up_sys_scheme \<Rightarrow> 'a up_sys_scheme run" where
  "up_process rc u e s =
     (if e = up_tickEvent (ups s u) then sendpkt_event rc u s
      else if e = send_data_retryrespEvent (ups s u) then send_data_2cal u s
      else ret s)"

section \<open>The invariant of a buffer\<close>

definition valid_port :: "int \<Rightarrow> bool" where
  "valid_port i \<longleftrightarrow> 0 \<le> i \<and> i < up_num_ports"

definition up_ok :: "UpBuffer \<Rightarrow> bool" where
  "up_ok b \<longleftrightarrow>
     up_buf_size b = 3 \<and> up_tickEvent b \<noteq> send_data_retryrespEvent b \<and>
     (\<forall>i. bufferdata_num b i = length (buffer_Data b i) \<and> length (buffer_Data b i) \<le> 4)"

lemma to_uint32_id [simp]: "0 \<le> i \<Longrightarrow> i < 2 ^ 32 \<Longrightarrow> to_uint32 i = nat i"
  by (simp add: to_uint32_def)

lemma dec32_Suc [simp]: "n < 2 ^ 32 \<Longrightarrow> dec32 (Suc n) = n"
  by (simp add: dec32_def)

lemma up_full_iff: "up_ok b \<Longrightarrow> up_full b i \<longleftrightarrow> length (buffer_Data b i) = 4"
  by (auto simp: up_ok_def up_full_def to_uint32_def intro: le_antisym)

lemma up_ok_new: "te \<noteq> se \<Longrightarrow> up_ok (new_UpBuffer j a te se)"
  by (simp add: up_ok_def new_UpBuffer_def)

lemma up_ok_flags [simp]:
  "up_ok (b\<lparr>up_retryReq := f\<rparr>) = up_ok b" "up_ok (b\<lparr>up_retryResp := f\<rparr>) = up_ok b"
  "up_ok (b\<lparr>up_addr := a\<rparr>) = up_ok b"
  by (simp_all add: up_ok_def)

text \<open>Receiving a response: the fourth packet is still taken, the fifth refused.\<close>

lemma up_recvTimingResp_spec:
  assumes ok: "up_ok (ups s u)" and i: "valid_port i" and wf: "eq_wf s" "cur_tick s \<noteq> - 1"
  shows "if length (buffer_Data (ups s u) i) = 4
    then up_recvTimingResp u pkt i s =
      ret (False, upd_up u (\<lambda>b. b\<lparr>up_retryResp := (up_retryResp b)(i := True)\<rparr>) s)
    else \<exists>h p b. up_recvTimingResp u pkt i s =
        ret (True, s\<lparr>ups := (ups s)(u := b), events := h, qhead := p\<rparr>) \<and>
      b = (ups s u)\<lparr>buffer_Data := (buffer_Data (ups s u))(i := buffer_Data (ups s u) i @ [pkt]),
                   bufferdata_num := (bufferdata_num (ups s u))(i := Suc (bufferdata_num (ups s u) i))\<rparr> \<and>
      up_ok b \<and> eq_wf (s\<lparr>ups := (ups s)(u := b), events := h, qhead := p\<rparr>) \<and>
      (\<forall>x. ev_scheduled (h x) \<longleftrightarrow> x = up_tickEvent (ups s u) \<or> ev_scheduled (events s x)) \<and>
      later s (s\<lparr>ups := (ups s)(u := b), events := h, qhead := p\<rparr>)"
proof (cases "length (buffer_Data (ups s u) i) = 4")
  case True
  then show ?thesis
    using i by (simp add: up_recvTimingResp_def valid_port_def up_full_iff [OF ok])
next
  case False
  define b where "b = (ups s u)\<lparr>buffer_Data := (buffer_Data (ups s u))(i := buffer_Data (ups s u) i @ [pkt]),
    bufferdata_num := (bufferdata_num (ups s u))(i := Suc (bufferdata_num (ups s u) i))\<rparr>"
  define s1 where "s1 = s\<lparr>ups := (ups s)(u := b)\<rparr>"
  have len: "length (buffer_Data (ups s u) i) < 4" "bufferdata_num (ups s u) i < 4"
    using ok False by (auto simp: up_ok_def le_less)
  then have inc: "inc32 (bufferdata_num (ups s u) i) = Suc (bufferdata_num (ups s u) i)" by simp
  have "up_ok b" using ok len by (auto simp: up_ok_def b_def)
  moreover have "eq_wf s1" using wf(1) by (simp add: s1_def eq_wf_def eq_list_def eq_repr_def)
  then obtain h p where hp: "schedule_next (up_tickEvent b) s1 = ret (s1\<lparr>events := h, qhead := p\<rparr>)"
      "eq_wf (s1\<lparr>events := h, qhead := p\<rparr>)"
      "\<forall>x. ev_scheduled (h x) \<longleftrightarrow> x = up_tickEvent b \<or> ev_scheduled (events s1 x)"
      "later s (s1\<lparr>events := h, qhead := p\<rparr>)"
    using schedule_next_wf [of s1 "up_tickEvent b"] wf(2) by (auto simp: s1_def later_def)
  moreover have "up_recvTimingResp u pkt i s = ret (True, s1\<lparr>events := h, qhead := p\<rparr>)"
    using i hp(1) False inc
    by (simp add: up_recvTimingResp_def valid_port_def up_full_iff [OF ok] upd_up_def Let_def
        s1_def b_def)
  ultimately show ?thesis using False by (auto simp: s1_def b_def)
qed

section \<open>Handing data to the compute side\<close>

definition up_drop :: "int set \<Rightarrow> UpBuffer \<Rightarrow> UpBuffer" where
  "up_drop P b = b\<lparr>buffer_Data := (\<lambda>i. if i \<in> P then tl (buffer_Data b i) else buffer_Data b i),
                   bufferdata_num := (\<lambda>i. if i \<in> P then bufferdata_num b i - 1 else bufferdata_num b i)\<rparr>"

lemma up_drop_ok: "up_ok b \<Longrightarrow> up_ok (up_drop P b)"
  by (auto simp: up_ok_def up_drop_def intro: le_trans [OF diff_le_self])

lemma up_take_drop:
  assumes "up_ok b"
  shows "up_take i b = up_drop {i} b"
proof (cases "buffer_Data b i")
  case Nil
  then have "bufferdata_num b i = 0" using assms by (simp add: up_ok_def)
  with Nil show ?thesis
    by (auto simp: up_take_def up_drop_def fun_eq_iff
        intro!: UpBuffer.equality)
next
  case (Cons p ps)
  have l: "bufferdata_num b i = length (buffer_Data b i)" "length (buffer_Data b i) \<le> 4"
    using assms by (auto simp: up_ok_def)
  then have "bufferdata_num b i = Suc (length ps)" "length ps < 2 ^ 32" using Cons by auto
  then have "dec32 (bufferdata_num b i) = bufferdata_num b i - 1" by simp
  with Cons show ?thesis by (auto simp: up_take_def up_drop_def fun_eq_iff)
qed

lemma up_take_all:
  assumes "up_ok b" "distinct is"
  shows "fold up_take is b = up_drop (set is) b"
  using assms
proof (induction "is" arbitrary: b)
  case Nil
  show ?case by (simp add: up_drop_def)
next
  case (Cons i js)
  have "up_drop (set js) (up_drop {i} b) = up_drop (set (i # js)) b"
    using Cons.prems(2) by (auto simp: up_drop_def fun_eq_iff)
  with Cons show ?case by (simp add: up_take_drop up_drop_ok)
qed

text \<open>
  One call removes the oldest packet of every non-empty port, and the event is armed
  again exactly when something is left.
\<close>

lemma send_data_2cal_spec:
  assumes ok: "up_ok (ups s u)" and wf: "eq_wf s" "cur_tick s \<noteq> - 1"
    and b: "b = up_drop {i. valid_port i} (ups s u)"
  shows "\<exists>h p. send_data_2cal u s = ret (s\<lparr>ups := (ups s)(u := b), events := h, qhead := p\<rparr>) \<and>
    up_ok b \<and> eq_wf (s\<lparr>ups := (ups s)(u := b), events := h, qhead := p\<rparr>) \<and>
    (\<forall>x. ev_scheduled (h x) \<longleftrightarrow>
       (x = send_data_retryrespEvent b \<and> (\<exists>i. valid_port i \<and> buffer_Data b i \<noteq> [])) \<or>
       ev_scheduled (events s x)) \<and>
    later s (s\<lparr>ups := (ups s)(u := b), events := h, qhead := p\<rparr>)"
proof -
  define s1 where "s1 = s\<lparr>ups := (ups s)(u := b)\<rparr>"
  have P: "set [0..up_num_ports - 1] = {i. valid_port i}" by (auto simp: valid_port_def)
  have "fold up_take [0..up_num_ports - 1] (ups s u) = b"
    using up_take_all [OF ok, of "[0..up_num_ports - 1]"] unfolding b P by simp
  then have s1: "upd_up u (fold up_take [0..up_num_ports - 1]) s = s1" by (simp add: upd_up_def s1_def)
  have ok': "up_ok b" unfolding b by (rule up_drop_ok [OF ok])
  have wf1: "eq_wf s1" using wf(1) by (simp add: s1_def eq_wf_def eq_list_def eq_repr_def)
  have t: "cur_tick s1 \<noteq> - 1" using wf(2) by (simp add: s1_def)
  have pend: "up_has_pending b \<longleftrightarrow> (\<exists>i. valid_port i \<and> buffer_Data b i \<noteq> [])"
    unfolding up_has_pending_def P by simp
  have run: "send_data_2cal u s = (if up_has_pending b then schedule_next (send_data_retryrespEvent b) s1 else ret s1)"
    unfolding send_data_2cal_def s1 Let_def schedule_next_def by (simp add: s1_def)
  show ?thesis
  proof (cases "up_has_pending b")
    case True
    with schedule_next_wf [OF wf1 t, of "send_data_retryrespEvent b"] show ?thesis
      using ok' pend run by (auto simp: s1_def later_def)
  next
    case False
    then show ?thesis
      using ok' pend run wf1 by (intro exI [of _ "events s"] exI [of _ "qhead s"]) (auto simp: s1_def later_def)
  qed
qed

section \<open>Requests\<close>

lemma up_getPort_name:
  assumes "valid_port i"
  shows "up_getPort u (''buf_side'' @ to_string i) = ret (UpSide u i)"
proof -
  have i: "0 \<le> i" "i < up_num_ports" "i < 2 ^ 31" using assms by (auto simp: valid_port_def up_num_ports_def)
  have "stoi (to_string i) = Some i" using stoi_to_string [of i "[]"] i by simp
  moreover have "drop 8 (''buf_side'' @ to_string i) = to_string i" by (rule drop_prefix) simp
  ultimately show ?thesis using i unfolding up_getPort_def by (simp only: starts_with_append if_True option.case) simp
qed

text \<open>The requests of a round never move on: the base address stays what it was.\<close>

lemma sendpkt_event_addr:
  assumes "sendpkt_event rc u s = ret s'"
    and peer: "\<And>pt pkt t t' k. sendTimingReq rc pt pkt t = ret (k, t') \<Longrightarrow> up_addr (ups t' u) = up_addr (ups t u)"
  shows "up_addr (ups s' u) = up_addr (ups s u)"
proof -
  let ?P = "\<lambda>t. up_addr (ups t u) = up_addr (ups s u)"
  have alloc: "up_addr (ups (snd (create_read_packet a n t)) u) = up_addr (ups t u)" for a n t
    by (simp add: create_read_packet_def alloc_pkt_def)
  have set: "up_addr (ups (up_set_retryReq u i v t) u) = up_addr (ups t u)" for i v t
    by (simp add: up_set_retryReq_def upd_up_def)
  show ?thesis
  proof (rule for_run_inv [OF assms(1) [unfolded sendpkt_event_def], of ?P])
    fix i t t'
    assume t: "?P t" "up_sendpkt_port rc u i t = ret t'"
    show "?P t'"
    proof (cases "up_full (ups t u) i")
      case True
      then show ?thesis using t set [of i True t] by (auto simp: up_sendpkt_port_def)
    next
      case False
      obtain pkt t1 where t1: "create_read_packet (up_line (ups t u) i) 64 t = (pkt, t1)" by fastforce
      with t False obtain k t2 where t2: "up_sendTimingReq rc u pkt i t1 = ret (k, t2)"
          "t' = (if k then t2 else up_set_retryReq u i True t2)"
        by (auto simp: up_sendpkt_port_def run_elims)
      have "up_addr (ups t2 u) = up_addr (ups t1 u)"
        using t2(1) peer by (auto simp: up_sendTimingReq_def split: if_splits)
      then show ?thesis using t(1) t2(2) alloc [of "up_line (ups t u) i" 64 t] by (simp add: t1 set)
    qed
  qed simp
qed

end
