(* ===== verification/Mem_Interface.thy ===== *)
theory Mem_Interface
  imports Sim_Prelude
begin

text \<open>
  The memory system as the rest of the simulator sees it: the public functions of
  \<open>DRAMsim3-master/src/memory_system.h\<close> that the wrapper calls, as a record, and the
  contract that the clients rely on. \<open>DS_System\<close> provides the implementations.
\<close>

text \<open>
  \<open>ms_ClockTick\<close> returns the completed transactions (address, is a write) in the order
  in which the memory system calls the callbacks back.
\<close>

record 'm MemorySystem =
  ms_WillAcceptTransaction :: "addr_t \<Rightarrow> bool \<Rightarrow> 'm \<Rightarrow> bool"
  ms_AddTransaction :: "addr_t \<Rightarrow> bool \<Rightarrow> 'm \<Rightarrow> (bool \<times> 'm) run"
  ms_ClockTick :: "'m \<Rightarrow> ((addr_t \<times> bool) list \<times> 'm) run"
  ms_GetChannel :: "addr_t \<Rightarrow> 'm \<Rightarrow> int"

text \<open>A number of clock cycles in a row, with everything they complete.\<close>

fun run_ticks :: "'m MemorySystem \<Rightarrow> nat \<Rightarrow> 'm \<Rightarrow> ((addr_t \<times> bool) list \<times> 'm) run" where
  "run_ticks ms 0 m = ret ([], m)"
| "run_ticks ms (Suc n) m =
     run_bind (ms_ClockTick ms m) (\<lambda>(ts, m1). run_bind (run_ticks ms n m1) (\<lambda>(us, m2). ret (ts @ us, m2)))"

text \<open>
  The part that every client relies on: \<open>pend m\<close> are the transactions that were taken and
  not yet completed; an accepted transaction is taken, every taken transaction is completed
  at most once, and nothing else is, and no call fails.
\<close>

locale memory_core =
  fixes ms :: "'m MemorySystem"
    and ok :: "'m \<Rightarrow> bool"
    and pend :: "'m \<Rightarrow> (addr_t \<times> bool) multiset"
  assumes add_trans: "ok m \<Longrightarrow> ms_WillAcceptTransaction ms a w m \<Longrightarrow>
      \<exists>m'. ms_AddTransaction ms a w m = ret (True, m') \<and> ok m' \<and> pend m' = add_mset (a, w) (pend m)"
    and clock_tick: "ok m \<Longrightarrow>
      \<exists>ts m'. ms_ClockTick ms m = ret (ts, m') \<and> ok m' \<and> pend m = mset ts + pend m'"
begin

text \<open>Over any number of cycles the completed and the pending transactions add up.\<close>

lemma ticks_conserve:
  "ok m \<Longrightarrow> \<exists>ts m'. run_ticks ms n m = ret (ts, m') \<and> ok m' \<and> pend m = mset ts + pend m'"
proof (induction n arbitrary: m)
  case (Suc n)
  obtain ts m1 where 1: "ms_ClockTick ms m = ret (ts, m1)" "ok m1" "pend m = mset ts + pend m1"
    using clock_tick [OF Suc.prems] by blast
  obtain us m2 where "run_ticks ms n m1 = ret (us, m2)" "ok m2" "pend m1 = mset us + pend m2"
    using Suc.IH [OF 1(2)] by blast
  with 1 show ?case by simp
qed simp

end

text \<open>
  With channels: an address belongs to one, and reads are taken while the channel has fewer
  than \<open>cap\<close> transactions pending.
\<close>

locale memory_backend = memory_core +
  fixes chan :: "addr_t \<Rightarrow> int"
    and cap :: nat
  assumes get_chan: "ok m \<Longrightarrow> ms_GetChannel ms a m = chan a"
    and will_accept: "ok m \<Longrightarrow> size {#t \<in># pend m. chan (fst t) = chan a#} < cap \<Longrightarrow>
      ms_WillAcceptTransaction ms a False m"

text \<open>A memory with a clock: a cycle advances it by one and taking a transaction leaves it.\<close>

locale memory_clock =
  fixes ms :: "'m MemorySystem"
    and mclk :: "'m \<Rightarrow> 64 word"
  assumes tick_clock: "ms_ClockTick ms m = ret (ts, m') \<Longrightarrow> mclk m' = mclk m + 1"
    and add_clock: "ms_AddTransaction ms a w m = ret (b, m') \<Longrightarrow> mclk m' = mclk m"
begin

lemma ticks_clock: "run_ticks ms n m = ret (ts, m') \<Longrightarrow> mclk m' = mclk m + of_nat n"
proof (induction n arbitrary: m ts)
  case (Suc n)
  then obtain us m1 vs where "ms_ClockTick ms m = ret (us, m1)" "run_ticks ms n m1 = ret (vs, m')" by (auto simp: run_elims)
  with Suc.IH [of m1 vs] show ?case by (simp add: tick_clock algebra_simps)
qed simp

end

end
