(* ===== verification/Mem_Channel.thy ===== *)
theory Mem_Channel
  imports Up_Buffer Mem_Interface
begin

text \<open>
  The memory side: the channel objects \<open>DRAMsim3\<close> (\<open>src/dram/dramsim3.h\<close>,
  \<open>src/dram/dramsim3.cpp\<close>) and the wrapper around the cycle-accurate memory system
  (\<open>src/dram/dramsim3_wrapper.h\<close>, \<open>src/dram/dramsim3_wrapper.cpp\<close>). The memory system
  behind the wrapper is the record \<open>MemorySystem\<close> of its public functions; \<open>DS_System\<close>
  provides the one of the repository.
\<close>

section \<open>State\<close>

record DRAMsim3 =
  channel_id :: int
  ch_retryReq :: bool
  ch_retryResp :: bool
  ch_startTick :: tick
  ch_outstandingReads :: "pptr mqueue"
  ch_outstandingWrites :: "pptr mqueue"
  ch_nbrReads :: nat
  ch_nbrWrites :: nat
  ch_responseQueue :: "pptr list"
  ch_sendResponseEvent :: eid
  ch_tickEvent :: eid
  pendingDelete :: "pptr option"

definition CHANNEL_NUM :: int where "CHANNEL_NUM = 8"

record 'm mem_sys = up_sys +
  chans :: "int \<Rightarrow> DRAMsim3"
  mem :: 'm
  read_callbacks :: "int \<Rightarrow> int option"
  write_callbacks :: "int \<Rightarrow> int option"
  wrapper_tickEvent :: eid
  waitingAddrToBuf :: "addr_t \<Rightarrow> bool"
  channle_vld :: "int \<Rightarrow> bool"
  vld4repeate_ch :: "int \<Rightarrow> int \<Rightarrow> bool"

definition upd_chan :: "int \<Rightarrow> (DRAMsim3 \<Rightarrow> DRAMsim3) \<Rightarrow> ('m, 'a) mem_sys_scheme \<Rightarrow> ('m, 'a) mem_sys_scheme" where
  "upd_chan c f s = s\<lparr>chans := (chans s)(c := f (chans s c))\<rparr>"

section \<open>The wrapper\<close>

definition set_read_callback :: "int \<Rightarrow> int \<Rightarrow> ('m, 'a) mem_sys_scheme \<Rightarrow> ('m, 'a) mem_sys_scheme" where
  "set_read_callback ch c s =
     (if 0 \<le> ch \<and> ch < CHANNEL_NUM then s\<lparr>read_callbacks := (read_callbacks s)(ch := Some c)\<rparr> else s)"

definition set_write_callback :: "int \<Rightarrow> int \<Rightarrow> ('m, 'a) mem_sys_scheme \<Rightarrow> ('m, 'a) mem_sys_scheme" where
  "set_write_callback ch c s =
     (if 0 \<le> ch \<and> ch < CHANNEL_NUM then s\<lparr>write_callbacks := (write_callbacks s)(ch := Some c)\<rparr> else s)"

definition can_accept :: "'m MemorySystem \<Rightarrow> addr_t \<Rightarrow> bool \<Rightarrow> ('m, 'a) mem_sys_scheme \<Rightarrow> bool" where
  "can_accept ms addr w s = ms_WillAcceptTransaction ms addr w (mem s)"

definition send_request ::
    "'m MemorySystem \<Rightarrow> addr_t \<Rightarrow> bool \<Rightarrow> ('m, 'a) mem_sys_scheme \<Rightarrow> ('m, 'a) mem_sys_scheme run" where
  "send_request ms addr w s =
     run_bind (ms_AddTransaction ms addr w (mem s)) (\<lambda>(success, m).
     assert_that success (ret (s\<lparr>mem := m\<rparr>)))"

text \<open>\<open>get_channel\<close> takes an \<open>address_t\<close>, which is 32 bits wide.\<close>

definition get_channel :: "'m MemorySystem \<Rightarrow> addr_t \<Rightarrow> ('m, 'a) mem_sys_scheme \<Rightarrow> int" where
  "get_channel ms addr s = ms_GetChannel ms (ucast (ucast addr :: 32 word)) (mem s)"

text \<open>The bookkeeping of \<open>request_read\<close>: its loop runs to 128 over an array of 64.\<close>

fun repeate_scan :: "int list \<Rightarrow> (int \<Rightarrow> bool) \<Rightarrow> (int \<Rightarrow> bool) run" where
  "repeate_scan [] v = raise (RuntimeError ''repeate full'')"
| "repeate_scan (i # is) v =
     (if i \<ge> 64 then raise OutOfBounds
      else if \<not> v i then ret (v(i := True)) else repeate_scan is v)"

definition request_read :: "'m MemorySystem \<Rightarrow> addr_t \<Rightarrow> ('m, 'a) mem_sys_scheme \<Rightarrow> ('m, 'a) mem_sys_scheme run" where
  "request_read ms addr s =
     (let ch = get_channel ms addr s;
          s1 = s\<lparr>waitingAddrToBuf := (waitingAddrToBuf s)(addr := False)\<rparr>
      in checked (0 \<le> ch \<and> ch < CHANNEL_NUM)
          (if \<not> channle_vld s1 ch then ret (s1\<lparr>channle_vld := (channle_vld s1)(ch := True)\<rparr>)
           else run_bind (repeate_scan [0..127] (vld4repeate_ch s1 ch))
                  (\<lambda>v. ret (s1\<lparr>vld4repeate_ch := (vld4repeate_ch s1)(ch := v)\<rparr>))))"

section \<open>The channel\<close>

definition new_DRAMsim3 :: "int \<Rightarrow> eid \<Rightarrow> eid \<Rightarrow> DRAMsim3" where
  "new_DRAMsim3 c re te =
     \<lparr>channel_id = c, ch_retryReq = False, ch_retryResp = False, ch_startTick = 0,
      ch_outstandingReads = (\<lambda>_. None), ch_outstandingWrites = (\<lambda>_. None), ch_nbrReads = 0,
      ch_nbrWrites = 0, ch_responseQueue = [], ch_sendResponseEvent = re, ch_tickEvent = te,
      pendingDelete = None\<rparr>"

definition construct_DRAMsim3 ::
    "int \<Rightarrow> int \<Rightarrow> eid \<Rightarrow> eid \<Rightarrow> ('m, 'a) mem_sys_scheme \<Rightarrow> ('m, 'a) mem_sys_scheme" where
  "construct_DRAMsim3 c channel re te s =
     set_write_callback channel c (set_read_callback channel c
       (s\<lparr>chans := (chans s)(c := new_DRAMsim3 channel re te)\<rparr>))"

definition mem_createPort :: "string \<Rightarrow> int \<Rightarrow> port_id net \<Rightarrow> port_id net" where
  "mem_createPort n c net = net(MemSide c := new_Port ResponsePort (n @ ''.Event.port''))"

definition mem_getPort :: "int \<Rightarrow> string \<Rightarrow> port_id run" where
  "mem_getPort c name = (if name = ''mem_side'' then ret (MemSide c) else raise no_such_port)"

definition nbrOutstanding :: "DRAMsim3 \<Rightarrow> nat" where
  "nbrOutstanding c = (ch_nbrReads c + ch_nbrWrites c + length (ch_responseQueue c)) mod 2 ^ 32"

definition ch_sendResponse ::
    "(port_id \<Rightarrow> ('m, 'a) mem_sys_scheme receivers) \<Rightarrow> int \<Rightarrow>
     ('m, 'a) mem_sys_scheme \<Rightarrow> ('m, 'a) mem_sys_scheme run" where
  "ch_sendResponse rc c s =
     assert_that (\<not> ch_retryResp (chans s c))
      (case ch_responseQueue (chans s c) of
         [] \<Rightarrow> raise AssertFailed
       | pkt # _ \<Rightarrow>
           run_bind (sendTimingResp rc (ports s (MemSide c)) pkt s) (\<lambda>(success, s1).
             ret (if success then upd_chan c (\<lambda>d. d\<lparr>ch_responseQueue := tl (ch_responseQueue d)\<rparr>) s1
                  else upd_chan c (\<lambda>d. d\<lparr>ch_retryResp := True\<rparr>) s1)))"

definition ch_tick ::
    "(port_id \<Rightarrow> ('m, 'a) mem_sys_scheme receivers) \<Rightarrow> int \<Rightarrow>
     ('m, 'a) mem_sys_scheme \<Rightarrow> ('m, 'a) mem_sys_scheme run" where
  "ch_tick rc c s =
     (if ch_retryReq (chans s c)
      then let s1 = upd_chan c (\<lambda>d. d\<lparr>ch_retryReq := False\<rparr>) s
           in sendRetryReq rc (ports s1 (MemSide c)) s1
      else ret s)"

definition ch_track_read :: "pptr \<Rightarrow> addr_t \<Rightarrow> DRAMsim3 \<Rightarrow> DRAMsim3" where
  "ch_track_read pkt addr d =
     d\<lparr>ch_outstandingReads := mq_push (ch_outstandingReads d) addr pkt, ch_nbrReads := inc32 (ch_nbrReads d)\<rparr>"

definition ch_track_write :: "pptr \<Rightarrow> addr_t \<Rightarrow> DRAMsim3 \<Rightarrow> DRAMsim3" where
  "ch_track_write pkt addr d =
     d\<lparr>ch_outstandingWrites := mq_push (ch_outstandingWrites d) addr pkt, ch_nbrWrites := inc32 (ch_nbrWrites d)\<rparr>"

text \<open>\<open>pendingDelete.reset(pkt)\<close>: the packet kept so far is deleted.\<close>

definition ch_reset_pending :: "int \<Rightarrow> pptr \<Rightarrow> ('m, 'a) mem_sys_scheme \<Rightarrow> ('m, 'a) mem_sys_scheme run" where
  "ch_reset_pending c pkt s =
     run_bind (case pendingDelete (chans s c) of None \<Rightarrow> ret s | Some old \<Rightarrow> delete_pkt old s)
       (\<lambda>s1. ret (upd_chan c (\<lambda>d. d\<lparr>pendingDelete := Some pkt\<rparr>) s1))"

definition ch_recvTimingReq ::
    "'m MemorySystem \<Rightarrow> int \<Rightarrow> pptr \<Rightarrow> ('m, 'a) mem_sys_scheme \<Rightarrow> (bool \<times> ('m, 'a) mem_sys_scheme) run" where
  "ch_recvTimingReq ms c pkt s =
     run_bind (deref pkt s) (\<lambda>d.
     let addr = getAddr d; acc = can_accept ms addr (isWrite d) s
     in run_bind
          (if \<not> isWrite d
           then ret (if acc then upd_chan c (ch_track_read pkt addr) s else s)
           else if acc then ch_reset_pending c pkt (upd_chan c (ch_track_write pkt addr) s) else ret s)
          (\<lambda>s1.
             if acc
             then run_bind (send_request ms addr (isWrite d) s1) (\<lambda>s2. ret (True, s2))
             else run_bind (eq_schedule (ch_tickEvent (chans s1 c)) (cur_tick s1 + 1) s1)
                    (\<lambda>s2. ret (False, upd_chan c (\<lambda>d. d\<lparr>ch_retryReq := True\<rparr>) s2))))"

definition ch_recvRespRetry ::
    "(port_id \<Rightarrow> ('m, 'a) mem_sys_scheme receivers) \<Rightarrow> int \<Rightarrow>
     ('m, 'a) mem_sys_scheme \<Rightarrow> ('m, 'a) mem_sys_scheme run" where
  "ch_recvRespRetry rc c s =
     assert_that (ch_retryResp (chans s c))
       (ch_sendResponse rc c (upd_chan c (\<lambda>d. d\<lparr>ch_retryResp := False\<rparr>) s))"

definition ch_accessAndRespond :: "int \<Rightarrow> pptr \<Rightarrow> ('m, 'a) mem_sys_scheme \<Rightarrow> ('m, 'a) mem_sys_scheme run" where
  "ch_accessAndRespond c pkt s =
     (let s1 = upd_chan c (\<lambda>d. d\<lparr>ch_responseQueue := ch_responseQueue d @ [pkt]\<rparr>) s
      in if \<not> ch_retryResp (chans s1 c) then schedule_next (ch_sendResponseEvent (chans s1 c)) s1
         else ret s1)"

definition readComplete :: "int \<Rightarrow> addr_t \<Rightarrow> ('m, 'a) mem_sys_scheme \<Rightarrow> ('m, 'a) mem_sys_scheme run" where
  "readComplete c addr s =
     (case mq_pop (ch_outstandingReads (chans s c)) addr of
        None \<Rightarrow> raise AssertFailed
      | Some (pkt, m) \<Rightarrow>
          assert_that (ch_nbrReads (chans s c) \<noteq> 0)
            (ch_accessAndRespond c pkt
               (upd_chan c (\<lambda>d. d\<lparr>ch_outstandingReads := m, ch_nbrReads := ch_nbrReads d - 1\<rparr>) s)))"

definition writeComplete :: "int \<Rightarrow> addr_t \<Rightarrow> ('m, 'a) mem_sys_scheme \<Rightarrow> ('m, 'a) mem_sys_scheme run" where
  "writeComplete c addr s =
     (case mq_pop (ch_outstandingWrites (chans s c)) addr of
        None \<Rightarrow> raise AssertFailed
      | Some (pkt, m) \<Rightarrow>
          assert_that (ch_nbrWrites (chans s c) \<noteq> 0)
            (ret (upd_chan c (\<lambda>d. d\<lparr>ch_outstandingWrites := m, ch_nbrWrites := ch_nbrWrites d - 1\<rparr>) s)))"

section \<open>Callbacks and the clock of the wrapper\<close>

definition global_read_callback :: "'m MemorySystem \<Rightarrow> addr_t \<Rightarrow> ('m, 'a) mem_sys_scheme \<Rightarrow> ('m, 'a) mem_sys_scheme run" where
  "global_read_callback ms addr s =
     (let ch = get_channel ms addr s
      in checked (0 \<le> ch \<and> ch < CHANNEL_NUM)
           (case read_callbacks s ch of None \<Rightarrow> ret s | Some c \<Rightarrow> readComplete c addr s))"

definition global_write_callback :: "'m MemorySystem \<Rightarrow> addr_t \<Rightarrow> ('m, 'a) mem_sys_scheme \<Rightarrow> ('m, 'a) mem_sys_scheme run" where
  "global_write_callback ms addr s =
     (let ch = get_channel ms addr s
      in checked (0 \<le> ch \<and> ch < CHANNEL_NUM)
           (case write_callbacks s ch of None \<Rightarrow> ret s | Some c \<Rightarrow> writeComplete c addr s))"

definition complete_transaction ::
    "'m MemorySystem \<Rightarrow> addr_t \<times> bool \<Rightarrow> ('m, 'a) mem_sys_scheme \<Rightarrow> ('m, 'a) mem_sys_scheme run" where
  "complete_transaction ms tr s =
     (if snd tr then global_write_callback ms (fst tr) s else global_read_callback ms (fst tr) s)"

definition wrapper_tick :: "'m MemorySystem \<Rightarrow> ('m, 'a) mem_sys_scheme \<Rightarrow> ('m, 'a) mem_sys_scheme run" where
  "wrapper_tick ms s =
     run_bind (ms_ClockTick ms (mem s)) (\<lambda>(completed, m).
     run_bind (for_run (complete_transaction ms) completed (s\<lparr>mem := m\<rparr>)) (\<lambda>s1.
     schedule_next (wrapper_tickEvent s1) s1))"

definition wrapper_init :: "('m, 'a) mem_sys_scheme \<Rightarrow> ('m, 'a) mem_sys_scheme run" where
  "wrapper_init s = eq_schedule (wrapper_tickEvent s) (cur_tick s) s"

definition MemoryPort_receivers ::
    "'m MemorySystem \<Rightarrow> (port_id \<Rightarrow> ('m, 'a) mem_sys_scheme receivers) \<Rightarrow> int \<Rightarrow>
     ('m, 'a) mem_sys_scheme receivers" where
  "MemoryPort_receivers ms rc c =
     default_receivers\<lparr>rcv_TimingReq := ch_recvTimingReq ms c, rcv_tryTiming := (\<lambda>pkt s. ret (False, s)),
       rcv_RespRetry := ch_recvRespRetry rc c\<rparr>"

definition ch_process ::
    "(port_id \<Rightarrow> ('m, 'a) mem_sys_scheme receivers) \<Rightarrow> int \<Rightarrow> eid \<Rightarrow>
     ('m, 'a) mem_sys_scheme \<Rightarrow> ('m, 'a) mem_sys_scheme run" where
  "ch_process rc c e s =
     (if e = ch_sendResponseEvent (chans s c) then ch_sendResponse rc c s
      else if e = ch_tickEvent (chans s c) then ch_tick rc c s
      else ret s)"

end
