(* ===== verification/Main_System.thy ===== *)
theory Main_System
  imports Mem_Channel
begin

text \<open>
  The main program (\<open>src/main.cpp\<close>): it constructs the event queue, the wrapper, the
  arbiter, four upstream buffers and eight memory channels, binds their ports by name,
  initialises the objects in the order of their construction and services events until the
  queue is empty or time 1000 is reached. The event objects are numbered in the order of
  construction; the virtual calls are resolved by \<open>sys_rc\<close> and \<open>sys_process\<close>.
\<close>

section \<open>Virtual calls\<close>

text \<open>
  The receivers of the ports. A receiver may send on, so they are given by the depth of
  nested calls; at depth 0 a call is not resolved. No chain of calls of the program is
  longer than two sends.
\<close>

definition unresolved_receivers :: "'s receivers" where
  "unresolved_receivers =
     \<lparr>rcv_TimingReq = (\<lambda>_ _. None), rcv_tryTiming = (\<lambda>_ _. None), rcv_RespRetry = (\<lambda>_. None),
      rcv_TimingResp = (\<lambda>_ _. None), rcv_ReqRetry = (\<lambda>_. None)\<rparr>"

fun sys_rc :: "'m MemorySystem \<Rightarrow> nat \<Rightarrow> port_id \<Rightarrow> ('m, 'a) mem_sys_scheme receivers" where
  "sys_rc ms 0 p = unresolved_receivers"
| "sys_rc ms (Suc n) p =
     (case p of
        UpSide u i \<Rightarrow> UpRequestPort_receivers (sys_rc ms n) u i
      | ArbResponse b u \<Rightarrow> ArbResponsePort_receivers (sys_rc ms n) b u
      | ArbRequest b \<Rightarrow> ArbRequestPort_receivers b
      | MemSide c \<Rightarrow> MemoryPort_receivers ms (sys_rc ms n) c
      | BufferMem \<Rightarrow> default_receivers
      | DramMem \<Rightarrow> default_receivers)"

definition call_depth :: nat where "call_depth = 2"

abbreviation rcv :: "'m MemorySystem \<Rightarrow> port_id \<Rightarrow> ('m, 'a) mem_sys_scheme receivers" where
  "rcv ms \<equiv> sys_rc ms call_depth"

section \<open>Event objects\<close>

definition main_num_upstreams :: int where "main_num_upstreams = 4"
definition main_buf_size :: int where "main_buf_size = 10"

definition wrapper_ev :: eid where "wrapper_ev = 0"
definition arb_ev :: eid where "arb_ev = 1"
definition arb_resp_ev :: eid where "arb_resp_ev = 2"
definition up_tick_ev :: "int \<Rightarrow> eid" where "up_tick_ev u = 3 + 2 * nat u"
definition up_send_ev :: "int \<Rightarrow> eid" where "up_send_ev u = 4 + 2 * nat u"
definition ch_resp_ev :: "int \<Rightarrow> eid" where "ch_resp_ev c = 11 + 2 * nat c"
definition ch_tick_ev :: "int \<Rightarrow> eid" where "ch_tick_ev c = 12 + 2 * nat c"

text \<open>The callback of an event: that of the object it is a member of.\<close>

definition sys_process ::
    "'m MemorySystem \<Rightarrow> eid \<Rightarrow> ('m, 'a) mem_sys_scheme \<Rightarrow> ('m, 'a) mem_sys_scheme run" where
  "sys_process ms e s =
     (if e = wrapper_tickEvent s then wrapper_tick ms s
      else if e = arbEvent (arb s) \<or> e = sendResponseEvent (arb s) then arb_process (rcv ms) e s
      else case List.find (\<lambda>u. e = up_tickEvent (ups s u) \<or> e = send_data_retryrespEvent (ups s u))
                  [0..main_num_upstreams - 1] of
             Some u \<Rightarrow> up_process (rcv ms) u e s
           | None \<Rightarrow>
               (case List.find (\<lambda>c. e = ch_sendResponseEvent (chans s c) \<or> e = ch_tickEvent (chans s c))
                       [0..num_banks - 1] of
                  Some c \<Rightarrow> ch_process (rcv ms) c e s
                | None \<Rightarrow> ret s))"

section \<open>Construction\<close>

text \<open>
  The initial addresses of the upstream buffers and the junk that uninitialised members
  hold.
\<close>

definition main_addr :: "int \<Rightarrow> addr_t" where
  "main_addr u = of_int (u * 16384)"

record main_junk =
  junk_nbr :: "int \<Rightarrow> nat"
  junk_retryReq :: "int \<Rightarrow> int \<Rightarrow> bool"
  junk_retryResp :: "int \<Rightarrow> int \<Rightarrow> bool"
  junk_up_retryResp :: "int \<Rightarrow> int \<Rightarrow> bool"

definition up_name :: "int \<Rightarrow> string" where
  "up_name u = ''up_buffer_'' @ to_string u"

definition mem_name :: "int \<Rightarrow> string" where
  "mem_name c = ''dramsim3_'' @ to_string c"

text \<open>The port objects that the constructors make; a port that no object owns is plain.\<close>

definition main_ports :: "port_id net" where
  "main_ports =
     fold (\<lambda>c. mem_createPort (mem_name c) c) [0..num_banks - 1]
       (fold (\<lambda>u. up_createPorts (up_name u) u) [0..main_num_upstreams - 1]
         (createPorts ''dram_arb'' main_num_upstreams (\<lambda>_. new_Port PlainPort ''''))) "

text \<open>The objects after their constructors; \<open>m\<close> is the memory system of the wrapper.\<close>

definition main_construct :: "'m \<Rightarrow> main_junk \<Rightarrow> 'm mem_sys run" where
  "main_construct m j =
     run_bind (new_DramArb (junk_nbr j) (junk_retryReq j) (junk_retryResp j)
                 main_buf_size main_num_upstreams arb_ev arb_resp_ev) (\<lambda>a.
     ret (fold (\<lambda>c. construct_DRAMsim3 c c (ch_resp_ev c) (ch_tick_ev c)) [0..num_banks - 1]
       \<lparr>objName = ''main_queue'', qhead = None, cur_tick = 0, events = (\<lambda>_. new_Event Default_Pri),
        pkts = (\<lambda>_. None), next_pkt = 0, ports = main_ports, arb = a,
        ups = (\<lambda>u. new_UpBuffer (junk_up_retryResp j u) (main_addr u) (up_tick_ev u) (up_send_ev u)),
        chans = (\<lambda>c. new_DRAMsim3 c (ch_resp_ev c) (ch_tick_ev c)), mem = m,
        read_callbacks = (\<lambda>_. None), write_callbacks = (\<lambda>_. None), wrapper_tickEvent = wrapper_ev,
        waitingAddrToBuf = (\<lambda>_. False), channle_vld = (\<lambda>_. False), vld4repeate_ch = (\<lambda>_ _. False)\<rparr>))"

section \<open>Binding\<close>

text \<open>The loop that binds the ports of bank \<open>i\<close>, looked up by their names.\<close>

definition bind_upstream :: "DramArb \<Rightarrow> int \<Rightarrow> int \<Rightarrow> port_id net \<Rightarrow> port_id net run" where
  "bind_upstream a i u n =
     run_bind (up_getPort u (''buf_side'' @ to_string i)) (\<lambda>p.
     run_bind (arb_getPort a (''response'' @ to_string i @ ''_'' @ to_string u) (- 1)) (\<lambda>q.
     bindPorts p q n))"

definition bind_memory :: "DramArb \<Rightarrow> int \<Rightarrow> port_id net \<Rightarrow> port_id net run" where
  "bind_memory a i n =
     run_bind (arb_getPort a (''request'' @ to_string i) (- 1)) (\<lambda>p.
     run_bind (mem_getPort i ''mem_side'') (\<lambda>q.
     bindPorts p q n))"

definition main_bind :: "DramArb \<Rightarrow> port_id net \<Rightarrow> port_id net run" where
  "main_bind a n =
     for_run (\<lambda>i n. run_bind (for_run (bind_upstream a i) [0..main_num_upstreams - 1] n) (bind_memory a i))
       [0..num_banks - 1] n"

section \<open>Initialisation and the run\<close>

text \<open>
  \<open>forEachObject(&SimObject::init)\<close>: the wrapper, the arbiter (nothing to do), the buffers,
  the channels (a message when a port is not connected).
\<close>

definition main_init :: "'m MemorySystem \<Rightarrow> ('m, 'a) mem_sys_scheme \<Rightarrow> ('m, 'a) mem_sys_scheme run" where
  "main_init ms s =
     run_bind (wrapper_init s) (for_run (up_init (rcv ms)) [0..main_num_upstreams - 1])"

definition main_setup :: "'m MemorySystem \<Rightarrow> 'm \<Rightarrow> main_junk \<Rightarrow> 'm mem_sys run" where
  "main_setup ms m j =
     run_bind (main_construct m j) (\<lambda>s.
     run_bind (main_bind (arb s) (ports s)) (\<lambda>n. main_init ms (s\<lparr>ports := n\<rparr>)))"

definition main_limit :: tick where "main_limit = 1000"

definition main_run :: "'m MemorySystem \<Rightarrow> 'm \<Rightarrow> main_junk \<Rightarrow> 'm mem_sys run" where
  "main_run ms m j =
     run_bind (main_setup ms m j) (\<lambda>s.
     run_bind (simulate (sys_process ms) main_limit s) eq_destroy)"

end
