(* ===== verification/Main_Inv.thy ===== *)
theory Main_Inv
  imports Main_System
begin

text \<open>
  The invariant of the running program. Every read that the arbiter has accepted is in
  exactly one place: an input buffer of the arbiter, the table of its memory channel (and
  then pending in the memory system), or the response queue of the channel. All packets in
  flight are live read packets whose address belongs to the bank they travel through.
\<close>

section \<open>Packets in flight\<close>

definition is_read :: "(pptr \<Rightarrow> DataPacket option) \<Rightarrow> pptr \<Rightarrow> addr_t \<Rightarrow> bool" where
  "is_read pk p x \<longleftrightarrow> (\<exists>d. pk p = Some d \<and> isRead d \<and> getAddr d = x)"

definition at_addr :: "(pptr \<Rightarrow> DataPacket option) \<Rightarrow> addr_t \<Rightarrow> pptr list \<Rightarrow> nat" where
  "at_addr pk x ps = length (filter (\<lambda>p. is_read pk p x) ps)"

text \<open>The address goes to memory channel \<open>c\<close>, also after the cut to 32 bits in \<open>get_channel\<close>.\<close>

definition routed :: "(addr_t \<Rightarrow> int) \<Rightarrow> int \<Rightarrow> addr_t \<Rightarrow> bool" where
  "routed chan c x \<longleftrightarrow> chan x = c \<and> chan (ucast (ucast x :: 32 word)) = c"

definition live :: "(addr_t \<Rightarrow> int) \<Rightarrow> (pptr \<Rightarrow> DataPacket option) \<Rightarrow> int \<Rightarrow> pptr list \<Rightarrow> bool" where
  "live chan pk c ps \<longleftrightarrow> (\<forall>p\<in>set ps. \<exists>x. is_read pk p x \<and> routed chan c x)"

definition in_flight :: "(pptr \<Rightarrow> DataPacket option) \<Rightarrow> DramArb \<Rightarrow> DRAMsim3 \<Rightarrow> int \<Rightarrow> addr_t \<Rightarrow> nat" where
  "in_flight pk a d c x =
     (\<Sum>u\<in>{0..<num_upstreams a}. at_addr pk x (readInBufs a c u)) +
     length (mq_at (ch_outstandingReads d) x) + at_addr pk x (ch_responseQueue d)"

definition flow_ok :: "(addr_t \<Rightarrow> int) \<Rightarrow> (pptr \<Rightarrow> DataPacket option) \<Rightarrow> DramArb \<Rightarrow> DRAMsim3 \<Rightarrow> int \<Rightarrow> bool" where
  "flow_ok chan pk a d c \<longleftrightarrow>
     (\<forall>u. live chan pk c (readInBufs a c u)) \<and> live chan pk c (ch_responseQueue d) \<and>
     (\<forall>x. \<forall>p\<in>set (mq_at (ch_outstandingReads d) x). is_read pk p x \<and> routed chan c x) \<and>
     (\<forall>x. length (mq_at (outstandingReads a c) x) = in_flight pk a d c x) \<and>
     (\<forall>u. writeInBufs a c u = [])"

definition chan_ok :: "DRAMsim3 \<Rightarrow> int \<Rightarrow> bool" where
  "chan_ok d c \<longleftrightarrow>
     mq_wf (ch_outstandingReads d) \<and> ch_nbrReads d = mq_count (ch_outstandingReads d) \<and>
     \<not> ch_retryReq d \<and> \<not> ch_retryResp d \<and>
     ch_sendResponseEvent d = ch_resp_ev c \<and> ch_tickEvent d = ch_tick_ev c"

lemma is_read_fun: "is_read pk p x \<Longrightarrow> is_read pk p y \<Longrightarrow> x = y"
  by (auto simp: is_read_def)

lemma is_read_iff: "is_read pk p x \<Longrightarrow> is_read pk p y \<longleftrightarrow> y = x"
  by (auto simp: is_read_def)

lemma at_addr_simps [simp]:
  "at_addr pk x [] = 0" "at_addr pk x (p # ps) = (if is_read pk p x then 1 else 0) + at_addr pk x ps"
  "at_addr pk x (ps @ qs) = at_addr pk x ps + at_addr pk x qs"
  by (simp_all add: at_addr_def)

lemma live_simps [simp]:
  "live chan pk c []" "live chan pk c (p # ps) \<longleftrightarrow> (\<exists>x. is_read pk p x \<and> routed chan c x) \<and> live chan pk c ps"
  "live chan pk c (ps @ qs) \<longleftrightarrow> live chan pk c ps \<and> live chan pk c qs"
  by (auto simp: live_def)

text \<open>Allocating a packet changes nothing for the packets in flight.\<close>

lemma is_read_alloc: "pk p = None \<Longrightarrow> is_read pk q x \<Longrightarrow> is_read (pk(p \<mapsto> d)) q x"
  by (auto simp: is_read_def)

lemma at_addr_alloc: "live chan pk c ps \<Longrightarrow> pk p = None \<Longrightarrow> at_addr (pk(p \<mapsto> d)) x ps = at_addr pk x ps"
  by (induction ps) (auto simp: is_read_def)

lemma live_alloc: "live chan pk c ps \<Longrightarrow> pk p = None \<Longrightarrow> live chan (pk(p \<mapsto> d)) c ps"
  unfolding live_def using is_read_alloc by metis

lemma flow_ok_alloc:
  assumes "flow_ok chan pk a d c" "pk p = None"
  shows "flow_ok chan (pk(p \<mapsto> e)) a d c"
proof -
  have l: "\<And>u. live chan pk c (readInBufs a c u)" "live chan pk c (ch_responseQueue d)"
    using assms(1) by (auto simp: flow_ok_def)
  have "in_flight (pk(p \<mapsto> e)) a d c x = in_flight pk a d c x" for x
    using at_addr_alloc [OF l(1) assms(2)] at_addr_alloc [OF l(2) assms(2)] by (simp add: in_flight_def)
  then show ?thesis
    using assms live_alloc [where pk = pk and p = p and d = e, OF _ assms(2)] is_read_alloc [of pk p, OF assms(2)]
    unfolding flow_ok_def by simp
qed

section \<open>The parts of the invariant\<close>

definition main_up :: "int \<Rightarrow> bool" where
  "main_up u \<longleftrightarrow> 0 \<le> u \<and> u < main_num_upstreams"

definition arb_part :: "DramArb \<Rightarrow> bool" where
  "arb_part a \<longleftrightarrow>
     arb_ok a \<and> num_upstreams a = main_num_upstreams \<and> buf_size a = main_buf_size \<and>
     arbEvent a = arb_ev \<and> sendResponseEvent a = arb_resp_ev"

definition ups_part :: "(int \<Rightarrow> UpBuffer) \<Rightarrow> bool" where
  "ups_part us \<longleftrightarrow>
     (\<forall>u. main_up u \<longrightarrow> up_ok (us u) \<and> up_tickEvent (us u) = up_tick_ev u \<and> send_data_retryrespEvent (us u) = up_send_ev u)"

definition links_ok :: "port_id net \<Rightarrow> bool" where
  "links_ok n \<longleftrightarrow>
     (\<forall>b. valid_bank b \<longrightarrow>
        link (n (ArbRequest b)) = Linked (MemSide b) \<and> link (n (MemSide b)) = Linked (ArbRequest b) \<and>
        (\<forall>u. main_up u \<longrightarrow> link (n (UpSide u b)) = Linked (ArbResponse b u) \<and>
           link (n (ArbResponse b u)) = Linked (UpSide u b)))"

text \<open>\<open>rest\<close> are the transactions that the memory has completed and not yet called back.\<close>

definition mem_part ::
    "('m \<Rightarrow> bool) \<Rightarrow> ('m \<Rightarrow> (addr_t \<times> bool) multiset) \<Rightarrow> (addr_t \<Rightarrow> int) \<Rightarrow> (addr_t \<times> bool) multiset \<Rightarrow>
     'm \<Rightarrow> (int \<Rightarrow> DRAMsim3) \<Rightarrow> bool" where
  "mem_part ok pend chan rest m ds \<longleftrightarrow>
     ok m \<and>
     (\<forall>x w. count (pend m + rest) (x, w) =
        (if \<not> w \<and> valid_bank (chan x) then length (mq_at (ch_outstandingReads (ds (chan x))) x) else 0))"

definition core_ok ::
    "('m \<Rightarrow> bool) \<Rightarrow> ('m \<Rightarrow> (addr_t \<times> bool) multiset) \<Rightarrow> (addr_t \<Rightarrow> int) \<Rightarrow> (addr_t \<times> bool) multiset \<Rightarrow>
     'm mem_sys \<Rightarrow> bool" where
  "core_ok ok pend chan rest s \<longleftrightarrow>
     arb_part (arb s) \<and> ups_part (ups s) \<and> links_ok (ports s) \<and> wrapper_tickEvent s = wrapper_ev \<and> heap_wf s \<and>
     (\<forall>c. valid_bank c \<longrightarrow> read_callbacks s c = Some c \<and> flow_ok chan (pkts s) (arb s) (chans s c) c \<and>
        chan_ok (chans s c) c) \<and>
     mem_part ok pend chan rest (mem s) (chans s)"

text \<open>
  The queue within a callback that started in \<open>s0\<close>: no event is descheduled, and a channel
  with a pending send has something to send.
\<close>

definition queue_ok :: "'m mem_sys \<Rightarrow> 'm mem_sys \<Rightarrow> bool" where
  "queue_ok s0 s \<longleftrightarrow>
     eq_wf s \<and> later s0 s \<and> cur_tick s \<noteq> - 1 \<and>
     (\<forall>x. ev_scheduled (events s0 x) \<longrightarrow> ev_scheduled (events s x)) \<and>
     (\<forall>c. valid_bank c \<longrightarrow> ev_scheduled (events s (ch_resp_ev c)) \<longrightarrow> ch_responseQueue (chans s c) \<noteq> [])"

lemma ev_ids:
  "arb_ev \<noteq> ch_resp_ev c" "arb_resp_ev \<noteq> ch_resp_ev c" "wrapper_ev \<noteq> ch_resp_ev c"
  "main_up u \<Longrightarrow> up_tick_ev u \<noteq> ch_resp_ev c" "main_up u \<Longrightarrow> up_send_ev u \<noteq> ch_resp_ev c"
  "valid_bank b \<Longrightarrow> valid_bank c \<Longrightarrow> ch_resp_ev b = ch_resp_ev c \<longleftrightarrow> b = c"
  by (auto simp: arb_ev_def arb_resp_ev_def wrapper_ev_def up_tick_ev_def up_send_ev_def ch_resp_ev_def
      main_up_def main_num_upstreams_def valid_bank_def)

lemma eq_wf_cong: "events s' = events s \<Longrightarrow> qhead s' = qhead s \<Longrightarrow> cur_tick s' = cur_tick s \<Longrightarrow> eq_wf s' = eq_wf s"
  by (simp add: eq_wf_def eq_list_def eq_repr_def)

section \<open>Steps of the packet flow\<close>

lemma sum_bump:
  assumes "finite S" "u \<in> S" "f' u = f u + (k :: nat)" "\<And>v. v \<noteq> u \<Longrightarrow> f' v = f v"
  shows "sum f' S = sum f S + k"
proof -
  have "sum f' (S - {u}) = sum f (S - {u})" using assms(4) by (intro sum.cong) auto
  then show ?thesis using assms(1-3) by (simp add: sum.remove)
qed

lemma flow_ok_cong:
  assumes "readInBufs a' c = readInBufs a c" "writeInBufs a' c = writeInBufs a c"
    "outstandingReads a' c = outstandingReads a c" "num_upstreams a' = num_upstreams a"
    "ch_outstandingReads d' = ch_outstandingReads d" "ch_responseQueue d' = ch_responseQueue d"
  shows "flow_ok chan pk a' d' c = flow_ok chan pk a d c"
  using assms by (simp add: flow_ok_def in_flight_def)

lemma flow_heads:
  assumes "flow_ok chan pk a d b"
  shows "readInBufs a b u = p # ps \<Longrightarrow> \<exists>x. is_read pk p x \<and> routed chan b x"
    "ch_responseQueue d = p # ps \<Longrightarrow> \<exists>x. is_read pk p x \<and> routed chan b x"
proof -
  have l: "live chan pk b (readInBufs a b u)" "live chan pk b (ch_responseQueue d)"
    using assms by (simp_all add: flow_ok_def)
  show "readInBufs a b u = p # ps \<Longrightarrow> \<exists>x. is_read pk p x \<and> routed chan b x"
    "ch_responseQueue d = p # ps \<Longrightarrow> \<exists>x. is_read pk p x \<and> routed chan b x"
    using l by simp_all
qed

text \<open>The arbiter takes a read.\<close>

lemma flow_accept:
  assumes f: "flow_ok chan pk a d c" and p: "is_read pk p x" "routed chan b x"
    and u: "0 \<le> u" "u < num_upstreams a"
  shows "flow_ok chan pk (accept_read p x b u a) d c"
proof (cases "c = b")
  case False
  then show ?thesis
    by (intro iffD2 [OF flow_ok_cong f]) (simp_all add: accept_read_def upd2_def)
next
  case True
  let ?a = "accept_read p x b u a"
  have "in_flight pk ?a d c y = in_flight pk a d c y + (if y = x then 1 else 0)" for y
  proof -
    have "(\<Sum>v\<in>{0..<num_upstreams a}. at_addr pk y (readInBufs ?a c v)) =
        (\<Sum>v\<in>{0..<num_upstreams a}. at_addr pk y (readInBufs a c v)) + (if y = x then 1 else 0)"
      using u by (intro sum_bump [where u = u]) (simp_all add: accept_read_def True is_read_iff [OF p(1)])
    then show ?thesis by (simp add: in_flight_def accept_read_def)
  qed
  moreover have "length (mq_at (outstandingReads ?a c) y) = length (mq_at (outstandingReads a c) y) + (if y = x then 1 else 0)" for y
    by (simp add: accept_read_def True mq_at_push)
  moreover have "live chan pk c (readInBufs ?a c v)" for v
    using f p by (auto simp: accept_read_def True flow_ok_def)
  ultimately show ?thesis using f by (simp add: flow_ok_def) (simp add: accept_read_def)
qed

text \<open>The arbiter hands a read to the channel.\<close>

lemma flow_sent:
  assumes f: "flow_ok chan pk a d b" and q: "readInBufs a b u = p # ps"
    and u: "0 \<le> u" "u < num_upstreams a" and x: "is_read pk p x"
  shows "flow_ok chan pk (a\<lparr>readInBufs := upd2 (readInBufs a) b u (tl (readInBufs a b u)), rrReadIdx := r\<rparr>)
    (ch_track_read p x d) b"
    (is "flow_ok chan pk ?a ?d b")
proof -
  have l: "live chan pk b (readInBufs a b v)" for v using f by (simp add: flow_ok_def)
  have r: "routed chan b x" using l [of u] is_read_fun [OF x] by (auto simp: q)
  have "in_flight pk ?a ?d b y = in_flight pk a d b y" for y
  proof -
    have "(\<Sum>v\<in>{0..<num_upstreams a}. at_addr pk y (readInBufs a b v)) =
        (\<Sum>v\<in>{0..<num_upstreams a}. at_addr pk y (readInBufs ?a b v)) + (if y = x then 1 else 0)"
      using u by (intro sum_bump [where u = u]) (simp_all add: q is_read_iff [OF x])
    then show ?thesis by (simp add: in_flight_def ch_track_read_def mq_at_push)
  qed
  moreover have "live chan pk b (readInBufs ?a b v)" for v
    using l [of v] l [of u] by (auto simp: q)
  moreover have "\<forall>p'\<in>set (mq_at (ch_outstandingReads ?d) y). is_read pk p' y \<and> routed chan b y" for y
    using f x r by (auto simp: flow_ok_def ch_track_read_def mq_at_push)
  ultimately show ?thesis using f unfolding flow_ok_def by (simp add: ch_track_read_def)
qed

text \<open>The memory completes a read of the channel.\<close>

lemma flow_complete:
  assumes f: "flow_ok chan pk a d b" and pop: "mq_pop (ch_outstandingReads d) x = Some (p, m)"
  shows "flow_ok chan pk a (d\<lparr>ch_outstandingReads := m, ch_nbrReads := n, ch_responseQueue := ch_responseQueue d @ [p]\<rparr>) b"
    (is "flow_ok chan pk a ?d b")
proof -
  note at = mq_at_pop [OF pop]
  have o: "\<forall>q\<in>set (mq_at (ch_outstandingReads d) y). is_read pk q y \<and> routed chan b y" for y
    using f by (simp add: flow_ok_def)
  have p: "is_read pk p x" "routed chan b x" using o [of x] at by auto
  have sub: "set (mq_at m y) \<subseteq> set (mq_at (ch_outstandingReads d) y)" for y using at by (cases "y = x") auto
  have "in_flight pk a ?d b y = in_flight pk a d b y" for y
    using at by (cases "y = x") (simp_all add: in_flight_def is_read_iff [OF p(1)])
  then show ?thesis using f sub p o unfolding flow_ok_def by simp blast
qed

text \<open>The channel returns a read to the arbiter, which has it in its table.\<close>

lemma flow_returned:
  assumes f: "flow_ok chan pk a d b" and q: "ch_responseQueue d = p # ps" "is_read pk p x"
  shows "mq_at (outstandingReads a b) x \<noteq> []"
    and "mq_pop (outstandingReads a b) x = Some (r, m) \<Longrightarrow>
      flow_ok chan pk (arb_complete b r m u mu a) (d\<lparr>ch_responseQueue := ps\<rparr>) b"
proof -
  have len: "length (mq_at (outstandingReads a b) y) = in_flight pk a d b y" for y
    using f by (simp add: flow_ok_def)
  have "0 < in_flight pk a d b x" using q by (simp add: in_flight_def)
  with len [of x] show "mq_at (outstandingReads a b) x \<noteq> []" by auto
  assume pop: "mq_pop (outstandingReads a b) x = Some (r, m)"
  let ?a = "arb_complete b r m u mu a"
  note at = mq_at_pop [OF pop]
  have "length (mq_at (outstandingReads ?a b) y) = in_flight pk ?a (d\<lparr>ch_responseQueue := ps\<rparr>) b y" for y
    using at len [of y]
    by (cases "y = x") (simp_all add: in_flight_def arb_complete_def q(1) is_read_iff [OF q(2)])
  then show "flow_ok chan pk ?a (d\<lparr>ch_responseQueue := ps\<rparr>) b"
    using f q(1) unfolding flow_ok_def by (simp add: arb_complete_def)
qed

section \<open>Steps of the whole state\<close>

lemma flow_ok_flags [simp]:
  "flow_ok chan pk (a\<lparr>retryReq := f\<rparr>) d c = flow_ok chan pk a d c"
  "flow_ok chan pk (a\<lparr>retryResp := f\<rparr>) d c = flow_ok chan pk a d c"
  "flow_ok chan pk (a\<lparr>responseQueue := r\<rparr>) d c = flow_ok chan pk a d c"
  by (simp_all add: flow_ok_def in_flight_def)

lemma core_ok_events [simp]:
  "core_ok ok pend chan rest (s\<lparr>events := h, qhead := p\<rparr>) = core_ok ok pend chan rest s"
  "core_ok ok pend chan rest (s\<lparr>events := h, qhead := p, cur_tick := t\<rparr>) = core_ok ok pend chan rest s"
  by (simp_all add: core_ok_def heap_wf_def)

lemma core_ok_flags [simp]:
  "core_ok ok pend chan rest (arb_set_retryReq b u v s) = core_ok ok pend chan rest s"
  "core_ok ok pend chan rest (arb_set_retryResp b u v s) = core_ok ok pend chan rest s"
  by (simp_all add: core_ok_def heap_wf_def arb_set_retryReq_def arb_set_retryResp_def arb_part_def)

lemma core_bank:
  assumes "core_ok ok pend chan rest s" "valid_bank b"
  shows "arb_ok (arb s)" "flow_ok chan (pkts s) (arb s) (chans s b) b" "chan_ok (chans s b) b" "bank_ok (arb s) b"
  using assms arb_ok_bank [of "arb s" b] by (auto simp: core_ok_def arb_part_def)

lemma core_valid_up: "core_ok ok pend chan rest s \<Longrightarrow> valid_up (arb s) u \<longleftrightarrow> main_up u"
  by (simp add: core_ok_def arb_part_def valid_up_def main_up_def)

lemma core_alloc:
  assumes "core_ok ok pend chan rest s" "create_read_packet x n s = (p, s')"
  shows "core_ok ok pend chan rest s'" "is_read (pkts s') p x"
proof -
  have s': "s' = s\<lparr>pkts := (pkts s)(p \<mapsto> new_DataPacket x n False), next_pkt := Suc (next_pkt s)\<rparr>" "p = next_pkt s"
    using assms(2) by (auto simp: create_read_packet_def alloc_pkt_def)
  have wf: "heap_wf s" using assms(1) by (simp add: core_ok_def)
  then have fresh: "pkts s p = None" using heap_wf_fresh [OF wf, of p] s'(2) by simp
  have "heap_wf s'" using wf by (auto simp: s' heap_wf_def less_SucI)
  then show "core_ok ok pend chan rest s'"
    using assms(1) flow_ok_alloc [where pk = "pkts s" and p = p, OF _ fresh] by (simp add: core_ok_def s'(1))
  show "is_read (pkts s') p x" by (simp add: s'(1) is_read_def new_DataPacket_def isRead_def getAddr_def)
qed

lemma core_accept:
  assumes c: "core_ok ok pend chan rest s" and b: "valid_bank b" and u: "main_up u"
    and p: "is_read (pkts s) p x" "routed chan b x" and can: "can_accept_read (arb s) b"
  shows "core_ok ok pend chan rest (s\<lparr>arb := accept_read p x b u (arb s)\<rparr>)"
proof -
  let ?a = "accept_read p x b u (arb s)"
  have a: "arb_part (arb s)" using c by (simp add: core_ok_def)
  have v: "valid_up (arb s) u" using core_valid_up [OF c] u by simp
  have "arb_part ?a"
    using a accept_read_ok(1) [OF _ b v can, of p x] by (simp add: arb_part_def) (simp add: accept_read_def)
  moreover have "flow_ok chan (pkts s) ?a (chans s c) c" if "flow_ok chan (pkts s) (arb s) (chans s c) c" for c
    using v by (intro flow_accept [OF that p]) (auto simp: valid_up_def)
  ultimately show ?thesis using c by (simp add: core_ok_def heap_wf_def)
qed

lemma core_ups:
  assumes "core_ok ok pend chan rest s" "main_up u \<Longrightarrow> up_ok b" "up_tickEvent b = up_tickEvent (ups s u)"
    "send_data_retryrespEvent b = send_data_retryrespEvent (ups s u)"
  shows "core_ok ok pend chan rest (s\<lparr>ups := (ups s)(u := b)\<rparr>)"
  using assms by (simp add: core_ok_def ups_part_def heap_wf_def)

lemma core_popped:
  assumes "core_ok ok pend chan rest s" "responseQueue (arb s) b \<noteq> []"
  shows "core_ok ok pend chan rest (arb_pop_response b s)"
proof -
  have "arb_ok (arb (arb_pop_response b s))"
    using assms by (intro arb_pop_response_ok) (auto simp: core_ok_def arb_part_def)
  then show ?thesis
    using assms(1) by (simp add: core_ok_def heap_wf_def arb_part_def arb_pop_response_def)
qed

lemma core_sent:
  assumes c: "core_ok ok pend chan rest s" and b: "valid_bank b" and u: "main_up u"
    and q: "readInBufs (arb s) b u = p # ps" and x: "is_read (pkts s) p x"
    and m: "ok m'" "pend m' = add_mset (x, False) (pend (mem s))"
    and small: "ch_nbrReads (chans s b) + 1 < 2 ^ 32"
  shows "core_ok ok pend chan rest
    (arb_read_sent b u (s\<lparr>chans := (chans s)(b := ch_track_read p x (chans s b)), mem := m'\<rparr>))"
proof -
  let ?a = "arb (arb_read_sent b u s)" and ?d = "ch_track_read p x (chans s b)"
  note bank = core_bank [OF c b]
  have v: "0 \<le> u" "u < num_upstreams (arb s)" using core_valid_up [OF c] u by (auto simp: valid_up_def)
  have a: "?a = (arb s)\<lparr>readInBufs := upd2 (readInBufs (arb s)) b u (tl (readInBufs (arb s) b u)),
      rrReadIdx := (rrReadIdx (arb s))(b := (u + 1) mod num_upstreams (arb s))\<rparr>"
    by (simp add: arb_read_sent_def Let_def)
  obtain y where "is_read (pkts s) p y" "routed chan b y" using flow_heads(1) [OF bank(2) q] by blast
  then have "chan x = b" using is_read_fun [OF x, of y] by (simp add: routed_def)
  then have "mem_part ok pend chan rest m' ((chans s)(b := ?d))"
    using c m b by (simp add: core_ok_def mem_part_def ch_track_read_def mq_at_push)
  moreover have "arb_part ?a"
    using c arb_read_sent_ok [OF bank(1), of b u] unfolding core_ok_def arb_part_def by (simp add: a)
  moreover have "chan_ok ?d b" using bank(3) small by (simp add: chan_ok_def ch_track_read_def)
  moreover have "flow_ok chan (pkts s) ?a (((chans s)(b := ?d)) e) e"
    if "flow_ok chan (pkts s) (arb s) (chans s e) e" for e
  proof (cases "e = b")
    case True
    then show ?thesis using flow_sent [OF bank(2) q v x] by (simp add: a)
  next
    case False
    have "flow_ok chan (pkts s) ?a (chans s e) e = flow_ok chan (pkts s) (arb s) (chans s e) e"
      by (rule flow_ok_cong) (simp_all add: a upd2_def False)
    then show ?thesis using that False by simp
  qed
  ultimately show ?thesis using c by (simp add: core_ok_def heap_wf_def arb_read_sent_def Let_def)
qed

text \<open>A response of channel \<open>b\<close> finds its read in the table of the arbiter.\<close>

lemma core_returned:
  assumes c: "core_ok ok pend chan rest s" and b: "valid_bank b"
    and q: "ch_responseQueue (chans s b) = p # ps" and x: "is_read (pkts s) p x"
  obtains r m u mu where "mq_pop (outstandingReads (arb s) b) x = Some (r, m)"
    "mq_pop (outstandingUpstream (arb s) b) x = Some (u, mu)"
    "core_ok ok pend chan rest (s\<lparr>arb := arb_complete b r m u mu (arb s),
       chans := (chans s)(b := (chans s b)\<lparr>ch_responseQueue := ps\<rparr>)\<rparr>)"
proof -
  note bank = core_bank [OF c b]
  obtain r m where r: "mq_pop (outstandingReads (arb s) b) x = Some (r, m)"
    using flow_returned(1) [OF bank(2) q x] by (metis mq_pop_None_iff not_Some_eq surj_pair)
  obtain u mu where u: "mq_pop (outstandingUpstream (arb s) b) x = Some (u, mu)"
    using pop_agree [OF bank(4) r] by metis
  let ?a = "arb_complete b r m u mu (arb s)"
  have "arb_part ?a"
    using c arb_complete_ok [OF bank(1) b r u] by (simp add: core_ok_def arb_part_def) (simp add: arb_complete_def)
  moreover have "flow_ok chan (pkts s) ?a (((chans s)(b := (chans s b)\<lparr>ch_responseQueue := ps\<rparr>)) e) e"
    if "flow_ok chan (pkts s) (arb s) (chans s e) e" for e
  proof (cases "e = b")
    case True
    then show ?thesis using flow_returned(2) [OF bank(2) q x r] by simp
  next
    case False
    have "flow_ok chan (pkts s) ?a (chans s e) e = flow_ok chan (pkts s) (arb s) (chans s e) e"
      by (rule flow_ok_cong) (simp_all add: arb_complete_def False)
    then show ?thesis using that False by simp
  qed
  ultimately have "core_ok ok pend chan rest (s\<lparr>arb := ?a, chans := (chans s)(b := (chans s b)\<lparr>ch_responseQueue := ps\<rparr>)\<rparr>)"
    using c bank(3) by (simp add: core_ok_def heap_wf_def mem_part_def chan_ok_def)
  then show thesis using that r u by blast
qed

text \<open>A completed transaction belongs to a read that its channel has outstanding.\<close>

lemma core_completed:
  assumes c: "core_ok ok pend chan (add_mset (x, w) rest) s"
  obtains b p m where "\<not> w" "valid_bank b" "routed chan b x"
    "mq_pop (ch_outstandingReads (chans s b)) x = Some (p, m)" "ch_nbrReads (chans s b) \<noteq> 0"
    "core_ok ok pend chan rest (s\<lparr>chans := (chans s)(b := (chans s b)\<lparr>ch_outstandingReads := m,
       ch_nbrReads := ch_nbrReads (chans s b) - 1, ch_responseQueue := ch_responseQueue (chans s b) @ [p]\<rparr>)\<rparr>)"
proof -
  let ?b = "chan x"
  have cnt: "count (pend (mem s) + add_mset (x, w) rest) (y, v) =
      (if \<not> v \<and> valid_bank (chan y) then length (mq_at (ch_outstandingReads (chans s (chan y))) y) else 0)" for y v
    using c by (simp add: core_ok_def mem_part_def)
  have "0 < count (pend (mem s) + add_mset (x, w) rest) (x, w)" by simp
  then have w: "\<not> w" "valid_bank ?b" "mq_at (ch_outstandingReads (chans s ?b)) x \<noteq> []"
    unfolding cnt by (auto split: if_splits)
  note bank = core_bank [OF c w(2)]
  obtain p m where pop: "mq_pop (ch_outstandingReads (chans s ?b)) x = Some (p, m)"
    using w(3) by (metis mq_pop_None_iff not_Some_eq surj_pair)
  note at = mq_at_pop [OF pop]
  have r: "routed chan ?b x" using bank(2) at unfolding flow_ok_def by (metis list.set_intros(1))
  have wf: "mq_wf (ch_outstandingReads (chans s ?b))" "ch_nbrReads (chans s ?b) = mq_count (ch_outstandingReads (chans s ?b))"
    using bank(3) by (auto simp: chan_ok_def)
  note n = mq_count_pop [OF wf(1) pop]
  let ?d = "(chans s ?b)\<lparr>ch_outstandingReads := m, ch_nbrReads := ch_nbrReads (chans s ?b) - 1,
    ch_responseQueue := ch_responseQueue (chans s ?b) @ [p]\<rparr>"
  have "chan_ok ?d ?b" using bank(3) mq_wf_pop [OF wf(1) pop] n by (simp add: chan_ok_def)
  moreover have "mem_part ok pend chan rest (mem s) ((chans s)(?b := ?d))"
    unfolding mem_part_def
  proof (intro conjI allI)
    show "ok (mem s)" using c by (simp add: core_ok_def mem_part_def)
    fix y v
    show "count (pend (mem s) + rest) (y, v) = (if \<not> v \<and> valid_bank (chan y)
        then length (mq_at (ch_outstandingReads (((chans s)(?b := ?d)) (chan y))) y) else 0)"
      using cnt [of y v] at w by (cases "y = x"; cases v) auto
  qed
  moreover have "flow_ok chan (pkts s) (arb s) ?d ?b" by (rule flow_complete [OF bank(2) pop])
  ultimately have "core_ok ok pend chan rest (s\<lparr>chans := (chans s)(?b := ?d)\<rparr>)"
    using c by (simp add: core_ok_def heap_wf_def)
  then show thesis using that w r pop n wf(2) by simp
qed

text \<open>No channel has more reads outstanding than the arbiter lets through.\<close>

lemma mq_count_mono:
  assumes "mq_wf m" "mq_wf m'" "\<And>k. length (mq_at m k) \<le> length (mq_at m' k)"
  shows "mq_count m \<le> mq_count m'"
proof -
  have fin: "finite (dom m \<union> dom m')" using assms by (simp add: mq_wf_def)
  show ?thesis
    using mq_count_alt [OF fin, of m] mq_count_alt [OF fin, of m'] assms(3) by (simp add: sum_mono)
qed

lemma mset_mq_count:
  assumes wf: "mq_wf m" and cnt: "\<And>x w. count M (x, w) \<le> (if w then 0 else length (mq_at m x))"
  shows "size M \<le> mq_count m"
proof -
  let ?f = "\<lambda>x. (x, False)"
  have fin: "finite (dom m)" using wf by (simp add: mq_wf_def)
  have "set_mset M \<subseteq> ?f ` dom m"
  proof
    fix t assume t: "t \<in># M"
    obtain x w where xw: "t = (x, w)" by (cases t)
    have "count M (x, w) \<noteq> 0" using t xw by (simp add: not_in_iff [symmetric])
    then have "\<not> w" "mq_at m x \<noteq> []" using cnt [of x w] by (cases w; force)+
    then show "t \<in> ?f ` dom m" by (auto simp: xw mq_at_def split: option.splits)
  qed
  then have "size M \<le> sum (count M) (?f ` dom m)"
    using fin unfolding size_multiset_overloaded_eq by (intro sum_mono2) auto
  also have "\<dots> = (\<Sum>x\<in>dom m. count M (x, False))" by (subst sum.reindex) (auto simp: inj_on_def)
  also have "\<dots> \<le> mq_count m" unfolding mq_count_def using cnt [of _ False] by (intro sum_mono) simp
  finally show ?thesis .
qed

lemma core_pending:
  assumes c: "core_ok ok pend chan rest s" and b: "valid_bank b"
  shows "ch_nbrReads (chans s b) \<le> 10" "size {#t \<in># pend (mem s). chan (fst t) = b#} \<le> 10"
proof -
  note bank = core_bank [OF c b]
  let ?m = "ch_outstandingReads (chans s b)"
  have wf: "mq_wf ?m" "mq_wf (outstandingReads (arb s) b)" using bank by (auto simp: chan_ok_def bank_ok_def)
  have "length (mq_at ?m x) \<le> length (mq_at (outstandingReads (arb s) b) x)" for x
    using bank(2) by (simp add: flow_ok_def in_flight_def)
  then have le: "mq_count ?m \<le> mq_count (outstandingReads (arb s) b)" by (rule mq_count_mono [OF wf])
  have "buf_size (arb s) = 10" using c by (simp add: core_ok_def arb_part_def main_buf_size_def)
  then have ten: "mq_count ?m \<le> 10" using le bank(4) by (simp add: bank_ok_def)
  then show "ch_nbrReads (chans s b) \<le> 10" using bank(3) by (simp add: chan_ok_def)
  have "count {#t \<in># pend (mem s). chan (fst t) = b#} (x, w) \<le> (if w then 0 else length (mq_at ?m x))" for x w
  proof -
    have "count (pend (mem s)) (x, w) \<le> count (pend (mem s) + rest) (x, w)" by simp
    also have "\<dots> = (if \<not> w \<and> valid_bank (chan x) then length (mq_at (ch_outstandingReads (chans s (chan x))) x) else 0)"
      using c by (simp add: core_ok_def mem_part_def)
    finally show ?thesis using b by (auto split: if_splits)
  qed
  from mset_mq_count [OF wf(1) this] ten
  show "size {#t \<in># pend (mem s). chan (fst t) = b#} \<le> 10" by linarith
qed

end
