(* ===== verification/Main_Run.thy ===== *)
theory Main_Run
  imports Main_Inv
begin

text \<open>
  The callbacks of the running program. The locale \<open>program_memory\<close> is what the program
  needs of its memory system beyond \<open>memory_backend\<close>: a queue per channel that is longer
  than the arbiter's limit, and channels chosen by address bits 6 to 8. Under it every
  callback returns and keeps the invariant of \<open>Main_Inv\<close>; the arbiter's contract with its
  peers and the callback contract of the event queue are sublocales of it.
\<close>

unbundle bit_operations_syntax

section \<open>The queue inside a callback\<close>

lemma queue_ok_frame:
  assumes "queue_ok s0 s" "events s' = events s" "qhead s' = qhead s" "cur_tick s' = cur_tick s"
    "\<And>c. valid_bank c \<Longrightarrow> ch_responseQueue (chans s c) \<noteq> [] \<Longrightarrow> ch_responseQueue (chans s' c) \<noteq> []"
  shows "queue_ok s0 s'"
  using assms(1,5) eq_wf_cong [OF assms(2-4)] later_cong [OF assms(2,4)]
  unfolding queue_ok_def assms(2,4) by blast

lemma queue_ok_sched:
  assumes q: "queue_ok s0 s" and e: "\<And>c. valid_bank c \<Longrightarrow> e = ch_resp_ev c \<Longrightarrow> ch_responseQueue (chans s c) \<noteq> []"
  shows "\<exists>h p. schedule_next e s = ret (s\<lparr>events := h, qhead := p\<rparr>) \<and> queue_ok s0 (s\<lparr>events := h, qhead := p\<rparr>) \<and>
    ev_scheduled (h e)"
proof -
  have wf: "eq_wf s" "cur_tick s \<noteq> - 1" using q by (auto simp: queue_ok_def)
  obtain h p where hp: "schedule_next e s = ret (s\<lparr>events := h, qhead := p\<rparr>)" "eq_wf (s\<lparr>events := h, qhead := p\<rparr>)"
      "\<forall>x. ev_scheduled (h x) \<longleftrightarrow> x = e \<or> ev_scheduled (events s x)" "later s (s\<lparr>events := h, qhead := p\<rparr>)"
    using schedule_next_wf [OF wf, of e] by blast
  have "later s0 (s\<lparr>events := h, qhead := p\<rparr>)" using q hp(4) later_trans unfolding queue_ok_def by blast
  moreover have "ev_scheduled (h (ch_resp_ev c)) \<Longrightarrow> valid_bank c \<Longrightarrow> ch_responseQueue (chans s c) \<noteq> []" for c
    using q hp(3) e [of c] unfolding queue_ok_def by metis
  moreover have "ev_scheduled (events s0 x) \<Longrightarrow> ev_scheduled (h x)" for x using q hp(3) by (simp add: queue_ok_def)
  ultimately have "queue_ok s0 (s\<lparr>events := h, qhead := p\<rparr>)" using hp(2) wf(2) by (simp add: queue_ok_def)
  then show ?thesis using hp(1,3) by blast
qed

lemma queue_ok_flags [simp]:
  "queue_ok s0 (arb_set_retryReq b u v s) = queue_ok s0 s"
  "queue_ok s0 (arb_set_retryResp b u v s) = queue_ok s0 s"
  by (auto simp: arb_set_retryReq_def arb_set_retryResp_def elim!: queue_ok_frame)

lemma limit_not_top: "t \<le> main_limit \<Longrightarrow> t \<noteq> - 1"
  by (auto simp: main_limit_def word_order.extremum_unique)

lemma tick_mono:
  assumes "a \<le> b" "b \<le> main_limit"
  shows "a + 1 \<le> b + 1"
proof (cases "a = b")
  case False
  then have "a + 1 \<le> b" using assms(1) by (intro inc_le) simp
  also have "b \<le> b + 1" using next_tick_le [OF limit_not_top [OF assms(2)]] .
  finally show ?thesis .
qed simp

lemma eq_pop_fields: "\<exists>h p t. eq_pop e q = q\<lparr>events := h, qhead := p, cur_tick := t\<rparr>"
proof -
  have "q = q\<lparr>events := events q, qhead := qhead q, cur_tick := cur_tick q\<rparr>" by simp
  then show ?thesis unfolding eq_pop_def Let_def by (auto split: option.split)
qed

section \<open>What the program needs of the memory\<close>

locale program_memory = memory_backend ms ok pend chan cap
  for ms :: "'m MemorySystem" and ok pend chan cap +
  assumes room: "ok m \<Longrightarrow> 10 < cap"
    and route: "ok m \<Longrightarrow> chan a = uint (drop_bit 6 a AND 7)"
begin

text \<open>The state within a callback: \<open>base\<close> are the addresses of the buffers.\<close>

definition cb_ok :: "(int \<Rightarrow> addr_t) \<Rightarrow> 'm mem_sys \<Rightarrow> 'm mem_sys \<Rightarrow> bool" where
  "cb_ok base s0 s \<longleftrightarrow> core_ok ok pend chan {#} s \<and> queue_ok s0 s \<and> (\<forall>u. up_addr (ups s u) = base u)"

text \<open>The lines that the buffers ask for belong to the banks of their ports.\<close>

definition lines_ok :: "(int \<Rightarrow> addr_t) \<Rightarrow> bool" where
  "lines_ok base \<longleftrightarrow> (\<forall>u i. main_up u \<longrightarrow> valid_port i \<longrightarrow> routed chan i (base u + of_int (i * 64)))"

lemma cb_sched:
  assumes "cb_ok base s0 s" "\<And>c. valid_bank c \<Longrightarrow> e = ch_resp_ev c \<Longrightarrow> ch_responseQueue (chans s c) \<noteq> []"
  shows "\<exists>h p. schedule_next e s = ret (s\<lparr>events := h, qhead := p\<rparr>) \<and> cb_ok base s0 (s\<lparr>events := h, qhead := p\<rparr>) \<and>
    ev_scheduled (h e)"
  using assms queue_ok_sched [of s0 s e] unfolding cb_ok_def by auto

lemma cb_flags [simp]:
  "cb_ok base s0 (arb_set_retryReq b u v s) = cb_ok base s0 s"
  "cb_ok base s0 (arb_set_retryResp b u v s) = cb_ok base s0 s"
  by (simp_all add: cb_ok_def) (simp_all add: arb_set_retryReq_def arb_set_retryResp_def)

lemma cb_ups:
  assumes "cb_ok base s0 s" "main_up u \<Longrightarrow> up_ok (f (ups s u))" "up_tickEvent (f (ups s u)) = up_tickEvent (ups s u)"
    "send_data_retryrespEvent (f (ups s u)) = send_data_retryrespEvent (ups s u)"
  shows "cb_ok (base(u := up_addr (f (ups s u)))) s0 (upd_up u f s)"
  using assms(1) core_ups [OF _ assms(2-4), of ok pend chan "{#}"]
  by (auto simp: cb_ok_def upd_up_def elim!: queue_ok_frame)

section \<open>Requests\<close>

lemma arb_req:
  assumes s: "cb_ok base s0 s" and b: "valid_bank b" and u: "main_up u"
    and p: "is_read (pkts s) p x" "routed chan b x"
  shows "\<exists>k s'. arb_recvTimingReqUp p b u s = ret (k, s') \<and> cb_ok base s0 s'"
proof -
  have c: "core_ok ok pend chan {#} s" and q: "queue_ok s0 s" using s by (simp_all add: cb_ok_def)
  have v: "valid_up (arb s) u" using core_valid_up [OF c] u by simp
  obtain d where d: "pkts s p = Some d" "isRead d" "getAddr d = x" using p(1) by (auto simp: is_read_def)
  show ?thesis
  proof (cases "can_accept_read (arb s) b")
    case True
    let ?s = "s\<lparr>arb := accept_read p x b u (arb s)\<rparr>"
    have "cb_ok base s0 ?s"
      using s core_accept [OF c b u p True] by (auto simp: cb_ok_def elim!: queue_ok_frame)
    moreover have "arbEvent (accept_read p x b u (arb s)) = arb_ev"
      using c by (simp add: core_ok_def arb_part_def accept_read_def)
    moreover note ev_ids(1)
    ultimately obtain h r where "schedule_next (arbEvent (accept_read p x b u (arb s))) ?s = ret (?s\<lparr>events := h, qhead := r\<rparr>)"
        "cb_ok base s0 (?s\<lparr>events := h, qhead := r\<rparr>)"
      using cb_sched [of base s0 ?s arb_ev] by metis
    then show ?thesis
      using True b v d by (auto simp: arb_recvTimingReqUp_def valid_bank_def valid_up_def Let_def)
  next
    case False
    then have "arb_recvTimingReqUp p b u s = ret (False, arb_set_retryReq b u True s)"
      using d(2) by (intro recvTimingReqUp_refuse [OF core_bank(1) [OF c b] b v d(1)]) simp
    then show ?thesis using s by auto
  qed
qed

lemma cb_alloc:
  assumes s: "cb_ok base s0 s" and new: "create_read_packet x n s = (p, s1)"
  shows "cb_ok base s0 s1" "is_read (pkts s1) p x"
proof -
  have c: "core_ok ok pend chan {#} s" using s by (simp add: cb_ok_def)
  show "cb_ok base s0 s1"
    using s core_alloc(1) [OF c new] new
    by (auto simp: cb_ok_def create_read_packet_def alloc_pkt_def elim!: queue_ok_frame)
  show "is_read (pkts s1) p x" by (rule core_alloc(2) [OF c new])
qed

lemma up_req:
  assumes s1: "cb_ok base s0 s1" and b: "valid_bank b" and u: "main_up u"
    and p: "is_read (pkts s1) p x" "routed chan b x"
  shows "\<exists>k s'. up_sendTimingReq (sys_rc ms (Suc d)) u p b s1 = ret (k, s') \<and> cb_ok base s0 s'"
proof -
  obtain k s' where k: "arb_recvTimingReqUp p b u s1 = ret (k, s')" "cb_ok base s0 s'"
    using arb_req [OF s1 b u p] by blast
  have "link (ports s1 (UpSide u b)) = Linked (ArbResponse b u)"
    using s1 b u by (simp add: cb_ok_def core_ok_def links_ok_def)
  then have "sendTimingReq (sys_rc ms (Suc d)) (ports s1 (UpSide u b)) p s1 = ret (k, s')"
    by (rule send_linked(1)) (use k(1) in \<open>simp add: ArbResponsePort_receivers_def\<close>)
  then show ?thesis
    using k(2) b by (simp add: up_sendTimingReq_def valid_bank_def num_banks_def up_num_ports_def)
qed

text \<open>What the buffers do on their events and on a retry.\<close>

lemma cb_up_retry:
  assumes "cb_ok base s0 s" "main_up u"
  shows "cb_ok base s0 (up_set_retryReq u i v s)"
proof -
  have "up_ok (ups s u)" "up_addr (ups s u) = base u"
    using assms by (auto simp: cb_ok_def core_ok_def ups_part_def)
  then show ?thesis
    using cb_ups [OF assms(1), of u "\<lambda>b. b\<lparr>up_retryReq := (up_retryReq b)(i := v)\<rparr>"]
    by (simp add: up_set_retryReq_def fun_upd_idem)
qed

lemma up_retry_req:
  assumes s: "cb_ok base s0 s" and base: "lines_ok base" and b: "valid_bank b" and u: "main_up u"
  shows "\<exists>s'. up_sendRetryReq (sys_rc ms (Suc d)) u b s = ret s' \<and> cb_ok base s0 s'"
    "\<exists>s'. up_sendpkt_port (sys_rc ms (Suc d)) u b s = ret s' \<and> cb_ok base s0 s'"
proof -
  have i: "valid_port b" using b by (simp add: valid_bank_def num_banks_def valid_port_def up_num_ports_def)
  obtain p s1 where new: "create_read_packet (up_line (ups s u) b) 64 s = (p, s1)" by fastforce
  have "routed chan b (up_line (ups s u) b)"
    using s base i u by (simp add: cb_ok_def lines_ok_def up_line_def)
  from up_req [OF cb_alloc(1) [OF s new] b u cb_alloc(2) [OF s new] this] obtain k s2 where
    s2: "up_sendTimingReq (sys_rc ms (Suc d)) u p b s1 = ret (k, s2)" "cb_ok base s0 s2" by blast
  note set = cb_up_retry [OF s2(2) u] cb_up_retry [OF s u]
  show "\<exists>s'. up_sendRetryReq (sys_rc ms (Suc d)) u b s = ret s' \<and> cb_ok base s0 s'"
    using i new s2 set by (simp add: up_sendRetryReq_def valid_port_def del: sys_rc.simps)
  show "\<exists>s'. up_sendpkt_port (sys_rc ms (Suc d)) u b s = ret s' \<and> cb_ok base s0 s'"
    using new s2 set by (simp add: up_sendpkt_port_def del: sys_rc.simps)
qed

lemma up_event:
  assumes s: "cb_ok base s0 s" and base: "lines_ok base" and u: "main_up u"
  shows "\<exists>s'. up_process (rcv ms) u e s = ret s' \<and> cb_ok base s0 s'"
proof -
  have d: "call_depth = Suc 1" by (simp add: call_depth_def)
  have "\<exists>s'. sendpkt_event (rcv ms) u s = ret s' \<and> cb_ok base s0 s'"
    unfolding sendpkt_event_def d
    by (rule for_run_total [where P = "cb_ok base s0", OF s])
      (use up_retry_req(2) [OF _ base _ u] in \<open>auto simp: valid_bank_def num_banks_def up_num_ports_def\<close>)
  moreover have "\<exists>s'. send_data_2cal u s = ret s' \<and> cb_ok base s0 s'"
  proof -
    have ok: "up_ok (ups s u)" "send_data_retryrespEvent (ups s u) = up_send_ev u"
      using s u by (auto simp: cb_ok_def core_ok_def ups_part_def)
    let ?f = "fold up_take [0..up_num_ports - 1]"
    have f: "?f (ups s u) = up_drop (set [0..up_num_ports - 1]) (ups s u)"
      by (rule up_take_all [OF ok(1)]) simp
    have "base(u := up_addr (?f (ups s u))) = base"
      using s by (simp add: f up_drop_def cb_ok_def fun_upd_idem)
    then have c: "cb_ok base s0 (upd_up u ?f s)"
      using cb_ups [OF s, of u ?f] up_drop_ok [OF ok(1)] by (simp add: f) (simp add: up_drop_def)
    have e: "send_data_retryrespEvent (ups (upd_up u ?f s) u) = up_send_ev u"
      using ok(2) by (simp add: upd_up_def f) (simp add: up_drop_def)
    obtain h r where hr: "schedule_next (up_send_ev u) (upd_up u ?f s) = ret ((upd_up u ?f s)\<lparr>events := h, qhead := r\<rparr>)"
        "cb_ok base s0 ((upd_up u ?f s)\<lparr>events := h, qhead := r\<rparr>)"
      using cb_sched [OF c, of "up_send_ev u"] ev_ids(5) [OF u] by blast
    have "send_data_2cal u s \<in> {ret (upd_up u ?f s), schedule_next (up_send_ev u) (upd_up u ?f s)}"
      unfolding send_data_2cal_def Let_def e schedule_next_def by simp
    then show ?thesis using c hr by auto
  qed
  ultimately show ?thesis using s by (simp add: up_process_def)
qed

section \<open>The arbiter and its peers\<close>

text \<open>A read that the arbiter sends down is always taken.\<close>

lemma channel_takes:
  assumes s: "cb_ok base s0 s" and b: "valid_bank b" and u: "main_up u" and q: "readInBufs (arb s) b u = p # ps"
  shows "\<exists>s1. sendTimingReq (sys_rc ms (Suc d)) (ports s (ArbRequest b)) p s = ret (True, s1) \<and> arb s1 = arb s \<and>
    cb_ok base s0 (arb_read_sent b u s1)"
proof -
  have c: "core_ok ok pend chan {#} s" using s by (simp add: cb_ok_def)
  have okm: "ok (mem s)" using c by (simp add: core_ok_def mem_part_def)
  obtain x where x: "is_read (pkts s) p x" "routed chan b x" using flow_heads(1) [OF core_bank(2) [OF c b] q] by blast
  then obtain e where e: "pkts s p = Some e" "\<not> isWrite e" "getAddr e = x"
    by (auto simp: is_read_def isRead_def isWrite_def)
  have "size {#t \<in># pend (mem s). chan (fst t) = chan x#} < cap"
    using core_pending(2) [OF c b] room [OF okm] x(2) by (simp add: routed_def)
  note acc = will_accept [OF okm this]
  obtain m' where m': "ms_AddTransaction ms x False (mem s) = ret (True, m')" "ok m'"
      "pend m' = add_mset (x, False) (pend (mem s))"
    using add_trans [OF okm acc] by blast
  define s1 where "s1 = s\<lparr>chans := (chans s)(b := ch_track_read p x (chans s b)), mem := m'\<rparr>"
  have "ch_recvTimingReq ms b p s = ret (True, s1)"
    using e acc m'(1) by (simp add: ch_recvTimingReq_def Let_def can_accept_def send_request_def upd_chan_def s1_def)
  moreover have "link (ports s (ArbRequest b)) = Linked (MemSide b)"
    using c b by (simp add: core_ok_def links_ok_def)
  ultimately have send: "sendTimingReq (sys_rc ms (Suc d)) (ports s (ArbRequest b)) p s = ret (True, s1)"
    by (intro send_linked(1) [where q = "MemSide b"]) (simp_all add: MemoryPort_receivers_def)
  have "core_ok ok pend chan {#} (arb_read_sent b u s1)"
    using core_sent [OF c b u q x(1) m'(2,3)] core_pending(1) [OF c b] by (simp add: s1_def)
  moreover have "queue_ok s0 (arb_read_sent b u s1)"
    by (rule queue_ok_frame [of s0 s]) (use s in \<open>auto simp: cb_ok_def s1_def arb_read_sent_def Let_def ch_track_read_def\<close>)
  ultimately have "cb_ok base s0 (arb_read_sent b u s1)"
    using s by (simp add: cb_ok_def) (simp add: s1_def arb_read_sent_def Let_def)
  then show ?thesis using send by (intro exI [of _ s1]) (simp add: s1_def)
qed

text \<open>A buffer takes or refuses a response.\<close>

lemma buffer_response:
  assumes s: "cb_ok base s0 s" and b: "valid_bank b" and t: "main_up t"
  shows "\<exists>k s1. sendTimingResp (sys_rc ms (Suc d)) (ports s (ArbResponse b t)) p s = ret (k, s1) \<and> arb s1 = arb s \<and>
    cb_ok base s0 s1"
proof -
  have c: "core_ok ok pend chan {#} s" and wf: "eq_wf s" "cur_tick s \<noteq> - 1"
    using s by (auto simp: cb_ok_def queue_ok_def)
  have i: "valid_port b" using b by (simp add: valid_bank_def num_banks_def valid_port_def up_num_ports_def)
  have ok: "up_ok (ups s t)" "up_tickEvent (ups s t) = up_tick_ev t" using c t by (auto simp: core_ok_def ups_part_def)
  have "link (ports s (ArbResponse b t)) = Linked (UpSide t b)" using c b t by (simp add: core_ok_def links_ok_def)
  then have send: "sendTimingResp (sys_rc ms (Suc d)) (ports s (ArbResponse b t)) p s = up_recvTimingResp t p b s"
    by (simp add: send_linked(2) UpRequestPort_receivers_def)
  show ?thesis
  proof (cases "up_full (ups s t) b")
    case True
    let ?f = "\<lambda>b'. b'\<lparr>up_retryResp := (up_retryResp b')(b := True)\<rparr>"
    have "cb_ok (base(t := base t)) s0 (upd_up t ?f s)"
      using cb_ups [OF s, of t ?f] ok(1) s by (simp add: cb_ok_def)
    then have "cb_ok base s0 (upd_up t ?f s)" by simp
    then show ?thesis
      using True i by (auto simp: send up_recvTimingResp_def valid_port_def upd_up_def)
  next
    case False
    let ?f = "\<lambda>b'. b'\<lparr>buffer_Data := (buffer_Data b')(b := buffer_Data b' b @ [p]),
      bufferdata_num := (bufferdata_num b')(b := inc32 (bufferdata_num b' b))\<rparr>"
    have len: "length (buffer_Data (ups s t) b) < 4" "bufferdata_num (ups s t) b = length (buffer_Data (ups s t) b)"
      using False up_full_iff [OF ok(1)] ok(1) by (auto simp: up_ok_def le_less)
    then have "up_ok (?f (ups s t))" using ok(1) by (auto simp: up_ok_def)
    then have "cb_ok (base(t := base t)) s0 (upd_up t ?f s)"
      using cb_ups [OF s, of t ?f] s by (simp add: cb_ok_def)
    then have c1: "cb_ok base s0 (upd_up t ?f s)" by simp
    have ev: "up_tickEvent (ups (upd_up t ?f s) t) = up_tick_ev t" using ok(2) by (simp add: upd_up_def)
    obtain h r where hr: "schedule_next (up_tick_ev t) (upd_up t ?f s) = ret ((upd_up t ?f s)\<lparr>events := h, qhead := r\<rparr>)"
        "cb_ok base s0 ((upd_up t ?f s)\<lparr>events := h, qhead := r\<rparr>)"
      using cb_sched [OF c1, of "up_tick_ev t"] ev_ids(4) [OF t] by blast
    have "up_recvTimingResp t p b s = ret (True, (upd_up t ?f s)\<lparr>events := h, qhead := r\<rparr>)"
      unfolding up_recvTimingResp_def Let_def ev hr(1) using i False by (simp add: valid_port_def)
    moreover have "arb ((upd_up t ?f s)\<lparr>events := h, qhead := r\<rparr>) = arb s" by (simp add: upd_up_def)
    ultimately show ?thesis using hr(2) unfolding send by blast
  qed
qed

lemma depth: "call_depth = Suc (Suc 0)"
  by (simp add: call_depth_def)

lemma buffer_retry:
  assumes s: "cb_ok base s0 s" and base: "lines_ok base" and b: "valid_bank b" and t: "main_up t"
  shows "\<exists>s1. sendRetryReq (rcv ms) (ports s (ArbResponse b t)) s = ret s1 \<and> cb_ok base s0 s1"
proof -
  obtain s1 where s1: "up_sendRetryReq (sys_rc ms (Suc 0)) t b s = ret s1" "cb_ok base s0 s1"
    using up_retry_req(1) [OF s base b t] by blast
  have l: "link (ports s (ArbResponse b t)) = Linked (UpSide t b)"
    using s b t by (simp add: cb_ok_def core_ok_def links_ok_def)
  have "sendRetryReq (rcv ms) (ports s (ArbResponse b t)) s = ret s1"
    unfolding depth using s1(1)
    by (intro send_linked(3) [OF l]) (simp add: UpRequestPort_receivers_def del: sys_rc.simps(1) add: sys_rc.simps(2) [of ms "Suc 0"])
  then show ?thesis using s1(2) by blast
qed

end

sublocale program_memory \<subseteq> arbiter: arb_env "rcv ms" "\<lambda>s. cb_ok base s0 s \<and> lines_ok base" main_num_upstreams
  for base s0
proof
  fix s b u p ps
  assume s: "cb_ok base s0 s \<and> lines_ok base"
  then have c: "core_ok ok pend chan {#} s" by (simp add: cb_ok_def)
  then show "arb_ok (arb s) \<and> num_upstreams (arb s) = main_num_upstreams"
    by (simp add: core_ok_def arb_part_def)
  note up = core_valid_up [OF c]
  show "\<exists>s1. schedule_next e s = ret s1 \<and> cb_ok base s0 s1 \<and> lines_ok base"
    if "e \<in> {arbEvent (arb s), sendResponseEvent (arb s)}" for e
    using that c s cb_sched [of base s0 s e] ev_ids(1,2) by (auto simp: core_ok_def arb_part_def)
  assume b: "valid_bank b" and u: "valid_up (arb s) u"
  show "\<exists>ok s1. sendTimingReq (rcv ms) (ports s (ArbRequest b)) p s = ret (ok, s1) \<and> arb s1 = arb s \<and>
      (if ok then cb_ok base s0 (arb_read_sent b u s1) \<and> lines_ok base else cb_ok base s0 s1 \<and> lines_ok base)"
    if "readInBufs (arb s) b u = p # ps"
    using channel_takes [OF _ b _ that, of base s0 "Suc 0"] s u up unfolding depth by metis
  show "\<exists>ok s1. sendTimingReq (rcv ms) (ports s (ArbRequest b)) p s = ret (ok, s1) \<and> arb s1 = arb s \<and>
      (if ok then cb_ok base s0 (arb_write_sent b u s1) \<and> lines_ok base else cb_ok base s0 s1 \<and> lines_ok base)"
    if "writeInBufs (arb s) b u = p # ps"
    using that core_bank(2) [OF c b] by (simp add: flow_ok_def)
  show "\<exists>ok s1. sendTimingResp (rcv ms) (ports s (ArbResponse b t)) p s = ret (ok, s1) \<and> arb s1 = arb s \<and>
      (if ok then cb_ok base s0 (arb_pop_response b s1) \<and> lines_ok base
       else cb_ok base s0 (arb_set_retryResp b u True s1) \<and> lines_ok base)"
    if q: "responseQueue (arb s) b = (p, t) # rs" for t rs
  proof -
    have "main_up t" using core_bank(4) [OF c b] q up by (auto simp: bank_ok_def)
    from buffer_response [OF _ b this, of base s0 s "Suc 0" p] s obtain k s1 where
      s1: "sendTimingResp (rcv ms) (ports s (ArbResponse b t)) p s = ret (k, s1)" "arb s1 = arb s" "cb_ok base s0 s1"
      unfolding depth by blast
    have "core_ok ok pend chan {#} (arb_pop_response b s1)"
      using s1 q by (intro core_popped) (simp_all add: cb_ok_def)
    then have "cb_ok base s0 (arb_pop_response b s1)"
      using s1(3) unfolding cb_ok_def by (auto simp: arb_pop_response_def elim!: queue_ok_frame)
    then show ?thesis using s s1 by (intro exI [of _ k] exI [of _ s1]) simp
  qed
  show "\<exists>s1. sendRetryReq (rcv ms) (ports s (ArbResponse b t)) s = ret s1 \<and>
      cb_ok base s0 (arb_set_retryReq b u False s1) \<and> lines_ok base" if "valid_up (arb s) t" for t
    using buffer_retry [OF _ _ b, of base s0 s t] s that up by auto
qed

section \<open>The memory side\<close>

context program_memory
begin

text \<open>A channel sends the oldest response back; the arbiter takes it.\<close>

lemma ch_event:
  assumes s: "cb_ok base s0 s" and b: "valid_bank b"
    and q: "e = ch_resp_ev b \<Longrightarrow> ch_responseQueue (chans s b) \<noteq> [] \<and> \<not> ev_scheduled (events s (ch_resp_ev b))"
  shows "\<exists>s'. ch_process (rcv ms) b e s = ret s' \<and> cb_ok base s0 s'"
proof -
  have c: "core_ok ok pend chan {#} s" and qu: "queue_ok s0 s" using s by (auto simp: cb_ok_def)
  have wf: "eq_wf s" "cur_tick s \<noteq> - 1" using qu by (auto simp: queue_ok_def)
  note bank = core_bank [OF c b]
  have ch: "\<not> ch_retryReq (chans s b)" "\<not> ch_retryResp (chans s b)" "ch_sendResponseEvent (chans s b) = ch_resp_ev b"
    using bank(3) by (simp_all add: chan_ok_def)
  show ?thesis
  proof (cases "e = ch_resp_ev b")
    case False
    then show ?thesis using s ch by (simp add: ch_process_def ch_tick_def)
  next
    case True
    then obtain p ps where p: "ch_responseQueue (chans s b) = p # ps" and un: "\<not> ev_scheduled (events s (ch_resp_ev b))"
      using q by (cases "ch_responseQueue (chans s b)") auto
    obtain x where x: "is_read (pkts s) p x" using flow_heads(2) [OF bank(2) p] by blast
    then obtain d where d: "pkts s p = Some d" "getAddr d = x" by (auto simp: is_read_def)
    obtain r m u mu where rm: "mq_pop (outstandingReads (arb s) b) x = Some (r, m)"
        "mq_pop (outstandingUpstream (arb s) b) x = Some (u, mu)"
      and core: "core_ok ok pend chan {#} (s\<lparr>arb := arb_complete b r m u mu (arb s),
          chans := (chans s)(b := (chans s b)\<lparr>ch_responseQueue := ps\<rparr>)\<rparr>)"
      using core_returned [OF c b p x] .
    let ?a = "arb_complete b r m u mu (arb s)"
    obtain h k where h: "arb_recvTimingResp p b s = ret (True, s\<lparr>arb := ?a, events := h, qhead := k\<rparr>)"
        "eq_wf (s\<lparr>arb := ?a, events := h, qhead := k\<rparr>)"
        "\<forall>y. ev_scheduled (h y) \<longleftrightarrow> y = sendResponseEvent (arb s) \<or> ev_scheduled (events s y)"
        "later s (s\<lparr>arb := ?a, events := h, qhead := k\<rparr>)"
      using recvTimingResp_spec [OF bank(1) b d(1) wf rm [folded d(2)] refl] by blast
    let ?s = "s\<lparr>arb := ?a, chans := (chans s)(b := (chans s b)\<lparr>ch_responseQueue := ps\<rparr>), events := h, qhead := k\<rparr>"
    have "link (ports s (MemSide b)) = Linked (ArbRequest b)" using c b by (simp add: core_ok_def links_ok_def)
    then have "sendTimingResp (rcv ms) (ports s (MemSide b)) p s = ret (True, s\<lparr>arb := ?a, events := h, qhead := k\<rparr>)"
      using h(1) unfolding depth by (simp add: send_linked(2) ArbRequestPort_receivers_def)
    then have "ch_process (rcv ms) b e s = ret ?s"
      using ch True p by (simp add: ch_process_def ch_sendResponse_def upd_chan_def)
    moreover have "queue_ok s0 ?s"
    proof -
      have "later s ?s" "eq_wf ?s"
        using h(2,4) later_cong [of ?s "s\<lparr>arb := ?a, events := h, qhead := k\<rparr>" s]
          eq_wf_cong [of ?s "s\<lparr>arb := ?a, events := h, qhead := k\<rparr>"] by simp_all
      moreover from this have "later s0 ?s" using qu later_trans [of s0 s ?s] by (simp add: queue_ok_def)
      moreover have "sendResponseEvent (arb s) = arb_resp_ev" using c by (simp add: core_ok_def arb_part_def)
      ultimately show ?thesis using qu h(3) un wf(2) ev_ids(2) [symmetric] by (auto simp: queue_ok_def)
    qed
    ultimately show ?thesis using core s by (simp add: cb_ok_def)
  qed
qed

text \<open>A cycle of the memory: every completed transaction reaches its channel.\<close>

lemma complete_all:
  assumes "core_ok ok pend chan (mset ts) s" "queue_ok s0 s"
  shows "\<exists>s'. for_run (complete_transaction ms) ts s = ret s' \<and> core_ok ok pend chan {#} s' \<and> queue_ok s0 s' \<and> ups s' = ups s"
  using assms
proof (induction ts arbitrary: s)
  case (Cons t ts)
  obtain x w where t: "t = (x, w)" by (cases t)
  obtain b p m where b: "\<not> w" "valid_bank b" "routed chan b x"
      "mq_pop (ch_outstandingReads (chans s b)) x = Some (p, m)" "ch_nbrReads (chans s b) \<noteq> 0"
    and core: "core_ok ok pend chan (mset ts) (s\<lparr>chans := (chans s)(b := (chans s b)\<lparr>ch_outstandingReads := m,
       ch_nbrReads := ch_nbrReads (chans s b) - 1, ch_responseQueue := ch_responseQueue (chans s b) @ [p]\<rparr>)\<rparr>)"
    using core_completed [of ok pend chan x w "mset ts" s] Cons.prems(1) by (auto simp: t)
  let ?s = "s\<lparr>chans := (chans s)(b := (chans s b)\<lparr>ch_outstandingReads := m,
       ch_nbrReads := ch_nbrReads (chans s b) - 1, ch_responseQueue := ch_responseQueue (chans s b) @ [p]\<rparr>)\<rparr>"
  have "ok (mem s)" using Cons.prems(1) by (simp add: core_ok_def mem_part_def)
  then have ch: "get_channel ms x s = b" using b(3) by (simp add: get_channel_def get_chan routed_def)
  have cb: "read_callbacks s b = Some b" "\<not> ch_retryResp (chans s b)" "ch_sendResponseEvent (chans s b) = ch_resp_ev b"
    using Cons.prems(1) b(2) by (simp_all add: core_ok_def chan_ok_def)
  have q: "queue_ok s0 ?s" by (rule queue_ok_frame [OF Cons.prems(2)]) auto
  have "valid_bank c \<Longrightarrow> ch_resp_ev b = ch_resp_ev c \<Longrightarrow> ch_responseQueue (chans ?s c) \<noteq> []" for c
    using ev_ids(6) [OF b(2), of c] by simp
  from queue_ok_sched [OF q this] obtain h r where
    hr: "schedule_next (ch_resp_ev b) ?s = ret (?s\<lparr>events := h, qhead := r\<rparr>)" "queue_ok s0 (?s\<lparr>events := h, qhead := r\<rparr>)" by blast
  have "complete_transaction ms t s = ret (?s\<lparr>events := h, qhead := r\<rparr>)"
    using b ch cb hr(1) by (simp add: complete_transaction_def t global_read_callback_def Let_def valid_bank_def
      num_banks_def CHANNEL_NUM_def readComplete_def ch_accessAndRespond_def upd_chan_def)
  moreover obtain s' where "for_run (complete_transaction ms) ts (?s\<lparr>events := h, qhead := r\<rparr>) = ret s'"
      "core_ok ok pend chan {#} s'" "queue_ok s0 s'" "ups s' = ups s"
    using Cons.IH [of "?s\<lparr>events := h, qhead := r\<rparr>"] core hr(2) by auto
  ultimately show ?case by simp
qed simp

lemma wrapper_event:
  assumes s: "cb_ok base s0 s"
  shows "\<exists>s'. wrapper_tick ms s = ret s' \<and> cb_ok base s0 s' \<and> ev_scheduled (events s' wrapper_ev)"
proof -
  have c: "core_ok ok pend chan {#} s" using s by (simp add: cb_ok_def)
  have "ok (mem s)" using c by (simp add: core_ok_def mem_part_def)
  then obtain ts m where ts: "ms_ClockTick ms (mem s) = ret (ts, m)" "ok m" "pend (mem s) = mset ts + pend m"
    using clock_tick by blast
  have "core_ok ok pend chan (mset ts) (s\<lparr>mem := m\<rparr>)"
    using c ts(2,3) by (simp add: core_ok_def mem_part_def heap_wf_def add.commute)
  moreover have "queue_ok s0 (s\<lparr>mem := m\<rparr>)" by (rule queue_ok_frame [of s0 s]) (use s in \<open>auto simp: cb_ok_def\<close>)
  ultimately obtain s1 where s1: "for_run (complete_transaction ms) ts (s\<lparr>mem := m\<rparr>) = ret s1"
      "core_ok ok pend chan {#} s1" "queue_ok s0 s1" "ups s1 = ups s"
    using complete_all [of ts "s\<lparr>mem := m\<rparr>" s0] by auto
  have c1: "cb_ok base s0 s1" using s s1(2-4) by (simp add: cb_ok_def)
  have w: "wrapper_tickEvent s1 = wrapper_ev" using s1(2) by (simp add: core_ok_def)
  obtain h r where "schedule_next wrapper_ev s1 = ret (s1\<lparr>events := h, qhead := r\<rparr>)"
      "cb_ok base s0 (s1\<lparr>events := h, qhead := r\<rparr>)" "ev_scheduled (h wrapper_ev)"
    using cb_sched [OF c1, of wrapper_ev] ev_ids(3) by blast
  then show ?thesis using ts(1) s1(1) w by (simp add: wrapper_tick_def)
qed

section \<open>The event loop\<close>

lemma system_event:
  assumes s: "cb_ok base s0 s" and base: "lines_ok base"
    and q: "\<And>b. valid_bank b \<Longrightarrow> e = ch_resp_ev b \<Longrightarrow>
      ch_responseQueue (chans s b) \<noteq> [] \<and> \<not> ev_scheduled (events s (ch_resp_ev b))"
  shows "\<exists>s'. sys_process ms e s = ret s' \<and> cb_ok base s0 s' \<and> (e = wrapper_ev \<longrightarrow> ev_scheduled (events s' wrapper_ev))"
proof -
  have up: "\<exists>s'. up_process (rcv ms) u e s = ret s' \<and> cb_ok base s0 s'"
    if "List.find P [0..main_num_upstreams - 1] = Some u" for P u
    using that up_event [OF s base] by (auto simp: find_Some_iff main_up_def main_num_upstreams_def)
  have ch: "\<exists>s'. ch_process (rcv ms) b e s = ret s' \<and> cb_ok base s0 s'"
    if "List.find P [0..num_banks - 1] = Some b" for P b
    using that ch_event [OF s _ q] by (auto simp: find_Some_iff valid_bank_def num_banks_def)
  have w: "wrapper_tickEvent s = wrapper_ev" using s by (simp add: cb_ok_def core_ok_def)
  show ?thesis
    using wrapper_event [OF s] arbiter.process_total [of base s0 s e] s base up ch
    unfolding sys_process_def w by (auto split: option.split)
qed

text \<open>The invariant of the event loop.\<close>

definition run_ok :: "(int \<Rightarrow> addr_t) \<Rightarrow> 'm mem_sys \<Rightarrow> bool" where
  "run_ok base s \<longleftrightarrow>
     cb_ok base s s \<and> lines_ok base \<and> cur_tick s \<le> main_limit \<and> ev_scheduled (events s wrapper_ev) \<and>
     (\<forall>x. ev_scheduled (events s x) \<longrightarrow> ev_when (events s x) \<le> cur_tick s + 1)"

lemma popped_ok:
  assumes s: "run_ok base s" and e: "qhead s = Some e" and t: "cur_tick s < main_limit"
  shows "cb_ok base (eq_pop e s) (eq_pop e s)" "cur_tick (eq_pop e s) \<le> main_limit" "cur_tick s \<le> cur_tick (eq_pop e s)"
    "\<And>x. ev_scheduled (events (eq_pop e s) x) \<Longrightarrow> ev_when (events (eq_pop e s) x) \<le> cur_tick s + 1"
    "e \<noteq> wrapper_ev \<Longrightarrow> ev_scheduled (events (eq_pop e s) wrapper_ev)"
    "\<And>b. valid_bank b \<Longrightarrow> e = ch_resp_ev b \<Longrightarrow>
      ch_responseQueue (chans (eq_pop e s) b) \<noteq> [] \<and> \<not> ev_scheduled (events (eq_pop e s) (ch_resp_ev b))"
proof -
  have cb: "cb_ok base s s" "core_ok ok pend chan {#} s" "queue_ok s s" "eq_wf s"
    using s by (auto simp: run_ok_def cb_ok_def queue_ok_def)
  note pop = eq_pop_wf [OF cb(4) e]
  obtain h k c where p: "eq_pop e s = s\<lparr>events := h, qhead := k, cur_tick := c\<rparr>" using eq_pop_fields by blast
  have chans: "chans (eq_pop e s) = chans s" by (simp add: p)
  have w: "ev_when (events (eq_pop e s) x) = ev_when (events s x)" for x
    using key_of_when [OF pop(7)] by (simp add: ev_key_def)
  have nxt: "cur_tick s + 1 \<le> main_limit" using t by (rule inc_le)
  have "ev_when (events s e) \<le> cur_tick s + 1" using s pop(2) by (simp add: run_ok_def)
  then show le: "cur_tick (eq_pop e s) \<le> main_limit" using nxt pop(3) by simp
  show "cur_tick s \<le> cur_tick (eq_pop e s)" by (rule pop(4))
  show "ev_when (events (eq_pop e s) x) \<le> cur_tick s + 1" if "ev_scheduled (events (eq_pop e s) x)" for x
    using that pop(6) s by (simp add: w run_ok_def)
  show "ev_scheduled (events (eq_pop e s) wrapper_ev)" if "e \<noteq> wrapper_ev"
    using that pop(6) s by (simp add: run_ok_def)
  have "cur_tick (eq_pop e s) \<noteq> - 1" using le by (rule limit_not_top)
  moreover have "ch_responseQueue (chans s b) \<noteq> []" if "valid_bank b" "ev_scheduled (events (eq_pop e s) (ch_resp_ev b))" for b
    using that pop(6) cb(3) by (simp add: queue_ok_def)
  ultimately have "queue_ok (eq_pop e s) (eq_pop e s)" using pop(1) by (simp add: queue_ok_def) (simp add: p)
  then show "cb_ok base (eq_pop e s) (eq_pop e s)" using cb(1,2) by (simp add: cb_ok_def) (simp add: p)
  show "ch_responseQueue (chans (eq_pop e s) b) \<noteq> [] \<and> \<not> ev_scheduled (events (eq_pop e s) (ch_resp_ev b))"
    if "valid_bank b" "e = ch_resp_ev b" for b
    using that pop(2,6) cb(3) chans by (auto simp: queue_ok_def)
qed

end

sublocale program_memory \<subseteq> loop: event_handler "sys_process ms" "run_ok base" main_limit for base
proof
  show "eq_wf s" if "run_ok base s" for s using that by (simp add: run_ok_def cb_ok_def queue_ok_def)
  fix s e
  assume s: "run_ok base s" and e: "qhead s = Some e" and t: "cur_tick s < main_limit"
  note pop = popped_ok [OF s e t]
  have base: "lines_ok base" using s by (simp add: run_ok_def)
  obtain s' where s': "sys_process ms e (eq_pop e s) = ret s'" "cb_ok base (eq_pop e s) s'"
      "e = wrapper_ev \<longrightarrow> ev_scheduled (events s' wrapper_ev)"
    using system_event [OF pop(1) base pop(6)] by blast
  then have l: "later (eq_pop e s) s'" by (simp add: cb_ok_def queue_ok_def)
  have "cur_tick s + 1 \<le> cur_tick (eq_pop e s) + 1"
    using pop(2,3) by (intro tick_mono)
  then have "ev_when (events (eq_pop e s) x) \<le> cur_tick (eq_pop e s) + 1" if "ev_scheduled (events (eq_pop e s) x)" for x
    using order.trans [OF pop(4) [OF that]] by blast
  then have "ev_when (events s' x) \<le> cur_tick s' + 1" if "ev_scheduled (events s' x)" for x
    using l that unfolding later_def by fastforce
  moreover have "cb_ok base s' s'" using s'(2) by (simp add: cb_ok_def queue_ok_def)
  moreover have "cur_tick s' \<le> main_limit" using l pop(2) by (simp add: later_def)
  ultimately show "\<exists>q'. sys_process ms e (eq_pop e s) = ret q' \<and> run_ok base q' \<and> later (eq_pop e s) q'"
    using s' l base pop(5) by (auto simp: run_ok_def cb_ok_def queue_ok_def)
qed

end
