(* ===== verification/Main_Setup.thy ===== *)
theory Main_Setup
  imports Main_Run
begin

text \<open>
  The start of the program: the constructed objects, the ports bound by name, the buffers'
  first requests. They establish the invariant of the event loop, so that the whole program
  runs to its time limit without a failure.
\<close>

unbundle bit_operations_syntax

section \<open>Construction\<close>

lemma construct_all:
  assumes "\<forall>c\<in>set bs. 0 \<le> c \<and> c < CHANNEL_NUM"
  shows "fold (\<lambda>c. construct_DRAMsim3 c c (re c) (te c)) bs s =
    s\<lparr>chans := (\<lambda>c. if c \<in> set bs then new_DRAMsim3 c (re c) (te c) else chans s c),
      read_callbacks := (\<lambda>c. if c \<in> set bs then Some c else read_callbacks s c),
      write_callbacks := (\<lambda>c. if c \<in> set bs then Some c else write_callbacks s c)\<rparr>"
  using assms
proof (induction bs arbitrary: s)
  case (Cons b bs)
  then show ?case
    by (auto simp: construct_DRAMsim3_def set_read_callback_def set_write_callback_def fun_eq_iff
      intro!: mem_sys.equality)
qed simp

lemma fold_up_ports:
  "fold (\<lambda>u. up_createPorts (nm u) u) us n p =
     (case p of UpSide v i \<Rightarrow> if v \<in> set us \<and> valid_port i then new_Port RequestPort (nm v @ ''.buf_side'' @ to_string i) else n p
      | _ \<Rightarrow> n p)"
  by (induction us arbitrary: n) (auto simp: up_createPorts_def valid_port_def split: port_id.splits)

lemma fold_mem_ports:
  "fold (\<lambda>c. mem_createPort (nm c) c) cs n p =
     (case p of MemSide c \<Rightarrow> if c \<in> set cs then new_Port ResponsePort (nm c @ ''.Event.port'') else n p | _ \<Rightarrow> n p)"
  by (induction cs arbitrary: n) (auto simp: mem_createPort_def split: port_id.splits)

lemma new_Port_facts [simp]: "unlinked (new_Port k n)" "port_kind (new_Port k n) = k"
  by (simp_all add: new_Port_def unlinked_def)

lemma main_ports_facts:
  "unlinked (main_ports p)"
  "main_up u \<Longrightarrow> valid_port i \<Longrightarrow> port_kind (main_ports (UpSide u i)) = RequestPort"
  "valid_bank b \<Longrightarrow> main_up u \<Longrightarrow> port_kind (main_ports (ArbResponse b u)) = ResponsePort"
  "valid_bank b \<Longrightarrow> port_kind (main_ports (ArbRequest b)) = RequestPort"
  "valid_bank b \<Longrightarrow> port_kind (main_ports (MemSide b)) = ResponsePort"
  unfolding main_ports_def fold_mem_ports fold_up_ports
  by (auto simp: createPorts_def main_up_def valid_bank_def split: port_id.split)

section \<open>Binding\<close>

lemma for_run_cong: "(\<And>x s. x \<in> set xs \<Longrightarrow> f x s = g x s) \<Longrightarrow> for_run f xs s = for_run g xs s"
  by (induction xs arbitrary: s) (auto simp: run_bind_def split: option.split sum.split)

lemma for_run_map: "for_run f (map g xs) s = for_run (\<lambda>x. f (g x)) xs s"
  by (induction xs arbitrary: s) (auto simp: run_bind_def split: option.split sum.split)

lemma for_run_concat: "for_run f (concat (map g xs)) s = for_run (\<lambda>x. for_run f (g x)) xs s"
  by (induction xs arbitrary: s) (auto simp: for_run_append run_bind_def split: option.split sum.split)

definition bank_pairs :: "int \<Rightarrow> (port_id \<times> port_id) list" where
  "bank_pairs i = map (\<lambda>u. (UpSide u i, ArbResponse i u)) [0..main_num_upstreams - 1] @ [(ArbRequest i, MemSide i)]"

lemma main_bind_pairs:
  assumes "num_upstreams a = main_num_upstreams"
  shows "main_bind a n = for_run (\<lambda>(p, q). bindPorts p q) (concat (map bank_pairs [0..num_banks - 1])) n"
  unfolding main_bind_def for_run_concat
proof (rule for_run_cong)
  fix i n assume "i \<in> set [0..num_banks - 1]"
  then have i: "valid_bank i" "valid_port i" by (auto simp: valid_bank_def valid_port_def num_banks_def up_num_ports_def)
  have "for_run (bind_upstream a i) [0..main_num_upstreams - 1] n =
      for_run (\<lambda>u. bindPorts (UpSide u i) (ArbResponse i u)) [0..main_num_upstreams - 1] n"
  proof (rule for_run_cong)
    fix u n assume "u \<in> set [0..main_num_upstreams - 1]"
    then have "valid_up a u" "u < 2 ^ 31" using assms by (auto simp: valid_up_def main_num_upstreams_def)
    then show "bind_upstream a i u n = bindPorts (UpSide u i) (ArbResponse i u) n"
      using i unfolding bind_upstream_def by (simp only: up_getPort_name getPort_response run_bind_simps)
  qed
  moreover have "bind_memory a i = bindPorts (ArbRequest i) (MemSide i)"
    using i unfolding bind_memory_def fun_eq_iff by (simp only: getPort_request run_bind_simps mem_getPort_def refl if_True) simp
  ultimately show "run_bind (for_run (bind_upstream a i) [0..main_num_upstreams - 1] n) (bind_memory a i) =
      for_run (\<lambda>(p, q). bindPorts p q) (bank_pairs i) n"
    unfolding bank_pairs_def by (simp add: for_run_append for_run_map)
      (simp add: run_bind_def split: option.split sum.split)
qed

lemma main_bind_linked:
  assumes "num_upstreams a = main_num_upstreams"
  shows "\<exists>n. main_bind a main_ports = ret n \<and>
    (\<forall>b\<in>{0..7}. linked n (ArbRequest b) (MemSide b) \<and> (\<forall>u\<in>{0..3}. linked n (UpSide u b) (ArbResponse b u)))"
proof -
  let ?pairs = "concat (map bank_pairs [0..num_banks - 1])"
  have mem: "(p, q) \<in> set ?pairs \<longleftrightarrow> (\<exists>b u. valid_bank b \<and> main_up u \<and> p = UpSide u b \<and> q = ArbResponse b u) \<or>
      (\<exists>b. valid_bank b \<and> p = ArbRequest b \<and> q = MemSide b)" for p q
    by (auto simp: bank_pairs_def valid_bank_def main_up_def image_iff)
  have "distinct (map fst ?pairs @ map snd ?pairs)"
    by (simp add: bank_pairs_def num_banks_def main_num_upstreams_def upto_rec1)
  moreover have "net_ok main_ports" using main_ports_facts(1) by (simp add: net_ok_def)
  moreover have "valid_bank b \<Longrightarrow> valid_port b" for b
    by (simp add: valid_bank_def valid_port_def num_banks_def up_num_ports_def)
  then have "port_kind (main_ports p) = RequestPort \<and> port_kind (main_ports q) = ResponsePort \<and>
      unlinked (main_ports p) \<and> unlinked (main_ports q)" if "(p, q) \<in> set ?pairs" for p q
    using that main_ports_facts unfolding mem by (elim disjE exE conjE) simp_all
  then have "\<forall>(p, q)\<in>set ?pairs. port_kind (main_ports p) = RequestPort \<and> port_kind (main_ports q) = ResponsePort \<and>
      unlinked (main_ports p) \<and> unlinked (main_ports q)" by blast
  ultimately obtain n where n: "for_run (\<lambda>(p, q). bindPorts p q) ?pairs main_ports = ret n" "net_ok n"
      "\<forall>(p, q)\<in>set ?pairs. linked n p q"
    using bind_all [of main_ports ?pairs] by blast
  have "linked n (ArbRequest b) (MemSide b)" if "b \<in> {0..7}" for b
    using n(3) mem [of "ArbRequest b" "MemSide b"] that by (force simp: valid_bank_def num_banks_def simp del: set_concat)
  moreover have "linked n (UpSide u b) (ArbResponse b u)" if "b \<in> {0..7}" "u \<in> {0..3}" for b u
    using n(3) mem [of "UpSide u b" "ArbResponse b u"] that
    by (force simp: valid_bank_def num_banks_def main_up_def main_num_upstreams_def simp del: set_concat)
  ultimately show ?thesis using n(1) main_bind_pairs [OF assms] by auto
qed

lemma linked_links_ok:
  "(\<forall>b\<in>{0..7}. linked n (ArbRequest b) (MemSide b) \<and> (\<forall>u\<in>{0..3}. linked n (UpSide u b) (ArbResponse b u))) \<Longrightarrow> links_ok n"
  by (auto simp: links_ok_def linked_def valid_bank_def num_banks_def main_up_def main_num_upstreams_def)

section \<open>The state before the initialisation\<close>

lemma main_construct_bind:
  assumes m: "ok m" "pend m = {#}"
  shows "\<exists>s n. main_construct m j = ret s \<and> main_bind (arb s) (ports s) = ret n \<and>
    core_ok ok pend chan {#} (s\<lparr>ports := n\<rparr>) \<and> qhead s = None \<and> cur_tick s = 0 \<and>
    (\<forall>x. \<not> ev_scheduled (events s x)) \<and> (\<forall>u. up_addr (ups s u) = main_addr u)"
proof -
  obtain a where a: "new_DramArb (junk_nbr j) (junk_retryReq j) (junk_retryResp j) main_buf_size main_num_upstreams arb_ev arb_resp_ev = ret a"
      "arb_ok a" "num_upstreams a = main_num_upstreams" "buf_size a = main_buf_size" "arbEvent a = arb_ev"
      "sendResponseEvent a = arb_resp_ev" "\<And>b u. readInBufs a b u = [] \<and> writeInBufs a b u = [] \<and> responseQueue a b = []"
      "outstandingReads a = (\<lambda>_ _. None)"
    using new_DramArb_ok [of main_num_upstreams main_buf_size arb_ev arb_resp_ev "junk_nbr j" "junk_retryReq j" "junk_retryResp j"]
    by (auto simp: main_num_upstreams_def num_up_def main_buf_size_def arb_ev_def arb_resp_ev_def)
  obtain n where n: "main_bind a main_ports = ret n" "links_ok n" using main_bind_linked [OF a(3)] linked_links_ok by blast
  obtain s where s: "main_construct m j = ret s" by (simp add: main_construct_def a(1))
  have banks: "\<forall>c\<in>set [0..num_banks - 1]. 0 \<le> c \<and> c < CHANNEL_NUM" by (simp add: num_banks_def CHANNEL_NUM_def)
  note s' = s [unfolded main_construct_def a(1) run_bind_simps construct_all [OF banks]]
  have f: "arb s = a" "ports s = main_ports" "mem s = m" "wrapper_tickEvent s = wrapper_ev" "pkts s = (\<lambda>_. None)"
      "\<And>c. chans s c = new_DRAMsim3 c (ch_resp_ev c) (ch_tick_ev c)"
      "\<And>c. valid_bank c \<Longrightarrow> read_callbacks s c = Some c" "qhead s = None" "cur_tick s = 0"
      "events s = (\<lambda>_. new_Event Default_Pri)"
      "\<And>u. ups s u = new_UpBuffer (junk_up_retryResp j u) (main_addr u) (up_tick_ev u) (up_send_ev u)"
    using s' by (auto simp: valid_bank_def)
  have "up_ok (ups s u)" for u unfolding f(11) by (rule up_ok_new) (simp add: up_tick_ev_def up_send_ev_def)
  then have "ups_part (ups s)" by (simp add: ups_part_def f(11)) (simp add: new_UpBuffer_def)
  moreover have "flow_ok chan (pkts s) a (chans s c) c" "chan_ok (chans s c) c" for c
    by (simp_all add: flow_ok_def in_flight_def chan_ok_def f(6) new_DRAMsim3_def a(7,8))
  moreover have "mem_part ok pend chan {#} m (chans s)"
    using m by (simp add: mem_part_def f(6) new_DRAMsim3_def)
  ultimately have "core_ok ok pend chan {#} (s\<lparr>ports := n\<rparr>)"
    using a n(2) f by (simp add: core_ok_def arb_part_def heap_wf_def)
  then show ?thesis
    using s n(1) f by (auto simp: new_Event_def new_UpBuffer_def)
qed

section \<open>Initialisation\<close>

lemma eq_wf_empty: "qhead q = None \<Longrightarrow> \<forall>x. \<not> ev_scheduled (events q x) \<Longrightarrow> eq_wf q"
  unfolding eq_wf_def eq_list_def eq_repr_def
  by (intro exI [of _ "[]"]) (auto simp: bins_ok_def intro!: exI [of _ "[]"])

text \<open>The first lines of buffer \<open>u\<close> and the next ones, by bank.\<close>

lemma line_bank:
  assumes "main_up u" "valid_port i" "k \<in> {0, 512}"
  shows "uint (drop_bit 6 (main_addr u + k + of_int (i * 64)) AND 7) = i"
    "uint (drop_bit 6 (ucast (ucast (main_addr u + k + of_int (i * 64)) :: 32 word) :: addr_t) AND 7) = i"
proof -
  have "u \<in> {0, 1, 2, 3}" "i \<in> {0, 1, 2, 3, 4, 5, 6, 7}"
    using assms(1,2) by (auto simp: main_up_def main_num_upstreams_def valid_port_def up_num_ports_def)
  then show "uint (drop_bit 6 (main_addr u + k + of_int (i * 64)) AND 7) = i"
    "uint (drop_bit 6 (ucast (ucast (main_addr u + k + of_int (i * 64)) :: 32 word) :: addr_t) AND 7) = i"
    using assms(3) by (auto simp: main_addr_def)
qed

definition main_base :: "int \<Rightarrow> addr_t" where
  "main_base u = main_addr u + (if main_up u then 512 else 0)"

context program_memory
begin

lemma line_routed: "ok m \<Longrightarrow> main_up u \<Longrightarrow> valid_port i \<Longrightarrow> k \<in> {0, 512} \<Longrightarrow> routed chan i (main_addr u + k + of_int (i * 64))"
  unfolding routed_def using route [of m] line_bank [of u i k] by metis

lemma up_init_port_ok:
  assumes s: "cb_ok base s0 s" and i: "valid_bank i" and u: "main_up u" and r: "routed chan i (base u)"
  shows "\<exists>s'. up_init_port (rcv ms) u i s = ret s' \<and> cb_ok (base(u := base u + 64)) s0 s'"
proof -
  obtain p s1 where new: "create_read_packet (up_addr (ups s u)) 64 s = (p, s1)" by fastforce
  have a: "up_addr (ups s u) = base u" using s by (simp add: cb_ok_def)
  note s1 = cb_alloc [OF s new]
  let ?f = "\<lambda>b. b\<lparr>up_addr := up_addr b + 64\<rparr>"
  have "up_ok (ups s1 u)" "up_addr (ups s1 u) = base u" using s1(1) u by (auto simp: cb_ok_def core_ok_def ups_part_def)
  then have "cb_ok (base(u := base u + 64)) s0 (upd_up u ?f s1)" using cb_ups [OF s1(1), of u ?f] by simp
  moreover have "is_read (pkts (upd_up u ?f s1)) p (base u)" using s1(2) by (simp add: upd_up_def a)
  ultimately obtain k s' where "up_sendTimingReq (rcv ms) u p i (upd_up u ?f s1) = ret (k, s')"
      "cb_ok (base(u := base u + 64)) s0 s'"
    using up_req [OF _ i u _ r] unfolding depth by blast
  then show ?thesis using new by (simp add: up_init_port_def)
qed

lemma up_init_from:
  assumes "cb_ok (base(u := main_addr u + of_int (i * 64))) s0 s" "0 \<le> i" "i \<le> 8" "main_up u" "ok m"
  shows "\<exists>s'. for_run (up_init_port (rcv ms) u) [i..7] s = ret s' \<and> cb_ok (base(u := main_addr u + 512)) s0 s'"
  using assms
proof (induction "nat (8 - i)" arbitrary: i s)
  case (Suc n)
  then have i: "valid_bank i" "valid_port i" by (auto simp: valid_bank_def valid_port_def num_banks_def up_num_ports_def)
  have "routed chan i ((base(u := main_addr u + of_int (i * 64))) u)"
    using line_routed [OF Suc.prems(5,4) i(2), of 0] by simp
  from up_init_port_ok [OF Suc.prems(1) i(1) Suc.prems(4) this] obtain s1 where
    s1: "up_init_port (rcv ms) u i s = ret s1" "cb_ok (base(u := main_addr u + of_int ((i + 1) * 64))) s0 s1"
    by (auto simp: algebra_simps fun_upd_same simp del: fun_upd_apply)
  have "\<exists>s'. for_run (up_init_port (rcv ms) u) [i + 1..7] s1 = ret s' \<and> cb_ok (base(u := main_addr u + 512)) s0 s'"
    using Suc s1(2) by (intro Suc.hyps(1)) auto
  moreover have "[i..7] = i # [i + 1..7]" using Suc.hyps(2) by (intro upto_rec1) simp
  ultimately show ?case using s1(1) by simp
next
  case 0
  then have "i = 8" by simp
  then show ?case using 0 by simp
qed

lemma up_init_all:
  assumes "cb_ok base s0 s" "\<forall>u\<in>set us. main_up u \<and> base u = main_addr u" "distinct us" "ok m"
  shows "\<exists>s'. for_run (up_init (rcv ms)) us s = ret s' \<and>
    cb_ok (\<lambda>u. if u \<in> set us then main_addr u + 512 else base u) s0 s'"
  using assms
proof (induction us arbitrary: base s)
  case (Cons u us)
  have "base(u := main_addr u + of_int (0 * 64)) = base" using Cons.prems(2) by (simp add: fun_upd_idem)
  then obtain s1 where s1: "up_init (rcv ms) u s = ret s1" "cb_ok (base(u := main_addr u + 512)) s0 s1"
    using up_init_from [of base u 0 s0 s m] Cons.prems(1,2,4) by (auto simp: up_init_def up_num_ports_def)
  have "(\<lambda>v. if v \<in> set us then main_addr v + 512 else (base(u := main_addr u + 512)) v) =
      (\<lambda>v. if v \<in> set (u # us) then main_addr v + 512 else base v)" by auto
  moreover have "\<forall>v\<in>set us. main_up v \<and> (base(u := main_addr u + 512)) v = main_addr v"
    using Cons.prems(2,3) by auto
  ultimately show ?case using Cons.IH [OF s1(2)] Cons.prems(3,4) s1(1) by simp
qed simp

text \<open>The program is set up without a failure, and the event loop starts in its invariant.\<close>

lemma setup_ok:
  assumes m: "ok m" "pend m = {#}"
  shows "\<exists>s. main_setup ms m j = ret s \<and> run_ok main_base s \<and> cur_tick s = 0"
proof -
  obtain s n where s: "main_construct m j = ret s" "main_bind (arb s) (ports s) = ret n"
      "core_ok ok pend chan {#} (s\<lparr>ports := n\<rparr>)" "qhead s = None" "cur_tick s = 0"
      "\<forall>x. \<not> ev_scheduled (events s x)" "\<forall>u. up_addr (ups s u) = main_addr u"
    using main_construct_bind [where ok = ok and pend = pend and chan = chan and j = j, OF m] by blast
  let ?s = "s\<lparr>ports := n\<rparr>"
  have "eq_wf ?s" using s(4,6) by (intro eq_wf_empty) auto
  then obtain h p where h: "eq_schedule wrapper_ev 0 ?s = ret (?s\<lparr>events := h, qhead := p\<rparr>)"
      "eq_wf (?s\<lparr>events := h, qhead := p\<rparr>)" "\<forall>x. ev_scheduled (h x) \<longleftrightarrow> x = wrapper_ev"
      "ev_when (h wrapper_ev) = 0"
    using eq_schedule_wf [of ?s wrapper_ev 0] s(5,6) by auto
  let ?t = "?s\<lparr>events := h, qhead := p\<rparr>"
  have "wrapper_tickEvent ?s = wrapper_ev" using s(3) by (simp add: core_ok_def)
  then have init: "wrapper_init ?s = ret ?t" using h(1) s(5) by (simp add: wrapper_init_def)
  have "cb_ok main_addr ?t ?t"
    using s(3,5,7) h(2,3) ev_ids(3) [symmetric] by (auto simp: cb_ok_def queue_ok_def)
  from up_init_all [OF this, of "[0..main_num_upstreams - 1]" m] obtain s' where
    s': "for_run (up_init (rcv ms)) [0..main_num_upstreams - 1] ?t = ret s'"
      "cb_ok (\<lambda>u. if u \<in> set [0..main_num_upstreams - 1] then main_addr u + 512 else main_addr u) ?t s'"
    using m(1) by (auto simp: main_up_def)
  moreover have "(\<lambda>u. if u \<in> set [0..main_num_upstreams - 1] then main_addr u + 512 else main_addr u) = main_base"
    by (auto simp: main_base_def main_up_def)
  ultimately have cb: "cb_ok main_base ?t s'" by simp
  then have q: "queue_ok ?t s'" by (simp add: cb_ok_def)
  have "ev_when (events s' x) \<le> cur_tick s' + 1" if "ev_scheduled (events s' x)" for x
    using q that h(3,4) s(5) by (auto simp: queue_ok_def later_def)
  moreover have "ev_scheduled (events s' wrapper_ev)" "cur_tick s' = 0"
    using q h(3) s(5) by (auto simp: queue_ok_def later_def)
  moreover have "lines_ok main_base" using line_routed [OF m(1), of _ _ 512] by (simp add: lines_ok_def main_base_def)
  moreover have "cb_ok main_base s' s'" using cb by (simp add: cb_ok_def queue_ok_def)
  ultimately have "run_ok main_base s'" by (simp add: run_ok_def)
  then show ?thesis
    using s(1,2) init s'(1) \<open>cur_tick s' = 0\<close> by (simp add: main_setup_def main_init_def)
qed

text \<open>The whole program: it runs to its time limit and empties the queue.\<close>

lemma run_to_limit:
  assumes m: "ok m" "pend m = {#}"
  shows "\<exists>s. main_run ms m j = ret s \<and> cur_tick s = main_limit \<and> qhead s = None \<and> core_ok ok pend chan {#} s"
proof -
  obtain s where s: "main_setup ms m j = ret s" "run_ok main_base s" using setup_ok [OF m] by blast
  obtain s1 where s1: "simulate (sys_process ms) main_limit s = ret s1" "run_ok main_base s1" "eq_empty s1 \<or> main_limit \<le> cur_tick s1"
    using loop.simulate_total [OF s(2)] by blast
  have wf: "eq_wf s1" using s1(2) by (rule loop.inv_wf)
  then obtain xs where xs: "eq_list s1 xs" by (auto simp: eq_wf_def)
  have "wrapper_ev \<in> set xs" using s1(2) xs by (simp add: run_ok_def eq_list_scheduled)
  then have "\<not> eq_empty s1" using eq_list_head [OF xs] by (cases xs) (auto simp: eq_empty_def)
  then have "cur_tick s1 = main_limit" using s1(2,3) by (simp add: run_ok_def)
  moreover obtain h where "eq_destroy s1 = ret (s1\<lparr>events := h, qhead := None\<rparr>)" using eq_destroy_list [OF xs] by blast
  ultimately show ?thesis
    using s(1) s1(1,2) by (auto simp: main_run_def run_ok_def cb_ok_def)
qed

end

end
