(* ===== verification/DS_Common.thy ===== *)
theory DS_Common
  imports Cpp_Strings
begin

unbundle bit_operations_syntax

text \<open>
  The shared types of the memory model (\<open>DRAMsim3-master/src/common.h\<close>,
  \<open>common.cc\<close>): addresses, commands and transactions. A C \<open>int\<close> is an unbounded \<open>int\<close>
  here, clocks and physical addresses are 64-bit words.
\<close>

section \<open>Addresses\<close>

record Address =
  ad_channel :: int
  ad_rank :: int
  ad_bankgroup :: int
  ad_bank :: int
  ad_row :: int
  ad_column :: int

definition mk_Address :: "int \<Rightarrow> int \<Rightarrow> int \<Rightarrow> int \<Rightarrow> int \<Rightarrow> int \<Rightarrow> Address" where
  "mk_Address ch ra bg ba ro co =
     \<lparr>ad_channel = ch, ad_rank = ra, ad_bankgroup = bg, ad_bank = ba, ad_row = ro, ad_column = co\<rparr>"

definition no_Address :: Address where
  "no_Address = mk_Address (- 1) (- 1) (- 1) (- 1) (- 1) (- 1)"

definition ModuloWidth :: "64 word \<Rightarrow> nat \<Rightarrow> nat \<Rightarrow> 32 word" where
  "ModuloWidth addr bit_width pos =
     (let store = drop_bit pos addr
      in ucast (store XOR push_bit bit_width (drop_bit bit_width store)))"

definition GetBitInPos :: "64 word \<Rightarrow> nat \<Rightarrow> int" where
  "GetBitInPos bits pos = uint (drop_bit pos bits AND 1)"

function LogBase2_from :: "int \<Rightarrow> int \<Rightarrow> int" where
  "LogBase2_from i p = (if p > 1 then LogBase2_from (i + 1) (p div 2) else i)"
  by auto
termination by (relation "measure (\<lambda>(i, p). nat p)") auto

declare LogBase2_from.simps [simp del]

definition LogBase2 :: "int \<Rightarrow> int" where
  "LogBase2 p = LogBase2_from 0 p"

section \<open>Commands\<close>

datatype CommandType =
    READ | READ_PRECHARGE | WRITE | WRITE_PRECHARGE | ACTIVATE | PRECHARGE
  | REFRESH_BANK | REFRESH | SREF_ENTER | SREF_EXIT | CMD_SIZE

record Command =
  cmd_type :: CommandType
  cmd_addr :: Address
  hex_addr :: "64 word"

definition mk_Command :: "CommandType \<Rightarrow> Address \<Rightarrow> 64 word \<Rightarrow> Command" where
  "mk_Command t a h = \<lparr>cmd_type = t, cmd_addr = a, hex_addr = h\<rparr>"

definition no_Command :: Command where
  "no_Command = mk_Command CMD_SIZE no_Address 0"

definition IsValid :: "Command \<Rightarrow> bool" where "IsValid c \<longleftrightarrow> cmd_type c \<noteq> CMD_SIZE"
definition IsRefresh :: "Command \<Rightarrow> bool" where
  "IsRefresh c \<longleftrightarrow> cmd_type c = REFRESH \<or> cmd_type c = REFRESH_BANK"
definition IsReadC :: "Command \<Rightarrow> bool" where
  "IsReadC c \<longleftrightarrow> cmd_type c = READ \<or> cmd_type c = READ_PRECHARGE"
definition IsWriteC :: "Command \<Rightarrow> bool" where
  "IsWriteC c \<longleftrightarrow> cmd_type c = WRITE \<or> cmd_type c = WRITE_PRECHARGE"
definition IsReadWrite :: "Command \<Rightarrow> bool" where
  "IsReadWrite c \<longleftrightarrow> IsReadC c \<or> IsWriteC c"
definition IsRankCMD :: "Command \<Rightarrow> bool" where
  "IsRankCMD c \<longleftrightarrow> cmd_type c = REFRESH \<or> cmd_type c = SREF_ENTER \<or> cmd_type c = SREF_EXIT"

abbreviation c_Channel :: "Command \<Rightarrow> int" where "c_Channel c \<equiv> ad_channel (cmd_addr c)"
abbreviation c_Rank :: "Command \<Rightarrow> int" where "c_Rank c \<equiv> ad_rank (cmd_addr c)"
abbreviation c_Bankgroup :: "Command \<Rightarrow> int" where "c_Bankgroup c \<equiv> ad_bankgroup (cmd_addr c)"
abbreviation c_Bank :: "Command \<Rightarrow> int" where "c_Bank c \<equiv> ad_bank (cmd_addr c)"
abbreviation c_Row :: "Command \<Rightarrow> int" where "c_Row c \<equiv> ad_row (cmd_addr c)"
abbreviation c_Column :: "Command \<Rightarrow> int" where "c_Column c \<equiv> ad_column (cmd_addr c)"

lemmas command_defs = IsValid_def IsRefresh_def IsReadC_def IsWriteC_def IsReadWrite_def
  IsRankCMD_def

section \<open>Transactions\<close>

record Transaction =
  tr_addr :: "64 word"
  added_cycle :: "64 word"
  complete_cycle :: "64 word"
  tr_is_write :: bool

definition mk_Transaction :: "64 word \<Rightarrow> bool \<Rightarrow> Transaction" where
  "mk_Transaction a w = \<lparr>tr_addr = a, added_cycle = 0, complete_cycle = 0, tr_is_write = w\<rparr>"

text \<open>Reading a line of a trace, from its three tokens, into a transaction.\<close>

definition trace_transaction :: "64 word \<Rightarrow> string \<Rightarrow> 64 word \<Rightarrow> Transaction \<Rightarrow> Transaction" where
  "trace_transaction a op t tr =
     tr\<lparr>tr_addr := a, added_cycle := t,
        tr_is_write := (op \<in> set [''WRITE'', ''write'', ''P_MEM_WR'', ''BOFF''])\<rparr>"

text \<open>\<open>StringSplit\<close>: the non-empty pieces between delimiters.\<close>

function StringSplit :: "char \<Rightarrow> string \<Rightarrow> string list" where
  "StringSplit d s =
     (case s of
        [] \<Rightarrow> []
      | _ \<Rightarrow> (let item = takeWhile (\<lambda>c. c \<noteq> d) s; rest = StringSplit d (drop (Suc (length item)) s)
             in if item = [] then rest else item # rest))"
  by auto
termination by (relation "measure (\<lambda>(d, s). length s)") auto

declare StringSplit.simps [simp del]

section \<open>Facts\<close>

lemma LogBase2_from_shift: "LogBase2_from (i + j) p = i + LogBase2_from j p"
proof (induction j p rule: LogBase2_from.induct)
  case (1 j p)
  then show ?case
    by (subst (1 2) LogBase2_from.simps) (simp add: add.assoc)
qed

lemma LogBase2_step: "LogBase2 p = (if p > 1 then 1 + LogBase2 (p div 2) else 0)"
  unfolding LogBase2_def
  using LogBase2_from_shift [of 1 0 "p div 2"] by (subst LogBase2_from.simps) simp

text \<open>The integer part of the binary logarithm.\<close>

lemma LogBase2_bounds:
  assumes "1 \<le> p"
  shows "0 \<le> LogBase2 p \<and> 2 ^ nat (LogBase2 p) \<le> p \<and> p < 2 ^ Suc (nat (LogBase2 p))"
  using assms
proof (induction "nat p" arbitrary: p rule: less_induct)
  case less
  show ?case
  proof (cases "p > 1")
    case True
    have "nat (p div 2) < nat p" "1 \<le> p div 2" using True by auto
    from less.hyps [OF this] have h: "0 \<le> LogBase2 (p div 2)"
        "2 ^ nat (LogBase2 (p div 2)) \<le> p div 2" "p div 2 < 2 * 2 ^ nat (LogBase2 (p div 2))" by simp_all
    have "LogBase2 p = 1 + LogBase2 (p div 2)" using True by (subst LogBase2_step) simp
    moreover have "nat (1 + LogBase2 (p div 2)) = Suc (nat (LogBase2 (p div 2)))" using h(1) by simp
    ultimately show ?thesis using h by simp linarith
  next
    case False
    with less.prems have "p = 1" by simp
    then show ?thesis by (subst (1 2 3) LogBase2_step) simp
  qed
qed

lemma LogBase2_power: "LogBase2 (2 ^ k) = int k"
proof (induction k)
  case 0
  show ?case by (subst LogBase2_step) simp
next
  case (Suc k)
  have "(2 :: int) ^ Suc k > 1" by (rule one_less_power) simp_all
  then have "LogBase2 (2 ^ Suc k) = 1 + LogBase2 (2 ^ Suc k div 2)" by (subst LogBase2_step) simp
  with Suc show ?case by simp
qed

end
