(* ===== verification/DS_Config.thy ===== *)
theory DS_Config
  imports DS_Common
begin

unbundle bit_operations_syntax

text \<open>
  The configuration of the memory (\<open>DRAMsim3-master/src/configuration.h\<close>,
  \<open>configuration.cc\<close>): the parameters read from the ini file, the derived sizes and
  timings, and the address mapping. The reader of the file is a record of its three
  accessors, which \<open>Ini_Config\<close> takes from \<open>Ini_Reader\<close>. Floating-point members (clock period, energies) are
  in \<open>DS_Report\<close>.
\<close>

section \<open>The parameters\<close>

datatype DRAMProtocol =
  DDR3 | DDR4 | GDDR5 | GDDR5X | GDDR6 | LPDDR | LPDDR3 | LPDDR4 | HBM | HBM2 | HMC | PROTO_SIZE

datatype RefreshPolicy =
  RANK_LEVEL_SIMULTANEOUS | RANK_LEVEL_STAGGERED | BANK_LEVEL_STAGGERED | POLICY_SIZE

record Config =
  protocol :: DRAMProtocol
  channel_size :: int
  channels :: int
  ranks :: int
  banks :: int
  bankgroups :: int
  banks_per_group :: int
  rows :: int
  columns :: int
  device_width :: int
  bus_width :: int
  devices_per_rank :: int
  cfg_BL :: int
  shift_bits :: int
  ch_pos :: int
  ra_pos :: int
  bg_pos :: int
  ba_pos :: int
  ro_pos :: int
  co_pos :: int
  ch_mask :: "64 word"
  ra_mask :: "64 word"
  bg_mask :: "64 word"
  ba_mask :: "64 word"
  ro_mask :: "64 word"
  co_mask :: "64 word"
  burst_cycle :: int
  cfg_AL :: int
  cfg_CL :: int
  cfg_CWL :: int
  cfg_RL :: int
  cfg_WL :: int
  tCCD_L :: int
  tCCD_S :: int
  tRTRS :: int
  tRTP :: int
  tWTR_L :: int
  tWTR_S :: int
  tWR :: int
  tRP :: int
  tRRD_L :: int
  tRRD_S :: int
  tRAS :: int
  tRCD :: int
  tRFC :: int
  tRC :: int
  tCKE :: int
  tCKESR :: int
  tXS :: int
  tXP :: int
  tRFCb :: int
  tREFI :: int
  tREFIb :: int
  tFAW :: int
  tRPRE :: int
  tWPRE :: int
  read_delay :: int
  write_delay :: int
  tPPD :: int
  t32AW :: int
  tRCDRD :: int
  tRCDWR :: int
  num_links :: int
  num_dies :: int
  link_width :: int
  link_speed :: int
  block_size :: int
  xbar_queue_depth :: int
  address_mapping :: string
  queue_structure :: string
  row_buf_policy :: string
  refresh_policy :: RefreshPolicy
  cmd_queue_size :: int
  unified_queue :: bool
  trans_queue_size :: int
  write_buf_size :: int
  enable_self_refresh :: bool
  sref_threshold :: int
  aggressive_precharging_enabled :: bool
  enable_hbm_dual_cmd :: bool
  epoch_period :: int
  output_level :: int
  request_size_bytes :: int
  ideal_memory_latency :: int

definition IsGDDR :: "Config \<Rightarrow> bool" where
  "IsGDDR c \<longleftrightarrow> protocol c = GDDR5 \<or> protocol c = GDDR5X \<or> protocol c = GDDR6"
definition IsHBM :: "Config \<Rightarrow> bool" where
  "IsHBM c \<longleftrightarrow> protocol c = HBM \<or> protocol c = HBM2"
definition IsHMC :: "Config \<Rightarrow> bool" where
  "IsHMC c \<longleftrightarrow> protocol c = HMC"

section \<open>Reading the parameters\<close>

text \<open>\<open>GetInteger\<close> of the reader returns a \<open>long\<close>, which the program casts to \<open>int\<close>.\<close>

record INIReader =
  rd_Get :: "string \<Rightarrow> string \<Rightarrow> string \<Rightarrow> string"
  rd_GetInteger :: "string \<Rightarrow> string \<Rightarrow> int \<Rightarrow> int"
  rd_GetBoolean :: "string \<Rightarrow> string \<Rightarrow> bool \<Rightarrow> bool"

definition to_int32 :: "int \<Rightarrow> int" where
  "to_int32 i = sint (word_of_int i :: 32 word)"

definition cfg_GetInteger :: "INIReader \<Rightarrow> string \<Rightarrow> string \<Rightarrow> int \<Rightarrow> int" where
  "cfg_GetInteger r sec opt dflt = to_int32 (rd_GetInteger r sec opt dflt)"

definition GetDRAMProtocol :: "string \<Rightarrow> DRAMProtocol run" where
  "GetDRAMProtocol s =
     (case map_of [(''DDR3'', DDR3), (''DDR4'', DDR4), (''GDDR5'', GDDR5), (''GDDR5X'', GDDR5X),
                   (''GDDR6'', GDDR6), (''LPDDR'', LPDDR), (''LPDDR3'', LPDDR3),
                   (''LPDDR4'', LPDDR4), (''HBM'', HBM), (''HBM2'', HBM2), (''HMC'', HMC)] s of
        None \<Rightarrow> raise AbruptExit | Some p \<Rightarrow> ret p)"

text \<open>Integer division of C: towards zero, and an error for a zero divisor.\<close>

definition cdiv :: "int \<Rightarrow> int \<Rightarrow> int run" where
  "cdiv a b = (if b = 0 then raise DivideByZero else ret (sgn a * sgn b * (\<bar>a\<bar> div \<bar>b\<bar>)))"

definition ref_policy_of :: "string \<Rightarrow> RefreshPolicy run" where
  "ref_policy_of s =
     (if s = ''RANK_LEVEL_SIMULTANEOUS'' then ret RANK_LEVEL_SIMULTANEOUS
      else if s = ''RANK_LEVEL_STAGGERED'' then ret RANK_LEVEL_STAGGERED
      else if s = ''BANK_LEVEL_STAGGERED'' then ret BANK_LEVEL_STAGGERED
      else raise AbruptExit)"

definition InitSystemParams :: "INIReader \<Rightarrow> Config \<Rightarrow> Config run" where
  "InitSystemParams r c =
     run_bind (ref_policy_of (rd_Get r ''system'' ''refresh_policy'' ''RANK_LEVEL_STAGGERED'')) (\<lambda>rp.
     ret (c\<lparr>channel_size := cfg_GetInteger r ''system'' ''channel_size'' 1024,
            channels := cfg_GetInteger r ''system'' ''channels'' 1,
            bus_width := cfg_GetInteger r ''system'' ''bus_width'' 64,
            address_mapping := rd_Get r ''system'' ''address_mapping'' ''chrobabgraco'',
            queue_structure := rd_Get r ''system'' ''queue_structure'' ''PER_BANK'',
            row_buf_policy := rd_Get r ''system'' ''row_buf_policy'' ''OPEN_PAGE'',
            cmd_queue_size := cfg_GetInteger r ''system'' ''cmd_queue_size'' 16,
            trans_queue_size := cfg_GetInteger r ''system'' ''trans_queue_size'' 32,
            unified_queue := rd_GetBoolean r ''system'' ''unified_queue'' False,
            write_buf_size := cfg_GetInteger r ''system'' ''write_buf_size'' 16,
            refresh_policy := rp,
            enable_self_refresh := rd_GetBoolean r ''system'' ''enable_self_refresh'' False,
            sref_threshold := cfg_GetInteger r ''system'' ''sref_threshold'' 1000,
            aggressive_precharging_enabled :=
              rd_GetBoolean r ''system'' ''aggressive_precharging_enabled'' False\<rparr>))"

text \<open>The burst length and burst cycles of a protocol; a length of 0 stands for perfect bandwidth.\<close>

definition burst_of :: "Config \<Rightarrow> int \<Rightarrow> int \<times> int" where
  "burst_of c bl =
     (let half = (\<lambda>n. sgn bl * (\<bar>bl\<bar> div n))
      in if protocol c = GDDR5 then (if bl = 0 then 0 else half 4, if bl = 0 then 8 else bl)
         else if protocol c = GDDR5X then (if bl = 0 then 0 else half 8, if bl = 0 then 8 else bl)
         else if protocol c = GDDR6 then (if bl = 0 then 0 else half 16, if bl = 0 then 8 else bl)
         else (if bl = 0 then 0 else half 2, if bl = 0 then (if IsHBM c then 4 else 8) else bl))"

definition InitDRAMParams :: "INIReader \<Rightarrow> Config \<Rightarrow> Config run" where
  "InitDRAMParams r c =
     run_bind (GetDRAMProtocol (rd_Get r ''dram_structure'' ''protocol'' ''DDR3'')) (\<lambda>proto.
     let bg0 = cfg_GetInteger r ''dram_structure'' ''bankgroups'' 2;
         bpg0 = cfg_GetInteger r ''dram_structure'' ''banks_per_group'' 2;
         en = rd_GetBoolean r ''dram_structure'' ''bankgroup_enable'' True;
         bpg = (if en then bpg0 else bpg0 * bg0);
         bg = (if en then bg0 else 1);
         c1 = c\<lparr>protocol := proto, bankgroups := bg, banks_per_group := bpg, banks := bg * bpg,
                rows := cfg_GetInteger r ''dram_structure'' ''rows'' (2 ^ 16),
                columns := cfg_GetInteger r ''dram_structure'' ''columns'' (2 ^ 10),
                device_width := cfg_GetInteger r ''dram_structure'' ''device_width'' 8,
                num_dies := cfg_GetInteger r ''dram_structure'' ''num_dies'' 1,
                num_links := cfg_GetInteger r ''hmc'' ''num_links'' 4,
                link_width := cfg_GetInteger r ''hmc'' ''link_width'' 16,
                link_speed := cfg_GetInteger r ''hmc'' ''link_speed'' 15000,
                block_size := cfg_GetInteger r ''hmc'' ''block_size'' 64,
                xbar_queue_depth := cfg_GetInteger r ''hmc'' ''xbar_queue_depth'' 16\<rparr>;
         c2 = c1\<lparr>enable_hbm_dual_cmd :=
                   (rd_GetBoolean r ''dram_structure'' ''hbm_dual_cmd'' True \<and> IsHBM c1)\<rparr>
     in run_bind
          (if IsHMC c2 then cdiv (block_size c2 * 8) (device_width c2)
           else ret (cfg_GetInteger r ''dram_structure'' ''BL'' 8)) (\<lambda>bl.
        let (bc, bl') = burst_of c2 bl
        in ret (c2\<lparr>burst_cycle := bc, cfg_BL := bl',
                   columns := (if IsGDDR c2 then columns c2 * bl'
                               else if IsHBM c2 then columns c2 * 2 else columns c2)\<rparr>)))"

definition CalculateSize :: "Config \<Rightarrow> Config run" where
  "CalculateSize c =
     run_bind (cdiv (bus_width c) (device_width c)) (\<lambda>dpr.
     run_bind (cdiv (columns c * device_width c) 8) (\<lambda>page_size.
     run_bind (cdiv (rows c) 1024) (\<lambda>krows.
     run_bind (cdiv (page_size * krows) 1024) (\<lambda>megs_per_bank.
     let megs_per_rank = megs_per_bank * banks c * dpr
     in if megs_per_rank > channel_size c
        then ret (c\<lparr>devices_per_rank := dpr, ranks := 1, channel_size := megs_per_rank\<rparr>)
        else run_bind (cdiv (channel_size c) megs_per_rank) (\<lambda>n.
               ret (c\<lparr>devices_per_rank := dpr, ranks := n, channel_size := n * megs_per_rank\<rparr>))))))"

definition InitTimingParams :: "INIReader \<Rightarrow> Config \<Rightarrow> Config" where
  "InitTimingParams r c =
     (let g = cfg_GetInteger r ''timing'';
          c1 = c\<lparr>cfg_AL := g ''AL'' 0, cfg_CL := g ''CL'' 12, cfg_CWL := g ''CWL'' 12,
                 tCCD_L := g ''tCCD_L'' 6, tCCD_S := g ''tCCD_S'' 4, tRTRS := g ''tRTRS'' 2,
                 tRTP := g ''tRTP'' 5, tWTR_L := g ''tWTR_L'' 5, tWTR_S := g ''tWTR_S'' 5,
                 tWR := g ''tWR'' 10, tRP := g ''tRP'' 10, tRRD_L := g ''tRRD_L'' 4,
                 tRRD_S := g ''tRRD_S'' 4, tRAS := g ''tRAS'' 24, tRCD := g ''tRCD'' 10,
                 tRFC := g ''tRFC'' 74, tCKE := g ''tCKE'' 6, tCKESR := g ''tCKESR'' 12,
                 tXS := g ''tXS'' 432, tXP := g ''tXP'' 8, tRFCb := g ''tRFCb'' 20,
                 tREFI := g ''tREFI'' 7800, tREFIb := g ''tREFIb'' 1950, tFAW := g ''tFAW'' 50,
                 tRPRE := g ''tRPRE'' 1, tWPRE := g ''tWPRE'' 1, tPPD := g ''tPPD'' 0,
                 t32AW := g ''t32AW'' 330, tRCDRD := g ''tRCDRD'' 24, tRCDWR := g ''tRCDWR'' 20,
                 ideal_memory_latency := g ''ideal_memory_latency'' 10\<rparr>;
          c2 = c1\<lparr>tRC := tRAS c1 + tRP c1, cfg_RL := cfg_AL c1 + cfg_CL c1,
                  cfg_WL := cfg_AL c1 + cfg_CWL c1\<rparr>
      in c2\<lparr>read_delay := cfg_RL c2 + burst_cycle c2, write_delay := cfg_WL c2 + burst_cycle c2\<rparr>)"

definition InitOtherParams :: "INIReader \<Rightarrow> Config \<Rightarrow> Config" where
  "InitOtherParams r c =
     c\<lparr>epoch_period := cfg_GetInteger r ''other'' ''epoch_period'' 100000,
       output_level := to_int32 (rd_GetInteger r ''other'' ''output_level'' 1)\<rparr>"

section \<open>The address mapping\<close>

definition field_widths :: "Config \<Rightarrow> (string \<times> int) list" where
  "field_widths c =
     [(''ch'', LogBase2 (channels c)), (''ra'', LogBase2 (ranks c)), (''bg'', LogBase2 (bankgroups c)),
      (''ba'', LogBase2 (banks_per_group c)), (''ro'', LogBase2 (rows c)),
      (''co'', LogBase2 (columns c) - LogBase2 (cfg_BL c))]"

fun split_fields :: "string \<Rightarrow> string list" where
  "split_fields (a # b # cs) = [a, b] # split_fields cs"
| "split_fields _ = []"

text \<open>Positions are given out from the last field of the mapping string, the least significant.\<close>

fun field_positions ::
    "(string \<times> int) list \<Rightarrow> int \<Rightarrow> string list \<Rightarrow> (string \<Rightarrow> int option) \<Rightarrow> (string \<Rightarrow> int option) run" where
  "field_positions ws pos [] m = ret m"
| "field_positions ws pos (t # ts) m =
     (case map_of ws t of
        None \<Rightarrow> raise AbruptExit
      | Some w \<Rightarrow> field_positions ws (pos + w) ts (m(t := Some pos)))"

definition field_at :: "(string \<Rightarrow> int option) \<Rightarrow> string \<Rightarrow> int run" where
  "field_at m t = (case m t of None \<Rightarrow> raise OutOfBounds | Some p \<Rightarrow> ret p)"

definition width_mask :: "int \<Rightarrow> 64 word" where
  "width_mask w = word_of_int (2 ^ nat w - 1)"

definition SetAddressMapping :: "Config \<Rightarrow> Config run" where
  "SetAddressMapping c =
     run_bind (cdiv (bus_width c) 8) (\<lambda>bytes.
     let rsb = bytes * cfg_BL c; ws = field_widths c; w = (\<lambda>t. the (map_of ws t))
     in if length (address_mapping c) \<noteq> 12 then raise AbruptExit
        else run_bind (field_positions ws 0 (rev (split_fields (address_mapping c))) (\<lambda>_. None)) (\<lambda>m.
             run_bind (field_at m ''ch'') (\<lambda>ch. run_bind (field_at m ''ra'') (\<lambda>ra.
             run_bind (field_at m ''bg'') (\<lambda>bg. run_bind (field_at m ''ba'') (\<lambda>ba.
             run_bind (field_at m ''ro'') (\<lambda>ro. run_bind (field_at m ''co'') (\<lambda>co.
             ret (c\<lparr>request_size_bytes := rsb, shift_bits := LogBase2 rsb,
                    ch_pos := ch, ra_pos := ra, bg_pos := bg, ba_pos := ba, ro_pos := ro, co_pos := co,
                    ch_mask := width_mask (w ''ch''), ra_mask := width_mask (w ''ra''),
                    bg_mask := width_mask (w ''bg''), ba_mask := width_mask (w ''ba''),
                    ro_mask := width_mask (w ''ro''), co_mask := width_mask (w ''co'')\<rparr>)))))))))"

text \<open>A field of an address; the assignment to an \<open>int\<close> keeps 32 bits.\<close>

definition addr_field :: "64 word \<Rightarrow> int \<Rightarrow> 64 word \<Rightarrow> int" where
  "addr_field h pos msk = to_int32 (uint (drop_bit (nat pos) h AND msk))"

definition AddressMapping :: "Config \<Rightarrow> 64 word \<Rightarrow> Address" where
  "AddressMapping c hex =
     (let h = drop_bit (nat (shift_bits c)) hex
      in mk_Address (addr_field h (ch_pos c) (ch_mask c)) (addr_field h (ra_pos c) (ra_mask c))
           (addr_field h (bg_pos c) (bg_mask c)) (addr_field h (ba_pos c) (ba_mask c))
           (addr_field h (ro_pos c) (ro_mask c)) (addr_field h (co_pos c) (co_mask c)))"

text \<open>The constructor; the order of the steps matters because of their dependencies.\<close>

definition new_Config :: "INIReader \<Rightarrow> Config \<Rightarrow> Config run" where
  "new_Config r c0 =
     run_bind (InitSystemParams r c0) (\<lambda>c1.
     run_bind (InitDRAMParams r c1) (\<lambda>c2.
     run_bind (CalculateSize c2) (\<lambda>c3.
     run_bind (SetAddressMapping c3) (\<lambda>c4.
     ret (InitOtherParams r (InitTimingParams r c4))))))"

end
