(* ===== verification/DS_Timing.thy ===== *)
theory DS_Timing
  imports DS_Config
begin

text \<open>
  The command-to-command timing tables (\<open>DRAMsim3-master/src/timing.h\<close>, \<open>timing.cc\<close>):
  for each issued command, how long commands of each type have to wait on the same bank,
  on the other banks of the bank group, on the other bank groups of the rank, on the
  other ranks, and on the whole rank.
\<close>

type_synonym timing_list = "(CommandType \<times> int) list"

record Timing =
  same_bank :: "CommandType \<Rightarrow> timing_list"
  other_banks_same_bankgroup :: "CommandType \<Rightarrow> timing_list"
  other_bankgroups_same_rank :: "CommandType \<Rightarrow> timing_list"
  other_ranks :: "CommandType \<Rightarrow> timing_list"
  same_rank :: "CommandType \<Rightarrow> timing_list"

text \<open>The delays that the constructor computes before it fills the tables.\<close>

definition read_to_read_l :: "Config \<Rightarrow> int" where
  "read_to_read_l c = (if bankgroups c = 1 then max (burst_cycle c) (tCCD_S c) else max (burst_cycle c) (tCCD_L c))"
definition read_to_read_s :: "Config \<Rightarrow> int" where
  "read_to_read_s c = max (burst_cycle c) (tCCD_S c)"
definition read_to_read_o :: "Config \<Rightarrow> int" where
  "read_to_read_o c = burst_cycle c + tRTRS c"
definition read_to_write :: "Config \<Rightarrow> int" where
  "read_to_write c = cfg_RL c + burst_cycle c - cfg_WL c + tRTRS c"
definition read_to_write_o :: "Config \<Rightarrow> int" where
  "read_to_write_o c = read_delay c + burst_cycle c + tRTRS c - write_delay c"
definition read_to_precharge :: "Config \<Rightarrow> int" where
  "read_to_precharge c = cfg_AL c + tRTP c"
definition readp_to_act :: "Config \<Rightarrow> int" where
  "readp_to_act c = cfg_AL c + burst_cycle c + tRTP c + tRP c"
definition write_to_read_l :: "Config \<Rightarrow> int" where
  "write_to_read_l c = (if bankgroups c = 1 then write_delay c + tWTR_S c else write_delay c + tWTR_L c)"
definition write_to_read_s :: "Config \<Rightarrow> int" where
  "write_to_read_s c = write_delay c + tWTR_S c"
definition write_to_read_o :: "Config \<Rightarrow> int" where
  "write_to_read_o c = write_delay c + burst_cycle c + tRTRS c - read_delay c"
definition write_to_write_l :: "Config \<Rightarrow> int" where
  "write_to_write_l c = (if bankgroups c = 1 then max (burst_cycle c) (tCCD_S c) else max (burst_cycle c) (tCCD_L c))"
definition write_to_write_s :: "Config \<Rightarrow> int" where
  "write_to_write_s c = max (burst_cycle c) (tCCD_S c)"
definition write_to_write_o :: "Config \<Rightarrow> int" where
  "write_to_write_o c = burst_cycle c"
definition write_to_precharge :: "Config \<Rightarrow> int" where
  "write_to_precharge c = cfg_WL c + burst_cycle c + tWR c"
definition read_to_activate :: "Config \<Rightarrow> int" where
  "read_to_activate c = read_to_precharge c + tRP c"
definition write_to_activate :: "Config \<Rightarrow> int" where
  "write_to_activate c = write_to_precharge c + tRP c"
definition activate_to_activate_l :: "Config \<Rightarrow> int" where
  "activate_to_activate_l c = (if bankgroups c = 1 then tRRD_S c else tRRD_L c)"
definition activate_to_read :: "Config \<Rightarrow> int" where
  "activate_to_read c = (if IsGDDR c \<or> IsHBM c then tRCDRD c else tRCD c - cfg_AL c)"
definition activate_to_write :: "Config \<Rightarrow> int" where
  "activate_to_write c = (if IsGDDR c \<or> IsHBM c then tRCDWR c else tRCD c - cfg_AL c)"

lemmas delay_defs = read_to_read_l_def read_to_read_s_def read_to_read_o_def read_to_write_def
  read_to_write_o_def read_to_precharge_def readp_to_act_def write_to_read_l_def
  write_to_read_s_def write_to_read_o_def write_to_write_l_def write_to_write_s_def
  write_to_write_o_def write_to_precharge_def read_to_activate_def write_to_activate_def
  activate_to_activate_l_def activate_to_read_def activate_to_write_def

text \<open>A table entry for the four read and write commands.\<close>

definition rw_delays :: "int \<Rightarrow> int \<Rightarrow> timing_list" where
  "rw_delays r w = [(READ, r), (WRITE, w), (READ_PRECHARGE, r), (WRITE_PRECHARGE, w)]"

text \<open>The tables; a command without an entry has the empty list.\<close>

definition new_Timing :: "Config \<Rightarrow> Timing" where
  "new_Timing c =
     \<lparr>same_bank = (\<lambda>t. case t of
          READ \<Rightarrow> rw_delays (read_to_read_l c) (read_to_write c) @ [(PRECHARGE, read_to_precharge c)]
        | WRITE \<Rightarrow> rw_delays (write_to_read_l c) (write_to_write_l c) @ [(PRECHARGE, write_to_precharge c)]
        | READ_PRECHARGE \<Rightarrow> [(ACTIVATE, readp_to_act c), (REFRESH, read_to_activate c),
                             (REFRESH_BANK, read_to_activate c), (SREF_ENTER, read_to_activate c)]
        | WRITE_PRECHARGE \<Rightarrow> [(ACTIVATE, write_to_activate c), (REFRESH, write_to_activate c),
                              (REFRESH_BANK, write_to_activate c), (SREF_ENTER, write_to_activate c)]
        | ACTIVATE \<Rightarrow> [(ACTIVATE, tRC c), (READ, activate_to_read c), (WRITE, activate_to_write c),
                       (READ_PRECHARGE, activate_to_read c), (WRITE_PRECHARGE, activate_to_write c),
                       (PRECHARGE, tRAS c)]
        | PRECHARGE \<Rightarrow> [(ACTIVATE, tRP c), (REFRESH, tRP c), (REFRESH_BANK, tRP c), (SREF_ENTER, tRP c)]
        | _ \<Rightarrow> []),
      other_banks_same_bankgroup = (\<lambda>t. case t of
          READ \<Rightarrow> rw_delays (read_to_read_l c) (read_to_write c)
        | WRITE \<Rightarrow> rw_delays (write_to_read_l c) (write_to_write_l c)
        | READ_PRECHARGE \<Rightarrow> rw_delays (read_to_read_l c) (read_to_write c)
        | WRITE_PRECHARGE \<Rightarrow> rw_delays (write_to_read_l c) (write_to_write_l c)
        | ACTIVATE \<Rightarrow> [(ACTIVATE, activate_to_activate_l c), (REFRESH_BANK, tRC c)]
        | PRECHARGE \<Rightarrow> (if IsGDDR c \<or> protocol c = LPDDR4 then [(PRECHARGE, tPPD c)] else [])
        | REFRESH_BANK \<Rightarrow> [(ACTIVATE, tRFC c), (REFRESH_BANK, tREFI c)]
        | _ \<Rightarrow> []),
      other_bankgroups_same_rank = (\<lambda>t. case t of
          READ \<Rightarrow> rw_delays (read_to_read_s c) (read_to_write c)
        | WRITE \<Rightarrow> rw_delays (write_to_read_s c) (write_to_write_s c)
        | READ_PRECHARGE \<Rightarrow> rw_delays (read_to_read_s c) (read_to_write c)
        | WRITE_PRECHARGE \<Rightarrow> rw_delays (write_to_read_s c) (write_to_write_s c)
        | ACTIVATE \<Rightarrow> [(ACTIVATE, tRRD_S c), (REFRESH_BANK, tRC c)]
        | PRECHARGE \<Rightarrow> (if IsGDDR c \<or> protocol c = LPDDR4 then [(PRECHARGE, tPPD c)] else [])
        | REFRESH_BANK \<Rightarrow> [(ACTIVATE, tRFC c), (REFRESH_BANK, tREFI c)]
        | _ \<Rightarrow> []),
      other_ranks = (\<lambda>t. case t of
          READ \<Rightarrow> rw_delays (read_to_read_o c) (read_to_write_o c)
        | WRITE \<Rightarrow> rw_delays (write_to_read_o c) (write_to_write_o c)
        | READ_PRECHARGE \<Rightarrow> rw_delays (read_to_read_o c) (read_to_write_o c)
        | WRITE_PRECHARGE \<Rightarrow> rw_delays (write_to_read_o c) (write_to_write_o c)
        | _ \<Rightarrow> []),
      same_rank = (\<lambda>t. case t of
          REFRESH_BANK \<Rightarrow> [(ACTIVATE, tRFCb c), (REFRESH, tRFCb c), (REFRESH_BANK, tRFCb c), (SREF_ENTER, tRFCb c)]
        | REFRESH \<Rightarrow> [(ACTIVATE, tRFC c), (REFRESH, tRFC c), (SREF_ENTER, tRFC c)]
        | SREF_ENTER \<Rightarrow> [(SREF_EXIT, tCKESR c)]
        | SREF_EXIT \<Rightarrow> [(ACTIVATE, tXS c), (REFRESH, tXS c), (REFRESH_BANK, tXS c), (SREF_ENTER, tXS c)]
        | _ \<Rightarrow> [])\<rparr>"

end
