(* ===== verification/DS_Bank.thy ===== *)
theory DS_Bank
  imports DS_Timing
begin

text \<open>
  The state machine of one bank (\<open>DRAMsim3-master/src/bankstate.h\<close>, \<open>bankstate.cc\<close>):
  which command a request needs next, when it may issue, and what it does to the state.
  \<open>AbruptExit\<close> ends the program; here it is an error value.
\<close>

datatype bank_state = OPEN | CLOSED | SREF | PD | BS_SIZE

record BankState =
  bs_state :: bank_state
  cmd_timing :: "CommandType \<Rightarrow> 64 word"
  open_row :: int
  row_hit_count :: int

definition new_BankState :: BankState where
  "new_BankState = \<lparr>bs_state = CLOSED, cmd_timing = (\<lambda>_. 0), open_row = - 1, row_hit_count = 0\<rparr>"

definition bank_IsRowOpen :: "BankState \<Rightarrow> bool" where
  "bank_IsRowOpen b \<longleftrightarrow> bs_state b = OPEN"

text \<open>The command type a request needs next in the state of the bank.\<close>

definition required_type :: "BankState \<Rightarrow> Command \<Rightarrow> CommandType run" where
  "required_type b cmd =
     (case bs_state b of
        CLOSED \<Rightarrow>
          if IsReadWrite cmd then ret ACTIVATE
          else if cmd_type cmd \<in> set [REFRESH, REFRESH_BANK, SREF_ENTER] then ret (cmd_type cmd)
          else raise AbruptExit
      | OPEN \<Rightarrow>
          if IsReadWrite cmd then ret (if c_Row cmd = open_row b then cmd_type cmd else PRECHARGE)
          else if cmd_type cmd \<in> set [REFRESH, REFRESH_BANK, SREF_ENTER] then ret PRECHARGE
          else raise AbruptExit
      | SREF \<Rightarrow> if IsReadWrite cmd then ret SREF_EXIT else raise AbruptExit
      | _ \<Rightarrow> raise AbruptExit)"

definition bank_GetReadyCommand :: "BankState \<Rightarrow> Command \<Rightarrow> 64 word \<Rightarrow> Command run" where
  "bank_GetReadyCommand b cmd clk =
     run_bind (required_type b cmd) (\<lambda>t.
     ret (if t \<noteq> CMD_SIZE \<and> cmd_timing b t \<le> clk then mk_Command t (cmd_addr cmd) (hex_addr cmd)
          else no_Command))"

definition bank_UpdateState :: "Command \<Rightarrow> BankState \<Rightarrow> BankState run" where
  "bank_UpdateState cmd b =
     (case bs_state b of
        OPEN \<Rightarrow>
          (case cmd_type cmd of
             READ \<Rightarrow> ret (b\<lparr>row_hit_count := row_hit_count b + 1\<rparr>)
           | WRITE \<Rightarrow> ret (b\<lparr>row_hit_count := row_hit_count b + 1\<rparr>)
           | READ_PRECHARGE \<Rightarrow> ret (b\<lparr>bs_state := CLOSED, open_row := - 1, row_hit_count := 0\<rparr>)
           | WRITE_PRECHARGE \<Rightarrow> ret (b\<lparr>bs_state := CLOSED, open_row := - 1, row_hit_count := 0\<rparr>)
           | PRECHARGE \<Rightarrow> ret (b\<lparr>bs_state := CLOSED, open_row := - 1, row_hit_count := 0\<rparr>)
           | _ \<Rightarrow> raise AbruptExit)
      | CLOSED \<Rightarrow>
          (case cmd_type cmd of
             REFRESH \<Rightarrow> ret b
           | REFRESH_BANK \<Rightarrow> ret b
           | ACTIVATE \<Rightarrow> ret (b\<lparr>bs_state := OPEN, open_row := c_Row cmd\<rparr>)
           | SREF_ENTER \<Rightarrow> ret (b\<lparr>bs_state := SREF\<rparr>)
           | _ \<Rightarrow> raise AbruptExit)
      | SREF \<Rightarrow>
          (case cmd_type cmd of
             SREF_EXIT \<Rightarrow> ret (b\<lparr>bs_state := CLOSED\<rparr>)
           | _ \<Rightarrow> raise AbruptExit)
      | _ \<Rightarrow> raise AbruptExit)"

definition bank_UpdateTiming :: "CommandType \<Rightarrow> 64 word \<Rightarrow> BankState \<Rightarrow> BankState" where
  "bank_UpdateTiming t time b = b\<lparr>cmd_timing := (cmd_timing b)(t := max (cmd_timing b t) time)\<rparr>"

section \<open>The state machine is consistent\<close>

definition bank_ready :: "BankState \<Rightarrow> bool" where
  "bank_ready b \<longleftrightarrow> bs_state b = OPEN \<or> bs_state b = CLOSED"

definition bank_request :: "Command \<Rightarrow> bool" where
  "bank_request cmd \<longleftrightarrow> IsReadWrite cmd \<or> IsRefresh cmd"

text \<open>A bank that is not in self refresh answers every request and accepts its own answer.\<close>

lemma required_type_total:
  assumes "bank_ready b" "bank_request cmd"
  shows "\<exists>t. required_type b cmd = ret t \<and> t \<noteq> CMD_SIZE \<and> t \<noteq> SREF_ENTER \<and> t \<noteq> SREF_EXIT"
proof (cases "IsReadWrite cmd")
  case True
  then have "cmd_type cmd \<noteq> CMD_SIZE" "cmd_type cmd \<noteq> SREF_ENTER" "cmd_type cmd \<noteq> SREF_EXIT"
    by (auto simp: command_defs)
  with True assms(1) show ?thesis by (auto simp: bank_ready_def required_type_def)
next
  case False
  with assms(2) have "cmd_type cmd = REFRESH \<or> cmd_type cmd = REFRESH_BANK"
    by (simp add: bank_request_def IsRefresh_def)
  with False assms(1) show ?thesis by (auto simp: bank_ready_def required_type_def)
qed

lemma required_type_cases:
  assumes "bank_ready b" "bank_request cmd" "required_type b cmd = ret t"
  shows "t = ACTIVATE \<and> bs_state b = CLOSED \<and> IsReadWrite cmd \<or>
    t = PRECHARGE \<and> bs_state b = OPEN \<or>
    t = cmd_type cmd \<and> IsReadWrite cmd \<and> bs_state b = OPEN \<and> open_row b = c_Row cmd \<or>
    t = cmd_type cmd \<and> IsRefresh cmd \<and> bs_state b = CLOSED"
proof (cases "IsReadWrite cmd")
  case True
  with assms(1,3) show ?thesis by (auto simp: bank_ready_def required_type_def split: if_splits)
next
  case False
  with assms(2) have "IsRefresh cmd" "cmd_type cmd = REFRESH \<or> cmd_type cmd = REFRESH_BANK"
    by (simp_all add: bank_request_def IsRefresh_def)
  with False assms(1,3) show ?thesis by (auto simp: bank_ready_def required_type_def)
qed

lemma bank_ready_command:
  assumes "bank_ready b" "bank_request cmd"
  shows "\<exists>r. bank_GetReadyCommand b cmd clk = ret r \<and>
    (IsValid r \<longrightarrow> cmd_addr r = cmd_addr cmd \<and> hex_addr r = hex_addr cmd \<and>
       required_type b cmd = ret (cmd_type r) \<and> cmd_timing b (cmd_type r) \<le> clk)"
proof -
  obtain t where "required_type b cmd = ret t" "t \<noteq> CMD_SIZE" using required_type_total [OF assms] by blast
  then show ?thesis by (auto simp: bank_GetReadyCommand_def IsValid_def mk_Command_def no_Command_def)
qed

text \<open>A command in the type the state requires is accepted and leaves self refresh alone.\<close>

lemma bank_update_accepts:
  assumes "bank_ready b" "bank_request cmd" "required_type b cmd = ret (cmd_type r)"
  shows "\<exists>b'. bank_UpdateState r b = ret b' \<and> bank_ready b' \<and> cmd_timing b' = cmd_timing b"
  using required_type_cases [OF assms]
proof (elim disjE conjE)
  assume "cmd_type r = cmd_type cmd" "IsReadWrite cmd" "bs_state b = OPEN"
  then show ?thesis
    by (auto simp: bank_UpdateState_def bank_ready_def IsReadWrite_def IsReadC_def IsWriteC_def)
next
  assume "cmd_type r = cmd_type cmd" "IsRefresh cmd" "bs_state b = CLOSED"
  then show ?thesis by (auto simp: bank_UpdateState_def bank_ready_def IsRefresh_def)
qed (auto simp: bank_UpdateState_def bank_ready_def)

text \<open>A read or write is served by at most a precharge and an activation before it.\<close>

fun bank_serve :: "nat \<Rightarrow> Command \<Rightarrow> BankState \<Rightarrow> CommandType list run" where
  "bank_serve 0 cmd b = ret []"
| "bank_serve (Suc n) cmd b =
     run_bind (required_type b cmd) (\<lambda>t.
       if t = cmd_type cmd then ret [t]
       else run_bind (bank_UpdateState (mk_Command t (cmd_addr cmd) (hex_addr cmd)) b) (\<lambda>b'.
            run_bind (bank_serve n cmd b') (\<lambda>ts. ret (t # ts))))"

lemma bank_serves_within_three:
  assumes "bank_ready b" "IsReadWrite cmd"
  shows "\<exists>ts. bank_serve 3 cmd b = ret (ts @ [cmd_type cmd]) \<and>
    ts \<in> {[], [ACTIVATE], [PRECHARGE, ACTIVATE]}"
proof -
  note d = required_type_def bank_UpdateState_def mk_Command_def
  have rw: "cmd_type cmd \<noteq> ACTIVATE" "cmd_type cmd \<noteq> PRECHARGE" using assms(2) by (auto simp: command_defs)
  have n: "(3 :: nat) = Suc (Suc (Suc 0))" by simp
  consider "bs_state b = CLOSED" | "bs_state b = OPEN" "open_row b = c_Row cmd"
    | "bs_state b = OPEN" "open_row b \<noteq> c_Row cmd"
    using assms(1) by (auto simp: bank_ready_def)
  then show ?thesis
    unfolding n by cases (use assms(2) rw in \<open>auto simp: d\<close>)
qed

text \<open>Leaving self refresh by the controller's own command is not handled.\<close>

lemma sref_exit_aborts:
  "bs_state b = SREF \<Longrightarrow> cmd_type cmd = SREF_EXIT \<Longrightarrow> bank_GetReadyCommand b cmd clk = raise AbruptExit"
  by (simp add: bank_GetReadyCommand_def required_type_def command_defs)

lemma bank_UpdateTiming_simps [simp]:
  "bs_state (bank_UpdateTiming t v b) = bs_state b" "open_row (bank_UpdateTiming t v b) = open_row b"
  "row_hit_count (bank_UpdateTiming t v b) = row_hit_count b"
  "bank_ready (bank_UpdateTiming t v b) = bank_ready b"
  by (simp_all add: bank_UpdateTiming_def bank_ready_def)

lemma bank_UpdateTiming_mono: "cmd_timing b u \<le> cmd_timing (bank_UpdateTiming t v b) u"
  by (simp add: bank_UpdateTiming_def)

lemma bank_UpdateTiming_reaches: "v \<le> cmd_timing (bank_UpdateTiming t v b) t"
  by (simp add: bank_UpdateTiming_def)

end
