(* ===== verification/DS_Stats.thy ===== *)
theory DS_Stats
  imports DS_Config
begin

text \<open>
  The integer statistics of a channel (\<open>DRAMsim3-master/src/simple_stats.h\<close>,
  \<open>simple_stats.cc\<close>): the counters of the running epoch and of the whole run, and the
  latency histograms. Energies, averages and the printing are in \<open>DS_Report\<close>. The order of
  an \<open>unordered_map\<close> is unspecified; here a histogram is the list of its entries in the
  order in which they were made.
\<close>

type_synonym HistoCount = "(int \<times> 64 word) list"

record SimpleStats =
  counters :: "string \<Rightarrow> 64 word"
  epoch_counters :: "string \<Rightarrow> 64 word"
  vec_counters :: "string \<Rightarrow> int \<Rightarrow> 64 word"
  epoch_vec_counters :: "string \<Rightarrow> int \<Rightarrow> 64 word"
  histo_counts :: "string \<Rightarrow> HistoCount"
  epoch_histo_counts :: "string \<Rightarrow> HistoCount"
  histo_bounds :: "string \<Rightarrow> int \<times> int"
  bin_widths :: "string \<Rightarrow> int"
  histo_bins :: "string \<Rightarrow> 64 word list"
  epoch_histo_bins :: "string \<Rightarrow> 64 word list"

definition InitHistoStat :: "string \<Rightarrow> int \<Rightarrow> int \<Rightarrow> nat \<Rightarrow> SimpleStats \<Rightarrow> SimpleStats" where
  "InitHistoStat name start_val end_val num_bins st =
     st\<lparr>bin_widths := (bin_widths st)(name := (end_val - start_val) div int num_bins),
        histo_bounds := (histo_bounds st)(name := (start_val, end_val)),
        histo_counts := (histo_counts st)(name := []),
        epoch_histo_counts := (epoch_histo_counts st)(name := []),
        histo_bins := (histo_bins st)(name := replicate (num_bins + 2) 0),
        epoch_histo_bins := (epoch_histo_bins st)(name := replicate (num_bins + 2) 0)\<rparr>"

definition new_SimpleStats :: SimpleStats where
  "new_SimpleStats =
     InitHistoStat ''interarrival_latency'' 0 100 10
       (InitHistoStat ''write_latency'' 0 200 10
         (InitHistoStat ''read_latency'' 0 200 10
           \<lparr>counters = (\<lambda>_. 0), epoch_counters = (\<lambda>_. 0), vec_counters = (\<lambda>_ _. 0),
            epoch_vec_counters = (\<lambda>_ _. 0), histo_counts = (\<lambda>_. []), epoch_histo_counts = (\<lambda>_. []),
            histo_bounds = (\<lambda>_. (0, 0)), bin_widths = (\<lambda>_. 0), histo_bins = (\<lambda>_. []),
            epoch_histo_bins = (\<lambda>_. [])\<rparr>))"

definition Increment :: "string \<Rightarrow> SimpleStats \<Rightarrow> SimpleStats" where
  "Increment name st = st\<lparr>epoch_counters := (epoch_counters st)(name := epoch_counters st name + 1)\<rparr>"

definition IncrementVecBy :: "string \<Rightarrow> int \<Rightarrow> int \<Rightarrow> SimpleStats \<Rightarrow> SimpleStats" where
  "IncrementVecBy name pos num st =
     st\<lparr>epoch_vec_counters := (epoch_vec_counters st)(name :=
          (epoch_vec_counters st name)(pos := epoch_vec_counters st name pos + of_int num))\<rparr>"

definition IncrementVec :: "string \<Rightarrow> int \<Rightarrow> SimpleStats \<Rightarrow> SimpleStats" where
  "IncrementVec name pos st =
     st\<lparr>epoch_vec_counters := (epoch_vec_counters st)(name :=
          (epoch_vec_counters st name)(pos := epoch_vec_counters st name pos + 1))\<rparr>"

text \<open>\<open>counts[value] += n\<close>, with a new entry when there is none.\<close>

fun histo_add :: "int \<Rightarrow> 64 word \<Rightarrow> HistoCount \<Rightarrow> HistoCount" where
  "histo_add v n [] = [(v, n)]"
| "histo_add v n ((w, m) # h) = (if w = v then (w, m + n) # h else (w, m) # histo_add v n h)"

text \<open>The value is passed as an \<open>int\<close>, so that a 64-bit latency is cut to 32 bits.\<close>

definition AddValue :: "string \<Rightarrow> 64 word \<Rightarrow> SimpleStats \<Rightarrow> SimpleStats" where
  "AddValue name v st =
     st\<lparr>epoch_histo_counts := (epoch_histo_counts st)(name :=
          histo_add (to_int32 (uint v)) 1 (epoch_histo_counts st name))\<rparr>"

definition UpdateCounters :: "SimpleStats \<Rightarrow> SimpleStats" where
  "UpdateCounters st =
     st\<lparr>counters := (\<lambda>n. counters st n + epoch_counters st n),
        vec_counters := (\<lambda>n i. vec_counters st n i + epoch_vec_counters st n i)\<rparr>"

text \<open>The bin of a value: one below the range, one above it, equal widths between.\<close>

definition bin_index :: "int \<times> int \<Rightarrow> int \<Rightarrow> nat \<Rightarrow> int \<Rightarrow> nat" where
  "bin_index bounds width nbins v =
     (if v < fst bounds then 0
      else if v > snd bounds then nbins - 1
      else nat ((v - fst bounds) div width + 1))"

definition fill_bins :: "int \<times> int \<Rightarrow> int \<Rightarrow> HistoCount \<Rightarrow> 64 word list \<Rightarrow> 64 word list" where
  "fill_bins bounds width counts bins =
     fold (\<lambda>(v, n) b. let i = bin_index bounds width (length b) v in b[i := b ! i + n])
       counts (replicate (length bins) 0)"

definition UpdateHistoBins :: "SimpleStats \<Rightarrow> SimpleStats" where
  "UpdateHistoBins st =
     (let eb = (\<lambda>n. fill_bins (histo_bounds st n) (bin_widths st n) (epoch_histo_counts st n) (epoch_histo_bins st n))
      in st\<lparr>epoch_histo_bins := eb,
            histo_counts := (\<lambda>n. fold (\<lambda>(v, c). histo_add v c) (epoch_histo_counts st n) (histo_counts st n)),
            histo_bins := (\<lambda>n. map2 (+) (histo_bins st n) (eb n))\<rparr>)"

text \<open>The end of an epoch: totals are updated and the epoch starts again from zero.\<close>

definition UpdateEpochStats :: "SimpleStats \<Rightarrow> SimpleStats" where
  "UpdateEpochStats st =
     (UpdateHistoBins (UpdateCounters st))
       \<lparr>epoch_counters := (\<lambda>_. 0), epoch_vec_counters := (\<lambda>_ _. 0), epoch_histo_counts := (\<lambda>_. [])\<rparr>"

text \<open>The end of the run: the same update, but the epoch is not cleared.\<close>

definition UpdateFinalStats :: "SimpleStats \<Rightarrow> SimpleStats" where
  "UpdateFinalStats st = UpdateHistoBins (UpdateCounters st)"

definition stats_Reset :: "SimpleStats \<Rightarrow> SimpleStats" where
  "stats_Reset st =
     st\<lparr>counters := (\<lambda>_. 0), epoch_counters := (\<lambda>_. 0), vec_counters := (\<lambda>_ _. 0),
        epoch_vec_counters := (\<lambda>_ _. 0), histo_counts := (\<lambda>_. []), epoch_histo_counts := (\<lambda>_. [])\<rparr>"

section \<open>Histograms lose no sample\<close>

definition histo_total :: "HistoCount \<Rightarrow> 64 word" where
  "histo_total h = (\<Sum>(v, n)\<leftarrow>h. n)"

lemma histo_total_simps [simp]:
  "histo_total [] = 0" "histo_total ((v, n) # h) = n + histo_total h"
  by (simp_all add: histo_total_def)

lemma histo_total_add [simp]: "histo_total (histo_add v n h) = histo_total h + n"
  by (induction v n h rule: histo_add.induct) (auto simp: algebra_simps)

lemma histo_total_merge: "histo_total (fold (\<lambda>(v, c). histo_add v c) g h) = histo_total h + histo_total g"
  by (induction g arbitrary: h) (auto simp: algebra_simps)

lemma sum_list_update_add:
  "i < length b \<Longrightarrow> sum_list (b[i := b ! i + n]) = sum_list b + (n :: 64 word)"
  by (induction b arbitrary: i) (auto simp: algebra_simps split: nat.splits)

lemma bin_index_range:
  assumes "0 < w" "fst bd \<le> snd bd" "snd bd - fst bd \<le> w * int m" "nb = m + 2"
  shows "bin_index bd w nb v < nb"
proof -
  have "(v - fst bd) div w + 1 < int nb" if "v \<le> snd bd"
  proof -
    have "v - fst bd \<le> w * int m" using that assms(3) by linarith
    then have "(v - fst bd) div w \<le> (w * int m) div w" using assms(1) by (intro zdiv_mono1) auto
    then show ?thesis using assms(1,4) by simp
  qed
  then show ?thesis using assms(4) by (auto simp: bin_index_def not_less)
qed

lemma fill_bins_total:
  assumes "0 < w" "fst bd \<le> snd bd" "snd bd - fst bd \<le> w * int m" "length bins = m + 2"
  shows "sum_list (fill_bins bd w h bins) = histo_total h \<and> length (fill_bins bd w h bins) = length bins"
proof -
  let ?f = "\<lambda>(v, n) b. let i = bin_index bd w (length b) v in b[i := b ! i + (n :: 64 word)]"
  have "sum_list (fold ?f h b) = sum_list b + histo_total h \<and> length (fold ?f h b) = m + 2"
    if "length b = m + 2" for b
    using that
  proof (induction h arbitrary: b)
    case (Cons vn h)
    obtain v n where vn: "vn = (v, n)" by (cases vn)
    have "bin_index bd w (length b) v < length b" using bin_index_range [OF assms(1-3) Cons.prems] .
    then have "sum_list (?f (v, n) b) = sum_list b + n" by (simp add: Let_def sum_list_update_add)
    moreover have "length (?f (v, n) b) = m + 2" using Cons.prems by (simp add: Let_def)
    ultimately show ?case using Cons.IH [of "?f (v, n) b"] by (simp add: vn algebra_simps)
  qed simp
  from this [of "replicate (length bins) 0"] show ?thesis using assms(4) by (simp add: fill_bins_def sum_list_replicate)
qed

text \<open>The histograms of a run stay those that the constructor made.\<close>

definition histo_ok :: "SimpleStats \<Rightarrow> string \<Rightarrow> bool" where
  "histo_ok st n \<longleftrightarrow>
     0 < bin_widths st n \<and> fst (histo_bounds st n) \<le> snd (histo_bounds st n) \<and>
     (\<exists>m. snd (histo_bounds st n) - fst (histo_bounds st n) \<le> bin_widths st n * int m \<and>
        length (epoch_histo_bins st n) = m + 2 \<and> length (histo_bins st n) = m + 2)"

lemma histo_ok_new: "n \<in> {''read_latency'', ''write_latency'', ''interarrival_latency''} \<Longrightarrow> histo_ok new_SimpleStats n"
  unfolding histo_ok_def
  by (auto simp: new_SimpleStats_def InitHistoStat_def intro!: exI [of _ 10])

lemma sum_list_map2_add:
  "length xs = length ys \<Longrightarrow> sum_list (map2 (+) xs ys) = sum_list xs + (sum_list ys :: 64 word)"
  by (induction xs ys rule: list_induct2) (auto simp: algebra_simps)

lemma UpdateEpochStats_total:
  assumes "histo_ok st n"
  shows "sum_list (histo_bins (UpdateEpochStats st) n) = sum_list (histo_bins st n) + histo_total (epoch_histo_counts st n)"
    "histo_total (histo_counts (UpdateEpochStats st) n) = histo_total (histo_counts st n) + histo_total (epoch_histo_counts st n)"
    "epoch_histo_counts (UpdateEpochStats st) n = []"
    "counters (UpdateEpochStats st) c = counters st c + epoch_counters st c"
    "epoch_counters (UpdateEpochStats st) c = 0" "histo_ok (UpdateEpochStats st) n"
proof -
  obtain m where m: "0 < bin_widths st n" "fst (histo_bounds st n) \<le> snd (histo_bounds st n)"
      "snd (histo_bounds st n) - fst (histo_bounds st n) \<le> bin_widths st n * int m"
      "length (epoch_histo_bins st n) = m + 2" "length (histo_bins st n) = m + 2"
    using assms by (auto simp: histo_ok_def)
  note f = fill_bins_total [OF m(1-4), of "epoch_histo_counts st n"]
  show "sum_list (histo_bins (UpdateEpochStats st) n) = sum_list (histo_bins st n) + histo_total (epoch_histo_counts st n)"
    using f m by (simp add: UpdateEpochStats_def UpdateHistoBins_def UpdateCounters_def Let_def sum_list_map2_add)
  show "histo_ok (UpdateEpochStats st) n"
    using f m by (auto simp: histo_ok_def UpdateEpochStats_def UpdateHistoBins_def UpdateCounters_def Let_def)
qed (simp_all add: UpdateEpochStats_def UpdateHistoBins_def UpdateCounters_def Let_def histo_total_merge)

end
