(* ===== verification/DS_Channel.thy ===== *)
theory DS_Channel
  imports DS_Bank DS_Stats
begin

text \<open>
  The state of the banks behind a channel (\<open>DRAMsim3-master/src/channel_state.h\<close>,
  \<open>channel_state.cc\<close>) and the refresh counter (\<open>refresh.h\<close>, \<open>refresh.cc\<close>). The nested
  vector of banks is a function of rank, bank group and bank; \<open>cs_in\<close> are its bounds, and
  the entry points that index it check them. The configuration and the timing tables,
  which the C++ objects hold by reference, are parameters.
\<close>

section \<open>State\<close>

record ChannelState =
  rank_idle_cycles :: "int \<Rightarrow> int"
  rank_is_sref :: "int \<Rightarrow> bool"
  bank_states :: "int \<Rightarrow> int \<Rightarrow> int \<Rightarrow> BankState"
  refresh_q :: "Command list"
  four_aw :: "int \<Rightarrow> 64 word list"
  thirty_two_aw :: "int \<Rightarrow> 64 word list"

definition new_ChannelState :: ChannelState where
  "new_ChannelState =
     \<lparr>rank_idle_cycles = (\<lambda>_. 0), rank_is_sref = (\<lambda>_. False), bank_states = (\<lambda>_ _ _. new_BankState),
      refresh_q = [], four_aw = (\<lambda>_. []), thirty_two_aw = (\<lambda>_. [])\<rparr>"

definition cs_rank_in :: "Config \<Rightarrow> int \<Rightarrow> bool" where
  "cs_rank_in cfg r \<longleftrightarrow> 0 \<le> r \<and> r < ranks cfg"

definition cs_in :: "Config \<Rightarrow> int \<Rightarrow> int \<Rightarrow> int \<Rightarrow> bool" where
  "cs_in cfg r g k \<longleftrightarrow> cs_rank_in cfg r \<and> 0 \<le> g \<and> g < bankgroups cfg \<and> 0 \<le> k \<and> k < banks_per_group cfg"

text \<open>The banks of a rank in the order of the loops over them.\<close>

definition rank_banks :: "Config \<Rightarrow> (int \<times> int) list" where
  "rank_banks cfg = [(j, k). j \<leftarrow> [0..bankgroups cfg - 1], k \<leftarrow> [0..banks_per_group cfg - 1]]"

definition upd_bank :: "int \<Rightarrow> int \<Rightarrow> int \<Rightarrow> BankState \<Rightarrow> ChannelState \<Rightarrow> ChannelState" where
  "upd_bank r g k b cs =
     cs\<lparr>bank_states := (bank_states cs)(r := (bank_states cs r)(g := (bank_states cs r g)(k := b)))\<rparr>"

section \<open>Queries\<close>

definition cs_IsRowOpen :: "ChannelState \<Rightarrow> int \<Rightarrow> int \<Rightarrow> int \<Rightarrow> bool" where
  "cs_IsRowOpen cs r g k \<longleftrightarrow> bank_IsRowOpen (bank_states cs r g k)"
definition cs_OpenRow :: "ChannelState \<Rightarrow> int \<Rightarrow> int \<Rightarrow> int \<Rightarrow> int" where
  "cs_OpenRow cs r g k = open_row (bank_states cs r g k)"
definition cs_RowHitCount :: "ChannelState \<Rightarrow> int \<Rightarrow> int \<Rightarrow> int \<Rightarrow> int" where
  "cs_RowHitCount cs r g k = row_hit_count (bank_states cs r g k)"
definition IsRefreshWaiting :: "ChannelState \<Rightarrow> bool" where
  "IsRefreshWaiting cs \<longleftrightarrow> refresh_q cs \<noteq> []"

definition IsAllBankIdleInRank :: "Config \<Rightarrow> ChannelState \<Rightarrow> int \<Rightarrow> bool" where
  "IsAllBankIdleInRank cfg cs r \<longleftrightarrow> (\<forall>(j, k)\<in>set (rank_banks cfg). \<not> cs_IsRowOpen cs r j k)"

definition IsRWPendingOnRef :: "ChannelState \<Rightarrow> Command \<Rightarrow> bool" where
  "IsRWPendingOnRef cs cmd \<longleftrightarrow>
     cs_IsRowOpen cs (c_Rank cmd) (c_Bankgroup cmd) (c_Bank cmd) \<and>
     cs_RowHitCount cs (c_Rank cmd) (c_Bankgroup cmd) (c_Bank cmd) = 0 \<and>
     cs_OpenRow cs (c_Rank cmd) (c_Bankgroup cmd) (c_Bank cmd) = c_Row cmd"

section \<open>The refresh queue\<close>

fun remove_first :: "('a \<Rightarrow> bool) \<Rightarrow> 'a list \<Rightarrow> 'a list" where
  "remove_first P [] = []"
| "remove_first P (x # xs) = (if P x then xs else x # remove_first P xs)"

definition BankNeedRefresh :: "int \<Rightarrow> int \<Rightarrow> int \<Rightarrow> bool \<Rightarrow> ChannelState \<Rightarrow> ChannelState" where
  "BankNeedRefresh r g k need cs =
     (if need
      then cs\<lparr>refresh_q := refresh_q cs @ [mk_Command REFRESH_BANK (mk_Address (- 1) r g k (- 1) (- 1)) (- 1)]\<rparr>
      else cs\<lparr>refresh_q := remove_first (\<lambda>c. c_Rank c = r \<and> c_Bankgroup c = g \<and> c_Bank c = k) (refresh_q cs)\<rparr>)"

definition RankNeedRefresh :: "int \<Rightarrow> bool \<Rightarrow> ChannelState \<Rightarrow> ChannelState" where
  "RankNeedRefresh r need cs =
     (if need
      then cs\<lparr>refresh_q := refresh_q cs @ [mk_Command REFRESH (mk_Address (- 1) r (- 1) (- 1) (- 1) (- 1)) (- 1)]\<rparr>
      else cs\<lparr>refresh_q := remove_first (\<lambda>c. c_Rank c = r) (refresh_q cs)\<rparr>)"

section \<open>Activation windows\<close>

definition IsFAWReady :: "ChannelState \<Rightarrow> int \<Rightarrow> 64 word \<Rightarrow> bool" where
  "IsFAWReady cs r t \<longleftrightarrow> (case four_aw cs r of [] \<Rightarrow> True | w # ws \<Rightarrow> \<not> (t < w \<and> length (w # ws) \<ge> 4))"

definition Is32AWReady :: "ChannelState \<Rightarrow> int \<Rightarrow> 64 word \<Rightarrow> bool" where
  "Is32AWReady cs r t \<longleftrightarrow>
     (case thirty_two_aw cs r of [] \<Rightarrow> True | w # ws \<Rightarrow> \<not> (t < w \<and> length (w # ws) \<ge> 32))"

definition ActivationWindowOk :: "Config \<Rightarrow> ChannelState \<Rightarrow> int \<Rightarrow> 64 word \<Rightarrow> bool" where
  "ActivationWindowOk cfg cs r t \<longleftrightarrow>
     (if IsGDDR cfg then IsFAWReady cs r t \<and> Is32AWReady cs r t else IsFAWReady cs r t)"

text \<open>An expired head leaves the window, the new activation enters it.\<close>

definition push_window :: "64 word \<Rightarrow> 64 word \<Rightarrow> 64 word list \<Rightarrow> 64 word list" where
  "push_window t expiry ws =
     (case ws of [] \<Rightarrow> [] | w # ws' \<Rightarrow> if w \<le> t then ws' else w # ws') @ [expiry]"

definition UpdateActivationTimes :: "Config \<Rightarrow> int \<Rightarrow> 64 word \<Rightarrow> ChannelState \<Rightarrow> ChannelState" where
  "UpdateActivationTimes cfg r t cs =
     (let cs1 = cs\<lparr>four_aw := (four_aw cs)(r := push_window t (t + of_int (tFAW cfg)) (four_aw cs r))\<rparr>
      in if IsGDDR cfg
         then cs1\<lparr>thirty_two_aw := (thirty_two_aw cs1)(r := push_window t (t + of_int (t32AW cfg)) (thirty_two_aw cs1 r))\<rparr>
         else cs1)"

section \<open>The next command\<close>

text \<open>
  The loop over the banks of a rank: it ends at the first bank that needs another command
  (a precharge), and otherwise counts the banks that are ready and keeps the last answer.
\<close>

fun rank_scan ::
    "ChannelState \<Rightarrow> Command \<Rightarrow> 64 word \<Rightarrow> (int \<times> int) list \<Rightarrow> int \<Rightarrow> Command \<Rightarrow>
     (Command option \<times> int \<times> Command) run" where
  "rank_scan cs cmd clk [] n lst = ret (None, n, lst)"
| "rank_scan cs cmd clk ((j, k) # ps) n lst =
     run_bind (bank_GetReadyCommand (bank_states cs (c_Rank cmd) j k) cmd clk) (\<lambda>r.
       if \<not> IsValid r then rank_scan cs cmd clk ps n r
       else if cmd_type r \<noteq> cmd_type cmd
       then ret (Some (r\<lparr>cmd_addr := mk_Address (- 1) (c_Rank cmd) j k (- 1) (- 1)\<rparr>), n, r)
       else rank_scan cs cmd clk ps (n + 1) r)"

definition cs_GetReadyCommand :: "Config \<Rightarrow> ChannelState \<Rightarrow> Command \<Rightarrow> 64 word \<Rightarrow> Command run" where
  "cs_GetReadyCommand cfg cs cmd clk =
     (if IsRankCMD cmd
      then checked (cs_rank_in cfg (c_Rank cmd))
        (run_bind (rank_scan cs cmd clk (rank_banks cfg) 0 no_Command) (\<lambda>(early, n, lst).
           ret (case early of
                  Some c \<Rightarrow> c
                | None \<Rightarrow> if n = banks cfg then lst else no_Command)))
      else checked (cs_in cfg (c_Rank cmd) (c_Bankgroup cmd) (c_Bank cmd))
        (run_bind (bank_GetReadyCommand (bank_states cs (c_Rank cmd) (c_Bankgroup cmd) (c_Bank cmd)) cmd clk) (\<lambda>r.
           ret (if \<not> IsValid r then no_Command
                else if cmd_type r = ACTIVATE \<and> \<not> ActivationWindowOk cfg cs (c_Rank r) clk then no_Command
                else r))))"

section \<open>State and timing updates\<close>

definition cs_update_bank :: "Command \<Rightarrow> int \<Rightarrow> int \<times> int \<Rightarrow> ChannelState \<Rightarrow> ChannelState run" where
  "cs_update_bank cmd r jk cs =
     run_bind (bank_UpdateState cmd (bank_states cs r (fst jk) (snd jk)))
       (\<lambda>b. ret (upd_bank r (fst jk) (snd jk) b cs))"

definition cs_UpdateState :: "Config \<Rightarrow> Command \<Rightarrow> ChannelState \<Rightarrow> ChannelState run" where
  "cs_UpdateState cfg cmd cs =
     (let r = c_Rank cmd
      in if IsRankCMD cmd
         then checked (cs_rank_in cfg r)
           (run_bind (for_run (cs_update_bank cmd r) (rank_banks cfg) cs) (\<lambda>cs1.
              ret (if IsRefresh cmd then RankNeedRefresh r False cs1
                   else if cmd_type cmd = SREF_ENTER then cs1\<lparr>rank_is_sref := (rank_is_sref cs1)(r := True)\<rparr>
                   else if cmd_type cmd = SREF_EXIT then cs1\<lparr>rank_is_sref := (rank_is_sref cs1)(r := False)\<rparr>
                   else cs1)))
         else checked (cs_in cfg r (c_Bankgroup cmd) (c_Bank cmd))
           (run_bind (cs_update_bank cmd r (c_Bankgroup cmd, c_Bank cmd) cs) (\<lambda>cs1.
              ret (if IsRefresh cmd then BankNeedRefresh r (c_Bankgroup cmd) (c_Bank cmd) False cs1 else cs1))))"

text \<open>All delays of a list on one bank; a negative delay wraps as in the conversion to \<open>uint64_t\<close>.\<close>

definition apply_timings :: "timing_list \<Rightarrow> 64 word \<Rightarrow> BankState \<Rightarrow> BankState" where
  "apply_timings ts clk b = fold (\<lambda>(t, d). bank_UpdateTiming t (clk + of_int d)) ts b"

definition time_banks ::
    "(int \<Rightarrow> int \<Rightarrow> int \<Rightarrow> bool) \<Rightarrow> timing_list \<Rightarrow> 64 word \<Rightarrow> ChannelState \<Rightarrow> ChannelState" where
  "time_banks P ts clk cs =
     cs\<lparr>bank_states := (\<lambda>r g k. if P r g k then apply_timings ts clk (bank_states cs r g k) else bank_states cs r g k)\<rparr>"

definition UpdateSameBankTiming :: "Address \<Rightarrow> timing_list \<Rightarrow> 64 word \<Rightarrow> ChannelState \<Rightarrow> ChannelState" where
  "UpdateSameBankTiming a ts clk =
     time_banks (\<lambda>r g k. r = ad_rank a \<and> g = ad_bankgroup a \<and> k = ad_bank a) ts clk"

definition UpdateOtherBanksSameBankgroupTiming ::
    "Config \<Rightarrow> Address \<Rightarrow> timing_list \<Rightarrow> 64 word \<Rightarrow> ChannelState \<Rightarrow> ChannelState" where
  "UpdateOtherBanksSameBankgroupTiming cfg a ts clk =
     time_banks (\<lambda>r g k. r = ad_rank a \<and> g = ad_bankgroup a \<and> k \<noteq> ad_bank a \<and>
                         0 \<le> k \<and> k < banks_per_group cfg) ts clk"

definition UpdateOtherBankgroupsSameRankTiming ::
    "Config \<Rightarrow> Address \<Rightarrow> timing_list \<Rightarrow> 64 word \<Rightarrow> ChannelState \<Rightarrow> ChannelState" where
  "UpdateOtherBankgroupsSameRankTiming cfg a ts clk =
     time_banks (\<lambda>r g k. r = ad_rank a \<and> g \<noteq> ad_bankgroup a \<and> 0 \<le> g \<and> g < bankgroups cfg \<and>
                         0 \<le> k \<and> k < banks_per_group cfg) ts clk"

definition UpdateOtherRanksTiming ::
    "Config \<Rightarrow> Address \<Rightarrow> timing_list \<Rightarrow> 64 word \<Rightarrow> ChannelState \<Rightarrow> ChannelState" where
  "UpdateOtherRanksTiming cfg a ts clk =
     time_banks (\<lambda>r g k. r \<noteq> ad_rank a \<and> cs_in cfg r g k) ts clk"

definition UpdateSameRankTiming ::
    "Config \<Rightarrow> Address \<Rightarrow> timing_list \<Rightarrow> 64 word \<Rightarrow> ChannelState \<Rightarrow> ChannelState" where
  "UpdateSameRankTiming cfg a ts clk =
     time_banks (\<lambda>r g k. r = ad_rank a \<and> 0 \<le> g \<and> g < bankgroups cfg \<and> 0 \<le> k \<and> k < banks_per_group cfg) ts clk"

definition cs_UpdateTiming :: "Config \<Rightarrow> Timing \<Rightarrow> Command \<Rightarrow> 64 word \<Rightarrow> ChannelState \<Rightarrow> ChannelState run" where
  "cs_UpdateTiming cfg tm cmd clk cs =
     (let a = cmd_addr cmd; t = cmd_type cmd
      in if t \<in> set [ACTIVATE, READ, READ_PRECHARGE, WRITE, WRITE_PRECHARGE, PRECHARGE, REFRESH_BANK]
         then ret (UpdateOtherRanksTiming cfg a (other_ranks tm t) clk
               (UpdateOtherBankgroupsSameRankTiming cfg a (other_bankgroups_same_rank tm t) clk
                (UpdateOtherBanksSameBankgroupTiming cfg a (other_banks_same_bankgroup tm t) clk
                 (UpdateSameBankTiming a (same_bank tm t) clk
                  (if t = ACTIVATE then UpdateActivationTimes cfg (ad_rank a) clk cs else cs)))))
         else if t \<in> set [REFRESH, SREF_ENTER, SREF_EXIT]
         then ret (UpdateSameRankTiming cfg a (same_rank tm t) clk cs)
         else raise AbruptExit)"

definition UpdateTimingAndStates ::
    "Config \<Rightarrow> Timing \<Rightarrow> Command \<Rightarrow> 64 word \<Rightarrow> ChannelState \<Rightarrow> ChannelState run" where
  "UpdateTimingAndStates cfg tm cmd clk cs =
     run_bind (cs_UpdateState cfg cmd cs) (cs_UpdateTiming cfg tm cmd clk)"

section \<open>Refresh\<close>

record Refresh =
  rf_clk :: "64 word"
  refresh_interval :: int
  next_rank :: int
  next_bg :: int
  next_bank :: int

definition new_Refresh :: "Config \<Rightarrow> Refresh run" where
  "new_Refresh cfg =
     run_bind (if refresh_policy cfg = RANK_LEVEL_SIMULTANEOUS then ret (tREFI cfg)
               else if refresh_policy cfg = BANK_LEVEL_STAGGERED then ret (tREFIb cfg)
               else cdiv (tREFI cfg) (ranks cfg)) (\<lambda>n.
     ret \<lparr>rf_clk = 0, refresh_interval = n, next_rank = 0, next_bg = 0, next_bank = 0\<rparr>)"

definition IterateNext :: "Config \<Rightarrow> Refresh \<Rightarrow> Refresh run" where
  "IterateNext cfg rf =
     (if refresh_policy cfg = RANK_LEVEL_STAGGERED
      then ret (rf\<lparr>next_rank := (next_rank rf + 1) mod ranks cfg\<rparr>)
      else if refresh_policy cfg = BANK_LEVEL_STAGGERED
      then let g = (next_bg rf + 1) mod bankgroups cfg;
               k = (if g = 0 then (next_bank rf + 1) mod banks_per_group cfg else next_bank rf);
               r = (if g = 0 \<and> k = 0 then (next_rank rf + 1) mod ranks cfg else next_rank rf)
           in ret (rf\<lparr>next_bg := g, next_bank := k, next_rank := r\<rparr>)
      else raise AbruptExit)"

text \<open>The simultaneous policy leaves its loop after the first rank that is not in self refresh.\<close>

definition first_awake_rank :: "Config \<Rightarrow> ChannelState \<Rightarrow> int option" where
  "first_awake_rank cfg cs = List.find (\<lambda>i. \<not> rank_is_sref cs i) [0..ranks cfg - 1]"

definition InsertRefresh :: "Config \<Rightarrow> Refresh \<Rightarrow> ChannelState \<Rightarrow> (Refresh \<times> ChannelState) run" where
  "InsertRefresh cfg rf cs =
     (case refresh_policy cfg of
        RANK_LEVEL_SIMULTANEOUS \<Rightarrow>
          ret (rf, case first_awake_rank cfg cs of None \<Rightarrow> cs | Some i \<Rightarrow> RankNeedRefresh i True cs)
      | RANK_LEVEL_STAGGERED \<Rightarrow>
          (let cs1 = (if rank_is_sref cs (next_rank rf) then cs else RankNeedRefresh (next_rank rf) True cs)
           in run_bind (IterateNext cfg rf) (\<lambda>rf1. ret (rf1, cs1)))
      | BANK_LEVEL_STAGGERED \<Rightarrow>
          (let cs1 = (if rank_is_sref cs (next_rank rf) then cs
                      else BankNeedRefresh (next_rank rf) (next_bg rf) (next_bank rf) True cs)
           in run_bind (IterateNext cfg rf) (\<lambda>rf1. ret (rf1, cs1)))
      | POLICY_SIZE \<Rightarrow> raise AbruptExit)"

definition refresh_ClockTick :: "Config \<Rightarrow> Refresh \<Rightarrow> ChannelState \<Rightarrow> (Refresh \<times> ChannelState) run" where
  "refresh_ClockTick cfg rf cs =
     (let n = (of_int (refresh_interval rf) :: 64 word)
      in if n = 0 then raise DivideByZero
         else run_bind (if rf_clk rf mod n = 0 \<and> rf_clk rf > 0 then InsertRefresh cfg rf cs else ret (rf, cs))
                (\<lambda>(rf1, cs1). ret (rf1\<lparr>rf_clk := rf_clk rf1 + 1\<rparr>, cs1)))"

end
