(* ===== verification/DS_CmdQueue.thy ===== *)
theory DS_CmdQueue
  imports DS_Channel
begin

text \<open>
  The command queues of a controller (\<open>DRAMsim3-master/src/command_queue.h\<close>,
  \<open>command_queue.cc\<close>): one queue per bank or per rank, served in turn, with out-of-order
  issue inside a queue. The channel state is read through a parameter, the statistics are
  threaded through.
\<close>

section \<open>State\<close>

datatype QueueStructure = PER_RANK | PER_BANK | QS_SIZE

record CommandQueue =
  rank_q_empty :: "int \<Rightarrow> bool"
  q_structure :: QueueStructure
  queues :: "int \<Rightarrow> Command list"
  ref_q_indices :: "int \<Rightarrow> bool"
  is_in_ref :: bool
  num_queues :: int
  queue_size :: nat
  queue_idx :: int
  cq_clk :: "64 word"

definition new_CommandQueue :: "Config \<Rightarrow> CommandQueue run" where
  "new_CommandQueue cfg =
     (let q = \<lparr>rank_q_empty = (\<lambda>_. True), q_structure = QS_SIZE, queues = (\<lambda>_. []),
               ref_q_indices = (\<lambda>_. False), is_in_ref = False, num_queues = 0,
               queue_size = to_size_t (cmd_queue_size cfg), queue_idx = 0, cq_clk = 0\<rparr>
      in if queue_structure cfg = ''PER_BANK''
         then ret (q\<lparr>q_structure := PER_BANK, num_queues := banks cfg * ranks cfg\<rparr>)
         else if queue_structure cfg = ''PER_RANK''
         then ret (q\<lparr>q_structure := PER_RANK, num_queues := ranks cfg\<rparr>)
         else raise AbruptExit)"

section \<open>Which queue\<close>

definition GetQueueIndex :: "Config \<Rightarrow> CommandQueue \<Rightarrow> int \<Rightarrow> int \<Rightarrow> int \<Rightarrow> int" where
  "GetQueueIndex cfg q r g k =
     (if q_structure q = PER_RANK then r else r * banks cfg + g * banks_per_group cfg + k)"

definition queue_in :: "CommandQueue \<Rightarrow> int \<Rightarrow> bool" where
  "queue_in q i \<longleftrightarrow> 0 \<le> i \<and> i < num_queues q"

definition next_queue_idx :: "CommandQueue \<Rightarrow> int" where
  "next_queue_idx q = (if queue_idx q + 1 = num_queues q then 0 else queue_idx q + 1)"

definition upd_queue :: "int \<Rightarrow> Command list \<Rightarrow> CommandQueue \<Rightarrow> CommandQueue" where
  "upd_queue i cs q = q\<lparr>queues := (queues q)(i := cs)\<rparr>"

section \<open>Filling the queues\<close>

definition WillAcceptCommand :: "Config \<Rightarrow> CommandQueue \<Rightarrow> int \<Rightarrow> int \<Rightarrow> int \<Rightarrow> bool run" where
  "WillAcceptCommand cfg q r g k =
     (let i = GetQueueIndex cfg q r g k
      in checked (queue_in q i) (ret (length (queues q i) < queue_size q)))"

definition QueueEmpty :: "CommandQueue \<Rightarrow> bool" where
  "QueueEmpty q \<longleftrightarrow> (\<forall>i\<in>set [0..num_queues q - 1]. queues q i = [])"

definition cq_QueueUsage :: "CommandQueue \<Rightarrow> int" where
  "cq_QueueUsage q = (\<Sum>i\<leftarrow>[0..num_queues q - 1]. int (length (queues q i)))"

definition AddCommand :: "Config \<Rightarrow> Command \<Rightarrow> CommandQueue \<Rightarrow> (bool \<times> CommandQueue) run" where
  "AddCommand cfg cmd q =
     (let i = GetQueueIndex cfg q (c_Rank cmd) (c_Bankgroup cmd) (c_Bank cmd)
      in checked (queue_in q i)
           (if length (queues q i) < queue_size q
            then ret (True, (upd_queue i (queues q i @ [cmd]) q)
                              \<lparr>rank_q_empty := (rank_q_empty q)(c_Rank cmd := False)\<rparr>)
            else ret (False, q)))"

section \<open>The first ready command of a queue\<close>

definition same_bank_as :: "Command \<Rightarrow> Command \<Rightarrow> bool" where
  "same_bank_as a b \<longleftrightarrow> c_Rank a = c_Rank b \<and> c_Bankgroup a = c_Bankgroup b \<and> c_Bank a = c_Bank b"

text \<open>
  \<open>pre\<close> are the commands in front of \<open>cmd\<close>, \<open>post\<close> those behind it: a precharge is for the
  oldest command of its bank, when no row hit is pending or enough of them were served.
\<close>

definition ArbitratePrecharge ::
    "ChannelState \<Rightarrow> Command list \<Rightarrow> Command \<Rightarrow> Command list \<Rightarrow> SimpleStats \<Rightarrow> bool \<times> SimpleStats" where
  "ArbitratePrecharge cs pre cmd post st =
     (if \<exists>p\<in>set pre. same_bank_as p cmd then (False, st)
      else let row = cs_OpenRow cs (c_Rank cmd) (c_Bankgroup cmd) (c_Bank cmd);
               pending_row_hits_exist = (\<exists>p\<in>set (cmd # post). c_Row p = row \<and> same_bank_as p cmd);
               rowhit_limit_reached = (cs_RowHitCount cs (c_Rank cmd) (c_Bankgroup cmd) (c_Bank cmd) \<ge> 4)
           in if \<not> pending_row_hits_exist \<or> rowhit_limit_reached
              then (True, Increment ''num_ondemand_pres'' st) else (False, st))"

definition HasRWDependency :: "Command list \<Rightarrow> Command \<Rightarrow> bool" where
  "HasRWDependency pre cmd \<longleftrightarrow>
     (\<exists>p\<in>set pre. IsReadC p \<and> c_Row p = c_Row cmd \<and> c_Column p = c_Column cmd \<and>
        c_Bank p = c_Bank cmd \<and> c_Bankgroup p = c_Bankgroup cmd)"

fun first_ready ::
    "Config \<Rightarrow> ChannelState \<Rightarrow> 64 word \<Rightarrow> Command list \<Rightarrow> Command list \<Rightarrow> SimpleStats \<Rightarrow>
     (Command \<times> SimpleStats) run" where
  "first_ready cfg cs clk pre [] st = ret (no_Command, st)"
| "first_ready cfg cs clk pre (c # post) st =
     run_bind (cs_GetReadyCommand cfg cs c clk) (\<lambda>cmd.
       if \<not> IsValid cmd then first_ready cfg cs clk (pre @ [c]) post st
       else if cmd_type cmd = PRECHARGE
       then let (ok, st1) = ArbitratePrecharge cs pre c post st
            in if ok then ret (cmd, st1) else first_ready cfg cs clk (pre @ [c]) post st1
       else if IsWriteC cmd \<and> HasRWDependency pre c then first_ready cfg cs clk (pre @ [c]) post st
       else ret (cmd, st))"

definition GetFirstReadyInQueue ::
    "Config \<Rightarrow> ChannelState \<Rightarrow> CommandQueue \<Rightarrow> Command list \<Rightarrow> SimpleStats \<Rightarrow> (Command \<times> SimpleStats) run" where
  "GetFirstReadyInQueue cfg cs q cmds st = first_ready cfg cs (cq_clk q) [] cmds st"

definition EraseRWCommand :: "Config \<Rightarrow> Command \<Rightarrow> CommandQueue \<Rightarrow> CommandQueue run" where
  "EraseRWCommand cfg cmd q =
     (let i = GetQueueIndex cfg q (c_Rank cmd) (c_Bankgroup cmd) (c_Bank cmd);
          hit = (\<lambda>c. hex_addr cmd = hex_addr c \<and> cmd_type cmd = cmd_type c)
      in checked (queue_in q i)
           (if \<exists>c\<in>set (queues q i). hit c then ret (upd_queue i (remove_first hit (queues q i)) q)
            else raise AbruptExit))"

section \<open>The command to issue\<close>

text \<open>The loop over the queues, \<open>n\<close> of them still to be visited.\<close>

fun issue_scan ::
    "Config \<Rightarrow> ChannelState \<Rightarrow> nat \<Rightarrow> CommandQueue \<Rightarrow> SimpleStats \<Rightarrow>
     (Command \<times> CommandQueue \<times> SimpleStats) run" where
  "issue_scan cfg cs 0 q st = ret (no_Command, q, st)"
| "issue_scan cfg cs (Suc n) q st =
     (let q1 = q\<lparr>queue_idx := next_queue_idx q\<rparr>
      in checked (queue_in q1 (queue_idx q1))
          (if is_in_ref q1 \<and> ref_q_indices q1 (queue_idx q1) then issue_scan cfg cs n q1 st
           else run_bind (GetFirstReadyInQueue cfg cs q1 (queues q1 (queue_idx q1)) st) (\<lambda>(cmd, st1).
                if IsValid cmd
                then if IsReadWrite cmd
                     then run_bind (EraseRWCommand cfg cmd q1) (\<lambda>q2. ret (cmd, q2, st1))
                     else ret (cmd, q1, st1)
                else issue_scan cfg cs n q1 st1)))"

definition GetCommandToIssue ::
    "Config \<Rightarrow> ChannelState \<Rightarrow> CommandQueue \<Rightarrow> SimpleStats \<Rightarrow> (Command \<times> CommandQueue \<times> SimpleStats) run" where
  "GetCommandToIssue cfg cs q st = issue_scan cfg cs (nat (num_queues q)) q st"

section \<open>Refreshes\<close>

definition GetRefQIndices :: "Config \<Rightarrow> Command \<Rightarrow> CommandQueue \<Rightarrow> CommandQueue" where
  "GetRefQIndices cfg rcmd q =
     (if cmd_type rcmd = REFRESH
      then if q_structure q = PER_BANK
           then q\<lparr>ref_q_indices := (\<lambda>i. ref_q_indices q i \<or>
                   (0 \<le> i \<and> i < num_queues q \<and> i div banks cfg = c_Rank rcmd))\<rparr>
           else q\<lparr>ref_q_indices := (ref_q_indices q)(c_Rank rcmd := True)\<rparr>
      else q\<lparr>ref_q_indices := (ref_q_indices q)
              (GetQueueIndex cfg q (c_Rank rcmd) (c_Bankgroup rcmd) (c_Bank rcmd) := True)\<rparr>)"

definition FinishRefresh :: "Config \<Rightarrow> ChannelState \<Rightarrow> CommandQueue \<Rightarrow> (Command \<times> CommandQueue) run" where
  "FinishRefresh cfg cs q =
     (case refresh_q cs of
        [] \<Rightarrow> raise NullDeref
      | rcmd # _ \<Rightarrow>
          let q1 = (if is_in_ref q then q else (GetRefQIndices cfg rcmd q)\<lparr>is_in_ref := True\<rparr>)
          in run_bind (cs_GetReadyCommand cfg cs rcmd (cq_clk q1)) (\<lambda>cmd.
               ret (cmd, if IsRefresh cmd then q1\<lparr>ref_q_indices := (\<lambda>_. False), is_in_ref := False\<rparr> else q1)))"

definition cq_ClockTick :: "CommandQueue \<Rightarrow> CommandQueue" where
  "cq_ClockTick q = q\<lparr>cq_clk := cq_clk q + 1\<rparr>"

end
