(* ===== verification/DS_Controller.thy ===== *)
theory DS_Controller
  imports DS_CmdQueue
begin

text \<open>
  The memory controller of one channel (\<open>DRAMsim3-master/src/controller.h\<close>,
  \<open>controller.cc\<close>): it takes transactions, turns them into commands, issues at most one
  command per cycle (two for HBM) and returns completed transactions. A multimap is the
  list of its entries, equal keys in the order of insertion. The build without
  \<open>THERMAL\<close> is modelled; a cycle also yields the commands that it issued with their clock
  values, which is what the \<open>CMD_TRACE\<close> build writes to a file.
\<close>

section \<open>State\<close>

datatype RowBufPolicy = OPEN_PAGE | CLOSE_PAGE | RBP_SIZE

record Controller =
  ct_channel_id :: int
  ct_clk :: "64 word"
  ct_stats :: SimpleStats
  ct_channel :: ChannelState
  ct_queue :: CommandQueue
  ct_refresh :: Refresh
  is_unified_queue :: bool
  ct_unified_queue :: "Transaction list"
  read_queue :: "Transaction list"
  write_buffer :: "Transaction list"
  trans_capacity :: nat
  pending_rd_q :: "(64 word \<times> Transaction) list"
  pending_wr_q :: "(64 word \<times> Transaction) list"
  return_queue :: "Transaction list"
  ct_row_buf_policy :: RowBufPolicy
  last_trans_clk :: "64 word"
  write_draining :: int

text \<open>\<open>trans_capacity\<close> is the capacity that the constructor reserves for the transaction queues.\<close>

definition new_Controller :: "Config \<Rightarrow> int \<Rightarrow> Controller run" where
  "new_Controller cfg ch =
     run_bind (new_CommandQueue cfg) (\<lambda>q.
     run_bind (new_Refresh cfg) (\<lambda>rf.
     ret \<lparr>ct_channel_id = ch, ct_clk = 0, ct_stats = new_SimpleStats, ct_channel = new_ChannelState,
          ct_queue = q, ct_refresh = rf, is_unified_queue = unified_queue cfg, ct_unified_queue = [],
          read_queue = [], write_buffer = [], trans_capacity = to_size_t (trans_queue_size cfg),
          pending_rd_q = [], pending_wr_q = [], return_queue = [],
          ct_row_buf_policy = (if row_buf_policy cfg = ''CLOSE_PAGE'' then CLOSE_PAGE else OPEN_PAGE),
          last_trans_clk = 0, write_draining = 0\<rparr>))"

definition upd_stats :: "(SimpleStats \<Rightarrow> SimpleStats) \<Rightarrow> Controller \<Rightarrow> Controller" where
  "upd_stats f c = c\<lparr>ct_stats := f (ct_stats c)\<rparr>"

text \<open>\<open>count\<close> of a multimap.\<close>

definition mm_count :: "(64 word \<times> Transaction) list \<Rightarrow> 64 word \<Rightarrow> nat" where
  "mm_count m k = length (filter (\<lambda>e. fst e = k) m)"

section \<open>Completed transactions\<close>

text \<open>The first transaction of the return queue that is done; \<open>None\<close> stands for \<open>(-1, -1)\<close>.\<close>

definition ReturnDoneTrans :: "64 word \<Rightarrow> Controller \<Rightarrow> (64 word \<times> bool) option \<times> Controller" where
  "ReturnDoneTrans clk c =
     (let due = (\<lambda>t. complete_cycle t \<le> clk)
      in case List.find due (return_queue c) of
           None \<Rightarrow> (None, c)
         | Some t \<Rightarrow>
             (Some (tr_addr t, tr_is_write t),
              upd_stats (if tr_is_write t then Increment ''num_writes_done''
                         else AddValue ''read_latency'' (ct_clk c - added_cycle t) \<circ> Increment ''num_reads_done'')
                (c\<lparr>return_queue := remove_first due (return_queue c)\<rparr>)))"

section \<open>Accepting transactions\<close>

definition ct_WillAcceptTransaction :: "bool \<Rightarrow> Controller \<Rightarrow> bool" where
  "ct_WillAcceptTransaction is_write c \<longleftrightarrow>
     (if is_unified_queue c then length (ct_unified_queue c) < trans_capacity c
      else if \<not> is_write then length (read_queue c) < trans_capacity c
      else length (write_buffer c) < trans_capacity c)"

definition ct_AddTransaction :: "Transaction \<Rightarrow> Controller \<Rightarrow> Controller" where
  "ct_AddTransaction tr0 c0 =
     (let tr = tr0\<lparr>added_cycle := ct_clk c0\<rparr>; a = tr_addr tr;
          c = (upd_stats (AddValue ''interarrival_latency'' (ct_clk c0 - last_trans_clk c0)) c0)
                \<lparr>last_trans_clk := ct_clk c0\<rparr>;
          finished = tr\<lparr>complete_cycle := ct_clk c + 1\<rparr>
      in if tr_is_write tr
         then let c1 = (if mm_count (pending_wr_q c) a = 0
                        then let c' = c\<lparr>pending_wr_q := pending_wr_q c @ [(a, tr)]\<rparr>
                             in if is_unified_queue c' then c'\<lparr>ct_unified_queue := ct_unified_queue c' @ [tr]\<rparr>
                                else c'\<lparr>write_buffer := write_buffer c' @ [tr]\<rparr>
                        else c)
              in c1\<lparr>return_queue := return_queue c1 @ [finished]\<rparr>
         else if mm_count (pending_wr_q c) a > 0
         then c\<lparr>return_queue := return_queue c @ [finished]\<rparr>
         else let c1 = c\<lparr>pending_rd_q := pending_rd_q c @ [(a, tr)]\<rparr>
              in if mm_count (pending_rd_q c1) a = 1
                 then if is_unified_queue c1 then c1\<lparr>ct_unified_queue := ct_unified_queue c1 @ [tr]\<rparr>
                      else c1\<lparr>read_queue := read_queue c1 @ [tr]\<rparr>
                 else c1)"

definition TransToCommand :: "Config \<Rightarrow> Controller \<Rightarrow> Transaction \<Rightarrow> Command" where
  "TransToCommand cfg c tr =
     mk_Command
       (if ct_row_buf_policy c = OPEN_PAGE then if tr_is_write tr then WRITE else READ
        else if tr_is_write tr then WRITE_PRECHARGE else READ_PRECHARGE)
       (AddressMapping cfg (tr_addr tr)) (tr_addr tr)"

section \<open>Scheduling transactions\<close>

definition start_draining :: "Controller \<Rightarrow> Controller" where
  "start_draining c =
     (if write_draining c = 0 \<and> \<not> is_unified_queue c \<and>
         (length (write_buffer c) \<ge> trans_capacity c \<or> (length (write_buffer c) > 8 \<and> QueueEmpty (ct_queue c)))
      then c\<lparr>write_draining := int (length (write_buffer c))\<rparr> else c)"

datatype trans_source = FromUnified | FromWrites | FromReads

definition chosen_queue :: "Controller \<Rightarrow> trans_source" where
  "chosen_queue c = (if is_unified_queue c then FromUnified
                     else if write_draining c > 0 then FromWrites else FromReads)"

definition source_queue :: "trans_source \<Rightarrow> Controller \<Rightarrow> Transaction list" where
  "source_queue src c =
     (case src of FromUnified \<Rightarrow> ct_unified_queue c | FromWrites \<Rightarrow> write_buffer c | FromReads \<Rightarrow> read_queue c)"

definition set_source_queue :: "trans_source \<Rightarrow> Transaction list \<Rightarrow> Controller \<Rightarrow> Controller" where
  "set_source_queue src ts c =
     (case src of FromUnified \<Rightarrow> c\<lparr>ct_unified_queue := ts\<rparr> | FromWrites \<Rightarrow> c\<lparr>write_buffer := ts\<rparr>
        | FromReads \<Rightarrow> c\<lparr>read_queue := ts\<rparr>)"

text \<open>
  The loop over the chosen queue: \<open>pre\<close> was passed over, the first transaction whose command
  queue has room moves there; a write that a pending read depends on ends the draining.
\<close>

fun schedule_scan ::
    "Config \<Rightarrow> trans_source \<Rightarrow> Transaction list \<Rightarrow> Transaction list \<Rightarrow> Controller \<Rightarrow> Controller run" where
  "schedule_scan cfg src pre [] c = ret c"
| "schedule_scan cfg src pre (tr # post) c =
     (let cmd = TransToCommand cfg c tr
      in run_bind (WillAcceptCommand cfg (ct_queue c) (c_Rank cmd) (c_Bankgroup cmd) (c_Bank cmd)) (\<lambda>room.
         if \<not> room then schedule_scan cfg src (pre @ [tr]) post c
         else if \<not> is_unified_queue c \<and> IsWriteC cmd \<and> mm_count (pending_rd_q c) (tr_addr tr) > 0
         then ret (c\<lparr>write_draining := 0\<rparr>)
         else let c1 = (if \<not> is_unified_queue c \<and> IsWriteC cmd
                        then c\<lparr>write_draining := write_draining c - 1\<rparr> else c)
              in run_bind (AddCommand cfg cmd (ct_queue c1)) (\<lambda>(ok, q).
                 ret (set_source_queue src (pre @ post) (c1\<lparr>ct_queue := q\<rparr>)))))"

definition ScheduleTransaction :: "Config \<Rightarrow> Controller \<Rightarrow> Controller run" where
  "ScheduleTransaction cfg c0 =
     (let c = start_draining c0; src = chosen_queue c
      in schedule_scan cfg src [] (source_queue src c) c)"

section \<open>Issuing commands\<close>

definition UpdateCommandStats :: "Command \<Rightarrow> Controller \<Rightarrow> Controller run" where
  "UpdateCommandStats cmd c =
     (let hit = (cs_RowHitCount (ct_channel c) (c_Rank cmd) (c_Bankgroup cmd) (c_Bank cmd) \<noteq> 0)
      in case cmd_type cmd of
           CMD_SIZE \<Rightarrow> raise AbruptExit
         | t \<Rightarrow> ret (upd_stats
             (if t = READ \<or> t = READ_PRECHARGE
              then (if hit then Increment ''num_read_row_hits'' else id) \<circ> Increment ''num_read_cmds''
              else if t = WRITE \<or> t = WRITE_PRECHARGE
              then (if hit then Increment ''num_write_row_hits'' else id) \<circ> Increment ''num_write_cmds''
              else if t = ACTIVATE then Increment ''num_act_cmds''
              else if t = PRECHARGE then Increment ''num_pre_cmds''
              else if t = REFRESH then Increment ''num_ref_cmds''
              else if t = REFRESH_BANK then Increment ''num_refb_cmds''
              else if t = SREF_ENTER then Increment ''num_srefe_cmds''
              else Increment ''num_srefx_cmds'') c))"

text \<open>All pending reads of the address complete together.\<close>

definition complete_reads :: "Config \<Rightarrow> 64 word \<Rightarrow> Controller \<Rightarrow> Controller" where
  "complete_reads cfg a c =
     c\<lparr>return_queue := return_queue c @
         map (\<lambda>e. (snd e)\<lparr>complete_cycle := ct_clk c + of_int (read_delay cfg)\<rparr>)
           (filter (\<lambda>e. fst e = a) (pending_rd_q c)),
       pending_rd_q := filter (\<lambda>e. fst e \<noteq> a) (pending_rd_q c)\<rparr>"

definition IssueCommand :: "Config \<Rightarrow> Timing \<Rightarrow> Command \<Rightarrow> Controller \<Rightarrow> Controller run" where
  "IssueCommand cfg tm cmd c =
     run_bind
       (if IsReadC cmd
        then if mm_count (pending_rd_q c) (hex_addr cmd) = 0 then raise AbruptExit
             else ret (complete_reads cfg (hex_addr cmd) c)
        else if IsWriteC cmd
        then (case List.find (\<lambda>e. fst e = hex_addr cmd) (pending_wr_q c) of
                None \<Rightarrow> raise AbruptExit
              | Some e \<Rightarrow>
                  ret (upd_stats (AddValue ''write_latency''
                         (ct_clk c - added_cycle (snd e) + of_int (write_delay cfg)))
                       (c\<lparr>pending_wr_q := remove_first (\<lambda>e. fst e = hex_addr cmd) (pending_wr_q c)\<rparr>)))
        else ret c)
       (\<lambda>c1. run_bind (UpdateCommandStats cmd c1) (\<lambda>c2.
             run_bind (UpdateTimingAndStates cfg tm cmd (ct_clk c2) (ct_channel c2)) (\<lambda>cs.
             ret (c2\<lparr>ct_channel := cs\<rparr>))))"

section \<open>One clock cycle\<close>

definition ct_get_command :: "Config \<Rightarrow> Controller \<Rightarrow> (Command \<times> Controller) run" where
  "ct_get_command cfg c =
     run_bind (GetCommandToIssue cfg (ct_channel c) (ct_queue c) (ct_stats c)) (\<lambda>(cmd, q, st).
     ret (cmd, c\<lparr>ct_queue := q, ct_stats := st\<rparr>))"

definition ct_pick_command :: "Config \<Rightarrow> Controller \<Rightarrow> (Command \<times> Controller) run" where
  "ct_pick_command cfg c =
     run_bind
       (if IsRefreshWaiting (ct_channel c)
        then run_bind (FinishRefresh cfg (ct_channel c) (ct_queue c)) (\<lambda>(cmd, q). ret (cmd, c\<lparr>ct_queue := q\<rparr>))
        else ret (no_Command, c))
       (\<lambda>(cmd, c1). if IsValid cmd then ret (cmd, c1) else ct_get_command cfg c1)"

text \<open>The commands of the cycle; with dual commands a second one of the other kind may follow.\<close>

type_synonym cmd_trace = "(64 word \<times> Command) list"

definition ct_issue_phase :: "Config \<Rightarrow> Timing \<Rightarrow> Controller \<Rightarrow> (cmd_trace \<times> Controller) run" where
  "ct_issue_phase cfg tm c =
     run_bind (ct_pick_command cfg c) (\<lambda>(cmd, c1).
       if \<not> IsValid cmd then ret ([], c1)
       else run_bind (IssueCommand cfg tm cmd c1) (\<lambda>c2.
            if \<not> enable_hbm_dual_cmd cfg then ret ([(ct_clk c, cmd)], c2)
            else run_bind (ct_get_command cfg c2) (\<lambda>(second, c3).
                 if IsValid second \<and> IsReadWrite second \<noteq> IsReadWrite cmd
                 then run_bind (IssueCommand cfg tm second c3) (\<lambda>c4.
                      ret ([(ct_clk c, cmd), (ct_clk c, second)], upd_stats (Increment ''hbm_dual_cmds'') c4))
                 else ret ([(ct_clk c, cmd)], c3))))"

definition ct_count_rank :: "Config \<Rightarrow> int \<Rightarrow> Controller \<Rightarrow> Controller" where
  "ct_count_rank cfg i c =
     (if rank_is_sref (ct_channel c) i then upd_stats (IncrementVec ''sref_cycles'' i) c
      else if IsAllBankIdleInRank cfg (ct_channel c) i
      then (upd_stats (IncrementVec ''all_bank_idle_cycles'' i) c)
             \<lparr>ct_channel := (ct_channel c)\<lparr>rank_idle_cycles :=
                 (rank_idle_cycles (ct_channel c))(i := rank_idle_cycles (ct_channel c) i + 1)\<rparr>\<rparr>
      else (upd_stats (IncrementVec ''rank_active_cycles'' i) c)
             \<lparr>ct_channel := (ct_channel c)\<lparr>rank_idle_cycles := (rank_idle_cycles (ct_channel c))(i := 0)\<rparr>\<rparr>)"

definition rank_address :: "int \<Rightarrow> Address" where
  "rank_address i = no_Address\<lparr>ad_rank := i\<rparr>"

text \<open>Moving idle ranks into self refresh and waking them; the first issued command ends the loop.\<close>

fun ct_self_refresh :: "Config \<Rightarrow> Timing \<Rightarrow> int list \<Rightarrow> Controller \<Rightarrow> (cmd_trace \<times> Controller) run" where
  "ct_self_refresh cfg tm [] c = ret ([], c)"
| "ct_self_refresh cfg tm (i # is) c =
     (let asleep = rank_is_sref (ct_channel c) i;
          want = (if asleep then \<not> rank_q_empty (ct_queue c) i
                  else rank_q_empty (ct_queue c) i \<and> sref_threshold cfg \<le> rank_idle_cycles (ct_channel c) i)
      in if want
         then run_bind (cs_GetReadyCommand cfg (ct_channel c)
                (mk_Command (if asleep then SREF_EXIT else SREF_ENTER) (rank_address i) (- 1)) (ct_clk c)) (\<lambda>cmd.
              if IsValid cmd then run_bind (IssueCommand cfg tm cmd c) (\<lambda>c1. ret ([(ct_clk c, cmd)], c1))
              else ct_self_refresh cfg tm is c)
         else ct_self_refresh cfg tm is c)"

definition ct_tick_trace :: "Config \<Rightarrow> Timing \<Rightarrow> Controller \<Rightarrow> (cmd_trace \<times> Controller) run" where
  "ct_tick_trace cfg tm c =
     run_bind (refresh_ClockTick cfg (ct_refresh c) (ct_channel c)) (\<lambda>(rf, cs).
     run_bind (ct_issue_phase cfg tm (c\<lparr>ct_refresh := rf, ct_channel := cs\<rparr>)) (\<lambda>(issued, c1).
     let c2 = fold (ct_count_rank cfg) [0..ranks cfg - 1] c1
     in run_bind (if enable_self_refresh cfg \<and> issued = [] then ct_self_refresh cfg tm [0..ranks cfg - 1] c2
                  else ret ([], c2)) (\<lambda>(asleep, c3).
        run_bind (ScheduleTransaction cfg c3) (\<lambda>c4.
        ret (issued @ asleep, upd_stats (Increment ''num_cycles'')
              (c4\<lparr>ct_clk := ct_clk c4 + 1, ct_queue := cq_ClockTick (ct_queue c4)\<rparr>))))))"

definition ct_ClockTick :: "Config \<Rightarrow> Timing \<Rightarrow> Controller \<Rightarrow> Controller run" where
  "ct_ClockTick cfg tm c = run_bind (ct_tick_trace cfg tm c) (\<lambda>(issued, c'). ret c')"

definition ct_PrintEpochStats :: "Controller \<Rightarrow> Controller" where
  "ct_PrintEpochStats c = upd_stats (UpdateEpochStats \<circ> Increment ''epoch_num'') c"

definition ct_ResetStats :: "Controller \<Rightarrow> Controller" where
  "ct_ResetStats c = upd_stats stats_Reset c"

definition ct_QueueUsage :: "Controller \<Rightarrow> int" where
  "ct_QueueUsage c = cq_QueueUsage (ct_queue c)"

end
