(* ===== verification/DS_System.thy ===== *)
theory DS_System
  imports DS_Controller Mem_Interface
begin

unbundle bit_operations_syntax

text \<open>
  The memory systems (\<open>DRAMsim3-master/src/dram_system.h\<close>, \<open>dram_system.cc\<close>,
  \<open>memory_system.cc\<close>): the JEDEC system, one controller per channel, and the ideal system
  with a fixed latency. Both provide the interface \<open>MemorySystem\<close>.
\<close>

section \<open>The JEDEC system\<close>

record JedecDRAMSystem =
  js_clk :: "64 word"
  last_req_clk :: "64 word"
  ctrls :: "int \<Rightarrow> Controller"

text \<open>The channel of an address (\<open>BaseDRAMSystem::GetChannel\<close>).\<close>

definition ds_GetChannel :: "Config \<Rightarrow> 64 word \<Rightarrow> int" where
  "ds_GetChannel cfg hex =
     to_int32 (uint (drop_bit (nat (ch_pos cfg)) (drop_bit (nat (shift_bits cfg)) hex) AND ch_mask cfg))"

definition ch_in :: "Config \<Rightarrow> int \<Rightarrow> bool" where
  "ch_in cfg i \<longleftrightarrow> 0 \<le> i \<and> i < channels cfg"

text \<open>\<open>junk\<close> is what the vector of controllers holds before the loop fills it.\<close>

definition js_controllers :: "Config \<Rightarrow> (int \<Rightarrow> Controller) \<Rightarrow> JedecDRAMSystem run" where
  "js_controllers cfg junk =
     for_run (\<lambda>i s. run_bind (new_Controller cfg i) (\<lambda>c. ret (s\<lparr>ctrls := (ctrls s)(i := c)\<rparr>)))
       [0..channels cfg - 1] \<lparr>js_clk = 0, last_req_clk = 0, ctrls = junk\<rparr>"

definition new_JedecDRAMSystem :: "Config \<Rightarrow> (int \<Rightarrow> Controller) \<Rightarrow> JedecDRAMSystem run" where
  "new_JedecDRAMSystem cfg junk = (if IsHMC cfg then raise AbruptExit else js_controllers cfg junk)"

definition js_WillAcceptTransaction :: "Config \<Rightarrow> 64 word \<Rightarrow> bool \<Rightarrow> JedecDRAMSystem \<Rightarrow> bool" where
  "js_WillAcceptTransaction cfg hex w s = ct_WillAcceptTransaction w (ctrls s (ds_GetChannel cfg hex))"

definition js_AddTransaction :: "Config \<Rightarrow> 64 word \<Rightarrow> bool \<Rightarrow> JedecDRAMSystem \<Rightarrow> (bool \<times> JedecDRAMSystem) run" where
  "js_AddTransaction cfg hex w s =
     (let ch = ds_GetChannel cfg hex
      in checked (ch_in cfg ch)
          (let accepted = ct_WillAcceptTransaction w (ctrls s ch)
           in assert_that accepted
               (ret (accepted, s\<lparr>ctrls := (ctrls s)(ch := ct_AddTransaction (mk_Transaction hex w) (ctrls s ch)),
                                 last_req_clk := js_clk s\<rparr>))))"

text \<open>The loop that returns the completed transactions of one controller.\<close>

lemma ReturnDoneTrans_shorter:
  "ReturnDoneTrans clk c = (Some t, c') \<Longrightarrow> length (return_queue c') < length (return_queue c)"
proof -
  have rem: "List.find P xs = Some x \<Longrightarrow> length (remove_first P xs) < length xs" for P xs and x :: Transaction
    by (induction xs) (auto split: if_splits)
  assume "ReturnDoneTrans clk c = (Some t, c')"
  then show ?thesis by (auto simp: ReturnDoneTrans_def Let_def upd_stats_def rem split: option.splits)
qed

function drain_done :: "64 word \<Rightarrow> Controller \<Rightarrow> (64 word \<times> bool) list \<times> Controller" where
  "drain_done clk c =
     (case ReturnDoneTrans clk c of
        (None, c') \<Rightarrow> ([], c')
      | (Some t, c') \<Rightarrow> (let (ts, c'') = drain_done clk c' in (t # ts, c'')))"
  by auto
termination
  by (relation "measure (\<lambda>(clk, c). length (return_queue c))") (auto dest: ReturnDoneTrans_shorter [OF sym])

declare drain_done.simps [simp del]

fun drain_all :: "64 word \<Rightarrow> int list \<Rightarrow> JedecDRAMSystem \<Rightarrow> (64 word \<times> bool) list \<times> JedecDRAMSystem" where
  "drain_all clk [] s = ([], s)"
| "drain_all clk (i # is) s =
     (let (ts, c) = drain_done clk (ctrls s i);
          (us, s') = drain_all clk is (s\<lparr>ctrls := (ctrls s)(i := c)\<rparr>)
      in (ts @ us, s'))"

definition js_tick_ctrl :: "Config \<Rightarrow> Timing \<Rightarrow> int \<Rightarrow> JedecDRAMSystem \<Rightarrow> JedecDRAMSystem run" where
  "js_tick_ctrl cfg tm i s =
     run_bind (ct_ClockTick cfg tm (ctrls s i)) (\<lambda>c. ret (s\<lparr>ctrls := (ctrls s)(i := c)\<rparr>))"

definition js_PrintEpochStats :: "Config \<Rightarrow> JedecDRAMSystem \<Rightarrow> JedecDRAMSystem" where
  "js_PrintEpochStats cfg s =
     fold (\<lambda>i s. s\<lparr>ctrls := (ctrls s)(i := ct_PrintEpochStats (ctrls s i))\<rparr>) [0..channels cfg - 1] s"

definition js_ResetStats :: "Config \<Rightarrow> JedecDRAMSystem \<Rightarrow> JedecDRAMSystem" where
  "js_ResetStats cfg s =
     fold (\<lambda>i s. s\<lparr>ctrls := (ctrls s)(i := ct_ResetStats (ctrls s i))\<rparr>) [0..channels cfg - 1] s"

text \<open>The second half of a cycle: every controller ticks, the clock moves on, an epoch may end.\<close>

definition js_advance :: "Config \<Rightarrow> Timing \<Rightarrow> JedecDRAMSystem \<Rightarrow> JedecDRAMSystem run" where
  "js_advance cfg tm s =
     run_bind (for_run (js_tick_ctrl cfg tm) [0..channels cfg - 1] s) (\<lambda>s2.
     let s3 = s2\<lparr>js_clk := js_clk s2 + 1\<rparr>; n = (of_int (epoch_period cfg) :: 64 word)
     in if n = 0 then raise DivideByZero
        else ret (if js_clk s3 mod n = 0 then js_PrintEpochStats cfg s3 else s3))"

definition js_ClockTick ::
    "Config \<Rightarrow> Timing \<Rightarrow> JedecDRAMSystem \<Rightarrow> ((64 word \<times> bool) list \<times> JedecDRAMSystem) run" where
  "js_ClockTick cfg tm s =
     (let (ts, s1) = drain_all (js_clk s) [0..channels cfg - 1] s
      in run_bind (js_advance cfg tm s1) (\<lambda>s2. ret (ts, s2)))"

definition jedec_ops :: "Config \<Rightarrow> Timing \<Rightarrow> JedecDRAMSystem MemorySystem" where
  "jedec_ops cfg tm =
     \<lparr>ms_WillAcceptTransaction = js_WillAcceptTransaction cfg,
      ms_AddTransaction = js_AddTransaction cfg, ms_ClockTick = js_ClockTick cfg tm,
      ms_GetChannel = (\<lambda>a _. ds_GetChannel cfg a)\<rparr>"

section \<open>The ideal system\<close>

record IdealDRAMSystem =
  id_clk :: "64 word"
  infinite_buffer_q :: "Transaction list"

definition new_IdealDRAMSystem :: IdealDRAMSystem where
  "new_IdealDRAMSystem = \<lparr>id_clk = 0, infinite_buffer_q = []\<rparr>"

definition id_AddTransaction :: "64 word \<Rightarrow> bool \<Rightarrow> IdealDRAMSystem \<Rightarrow> bool \<times> IdealDRAMSystem" where
  "id_AddTransaction hex w s =
     (True, s\<lparr>infinite_buffer_q := infinite_buffer_q s @ [(mk_Transaction hex w)\<lparr>added_cycle := id_clk s\<rparr>]\<rparr>)"

text \<open>
  The loop of \<open>ClockTick\<close>: after erasing a finished transaction the iterator stands on the
  next one and is advanced past it, so that one is looked at only in the next cycle.
\<close>

definition id_due :: "Config \<Rightarrow> 64 word \<Rightarrow> Transaction \<Rightarrow> bool" where
  "id_due cfg clk t \<longleftrightarrow> clk - added_cycle t \<ge> of_int (ideal_memory_latency cfg)"

fun id_scan :: "(Transaction \<Rightarrow> bool) \<Rightarrow> Transaction list \<Rightarrow> Transaction list \<times> Transaction list" where
  "id_scan due [] = ([], [])"
| "id_scan due [t] = (if due t then ([t], []) else ([], [t]))"
| "id_scan due (t # u # ts) =
     (if due t then (let (fin, kept) = id_scan due ts in (t # fin, u # kept))
      else (let (fin, kept) = id_scan due (u # ts) in (fin, t # kept)))"

definition id_ClockTick :: "Config \<Rightarrow> IdealDRAMSystem \<Rightarrow> (64 word \<times> bool) list \<times> IdealDRAMSystem" where
  "id_ClockTick cfg s =
     (let (fin, kept) = id_scan (id_due cfg (id_clk s)) (infinite_buffer_q s)
      in (map (\<lambda>t. (tr_addr t, tr_is_write t)) fin, s\<lparr>infinite_buffer_q := kept, id_clk := id_clk s + 1\<rparr>))"

definition ideal_ops :: "Config \<Rightarrow> IdealDRAMSystem MemorySystem" where
  "ideal_ops cfg =
     \<lparr>ms_WillAcceptTransaction = (\<lambda>_ _ _. True),
      ms_AddTransaction = (\<lambda>a w s. ret (id_AddTransaction a w s)),
      ms_ClockTick = (\<lambda>s. ret (id_ClockTick cfg s)), ms_GetChannel = (\<lambda>a _. ds_GetChannel cfg a)\<rparr>"

end
