(* ===== verification/DS_HMC.thy ===== *)
theory DS_HMC
  imports DS_System
begin

text \<open>
  The HMC memory system (\<open>DRAMsim3-master/src/hmc.h\<close>, \<open>hmc.cc\<close>): requests enter through the
  queues of the links, cross to the queues of four quadrants, go to the controllers of the
  vaults, and their responses, made when the request enters, return the same way. The
  quadrants and links are indexed by integers; a request or response is owned by exactly one
  queue, so they are values.
\<close>

section \<open>Requests and responses\<close>

datatype (plugins only: code size) HMCReqType =
    RD0 | RD16 | RD32 | RD48 | RD64 | RD80 | RD96 | RD112 | RD128 | RD256
  | WR0 | WR16 | WR32 | WR48 | WR64 | WR80 | WR96 | WR112 | WR128 | WR256
  | P_WR16 | P_WR32 | P_WR48 | P_WR64 | P_WR80 | P_WR96 | P_WR112 | P_WR128 | P_WR256
  | ADD8 | ADD16 | P_2ADD8 | P_ADD16 | ADDS8R | ADDS16R | INC8 | P_INC8
  | XOR16 | OR16 | NOR16 | AND16 | NAND16
  | CASGT8 | CASGT16 | CASLT8 | CASLT16 | CASEQ8 | CASZERO16
  | EQ8 | EQ16 | BWR | P_BWR | BWR8R | SWAP16 | REQ_SIZE

datatype HMCRespType = RESP_NONE | RD_RS | WR_RS | RESP_ERR | RESP_SIZE

record HMCRequest =
  rq_type :: HMCReqType
  mem_operand :: "64 word"
  rq_link :: int
  rq_quad :: int
  rq_vault :: int
  rq_flits :: int
  rq_is_write :: bool
  rq_exit_time :: "64 word"

record HMCResponse =
  resp_id :: "64 word"
  rs_type :: HMCRespType
  rs_link :: int
  rs_quad :: int
  rs_flits :: int
  rs_exit_time :: "64 word"

text \<open>\<open>type >= WR0 && type <= P_WR256\<close>, in the order of the enumeration.\<close>

definition hmc_is_write :: "HMCReqType \<Rightarrow> bool" where
  "hmc_is_write t \<longleftrightarrow>
     t \<in> set [WR0, WR16, WR32, WR48, WR64, WR80, WR96, WR112, WR128, WR256,
              P_WR16, P_WR32, P_WR48, P_WR64, P_WR80, P_WR96, P_WR112, P_WR128, P_WR256]"

fun request_flits :: "HMCReqType \<Rightarrow> int run" where
  "request_flits RD0 = ret 0" | "request_flits WR0 = ret 0"
| "request_flits RD16 = ret 1" | "request_flits RD32 = ret 1" | "request_flits RD48 = ret 1"
| "request_flits RD64 = ret 1" | "request_flits RD80 = ret 1" | "request_flits RD96 = ret 1"
| "request_flits RD112 = ret 1" | "request_flits RD128 = ret 1" | "request_flits RD256 = ret 1"
| "request_flits WR16 = ret 2" | "request_flits P_WR16 = ret 2"
| "request_flits WR32 = ret 3" | "request_flits P_WR32 = ret 3"
| "request_flits WR48 = ret 4" | "request_flits P_WR48 = ret 4"
| "request_flits WR64 = ret 5" | "request_flits P_WR64 = ret 5"
| "request_flits WR80 = ret 6" | "request_flits P_WR80 = ret 6"
| "request_flits WR96 = ret 7" | "request_flits P_WR96 = ret 7"
| "request_flits WR112 = ret 8" | "request_flits P_WR112 = ret 8"
| "request_flits WR128 = ret 9" | "request_flits P_WR128 = ret 9"
| "request_flits WR256 = ret 17" | "request_flits P_WR256 = ret 17"
| "request_flits INC8 = ret 1" | "request_flits P_INC8 = ret 1"
| "request_flits REQ_SIZE = raise AbruptExit"
| "request_flits t = ret 2"

text \<open>The members \<open>link\<close> and \<open>exit_time\<close> are set before they are read; they start as 0 here.\<close>

definition new_HMCRequest :: "HMCReqType \<Rightarrow> 64 word \<Rightarrow> int \<Rightarrow> HMCRequest run" where
  "new_HMCRequest t hex vault =
     run_bind (request_flits t) (\<lambda>f.
     ret \<lparr>rq_type = t, mem_operand = hex, rq_link = 0, rq_quad = sgn vault * (\<bar>vault\<bar> mod 4), rq_vault = vault,
          rq_flits = f, rq_is_write = hmc_is_write t, rq_exit_time = 0\<rparr>)"

fun response_kind :: "HMCReqType \<Rightarrow> (HMCRespType \<times> int) run" where
  "response_kind RD0 = ret (RD_RS, 0)" | "response_kind RD16 = ret (RD_RS, 2)" | "response_kind RD32 = ret (RD_RS, 3)"
| "response_kind RD48 = ret (RD_RS, 4)" | "response_kind RD64 = ret (RD_RS, 5)" | "response_kind RD80 = ret (RD_RS, 6)"
| "response_kind RD96 = ret (RD_RS, 7)" | "response_kind RD112 = ret (RD_RS, 8)" | "response_kind RD128 = ret (RD_RS, 9)"
| "response_kind RD256 = ret (RD_RS, 17)"
| "response_kind WR0 = ret (WR_RS, 0)" | "response_kind WR16 = ret (WR_RS, 1)" | "response_kind WR32 = ret (WR_RS, 1)"
| "response_kind WR48 = ret (WR_RS, 1)" | "response_kind WR64 = ret (WR_RS, 1)" | "response_kind WR80 = ret (WR_RS, 1)"
| "response_kind WR96 = ret (WR_RS, 1)" | "response_kind WR112 = ret (WR_RS, 1)" | "response_kind WR128 = ret (WR_RS, 1)"
| "response_kind WR256 = ret (WR_RS, 1)"
| "response_kind P_WR16 = ret (RESP_NONE, 0)" | "response_kind P_WR32 = ret (RESP_NONE, 0)"
| "response_kind P_WR48 = ret (RESP_NONE, 0)" | "response_kind P_WR64 = ret (RESP_NONE, 0)"
| "response_kind P_WR80 = ret (RESP_NONE, 0)" | "response_kind P_WR96 = ret (RESP_NONE, 0)"
| "response_kind P_WR112 = ret (RESP_NONE, 0)" | "response_kind P_WR128 = ret (RESP_NONE, 0)"
| "response_kind P_WR256 = ret (RESP_NONE, 0)"
| "response_kind ADD8 = ret (WR_RS, 1)" | "response_kind ADD16 = ret (WR_RS, 1)"
| "response_kind P_2ADD8 = ret (RESP_NONE, 0)" | "response_kind P_ADD16 = ret (RESP_NONE, 0)"
| "response_kind INC8 = ret (WR_RS, 1)" | "response_kind P_INC8 = ret (RESP_NONE, 0)"
| "response_kind EQ8 = ret (WR_RS, 1)" | "response_kind EQ16 = ret (WR_RS, 1)" | "response_kind BWR = ret (WR_RS, 1)"
| "response_kind P_BWR = ret (RESP_NONE, 0)"
| "response_kind REQ_SIZE = raise AbruptExit"
| "response_kind t = ret (RD_RS, 2)"

definition new_HMCResponse :: "64 word \<Rightarrow> HMCReqType \<Rightarrow> int \<Rightarrow> int \<Rightarrow> HMCResponse run" where
  "new_HMCResponse i t dest_link src_quad =
     run_bind (response_kind t) (\<lambda>(k, f).
     ret \<lparr>resp_id = i, rs_type = k, rs_link = dest_link, rs_quad = src_quad, rs_flits = f, rs_exit_time = 0\<rparr>)"

section \<open>State and construction\<close>

text \<open>
  \<open>hm_base\<close> are the members of \<open>BaseDRAMSystem\<close>: the DRAM clock and the controllers. The
  lookup table is a multimap; a search finds the entry of a key that was inserted first.
\<close>

record HMCMemorySystem =
  hm_base :: JedecDRAMSystem
  logic_clk :: "64 word"
  ps_per_dram :: "64 word"
  ps_per_logic :: "64 word"
  logic_ps :: "64 word"
  dram_ps :: "64 word"
  next_link :: int
  links :: int
  queue_depth :: nat
  resp_lookup_table :: "(64 word \<times> HMCResponse) list"
  link_req_queues :: "int \<Rightarrow> HMCRequest list"
  link_resp_queues :: "int \<Rightarrow> HMCResponse list"
  quad_req_queues :: "int \<Rightarrow> HMCRequest list"
  quad_resp_queues :: "int \<Rightarrow> HMCResponse list"
  link_busy :: "int \<Rightarrow> int"
  quad_busy :: "int \<Rightarrow> int"
  link_age_counter :: "int \<Rightarrow> int"
  quad_age_counter :: "int \<Rightarrow> int"

definition link_in :: "HMCMemorySystem \<Rightarrow> int \<Rightarrow> bool" where "link_in s i \<longleftrightarrow> 0 \<le> i \<and> i < links s"
definition quad_in :: "int \<Rightarrow> bool" where "quad_in q \<longleftrightarrow> 0 \<le> q \<and> q < 4"

text \<open>
  \<open>1000000 / (double)logic_speed\<close>, truncated to an integer: for a positive speed the
  quotient of the integers. The conversion of any other value is undefined.
\<close>

definition logic_period :: "Config \<Rightarrow> (64 word) run" where
  "logic_period cfg =
     run_bind (cdiv 128 (link_width cfg)) (\<lambda>cycles_per_flit.
     run_bind (cdiv (link_speed cfg) cycles_per_flit) (\<lambda>speed.
     if speed \<le> 0 then raise (RuntimeError ''conversion'')
     else let p = of_int (1000000 div speed) in ret (if 800 < p then 800 else p)))"

definition new_HMCMemorySystem :: "Config \<Rightarrow> (int \<Rightarrow> Controller) \<Rightarrow> HMCMemorySystem run" where
  "new_HMCMemorySystem cfg junk =
     (if \<not> IsHMC cfg then raise AbruptExit
      else run_bind (logic_period cfg) (\<lambda>p.
           run_bind (js_controllers cfg junk) (\<lambda>b.
           if num_links cfg < 0 then raise (RuntimeError ''length_error'')
           else ret
            \<lparr>hm_base = b, logic_clk = 0, ps_per_dram = 800, ps_per_logic = p, logic_ps = 0, dram_ps = 0,
             next_link = 0, links = num_links cfg, queue_depth = to_size_t (xbar_queue_depth cfg), resp_lookup_table = [],
             link_req_queues = (\<lambda>_. []), link_resp_queues = (\<lambda>_. []), quad_req_queues = (\<lambda>_. []),
             quad_resp_queues = (\<lambda>_. []), link_busy = (\<lambda>_. 0), quad_busy = (\<lambda>_. 0),
             link_age_counter = (\<lambda>_. 0), quad_age_counter = (\<lambda>_. 0)\<rparr>)))"

section \<open>Inserting requests\<close>

definition IterateNextLink :: "HMCMemorySystem \<Rightarrow> HMCMemorySystem run" where
  "IterateNextLink s =
     (if links s = 0 then raise DivideByZero else ret (s\<lparr>next_link := (next_link s + 1) mod links s\<rparr>))"

definition hm_WillAcceptTransaction :: "HMCMemorySystem \<Rightarrow> bool" where
  "hm_WillAcceptTransaction s \<longleftrightarrow> (\<exists>i\<in>set [0..links s - 1]. length (link_req_queues s i) < queue_depth s)"

definition InsertReqToLink :: "HMCRequest \<Rightarrow> int \<Rightarrow> HMCMemorySystem \<Rightarrow> (bool \<times> HMCMemorySystem) run" where
  "InsertReqToLink req link s =
     checked (link_in s link)
      (if length (link_req_queues s link) < queue_depth s
       then run_bind (new_HMCResponse (mem_operand req) (rq_type req) link (rq_quad req)) (\<lambda>resp.
              ret (True, s\<lparr>
                link_req_queues := (link_req_queues s)(link := link_req_queues s link @ [req\<lparr>rq_link := link\<rparr>]),
                resp_lookup_table := resp_lookup_table s @ [(resp_id resp, resp)],
                link_age_counter := (link_age_counter s)(link := 1),
                hm_base := (hm_base s)\<lparr>last_req_clk := js_clk (hm_base s)\<rparr>\<rparr>))
       else ret (False, s))"

text \<open>The loop over the other links, until it is back at the one it started from.\<close>

partial_function (option) try_links ::
    "HMCRequest \<Rightarrow> int \<Rightarrow> HMCMemorySystem \<Rightarrow> (bool \<times> HMCMemorySystem) run" where
  "try_links req start_link s =
     (if start_link = next_link s then ret (False, s)
      else (case InsertReqToLink req (next_link s) s of
              None \<Rightarrow> None
            | Some (Inl e) \<Rightarrow> raise e
            | Some (Inr (inserted, s1)) \<Rightarrow>
                (case IterateNextLink s1 of
                   None \<Rightarrow> None
                 | Some (Inl e) \<Rightarrow> raise e
                 | Some (Inr s2) \<Rightarrow> if inserted then ret (True, s2) else try_links req start_link s2)))"

definition InsertHMCReq :: "HMCRequest \<Rightarrow> HMCMemorySystem \<Rightarrow> (bool \<times> HMCMemorySystem) run" where
  "InsertHMCReq req s =
     run_bind (InsertReqToLink req (next_link s) s) (\<lambda>(is_inserted, s1).
     run_bind (IterateNextLink s1) (\<lambda>s2.
     if is_inserted then ret (True, s2) else try_links req (next_link s1) s2))"

text \<open>The request type of a whole block.\<close>

definition block_request :: "Config \<Rightarrow> bool \<Rightarrow> HMCReqType run" where
  "block_request cfg w =
     (if block_size cfg = 0 then ret (if w then WR0 else RD0)
      else if block_size cfg = 32 then ret (if w then WR32 else RD32)
      else if block_size cfg = 64 then ret (if w then WR64 else RD64)
      else if block_size cfg = 128 then ret (if w then WR128 else RD128)
      else if block_size cfg = 256 then ret (if w then WR256 else RD256)
      else raise AbruptExit)"

definition hm_AddTransaction :: "Config \<Rightarrow> 64 word \<Rightarrow> bool \<Rightarrow> HMCMemorySystem \<Rightarrow> (bool \<times> HMCMemorySystem) run" where
  "hm_AddTransaction cfg hex w s =
     run_bind (block_request cfg w) (\<lambda>t.
     run_bind (new_HMCRequest t hex (ds_GetChannel cfg hex)) (\<lambda>req. InsertHMCReq req s))"

section \<open>Arbitration order\<close>

text \<open>
  The comparison is between the age of the position to insert and the index in the queue, as
  in the source.
\<close>

fun age_insert :: "(int \<Rightarrow> int) \<Rightarrow> int \<Rightarrow> int list \<Rightarrow> int list" where
  "age_insert age pos [] = [pos]"
| "age_insert age pos (i # is) = (if i < age pos then pos # i # is else i # age_insert age pos is)"

definition BuildAgeQueue :: "64 word \<Rightarrow> int \<Rightarrow> (int \<Rightarrow> int) \<Rightarrow> int list run" where
  "BuildAgeQueue clk queue_len age =
     (if queue_len = 0 then raise DivideByZero
      else let start_pos = uint clk mod queue_len
           in ret (fold (\<lambda>i q. let pos = (i + start_pos) mod queue_len
                               in if age pos > 0 then age_insert age pos q else q)
                     [0..queue_len - 1] []))"

section \<open>Moving requests\<close>

definition drain_busy :: "(int \<Rightarrow> int) \<Rightarrow> int \<Rightarrow> int" where
  "drain_busy busy i = (if busy i > 0 then busy i - 2 else busy i)"

text \<open>From a quadrant to the controller of the vault.\<close>

definition drain_quad :: "Config \<Rightarrow> int \<Rightarrow> HMCMemorySystem \<Rightarrow> HMCMemorySystem run" where
  "drain_quad cfg i s =
     (case quad_req_queues s i of
        [] \<Rightarrow> ret s
      | req # rest \<Rightarrow>
          if length (quad_resp_queues s i) < queue_depth s \<and> rq_exit_time req \<le> logic_clk s
          then checked (ch_in cfg (rq_vault req))
                (let b = hm_base s; c = ctrls b (rq_vault req)
                 in if ct_WillAcceptTransaction (rq_is_write req) c
                    then ret (s\<lparr>hm_base := b\<lparr>ctrls := (ctrls b)(rq_vault req :=
                                   ct_AddTransaction (mk_Transaction (mem_operand req) (rq_is_write req)) c)\<rparr>,
                                quad_req_queues := (quad_req_queues s)(i := rest)\<rparr>)
                    else ret s)
          else ret s)"

text \<open>From a link to a quadrant; \<open>front()\<close> of an empty queue is undefined.\<close>

definition move_request :: "int \<Rightarrow> HMCMemorySystem \<Rightarrow> HMCMemorySystem run" where
  "move_request src s =
     (case link_req_queues s src of
        [] \<Rightarrow> raise OutOfBounds
      | req # rest \<Rightarrow>
          let q = rq_quad req
          in checked (quad_in q)
              (if length (quad_req_queues s q) < queue_depth s \<and> quad_busy s q \<le> 0
               then ret (s\<lparr>link_req_queues := (link_req_queues s)(src := rest),
                           quad_req_queues := (quad_req_queues s)(q := quad_req_queues s q @
                              [req\<lparr>rq_exit_time := logic_clk s + of_int (rq_flits req)\<rparr>]),
                           quad_busy := (quad_busy s)(q := rq_flits req),
                           link_age_counter := (link_age_counter s)(src := (if rest = [] then 0 else 1))\<rparr>)
               else ret (s\<lparr>link_age_counter := (link_age_counter s)(src := to_int32 (link_age_counter s src + 1))\<rparr>)))"

definition DrainRequests :: "Config \<Rightarrow> HMCMemorySystem \<Rightarrow> HMCMemorySystem run" where
  "DrainRequests cfg s =
     run_bind (for_run (drain_quad cfg) [0..3] s) (\<lambda>s1.
     let s2 = s1\<lparr>quad_busy := drain_busy (quad_busy s1)\<rparr>
     in run_bind (BuildAgeQueue (logic_clk s2) (links s2) (link_age_counter s2)) (\<lambda>age_queue.
        for_run move_request age_queue s2))"

section \<open>Moving responses\<close>

text \<open>The callbacks are collected as pairs of the address and whether the write callback is called.\<close>

definition resp_tag :: "HMCResponse \<Rightarrow> addr_t \<times> bool" where
  "resp_tag r = (resp_id r, rs_type r \<noteq> RD_RS)"

definition drain_link :: "int \<Rightarrow> HMCMemorySystem \<Rightarrow> (addr_t \<times> bool) list \<times> HMCMemorySystem" where
  "drain_link i s =
     (case link_resp_queues s i of
        [] \<Rightarrow> ([], s)
      | resp # rest \<Rightarrow>
          if rs_exit_time resp \<le> logic_clk s
          then ([resp_tag resp], s\<lparr>link_resp_queues := (link_resp_queues s)(i := rest)\<rparr>)
          else ([], s))"

fun drain_links :: "int list \<Rightarrow> HMCMemorySystem \<Rightarrow> (addr_t \<times> bool) list \<times> HMCMemorySystem" where
  "drain_links [] s = ([], s)"
| "drain_links (i # is) s = (let (ts, s1) = drain_link i s; (us, s2) = drain_links is s1 in (ts @ us, s2))"

definition move_response :: "int \<Rightarrow> HMCMemorySystem \<Rightarrow> HMCMemorySystem run" where
  "move_response src s =
     (case quad_resp_queues s src of
        [] \<Rightarrow> raise OutOfBounds
      | resp # rest \<Rightarrow>
          let l = rs_link resp
          in checked (link_in s l)
              (if length (link_resp_queues s l) < queue_depth s \<and> link_busy s l \<le> 0
               then ret (s\<lparr>quad_resp_queues := (quad_resp_queues s)(src := rest),
                           link_resp_queues := (link_resp_queues s)(l := link_resp_queues s l @
                              [resp\<lparr>rs_exit_time := logic_clk s + of_int (rs_flits resp)\<rparr>]),
                           link_busy := (link_busy s)(l := rs_flits resp),
                           quad_age_counter := (quad_age_counter s)(src := (if rest = [] then 0 else 1))\<rparr>)
               else ret (s\<lparr>quad_age_counter := (quad_age_counter s)(src := to_int32 (quad_age_counter s src + 1))\<rparr>)))"

definition DrainResponses :: "HMCMemorySystem \<Rightarrow> ((addr_t \<times> bool) list \<times> HMCMemorySystem) run" where
  "DrainResponses s =
     (let (ts, s1) = drain_links [0..links s - 1] s; s2 = s1\<lparr>link_busy := drain_busy (link_busy s1)\<rparr>
      in run_bind (BuildAgeQueue (logic_clk s2) 4 (quad_age_counter s2)) (\<lambda>age_queue.
         run_bind (for_run move_response age_queue s2) (\<lambda>s3. ret (ts, s3))))"

section \<open>The clock\<close>

definition VaultCallback :: "64 word \<Rightarrow> HMCMemorySystem \<Rightarrow> HMCMemorySystem run" where
  "VaultCallback req_id s =
     (case List.extract (\<lambda>e. fst e = req_id) (resp_lookup_table s) of
        None \<Rightarrow> raise NullDeref
      | Some (before, (_, resp), after) \<Rightarrow>
          checked (quad_in (rs_quad resp))
            (ret (s\<lparr>resp_lookup_table := before @ after,
                    quad_resp_queues := (quad_resp_queues s)(rs_quad resp := quad_resp_queues s (rs_quad resp) @ [resp]),
                    quad_age_counter := (quad_age_counter s)(rs_quad resp := 1)\<rparr>)))"

text \<open>
  The finished transactions of the vaults are called back in the order in which the loop
  returns them; \<open>VaultCallback\<close> touches no controller.
\<close>

definition DRAMClockTick :: "Config \<Rightarrow> Timing \<Rightarrow> HMCMemorySystem \<Rightarrow> HMCMemorySystem run" where
  "DRAMClockTick cfg tm s =
     (let (ts, b) = drain_all (js_clk (hm_base s)) [0..channels cfg - 1] (hm_base s)
      in run_bind (for_run (\<lambda>t. VaultCallback (fst t)) ts (s\<lparr>hm_base := b\<rparr>)) (\<lambda>s1.
         run_bind (js_advance cfg tm (hm_base s1)) (\<lambda>b1. ret (s1\<lparr>hm_base := b1\<rparr>))))"

definition logic_advance :: "HMCMemorySystem \<Rightarrow> HMCMemorySystem" where
  "logic_advance s = s\<lparr>logic_ps := logic_ps s + ps_per_logic s, logic_clk := logic_clk s + 1\<rparr>"

text \<open>The loop of logic cycles; \<open>called\<close> are the callbacks made so far.\<close>

partial_function (option) logic_cycles ::
    "Config \<Rightarrow> (addr_t \<times> bool) list \<Rightarrow> HMCMemorySystem \<Rightarrow> ((addr_t \<times> bool) list \<times> HMCMemorySystem) run" where
  "logic_cycles cfg called s =
     (if logic_ps s < dram_ps s + ps_per_dram s
      then (case DrainResponses s of
              None \<Rightarrow> None
            | Some (Inl e) \<Rightarrow> raise e
            | Some (Inr (ts, s1)) \<Rightarrow>
                (case DrainRequests cfg s1 of
                   None \<Rightarrow> None
                 | Some (Inl e) \<Rightarrow> raise e
                 | Some (Inr s2) \<Rightarrow> logic_cycles cfg (called @ ts) (logic_advance s2)))
      else ret (called, s))"

definition hm_ClockTick ::
    "Config \<Rightarrow> Timing \<Rightarrow> HMCMemorySystem \<Rightarrow> ((addr_t \<times> bool) list \<times> HMCMemorySystem) run" where
  "hm_ClockTick cfg tm s =
     run_bind
       (if dram_ps s = logic_ps s
        then run_bind (DrainResponses s) (\<lambda>(ts, s1).
             run_bind (DRAMClockTick cfg tm s1) (\<lambda>s2.
             run_bind (DrainRequests cfg s2) (\<lambda>s3. ret (ts, logic_advance s3))))
        else run_bind (DRAMClockTick cfg tm s) (\<lambda>s1. ret ([], s1)))
       (\<lambda>(ts, s1). run_bind (logic_cycles cfg ts s1) (\<lambda>(us, s2).
          ret (us, s2\<lparr>dram_ps := dram_ps s2 + ps_per_dram s2\<rparr>)))"

section \<open>The choice of the system\<close>

definition hmc_ops :: "Config \<Rightarrow> Timing \<Rightarrow> HMCMemorySystem MemorySystem" where
  "hmc_ops cfg tm =
     \<lparr>ms_WillAcceptTransaction = (\<lambda>_ _. hm_WillAcceptTransaction), ms_AddTransaction = hm_AddTransaction cfg,
      ms_ClockTick = hm_ClockTick cfg tm, ms_GetChannel = (\<lambda>a _. ds_GetChannel cfg a)\<rparr>"

text \<open>The class \<open>MemorySystem\<close> owns a system of either kind and passes every call on to it.\<close>

datatype BaseDRAMSystem = Jedec JedecDRAMSystem | Hmc HMCMemorySystem

definition new_MemorySystem ::
    "INIReader \<Rightarrow> Config \<Rightarrow> (int \<Rightarrow> Controller) \<Rightarrow> (Config \<times> BaseDRAMSystem) run" where
  "new_MemorySystem r c0 junk =
     run_bind (new_Config r c0) (\<lambda>cfg.
     if IsHMC cfg then run_bind (new_HMCMemorySystem cfg junk) (\<lambda>s. ret (cfg, Hmc s))
     else run_bind (new_JedecDRAMSystem cfg junk) (\<lambda>s. ret (cfg, Jedec s)))"

definition base_call :: "(JedecDRAMSystem \<Rightarrow> ('r \<times> JedecDRAMSystem) run) \<Rightarrow> (HMCMemorySystem \<Rightarrow> ('r \<times> HMCMemorySystem) run) \<Rightarrow>
    BaseDRAMSystem \<Rightarrow> ('r \<times> BaseDRAMSystem) run" where
  "base_call f g b =
     (case b of
        Jedec s \<Rightarrow> run_bind (f s) (\<lambda>(r, s1). ret (r, Jedec s1))
      | Hmc s \<Rightarrow> run_bind (g s) (\<lambda>(r, s1). ret (r, Hmc s1)))"

definition memory_ops :: "Config \<Rightarrow> Timing \<Rightarrow> BaseDRAMSystem MemorySystem" where
  "memory_ops cfg tm =
     \<lparr>ms_WillAcceptTransaction = (\<lambda>a w b. case b of Jedec s \<Rightarrow> js_WillAcceptTransaction cfg a w s | Hmc s \<Rightarrow> hm_WillAcceptTransaction s),
      ms_AddTransaction = (\<lambda>a w. base_call (js_AddTransaction cfg a w) (hm_AddTransaction cfg a w)),
      ms_ClockTick = base_call (js_ClockTick cfg tm) (hm_ClockTick cfg tm), ms_GetChannel = (\<lambda>a _. ds_GetChannel cfg a)\<rparr>"

end
