(* ===== verification/DS_Channel_Inv.thy ===== *)
theory DS_Channel_Inv
  imports DS_Channel
begin

text \<open>
  The channel state never aborts: while no rank is in self refresh, every read, write or
  refresh request gets an answer, and whatever it answers may be issued, which keeps the
  banks out of self refresh and the refresh queue well formed.
\<close>

section \<open>The invariant\<close>

definition refresh_cmd_ok :: "Config \<Rightarrow> Command \<Rightarrow> bool" where
  "refresh_cmd_ok cfg c \<longleftrightarrow>
     (cmd_type c = REFRESH \<and> cs_rank_in cfg (c_Rank c)) \<or>
     (cmd_type c = REFRESH_BANK \<and> cs_in cfg (c_Rank c) (c_Bankgroup c) (c_Bank c))"

definition cs_ok :: "Config \<Rightarrow> ChannelState \<Rightarrow> bool" where
  "cs_ok cfg cs \<longleftrightarrow>
     (\<forall>r g k. bank_ready (bank_states cs r g k)) \<and> (\<forall>r. \<not> rank_is_sref cs r) \<and>
     (\<forall>c\<in>set (refresh_q cs). refresh_cmd_ok cfg c)"

definition geometry_ok :: "Config \<Rightarrow> bool" where
  "geometry_ok cfg \<longleftrightarrow>
     0 < ranks cfg \<and> 0 < bankgroups cfg \<and> 0 < banks_per_group cfg \<and>
     banks cfg = bankgroups cfg * banks_per_group cfg"

lemma cs_ok_new: "cs_ok cfg new_ChannelState"
  by (simp add: cs_ok_def new_ChannelState_def new_BankState_def bank_ready_def)

text \<open>What the controller asks the channel state about.\<close>

definition request_ok :: "Config \<Rightarrow> Command \<Rightarrow> bool" where
  "request_ok cfg c \<longleftrightarrow>
     refresh_cmd_ok cfg c \<or> (IsReadWrite c \<and> cs_in cfg (c_Rank c) (c_Bankgroup c) (c_Bank c))"

text \<open>What may be issued in a state.\<close>

definition issuable :: "Config \<Rightarrow> ChannelState \<Rightarrow> Command \<Rightarrow> bool" where
  "issuable cfg cs c \<longleftrightarrow>
     (if IsRankCMD c
      then cmd_type c = REFRESH \<and> cs_rank_in cfg (c_Rank c) \<and>
        (\<forall>(j, k)\<in>set (rank_banks cfg). bs_state (bank_states cs (c_Rank c) j k) = CLOSED)
      else cs_in cfg (c_Rank c) (c_Bankgroup c) (c_Bank c) \<and> IsValid c \<and>
        (\<exists>req. bank_request req \<and>
           required_type (bank_states cs (c_Rank c) (c_Bankgroup c) (c_Bank c)) req = ret (cmd_type c)))"

lemma rank_banks_in: "(j, k) \<in> set (rank_banks cfg) \<longleftrightarrow> 0 \<le> j \<and> j < bankgroups cfg \<and> 0 \<le> k \<and> k < banks_per_group cfg"
  by (auto simp: rank_banks_def intro!: bexI [of _ j])

lemma length_rank_banks: "geometry_ok cfg \<Longrightarrow> int (length (rank_banks cfg)) = banks cfg"
  by (simp add: rank_banks_def geometry_ok_def length_concat comp_def sum_list_triv)

lemma request_bank_request: "request_ok cfg c \<Longrightarrow> bank_request c"
  by (auto simp: request_ok_def bank_request_def refresh_cmd_ok_def IsRefresh_def)

section \<open>Asking for the next command\<close>

text \<open>
  The scan over a rank: it finds a bank to precharge, or counts; when it counts every bank,
  all of them are closed and the last answer is the request itself.
\<close>

lemma rank_scan_spec:
  assumes ready: "\<And>j k. bank_ready (bank_states cs (c_Rank cmd) j k)" and ref: "cmd_type cmd = REFRESH"
  shows "\<exists>e n' l. rank_scan cs cmd clk ps n lst = ret (e, n', l) \<and> n' \<le> n + int (length ps) \<and>
    (case e of
       Some c \<Rightarrow> cmd_type c = PRECHARGE \<and> (\<exists>j k. (j, k) \<in> set ps \<and>
         cmd_addr c = mk_Address (- 1) (c_Rank cmd) j k (- 1) (- 1) \<and> bs_state (bank_states cs (c_Rank cmd) j k) = OPEN)
     | None \<Rightarrow> n' = n + int (length ps) \<longrightarrow>
         (\<forall>(j, k)\<in>set ps. bs_state (bank_states cs (c_Rank cmd) j k) = CLOSED) \<and>
         (ps \<noteq> [] \<longrightarrow> l = cmd) \<and> (ps = [] \<longrightarrow> l = lst))"
proof (induction ps arbitrary: n lst)
  case (Cons jk ps)
  obtain j k where jk: "jk = (j, k)" by (cases jk)
  let ?b = "bank_states cs (c_Rank cmd) j k"
  have req: "bank_request cmd" using ref by (simp add: bank_request_def IsRefresh_def)
  obtain r where r: "bank_GetReadyCommand ?b cmd clk = ret r"
      "IsValid r \<longrightarrow> cmd_addr r = cmd_addr cmd \<and> hex_addr r = hex_addr cmd \<and> required_type ?b cmd = ret (cmd_type r)"
    using bank_ready_command [OF ready req] by blast
  consider (inv) "\<not> IsValid r" | (pre) "IsValid r" "cmd_type r \<noteq> cmd_type cmd" | (eq) "IsValid r" "cmd_type r = cmd_type cmd"
    by blast
  then show ?case
  proof cases
    case inv
    obtain e n' l where "rank_scan cs cmd clk ps n r = ret (e, n', l)" "n' \<le> n + int (length ps)"
        "case e of Some c \<Rightarrow> cmd_type c = PRECHARGE \<and> (\<exists>j k. (j, k) \<in> set ps \<and>
         cmd_addr c = mk_Address (- 1) (c_Rank cmd) j k (- 1) (- 1) \<and> bs_state (bank_states cs (c_Rank cmd) j k) = OPEN)
        | None \<Rightarrow> True"
      using Cons.IH [of n r] by (fastforce split: option.splits)
    then show ?thesis using inv r(1) by (fastforce simp: jk split: option.splits)
  next
    case pre
    then have "required_type ?b cmd = ret (cmd_type r)" using r(2) by simp
    from required_type_cases [OF ready req this] pre(2) ref
    have "cmd_type r = PRECHARGE" "bs_state ?b = OPEN" by (auto simp: command_defs)
    then show ?thesis using pre r(1) by (auto simp: jk)
  next
    case eq
    then have rt: "required_type ?b cmd = ret (cmd_type r)" and same: "r = cmd" using r(2) by auto
    from required_type_cases [OF ready req rt] eq(2) ref have closed: "bs_state ?b = CLOSED"
      by (auto simp: command_defs)
    from Cons.IH [of "n + 1" r] obtain e n' l where
      "rank_scan cs cmd clk ps (n + 1) r = ret (e, n', l)" "n' \<le> n + 1 + int (length ps)"
      "case e of
         Some c \<Rightarrow> cmd_type c = PRECHARGE \<and> (\<exists>j k. (j, k) \<in> set ps \<and>
           cmd_addr c = mk_Address (- 1) (c_Rank cmd) j k (- 1) (- 1) \<and> bs_state (bank_states cs (c_Rank cmd) j k) = OPEN)
       | None \<Rightarrow> n' = n + 1 + int (length ps) \<longrightarrow>
           (\<forall>(j, k)\<in>set ps. bs_state (bank_states cs (c_Rank cmd) j k) = CLOSED) \<and>
           (ps \<noteq> [] \<longrightarrow> l = cmd) \<and> (ps = [] \<longrightarrow> l = r)"
      by blast
    then show ?thesis
      using eq r(1) closed same by (auto simp: jk split: option.splits)
  qed
qed simp

lemma cs_GetReadyCommand_spec:
  assumes ok: "cs_ok cfg cs" and geo: "geometry_ok cfg" and req: "request_ok cfg c"
  shows "\<exists>r. cs_GetReadyCommand cfg cs c clk = ret r \<and>
    (IsValid r \<longrightarrow> issuable cfg cs r \<and>
       (IsReadWrite r \<longrightarrow> IsReadWrite c \<and> cmd_type r = cmd_type c \<and> cmd_addr r = cmd_addr c \<and> hex_addr r = hex_addr c) \<and>
       (IsReadWrite c \<longrightarrow> \<not> IsRefresh r))"
proof (cases "IsRankCMD c")
  case True
  then have ref: "cmd_type c = REFRESH" "cs_rank_in cfg (c_Rank c)" "\<not> IsReadWrite c"
    using req by (auto simp: request_ok_def refresh_cmd_ok_def command_defs)
  have ready: "\<And>j k. bank_ready (bank_states cs (c_Rank c) j k)" using ok by (simp add: cs_ok_def)
  obtain e n l where s: "rank_scan cs c clk (rank_banks cfg) 0 no_Command = ret (e, n, l)"
      "n \<le> int (length (rank_banks cfg))"
      "case e of
         Some d \<Rightarrow> cmd_type d = PRECHARGE \<and> (\<exists>j k. (j, k) \<in> set (rank_banks cfg) \<and>
           cmd_addr d = mk_Address (- 1) (c_Rank c) j k (- 1) (- 1) \<and> bs_state (bank_states cs (c_Rank c) j k) = OPEN)
       | None \<Rightarrow> n = int (length (rank_banks cfg)) \<longrightarrow>
           (\<forall>(j, k)\<in>set (rank_banks cfg). bs_state (bank_states cs (c_Rank c) j k) = CLOSED) \<and>
           (rank_banks cfg \<noteq> [] \<longrightarrow> l = c)"
    using rank_scan_spec [OF ready ref(1), of clk "rank_banks cfg" 0 no_Command] by (fastforce split: option.splits)
  have ne: "rank_banks cfg \<noteq> []" using length_rank_banks [OF geo] geo
    by (auto simp: geometry_ok_def)
  show ?thesis
  proof (cases e)
    case None
    then show ?thesis
      using True ref s ne length_rank_banks [OF geo]
      by (auto simp: cs_GetReadyCommand_def issuable_def IsValid_def no_Command_def mk_Command_def command_defs)
  next
    case (Some d)
    then obtain j k where d: "cmd_type d = PRECHARGE" "(j, k) \<in> set (rank_banks cfg)"
        "cmd_addr d = mk_Address (- 1) (c_Rank c) j k (- 1) (- 1)" "bs_state (bank_states cs (c_Rank c) j k) = OPEN"
      using s(3) by auto
    have "required_type (bank_states cs (c_Rank c) j k) c = ret PRECHARGE"
      using d(4) ref(1) by (simp add: required_type_def command_defs)
    moreover have "bank_request c" by (rule request_bank_request [OF req])
    ultimately have "issuable cfg cs d"
      using d ref(2) by (auto simp: issuable_def command_defs mk_Address_def cs_in_def rank_banks_in)
    then show ?thesis
      using True ref s(1) Some d(1) by (auto simp: cs_GetReadyCommand_def command_defs)
  qed
next
  case False
  let ?b = "bank_states cs (c_Rank c) (c_Bankgroup c) (c_Bank c)"
  have inb: "cs_in cfg (c_Rank c) (c_Bankgroup c) (c_Bank c)"
    using req False by (auto simp: request_ok_def refresh_cmd_ok_def command_defs)
  have ready: "bank_ready ?b" and br: "bank_request c"
    using ok request_bank_request [OF req] by (simp_all add: cs_ok_def)
  obtain r where r: "bank_GetReadyCommand ?b c clk = ret r"
      "IsValid r \<longrightarrow> cmd_addr r = cmd_addr c \<and> hex_addr r = hex_addr c \<and> required_type ?b c = ret (cmd_type r)"
    using bank_ready_command [OF ready br] by blast
  show ?thesis
  proof (cases "IsValid r")
    case True
    then have rt: "required_type ?b c = ret (cmd_type r)" and addr: "cmd_addr r = cmd_addr c" "hex_addr r = hex_addr c"
      using r(2) by auto
    note cases = required_type_cases [OF ready br rt]
    have nr: "\<not> IsRankCMD r"
      using cases False by (auto simp: command_defs)
    have "issuable cfg cs r" using nr inb br rt True addr(1) by (auto simp: issuable_def)
    moreover have "IsReadWrite r \<longrightarrow> IsReadWrite c \<and> cmd_type r = cmd_type c"
      "IsReadWrite c \<longrightarrow> \<not> IsRefresh r"
      using cases by (auto simp: command_defs)
    ultimately show ?thesis
      using False inb r(1) True addr
      by (auto simp: cs_GetReadyCommand_def IsValid_def no_Command_def mk_Command_def)
  qed (use False inb r(1) in \<open>simp add: cs_GetReadyCommand_def IsValid_def no_Command_def mk_Command_def\<close>)
qed

section \<open>Issuing a command\<close>

lemma bank_ready_timings [simp]: "bank_ready (apply_timings ts clk b) = bank_ready b"
  unfolding apply_timings_def by (induction ts arbitrary: b) (auto split: prod.splits)

lemma cs_ok_time_banks [simp]: "cs_ok cfg cs \<Longrightarrow> cs_ok cfg (time_banks P ts clk cs)"
  by (simp add: cs_ok_def time_banks_def)

lemma cs_ok_activation [simp]: "cs_ok cfg (UpdateActivationTimes cfg r t cs) = cs_ok cfg cs"
  by (simp add: cs_ok_def UpdateActivationTimes_def Let_def)

lemmas timing_update_defs = UpdateSameBankTiming_def UpdateOtherBanksSameBankgroupTiming_def
  UpdateOtherBankgroupsSameRankTiming_def UpdateOtherRanksTiming_def UpdateSameRankTiming_def

lemma cs_UpdateTiming_ok:
  assumes "cs_ok cfg cs" "IsValid cmd"
  shows "\<exists>cs'. cs_UpdateTiming cfg tm cmd clk cs = ret cs' \<and> cs_ok cfg cs'"
proof -
  have "cmd_type cmd \<in> set [ACTIVATE, READ, READ_PRECHARGE, WRITE, WRITE_PRECHARGE, PRECHARGE, REFRESH_BANK] \<or>
      cmd_type cmd \<in> set [REFRESH, SREF_ENTER, SREF_EXIT]"
    using assms(2) by (cases "cmd_type cmd") (simp_all add: IsValid_def)
  then show ?thesis
    using assms(1) unfolding cs_UpdateTiming_def Let_def timing_update_defs
    by (cases "cmd_type cmd \<in> set [ACTIVATE, READ, READ_PRECHARGE, WRITE, WRITE_PRECHARGE, PRECHARGE, REFRESH_BANK]")
      (simp_all only: if_True if_False, auto intro!: cs_ok_time_banks split: if_splits)
qed

lemma cs_ok_upd_bank: "cs_ok cfg cs \<Longrightarrow> bank_ready b \<Longrightarrow> cs_ok cfg (upd_bank r g k b cs)"
  by (simp add: cs_ok_def upd_bank_def)

lemma set_remove_first: "set (remove_first P xs) \<subseteq> set xs"
  by (induction xs) auto

lemma cs_ok_need_refresh:
  "cs_ok cfg cs \<Longrightarrow> cs_ok cfg (RankNeedRefresh r False cs)"
  "cs_ok cfg cs \<Longrightarrow> cs_ok cfg (BankNeedRefresh r g k False cs)"
  "cs_ok cfg cs \<Longrightarrow> cs_rank_in cfg r \<Longrightarrow> cs_ok cfg (RankNeedRefresh r True cs)"
  "cs_ok cfg cs \<Longrightarrow> cs_in cfg r g k \<Longrightarrow> cs_ok cfg (BankNeedRefresh r g k True cs)"
  using set_remove_first
  by (fastforce simp: cs_ok_def RankNeedRefresh_def BankNeedRefresh_def refresh_cmd_ok_def mk_Command_def mk_Address_def)+

text \<open>Refreshing a rank whose banks are closed changes none of them.\<close>

lemma refresh_rank_banks:
  assumes "cmd_type cmd = REFRESH" "\<forall>(j, k)\<in>set ps. bs_state (bank_states cs r j k) = CLOSED"
  shows "for_run (cs_update_bank cmd r) ps cs = ret cs"
  using assms
proof (induction ps)
  case (Cons jk ps)
  have "upd_bank r (fst jk) (snd jk) (bank_states cs r (fst jk) (snd jk)) cs = cs"
    by (simp add: upd_bank_def)
  then have "cs_update_bank cmd r jk cs = ret cs"
    using Cons.prems by (auto simp: cs_update_bank_def bank_UpdateState_def split: prod.splits)
  with Cons show ?case by simp
qed simp

lemma cs_UpdateState_ok:
  assumes ok: "cs_ok cfg cs" and iss: "issuable cfg cs cmd"
  shows "\<exists>cs'. cs_UpdateState cfg cmd cs = ret cs' \<and> cs_ok cfg cs'"
proof (cases "IsRankCMD cmd")
  case True
  then have "cmd_type cmd = REFRESH" "cs_rank_in cfg (c_Rank cmd)"
      "\<forall>(j, k)\<in>set (rank_banks cfg). bs_state (bank_states cs (c_Rank cmd) j k) = CLOSED"
    using iss by (auto simp: issuable_def)
  then show ?thesis
    using True ok cs_ok_need_refresh(1) [OF ok] refresh_rank_banks [of cmd "rank_banks cfg" cs "c_Rank cmd"]
    by (simp add: cs_UpdateState_def Let_def IsRefresh_def)
next
  case False
  let ?b = "bank_states cs (c_Rank cmd) (c_Bankgroup cmd) (c_Bank cmd)"
  obtain req where req: "cs_in cfg (c_Rank cmd) (c_Bankgroup cmd) (c_Bank cmd)" "bank_request req"
      "required_type ?b req = ret (cmd_type cmd)"
    using iss False by (auto simp: issuable_def)
  have "bank_ready ?b" using ok by (simp add: cs_ok_def)
  from bank_update_accepts [OF this req(2,3)] obtain b' where
    b': "bank_UpdateState cmd ?b = ret b'" "bank_ready b'" by blast
  have "cs_update_bank cmd (c_Rank cmd) (c_Bankgroup cmd, c_Bank cmd) cs =
      ret (upd_bank (c_Rank cmd) (c_Bankgroup cmd) (c_Bank cmd) b' cs)"
    by (simp add: cs_update_bank_def b'(1))
  then show ?thesis
    using False req(1) cs_ok_upd_bank [OF ok b'(2)] cs_ok_need_refresh(2)
    by (simp add: cs_UpdateState_def Let_def)
qed

lemma issuable_valid: "issuable cfg cs cmd \<Longrightarrow> IsValid cmd"
  by (auto simp: issuable_def IsRankCMD_def IsValid_def split: if_splits)

lemma UpdateTimingAndStates_ok:
  assumes "cs_ok cfg cs" "issuable cfg cs cmd"
  shows "\<exists>cs'. UpdateTimingAndStates cfg tm cmd clk cs = ret cs' \<and> cs_ok cfg cs'"
proof -
  obtain cs1 where "cs_UpdateState cfg cmd cs = ret cs1" "cs_ok cfg cs1"
    using cs_UpdateState_ok [OF assms] by blast
  with cs_UpdateTiming_ok [OF _ issuable_valid [OF assms(2)]] show ?thesis
    by (auto simp: UpdateTimingAndStates_def)
qed

section \<open>Refresh\<close>

definition refresh_ok :: "Config \<Rightarrow> Refresh \<Rightarrow> bool" where
  "refresh_ok cfg rf \<longleftrightarrow>
     (of_int (refresh_interval rf) :: 64 word) \<noteq> 0 \<and> cs_in cfg (next_rank rf) (next_bg rf) (next_bank rf)"

lemma IterateNext_ok:
  assumes "geometry_ok cfg" "refresh_ok cfg rf"
    "refresh_policy cfg = RANK_LEVEL_STAGGERED \<or> refresh_policy cfg = BANK_LEVEL_STAGGERED"
  shows "\<exists>rf'. IterateNext cfg rf = ret rf' \<and> refresh_ok cfg rf'"
  using assms
  by (auto simp: IterateNext_def Let_def refresh_ok_def cs_in_def cs_rank_in_def geometry_ok_def)

lemma InsertRefresh_ok:
  assumes geo: "geometry_ok cfg" and rf: "refresh_ok cfg rf" and ok: "cs_ok cfg cs"
    and pol: "refresh_policy cfg \<noteq> POLICY_SIZE"
  shows "\<exists>rf' cs'. InsertRefresh cfg rf cs = ret (rf', cs') \<and> refresh_ok cfg rf' \<and> cs_ok cfg cs'"
proof (cases "refresh_policy cfg")
  case RANK_LEVEL_SIMULTANEOUS
  have "cs_rank_in cfg i" if "first_awake_rank cfg cs = Some i" for i
    using that by (auto simp: first_awake_rank_def cs_rank_in_def find_Some_iff dest!: nth_mem [of _ "[0..ranks cfg - 1]"])
  with RANK_LEVEL_SIMULTANEOUS rf ok show ?thesis
    by (auto simp: InsertRefresh_def cs_ok_need_refresh(3) split: option.splits)
next
  case RANK_LEVEL_STAGGERED
  then show ?thesis
    using IterateNext_ok [OF geo rf] rf ok cs_ok_need_refresh(3) [OF ok]
    by (auto simp: InsertRefresh_def Let_def refresh_ok_def cs_in_def)
next
  case BANK_LEVEL_STAGGERED
  then show ?thesis
    using IterateNext_ok [OF geo rf] rf ok cs_ok_need_refresh(4) [OF ok]
    by (auto simp: InsertRefresh_def Let_def refresh_ok_def)
qed (use pol in simp)

lemma refresh_ClockTick_ok:
  assumes geo: "geometry_ok cfg" and rf: "refresh_ok cfg rf" and ok: "cs_ok cfg cs"
    and pol: "refresh_policy cfg \<noteq> POLICY_SIZE"
  shows "\<exists>rf' cs'. refresh_ClockTick cfg rf cs = ret (rf', cs') \<and> refresh_ok cfg rf' \<and> cs_ok cfg cs'"
  using InsertRefresh_ok [OF assms] rf ok
  by (auto simp: refresh_ClockTick_def Let_def refresh_ok_def)

end
