(* ===== verification/DS_CmdQueue_Inv.thy ===== *)
theory DS_CmdQueue_Inv
  imports DS_CmdQueue DS_Channel_Inv
begin

text \<open>
  The command queues: every queued command is a read or write in the queue of its bank; a
  command that the queues offer may be issued, and a read or write that they offer was
  taken from them exactly once.
\<close>

section \<open>The invariant\<close>

definition cmd_home :: "Config \<Rightarrow> CommandQueue \<Rightarrow> int \<Rightarrow> Command \<Rightarrow> bool" where
  "cmd_home cfg q i c \<longleftrightarrow>
     IsReadWrite c \<and> cs_in cfg (c_Rank c) (c_Bankgroup c) (c_Bank c) \<and>
     GetQueueIndex cfg q (c_Rank c) (c_Bankgroup c) (c_Bank c) = i"

definition cq_ok :: "Config \<Rightarrow> CommandQueue \<Rightarrow> bool" where
  "cq_ok cfg q \<longleftrightarrow>
     queue_in q (queue_idx q) \<and>
     (\<forall>r g k. cs_in cfg r g k \<longrightarrow> queue_in q (GetQueueIndex cfg q r g k)) \<and>
     (\<forall>i. \<forall>c\<in>set (queues q i). cmd_home cfg q i c)"

definition cmds_of :: "CommandQueue \<Rightarrow> Command multiset" where
  "cmds_of q = (\<Sum>i\<in>{0..<num_queues q}. mset (queues q i))"

lemma cmds_of_upd:
  assumes "queue_in q i"
  shows "cmds_of (upd_queue i cs q) + mset (queues q i) = cmds_of q + mset cs"
proof -
  have i: "i \<in> {0..<num_queues q}" using assms by (simp add: queue_in_def)
  show ?thesis
    using i by (simp add: cmds_of_def upd_queue_def sum.remove [where x = i] add.commute add.left_commute)
qed

lemma cmds_of_cong [simp]:
  "cmds_of (q\<lparr>queue_idx := i\<rparr>) = cmds_of q" "cmds_of (q\<lparr>ref_q_indices := s\<rparr>) = cmds_of q"
  "cmds_of (q\<lparr>is_in_ref := b\<rparr>) = cmds_of q" "cmds_of (q\<lparr>cq_clk := t\<rparr>) = cmds_of q"
  "cmds_of (q\<lparr>rank_q_empty := e\<rparr>) = cmds_of q"
  by (simp_all add: cmds_of_def)

lemma cq_ok_cong:
  "cq_ok cfg (q\<lparr>ref_q_indices := s\<rparr>) = cq_ok cfg q" "cq_ok cfg (q\<lparr>is_in_ref := b\<rparr>) = cq_ok cfg q"
  "cq_ok cfg (q\<lparr>cq_clk := t\<rparr>) = cq_ok cfg q" "cq_ok cfg (q\<lparr>rank_q_empty := e\<rparr>) = cq_ok cfg q"
  by (simp_all add: cq_ok_def cmd_home_def GetQueueIndex_def queue_in_def)

lemma cq_ok_new:
  assumes "geometry_ok cfg" "queue_structure cfg = ''PER_BANK'' \<or> queue_structure cfg = ''PER_RANK''"
  shows "\<exists>q. new_CommandQueue cfg = ret q \<and> cq_ok cfg q \<and> cmds_of q = {#} \<and> cq_clk q = 0 \<and>
    queue_size q = to_size_t (cmd_queue_size cfg)"
proof -
  have idx: "0 \<le> r * B + g * p + k \<and> r * B + g * p + k < B * n"
    if "0 \<le> r" "r < n" "0 \<le> g" "g < G" "0 \<le> k" "k < p" "B = G * p" for r n g G k p B :: int
  proof -
    have "(g + 1) * p \<le> G * p" using that by (intro mult_right_mono) auto
    then have in_rank: "g * p + k < B" using that by (simp add: algebra_simps)
    have "0 \<le> B" using that by simp
    then have "(r + 1) * B \<le> n * B" using that by (intro mult_right_mono) auto
    with in_rank that show ?thesis by (simp add: algebra_simps)
  qed
  have one: "0 < banks cfg * ranks cfg" using assms(1) by (simp add: geometry_ok_def)
  show ?thesis
    using assms one idx [of _ "ranks cfg" _ "bankgroups cfg" _ "banks_per_group cfg" "banks cfg"]
    by (auto simp: new_CommandQueue_def Let_def cq_ok_def queue_in_def GetQueueIndex_def cs_in_def cs_rank_in_def
        geometry_ok_def cmds_of_def)
qed

section \<open>Taking a command\<close>

lemma first_ready_spec:
  assumes ok: "cs_ok cfg cs" and geo: "geometry_ok cfg"
    and cmds: "\<forall>c\<in>set rest. IsReadWrite c \<and> cs_in cfg (c_Rank c) (c_Bankgroup c) (c_Bank c)"
  shows "\<exists>r st'. first_ready cfg cs clk pre rest st = ret (r, st') \<and>
    (IsValid r \<longrightarrow> issuable cfg cs r \<and> \<not> IsRefresh r) \<and>
    (IsReadWrite r \<longrightarrow> (\<exists>c\<in>set rest. cmd_type r = cmd_type c \<and> cmd_addr r = cmd_addr c \<and> hex_addr r = hex_addr c))"
  using cmds
proof (induction rest arbitrary: pre st)
  case Nil
  show ?case by (auto simp: no_Command_def mk_Command_def command_defs)
next
  case (Cons c post)
  have "request_ok cfg c" using Cons.prems by (simp add: request_ok_def)
  from cs_GetReadyCommand_spec [OF ok geo this, of clk] obtain r where
    r: "cs_GetReadyCommand cfg cs c clk = ret r"
      "IsValid r \<longrightarrow> issuable cfg cs r \<and>
       (IsReadWrite r \<longrightarrow> cmd_type r = cmd_type c \<and> cmd_addr r = cmd_addr c \<and> hex_addr r = hex_addr c) \<and> \<not> IsRefresh r"
    using Cons.prems by auto
  have IH: "\<exists>r st'. first_ready cfg cs clk (pre @ [c]) post s1 = ret (r, st') \<and>
      (IsValid r \<longrightarrow> issuable cfg cs r \<and> \<not> IsRefresh r) \<and>
      (IsReadWrite r \<longrightarrow> (\<exists>c\<in>set (c # post). cmd_type r = cmd_type c \<and> cmd_addr r = cmd_addr c \<and> hex_addr r = hex_addr c))"
    for s1
    using Cons.IH [of "pre @ [c]" s1] Cons.prems by fastforce
  show ?case
  proof (cases "IsValid r \<and> (cmd_type r \<noteq> PRECHARGE \<longrightarrow> \<not> (IsWriteC r \<and> HasRWDependency pre c)) \<and>
      (cmd_type r = PRECHARGE \<longrightarrow> fst (ArbitratePrecharge cs pre c post st))")
    case True
    then have "\<exists>st'. first_ready cfg cs clk pre (c # post) st = ret (r, st')"
      using r(1) by (cases "ArbitratePrecharge cs pre c post st") auto
    then show ?thesis using True r(2) by auto
  next
    case False
    then have "\<exists>s1. first_ready cfg cs clk pre (c # post) st = first_ready cfg cs clk (pre @ [c]) post s1"
      using r(1) by (cases "ArbitratePrecharge cs pre c post st") auto
    then show ?thesis using IH by metis
  qed
qed

lemma mset_remove_first:
  "\<exists>x\<in>set xs. P x \<Longrightarrow> \<exists>x. P x \<and> x \<in> set xs \<and> mset xs = add_mset x (mset (remove_first P xs))"
proof (induction xs)
  case (Cons y xs)
  show ?case
  proof (cases "P y")
    case False
    then obtain x where "P x" "x \<in> set xs" "mset xs = add_mset x (mset (remove_first P xs))"
      using Cons by auto
    with False show ?thesis by (intro exI [of _ x]) auto
  qed auto
qed simp

lemma cq_ok_upd:
  assumes "cq_ok cfg q" "\<forall>c\<in>set cs. cmd_home cfg q i c"
  shows "cq_ok cfg (upd_queue i cs q)"
  using assms
  by (auto simp: cq_ok_def cmd_home_def GetQueueIndex_def queue_in_def upd_queue_def)

lemma EraseRWCommand_spec:
  assumes ok: "cq_ok cfg q" and c: "c \<in> set (queues q i)"
    and same: "cmd_type r = cmd_type c" "cmd_addr r = cmd_addr c" "hex_addr r = hex_addr c"
  shows "\<exists>q' d. EraseRWCommand cfg r q = ret q' \<and> cq_ok cfg q' \<and> cmds_of q = add_mset d (cmds_of q') \<and>
    cmd_type d = cmd_type r \<and> hex_addr d = hex_addr r \<and> cq_clk q' = cq_clk q"
proof -
  let ?hit = "\<lambda>x. hex_addr r = hex_addr x \<and> cmd_type r = cmd_type x"
  have home: "cmd_home cfg q i c" using ok c by (simp add: cq_ok_def)
  then have i: "GetQueueIndex cfg q (c_Rank r) (c_Bankgroup r) (c_Bank r) = i" "queue_in q i"
    using ok same(2) by (auto simp: cmd_home_def cq_ok_def)
  let ?rest = "remove_first ?hit (queues q i)"
  have "\<exists>x\<in>set (queues q i). ?hit x" using c same by (intro bexI [of _ c]) auto
  from mset_remove_first [OF this] obtain d where d: "?hit d" "mset (queues q i) = add_mset d (mset ?rest)"
    by blast
  have "cq_ok cfg (upd_queue i ?rest q)"
    using set_remove_first [of ?hit "queues q i"] ok by (intro cq_ok_upd [OF ok]) (auto simp: cq_ok_def)
  moreover have "cmds_of q = add_mset d (cmds_of (upd_queue i ?rest q))"
    using cmds_of_upd [OF i(2), of ?rest] d(2) by simp
  moreover have "EraseRWCommand cfg r q = ret (upd_queue i ?rest q)"
    using i c same by (auto simp: EraseRWCommand_def Let_def)
  ultimately show ?thesis using d(1) by (auto simp: upd_queue_def)
qed

definition offered :: "Config \<Rightarrow> ChannelState \<Rightarrow> CommandQueue \<Rightarrow> Command \<Rightarrow> CommandQueue \<Rightarrow> bool" where
  "offered cfg cs q r q' \<longleftrightarrow>
     cq_ok cfg q' \<and> cq_clk q' = cq_clk q \<and> (IsValid r \<longrightarrow> issuable cfg cs r \<and> \<not> IsRefresh r) \<and>
     (if IsReadWrite r
      then \<exists>d. cmds_of q = add_mset d (cmds_of q') \<and> cmd_type d = cmd_type r \<and> hex_addr d = hex_addr r
      else cmds_of q' = cmds_of q)"

lemma next_queue_ok:
  assumes "cq_ok cfg q"
  shows "cq_ok cfg (q\<lparr>queue_idx := next_queue_idx q\<rparr>)" "queue_in q (next_queue_idx q)"
  using assms by (auto simp: cq_ok_def queue_in_def next_queue_idx_def cmd_home_def GetQueueIndex_def)

lemma IsReadWrite_valid: "IsReadWrite r \<Longrightarrow> IsValid r"
  by (auto simp: command_defs)

lemma issue_scan_spec:
  assumes ok: "cs_ok cfg cs" and geo: "geometry_ok cfg" and cq: "cq_ok cfg q"
  shows "\<exists>r q' st'. issue_scan cfg cs n q st = ret (r, q', st') \<and> offered cfg cs q r q'"
  using cq
proof (induction n arbitrary: q st)
  case 0
  then show ?case by (auto simp: offered_def no_Command_def mk_Command_def command_defs)
next
  case (Suc n)
  let ?q1 = "q\<lparr>queue_idx := next_queue_idx q\<rparr>" and ?i = "next_queue_idx q"
  note nq = next_queue_ok [OF Suc.prems]
  have in1: "queue_in ?q1 (queue_idx ?q1)" using nq(2) by (simp add: queue_in_def)
  have cong: "offered cfg cs q r q' \<longleftrightarrow> offered cfg cs ?q1 r q'" for r q'
    by (simp add: offered_def)
  have IH: "\<exists>r q' st'. issue_scan cfg cs n ?q1 s1 = ret (r, q', st') \<and> offered cfg cs q r q'" for s1
    using Suc.IH [OF nq(1)] by (simp add: cong)
  show ?case
  proof (cases "is_in_ref q \<and> ref_q_indices q ?i")
    case True
    then show ?thesis using IH [of st] in1 by (simp add: Let_def)
  next
    case False
    have "\<forall>c\<in>set (queues q ?i). IsReadWrite c \<and> cs_in cfg (c_Rank c) (c_Bankgroup c) (c_Bank c)"
      using Suc.prems by (auto simp: cq_ok_def cmd_home_def)
    from first_ready_spec [OF ok geo this, of "cq_clk q" "[]" st] obtain r st1 where
      r: "first_ready cfg cs (cq_clk q) [] (queues q ?i) st = ret (r, st1)"
        "IsValid r \<longrightarrow> issuable cfg cs r \<and> \<not> IsRefresh r"
        "IsReadWrite r \<longrightarrow> (\<exists>c\<in>set (queues q ?i). cmd_type r = cmd_type c \<and> cmd_addr r = cmd_addr c \<and> hex_addr r = hex_addr c)"
      by blast
    have step: "issue_scan cfg cs (Suc n) q st =
        (if IsValid r then if IsReadWrite r then run_bind (EraseRWCommand cfg r ?q1) (\<lambda>q2. ret (r, q2, st1))
           else ret (r, ?q1, st1) else issue_scan cfg cs n ?q1 st1)"
      using False in1 r(1) by (auto simp: Let_def GetFirstReadyInQueue_def)
    consider "\<not> IsValid r" | "IsReadWrite r" | "IsValid r" "\<not> IsReadWrite r" by blast
    then show ?thesis
    proof cases
      case 1
      then show ?thesis using step IH [of st1] by simp
    next
      case 2
      then obtain c where c: "c \<in> set (queues ?q1 ?i)" "cmd_type r = cmd_type c" "cmd_addr r = cmd_addr c" "hex_addr r = hex_addr c"
        using r(3) by auto
      from EraseRWCommand_spec [OF nq(1) c] obtain q' d where
        "EraseRWCommand cfg r ?q1 = ret q'" "cq_ok cfg q'" "cmds_of ?q1 = add_mset d (cmds_of q')"
        "cmd_type d = cmd_type r" "hex_addr d = hex_addr r" "cq_clk q' = cq_clk ?q1" by blast
      then show ?thesis using step 2 IsReadWrite_valid [OF 2] r(2) by (auto simp: offered_def)
    next
      case 3
      then show ?thesis using step nq(1) r(2) by (simp add: offered_def)
    qed
  qed
qed

section \<open>Refreshing and filling\<close>

lemma FinishRefresh_spec:
  assumes ok: "cs_ok cfg cs" and geo: "geometry_ok cfg" and cq: "cq_ok cfg q" and w: "IsRefreshWaiting cs"
  shows "\<exists>r q'. FinishRefresh cfg cs q = ret (r, q') \<and> cq_ok cfg q' \<and> cmds_of q' = cmds_of q \<and>
    cq_clk q' = cq_clk q \<and> (IsValid r \<longrightarrow> issuable cfg cs r) \<and> \<not> IsReadWrite r"
proof -
  obtain c cs' where c: "refresh_q cs = c # cs'" using w by (cases "refresh_q cs") (auto simp: IsRefreshWaiting_def)
  have rc: "refresh_cmd_ok cfg c" using ok c by (simp add: cs_ok_def)
  define q1 where "q1 = (if is_in_ref q then q else (GetRefQIndices cfg c q)\<lparr>is_in_ref := True\<rparr>)"
  have q1: "cq_ok cfg q1" "cmds_of q1 = cmds_of q" "cq_clk q1 = cq_clk q"
    using cq by (auto simp: q1_def GetRefQIndices_def cq_ok_cong)
  obtain r where r: "cs_GetReadyCommand cfg cs c (cq_clk q1) = ret r"
      "IsValid r \<longrightarrow> issuable cfg cs r \<and> (IsReadWrite r \<longrightarrow> IsReadWrite c)"
    using cs_GetReadyCommand_spec [OF ok geo, of c] rc by (auto simp: request_ok_def)
  have "\<not> IsReadWrite c" using rc by (auto simp: refresh_cmd_ok_def command_defs)
  then have "\<not> IsReadWrite r" using r(2) IsReadWrite_valid [of r] by blast
  then show ?thesis
    using c r q1 by (auto simp: FinishRefresh_def Let_def q1_def [symmetric] cq_ok_cong)
qed

lemma WillAcceptCommand_ok:
  "cq_ok cfg q \<Longrightarrow> cs_in cfg r g k \<Longrightarrow>
     WillAcceptCommand cfg q r g k = ret (length (queues q (GetQueueIndex cfg q r g k)) < queue_size q)"
  by (simp add: WillAcceptCommand_def Let_def cq_ok_def)

lemma AddCommand_ok:
  assumes ok: "cq_ok cfg q" and rw: "IsReadWrite c" and inb: "cs_in cfg (c_Rank c) (c_Bankgroup c) (c_Bank c)"
    and room: "WillAcceptCommand cfg q (c_Rank c) (c_Bankgroup c) (c_Bank c) = ret True"
  shows "\<exists>q'. AddCommand cfg c q = ret (True, q') \<and> cq_ok cfg q' \<and> cmds_of q' = add_mset c (cmds_of q) \<and>
    cq_clk q' = cq_clk q"
proof -
  let ?i = "GetQueueIndex cfg q (c_Rank c) (c_Bankgroup c) (c_Bank c)"
  have i: "queue_in q ?i" using ok inb by (simp add: cq_ok_def)
  have len: "length (queues q ?i) < queue_size q" using room i by (simp add: WillAcceptCommand_def Let_def)
  let ?q1 = "upd_queue ?i (queues q ?i @ [c]) q"
  have "cq_ok cfg ?q1"
    using ok rw inb by (intro cq_ok_upd [OF ok]) (auto simp: cmd_home_def cq_ok_def)
  moreover have "cmds_of ?q1 = add_mset c (cmds_of q)"
    using cmds_of_upd [OF i, of "queues q ?i @ [c]"] by simp
  ultimately show ?thesis
    using i len by (simp add: AddCommand_def Let_def cq_ok_cong upd_queue_def)
qed

end
