(* ===== verification/DS_Controller_Inv.thy ===== *)
theory DS_Controller_Inv
  imports DS_Controller DS_CmdQueue_Inv
begin

text \<open>
  A controller never aborts and loses no transaction: every queued read or write belongs
  to a pending transaction, no address is queued twice, and over any operation the
  transactions taken, pending and returned add up. Self refresh is off.
\<close>

section \<open>The invariant\<close>

definition trans_of :: "Controller \<Rightarrow> Transaction multiset" where
  "trans_of c = mset (read_queue c) + mset (write_buffer c) + mset (ct_unified_queue c)"

text \<open>How often an address is waiting as a command or as a transaction.\<close>

definition entries :: "Controller \<Rightarrow> bool \<Rightarrow> 64 word \<Rightarrow> nat" where
  "entries c w a =
     size {#x \<in># cmds_of (ct_queue c). IsWriteC x = w \<and> hex_addr x = a#} +
     size {#t \<in># trans_of c. tr_is_write t = w \<and> tr_addr t = a#}"

definition pending_of :: "bool \<Rightarrow> Controller \<Rightarrow> (64 word \<times> Transaction) list" where
  "pending_of w c = (if w then pending_wr_q c else pending_rd_q c)"

definition books_ok :: "Controller \<Rightarrow> bool" where
  "books_ok c \<longleftrightarrow>
     (\<forall>w a. entries c w a \<le> 1 \<and> entries c w a \<le> mm_count (pending_of w c) a) \<and>
     (\<forall>w. \<forall>(a, t)\<in>set (pending_of w c). tr_addr t = a \<and> tr_is_write t = w) \<and>
     (\<forall>t\<in>set (read_queue c). \<not> tr_is_write t) \<and> (\<forall>t\<in>set (write_buffer c). tr_is_write t)"

definition ct_ok :: "Config \<Rightarrow> Controller \<Rightarrow> bool" where
  "ct_ok cfg c \<longleftrightarrow>
     cs_ok cfg (ct_channel c) \<and> cq_ok cfg (ct_queue c) \<and> refresh_ok cfg (ct_refresh c) \<and> books_ok c \<and>
     is_unified_queue c = unified_queue cfg \<and> trans_capacity c = to_size_t (trans_queue_size cfg)"

text \<open>The transactions that were taken and not yet returned.\<close>

definition ct_pend :: "Controller \<Rightarrow> (64 word \<times> bool) multiset" where
  "ct_pend c =
     mset (map (\<lambda>e. (fst e, False)) (pending_rd_q c)) +
     mset (map (\<lambda>t. (tr_addr t, tr_is_write t)) (return_queue c))"

definition config_ok :: "Config \<Rightarrow> bool" where
  "config_ok cfg \<longleftrightarrow>
     geometry_ok cfg \<and> refresh_policy cfg \<noteq> POLICY_SIZE \<and> \<not> enable_self_refresh cfg \<and>
     (queue_structure cfg = ''PER_BANK'' \<or> queue_structure cfg = ''PER_RANK'') \<and>
     (\<forall>a. let m = AddressMapping cfg a in cs_in cfg (ad_rank m) (ad_bankgroup m) (ad_bank m))"

lemma config_geometry: "config_ok cfg \<Longrightarrow> geometry_ok cfg"
  by (simp add: config_ok_def)

text \<open>Statistics are no part of it.\<close>

lemma upd_stats_simps [simp]:
  "entries (upd_stats f c) = entries c" "books_ok (upd_stats f c) = books_ok c"
  "ct_ok cfg (upd_stats f c) = ct_ok cfg c" "ct_pend (upd_stats f c) = ct_pend c"
  "pending_of w (upd_stats f c) = pending_of w c" "ct_clk (upd_stats f c) = ct_clk c"
  "ct_channel (upd_stats f c) = ct_channel c" "ct_queue (upd_stats f c) = ct_queue c"
  "ct_refresh (upd_stats f c) = ct_refresh c" "is_unified_queue (upd_stats f c) = is_unified_queue c"
  "trans_capacity (upd_stats f c) = trans_capacity c" "read_queue (upd_stats f c) = read_queue c"
  "write_buffer (upd_stats f c) = write_buffer c" "ct_unified_queue (upd_stats f c) = ct_unified_queue c"
  "pending_rd_q (upd_stats f c) = pending_rd_q c" "pending_wr_q (upd_stats f c) = pending_wr_q c"
  "return_queue (upd_stats f c) = return_queue c"
  by (simp_all add: upd_stats_def entries_def [abs_def] books_ok_def ct_ok_def ct_pend_def pending_of_def trans_of_def)

lemma books_cong:
  assumes "cmds_of (ct_queue c') = cmds_of (ct_queue c)" "read_queue c' = read_queue c"
    "write_buffer c' = write_buffer c" "ct_unified_queue c' = ct_unified_queue c"
    "pending_rd_q c' = pending_rd_q c" "pending_wr_q c' = pending_wr_q c"
  shows "books_ok c' = books_ok c" "entries c' = entries c"
  using assms by (simp_all add: books_ok_def entries_def [abs_def] trans_of_def pending_of_def)

lemma mm_count_append [simp]: "mm_count (m @ [(k, t)]) a = mm_count m a + (if k = a then 1 else 0)"
  by (simp add: mm_count_def)

lemma mm_count_pos: "0 < mm_count m a \<longleftrightarrow> (\<exists>t. (a, t) \<in> set m)"
  by (force simp: mm_count_def filter_empty_conv)

lemma books_keyed: "books_ok c \<Longrightarrow> (a, t) \<in> set (pending_of w c) \<Longrightarrow> tr_addr t = a \<and> tr_is_write t = w"
  by (auto simp: books_ok_def)

section \<open>Taking a transaction\<close>

lemma books_retq [simp]:
  "books_ok (c\<lparr>return_queue := r\<rparr>) = books_ok c" "entries (c\<lparr>return_queue := r\<rparr>) = entries c"
  "pending_of w (c\<lparr>return_queue := r\<rparr>) = pending_of w c"
  by (rule books_cong; simp)+ (simp add: pending_of_def)

lemma books_last [simp]:
  "books_ok (c\<lparr>last_trans_clk := r\<rparr>) = books_ok c" "entries (c\<lparr>last_trans_clk := r\<rparr>) = entries c"
  "pending_of w (c\<lparr>last_trans_clk := r\<rparr>) = pending_of w c"
  by (rule books_cong; simp)+ (simp add: pending_of_def)

text \<open>A transaction whose address is not waiting yet, added with its pending entry.\<close>

lemma books_add:
  assumes ok: "books_ok c" and free: "mm_count (pending_of w c) a = 0"
    and tr: "tr_addr tr = a" "tr_is_write tr = w"
    and pend: "pending_of w c' = pending_of w c @ [(a, tr)]" "pending_of (\<not> w) c' = pending_of (\<not> w) c"
    and tq: "trans_of c' = add_mset tr (trans_of c)" and cq: "cmds_of (ct_queue c') = cmds_of (ct_queue c)"
    and rq: "\<forall>t\<in>set (read_queue c'). \<not> tr_is_write t" "\<forall>t\<in>set (write_buffer c'). tr_is_write t"
  shows "books_ok c'"
proof -
  have e: "entries c' v b = entries c v b + (if v = w \<and> b = a then 1 else 0)" for v b
    using tr by (auto simp: entries_def tq cq)
  have p: "pending_of v c' = (if v = w then pending_of w c @ [(a, tr)] else pending_of v c)" for v
    using pend by (cases v; cases w) auto
  have z: "entries c w a = 0" using ok free unfolding books_ok_def by (metis le_zero_eq)
  show ?thesis
    unfolding books_ok_def
  proof (intro conjI allI)
    fix v b
    have "entries c v b \<le> 1 \<and> entries c v b \<le> mm_count (pending_of v c) b" using ok by (simp add: books_ok_def)
    then show "entries c' v b \<le> 1" "entries c' v b \<le> mm_count (pending_of v c') b"
      using z by (auto simp: e p)
  next
    fix v
    show "\<forall>(b, t)\<in>set (pending_of v c'). tr_addr t = b \<and> tr_is_write t = v"
      using ok tr by (auto simp: books_ok_def p)
  qed (use rq in auto)
qed

text \<open>One more pending entry, the address already waiting.\<close>

lemma books_more_pending:
  assumes ok: "books_ok c" and tr: "tr_addr tr = a" "\<not> tr_is_write tr"
  shows "books_ok (c\<lparr>pending_rd_q := pending_rd_q c @ [(a, tr)]\<rparr>)"
proof -
  let ?c = "c\<lparr>pending_rd_q := pending_rd_q c @ [(a, tr)]\<rparr>"
  have e: "entries ?c = entries c" by (simp add: entries_def [abs_def] trans_of_def)
  have p: "pending_of v ?c = (if v then pending_wr_q c else pending_rd_q c @ [(a, tr)])" for v
    by (simp add: pending_of_def)
  have le: "entries c v b \<le> 1 \<and> entries c v b \<le> mm_count (pending_of v c) b" for v b
    using ok by (simp add: books_ok_def)
  have "mm_count (pending_of v c) b \<le> mm_count (pending_of v ?c) b" for v b
    by (simp add: p pending_of_def)
  then have "entries ?c v b \<le> 1 \<and> entries ?c v b \<le> mm_count (pending_of v ?c) b" for v b
    using le [of v b] unfolding e by (meson le_trans)
  moreover have "tr_addr t = b \<and> tr_is_write t = v" if "(b, t) \<in> set (pending_of v ?c)" for v b t
    using that tr books_keyed [OF ok, of b t v] by (cases v) (auto simp: pending_of_def)
  moreover have "\<forall>t\<in>set (read_queue ?c). \<not> tr_is_write t" "\<forall>t\<in>set (write_buffer ?c). tr_is_write t"
    using ok by (auto simp: books_ok_def)
  ultimately show ?thesis unfolding books_ok_def by blast
qed

lemma ct_AddTransaction_ok:
  assumes ok: "ct_ok cfg c"
  shows "ct_ok cfg (ct_AddTransaction tr c)"
    "ct_pend (ct_AddTransaction tr c) = add_mset (tr_addr tr, tr_is_write tr) (ct_pend c)"
proof -
  define t where "t = tr\<lparr>added_cycle := ct_clk c\<rparr>"
  define c1 where "c1 = (upd_stats (AddValue ''interarrival_latency'' (ct_clk c - last_trans_clk c)) c)
    \<lparr>last_trans_clk := ct_clk c\<rparr>"
  have t: "tr_addr t = tr_addr tr" "tr_is_write t = tr_is_write tr" by (simp_all add: t_def)
  have b1: "books_ok c1" using ok by (simp add: c1_def ct_ok_def)
  have qs: "\<forall>t\<in>set (read_queue c1). \<not> tr_is_write t" "\<forall>t\<in>set (write_buffer c1). tr_is_write t"
    using b1 by (auto simp: books_ok_def)
  define c2 where "c2 = (if tr_is_write tr
    then (if mm_count (pending_wr_q c1) (tr_addr tr) = 0
      then (if is_unified_queue c1 then c1\<lparr>pending_wr_q := pending_wr_q c1 @ [(tr_addr tr, t)], ct_unified_queue := ct_unified_queue c1 @ [t]\<rparr>
            else c1\<lparr>pending_wr_q := pending_wr_q c1 @ [(tr_addr tr, t)], write_buffer := write_buffer c1 @ [t]\<rparr>) else c1)
    else if mm_count (pending_wr_q c1) (tr_addr tr) > 0 then c1
    else if mm_count (pending_rd_q c1) (tr_addr tr) = 0
    then (if is_unified_queue c1 then c1\<lparr>pending_rd_q := pending_rd_q c1 @ [(tr_addr tr, t)], ct_unified_queue := ct_unified_queue c1 @ [t]\<rparr>
          else c1\<lparr>pending_rd_q := pending_rd_q c1 @ [(tr_addr tr, t)], read_queue := read_queue c1 @ [t]\<rparr>)
    else c1\<lparr>pending_rd_q := pending_rd_q c1 @ [(tr_addr tr, t)]\<rparr>)"
  define c3 where "c3 = (if tr_is_write tr \<or> mm_count (pending_wr_q c1) (tr_addr tr) > 0
    then c2\<lparr>return_queue := return_queue c1 @ [t\<lparr>complete_cycle := ct_clk c1 + 1\<rparr>]\<rparr> else c2)"
  have run: "ct_AddTransaction tr c = c3"
    unfolding ct_AddTransaction_def Let_def t_def [symmetric] c1_def [symmetric] c2_def c3_def by (simp add: t)
  have "books_ok c2"
  proof (cases "tr_is_write tr")
    case True
    show ?thesis
    proof (cases "mm_count (pending_wr_q c1) (tr_addr tr) = 0")
      case free: True
      show ?thesis
        by (rule books_add [OF b1, of True "tr_addr tr" t])
          (use True free t qs in \<open>auto simp: c2_def pending_of_def trans_of_def\<close>)
    qed (use True b1 in \<open>simp add: c2_def\<close>)
  next
    case rd: False
    show ?thesis
    proof (cases "mm_count (pending_wr_q c1) (tr_addr tr) > 0")
      case hit: False
      show ?thesis
      proof (cases "mm_count (pending_rd_q c1) (tr_addr tr) = 0")
        case free: True
        show ?thesis
          by (rule books_add [OF b1, of False "tr_addr tr" t])
            (use rd hit free t qs in \<open>auto simp: c2_def pending_of_def trans_of_def\<close>)
      qed (use rd hit t books_more_pending [OF b1, of t] in \<open>simp add: c2_def\<close>)
    qed (use rd b1 in \<open>simp add: c2_def\<close>)
  qed
  then have "books_ok c3" by (simp add: c3_def)
  moreover have "ct_channel c3 = ct_channel c" "ct_queue c3 = ct_queue c" "ct_refresh c3 = ct_refresh c"
      "is_unified_queue c3 = is_unified_queue c" "trans_capacity c3 = trans_capacity c"
    by (simp_all add: c3_def c2_def c1_def upd_stats_def)
  ultimately show "ct_ok cfg (ct_AddTransaction tr c)" using ok by (simp add: run ct_ok_def)
  show "ct_pend (ct_AddTransaction tr c) = add_mset (tr_addr tr, tr_is_write tr) (ct_pend c)"
    unfolding run by (simp add: c3_def c2_def c1_def ct_pend_def t upd_stats_def)
qed

section \<open>Returning transactions\<close>

lemma find_remove_first:
  "List.find P xs = Some x \<Longrightarrow> P x \<and> mset xs = add_mset x (mset (remove_first P xs))"
  by (induction xs) (auto split: if_splits)

lemma ReturnDoneTrans_ok:
  assumes "ct_ok cfg c" "ReturnDoneTrans clk c = (Some x, c')"
  shows "ct_ok cfg c'" "ct_pend c = add_mset x (ct_pend c')"
proof -
  obtain t where t: "List.find (\<lambda>t. complete_cycle t \<le> clk) (return_queue c) = Some t"
      "x = (tr_addr t, tr_is_write t)"
    using assms(2) by (auto simp: ReturnDoneTrans_def Let_def split: option.splits)
  let ?c = "c\<lparr>return_queue := remove_first (\<lambda>t. complete_cycle t \<le> clk) (return_queue c)\<rparr>"
  obtain f where c': "c' = upd_stats f ?c"
    using assms(2) t(1) by (auto simp: ReturnDoneTrans_def Let_def)
  show "ct_ok cfg c'" unfolding c' upd_stats_simps using assms(1) by (simp add: ct_ok_def)
  have "mset (return_queue c) = add_mset t (mset (remove_first (\<lambda>t. complete_cycle t \<le> clk) (return_queue c)))"
    using find_remove_first [OF t(1)] by blast
  then show "ct_pend c = add_mset x (ct_pend c')" unfolding c' upd_stats_simps by (simp add: ct_pend_def t(2))
qed

section \<open>Issuing a command\<close>

lemma UpdateCommandStats_ok: "IsValid cmd \<Longrightarrow> \<exists>f. UpdateCommandStats cmd c = ret (upd_stats f c)"
  by (cases "cmd_type cmd") (auto simp: UpdateCommandStats_def Let_def IsValid_def)

text \<open>Dropping the pending entries of an address that no longer waits.\<close>

lemma books_drop_pending:
  assumes ok: "books_ok c" and none: "entries c w a = 0"
    and e: "entries c' = entries c" "read_queue c' = read_queue c" "write_buffer c' = write_buffer c"
    and keep: "pending_of (\<not> w) c' = pending_of (\<not> w) c"
    and sub: "set (pending_of w c') \<subseteq> set (pending_of w c)"
    and cnt: "\<And>b. b \<noteq> a \<Longrightarrow> mm_count (pending_of w c') b = mm_count (pending_of w c) b"
  shows "books_ok c'"
proof -
  have "entries c' v b \<le> mm_count (pending_of v c') b" for v b
  proof (cases "v = w \<and> b = a")
    case False
    then have "mm_count (pending_of v c') b = mm_count (pending_of v c) b"
      using keep cnt by (cases v; cases w) auto
    then show ?thesis using ok by (simp add: books_ok_def e)
  qed (use none in \<open>simp add: e\<close>)
  moreover have "set (pending_of v c') \<subseteq> set (pending_of v c)" for v
    using keep sub by (cases v; cases w) auto
  ultimately show ?thesis using ok e unfolding books_ok_def by fastforce
qed

lemma complete_reads_ok:
  assumes ok: "books_ok c" and none: "entries c False a = 0"
  shows "books_ok (complete_reads cfg a c)" "ct_pend (complete_reads cfg a c) = ct_pend c"
proof -
  show "books_ok (complete_reads cfg a c)"
    by (rule books_drop_pending [OF ok none])
      (auto simp: complete_reads_def entries_def [abs_def] trans_of_def pending_of_def mm_count_def
        intro!: arg_cong [where f = length] filter_cong)
  have rd: "tr_addr (snd e) = fst e" "\<not> tr_is_write (snd e)" if "e \<in> set (pending_rd_q c)" for e
    using that books_keyed [OF ok, of "fst e" "snd e" False] by (simp_all add: pending_of_def)
  have split: "mset (map f (filter P xs)) + mset (map f (filter (\<lambda>x. \<not> P x) xs)) = mset (map f xs)"
    for f :: "(64 word \<times> Transaction) \<Rightarrow> 64 word \<times> bool" and P xs
    by (induction xs) auto
  let ?F = "filter (\<lambda>e. fst e = a) (pending_rd_q c)"
  have eq: "map (\<lambda>e. (tr_addr (snd e), tr_is_write (snd e))) ?F = map (\<lambda>e. (fst e, False)) ?F"
    by (rule map_cong) (auto simp: rd)
  have "ct_pend (complete_reads cfg a c) =
      mset (map (\<lambda>e. (tr_addr (snd e), tr_is_write (snd e))) ?F) +
      mset (map (\<lambda>e. (fst e, False)) (filter (\<lambda>e. \<not> fst e = a) (pending_rd_q c))) +
      mset (map (\<lambda>t. (tr_addr t, tr_is_write t)) (return_queue c))"
    by (simp add: ct_pend_def complete_reads_def comp_def ac_simps)
  also have "\<dots> = ct_pend c" unfolding eq split ct_pend_def ..
  finally show "ct_pend (complete_reads cfg a c) = ct_pend c" .
qed

lemma mm_count_remove_first:
  "b \<noteq> a \<Longrightarrow> mm_count (remove_first (\<lambda>e. fst e = a) m) b = mm_count m b"
  by (induction m) (auto simp: mm_count_def)

text \<open>
  A command that may be issued and, if it reads or writes, was taken from the queues: its
  transaction is pending and waits nowhere else.
\<close>

definition may_issue :: "Config \<Rightarrow> Command \<Rightarrow> Controller \<Rightarrow> bool" where
  "may_issue cfg cmd c \<longleftrightarrow>
     issuable cfg (ct_channel c) cmd \<and>
     (IsReadWrite cmd \<longrightarrow> entries c (IsWriteC cmd) (hex_addr cmd) = 0 \<and>
        0 < mm_count (pending_of (IsWriteC cmd) c) (hex_addr cmd))"

lemma IssueCommand_ok:
  assumes ok: "ct_ok cfg c" and may: "may_issue cfg cmd c"
  shows "\<exists>c'. IssueCommand cfg tm cmd c = ret c' \<and> ct_ok cfg c' \<and> ct_pend c' = ct_pend c \<and> ct_clk c' = ct_clk c \<and>
    ct_queue c' = ct_queue c"
proof -
  have rw: "IsReadC cmd \<Longrightarrow> \<not> IsWriteC cmd" by (auto simp: command_defs)
  have "\<exists>c1. (if IsReadC cmd
        then if mm_count (pending_rd_q c) (hex_addr cmd) = 0 then raise AbruptExit
             else ret (complete_reads cfg (hex_addr cmd) c)
        else if IsWriteC cmd
        then (case List.find (\<lambda>e. fst e = hex_addr cmd) (pending_wr_q c) of
                None \<Rightarrow> raise AbruptExit
              | Some e \<Rightarrow>
                  ret (upd_stats (AddValue ''write_latency''
                         (ct_clk c - added_cycle (snd e) + of_int (write_delay cfg)))
                       (c\<lparr>pending_wr_q := remove_first (\<lambda>e. fst e = hex_addr cmd) (pending_wr_q c)\<rparr>)))
        else ret c) = ret c1 \<and> books_ok c1 \<and> ct_pend c1 = ct_pend c \<and> ct_channel c1 = ct_channel c \<and>
      ct_queue c1 = ct_queue c \<and> ct_refresh c1 = ct_refresh c \<and> ct_clk c1 = ct_clk c \<and>
      is_unified_queue c1 = is_unified_queue c \<and> trans_capacity c1 = trans_capacity c"
    (is "\<exists>c1. ?first = ret c1 \<and> ?good c1")
  proof -
    have books: "books_ok c" using ok by (simp add: ct_ok_def)
    consider (rd) "IsReadC cmd" | (wr) "\<not> IsReadC cmd" "IsWriteC cmd" | (other) "\<not> IsReadC cmd" "\<not> IsWriteC cmd" by blast
    then show ?thesis
    proof cases
      case rd
      then have "entries c False (hex_addr cmd) = 0" "0 < mm_count (pending_rd_q c) (hex_addr cmd)"
        using may rw by (auto simp: may_issue_def IsReadWrite_def pending_of_def)
      then show ?thesis
        using rd complete_reads_ok [OF books] by (auto simp: complete_reads_def)
    next
      case wr
      then have w: "entries c True (hex_addr cmd) = 0" "0 < mm_count (pending_wr_q c) (hex_addr cmd)"
        using may by (auto simp: may_issue_def IsReadWrite_def pending_of_def)
      let ?c = "c\<lparr>pending_wr_q := remove_first (\<lambda>e. fst e = hex_addr cmd) (pending_wr_q c)\<rparr>"
      have "books_ok ?c"
        by (rule books_drop_pending [OF books w(1)])
          (use set_remove_first [of "\<lambda>e. fst e = hex_addr cmd" "pending_wr_q c"] in
            \<open>simp_all add: entries_def [abs_def] trans_of_def pending_of_def mm_count_remove_first\<close>)
      moreover obtain e where "List.find (\<lambda>e. fst e = hex_addr cmd) (pending_wr_q c) = Some e"
        using w(2) by (cases "List.find (\<lambda>e. fst e = hex_addr cmd) (pending_wr_q c)")
          (auto simp: find_None_iff mm_count_pos)
      ultimately show ?thesis using wr by (auto simp: ct_pend_def)
    qed (use books in auto)
  qed
  then obtain c1 where c1: "?first = ret c1" "?good c1" by blast
  obtain f where f: "UpdateCommandStats cmd c1 = ret (upd_stats f c1)"
    using UpdateCommandStats_ok issuable_valid may by (metis may_issue_def)
  obtain cs where cs: "UpdateTimingAndStates cfg tm cmd (ct_clk c) (ct_channel c) = ret cs" "cs_ok cfg cs"
    using UpdateTimingAndStates_ok ok may by (metis ct_ok_def may_issue_def)
  let ?c = "(upd_stats f c1)\<lparr>ct_channel := cs\<rparr>"
  have "books_ok ?c = books_ok (upd_stats f c1)" by (rule books_cong(1)) simp_all
  then have "ct_ok cfg ?c" using ok c1(2) cs(2) by (simp add: ct_ok_def)
  moreover have "ct_pend ?c = ct_pend (upd_stats f c1)" by (simp add: ct_pend_def)
  then have "ct_pend ?c = ct_pend c" using c1(2) by simp
  moreover have "ct_clk ?c = ct_clk c" "ct_queue ?c = ct_queue c" using c1(2) by simp_all
  moreover have "IssueCommand cfg tm cmd c = ret ?c"
    unfolding IssueCommand_def c1(1) using c1(2) f cs(1) by simp
  ultimately show ?thesis by blast
qed

section \<open>Choosing the commands of a cycle\<close>

text \<open>Replacing the queues by ones that hold one command less, or the same.\<close>

lemma entries_take:
  assumes "cmds_of (ct_queue c) = add_mset d (cmds_of q)"
  shows "entries c w a = entries (c\<lparr>ct_queue := q, ct_stats := st\<rparr>) w a + (if IsWriteC d = w \<and> hex_addr d = a then 1 else 0)"
  using assms by (simp add: entries_def trans_of_def)

lemma books_take:
  assumes ok: "books_ok c" and d: "cmds_of (ct_queue c) = add_mset d (cmds_of q)"
  shows "books_ok (c\<lparr>ct_queue := q, ct_stats := st\<rparr>)"
    "entries (c\<lparr>ct_queue := q, ct_stats := st\<rparr>) (IsWriteC d) (hex_addr d) = 0"
    "0 < mm_count (pending_of (IsWriteC d) c) (hex_addr d)"
proof -
  let ?c = "c\<lparr>ct_queue := q, ct_stats := st\<rparr>"
  have p: "pending_of w ?c = pending_of w c" for w by (simp add: pending_of_def)
  have b: "entries c w a \<le> 1" "entries c w a \<le> mm_count (pending_of w c) a" for w a
    using ok by (simp_all add: books_ok_def)
  have le: "entries ?c w a \<le> entries c w a" for w a using entries_take [OF d, of w a st] by simp
  show "books_ok ?c"
    using ok le b p unfolding books_ok_def by (simp add: p) (meson le_trans)
  show "entries ?c (IsWriteC d) (hex_addr d) = 0" "0 < mm_count (pending_of (IsWriteC d) c) (hex_addr d)"
    using entries_take [OF d, of "IsWriteC d" "hex_addr d" st] b [of "IsWriteC d" "hex_addr d"] by simp_all
qed

lemma ct_get_command_ok:
  assumes cfg: "config_ok cfg" and ok: "ct_ok cfg c"
  shows "\<exists>cmd c'. ct_get_command cfg c = ret (cmd, c') \<and> ct_ok cfg c' \<and> ct_pend c' = ct_pend c \<and> ct_clk c' = ct_clk c \<and>
    (IsValid cmd \<longrightarrow> may_issue cfg cmd c')"
proof -
  have oks: "cs_ok cfg (ct_channel c)" "cq_ok cfg (ct_queue c)" "books_ok c" using ok by (simp_all add: ct_ok_def)
  obtain cmd q st where r: "GetCommandToIssue cfg (ct_channel c) (ct_queue c) (ct_stats c) = ret (cmd, q, st)"
      "offered cfg (ct_channel c) (ct_queue c) cmd q"
    using issue_scan_spec [OF oks(1) config_geometry [OF cfg] oks(2)] by (metis GetCommandToIssue_def)
  let ?c = "c\<lparr>ct_queue := q, ct_stats := st\<rparr>"
  have run: "ct_get_command cfg c = ret (cmd, ?c)" using r(1) by (simp add: ct_get_command_def)
  have iss: "IsValid cmd \<longrightarrow> issuable cfg (ct_channel ?c) cmd" and cq: "cq_ok cfg q"
    using r(2) by (auto simp: offered_def)
  have pend: "ct_pend ?c = ct_pend c" by (simp add: ct_pend_def)
  have p: "pending_of w ?c = pending_of w c" for w by (simp add: pending_of_def)
  have "books_ok ?c \<and> (IsValid cmd \<longrightarrow> may_issue cfg cmd ?c)"
  proof (cases "IsReadWrite cmd")
    case True
    then obtain d where d: "cmds_of (ct_queue c) = add_mset d (cmds_of q)" "cmd_type d = cmd_type cmd" "hex_addr d = hex_addr cmd"
      using r(2) by (auto simp: offered_def)
    have "IsWriteC d = IsWriteC cmd" using d(2) by (simp add: IsWriteC_def)
    then show ?thesis using books_take(1,2) [OF oks(3) d(1), of st] books_take(3) [OF oks(3) d(1)] iss d(3) by (simp add: may_issue_def p)
  next
    case False
    then have "cmds_of q = cmds_of (ct_queue c)" using r(2) by (simp add: offered_def)
    then have "books_ok ?c = books_ok c" by (intro books_cong(1)) simp_all
    then show ?thesis using oks(3) iss False by (simp add: may_issue_def)
  qed
  moreover from this have "ct_ok cfg ?c" using ok cq by (simp add: ct_ok_def)
  ultimately show ?thesis using run pend by auto
qed

lemma ct_pick_command_ok:
  assumes cfg: "config_ok cfg" and ok: "ct_ok cfg c"
  shows "\<exists>cmd c'. ct_pick_command cfg c = ret (cmd, c') \<and> ct_ok cfg c' \<and> ct_pend c' = ct_pend c \<and> ct_clk c' = ct_clk c \<and>
    (IsValid cmd \<longrightarrow> may_issue cfg cmd c')"
proof (cases "IsRefreshWaiting (ct_channel c)")
  case True
  have oks: "cs_ok cfg (ct_channel c)" "cq_ok cfg (ct_queue c)" "books_ok c" using ok by (simp_all add: ct_ok_def)
  obtain cmd q where r: "FinishRefresh cfg (ct_channel c) (ct_queue c) = ret (cmd, q)" "cq_ok cfg q"
      "cmds_of q = cmds_of (ct_queue c)" "IsValid cmd \<longrightarrow> issuable cfg (ct_channel c) cmd" "\<not> IsReadWrite cmd"
    using FinishRefresh_spec [OF oks(1) config_geometry [OF cfg] oks(2) True] by blast
  let ?c = "c\<lparr>ct_queue := q\<rparr>"
  have "books_ok ?c = books_ok c" using r(3) by (intro books_cong(1)) simp_all
  then have ok1: "ct_ok cfg ?c" using ok r(2) oks(3) by (simp add: ct_ok_def)
  have p1: "ct_pend ?c = ct_pend c" by (simp add: ct_pend_def)
  have "IsValid cmd \<longrightarrow> may_issue cfg cmd ?c" using r(4,5) by (simp add: may_issue_def)
  then show ?thesis
    using ct_get_command_ok [OF cfg ok1] True r(1) ok1 p1
    by (cases "IsValid cmd") (auto simp: ct_pick_command_def)
next
  case False
  then show ?thesis
    using ct_get_command_ok [OF cfg ok]
    by (simp add: ct_pick_command_def no_Command_def mk_Command_def IsValid_def)
qed

lemma ct_issue_phase_ok:
  assumes cfg: "config_ok cfg" and ok: "ct_ok cfg c"
  shows "\<exists>i c'. ct_issue_phase cfg tm c = ret (i, c') \<and> ct_ok cfg c' \<and> ct_pend c' = ct_pend c \<and> ct_clk c' = ct_clk c"
proof -
  obtain cmd c1 where c1: "ct_pick_command cfg c = ret (cmd, c1)" "ct_ok cfg c1" "ct_pend c1 = ct_pend c"
      "ct_clk c1 = ct_clk c" "IsValid cmd \<longrightarrow> may_issue cfg cmd c1"
    using ct_pick_command_ok [OF cfg ok] by blast
  show ?thesis
  proof (cases "IsValid cmd")
    case True
    then obtain c2 where c2: "IssueCommand cfg tm cmd c1 = ret c2" "ct_ok cfg c2" "ct_pend c2 = ct_pend c1" "ct_clk c2 = ct_clk c1"
      using IssueCommand_ok [OF c1(2)] c1(5) by blast
    obtain cmd' c3 where c3: "ct_get_command cfg c2 = ret (cmd', c3)" "ct_ok cfg c3" "ct_pend c3 = ct_pend c2"
        "ct_clk c3 = ct_clk c2" "IsValid cmd' \<longrightarrow> may_issue cfg cmd' c3"
      using ct_get_command_ok [OF cfg c2(2)] by blast
    have "IsValid cmd' \<Longrightarrow> \<exists>c4. IssueCommand cfg tm cmd' c3 = ret c4 \<and> ct_ok cfg c4 \<and> ct_pend c4 = ct_pend c3 \<and> ct_clk c4 = ct_clk c3"
      using IssueCommand_ok [OF c3(2)] c3(5) by blast
    then obtain c4 where c4: "IsValid cmd' \<Longrightarrow> IssueCommand cfg tm cmd' c3 = ret c4 \<and> ct_ok cfg c4 \<and> ct_pend c4 = ct_pend c3 \<and> ct_clk c4 = ct_clk c3"
      by blast
    show ?thesis
    proof (intro exI)
      show "ct_issue_phase cfg tm c = ret ((ct_clk c, cmd) #
          (if enable_hbm_dual_cmd cfg \<and> IsValid cmd' \<and> IsReadWrite cmd' \<noteq> IsReadWrite cmd then [(ct_clk c, cmd')] else []), if \<not> enable_hbm_dual_cmd cfg then c2
          else if IsValid cmd' \<and> IsReadWrite cmd' \<noteq> IsReadWrite cmd then upd_stats (Increment ''hbm_dual_cmds'') c4 else c3) \<and>
        ct_ok cfg (if \<not> enable_hbm_dual_cmd cfg then c2
          else if IsValid cmd' \<and> IsReadWrite cmd' \<noteq> IsReadWrite cmd then upd_stats (Increment ''hbm_dual_cmds'') c4 else c3) \<and>
        ct_pend (if \<not> enable_hbm_dual_cmd cfg then c2
          else if IsValid cmd' \<and> IsReadWrite cmd' \<noteq> IsReadWrite cmd then upd_stats (Increment ''hbm_dual_cmds'') c4 else c3) = ct_pend c \<and>
        ct_clk (if \<not> enable_hbm_dual_cmd cfg then c2
          else if IsValid cmd' \<and> IsReadWrite cmd' \<noteq> IsReadWrite cmd then upd_stats (Increment ''hbm_dual_cmds'') c4 else c3) = ct_clk c"
        using True c1 c2 c3 c4 by (simp add: ct_issue_phase_def)
    qed
  qed (use c1 in \<open>auto simp: ct_issue_phase_def\<close>)
qed

section \<open>Scheduling and the clock\<close>

lemma TransToCommand_facts:
  "IsReadWrite (TransToCommand cfg c tr)" "IsWriteC (TransToCommand cfg c tr) = tr_is_write tr"
  "hex_addr (TransToCommand cfg c tr) = tr_addr tr" "cmd_addr (TransToCommand cfg c tr) = AddressMapping cfg (tr_addr tr)"
  by (simp_all add: TransToCommand_def mk_Command_def command_defs)

lemma trans_of_split: "trans_of c = mset (source_queue src c) + trans_of (set_source_queue src [] c)"
  by (cases src) (simp_all add: trans_of_def source_queue_def set_source_queue_def ac_simps)

text \<open>A transaction that becomes a command waits as often as before.\<close>

lemma schedule_move_ok:
  assumes ok: "ct_ok cfg c" and src: "source_queue src c = pre @ tr # post"
    and q: "cq_ok cfg q" "cmds_of q = add_mset (TransToCommand cfg c tr) (cmds_of (ct_queue c))"
  shows "ct_ok cfg (set_source_queue src (pre @ post) (c\<lparr>write_draining := w, ct_queue := q\<rparr>))" (is "ct_ok cfg ?c")
proof -
  have tr: "trans_of c = add_mset tr (trans_of ?c)"
    using src by (cases src) (auto simp: trans_of_def source_queue_def set_source_queue_def)
  have cmds: "cmds_of (ct_queue ?c) = add_mset (TransToCommand cfg c tr) (cmds_of (ct_queue c))"
    using q(2) by (cases src) (simp_all add: set_source_queue_def)
  have e: "entries ?c v a = entries c v a" for v a
    by (simp add: entries_def tr cmds TransToCommand_facts)
  have p: "pending_of v ?c = pending_of v c" for v by (cases src) (simp_all add: pending_of_def set_source_queue_def)
  have sub: "set (read_queue ?c) \<subseteq> set (read_queue c)" "set (write_buffer ?c) \<subseteq> set (write_buffer c)"
    using src by (cases src; auto simp: source_queue_def set_source_queue_def)+
  have b: "books_ok c" using ok by (simp add: ct_ok_def)
  have "\<forall>t\<in>set (read_queue ?c). \<not> tr_is_write t" "\<forall>t\<in>set (write_buffer ?c). tr_is_write t"
    using b sub unfolding books_ok_def by (meson subsetD)+
  then have "books_ok ?c" using b unfolding books_ok_def e p by simp
  moreover have "ct_channel ?c = ct_channel c" "ct_queue ?c = q" "ct_refresh ?c = ct_refresh c"
      "is_unified_queue ?c = is_unified_queue c" "trans_capacity ?c = trans_capacity c"
    by (cases src; simp add: set_source_queue_def)+
  ultimately show ?thesis using ok q(1) by (simp add: ct_ok_def)
qed

lemma ct_ok_draining [simp]:
  "ct_ok cfg (c\<lparr>write_draining := w\<rparr>) = ct_ok cfg c" "ct_pend (c\<lparr>write_draining := w\<rparr>) = ct_pend c"
proof -
  have "books_ok (c\<lparr>write_draining := w\<rparr>) = books_ok c" by (rule books_cong) simp_all
  then show "ct_ok cfg (c\<lparr>write_draining := w\<rparr>) = ct_ok cfg c" by (simp add: ct_ok_def)
qed (simp add: ct_pend_def)

lemma schedule_scan_ok:
  assumes cfg: "config_ok cfg" and ok: "ct_ok cfg c" and src: "source_queue src c = pre @ rest"
  shows "\<exists>c'. schedule_scan cfg src pre rest c = ret c' \<and> ct_ok cfg c' \<and> ct_pend c' = ct_pend c \<and> ct_clk c' = ct_clk c"
  using src
proof (induction rest arbitrary: pre)
  case Nil
  then show ?case using ok by simp
next
  case (Cons tr post)
  let ?cmd = "TransToCommand cfg c tr"
  have cq: "cq_ok cfg (ct_queue c)" using ok by (simp add: ct_ok_def)
  have inb: "cs_in cfg (c_Rank ?cmd) (c_Bankgroup ?cmd) (c_Bank ?cmd)"
    using cfg by (simp add: config_ok_def Let_def TransToCommand_facts)
  obtain room where room: "WillAcceptCommand cfg (ct_queue c) (c_Rank ?cmd) (c_Bankgroup ?cmd) (c_Bank ?cmd) = ret room"
    using WillAcceptCommand_ok [OF cq inb] by blast
  have IH: "\<exists>c'. schedule_scan cfg src (pre @ [tr]) post c = ret c' \<and> ct_ok cfg c' \<and> ct_pend c' = ct_pend c \<and> ct_clk c' = ct_clk c"
    using Cons.IH [of "pre @ [tr]"] Cons.prems by simp
  show ?case
  proof (cases "room \<and> \<not> (\<not> is_unified_queue c \<and> IsWriteC ?cmd \<and> mm_count (pending_rd_q c) (tr_addr tr) > 0)")
    case False
    then show ?thesis using IH room ok by (auto simp: Let_def)
  next
    case True
    then have rt: "WillAcceptCommand cfg (ct_queue c) (c_Rank ?cmd) (c_Bankgroup ?cmd) (c_Bank ?cmd) = ret True"
      using room by simp
    obtain q where q: "AddCommand cfg ?cmd (ct_queue c) = ret (True, q)" "cq_ok cfg q"
        "cmds_of q = add_mset ?cmd (cmds_of (ct_queue c))"
      using AddCommand_ok [OF cq TransToCommand_facts(1) inb rt] by blast
    define w where "w = (if \<not> is_unified_queue c \<and> IsWriteC ?cmd then write_draining c - 1 else write_draining c)"
    let ?c = "set_source_queue src (pre @ post) (c\<lparr>write_draining := w, ct_queue := q\<rparr>)"
    have "schedule_scan cfg src pre (tr # post) c = ret ?c"
      using True rt q(1) by (auto simp: Let_def w_def)
    moreover have "ct_pend ?c = ct_pend c" "ct_clk ?c = ct_clk c"
      by (cases src; simp add: ct_pend_def set_source_queue_def)+
    ultimately show ?thesis using schedule_move_ok [OF ok Cons.prems q(2,3)] by blast
  qed
qed

lemma ScheduleTransaction_ok:
  assumes "config_ok cfg" "ct_ok cfg c"
  shows "\<exists>c'. ScheduleTransaction cfg c = ret c' \<and> ct_ok cfg c' \<and> ct_pend c' = ct_pend c \<and> ct_clk c' = ct_clk c"
proof -
  have "ct_ok cfg (start_draining c)" "ct_pend (start_draining c) = ct_pend c" "ct_clk (start_draining c) = ct_clk c"
    using assms(2) by (simp_all add: start_draining_def)
  with schedule_scan_ok [OF assms(1), of "start_draining c"] show ?thesis
    by (simp add: ScheduleTransaction_def Let_def)
qed

lemma ct_count_rank_ok:
  assumes "ct_ok cfg c"
  shows "ct_ok cfg (ct_count_rank cfg' i c) \<and> ct_pend (ct_count_rank cfg' i c) = ct_pend c \<and> ct_clk (ct_count_rank cfg' i c) = ct_clk c"
proof -
  have k: "ct_ok cfg (d\<lparr>ct_channel := (ct_channel d)\<lparr>rank_idle_cycles := f\<rparr>\<rparr>) = ct_ok cfg d" for d f
  proof -
    have "books_ok (d\<lparr>ct_channel := (ct_channel d)\<lparr>rank_idle_cycles := f\<rparr>\<rparr>) = books_ok d" by (rule books_cong) simp_all
    then show ?thesis by (simp add: ct_ok_def cs_ok_def)
  qed
  have p: "ct_pend (d\<lparr>ct_channel := x\<rparr>) = ct_pend d" for d x by (simp add: ct_pend_def)
  show ?thesis
    using assms k [where d = "upd_stats f c" for f] p by (auto simp: ct_count_rank_def)
qed

lemma ct_ClockTick_ok:
  assumes cfg: "config_ok cfg" and ok: "ct_ok cfg c"
  shows "\<exists>c'. ct_ClockTick cfg tm c = ret c' \<and> ct_ok cfg c' \<and> ct_pend c' = ct_pend c \<and> ct_clk c' = ct_clk c + 1"
proof -
  obtain rf cs where r: "refresh_ClockTick cfg (ct_refresh c) (ct_channel c) = ret (rf, cs)" "refresh_ok cfg rf" "cs_ok cfg cs"
    using refresh_ClockTick_ok [OF config_geometry [OF cfg], of "ct_refresh c" "ct_channel c"] cfg ok
    by (auto simp: ct_ok_def config_ok_def)
  let ?c0 = "c\<lparr>ct_refresh := rf, ct_channel := cs\<rparr>"
  have "books_ok ?c0 = books_ok c" by (rule books_cong) simp_all
  then have "ct_ok cfg ?c0" using ok r(2,3) by (simp add: ct_ok_def)
  from ct_issue_phase_ok [OF cfg this, of tm] obtain i c1 where
    c1: "ct_issue_phase cfg tm ?c0 = ret (i, c1)" "ct_ok cfg c1" "ct_pend c1 = ct_pend c" "ct_clk c1 = ct_clk c"
    by (auto simp: ct_pend_def)
  define c2 where "c2 = fold (ct_count_rank cfg) [0..ranks cfg - 1] c1"
  have "ct_ok cfg (fold (ct_count_rank cfg) xs d) \<and> ct_pend (fold (ct_count_rank cfg) xs d) = ct_pend d \<and>
      ct_clk (fold (ct_count_rank cfg) xs d) = ct_clk d" if "ct_ok cfg d" for xs d
    using that
  proof (induction xs arbitrary: d)
    case (Cons x xs)
    note s = ct_count_rank_ok [OF Cons.prems, of cfg x]
    with Cons.IH [of "ct_count_rank cfg x d"] show ?case by simp
  qed simp
  then have c2: "ct_ok cfg c2" "ct_pend c2 = ct_pend c" "ct_clk c2 = ct_clk c"
    using c1(2-4) unfolding c2_def by auto
  obtain c3 where c3: "ScheduleTransaction cfg c2 = ret c3" "ct_ok cfg c3" "ct_pend c3 = ct_pend c" "ct_clk c3 = ct_clk c"
    using ScheduleTransaction_ok [OF cfg c2(1)] c2 by auto
  let ?c4 = "c3\<lparr>ct_clk := ct_clk c3 + 1, ct_queue := cq_ClockTick (ct_queue c3)\<rparr>"
  have "books_ok ?c4 = books_ok c3" by (rule books_cong) (simp_all add: cq_ClockTick_def)
  then have "ct_ok cfg ?c4" using c3(2) by (simp add: ct_ok_def cq_ClockTick_def cq_ok_cong)
  moreover have "ct_ClockTick cfg tm c = ret (upd_stats (Increment ''num_cycles'') ?c4)"
    using cfg r(1) c1(1) c3(1) by (simp add: ct_ClockTick_def ct_tick_trace_def Let_def c2_def config_ok_def)
  moreover have "ct_pend ?c4 = ct_pend c" using c3(3) by (simp add: ct_pend_def)
  ultimately show ?thesis using c3(4) by simp
qed

section \<open>Construction and capacity\<close>

lemma ct_ok_new:
  assumes cfg: "config_ok cfg"
    and int: "\<exists>rf. new_Refresh cfg = ret rf \<and> (of_int (refresh_interval rf) :: 64 word) \<noteq> 0"
  shows "\<exists>c. new_Controller cfg ch = ret c \<and> ct_ok cfg c \<and> ct_pend c = {#} \<and> ct_clk c = 0"
proof -
  obtain rf where rf: "new_Refresh cfg = ret rf" "(of_int (refresh_interval rf) :: 64 word) \<noteq> 0" using int by blast
  have pos: "next_rank rf = 0" "next_bg rf = 0" "next_bank rf = 0"
    using rf(1) by (auto simp: new_Refresh_def run_elims)
  have rok: "refresh_ok cfg rf"
    using rf(2) pos config_geometry [OF cfg] by (simp add: refresh_ok_def cs_in_def cs_rank_in_def geometry_ok_def)
  obtain q where q: "new_CommandQueue cfg = ret q" "cq_ok cfg q" "cmds_of q = {#}"
    using cq_ok_new [OF config_geometry [OF cfg]] cfg by (auto simp: config_ok_def)
  show ?thesis
    using rf(1) q rok cs_ok_new
    by (auto simp: new_Controller_def ct_ok_def books_ok_def entries_def trans_of_def pending_of_def ct_pend_def)
qed

text \<open>The waiting reads are at most as many as the pending ones, so a read is refused only when the channel is full.\<close>

lemma count_reads:
  "\<forall>t\<in>set xs. \<not> tr_is_write t \<Longrightarrow>
     count (mset (map tr_addr xs)) a = size {#t \<in># mset xs. tr_is_write t = False \<and> tr_addr t = a#}"
  by (induction xs) auto

lemma mm_count_fst: "mm_count m a = count (mset (map fst m)) a"
  by (induction m) (auto simp: mm_count_def)

lemma read_queue_bound:
  assumes "books_ok c"
  shows "length (read_queue c) \<le> size (ct_pend c)"
proof -
  have rd: "\<forall>t\<in>set (read_queue c). \<not> tr_is_write t" using assms by (simp add: books_ok_def)
  have "count (mset (map tr_addr (read_queue c))) a \<le> count (mset (map fst (pending_rd_q c))) a" for a
  proof -
    have "count (mset (map tr_addr (read_queue c))) a = size {#t \<in># mset (read_queue c). tr_is_write t = False \<and> tr_addr t = a#}"
      using rd by (rule count_reads)
    also have "\<dots> \<le> entries c False a" by (simp add: entries_def trans_of_def)
    also have "\<dots> \<le> mm_count (pending_rd_q c) a" using assms by (auto simp: books_ok_def pending_of_def split: if_splits)
    also have "\<dots> = count (mset (map fst (pending_rd_q c))) a"
      by (rule mm_count_fst)
    finally show ?thesis .
  qed
  then have "mset (map tr_addr (read_queue c)) \<subseteq># mset (map fst (pending_rd_q c))" by (intro mset_subset_eqI)
  from size_mset_mono [OF this] show ?thesis by (simp add: ct_pend_def)
qed

section \<open>The steps of a cycle\<close>

lemma IssueCommand_steps:
  assumes "IssueCommand cfg tm cmd c = ret c'"
  obtains c1 c2 cs where
    "c1 = c \<or> c1 = complete_reads cfg (hex_addr cmd) c \<or>
     (\<exists>v ws. c1 = upd_stats (AddValue ''write_latency'' v) (c\<lparr>pending_wr_q := ws\<rparr>))"
    "UpdateCommandStats cmd c1 = ret c2" "UpdateTimingAndStates cfg tm cmd (ct_clk c2) (ct_channel c2) = ret cs"
    "c' = c2\<lparr>ct_channel := cs\<rparr>"
proof -
  obtain c1 where c1: "(if IsReadC cmd
        then if mm_count (pending_rd_q c) (hex_addr cmd) = 0 then raise AbruptExit
             else ret (complete_reads cfg (hex_addr cmd) c)
        else if IsWriteC cmd
        then (case List.find (\<lambda>e. fst e = hex_addr cmd) (pending_wr_q c) of
                None \<Rightarrow> raise AbruptExit
              | Some e \<Rightarrow>
                  ret (upd_stats (AddValue ''write_latency''
                         (ct_clk c - added_cycle (snd e) + of_int (write_delay cfg)))
                       (c\<lparr>pending_wr_q := remove_first (\<lambda>e. fst e = hex_addr cmd) (pending_wr_q c)\<rparr>)))
        else ret c) = ret c1"
    and rest: "\<exists>c2 cs. UpdateCommandStats cmd c1 = ret c2 \<and>
      UpdateTimingAndStates cfg tm cmd (ct_clk c2) (ct_channel c2) = ret cs \<and> c' = c2\<lparr>ct_channel := cs\<rparr>"
    using assms unfolding IssueCommand_def run_bind_ret by blast
  have "c1 = c \<or> c1 = complete_reads cfg (hex_addr cmd) c \<or>
     (\<exists>v ws. c1 = upd_stats (AddValue ''write_latency'' v) (c\<lparr>pending_wr_q := ws\<rparr>))"
    using c1 by (auto split: if_splits option.splits)
  then show thesis using that rest by blast
qed

lemma issue_phase_cases:
  assumes i: "ct_issue_phase cfg tm c = ret (ev, c')"
  obtains (none) cmd where "ct_pick_command cfg c = ret (cmd, c')" "ev = []"
  | (one) cmd c1 c2 where "ct_pick_command cfg c = ret (cmd, c1)" "IsValid cmd" "IssueCommand cfg tm cmd c1 = ret c2"
      "ev = [(ct_clk c, cmd)]" "c' = c2 \<or> (\<exists>second. ct_get_command cfg c2 = ret (second, c'))"
  | (two) cmd c1 c2 second c3 c4 where "ct_pick_command cfg c = ret (cmd, c1)" "IsValid cmd" "IssueCommand cfg tm cmd c1 = ret c2"
      "ct_get_command cfg c2 = ret (second, c3)" "IsValid second" "IssueCommand cfg tm second c3 = ret c4"
      "ev = [(ct_clk c, cmd), (ct_clk c, second)]" "c' = upd_stats (Increment ''hbm_dual_cmds'') c4"
proof -
  obtain cmd c1 where p: "ct_pick_command cfg c = ret (cmd, c1)"
    using i by (auto simp: ct_issue_phase_def run_elims)
  show thesis
  proof (cases "IsValid cmd")
    case False
    then show thesis using none i p by (simp add: ct_issue_phase_def)
  next
    case v: True
    obtain c2 where c2: "IssueCommand cfg tm cmd c1 = ret c2"
      using i p v by (auto simp: ct_issue_phase_def run_elims)
    show thesis
    proof (cases "enable_hbm_dual_cmd cfg")
      case False
      then show thesis using one [OF p v c2] i p v c2 by (simp add: ct_issue_phase_def)
    next
      case dual: True
      obtain second c3 where g: "ct_get_command cfg c2 = ret (second, c3)"
        using i p v c2 dual by (auto simp: ct_issue_phase_def run_elims)
      show thesis
      proof (cases "IsValid second \<and> IsReadWrite second \<noteq> IsReadWrite cmd")
        case False
        then have "ev = [(ct_clk c, cmd)]" "c' = c3" using i p v c2 dual g by (auto simp: ct_issue_phase_def)
        then show thesis using one [OF p v c2] g by simp
      next
        case True
        then obtain c4 where "IssueCommand cfg tm second c3 = ret c4" "ev = [(ct_clk c, cmd), (ct_clk c, second)]"
            "c' = upd_stats (Increment ''hbm_dual_cmds'') c4"
          using i p v c2 dual g by (auto simp: ct_issue_phase_def run_elims)
        then show thesis using two [OF p v c2 g] True by simp
      qed
    qed
  qed
qed

lemma self_refresh_cases:
  assumes "ct_self_refresh cfg tm (i # is) c = ret (ev, c')"
  obtains (pass) "ct_self_refresh cfg tm is c = ret (ev, c')"
  | (issued) req cmd where "cs_GetReadyCommand cfg (ct_channel c) req (ct_clk c) = ret cmd" "IsValid cmd"
      "IssueCommand cfg tm cmd c = ret c'" "ev = [(ct_clk c, cmd)]"
  using assms by (auto simp: Let_def run_elims split: if_splits)

lemma tick_trace_steps:
  assumes "ct_tick_trace cfg tm c = ret (ev, c')"
  obtains rf cs ev1 c1 ev2 c3 c4 where
    "refresh_ClockTick cfg (ct_refresh c) (ct_channel c) = ret (rf, cs)"
    "ct_issue_phase cfg tm (c\<lparr>ct_refresh := rf, ct_channel := cs\<rparr>) = ret (ev1, c1)"
    "ct_self_refresh cfg tm [0..ranks cfg - 1] (fold (ct_count_rank cfg) [0..ranks cfg - 1] c1) = ret (ev2, c3) \<or>
     ev2 = [] \<and> c3 = fold (ct_count_rank cfg) [0..ranks cfg - 1] c1"
    "ScheduleTransaction cfg c3 = ret c4" "ev = ev1 @ ev2"
    "c' = upd_stats (Increment ''num_cycles'') (c4\<lparr>ct_clk := ct_clk c4 + 1, ct_queue := cq_ClockTick (ct_queue c4)\<rparr>)"
proof -
  obtain rf cs where rf: "refresh_ClockTick cfg (ct_refresh c) (ct_channel c) = ret (rf, cs)"
    using assms by (auto simp: ct_tick_trace_def run_elims)
  obtain ev1 c1 where ph: "ct_issue_phase cfg tm (c\<lparr>ct_refresh := rf, ct_channel := cs\<rparr>) = ret (ev1, c1)"
    using assms rf by (auto simp: ct_tick_trace_def run_elims)
  show thesis using that [OF rf ph] assms rf ph
    by (cases "enable_self_refresh cfg \<and> ev1 = []") (auto simp: ct_tick_trace_def Let_def run_elims)
qed

end
