(* ===== verification/DS_System_Inv.thy ===== *)
theory DS_System_Inv
  imports DS_System DS_Controller_Inv
begin

text \<open>
  The memory systems keep the contract of \<open>Mem_Interface\<close>: no call aborts, a read is taken
  while its channel has fewer than \<open>trans_queue_size\<close> transactions pending, and whatever is
  taken is either still pending or was returned once.
\<close>

section \<open>The JEDEC system\<close>

definition system_config_ok :: "Config \<Rightarrow> bool" where
  "system_config_ok cfg \<longleftrightarrow>
     config_ok cfg \<and> (of_int (epoch_period cfg) :: 64 word) \<noteq> 0 \<and>
     (\<forall>a. ch_in cfg (ds_GetChannel cfg a))"

definition ctrls_ok :: "Config \<Rightarrow> JedecDRAMSystem \<Rightarrow> bool" where
  "ctrls_ok cfg s \<longleftrightarrow>
     (\<forall>i. ch_in cfg i \<longrightarrow> ct_ok cfg (ctrls s i) \<and> (\<forall>t \<in># ct_pend (ctrls s i). ds_GetChannel cfg (fst t) = i))"

definition js_ok :: "Config \<Rightarrow> JedecDRAMSystem \<Rightarrow> bool" where
  "js_ok cfg s \<longleftrightarrow> system_config_ok cfg \<and> \<not> unified_queue cfg \<and> ctrls_ok cfg s"

definition js_pend :: "Config \<Rightarrow> JedecDRAMSystem \<Rightarrow> (64 word \<times> bool) multiset" where
  "js_pend cfg s = (\<Sum>i\<in>{0..<channels cfg}. ct_pend (ctrls s i))"

lemma js_ok_config: "js_ok cfg s \<Longrightarrow> config_ok cfg"
  by (simp add: js_ok_def system_config_ok_def)

lemma ch_in_iff: "ch_in cfg i \<longleftrightarrow> i \<in> {0..<channels cfg}"
  by (auto simp: ch_in_def)

text \<open>Changing one controller changes the pending transactions of its channel only.\<close>

lemma js_pend_upd:
  assumes "ch_in cfg i"
  shows "js_pend cfg (s\<lparr>ctrls := (ctrls s)(i := c)\<rparr>) + ct_pend (ctrls s i) = js_pend cfg s + ct_pend c"
proof -
  let ?I = "{0..<channels cfg}"
  have i: "i \<in> ?I" using assms by (simp add: ch_in_def)
  have rest: "(\<Sum>j\<in>?I - {i}. ct_pend (((ctrls s)(i := c)) j)) = (\<Sum>j\<in>?I - {i}. ct_pend (ctrls s j))"
    by (rule sum.cong) auto
  show ?thesis by (simp add: js_pend_def sum.remove [OF finite_atLeastLessThan_int i] rest del: fun_upd_apply)
    (simp add: ac_simps)
qed

lemma js_pend_upd_same:
  assumes "ch_in cfg i" "ct_pend c = ct_pend (ctrls s i)"
  shows "js_pend cfg (s\<lparr>ctrls := (ctrls s)(i := c)\<rparr>) = js_pend cfg s"
  using js_pend_upd [OF assms(1), of s c] assms(2) by simp

lemma ctrls_ok_upd:
  assumes "ctrls_ok cfg s" "ct_ok cfg c" "\<forall>t \<in># ct_pend c. ds_GetChannel cfg (fst t) = i"
  shows "ctrls_ok cfg (s\<lparr>ctrls := (ctrls s)(i := c)\<rparr>)"
  using assms by (simp add: ctrls_ok_def)

text \<open>The pending transactions of one channel are those of its controller.\<close>

lemma js_pend_channel:
  assumes "ctrls_ok cfg s" "ch_in cfg i"
  shows "{#t \<in># js_pend cfg s. ds_GetChannel cfg (fst t) = i#} = ct_pend (ctrls s i)"
proof -
  have fs: "{#t \<in># (\<Sum>j\<in>J. ct_pend (ctrls s j)). P t#} = (\<Sum>j\<in>J. {#t \<in># ct_pend (ctrls s j). P t#})"
    if "finite J" for J P using that by (induction J rule: finite_induct) auto
  have one: "{#t \<in># ct_pend (ctrls s j). ds_GetChannel cfg (fst t) = i#} = (if j = i then ct_pend (ctrls s i) else {#})"
    if "j \<in> {0..<channels cfg}" for j
  proof -
    have k: "\<forall>t \<in># ct_pend (ctrls s j). ds_GetChannel cfg (fst t) = j"
      using assms(1) that by (simp add: ctrls_ok_def ch_in_iff)
    show ?thesis
    proof (cases "j = i")
      case True
      then show ?thesis using k by (simp add: filter_mset_eq_conv)
    next
      case False
      then show ?thesis using k by (auto simp: filter_mset_eq_conv)
    qed
  qed
  have i: "i \<in> {0..<channels cfg}" using assms(2) by (simp add: ch_in_def)
  show ?thesis by (simp add: js_pend_def fs one i del: atLeastLessThan_iff cong: sum.cong)
qed

lemma js_will_accept:
  assumes ok: "js_ok cfg s"
    and few: "size {#t \<in># js_pend cfg s. ds_GetChannel cfg (fst t) = ds_GetChannel cfg a#} < to_size_t (trans_queue_size cfg)"
  shows "js_WillAcceptTransaction cfg a False s"
proof -
  let ?c = "ctrls s (ds_GetChannel cfg a)"
  have ch: "ch_in cfg (ds_GetChannel cfg a)" and u: "\<not> unified_queue cfg"
    using ok by (simp_all add: js_ok_def system_config_ok_def)
  have s: "ctrls_ok cfg s" using ok by (simp add: js_ok_def)
  have c: "ct_ok cfg ?c" using s ch by (simp add: ctrls_ok_def)
  have "length (read_queue ?c) \<le> size (ct_pend ?c)" using c read_queue_bound by (simp add: ct_ok_def)
  then show ?thesis
    using few c u js_pend_channel [OF s ch]
    by (simp add: js_WillAcceptTransaction_def ct_WillAcceptTransaction_def ct_ok_def)
qed

lemma js_add:
  assumes ok: "js_ok cfg s" and acc: "js_WillAcceptTransaction cfg a w s"
  shows "\<exists>s'. js_AddTransaction cfg a w s = ret (True, s') \<and> js_ok cfg s' \<and> js_pend cfg s' = add_mset (a, w) (js_pend cfg s)"
proof -
  let ?i = "ds_GetChannel cfg a"
  let ?c = "ct_AddTransaction (mk_Transaction a w) (ctrls s ?i)"
  have ch: "ch_in cfg ?i" using ok by (simp add: js_ok_def system_config_ok_def)
  have cs: "ctrls_ok cfg s" using ok by (simp add: js_ok_def)
  then have c: "ct_ok cfg (ctrls s ?i)" "\<forall>t \<in># ct_pend (ctrls s ?i). ds_GetChannel cfg (fst t) = ?i"
    using ch by (simp_all add: ctrls_ok_def)
  have p: "ct_pend ?c = add_mset (a, w) (ct_pend (ctrls s ?i))"
    using ct_AddTransaction_ok(2) [OF c(1), of "mk_Transaction a w"] by (simp add: mk_Transaction_def)
  let ?s = "s\<lparr>ctrls := (ctrls s)(?i := ?c)\<rparr>"
  have cl: "ctrls_ok cfg (t\<lparr>last_req_clk := x\<rparr>) = ctrls_ok cfg t" "js_pend cfg (t\<lparr>last_req_clk := x\<rparr>) = js_pend cfg t" for t x
    by (simp_all add: ctrls_ok_def js_pend_def)
  have "ctrls_ok cfg ?s"
    using ctrls_ok_upd [OF cs ct_AddTransaction_ok(1) [OF c(1), of "mk_Transaction a w"], of ?i] c(2) p by simp
  then have k: "js_ok cfg (?s\<lparr>last_req_clk := js_clk s\<rparr>)" using ok cl by (simp add: js_ok_def)
  have "js_pend cfg ?s = add_mset (a, w) (js_pend cfg s)" using js_pend_upd [OF ch, of s ?c] p by simp
  moreover have "js_AddTransaction cfg a w s = ret (True, ?s\<lparr>last_req_clk := js_clk s\<rparr>)"
    using acc ch by (simp add: js_AddTransaction_def js_WillAcceptTransaction_def Let_def)
  ultimately show ?thesis using k cl by simp
qed

section \<open>A clock cycle\<close>

lemma drain_done_ok:
  "ct_ok cfg c \<Longrightarrow> drain_done clk c = (ts, c') \<Longrightarrow> ct_ok cfg c' \<and> ct_pend c = mset ts + ct_pend c'"
proof (induction clk c arbitrary: ts rule: drain_done.induct)
  case (1 clk c)
  obtain r d where r: "ReturnDoneTrans clk c = (r, d)" by (cases "ReturnDoneTrans clk c")
  show ?case
  proof (cases r)
    case None
    then have "d = c" using r by (auto simp: ReturnDoneTrans_def Let_def split: option.splits)
    then show ?thesis using 1 r None by (simp add: drain_done.simps [of clk c])
  next
    case (Some t)
    obtain us e where us: "drain_done clk d = (us, e)" by (cases "drain_done clk d")
    have t: "ct_ok cfg d" "ct_pend c = add_mset t (ct_pend d)"
      using ReturnDoneTrans_ok [OF 1(2)] r Some by auto
    have "ts = t # us" "c' = e" using 1(3) r Some us by (simp_all add: drain_done.simps [of clk c])
    then show ?thesis using 1(1) [OF r [symmetric] Some t(1)] us t(2) by simp
  qed
qed

lemma drain_all_ok:
  assumes "ctrls_ok cfg s" "\<forall>i\<in>set is. ch_in cfg i" "drain_all clk is s = (ts, s')"
  shows "ctrls_ok cfg s' \<and> js_pend cfg s = mset ts + js_pend cfg s'"
  using assms
proof (induction "is" arbitrary: s ts)
  case (Cons i "is")
  obtain us c where us: "drain_done clk (ctrls s i) = (us, c)" by (cases "drain_done clk (ctrls s i)")
  let ?s = "s\<lparr>ctrls := (ctrls s)(i := c)\<rparr>"
  obtain vs s2 where vs: "drain_all clk is ?s = (vs, s2)" by (cases "drain_all clk is ?s")
  have r: "ts = us @ vs" "s' = s2" using Cons.prems(3) us vs by auto
  have i: "ch_in cfg i" using Cons.prems(2) by simp
  have c0: "ct_ok cfg (ctrls s i)" "\<forall>t \<in># ct_pend (ctrls s i). ds_GetChannel cfg (fst t) = i"
    using Cons.prems(1) i by (simp_all add: ctrls_ok_def)
  have c: "ct_ok cfg c" "ct_pend (ctrls s i) = mset us + ct_pend c" using drain_done_ok [OF c0(1) us] by auto
  have "ctrls_ok cfg ?s" using ctrls_ok_upd [OF Cons.prems(1) c(1), of i] c0(2) c(2) by simp
  then have "ctrls_ok cfg s2 \<and> js_pend cfg ?s = mset vs + js_pend cfg s2"
    using Cons.IH [of ?s vs] vs r(2) Cons.prems(2) by simp
  moreover have "js_pend cfg s = mset us + js_pend cfg ?s"
    using js_pend_upd [OF i, of s c] c(2) by (simp add: ac_simps)
  ultimately show ?case using r by (simp add: ac_simps)
qed simp

lemma js_tick_ctrl_ok:
  assumes cfg: "config_ok cfg" and ok: "ctrls_ok cfg s" and i: "ch_in cfg i"
  shows "\<exists>s'. js_tick_ctrl cfg tm i s = ret s' \<and> ctrls_ok cfg s' \<and> js_pend cfg s' = js_pend cfg s \<and> js_clk s' = js_clk s"
proof -
  have c0: "ct_ok cfg (ctrls s i)" "\<forall>t \<in># ct_pend (ctrls s i). ds_GetChannel cfg (fst t) = i"
    using ok i by (simp_all add: ctrls_ok_def)
  obtain c where c: "ct_ClockTick cfg tm (ctrls s i) = ret c" "ct_ok cfg c" "ct_pend c = ct_pend (ctrls s i)"
    using ct_ClockTick_ok [OF cfg c0(1)] by blast
  have "ctrls_ok cfg (s\<lparr>ctrls := (ctrls s)(i := c)\<rparr>)" using ctrls_ok_upd [OF ok c(2), of i] c0(2) c(3) by simp
  then show ?thesis using c(1) js_pend_upd_same [OF i c(3)] by (simp add: js_tick_ctrl_def)
qed

lemma js_print_ok:
  "ctrls_ok cfg (js_PrintEpochStats cfg' s) = ctrls_ok cfg s" "js_pend cfg (js_PrintEpochStats cfg' s) = js_pend cfg s"
proof -
  let ?f = "\<lambda>i s. s\<lparr>ctrls := (ctrls s)(i := ct_PrintEpochStats (ctrls s i))\<rparr>"
  have "ctrls_ok cfg (fold ?f xs s) = ctrls_ok cfg s \<and> js_pend cfg (fold ?f xs s) = js_pend cfg s" for xs s
  proof (induction xs arbitrary: s)
    case (Cons x xs)
    have k: "ct_ok cfg (ctrls (?f x s) i) = ct_ok cfg (ctrls s i)" "ct_pend (ctrls (?f x s) i) = ct_pend (ctrls s i)" for i
      by (simp_all add: ct_PrintEpochStats_def)
    have "ctrls_ok cfg (?f x s) = ctrls_ok cfg s" "js_pend cfg (?f x s) = js_pend cfg s"
      unfolding ctrls_ok_def js_pend_def k by simp_all
    with Cons.IH [of "?f x s"] show ?case unfolding fold_Cons comp_apply by argo
  qed simp
  then show "ctrls_ok cfg (js_PrintEpochStats cfg' s) = ctrls_ok cfg s" "js_pend cfg (js_PrintEpochStats cfg' s) = js_pend cfg s"
    unfolding js_PrintEpochStats_def by blast+
qed

lemma js_advance_ok:
  assumes sys: "system_config_ok cfg" and s1: "ctrls_ok cfg s1"
  shows "\<exists>s'. js_advance cfg tm s1 = ret s' \<and> ctrls_ok cfg s' \<and> js_pend cfg s' = js_pend cfg s1"
proof -
  let ?I = "[0..channels cfg - 1]"
  have I: "\<forall>i\<in>set ?I. ch_in cfg i" by (simp add: ch_in_def)
  have cfg: "config_ok cfg" and n: "(of_int (epoch_period cfg) :: 64 word) \<noteq> 0"
    using sys by (simp_all add: system_config_ok_def)
  let ?P = "\<lambda>t. ctrls_ok cfg t \<and> js_pend cfg t = js_pend cfg s1"
  obtain s2 where s2: "for_run (js_tick_ctrl cfg tm) ?I s1 = ret s2" "?P s2"
    using for_run_total [of ?P s1 ?I "js_tick_ctrl cfg tm"] s1 js_tick_ctrl_ok [OF cfg] I by metis
  let ?s3 = "s2\<lparr>js_clk := js_clk s2 + 1\<rparr>"
  have s3: "ctrls_ok cfg ?s3" "js_pend cfg ?s3 = js_pend cfg s1"
    using s2(2) by (simp_all add: ctrls_ok_def js_pend_def)
  let ?s4 = "if js_clk ?s3 mod of_int (epoch_period cfg) = 0 then js_PrintEpochStats cfg ?s3 else ?s3"
  have "ctrls_ok cfg ?s4 = ctrls_ok cfg ?s3" "js_pend cfg ?s4 = js_pend cfg ?s3" using js_print_ok by simp_all
  then have "ctrls_ok cfg ?s4" "js_pend cfg ?s4 = js_pend cfg s1" using s3 by simp_all
  moreover have "js_advance cfg tm s1 = ret ?s4" using s2(1) n by (simp add: js_advance_def)
  ultimately show ?thesis by blast
qed

lemma js_tick:
  assumes ok: "js_ok cfg s"
  shows "\<exists>ts s'. js_ClockTick cfg tm s = ret (ts, s') \<and> js_ok cfg s' \<and> js_pend cfg s = mset ts + js_pend cfg s'"
proof -
  let ?I = "[0..channels cfg - 1]"
  have I: "\<forall>i\<in>set ?I. ch_in cfg i" by (simp add: ch_in_def)
  have sys: "system_config_ok cfg" and cs: "ctrls_ok cfg s" using ok by (simp_all add: js_ok_def)
  obtain ts s1 where d: "drain_all (js_clk s) ?I s = (ts, s1)" by (cases "drain_all (js_clk s) ?I s")
  have s1: "ctrls_ok cfg s1" "js_pend cfg s = mset ts + js_pend cfg s1" using drain_all_ok [OF cs I d] by auto
  have u: "\<not> unified_queue cfg" using ok by (simp add: js_ok_def)
  obtain s2 where "js_advance cfg tm s1 = ret s2" "ctrls_ok cfg s2" "js_pend cfg s2 = js_pend cfg s1"
    using js_advance_ok [OF sys s1(1)] by blast
  then show ?thesis using d s1(2) sys u by (auto simp: js_ClockTick_def js_ok_def)
qed

interpretation jedec: memory_backend "jedec_ops cfg tm" "js_ok cfg" "js_pend cfg" "ds_GetChannel cfg"
    "to_size_t (trans_queue_size cfg)" for cfg tm
  by unfold_locales (simp_all add: jedec_ops_def js_will_accept js_add js_tick)

text \<open>The clock of the system.\<close>

lemma drain_all_clk: "drain_all clk is s = (ts, s') \<Longrightarrow> js_clk s' = js_clk s"
proof (induction "is" arbitrary: s ts)
  case (Cons i "is")
  then show ?case by (auto split: prod.splits)
qed simp

lemma tick_ctrls_clk: "for_run (js_tick_ctrl cfg tm) is s = ret s' \<Longrightarrow> js_clk s' = js_clk s"
proof (induction "is" arbitrary: s)
  case (Cons i "is")
  then obtain s1 where s1: "js_tick_ctrl cfg tm i s = ret s1" "for_run (js_tick_ctrl cfg tm) is s1 = ret s'" by (auto simp: run_elims)
  from s1(1) have "js_clk s1 = js_clk s" by (auto simp: js_tick_ctrl_def run_elims)
  with Cons.IH [OF s1(2)] show ?case by simp
qed simp

lemma print_epoch_clk: "js_clk (js_PrintEpochStats cfg s) = js_clk s"
proof -
  have "js_clk (fold (\<lambda>i s. s\<lparr>ctrls := (ctrls s)(i := ct_PrintEpochStats (ctrls s i))\<rparr>) is s) = js_clk s" for "is" s
    by (induction "is" arbitrary: s) simp_all
  then show ?thesis by (simp add: js_PrintEpochStats_def)
qed

lemma js_tick_clk:
  assumes "js_ClockTick cfg tm s = ret (ts, s')"
  shows "js_clk s' = js_clk s + 1"
proof -
  obtain us s1 where d: "drain_all (js_clk s) [0..channels cfg - 1] s = (us, s1)" by fastforce
  then obtain s2 where s2: "for_run (js_tick_ctrl cfg tm) [0..channels cfg - 1] s1 = ret s2"
      "s' = s2\<lparr>js_clk := js_clk s2 + 1\<rparr> \<or> s' = js_PrintEpochStats cfg (s2\<lparr>js_clk := js_clk s2 + 1\<rparr>)"
    using assms by (auto simp: js_ClockTick_def js_advance_def run_elims Let_def split: if_splits)
  then show ?thesis using drain_all_clk [OF d] tick_ctrls_clk [OF s2(1)] by (auto simp: print_epoch_clk)
qed

interpretation jedec_clock: memory_clock "jedec_ops cfg tm" js_clk for cfg tm
  by unfold_locales (auto simp: jedec_ops_def js_AddTransaction_def Let_def checked_def assert_that_def dest: js_tick_clk split: if_splits)

section \<open>Construction\<close>

definition refresh_config_ok :: "Config \<Rightarrow> bool" where
  "refresh_config_ok cfg \<longleftrightarrow>
     (case new_Refresh cfg of Some (Inr rf) \<Rightarrow> (of_int (refresh_interval rf) :: 64 word) \<noteq> 0 | _ \<Rightarrow> False)"

lemma js_controllers_ok:
  assumes cfg: "system_config_ok cfg" "refresh_config_ok cfg"
  shows "\<exists>s. js_controllers cfg junk = ret s \<and> ctrls_ok cfg s \<and> js_pend cfg s = {#} \<and> js_clk s = 0"
proof -
  let ?f = "\<lambda>i s. run_bind (new_Controller cfg i) (\<lambda>c. ret (s\<lparr>ctrls := (ctrls s)(i := c)\<rparr>))"
  have one: "\<exists>c. new_Controller cfg i = ret c \<and> ct_ok cfg c \<and> ct_pend c = {#}" for i
    using ct_ok_new [of cfg i] cfg by (auto simp: system_config_ok_def refresh_config_ok_def split: option.splits sum.splits)
  have "\<exists>s'. for_run ?f xs s = ret s' \<and> js_clk s' = js_clk s \<and>
      (\<forall>i. (i \<in> set xs \<longrightarrow> ct_ok cfg (ctrls s' i) \<and> ct_pend (ctrls s' i) = {#}) \<and> (i \<notin> set xs \<longrightarrow> ctrls s' i = ctrls s i))" for xs s
  proof (induction xs arbitrary: s)
    case (Cons x xs)
    obtain c where c: "new_Controller cfg x = ret c" "ct_ok cfg c" "ct_pend c = {#}" using one by blast
    let ?s = "s\<lparr>ctrls := (ctrls s)(x := c)\<rparr>"
    obtain s' where s': "for_run ?f xs ?s = ret s'" "js_clk s' = js_clk ?s"
        "\<And>i. (i \<in> set xs \<longrightarrow> ct_ok cfg (ctrls s' i) \<and> ct_pend (ctrls s' i) = {#}) \<and> (i \<notin> set xs \<longrightarrow> ctrls s' i = ctrls ?s i)"
      using Cons.IH [of ?s] by blast
    show ?case
    proof (intro exI [of _ s'] conjI allI)
      fix i
      show "i \<in> set (x # xs) \<longrightarrow> ct_ok cfg (ctrls s' i) \<and> ct_pend (ctrls s' i) = {#}"
        "i \<notin> set (x # xs) \<longrightarrow> ctrls s' i = ctrls s i"
        using s'(3) [of i] c(2,3) by (cases "i \<in> set xs"; auto)+
    next
      show "for_run ?f (x # xs) s = ret s'" unfolding for_run.simps c(1) run_bind_simps by (rule s'(1))
    qed (use s'(2) in simp)
  qed simp
  from this [of "[0..channels cfg - 1]" "\<lparr>js_clk = 0, last_req_clk = 0, ctrls = junk\<rparr>"]
  obtain s where s: "for_run ?f [0..channels cfg - 1] \<lparr>js_clk = 0, last_req_clk = 0, ctrls = junk\<rparr> = ret s"
      "js_clk s = 0" "\<And>i. ch_in cfg i \<Longrightarrow> ct_ok cfg (ctrls s i) \<and> ct_pend (ctrls s i) = {#}"
    by (auto simp: ch_in_def simp del: fun_upd_apply)
  have "ctrls_ok cfg s" using s(3) by (simp add: ctrls_ok_def)
  moreover have "js_pend cfg s = {#}" using s(3) by (simp add: js_pend_def ch_in_def)
  ultimately show ?thesis using s(1,2) by (auto simp: js_controllers_def)
qed

lemma js_ok_new:
  assumes "system_config_ok cfg" "refresh_config_ok cfg" "\<not> unified_queue cfg" "\<not> IsHMC cfg"
  shows "\<exists>s. new_JedecDRAMSystem cfg junk = ret s \<and> js_ok cfg s \<and> js_pend cfg s = {#} \<and> js_clk s = 0"
  using js_controllers_ok [OF assms(1,2), of junk] assms by (auto simp: new_JedecDRAMSystem_def js_ok_def)

section \<open>The ideal system\<close>

definition id_pend :: "IdealDRAMSystem \<Rightarrow> (64 word \<times> bool) multiset" where
  "id_pend s = mset (map (\<lambda>t. (tr_addr t, tr_is_write t)) (infinite_buffer_q s))"

lemma id_scan_conserves: "mset ts = mset (fst (id_scan due ts)) + mset (snd (id_scan due ts))"
  by (induction due ts rule: id_scan.induct) (auto simp: split_beta)

interpretation ideal: memory_backend "ideal_ops cfg" "\<lambda>_. True" id_pend "ds_GetChannel cfg" cap for cfg cap
proof unfold_locales
  fix s :: IdealDRAMSystem
  let ?r = "id_scan (id_due cfg (id_clk s)) (infinite_buffer_q s)"
  have "id_pend s = image_mset (\<lambda>t. (tr_addr t, tr_is_write t)) (mset (fst ?r) + mset (snd ?r))"
    unfolding id_pend_def mset_map by (subst id_scan_conserves [of _ "id_due cfg (id_clk s)"]) simp
  then show "\<exists>ts m'. ms_ClockTick (ideal_ops cfg) s = ret (ts, m') \<and> True \<and> id_pend s = mset ts + id_pend m'"
    by (auto simp: ideal_ops_def id_ClockTick_def id_pend_def split_beta)
qed (simp_all add: ideal_ops_def id_AddTransaction_def id_pend_def mk_Transaction_def)

text \<open>
  Of two finished transactions that are next to each other only the first is returned in
  this cycle: the iterator passes over the second.
\<close>

lemma id_scan_skips: "due t \<Longrightarrow> id_scan due (t # u # ts) = (t # fst (id_scan due ts), u # snd (id_scan due ts))"
  by (simp add: split_beta)

text \<open>Every cycle in which the head of the buffer is due returns it, so no transaction waits for ever.\<close>

lemma id_head_returned:
  assumes "infinite_buffer_q s = t # ts" "id_due cfg (id_clk s) t"
  shows "(tr_addr t, tr_is_write t) \<in> set (fst (id_ClockTick cfg s))"
  using assms by (cases ts) (auto simp: id_ClockTick_def split_beta)

interpretation ideal_clock: memory_clock "ideal_ops cfg" id_clk for cfg
  by unfold_locales (auto simp: ideal_ops_def id_ClockTick_def id_AddTransaction_def split: prod.splits)

end
