(* ===== verification/DS_HMC_Inv.thy ===== *)
theory DS_HMC_Inv
  imports DS_HMC DS_System_Inv
begin

text \<open>
  The invariant of the HMC system: every request in a queue or in a vault has its response in
  the lookup table, a positive age counter means a non-empty queue, and all links, quadrants
  and vaults are in range. With it no step fails and every accepted transaction is returned
  at most once.
\<close>

section \<open>The invariant\<close>

definition link_reqs :: "HMCMemorySystem \<Rightarrow> (64 word) multiset" where
  "link_reqs s = (\<Sum>i\<in>{0..<links s}. mset (map mem_operand (link_req_queues s i)))"

definition quad_reqs :: "HMCMemorySystem \<Rightarrow> (64 word) multiset" where
  "quad_reqs s = (\<Sum>q\<in>{0..<4}. mset (map mem_operand (quad_req_queues s q)))"

definition link_resps :: "HMCMemorySystem \<Rightarrow> (addr_t \<times> bool) multiset" where
  "link_resps s = (\<Sum>i\<in>{0..<links s}. mset (map resp_tag (link_resp_queues s i)))"

definition quad_resps :: "HMCMemorySystem \<Rightarrow> (addr_t \<times> bool) multiset" where
  "quad_resps s = (\<Sum>q\<in>{0..<4}. mset (map resp_tag (quad_resp_queues s q)))"

text \<open>The transactions that are on their way, by the responses they will get.\<close>

definition hm_pend :: "HMCMemorySystem \<Rightarrow> (addr_t \<times> bool) multiset" where
  "hm_pend s = mset (map (\<lambda>e. resp_tag (snd e)) (resp_lookup_table s)) + quad_resps s + link_resps s"

definition req_ok :: "Config \<Rightarrow> HMCRequest \<Rightarrow> bool" where
  "req_ok cfg r \<longleftrightarrow> rq_vault r = ds_GetChannel cfg (mem_operand r) \<and> quad_in (rq_quad r)"

definition resp_ok :: "HMCMemorySystem \<Rightarrow> HMCResponse \<Rightarrow> bool" where
  "resp_ok s r \<longleftrightarrow> link_in s (rs_link r) \<and> quad_in (rs_quad r)"

definition queues_ok :: "Config \<Rightarrow> HMCMemorySystem \<Rightarrow> bool" where
  "queues_ok cfg s \<longleftrightarrow>
     link_in s (next_link s) \<and>
     (\<forall>i. \<forall>r\<in>set (link_req_queues s i). req_ok cfg r) \<and> (\<forall>q. \<forall>r\<in>set (quad_req_queues s q). req_ok cfg r) \<and>
     (\<forall>e\<in>set (resp_lookup_table s). resp_ok s (snd e)) \<and> (\<forall>q. \<forall>r\<in>set (quad_resp_queues s q). resp_ok s r) \<and>
     (\<forall>i. link_in s i \<longrightarrow> 0 < link_age_counter s i \<longrightarrow> link_req_queues s i \<noteq> []) \<and>
     (\<forall>q. quad_in q \<longrightarrow> 0 < quad_age_counter s q \<longrightarrow> quad_resp_queues s q \<noteq> [])"

text \<open>\<open>rest\<close> are the addresses that the vaults have returned and that are not called back yet.\<close>

definition books :: "Config \<Rightarrow> (64 word) multiset \<Rightarrow> HMCMemorySystem \<Rightarrow> bool" where
  "books cfg rest s \<longleftrightarrow>
     mset (map fst (resp_lookup_table s)) = link_reqs s + quad_reqs s + image_mset fst (js_pend cfg (hm_base s)) + rest"

definition hm_inv :: "Config \<Rightarrow> (64 word) multiset \<Rightarrow> HMCMemorySystem \<Rightarrow> bool" where
  "hm_inv cfg rest s \<longleftrightarrow>
     system_config_ok cfg \<and> ctrls_ok cfg (hm_base s) \<and> queues_ok cfg s \<and> books cfg rest s"

text \<open>What no step of the queues changes: the shape and the clocks.\<close>

definition hm_frame :: "HMCMemorySystem \<Rightarrow> (int \<times> nat) \<times> 64 word \<times> 64 word \<times> 64 word \<times> 64 word" where
  "hm_frame s = ((links s, queue_depth s), logic_ps s, dram_ps s, ps_per_logic s, ps_per_dram s)"

definition hm_step :: "Config \<Rightarrow> HMCMemorySystem \<Rightarrow> HMCMemorySystem \<Rightarrow> bool" where
  "hm_step cfg s s' \<longleftrightarrow> hm_inv cfg {#} s' \<and> hm_pend s' = hm_pend s \<and> hm_frame s' = hm_frame s"

lemma hm_step_refl: "hm_inv cfg {#} s \<Longrightarrow> hm_step cfg s s"
  by (simp add: hm_step_def)

lemma hm_step_trans: "hm_step cfg s s1 \<Longrightarrow> hm_step cfg s1 s2 \<Longrightarrow> hm_step cfg s s2"
  by (simp add: hm_step_def)

lemma sum_upd:
  assumes "finite S" "i \<in> S"
  shows "(\<Sum>j\<in>S. g ((f(i := v)) j)) + g (f i) = (\<Sum>j\<in>S. g (f j)) + (g v :: 'a multiset)"
proof -
  have "(\<Sum>j\<in>S - {i}. g ((f(i := v)) j)) = (\<Sum>j\<in>S - {i}. g (f j))" by (rule sum.cong) auto
  then show ?thesis using assms by (simp add: sum.remove ac_simps)
qed

lemma quad_in_iff: "quad_in q \<longleftrightarrow> q \<in> {0..<4}"
  by (auto simp: quad_in_def)

lemma link_in_iff: "link_in s i \<longleftrightarrow> i \<in> {0..<links s}"
  by (auto simp: link_in_def)

section \<open>The arbitration order\<close>

lemma mset_age_insert: "mset (age_insert age p q) = add_mset p (mset q)"
  by (induction q) auto

lemma age_positions_distinct:
  assumes "0 < n"
  shows "distinct (map (\<lambda>i. (i + k) mod n) [0..n - 1])"
proof -
  have "inj_on (\<lambda>i. (i + k) mod n) (set [0..n - 1])"
  proof (rule inj_onI)
    fix i j assume ij: "i \<in> set [0..n - 1]" "j \<in> set [0..n - 1]" "(i + k) mod n = (j + k) mod n"
    then have "(i - j) mod n = 0" by (metis add_diff_cancel_right mod_0_imp_dvd mod_eq_dvd_iff mod_mod_trivial dvd_imp_mod_0)
    then have "n dvd i - j" by auto
    then show "i = j" using ij(1,2) assms zdvd_imp_le [of n "\<bar>i - j\<bar>"] by (cases "i = j") auto
  qed
  then show ?thesis by (simp add: distinct_map)
qed

lemma fold_age:
  "mset (fold (\<lambda>i q. let pos = f i in if age pos > 0 then age_insert age pos q else q) is q) =
     mset (filter (\<lambda>p. age p > 0) (map f is)) + mset q"
  by (induction "is" arbitrary: q) (auto simp: Let_def mset_age_insert)

text \<open>Every waiting position is visited exactly once.\<close>

lemma BuildAgeQueue_visits:
  assumes "0 < n"
  shows "\<exists>q. BuildAgeQueue clk n age = ret q \<and> distinct q \<and> set q = {p. 0 \<le> p \<and> p < n \<and> 0 < age p}"
proof -
  let ?f = "\<lambda>i. (i + uint clk mod n) mod n"
  let ?q = "fold (\<lambda>i q. let pos = ?f i in if age pos > 0 then age_insert age pos q else q) [0..n - 1] []"
  have m: "mset ?q = mset (filter (\<lambda>p. age p > 0) (map ?f [0..n - 1]))" by (subst fold_age) simp
  have "distinct ?q"
    using age_positions_distinct [OF assms, of "uint clk mod n"] mset_eq_imp_distinct_iff [OF m] distinct_filter by blast
  moreover have "set (map ?f [0..n - 1]) = {0..<n}"
  proof (rule card_subset_eq)
    show "set (map ?f [0..n - 1]) \<subseteq> {0..<n}" using assms by auto
    show "card (set (map ?f [0..n - 1])) = card {0..<n}"
      using distinct_card [OF age_positions_distinct [OF assms, of "uint clk mod n"]] by simp
  qed simp
  then have "set ?q = {p. 0 \<le> p \<and> p < n \<and> 0 < age p}" using mset_eq_setD [OF m] by auto
  moreover have "BuildAgeQueue clk n age = ret ?q" using assms by (simp add: BuildAgeQueue_def)
  ultimately show ?thesis by blast
qed

section \<open>Requests on their way\<close>

lemma move_request_ok:
  assumes inv: "hm_inv cfg {#} s" and src: "link_in s src" and ne: "link_req_queues s src \<noteq> []"
  shows "\<exists>s'. move_request src s = ret s' \<and> hm_step cfg s s' \<and> (\<forall>i. i \<noteq> src \<longrightarrow> link_req_queues s' i = link_req_queues s i)"
proof -
  obtain req rest where q: "link_req_queues s src = req # rest" using ne by (cases "link_req_queues s src") auto
  have Q: "queues_ok cfg s" and B: "books cfg {#} s" using inv by (simp_all add: hm_inv_def)
  have r: "req_ok cfg req" "\<forall>r\<in>set rest. req_ok cfg r"
    using Q q unfolding queues_ok_def by (metis list.set_intros(1), metis list.set_intros(2))
  then have quad: "quad_in (rq_quad req)" by (simp add: req_ok_def)
  let ?q = "rq_quad req" and ?new = "req\<lparr>rq_exit_time := logic_clk s + of_int (rq_flits req)\<rparr>"
  let ?s1 = "s\<lparr>link_req_queues := (link_req_queues s)(src := rest),
     quad_req_queues := (quad_req_queues s)(?q := quad_req_queues s ?q @ [?new]),
     quad_busy := (quad_busy s)(?q := rq_flits req),
     link_age_counter := (link_age_counter s)(src := (if rest = [] then 0 else 1))\<rparr>"
  let ?s2 = "s\<lparr>link_age_counter := (link_age_counter s)(src := to_int32 (link_age_counter s src + 1))\<rparr>"
  have "hm_step cfg s ?s1"
  proof -
    have "link_reqs ?s1 + {#mem_operand req#} = link_reqs s"
      using sum_upd [of "{0..<links s}" src "\<lambda>q. mset (map mem_operand q)" "link_req_queues s" rest] src q
      by (simp add: link_reqs_def link_in_iff del: fun_upd_apply)
    moreover have "quad_reqs ?s1 = quad_reqs s + {#mem_operand req#}"
      using sum_upd [of "{0..<4}" ?q "\<lambda>q. mset (map mem_operand q)" "quad_req_queues s" "quad_req_queues s ?q @ [?new]"] quad
      by (simp add: quad_reqs_def quad_in_iff del: fun_upd_apply)
    ultimately have "books cfg {#} ?s1" using B by (simp add: books_def)
    moreover have "queues_ok cfg ?s1"
      using Q r unfolding queues_ok_def by (auto simp: link_in_def resp_ok_def req_ok_def)
    ultimately show ?thesis using inv by (simp add: hm_step_def hm_inv_def hm_pend_def quad_resps_def link_resps_def hm_frame_def)
  qed
  moreover have "hm_step cfg s ?s2"
    using inv q unfolding hm_step_def hm_inv_def queues_ok_def
    by (auto simp: hm_pend_def quad_resps_def link_resps_def hm_frame_def books_def link_reqs_def quad_reqs_def
        link_in_def resp_ok_def)
  ultimately show ?thesis using quad by (auto simp: move_request_def q Let_def)
qed

lemma move_requests_ok:
  assumes "hm_inv cfg {#} s" "distinct src" "\<forall>i\<in>set src. link_in s i \<and> link_req_queues s i \<noteq> []"
  shows "\<exists>s'. for_run move_request src s = ret s' \<and> hm_step cfg s s'"
  using assms
proof (induction src arbitrary: s)
  case (Cons i src)
  obtain s1 where s1: "move_request i s = ret s1" "hm_step cfg s s1" "\<forall>j. j \<noteq> i \<longrightarrow> link_req_queues s1 j = link_req_queues s j"
    using move_request_ok [OF Cons.prems(1), of i] Cons.prems(3) by auto
  have "links s1 = links s" using s1(2) by (simp add: hm_step_def hm_frame_def)
  then have "\<forall>j\<in>set src. link_in s1 j \<and> link_req_queues s1 j \<noteq> []" using Cons.prems(2,3) s1(3) by (auto simp: link_in_def)
  then obtain s' where "for_run move_request src s1 = ret s'" "hm_step cfg s1 s'"
    using Cons.IH [of s1] s1(2) Cons.prems(2) by (auto simp: hm_step_def)
  then show ?case using s1 hm_step_trans by auto
qed (simp add: hm_step_refl)

lemma drain_quad_ok:
  assumes inv: "hm_inv cfg {#} s" and i: "quad_in i"
  shows "\<exists>s'. drain_quad cfg i s = ret s' \<and> hm_step cfg s s'"
proof (cases "quad_req_queues s i")
  case Nil
  then show ?thesis using inv by (simp add: drain_quad_def hm_step_refl)
next
  case (Cons req rest)
  have Q: "queues_ok cfg s" and B: "books cfg {#} s" and C: "ctrls_ok cfg (hm_base s)" and S: "system_config_ok cfg"
    using inv by (simp_all add: hm_inv_def)
  have r: "req_ok cfg req" "\<forall>r\<in>set rest. req_ok cfg r"
    using Q Cons unfolding queues_ok_def by (metis list.set_intros(1), metis list.set_intros(2))
  let ?v = "rq_vault req" and ?b = "hm_base s"
  let ?c = "ct_AddTransaction (mk_Transaction (mem_operand req) (rq_is_write req)) (ctrls ?b ?v)"
  have v: "?v = ds_GetChannel cfg (mem_operand req)" "ch_in cfg ?v"
    using r(1) S by (auto simp: req_ok_def system_config_ok_def)
  have c: "ct_ok cfg (ctrls ?b ?v)" "\<forall>t \<in># ct_pend (ctrls ?b ?v). ds_GetChannel cfg (fst t) = ?v"
    using C v by (simp_all add: ctrls_ok_def)
  have p: "ct_pend ?c = add_mset (mem_operand req, rq_is_write req) (ct_pend (ctrls ?b ?v))"
    using ct_AddTransaction_ok(2) [OF c(1), of "mk_Transaction (mem_operand req) (rq_is_write req)"] by (simp add: mk_Transaction_def)
  let ?b1 = "?b\<lparr>ctrls := (ctrls ?b)(?v := ?c)\<rparr>"
  have C1: "ctrls_ok cfg ?b1"
    using ctrls_ok_upd [OF C ct_AddTransaction_ok(1) [OF c(1), of "mk_Transaction (mem_operand req) (rq_is_write req)"], of ?v] c(2) p v(1) by simp
  have P1: "js_pend cfg ?b1 = add_mset (mem_operand req, rq_is_write req) (js_pend cfg ?b)"
    using js_pend_upd [OF v(2), of ?b ?c] p by simp
  let ?s = "s\<lparr>hm_base := ?b1, quad_req_queues := (quad_req_queues s)(i := rest)\<rparr>"
  have "quad_reqs ?s + {#mem_operand req#} = quad_reqs s"
    using sum_upd [of "{0..<4}" i "\<lambda>q. mset (map mem_operand q)" "quad_req_queues s" rest] i Cons
    by (simp add: quad_reqs_def quad_in_iff del: fun_upd_apply)
  then have "books cfg {#} ?s" using B P1 by (simp add: books_def link_reqs_def)
  moreover have "queues_ok cfg ?s" using Q r(2) unfolding queues_ok_def by (auto simp: link_in_def resp_ok_def)
  ultimately have "hm_step cfg s ?s"
    using C1 S by (simp add: hm_step_def hm_inv_def hm_pend_def quad_resps_def link_resps_def hm_frame_def)
  then show ?thesis using v(2) inv Cons by (auto simp: drain_quad_def Let_def hm_step_refl)
qed

lemma DrainRequests_ok:
  assumes inv: "hm_inv cfg {#} s"
  shows "\<exists>s'. DrainRequests cfg s = ret s' \<and> hm_step cfg s s'"
proof -
  have "\<exists>s1. for_run (drain_quad cfg) [0..3] s = ret s1 \<and> hm_step cfg s s1"
  proof (rule for_run_total [where P = "hm_step cfg s", OF hm_step_refl [OF inv]])
    fix i t assume "i \<in> set [0..3::int]" "hm_step cfg s t"
    then show "\<exists>t'. drain_quad cfg i t = ret t' \<and> hm_step cfg s t'"
      using drain_quad_ok [of cfg t i] hm_step_trans [of cfg s t] by (auto simp: hm_step_def quad_in_def)
  qed
  then obtain s1 where s1: "for_run (drain_quad cfg) [0..3] s = ret s1" "hm_step cfg s s1" by blast
  let ?s2 = "s1\<lparr>quad_busy := drain_busy (quad_busy s1)\<rparr>"
  have s2: "hm_step cfg s1 ?s2"
    using s1(2) unfolding hm_step_def hm_inv_def queues_ok_def
    by (auto simp: hm_pend_def quad_resps_def link_resps_def hm_frame_def books_def link_reqs_def quad_reqs_def
        link_in_def resp_ok_def)
  then have Q: "queues_ok cfg ?s2" "hm_inv cfg {#} ?s2" by (simp_all add: hm_step_def hm_inv_def)
  then have "0 < links ?s2" by (auto simp: queues_ok_def link_in_def)
  then obtain q where q: "BuildAgeQueue (logic_clk ?s2) (links ?s2) (link_age_counter ?s2) = ret q" "distinct q"
      "set q = {p. 0 \<le> p \<and> p < links ?s2 \<and> 0 < link_age_counter ?s2 p}"
    using BuildAgeQueue_visits by blast
  have "\<forall>i\<in>set q. link_in ?s2 i \<and> link_req_queues ?s2 i \<noteq> []"
    using Q(1) unfolding q(3) queues_ok_def by (simp add: link_in_def)
  then obtain s3 where s3: "for_run move_request q ?s2 = ret s3" "hm_step cfg ?s2 s3"
    using move_requests_ok [OF Q(2) q(2)] by blast
  have "DrainRequests cfg s = ret s3" by (simp add: DrainRequests_def Let_def s1(1) q(1) [simplified] s3(1))
  then show ?thesis using hm_step_trans [OF hm_step_trans [OF s1(2) s2] s3(2)] by blast
qed

section \<open>Responses on their way\<close>

lemma move_response_ok:
  assumes inv: "hm_inv cfg {#} s" and src: "quad_in src" and ne: "quad_resp_queues s src \<noteq> []"
  shows "\<exists>s'. move_response src s = ret s' \<and> hm_step cfg s s' \<and> (\<forall>i. i \<noteq> src \<longrightarrow> quad_resp_queues s' i = quad_resp_queues s i)"
proof -
  obtain r rest where q: "quad_resp_queues s src = r # rest" using ne by (cases "quad_resp_queues s src") auto
  have Q: "queues_ok cfg s" and B: "books cfg {#} s" using inv by (simp_all add: hm_inv_def)
  have r: "resp_ok s r" "\<forall>r\<in>set rest. resp_ok s r"
    using Q q unfolding queues_ok_def by (metis list.set_intros(1), metis list.set_intros(2))
  then have l: "link_in s (rs_link r)" by (simp add: resp_ok_def)
  let ?l = "rs_link r" and ?new = "r\<lparr>rs_exit_time := logic_clk s + of_int (rs_flits r)\<rparr>"
  let ?s1 = "s\<lparr>quad_resp_queues := (quad_resp_queues s)(src := rest),
     link_resp_queues := (link_resp_queues s)(?l := link_resp_queues s ?l @ [?new]),
     link_busy := (link_busy s)(?l := rs_flits r),
     quad_age_counter := (quad_age_counter s)(src := (if rest = [] then 0 else 1))\<rparr>"
  let ?s2 = "s\<lparr>quad_age_counter := (quad_age_counter s)(src := to_int32 (quad_age_counter s src + 1))\<rparr>"
  have "hm_step cfg s ?s1"
  proof -
    have "quad_resps ?s1 + {#resp_tag r#} = quad_resps s"
      using sum_upd [of "{0..<4}" src "\<lambda>q. mset (map resp_tag q)" "quad_resp_queues s" rest] src q
      by (simp add: quad_resps_def quad_in_iff del: fun_upd_apply)
    moreover have "link_resps ?s1 = link_resps s + {#resp_tag r#}"
      using sum_upd [of "{0..<links s}" ?l "\<lambda>q. mset (map resp_tag q)" "link_resp_queues s" "link_resp_queues s ?l @ [?new]"] l
      by (simp add: link_resps_def link_in_iff resp_tag_def del: fun_upd_apply)
    ultimately have "hm_pend ?s1 = hm_pend s" by (simp add: hm_pend_def)
    moreover have "queues_ok cfg ?s1" using Q r(2) unfolding queues_ok_def by (auto simp: link_in_def resp_ok_def)
    ultimately show ?thesis
      using inv by (simp add: hm_step_def hm_inv_def books_def link_reqs_def quad_reqs_def hm_frame_def)
  qed
  moreover have "hm_step cfg s ?s2"
    using inv q unfolding hm_step_def hm_inv_def queues_ok_def
    by (auto simp: hm_pend_def quad_resps_def link_resps_def hm_frame_def books_def link_reqs_def quad_reqs_def
        link_in_def resp_ok_def)
  ultimately show ?thesis using l by (auto simp: move_response_def q Let_def)
qed

lemma move_responses_ok:
  assumes "hm_inv cfg {#} s" "distinct src" "\<forall>i\<in>set src. quad_in i \<and> quad_resp_queues s i \<noteq> []"
  shows "\<exists>s'. for_run move_response src s = ret s' \<and> hm_step cfg s s'"
  using assms
proof (induction src arbitrary: s)
  case (Cons i src)
  obtain s1 where s1: "move_response i s = ret s1" "hm_step cfg s s1" "\<forall>j. j \<noteq> i \<longrightarrow> quad_resp_queues s1 j = quad_resp_queues s j"
    using move_response_ok [OF Cons.prems(1), of i] Cons.prems(3) by auto
  have "\<forall>j\<in>set src. quad_in j \<and> quad_resp_queues s1 j \<noteq> []" using Cons.prems(2,3) s1(3) by auto
  then obtain s' where "for_run move_response src s1 = ret s'" "hm_step cfg s1 s'"
    using Cons.IH [of s1] s1(2) Cons.prems(2) by (auto simp: hm_step_def)
  then show ?case using s1 hm_step_trans by auto
qed (simp add: hm_step_refl)

text \<open>The oldest responses of the links leave the system.\<close>

lemma drain_links_ok:
  assumes "hm_inv cfg {#} s" "\<forall>i\<in>set is. link_in s i" "drain_links is s = (ts, s')"
  shows "hm_inv cfg {#} s' \<and> hm_pend s = mset ts + hm_pend s' \<and> hm_frame s' = hm_frame s"
  using assms
proof (induction "is" arbitrary: s ts)
  case (Cons i "is")
  obtain us s1 where 1: "drain_link i s = (us, s1)" by fastforce
  obtain vs s2 where 2: "drain_links is s1 = (vs, s2)" by fastforce
  have r: "ts = us @ vs" "s' = s2" using Cons.prems(3) 1 2 by auto
  have "hm_inv cfg {#} s1 \<and> hm_pend s = mset us + hm_pend s1 \<and> hm_frame s1 = hm_frame s"
  proof (cases "us = []")
    case True
    then have "s1 = s" using 1 by (auto simp: drain_link_def split: list.splits if_splits)
    then show ?thesis using True Cons.prems(1) by simp
  next
    case False
    then obtain x rest where x: "link_resp_queues s i = x # rest" "us = [resp_tag x]"
        "s1 = s\<lparr>link_resp_queues := (link_resp_queues s)(i := rest)\<rparr>"
      using 1 by (auto simp: drain_link_def split: list.splits if_splits)
    have "link_resps s1 + {#resp_tag x#} = link_resps s"
      using sum_upd [of "{0..<links s}" i "\<lambda>q. mset (map resp_tag q)" "link_resp_queues s" rest] Cons.prems(2) x(1)
      by (simp add: x(3) link_resps_def link_in_iff del: fun_upd_apply)
    then have "hm_pend s = mset us + hm_pend s1" by (simp add: hm_pend_def x quad_resps_def)
    moreover have "hm_inv cfg {#} s1"
      using Cons.prems(1) unfolding hm_inv_def queues_ok_def
      by (auto simp: x(3) books_def link_reqs_def quad_reqs_def link_in_def resp_ok_def)
    ultimately show ?thesis by (simp add: x(3) hm_frame_def)
  qed
  moreover from this have "\<forall>i\<in>set is. link_in s1 i" using Cons.prems(2) by (auto simp: link_in_def hm_frame_def)
  ultimately show ?case using Cons.IH [of s1 vs] 2 r by simp
qed simp

lemma DrainResponses_ok:
  assumes inv: "hm_inv cfg {#} s"
  shows "\<exists>ts s'. DrainResponses s = ret (ts, s') \<and> hm_inv cfg {#} s' \<and> hm_pend s = mset ts + hm_pend s' \<and> hm_frame s' = hm_frame s"
proof -
  obtain ts s1 where d: "drain_links [0..links s - 1] s = (ts, s1)" by fastforce
  have s1: "hm_inv cfg {#} s1" "hm_pend s = mset ts + hm_pend s1" "hm_frame s1 = hm_frame s"
    using drain_links_ok [OF inv _ d] by (auto simp: link_in_def)
  let ?s2 = "s1\<lparr>link_busy := drain_busy (link_busy s1)\<rparr>"
  have s2: "hm_step cfg s1 ?s2"
    using s1(1) unfolding hm_step_def hm_inv_def queues_ok_def
    by (auto simp: hm_pend_def quad_resps_def link_resps_def hm_frame_def books_def link_reqs_def quad_reqs_def
        link_in_def resp_ok_def)
  then have Q: "queues_ok cfg ?s2" "hm_inv cfg {#} ?s2" by (simp_all add: hm_step_def hm_inv_def)
  obtain q where q: "BuildAgeQueue (logic_clk ?s2) 4 (quad_age_counter ?s2) = ret q" "distinct q"
      "set q = {p. 0 \<le> p \<and> p < 4 \<and> 0 < quad_age_counter ?s2 p}"
    using BuildAgeQueue_visits [of 4 "logic_clk ?s2" "quad_age_counter ?s2"] by auto
  have "\<forall>i\<in>set q. quad_in i \<and> quad_resp_queues ?s2 i \<noteq> []"
    using Q(1) unfolding q(3) queues_ok_def by (simp add: quad_in_def)
  then obtain s3 where s3: "for_run move_response q ?s2 = ret s3" "hm_step cfg ?s2 s3"
    using move_responses_ok [OF Q(2) q(2)] by blast
  have "DrainResponses s = ret (ts, s3)" by (simp add: DrainResponses_def Let_def d q(1) [simplified] s3(1))
  then show ?thesis using hm_step_trans [OF s2 s3(2)] s1 by (auto simp: hm_step_def)
qed

section \<open>The DRAM clock\<close>

lemma VaultCallback_ok:
  assumes inv: "hm_inv cfg (add_mset x rest) s"
  shows "\<exists>s'. VaultCallback x s = ret s' \<and> hm_inv cfg rest s' \<and> hm_pend s' = hm_pend s \<and> hm_frame s' = hm_frame s"
proof -
  have Q: "queues_ok cfg s" and B: "books cfg (add_mset x rest) s" using inv by (simp_all add: hm_inv_def)
  have "x \<in># mset (map fst (resp_lookup_table s))" unfolding B [unfolded books_def] by simp
  then obtain before k resp after where e: "List.extract (\<lambda>e. fst e = x) (resp_lookup_table s) = Some (before, (k, resp), after)"
    by (cases "List.extract (\<lambda>e. fst e = x) (resp_lookup_table s)") (auto simp: extract_None_iff)
  then have t: "resp_lookup_table s = before @ (k, resp) # after" "k = x" by (auto simp: extract_Some_iff)
  let ?q = "rs_quad resp"
  let ?s = "s\<lparr>resp_lookup_table := before @ after, quad_resp_queues := (quad_resp_queues s)(?q := quad_resp_queues s ?q @ [resp]),
    quad_age_counter := (quad_age_counter s)(?q := 1)\<rparr>"
  have r: "resp_ok s resp" using Q t(1) by (auto simp: queues_ok_def)
  then have quad: "quad_in ?q" by (simp add: resp_ok_def)
  have "quad_resps ?s = quad_resps s + {#resp_tag resp#}"
    using sum_upd [of "{0..<4}" ?q "\<lambda>q. mset (map resp_tag q)" "quad_resp_queues s" "quad_resp_queues s ?q @ [resp]"] quad
    by (simp add: quad_resps_def quad_in_iff del: fun_upd_apply)
  then have "hm_pend ?s = hm_pend s" by (simp add: hm_pend_def t(1) link_resps_def)
  moreover have "books cfg rest ?s" using B by (simp add: books_def link_reqs_def quad_reqs_def t)
  moreover have "queues_ok cfg ?s" using Q r unfolding queues_ok_def by (auto simp: t(1) link_in_def resp_ok_def)
  ultimately have "hm_inv cfg rest ?s \<and> hm_pend ?s = hm_pend s \<and> hm_frame ?s = hm_frame s"
    using inv by (simp add: hm_inv_def hm_frame_def)
  then show ?thesis using e quad by (simp add: VaultCallback_def)
qed

lemma VaultCallbacks_ok:
  assumes "hm_inv cfg (mset (map fst ts)) s"
  shows "\<exists>s'. for_run (\<lambda>t. VaultCallback (fst t)) ts s = ret s' \<and> hm_inv cfg {#} s' \<and> hm_pend s' = hm_pend s \<and> hm_frame s' = hm_frame s"
  using assms
proof (induction ts arbitrary: s)
  case (Cons t ts)
  obtain s1 where s1: "VaultCallback (fst t) s = ret s1" "hm_inv cfg (mset (map fst ts)) s1" "hm_pend s1 = hm_pend s" "hm_frame s1 = hm_frame s"
    using VaultCallback_ok [of cfg "fst t" "mset (map fst ts)" s] Cons.prems by auto
  then show ?case using Cons.IH [OF s1(2)] by auto
qed simp

lemma DRAMClockTick_ok:
  assumes inv: "hm_inv cfg {#} s"
  shows "\<exists>s'. DRAMClockTick cfg tm s = ret s' \<and> hm_step cfg s s'"
proof -
  have S: "system_config_ok cfg" and C: "ctrls_ok cfg (hm_base s)" using inv by (simp_all add: hm_inv_def)
  obtain ts b where d: "drain_all (js_clk (hm_base s)) [0..channels cfg - 1] (hm_base s) = (ts, b)" by fastforce
  have b: "ctrls_ok cfg b" "js_pend cfg (hm_base s) = mset ts + js_pend cfg b"
    using drain_all_ok [OF C _ d] by (auto simp: ch_in_def)
  have "hm_inv cfg (mset (map fst ts)) (s\<lparr>hm_base := b\<rparr>)"
    using inv b unfolding hm_inv_def queues_ok_def
    by (auto simp: books_def link_reqs_def quad_reqs_def link_in_def resp_ok_def ac_simps)
  then obtain s1 where s1: "for_run (\<lambda>t. VaultCallback (fst t)) ts (s\<lparr>hm_base := b\<rparr>) = ret s1" "hm_inv cfg {#} s1"
      "hm_pend s1 = hm_pend (s\<lparr>hm_base := b\<rparr>)" "hm_frame s1 = hm_frame (s\<lparr>hm_base := b\<rparr>)"
    using VaultCallbacks_ok by blast
  obtain b1 where b1: "js_advance cfg tm (hm_base s1) = ret b1" "ctrls_ok cfg b1" "js_pend cfg b1 = js_pend cfg (hm_base s1)"
    using js_advance_ok [OF S, of "hm_base s1" tm] s1(2) by (auto simp: hm_inv_def)
  have "hm_inv cfg {#} (s1\<lparr>hm_base := b1\<rparr>)"
    using s1(2) b1 unfolding hm_inv_def queues_ok_def
    by (auto simp: books_def link_reqs_def quad_reqs_def link_in_def resp_ok_def)
  moreover have "hm_pend (s1\<lparr>hm_base := b1\<rparr>) = hm_pend s" "hm_frame (s1\<lparr>hm_base := b1\<rparr>) = hm_frame s"
    using s1(3,4) by (simp_all add: hm_pend_def quad_resps_def link_resps_def hm_frame_def)
  ultimately show ?thesis using d s1(1) b1(1) by (simp add: DRAMClockTick_def hm_step_def)
qed

section \<open>The logic clock\<close>

text \<open>
  The two clocks, with room for \<open>k\<close> more DRAM cycles before the picosecond counters wrap
  around. A logic cycle is at least one picosecond and at most a DRAM cycle long.
\<close>

definition hm_time :: "nat \<Rightarrow> HMCMemorySystem \<Rightarrow> bool" where
  "hm_time k s \<longleftrightarrow>
     ps_per_dram s = 800 \<and> 1 \<le> unat (ps_per_logic s) \<and> unat (ps_per_logic s) \<le> 800 \<and>
     unat (dram_ps s) \<le> unat (logic_ps s) \<and> unat (logic_ps s) < unat (dram_ps s) + 800 \<and>
     unat (dram_ps s) + 800 * k + 1600 < 2 ^ 64"

lemma logic_advance_inv:
  "hm_inv cfg {#} s \<Longrightarrow> hm_inv cfg {#} (logic_advance s) \<and> hm_pend (logic_advance s) = hm_pend s"
  unfolding hm_inv_def queues_ok_def
  by (auto simp: logic_advance_def hm_pend_def quad_resps_def link_resps_def books_def link_reqs_def quad_reqs_def
      link_in_def resp_ok_def)

lemma unat_sum_small: "unat (a :: 64 word) + unat b < 2 ^ 64 \<Longrightarrow> unat (a + b) = unat a + unat b"
  by (simp add: unat_word_ariths)

lemma logic_cycles_ok:
  assumes "hm_inv cfg {#} s" "ps_per_dram s = 800" "1 \<le> unat (ps_per_logic s)" "unat (ps_per_logic s) \<le> 800"
    "unat (logic_ps s) < unat (dram_ps s) + 1600" "unat (dram_ps s) + 1600 < 2 ^ 64"
  shows "\<exists>us s'. logic_cycles cfg ts s = ret (ts @ us, s') \<and> hm_inv cfg {#} s' \<and> hm_pend s = mset us + hm_pend s' \<and>
    links s' = links s \<and> queue_depth s' = queue_depth s \<and>
    ps_per_dram s' = 800 \<and> ps_per_logic s' = ps_per_logic s \<and> dram_ps s' = dram_ps s \<and>
    unat (dram_ps s) + 800 \<le> unat (logic_ps s') \<and> unat (logic_ps s') < unat (dram_ps s) + 1600"
  using assms
proof (induction "unat (dram_ps s) + 800 - unat (logic_ps s)" arbitrary: s ts rule: less_induct)
  case less
  have d: "unat (dram_ps s + ps_per_dram s) = unat (dram_ps s) + 800"
    using less.prems(2,6) by (subst unat_sum_small) simp_all
  show ?case
  proof (cases "logic_ps s < dram_ps s + ps_per_dram s")
    case False
    then have "unat (dram_ps s) + 800 \<le> unat (logic_ps s)" using d by (simp add: word_less_nat_alt)
    then show ?thesis
      using less.prems False by (intro exI [of _ "[]"] exI [of _ s]) (simp add: logic_cycles.simps [of cfg ts s])
  next
    case True
    then have lt: "unat (logic_ps s) < unat (dram_ps s) + 800" using d by (simp add: word_less_nat_alt)
    obtain us s1 where s1: "DrainResponses s = ret (us, s1)" "hm_inv cfg {#} s1" "hm_pend s = mset us + hm_pend s1" "hm_frame s1 = hm_frame s"
      using DrainResponses_ok [OF less.prems(1)] by blast
    obtain s2 where s2: "DrainRequests cfg s1 = ret s2" "hm_step cfg s1 s2" using DrainRequests_ok [OF s1(2)] by blast
    let ?s = "logic_advance s2"
    have f: "ps_per_dram ?s = 800" "ps_per_logic ?s = ps_per_logic s" "dram_ps ?s = dram_ps s"
        "logic_ps ?s = logic_ps s + ps_per_logic s" "links ?s = links s" "queue_depth ?s = queue_depth s"
      using s1(4) s2(2) less.prems(2) by (simp_all add: logic_advance_def hm_step_def hm_frame_def)
    have i: "hm_inv cfg {#} ?s" "hm_pend ?s = hm_pend s1" using logic_advance_inv s2(2) by (auto simp: hm_step_def)
    have l: "unat (logic_ps ?s) = unat (logic_ps s) + unat (ps_per_logic s)"
      unfolding f(4) using lt less.prems(4,6) by (intro unat_sum_small) simp
    have "\<exists>vs s'. logic_cycles cfg (ts @ us) ?s = ret ((ts @ us) @ vs, s') \<and> hm_inv cfg {#} s' \<and> hm_pend ?s = mset vs + hm_pend s' \<and>
        links s' = links ?s \<and> queue_depth s' = queue_depth ?s \<and>
        ps_per_dram s' = 800 \<and> ps_per_logic s' = ps_per_logic ?s \<and> dram_ps s' = dram_ps ?s \<and>
        unat (dram_ps ?s) + 800 \<le> unat (logic_ps s') \<and> unat (logic_ps s') < unat (dram_ps ?s) + 1600"
      using less.prems lt l by (intro less.hyps [OF _ i(1)]) (simp_all add: f)
    then obtain vs s' where v: "logic_cycles cfg (ts @ us) ?s = ret ((ts @ us) @ vs, s')" "hm_inv cfg {#} s'" "hm_pend ?s = mset vs + hm_pend s'"
        "links s' = links s" "queue_depth s' = queue_depth s" "ps_per_dram s' = 800" "ps_per_logic s' = ps_per_logic s" "dram_ps s' = dram_ps s"
        "unat (dram_ps s) + 800 \<le> unat (logic_ps s')" "unat (logic_ps s') < unat (dram_ps s) + 1600"
      unfolding f by blast
    have "logic_cycles cfg ts s = ret (ts @ (us @ vs), s')"
      using True s1(1) s2(1) v(1) by (simp add: logic_cycles.simps [of cfg ts s])
    moreover have "hm_pend s = mset (us @ vs) + hm_pend s'" using s1(3) i(2) v(3) by simp
    ultimately show ?thesis using v by blast
  qed
qed

lemma hm_tick:
  assumes inv: "hm_inv cfg {#} s" and time: "hm_time (Suc k) s"
  shows "\<exists>ts s'. hm_ClockTick cfg tm s = ret (ts, s') \<and> hm_inv cfg {#} s' \<and> hm_time k s' \<and> hm_pend s = mset ts + hm_pend s' \<and>
    links s' = links s \<and> queue_depth s' = queue_depth s"
proof -
  have "\<exists>ts s1. (if dram_ps s = logic_ps s
        then run_bind (DrainResponses s) (\<lambda>(ts, s1). run_bind (DRAMClockTick cfg tm s1) (\<lambda>s2.
             run_bind (DrainRequests cfg s2) (\<lambda>s3. ret (ts, logic_advance s3))))
        else run_bind (DRAMClockTick cfg tm s) (\<lambda>s1. ret ([], s1))) = ret (ts, s1) \<and>
      hm_inv cfg {#} s1 \<and> hm_pend s = mset ts + hm_pend s1 \<and> links s1 = links s \<and> queue_depth s1 = queue_depth s \<and>
      ps_per_dram s1 = 800 \<and> ps_per_logic s1 = ps_per_logic s \<and> dram_ps s1 = dram_ps s \<and>
      unat (logic_ps s1) < unat (dram_ps s) + 1600"
  proof (cases "dram_ps s = logic_ps s")
    case True
    obtain ts s1 where s1: "DrainResponses s = ret (ts, s1)" "hm_inv cfg {#} s1" "hm_pend s = mset ts + hm_pend s1" "hm_frame s1 = hm_frame s"
      using DrainResponses_ok [OF inv] by blast
    obtain s2 where s2: "DRAMClockTick cfg tm s1 = ret s2" "hm_step cfg s1 s2" using DRAMClockTick_ok [OF s1(2)] by blast
    obtain s3 where s3: "DrainRequests cfg s2 = ret s3" "hm_step cfg s2 s3" using DrainRequests_ok [of cfg s2] s2(2) by (auto simp: hm_step_def)
    have st: "hm_step cfg s1 s3" by (rule hm_step_trans [OF s2(2) s3(2)])
    have "unat (logic_ps s + ps_per_logic s) = unat (logic_ps s) + unat (ps_per_logic s)"
      using time by (intro unat_sum_small) (simp add: hm_time_def)
    then show ?thesis
      using True s1 s2(1) s3(1) st logic_advance_inv [of cfg s3] time
      by (simp add: hm_step_def hm_frame_def hm_time_def) (simp add: logic_advance_def)
  next
    case False
    obtain s1 where "DRAMClockTick cfg tm s = ret s1" "hm_step cfg s s1" using DRAMClockTick_ok [OF inv] by blast
    then show ?thesis using False time by (simp add: hm_step_def hm_frame_def hm_time_def)
  qed
  then obtain ts s1 where s1: "(if dram_ps s = logic_ps s
        then run_bind (DrainResponses s) (\<lambda>(ts, s1). run_bind (DRAMClockTick cfg tm s1) (\<lambda>s2.
             run_bind (DrainRequests cfg s2) (\<lambda>s3. ret (ts, logic_advance s3))))
        else run_bind (DRAMClockTick cfg tm s) (\<lambda>s1. ret ([], s1))) = ret (ts, s1)"
      "hm_inv cfg {#} s1" "hm_pend s = mset ts + hm_pend s1" "links s1 = links s" "queue_depth s1 = queue_depth s"
      "ps_per_dram s1 = 800" "ps_per_logic s1 = ps_per_logic s" "dram_ps s1 = dram_ps s"
      "unat (logic_ps s1) < unat (dram_ps s) + 1600" by blast
  have t: "1 \<le> unat (ps_per_logic s1)" "unat (ps_per_logic s1) \<le> 800" "unat (dram_ps s1) + 1600 < 2 ^ 64"
      "unat (logic_ps s1) < unat (dram_ps s1) + 1600"
    using time s1(7-9) by (simp_all add: hm_time_def)
  obtain us s2 where s2: "logic_cycles cfg ts s1 = ret (ts @ us, s2)" "hm_inv cfg {#} s2" "hm_pend s1 = mset us + hm_pend s2"
      "links s2 = links s1" "queue_depth s2 = queue_depth s1" "ps_per_dram s2 = 800" "ps_per_logic s2 = ps_per_logic s1"
      "dram_ps s2 = dram_ps s1" "unat (dram_ps s1) + 800 \<le> unat (logic_ps s2)" "unat (logic_ps s2) < unat (dram_ps s1) + 1600"
    using logic_cycles_ok [OF s1(2,6) t(1,2,4,3), of ts] by blast
  let ?s = "s2\<lparr>dram_ps := dram_ps s2 + ps_per_dram s2\<rparr>"
  have "hm_ClockTick cfg tm s = ret (ts @ us, ?s)"
    unfolding hm_ClockTick_def s1(1) using s2(1) by simp
  moreover have "hm_inv cfg {#} ?s" "hm_pend ?s = hm_pend s2"
    using s2(2) unfolding hm_inv_def queues_ok_def
    by (auto simp: hm_pend_def quad_resps_def link_resps_def books_def link_reqs_def quad_reqs_def link_in_def resp_ok_def)
  moreover have "unat (dram_ps s2 + 800) = unat (dram_ps s) + 800"
    unfolding s2(8) s1(8) using time by (subst unat_sum_small) (simp_all add: hm_time_def)
  then have "hm_time k ?s" using time s2(6-10) s1(7,8) by (simp add: hm_time_def)
  ultimately show ?thesis using s1(3-5) s2(3-5) by simp
qed

section \<open>Taking a transaction\<close>

definition req_inserted :: "HMCRequest \<Rightarrow> HMCResponse \<Rightarrow> int \<Rightarrow> HMCMemorySystem \<Rightarrow> HMCMemorySystem" where
  "req_inserted req resp l s = s\<lparr>
     link_req_queues := (link_req_queues s)(l := link_req_queues s l @ [req\<lparr>rq_link := l\<rparr>]),
     resp_lookup_table := resp_lookup_table s @ [(resp_id resp, resp)],
     link_age_counter := (link_age_counter s)(l := 1),
     hm_base := (hm_base s)\<lparr>last_req_clk := js_clk (hm_base s)\<rparr>\<rparr>"

lemma req_inserted_ok:
  assumes inv: "hm_inv cfg {#} s" and l: "link_in s l" and req: "req_ok cfg req"
    and resp: "resp_ok s resp" "resp_id resp = mem_operand req"
  shows "hm_inv cfg {#} (req_inserted req resp l s)"
    "hm_pend (req_inserted req resp l s) = add_mset (resp_tag resp) (hm_pend s)"
    "hm_frame (req_inserted req resp l s) = hm_frame s" "next_link (req_inserted req resp l s) = next_link s"
proof -
  let ?s = "req_inserted req resp l s"
  have Q: "queues_ok cfg s" and B: "books cfg {#} s" using inv by (simp_all add: hm_inv_def)
  have "link_reqs ?s = link_reqs s + {#mem_operand req#}"
    using sum_upd [of "{0..<links s}" l "\<lambda>q. mset (map mem_operand q)" "link_req_queues s" "link_req_queues s l @ [req\<lparr>rq_link := l\<rparr>]"] l
    by (simp add: link_reqs_def req_inserted_def link_in_iff del: fun_upd_apply)
  moreover have "js_pend cfg (hm_base ?s) = js_pend cfg (hm_base s)" "ctrls_ok cfg (hm_base ?s) = ctrls_ok cfg (hm_base s)"
    by (simp_all add: req_inserted_def js_pend_def ctrls_ok_def)
  moreover have "queues_ok cfg ?s"
    using Q req resp unfolding queues_ok_def by (auto simp: req_inserted_def link_in_def resp_ok_def req_ok_def)
  ultimately show "hm_inv cfg {#} ?s"
    using inv B resp(2) by (simp add: hm_inv_def books_def) (simp add: req_inserted_def quad_reqs_def)
qed (simp_all add: req_inserted_def hm_pend_def quad_resps_def link_resps_def hm_frame_def)

lemma InsertReqToLink_cases:
  assumes "link_in s l" "response_kind (rq_type req) = ret (k, f)"
  shows "InsertReqToLink req l s =
    (if length (link_req_queues s l) < queue_depth s
     then ret (True, req_inserted req
       \<lparr>resp_id = mem_operand req, rs_type = k, rs_link = l, rs_quad = rq_quad req, rs_flits = f, rs_exit_time = 0\<rparr> l s)
     else ret (False, s))"
  using assms by (simp add: InsertReqToLink_def new_HMCResponse_def req_inserted_def)

text \<open>The request was inserted into some link and the turn went on.\<close>

definition request_taken :: "Config \<Rightarrow> HMCRequest \<Rightarrow> HMCRespType \<Rightarrow> HMCMemorySystem \<Rightarrow> (bool \<times> HMCMemorySystem) run \<Rightarrow> bool" where
  "request_taken cfg req k s r \<longleftrightarrow> (\<exists>s'. r = ret (True, s') \<and> hm_inv cfg {#} s' \<and>
     hm_pend s' = add_mset (mem_operand req, k \<noteq> RD_RS) (hm_pend s) \<and> hm_frame s' = hm_frame s)"

lemma next_link_ok:
  assumes "hm_inv cfg {#} s"
  shows "IterateNextLink s = ret (s\<lparr>next_link := (next_link s + 1) mod links s\<rparr>) \<and>
    hm_inv cfg {#} (s\<lparr>next_link := (next_link s + 1) mod links s\<rparr>) \<and>
    hm_pend (s\<lparr>next_link := (next_link s + 1) mod links s\<rparr>) = hm_pend s"
proof -
  have "0 < links s" using assms by (auto simp: hm_inv_def queues_ok_def link_in_def)
  then show ?thesis
    using assms unfolding hm_inv_def queues_ok_def
    by (auto simp: IterateNextLink_def books_def link_reqs_def quad_reqs_def link_in_def resp_ok_def hm_pend_def
        quad_resps_def link_resps_def)
qed

lemma insert_taken:
  assumes inv: "hm_inv cfg {#} s" and req: "req_ok cfg req" and k: "response_kind (rq_type req) = ret (k, f)"
    and room: "length (link_req_queues s (next_link s)) < queue_depth s"
  shows "\<exists>s1. InsertReqToLink req (next_link s) s = ret (True, s1) \<and>
    request_taken cfg req k s (run_bind (IterateNextLink s1) (\<lambda>s2. ret (True, s2)))"
proof -
  let ?resp = "\<lparr>resp_id = mem_operand req, rs_type = k, rs_link = next_link s, rs_quad = rq_quad req, rs_flits = f, rs_exit_time = 0\<rparr>"
  let ?s = "req_inserted req ?resp (next_link s) s"
  have l: "link_in s (next_link s)" using inv by (simp add: hm_inv_def queues_ok_def)
  have "resp_ok s ?resp" using l req by (simp add: resp_ok_def req_ok_def)
  note i = req_inserted_ok [OF inv l req this, simplified]
  have "request_taken cfg req k s (run_bind (IterateNextLink ?s) (\<lambda>s2. ret (True, s2)))"
    using next_link_ok [OF i(1)] i by (simp add: request_taken_def resp_tag_def hm_frame_def)
  then show ?thesis using InsertReqToLink_cases [OF l k] room by simp
qed

lemma mod_turn:
  assumes "0 < n" "(d :: int) = (start - nxt) mod n" "0 < d"
  shows "(start - (nxt + 1) mod n) mod n = d - 1"
proof -
  have "(start - (nxt + 1) mod n) mod n = (start - nxt - 1) mod n" by (simp add: mod_diff_right_eq algebra_simps)
  also have "\<dots> = (d - 1) mod n" using assms(2) by (simp add: mod_diff_left_eq)
  also have "\<dots> = d - 1" using assms pos_mod_bound [OF assms(1), of "start - nxt"] by (intro mod_pos_pos_trivial) simp_all
  finally show ?thesis .
qed

lemma mod_diff_zero:
  assumes "0 < n" "(0 :: int) \<le> i" "i < n" "0 \<le> j" "j < n" "(start - i) mod n = (start - j) mod n"
  shows "i = j"
proof -
  have "n dvd (start - i) - (start - j)" using assms(6) by (simp add: mod_eq_dvd_iff)
  then have "n dvd j - i" by simp
  then show ?thesis using assms zdvd_imp_le [of n "\<bar>j - i\<bar>"] by (cases "i = j") auto
qed

text \<open>The loop finds a link with room if any that it visits has some.\<close>

lemma try_links_taken:
  assumes "hm_inv cfg {#} s" "req_ok cfg req" "response_kind (rq_type req) = ret (k, f)" "link_in s start"
    "link_in s i" "length (link_req_queues s i) < queue_depth s" "0 < (start - i) mod links s"
    "(start - i) mod links s \<le> (start - next_link s) mod links s"
  shows "request_taken cfg req k s (try_links req start s)"
  using assms
proof (induction "nat ((start - next_link s) mod links s)" arbitrary: s rule: less_induct)
  case less
  let ?n = "next_link s"
  have n: "0 < links s" using less.prems(5) by (auto simp: link_in_def)
  have l: "link_in s ?n" using less.prems(1) by (simp add: hm_inv_def queues_ok_def)
  have ne: "start \<noteq> ?n" using less.prems(7,8) by auto
  show ?case
  proof (cases "length (link_req_queues s ?n) < queue_depth s")
    case True
    obtain s1 where s1: "InsertReqToLink req ?n s = ret (True, s1)"
        "request_taken cfg req k s (run_bind (IterateNextLink s1) (\<lambda>s2. ret (True, s2)))"
      using insert_taken [OF less.prems(1-3) True] by blast
    then show ?thesis using ne by (auto simp: try_links.simps [of req start s] request_taken_def run_bind_ret)
  next
    case False
    let ?s = "s\<lparr>next_link := (?n + 1) mod links s\<rparr>"
    note t = next_link_ok [OF less.prems(1)]
    have d: "(start - next_link ?s) mod links s = (start - ?n) mod links s - 1"
      using mod_turn [OF n refl, of start ?n] less.prems(7,8) by simp
    have "(start - i) mod links s \<noteq> (start - ?n) mod links s"
      using mod_diff_zero [OF n, of i ?n start] less.prems(5,6) l False by (auto simp: link_in_def)
    then have le: "(start - i) mod links ?s \<le> (start - next_link ?s) mod links ?s" using less.prems(8) d by simp
    have "request_taken cfg req k ?s (try_links req start ?s)"
    proof (rule less.hyps)
      show "nat ((start - next_link ?s) mod links ?s) < nat ((start - ?n) mod links s)"
        using d less.prems(7,8) by simp
      show "(start - i) mod links ?s \<le> (start - next_link ?s) mod links ?s" by (rule le)
    qed (use less.prems t in \<open>simp_all add: link_in_def\<close>)
    moreover have "try_links req start s = try_links req start ?s"
      using ne InsertReqToLink_cases [OF l less.prems(3)] False t by (simp add: try_links.simps [of req start s])
    ultimately show ?thesis using t by (simp add: request_taken_def hm_frame_def)
  qed
qed

lemma InsertHMCReq_taken:
  assumes inv: "hm_inv cfg {#} s" and req: "req_ok cfg req" and k: "response_kind (rq_type req) = ret (k, f)"
    and acc: "hm_WillAcceptTransaction s"
  shows "request_taken cfg req k s (InsertHMCReq req s)"
proof (cases "length (link_req_queues s (next_link s)) < queue_depth s")
  case True
  then obtain s1 where "InsertReqToLink req (next_link s) s = ret (True, s1)"
      "request_taken cfg req k s (run_bind (IterateNextLink s1) (\<lambda>s2. ret (True, s2)))"
    using insert_taken [OF inv req k] by blast
  then show ?thesis by (simp add: InsertHMCReq_def)
next
  case False
  let ?n = "next_link s" and ?s = "s\<lparr>next_link := (next_link s + 1) mod links s\<rparr>"
  obtain i where i: "link_in s i" "length (link_req_queues s i) < queue_depth s"
    using acc by (auto simp: hm_WillAcceptTransaction_def link_in_def)
  have n: "0 < links s" using i(1) by (auto simp: link_in_def)
  have l: "link_in s ?n" using inv by (simp add: hm_inv_def queues_ok_def)
  note t = next_link_ok [OF inv]
  have r: "0 \<le> (?n - i) mod links s" "(?n - i) mod links s \<le> links s - 1"
    using n pos_mod_bound [OF n, of "?n - i"] by simp_all
  have "(?n - i) mod links s \<noteq> (?n - ?n) mod links s"
    using mod_diff_zero [OF n, of i ?n ?n] i l False by (auto simp: link_in_def)
  then have "0 < (?n - i) mod links s" using r(1) by simp
  moreover have "(?n - (?n + 1) mod links s) mod links s = links s - 1"
    using n by (simp add: mod_diff_right_eq zmod_minus1)
  ultimately have "request_taken cfg req k ?s (try_links req ?n ?s)"
    using t l i r(2) by (intro try_links_taken [OF _ req k, of ?s ?n i]) (simp_all add: link_in_def)
  then show ?thesis
    using InsertReqToLink_cases [OF l k] False t by (simp add: InsertHMCReq_def request_taken_def hm_frame_def)
qed

lemma block_request_kind:
  assumes "block_size cfg \<in> {0, 32, 64, 128, 256}"
  shows "\<exists>t n f. block_request cfg w = ret t \<and> request_flits t = ret n \<and>
    response_kind t = ret (if w then WR_RS else RD_RS, f) \<and> hmc_is_write t = w"
  using assms by (cases w) (auto simp: block_request_def hmc_is_write_def)

lemma hm_add:
  assumes inv: "hm_inv cfg {#} s" and blk: "block_size cfg \<in> {0, 32, 64, 128, 256}" and acc: "hm_WillAcceptTransaction s"
  shows "\<exists>s'. hm_AddTransaction cfg a w s = ret (True, s') \<and> hm_inv cfg {#} s' \<and>
    hm_pend s' = add_mset (a, w) (hm_pend s) \<and> hm_frame s' = hm_frame s"
proof -
  obtain t n f where t: "block_request cfg w = ret t" "request_flits t = ret n"
      "response_kind t = ret (if w then WR_RS else RD_RS, f)" "hmc_is_write t = w"
    using block_request_kind [OF blk] by blast
  let ?v = "ds_GetChannel cfg a"
  obtain req where r: "new_HMCRequest t a ?v = ret req" "rq_type req = t" "mem_operand req = a" "rq_vault req = ?v"
      "rq_quad req = sgn ?v * (\<bar>?v\<bar> mod 4)"
    using t(2) by (simp add: new_HMCRequest_def)
  have "0 \<le> ?v" using inv by (simp add: hm_inv_def system_config_ok_def ch_in_def)
  then have "quad_in (rq_quad req)" using r(5) by (cases "?v = 0") (simp_all add: quad_in_def)
  then have "req_ok cfg req" using r(3,4) by (simp add: req_ok_def)
  from InsertHMCReq_taken [OF inv this _ acc, of "if w then WR_RS else RD_RS" f] show ?thesis
    using t r by (auto simp: request_taken_def hm_AddTransaction_def)
qed

lemma hm_time_frame: "hm_frame s' = hm_frame s \<Longrightarrow> hm_time k s' = hm_time k s"
  by (simp add: hm_frame_def hm_time_def)

lemma hm_ticks:
  "hm_inv cfg {#} s \<Longrightarrow> hm_time n s \<Longrightarrow>
     \<exists>ts s'. run_ticks (hmc_ops cfg tm) n s = ret (ts, s') \<and> hm_inv cfg {#} s' \<and> hm_pend s = mset ts + hm_pend s'"
proof (induction n arbitrary: s)
  case (Suc n)
  obtain ts s1 where 1: "hm_ClockTick cfg tm s = ret (ts, s1)" "hm_inv cfg {#} s1" "hm_time n s1" "hm_pend s = mset ts + hm_pend s1"
    using hm_tick [OF Suc.prems] by blast
  obtain us s2 where "run_ticks (hmc_ops cfg tm) n s1 = ret (us, s2)" "hm_inv cfg {#} s2" "hm_pend s1 = mset us + hm_pend s2"
    using Suc.IH [OF 1(2,3)] by blast
  with 1 show ?case by (simp add: hmc_ops_def)
qed simp

section \<open>Construction\<close>

lemma hm_start:
  assumes sys: "system_config_ok cfg" "refresh_config_ok cfg" and hmc: "IsHMC cfg" and n: "0 < num_links cfg"
    and p: "logic_period cfg = ret p" "p \<noteq> 0"
  shows "\<exists>s. new_HMCMemorySystem cfg junk = ret s \<and> hm_inv cfg {#} s \<and> hm_pend s = {#} \<and>
    links s = num_links cfg \<and> queue_depth s = to_size_t (xbar_queue_depth cfg) \<and> (\<forall>i. link_req_queues s i = []) \<and>
    (\<forall>k. 800 * k + 1600 < 2 ^ 64 \<longrightarrow> hm_time k s)"
proof -
  obtain b where b: "js_controllers cfg junk = ret b" "ctrls_ok cfg b" "js_pend cfg b = {#}"
    using js_controllers_ok [OF sys] by blast
  have "p \<le> 800" using p(1) by (auto simp: logic_period_def run_elims Let_def split: if_splits)
  then have "unat p \<le> 800" by (simp add: word_le_nat_alt)
  moreover have "1 \<le> unat p" using p(2) by (simp add: Suc_leI unat_gt_0)
  ultimately show ?thesis
    using b hmc n p(1) sys
    by (simp add: new_HMCMemorySystem_def hm_inv_def queues_ok_def books_def link_reqs_def quad_reqs_def hm_pend_def
        quad_resps_def link_resps_def link_in_def hm_time_def)
qed

end
