(* ===== verification/DS_Mapping.thy ===== *)
theory DS_Mapping
  imports DS_System_Inv
begin

unbundle bit_operations_syntax

text \<open>
  The address mapping that a configuration sets up: the coordinates of an address lie in
  the memory, the channel is the one that the system routes by, and two requests with the
  same coordinates have the same block number. Configurations that are read from a file
  and describe a memory are accepted by the controllers.
\<close>

section \<open>Fields\<close>

lemma width_mask_mask: "width_mask w = mask (nat w)"
  by (simp add: width_mask_def mask_eq_exp_minus_1)

lemma to_int32_id: "0 \<le> i \<Longrightarrow> i < 2 ^ 31 \<Longrightarrow> to_int32 i = i"
  by (simp add: to_int32_def signed_of_int signed_take_bit_int_eq_self)

lemma field_value_range:
  fixes h :: "64 word"
  shows "0 \<le> uint (drop_bit p h AND width_mask w)" "uint (drop_bit p h AND width_mask w) < 2 ^ nat w"
proof -
  have "drop_bit p h AND width_mask w = take_bit (nat w) (drop_bit p h)"
    by (simp add: width_mask_mask take_bit_eq_mask)
  then show "uint (drop_bit p h AND width_mask w) < 2 ^ nat w" 
    using take_bit_int_less_exp [of "nat w" "uint (drop_bit p h)"] by (simp only: unsigned_take_bit_eq)
qed simp

lemma addr_field_eq:
  assumes "w \<le> 31"
  shows "addr_field h p (width_mask w) = uint (drop_bit (nat p) h AND width_mask w)"
proof -
  have "(2 :: int) ^ nat w \<le> 2 ^ 31" using assms by (intro power_increasing) auto
  then show ?thesis
    unfolding addr_field_def
    using field_value_range [of "nat p" h w] by (intro to_int32_id) (blast intro: less_le_trans)+
qed

lemma addr_field_range:
  assumes "1 \<le> n" "n < 2 ^ 31"
  shows "0 \<le> addr_field h p (width_mask (LogBase2 n)) \<and> addr_field h p (width_mask (LogBase2 n)) < n"
proof -
  note b = LogBase2_bounds [OF assms(1)]
  have "(2 :: int) ^ nat (LogBase2 n) < 2 ^ 31" using b assms(2) by linarith
  then have "nat (LogBase2 n) < 31" by (rule power_less_imp_less_exp [rotated]) simp
  then have "LogBase2 n \<le> 31" by linarith
  from addr_field_eq [OF this] show ?thesis using field_value_range [of "nat p" h "LogBase2 n"] b by simp
qed

text \<open>The column field counts bursts: what it addresses is inside the row.\<close>

lemma column_field_range:
  fixes h :: "64 word" and p :: int
  assumes "1 \<le> b" "b \<le> n" "n < 2 ^ 31"
  defines "x \<equiv> addr_field h p (width_mask (LogBase2 n - LogBase2 b))"
  shows "0 \<le> x" "(x + 1) * 2 ^ nat (LogBase2 b) \<le> n" "x + b \<le> n"
proof -
  let ?N = "nat (LogBase2 n)" and ?B = "nat (LogBase2 b)"
  have n: "0 \<le> LogBase2 n" "2 ^ ?N \<le> n" "n < 2 ^ Suc ?N" using LogBase2_bounds [of n] assms(1,2) by auto
  have b: "0 \<le> LogBase2 b" "2 ^ ?B \<le> b" "b < 2 ^ Suc ?B" using LogBase2_bounds [OF assms(1)] by auto
  have "?B < Suc ?N"
    by (rule power_less_imp_less_exp [OF _ le_less_trans [OF order_trans [OF b(2) assms(2)] n(3)]]) simp
  moreover have "?N < 31" by (rule power_less_imp_less_exp [OF _ le_less_trans [OF n(2) assms(3)]]) simp
  ultimately have le: "?B \<le> ?N" "?N < 31" by simp_all
  then have w: "LogBase2 n - LogBase2 b \<le> 31" "nat (LogBase2 n - LogBase2 b) = ?N - ?B" using b(1) by linarith+
  let ?q = "2 ^ (?N - ?B) :: int" and ?y = "2 ^ ?B :: int"
  have x: "0 \<le> x" "x < ?q"
    unfolding x_def addr_field_eq [OF w(1)] using field_value_range [of "nat p" h "LogBase2 n - LogBase2 b"] w(2) by simp_all
  then show "0 \<le> x" by simp
  have q: "?q * ?y = 2 ^ ?N" using le(1) by (simp flip: power_add)
  have "(x + 1) * ?y \<le> ?q * ?y" using x(2) by (intro mult_right_mono) auto
  then show "(x + 1) * ?y \<le> n" using n(2) q by linarith
  show "x + b \<le> n"
  proof (cases "?N = ?B")
    case True
    then show ?thesis using x assms(2) by simp
  next
    case False
    then have "(2 :: int) ^ 1 \<le> ?q" using le(1) by (intro power_increasing) auto
    then have "0 \<le> (?q - 2) * (?y - 1)" by (intro mult_nonneg_nonneg) auto
    then have "?q + 2 * ?y - 2 \<le> ?q * ?y" by (simp add: algebra_simps)
    then show ?thesis using x(2) b(3) n(2) unfolding q by simp
  qed
qed

text \<open>Equal fields have equal bits.\<close>

lemma addr_field_bits:
  assumes "addr_field h p (width_mask w) = addr_field h' p (width_mask w)" "w \<le> 31" "k < nat w"
  shows "bit h (nat p + k) = bit h' (nat p + k)"
proof -
  have "uint (drop_bit (nat p) h AND width_mask w) = uint (drop_bit (nat p) h' AND width_mask w)"
    using assms(1) unfolding addr_field_eq [OF assms(2)] .
  then have "drop_bit (nat p) h AND width_mask w = drop_bit (nat p) h' AND width_mask w" by (simp only: word_uint_eq_iff)
  then have "bit (drop_bit (nat p) h AND width_mask w) k = bit (drop_bit (nat p) h' AND width_mask w) k" by simp
  moreover have "k < 64" using assms(2,3) by linarith
  ultimately show ?thesis using assms(3) by (simp add: width_mask_mask bit_and_iff bit_mask_iff bit_drop_bit_eq)
qed

section \<open>Positions\<close>

lemma field_positions_other: "field_positions ws pos ts m = ret m' \<Longrightarrow> t \<notin> set ts \<Longrightarrow> m' t = m t"
  by (induction ws pos ts m rule: field_positions.induct) (auto split: option.splits)

lemma field_positions_nonneg:
  "field_positions ws pos ts m = ret m' \<Longrightarrow> 0 \<le> pos \<Longrightarrow> \<forall>(t, w) \<in> set ws. 0 \<le> w \<Longrightarrow>
     (\<forall>t p. m t = Some p \<longrightarrow> 0 \<le> p) \<Longrightarrow> m' t = Some p \<Longrightarrow> 0 \<le> p"
proof (induction ws pos ts m arbitrary: t p rule: field_positions.induct)
  case (2 ws pos s ts m)
  obtain w where w: "map_of ws s = Some w" using "2.prems"(1) by (auto split: option.splits)
  then have "0 \<le> w" using "2.prems"(3) by (auto dest: map_of_SomeD)
  moreover have "field_positions ws (pos + w) ts (m(s := Some pos)) = ret m'" using "2.prems"(1) w by simp
  ultimately show ?case
    using "2.IH" [OF w] "2.prems"(2-5) by (smt (verit) fun_upd_apply option.inject)
qed auto

text \<open>Every position of the fields' range belongs to a field.\<close>

lemma field_positions_cover:
  assumes "field_positions ws pos ts m = ret m'" "distinct ts" "pos \<le> n"
    "n < pos + sum_list (map (\<lambda>t. the (map_of ws t)) ts)"
  shows "\<exists>t\<in>set ts. \<exists>p. m' t = Some p \<and> p \<le> n \<and> n < p + the (map_of ws t)"
  using assms
proof (induction ws pos ts m rule: field_positions.induct)
  case (2 ws pos t ts m)
  obtain w where w: "map_of ws t = Some w" using "2.prems"(1) by (auto split: option.splits)
  have rest: "field_positions ws (pos + w) ts (m(t := Some pos)) = ret m'" using "2.prems"(1) w by simp
  then have "m' t = Some pos" using field_positions_other [OF rest, of t] "2.prems"(2) by simp
  moreover have "\<exists>t\<in>set ts. \<exists>p. m' t = Some p \<and> p \<le> n \<and> n < p + the (map_of ws t)" if "pos + w \<le> n"
    using "2.IH" [OF w rest] that "2.prems" w by (simp add: add.assoc)
  ultimately show ?case using w "2.prems"(3) by (cases "pos + w \<le> n") auto
qed auto

section \<open>The mapping\<close>

definition field_names :: "string list" where
  "field_names = [''ch'', ''ra'', ''bg'', ''ba'', ''ro'', ''co'']"

definition field_width :: "Config \<Rightarrow> string \<Rightarrow> int" where
  "field_width c t = the (map_of (field_widths c) t)"

text \<open>The number of mapped bits above the offset within a request.\<close>

definition mapped_bits :: "Config \<Rightarrow> int" where
  "mapped_bits c = sum_list (map (field_width c) field_names)"

definition sizes_ok :: "Config \<Rightarrow> bool" where
  "sizes_ok c \<longleftrightarrow>
     (\<forall>n\<in>{channels c, ranks c, bankgroups c, banks_per_group c, rows c, columns c, cfg_BL c}. 1 \<le> n \<and> n < 2 ^ 31) \<and>
     cfg_BL c \<le> columns c"

lemma SetAddressMapping_geometry:
  assumes "SetAddressMapping c = ret c'"
  shows "channels c' = channels c" "ranks c' = ranks c" "bankgroups c' = bankgroups c" "banks c' = banks c"
    "banks_per_group c' = banks_per_group c" "rows c' = rows c" "columns c' = columns c" "cfg_BL c' = cfg_BL c"
    "ch_mask c' = width_mask (LogBase2 (channels c))" "ra_mask c' = width_mask (LogBase2 (ranks c))"
    "bg_mask c' = width_mask (LogBase2 (bankgroups c))" "ba_mask c' = width_mask (LogBase2 (banks_per_group c))"
    "ro_mask c' = width_mask (LogBase2 (rows c))"
    "co_mask c' = width_mask (LogBase2 (columns c) - LogBase2 (cfg_BL c))"
  using assms by (auto simp: SetAddressMapping_def run_elims Let_def field_widths_def split: if_splits)

lemma SetAddressMapping_string: "SetAddressMapping c = ret c' \<Longrightarrow> address_mapping c' = address_mapping c"
  by (auto simp: SetAddressMapping_def run_elims Let_def split: if_splits)

lemma SetAddressMapping_ranges:
  assumes "SetAddressMapping c = ret c'" "sizes_ok c"
  shows "0 \<le> ad_channel (AddressMapping c' a) \<and> ad_channel (AddressMapping c' a) < channels c'"
    "cs_in c' (ad_rank (AddressMapping c' a)) (ad_bankgroup (AddressMapping c' a)) (ad_bank (AddressMapping c' a))"
    "ds_GetChannel c' a = ad_channel (AddressMapping c' a)"
    "0 \<le> ad_row (AddressMapping c' a) \<and> ad_row (AddressMapping c' a) < rows c'"
    "0 \<le> ad_column (AddressMapping c' a) \<and> (ad_column (AddressMapping c' a) + 1) * 2 ^ nat (LogBase2 (cfg_BL c')) \<le> columns c' \<and>
     ad_column (AddressMapping c' a) + cfg_BL c' \<le> columns c'"
proof -
  note g = SetAddressMapping_geometry [OF assms(1)]
  have n: "1 \<le> channels c \<and> channels c < 2 ^ 31" "1 \<le> ranks c \<and> ranks c < 2 ^ 31"
      "1 \<le> bankgroups c \<and> bankgroups c < 2 ^ 31" "1 \<le> banks_per_group c \<and> banks_per_group c < 2 ^ 31"
      "1 \<le> rows c \<and> rows c < 2 ^ 31" "1 \<le> cfg_BL c" "cfg_BL c \<le> columns c" "columns c < 2 ^ 31"
    using assms(2) by (simp_all add: sizes_ok_def)
  let ?h = "drop_bit (nat (shift_bits c')) a"
  have m: "ad_channel (AddressMapping c' a) = addr_field ?h (ch_pos c') (width_mask (LogBase2 (channels c)))"
      "ad_rank (AddressMapping c' a) = addr_field ?h (ra_pos c') (width_mask (LogBase2 (ranks c)))"
      "ad_bankgroup (AddressMapping c' a) = addr_field ?h (bg_pos c') (width_mask (LogBase2 (bankgroups c)))"
      "ad_bank (AddressMapping c' a) = addr_field ?h (ba_pos c') (width_mask (LogBase2 (banks_per_group c)))"
      "ad_row (AddressMapping c' a) = addr_field ?h (ro_pos c') (width_mask (LogBase2 (rows c)))"
      "ad_column (AddressMapping c' a) = addr_field ?h (co_pos c') (width_mask (LogBase2 (columns c) - LogBase2 (cfg_BL c)))"
    by (simp_all add: AddressMapping_def Let_def mk_Address_def g(9-14))
  show "0 \<le> ad_channel (AddressMapping c' a) \<and> ad_channel (AddressMapping c' a) < channels c'"
    unfolding m g(1) using n(1) by (intro addr_field_range) auto
  show "cs_in c' (ad_rank (AddressMapping c' a)) (ad_bankgroup (AddressMapping c' a)) (ad_bank (AddressMapping c' a))"
    unfolding m g cs_in_def cs_rank_in_def using n(2-4) addr_field_range by blast
  show "ds_GetChannel c' a = ad_channel (AddressMapping c' a)"
    unfolding m by (simp add: ds_GetChannel_def addr_field_def g(9))
  show "0 \<le> ad_row (AddressMapping c' a) \<and> ad_row (AddressMapping c' a) < rows c'"
    unfolding m g(6) using n(5) by (intro addr_field_range) auto
  show "0 \<le> ad_column (AddressMapping c' a) \<and> (ad_column (AddressMapping c' a) + 1) * 2 ^ nat (LogBase2 (cfg_BL c')) \<le> columns c' \<and>
     ad_column (AddressMapping c' a) + cfg_BL c' \<le> columns c'"
    unfolding m g(7,8) using column_field_range [OF n(6-8)] by blast
qed

text \<open>A mapping that names every field gives every mapped bit to one of them.\<close>

lemma split_fields_length: "length (split_fields s) = length s div 2"
  by (induction s rule: split_fields.induct) auto

lemma six_fields:
  assumes "length ts = 6" "set field_names \<subseteq> set ts"
  shows "distinct ts" "set ts = set field_names" "mset ts = mset field_names"
proof -
  have d: "distinct field_names" and l: "length field_names = 6" by (simp_all add: field_names_def)
  have c: "card (set field_names) = 6" using distinct_card [OF d] l by simp
  have le: "card (set ts) \<le> 6" using card_length [of ts] assms(1) by simp
  show e: "set ts = set field_names" using card_seteq [OF finite_set assms(2)] le c by auto
  then show dt: "distinct ts" using c assms(1) card_distinct by metis
  show "mset ts = mset field_names" using set_eq_iff_mset_eq_distinct [OF dt d] e by blast
qed

lemma SetAddressMapping_positions:
  assumes "SetAddressMapping c = ret c'"
  obtains m ts where "field_positions (field_widths c) 0 ts (\<lambda>_. None) = ret m" "length ts = 6"
    "m ''ch'' = Some (ch_pos c')" "m ''ra'' = Some (ra_pos c')" "m ''bg'' = Some (bg_pos c')"
    "m ''ba'' = Some (ba_pos c')" "m ''ro'' = Some (ro_pos c')" "m ''co'' = Some (co_pos c')"
    "ts = rev (split_fields (address_mapping c))"
proof -
  obtain m where m: "field_positions (field_widths c) 0 (rev (split_fields (address_mapping c))) (\<lambda>_. None) = ret m"
      "length (address_mapping c) = 12" "field_at m ''ch'' = ret (ch_pos c')" "field_at m ''ra'' = ret (ra_pos c')"
      "field_at m ''bg'' = ret (bg_pos c')" "field_at m ''ba'' = ret (ba_pos c')"
      "field_at m ''ro'' = ret (ro_pos c')" "field_at m ''co'' = ret (co_pos c')"
    using assms by (auto simp: SetAddressMapping_def run_elims Let_def split: if_splits)
  have "m t = Some p" if "field_at m t = ret p" for t p using that by (simp add: field_at_def split: option.splits)
  with m show ?thesis by (intro that [OF m(1)]) (simp_all add: split_fields_length)
qed

lemma sizes_widths:
  assumes "sizes_ok c" "t \<in> set field_names"
  shows "0 \<le> field_width c t" "field_width c t \<le> 31"
proof -
  have w: "0 \<le> LogBase2 n \<and> LogBase2 n \<le> 31" if "1 \<le> n" "n < 2 ^ 31" for n
  proof -
    have "(2 :: int) ^ nat (LogBase2 n) < 2 ^ 31" using LogBase2_bounds [OF that(1)] that(2) by linarith
    then have "nat (LogBase2 n) < 31" by (rule power_less_imp_less_exp [rotated]) simp
    then show ?thesis using LogBase2_bounds [OF that(1)] by linarith
  qed
  have mono: "LogBase2 a \<le> LogBase2 b" if "1 \<le> a" "a \<le> b" for a b
  proof -
    have "(2 :: int) ^ nat (LogBase2 a) < 2 ^ Suc (nat (LogBase2 b))"
      using LogBase2_bounds [of a] LogBase2_bounds [of b] that by linarith
    then have "nat (LogBase2 a) < Suc (nat (LogBase2 b))" by (rule power_less_imp_less_exp [rotated]) simp
    then show ?thesis using LogBase2_bounds [of b] that by linarith
  qed
  have n: "1 \<le> n \<and> n < 2 ^ 31" if "n \<in> {channels c, ranks c, bankgroups c, banks_per_group c, rows c, columns c, cfg_BL c}" for n
    using assms(1) that unfolding sizes_ok_def by blast
  have "0 \<le> field_width c t \<and> field_width c t \<le> 31"
    using assms(2) w [of "channels c"] w [of "ranks c"] w [of "bankgroups c"] w [of "banks_per_group c"] w [of "rows c"]
      w [of "columns c"] w [of "cfg_BL c"] mono [of "cfg_BL c" "columns c"] n assms(1)
    by (auto simp: field_names_def field_width_def field_widths_def sizes_ok_def)
  then show "0 \<le> field_width c t" "field_width c t \<le> 31" by auto
qed

lemma field_width_simps:
  "field_width c ''ch'' = LogBase2 (channels c)" "field_width c ''ra'' = LogBase2 (ranks c)"
  "field_width c ''bg'' = LogBase2 (bankgroups c)" "field_width c ''ba'' = LogBase2 (banks_per_group c)"
  "field_width c ''ro'' = LogBase2 (rows c)" "field_width c ''co'' = LogBase2 (columns c) - LogBase2 (cfg_BL c)"
  by (simp_all add: field_width_def field_widths_def)

text \<open>The field that a position map gives to an address.\<close>

lemma mapping_fields:
  assumes "SetAddressMapping c = ret c'" "AddressMapping c' a = AddressMapping c' b" "t \<in> set field_names" "m t = Some p"
    "m ''ch'' = Some (ch_pos c')" "m ''ra'' = Some (ra_pos c')" "m ''bg'' = Some (bg_pos c')"
    "m ''ba'' = Some (ba_pos c')" "m ''ro'' = Some (ro_pos c')" "m ''co'' = Some (co_pos c')"
  shows "addr_field (drop_bit (nat (shift_bits c')) a) p (width_mask (field_width c t)) =
    addr_field (drop_bit (nat (shift_bits c')) b) p (width_mask (field_width c t))"
proof -
  note g = SetAddressMapping_geometry(9-14) [OF assms(1)]
  have e: "ad_channel (AddressMapping c' a) = ad_channel (AddressMapping c' b)"
    "ad_rank (AddressMapping c' a) = ad_rank (AddressMapping c' b)"
    "ad_bankgroup (AddressMapping c' a) = ad_bankgroup (AddressMapping c' b)"
    "ad_bank (AddressMapping c' a) = ad_bank (AddressMapping c' b)"
    "ad_row (AddressMapping c' a) = ad_row (AddressMapping c' b)"
    "ad_column (AddressMapping c' a) = ad_column (AddressMapping c' b)" using assms(2) by simp_all
  note e = e [unfolded AddressMapping_def Let_def mk_Address_def Address.simps g]
  consider "t = ''ch''" | "t = ''ra''" | "t = ''bg''" | "t = ''ba''" | "t = ''ro''" | "t = ''co''"
    using assms(3) unfolding field_names_def list.set insert_iff empty_iff by blast
  then show ?thesis
  proof cases
    case 1
    then have "p = ch_pos c'" using assms(4,5) by auto
    then show ?thesis unfolding 1 field_width_simps using e(1) by (simp only:)
  next
    case 2
    then have "p = ra_pos c'" using assms(4,6) by auto
    then show ?thesis unfolding 2 field_width_simps using e(2) by (simp only:)
  next
    case 3
    then have "p = bg_pos c'" using assms(4,7) by auto
    then show ?thesis unfolding 3 field_width_simps using e(3) by (simp only:)
  next
    case 4
    then have "p = ba_pos c'" using assms(4,8) by auto
    then show ?thesis unfolding 4 field_width_simps using e(4) by (simp only:)
  next
    case 5
    then have "p = ro_pos c'" using assms(4,9) by auto
    then show ?thesis unfolding 5 field_width_simps using e(5) by (simp only:)
  next
    case 6
    then have "p = co_pos c'" using assms(4,10) by auto
    then show ?thesis unfolding 6 field_width_simps using e(6) by (simp only:)
  qed
qed

lemma SetAddressMapping_inj:
  assumes map: "SetAddressMapping c = ret c'" and sz: "sizes_ok c"
    and eq: "AddressMapping c' a = AddressMapping c' b" and n: "int n < mapped_bits c"
  shows "bit a (nat (shift_bits c') + n) = bit b (nat (shift_bits c') + n)"
proof -
  obtain m ts where p: "field_positions (field_widths c) 0 ts (\<lambda>_. None) = ret m" "length ts = 6"
    and at: "m ''ch'' = Some (ch_pos c')" "m ''ra'' = Some (ra_pos c')" "m ''bg'' = Some (bg_pos c')"
      "m ''ba'' = Some (ba_pos c')" "m ''ro'' = Some (ro_pos c')" "m ''co'' = Some (co_pos c')"
      "ts = rev (split_fields (address_mapping c))"
    by (rule SetAddressMapping_positions [OF map])
  have "t \<in> set ts" if "m t \<noteq> None" for t using field_positions_other [OF p(1), of t] that by auto
  then have "set field_names \<subseteq> set ts" using at by (auto simp: field_names_def)
  note six = six_fields [OF p(2) this]
  have "sum_list (map (field_width c) ts) = mapped_bits c"
    unfolding mapped_bits_def sum_mset_sum_list [symmetric] mset_map six(3) ..
  then have sum: "sum_list (map (\<lambda>t. the (map_of (field_widths c) t)) ts) = mapped_bits c"
    unfolding field_width_def [abs_def] .
  have "0 \<le> int n" "int n < 0 + sum_list (map (\<lambda>t. the (map_of (field_widths c) t)) ts)"
    unfolding sum using n by simp_all
  from field_positions_cover [OF p(1) six(1) this, unfolded six(2), folded field_width_def]
  obtain t q where t: "t \<in> set field_names" "m t = Some q" "q \<le> int n" "int n < q + field_width c t"
    by blast
  have "field_widths c = map (\<lambda>t. (t, field_width c t)) field_names"
    by (simp add: field_names_def field_width_simps field_widths_def)
  then have "\<forall>(t, w) \<in> set (field_widths c). 0 \<le> w" using sizes_widths(1) [OF sz] by auto
  then have "0 \<le> q" using field_positions_nonneg [OF p(1) _ _ _ t(2)] by simp
  then have k: "nat q + (n - nat q) = n" "n - nat q < nat (field_width c t)" using t(3,4) by linarith+
  show ?thesis
    using addr_field_bits [OF mapping_fields [OF map eq t(1,2) at(1-6)] sizes_widths(2) [OF sz t(1)] k(2)]
    by (simp add: bit_drop_bit_eq k(1) add.commute)
qed

section \<open>The mapping as arithmetic\<close>

text \<open>
  The reference: the block number is written in a mixed radix, one digit per field, the
  least significant digit for the last field of the mapping string.
\<close>

fun radix_digits :: "(string \<Rightarrow> int) \<Rightarrow> string list \<Rightarrow> int \<Rightarrow> string \<Rightarrow> int" where
  "radix_digits w [] n = (\<lambda>_. 0)"
| "radix_digits w (t # ts) n = (radix_digits w ts (n div 2 ^ nat (w t)))(t := n mod 2 ^ nat (w t))"

lemma radix_digits_position:
  assumes "field_positions ws pos ts m = ret m'" "distinct ts" "t \<in> set ts" "m' t = Some p" "0 \<le> pos"
    "\<forall>(t, w) \<in> set ws. 0 \<le> w"
  shows "pos \<le> p \<and> radix_digits (\<lambda>t. the (map_of ws t)) ts n t = n div 2 ^ nat (p - pos) mod 2 ^ nat (the (map_of ws t))"
  using assms
proof (induction ws pos ts m arbitrary: n rule: field_positions.induct)
  case (2 ws pos s ts m)
  obtain w where w: "map_of ws s = Some w" using "2.prems"(1) by (auto split: option.splits)
  then have w0: "0 \<le> w" using "2.prems"(6) by (auto dest: map_of_SomeD)
  have rest: "field_positions ws (pos + w) ts (m(s := Some pos)) = ret m'" using "2.prems"(1) w by simp
  show ?case
  proof (cases "t = s")
    case True
    then have "p = pos" using field_positions_other [OF rest, of s] "2.prems"(2,4) by simp
    then show ?thesis using True by simp
  next
    case False
    then have t: "t \<in> set ts" using "2.prems"(3) by simp
    have "pos + w \<le> p \<and> radix_digits (\<lambda>t. the (map_of ws t)) ts (n div 2 ^ nat w) t =
        n div 2 ^ nat w div 2 ^ nat (p - (pos + w)) mod 2 ^ nat (the (map_of ws t))"
      using "2.IH" [OF w rest _ t "2.prems"(4) _ "2.prems"(6)] "2.prems"(2,5) w0 by simp
    moreover from this have "nat w + nat (p - (pos + w)) = nat (p - pos)" using w0 by linarith
    then have "n div 2 ^ nat w div 2 ^ nat (p - (pos + w)) = n div 2 ^ nat (p - pos)"
      by (simp add: div_mult2_eq [symmetric] zdiv_zmult2_eq [symmetric] power_add [symmetric])
    ultimately show ?thesis using False w w0 by simp
  qed
qed simp

lemma uint_drop_bit: "uint (drop_bit n (h :: 64 word)) = uint h div 2 ^ n"
  using take_bit_int_eq_self_iff [of 64 "uint h"] uint_bounded [of h]
  by (simp only: unsigned_drop_bit_eq drop_bit_eq_div [where 'a = int]) simp

lemma addr_field_div_mod:
  assumes "w \<le> 31"
  shows "addr_field h p (width_mask w) = uint h div 2 ^ nat p mod 2 ^ nat w"
proof -
  have "drop_bit (nat p) h AND width_mask w = take_bit (nat w) (drop_bit (nat p) h)"
    by (simp add: width_mask_mask take_bit_eq_mask)
  then show ?thesis
    unfolding addr_field_eq [OF assms]
    by (simp only: unsigned_take_bit_eq uint_drop_bit take_bit_eq_mod [where 'a = int])
qed

lemma SetAddressMapping_digits:
  assumes map: "SetAddressMapping c = ret c'" and sz: "sizes_ok c"
    and d: "d = radix_digits (field_width c) (rev (split_fields (address_mapping c))) (uint a div 2 ^ nat (shift_bits c'))"
  shows "AddressMapping c' a = mk_Address (d ''ch'') (d ''ra'') (d ''bg'') (d ''ba'') (d ''ro'') (d ''co'')"
proof -
  obtain m ts where p: "field_positions (field_widths c) 0 ts (\<lambda>_. None) = ret m" "length ts = 6"
    and at: "m ''ch'' = Some (ch_pos c')" "m ''ra'' = Some (ra_pos c')" "m ''bg'' = Some (bg_pos c')"
      "m ''ba'' = Some (ba_pos c')" "m ''ro'' = Some (ro_pos c')" "m ''co'' = Some (co_pos c')"
      "ts = rev (split_fields (address_mapping c))"
    by (rule SetAddressMapping_positions [OF map])
  have mem: "t \<in> set ts" if "m t \<noteq> None" for t using field_positions_other [OF p(1), of t] that by auto
  then have "set field_names \<subseteq> set ts" using at by (auto simp: field_names_def)
  note six = six_fields [OF p(2) this]
  have "field_widths c = map (\<lambda>t. (t, field_width c t)) field_names"
    by (simp add: field_names_def field_width_simps field_widths_def)
  then have nn: "\<forall>(t, w) \<in> set (field_widths c). 0 \<le> w" using sizes_widths(1) [OF sz] by auto
  let ?h = "drop_bit (nat (shift_bits c')) a"
  have h: "uint ?h = uint a div 2 ^ nat (shift_bits c')" by (rule uint_drop_bit)
  have f: "addr_field ?h q (width_mask (field_width c t)) = d t" if "m t = Some q" "t \<in> set field_names" for t q
    using radix_digits_position [OF p(1) six(1) mem [of t] that(1) _ nn, of "uint ?h"] that
    unfolding d at(7) [symmetric] h [symmetric] addr_field_div_mod [OF sizes_widths(2) [OF sz that(2)]]
    by (simp add: field_width_def [abs_def])
  have n: "''ch'' \<in> set field_names" "''ra'' \<in> set field_names" "''bg'' \<in> set field_names" "''ba'' \<in> set field_names"
      "''ro'' \<in> set field_names" "''co'' \<in> set field_names" by (simp_all add: field_names_def)
  note g = SetAddressMapping_geometry(9-14) [OF map, folded field_width_simps]
  show ?thesis
    unfolding AddressMapping_def Let_def g f [OF at(1) n(1)] f [OF at(2) n(2)] f [OF at(3) n(3)] f [OF at(4) n(4)]
      f [OF at(5) n(5)] f [OF at(6) n(6)] ..
qed

end
