(* ===== verification/DS_Setup.thy ===== *)
theory DS_Setup
  imports DS_Mapping
begin

text \<open>
  From an ini file to a running memory: a configuration that the constructor accepts and
  whose sizes are positive describes a memory that the JEDEC system can run on. The file
  \<open>DRAMsim3-master/configs/HBM2_4Gb_x128.ini\<close>, which the program uses, is one.
\<close>

section \<open>Configurations\<close>

lemma later_mapping [simp]:
  "AddressMapping (InitOtherParams r (InitTimingParams r c)) = AddressMapping c"
  "ds_GetChannel (InitOtherParams r (InitTimingParams r c)) = ds_GetChannel c"
  by (simp_all add: InitOtherParams_def InitTimingParams_def Let_def AddressMapping_def [abs_def] ds_GetChannel_def [abs_def])

lemma later_geometry [simp]:
  "channels (InitOtherParams r (InitTimingParams r c)) = channels c"
  "ranks (InitOtherParams r (InitTimingParams r c)) = ranks c"
  "banks (InitOtherParams r (InitTimingParams r c)) = banks c"
  "bankgroups (InitOtherParams r (InitTimingParams r c)) = bankgroups c"
  "banks_per_group (InitOtherParams r (InitTimingParams r c)) = banks_per_group c"
  "rows (InitOtherParams r (InitTimingParams r c)) = rows c"
  "columns (InitOtherParams r (InitTimingParams r c)) = columns c"
  "cfg_BL (InitOtherParams r (InitTimingParams r c)) = cfg_BL c"
  by (simp_all add: InitOtherParams_def InitTimingParams_def Let_def)

lemma later_system [simp]:
  "refresh_policy (InitOtherParams r (InitTimingParams r c)) = refresh_policy c"
  "trans_queue_size (InitOtherParams r (InitTimingParams r c)) = trans_queue_size c"
  "queue_structure (InitOtherParams r (InitTimingParams r c)) = queue_structure c"
  "unified_queue (InitOtherParams r (InitTimingParams r c)) = unified_queue c"
  "enable_self_refresh (InitOtherParams r (InitTimingParams r c)) = enable_self_refresh c"
  "shift_bits (InitOtherParams r (InitTimingParams r c)) = shift_bits c"
  by (simp_all add: InitOtherParams_def InitTimingParams_def Let_def)

lemma later_rest [simp]:
  "ch_pos (InitOtherParams r (InitTimingParams r c)) = ch_pos c"
  "ch_mask (InitOtherParams r (InitTimingParams r c)) = ch_mask c"
  "protocol (InitOtherParams r (InitTimingParams r c)) = protocol c"
  "address_mapping (InitOtherParams r (InitTimingParams r c)) = address_mapping c"
  "tREFI (InitOtherParams r (InitTimingParams r c)) = cfg_GetInteger r ''timing'' ''tREFI'' 7800"
  "epoch_period (InitOtherParams r (InitTimingParams r c)) = cfg_GetInteger r ''other'' ''epoch_period'' 100000"
  by (simp_all add: InitOtherParams_def InitTimingParams_def Let_def)

lemma InitSystemParams_policy: "InitSystemParams r c = ret c' \<Longrightarrow> refresh_policy c' \<noteq> POLICY_SIZE"
  by (auto simp: InitSystemParams_def run_elims ref_policy_of_def split: if_splits)

lemma InitDRAMParams_banks:
  "InitDRAMParams r c = ret c' \<Longrightarrow> banks c' = bankgroups c' * banks_per_group c' \<and> refresh_policy c' = refresh_policy c"
  unfolding InitDRAMParams_def run_bind_ret Let_def split_beta
  by (elim exE conjE, drule option.inject [THEN iffD1], drule sum.inject(2) [THEN iffD1], hypsubst, rule conjI; simp)

lemma CalculateSize_keeps:
  "CalculateSize c = ret c' \<Longrightarrow>
     banks c' = banks c \<and> bankgroups c' = bankgroups c \<and> banks_per_group c' = banks_per_group c \<and>
     refresh_policy c' = refresh_policy c"
  by (auto simp: CalculateSize_def run_elims Let_def split: if_splits)

text \<open>Every address of an accepted configuration is inside the memory.\<close>

lemma new_Config_mapping:
  assumes new: "new_Config r c0 = ret cfg" and sz: "sizes_ok cfg"
  defines "m \<equiv> AddressMapping cfg"
  shows "refresh_policy cfg \<noteq> POLICY_SIZE" "geometry_ok cfg" "ch_in cfg (ds_GetChannel cfg a)"
    "cs_in cfg (ad_rank (m a)) (ad_bankgroup (m a)) (ad_bank (m a))"
    "0 \<le> ad_row (m a) \<and> ad_row (m a) < rows cfg" "0 \<le> ad_column (m a) \<and> ad_column (m a) + cfg_BL cfg \<le> columns cfg"
proof -
  obtain c1 c2 c3 c4 where c: "InitSystemParams r c0 = ret c1" "InitDRAMParams r c1 = ret c2" "CalculateSize c2 = ret c3"
      "SetAddressMapping c3 = ret c4" "cfg = InitOtherParams r (InitTimingParams r c4)"
    using new by (auto simp: new_Config_def run_elims)
  note g = SetAddressMapping_geometry [OF c(4)]
  have "refresh_policy c4 = refresh_policy c3"
    using c(4) by (auto simp: SetAddressMapping_def run_elims Let_def split: if_splits)
  then show "refresh_policy cfg \<noteq> POLICY_SIZE"
    using InitSystemParams_policy [OF c(1)] InitDRAMParams_banks [OF c(2)] CalculateSize_keeps [OF c(3)] c(5) by simp
  have banks: "banks cfg = bankgroups cfg * banks_per_group cfg"
    using InitDRAMParams_banks [OF c(2)] CalculateSize_keeps [OF c(3)] g c(5) by simp
  then show "geometry_ok cfg" using sz by (simp add: geometry_ok_def sizes_ok_def)
  have "sizes_ok c3" using sz g c(5) by (simp add: sizes_ok_def)
  note r = SetAddressMapping_ranges [OF c(4) this]
  show "ch_in cfg (ds_GetChannel cfg a)" using r(1,3) [of a] c(5) by (simp add: ch_in_def)
  show "cs_in cfg (ad_rank (m a)) (ad_bankgroup (m a)) (ad_bank (m a))"
    using r(2) [of a] c(5) by (simp add: m_def cs_in_def cs_rank_in_def)
  show "0 \<le> ad_row (m a) \<and> ad_row (m a) < rows cfg" "0 \<le> ad_column (m a) \<and> ad_column (m a) + cfg_BL cfg \<le> columns cfg"
    using r(4,5) [of a] c(5) by (simp_all add: m_def)
qed

lemma new_Config_system:
  assumes new: "new_Config r c0 = ret cfg" and sz: "sizes_ok cfg"
    and sys: "\<not> enable_self_refresh cfg" "queue_structure cfg \<in> {''PER_BANK'', ''PER_RANK''}"
      "(of_int (epoch_period cfg) :: 64 word) \<noteq> 0"
  shows "system_config_ok cfg"
  using new_Config_mapping [OF new sz] sys by (auto simp: system_config_ok_def config_ok_def Let_def)

section \<open>The configuration of the program\<close>

text \<open>
  The reader of a file, given as the list of its sections: an option that is not there has
  the default.
\<close>

definition ini_option :: "(string \<times> (string \<times> 'v) list) list \<Rightarrow> string \<Rightarrow> string \<Rightarrow> 'v \<Rightarrow> 'v" where
  "ini_option f sec opt dflt =
     (case map_of f sec of None \<Rightarrow> dflt | Some os \<Rightarrow> case map_of os opt of None \<Rightarrow> dflt | Some v \<Rightarrow> v)"

definition HBM2_4Gb_x128 :: INIReader where
  "HBM2_4Gb_x128 =
     \<lparr>rd_Get = ini_option
        [(''dram_structure'', [(''protocol'', ''HBM'')]),
         (''system'', [(''address_mapping'', ''rorabgbacoch''), (''queue_structure'', ''PER_BANK''),
                       (''row_buf_policy'', ''OPEN_PAGE'')])],
      rd_GetInteger = ini_option
        [(''dram_structure'', [(''bankgroups'', 4), (''banks_per_group'', 4), (''rows'', 16384), (''columns'', 64),
                               (''device_width'', 128), (''BL'', 4), (''num_dies'', 4)]),
         (''timing'', [(''CL'', 14), (''CWL'', 4), (''tRCDRD'', 14), (''tRCDWR'', 14), (''tRP'', 14), (''tRAS'', 34),
                       (''tRFC'', 260), (''tREFI'', 3900), (''tREFIb'', 128), (''tRPRE'', 1), (''tWPRE'', 1),
                       (''tRRD_S'', 4), (''tRRD_L'', 6), (''tWTR_S'', 6), (''tWTR_L'', 8), (''tFAW'', 30),
                       (''tWR'', 16), (''tCCD_S'', 1), (''tCCD_L'', 2), (''tXS'', 268), (''tCKE'', 8), (''tXP'', 8)]),
         (''system'', [(''channel_size'', 512), (''channels'', 8), (''bus_width'', 128), (''cmd_queue_size'', 8),
                       (''trans_queue_size'', 32)]),
         (''other'', [(''epoch_period'', 1000000), (''output_level'', 1)])],
      rd_GetBoolean = ini_option [(''system'', [(''unified_queue'', False)])]\<rparr>"

lemma to_int32_small [simp]:
  "to_int32 0 = 0" "to_int32 1 = 1" "0 \<le> (numeral n :: int) \<Longrightarrow> (numeral n :: int) < 2 ^ 31 \<Longrightarrow> to_int32 (numeral n) = numeral n"
  by (rule to_int32_id; simp)+

lemma log_sizes:
  "LogBase2 1 = 0" "LogBase2 4 = 2" "LogBase2 8 = 3" "LogBase2 64 = 6" "LogBase2 128 = 7" "LogBase2 16384 = 14"
  using LogBase2_power [of 0] LogBase2_power [of 2] LogBase2_power [of 3] LogBase2_power [of 6]
    LogBase2_power [of 7] LogBase2_power [of 14] by simp_all

lemma hbm_system:
  "InitSystemParams HBM2_4Gb_x128 c =
     ret (c\<lparr>channel_size := 512, channels := 8, bus_width := 128, address_mapping := ''rorabgbacoch'',
            queue_structure := ''PER_BANK'', row_buf_policy := ''OPEN_PAGE'', cmd_queue_size := 8,
            trans_queue_size := 32, unified_queue := False, write_buf_size := 16,
            refresh_policy := RANK_LEVEL_STAGGERED, enable_self_refresh := False, sref_threshold := 1000,
            aggressive_precharging_enabled := False\<rparr>)"
  unfolding HBM2_4Gb_x128_def InitSystemParams_def cfg_GetInteger_def ini_option_def
  by (simp add: ref_policy_of_def)

lemma hbm_dram:
  "InitDRAMParams HBM2_4Gb_x128 c =
     ret (c\<lparr>protocol := HBM, banks := 16, bankgroups := 4, banks_per_group := 4, rows := 16384, columns := 128,
            device_width := 128, cfg_BL := 4, burst_cycle := 2, num_links := 4, num_dies := 4, link_width := 16,
            link_speed := 15000, block_size := 64, xbar_queue_depth := 16, enable_hbm_dual_cmd := True\<rparr>)"
  unfolding HBM2_4Gb_x128_def InitDRAMParams_def cfg_GetInteger_def ini_option_def
  by (simp add: GetDRAMProtocol_def burst_of_def Let_def IsHMC_def IsHBM_def IsGDDR_def)

definition hbm_facts :: "Config \<Rightarrow> bool" where
  "hbm_facts c \<longleftrightarrow>
     channels c = 8 \<and> ranks c = 1 \<and> bankgroups c = 4 \<and> banks_per_group c = 4 \<and> rows c = 16384 \<and> columns c = 128 \<and>
     cfg_BL c = 4 \<and> shift_bits c = 6 \<and> ch_pos c = 0 \<and> ch_mask c = 7 \<and> trans_queue_size c = 32 \<and>
     queue_structure c = ''PER_BANK'' \<and> \<not> unified_queue c \<and> \<not> enable_self_refresh c \<and> epoch_period c = 1000000 \<and>
     tREFI c = 3900 \<and> refresh_policy c = RANK_LEVEL_STAGGERED \<and> protocol c = HBM \<and>
     address_mapping c = ''rorabgbacoch''"

lemma hbm_config: "\<exists>c. new_Config HBM2_4Gb_x128 c0 = ret c \<and> hbm_facts c"
  unfolding new_Config_def hbm_system hbm_dram run_bind_simps hbm_facts_def
  by (simp add: CalculateSize_def cdiv_def SetAddressMapping_def field_widths_def field_at_def Let_def
      cfg_GetInteger_def HBM2_4Gb_x128_def ini_option_def width_mask_def log_sizes)

lemma hbm_sizes: "hbm_facts c \<Longrightarrow> sizes_ok c"
  by (simp add: hbm_facts_def sizes_ok_def)

text \<open>The memory of the program starts with nothing pending and in a good state.\<close>

lemma hbm_memory:
  "\<exists>cfg s. new_Config HBM2_4Gb_x128 c0 = ret cfg \<and> hbm_facts cfg \<and>
     new_JedecDRAMSystem cfg junk = ret s \<and> js_ok cfg s \<and> js_pend cfg s = {#} \<and> js_clk s = 0"
proof -
  obtain cfg where c: "new_Config HBM2_4Gb_x128 c0 = ret cfg" "hbm_facts cfg" using hbm_config by blast
  have sys: "system_config_ok cfg"
    by (rule new_Config_system [OF c(1) hbm_sizes [OF c(2)]]) (use c(2) in \<open>auto simp: hbm_facts_def\<close>)
  moreover have "refresh_config_ok cfg" "\<not> unified_queue cfg" "\<not> IsHMC cfg"
    using c(2) by (auto simp: hbm_facts_def refresh_config_ok_def new_Refresh_def cdiv_def IsHMC_def)
  ultimately show ?thesis using js_ok_new [of cfg junk] c by blast
qed

end
