(* ===== verification/DS_HMC_Setup.thy ===== *)
theory DS_HMC_Setup
  imports DS_HMC_Inv DS_Setup
begin

text \<open>
  The HMC system on the file \<open>DRAMsim3-master/configs/HMC_2GB_4Lx16.ini\<close>: it is constructed
  in a good state, and every transaction that its links accept is returned once.
\<close>

definition HMC_2GB_4Lx16 :: INIReader where
  "HMC_2GB_4Lx16 =
     \<lparr>rd_Get = ini_option
        [(''dram_structure'', [(''protocol'', ''HMC'')]),
         (''system'', [(''address_mapping'', ''rocorabgbach''), (''queue_structure'', ''PER_BANK''),
                       (''row_buf_policy'', ''CLOSE_PAGE'')])],
      rd_GetInteger = ini_option
        [(''hmc'', [(''num_links'', 4), (''link_width'', 16), (''link_speed'', 10000), (''block_size'', 64),
                    (''xbar_queue_depth'', 6)]),
         (''dram_structure'', [(''bankgroups'', 1), (''banks_per_group'', 8), (''rows'', 65536), (''columns'', 64),
                               (''device_width'', 32), (''num_dies'', 4)]),
         (''timing'', [(''CL'', 17), (''CWL'', 17), (''tRCD'', 17), (''tRP'', 17), (''tRAS'', 34), (''tRFC'', 420),
                       (''tREFI'', 9364), (''tRRD_S'', 4), (''tRRD_L'', 4), (''tWTR_S'', 3), (''tWTR_L'', 3),
                       (''tFAW'', 27), (''tWR'', 17), (''tCCD_S'', 6), (''tCCD_L'', 6), (''tXS'', 12), (''tXP'', 8),
                       (''tRTRS'', 0)]),
         (''system'', [(''channel_size'', 128), (''channels'', 16), (''bus_width'', 32), (''cmd_queue_size'', 8),
                       (''trans_queue_size'', 32)]),
         (''other'', [(''epoch_period'', 1250000), (''output_level'', 1)])],
      rd_GetBoolean = ini_option [(''system'', [(''unified_queue'', True)])]\<rparr>"

lemma hmc_logs:
  "LogBase2 16 = 4" "LogBase2 65536 = 16"
  using LogBase2_power [of 4] LogBase2_power [of 16] by simp_all

lemma hmc_system:
  "InitSystemParams HMC_2GB_4Lx16 c =
     ret (c\<lparr>channel_size := 128, channels := 16, bus_width := 32, address_mapping := ''rocorabgbach'',
            queue_structure := ''PER_BANK'', row_buf_policy := ''CLOSE_PAGE'', cmd_queue_size := 8,
            trans_queue_size := 32, unified_queue := True, write_buf_size := 16,
            refresh_policy := RANK_LEVEL_STAGGERED, enable_self_refresh := False, sref_threshold := 1000,
            aggressive_precharging_enabled := False\<rparr>)"
  unfolding HMC_2GB_4Lx16_def InitSystemParams_def cfg_GetInteger_def ini_option_def
  by (simp add: ref_policy_of_def)

lemma hmc_dram:
  "InitDRAMParams HMC_2GB_4Lx16 c =
     ret (c\<lparr>protocol := HMC, banks := 8, bankgroups := 1, banks_per_group := 8, rows := 65536, columns := 64,
            device_width := 32, cfg_BL := 16, burst_cycle := 8, num_links := 4, num_dies := 4, link_width := 16,
            link_speed := 10000, block_size := 64, xbar_queue_depth := 6, enable_hbm_dual_cmd := False\<rparr>)"
  unfolding HMC_2GB_4Lx16_def InitDRAMParams_def cfg_GetInteger_def ini_option_def
  by (simp add: GetDRAMProtocol_def burst_of_def Let_def IsHMC_def IsHBM_def IsGDDR_def cdiv_def)

definition hmc_facts :: "Config \<Rightarrow> bool" where
  "hmc_facts c \<longleftrightarrow>
     channels c = 16 \<and> ranks c = 1 \<and> bankgroups c = 1 \<and> banks_per_group c = 8 \<and> rows c = 65536 \<and> columns c = 64 \<and>
     cfg_BL c = 16 \<and> queue_structure c = ''PER_BANK'' \<and> \<not> enable_self_refresh c \<and> epoch_period c = 1250000 \<and>
     tREFI c = 9364 \<and> refresh_policy c = RANK_LEVEL_STAGGERED \<and> protocol c = HMC \<and> num_links c = 4 \<and>
     link_width c = 16 \<and> link_speed c = 10000 \<and> block_size c = 64 \<and> xbar_queue_depth c = 6"

lemma later_hmc [simp]:
  "num_links (InitOtherParams r (InitTimingParams r c)) = num_links c"
  "link_width (InitOtherParams r (InitTimingParams r c)) = link_width c"
  "link_speed (InitOtherParams r (InitTimingParams r c)) = link_speed c"
  "block_size (InitOtherParams r (InitTimingParams r c)) = block_size c"
  "xbar_queue_depth (InitOtherParams r (InitTimingParams r c)) = xbar_queue_depth c"
  by (simp_all add: InitOtherParams_def InitTimingParams_def Let_def)

lemma hmc_config: "\<exists>c. new_Config HMC_2GB_4Lx16 c0 = ret c \<and> hmc_facts c"
  unfolding new_Config_def hmc_system hmc_dram run_bind_simps hmc_facts_def
  by (simp add: CalculateSize_def cdiv_def SetAddressMapping_def field_widths_def field_at_def Let_def
      cfg_GetInteger_def HMC_2GB_4Lx16_def ini_option_def width_mask_def log_sizes hmc_logs)

lemma hmc_memory:
  "\<exists>cfg s. new_Config HMC_2GB_4Lx16 c0 = ret cfg \<and> hmc_facts cfg \<and> new_HMCMemorySystem cfg junk = ret s \<and>
     hm_inv cfg {#} s \<and> hm_pend s = {#} \<and> hm_WillAcceptTransaction s \<and> (\<forall>k. 800 * k + 1600 < 2 ^ 64 \<longrightarrow> hm_time k s)"
proof -
  obtain cfg where c: "new_Config HMC_2GB_4Lx16 c0 = ret cfg" "hmc_facts cfg" using hmc_config by blast
  have "sizes_ok cfg" using c(2) by (simp add: hmc_facts_def sizes_ok_def)
  then have sys: "system_config_ok cfg"
    by (rule new_Config_system [OF c(1)]) (use c(2) in \<open>auto simp: hmc_facts_def\<close>)
  have ref: "refresh_config_ok cfg" and "IsHMC cfg" "0 < num_links cfg" "logic_period cfg = ret 800" "(800 :: 64 word) \<noteq> 0"
    using c(2) by (auto simp: hmc_facts_def refresh_config_ok_def new_Refresh_def cdiv_def IsHMC_def logic_period_def)
  then obtain s where "new_HMCMemorySystem cfg junk = ret s" "hm_inv cfg {#} s" "hm_pend s = {#}"
      "links s = num_links cfg" "queue_depth s = to_size_t (xbar_queue_depth cfg)" "\<forall>i. link_req_queues s i = []"
      "\<forall>k. 800 * k + 1600 < 2 ^ 64 \<longrightarrow> hm_time k s"
    using hm_start [OF sys ref, of 800 junk] by blast
  moreover from this have "hm_WillAcceptTransaction s"
    using c(2) by (auto simp: hm_WillAcceptTransaction_def hmc_facts_def intro!: bexI [of _ 0])
  ultimately show ?thesis using c by blast
qed

section \<open>Either system\<close>

text \<open>A call on the chosen system is the call on the system inside.\<close>

lemma run_ticks_jedec:
  "run_ticks (jedec_ops cfg tm) n s = ret (ts, s') \<Longrightarrow> run_ticks (memory_ops cfg tm) n (Jedec s) = ret (ts, Jedec s')"
proof (induction n arbitrary: s ts)
  case (Suc n)
  obtain us s1 vs where "js_ClockTick cfg tm s = ret (us, s1)" "run_ticks (jedec_ops cfg tm) n s1 = ret (vs, s')" "ts = us @ vs"
    using Suc.prems by (auto simp: run_elims jedec_ops_def)
  then show ?case using Suc.IH [of s1 vs] by (simp add: memory_ops_def base_call_def)
qed simp

lemma run_ticks_hmc:
  "run_ticks (hmc_ops cfg tm) n s = ret (ts, s') \<Longrightarrow> run_ticks (memory_ops cfg tm) n (Hmc s) = ret (ts, Hmc s')"
proof (induction n arbitrary: s ts)
  case (Suc n)
  obtain us s1 vs where "hm_ClockTick cfg tm s = ret (us, s1)" "run_ticks (hmc_ops cfg tm) n s1 = ret (vs, s')" "ts = us @ vs"
    using Suc.prems by (auto simp: run_elims hmc_ops_def)
  then show ?case using Suc.IH [of s1 vs] by (simp add: memory_ops_def base_call_def)
qed simp

definition base_ok :: "Config \<Rightarrow> BaseDRAMSystem \<Rightarrow> bool" where
  "base_ok cfg b \<longleftrightarrow> (case b of Jedec s \<Rightarrow> js_ok cfg s | Hmc s \<Rightarrow> hm_inv cfg {#} s)"

definition base_pend :: "Config \<Rightarrow> BaseDRAMSystem \<Rightarrow> (addr_t \<times> bool) multiset" where
  "base_pend cfg b = (case b of Jedec s \<Rightarrow> js_pend cfg s | Hmc s \<Rightarrow> hm_pend s)"

text \<open>The counters of the HMC system have room for \<open>n\<close> more cycles; the JEDEC system needs none.\<close>

definition base_time :: "nat \<Rightarrow> BaseDRAMSystem \<Rightarrow> bool" where
  "base_time n b \<longleftrightarrow> (case b of Jedec s \<Rightarrow> True | Hmc s \<Rightarrow> hm_time n s)"

lemma base_ticks:
  assumes "base_ok cfg b" "base_time n b"
  shows "\<exists>ts b'. run_ticks (memory_ops cfg tm) n b = ret (ts, b') \<and> base_ok cfg b' \<and> base_pend cfg b = mset ts + base_pend cfg b'"
proof (cases b)
  case (Jedec s)
  then obtain ts s' where "run_ticks (jedec_ops cfg tm) n s = ret (ts, s')" "js_ok cfg s'" "js_pend cfg s = mset ts + js_pend cfg s'"
    using jedec.ticks_conserve [of cfg s tm n] assms(1) by (auto simp: base_ok_def)
  then show ?thesis using run_ticks_jedec Jedec by (fastforce simp: base_ok_def base_pend_def)
next
  case (Hmc s)
  then obtain ts s' where "run_ticks (hmc_ops cfg tm) n s = ret (ts, s')" "hm_inv cfg {#} s'" "hm_pend s = mset ts + hm_pend s'"
    using hm_ticks [of cfg s n tm] assms by (auto simp: base_ok_def base_time_def)
  then show ?thesis using run_ticks_hmc Hmc by (fastforce simp: base_ok_def base_pend_def)
qed

text \<open>What the parameters of the protocol must satisfy.\<close>

definition protocol_ok :: "Config \<Rightarrow> bool" where
  "protocol_ok cfg \<longleftrightarrow>
     (if IsHMC cfg then 0 < num_links cfg \<and> (case logic_period cfg of Some (Inr p) \<Rightarrow> p \<noteq> 0 | _ \<Rightarrow> False)
      else \<not> unified_queue cfg)"

lemma memory_system_new:
  assumes new: "new_Config r c0 = ret cfg" and sys: "system_config_ok cfg" "refresh_config_ok cfg" and prot: "protocol_ok cfg"
  shows "\<exists>b. new_MemorySystem r c0 junk = ret (cfg, b) \<and> base_ok cfg b \<and> base_pend cfg b = {#} \<and>
    (case b of Jedec s \<Rightarrow> True | Hmc s \<Rightarrow> \<forall>k. 800 * k + 1600 < 2 ^ 64 \<longrightarrow> hm_time k s)"
proof (cases "IsHMC cfg")
  case True
  then obtain p where "logic_period cfg = ret p" "p \<noteq> 0" "0 < num_links cfg"
    using prot by (auto simp: protocol_ok_def split: option.splits sum.splits)
  with hm_start [OF sys True, of p junk] obtain s where "new_HMCMemorySystem cfg junk = ret s" "hm_inv cfg {#} s" "hm_pend s = {#}"
      "\<forall>k. 800 * k + 1600 < 2 ^ 64 \<longrightarrow> hm_time k s" by blast
  then show ?thesis using new True by (simp add: new_MemorySystem_def base_ok_def base_pend_def)
next
  case False
  with js_ok_new [OF sys _ False, of junk] prot obtain s where "new_JedecDRAMSystem cfg junk = ret s" "js_ok cfg s" "js_pend cfg s = {#}"
    by (auto simp: protocol_ok_def)
  then show ?thesis using new False by (simp add: new_MemorySystem_def base_ok_def base_pend_def)
qed

end
