(* ===== verification/Ini_Reader.thy ===== *)
theory Ini_Reader
  imports Cpp_Strings
begin

text \<open>
  The reader of configuration files (\<open>DRAMsim3-master/ext/headers/INIReader.h\<close>): lines of at
  most 199 characters, sections, options with \<open>=\<close> or \<open>:\<close>, comments, continuation lines, and
  the typed lookups. A C string is the list of its characters; a pointer into the line buffer
  is the rest of the line from there. The compile-time switches have their defaults. The
  lookup of floating-point numbers is left out.
\<close>

section \<open>Characters and strings\<close>

abbreviation newline :: char where "newline \<equiv> CHR 0x0A"

text \<open>The C string in a buffer ends before the first null character.\<close>

definition c_str :: "string \<Rightarrow> string" where
  "c_str s = takeWhile (\<lambda>c. c \<noteq> CHR 0x00) s"

definition to_lower :: "char \<Rightarrow> char" where
  "to_lower c = (if 65 \<le> (of_char c :: int) \<and> (of_char c :: int) \<le> 90 then char_of (of_char c + 32 :: int) else c)"

definition rstrip :: "string \<Rightarrow> string" where
  "rstrip s = rev (dropWhile is_space (rev s))"

definition lskip :: "string \<Rightarrow> string" where
  "lskip s = dropWhile is_space s"

text \<open>
  The text before the first of \<open>chars\<close> or before an inline comment, and the rest from there;
  no \<open>chars\<close> is the null pointer.
\<close>

fun find_chars_or_comment :: "string \<Rightarrow> bool \<Rightarrow> string \<Rightarrow> string \<times> string" where
  "find_chars_or_comment chars was_space [] = ([], [])"
| "find_chars_or_comment chars was_space (c # s) =
     (if c \<in> set chars \<or> (was_space \<and> c = CHR '';'') then ([], c # s)
      else let (a, b) = find_chars_or_comment chars (is_space c) s in (c # a, b))"

definition strncpy0 :: "string \<Rightarrow> nat \<Rightarrow> string" where
  "strncpy0 src sz = take (sz - 1) src"

definition MAX_SECTION :: nat where "MAX_SECTION = 50"
definition MAX_NAME :: nat where "MAX_NAME = 50"
definition INI_MAX_LINE :: nat where "INI_MAX_LINE = 200"

text \<open>\<open>fgets\<close> with room for \<open>n\<close> characters: what it reads, and what is left of the stream.\<close>

fun fgets_chars :: "nat \<Rightarrow> string \<Rightarrow> string \<times> string" where
  "fgets_chars 0 s = ([], s)"
| "fgets_chars (Suc n) [] = ([], [])"
| "fgets_chars (Suc n) (c # s) =
     (if c = newline then ([c], s) else let (a, b) = fgets_chars n s in (c # a, b))"

lemma fgets_shorter:
  "fgets_chars n s = (a, b) \<Longrightarrow> 0 < n \<Longrightarrow> s \<noteq> [] \<Longrightarrow> length b < length s"
proof (induction n s arbitrary: a b rule: fgets_chars.induct)
  case (3 n c s)
  show ?case
  proof (cases "c = newline \<or> n = 0 \<or> s = []")
    case True
    then show ?thesis using "3.prems"(1) by (cases n) (auto split: if_splits prod.splits)
  next
    case False
    obtain a' b' where r: "fgets_chars n s = (a', b')" by fastforce
    then have "length b' < length s" using "3.IH" False by auto
    then show ?thesis using "3.prems"(1) r False by auto
  qed
qed auto

function ini_lines :: "string \<Rightarrow> string list" where
  "ini_lines s =
     (if s = [] then [] else let (l, r) = fgets_chars (INI_MAX_LINE - 1) s in l # ini_lines r)"
  by pat_completeness auto
termination
  by (relation "measure length") (auto simp: INI_MAX_LINE_def dest!: fgets_shorter [OF sym])

declare ini_lines.simps [simp del]

section \<open>Parsing\<close>

text \<open>The members of the class \<open>INIReader\<close>.\<close>

record INIFile =
  parse_error :: int
  ini_values :: "string \<Rightarrow> string option"
  ini_sections :: "string set"

definition MakeKey :: "string \<Rightarrow> string \<Rightarrow> string" where
  "MakeKey sec name = map to_lower (sec @ ''='' @ name)"

text \<open>Indexing the map makes an empty entry; a second value is appended after a newline.\<close>

definition append_value :: "string \<Rightarrow> string \<Rightarrow> string" where
  "append_value old v = (if length old > 0 then old @ [newline] else old) @ v"

definition ValueHandler :: "string \<Rightarrow> string \<Rightarrow> string \<Rightarrow> INIFile \<Rightarrow> INIFile" where
  "ValueHandler sec name value r =
     (let key = MakeKey sec name; old = (case ini_values r key of None \<Rightarrow> [] | Some v \<Rightarrow> v)
      in r\<lparr>ini_values := (ini_values r)(key \<mapsto> append_value old value), ini_sections := insert sec (ini_sections r)\<rparr>)"

record ini_state =
  st_section :: string
  prev_name :: string
  lineno :: nat
  st_error :: nat
  user :: INIFile

definition utf8_bom :: string where
  "utf8_bom = [CHR 0xEF, CHR 0xBB, CHR 0xBF]"

text \<open>The first error is kept.\<close>

definition note_error :: "ini_state \<Rightarrow> ini_state" where
  "note_error s = (if st_error s = 0 then s\<lparr>st_error := lineno s\<rparr> else s)"

definition call_handler :: "string \<Rightarrow> string \<Rightarrow> ini_state \<Rightarrow> ini_state" where
  "call_handler name value s = s\<lparr>user := ValueHandler (st_section s) name value (user s)\<rparr>"

text \<open>A line that starts with a bracket, and one that has to be a name and a value.\<close>

definition section_line :: "string \<Rightarrow> ini_state \<Rightarrow> ini_state" where
  "section_line rest s =
     (case find_chars_or_comment '']'' False rest of
        (a, b) \<Rightarrow> if b \<noteq> [] \<and> hd b = CHR '']'' then s\<lparr>st_section := strncpy0 a MAX_SECTION, prev_name := []\<rparr>
                  else note_error s)"

definition option_line :: "string \<Rightarrow> ini_state \<Rightarrow> ini_state" where
  "option_line start s =
     (case find_chars_or_comment ''=:'' False start of
        (a, b) \<Rightarrow>
          if b \<noteq> [] \<and> (hd b = CHR ''='' \<or> hd b = CHR '':'') then
            let name = rstrip a;
                value = rstrip (fst (find_chars_or_comment [] False (lskip (tl b))))
            in call_handler name value (s\<lparr>prev_name := strncpy0 name MAX_NAME\<rparr>)
          else note_error s)"

definition ini_line :: "string \<Rightarrow> ini_state \<Rightarrow> ini_state" where
  "ini_line line s0 =
     (let s = s0\<lparr>lineno := Suc (lineno s0)\<rparr>;
          bom = (lineno s = 1 \<and> starts_with utf8_bom line);
          stripped = rstrip (if bom then drop 3 line else line);
          start = lskip stripped;
          moved = (bom \<or> length start < length stripped)
      in if start \<noteq> [] \<and> (hd start = CHR '';'' \<or> hd start = CHR ''#'') then s
         else if prev_name s \<noteq> [] \<and> start \<noteq> [] \<and> moved
           then call_handler (prev_name s) (rstrip (fst (find_chars_or_comment [] False start))) s
         else if start \<noteq> [] \<and> hd start = CHR ''['' then section_line (tl start) s
         else if start \<noteq> [] then option_line start s
         else s)"

definition ini_start :: ini_state where
  "ini_start = \<lparr>st_section = [], prev_name = [], lineno = 0, st_error = 0,
     user = \<lparr>parse_error = 0, ini_values = Map.empty, ini_sections = {}\<rparr>\<rparr>"

definition ini_parse_stream :: "string \<Rightarrow> ini_state" where
  "ini_parse_stream text = fold ini_line (map c_str (ini_lines text)) ini_start"

text \<open>The constructor on the contents of a file; \<open>None\<close> is a file that cannot be opened.\<close>

definition ini_parse :: "string option \<Rightarrow> INIFile" where
  "ini_parse file =
     (case file of
        None \<Rightarrow> (user ini_start)\<lparr>parse_error := - 1\<rparr>
      | Some text \<Rightarrow> let s = ini_parse_stream text in (user s)\<lparr>parse_error := int (st_error s)\<rparr>)"

section \<open>Lookups\<close>

definition ini_Get :: "INIFile \<Rightarrow> string \<Rightarrow> string \<Rightarrow> string \<Rightarrow> string" where
  "ini_Get r sec name dflt = (case ini_values r (MakeKey sec name) of None \<Rightarrow> dflt | Some v \<Rightarrow> v)"

text \<open>
  \<open>strtol\<close> with base 0: white space, a sign, a prefix that selects the base, and the longest
  run of digits; the value is clamped to a \<open>long\<close>. \<open>None\<close> means that nothing was converted.
\<close>

definition char_digit :: "char \<Rightarrow> int" where
  "char_digit c =
     (let n = of_char c :: int
      in if 48 \<le> n \<and> n \<le> 57 then n - 48 else if 97 \<le> n \<and> n \<le> 122 then n - 87
         else if 65 \<le> n \<and> n \<le> 90 then n - 55 else 99)"

definition strtol_base :: "string \<Rightarrow> int \<times> string" where
  "strtol_base s =
     (case s of
        c # x # h # _ \<Rightarrow>
          if c = CHR ''0'' \<and> (x = CHR ''x'' \<or> x = CHR ''X'') \<and> char_digit h < 16 then (16, drop 2 s)
          else if c = CHR ''0'' then (8, s) else (10, s)
      | c # _ \<Rightarrow> if c = CHR ''0'' then (8, s) else (10, s)
      | [] \<Rightarrow> (10, s))"

definition clamp_long :: "int \<Rightarrow> int" where
  "clamp_long i = max (- (2 ^ 63)) (min (2 ^ 63 - 1) i)"

definition strtol_unsigned :: "int \<Rightarrow> string \<Rightarrow> int option" where
  "strtol_unsigned sign s =
     (case strtol_base s of
        (base, t) \<Rightarrow>
          let ds = takeWhile (\<lambda>c. char_digit c < base) t
          in if ds = [] then None
             else Some (clamp_long (sign * foldl (\<lambda>v c. base * v + char_digit c) 0 ds)))"

definition strtol0 :: "string \<Rightarrow> int option" where
  "strtol0 s =
     (case dropWhile is_space s of
        c # cs \<Rightarrow> if c = CHR ''-'' then strtol_unsigned (- 1) cs
                  else if c = CHR ''+'' then strtol_unsigned 1 cs
                  else strtol_unsigned 1 (c # cs)
      | [] \<Rightarrow> None)"

definition ini_GetInteger :: "INIFile \<Rightarrow> string \<Rightarrow> string \<Rightarrow> int \<Rightarrow> int" where
  "ini_GetInteger r sec name dflt = (case strtol0 (ini_Get r sec name []) of None \<Rightarrow> dflt | Some n \<Rightarrow> n)"

definition ini_GetBoolean :: "INIFile \<Rightarrow> string \<Rightarrow> string \<Rightarrow> bool \<Rightarrow> bool" where
  "ini_GetBoolean r sec name dflt =
     (let v = map to_lower (ini_Get r sec name [])
      in if v \<in> set [''true'', ''yes'', ''on'', ''1''] then True
         else if v \<in> set [''false'', ''no'', ''off'', ''0''] then False else dflt)"

end
