(* ===== verification/Ini_Correct.thy ===== *)
theory Ini_Correct
  imports Ini_Reader
begin

text \<open>
  The reader against a reference description of a file: a list of sections, options,
  continuations, comments, blank lines and lines that are neither. Reading the printed file
  reports the first bad line, and a lookup finds what the description binds.
\<close>

section \<open>Files\<close>

datatype ini_item =
    Sec string
  | Opt string string
  | Cont string
  | Remark string
  | Blank
  | Junk string

definition clean :: "string \<Rightarrow> bool" where
  "clean s \<longleftrightarrow> (\<forall>c\<in>set s. c \<noteq> newline \<and> c \<noteq> CHR 0x00 \<and> (of_char c :: int) < 128)"

definition trimmed :: "string \<Rightarrow> bool" where
  "trimmed s \<longleftrightarrow> s \<noteq> [] \<longrightarrow> \<not> is_space (hd s) \<and> \<not> is_space (last s)"

definition lacks :: "string \<Rightarrow> string \<Rightarrow> bool" where
  "lacks cs s \<longleftrightarrow> (\<forall>c\<in>set s. c \<notin> set cs)"

definition word_start :: "string \<Rightarrow> bool" where
  "word_start s \<longleftrightarrow> s \<noteq> [] \<and> hd s \<notin> set ''[#;''"

text \<open>No semicolon after white space.\<close>

fun uncommented :: "bool \<Rightarrow> string \<Rightarrow> bool" where
  "uncommented w [] = True"
| "uncommented w (c # s) = (\<not> (w \<and> c = CHR '';'') \<and> uncommented (is_space c) s)"

fun item_text :: "ini_item \<Rightarrow> string" where
  "item_text (Sec a) = ''['' @ a @ '']''"
| "item_text (Opt n v) = n @ '' = '' @ v"
| "item_text (Cont v) = ''  '' @ v"
| "item_text (Remark c) = ''#'' @ c"
| "item_text Blank = []"
| "item_text (Junk j) = j"

fun item_chars :: "ini_item \<Rightarrow> bool" where
  "item_chars (Sec a) = (clean a \<and> lacks '';]'' a)"
| "item_chars (Opt n v) =
     (clean n \<and> clean v \<and> trimmed n \<and> trimmed v \<and> word_start n \<and> lacks ''=:;'' n \<and> uncommented False v)"
| "item_chars (Cont v) = (clean v \<and> trimmed v \<and> word_start v \<and> lacks ''=:'' v \<and> uncommented False v)"
| "item_chars (Remark c) = clean c"
| "item_chars Blank = True"
| "item_chars (Junk j) = (clean j \<and> trimmed j \<and> word_start j \<and> lacks ''=:'' j)"

text \<open>A line fits the buffer together with its newline and the null character.\<close>

definition item_ok :: "ini_item \<Rightarrow> bool" where
  "item_ok i \<longleftrightarrow> item_chars i \<and> length (item_text i) \<le> 198"

definition print_ini :: "ini_item list \<Rightarrow> string" where
  "print_ini is = concat (map (\<lambda>i. item_text i @ [newline]) is)"

text \<open>
  What a file binds: the options with their sections, in order, where a continuation gives
  one more value to the last option. A continuation with no option before it is an error.
\<close>

fun bindings :: "string \<Rightarrow> string \<Rightarrow> ini_item list \<Rightarrow> (string \<times> string \<times> string) list" where
  "bindings sec prev [] = []"
| "bindings sec prev (Sec a # is) = bindings (take 49 a) [] is"
| "bindings sec prev (Opt n v # is) = (sec, n, v) # bindings sec (take 49 n) is"
| "bindings sec prev (Cont v # is) =
     (if prev = [] then bindings sec prev is else (sec, prev, v) # bindings sec prev is)"
| "bindings sec prev (Remark c # is) = bindings sec prev is"
| "bindings sec prev (Blank # is) = bindings sec prev is"
| "bindings sec prev (Junk j # is) = bindings sec prev is"

fun error_line :: "nat \<Rightarrow> string \<Rightarrow> ini_item list \<Rightarrow> nat" where
  "error_line k prev [] = 0"
| "error_line k prev (Sec a # is) = error_line (Suc k) [] is"
| "error_line k prev (Opt n v # is) = error_line (Suc k) (take 49 n) is"
| "error_line k prev (Cont v # is) = (if prev = [] then k else error_line (Suc k) prev is)"
| "error_line k prev (Remark c # is) = error_line (Suc k) prev is"
| "error_line k prev (Blank # is) = error_line (Suc k) prev is"
| "error_line k prev (Junk j # is) = k"

definition values_for :: "string \<Rightarrow> (string \<times> string \<times> string) list \<Rightarrow> string list" where
  "values_for key bs = map (snd \<circ> snd) (filter (\<lambda>(a, n, v). MakeKey a n = key) bs)"

text \<open>Several values are joined by newlines; empty ones before the first text are lost.\<close>

definition joined :: "string list \<Rightarrow> string" where
  "joined vs = (case dropWhile (\<lambda>v. v = []) vs of [] \<Rightarrow> [] | w # ws \<Rightarrow> w @ concat (map (\<lambda>v. newline # v) ws))"

section \<open>Scanning\<close>

lemma strip_simps [simp]: "rstrip [] = []" "lskip [] = []"
  by (simp_all add: rstrip_def lskip_def)

lemma rstrip_spaces: "\<forall>c\<in>set w. is_space c \<Longrightarrow> rstrip (s @ w) = rstrip s"
  by (simp add: rstrip_def dropWhile_append)

lemma rstrip_last: "s \<noteq> [] \<Longrightarrow> \<not> is_space (last s) \<Longrightarrow> rstrip s = s"
  by (cases s rule: rev_cases) (simp_all add: rstrip_def)

lemma lskip_hd: "s \<noteq> [] \<Longrightarrow> \<not> is_space (hd s) \<Longrightarrow> lskip s = s"
  by (cases s) (simp_all add: lskip_def)

lemma trimmed_strip: "trimmed s \<Longrightarrow> rstrip s = s" "trimmed s \<Longrightarrow> lskip s = s"
  by (cases "s = []"; simp add: trimmed_def rstrip_last lskip_hd)+

lemma is_space_simps [simp]:
  "is_space newline" "is_space CHR '' ''" "\<not> is_space CHR ''[''" "\<not> is_space CHR '']''" "\<not> is_space CHR ''#''" "\<not> is_space CHR ''=''"
  by (simp_all add: is_space_def)

lemma find_uncommented: "uncommented w s \<Longrightarrow> find_chars_or_comment [] w s = (s, [])"
  by (induction w s rule: uncommented.induct) auto

lemma find_stop:
  "lacks (CHR '';'' # chars) s \<Longrightarrow> c \<in> set chars \<Longrightarrow> find_chars_or_comment chars w (s @ c # r) = (s, c # r)"
proof (induction s arbitrary: w)
  case (Cons a s)
  then have "lacks (CHR '';'' # chars) s" by (simp add: lacks_def)
  from Cons.IH [OF this Cons.prems(2), of "is_space a"] show ?case
    using Cons.prems by (simp add: lacks_def)
qed simp

text \<open>Without the characters the search ends at the end or at a comment.\<close>

lemma find_missing:
  "lacks chars s \<Longrightarrow> find_chars_or_comment chars w s = (a, b) \<Longrightarrow> b = [] \<or> hd b = CHR '';''"
  by (induction chars w s arbitrary: a b rule: find_chars_or_comment.induct)
    (auto simp: lacks_def split: if_splits prod.splits)

section \<open>Lines\<close>

lemma fgets_line:
  assumes "newline \<notin> set l" "length l < n"
  shows "fgets_chars n (l @ newline # r) = (l @ [newline], r)"
  using assms
proof (induction l arbitrary: n)
  case Nil
  then show ?case by (cases n) simp_all
next
  case (Cons c l)
  then obtain m where "n = Suc m" "length l < m" by (cases n) auto
  then show ?case using Cons by auto
qed

lemma item_text_clean: "item_ok i \<Longrightarrow> clean (item_text i)"
  by (cases i) (auto simp: item_ok_def clean_def)

lemma ini_lines_print:
  "\<forall>i\<in>set is. item_ok i \<Longrightarrow> ini_lines (print_ini is) = map (\<lambda>i. item_text i @ [newline]) is"
proof (induction "is")
  case Nil
  then show ?case by (simp add: print_ini_def ini_lines.simps)
next
  case (Cons i "is")
  have "newline \<notin> set (item_text i)" "length (item_text i) < INI_MAX_LINE - 1"
    using item_text_clean [of i] Cons.prems by (auto simp: clean_def item_ok_def INI_MAX_LINE_def)
  from fgets_line [OF this, of "print_ini is"]
  have "fgets_chars (INI_MAX_LINE - 1) (print_ini (i # is)) = (item_text i @ [newline], print_ini is)"
    by (simp add: print_ini_def)
  moreover have "print_ini (i # is) \<noteq> []" by (simp add: print_ini_def)
  ultimately show ?case using Cons by (subst ini_lines.simps) simp
qed

lemma c_str_clean: "clean s \<Longrightarrow> c_str (s @ [newline]) = s @ [newline]"
  by (simp add: c_str_def clean_def takeWhile_eq_all_conv)

lemma no_bom: "clean s \<Longrightarrow> starts_with utf8_bom (s @ [newline]) = False"
proof (cases s)
  case (Cons c t)
  assume "clean s"
  then have "(of_char c :: int) < 128" using Cons by (simp add: clean_def)
  then have "CHR 0xEF \<noteq> c" by auto
  then show ?thesis using Cons by (simp add: utf8_bom_def)
qed (simp add: utf8_bom_def)

section \<open>One line\<close>

fun item_step :: "ini_item \<Rightarrow> ini_state \<Rightarrow> ini_state" where
  "item_step (Sec a) s = s\<lparr>st_section := take 49 a, prev_name := []\<rparr>"
| "item_step (Opt n v) s = call_handler n v (s\<lparr>prev_name := take 49 n\<rparr>)"
| "item_step (Cont v) s = (if prev_name s = [] then note_error s else call_handler (prev_name s) v s)"
| "item_step (Remark c) s = s"
| "item_step Blank s = s"
| "item_step (Junk j) s = note_error s"

text \<open>The parts of a line that no byte order mark starts.\<close>

lemma ini_line_parts:
  assumes "\<not> starts_with utf8_bom line" "rstrip line = stripped" "lskip stripped = start" "s = s0\<lparr>lineno := Suc (lineno s0)\<rparr>"
  shows "ini_line line s0 =
    (if start \<noteq> [] \<and> (hd start = CHR '';'' \<or> hd start = CHR ''#'') then s
     else if prev_name s \<noteq> [] \<and> start \<noteq> [] \<and> length start < length stripped
       then call_handler (prev_name s) (rstrip (fst (find_chars_or_comment [] False start))) s
     else if start \<noteq> [] \<and> hd start = CHR ''['' then section_line (tl start) s
     else if start \<noteq> [] then option_line start s
     else s)"
  using assms by (simp add: ini_line_def Let_def)

lemma option_line_ok:
  assumes "trimmed n" "n \<noteq> []" "trimmed v" "lacks ''=:;'' n" "uncommented False v" "rest = (if v = [] then [] else '' '' @ v)"
  shows "option_line (n @ '' ='' @ rest) s = call_handler n v (s\<lparr>prev_name := take 49 n\<rparr>)"
proof -
  have "lacks '';=:'' (n @ '' '')" using assms(4) by (auto simp: lacks_def)
  from find_stop [OF this, of "CHR ''=''" False rest]
  have f: "find_chars_or_comment ''=:'' False (n @ '' ='' @ rest) = (n @ '' '', CHR ''='' # rest)" by simp
  have r: "rstrip (n @ '' '') = n" using rstrip_spaces [of "'' ''" n] trimmed_strip(1) [OF assms(1)] by simp
  have v: "lskip rest = v" using trimmed_strip(2) [OF assms(3)] assms(6) by (auto simp: lskip_def)
  show ?thesis
    using f r v trimmed_strip(1) [OF assms(3)] find_uncommented [OF assms(5)] by (simp add: option_line_def strncpy0_def MAX_NAME_def)
qed

lemma option_line_bad: "lacks ''=:'' j \<Longrightarrow> option_line j s = note_error s"
  using find_missing [of "''=:''" j False] by (auto simp: option_line_def split: prod.splits)

lemma ini_line_item:
  assumes "item_ok i"
  shows "ini_line (item_text i @ [newline]) s = item_step i (s\<lparr>lineno := Suc (lineno s)\<rparr>)"
proof -
  note parts = ini_line_parts [OF _ _ _ refl]
  have nb: "\<not> starts_with utf8_bom (item_text i @ [newline])" using no_bom [OF item_text_clean [OF assms]] by simp
  have strip: "rstrip (item_text i @ [newline]) = rstrip (item_text i)" by (rule rstrip_spaces) simp
  have word: "word_start w \<Longrightarrow> w \<noteq> [] \<and> hd w \<noteq> CHR ''['' \<and> hd w \<noteq> CHR ''#'' \<and> hd w \<noteq> CHR '';''" for w
    by (simp add: word_start_def)
  have i: "item_chars i" using assms by (simp add: item_ok_def)
  show ?thesis
  proof (cases i)
    case (Sec a)
    have s: "rstrip (item_text i) = item_text i" "lskip (item_text i) = item_text i"
      by (simp_all add: Sec rstrip_last lskip_hd)
    have "lacks '';]'' a" using i Sec by simp
    from find_stop [OF this, of "CHR '']''" False "[]"] have "section_line (a @ '']'') t = t\<lparr>st_section := take 49 a, prev_name := []\<rparr>" for t
      by (simp add: section_line_def strncpy0_def MAX_SECTION_def)
    then show ?thesis unfolding parts [OF nb strip [unfolded s(1)] s(2)] using Sec by simp
  next
    case (Opt n v)
    define rest where "rest = (if v = [] then [] else '' '' @ v)"
    have w: "trimmed n" "trimmed v" "n \<noteq> []" "hd n \<noteq> CHR ''[''" "hd n \<noteq> CHR ''#''" "hd n \<noteq> CHR '';''" "\<not> is_space (hd n)"
        "lacks ''=:;'' n" "uncommented False v"
      using i Opt word [of n] by (auto simp: trimmed_def)
    have "rstrip (item_text i) = n @ '' ='' @ rest"
    proof (cases "v = []")
      case True
      then have "rstrip ((n @ '' ='') @ '' '') = n @ '' =''" by (subst rstrip_spaces) (simp_all add: rstrip_last)
      then show ?thesis using Opt True by (simp add: rest_def)
    next
      case False
      then have "\<not> is_space (last v)" using w(2) by (simp add: trimmed_def)
      then show ?thesis using Opt False by (simp add: rest_def rstrip_last)
    qed
    moreover have "lskip (n @ '' ='' @ rest) = n @ '' ='' @ rest" using w(3,7) by (simp add: lskip_hd)
    ultimately show ?thesis
      using parts [OF nb strip] w option_line_ok [OF w(1,3,2,8,9) rest_def] Opt by simp
  next
    case (Cont v)
    have w: "trimmed v" "v \<noteq> []" "hd v \<noteq> CHR ''[''" "hd v \<noteq> CHR ''#''" "hd v \<noteq> CHR '';''" "lacks ''=:'' v" "uncommented False v"
      using i Cont word [of v] by auto
    have s: "rstrip (item_text i) = ''  '' @ v" "lskip (''  '' @ v) = v"
      using w(1,2) Cont trimmed_strip(2) [OF w(1)] by (simp_all add: rstrip_last trimmed_def) (simp add: lskip_def)
    show ?thesis
      unfolding parts [OF nb strip [unfolded s(1)] s(2)]
      using find_uncommented [OF w(7)] w option_line_bad [OF w(6)] Cont trimmed_strip(1) [OF w(1)] by simp
  next
    case (Remark c)
    have r: "rstrip (item_text i) = CHR ''#'' # rstrip c"
      by (simp add: Remark rstrip_def dropWhile_append3)
    have "lskip (CHR ''#'' # rstrip c) = CHR ''#'' # rstrip c" by (simp add: lskip_hd)
    from parts [OF nb strip [unfolded r] this] show ?thesis using Remark by simp
  next
    case Blank
    then show ?thesis using parts [OF nb strip refl] by simp
  next
    case (Junk j)
    have w: "trimmed j" "j \<noteq> []" "hd j \<noteq> CHR ''[''" "hd j \<noteq> CHR ''#''" "hd j \<noteq> CHR '';''" "lacks ''=:'' j"
      using i Junk word [of j] by auto
    have "rstrip (item_text i) = j" "lskip j = j" using Junk trimmed_strip [OF w(1)] by simp_all
    then show ?thesis using parts [OF nb strip] w option_line_bad [OF w(6)] Junk by simp
  qed
qed

section \<open>Whole files\<close>

definition bind_all :: "(string \<times> string \<times> string) list \<Rightarrow> INIFile \<Rightarrow> INIFile" where
  "bind_all bs r = foldl (\<lambda>r (a, n, v). ValueHandler a n v r) r bs"

lemma bind_all_simps [simp]:
  "bind_all [] r = r" "bind_all ((a, n, v) # bs) r = bind_all bs (ValueHandler a n v r)"
  by (simp_all add: bind_all_def)

lemma fold_items:
  assumes "\<forall>i\<in>set is. item_ok i"
  shows "user (fold (\<lambda>i. ini_line (item_text i @ [newline])) is s) = bind_all (bindings (st_section s) (prev_name s) is) (user s)
    \<and> st_error (fold (\<lambda>i. ini_line (item_text i @ [newline])) is s) =
      (if st_error s = 0 then error_line (Suc (lineno s)) (prev_name s) is else st_error s)"
  using assms
proof (induction "is" arbitrary: s)
  case (Cons i "is")
  have "ini_line (item_text i @ [newline]) s = item_step i (s\<lparr>lineno := Suc (lineno s)\<rparr>)"
    using Cons.prems by (simp add: ini_line_item)
  moreover have "\<forall>i\<in>set is. item_ok i" using Cons.prems by simp
  note Cons.IH [OF this, of "item_step i (s\<lparr>lineno := Suc (lineno s)\<rparr>)"]
  ultimately show ?case
    unfolding fold_simps comp_apply by (cases i) (simp_all add: call_handler_def note_error_def)
qed simp

lemma parse_printed:
  assumes "\<forall>i\<in>set is. item_ok i"
  shows "ini_parse (Some (print_ini is)) =
    (bind_all (bindings [] [] is) (user ini_start))\<lparr>parse_error := int (error_line 1 [] is)\<rparr>"
proof -
  have "c_str (item_text i @ [newline]) = item_text i @ [newline]" if "i \<in> set is" for i
    using assms item_text_clean c_str_clean that by blast
  then have "ini_parse_stream (print_ini is) = fold (\<lambda>i. ini_line (item_text i @ [newline])) is ini_start"
    by (simp add: ini_parse_stream_def ini_lines_print [OF assms] fold_map comp_def cong: fold_cong)
  then show ?thesis
    using fold_items [OF assms, of ini_start] by (simp add: ini_parse_def Let_def ini_start_def)
qed

lemma values_for_simps [simp]:
  "values_for k [] = []"
  "values_for k ((a, n, v) # bs) = (if MakeKey a n = k then v # values_for k bs else values_for k bs)"
  by (simp_all add: values_for_def)

lemma bind_all_values:
  "ini_values (bind_all bs r) k =
     (if values_for k bs = [] then ini_values r k
      else Some (foldl append_value (case ini_values r k of None \<Rightarrow> [] | Some v \<Rightarrow> v) (values_for k bs)))"
proof (induction bs arbitrary: r)
  case (Cons b bs)
  obtain a n v where "b = (a, n, v)" by (cases b)
  then show ?case by (auto simp: Cons ValueHandler_def Let_def)
qed simp

lemma bind_all_sections: "ini_sections (bind_all bs r) = ini_sections r \<union> fst ` set bs"
  by (induction bs arbitrary: r) (force simp: ValueHandler_def Let_def)+

lemma append_values: "foldl append_value [] vs = joined vs"
proof (induction vs)
  case (Cons v vs)
  have "w \<noteq> [] \<Longrightarrow> foldl append_value w ws = w @ concat (map (\<lambda>v. newline # v) ws)" for w ws
    by (induction ws arbitrary: w) (simp_all add: append_value_def)
  moreover have "append_value [] v = v" by (simp add: append_value_def)
  ultimately show ?case using Cons by (cases "v = []") (simp_all add: joined_def)
qed (simp add: joined_def)

lemma joined_single: "joined [v] = v"
  by (simp add: joined_def)

lemma Get_printed:
  assumes "\<forall>i\<in>set is. item_ok i"
  shows "ini_Get (ini_parse (Some (print_ini is))) sec name dflt =
    (let vs = values_for (MakeKey sec name) (bindings [] [] is) in if vs = [] then dflt else joined vs)"
  by (simp add: parse_printed [OF assms] ini_Get_def bind_all_values ini_start_def append_values Let_def)

section \<open>Printed numbers\<close>

lemma char_digit_printed [simp]:
  assumes "d < 10"
  shows "char_digit (digit_char d) = int d"
proof -
  have "(of_char (digit_char d) :: int) = 48 + int d"
    using of_nat_of_char [of "digit_char d", where ?'a = int] of_char_digit [OF assms] by linarith
  then show ?thesis using assms by (simp add: char_digit_def)
qed

lemma nat_to_string_hd: "0 < n \<Longrightarrow> hd (nat_to_string n) \<noteq> CHR ''0''"
proof (induction n rule: nat_to_string.induct)
  case (1 n)
  show ?case
  proof (cases "n < 10")
    case True
    have "(of_char (digit_char n) :: nat) \<noteq> of_char (CHR ''0'')" using True 1 by (simp add: of_char_digit)
    then show ?thesis using True by (subst nat_to_string.simps) auto
  next
    case False
    then show ?thesis using 1 by (subst nat_to_string.simps) auto
  qed
qed

lemma foldl_digits:
  "\<forall>c\<in>set ds. \<exists>d<10. c = digit_char d \<Longrightarrow> foldl (\<lambda>v c. 10 * v + char_digit c) (int k) ds = int (foldl (\<lambda>v c. 10 * v + digit_val c) k ds)"
proof (induction ds arbitrary: k)
  case (Cons c ds)
  then obtain d where d: "d < 10" "c = digit_char d" by auto
  then have "10 * int k + char_digit c = int (10 * k + digit_val c)" by simp
  then show ?case using Cons.IH [of "10 * k + digit_val c"] Cons.prems by simp
qed simp

lemma strtol_nat: "strtol_unsigned sign (nat_to_string n) = Some (clamp_long (sign * int n))"
proof (cases "n = 0")
  case True
  moreover have "digit_char 0 = CHR ''0''" by code_simp
  ultimately have "nat_to_string n = ''0''" by (simp add: nat_to_string.simps)
  then show ?thesis using True by (simp add: strtol_unsigned_def strtol_base_def char_digit_def)
next
  case False
  have base: "strtol_base (nat_to_string n) = (10, nat_to_string n)"
    using nat_to_string_hd [of n] False by (auto simp: strtol_base_def split: list.splits)
  have "\<forall>c\<in>set (nat_to_string n). char_digit c < 10" using nat_to_string_digits [of n] by auto
  then have all: "takeWhile (\<lambda>c. char_digit c < 10) (nat_to_string n) = nat_to_string n" by (simp add: takeWhile_eq_all_conv)
  have "foldl (\<lambda>v c. 10 * v + char_digit c) 0 (nat_to_string n) = int n"
    using foldl_digits [OF nat_to_string_digits, of 0 n] digits_val_nat_to_string [of n] by (simp add: digits_val_def)
  then show ?thesis by (simp add: strtol_unsigned_def base Let_def all)
qed

lemma strtol_printed: "strtol0 (to_string i) = Some (clamp_long i)"
proof (cases "i < 0")
  case True
  then show ?thesis using strtol_nat [of "- 1" "nat (- i)"] by (simp add: strtol0_def to_string_def is_space_def)
next
  case False
  obtain c cs where c: "nat_to_string (nat i) = c # cs" by (cases "nat_to_string (nat i)") auto
  obtain d where "d < 10" "c = digit_char d" using nat_to_string_digits [of "nat i"] by (auto simp: c)
  then have "\<not> is_space c" "c \<noteq> CHR ''-''" "c \<noteq> CHR ''+''" by simp_all
  then show ?thesis using False strtol_nat [of 1 "nat i"] by (simp add: strtol0_def to_string_def c)
qed

lemma clamp_id: "- (2 ^ 63) \<le> i \<Longrightarrow> i < 2 ^ 63 \<Longrightarrow> clamp_long i = i"
  by (simp add: clamp_long_def)

end
