(* ===== verification/Ini_Config.thy ===== *)
theory Ini_Config
  imports DS_HMC_Setup Ini_Correct
begin

text \<open>
  The configuration read from the text of a file: the constructor of \<open>Config\<close>
  (\<open>DRAMsim3-master/src/configuration.cc\<close>) on the reader of \<open>Ini_Reader\<close>. The files
  \<open>configs/HBM2_4Gb_x128.ini\<close> and \<open>configs/HMC_2GB_4Lx16.ini\<close> are given line by line; the
  tables of options that the other theories use hold exactly what the reader finds in them.
\<close>

section \<open>The constructor\<close>

definition reader_of :: "INIFile \<Rightarrow> INIReader" where
  "reader_of f = \<lparr>rd_Get = ini_Get f, rd_GetInteger = ini_GetInteger f, rd_GetBoolean = ini_GetBoolean f\<rparr>"

definition load_Config :: "string option \<Rightarrow> Config \<Rightarrow> Config run" where
  "load_Config file c0 =
     (let r = ini_parse file in if parse_error r < 0 then raise AbruptExit else new_Config (reader_of r) c0)"

section \<open>What the constructor asks for\<close>

definition int_queries :: "(string \<times> string \<times> int) list" where
  "int_queries =
     [
      (''dram_structure'', ''bankgroups'', 2), (''dram_structure'', ''banks_per_group'', 2),
      (''dram_structure'', ''rows'', 2 ^ 16), (''dram_structure'', ''columns'', 2 ^ 10),
      (''dram_structure'', ''device_width'', 8), (''dram_structure'', ''BL'', 8),
      (''dram_structure'', ''num_dies'', 1), (''hmc'', ''num_links'', 4), (''hmc'', ''link_width'', 16),
      (''hmc'', ''link_speed'', 15000), (''hmc'', ''block_size'', 64), (''hmc'', ''xbar_queue_depth'', 16),
      (''other'', ''epoch_period'', 100000), (''other'', ''output_level'', 1),
      (''system'', ''channel_size'', 1024), (''system'', ''channels'', 1), (''system'', ''bus_width'', 64),
      (''system'', ''cmd_queue_size'', 16), (''system'', ''trans_queue_size'', 32),
      (''system'', ''write_buf_size'', 16), (''system'', ''sref_threshold'', 1000), (''timing'', ''AL'', 0),
      (''timing'', ''CL'', 12), (''timing'', ''CWL'', 12), (''timing'', ''tCCD_L'', 6),
      (''timing'', ''tCCD_S'', 4), (''timing'', ''tRTRS'', 2), (''timing'', ''tRTP'', 5),
      (''timing'', ''tWTR_L'', 5), (''timing'', ''tWTR_S'', 5), (''timing'', ''tWR'', 10),
      (''timing'', ''tRP'', 10), (''timing'', ''tRRD_L'', 4), (''timing'', ''tRRD_S'', 4),
      (''timing'', ''tRAS'', 24), (''timing'', ''tRCD'', 10), (''timing'', ''tRFC'', 74),
      (''timing'', ''tCKE'', 6), (''timing'', ''tCKESR'', 12), (''timing'', ''tXS'', 432),
      (''timing'', ''tXP'', 8), (''timing'', ''tRFCb'', 20), (''timing'', ''tREFI'', 7800),
      (''timing'', ''tREFIb'', 1950), (''timing'', ''tFAW'', 50), (''timing'', ''tRPRE'', 1),
      (''timing'', ''tWPRE'', 1), (''timing'', ''tPPD'', 0), (''timing'', ''t32AW'', 330),
      (''timing'', ''tRCDRD'', 24), (''timing'', ''tRCDWR'', 20), (''timing'', ''ideal_memory_latency'', 10)]"

definition string_queries :: "(string \<times> string \<times> string) list" where
  "string_queries =
     [
      (''dram_structure'', ''protocol'', ''DDR3''), (''system'', ''address_mapping'', ''chrobabgraco''),
      (''system'', ''queue_structure'', ''PER_BANK''), (''system'', ''row_buf_policy'', ''OPEN_PAGE''),
      (''system'', ''refresh_policy'', ''RANK_LEVEL_STAGGERED'')]"

definition bool_queries :: "(string \<times> string \<times> bool) list" where
  "bool_queries =
     [
      (''dram_structure'', ''bankgroup_enable'', True), (''dram_structure'', ''hbm_dual_cmd'', True),
      (''system'', ''unified_queue'', False), (''system'', ''enable_self_refresh'', False),
      (''system'', ''aggressive_precharging_enabled'', False)]"

definition readers_agree :: "INIReader \<Rightarrow> INIReader \<Rightarrow> bool" where
  "readers_agree r q \<longleftrightarrow>
     list_all (\<lambda>(s, n, d). rd_GetInteger r s n d = rd_GetInteger q s n d) int_queries \<and>
     list_all (\<lambda>(s, n, d). rd_Get r s n d = rd_Get q s n d) string_queries \<and>
     list_all (\<lambda>(s, n, d). rd_GetBoolean r s n d = rd_GetBoolean q s n d) bool_queries"

lemma new_Config_agree:
  assumes "readers_agree r q"
  shows "new_Config r c = new_Config q c"
proof -
  note a = assms [unfolded readers_agree_def int_queries_def string_queries_def bool_queries_def list.pred_inject prod.case]
  have "InitSystemParams r = InitSystemParams q" "InitDRAMParams r = InitDRAMParams q" "InitOtherParams r = InitOtherParams q"
    by (rule ext, simp only: a InitSystemParams_def InitDRAMParams_def InitOtherParams_def cfg_GetInteger_def)+
  moreover have "InitTimingParams r = InitTimingParams q"
    by (rule ext) (simp only: a InitTimingParams_def cfg_GetInteger_def Let_def)
  ultimately show ?thesis by (simp add: new_Config_def)
qed

text \<open>A file as the list of its keys and values; the lookups search it.\<close>

fun lookup_all :: "string \<Rightarrow> (string \<times> string) list \<Rightarrow> string list" where
  "lookup_all key [] = []"
| "lookup_all key ((k, v) # ps) = (if k = key then v # lookup_all key ps else lookup_all key ps)"

definition pairs_get :: "(string \<times> string) list \<Rightarrow> string \<Rightarrow> string \<Rightarrow> string \<Rightarrow> string" where
  "pairs_get ps sec name dflt =
     (case lookup_all (MakeKey sec name) ps of [] \<Rightarrow> dflt | vs \<Rightarrow> joined vs)"

definition pairs_reader :: "(string \<times> string) list \<Rightarrow> INIReader" where
  "pairs_reader ps =
     \<lparr>rd_Get = pairs_get ps,
      rd_GetInteger = (\<lambda>s n d. case strtol0 (pairs_get ps s n []) of None \<Rightarrow> d | Some i \<Rightarrow> i),
      rd_GetBoolean = (\<lambda>s n d. let v = map to_lower (pairs_get ps s n [])
        in if v \<in> set [''true'', ''yes'', ''on'', ''1''] then True
           else if v \<in> set [''false'', ''no'', ''off'', ''0''] then False else d)\<rparr>"

lemma reader_of_pairs:
  assumes "\<forall>i\<in>set is. item_ok i" "map (\<lambda>(a, n, v). (MakeKey a n, v)) (bindings [] [] is) = ps"
  shows "reader_of (ini_parse (Some (print_ini is))) = pairs_reader ps"
proof -
  have "lookup_all k (map (\<lambda>(a, n, v). (MakeKey a n, v)) bs) = values_for k bs" for k bs
    by (induction bs) auto
  then have "values_for k (bindings [] [] is) = lookup_all k ps" for k using assms(2) by metis
  then have "ini_Get (ini_parse (Some (print_ini is))) = pairs_get ps"
    by (intro ext) (simp add: Get_printed [OF assms(1)] pairs_get_def Let_def split: list.split)
  then show ?thesis
    by (auto simp: reader_of_def pairs_reader_def ini_GetInteger_def ini_GetBoolean_def fun_eq_iff)
qed

lemma load_printed:
  assumes "\<forall>i\<in>set is. item_ok i" "map (\<lambda>(a, n, v). (MakeKey a n, v)) (bindings [] [] is) = ps"
    "readers_agree (pairs_reader ps) r"
  shows "load_Config (Some (print_ini is)) c = new_Config r c"
  using new_Config_agree [OF assms(3)] reader_of_pairs [OF assms(1,2)]
  by (simp add: load_Config_def parse_printed [OF assms(1)] Let_def)

section \<open>The file of the program\<close>

definition HBM2_4Gb_x128_ini :: string where
  "HBM2_4Gb_x128_ini = concat (map (\<lambda>l. l @ [newline])
     [
      ''[dram_structure]'', ''protocol = HBM'', ''bankgroups = 4'', ''banks_per_group = 4'',
      ''rows = 16384'', ''columns = 64'', ''device_width = 128'', ''BL = 4'', ''num_dies = 4'', [],
      ''[timing]'', ''tCK = 1'', ''CL = 14'', ''CWL = 4'', ''tRCDRD = 14'', ''tRCDWR = 14'', ''tRP = 14'',
      ''tRAS = 34'', ''tRFC = 260'', ''tREFI = 3900'', ''tREFIb = 128'', ''tRPRE = 1'', ''tWPRE = 1'',
      ''tRRD_S = 4'', ''tRRD_L = 6'', ''tWTR_S = 6'', ''tWTR_L = 8'', ''tFAW = 30'', ''tWR = 16'',
      ''tCCD_S = 1'', ''tCCD_L = 2'', ''tXS = 268'', ''tCKE = 8'', ''tCKSRE = 10'', ''tXP = 8'',
      ''tRTP_L = 6'', ''tRTP_S = 4'', [], ''[power]'', ''VDD = 1.2'', ''IDD0 = 65'', ''IDD2P = 28'',
      ''IDD2N = 40'', ''IDD3P = 40'', ''IDD3N = 55'', ''IDD4W = 500'', ''IDD4R = 390'', ''IDD5AB = 250'',
      ''IDD6x = 31'', [], ''[system]'', ''channel_size = 512'', ''channels = 8'', ''bus_width = 128'',
      ''address_mapping = rorabgbacoch'', ''queue_structure = PER_BANK'', ''row_buf_policy = OPEN_PAGE'',
      ''cmd_queue_size = 8'', ''trans_queue_size = 32'', ''unified_queue = False'', [], ''[other]'',
      ''epoch_period = 1000000'', ''output_level = 1'', []])"

definition HBM2_4Gb_x128_items :: "ini_item list" where
  "HBM2_4Gb_x128_items =
     [
      Sec ''dram_structure'', Opt ''protocol'' ''HBM'', Opt ''bankgroups'' ''4'',
      Opt ''banks_per_group'' ''4'', Opt ''rows'' ''16384'', Opt ''columns'' ''64'',
      Opt ''device_width'' ''128'', Opt ''BL'' ''4'', Opt ''num_dies'' ''4'', Blank, Sec ''timing'',
      Opt ''tCK'' ''1'', Opt ''CL'' ''14'', Opt ''CWL'' ''4'', Opt ''tRCDRD'' ''14'', Opt ''tRCDWR'' ''14'',
      Opt ''tRP'' ''14'', Opt ''tRAS'' ''34'', Opt ''tRFC'' ''260'', Opt ''tREFI'' ''3900'',
      Opt ''tREFIb'' ''128'', Opt ''tRPRE'' ''1'', Opt ''tWPRE'' ''1'', Opt ''tRRD_S'' ''4'',
      Opt ''tRRD_L'' ''6'', Opt ''tWTR_S'' ''6'', Opt ''tWTR_L'' ''8'', Opt ''tFAW'' ''30'',
      Opt ''tWR'' ''16'', Opt ''tCCD_S'' ''1'', Opt ''tCCD_L'' ''2'', Opt ''tXS'' ''268'',
      Opt ''tCKE'' ''8'', Opt ''tCKSRE'' ''10'', Opt ''tXP'' ''8'', Opt ''tRTP_L'' ''6'',
      Opt ''tRTP_S'' ''4'', Blank, Sec ''power'', Opt ''VDD'' ''1.2'', Opt ''IDD0'' ''65'',
      Opt ''IDD2P'' ''28'', Opt ''IDD2N'' ''40'', Opt ''IDD3P'' ''40'', Opt ''IDD3N'' ''55'',
      Opt ''IDD4W'' ''500'', Opt ''IDD4R'' ''390'', Opt ''IDD5AB'' ''250'', Opt ''IDD6x'' ''31'', Blank,
      Sec ''system'', Opt ''channel_size'' ''512'', Opt ''channels'' ''8'', Opt ''bus_width'' ''128'',
      Opt ''address_mapping'' ''rorabgbacoch'', Opt ''queue_structure'' ''PER_BANK'',
      Opt ''row_buf_policy'' ''OPEN_PAGE'', Opt ''cmd_queue_size'' ''8'', Opt ''trans_queue_size'' ''32'',
      Opt ''unified_queue'' ''False'', Blank, Sec ''other'', Opt ''epoch_period'' ''1000000'',
      Opt ''output_level'' ''1'', Blank]"

definition HBM2_4Gb_x128_pairs :: "(string \<times> string) list" where
  "HBM2_4Gb_x128_pairs =
     [
      (''dram_structure=protocol'', ''HBM''), (''dram_structure=bankgroups'', ''4''),
      (''dram_structure=banks_per_group'', ''4''), (''dram_structure=rows'', ''16384''),
      (''dram_structure=columns'', ''64''), (''dram_structure=device_width'', ''128''),
      (''dram_structure=bl'', ''4''), (''dram_structure=num_dies'', ''4''), (''timing=tck'', ''1''),
      (''timing=cl'', ''14''), (''timing=cwl'', ''4''), (''timing=trcdrd'', ''14''),
      (''timing=trcdwr'', ''14''), (''timing=trp'', ''14''), (''timing=tras'', ''34''),
      (''timing=trfc'', ''260''), (''timing=trefi'', ''3900''), (''timing=trefib'', ''128''),
      (''timing=trpre'', ''1''), (''timing=twpre'', ''1''), (''timing=trrd_s'', ''4''),
      (''timing=trrd_l'', ''6''), (''timing=twtr_s'', ''6''), (''timing=twtr_l'', ''8''),
      (''timing=tfaw'', ''30''), (''timing=twr'', ''16''), (''timing=tccd_s'', ''1''),
      (''timing=tccd_l'', ''2''), (''timing=txs'', ''268''), (''timing=tcke'', ''8''),
      (''timing=tcksre'', ''10''), (''timing=txp'', ''8''), (''timing=trtp_l'', ''6''),
      (''timing=trtp_s'', ''4''), (''power=vdd'', ''1.2''), (''power=idd0'', ''65''),
      (''power=idd2p'', ''28''), (''power=idd2n'', ''40''), (''power=idd3p'', ''40''),
      (''power=idd3n'', ''55''), (''power=idd4w'', ''500''), (''power=idd4r'', ''390''),
      (''power=idd5ab'', ''250''), (''power=idd6x'', ''31''), (''system=channel_size'', ''512''),
      (''system=channels'', ''8''), (''system=bus_width'', ''128''),
      (''system=address_mapping'', ''rorabgbacoch''), (''system=queue_structure'', ''PER_BANK''),
      (''system=row_buf_policy'', ''OPEN_PAGE''), (''system=cmd_queue_size'', ''8''),
      (''system=trans_queue_size'', ''32''), (''system=unified_queue'', ''False''),
      (''other=epoch_period'', ''1000000''), (''other=output_level'', ''1'')]"

lemma hbm_print: "print_ini HBM2_4Gb_x128_items = HBM2_4Gb_x128_ini"
  by (simp add: print_ini_def HBM2_4Gb_x128_items_def HBM2_4Gb_x128_ini_def)

lemma hbm_items_ok: "\<forall>i\<in>set HBM2_4Gb_x128_items. item_ok i"
  by code_simp

lemma hbm_pairs: "map (\<lambda>(a, n, v). (MakeKey a n, v)) (bindings [] [] HBM2_4Gb_x128_items) = HBM2_4Gb_x128_pairs"
  by code_simp

lemma hbm_agree: "readers_agree (pairs_reader HBM2_4Gb_x128_pairs) HBM2_4Gb_x128"
  by code_simp

lemma load_hbm: "load_Config (Some HBM2_4Gb_x128_ini) c = new_Config HBM2_4Gb_x128 c"
  using load_printed [OF hbm_items_ok hbm_pairs hbm_agree] by (simp add: hbm_print)

section \<open>The HMC file\<close>

definition HMC_2GB_4Lx16_ini :: string where
  "HMC_2GB_4Lx16_ini = concat (map (\<lambda>l. l @ [newline])
     [
      ''[hmc]'', ''num_links = 4'', ''link_width = 16'', ''link_speed = 10000'', ''block_size = 64'',
      ''xbar_queue_depth = 6'', [], ''[dram_structure]'', ''protocol = HMC'', ''bankgroups = 1'',
      ''banks_per_group = 8'', ''rows = 65536'', ''columns = 64'', ''device_width = 32'', ''num_dies = 4'',
      [], ''[timing]'', ''tCK = 0.8'', ''CL = 17'', ''CWL = 17'', ''tRCD = 17'', ''tRP = 17'', ''tRAS = 34'',
      ''tRFC = 420'', ''tREFI = 9364; average periodic refresh interval, 3.9us'', ''tRRD_S = 4'',
      ''tRRD_L = 4'', ''tWTR_S = 3'', ''tWTR_L = 3'', ''tFAW = 27'', ''tWR = 17'', ''tCCD_S = 6'',
      ''tCCD_L = 6'', ''tXS = 12'', ''tCKSRE = 1'', ''tXP = 8'', ''tRTP_L = 8'', ''tRTP_S = 8'',
      ''tRTRS = 0'', [], ''[power]'', ''VDD = 1.2'', ''IDD0 = 25'', ''IDD2P = 17'', ''IDD2N = 19'',
      ''IDD3P = 20'', ''IDD3N = 21'', ''IDD4W = 61'', ''IDD4R = 64'', ''IDD5AB = 150'', ''IDD6x = 21'', [],
      ''[system]'', ''channel_size = 128'', ''channels = 16'', ''bus_width = 32'',
      ''address_mapping = rocorabgbach'', ''queue_structure = PER_BANK'', ''row_buf_policy = CLOSE_PAGE'',
      ''cmd_queue_size = 8'', ''trans_queue_size = 32'', ''unified_queue = True'', [], ''[other]'',
      ''epoch_period = 1250000'', ''output_level = 1'', [], ''[thermal]'',
      ''power_epoch_period = 10000; power epoch period (# cycle)'',
      ''chip_dim_x = 0.008; chip size in x dimension [m]'',
      ''chip_dim_y = 0.008; chip size in y dimension [m]'',
      ''amb_temp = 40; The ambient temperature in [C]'', ''mat_dim_x = 512;'', ''mat_dim_y = 512;'',
      ''bank_order = 1; 0: x direction first, 1: y direction first'', ''bank_layer_order = 0;'', []])"

definition HMC_2GB_4Lx16_items :: "ini_item list" where
  "HMC_2GB_4Lx16_items =
     [
      Sec ''hmc'', Opt ''num_links'' ''4'', Opt ''link_width'' ''16'', Opt ''link_speed'' ''10000'',
      Opt ''block_size'' ''64'', Opt ''xbar_queue_depth'' ''6'', Blank, Sec ''dram_structure'',
      Opt ''protocol'' ''HMC'', Opt ''bankgroups'' ''1'', Opt ''banks_per_group'' ''8'',
      Opt ''rows'' ''65536'', Opt ''columns'' ''64'', Opt ''device_width'' ''32'', Opt ''num_dies'' ''4'',
      Blank, Sec ''timing'', Opt ''tCK'' ''0.8'', Opt ''CL'' ''17'', Opt ''CWL'' ''17'', Opt ''tRCD'' ''17'',
      Opt ''tRP'' ''17'', Opt ''tRAS'' ''34'', Opt ''tRFC'' ''420'',
      Opt ''tREFI'' ''9364; average periodic refresh interval, 3.9us'', Opt ''tRRD_S'' ''4'',
      Opt ''tRRD_L'' ''4'', Opt ''tWTR_S'' ''3'', Opt ''tWTR_L'' ''3'', Opt ''tFAW'' ''27'',
      Opt ''tWR'' ''17'', Opt ''tCCD_S'' ''6'', Opt ''tCCD_L'' ''6'', Opt ''tXS'' ''12'',
      Opt ''tCKSRE'' ''1'', Opt ''tXP'' ''8'', Opt ''tRTP_L'' ''8'', Opt ''tRTP_S'' ''8'',
      Opt ''tRTRS'' ''0'', Blank, Sec ''power'', Opt ''VDD'' ''1.2'', Opt ''IDD0'' ''25'',
      Opt ''IDD2P'' ''17'', Opt ''IDD2N'' ''19'', Opt ''IDD3P'' ''20'', Opt ''IDD3N'' ''21'',
      Opt ''IDD4W'' ''61'', Opt ''IDD4R'' ''64'', Opt ''IDD5AB'' ''150'', Opt ''IDD6x'' ''21'', Blank,
      Sec ''system'', Opt ''channel_size'' ''128'', Opt ''channels'' ''16'', Opt ''bus_width'' ''32'',
      Opt ''address_mapping'' ''rocorabgbach'', Opt ''queue_structure'' ''PER_BANK'',
      Opt ''row_buf_policy'' ''CLOSE_PAGE'', Opt ''cmd_queue_size'' ''8'', Opt ''trans_queue_size'' ''32'',
      Opt ''unified_queue'' ''True'', Blank, Sec ''other'', Opt ''epoch_period'' ''1250000'',
      Opt ''output_level'' ''1'', Blank, Sec ''thermal'',
      Opt ''power_epoch_period'' ''10000; power epoch period (# cycle)'',
      Opt ''chip_dim_x'' ''0.008; chip size in x dimension [m]'',
      Opt ''chip_dim_y'' ''0.008; chip size in y dimension [m]'',
      Opt ''amb_temp'' ''40; The ambient temperature in [C]'', Opt ''mat_dim_x'' ''512;'',
      Opt ''mat_dim_y'' ''512;'', Opt ''bank_order'' ''1; 0: x direction first, 1: y direction first'',
      Opt ''bank_layer_order'' ''0;'', Blank]"

definition HMC_2GB_4Lx16_pairs :: "(string \<times> string) list" where
  "HMC_2GB_4Lx16_pairs =
     [
      (''hmc=num_links'', ''4''), (''hmc=link_width'', ''16''), (''hmc=link_speed'', ''10000''),
      (''hmc=block_size'', ''64''), (''hmc=xbar_queue_depth'', ''6''),
      (''dram_structure=protocol'', ''HMC''), (''dram_structure=bankgroups'', ''1''),
      (''dram_structure=banks_per_group'', ''8''), (''dram_structure=rows'', ''65536''),
      (''dram_structure=columns'', ''64''), (''dram_structure=device_width'', ''32''),
      (''dram_structure=num_dies'', ''4''), (''timing=tck'', ''0.8''), (''timing=cl'', ''17''),
      (''timing=cwl'', ''17''), (''timing=trcd'', ''17''), (''timing=trp'', ''17''),
      (''timing=tras'', ''34''), (''timing=trfc'', ''420''),
      (''timing=trefi'', ''9364; average periodic refresh interval, 3.9us''), (''timing=trrd_s'', ''4''),
      (''timing=trrd_l'', ''4''), (''timing=twtr_s'', ''3''), (''timing=twtr_l'', ''3''),
      (''timing=tfaw'', ''27''), (''timing=twr'', ''17''), (''timing=tccd_s'', ''6''),
      (''timing=tccd_l'', ''6''), (''timing=txs'', ''12''), (''timing=tcksre'', ''1''),
      (''timing=txp'', ''8''), (''timing=trtp_l'', ''8''), (''timing=trtp_s'', ''8''),
      (''timing=trtrs'', ''0''), (''power=vdd'', ''1.2''), (''power=idd0'', ''25''),
      (''power=idd2p'', ''17''), (''power=idd2n'', ''19''), (''power=idd3p'', ''20''),
      (''power=idd3n'', ''21''), (''power=idd4w'', ''61''), (''power=idd4r'', ''64''),
      (''power=idd5ab'', ''150''), (''power=idd6x'', ''21''), (''system=channel_size'', ''128''),
      (''system=channels'', ''16''), (''system=bus_width'', ''32''),
      (''system=address_mapping'', ''rocorabgbach''), (''system=queue_structure'', ''PER_BANK''),
      (''system=row_buf_policy'', ''CLOSE_PAGE''), (''system=cmd_queue_size'', ''8''),
      (''system=trans_queue_size'', ''32''), (''system=unified_queue'', ''True''),
      (''other=epoch_period'', ''1250000''), (''other=output_level'', ''1''),
      (''thermal=power_epoch_period'', ''10000; power epoch period (# cycle)''),
      (''thermal=chip_dim_x'', ''0.008; chip size in x dimension [m]''),
      (''thermal=chip_dim_y'', ''0.008; chip size in y dimension [m]''),
      (''thermal=amb_temp'', ''40; The ambient temperature in [C]''), (''thermal=mat_dim_x'', ''512;''),
      (''thermal=mat_dim_y'', ''512;''),
      (''thermal=bank_order'', ''1; 0: x direction first, 1: y direction first''),
      (''thermal=bank_layer_order'', ''0;'')]"

lemma hmc_print: "print_ini HMC_2GB_4Lx16_items = HMC_2GB_4Lx16_ini"
  by (simp add: print_ini_def HMC_2GB_4Lx16_items_def HMC_2GB_4Lx16_ini_def)

lemma hmc_items_ok: "\<forall>i\<in>set HMC_2GB_4Lx16_items. item_ok i"
  by code_simp

lemma hmc_pairs: "map (\<lambda>(a, n, v). (MakeKey a n, v)) (bindings [] [] HMC_2GB_4Lx16_items) = HMC_2GB_4Lx16_pairs"
  by code_simp

lemma hmc_agree: "readers_agree (pairs_reader HMC_2GB_4Lx16_pairs) HMC_2GB_4Lx16"
  by code_simp

lemma load_hmc: "load_Config (Some HMC_2GB_4Lx16_ini) c = new_Config HMC_2GB_4Lx16 c"
  using load_printed [OF hmc_items_ok hmc_pairs hmc_agree] by (simp add: hmc_print)

end
