(* ===== verification/Main_Program.thy ===== *)
theory Main_Program
  imports Main_Setup Ini_Config
begin

text \<open>
  The program of the repository: the components of \<open>Main_System\<close> on the JEDEC memory system
  with the configuration \<open>HBM2_4Gb_x128.ini\<close>. The interpretation discharges the laws of
  \<open>program_memory\<close> for it, and the properties follow from the lemmas of that locale.
\<close>

unbundle bit_operations_syntax

lemma hbm_channel: "hbm_facts cfg \<Longrightarrow> ds_GetChannel cfg a = uint (drop_bit 6 a AND 7)"
proof -
  assume "hbm_facts cfg"
  moreover have "uint (drop_bit 6 a AND 7) \<le> 7"
    using AND_upper2 [of 7 "uint (drop_bit 6 a)"] by (simp add: uint_and)
  ultimately show ?thesis by (simp add: hbm_facts_def ds_GetChannel_def to_int32_id)
qed

interpretation hbm: program_memory "jedec_ops cfg tm" "\<lambda>m. js_ok cfg m \<and> hbm_facts cfg" "js_pend cfg"
    "ds_GetChannel cfg" "to_size_t (trans_queue_size cfg)" for cfg tm
proof unfold_locales
  fix m a w
  assume m: "js_ok cfg m \<and> hbm_facts cfg"
  then show "10 < to_size_t (trans_queue_size cfg)" by (simp add: hbm_facts_def)
  show "ds_GetChannel cfg a = uint (drop_bit 6 a AND 7)" using m by (simp add: hbm_channel)
  show "ms_GetChannel (jedec_ops cfg tm) a m = ds_GetChannel cfg a" using m jedec.get_chan by blast
  show "ms_WillAcceptTransaction (jedec_ops cfg tm) a False m"
    if "size {#t \<in># js_pend cfg m. ds_GetChannel cfg (fst t) = ds_GetChannel cfg a#} < to_size_t (trans_queue_size cfg)"
    using m that jedec.will_accept by blast
  show "\<exists>m'. ms_AddTransaction (jedec_ops cfg tm) a w m = ret (True, m') \<and> (js_ok cfg m' \<and> hbm_facts cfg) \<and>
      js_pend cfg m' = add_mset (a, w) (js_pend cfg m)" if "ms_WillAcceptTransaction (jedec_ops cfg tm) a w m"
    using m that jedec.add_trans by blast
  show "\<exists>ts m'. ms_ClockTick (jedec_ops cfg tm) m = ret (ts, m') \<and> (js_ok cfg m' \<and> hbm_facts cfg) \<and>
      js_pend cfg m = mset ts + js_pend cfg m'"
    using m jedec.clock_tick by blast
qed

text \<open>The same components on the ideal memory with the same configuration.\<close>

interpretation ideal_hbm: program_memory "ideal_ops cfg" "\<lambda>_. hbm_facts cfg" id_pend "ds_GetChannel cfg" 11 for cfg
proof unfold_locales
  fix m a w
  show "\<exists>ts m'. ms_ClockTick (ideal_ops cfg) m = ret (ts, m') \<and> hbm_facts cfg \<and> id_pend m = mset ts + id_pend m'"
    if "hbm_facts cfg" using that ideal.clock_tick by blast
  show "\<exists>m'. ms_AddTransaction (ideal_ops cfg) a w m = ret (True, m') \<and> hbm_facts cfg \<and>
      id_pend m' = add_mset (a, w) (id_pend m)" if "hbm_facts cfg" "ms_WillAcceptTransaction (ideal_ops cfg) a w m"
    using that ideal.add_trans by blast
qed (use ideal.get_chan ideal.will_accept hbm_channel in \<open>simp_all\<close>)

section \<open>Properties of the program\<close>

text \<open>
  C1. The whole program runs to its end: with the text of the shipped configuration file,
  whatever the uninitialised members hold, the configuration is read, the memory and the objects are
  constructed, all ports are bound and initialised, and the event loop services events up
  to tick 1000 exactly (it never runs out of events before) without an assertion, an
  exception, an index out of range, a use of a dead packet, an unbound port or an abort of
  the memory system; the destructor then empties the queue.
\<close>

theorem program_runs:
  "\<exists>cfg m s. load_Config (Some HBM2_4Gb_x128_ini) c0 = ret cfg \<and> new_JedecDRAMSystem cfg junk = ret m \<and>
     main_run (jedec_ops cfg (new_Timing cfg)) m j = ret s \<and> cur_tick s = 1000 \<and> qhead s = None"
proof -
  obtain cfg m where m: "new_Config HBM2_4Gb_x128 c0 = ret cfg" "hbm_facts cfg" "new_JedecDRAMSystem cfg junk = ret m"
      "js_ok cfg m" "js_pend cfg m = {#}"
    using hbm_memory by blast
  then have "\<exists>s. main_run (jedec_ops cfg (new_Timing cfg)) m j = ret s \<and> cur_tick s = main_limit \<and> qhead s = None"
    using hbm.run_to_limit [of cfg m "new_Timing cfg" j] by blast
  then show ?thesis using m by (auto simp: main_limit_def load_hbm)
qed

text \<open>
  C2. No read is lost or duplicated between the components: when the program ends, the reads
  of every bank and address that the arbiter counts as outstanding are exactly those in its
  input buffers, in the table of the memory channel and in the response queue of the
  channel; those in the channel's table are exactly the ones pending in the memory system,
  and no bank has more than ten.
\<close>

theorem program_conserves_reads:
  assumes "js_ok cfg m" "hbm_facts cfg" "js_pend cfg m = {#}" "main_run (jedec_ops cfg tm) m j = ret s" "valid_bank b"
  shows "(\<forall>x. length (mq_at (outstandingReads (arb s) b) x) =
        (\<Sum>u\<in>{0..<4}. at_addr (pkts s) x (readInBufs (arb s) b u)) +
        length (mq_at (ch_outstandingReads (chans s b)) x) + at_addr (pkts s) x (ch_responseQueue (chans s b))) \<and>
    (\<forall>x. ds_GetChannel cfg x = b \<longrightarrow>
        count (js_pend cfg (mem s)) (x, False) = length (mq_at (ch_outstandingReads (chans s b)) x)) \<and>
    nbrOutstandingReads (arb s) b + length (responseQueue (arb s) b) \<le> 10"
proof -
  have c: "core_ok (\<lambda>m. js_ok cfg m \<and> hbm_facts cfg) (js_pend cfg) (ds_GetChannel cfg) {#} s"
    using hbm.run_to_limit [of cfg m tm j] assms(1-4) by auto
  note bank = core_bank [OF c assms(5)]
  have a: "num_upstreams (arb s) = 4" "buf_size (arb s) = 10"
    using c by (simp_all add: core_ok_def arb_part_def main_num_upstreams_def main_buf_size_def)
  have "length (mq_at (outstandingReads (arb s) b) x) = in_flight (pkts s) (arb s) (chans s b) b x" for x
    using bank(2) by (simp add: flow_ok_def)
  moreover have "count (js_pend cfg (mem s)) (x, False) = length (mq_at (ch_outstandingReads (chans s b)) x)"
    if "ds_GetChannel cfg x = b" for x using c that assms(5) by (simp add: core_ok_def mem_part_def)
  moreover have "nbrOutstandingReads (arb s) b + length (responseQueue (arb s) b) \<le> 10"
    using bank(4) a(2) by (simp add: bank_ok_def)
  ultimately show ?thesis by (simp add: in_flight_def a(1))
qed

theorem program_conserves_reads_witness:
  "\<exists>cfg m s. new_JedecDRAMSystem cfg (\<lambda>_. undefined) = ret m \<and> main_run (jedec_ops cfg (new_Timing cfg)) m undefined = ret s \<and>
     (\<forall>b\<in>{0..7}. nbrOutstandingReads (arb s) b + length (responseQueue (arb s) b) \<le> 10)"
proof -
  obtain cfg m where m: "hbm_facts cfg" "new_JedecDRAMSystem cfg (\<lambda>_. undefined) = ret m" "js_ok cfg m" "js_pend cfg m = {#}"
    using hbm_memory by blast
  then obtain s where s: "main_run (jedec_ops cfg (new_Timing cfg)) m undefined = ret s"
    using hbm.run_to_limit [of cfg m "new_Timing cfg" undefined] by blast
  have "nbrOutstandingReads (arb s) b + length (responseQueue (arb s) b) \<le> 10" if "b \<in> {0..7}" for b
    using that program_conserves_reads [OF m(3,1,4) s, of b] by (simp add: valid_bank_def num_banks_def)
  then show ?thesis using m s by blast
qed

text \<open>
  Binding by name connects every port to the right peer: port \<open>i\<close> of buffer \<open>u\<close> to the
  arbiter's response port for bank \<open>i\<close> and upstream \<open>u\<close>, the arbiter's request port of a bank
  to the channel of that bank, both ways, and no lookup of a name throws.
\<close>

theorem program_ports_bound:
  assumes "new_DramArb jn jq jr main_buf_size main_num_upstreams ae re = ret a"
  shows "\<exists>n. main_bind a main_ports = ret n \<and>
    (\<forall>b\<in>{0..7}. linked n (ArbRequest b) (MemSide b) \<and> (\<forall>u\<in>{0..3}. linked n (UpSide u b) (ArbResponse b u)))"
  using main_bind_linked [of a] new_DramArb_upstreams [OF assms] by blast

theorem program_ports_bound_witness:
  "\<exists>a n. new_DramArb (\<lambda>_. 7) (\<lambda>_ _. True) (\<lambda>_ _. True) main_buf_size main_num_upstreams arb_ev arb_resp_ev = ret a \<and>
     main_bind a main_ports = ret n \<and> linked n (UpSide 3 7) (ArbResponse 7 3)"
proof -
  obtain a where a: "new_DramArb (\<lambda>_. 7) (\<lambda>_ _. True) (\<lambda>_ _. True) main_buf_size main_num_upstreams arb_ev arb_resp_ev = ret a"
    using new_DramArb_ok [of main_num_upstreams main_buf_size arb_ev arb_resp_ev "\<lambda>_. 7" "\<lambda>_ _. True" "\<lambda>_ _. True"]
    by (auto simp: main_num_upstreams_def num_up_def main_buf_size_def arb_ev_def arb_resp_ev_def)
  with program_ports_bound [OF a] show ?thesis by fastforce
qed

end
