(* ===== verification/DS_Timing_Safe.thy ===== *)
theory DS_Timing_Safe
  imports DS_Channel_Inv
begin

text \<open>
  The channel state enforces the timing tables: over any sequence of commands that it
  declared ready and that were then issued, a later command never comes before the delay
  that an earlier one imposed on its bank, and no five activations of a rank fall into one
  activation window.
\<close>

section \<open>The channel as a transition system\<close>

text \<open>
  A command is issued at a clock value when the channel state offers it for a request and
  is then updated with it. Between commands the refresh queue and the idle counters change.
\<close>

type_synonym issued = "64 word \<times> Command"

inductive channel_step :: "Config \<Rightarrow> Timing \<Rightarrow> ChannelState \<Rightarrow> issued list \<Rightarrow> ChannelState \<Rightarrow> bool"
  for cfg :: Config and tm :: Timing where
  issue: "cs_GetReadyCommand cfg cs req clk = ret c \<Longrightarrow> IsValid c \<Longrightarrow>
    UpdateTimingAndStates cfg tm c clk cs = ret cs' \<Longrightarrow> channel_step cfg tm cs [(clk, c)] cs'"
| refresh_rank: "channel_step cfg tm cs [] (RankNeedRefresh r need cs)"
| refresh_bank: "channel_step cfg tm cs [] (BankNeedRefresh r g k need cs)"
| idle: "channel_step cfg tm cs [] (cs\<lparr>rank_idle_cycles := f\<rparr>)"

inductive channel_run :: "Config \<Rightarrow> Timing \<Rightarrow> issued list \<Rightarrow> ChannelState \<Rightarrow> bool" for cfg tm where
  start: "channel_run cfg tm [] new_ChannelState"
| step: "channel_run cfg tm tr cs \<Longrightarrow> channel_step cfg tm cs ev cs' \<Longrightarrow> channel_run cfg tm (tr @ ev) cs'"

inductive_cases channel_stepE: "channel_step cfg tm cs ev cs'"

section \<open>What a command makes others wait for\<close>

text \<open>The delays that command \<open>c\<close> imposes on the bank \<open>(r, g, k)\<close>.\<close>

definition imposed :: "Config \<Rightarrow> Timing \<Rightarrow> Command \<Rightarrow> int \<Rightarrow> int \<Rightarrow> int \<Rightarrow> timing_list" where
  "imposed cfg tm c r g k =
     (if cmd_type c \<in> {REFRESH, SREF_ENTER, SREF_EXIT}
      then if r = c_Rank c \<and> cs_in cfg r g k then same_rank tm (cmd_type c) else []
      else if r = c_Rank c \<and> g = c_Bankgroup c \<and> k = c_Bank c then same_bank tm (cmd_type c)
      else if \<not> cs_in cfg r g k then []
      else if r \<noteq> c_Rank c then other_ranks tm (cmd_type c)
      else if g = c_Bankgroup c then other_banks_same_bankgroup tm (cmd_type c)
      else other_bankgroups_same_rank tm (cmd_type c))"

text \<open>The banks a command goes to; a rank is woken up for the bank of a read or write.\<close>

definition addressed :: "Config \<Rightarrow> Command \<Rightarrow> int \<Rightarrow> int \<Rightarrow> int \<Rightarrow> bool" where
  "addressed cfg c r g k \<longleftrightarrow>
     cs_in cfg r g k \<and> r = c_Rank c \<and> (cmd_type c = REFRESH \<or> cmd_type c = SREF_ENTER \<or> g = c_Bankgroup c \<and> k = c_Bank c)"

lemma apply_timings_mono: "cmd_timing b t \<le> cmd_timing (apply_timings ts clk b) t"
proof (induction ts arbitrary: b)
  case (Cons x ts)
  obtain u d where x: "x = (u, d)" by (cases x)
  show ?case
    using Cons [of "bank_UpdateTiming u (clk + of_int d) b"] bank_UpdateTiming_mono [of b t u "clk + of_int d"]
    by (simp add: apply_timings_def x)
qed (simp add: apply_timings_def)

lemma apply_timings_reaches: "(t, d) \<in> set ts \<Longrightarrow> clk + of_int d \<le> cmd_timing (apply_timings ts clk b) t"
proof (induction ts arbitrary: b)
  case (Cons x ts)
  obtain u e where x: "x = (u, e)" by (cases x)
  let ?b = "bank_UpdateTiming u (clk + of_int e) b"
  have s: "apply_timings (x # ts) clk b = apply_timings ts clk ?b" by (simp add: apply_timings_def x)
  show ?case
  proof (cases "(t, d) = (u, e)")
    case True
    then have "clk + of_int d \<le> cmd_timing ?b t" using bank_UpdateTiming_reaches by simp
    then show ?thesis unfolding s by (rule order_trans) (rule apply_timings_mono)
  qed (use Cons x s in auto)
qed simp

text \<open>An update of the states leaves the timings and the activation windows alone.\<close>

definition timing_of :: "ChannelState \<Rightarrow> int \<Rightarrow> int \<Rightarrow> int \<Rightarrow> CommandType \<Rightarrow> 64 word" where
  "timing_of cs r g k = cmd_timing (bank_states cs r g k)"

lemma need_refresh_timing [simp]:
  "timing_of (RankNeedRefresh r need cs) = timing_of cs" "four_aw (RankNeedRefresh r need cs) = four_aw cs"
  "timing_of (BankNeedRefresh r g k need cs) = timing_of cs" "four_aw (BankNeedRefresh r g k need cs) = four_aw cs"
  "timing_of (cs\<lparr>rank_is_sref := x\<rparr>) = timing_of cs" "timing_of (cs\<lparr>rank_idle_cycles := f\<rparr>) = timing_of cs"
  by (simp_all add: timing_of_def fun_eq_iff RankNeedRefresh_def BankNeedRefresh_def)

lemma bank_UpdateState_timing: "bank_UpdateState cmd b = ret b' \<Longrightarrow> cmd_timing b' = cmd_timing b"
  by (auto simp: bank_UpdateState_def split: bank_state.splits CommandType.splits)

lemma cs_update_bank_timing:
  "cs_update_bank cmd r jk cs = ret cs' \<Longrightarrow> timing_of cs' = timing_of cs \<and> four_aw cs' = four_aw cs"
  by (auto simp: cs_update_bank_def run_elims upd_bank_def timing_of_def fun_eq_iff dest: bank_UpdateState_timing)

lemma cs_UpdateState_timing:
  assumes "cs_UpdateState cfg cmd cs = ret cs'"
  shows "timing_of cs' = timing_of cs \<and> four_aw cs' = four_aw cs"
proof -
  let ?P = "\<lambda>d. timing_of d = timing_of cs \<and> four_aw d = four_aw cs"
  have f: "?P d" if "for_run (cs_update_bank cmd r) ps cs = ret d" for r ps d
    using that by (rule for_run_inv [where P = ?P]) (auto dest: cs_update_bank_timing)
  show ?thesis
    using assms f cs_update_bank_timing
    by (fastforce simp: cs_UpdateState_def Let_def run_elims checked_def split: if_splits)
qed

lemma timing_of_time_banks:
  "timing_of (time_banks P ts clk cs) r g k t =
     (if P r g k then cmd_timing (apply_timings ts clk (bank_states cs r g k)) t else timing_of cs r g k t)"
  by (simp add: timing_of_def time_banks_def)

lemma time_banks_mono: "timing_of cs r g k t \<le> timing_of (time_banks P ts clk cs) r g k t"
  unfolding timing_of_time_banks using apply_timings_mono by (auto simp: timing_of_def)

lemma four_aw_time_banks [simp]: "four_aw (time_banks P ts clk cs) = four_aw cs"
  by (simp add: time_banks_def)

lemma time_banks_reaches:
  "P r g k \<Longrightarrow> (t, d) \<in> set ts \<Longrightarrow> clk + of_int d \<le> timing_of (time_banks P ts clk cs) r g k t"
  unfolding timing_of_time_banks using apply_timings_reaches by auto

lemma activation_timing [simp]: "timing_of (UpdateActivationTimes cfg r t cs) = timing_of cs"
  by (simp add: timing_of_def fun_eq_iff UpdateActivationTimes_def Let_def)

lemma cs_UpdateTiming_effect:
  assumes "cs_UpdateTiming cfg tm c clk cs = ret cs'"
  shows "timing_of cs r g k t \<le> timing_of cs' r g k t"
    "(t, d) \<in> set (imposed cfg tm c r g k) \<Longrightarrow> clk + of_int d \<le> timing_of cs' r g k t"
proof -
  let ?t = "cmd_type c"
  have up: "x \<le> timing_of (time_banks P ts clk ds) r g k t" if "x \<le> timing_of ds r g k t" for x P ts ds
    using that time_banks_mono by (rule order_trans)
  show "timing_of cs r g k t \<le> timing_of cs' r g k t"
    using assms unfolding cs_UpdateTiming_def Let_def timing_update_defs
    by (auto split: if_splits intro!: up)
  assume d: "(t, d) \<in> set (imposed cfg tm c r g k)"
  show "clk + of_int d \<le> timing_of cs' r g k t"
  proof (cases "?t \<in> {REFRESH, SREF_ENTER, SREF_EXIT}")
    case True
    then have "r = c_Rank c" "cs_in cfg r g k" "(t, d) \<in> set (same_rank tm ?t)"
      using d by (auto simp: imposed_def split: if_splits)
    then show ?thesis
      using assms True unfolding cs_UpdateTiming_def Let_def timing_update_defs
      by (auto simp: cs_in_def intro!: time_banks_reaches)
  next
    case False
    define cs0 where "cs0 = (if ?t = ACTIVATE then UpdateActivationTimes cfg (c_Rank c) clk cs else cs)"
    have run: "cs' = UpdateOtherRanksTiming cfg (cmd_addr c) (other_ranks tm ?t) clk
        (UpdateOtherBankgroupsSameRankTiming cfg (cmd_addr c) (other_bankgroups_same_rank tm ?t) clk
         (UpdateOtherBanksSameBankgroupTiming cfg (cmd_addr c) (other_banks_same_bankgroup tm ?t) clk
          (UpdateSameBankTiming (cmd_addr c) (same_bank tm ?t) clk cs0)))"
      using assms False by (simp add: cs_UpdateTiming_def Let_def cs0_def split: if_splits)
    consider (same) "r = c_Rank c" "g = c_Bankgroup c" "k = c_Bank c" "(t, d) \<in> set (same_bank tm ?t)"
      | (rank) "r \<noteq> c_Rank c" "cs_in cfg r g k" "(t, d) \<in> set (other_ranks tm ?t)"
      | (group) "r = c_Rank c" "g = c_Bankgroup c" "k \<noteq> c_Bank c" "cs_in cfg r g k" "(t, d) \<in> set (other_banks_same_bankgroup tm ?t)"
      | (other) "r = c_Rank c" "g \<noteq> c_Bankgroup c" "cs_in cfg r g k" "(t, d) \<in> set (other_bankgroups_same_rank tm ?t)"
      using d False by (auto simp: imposed_def split: if_splits)
    then show ?thesis
    proof cases
      case same
      then show ?thesis unfolding run timing_update_defs
        by (intro up time_banks_reaches) auto
    next
      case rank
      then show ?thesis unfolding run timing_update_defs
        by (intro time_banks_reaches) auto
    next
      case group
      then show ?thesis unfolding run timing_update_defs
        by (intro up [OF up [OF time_banks_reaches]]) (auto simp: cs_in_def)
    next
      case other
      then show ?thesis unfolding run timing_update_defs
        by (intro up [OF time_banks_reaches]) (auto simp: cs_in_def)
    qed
  qed
qed

section \<open>Ready commands are due\<close>

lemma bank_ready_due:
  assumes "bank_GetReadyCommand b cmd clk = ret c" "IsValid c"
  shows "cmd_timing b (cmd_type c) \<le> clk \<and> required_type b cmd = ret (cmd_type c) \<and> cmd_addr c = cmd_addr cmd"
  using assms by (auto simp: bank_GetReadyCommand_def run_elims mk_Command_def no_Command_def IsValid_def split: if_splits)

lemma required_rank_type:
  "IsRankCMD cmd \<Longrightarrow> required_type b cmd = ret t \<Longrightarrow> t = cmd_type cmd \<or> t = PRECHARGE"
  by (auto simp: required_type_def command_defs split: bank_state.splits if_splits)

lemma rank_scan_due:
  assumes "rank_scan cs cmd clk ps n lst = ret (e, n', l)" "IsRankCMD cmd"
  shows "n' \<le> n + int (length ps) \<and>
    (\<forall>c. e = Some c \<longrightarrow> cmd_type c = PRECHARGE \<and> (\<exists>j k. (j, k) \<in> set ps \<and>
       cmd_addr c = mk_Address (- 1) (c_Rank cmd) j k (- 1) (- 1) \<and> timing_of cs (c_Rank cmd) j k PRECHARGE \<le> clk)) \<and>
    (e = None \<and> n' = n + int (length ps) \<longrightarrow>
       (\<forall>(j, k)\<in>set ps. timing_of cs (c_Rank cmd) j k (cmd_type cmd) \<le> clk) \<and>
       (if ps = [] then l = lst else cmd_type l = cmd_type cmd \<and> cmd_addr l = cmd_addr cmd))"
  using assms(1)
proof (induction ps arbitrary: n lst)
  case (Cons jk ps)
  obtain j k where jk: "jk = (j, k)" by (cases jk)
  obtain c where c: "bank_GetReadyCommand (bank_states cs (c_Rank cmd) j k) cmd clk = ret c"
    using Cons.prems by (auto simp: jk run_elims)
  note due = bank_ready_due [OF c, folded timing_of_def]
  consider (no) "\<not> IsValid c" | (early) "IsValid c" "cmd_type c \<noteq> cmd_type cmd" | (count) "IsValid c" "cmd_type c = cmd_type cmd"
    by blast
  then show ?case
  proof cases
    case no
    then have "rank_scan cs cmd clk ps n c = ret (e, n', l)" using Cons.prems c by (simp add: jk)
    note IH = Cons.IH [OF this]
    show ?thesis
    proof (cases e)
      case (Some a)
      with IH show ?thesis by (simp add: jk) blast
    qed (use IH in \<open>auto simp: jk\<close>)
  next
    case early
    then have "e = Some (c\<lparr>cmd_addr := mk_Address (- 1) (c_Rank cmd) j k (- 1) (- 1)\<rparr>)" "n' = n"
      using Cons.prems c by (auto simp: jk)
    moreover have "cmd_type c = PRECHARGE" using early due required_rank_type [OF assms(2)] by blast
    ultimately show ?thesis using due early(1) by (auto simp: jk)
  next
    case count
    then have "rank_scan cs cmd clk ps (n + 1) c = ret (e, n', l)" using Cons.prems c by (simp add: jk)
    from Cons.IH [OF this] show ?thesis
    proof (cases e)
      case (Some a)
      with Cons.IH [OF \<open>rank_scan cs cmd clk ps (n + 1) c = ret (e, n', l)\<close>] show ?thesis by (auto simp: jk)
    qed (use count due in \<open>auto simp: jk split: if_splits\<close>)
  qed
qed auto

lemma ready_command_due:
  assumes "cs_GetReadyCommand cfg cs cmd clk = ret c" "IsValid c" "geometry_ok cfg" "addressed cfg c r g k"
  shows "timing_of cs r g k (cmd_type c) \<le> clk"
proof (cases "IsRankCMD cmd")
  case True
  obtain e n l where s: "rank_scan cs cmd clk (rank_banks cfg) 0 no_Command = ret (e, n, l)"
      "c = (case e of Some c \<Rightarrow> c | None \<Rightarrow> if n = banks cfg then l else no_Command)"
    using assms(1) True by (auto simp: cs_GetReadyCommand_def checked_def run_elims split: if_splits)
  note d = rank_scan_due [OF s(1) True]
  show ?thesis
  proof (cases e)
    case None
    then have "n = banks cfg" "c = l" using s(2) assms(2) by (auto simp: no_Command_def mk_Command_def IsValid_def split: if_splits)
    moreover have "rank_banks cfg \<noteq> []" using length_rank_banks [OF assms(3)] assms(3) by (auto simp: geometry_ok_def)
    ultimately show ?thesis
      using d None length_rank_banks [OF assms(3)] assms(4) rank_banks_in [of g k cfg]
      by (auto simp: addressed_def cs_in_def)
  next
    case (Some c')
    then show ?thesis using d s(2) assms(4) by (auto simp: addressed_def mk_Address_def)
  qed
next
  case False
  then obtain b where b: "bank_GetReadyCommand (bank_states cs (c_Rank cmd) (c_Bankgroup cmd) (c_Bank cmd)) cmd clk = ret b"
      "c = b"
    using assms(1,2)
    by (auto simp: cs_GetReadyCommand_def checked_def run_elims no_Command_def mk_Command_def IsValid_def split: if_splits)
  have "cmd_type b \<noteq> REFRESH" "cmd_type b \<noteq> SREF_ENTER"
    using bank_ready_due [OF b(1)] assms(2) b(2) False
    by (auto simp: required_type_def command_defs split: bank_state.splits if_splits)
  then show ?thesis
    using bank_ready_due [OF b(1)] b(2) assms(2,4) by (auto simp: addressed_def timing_of_def)
qed

section \<open>Runs respect the timing tables\<close>

lemma channel_step_mono:
  assumes "channel_step cfg tm cs ev cs'"
  shows "timing_of cs r g k t \<le> timing_of cs' r g k t"
    "(clk, c) \<in> set ev \<Longrightarrow> (t, d) \<in> set (imposed cfg tm c r g k) \<Longrightarrow> clk + of_int d \<le> timing_of cs' r g k t"
proof -
  have up: "timing_of cs r g k t \<le> timing_of cs' r g k t"
      "(t, d) \<in> set (imposed cfg tm x r g k) \<Longrightarrow> now + of_int d \<le> timing_of cs' r g k t"
    if u: "UpdateTimingAndStates cfg tm x now cs = ret cs'" for x now
  proof -
    obtain cs1 where cs1: "cs_UpdateState cfg x cs = ret cs1" "cs_UpdateTiming cfg tm x now cs1 = ret cs'"
      using u by (auto simp: UpdateTimingAndStates_def run_elims)
    have "timing_of cs1 = timing_of cs" using cs_UpdateState_timing [OF cs1(1)] by blast
    then show "timing_of cs r g k t \<le> timing_of cs' r g k t"
        "(t, d) \<in> set (imposed cfg tm x r g k) \<Longrightarrow> now + of_int d \<le> timing_of cs' r g k t"
      using cs_UpdateTiming_effect [OF cs1(2)] by metis+
  qed
  show "timing_of cs r g k t \<le> timing_of cs' r g k t" using assms by (cases rule: channel_step.cases) (auto dest: up(1))
  show "clk + of_int d \<le> timing_of cs' r g k t" if "(clk, c) \<in> set ev" "(t, d) \<in> set (imposed cfg tm c r g k)"
    using assms that by (cases rule: channel_step.cases) (auto dest: up(2))
qed

lemma channel_run_imposed:
  "channel_run cfg tm tr cs \<Longrightarrow> (clk, c) \<in> set tr \<Longrightarrow> (t, d) \<in> set (imposed cfg tm c r g k) \<Longrightarrow>
     clk + of_int d \<le> timing_of cs r g k t"
proof (induction rule: channel_run.induct)
  case (step tr cs ev cs')
  then show ?case using channel_step_mono [OF step.hyps(2)] by (fastforce intro: order_trans)
qed simp

lemma channel_run_split:
  "channel_run cfg tm tr cs \<Longrightarrow> tr = pre @ (clk, c) # post \<Longrightarrow>
     \<exists>cs0 req. channel_run cfg tm pre cs0 \<and> cs_GetReadyCommand cfg cs0 req clk = ret c \<and> IsValid c"
proof (induction arbitrary: post rule: channel_run.induct)
  case (step tr cs ev cs')
  show ?case
  proof (cases post rule: rev_cases)
    case Nil
    show ?thesis
    proof (cases ev)
      case Nil
      with step show ?thesis by auto
    next
      case (Cons e es)
      then show ?thesis using step \<open>post = []\<close> by (auto elim!: channel_stepE)
    qed
  next
    case (snoc ps p)
    then show ?thesis using step by (auto elim!: channel_stepE)
  qed
qed simp

text \<open>
  A later command at a bank comes no earlier than the delay that any earlier command
  imposed on that bank.
\<close>

lemma run_respects_timing:
  assumes "channel_run cfg tm tr cs" "geometry_ok cfg" "tr = pre @ (t2, c2) # post" "(t1, c1) \<in> set pre"
    "addressed cfg c2 r g k" "(cmd_type c2, d) \<in> set (imposed cfg tm c1 r g k)"
  shows "t1 + of_int d \<le> t2"
proof -
  obtain cs0 req where c: "channel_run cfg tm pre cs0" "cs_GetReadyCommand cfg cs0 req t2 = ret c2" "IsValid c2"
    using channel_run_split [OF assms(1,3)] by blast
  have "t1 + of_int d \<le> timing_of cs0 r g k (cmd_type c2)" using channel_run_imposed [OF c(1) assms(4,6)] .
  also have "\<dots> \<le> t2" using ready_command_due [OF c(2,3) assms(2,5)] .
  finally show ?thesis .
qed

section \<open>Activation windows\<close>

definition activations :: "int \<Rightarrow> issued list \<Rightarrow> 64 word list" where
  "activations r tr = map fst (filter (\<lambda>(t, c). cmd_type c = ACTIVATE \<and> c_Rank c = r) tr)"

lemma activations_append [simp]: "activations r (xs @ ys) = activations r xs @ activations r ys"
  by (simp add: activations_def)

text \<open>
  The window of a rank holds the ends of the last activations, at most four; the windows of
  the earlier ones have ended by the time of the last activation.
\<close>

definition window_ok :: "64 word \<Rightarrow> 64 word list \<Rightarrow> 64 word list \<Rightarrow> bool" where
  "window_ok d acts ws \<longleftrightarrow>
     (\<exists>old recent. acts = old @ recent \<and> ws = map (\<lambda>t. t + d) recent \<and> length ws \<le> 4 \<and>
        (\<forall>t\<in>set old. recent \<noteq> [] \<and> t + d \<le> last recent))"

lemma window_push:
  assumes ok: "window_ok d acts ws" and mono: "\<forall>a\<in>set acts. a \<le> t"
    and ready: "case ws of [] \<Rightarrow> True | w # us \<Rightarrow> \<not> (t < w \<and> length (w # us) \<ge> 4)"
  shows "window_ok d (acts @ [t]) (push_window t (t + d) ws)"
proof -
  obtain old recent where o: "acts = old @ recent" "ws = map (\<lambda>t. t + d) recent" "length ws \<le> 4"
      "\<forall>a\<in>set old. recent \<noteq> [] \<and> a + d \<le> last recent"
    using ok by (auto simp: window_ok_def)
  have old: "a + d \<le> t" if "a \<in> set old" for a
    using o(1,4) that mono by (metis Un_iff last_in_set order_trans set_append)
  show ?thesis
  proof (cases recent)
    case Nil
    then show ?thesis using o old unfolding window_ok_def push_window_def
      by (intro exI [of _ old] exI [of _ "[t]"]) auto
  next
    case (Cons x xs)
    show ?thesis
    proof (cases "x + d \<le> t")
      case True
      then show ?thesis using o old Cons unfolding window_ok_def push_window_def
        by (intro exI [of _ "old @ [x]"] exI [of _ "xs @ [t]"]) auto
    next
      case False
      then have "length recent < 4" using ready o(2) Cons by auto
      then show ?thesis using False o old Cons unfolding window_ok_def push_window_def
        by (intro exI [of _ old] exI [of _ "recent @ [t]"]) auto
    qed
  qed
qed

lemma window_five:
  assumes "window_ok d acts ws" "acts = pre @ x # post" "length post \<ge> 4"
  shows "x + d \<le> last acts"
proof -
  obtain old recent where o: "acts = old @ recent" "ws = map (\<lambda>t. t + d) recent" "length ws \<le> 4"
      "\<forall>a\<in>set old. recent \<noteq> [] \<and> a + d \<le> last recent"
    using assms(1) by (auto simp: window_ok_def)
  have "length acts = length pre + 1 + length post" "length acts = length old + length ws"
    using arg_cong [OF assms(2), of length] arg_cong [OF o(1), of length] o(2) by simp_all
  then have "length pre < length old" using o(3) assms(3) by linarith
  then have "x \<in> set old" using o(1) assms(2) by (metis nth_append nth_append_length nth_mem)
  then show ?thesis using o(1,4) by auto
qed

lemma ready_activation:
  assumes "cs_GetReadyCommand cfg cs req clk = ret c" "IsValid c" "cmd_type c = ACTIVATE"
  shows "IsFAWReady cs (c_Rank c) clk"
proof (cases "IsRankCMD req")
  case True
  then obtain e n l where s: "rank_scan cs req clk (rank_banks cfg) 0 no_Command = ret (e, n, l)"
      "c = (case e of Some c \<Rightarrow> c | None \<Rightarrow> if n = banks cfg then l else no_Command)"
    using assms(1) by (auto simp: cs_GetReadyCommand_def checked_def run_elims split: if_splits)
  have no: "cmd_type l \<noteq> ACTIVATE"
    if "rank_scan cs req clk ps m lst = ret (None, n, l)" "cmd_type lst \<noteq> ACTIVATE" for ps m lst
    using that
  proof (induction ps arbitrary: m lst)
    case (Cons jk ps)
    obtain j k where jk: "jk = (j, k)" by (cases jk)
    obtain x where x: "bank_GetReadyCommand (bank_states cs (c_Rank req) j k) req clk = ret x"
      using Cons.prems by (auto simp: jk run_elims)
    have "cmd_type x \<noteq> ACTIVATE"
    proof
      assume a: "cmd_type x = ACTIVATE"
      then have "required_type (bank_states cs (c_Rank req) j k) req = ret ACTIVATE"
        using bank_ready_due [OF x] by (simp add: IsValid_def)
      from required_rank_type [OF True this] show False using True by (auto simp: IsRankCMD_def)
    qed
    then show ?case using Cons x by (auto simp: jk split: if_splits)
  qed simp
  show ?thesis
    using rank_scan_due [OF s(1) True] s no [of "rank_banks cfg" 0 no_Command] assms(3)
    by (auto simp: no_Command_def mk_Command_def split: option.splits if_splits)
next
  case False
  then show ?thesis
    using assms
    by (auto simp: cs_GetReadyCommand_def checked_def run_elims no_Command_def mk_Command_def IsValid_def
        ActivationWindowOk_def split: if_splits)
qed

lemma four_aw_update:
  assumes "UpdateTimingAndStates cfg tm c clk cs = ret cs'"
  shows "four_aw cs' r = (if cmd_type c = ACTIVATE \<and> r = c_Rank c
    then push_window clk (clk + of_int (tFAW cfg)) (four_aw cs r) else four_aw cs r)"
proof -
  obtain cs1 where cs1: "cs_UpdateState cfg c cs = ret cs1" "cs_UpdateTiming cfg tm c clk cs1 = ret cs'"
    using assms by (auto simp: UpdateTimingAndStates_def run_elims)
  have "four_aw cs1 = four_aw cs" using cs_UpdateState_timing [OF cs1(1)] by blast
  then show ?thesis using cs1(2)
    by (auto simp: cs_UpdateTiming_def Let_def timing_update_defs UpdateActivationTimes_def split: if_splits)
qed

lemma run_window:
  "channel_run cfg tm tr cs \<Longrightarrow> sorted (map fst tr) \<Longrightarrow>
     window_ok (of_int (tFAW cfg)) (activations r tr) (four_aw cs r)"
proof (induction rule: channel_run.induct)
  case start
  show ?case by (simp add: window_ok_def activations_def new_ChannelState_def)
next
  case (step tr cs ev cs')
  have IH: "window_ok (of_int (tFAW cfg)) (activations r tr) (four_aw cs r)"
    using step.IH step.prems by (simp add: sorted_append)
  from step.hyps(2) show ?case
  proof (cases rule: channel_step.cases)
    case (issue req clk c)
    note aw = four_aw_update [OF issue(4), of r]
    show ?thesis
    proof (cases "cmd_type c = ACTIVATE \<and> r = c_Rank c")
      case True
      have "\<forall>a\<in>set (activations r tr). a \<le> clk"
        using step.prems issue(1) by (auto simp: sorted_append activations_def)
      moreover have "IsFAWReady cs r clk" using ready_activation [OF issue(2,3)] True by simp
      ultimately have "window_ok (of_int (tFAW cfg)) (activations r tr @ [clk])
          (push_window clk (clk + of_int (tFAW cfg)) (four_aw cs r))"
        by (intro window_push [OF IH]) (auto simp: IsFAWReady_def split: list.splits)
      then show ?thesis using True aw issue(1) by (simp add: activations_def)
    next
      case False
      then show ?thesis using IH aw issue(1) by (auto simp: activations_def)
    qed
  qed (use IH in \<open>simp_all\<close>)
qed

text \<open>Of any five activations of a rank the last comes at least \<open>tFAW\<close> after the first.\<close>

lemma run_four_activations:
  assumes "channel_run cfg tm tr cs" "sorted (map fst tr)" "activations r tr = pre @ t1 # mid @ t5 # post" "length mid = 3"
  shows "t1 + of_int (tFAW cfg) \<le> t5"
proof -
  have cut: "\<exists>cs0 tr0. channel_run cfg tm tr0 cs0 \<and> sorted (map fst tr0) \<and> activations r tr0 = acts"
    if "activations r tr = acts @ rest" for acts rest
    using assms(1,2) that
  proof (induction arbitrary: rest rule: channel_run.induct)
    case start
    then have "acts = activations r []" by (simp add: activations_def)
    then show ?case using channel_run.start [of cfg tm] by (metis list.map_disc_iff sorted_simps(1))
  next
    case (step tr cs ev cs')
    have ev: "length (activations r ev) \<le> 1"
      using step.hyps(2) by (cases rule: channel_step.cases) (auto simp: activations_def)
    show ?case
    proof (cases "rest = []")
      case True
      then have "activations r (tr @ ev) = acts" using step.prems(2) by simp
      then show ?thesis using channel_run.step [OF step.hyps] step.prems(1) by blast
    next
      case False
      then have "\<exists>rest'. activations r tr = acts @ rest'"
        using step.prems(2) ev
        by (cases rest rule: rev_cases; cases "activations r ev" rule: rev_cases) auto
      then show ?thesis using step.IH step.prems(1) by (auto simp: sorted_append)
    qed
  qed
  obtain cs0 tr0 where r0: "channel_run cfg tm tr0 cs0" "sorted (map fst tr0)" "activations r tr0 = pre @ t1 # mid @ [t5]"
    using cut [of "pre @ t1 # mid @ [t5]" post] assms(3) by auto
  show ?thesis using window_five [OF run_window [OF r0(1,2), of r] r0(3)] assms(4) r0(3) by simp
qed

end
