(* ===== verification/DS_Latency.thy ===== *)
theory DS_Latency
  imports DS_Setup
begin

text \<open>
  How long a read takes: on an idle channel of the JEDEC system the controller schedules the
  transaction, activates the row, waits for the delay of the timing table, reads, and returns
  the transaction after the read delay. The phases are followed cycle by cycle through the
  controller and the memory system, whatever the other channels do.
\<close>

section \<open>Scanning the command queues\<close>

text \<open>At most the queue \<open>i\<close> holds commands, and no refresh is in progress.\<close>

definition alone :: "int \<Rightarrow> Command list \<Rightarrow> CommandQueue \<Rightarrow> bool" where
  "alone i cmds q \<longleftrightarrow>
     0 \<le> queue_idx q \<and> queue_idx q < num_queues q \<and> \<not> is_in_ref q \<and>
     (\<forall>j. queues q j = (if j = i then cmds else []))"

lemma next_idx: "0 \<le> queue_idx q \<Longrightarrow> queue_idx q < num_queues q \<Longrightarrow> next_queue_idx q = (queue_idx q + 1) mod num_queues q"
  by (simp add: next_queue_idx_def)

lemma scan_skip:
  assumes "0 \<le> queue_idx q" "queue_idx q < num_queues q" "\<not> is_in_ref q"
    "\<forall>j\<in>{1..int m}. queues q ((queue_idx q + j) mod num_queues q) = []"
  shows "issue_scan cfg cs (m + k) q st = issue_scan cfg cs k (q\<lparr>queue_idx := (queue_idx q + int m) mod num_queues q\<rparr>) st"
  using assms
proof (induction m arbitrary: q)
  case 0
  then show ?case by simp
next
  case (Suc m)
  let ?n = "num_queues q" and ?q = "q\<lparr>queue_idx := (queue_idx q + 1) mod num_queues q\<rparr>"
  have pos: "0 < ?n" using Suc.prems by linarith
  have e: "queues q (queue_idx ?q) = []" using Suc.prems(4) by simp
  have "\<forall>j\<in>{1..int m}. queues ?q ((queue_idx ?q + j) mod num_queues ?q) = []"
  proof
    fix j assume "j \<in> {1..int m}"
    then have "queues q ((queue_idx q + (j + 1)) mod ?n) = []" using Suc.prems(4) by auto
    then show "queues ?q ((queue_idx ?q + j) mod num_queues ?q) = []" by (simp add: mod_simps algebra_simps)
  qed
  then have "issue_scan cfg cs (m + k) ?q st = issue_scan cfg cs k (?q\<lparr>queue_idx := (queue_idx ?q + int m) mod ?n\<rparr>) st"
    using Suc.IH [of ?q] Suc.prems pos by simp
  moreover have "(queue_idx ?q + int m) mod ?n = (queue_idx q + int (Suc m)) mod ?n"
    by (simp add: mod_simps algebra_simps)
  moreover have "issue_scan cfg cs (Suc m + k) q st = issue_scan cfg cs (m + k) ?q st"
    using Suc.prems e pos by (simp add: next_idx Let_def queue_in_def GetFirstReadyInQueue_def IsValid_def no_Command_def mk_Command_def)
  ultimately show ?case by simp
qed

lemma queue_scan_idle:
  assumes "alone i [] q"
  shows "GetCommandToIssue cfg cs q st = ret (no_Command, q, st)"
proof -
  have "issue_scan cfg cs (nat (num_queues q) + 0) q st = issue_scan cfg cs 0 q st"
    using assms by (subst scan_skip) (auto simp: alone_def)
  then show ?thesis by (simp add: GetCommandToIssue_def)
qed

text \<open>The only command is found wherever the scan starts.\<close>

lemma scan_alone:
  assumes q: "alone i [cmd] q" "queue_in q i" and r: "cs_GetReadyCommand cfg cs cmd (cq_clk q) = ret r"
    and k: "cmd_type r \<noteq> PRECHARGE" "\<not> IsWriteC r"
  shows "GetCommandToIssue cfg cs q st =
    (if \<not> IsValid r then ret (no_Command, q, st)
     else if IsReadWrite r then run_bind (EraseRWCommand cfg r (q\<lparr>queue_idx := i\<rparr>)) (\<lambda>q2. ret (r, q2, st))
     else ret (r, q\<lparr>queue_idx := i\<rparr>, st))"
proof -
  let ?n = "num_queues q" and ?p = "queue_idx q"
  define m where "m = nat ((i - ?p - 1) mod ?n)"
  have n: "0 < ?n" "0 \<le> ?p" "?p < ?n" "\<not> is_in_ref q" "0 \<le> i" "i < ?n"
    using q by (auto simp: alone_def queue_in_def)
  have m: "int m = (i - ?p - 1) mod ?n" "int m < ?n" using n(1) by (simp_all add: m_def)
  have at: "(?p + int m + 1) mod ?n = i"
  proof -
    have "(?p + int m + 1) mod ?n = (?p + 1 + (i - ?p - 1)) mod ?n" 
      unfolding m(1) using mod_add_right_eq [of "?p + 1" "i - ?p - 1" ?n] by (simp only: add_ac)
    then show ?thesis using n by simp
  qed
  have away: "(?p + int m + 1 + j) mod ?n \<noteq> i" if "0 < j" "j < ?n" for j
  proof -
    have "(i + j) mod ?n \<noteq> i mod ?n"
    proof
      assume "(i + j) mod ?n = i mod ?n"
      then have "?n dvd j" by (metis add_diff_cancel_left' mod_eq_dvd_iff)
      then show False using that zdvd_imp_le by fastforce
    qed
    moreover have "(?p + int m + 1 + j) mod ?n = (i + j) mod ?n" using at by (metis mod_add_left_eq)
    ultimately show ?thesis using n by simp
  qed
  have before: "queues q ((?p + j) mod ?n) = []" if "j \<in> {1..int m}" for j
  proof -
    have "(?p + j) mod ?n = (?p + int m + 1 + (j - int m - 1 + ?n)) mod ?n"
      using mod_add_self2 [of "?p + j" ?n] by (simp add: algebra_simps)
    then have "(?p + j) mod ?n \<noteq> i" using away [of "j - int m - 1 + ?n"] that m(2) by simp
    then show ?thesis using q(1) by (simp add: alone_def)
  qed
  let ?q = "q\<lparr>queue_idx := (?p + int m) mod ?n\<rparr>" and ?qi = "q\<lparr>queue_idx := i\<rparr>" and ?k = "nat ?n - m - 1"
  have split: "nat ?n = m + Suc ?k" using m(2) n(1) by linarith
  have "GetCommandToIssue cfg cs q st = issue_scan cfg cs (Suc ?k) ?q st"
    unfolding GetCommandToIssue_def by (subst split, subst scan_skip) (use n before in auto)
  also have "\<dots> = (if \<not> IsValid r then issue_scan cfg cs ?k ?qi st
     else if IsReadWrite r then run_bind (EraseRWCommand cfg r ?qi) (\<lambda>q2. ret (r, q2, st)) else ret (r, ?qi, st))"
  proof -
    have "next_queue_idx ?q = i" using at n(1) by (simp add: next_idx mod_simps add.assoc)
    moreover have "first_ready cfg cs (cq_clk q) [] [cmd] st = ret (if IsValid r then r else no_Command, st)"
      using r k by simp
    ultimately show ?thesis
      using q n by (simp add: alone_def Let_def queue_in_def GetFirstReadyInQueue_def IsValid_def no_Command_def mk_Command_def)
  qed
  also have "issue_scan cfg cs ?k ?qi st = ret (no_Command, q, st)"
  proof -
    have "queues q ((i + j) mod ?n) = []" if "j \<in> {1..int ?k}" for j
    proof -
      have j: "0 < j" "j < ?n" using that split m(2) n(1) by auto
      have "(?p + int m + 1 + j) mod ?n = (i + j) mod ?n" using mod_add_left_eq [of "?p + int m + 1" ?n j] at by simp
      then have "(i + j) mod ?n \<noteq> i" using away [OF j] by simp
      then show ?thesis using q(1) by (simp add: alone_def)
    qed
    then have "issue_scan cfg cs (?k + 0) ?qi st = issue_scan cfg cs 0 (?qi\<lparr>queue_idx := (i + int ?k) mod ?n\<rparr>) st"
      by (subst scan_skip) (use n in auto)
    moreover have "(i + int ?k) mod ?n = ?p"
    proof -
      have "int ?k = ?n - int m - 1" using split n(1) by linarith
      then have "(i + int ?k) mod ?n = (i + ?n - 1 - (i - ?p - 1) mod ?n) mod ?n" using m(1) by (simp add: algebra_simps)
      also have "\<dots> = (?p + ?n) mod ?n" using mod_diff_right_eq [of "i + ?n - 1" "i - ?p - 1" ?n] by (simp add: algebra_simps)
      finally show ?thesis using n by simp
    qed
    ultimately show ?thesis by simp
  qed
  finally show ?thesis .
qed

section \<open>One transaction in a controller\<close>

text \<open>
  A controller with at most one read under way: \<open>cmds\<close> in the command queue \<open>i\<close>, \<open>rq\<close> not yet
  scheduled, \<open>pend\<close> pending, \<open>fin\<close> finished. \<open>d\<close> is the lead of the refresh counter within a cycle.
\<close>

definition lone ::
    "Config \<Rightarrow> int \<Rightarrow> Command list \<Rightarrow> Transaction list \<Rightarrow> (64 word \<times> Transaction) list \<Rightarrow> Transaction list \<Rightarrow>
     64 word \<Rightarrow> Controller \<Rightarrow> bool" where
  "lone cfg i cmds rq pend fin d c \<longleftrightarrow>
     alone i cmds (ct_queue c) \<and> queue_in (ct_queue c) i \<and> q_structure (ct_queue c) = PER_BANK \<and>
     0 < queue_size (ct_queue c) \<and> cq_clk (ct_queue c) = ct_clk c \<and>
     rf_clk (ct_refresh c) = ct_clk c + d \<and> refresh_q (ct_channel c) = [] \<and>
     read_queue c = rq \<and> pending_rd_q c = pend \<and> return_queue c = fin \<and>
     write_buffer c = [] \<and> pending_wr_q c = [] \<and> write_draining c = 0 \<and>
     \<not> is_unified_queue c \<and> ct_row_buf_policy c = OPEN_PAGE"

definition no_refresh_at :: "Refresh \<Rightarrow> 64 word \<Rightarrow> bool" where
  "no_refresh_at rf t \<longleftrightarrow> (let n = (of_int (refresh_interval rf) :: 64 word) in n \<noteq> 0 \<and> (t mod n \<noteq> 0 \<or> t = 0))"

text \<open>What a cycle leaves alone.\<close>

definition same_banks :: "Controller \<Rightarrow> Controller \<Rightarrow> bool" where
  "same_banks c c' \<longleftrightarrow>
     bank_states (ct_channel c') = bank_states (ct_channel c) \<and> four_aw (ct_channel c') = four_aw (ct_channel c) \<and>
     thirty_two_aw (ct_channel c') = thirty_two_aw (ct_channel c) \<and> refresh_interval (ct_refresh c') = refresh_interval (ct_refresh c)"

lemma lone_stats [simp]:
  "lone cfg i cmds rq pend fin d (upd_stats f c) = lone cfg i cmds rq pend fin d c"
  "same_banks (upd_stats f c) c' = same_banks c c'" "same_banks c (upd_stats f c') = same_banks c c'"
  by (simp_all add: lone_def upd_stats_def same_banks_def)

lemma count_ranks:
  "\<exists>st f. fold (ct_count_rank cfg) is c = c\<lparr>ct_stats := st, ct_channel := (ct_channel c)\<lparr>rank_idle_cycles := f\<rparr>\<rparr>"
proof (induction "is" arbitrary: c)
  case Nil
  have "c = c\<lparr>ct_stats := ct_stats c, ct_channel := (ct_channel c)\<lparr>rank_idle_cycles := rank_idle_cycles (ct_channel c)\<rparr>\<rparr>" by simp
  then show ?case unfolding fold_Nil id_apply by blast
next
  case (Cons i "is")
  have "\<exists>st f. ct_count_rank cfg i c = c\<lparr>ct_stats := st, ct_channel := (ct_channel c)\<lparr>rank_idle_cycles := f\<rparr>\<rparr>"
  proof (cases "rank_is_sref (ct_channel c) i")
    case True
    have "ct_count_rank cfg i c = c\<lparr>ct_stats := IncrementVec ''sref_cycles'' i (ct_stats c),
        ct_channel := (ct_channel c)\<lparr>rank_idle_cycles := rank_idle_cycles (ct_channel c)\<rparr>\<rparr>"
      using True by (simp add: ct_count_rank_def upd_stats_def)
    then show ?thesis by blast
  next
    case False
    then show ?thesis by (cases "IsAllBankIdleInRank cfg (ct_channel c) i") (auto simp: ct_count_rank_def upd_stats_def)
  qed
  then obtain st f where "ct_count_rank cfg i c = c\<lparr>ct_stats := st, ct_channel := (ct_channel c)\<lparr>rank_idle_cycles := f\<rparr>\<rparr>" by blast
  then show ?case using Cons [of "ct_count_rank cfg i c"] by auto
qed

text \<open>The end of a cycle, after the commands were issued.\<close>

definition finish_tick :: "Config \<Rightarrow> Controller \<Rightarrow> Controller run" where
  "finish_tick cfg c =
     run_bind (ScheduleTransaction cfg c) (\<lambda>c4.
     ret (upd_stats (Increment ''num_cycles'') (c4\<lparr>ct_clk := ct_clk c4 + 1, ct_queue := cq_ClockTick (ct_queue c4)\<rparr>)))"

definition end_of_tick :: "Config \<Rightarrow> Controller \<Rightarrow> Controller run" where
  "end_of_tick cfg c = finish_tick cfg (fold (ct_count_rank cfg) [0..ranks cfg - 1] c)"

lemma tick_phases:
  assumes "no_refresh_at (ct_refresh c) (rf_clk (ct_refresh c))" "\<not> enable_self_refresh cfg"
    "ct_issue_phase cfg tm (c\<lparr>ct_refresh := (ct_refresh c)\<lparr>rf_clk := rf_clk (ct_refresh c) + 1\<rparr>\<rparr>) = ret (b, c1)"
  shows "ct_tick_trace cfg tm c = run_bind (end_of_tick cfg c1) (\<lambda>c2. ret (b, c2))"
proof -
  have "refresh_ClockTick cfg (ct_refresh c) (ct_channel c) =
      ret ((ct_refresh c)\<lparr>rf_clk := rf_clk (ct_refresh c) + 1\<rparr>, ct_channel c)"
    using assms(1) by (auto simp: refresh_ClockTick_def no_refresh_at_def Let_def word_gt_0)
  then show ?thesis using assms(2,3) by (auto simp: ct_tick_trace_def end_of_tick_def finish_tick_def run_bind_assoc intro!: run_bind_cong)
qed

text \<open>The controller after the end of a cycle: only the clocks and the command queues changed.\<close>

definition finished :: "Controller \<Rightarrow> Controller \<Rightarrow> bool" where
  "finished c c' \<longleftrightarrow>
     ct_channel c' = ct_channel c \<and> ct_refresh c' = ct_refresh c \<and> ct_clk c' = ct_clk c + 1 \<and> trans_capacity c' = trans_capacity c"

lemma finish_idle:
  assumes "lone cfg i cmds [] pend fin 1 c"
  shows "\<exists>c'. finish_tick cfg c = ret c' \<and> lone cfg i cmds [] pend fin 0 c' \<and> finished c c' \<and>
    rank_q_empty (ct_queue c') = rank_q_empty (ct_queue c)"
proof -
  have "start_draining c = c" using assms by (auto simp: start_draining_def lone_def)
  then have "ScheduleTransaction cfg c = ret c"
    using assms by (simp add: ScheduleTransaction_def chosen_queue_def source_queue_def lone_def)
  then show ?thesis
    using assms unfolding finish_tick_def
    by (simp add: cq_ClockTick_def) (simp add: lone_def alone_def finished_def queue_in_def add.assoc)
qed

lemma finish_schedule:
  assumes l: "lone cfg i [] [tr] pend fin 1 c" and w: "\<not> tr_is_write tr"
    and cmd: "cmd = mk_Command READ (AddressMapping cfg (tr_addr tr)) (tr_addr tr)"
    and i: "i = GetQueueIndex cfg (ct_queue c) (c_Rank cmd) (c_Bankgroup cmd) (c_Bank cmd)"
  shows "\<exists>c'. finish_tick cfg c = ret c' \<and> lone cfg i [cmd] [] pend fin 0 c' \<and> finished c c' \<and>
    rank_q_empty (ct_queue c') = (rank_q_empty (ct_queue c))(c_Rank cmd := False)"
proof -
  have d: "start_draining c = c" using l by (auto simp: start_draining_def lone_def)
  have t: "TransToCommand cfg c tr = cmd" using l w by (simp add: TransToCommand_def cmd lone_def)
  have nw: "\<not> IsWriteC cmd" by (simp add: cmd IsWriteC_def mk_Command_def)
  let ?q = "(upd_queue i [cmd] (ct_queue c))\<lparr>rank_q_empty := (rank_q_empty (ct_queue c))(c_Rank cmd := False)\<rparr>"
  have q: "WillAcceptCommand cfg (ct_queue c) (c_Rank cmd) (c_Bankgroup cmd) (c_Bank cmd) = ret True"
      "AddCommand cfg cmd (ct_queue c) = ret (True, ?q)"
    using l i by (auto simp: WillAcceptCommand_def AddCommand_def lone_def alone_def Let_def)
  have "ScheduleTransaction cfg c = ret (c\<lparr>ct_queue := ?q, read_queue := []\<rparr>)"
    using l d q nw by (simp add: ScheduleTransaction_def chosen_queue_def source_queue_def lone_def t set_source_queue_def)
  then show ?thesis
    using l unfolding finish_tick_def
    by (simp add: cq_ClockTick_def) (simp add: lone_def alone_def finished_def queue_in_def upd_queue_def add.assoc)
qed

lemma counted_ranks:
  "\<exists>c'. fold (ct_count_rank cfg) [0..ranks cfg - 1] c = c' \<and> lone cfg i cmds rq pend fin d c' = lone cfg i cmds rq pend fin d c \<and>
     same_banks c c' \<and> ct_clk c' = ct_clk c \<and> ct_queue c' = ct_queue c"
proof -
  obtain st f where "fold (ct_count_rank cfg) [0..ranks cfg - 1] c =
      c\<lparr>ct_stats := st, ct_channel := (ct_channel c)\<lparr>rank_idle_cycles := f\<rparr>\<rparr>" using count_ranks by blast
  then show ?thesis by (simp add: lone_def same_banks_def)
qed

lemma end_idle:
  assumes "lone cfg i cmds [] pend fin 1 c"
  shows "\<exists>c'. end_of_tick cfg c = ret c' \<and> lone cfg i cmds [] pend fin 0 c' \<and> same_banks c c' \<and> ct_clk c' = ct_clk c + 1"
  unfolding end_of_tick_def
  using counted_ranks [of cfg c i cmds "[]" pend fin 1] finish_idle [of cfg i cmds pend fin] assms by (fastforce simp: finished_def same_banks_def)

lemma end_schedule:
  assumes l: "lone cfg i [] [tr] pend fin 1 c" and w: "\<not> tr_is_write tr"
    and cmd: "cmd = mk_Command READ (AddressMapping cfg (tr_addr tr)) (tr_addr tr)"
    and i: "i = GetQueueIndex cfg (ct_queue c) (c_Rank cmd) (c_Bankgroup cmd) (c_Bank cmd)"
  shows "\<exists>c'. end_of_tick cfg c = ret c' \<and> lone cfg i [cmd] [] pend fin 0 c' \<and> same_banks c c' \<and> ct_clk c' = ct_clk c + 1"
proof -
  obtain c1 where c1: "fold (ct_count_rank cfg) [0..ranks cfg - 1] c = c1" "lone cfg i [] [tr] pend fin 1 c1" "same_banks c c1"
      "ct_clk c1 = ct_clk c" "ct_queue c1 = ct_queue c"
    using counted_ranks [of cfg c i "[]" "[tr]" pend fin 1] l by blast
  then show ?thesis
    unfolding end_of_tick_def using finish_schedule [OF c1(2) w cmd] i by (fastforce simp: finished_def same_banks_def)
qed

section \<open>Issuing its commands\<close>

lemma lone_queue:
  assumes "lone cfg i cmds rq pend fin d c"
  shows "alone i cmds (ct_queue c)" "queue_in (ct_queue c) i" "cq_clk (ct_queue c) = ct_clk c" "\<not> IsRefreshWaiting (ct_channel c)"
  using assms by (simp_all add: lone_def IsRefreshWaiting_def)

lemma no_command [simp]: "\<not> IsValid no_Command"
  by (simp add: IsValid_def no_Command_def mk_Command_def)

lemma get_command_none:
  assumes "lone cfg i [] rq pend fin d c"
  shows "ct_get_command cfg c = ret (no_Command, c)"
  using queue_scan_idle [OF lone_queue(1) [OF assms]] by (simp add: ct_get_command_def)

lemma get_command_wait:
  assumes l: "lone cfg i [cmd] rq pend fin d c" and r: "cs_GetReadyCommand cfg (ct_channel c) cmd (ct_clk c) = ret r" "\<not> IsValid r"
  shows "ct_get_command cfg c = ret (no_Command, c)"
proof -
  have "cmd_type r \<noteq> PRECHARGE" "\<not> IsWriteC r" using r(2) by (auto simp: command_defs)
  then show ?thesis
    using scan_alone [OF lone_queue(1,2) [OF l], of cfg "ct_channel c" r "ct_stats c"] r lone_queue(3) [OF l]
    by (simp add: ct_get_command_def)
qed

lemma issue_nothing:
  assumes "ct_get_command cfg c = ret (no_Command, c)" "\<not> IsRefreshWaiting (ct_channel c)"
  shows "ct_issue_phase cfg tm c = ret ([], c)"
  using assms by (simp add: ct_issue_phase_def ct_pick_command_def)

text \<open>A command that moves no data: the read stays in its queue.\<close>

lemma issue_other:
  assumes l: "lone cfg i [cmd] rq pend fin d c" and r: "cs_GetReadyCommand cfg (ct_channel c) cmd (ct_clk c) = ret r"
      "cmd_type r = ACTIVATE"
    and u: "UpdateTimingAndStates cfg tm r (ct_clk c) (ct_channel c) = ret cs" "refresh_q cs = []"
    and w: "cs_GetReadyCommand cfg cs cmd (ct_clk c) = ret r2" "\<not> IsValid r2"
  shows "\<exists>c1. ct_issue_phase cfg tm c = ret ([(ct_clk c, r)], c1) \<and> lone cfg i [cmd] rq pend fin d c1 \<and> ct_channel c1 = cs \<and>
    ct_clk c1 = ct_clk c \<and> ct_refresh c1 = ct_refresh c"
proof -
  let ?c1 = "c\<lparr>ct_queue := (ct_queue c)\<lparr>queue_idx := i\<rparr>\<rparr>"
  have k: "IsValid r" "\<not> IsReadWrite r" "\<not> IsReadC r" "\<not> IsWriteC r" "cmd_type r \<noteq> PRECHARGE"
    using r(2) by (auto simp: command_defs)
  have g: "ct_get_command cfg c = ret (r, ?c1)"
    using scan_alone [OF lone_queue(1,2) [OF l], of cfg "ct_channel c" r "ct_stats c"] r k lone_queue(3) [OF l]
    by (simp add: ct_get_command_def)
  obtain f where "UpdateCommandStats r ?c1 = ret (upd_stats f ?c1)" using UpdateCommandStats_ok [OF k(1)] by blast
  then have i: "IssueCommand cfg tm r ?c1 = ret ((upd_stats f ?c1)\<lparr>ct_channel := cs\<rparr>)" (is "_ = ret ?c2")
    using k u(1) by (simp add: IssueCommand_def upd_stats_def)
  have l2: "lone cfg i [cmd] rq pend fin d ?c2"
    using l u(2) by (simp add: lone_def upd_stats_def alone_def queue_in_def)
  have c2: "ct_channel ?c2 = cs" "ct_clk ?c2 = ct_clk c" "ct_refresh ?c2 = ct_refresh c" by (simp_all add: upd_stats_def)
  have g2: "ct_get_command cfg ?c2 = ret (no_Command, ?c2)"
    by (rule get_command_wait [OF l2, of r2]) (use w c2 in simp_all)
  have "ct_pick_command cfg c = ret (r, ?c1)" using g k(1) lone_queue(4) [OF l] by (simp add: ct_pick_command_def)
  then have "ct_issue_phase cfg tm c = ret ([(ct_clk c, r)], ?c2)"
    using i g2 k(1) by (simp add: ct_issue_phase_def del: upd_stats_simps)
  then show ?thesis using l2 c2 by blast
qed

lemma issue_read:
  assumes l: "lone cfg i [cmd] [] [(a, tr)] fin d c" and cmd: "cmd_type cmd = READ" "hex_addr cmd = a"
    and i: "i = GetQueueIndex cfg (ct_queue c) (c_Rank cmd) (c_Bankgroup cmd) (c_Bank cmd)"
    and r: "cs_GetReadyCommand cfg (ct_channel c) cmd (ct_clk c) = ret cmd"
    and u: "UpdateTimingAndStates cfg tm cmd (ct_clk c) (ct_channel c) = ret cs" "refresh_q cs = []"
  shows "\<exists>c1. ct_issue_phase cfg tm c = ret ([(ct_clk c, cmd)], c1) \<and>
    lone cfg i [] [] [] (fin @ [tr\<lparr>complete_cycle := ct_clk c + of_int (read_delay cfg)\<rparr>]) d c1 \<and>
    ct_clk c1 = ct_clk c \<and> ct_refresh c1 = ct_refresh c"
proof -
  let ?q = "upd_queue i [] ((ct_queue c)\<lparr>queue_idx := i\<rparr>)" and ?t = "tr\<lparr>complete_cycle := ct_clk c + of_int (read_delay cfg)\<rparr>"
  let ?c1 = "c\<lparr>ct_queue := ?q\<rparr>"
  have k: "IsValid cmd" "IsReadWrite cmd" "IsReadC cmd" "\<not> IsWriteC cmd" "cmd_type cmd \<noteq> PRECHARGE"
    using cmd(1) by (auto simp: command_defs)
  have "GetQueueIndex cfg ((ct_queue c)\<lparr>queue_idx := i\<rparr>) (c_Rank cmd) (c_Bankgroup cmd) (c_Bank cmd) = i"
    unfolding i by (simp add: GetQueueIndex_def)
  moreover have "queue_in ((ct_queue c)\<lparr>queue_idx := i\<rparr>) i" "queues (ct_queue c) i = [cmd]"
    using l by (simp_all add: lone_def alone_def queue_in_def)
  ultimately have "EraseRWCommand cfg cmd ((ct_queue c)\<lparr>queue_idx := i\<rparr>) = ret ?q" by (simp add: EraseRWCommand_def)
  then have g: "ct_get_command cfg c = ret (cmd, ?c1)"
    using scan_alone [OF lone_queue(1,2) [OF l], of cfg "ct_channel c" cmd "ct_stats c"] r k lone_queue(3) [OF l]
    by (simp add: ct_get_command_def)
  let ?c2 = "?c1\<lparr>return_queue := fin @ [?t], pending_rd_q := []\<rparr>"
  have fin: "mm_count (pending_rd_q ?c1) (hex_addr cmd) \<noteq> 0" "complete_reads cfg (hex_addr cmd) ?c1 = ?c2"
    using l cmd(2) by (simp_all add: lone_def mm_count_def complete_reads_def)
  obtain f where "UpdateCommandStats cmd ?c2 = ret (upd_stats f ?c2)" using UpdateCommandStats_ok [OF k(1)] by blast
  then have iss: "IssueCommand cfg tm cmd ?c1 = ret ((upd_stats f ?c2)\<lparr>ct_channel := cs\<rparr>)" (is "_ = ret ?c3")
    using k u(1) fin by (simp add: IssueCommand_def upd_stats_def)
  have l3: "lone cfg i [] [] [] (fin @ [?t]) d ?c3"
    using l u(2) by (simp add: lone_def upd_stats_def alone_def queue_in_def upd_queue_def)
  have c3: "ct_clk ?c3 = ct_clk c" "ct_refresh ?c3 = ct_refresh c" by (simp_all add: upd_stats_def)
  have "ct_pick_command cfg c = ret (cmd, ?c1)" using g k(1) lone_queue(4) [OF l] by (simp add: ct_pick_command_def)
  then have "ct_issue_phase cfg tm c = ret ([(ct_clk c, cmd)], ?c3)"
    using iss get_command_none [OF l3] k(1) by (simp add: ct_issue_phase_def)
  then show ?thesis using l3 c3 by blast
qed

section \<open>The bank of the read\<close>

definition read_command :: "Config \<Rightarrow> 64 word \<Rightarrow> Command" where
  "read_command cfg a = mk_Command READ (AddressMapping cfg a) a"

definition bank_of :: "Config \<Rightarrow> ChannelState \<Rightarrow> 64 word \<Rightarrow> BankState" where
  "bank_of cfg cs a =
     (let m = AddressMapping cfg a in bank_states cs (ad_rank m) (ad_bankgroup m) (ad_bank m))"

lemma read_command_simps [simp]:
  "cmd_type (read_command cfg a) = READ" "cmd_addr (read_command cfg a) = AddressMapping cfg a" "hex_addr (read_command cfg a) = a"
  by (simp_all add: read_command_def mk_Command_def)

lemma address_in: "config_ok cfg \<Longrightarrow> cs_in cfg (ad_rank (AddressMapping cfg a)) (ad_bankgroup (AddressMapping cfg a)) (ad_bank (AddressMapping cfg a))"
  by (simp add: config_ok_def Let_def)

lemma read_needs_activation:
  assumes "config_ok cfg" "bs_state (bank_of cfg cs a) = CLOSED" "cmd_timing (bank_of cfg cs a) ACTIVATE \<le> t"
    "ActivationWindowOk cfg cs (ad_rank (AddressMapping cfg a)) t"
  shows "cs_GetReadyCommand cfg cs (read_command cfg a) t = ret (mk_Command ACTIVATE (AddressMapping cfg a) a)"
  using assms address_in [OF assms(1)]
  by (simp add: cs_GetReadyCommand_def bank_of_def Let_def bank_GetReadyCommand_def required_type_def command_defs mk_Command_def)

lemma read_when_open:
  assumes "config_ok cfg" "bs_state (bank_of cfg cs a) = OPEN" "open_row (bank_of cfg cs a) = ad_row (AddressMapping cfg a)"
  shows "cs_GetReadyCommand cfg cs (read_command cfg a) t =
    ret (if cmd_timing (bank_of cfg cs a) READ \<le> t then read_command cfg a else no_Command)"
  using assms address_in [OF assms(1)]
  by (simp add: cs_GetReadyCommand_def bank_of_def Let_def bank_GetReadyCommand_def required_type_def command_defs
      mk_Command_def read_command_def no_Command_def)

lemma refresh_q_times [simp]:
  "refresh_q (time_banks P ts t cs) = refresh_q cs" "refresh_q (UpdateActivationTimes cfg r t cs) = refresh_q cs"
  by (simp_all add: time_banks_def UpdateActivationTimes_def Let_def)

lemma activation_opens:
  assumes "config_ok cfg" "bs_state (bank_of cfg cs a) = CLOSED"
  shows "\<exists>cs'. UpdateTimingAndStates cfg (new_Timing cfg) (mk_Command ACTIVATE (AddressMapping cfg a) a) t cs = ret cs' \<and>
    refresh_q cs' = refresh_q cs \<and> bs_state (bank_of cfg cs' a) = OPEN \<and>
    open_row (bank_of cfg cs' a) = ad_row (AddressMapping cfg a) \<and>
    cmd_timing (bank_of cfg cs' a) READ = max (cmd_timing (bank_of cfg cs a) READ) (t + of_int (activate_to_read cfg))"
  using assms address_in [OF assms(1)]
  by (simp add: UpdateTimingAndStates_def cs_UpdateState_def cs_update_bank_def cs_UpdateTiming_def bank_of_def Let_def
      bank_UpdateState_def command_defs mk_Command_def timing_update_defs)
    (simp add: time_banks_def upd_bank_def UpdateActivationTimes_def Let_def apply_timings_def new_Timing_def bank_UpdateTiming_def)

lemma read_keeps_refresh:
  assumes "config_ok cfg" "bs_state (bank_of cfg cs a) = OPEN"
  shows "\<exists>cs'. UpdateTimingAndStates cfg tm (read_command cfg a) t cs = ret cs' \<and> refresh_q cs' = refresh_q cs"
  using assms address_in [OF assms(1)]
  by (simp add: UpdateTimingAndStates_def cs_UpdateState_def cs_update_bank_def cs_UpdateTiming_def bank_of_def Let_def
      bank_UpdateState_def command_defs read_command_def mk_Command_def timing_update_defs upd_bank_def)

section \<open>One channel of the memory system\<close>

lemma drain_all_at:
  assumes "distinct is" "drain_all clk is s = (ts, s')"
  shows "js_clk s' = js_clk s \<and> (j \<notin> set is \<longrightarrow> ctrls s' j = ctrls s j) \<and>
    (j \<in> set is \<longrightarrow> ctrls s' j = snd (drain_done clk (ctrls s j)) \<and> set (fst (drain_done clk (ctrls s j))) \<subseteq> set ts)"
  using assms
proof (induction "is" arbitrary: s ts)
  case (Cons i "is")
  obtain us c where us: "drain_done clk (ctrls s i) = (us, c)" by fastforce
  let ?s = "s\<lparr>ctrls := (ctrls s)(i := c)\<rparr>"
  obtain vs s2 where vs: "drain_all clk is ?s = (vs, s2)" by fastforce
  have e: "ts = us @ vs" "s' = s2" using Cons.prems us vs by auto
  have "distinct is" using Cons.prems(1) by simp
  from Cons.IH [OF this vs [folded e(2)]] show ?case using Cons.prems(1) us e by auto
qed simp

lemma tick_ctrls_at:
  assumes "distinct is" "for_run (js_tick_ctrl cfg tm) is s = ret s'"
  shows "js_clk s' = js_clk s \<and> (j \<notin> set is \<longrightarrow> ctrls s' j = ctrls s j) \<and>
    (j \<in> set is \<longrightarrow> ct_ClockTick cfg tm (ctrls s j) = ret (ctrls s' j))"
  using assms
proof (induction "is" arbitrary: s)
  case (Cons i "is")
  obtain c where c: "ct_ClockTick cfg tm (ctrls s i) = ret c" "for_run (js_tick_ctrl cfg tm) is (s\<lparr>ctrls := (ctrls s)(i := c)\<rparr>) = ret s'"
    using Cons.prems(2) by (auto simp: run_bind_ret js_tick_ctrl_def [of cfg tm i s])
  have "distinct is" using Cons.prems(1) by simp
  from Cons.IH [OF this c(2)] show ?case using Cons.prems(1) c(1) by (auto split: if_splits)
qed simp

lemma print_at: "\<exists>f. ctrls (js_PrintEpochStats cfg s) j = upd_stats f (ctrls s j) \<and> js_clk (js_PrintEpochStats cfg s) = js_clk s"
proof -
  let ?f = "\<lambda>i s. s\<lparr>ctrls := (ctrls s)(i := ct_PrintEpochStats (ctrls s i))\<rparr>"
  have id: "c = upd_stats id c" for c by (simp add: upd_stats_def)
  have comp: "upd_stats f (upd_stats g c) = upd_stats (f \<circ> g) c" for f g c by (simp add: upd_stats_def)
  have "\<exists>f. ctrls (fold ?f xs s) j = upd_stats f (ctrls s j) \<and> js_clk (fold ?f xs s) = js_clk s" for xs s
  proof (induction xs arbitrary: s)
    case (Cons x xs)
    have "\<exists>f. ctrls (?f x s) j = upd_stats f (ctrls s j)"
      using id by (cases "x = j") (auto simp: ct_PrintEpochStats_def)
    then show ?case using Cons [of "?f x s"] comp by (metis (no_types, lifting) JedecDRAMSystem.simps(1) JedecDRAMSystem.select_convs(1) JedecDRAMSystem.surjective JedecDRAMSystem.update_convs(3) comp_apply fold_simps(2))
  qed (use id in auto)
  then show ?thesis unfolding js_PrintEpochStats_def by blast
qed

lemma js_step:
  assumes ok: "js_ok cfg s" and ch: "ch_in cfg ch" and d: "drain_done (js_clk s) (ctrls s ch) = (us, c1)"
    and t: "ct_ClockTick cfg tm c1 = ret c2"
  shows "\<exists>ts s' f. js_ClockTick cfg tm s = ret (ts, s') \<and> js_ok cfg s' \<and> js_clk s' = js_clk s + 1 \<and>
    set us \<subseteq> set ts \<and> ctrls s' ch = upd_stats f c2"
proof -
  let ?I = "[0..channels cfg - 1]"
  have I: "ch \<in> set ?I" "distinct ?I" using ch by (simp_all add: ch_in_def)
  obtain ts s' where js: "js_ClockTick cfg tm s = ret (ts, s')" "js_ok cfg s'" using js_tick [OF ok] by blast
  obtain vs s1 where s1: "drain_all (js_clk s) ?I s = (vs, s1)" by fastforce
  have a: "js_clk s1 = js_clk s" "ctrls s1 ch = c1" "set us \<subseteq> set vs"
    using drain_all_at [OF I(2) s1, of ch] I(1) d by simp_all
  obtain s2 where s2: "for_run (js_tick_ctrl cfg tm) ?I s1 = ret s2" "vs = ts"
      "s' = s2\<lparr>js_clk := js_clk s2 + 1\<rparr> \<or> s' = js_PrintEpochStats cfg (s2\<lparr>js_clk := js_clk s2 + 1\<rparr>)"
    using js(1) s1 by (auto simp: js_ClockTick_def js_advance_def Let_def run_elims split: if_splits)
  have b: "js_clk s2 = js_clk s1" "ctrls s2 ch = c2"
    using tick_ctrls_at [OF I(2) s2(1), of ch] I(1) a(2) t by simp_all
  have "\<exists>f. ctrls s' ch = upd_stats f c2 \<and> js_clk s' = js_clk s + 1"
    using s2(3)
  proof
    assume "s' = s2\<lparr>js_clk := js_clk s2 + 1\<rparr>"
    then have "ctrls s' ch = upd_stats id c2 \<and> js_clk s' = js_clk s + 1" using a b by (simp add: upd_stats_def)
    then show ?thesis by blast
  next
    assume "s' = js_PrintEpochStats cfg (s2\<lparr>js_clk := js_clk s2 + 1\<rparr>)"
    then show ?thesis using print_at [of cfg "s2\<lparr>js_clk := js_clk s2 + 1\<rparr>" ch] a b by auto
  qed
  then show ?thesis using js a(3) s2(2) by blast
qed

section \<open>The phases of a read\<close>

text \<open>A controller with at most one read under way at time \<open>t\<close>; \<open>B\<close> is what is known of its banks.\<close>

definition ct_serving ::
    "Config \<Rightarrow> int \<Rightarrow> int \<Rightarrow> Command list \<Rightarrow> Transaction list \<Rightarrow> (64 word \<times> Transaction) list \<Rightarrow> Transaction list \<Rightarrow>
     (ChannelState \<Rightarrow> bool) \<Rightarrow> 64 word \<Rightarrow> Controller \<Rightarrow> bool" where
  "ct_serving cfg n i cmds rq pend fin B t c \<longleftrightarrow>
     ct_clk c = t \<and> refresh_interval (ct_refresh c) = n \<and> lone cfg i cmds rq pend fin 0 c \<and> B (ct_channel c)"

text \<open>The channel \<open>ch\<close> of a memory system serves at most one read.\<close>

definition serving ::
    "Config \<Rightarrow> int \<Rightarrow> int \<Rightarrow> int \<Rightarrow> Command list \<Rightarrow> Transaction list \<Rightarrow> (64 word \<times> Transaction) list \<Rightarrow> Transaction list \<Rightarrow>
     (ChannelState \<Rightarrow> bool) \<Rightarrow> 64 word \<Rightarrow> JedecDRAMSystem \<Rightarrow> bool" where
  "serving cfg ch n i cmds rq pend fin B t s \<longleftrightarrow>
     js_ok cfg s \<and> ch_in cfg ch \<and> js_clk s = t \<and> ct_serving cfg n i cmds rq pend fin B t (ctrls s ch)"

lemmas serving_defs = serving_def ct_serving_def

definition quiet_at :: "int \<Rightarrow> 64 word \<Rightarrow> bool" where
  "quiet_at n t \<longleftrightarrow> (of_int n :: 64 word) \<noteq> 0 \<and> (t mod of_int n \<noteq> 0 \<or> t = 0)"

abbreviation lead :: "Controller \<Rightarrow> Controller" where
  "lead c \<equiv> c\<lparr>ct_refresh := (ct_refresh c)\<lparr>rf_clk := rf_clk (ct_refresh c) + 1\<rparr>\<rparr>"

lemma lone_lead: "lone cfg i cmds rq pend fin 0 c \<Longrightarrow> lone cfg i cmds rq pend fin 1 (lead c)"
  by (simp add: lone_def)

lemma drain_not_due: "\<forall>x\<in>set (return_queue c). t < complete_cycle x \<Longrightarrow> drain_done t c = ([], c)"
proof -
  assume "\<forall>x\<in>set (return_queue c). t < complete_cycle x"
  then have "List.find (\<lambda>x. complete_cycle x \<le> t) (return_queue c) = None" by (auto simp: find_None_iff)
  then show ?thesis by (simp add: drain_done.simps ReturnDoneTrans_def)
qed

text \<open>A cycle of the controller, from what its two phases do to it.\<close>

lemma ct_serving_tick:
  assumes c: "ct_serving cfg n i cmds rq pend fin B t c" "quiet_at n t" "config_ok cfg"
    and iss: "ct_issue_phase cfg tm (lead c) = ret (b, c1)" "refresh_interval (ct_refresh c1) = n"
    and fin: "end_of_tick cfg c1 = ret c2" "lone cfg i cmds' rq' pend' fin' 0 c2" "same_banks c1 c2" "ct_clk c2 = t + 1"
    and B: "\<And>c. same_banks c1 c \<Longrightarrow> B' (ct_channel c)"
  shows "\<exists>c'. ct_tick_trace cfg tm c = ret (b, c') \<and> ct_serving cfg n i cmds' rq' pend' fin' B' (t + 1) c'"
proof -
  have "no_refresh_at (ct_refresh c) (rf_clk (ct_refresh c))"
    using c(1,2) by (simp add: ct_serving_def lone_def no_refresh_at_def quiet_at_def Let_def)
  moreover have "\<not> enable_self_refresh cfg" using c(3) by (simp add: config_ok_def)
  ultimately have "ct_tick_trace cfg tm c = ret (b, c2)" using tick_phases iss(1) fin(1) by simp
  moreover have "refresh_interval (ct_refresh c2) = n" using fin(3) iss(2) by (simp add: same_banks_def)
  ultimately show ?thesis using fin B [of c2] by (simp add: ct_serving_def)
qed

text \<open>The same cycle of the memory system.\<close>

lemma serving_tick:
  assumes s: "serving cfg ch n i cmds rq pend fin B t s" "\<forall>x\<in>set fin. t < complete_cycle x"
    and c: "\<exists>b c'. ct_tick_trace cfg tm (ctrls s ch) = ret (b, c') \<and> ct_serving cfg n i cmds' rq' pend' fin' B' (t + 1) c'"
  shows "\<exists>ts s'. js_ClockTick cfg tm s = ret (ts, s') \<and> serving cfg ch n i cmds' rq' pend' fin' B' (t + 1) s'"
proof -
  let ?c = "ctrls s ch"
  have k: "js_ok cfg s" "ch_in cfg ch" "js_clk s = t" "return_queue ?c = fin" using s(1) by (simp_all add: serving_defs lone_def)
  then have d: "drain_done (js_clk s) ?c = ([], ?c)" using s(2) drain_not_due [of ?c t] by simp
  from c obtain b c' where c': "ct_tick_trace cfg tm ?c = ret (b, c')" "ct_serving cfg n i cmds' rq' pend' fin' B' (t + 1) c'" by blast
  then have "ct_ClockTick cfg tm ?c = ret c'" by (simp add: ct_ClockTick_def)
  from js_step [OF k(1,2) d this] obtain ts s' f where "js_ClockTick cfg tm s = ret (ts, s')" "js_ok cfg s'"
      "js_clk s' = t + 1" "ctrls s' ch = upd_stats f c'"
    using k(3) by auto
  then show ?thesis using k(2) c'(2) by (auto simp: serving_defs upd_stats_def lone_def)
qed

lemma serving_ct: "serving cfg ch n i cmds rq pend fin B t s \<Longrightarrow> ct_serving cfg n i cmds rq pend fin B t (ctrls s ch) \<and> config_ok cfg"
  using js_ok_config by (auto simp: serving_def)

text \<open>A cycle in which nothing is issued.\<close>

lemma ct_phase_wait:
  assumes s: "ct_serving cfg n i cmds [] pend fin B t c" "quiet_at n t" "config_ok cfg"
    and w: "cmds = [] \<or> (\<exists>cmd r. cmds = [cmd] \<and> cs_GetReadyCommand cfg (ct_channel c) cmd t = ret r \<and> \<not> IsValid r)"
    and B: "\<And>c'. same_banks c c' \<Longrightarrow> B' (ct_channel c')"
  shows "\<exists>c'. ct_tick_trace cfg tm c = ret ([], c') \<and> ct_serving cfg n i cmds [] pend fin B' (t + 1) c'"
proof -
  let ?c = "lead c"
  have l: "lone cfg i cmds [] pend fin 1 ?c" and t: "ct_clk ?c = t" and n: "refresh_interval (ct_refresh ?c) = n"
    using s(1) lone_lead by (simp_all add: ct_serving_def)
  have "ct_get_command cfg ?c = ret (no_Command, ?c)"
    using w
  proof
    assume "cmds = []"
    then show ?thesis using get_command_none l by blast
  next
    assume "\<exists>cmd r. cmds = [cmd] \<and> cs_GetReadyCommand cfg (ct_channel c) cmd t = ret r \<and> \<not> IsValid r"
    then obtain cmd r where "cmds = [cmd]" "cs_GetReadyCommand cfg (ct_channel ?c) cmd (ct_clk ?c) = ret r" "\<not> IsValid r"
      using t by auto
    then show ?thesis using get_command_wait l by blast
  qed
  then have iss: "ct_issue_phase cfg tm ?c = ret ([], ?c)" using issue_nothing lone_queue(4) [OF l] by blast
  obtain c2 where c2: "end_of_tick cfg ?c = ret c2" "lone cfg i cmds [] pend fin 0 c2" "same_banks ?c c2" "ct_clk c2 = ct_clk ?c + 1"
    using end_idle [OF l] by blast
  have "same_banks ?c c' \<Longrightarrow> B' (ct_channel c')" for c' using B by (simp add: same_banks_def)
  then show ?thesis using ct_serving_tick [OF s iss n c2(1-3), of B'] c2(4) t by simp
qed

definition read_queue_of :: "Config \<Rightarrow> 64 word \<Rightarrow> int" where
  "read_queue_of cfg a =
     (let m = AddressMapping cfg a in ad_rank m * banks cfg + ad_bankgroup m * banks_per_group cfg + ad_bank m)"

definition closed_bank :: "Config \<Rightarrow> 64 word \<Rightarrow> 64 word \<Rightarrow> ChannelState \<Rightarrow> bool" where
  "closed_bank cfg a t cs \<longleftrightarrow>
     bs_state (bank_of cfg cs a) = CLOSED \<and> cmd_timing (bank_of cfg cs a) ACTIVATE \<le> t \<and>
     cmd_timing (bank_of cfg cs a) READ \<le> t + of_int (activate_to_read cfg) \<and>
     ActivationWindowOk cfg cs (ad_rank (AddressMapping cfg a)) t"

definition open_bank :: "Config \<Rightarrow> 64 word \<Rightarrow> 64 word \<Rightarrow> ChannelState \<Rightarrow> bool" where
  "open_bank cfg a t cs \<longleftrightarrow>
     bs_state (bank_of cfg cs a) = OPEN \<and> open_row (bank_of cfg cs a) = ad_row (AddressMapping cfg a) \<and>
     cmd_timing (bank_of cfg cs a) READ = t"

text \<open>The row of the address is open, and a read may issue by time \<open>t\<close>.\<close>

definition row_hit :: "Config \<Rightarrow> 64 word \<Rightarrow> 64 word \<Rightarrow> ChannelState \<Rightarrow> bool" where
  "row_hit cfg a t cs \<longleftrightarrow> open_bank cfg a (cmd_timing (bank_of cfg cs a) READ) cs \<and> cmd_timing (bank_of cfg cs a) READ \<le> t"

lemma same_banks_bank:
  assumes "same_banks c c'"
  shows "bank_of cfg (ct_channel c') a = bank_of cfg (ct_channel c) a"
    "closed_bank cfg a t (ct_channel c') = closed_bank cfg a t (ct_channel c)"
    "open_bank cfg a t (ct_channel c') = open_bank cfg a t (ct_channel c)"
    "row_hit cfg a t (ct_channel c') = row_hit cfg a t (ct_channel c)"
  using assms
  by (simp_all add: same_banks_def bank_of_def closed_bank_def open_bank_def row_hit_def Let_def ActivationWindowOk_def
      IsFAWReady_def Is32AWReady_def)

lemma read_queue_index:
  "q_structure q = PER_BANK \<Longrightarrow>
   GetQueueIndex cfg q (c_Rank (read_command cfg a)) (c_Bankgroup (read_command cfg a)) (c_Bank (read_command cfg a)) = read_queue_of cfg a"
  by (simp add: GetQueueIndex_def read_queue_of_def Let_def)

lemma ct_phase_schedule:
  assumes s: "ct_serving cfg n (read_queue_of cfg a) [] [tr] pend [] B t c" "quiet_at n t" "config_ok cfg"
    and tr: "tr_addr tr = a" "\<not> tr_is_write tr"
    and B: "\<And>c c'. same_banks c c' \<Longrightarrow> B (ct_channel c') = B (ct_channel c)"
  shows "\<exists>c'. ct_tick_trace cfg tm c = ret ([], c') \<and>
    ct_serving cfg n (read_queue_of cfg a) [read_command cfg a] [] pend [] B (t + 1) c'"
proof -
  let ?c = "lead c"
  have l: "lone cfg (read_queue_of cfg a) [] [tr] pend [] 1 ?c" and t: "ct_clk ?c = t" and n: "refresh_interval (ct_refresh ?c) = n"
    and b: "B (ct_channel c)"
    using s(1) lone_lead by (simp_all add: ct_serving_def)
  have q: "q_structure (ct_queue ?c) = PER_BANK" using l by (simp add: lone_def)
  have iss: "ct_issue_phase cfg tm ?c = ret ([], ?c)"
    using issue_nothing [OF get_command_none [OF l] lone_queue(4) [OF l]] .
  have "read_command cfg a = mk_Command READ (AddressMapping cfg (tr_addr tr)) (tr_addr tr)" using tr by (simp add: read_command_def)
  from end_schedule [OF l tr(2) this read_queue_index [OF q, symmetric]]
  obtain c2 where c2: "end_of_tick cfg ?c = ret c2" "lone cfg (read_queue_of cfg a) [read_command cfg a] [] pend [] 0 c2"
      "same_banks ?c c2" "ct_clk c2 = ct_clk ?c + 1" by blast
  have "same_banks ?c c \<Longrightarrow> B (ct_channel c)" for c using B [of ?c c] b by simp
  then show ?thesis using ct_serving_tick [OF s iss n c2(1-3), of B] c2(4) t by simp
qed

lemma ct_phase_activate:
  assumes s: "ct_serving cfg n i [read_command cfg a] [] pend [] (closed_bank cfg a t) t c" "quiet_at n t" "config_ok cfg"
    and d: "t < t + of_int (activate_to_read cfg)"
  shows "\<exists>c'. ct_tick_trace cfg (new_Timing cfg) c = ret ([(t, mk_Command ACTIVATE (AddressMapping cfg a) a)], c') \<and>
    ct_serving cfg n i [read_command cfg a] [] pend [] (open_bank cfg a (t + of_int (activate_to_read cfg))) (t + 1) c'"
proof -
  let ?c = "lead c" and ?tm = "new_Timing cfg" and ?r = "mk_Command ACTIVATE (AddressMapping cfg a) a"
  let ?u = "t + of_int (activate_to_read cfg)"
  have l: "lone cfg i [read_command cfg a] [] pend [] 1 ?c" and t: "ct_clk ?c = t" and n: "refresh_interval (ct_refresh ?c) = n"
    and b: "closed_bank cfg a t (ct_channel ?c)" and rq: "refresh_q (ct_channel ?c) = []"
    using s(1) lone_lead by (auto simp: ct_serving_def lone_def)
  note cfg = s(3)
  have b': "bs_state (bank_of cfg (ct_channel ?c) a) = CLOSED" "cmd_timing (bank_of cfg (ct_channel ?c) a) ACTIVATE \<le> t"
      "cmd_timing (bank_of cfg (ct_channel ?c) a) READ \<le> ?u" "ActivationWindowOk cfg (ct_channel ?c) (ad_rank (AddressMapping cfg a)) t"
    using b by (simp_all add: closed_bank_def)
  have r: "cs_GetReadyCommand cfg (ct_channel ?c) (read_command cfg a) (ct_clk ?c) = ret ?r"
    unfolding t using read_needs_activation [OF cfg b'(1,2,4)] .
  obtain cs where cs: "UpdateTimingAndStates cfg ?tm ?r t (ct_channel ?c) = ret cs" "refresh_q cs = refresh_q (ct_channel ?c)"
      "bs_state (bank_of cfg cs a) = OPEN" "open_row (bank_of cfg cs a) = ad_row (AddressMapping cfg a)"
      "cmd_timing (bank_of cfg cs a) READ = max (cmd_timing (bank_of cfg (ct_channel ?c) a) READ) ?u"
    using activation_opens [OF cfg b'(1), of t] by blast
  have opn: "open_bank cfg a ?u cs" using cs(3-5) b'(3) by (simp add: open_bank_def max_def)
  have w: "cs_GetReadyCommand cfg cs (read_command cfg a) (ct_clk ?c) = ret no_Command"
    using read_when_open [OF cfg cs(3,4), of t] opn d t by (simp add: open_bank_def)
  obtain c1 where c1: "ct_issue_phase cfg ?tm ?c = ret ([(ct_clk ?c, ?r)], c1)" "lone cfg i [read_command cfg a] [] pend [] 1 c1"
      "ct_channel c1 = cs" "ct_clk c1 = ct_clk ?c" "ct_refresh c1 = ct_refresh ?c"
    using issue_other [OF l r _ cs(1) [folded t] _ w] cs(2) rq by (auto simp: mk_Command_def)
  obtain c2 where c2: "end_of_tick cfg c1 = ret c2" "lone cfg i [read_command cfg a] [] pend [] 0 c2" "same_banks c1 c2" "ct_clk c2 = ct_clk c1 + 1"
    using end_idle [OF c1(2)] by blast
  have "same_banks c1 c \<Longrightarrow> open_bank cfg a ?u (ct_channel c)" for c using same_banks_bank(3) [of c1 c] opn c1(3) by simp
  then show ?thesis using ct_serving_tick [OF s c1(1) _ c2(1-3), of "open_bank cfg a ?u"] c2(4) c1(4,5) t n by simp
qed

lemma ct_phase_read:
  assumes s: "ct_serving cfg n (read_queue_of cfg a) [read_command cfg a] [] [(a, tr)] [] (open_bank cfg a u) t c" "quiet_at n t" "config_ok cfg"
    and d: "u \<le> t"
  shows "\<exists>c'. ct_tick_trace cfg tm c = ret ([(t, read_command cfg a)], c') \<and>
    ct_serving cfg n (read_queue_of cfg a) [] [] [] [tr\<lparr>complete_cycle := t + of_int (read_delay cfg)\<rparr>] (\<lambda>_. True) (t + 1) c'"
proof -
  let ?c = "lead c" and ?i = "read_queue_of cfg a" and ?f = "[tr\<lparr>complete_cycle := t + of_int (read_delay cfg)\<rparr>]"
  have l: "lone cfg ?i [read_command cfg a] [] [(a, tr)] [] 1 ?c" and t: "ct_clk ?c = t" and n: "refresh_interval (ct_refresh ?c) = n"
    and b: "open_bank cfg a u (ct_channel ?c)" and rq: "refresh_q (ct_channel ?c) = []"
    and q: "q_structure (ct_queue ?c) = PER_BANK"
    using s(1) lone_lead by (auto simp: ct_serving_def lone_def)
  note cfg = s(3)
  have b': "bs_state (bank_of cfg (ct_channel ?c) a) = OPEN" "open_row (bank_of cfg (ct_channel ?c) a) = ad_row (AddressMapping cfg a)"
      "cmd_timing (bank_of cfg (ct_channel ?c) a) READ \<le> t"
    using b d by (auto simp: open_bank_def)
  have r: "cs_GetReadyCommand cfg (ct_channel ?c) (read_command cfg a) (ct_clk ?c) = ret (read_command cfg a)"
    using read_when_open [OF cfg b'(1,2), of t] b'(3) t by simp
  obtain cs where cs: "UpdateTimingAndStates cfg tm (read_command cfg a) (ct_clk ?c) (ct_channel ?c) = ret cs" "refresh_q cs = []"
    using read_keeps_refresh [OF cfg b'(1), of tm t] rq t by auto
  obtain c1 where c1: "ct_issue_phase cfg tm ?c = ret ([(ct_clk ?c, read_command cfg a)], c1)" "lone cfg ?i [] [] [] ?f 1 c1"
      "ct_clk c1 = ct_clk ?c" "ct_refresh c1 = ct_refresh ?c"
    using issue_read [OF l _ _ read_queue_index [OF q, symmetric] r cs] t by auto
  obtain c2 where c2: "end_of_tick cfg c1 = ret c2" "lone cfg ?i [] [] [] ?f 0 c2" "same_banks c1 c2" "ct_clk c2 = ct_clk c1 + 1"
    using end_idle [OF c1(2)] by blast
  show ?thesis using ct_serving_tick [OF s c1(1) _ c2(1-3), of "\<lambda>_. True"] c2(4) c1(3,4) t n by simp
qed

text \<open>The phases in the memory system.\<close>

lemma serving_wait:
  assumes s: "serving cfg ch n i cmds [] pend fin B t s" "quiet_at n t" "\<forall>x\<in>set fin. t < complete_cycle x"
    and w: "cmds = [] \<or> (\<exists>cmd r. cmds = [cmd] \<and> cs_GetReadyCommand cfg (ct_channel (ctrls s ch)) cmd t = ret r \<and> \<not> IsValid r)"
    and B: "\<And>c. same_banks (ctrls s ch) c \<Longrightarrow> B' (ct_channel c)"
  shows "\<exists>ts s'. js_ClockTick cfg tm s = ret (ts, s') \<and> serving cfg ch n i cmds [] pend fin B' (t + 1) s'"
proof -
  note c = serving_ct [OF s(1), THEN conjunct1] serving_ct [OF s(1), THEN conjunct2]
  show ?thesis using ct_phase_wait [OF c(1) s(2) c(2) w, of B'] B by (intro serving_tick [OF s(1,3)]) blast
qed

lemma phase_schedule:
  assumes s: "serving cfg ch n (read_queue_of cfg a) [] [tr] pend [] B t s" "quiet_at n t"
    and tr: "tr_addr tr = a" "\<not> tr_is_write tr"
    and B: "\<And>c c'. same_banks c c' \<Longrightarrow> B (ct_channel c') = B (ct_channel c)"
  shows "\<exists>ts s'. js_ClockTick cfg tm s = ret (ts, s') \<and>
    serving cfg ch n (read_queue_of cfg a) [read_command cfg a] [] pend [] B (t + 1) s'"
proof -
  note c = serving_ct [OF s(1), THEN conjunct1] serving_ct [OF s(1), THEN conjunct2]
  show ?thesis using ct_phase_schedule [OF c(1) s(2) c(2) tr] B by (intro serving_tick [OF s(1)]) (simp, blast)
qed

lemma phase_activate:
  assumes s: "serving cfg ch n i [read_command cfg a] [] pend [] (closed_bank cfg a t) t s" "quiet_at n t"
    and d: "t < t + of_int (activate_to_read cfg)"
  shows "\<exists>ts s'. js_ClockTick cfg (new_Timing cfg) s = ret (ts, s') \<and>
    serving cfg ch n i [read_command cfg a] [] pend [] (open_bank cfg a (t + of_int (activate_to_read cfg))) (t + 1) s'"
  using ct_phase_activate [OF _ s(2) _ d] serving_ct [OF s(1)] by (intro serving_tick [OF s(1)]) (simp, blast)

lemma phase_read:
  assumes s: "serving cfg ch n (read_queue_of cfg a) [read_command cfg a] [] [(a, tr)] [] (open_bank cfg a u) t s" "quiet_at n t"
    and d: "u \<le> t"
  shows "\<exists>ts s'. js_ClockTick cfg tm s = ret (ts, s') \<and>
    serving cfg ch n (read_queue_of cfg a) [] [] [] [tr\<lparr>complete_cycle := t + of_int (read_delay cfg)\<rparr>] (\<lambda>_. True) (t + 1) s'"
  using ct_phase_read [OF _ s(2) _ d] serving_ct [OF s(1)] by (intro serving_tick [OF s(1)]) (simp, blast)

section \<open>The latency of a read\<close>

lemma run_ticks_append:
  "run_ticks ms m s = ret (ts, s1) \<Longrightarrow> run_ticks ms n s1 = ret (us, s2) \<Longrightarrow> run_ticks ms (m + n) s = ret (ts @ us, s2)"
proof (induction m arbitrary: s ts)
  case (Suc m)
  obtain vs s3 ws where v: "ms_ClockTick ms s = ret (vs, s3)" "run_ticks ms m s3 = ret (ws, s1)" "ts = vs @ ws"
    using Suc.prems(1) by (auto simp: run_elims)
  show ?case using Suc.IH [OF v(2) Suc.prems(2)] v(1,3) by simp
qed simp

lemma run_ticks_one: "js_ClockTick cfg tm s = ret (ts, s') \<Longrightarrow> run_ticks (jedec_ops cfg tm) 1 s = ret (ts, s')"
  by (simp add: jedec_ops_def)

lemma ticks_keep:
  assumes "\<And>t s. I t s \<Longrightarrow> good t \<Longrightarrow> \<exists>ts s'. js_ClockTick cfg tm s = ret (ts, s') \<and> I (t + 1) s'"
    "I t s" "\<forall>j<n. good (t + of_nat j)"
  shows "\<exists>ts s'. run_ticks (jedec_ops cfg tm) n s = ret (ts, s') \<and> I (t + of_nat n) s'"
  using assms(2,3)
proof (induction n arbitrary: t s)
  case (Suc n)
  have "good t" using Suc.prems(2) by force
  then obtain ts s1 where s1: "js_ClockTick cfg tm s = ret (ts, s1)" "I (t + 1) s1" using assms(1) Suc.prems(1) by blast
  have "\<forall>j<n. good (t + 1 + of_nat j)" using Suc.prems(2) by (force simp: add.assoc)
  from Suc.IH [OF s1(2) this] obtain us s2 where "run_ticks (jedec_ops cfg tm) n s1 = ret (us, s2)" "I (t + 1 + of_nat n) s2" by blast
  then show ?case using s1(1) by (auto simp: jedec_ops_def add.assoc)
qed simp

lemma unat_plus_nat: "unat (t :: 64 word) + k < 2 ^ 64 \<Longrightarrow> unat (t + of_nat k) = unat t + k"
  by (simp add: unat_word_ariths unat_of_nat)

lemma wait_open:
  assumes "serving cfg ch n i [read_command cfg a] [] pend [] (open_bank cfg a u) t s"
    "\<forall>j<k. quiet_at n (t + of_nat j) \<and> t + of_nat j < u"
  shows "\<exists>ts s'. run_ticks (jedec_ops cfg tm) k s = ret (ts, s') \<and>
    serving cfg ch n i [read_command cfg a] [] pend [] (open_bank cfg a u) (t + of_nat k) s'"
proof (rule ticks_keep [where I = "serving cfg ch n i [read_command cfg a] [] pend [] (open_bank cfg a u)"
      and good = "\<lambda>t. quiet_at n t \<and> t < u", OF _ assms])
  fix t s assume s: "serving cfg ch n i [read_command cfg a] [] pend [] (open_bank cfg a u) t s" and g: "quiet_at n t \<and> t < u"
  then have b: "open_bank cfg a u (ct_channel (ctrls s ch))" and cfg: "config_ok cfg"
    using js_ok_config by (auto simp: serving_defs)
  then have "cs_GetReadyCommand cfg (ct_channel (ctrls s ch)) (read_command cfg a) t = ret no_Command"
    using read_when_open [OF cfg, of "ct_channel (ctrls s ch)" a t] g by (auto simp: open_bank_def)
  then show "\<exists>ts s'. js_ClockTick cfg tm s = ret (ts, s') \<and> serving cfg ch n i [read_command cfg a] [] pend [] (open_bank cfg a u) (t + 1) s'"
    using g b same_banks_bank(3) by (intro serving_wait [OF s]) auto
qed

lemma wait_return:
  assumes "serving cfg ch n i [] [] [] [x] (\<lambda>_. True) t s"
    "\<forall>j<k. quiet_at n (t + of_nat j) \<and> t + of_nat j < complete_cycle x"
  shows "\<exists>ts s'. run_ticks (jedec_ops cfg tm) k s = ret (ts, s') \<and> serving cfg ch n i [] [] [] [x] (\<lambda>_. True) (t + of_nat k) s'"
proof (rule ticks_keep [where I = "serving cfg ch n i [] [] [] [x] (\<lambda>_. True)"
      and good = "\<lambda>t. quiet_at n t \<and> t < complete_cycle x", OF _ assms])
  fix t s assume s: "serving cfg ch n i [] [] [] [x] (\<lambda>_. True) t s" and g: "quiet_at n t \<and> t < complete_cycle x"
  show "\<exists>ts s'. js_ClockTick cfg tm s = ret (ts, s') \<and> serving cfg ch n i [] [] [] [x] (\<lambda>_. True) (t + 1) s'"
    using g by (intro serving_wait [OF s]) auto
qed

text \<open>When its time has come the read is returned.\<close>

lemma returned:
  assumes s: "serving cfg ch n i [] [] [] [x] B t s" and x: "complete_cycle x \<le> t"
  shows "\<exists>ts s'. js_ClockTick cfg tm s = ret (ts, s') \<and> (tr_addr x, tr_is_write x) \<in> set ts"
proof -
  let ?c = "ctrls s ch"
  have k: "js_ok cfg s" "ch_in cfg ch" "js_clk s = t" "return_queue ?c = [x]" using s by (simp_all add: serving_defs lone_def)
  obtain us c1 where d: "drain_done (js_clk s) ?c = (us, c1)" by fastforce
  then have "(tr_addr x, tr_is_write x) \<in> set us"
    using x k(3,4) by (auto simp: drain_done.simps [of t ?c] ReturnDoneTrans_def split: prod.splits)
  moreover have "ct_ok cfg c1" using drain_done_ok [OF _ d] k(1,2) by (simp add: js_ok_def ctrls_ok_def)
  then obtain c2 where "ct_ClockTick cfg tm c1 = ret c2" using ct_ClockTick_ok [OF js_ok_config [OF k(1)]] by blast
  ultimately show ?thesis using js_step [OF k(1,2) d] by blast
qed

lemma read_latency_steps:
  fixes T :: "64 word"
  assumes s: "serving cfg ch n (read_queue_of cfg a) [] [tr] [(a, tr)] [] (closed_bank cfg a (T + 1)) T s"
    and tr: "tr_addr tr = a" "\<not> tr_is_write tr"
    and D: "activate_to_read cfg = int (Suc D)" "read_delay cfg = int (Suc R)"
    and time: "unat T + (D + R + 4) < 2 ^ 64" "\<forall>j < D + R + 3. quiet_at n (T + of_nat j)"
  shows "\<exists>ts s'. run_ticks (jedec_ops cfg (new_Timing cfg)) (D + R + 3) s = ret (ts, s') \<and>
    serving cfg ch n (read_queue_of cfg a) [] [] [] [tr\<lparr>complete_cycle := T + of_nat (D + R + 3)\<rparr>] (\<lambda>_. True) (T + of_nat (D + R + 3)) s'"
proof -
  let ?tm = "new_Timing cfg" and ?i = "read_queue_of cfg a" and ?cmd = "read_command cfg a"
  let ?u = "T + of_nat (D + 2)"
  have quiet: "quiet_at n (T + of_nat j)" if "j < D + R + 3" for j using time(2) that by blast
  have un: "unat (T + of_nat j) = unat T + j" if "j < D + R + 4" for j using time(1) that by (intro unat_plus_nat) linarith
  have less: "T + of_nat j < T + of_nat k" if "j < k" "k < D + R + 4" for j k using un [of j] un [of k] that by (simp add: word_less_nat_alt)
  have shift: "T + of_nat m + of_nat j = T + of_nat (m + j)" for m j by (simp add: add.assoc)
  obtain t1 s1 where 1: "run_ticks (jedec_ops cfg ?tm) 1 s = ret (t1, s1)" "serving cfg ch n ?i [?cmd] [] [(a, tr)] [] (closed_bank cfg a (T + 1)) (T + 1) s1"
    using phase_schedule [OF s _ tr same_banks_bank(2)] quiet [of 0] run_ticks_one by fastforce
  have u: "T + 1 + of_int (activate_to_read cfg) = ?u" unfolding D by simp
  have q1: "quiet_at n (T + 1)" and l1: "T + 1 < ?u" using quiet [of 1] less [of 1 "D + 2"] by simp_all
  obtain t2 s2 where 2: "run_ticks (jedec_ops cfg ?tm) 1 s1 = ret (t2, s2)" "serving cfg ch n ?i [?cmd] [] [(a, tr)] [] (open_bank cfg a ?u) (T + of_nat 2) s2"
    using phase_activate [OF 1(2) q1] l1 run_ticks_one unfolding u by (fastforce simp: add.assoc)
  have "\<forall>j<D. quiet_at n (T + of_nat 2 + of_nat j) \<and> T + of_nat 2 + of_nat j < ?u"
    unfolding shift by (intro allI impI conjI quiet less) simp_all
  from wait_open [OF 2(2) this, of ?tm]
  obtain t3 s3 where 3: "run_ticks (jedec_ops cfg ?tm) D s2 = ret (t3, s3)" "serving cfg ch n ?i [?cmd] [] [(a, tr)] [] (open_bank cfg a ?u) ?u s3"
    unfolding shift by (auto simp only: add_ac)
  have q3: "quiet_at n ?u" using quiet [of "D + 2"] by simp
  let ?x = "tr\<lparr>complete_cycle := T + of_nat (D + R + 3)\<rparr>"
  have c: "?u + of_int (read_delay cfg) = T + of_nat (D + R + 3)" "?u + 1 = T + of_nat (D + 3)" unfolding D by simp_all
  from phase_read [OF 3(2) q3 order_refl, of ?tm]
  obtain t4 s4 where 4: "run_ticks (jedec_ops cfg ?tm) 1 s3 = ret (t4, s4)" "serving cfg ch n ?i [] [] [] [?x] (\<lambda>_. True) (T + of_nat (D + 3)) s4"
    using run_ticks_one unfolding c by blast
  have cx: "complete_cycle ?x = T + of_nat (D + R + 3)" by simp
  have "\<forall>j<R. quiet_at n (T + of_nat (D + 3) + of_nat j) \<and> T + of_nat (D + 3) + of_nat j < complete_cycle ?x"
    unfolding shift cx by (intro allI impI conjI quiet less) simp_all
  from wait_return [OF 4(2) this, of ?tm]
  obtain t5 s5 where 5: "run_ticks (jedec_ops cfg ?tm) R s4 = ret (t5, s5)" "serving cfg ch n ?i [] [] [] [?x] (\<lambda>_. True) (T + of_nat (D + R + 3)) s5"
    unfolding shift by (auto simp only: add_ac)
  have "run_ticks (jedec_ops cfg ?tm) (1 + (1 + (D + (1 + R)))) s = ret (t1 @ t2 @ t3 @ t4 @ t5, s5)"
    by (intro run_ticks_append [OF 1(1)] run_ticks_append [OF 2(1)] run_ticks_append [OF 3(1)] run_ticks_append [OF 4(1)] 5(1))
  moreover have "1 + (1 + (D + (1 + R))) = D + R + 3" by simp
  ultimately show ?thesis using 5(2) by metis
qed

text \<open>With the row open the activation is saved.\<close>

lemma read_hit_steps:
  fixes T :: "64 word"
  assumes s: "serving cfg ch n (read_queue_of cfg a) [] [tr] [(a, tr)] [] (row_hit cfg a (T + 1)) T s"
    and tr: "tr_addr tr = a" "\<not> tr_is_write tr" and R: "read_delay cfg = int (Suc R)"
    and time: "unat T + (R + 3) < 2 ^ 64" "\<forall>j < R + 2. quiet_at n (T + of_nat j)"
  shows "\<exists>ts s'. run_ticks (jedec_ops cfg tm) (R + 2) s = ret (ts, s') \<and>
    serving cfg ch n (read_queue_of cfg a) [] [] [] [tr\<lparr>complete_cycle := T + of_nat (R + 2)\<rparr>] (\<lambda>_. True) (T + of_nat (R + 2)) s'"
proof -
  let ?i = "read_queue_of cfg a" and ?cmd = "read_command cfg a" and ?x = "tr\<lparr>complete_cycle := T + of_nat (R + 2)\<rparr>"
  have quiet: "quiet_at n (T + of_nat j)" if "j < R + 2" for j using time(2) that by blast
  have un: "unat (T + of_nat j) = unat T + j" if "j < R + 3" for j using time(1) that by (intro unat_plus_nat) linarith
  have less: "T + of_nat j < T + of_nat k" if "j < k" "k < R + 3" for j k using un [of j] un [of k] that by (simp add: word_less_nat_alt)
  have shift: "T + of_nat m + of_nat j = T + of_nat (m + j)" for m j by (simp add: add.assoc)
  obtain t1 s1 where 1: "run_ticks (jedec_ops cfg tm) 1 s = ret (t1, s1)" "serving cfg ch n ?i [?cmd] [] [(a, tr)] [] (row_hit cfg a (T + 1)) (T + 1) s1"
    using phase_schedule [OF s _ tr same_banks_bank(4)] quiet [of 0] run_ticks_one by fastforce
  then obtain u where u: "serving cfg ch n ?i [?cmd] [] [(a, tr)] [] (open_bank cfg a u) (T + 1) s1" "u \<le> T + 1"
    by (auto simp: serving_defs row_hit_def)
  have c: "T + 1 + of_int (read_delay cfg) = T + of_nat (R + 2)" "T + 1 + 1 = T + of_nat 2" unfolding R by simp_all
  have q1: "quiet_at n (T + 1)" using quiet [of 1] by simp
  from phase_read [OF u(1) q1 u(2), of tm]
  obtain t2 s2 where 2: "run_ticks (jedec_ops cfg tm) 1 s1 = ret (t2, s2)" "serving cfg ch n ?i [] [] [] [?x] (\<lambda>_. True) (T + of_nat 2) s2"
    using run_ticks_one unfolding c by blast
  have cx: "complete_cycle ?x = T + of_nat (R + 2)" by simp
  have "\<forall>j<R. quiet_at n (T + of_nat 2 + of_nat j) \<and> T + of_nat 2 + of_nat j < complete_cycle ?x"
    unfolding shift cx by (intro allI impI conjI quiet less) simp_all
  from wait_return [OF 2(2) this, of tm]
  obtain t3 s3 where 3: "run_ticks (jedec_ops cfg tm) R s2 = ret (t3, s3)" "serving cfg ch n ?i [] [] [] [?x] (\<lambda>_. True) (T + of_nat (R + 2)) s3"
    unfolding shift by (auto simp only: add_ac)
  have "run_ticks (jedec_ops cfg tm) (1 + (1 + R)) s = ret (t1 @ t2 @ t3, s3)"
    by (intro run_ticks_append [OF 1(1)] run_ticks_append [OF 2(1)] 3(1))
  moreover have "1 + (1 + R) = R + 2" by simp
  ultimately show ?thesis using 3(2) by metis
qed

text \<open>
  From the call: a read of an address on an idle channel whose bank is closed and ready, or
  has the row open. It is pending for one cycle, the delay from activation to read if the
  bank was closed, and the read delay, and the next cycle returns it.
\<close>

definition idle_channel :: "Config \<Rightarrow> 64 word \<Rightarrow> bool \<Rightarrow> int \<Rightarrow> JedecDRAMSystem \<Rightarrow> bool" where
  "idle_channel cfg a hit n s \<longleftrightarrow>
     serving cfg (ds_GetChannel cfg a) n (read_queue_of cfg a) [] [] [] []
       ((if hit then row_hit else closed_bank) cfg a (js_clk s + 1)) (js_clk s) s"

lemma idle_accepts:
  assumes s: "idle_channel cfg a hit n s" and acc: "js_WillAcceptTransaction cfg a False s"
  shows "\<exists>s1. js_AddTransaction cfg a False s = ret (True, s1) \<and> js_clk s1 = js_clk s \<and>
    serving cfg (ds_GetChannel cfg a) n (read_queue_of cfg a) [] [(mk_Transaction a False)\<lparr>added_cycle := js_clk s\<rparr>]
      [(a, (mk_Transaction a False)\<lparr>added_cycle := js_clk s\<rparr>)] [] ((if hit then row_hit else closed_bank) cfg a (js_clk s + 1)) (js_clk s) s1"
proof -
  let ?ch = "ds_GetChannel cfg a" and ?tr = "(mk_Transaction a False)\<lparr>added_cycle := js_clk s\<rparr>"
  let ?c = "ctrls s ?ch"
  have k: "js_ok cfg s" "ch_in cfg ?ch" "ct_clk ?c = js_clk s" "lone cfg (read_queue_of cfg a) [] [] [] [] 0 ?c"
    using s by (simp_all add: idle_channel_def serving_defs)
  obtain s1 where s1: "js_AddTransaction cfg a False s = ret (True, s1)" "js_ok cfg s1" using js_add [OF k(1) acc] by blast
  have e: "s1 = s\<lparr>ctrls := (ctrls s)(?ch := ct_AddTransaction (mk_Transaction a False) ?c), last_req_clk := js_clk s\<rparr>"
    using s1(1) k(2) acc by (simp add: js_AddTransaction_def js_WillAcceptTransaction_def Let_def)
  have "lone cfg (read_queue_of cfg a) [] [?tr] [(a, ?tr)] [] 0 (ct_AddTransaction (mk_Transaction a False) ?c)"
    using k(3,4) by (simp add: lone_def ct_AddTransaction_def Let_def mk_Transaction_def upd_stats_def mm_count_def)
  moreover have "ct_channel (ct_AddTransaction (mk_Transaction a False) ?c) = ct_channel ?c"
      "ct_clk (ct_AddTransaction (mk_Transaction a False) ?c) = ct_clk ?c" "ct_refresh (ct_AddTransaction (mk_Transaction a False) ?c) = ct_refresh ?c"
    by (simp_all add: ct_AddTransaction_def Let_def mk_Transaction_def upd_stats_def)
  ultimately show ?thesis using s1 s by (auto simp: e idle_channel_def serving_defs)
qed

lemma read_latency_run:
  assumes s: "idle_channel cfg a hit n s" and acc: "js_WillAcceptTransaction cfg a False s"
    and D: "0 < activate_to_read cfg" "0 < read_delay cfg" "L = Suc ((if hit then 0 else nat (activate_to_read cfg)) + nat (read_delay cfg))"
    and time: "unat (js_clk s) + Suc L < 2 ^ 64" "\<forall>j<L. quiet_at n (js_clk s + of_nat j)"
  shows "\<exists>s1 ts s2. js_AddTransaction cfg a False s = ret (True, s1) \<and>
    run_ticks (jedec_ops cfg (new_Timing cfg)) L s1 = ret (ts, s2) \<and> (a, False) \<in># js_pend cfg s2 \<and>
    (\<exists>us s3. js_ClockTick cfg (new_Timing cfg) s2 = ret (us, s3) \<and> (a, False) \<in> set us)"
proof -
  let ?ch = "ds_GetChannel cfg a" and ?T = "js_clk s" and ?tm = "new_Timing cfg"
  let ?tr = "(mk_Transaction a False)\<lparr>added_cycle := ?T\<rparr>"
  obtain E R where d: "activate_to_read cfg = int (Suc E)" "read_delay cfg = int (Suc R)"
    using D(1,2) by (metis gr0_implies_Suc zero_less_imp_eq_int)
  obtain s1 where s1: "js_AddTransaction cfg a False s = ret (True, s1)"
      "serving cfg ?ch n (read_queue_of cfg a) [] [?tr] [(a, ?tr)] [] ((if hit then row_hit else closed_bank) cfg a (?T + 1)) ?T s1"
    using idle_accepts [OF s acc] by blast
  have tr: "tr_addr ?tr = a" "\<not> tr_is_write ?tr" by (simp_all add: mk_Transaction_def)
  let ?x = "?tr\<lparr>complete_cycle := ?T + of_nat L\<rparr>"
  have "\<exists>ts s2. run_ticks (jedec_ops cfg ?tm) L s1 = ret (ts, s2) \<and>
      serving cfg ?ch n (read_queue_of cfg a) [] [] [] [?x] (\<lambda>_. True) (?T + of_nat L) s2"
  proof (cases hit)
    case True
    then have L: "L = R + 2" using D(3) d by simp
    have "serving cfg ?ch n (read_queue_of cfg a) [] [?tr] [(a, ?tr)] [] (row_hit cfg a (?T + 1)) ?T s1" using s1(2) True by simp
    moreover have "unat ?T + (R + 3) < 2 ^ 64" "\<forall>j < R + 2. quiet_at n (?T + of_nat j)" using time L by simp_all
    ultimately show ?thesis unfolding L using read_hit_steps tr d(2) by blast
  next
    case False
    then have L: "L = E + R + 3" using D(3) d by simp
    have "serving cfg ?ch n (read_queue_of cfg a) [] [?tr] [(a, ?tr)] [] (closed_bank cfg a (?T + 1)) ?T s1" using s1(2) False by simp
    moreover have "unat ?T + (E + R + 4) < 2 ^ 64" "\<forall>j < E + R + 3. quiet_at n (?T + of_nat j)" using time L by simp_all
    ultimately show ?thesis unfolding L using read_latency_steps tr d by blast
  qed
  then obtain ts s2 where s2: "run_ticks (jedec_ops cfg ?tm) L s1 = ret (ts, s2)"
      "serving cfg ?ch n (read_queue_of cfg a) [] [] [] [?x] (\<lambda>_. True) (?T + of_nat L) s2" by blast
  have "(a, False) \<in># ct_pend (ctrls s2 ?ch)" "ch_in cfg ?ch"
    using s2(2) by (auto simp: serving_defs lone_def ct_pend_def mk_Transaction_def)
  then have "(a, False) \<in># js_pend cfg s2" by (simp add: js_pend_def ch_in_iff sum.remove [of _ ?ch])
  moreover have "\<exists>us s3. js_ClockTick cfg ?tm s2 = ret (us, s3) \<and> (a, False) \<in> set us"
    using returned [OF s2(2)] by (simp add: mk_Transaction_def)
  ultimately show ?thesis using s1(1) s2(1) by blast
qed

section \<open>A new memory is idle\<close>

lemma new_controllers_at:
  assumes "js_controllers cfg junk = ret s" "ch_in cfg ch"
  shows "new_Controller cfg ch = ret (ctrls s ch) \<and> js_clk s = 0"
proof -
  let ?f = "\<lambda>i s. run_bind (new_Controller cfg i) (\<lambda>c. ret (s\<lparr>ctrls := (ctrls s)(i := c)\<rparr>))"
  have "js_clk s' = js_clk s \<and> (ch \<notin> set is \<longrightarrow> ctrls s' ch = ctrls s ch) \<and> (ch \<in> set is \<longrightarrow> new_Controller cfg ch = ret (ctrls s' ch))"
    if "distinct is" "for_run ?f is s = ret s'" for "is" s s'
    using that
  proof (induction "is" arbitrary: s)
    case (Cons i "is")
    obtain c where c: "new_Controller cfg i = ret c" "for_run ?f is (s\<lparr>ctrls := (ctrls s)(i := c)\<rparr>) = ret s'"
      using Cons.prems(2) by (auto simp: run_bind_ret simp del: fun_upd_apply)
    have "distinct is" using Cons.prems(1) by simp
    from Cons.IH [OF this c(2)] show ?case using Cons.prems(1) c(1) by (auto split: if_splits)
  qed simp
  from this [of "[0..channels cfg - 1]"] show ?thesis using assms by (auto simp: js_controllers_def ch_in_def)
qed

text \<open>A new controller has nothing under way, whichever queue is looked at.\<close>

lemma new_lone:
  assumes n: "new_Controller cfg ch = ret c" and geo: "geometry_ok cfg" "\<not> unified_queue cfg"
    and m: "cs_in cfg (ad_rank (AddressMapping cfg a)) (ad_bankgroup (AddressMapping cfg a)) (ad_bank (AddressMapping cfg a))"
    and cfg: "queue_structure cfg = ''PER_BANK''" "row_buf_policy cfg \<noteq> ''CLOSE_PAGE''" "0 < to_size_t (cmd_queue_size cfg)"
    and rf: "new_Refresh cfg = ret rf"
  shows "lone cfg (read_queue_of cfg a) [] [] [] [] 0 c" "ct_clk c = 0" "ct_channel c = new_ChannelState" "ct_refresh c = rf"
    "rank_q_empty (ct_queue c) = (\<lambda>_. True)" "trans_capacity c = to_size_t (trans_queue_size cfg)"
proof -
  let ?m = "AddressMapping cfg a"
  have g: "0 < ranks cfg" "0 < banks cfg" "banks cfg = bankgroups cfg * banks_per_group cfg" "0 < banks_per_group cfg"
    using geo by (simp_all add: geometry_ok_def)
  have m: "0 \<le> ad_rank ?m" "ad_rank ?m < ranks cfg" "0 \<le> ad_bankgroup ?m" "ad_bankgroup ?m < bankgroups cfg" "0 \<le> ad_bank ?m" "ad_bank ?m < banks_per_group cfg"
    using m by (simp_all add: cs_in_def cs_rank_in_def)
  have i: "0 \<le> read_queue_of cfg a" "read_queue_of cfg a < banks cfg * ranks cfg"
  proof -
    have "ad_bankgroup ?m * banks_per_group cfg + ad_bank ?m < banks cfg"
      using m g(3,4) mult_right_mono [of "ad_bankgroup ?m + 1" "bankgroups cfg" "banks_per_group cfg"] by (simp add: algebra_simps)
    moreover have "ad_rank ?m * banks cfg \<le> (ranks cfg - 1) * banks cfg" using m(2) g(2) by (intro mult_right_mono) auto
    ultimately show "0 \<le> read_queue_of cfg a" "read_queue_of cfg a < banks cfg * ranks cfg"
      using m g(2,4) by (simp_all add: read_queue_of_def Let_def algebra_simps)
  qed
  define q where "q = \<lparr>rank_q_empty = (\<lambda>_. True), q_structure = PER_BANK, queues = (\<lambda>_. []), ref_q_indices = (\<lambda>_. False),
    is_in_ref = False, num_queues = banks cfg * ranks cfg, queue_size = to_size_t (cmd_queue_size cfg), queue_idx = 0, cq_clk = 0\<rparr>"
  have q: "new_CommandQueue cfg = ret q" using cfg(1) by (simp add: new_CommandQueue_def q_def Let_def)
  have f: "ct_clk c = 0" "ct_channel c = new_ChannelState" "ct_queue c = q" "ct_refresh c = rf" "is_unified_queue c = unified_queue cfg"
      "read_queue c = []" "write_buffer c = []" "pending_rd_q c = []" "pending_wr_q c = []" "return_queue c = []"
      "ct_row_buf_policy c = OPEN_PAGE" "write_draining c = 0" "trans_capacity c = to_size_t (trans_queue_size cfg)"
    using n [symmetric] cfg(2) by (simp_all add: new_Controller_def q rf)
  have "rf_clk rf = 0" using rf by (auto simp: new_Refresh_def run_elims)
  moreover have "0 < banks cfg * ranks cfg" using g by simp
  ultimately show "lone cfg (read_queue_of cfg a) [] [] [] [] 0 c"
    using i cfg(3) geo(2) by (simp add: lone_def f alone_def queue_in_def q_def new_ChannelState_def)
  show "ct_clk c = 0" "ct_channel c = new_ChannelState" "ct_refresh c = rf"
    "rank_q_empty (ct_queue c) = (\<lambda>_. True)" "trans_capacity c = to_size_t (trans_queue_size cfg)"
    by (simp_all add: f q_def)
qed

lemma idle_new:
  assumes ok: "js_ok cfg s" and s: "new_JedecDRAMSystem cfg junk = ret s"
    and cfg: "queue_structure cfg = ''PER_BANK''" "row_buf_policy cfg \<noteq> ''CLOSE_PAGE''" "0 < to_size_t (cmd_queue_size cfg)"
    and rf: "new_Refresh cfg = ret rf"
  shows "idle_channel cfg a False (refresh_interval rf) s"
proof -
  let ?ch = "ds_GetChannel cfg a"
  have c: "config_ok cfg" "ch_in cfg ?ch" "\<not> unified_queue cfg"
    using ok js_ok_config by (auto simp: js_ok_def system_config_ok_def)
  have "js_controllers cfg junk = ret s" using s by (simp add: new_JedecDRAMSystem_def split: if_splits)
  from new_controllers_at [OF this c(2)] have n: "new_Controller cfg ?ch = ret (ctrls s ?ch)" "js_clk s = 0" by simp_all
  note l = new_lone [OF n(1) config_geometry [OF c(1)] c(3) address_in [OF c(1), of a] cfg rf]
  have "closed_bank cfg a 1 (ct_channel (ctrls s ?ch))"
    by (simp add: l(3) closed_bank_def bank_of_def Let_def new_ChannelState_def new_BankState_def ActivationWindowOk_def
        IsFAWReady_def Is32AWReady_def)
  then show ?thesis using l ok c(2) n(2) by (simp add: idle_channel_def serving_defs)
qed

text \<open>The memory of the program: its delays, and that it starts idle.\<close>

lemma hbm_delays:
  assumes "new_Config HBM2_4Gb_x128 c0 = ret cfg"
  shows "activate_to_read cfg = 14" "read_delay cfg = 16" "row_buf_policy cfg = ''OPEN_PAGE''" "cmd_queue_size cfg = 8"
proof -
  have "\<exists>c. new_Config HBM2_4Gb_x128 c0 = ret c \<and> tRCDRD c = 14 \<and> IsHBM c \<and> read_delay c = 16 \<and>
      row_buf_policy c = ''OPEN_PAGE'' \<and> cmd_queue_size c = 8"
    unfolding new_Config_def hbm_system hbm_dram run_bind_simps
    by (simp add: CalculateSize_def cdiv_def SetAddressMapping_def field_widths_def field_at_def Let_def InitTimingParams_def
        InitOtherParams_def cfg_GetInteger_def HBM2_4Gb_x128_def ini_option_def log_sizes IsHBM_def)
  then show "activate_to_read cfg = 14" "read_delay cfg = 16" "row_buf_policy cfg = ''OPEN_PAGE''" "cmd_queue_size cfg = 8"
    using assms by (auto simp: activate_to_read_def)
qed

lemma hbm_idle:
  assumes c: "new_Config HBM2_4Gb_x128 c0 = ret cfg" "hbm_facts cfg" and s: "new_JedecDRAMSystem cfg junk = ret s" "js_ok cfg s"
  shows "idle_channel cfg a False 3900 s"
proof -
  obtain rf where "new_Refresh cfg = ret rf" "refresh_interval rf = 3900"
    using c(2) by (auto simp: new_Refresh_def hbm_facts_def cdiv_def)
  then show ?thesis
    using idle_new [OF s(2,1), of rf a] hbm_delays [OF c(1)] c(2) by (simp add: hbm_facts_def)
qed

lemma hbm_first_read:
  assumes c: "new_Config HBM2_4Gb_x128 c0 = ret cfg" "hbm_facts cfg" and s: "new_JedecDRAMSystem cfg junk = ret s" "js_ok cfg s" "js_clk s = 0"
    and p: "js_pend cfg s = {#}"
  shows "js_WillAcceptTransaction cfg a False s"
  using js_will_accept [OF s(2), of a] p c(2) by (simp add: hbm_facts_def)

end
