(* ===== verification/DS_Trace.thy ===== *)
theory DS_Trace
  imports DS_Timing_Safe DS_Latency
begin

text \<open>
  The commands that a controller issues, over any sequence of calls, form a run of its channel
  state: every command was ready when it was issued, at the clock value of the controller. So
  the timing tables and the activation windows hold for the controller.
\<close>

section \<open>Runs of a controller\<close>

text \<open>A controller after \<open>n\<close> clock cycles that issued the commands of the trace, with any calls between.\<close>

inductive controller_run :: "Config \<Rightarrow> Timing \<Rightarrow> nat \<Rightarrow> cmd_trace \<Rightarrow> Controller \<Rightarrow> bool"
  for cfg :: Config and tm :: Timing where
  new: "new_Controller cfg ch = ret c \<Longrightarrow> controller_run cfg tm 0 [] c"
| add: "controller_run cfg tm n tr c \<Longrightarrow> controller_run cfg tm n tr (ct_AddTransaction t c)"
| returned: "controller_run cfg tm n tr c \<Longrightarrow> ReturnDoneTrans clk c = (t, c') \<Longrightarrow> controller_run cfg tm n tr c'"
| stats: "controller_run cfg tm n tr c \<Longrightarrow> controller_run cfg tm n tr (upd_stats f c)"
| tick: "controller_run cfg tm n tr c \<Longrightarrow> ct_tick_trace cfg tm c = ret (ev, c') \<Longrightarrow>
    controller_run cfg tm (Suc n) (tr @ ev) c'"

section \<open>Every issued command was ready\<close>

lemma first_ready_ready:
  "first_ready cfg cs clk pre cmds st = ret (cmd, st') \<Longrightarrow> IsValid cmd \<Longrightarrow>
     \<exists>req. cs_GetReadyCommand cfg cs req clk = ret cmd"
proof (induction cmds arbitrary: pre st)
  case Nil
  then show ?case by (auto simp: IsValid_def no_Command_def mk_Command_def)
next
  case (Cons c post)
  obtain got where got: "cs_GetReadyCommand cfg cs c clk = ret got"
    using Cons.prems by (auto simp: run_elims)
  obtain ok st1 where arb: "ArbitratePrecharge cs pre c post st = (ok, st1)" by (cases "ArbitratePrecharge cs pre c post st")
  show ?case using Cons.prems Cons.IH got arb by (auto simp: Let_def split: if_splits)
qed

lemma issue_scan_ready:
  "issue_scan cfg cs n q st = ret (cmd, q', st') \<Longrightarrow>
     cq_clk q' = cq_clk q \<and> (IsValid cmd \<longrightarrow> (\<exists>req. cs_GetReadyCommand cfg cs req (cq_clk q) = ret cmd))"
proof (induction n arbitrary: q st)
  case 0
  then show ?case by (auto simp: IsValid_def no_Command_def mk_Command_def)
next
  case (Suc n)
  let ?q = "q\<lparr>queue_idx := next_queue_idx q\<rparr>"
  show ?case
  proof (cases "is_in_ref ?q \<and> ref_q_indices ?q (queue_idx ?q)")
    case True
    then have "issue_scan cfg cs n ?q st = ret (cmd, q', st')"
      using Suc.prems by (auto simp: Let_def checked_def split: if_splits)
    from Suc.IH [OF this] show ?thesis by simp
  next
    case False
    obtain c st1 where c: "GetFirstReadyInQueue cfg cs ?q (queues ?q (queue_idx ?q)) st = ret (c, st1)"
      using Suc.prems False by (auto simp: Let_def checked_def run_elims split: if_splits)
    show ?thesis
    proof (cases "IsValid c")
      case True
      have "cmd = c" "cq_clk q' = cq_clk q"
        using Suc.prems False True c
        by (auto simp: Let_def checked_def run_elims EraseRWCommand_def upd_queue_def split: if_splits)
      then show ?thesis using c True first_ready_ready by (auto simp: GetFirstReadyInQueue_def)
    next
      case invalid: False
      then have "issue_scan cfg cs n ?q st1 = ret (cmd, q', st')"
        using Suc.prems False c by (auto simp: Let_def checked_def split: if_splits)
      from Suc.IH [OF this] show ?thesis by simp
    qed
  qed
qed

text \<open>The calls that leave the channel state and the clocks alone.\<close>

definition same_channel :: "Controller \<Rightarrow> Controller \<Rightarrow> bool" where
  "same_channel c c' \<longleftrightarrow> ct_channel c' = ct_channel c \<and> ct_clk c' = ct_clk c \<and> cq_clk (ct_queue c') = cq_clk (ct_queue c)"

lemma same_channel_refl [simp]: "same_channel c c"
  and same_channel_trans: "same_channel a b \<Longrightarrow> same_channel b c \<Longrightarrow> same_channel a c"
  by (auto simp: same_channel_def)

lemma get_command_ready:
  assumes "ct_get_command cfg c = ret (cmd, c')"
  shows "same_channel c c'"
    "IsValid cmd \<Longrightarrow> \<exists>req. cs_GetReadyCommand cfg (ct_channel c) req (cq_clk (ct_queue c)) = ret cmd"
  using assms by (auto simp: ct_get_command_def GetCommandToIssue_def run_elims same_channel_def dest!: issue_scan_ready)

lemma FinishRefresh_ready:
  assumes "FinishRefresh cfg cs q = ret (cmd, q')"
  shows "cq_clk q' = cq_clk q" "\<exists>req. cs_GetReadyCommand cfg cs req (cq_clk q) = ret cmd"
  using assms by (auto simp: FinishRefresh_def GetRefQIndices_def Let_def run_elims split: list.splits if_splits)

lemma pick_command_ready:
  assumes "ct_pick_command cfg c = ret (cmd, c')"
  shows "same_channel c c'"
    "IsValid cmd \<Longrightarrow> \<exists>req. cs_GetReadyCommand cfg (ct_channel c) req (cq_clk (ct_queue c)) = ret cmd"
proof -
  obtain first c1 where first: "(if IsRefreshWaiting (ct_channel c)
        then run_bind (FinishRefresh cfg (ct_channel c) (ct_queue c)) (\<lambda>(cmd, q). ret (cmd, c\<lparr>ct_queue := q\<rparr>))
        else ret (no_Command, c)) = ret (first, c1)"
    and rest: "(if IsValid first then ret (first, c1) else ct_get_command cfg c1) = ret (cmd, c')"
    using assms by (auto simp: ct_pick_command_def run_elims split: prod.splits)
  have 1: "same_channel c c1"
    using first FinishRefresh_ready(1) by (auto simp: run_elims same_channel_def split: if_splits)
  have 2: "IsValid first \<Longrightarrow> \<exists>req. cs_GetReadyCommand cfg (ct_channel c) req (cq_clk (ct_queue c)) = ret first"
    using first FinishRefresh_ready(2)
    by (auto simp: run_elims IsValid_def no_Command_def mk_Command_def split: if_splits)
  show "same_channel c c'"
    using 1 rest get_command_ready(1) by (auto split: if_splits intro: same_channel_trans)
  show "IsValid cmd \<Longrightarrow> \<exists>req. cs_GetReadyCommand cfg (ct_channel c) req (cq_clk (ct_queue c)) = ret cmd"
    using 1 2 rest get_command_ready(2) [of cfg c1 cmd c'] by (auto simp: same_channel_def split: if_splits)
qed

section \<open>The channel state under the calls of a controller\<close>

lemma issue_same_queue:
  assumes "IssueCommand cfg tm cmd c = ret c'"
  shows "UpdateTimingAndStates cfg tm cmd (ct_clk c) (ct_channel c) = ret (ct_channel c')"
    "ct_clk c' = ct_clk c" "ct_queue c' = ct_queue c"
proof -
  from assms obtain c1 c2 cs where
      1: "c1 = c \<or> c1 = complete_reads cfg (hex_addr cmd) c \<or>
        (\<exists>v ws. c1 = upd_stats (AddValue ''write_latency'' v) (c\<lparr>pending_wr_q := ws\<rparr>))"
    and 2: "UpdateCommandStats cmd c1 = ret c2"
    and 3: "UpdateTimingAndStates cfg tm cmd (ct_clk c2) (ct_channel c2) = ret cs" "c' = c2\<lparr>ct_channel := cs\<rparr>"
    by (rule IssueCommand_steps)
  have "same_channel c c1 \<and> ct_queue c1 = ct_queue c"
    using 1 by (auto simp: complete_reads_def upd_stats_def same_channel_def)
  moreover have "\<exists>f. c2 = upd_stats f c1" using 2 by (auto simp: UpdateCommandStats_def Let_def split: CommandType.splits)
  ultimately show "UpdateTimingAndStates cfg tm cmd (ct_clk c) (ct_channel c) = ret (ct_channel c')"
    "ct_clk c' = ct_clk c" "ct_queue c' = ct_queue c"
    using 3 by (auto simp: same_channel_def upd_stats_def)
qed

lemma count_rank_same:
  "ct_clk (ct_count_rank cfg i c) = ct_clk c" "ct_queue (ct_count_rank cfg i c) = ct_queue c"
  "\<exists>f. ct_channel (ct_count_rank cfg i c) = (ct_channel c)\<lparr>rank_idle_cycles := f\<rparr>"
proof -
  have "ct_channel c = (ct_channel c)\<lparr>rank_idle_cycles := rank_idle_cycles (ct_channel c)\<rparr>" by simp
  then show "\<exists>f. ct_channel (ct_count_rank cfg i c) = (ct_channel c)\<lparr>rank_idle_cycles := f\<rparr>"
    unfolding ct_count_rank_def upd_stats_def by (simp, blast)
qed (simp_all add: ct_count_rank_def upd_stats_def)

lemma schedule_scan_same: "schedule_scan cfg src pre post c = ret c' \<Longrightarrow> same_channel c c'"
proof (induction post arbitrary: pre)
  case (Cons tr post)
  then show ?case
    by (auto simp: Let_def run_elims same_channel_def AddCommand_def checked_def set_source_queue_def upd_queue_def
        split: if_splits trans_source.splits)
qed simp

lemma ScheduleTransaction_same: "ScheduleTransaction cfg c = ret c' \<Longrightarrow> same_channel c c'"
  unfolding ScheduleTransaction_def Let_def
  by (drule schedule_scan_same) (auto simp: same_channel_def start_draining_def split: if_splits)

lemma refresh_step:
  assumes "refresh_ClockTick cfg rf cs = ret (rf', cs')" "channel_run cfg tm tr cs"
  shows "channel_run cfg tm tr cs'"
proof -
  have "cs' = cs \<or> (\<exists>r. cs' = RankNeedRefresh r True cs) \<or> (\<exists>r g k. cs' = BankNeedRefresh r g k True cs)"
    using assms(1)
    by (auto simp: refresh_ClockTick_def InsertRefresh_def Let_def run_elims
        split: if_splits RefreshPolicy.splits option.splits)
  then show ?thesis
    using assms(2) channel_run.step [OF assms(2) channel_step.refresh_rank]
      channel_run.step [OF assms(2) channel_step.refresh_bank] by auto
qed

section \<open>Refinement\<close>

text \<open>The trace so far is a run of the channel state, and the command queue's clock is the controller's.\<close>

definition traced :: "Config \<Rightarrow> Timing \<Rightarrow> cmd_trace \<Rightarrow> Controller \<Rightarrow> bool" where
  "traced cfg tm tr c \<longleftrightarrow> channel_run cfg tm tr (ct_channel c) \<and> cq_clk (ct_queue c) = ct_clk c"

lemma traced_same: "traced cfg tm tr c \<Longrightarrow> same_channel c c' \<Longrightarrow> traced cfg tm tr c'"
  by (auto simp: traced_def same_channel_def)

lemma traced_issue:
  assumes "traced cfg tm tr c" "cs_GetReadyCommand cfg (ct_channel c) req (ct_clk c) = ret cmd" "IsValid cmd"
    "IssueCommand cfg tm cmd c = ret c'"
  shows "traced cfg tm (tr @ [(ct_clk c, cmd)]) c'"
  using assms issue_same_queue [OF assms(4)] channel_run.step [OF _ channel_step.issue]
  by (auto simp: traced_def)

lemma traced_count: "traced cfg tm tr c \<Longrightarrow> traced cfg tm tr (fold (ct_count_rank cfg) is c)"
proof (induction "is" arbitrary: c)
  case (Cons i "is")
  have "traced cfg tm tr (ct_count_rank cfg i c)"
    using Cons.prems count_rank_same(3) [of cfg i c] channel_run.step [OF _ channel_step.idle]
    by (auto simp: traced_def count_rank_same(1,2))
  from Cons.IH [OF this] show ?case by simp
qed simp

lemma count_ranks_clk: "ct_clk (fold (ct_count_rank cfg) is c) = ct_clk c"
  by (induction "is" arbitrary: c) (simp_all add: count_rank_same)

lemma traced_get:
  assumes "traced cfg tm tr c" "ct_get_command cfg c = ret (cmd, c1)" "IsValid cmd" "IssueCommand cfg tm cmd c1 = ret c2"
  shows "traced cfg tm (tr @ [(ct_clk c, cmd)]) c2"
proof -
  note s = get_command_ready [OF assms(2)]
  have "traced cfg tm tr c1" by (rule traced_same [OF assms(1) s(1)])
  from traced_issue [OF this _ assms(3,4)] s assms(1,3) show ?thesis by (auto simp: traced_def same_channel_def)
qed

lemma traced_pick:
  assumes "traced cfg tm tr c" "ct_pick_command cfg c = ret (cmd, c1)" "IsValid cmd" "IssueCommand cfg tm cmd c1 = ret c2"
  shows "traced cfg tm (tr @ [(ct_clk c, cmd)]) c2" "ct_clk c2 = ct_clk c"
proof -
  note s = pick_command_ready [OF assms(2)]
  have "traced cfg tm tr c1" by (rule traced_same [OF assms(1) s(1)])
  from traced_issue [OF this _ assms(3,4)] s assms(1,3) show "traced cfg tm (tr @ [(ct_clk c, cmd)]) c2"
    by (auto simp: traced_def same_channel_def)
  show "ct_clk c2 = ct_clk c" using s(1) issue_same_queue(2) [OF assms(4)] by (simp add: same_channel_def)
qed

text \<open>All commands of one cycle carry its clock value.\<close>

definition at_clock :: "64 word \<Rightarrow> cmd_trace \<Rightarrow> bool" where
  "at_clock clk ev \<longleftrightarrow> (\<forall>e\<in>set ev. fst e = clk)"

lemma traced_phase:
  assumes t: "traced cfg tm tr c" and i: "ct_issue_phase cfg tm c = ret (ev, c')"
  shows "traced cfg tm (tr @ ev) c' \<and> ct_clk c' = ct_clk c \<and> at_clock (ct_clk c) ev"
  using i
proof (cases rule: issue_phase_cases)
  case (none cmd)
  from pick_command_ready(1) [OF none(1)] none(2) t show ?thesis
    by (auto simp: at_clock_def same_channel_def traced_def)
next
  case (one cmd c1 c2)
  note s = traced_pick [OF t one(1-3)]
  have "same_channel c2 c'" using one(5) get_command_ready(1) by auto
  then show ?thesis using s one(4) traced_same [OF s(1)] by (auto simp: at_clock_def same_channel_def)
next
  case (two cmd c1 c2 second c3 c4)
  note s = traced_pick [OF t two(1-3)] and g = get_command_ready(1) [OF two(4)]
  have "traced cfg tm (tr @ [(ct_clk c, cmd)] @ [(ct_clk c, second)]) c4"
    using traced_get [OF s(1) two(4-6)] s(2) by simp
  moreover have "ct_clk c4 = ct_clk c"
    using issue_same_queue(2) [OF two(6)] g s(2) by (simp add: same_channel_def)
  ultimately show ?thesis using two(7,8) by (auto simp: at_clock_def upd_stats_def traced_def)
qed

lemma traced_self_refresh:
  "traced cfg tm tr c \<Longrightarrow> ct_self_refresh cfg tm is c = ret (ev, c') \<Longrightarrow>
     traced cfg tm (tr @ ev) c' \<and> ct_clk c' = ct_clk c \<and> at_clock (ct_clk c) ev"
proof (induction "is")
  case Nil
  then show ?case by (simp add: at_clock_def)
next
  case (Cons i "is")
  from Cons.prems(2) show ?case
  proof (cases rule: self_refresh_cases)
    case pass
    then show ?thesis using Cons by blast
  next
    case (issued req cmd)
    then show ?thesis using traced_issue [OF Cons.prems(1) issued(1-3)] issue_same_queue(2) [OF issued(3)] by (auto simp: at_clock_def)
  qed
qed

lemma traced_tick:
  assumes t: "traced cfg tm tr c" and i: "ct_tick_trace cfg tm c = ret (ev, c')"
  shows "traced cfg tm (tr @ ev) c' \<and> ct_clk c' = ct_clk c + 1 \<and> at_clock (ct_clk c) ev"
proof -
  from i obtain rf cs ev1 c1 ev2 c3 c4 where
      rf: "refresh_ClockTick cfg (ct_refresh c) (ct_channel c) = ret (rf, cs)"
    and ph: "ct_issue_phase cfg tm (c\<lparr>ct_refresh := rf, ct_channel := cs\<rparr>) = ret (ev1, c1)"
    and sr: "ct_self_refresh cfg tm [0..ranks cfg - 1] (fold (ct_count_rank cfg) [0..ranks cfg - 1] c1) = ret (ev2, c3) \<or>
      ev2 = [] \<and> c3 = fold (ct_count_rank cfg) [0..ranks cfg - 1] c1"
    and sc: "ScheduleTransaction cfg c3 = ret c4"
    and fin: "ev = ev1 @ ev2" "c' = upd_stats (Increment ''num_cycles'')
              (c4\<lparr>ct_clk := ct_clk c4 + 1, ct_queue := cq_ClockTick (ct_queue c4)\<rparr>)"
    by (rule tick_trace_steps)
  have "traced cfg tm tr (c\<lparr>ct_refresh := rf, ct_channel := cs\<rparr>)"
    using t refresh_step [OF rf] by (auto simp: traced_def)
  note 1 = traced_phase [OF this ph]
  let ?c2 = "fold (ct_count_rank cfg) [0..ranks cfg - 1] c1"
  have c2: "traced cfg tm (tr @ ev1) ?c2" using 1 traced_count by blast
  have 3: "traced cfg tm ((tr @ ev1) @ ev2) c3 \<and> ct_clk c3 = ct_clk ?c2 \<and> at_clock (ct_clk ?c2) ev2"
    using sr c2 traced_self_refresh [OF c2] by (auto simp: at_clock_def)
  note s = ScheduleTransaction_same [OF sc]
  have "traced cfg tm (tr @ ev) c4" using 3 traced_same [OF _ s] fin(1) by simp
  then show ?thesis
    using 1 3 count_ranks_clk [of cfg "[0..ranks cfg - 1]" c1] s fin
    by (auto simp: traced_def same_channel_def at_clock_def upd_stats_def cq_ClockTick_def)
qed

theorem controller_run_traced:
  "controller_run cfg tm n tr c \<Longrightarrow>
     traced cfg tm tr c \<and> ct_clk c = of_nat n \<and> (n < 2 ^ 64 \<longrightarrow> sorted (map fst tr) \<and> (\<forall>e\<in>set tr. unat (fst e) < n))"
proof (induction rule: controller_run.induct)
  case (new ch c)
  then show ?case
    by (auto simp: new_Controller_def new_CommandQueue_def Let_def run_elims traced_def channel_run.start split: if_splits)
next
  case (add n tr c t)
  have "same_channel c (ct_AddTransaction t c)"
    by (auto simp: same_channel_def ct_AddTransaction_def upd_stats_def Let_def)
  then show ?case using add.IH traced_same by (auto simp: same_channel_def)
next
  case (returned n tr c clk t c')
  then have "same_channel c c'"
    by (auto simp: same_channel_def ReturnDoneTrans_def upd_stats_def Let_def split: option.splits)
  then show ?case using returned.IH traced_same by (auto simp: same_channel_def)
next
  case (stats n tr c f)
  have "same_channel c (upd_stats f c)" by (simp add: same_channel_def upd_stats_def)
  then show ?case using stats.IH traced_same by (auto simp: same_channel_def)
next
  case (tick n tr c ev c')
  have t: "traced cfg tm (tr @ ev) c'" "ct_clk c' = ct_clk c + 1" "at_clock (ct_clk c) ev"
    using traced_tick [OF _ tick.hyps(2)] tick.IH by auto
  have "sorted (map fst (tr @ ev)) \<and> (\<forall>e\<in>set (tr @ ev). unat (fst e) < Suc n)" if n: "Suc n < 2 ^ 64"
  proof -
    have old: "sorted (map fst tr)" "\<forall>e\<in>set tr. unat (fst e) < n" using tick.IH n by auto
    have u: "unat (ct_clk c) = n" using tick.IH n by (simp add: unat_of_nat take_bit_nat_eq_self)
    have ev: "map fst ev = replicate (length ev) (ct_clk c)"
      using t(3) by (auto simp: at_clock_def map_replicate_const [symmetric])
    show ?thesis using old u t(3)
      by (auto simp: sorted_append ev at_clock_def less_Suc_eq word_le_nat_alt order.strict_implies_order)
  qed
  then show ?case using t tick.IH by simp
qed

section \<open>The commands of a read\<close>

lemma wait_trace:
  assumes "controller_run cfg tm k tr c"
    "ct_serving cfg n i [read_command cfg a] [] pend [] (open_bank cfg a u) t c" "config_ok cfg"
    "\<forall>j<m. quiet_at n (t + of_nat j) \<and> t + of_nat j < u"
  shows "\<exists>c'. controller_run cfg tm (k + m) tr c' \<and>
    ct_serving cfg n i [read_command cfg a] [] pend [] (open_bank cfg a u) (t + of_nat m) c'"
  using assms
proof (induction m arbitrary: k t c)
  case (Suc m)
  have g: "quiet_at n t" "t < u" using Suc.prems(4) by force+
  have b: "open_bank cfg a u (ct_channel c)" using Suc.prems(2) by (simp add: ct_serving_def)
  then have w: "cs_GetReadyCommand cfg (ct_channel c) (read_command cfg a) t = ret no_Command"
    using read_when_open [OF Suc.prems(3), of "ct_channel c" a t] g(2) by (auto simp: open_bank_def)
  from ct_phase_wait [OF Suc.prems(2) g(1) Suc.prems(3), of "open_bank cfg a u" tm]
  obtain c' where c': "ct_tick_trace cfg tm c = ret ([], c')"
      "ct_serving cfg n i [read_command cfg a] [] pend [] (open_bank cfg a u) (t + 1) c'"
    using w b same_banks_bank(3) by auto
  have "\<forall>j<m. quiet_at n (t + 1 + of_nat j) \<and> t + 1 + of_nat j < u" using Suc.prems(4) by (force simp: add.assoc)
  from Suc.IH [OF controller_run.tick [OF Suc.prems(1) c'(1), unfolded append_Nil2] c'(2) Suc.prems(3) this] show ?case
    by (simp add: add.assoc)
qed auto

text \<open>A closed bank is activated in the cycle after the transaction is scheduled and read after the delay.\<close>

lemma read_trace:
  fixes T :: "64 word"
  assumes r: "controller_run cfg (new_Timing cfg) k tr c"
    and s: "ct_serving cfg n (read_queue_of cfg a) [] [x] [(a, x)] [] (closed_bank cfg a (T + 1)) T c" "config_ok cfg"
    and x: "tr_addr x = a" "\<not> tr_is_write x" and D: "activate_to_read cfg = int (Suc E)"
    and time: "unat T + (E + 3) < 2 ^ 64" "\<forall>j < E + 3. quiet_at n (T + of_nat j)"
  shows "\<exists>c'. controller_run cfg (new_Timing cfg) (k + (E + 3))
    (tr @ [(T + 1, mk_Command ACTIVATE (AddressMapping cfg a) a), (T + of_nat (E + 2), read_command cfg a)]) c'"
proof -
  let ?tm = "new_Timing cfg" and ?i = "read_queue_of cfg a" and ?act = "mk_Command ACTIVATE (AddressMapping cfg a) a"
  have quiet: "quiet_at n (T + of_nat j)" if "j < E + 3" for j using time(2) that by blast
  have un: "unat (T + of_nat j) = unat T + j" if "j < E + 3" for j using time(1) that by (intro unat_plus_nat) linarith
  have less: "T + of_nat j < T + of_nat k" if "j < k" "k < E + 3" for j k using un [of j] un [of k] that by (simp add: word_less_nat_alt)
  have shift: "T + of_nat m + of_nat j = T + of_nat (m + j)" for m j by (simp add: add.assoc)
  have u: "T + 1 + of_int (activate_to_read cfg) = T + of_nat (E + 2)" "T + 1 + 1 = T + of_nat 2" unfolding D by simp_all
  obtain c1 where 1: "ct_tick_trace cfg ?tm c = ret ([], c1)"
      "ct_serving cfg n ?i [read_command cfg a] [] [(a, x)] [] (closed_bank cfg a (T + 1)) (T + 1) c1"
    using ct_phase_schedule [OF s(1) _ s(2) x same_banks_bank(2)] quiet [of 0] by fastforce
  have q1: "quiet_at n (T + 1)" "T + 1 < T + 1 + of_int (activate_to_read cfg)"
    unfolding u(1) using quiet [of 1] less [of 1 "E + 2"] by simp_all
  obtain c2 where 2: "ct_tick_trace cfg ?tm c1 = ret ([(T + 1, ?act)], c2)"
      "ct_serving cfg n ?i [read_command cfg a] [] [(a, x)] [] (open_bank cfg a (T + of_nat (E + 2))) (T + of_nat 2) c2"
    using ct_phase_activate [OF 1(2) q1(1) s(2) q1(2)] unfolding u by blast
  note r2 = controller_run.tick [OF controller_run.tick [OF r 1(1)] 2(1)]
  have "\<forall>j<E. quiet_at n (T + of_nat 2 + of_nat j) \<and> T + of_nat 2 + of_nat j < T + of_nat (E + 2)"
    unfolding shift by (intro allI impI conjI quiet less) simp_all
  from wait_trace [OF r2 2(2) s(2) this] obtain c3 where 3: "controller_run cfg ?tm (Suc (Suc k) + E) ((tr @ []) @ [(T + 1, ?act)]) c3"
      "ct_serving cfg n ?i [read_command cfg a] [] [(a, x)] [] (open_bank cfg a (T + of_nat (E + 2))) (T + of_nat (E + 2)) c3"
    unfolding shift by (auto simp only: add_ac)
  obtain c4 where 4: "ct_tick_trace cfg ?tm c3 = ret ([(T + of_nat (E + 2), read_command cfg a)], c4)"
    using ct_phase_read [OF 3(2) quiet s(2) order_refl, of ?tm] by auto
  have e: "Suc (Suc (Suc k) + E) = k + (E + 3)" by simp
  from controller_run.tick [OF 3(1) 4] show ?thesis unfolding e append_assoc append_Nil2 append_Nil append_Cons by blast
qed

end
