(* ===== verification/DS_Refresh_Cycle.thy ===== *)
theory DS_Refresh_Cycle
  imports DS_Channel_Inv
begin

text \<open>
  The staggered refresh policy visits the ranks in turn: after any number of cycles the
  refresh queue has been given exactly one refresh per elapsed interval, for the ranks
  0, 1, ..., 0, 1, ... in this order.
\<close>

definition rank_refresh :: "int \<Rightarrow> Command" where
  "rank_refresh r = mk_Command REFRESH (mk_Address (- 1) r (- 1) (- 1) (- 1) (- 1)) (- 1)"

text \<open>\<open>n\<close> cycles of the refresh logic.\<close>

fun refresh_cycles :: "Config \<Rightarrow> nat \<Rightarrow> Refresh \<times> ChannelState \<Rightarrow> (Refresh \<times> ChannelState) run" where
  "refresh_cycles cfg 0 s = ret s"
| "refresh_cycles cfg (Suc n) s = run_bind (refresh_cycles cfg n s) (\<lambda>(rf, cs). refresh_ClockTick cfg rf cs)"

definition due_refreshes :: "nat \<Rightarrow> nat \<Rightarrow> nat" where
  "due_refreshes interval n = (n - 1) div interval"

lemma due_refreshes_Suc:
  assumes "0 < i"
  shows "due_refreshes i (Suc n) = due_refreshes i n + (if n mod i = 0 \<and> 0 < n then 1 else 0)"
proof (cases n)
  case (Suc m)
  have "Suc m div i = m div i + (if Suc m mod i = 0 then 1 else 0)" by (simp add: div_Suc)
  then show ?thesis by (simp add: due_refreshes_def Suc)
qed (simp add: due_refreshes_def)

lemma staggered_refresh_cycle:
  assumes geo: "geometry_ok cfg" and pol: "refresh_policy cfg = RANK_LEVEL_STAGGERED" and i: "0 < i" "i < 2 ^ 64"
    and cs0: "\<forall>r. \<not> rank_is_sref cs r" and n: "n < 2 ^ 64"
  shows "refresh_cycles cfg n (\<lparr>rf_clk = 0, refresh_interval = i, next_rank = 0, next_bg = 0, next_bank = 0\<rparr>, cs) =
    ret (\<lparr>rf_clk = of_nat n, refresh_interval = i, next_rank = int (due_refreshes (nat i) n) mod ranks cfg,
          next_bg = 0, next_bank = 0\<rparr>,
         cs\<lparr>refresh_q := refresh_q cs @ map (\<lambda>j. rank_refresh (int j mod ranks cfg)) [0..<due_refreshes (nat i) n]\<rparr>)"
  using n
proof (induction n)
  case (Suc n)
  let ?d = "due_refreshes (nat i) n"
  let ?q = "\<lambda>d. refresh_q cs @ map (\<lambda>j. rank_refresh (int j mod ranks cfg)) [0..<d]"
  have n: "n < 2 ^ 64" using Suc.prems by simp
  have u: "unat (of_nat n :: 64 word) = n" using n by (simp add: unat_of_nat)
  have ui: "unat (of_int i :: 64 word) = nat i" using i by (simp add: unat_eq_nat_uint uint_word_of_int_eq take_bit_int_eq_self)
  have wi: "(of_int i :: 64 word) \<noteq> 0" using ui i(1) by auto
  have m: "(of_nat n :: 64 word) mod of_int i = 0 \<longleftrightarrow> n mod nat i = 0"
    using u ui by (metis unat_eq_zero unat_mod_distrib)
  have pos: "(of_nat n :: 64 word) > 0 \<longleftrightarrow> 0 < n" using u by (metis gr0I unat_eq_zero word_gt_0 less_numeral_extra(3))
  have IH: "refresh_cycles cfg n (\<lparr>rf_clk = 0, refresh_interval = i, next_rank = 0, next_bg = 0, next_bank = 0\<rparr>, cs) =
      ret (\<lparr>rf_clk = of_nat n, refresh_interval = i, next_rank = int ?d mod ranks cfg, next_bg = 0, next_bank = 0\<rparr>,
           cs\<lparr>refresh_q := ?q ?d\<rparr>)" using Suc.IH [OF n] .
  have inc: "(int ?d mod ranks cfg + 1) mod ranks cfg = int (Suc ?d) mod ranks cfg"
    using mod_add_left_eq [of "int ?d" "ranks cfg" 1] by (simp add: add.commute)
  have "due_refreshes (nat i) (Suc n) = ?d + (if n mod nat i = 0 \<and> 0 < n then 1 else 0)"
    using due_refreshes_Suc i(1) by simp
  then show ?case
    using cs0 pol wi inc
    by (simp add: IH refresh_ClockTick_def Let_def m pos InsertRefresh_def IterateNext_def RankNeedRefresh_def
        rank_refresh_def ac_simps)
qed (simp add: due_refreshes_def)

text \<open>So within \<open>ranks\<close> intervals every rank is due once.\<close>

lemma every_rank_due:
  assumes "0 \<le> r" "r < ranks cfg"
  shows "\<exists>j<k + nat (ranks cfg). k \<le> j \<and> int j mod ranks cfg = r"
proof -
  let ?n = "ranks cfg"
  let ?j = "int k + (r - int k) mod ?n"
  have b: "0 \<le> (r - int k) mod ?n" "(r - int k) mod ?n < ?n" using assms by simp_all
  have "?j mod ?n = r" using assms by (simp add: mod_add_right_eq)
  moreover have "int (nat ?j) = ?j" using b by linarith
  ultimately have "int (nat ?j) mod ?n = r" by simp
  moreover have "k \<le> nat ?j" "nat ?j < k + nat ?n" using b by linarith+
  ultimately have "int (nat ?j) mod ?n = r" "k \<le> nat ?j" "nat ?j < k + nat ?n" by blast+
  then show ?thesis by blast
qed

end
