(* ===== verification/DS_Self_Refresh.thy ===== *)
theory DS_Self_Refresh
  imports DS_Latency DS_HMC
begin

text \<open>
  Self refresh (\<open>controller.cc\<close>, the second power update of \<open>ClockTick\<close>): a memory that is left
  alone puts its ranks to sleep when \<open>sref_threshold\<close> idle cycles have passed. The phases are
  followed from the construction of the system, all channels in lock step: awake and idle, the
  entry, asleep, and the request of the controller to wake a rank for a waiting command.
\<close>

section \<open>Channels in lock step\<close>

definition on_channels :: "Config \<Rightarrow> (int \<Rightarrow> Controller \<Rightarrow> bool) \<Rightarrow> JedecDRAMSystem \<Rightarrow> bool" where
  "on_channels cfg P s \<longleftrightarrow> (\<forall>ch. ch_in cfg ch \<longrightarrow> P ch (ctrls s ch))"

lemma drain_all_none:
  assumes "\<forall>i\<in>set is. return_queue (ctrls s i) = []"
  shows "drain_all clk is s = ([], s)"
  using assms by (induction "is") (simp_all add: drain_not_due)

lemma tick_ctrls_all:
  assumes "distinct is" "\<forall>i\<in>set is. \<exists>c. ct_ClockTick cfg tm (ctrls s i) = ret c"
  shows "\<exists>s'. for_run (js_tick_ctrl cfg tm) is s = ret s'"
  using assms
proof (induction "is" arbitrary: s)
  case (Cons i "is")
  then obtain c where c: "ct_ClockTick cfg tm (ctrls s i) = ret c" by auto
  let ?s = "s\<lparr>ctrls := (ctrls s)(i := c)\<rparr>"
  have "\<forall>j\<in>set is. \<exists>c. ct_ClockTick cfg tm (ctrls ?s j) = ret c" using Cons.prems by auto
  then have "\<exists>s'. for_run (js_tick_ctrl cfg tm) is ?s = ret s'" using Cons.IH [of ?s] Cons.prems(1) by simp
  then show ?case using c by (simp add: js_tick_ctrl_def [of cfg tm i s])
qed simp

text \<open>A channel whose cycle fails ends the loop, whatever the channels before it do.\<close>

lemma tick_ctrls_fail:
  assumes "distinct is" "ch \<in> set is" "ct_ClockTick cfg tm (ctrls s ch) = raise e"
    "\<forall>i\<in>set is. i \<noteq> ch \<longrightarrow> (\<exists>c. ct_ClockTick cfg tm (ctrls s i) = ret c)"
  shows "for_run (js_tick_ctrl cfg tm) is s = raise e"
  using assms
proof (induction "is" arbitrary: s)
  case (Cons i "is")
  show ?case
  proof (cases "i = ch")
    case True
    then show ?thesis using Cons.prems(3) by (simp add: js_tick_ctrl_def [of cfg tm ch s])
  next
    case False
    then obtain c where c: "ct_ClockTick cfg tm (ctrls s i) = ret c" using Cons.prems(4) by auto
    let ?s = "s\<lparr>ctrls := (ctrls s)(i := c)\<rparr>"
    have "ct_ClockTick cfg tm (ctrls ?s ch) = raise e" using Cons.prems(3) False by simp
    moreover have "\<forall>j\<in>set is. j \<noteq> ch \<longrightarrow> (\<exists>c. ct_ClockTick cfg tm (ctrls ?s j) = ret c)"
      using Cons.prems(1,4) by auto
    ultimately have "for_run (js_tick_ctrl cfg tm) is ?s = raise e" using Cons.IH [of ?s] Cons.prems(1,2) False by simp
    then show ?thesis using c by (simp add: js_tick_ctrl_def [of cfg tm i s])
  qed
qed simp

lemma lockstep:
  assumes ep: "(of_int (epoch_period cfg) :: 64 word) \<noteq> 0"
    and s: "on_channels cfg (\<lambda>ch c. return_queue c = [] \<and> (\<exists>c'. ct_ClockTick cfg tm c = ret c' \<and> Q ch c')) s"
    and Q: "\<And>ch f c. Q ch c \<Longrightarrow> Q ch (upd_stats f c)"
  shows "\<exists>s'. js_ClockTick cfg tm s = ret ([], s') \<and> js_clk s' = js_clk s + 1 \<and> on_channels cfg Q s'"
proof -
  let ?I = "[0..channels cfg - 1]"
  have I: "distinct ?I" "\<And>i. i \<in> set ?I \<longleftrightarrow> ch_in cfg i" by (auto simp: ch_in_def)
  have d: "drain_all (js_clk s) ?I s = ([], s)" by (rule drain_all_none) (use s I in \<open>auto simp: on_channels_def\<close>)
  have "\<forall>i\<in>set ?I. \<exists>c. ct_ClockTick cfg tm (ctrls s i) = ret c" using s I by (fastforce simp: on_channels_def)
  from tick_ctrls_all [OF I(1) this] obtain s1 where s1: "for_run (js_tick_ctrl cfg tm) ?I s = ret s1" by blast
  have Q1: "Q ch (ctrls s1 ch)" "js_clk s1 = js_clk s" if "ch_in cfg ch" for ch
    using tick_ctrls_at [OF I(1) s1, of ch] s that I(2) [of ch] by (auto simp: on_channels_def)
  have clk: "js_clk s1 = js_clk s" using tick_ctrls_at [OF I(1) s1] by blast
  let ?s = "s1\<lparr>js_clk := js_clk s1 + 1\<rparr>"
  define s' where "s' = (if js_clk ?s mod of_int (epoch_period cfg) = 0 then js_PrintEpochStats cfg ?s else ?s)"
  have "js_ClockTick cfg tm s = ret ([], s')"
    using d s1 ep by (simp add: js_ClockTick_def js_advance_def Let_def s'_def)
  moreover have "js_clk s' = js_clk s + 1" using print_at [of cfg ?s] clk by (auto simp: s'_def)
  moreover have "Q ch (ctrls s' ch)" if "ch_in cfg ch" for ch
  proof -
    obtain f where "ctrls (js_PrintEpochStats cfg ?s) ch = upd_stats f (ctrls ?s ch)" using print_at by blast
    then show ?thesis using Q1(1) [OF that] Q by (simp add: s'_def)
  qed
  ultimately show ?thesis by (auto simp: on_channels_def)
qed

section \<open>A channel left alone\<close>

text \<open>
  One rank; the controller has no command in its queues but \<open>cmds\<close> in the queue \<open>i\<close>, and \<open>rq\<close> not
  yet scheduled. \<open>e\<close> is what \<open>rank_q_empty\<close> says of the rank.
\<close>

definition idle_rank ::
    "Config \<Rightarrow> int \<Rightarrow> int \<Rightarrow> Command list \<Rightarrow> Transaction list \<Rightarrow> (64 word \<times> Transaction) list \<Rightarrow> bool \<Rightarrow> 64 word \<Rightarrow> Controller \<Rightarrow> bool" where
  "idle_rank cfg n i cmds rq pend e t c \<longleftrightarrow>
     lone cfg i cmds rq pend [] 0 c \<and> ct_clk c = t \<and> refresh_interval (ct_refresh c) = n \<and>
     rank_q_empty (ct_queue c) 0 = e \<and> 0 < trans_capacity c"

text \<open>Awake for \<open>k\<close> cycles since the construction.\<close>

definition awake :: "nat \<Rightarrow> ChannelState \<Rightarrow> bool" where
  "awake k cs \<longleftrightarrow>
     bank_states cs = (\<lambda>_ _ _. new_BankState) \<and> \<not> rank_is_sref cs 0 \<and> rank_idle_cycles cs 0 = int k"

text \<open>Asleep, and not to be woken before \<open>u\<close>.\<close>

definition asleep :: "Config \<Rightarrow> 64 word \<Rightarrow> ChannelState \<Rightarrow> bool" where
  "asleep cfg u cs \<longleftrightarrow>
     rank_is_sref cs 0 \<and>
     (\<forall>g k. cs_in cfg 0 g k \<longrightarrow> bs_state (bank_states cs 0 g k) = SREF \<and> u \<le> cmd_timing (bank_states cs 0 g k) SREF_EXIT)"

lemma idle_rank_stats [simp]:
  "idle_rank cfg n i cmds rq pend e t (upd_stats f c) = idle_rank cfg n i cmds rq pend e t c"
  "ct_channel (upd_stats f c) = ct_channel c"
  by (simp_all add: idle_rank_def upd_stats_def lone_def)

section \<open>Putting a rank to sleep\<close>

abbreviation sref_enter :: Command where "sref_enter \<equiv> mk_Command SREF_ENTER (rank_address 0) (- 1)"

abbreviation sref_exit :: Command where "sref_exit \<equiv> mk_Command SREF_EXIT (rank_address 0) (- 1)"

lemma rank_zero [simp]: "ad_rank (rank_address 0) = 0"
  by (simp add: rank_address_def)

lemma enter_scan:
  assumes "bank_states cs = (\<lambda>_ _ _. new_BankState)"
  shows "rank_scan cs sref_enter clk ps n lst = ret (None, n + int (length ps), if ps = [] then lst else sref_enter)"
proof (induction ps arbitrary: n lst)
  case (Cons p ps)
  have "bank_GetReadyCommand (bank_states cs (c_Rank sref_enter) j k) sref_enter clk = ret sref_enter" for j k
    using assms by (simp add: bank_GetReadyCommand_def required_type_def new_BankState_def command_defs mk_Command_def)
  then show ?case using Cons by (cases p) (simp add: command_defs mk_Command_def)
qed simp

lemma enter_ready:
  assumes "geometry_ok cfg" "bank_states cs = (\<lambda>_ _ _. new_BankState)"
  shows "cs_GetReadyCommand cfg cs sref_enter clk = ret sref_enter"
proof -
  have "rank_banks cfg \<noteq> []" "cs_rank_in cfg (c_Rank sref_enter)" "IsRankCMD sref_enter"
    using length_rank_banks [OF assms(1)] assms(1) by (auto simp: geometry_ok_def cs_rank_in_def command_defs mk_Command_def)
  then show ?thesis
    using enter_scan [OF assms(2), of clk "rank_banks cfg" 0 no_Command] length_rank_banks [OF assms(1)]
    by (simp add: cs_GetReadyCommand_def)
qed

lemma enter_banks:
  assumes "distinct ps" "\<forall>(j, k)\<in>set ps. bank_states cs 0 j k = new_BankState"
  shows "\<exists>b. for_run (cs_update_bank sref_enter 0) ps cs = ret (cs\<lparr>bank_states := b\<rparr>) \<and>
    (\<forall>r j k. b r j k = (if r = 0 \<and> (j, k) \<in> set ps then new_BankState\<lparr>bs_state := SREF\<rparr> else bank_states cs r j k))"
  using assms
proof (induction ps arbitrary: cs)
  case Nil
  have "cs = cs\<lparr>bank_states := bank_states cs\<rparr>" by simp
  then show ?case by (metis empty_iff empty_set for_run.simps(1))
next
  case (Cons p ps)
  obtain j k where p: "p = (j, k)" by fastforce
  let ?b = "new_BankState\<lparr>bs_state := SREF\<rparr>"
  let ?cs = "upd_bank 0 j k ?b cs"
  have u: "cs_update_bank sref_enter 0 p cs = ret ?cs"
    using Cons.prems(2) by (simp add: p cs_update_bank_def bank_UpdateState_def new_BankState_def mk_Command_def)
  have "distinct ps" "\<forall>(j, k)\<in>set ps. bank_states ?cs 0 j k = new_BankState"
    using Cons.prems by (auto simp: p upd_bank_def)
  from Cons.IH [OF this] obtain b where b: "for_run (cs_update_bank sref_enter 0) ps ?cs = ret (?cs\<lparr>bank_states := b\<rparr>)"
      "\<forall>r j k. b r j k = (if r = 0 \<and> (j, k) \<in> set ps then ?b else bank_states ?cs r j k)" by blast
  have "?cs\<lparr>bank_states := b\<rparr> = cs\<lparr>bank_states := b\<rparr>" by (simp add: upd_bank_def)
  then have "for_run (cs_update_bank sref_enter 0) (p # ps) cs = ret (cs\<lparr>bank_states := b\<rparr>)" using u b(1) by simp
  moreover have "b r j' k' = (if r = 0 \<and> (j', k') \<in> set (p # ps) then ?b else bank_states cs r j' k')" for r j' k'
    using b(2) by (simp add: p upd_bank_def)
  ultimately show ?case by blast
qed

lemma distinct_rank_banks: "distinct (rank_banks cfg)"
proof -
  have "rank_banks cfg = List.product [0..bankgroups cfg - 1] [0..banks_per_group cfg - 1]"
    by (simp add: rank_banks_def product_concat_map)
  then show ?thesis by (simp add: distinct_product)
qed

lemma enter_sleeps:
  assumes g: "geometry_ok cfg" and b: "bank_states cs = (\<lambda>_ _ _. new_BankState)"
  shows "\<exists>cs'. UpdateTimingAndStates cfg (new_Timing cfg) sref_enter t cs = ret cs' \<and> refresh_q cs' = refresh_q cs \<and>
    asleep cfg (t + of_int (tCKESR cfg)) cs'"
proof -
  obtain bs where bs: "for_run (cs_update_bank sref_enter 0) (rank_banks cfg) cs = ret (cs\<lparr>bank_states := bs\<rparr>)"
      "\<forall>r j k. bs r j k = (if r = 0 \<and> (j, k) \<in> set (rank_banks cfg) then new_BankState\<lparr>bs_state := SREF\<rparr> else bank_states cs r j k)"
    using enter_banks [OF distinct_rank_banks, of cfg cs] b by auto
  let ?cs = "cs\<lparr>bank_states := bs, rank_is_sref := (rank_is_sref cs)(0 := True)\<rparr>"
  have st: "cs_UpdateState cfg sref_enter cs = ret ?cs"
    using bs(1) g by (simp add: cs_UpdateState_def Let_def command_defs mk_Command_def cs_rank_in_def geometry_ok_def)
  let ?cs' = "UpdateSameRankTiming cfg (rank_address 0) [(SREF_EXIT, tCKESR cfg)] t ?cs"
  have "cs_UpdateTiming cfg (new_Timing cfg) sref_enter t ?cs = ret ?cs'"
    by (simp add: cs_UpdateTiming_def mk_Command_def new_Timing_def)
  then have u: "UpdateTimingAndStates cfg (new_Timing cfg) sref_enter t cs = ret ?cs'" using st by (simp add: UpdateTimingAndStates_def)
  have "bank_states ?cs' 0 j k = apply_timings [(SREF_EXIT, tCKESR cfg)] t (new_BankState\<lparr>bs_state := SREF\<rparr>)" if "cs_in cfg 0 j k" for j k
    using that bs(2) rank_banks_in [of j k cfg] by (simp add: UpdateSameRankTiming_def time_banks_def cs_in_def)
  then have "asleep cfg (t + of_int (tCKESR cfg)) ?cs'"
    by (auto simp: asleep_def UpdateSameRankTiming_def apply_timings_def bank_UpdateTiming_def time_banks_def)
  then show ?thesis using u by (auto simp: UpdateSameRankTiming_def)
qed

section \<open>The cycles of a controller\<close>

text \<open>One rank, with self refresh.\<close>

definition sref_config :: "Config \<Rightarrow> bool" where
  "sref_config cfg \<longleftrightarrow> geometry_ok cfg \<and> ranks cfg = 1 \<and> enable_self_refresh cfg"

lemma idle_rank_lead:
  assumes "idle_rank cfg n i cmds rq pend e t c"
  shows "lone cfg i cmds rq pend [] 1 (lead c)" "no_refresh_at (ct_refresh c) (rf_clk (ct_refresh c)) = quiet_at n t"
  using assms lone_lead by (auto simp: idle_rank_def lone_def no_refresh_at_def quiet_at_def Let_def)

text \<open>A cycle in which the queues have no command to issue.\<close>

lemma sref_tick:
  assumes cfg: "sref_config cfg" and c: "idle_rank cfg n i cmds rq pend e t c" "quiet_at n t"
    and none: "ct_get_command cfg (lead c) = ret (no_Command, lead c)"
  shows "ct_ClockTick cfg tm c =
    run_bind (ct_self_refresh cfg tm [0] (ct_count_rank cfg 0 (lead c))) (\<lambda>r. finish_tick cfg (snd r))"
proof -
  note l = idle_rank_lead [OF c(1)]
  have "refresh_ClockTick cfg (ct_refresh c) (ct_channel c) = ret ((ct_refresh c)\<lparr>rf_clk := rf_clk (ct_refresh c) + 1\<rparr>, ct_channel c)"
    using l(2) c(2) by (auto simp: refresh_ClockTick_def no_refresh_at_def Let_def word_gt_0)
  moreover have "ct_issue_phase cfg tm (lead c) = ret ([], lead c)" using issue_nothing [OF none lone_queue(4) [OF l(1)]] .
  ultimately show ?thesis
    using cfg unfolding ct_ClockTick_def ct_tick_trace_def finish_tick_def sref_config_def
    by (simp add: Let_def run_bind_assoc split_beta del: ct_self_refresh.simps)
qed

lemma all_idle: "bank_states cs = (\<lambda>_ _ _. new_BankState) \<Longrightarrow> IsAllBankIdleInRank cfg cs 0"
  by (simp add: IsAllBankIdleInRank_def cs_IsRowOpen_def bank_IsRowOpen_def new_BankState_def)

lemma count_awake:
  assumes "awake k (ct_channel c)"
  shows "\<exists>st. ct_count_rank cfg 0 c = c\<lparr>ct_stats := st, ct_channel := (ct_channel c)\<lparr>rank_idle_cycles :=
    (rank_idle_cycles (ct_channel c))(0 := int (Suc k))\<rparr>\<rparr>"
  using assms all_idle [of "ct_channel c" cfg] by (auto simp: awake_def ct_count_rank_def upd_stats_def add.commute)

lemma count_asleep: "asleep cfg u (ct_channel c) \<Longrightarrow> \<exists>f. ct_count_rank cfg 0 c = upd_stats f c"
  by (auto simp: asleep_def ct_count_rank_def)

lemma awake_tick:
  assumes cfg: "sref_config cfg" "int (Suc k) < sref_threshold cfg"
    and c: "idle_rank cfg n i [] [] [] True t c" "awake k (ct_channel c)" "quiet_at n t"
  shows "\<exists>c'. ct_ClockTick cfg tm c = ret c' \<and> idle_rank cfg n i [] [] [] True (t + 1) c' \<and> awake (Suc k) (ct_channel c')"
proof -
  note l = idle_rank_lead(1) [OF c(1)]
  note tick = sref_tick [OF cfg(1) c(1,3) get_command_none [OF l]]
  have "awake k (ct_channel (lead c))" using c(2) by simp
  from count_awake [OF this] obtain st where st: "ct_count_rank cfg 0 (lead c) = (lead c)\<lparr>ct_stats := st,
      ct_channel := (ct_channel c)\<lparr>rank_idle_cycles := (rank_idle_cycles (ct_channel c))(0 := int (Suc k))\<rparr>\<rparr>" (is "_ = ?c") by auto
  have "ct_self_refresh cfg tm [0] ?c = ret ([], ?c)" using c(1,2) cfg(2) by (simp add: awake_def)
  moreover have "lone cfg i [] [] [] [] 1 ?c" using l by (simp add: lone_def)
  then obtain c' where "finish_tick cfg ?c = ret c'" "lone cfg i [] [] [] [] 0 c'" "finished ?c c'" "rank_q_empty (ct_queue c') = rank_q_empty (ct_queue ?c)"
    using finish_idle by blast
  ultimately show ?thesis using c(1,2) tick st by (auto simp: idle_rank_def awake_def finished_def)
qed

lemma falls_asleep:
  assumes cfg: "sref_config cfg" "sref_threshold cfg \<le> int (Suc k)"
    and c: "idle_rank cfg n i [] [] [] True t c" "awake k (ct_channel c)" "quiet_at n t"
  shows "\<exists>c'. ct_ClockTick cfg (new_Timing cfg) c = ret c' \<and> idle_rank cfg n i [] [] [] True (t + 1) c' \<and>
    asleep cfg (t + of_int (tCKESR cfg)) (ct_channel c')"
proof -
  let ?tm = "new_Timing cfg"
  note l = idle_rank_lead(1) [OF c(1)]
  note tick = sref_tick [OF cfg(1) c(1,3) get_command_none [OF l]]
  have "awake k (ct_channel (lead c))" using c(2) by simp
  from count_awake [OF this] obtain st where st: "ct_count_rank cfg 0 (lead c) = (lead c)\<lparr>ct_stats := st,
      ct_channel := (ct_channel c)\<lparr>rank_idle_cycles := (rank_idle_cycles (ct_channel c))(0 := int (Suc k))\<rparr>\<rparr>" (is "_ = ?c") by auto
  have g: "geometry_ok cfg" "bank_states (ct_channel ?c) = (\<lambda>_ _ _. new_BankState)" "ct_clk ?c = t"
    using cfg(1) c(1,2) by (simp_all add: sref_config_def awake_def idle_rank_def)
  obtain cs where cs: "UpdateTimingAndStates cfg ?tm sref_enter t (ct_channel ?c) = ret cs" "refresh_q cs = refresh_q (ct_channel ?c)"
      "asleep cfg (t + of_int (tCKESR cfg)) cs"
    using enter_sleeps [OF g(1,2)] by blast
  have v: "IsValid sref_enter" "\<not> IsReadC sref_enter" "\<not> IsWriteC sref_enter" by (simp_all add: command_defs mk_Command_def)
  obtain f where "UpdateCommandStats sref_enter ?c = ret (upd_stats f ?c)" using UpdateCommandStats_ok [OF v(1)] by blast
  then have "IssueCommand cfg ?tm sref_enter ?c = ret ((upd_stats f ?c)\<lparr>ct_channel := cs\<rparr>)" (is "_ = ret ?c3")
    using v cs(1) g(3) by (simp add: IssueCommand_def upd_stats_def)
  then have "ct_self_refresh cfg ?tm [0] ?c = ret ([(t, sref_enter)], ?c3)"
    using enter_ready [OF g(1,2), of t] c(1,2) cfg(2) v(1) g(3) by (simp add: awake_def idle_rank_def)
  moreover have "lone cfg i [] [] [] [] 1 ?c3" using l cs(2) by (simp add: lone_def upd_stats_def)
  then obtain c' where "finish_tick cfg ?c3 = ret c'" "lone cfg i [] [] [] [] 0 c'" "finished ?c3 c'" "rank_q_empty (ct_queue c') = rank_q_empty (ct_queue ?c3)"
    using finish_idle by blast
  ultimately show ?thesis using c(1) tick st cs(3) by (auto simp: idle_rank_def finished_def upd_stats_def)
qed

text \<open>Asleep with nothing queued for the rank: an unscheduled read, if there is one, is scheduled.\<close>

lemma sleeps_on:
  assumes cfg: "sref_config cfg" and c: "idle_rank cfg n i [] [] [] True t c" "asleep cfg u (ct_channel c)" "quiet_at n t"
  shows "\<exists>c'. ct_ClockTick cfg tm c = ret c' \<and> idle_rank cfg n i [] [] [] True (t + 1) c' \<and> asleep cfg u (ct_channel c')"
proof -
  note l = idle_rank_lead(1) [OF c(1)]
  note tick = sref_tick [OF cfg c(1,3) get_command_none [OF l]]
  obtain f where f: "ct_count_rank cfg 0 (lead c) = upd_stats f (lead c)" (is "_ = ?c") using count_asleep [of cfg u "lead c"] c(2) by auto
  have "ct_self_refresh cfg tm [0] ?c = ret ([], ?c)" using c(1,2) by (simp add: asleep_def idle_rank_def upd_stats_def)
  moreover have "lone cfg i [] [] [] [] 1 ?c" using l by simp
  then obtain c' where "finish_tick cfg ?c = ret c'" "lone cfg i [] [] [] [] 0 c'" "finished ?c c'" "rank_q_empty (ct_queue c') = rank_q_empty (ct_queue ?c)"
    using finish_idle by blast
  ultimately show ?thesis using c(1,2) tick f by (auto simp: idle_rank_def finished_def upd_stats_def)
qed

lemma sleeping_schedules:
  assumes cfg: "sref_config cfg" "ad_rank (AddressMapping cfg a) = 0"
    and c: "idle_rank cfg n (read_queue_of cfg a) [] [tr] pend True t c" "asleep cfg u (ct_channel c)" "quiet_at n t"
    and tr: "tr_addr tr = a" "\<not> tr_is_write tr"
  shows "\<exists>c'. ct_ClockTick cfg tm c = ret c' \<and>
    idle_rank cfg n (read_queue_of cfg a) [read_command cfg a] [] pend False (t + 1) c' \<and> asleep cfg u (ct_channel c')"
proof -
  note l = idle_rank_lead(1) [OF c(1)]
  note tick = sref_tick [OF cfg(1) c(1,3) get_command_none [OF l]]
  obtain f where f: "ct_count_rank cfg 0 (lead c) = upd_stats f (lead c)" (is "_ = ?c") using count_asleep [of cfg u "lead c"] c(2) by auto
  have "ct_self_refresh cfg tm [0] ?c = ret ([], ?c)" using c(1,2) by (simp add: asleep_def idle_rank_def upd_stats_def)
  moreover have l1: "lone cfg (read_queue_of cfg a) [] [tr] pend [] 1 ?c" and q: "q_structure (ct_queue ?c) = PER_BANK"
    using l by (simp, simp add: lone_def upd_stats_def)
  have "read_command cfg a = mk_Command READ (AddressMapping cfg (tr_addr tr)) (tr_addr tr)" using tr by (simp add: read_command_def)
  from finish_schedule [OF l1 tr(2) this read_queue_index [OF q, symmetric]]
  obtain c' where "finish_tick cfg ?c = ret c'" "lone cfg (read_queue_of cfg a) [read_command cfg a] [] pend [] 0 c'" "finished ?c c'"
      "rank_q_empty (ct_queue c') = (rank_q_empty (ct_queue ?c))(c_Rank (read_command cfg a) := False)" by blast
  ultimately show ?thesis using c(1,2) cfg(2) tick f by (auto simp: idle_rank_def finished_def upd_stats_def)
qed

text \<open>
  The read waits for the rank, whose exit is not due: the controller asks for the exit itself,
  and no case of the bank handles that request.
\<close>

lemma wake_fails:
  assumes cfg: "sref_config cfg" "cs_in cfg (ad_rank (AddressMapping cfg a)) (ad_bankgroup (AddressMapping cfg a)) (ad_bank (AddressMapping cfg a))"
    and c: "idle_rank cfg n i [read_command cfg a] [] pend False t c" "asleep cfg u (ct_channel c)" "quiet_at n t" "t < u"
  shows "ct_ClockTick cfg tm c = raise AbruptExit"
proof -
  note l = idle_rank_lead(1) [OF c(1)]
  let ?m = "AddressMapping cfg a"
  have r0: "ad_rank ?m = 0" using cfg by (auto simp: sref_config_def cs_in_def cs_rank_in_def)
  then have b: "bs_state (bank_states (ct_channel c) 0 (ad_bankgroup ?m) (ad_bank ?m)) = SREF"
      "\<not> cmd_timing (bank_states (ct_channel c) 0 (ad_bankgroup ?m) (ad_bank ?m)) SREF_EXIT \<le> t"
    using cfg(2) c(2,4) by (auto simp: asleep_def not_le intro: less_le_trans)
  have clk: "ct_clk (lead c) = t" using c(1) by (simp add: idle_rank_def)
  have "cs_GetReadyCommand cfg (ct_channel (lead c)) (read_command cfg a) (ct_clk (lead c)) = ret no_Command"
    unfolding clk using b cfg(2) r0
    by (simp add: cs_GetReadyCommand_def bank_GetReadyCommand_def required_type_def command_defs read_command_def mk_Command_def no_Command_def)
  then have none: "ct_get_command cfg (lead c) = ret (no_Command, lead c)" using get_command_wait [OF l] no_command by blast
  note tick = sref_tick [OF cfg(1) c(1,3) none]
  obtain f where f: "ct_count_rank cfg 0 (lead c) = upd_stats f (lead c)" (is "_ = ?c") using count_asleep [of cfg u "lead c"] c(2) by auto
  have geo: "geometry_ok cfg" using cfg(1) by (simp add: sref_config_def)
  obtain j k ps where ps: "rank_banks cfg = (j, k) # ps"
    using length_rank_banks [OF geo] geo by (cases "rank_banks cfg") (auto simp: geometry_ok_def)
  then have "cs_in cfg 0 j k"
    using rank_banks_in [of j k cfg] geo by (simp add: cs_in_def cs_rank_in_def geometry_ok_def)
  then have "bs_state (bank_states (ct_channel ?c) 0 j k) = SREF" using c(2) by (simp add: asleep_def)
  then have "bank_GetReadyCommand (bank_states (ct_channel ?c) 0 j k) sref_exit (ct_clk ?c) = raise AbruptExit"
    by (rule sref_exit_aborts) (simp add: mk_Command_def)
  then have "cs_GetReadyCommand cfg (ct_channel ?c) sref_exit (ct_clk ?c) = raise AbruptExit"
    using geo by (simp add: cs_GetReadyCommand_def ps command_defs mk_Command_def cs_rank_in_def geometry_ok_def)
  then have "ct_self_refresh cfg tm [0] ?c = raise AbruptExit" using c(1,2) by (simp add: asleep_def idle_rank_def upd_stats_def)
  then show ?thesis using tick f by simp
qed

section \<open>The memory\<close>

lemma lockstep_run:
  assumes ep: "(of_int (epoch_period cfg) :: 64 word) \<noteq> 0"
    and step: "\<And>j c. j < m \<Longrightarrow> P j c \<Longrightarrow> return_queue c = [] \<and> (\<exists>c'. ct_ClockTick cfg tm c = ret c' \<and> P (Suc j) c')"
    and P: "\<And>j f c. P j c \<Longrightarrow> P j (upd_stats f c)" and s: "on_channels cfg (\<lambda>_. P 0) s"
  shows "\<exists>s'. run_ticks (jedec_ops cfg tm) m s = ret ([], s') \<and> js_clk s' = js_clk s + of_nat m \<and> on_channels cfg (\<lambda>_. P m) s'"
  using step
proof (induction m)
  case 0
  then show ?case using s by simp
next
  case (Suc m)
  then obtain s1 where s1: "run_ticks (jedec_ops cfg tm) m s = ret ([], s1)" "js_clk s1 = js_clk s + of_nat m" "on_channels cfg (\<lambda>_. P m) s1"
    using less_SucI by metis
  have "on_channels cfg (\<lambda>_ c. return_queue c = [] \<and> (\<exists>c'. ct_ClockTick cfg tm c = ret c' \<and> P (Suc m) c')) s1"
    using s1(3) Suc.prems [of m] by (simp add: on_channels_def)
  from lockstep [OF ep this P] obtain s2 where s2: "js_ClockTick cfg tm s1 = ret ([], s2)" "js_clk s2 = js_clk s1 + 1" "on_channels cfg (\<lambda>_. P (Suc m)) s2"
    by blast
  have "run_ticks (jedec_ops cfg tm) (m + 1) s = ret ([] @ [], s2)"
    using run_ticks_append [OF s1(1), of 1 "[]" s2] s2(1) by (simp add: jedec_ops_def)
  then show ?case using s1(2) s2(2,3) by (auto simp: add_ac)
qed

lemma new_controllers:
  assumes "\<And>i. \<exists>c. new_Controller cfg i = ret c"
  shows "\<exists>s. js_controllers cfg junk = ret s"
proof -
  let ?f = "\<lambda>i s. run_bind (new_Controller cfg i) (\<lambda>c. ret (s\<lparr>ctrls := (ctrls s)(i := c)\<rparr>))"
  have "\<exists>s'. for_run ?f is s = ret s'" for "is" and s :: JedecDRAMSystem
  proof (induction "is" arbitrary: s)
    case (Cons i "is")
    then show ?case using assms [of i] by (auto simp: run_bind_def)
  qed simp
  then show ?thesis unfolding js_controllers_def .
qed

text \<open>The state of every channel \<open>j\<close> cycles after the construction, if nothing is asked of the memory.\<close>

definition left_alone :: "Config \<Rightarrow> int \<Rightarrow> int \<Rightarrow> nat \<Rightarrow> nat \<Rightarrow> Controller \<Rightarrow> bool" where
  "left_alone cfg n i t j c \<longleftrightarrow>
     idle_rank cfg n i [] [] [] True (of_nat j) c \<and>
     (if j < t then awake j (ct_channel c) else asleep cfg (of_nat (t - 1) + of_int (tCKESR cfg)) (ct_channel c))"

lemma left_alone_tick:
  assumes cfg: "sref_config cfg" "sref_threshold cfg = int t" and q: "quiet_at n (of_nat j)" and c: "left_alone cfg n i t j c"
  shows "return_queue c = [] \<and> (\<exists>c'. ct_ClockTick cfg (new_Timing cfg) c = ret c' \<and> left_alone cfg n i t (Suc j) c')"
proof -
  have l: "idle_rank cfg n i [] [] [] True (of_nat j) c" using c by (simp add: left_alone_def)
  have suc: "of_nat (Suc j) = (of_nat j + 1 :: 64 word)" by simp
  have "\<exists>c'. ct_ClockTick cfg (new_Timing cfg) c = ret c' \<and> left_alone cfg n i t (Suc j) c'"
  proof (cases "j < t")
    case True
    then have a: "awake j (ct_channel c)" using c by (simp add: left_alone_def)
    show ?thesis
    proof (cases "Suc j < t")
      case True
      then show ?thesis using awake_tick [OF cfg(1) _ l a q] cfg(2) by (auto simp: left_alone_def add.commute)
    next
      case False
      then have "j = t - 1" "sref_threshold cfg \<le> int (Suc j)" using True cfg(2) by simp_all
      then show ?thesis using falls_asleep [OF cfg(1) _ l a q] True False by (auto simp: left_alone_def add.commute)
    qed
  next
    case False
    then have a: "asleep cfg (of_nat (t - 1) + of_int (tCKESR cfg)) (ct_channel c)" using c by (simp add: left_alone_def)
    show ?thesis using sleeps_on [OF cfg(1) l a q] False by (auto simp: left_alone_def add.commute)
  qed
  then show ?thesis using l by (simp add: idle_rank_def lone_def)
qed

lemma left_alone_new:
  assumes cfg: "sref_config cfg" "\<not> unified_queue cfg" "0 < t"
      "cs_in cfg (ad_rank (AddressMapping cfg a)) (ad_bankgroup (AddressMapping cfg a)) (ad_bank (AddressMapping cfg a))"
      "queue_structure cfg = ''PER_BANK''" "row_buf_policy cfg \<noteq> ''CLOSE_PAGE''" "0 < to_size_t (cmd_queue_size cfg)"
      "0 < to_size_t (trans_queue_size cfg)"
    and rf: "new_Refresh cfg = ret rf"
  shows "\<exists>s. js_controllers cfg junk = ret s \<and> js_clk s = 0 \<and>
    on_channels cfg (\<lambda>_. left_alone cfg (refresh_interval rf) (read_queue_of cfg a) t 0) s"
proof -
  have geo: "geometry_ok cfg" using cfg(1) by (simp add: sref_config_def)
  have "\<exists>c. new_Controller cfg i = ret c" for i
    using rf cfg(5) by (simp add: new_Controller_def new_CommandQueue_def Let_def)
  from new_controllers [OF this] obtain s where s: "js_controllers cfg junk = ret s" by blast
  have clk: "js_clk s = 0" if "ch_in cfg ch" for ch using new_controllers_at [OF s that] by blast
  have "ch_in cfg 0 \<or> channels cfg \<le> 0" by (auto simp: ch_in_def)
  then have "js_clk s = 0" using clk s by (auto simp: js_controllers_def)
  moreover have "left_alone cfg (refresh_interval rf) (read_queue_of cfg a) t 0 (ctrls s ch)" if "ch_in cfg ch" for ch
  proof -
    have "new_Controller cfg ch = ret (ctrls s ch)" using new_controllers_at [OF s that] by simp
    note l = new_lone [OF this geo cfg(2,4-7) rf]
    have "awake 0 (ct_channel (ctrls s ch))" by (simp add: l(3) awake_def new_ChannelState_def)
    then show ?thesis using l cfg(3,8) by (simp add: left_alone_def idle_rank_def)
  qed
  ultimately show ?thesis using s by (auto simp: on_channels_def)
qed

text \<open>A read for a sleeping rank: taken, scheduled in the next cycle, and the end of the program in the one after.\<close>

lemma sleeping_read_aborts:
  assumes cfg: "sref_config cfg" "(of_int (epoch_period cfg) :: 64 word) \<noteq> 0" "ch_in cfg (ds_GetChannel cfg a)"
      "cs_in cfg (ad_rank (AddressMapping cfg a)) (ad_bankgroup (AddressMapping cfg a)) (ad_bank (AddressMapping cfg a))"
    and s: "on_channels cfg (\<lambda>_ c. idle_rank cfg n (read_queue_of cfg a) [] [] [] True T c \<and> asleep cfg u (ct_channel c)) s"
    and time: "quiet_at n T" "quiet_at n (T + 1)" "T + 1 < u"
  shows "\<exists>s2 s3. js_AddTransaction cfg a False s = ret (True, s2) \<and> js_ClockTick cfg tm s2 = ret ([], s3) \<and>
    js_ClockTick cfg tm s3 = raise AbruptExit"
proof -
  let ?ch = "ds_GetChannel cfg a" and ?i = "read_queue_of cfg a" and ?cmd = "read_command cfg a"
  let ?c = "ctrls s ?ch" and ?tr = "(mk_Transaction a False)\<lparr>added_cycle := T\<rparr>"
  let ?I = "[0..channels cfg - 1]"
  have I: "distinct ?I" "\<And>i. i \<in> set ?I \<longleftrightarrow> ch_in cfg i" by (auto simp: ch_in_def)
  have c: "idle_rank cfg n ?i [] [] [] True T ?c" "asleep cfg u (ct_channel ?c)" using s cfg(3) by (simp_all add: on_channels_def)
  have r0: "ad_rank (AddressMapping cfg a) = 0" using cfg(1,4) by (auto simp: sref_config_def cs_in_def cs_rank_in_def)
  let ?c1 = "ct_AddTransaction (mk_Transaction a False) ?c"
  let ?s2 = "s\<lparr>ctrls := (ctrls s)(?ch := ?c1), last_req_clk := js_clk s\<rparr>"
  have "ct_WillAcceptTransaction False ?c" using c(1) by (simp add: ct_WillAcceptTransaction_def idle_rank_def lone_def)
  then have add: "js_AddTransaction cfg a False s = ret (True, ?s2)" using cfg(3) by (simp add: js_AddTransaction_def Let_def)
  have c1: "idle_rank cfg n ?i [] [?tr] [(a, ?tr)] True T ?c1" "asleep cfg u (ct_channel ?c1)"
    using c by (simp_all add: idle_rank_def lone_def ct_AddTransaction_def Let_def mk_Transaction_def upd_stats_def mm_count_def)
  define Q where "Q ch c \<longleftrightarrow> (if ch = ?ch then idle_rank cfg n ?i [?cmd] [] [(a, ?tr)] False (T + 1) c
      else idle_rank cfg n ?i [] [] [] True (T + 1) c) \<and> asleep cfg u (ct_channel c)" for ch c
  have "\<exists>c'. ct_ClockTick cfg tm ?c1 = ret c' \<and> Q ?ch c'"
    using sleeping_schedules [OF cfg(1) r0 c1 time(1), of tm] by (simp add: Q_def mk_Transaction_def)
  moreover have "\<exists>c'. ct_ClockTick cfg tm (ctrls s ch) = ret c' \<and> Q ch c'" if "ch_in cfg ch" "ch \<noteq> ?ch" for ch
    using sleeps_on [OF cfg(1) _ _ time(1), of ?i "ctrls s ch" u tm] s that by (simp add: Q_def on_channels_def)
  moreover have "return_queue (ctrls ?s2 ch) = []" if "ch_in cfg ch" for ch
    using s c1 that by (auto simp: on_channels_def idle_rank_def lone_def)
  ultimately have "on_channels cfg (\<lambda>ch c. return_queue c = [] \<and> (\<exists>c'. ct_ClockTick cfg tm c = ret c' \<and> Q ch c')) ?s2"
    by (simp add: on_channels_def)
  moreover have "Q ch c \<Longrightarrow> Q ch (upd_stats f c)" for ch f c by (simp add: Q_def)
  ultimately obtain s3 where s3: "js_ClockTick cfg tm ?s2 = ret ([], s3)" "on_channels cfg Q s3" using lockstep [OF cfg(2)] by blast
  have q: "Q ch (ctrls s3 ch)" if "ch_in cfg ch" for ch using s3(2) that by (simp add: on_channels_def)
  have "return_queue (ctrls s3 ch) = []" if "ch_in cfg ch" for ch
    using q [OF that] by (cases "ch = ?ch") (simp_all add: Q_def idle_rank_def lone_def)
  then have d: "drain_all (js_clk s3) ?I s3 = ([], s3)" using drain_all_none I(2) by blast
  have "ct_ClockTick cfg tm (ctrls s3 ?ch) = raise AbruptExit"
    using q [OF cfg(3)] by (intro wake_fails [OF cfg(1,4) _ _ time(2,3)]) (auto simp: Q_def)
  moreover have "\<forall>i\<in>set ?I. i \<noteq> ?ch \<longrightarrow> (\<exists>c. ct_ClockTick cfg tm (ctrls s3 i) = ret c)"
    using q I sleeps_on [OF cfg(1) _ _ time(2), of ?i] by (fastforce simp: Q_def)
  ultimately have "for_run (js_tick_ctrl cfg tm) ?I s3 = raise AbruptExit"
    using tick_ctrls_fail [OF I(1)] I(2) cfg(3) by blast
  then have "js_ClockTick cfg tm s3 = raise AbruptExit" using d by (simp add: js_ClockTick_def js_advance_def)
  then show ?thesis using add s3(1) by blast
qed

lemma cfg_GetInteger_bound: "cfg_GetInteger r sec opt d < 2 ^ 31"
  using sint_less [of "word_of_int (rd_GetInteger r sec opt d) :: 32 word"] by (simp add: cfg_GetInteger_def to_int32_def)

lemma new_Config_timing:
  "new_Config r c0 = ret cfg \<Longrightarrow> tREFI cfg < 2 ^ 31 \<and> tREFIb cfg < 2 ^ 31 \<and> tCKESR cfg < 2 ^ 31"
  using cfg_GetInteger_bound by (auto simp: new_Config_def run_elims InitOtherParams_def InitTimingParams_def Let_def)

lemma quiet_before:
  assumes "int j < n" "n < 2 ^ 31"
  shows "quiet_at n (of_nat j)"
proof -
  have "unat (of_int n :: 64 word) = nat n" "unat (of_nat j :: 64 word) = j"
    using assms by (simp_all add: unat_eq_nat_uint unsigned_of_int take_bit_int_eq_self unsigned_of_nat take_bit_nat_eq_self)
  then have "unat ((of_nat j :: 64 word) mod of_int n) = j" "(of_int n :: 64 word) \<noteq> 0" using assms by (auto simp: unat_mod)
  note u = this
  show ?thesis
  proof (cases "j = 0")
    case True
    then show ?thesis using u(2) by (simp add: quiet_at_def)
  next
    case False
    have "(of_nat j :: 64 word) mod of_int n \<noteq> 0"
    proof
      assume "(of_nat j :: 64 word) mod of_int n = 0"
      then show False using u(1) False by (simp only: unat_0)
    qed
    then show ?thesis using u(2) by (simp add: quiet_at_def)
  qed
qed

text \<open>The period of the refresh counter of a memory with one rank.\<close>

definition refresh_period :: "Config \<Rightarrow> int" where
  "refresh_period cfg = (if refresh_policy cfg = BANK_LEVEL_STAGGERED then tREFIb cfg else tREFI cfg)"

lemma refresh_period_new:
  "ranks cfg = 1 \<Longrightarrow> \<exists>rf. new_Refresh cfg = ret rf \<and> refresh_interval rf = refresh_period cfg"
  by (auto simp: new_Refresh_def refresh_period_def cdiv_def sgn_mult_abs)

lemma self_refresh_run:
  assumes new: "new_Config r c0 = ret cfg" and sz: "sizes_ok cfg" "\<not> IsHMC cfg" "\<not> unified_queue cfg"
    and sys: "queue_structure cfg = ''PER_BANK''" "row_buf_policy cfg \<noteq> ''CLOSE_PAGE''" "(of_int (epoch_period cfg) :: 64 word) \<noteq> 0"
      "0 < to_size_t (cmd_queue_size cfg)" "0 < to_size_t (trans_queue_size cfg)"
    and sref: "enable_self_refresh cfg" "ranks cfg = 1" "sref_threshold cfg = int t" "0 < t"
    and d: "int d + 2 < tCKESR cfg" "int (t + d) + 1 < refresh_period cfg"
  defines "tm \<equiv> new_Timing cfg"
  shows "\<exists>s s1 s2 s3. new_MemorySystem r c0 junk = ret (cfg, Jedec s) \<and>
    run_ticks (jedec_ops cfg tm) (t + d) s = ret ([], s1) \<and> js_AddTransaction cfg a False s1 = ret (True, s2) \<and>
    js_ClockTick cfg tm s2 = ret ([], s3) \<and> js_ClockTick cfg tm s3 = raise AbruptExit"
proof -
  note m = new_Config_mapping [OF new sz(1)]
  have cfg: "sref_config cfg" using m(2) sref(1,2) by (simp add: sref_config_def)
  obtain rf where rf: "new_Refresh cfg = ret rf" "refresh_interval rf = refresh_period cfg" using refresh_period_new [OF sref(2)] by blast
  let ?n = "refresh_period cfg" and ?i = "read_queue_of cfg a" and ?u = "of_nat (t - 1) + of_int (tCKESR cfg) :: 64 word"
  have bound: "?n < 2 ^ 31" "tCKESR cfg < 2 ^ 31" using new_Config_timing [OF new] by (auto simp: refresh_period_def)
  have quiet: "quiet_at ?n (of_nat j)" if "j \<le> t + d + 1" for j using quiet_before [of j ?n] that d(2) bound(1) by simp
  obtain s where s: "js_controllers cfg junk = ret s" "js_clk s = 0" "on_channels cfg (\<lambda>_. left_alone cfg ?n ?i t 0) s"
    using left_alone_new [OF cfg sz(3) sref(4) m(4) sys(1,2,4,5) rf(1)] rf(2) by auto
  have mem: "new_MemorySystem r c0 junk = ret (cfg, Jedec s)" using new sz(2) s(1) by (simp add: new_MemorySystem_def new_JedecDRAMSystem_def)
  have "left_alone cfg ?n ?i t j (upd_stats f c)" if "left_alone cfg ?n ?i t j c" for j f c
    using that unfolding left_alone_def idle_rank_stats .
  from lockstep_run [OF sys(3), where P = "left_alone cfg ?n ?i t" and m = "t + d", OF left_alone_tick [OF cfg sref(3) quiet] this s(3)]
  obtain s1 where s1: "run_ticks (jedec_ops cfg tm) (t + d) s = ret ([], s1)" "on_channels cfg (\<lambda>_. left_alone cfg ?n ?i t (t + d)) s1"
    unfolding tm_def by auto
  have sl: "on_channels cfg (\<lambda>_ c. idle_rank cfg ?n ?i [] [] [] True (of_nat (t + d)) c \<and> asleep cfg ?u (ct_channel c)) s1"
    using s1(2) by (auto simp: on_channels_def left_alone_def)
  have "?u = of_nat (t - 1 + nat (tCKESR cfg))" using d(1) by simp
  moreover have "of_nat (t + d) + 1 = (of_nat (t + d + 1) :: 64 word)" by simp
  moreover have "(of_nat (t + d + 1) :: 64 word) < of_nat (t - 1 + nat (tCKESR cfg))"
  proof -
    have "t + d + 1 < t - 1 + nat (tCKESR cfg)" using d(1) sref(4) by linarith
    moreover have "t < 2 ^ 31" "nat (tCKESR cfg) < 2 ^ 31" using d bound by simp_all
    then have "t - 1 + nat (tCKESR cfg) < 2 ^ 64" by simp
    ultimately have "t + d + 1 < t - 1 + nat (tCKESR cfg)" "t - 1 + nat (tCKESR cfg) < 2 ^ 64" by blast+
    then show ?thesis by (simp add: word_less_nat_alt unsigned_of_nat take_bit_nat_eq_self del: of_nat_add of_nat_Suc)
  qed
  ultimately have time: "of_nat (t + d) + 1 < ?u" "quiet_at ?n (of_nat (t + d) + 1)" "quiet_at ?n (of_nat (t + d))"
    using quiet [of "t + d"] quiet [of "t + d + 1"] by (simp_all only: le_add1 order.refl)
  show ?thesis
    using sleeping_read_aborts [OF cfg sys(3) m(3,4) sl time(3,2,1), of tm] mem s1(1) by blast
qed

section \<open>The configuration of the program, with self refresh\<close>

definition HBM2_self_refresh :: INIReader where
  "HBM2_self_refresh = HBM2_4Gb_x128\<lparr>rd_GetBoolean :=
     ini_option [(''system'', [(''unified_queue'', False), (''enable_self_refresh'', True)])]\<rparr>"

lemma hbm_sref_system:
  "InitSystemParams HBM2_self_refresh c =
     ret (c\<lparr>channel_size := 512, channels := 8, bus_width := 128, address_mapping := ''rorabgbacoch'',
            queue_structure := ''PER_BANK'', row_buf_policy := ''OPEN_PAGE'', cmd_queue_size := 8,
            trans_queue_size := 32, unified_queue := False, write_buf_size := 16,
            refresh_policy := RANK_LEVEL_STAGGERED, enable_self_refresh := True, sref_threshold := 1000,
            aggressive_precharging_enabled := False\<rparr>)"
  unfolding HBM2_self_refresh_def HBM2_4Gb_x128_def InitSystemParams_def cfg_GetInteger_def ini_option_def
  by (simp add: ref_policy_of_def)

lemma hbm_sref_reader:
  "rd_Get HBM2_self_refresh = rd_Get HBM2_4Gb_x128" "rd_GetInteger HBM2_self_refresh = rd_GetInteger HBM2_4Gb_x128"
  "rd_GetBoolean HBM2_self_refresh ''dram_structure'' opt b = rd_GetBoolean HBM2_4Gb_x128 ''dram_structure'' opt b"
  by (simp_all add: HBM2_self_refresh_def HBM2_4Gb_x128_def ini_option_def)

lemma hbm_sref_dram: "InitDRAMParams HBM2_self_refresh c = InitDRAMParams HBM2_4Gb_x128 c"
  by (simp only: InitDRAMParams_def cfg_GetInteger_def hbm_sref_reader)

lemma hbm_sref_config:
  "\<exists>c. new_Config HBM2_self_refresh c0 = ret c \<and> sizes_ok c \<and> protocol c = HBM \<and> \<not> unified_queue c \<and> queue_structure c = ''PER_BANK'' \<and>
     row_buf_policy c = ''OPEN_PAGE'' \<and> epoch_period c = 1000000 \<and> cmd_queue_size c = 8 \<and> trans_queue_size c = 32 \<and>
     enable_self_refresh c \<and> ranks c = 1 \<and> sref_threshold c = 1000 \<and> tCKESR c = 12 \<and> tREFI c = 3900 \<and> refresh_policy c = RANK_LEVEL_STAGGERED"
  unfolding new_Config_def hbm_sref_system hbm_sref_dram hbm_dram run_bind_simps
  by (simp add: CalculateSize_def cdiv_def SetAddressMapping_def field_widths_def field_at_def Let_def InitTimingParams_def
      InitOtherParams_def cfg_GetInteger_def HBM2_self_refresh_def HBM2_4Gb_x128_def ini_option_def log_sizes sizes_ok_def)

end
