(* ===== verification/Memory_Properties.thy ===== *)
theory Memory_Properties
  imports DS_Trace DS_Refresh_Cycle DS_Self_Refresh
begin

text \<open>
  The properties of the memory model (\<open>DRAMsim3-master\<close>), each with an instance on the
  configuration that the program uses.
\<close>

section \<open>The memory system\<close>

text \<open>
  C10. A read is accepted while its channel has fewer than \<open>trans_queue_size\<close> transactions
  pending, and taking a transaction that was accepted succeeds and adds exactly it to the
  pending ones.
\<close>

theorem memory_accepts:
  assumes "js_ok cfg s"
  shows "(size {#t \<in># js_pend cfg s. ds_GetChannel cfg (fst t) = ds_GetChannel cfg a#} < to_size_t (trans_queue_size cfg) \<longrightarrow>
      js_WillAcceptTransaction cfg a False s) \<and>
    (js_WillAcceptTransaction cfg a w s \<longrightarrow>
      (\<exists>s'. js_AddTransaction cfg a w s = ret (True, s') \<and> js_ok cfg s' \<and> js_pend cfg s' = add_mset (a, w) (js_pend cfg s)))"
  using js_will_accept [OF assms] js_add [OF assms] by blast

theorem memory_accepts_witness:
  "\<forall>c0 junk. \<exists>cfg s s'. new_Config HBM2_4Gb_x128 c0 = ret cfg \<and> new_JedecDRAMSystem cfg junk = ret s \<and>
     js_AddTransaction cfg 4096 False s = ret (True, s') \<and> js_pend cfg s' = {#(4096, False)#}"
proof (intro allI)
  fix c0 junk
  obtain cfg s where m: "new_Config HBM2_4Gb_x128 c0 = ret cfg" "hbm_facts cfg" "new_JedecDRAMSystem cfg junk = ret s"
      "js_ok cfg s" "js_pend cfg s = {#}"
    using hbm_memory by blast
  have "to_size_t (trans_queue_size cfg) = 32" using m(2) by (simp add: hbm_facts_def)
  then show "\<exists>cfg s s'. new_Config HBM2_4Gb_x128 c0 = ret cfg \<and> new_JedecDRAMSystem cfg junk = ret s \<and>
     js_AddTransaction cfg 4096 False s = ret (True, s') \<and> js_pend cfg s' = {#(4096, False)#}"
    using memory_accepts [OF m(4), of 4096 False] m(1,3,5) by auto
qed

text \<open>
  C15. Whatever order of fields the mapping string names, every address decodes to
  coordinates inside the memory: a channel, a rank, a bank group, a bank and a row that there
  are, and a column, counted in bursts, whose burst ends inside the row. The channel that the
  system routes by is the decoded one.
\<close>

theorem address_in_memory:
  assumes "SetAddressMapping c = ret c'" "sizes_ok c"
  shows "0 \<le> ad_channel (AddressMapping c' a) \<and> ad_channel (AddressMapping c' a) < channels c' \<and>
    cs_in c' (ad_rank (AddressMapping c' a)) (ad_bankgroup (AddressMapping c' a)) (ad_bank (AddressMapping c' a)) \<and>
    0 \<le> ad_row (AddressMapping c' a) \<and> ad_row (AddressMapping c' a) < rows c' \<and>
    0 \<le> ad_column (AddressMapping c' a) \<and> (ad_column (AddressMapping c' a) + 1) * 2 ^ nat (LogBase2 (cfg_BL c')) \<le> columns c' \<and>
    ad_column (AddressMapping c' a) + cfg_BL c' \<le> columns c' \<and>
    ds_GetChannel c' a = ad_channel (AddressMapping c' a)"
  using SetAddressMapping_ranges [OF assms, of a] by blast

lemma hbm_mapped:
  "\<exists>c c'. SetAddressMapping c = ret c' \<and> sizes_ok c \<and> mapped_bits c = 26 \<and> shift_bits c' = 6 \<and>
     address_mapping c = ''rorabgbacoch'' \<and> field_width c ''ch'' = 3 \<and> field_width c ''co'' = 5 \<and> field_width c ''ba'' = 2 \<and>
     field_width c ''bg'' = 2 \<and> field_width c ''ra'' = 0 \<and> field_width c ''ro'' = 14"
proof -
  fix c0
  obtain cfg where c: "new_Config HBM2_4Gb_x128 c0 = ret cfg" "hbm_facts cfg" using hbm_config by blast
  obtain c1 c2 c3 c4 where s: "CalculateSize c2 = ret c3" "SetAddressMapping c3 = ret c4"
      "cfg = InitOtherParams HBM2_4Gb_x128 (InitTimingParams HBM2_4Gb_x128 c4)"
    using c(1) by (auto simp: new_Config_def run_elims)
  note g = SetAddressMapping_geometry [OF s(2)]
  have f: "channels c3 = 8" "ranks c3 = 1" "bankgroups c3 = 4" "banks_per_group c3 = 4" "rows c3 = 16384"
      "columns c3 = 128" "cfg_BL c3 = 4" "shift_bits c4 = 6"
    using c(2) g s(3) by (simp_all add: hbm_facts_def)
  then have "sizes_ok c3" "mapped_bits c3 = 26" "field_width c3 ''ch'' = 3" "field_width c3 ''co'' = 5" "field_width c3 ''ba'' = 2"
      "field_width c3 ''bg'' = 2" "field_width c3 ''ra'' = 0" "field_width c3 ''ro'' = 14"
    by (simp_all add: sizes_ok_def mapped_bits_def field_names_def field_width_simps log_sizes)
  moreover have "address_mapping c3 = ''rorabgbacoch''" using SetAddressMapping_string [OF s(2)] c(2) s(3) by (simp add: hbm_facts_def)
  ultimately show ?thesis using s(2) f(8) by blast
qed

theorem address_in_memory_witness:
  "\<exists>c c'. SetAddressMapping c = ret c' \<and> ds_GetChannel c' 4096 = ad_channel (AddressMapping c' 4096) \<and>
     ad_row (AddressMapping c' 4096) < rows c' \<and> ad_column (AddressMapping c' 4096) + cfg_BL c' \<le> columns c'"
  using hbm_mapped address_in_memory [where a = 4096] by blast

text \<open>
  The mapping loses no address bit: two addresses with the same coordinates agree in
  every mapped bit above the offset within a request.
\<close>

theorem address_mapping_injective:
  assumes "SetAddressMapping c = ret c'" "sizes_ok c" "AddressMapping c' a = AddressMapping c' b" "int n < mapped_bits c"
  shows "bit a (nat (shift_bits c') + n) = bit b (nat (shift_bits c') + n)"
  by (rule SetAddressMapping_inj [OF assms])

theorem address_mapping_injective_witness:
  "\<exists>c c'. SetAddressMapping c = ret c' \<and> AddressMapping c' 0 \<noteq> AddressMapping c' 64"
proof -
  obtain c c' where c: "SetAddressMapping c = ret c'" "sizes_ok c" "mapped_bits c = 26" "shift_bits c' = 6"
    using hbm_mapped by blast
  have "AddressMapping c' 0 = AddressMapping c' 64 \<Longrightarrow> bit (0 :: 64 word) 6 = bit (64 :: 64 word) 6"
    using address_mapping_injective [OF c(1,2), of 0 64 0] c(3,4) by simp
  moreover have "bit (64 :: 64 word) 6" by (simp add: bit_iff_odd drop_bit_eq_div flip: drop_bit_eq_div)
  ultimately show ?thesis using c(1) by auto
qed

text \<open>
  C14. The bit slices of the address mapping are the digits of the block number in the
  mixed radix that the mapping string describes, the last field least significant.
\<close>

theorem address_mapping_radix:
  assumes "SetAddressMapping c = ret c'" "sizes_ok c"
    "d = radix_digits (field_width c) (rev (split_fields (address_mapping c))) (uint a div 2 ^ nat (shift_bits c'))"
  shows "AddressMapping c' a = mk_Address (d ''ch'') (d ''ra'') (d ''bg'') (d ''ba'') (d ''ro'') (d ''co'')"
  by (rule SetAddressMapping_digits [OF assms])

theorem address_mapping_radix_witness:
  "\<exists>c c'. SetAddressMapping c = ret c' \<and> AddressMapping c' 1000000 = mk_Address 1 0 3 1 3 1"
proof -
  obtain c c' where c: "SetAddressMapping c = ret c'" "sizes_ok c" "shift_bits c' = 6" "address_mapping c = ''rorabgbacoch''"
      "field_width c ''ch'' = 3" "field_width c ''co'' = 5" "field_width c ''ba'' = 2"
      "field_width c ''bg'' = 2" "field_width c ''ra'' = 0" "field_width c ''ro'' = 14"
    using hbm_mapped by blast
  have "AddressMapping c' 1000000 = mk_Address 1 0 3 1 3 1"
    using address_mapping_radix [OF c(1,2) refl, of 1000000] c(3-10) by simp
  then show ?thesis using c(1) by blast
qed

section \<open>Timing\<close>

text \<open>
  C6. The controller refines the channel automaton: whatever transactions it is given, the
  commands that a controller issues in its first \<open>n\<close> cycles form a run in which the channel
  state declared every command ready at the clock value at which it was issued, and the
  clock values do not go back.
\<close>

theorem controller_refines_channel:
  assumes "controller_run cfg tm n tr c" "n < 2 ^ 64"
  shows "channel_run cfg tm tr (ct_channel c) \<and> sorted (map fst tr) \<and> (\<forall>e\<in>set tr. unat (fst e) < n)"
  using controller_run_traced [OF assms(1)] assms(2) by (simp add: traced_def)

text \<open>
  C7. The controller keeps the timing tables: of the commands that it issues, whatever
  transactions it is given, one at a bank never comes before the delay that any earlier
  command imposed on that bank (same bank, same bank group, same rank or other ranks).
\<close>

theorem timing_respected:
  assumes "controller_run cfg tm n tr c" "geometry_ok cfg" "tr = pre @ (t2, c2) # post" "(t1, c1) \<in> set pre"
    "addressed cfg c2 r g k" "(cmd_type c2, d) \<in> set (imposed cfg tm c1 r g k)"
  shows "t1 + of_int d \<le> t2"
proof -
  have "channel_run cfg tm tr (ct_channel c)" using controller_run_traced [OF assms(1)] by (simp add: traced_def)
  then show ?thesis by (rule run_respects_timing [OF _ assms(2-6)])
qed

text \<open>The first read of the program's memory, in the trace of its controller.\<close>

lemma quiet_start: "j < 31 \<Longrightarrow> quiet_at 3900 (of_nat j)"
proof -
  assume j: "j < 31"
  have "unat (of_nat j mod 3900 :: 64 word) = j" "unat (of_nat j :: 64 word) = j" using j by (simp_all add: unat_mod unat_of_nat)
  then have "j = 0 \<or> (of_nat j mod 3900 :: 64 word) \<noteq> 0" by (metis unat_0)
  then show ?thesis unfolding quiet_at_def by (elim disjE) simp_all
qed

lemma hbm_read_trace:
  "\<exists>cfg c. new_Config HBM2_4Gb_x128 undefined = ret cfg \<and> hbm_facts cfg \<and>
     controller_run cfg (new_Timing cfg) 16 [(1, mk_Command ACTIVATE (AddressMapping cfg 4096) 4096), (15, read_command cfg 4096)] c"
proof -
  obtain cfg s where c: "new_Config HBM2_4Gb_x128 undefined = ret cfg" "hbm_facts cfg"
      "new_JedecDRAMSystem cfg (\<lambda>_. undefined) = ret s" "js_ok cfg s" "js_pend cfg s = {#}" "js_clk s = 0"
    using hbm_memory by blast
  let ?ch = "ds_GetChannel cfg 4096" and ?t = "mk_Transaction 4096 False" and ?tm = "new_Timing cfg"
  let ?x = "?t\<lparr>added_cycle := 0\<rparr>" and ?c = "ctrls s ?ch"
  have idle: "idle_channel cfg 4096 False 3900 s" by (rule hbm_idle [OF c(1-4)])
  then obtain s1 where s1: "js_AddTransaction cfg 4096 False s = ret (True, s1)"
      "serving cfg ?ch 3900 (read_queue_of cfg 4096) [] [?x] [(4096, ?x)] [] (closed_bank cfg 4096 (0 + 1)) 0 s1"
    using idle_accepts [OF idle hbm_first_read [OF c(1-4,6,5)]] c(6) by auto
  have ch: "ch_in cfg ?ch" using s1(2) by (simp add: serving_def)
  have "js_controllers cfg (\<lambda>_. undefined) = ret s" using c(3) by (simp add: new_JedecDRAMSystem_def split: if_splits)
  from new_controllers_at [OF this ch] have "controller_run cfg ?tm 0 [] ?c" using controller_run.new by blast
  then have run: "controller_run cfg ?tm 0 [] (ct_AddTransaction ?t ?c)" by (rule controller_run.add)
  have "ctrls s1 ?ch = ct_AddTransaction ?t ?c"
    using s1(1) ch hbm_first_read [OF c(1-4,6,5), of 4096] by (auto simp: js_AddTransaction_def js_WillAcceptTransaction_def Let_def)
  then have sv: "ct_serving cfg 3900 (read_queue_of cfg 4096) [] [?x] [(4096, ?x)] [] (closed_bank cfg 4096 (0 + 1)) 0 (ct_AddTransaction ?t ?c)"
      "config_ok cfg"
    using serving_ct [OF s1(2)] by simp_all
  have "\<exists>c'. controller_run cfg ?tm (0 + (13 + 3)) ([] @ [(0 + 1, mk_Command ACTIVATE (AddressMapping cfg 4096) 4096),
      (0 + of_nat (13 + 2), read_command cfg 4096)]) c'"
    by (rule read_trace [OF run sv]) (use hbm_delays [OF c(1)] quiet_start in \<open>simp_all add: mk_Transaction_def\<close>)
  then obtain c' where c': "controller_run cfg ?tm 16
      [(1, mk_Command ACTIVATE (AddressMapping cfg 4096) 4096), (15, read_command cfg 4096)] c'" by auto
  with c(1,2) show ?thesis by blast
qed

theorem controller_refines_channel_witness:
  "\<exists>cfg act rd c. new_Config HBM2_4Gb_x128 undefined = ret cfg \<and> cmd_type act = ACTIVATE \<and> cmd_type rd = READ \<and>
     controller_run cfg (new_Timing cfg) 16 [(1, act), (15, rd)] c \<and>
     channel_run cfg (new_Timing cfg) [(1, act), (15, rd)] (ct_channel c)"
proof -
  obtain cfg c where c: "new_Config HBM2_4Gb_x128 undefined = ret cfg"
      "controller_run cfg (new_Timing cfg) 16 [(1, mk_Command ACTIVATE (AddressMapping cfg 4096) 4096), (15, read_command cfg 4096)] c"
    using hbm_read_trace by blast
  from controller_refines_channel [OF c(2)] c show ?thesis
    by (intro exI [of _ cfg] exI [of _ "mk_Command ACTIVATE (AddressMapping cfg 4096) 4096"] exI [of _ "read_command cfg 4096"] exI [of _ c])
      (simp add: mk_Command_def)
qed

theorem timing_respected_witness:
  "\<exists>cfg act rd c. new_Config HBM2_4Gb_x128 undefined = ret cfg \<and> cmd_type act = ACTIVATE \<and> cmd_type rd = READ \<and>
     controller_run cfg (new_Timing cfg) 16 [(1, act), (15, rd)] c \<and> 1 + of_int (activate_to_read cfg) \<le> (15 :: 64 word)"
proof -
  obtain cfg c where c: "new_Config HBM2_4Gb_x128 undefined = ret cfg" "hbm_facts cfg"
      "controller_run cfg (new_Timing cfg) 16 [(1, mk_Command ACTIVATE (AddressMapping cfg 4096) 4096), (15, read_command cfg 4096)] c"
    using hbm_read_trace by blast
  let ?act = "mk_Command ACTIVATE (AddressMapping cfg 4096) 4096" and ?m = "AddressMapping cfg 4096"
  have cfg: "config_ok cfg" "geometry_ok cfg"
    using new_Config_system [OF c(1) hbm_sizes [OF c(2)]] c(2)
    by (auto simp: hbm_facts_def system_config_ok_def config_ok_def)
  have a: "addressed cfg (read_command cfg 4096) (ad_rank ?m) (ad_bankgroup ?m) (ad_bank ?m)"
    using address_in [OF cfg(1)] by (simp add: addressed_def)
  have i: "(READ, activate_to_read cfg) \<in> set (imposed cfg (new_Timing cfg) ?act (ad_rank ?m) (ad_bankgroup ?m) (ad_bank ?m))"
    by (simp add: imposed_def mk_Command_def new_Timing_def)
  have "1 + of_int (activate_to_read cfg) \<le> (15 :: 64 word)"
    by (rule timing_respected [OF c(3) cfg(2) _ _ a, of "[(1, ?act)]" _ "[]" 1 ?act]) (use i in simp_all)
  with c(1,3) show ?thesis
    by (intro exI [of _ cfg] exI [of _ ?act] exI [of _ "read_command cfg 4096"] exI [of _ c]) (simp add: mk_Command_def)
qed

text \<open>A table with one entry, and a run of activations on closed banks of rank 0.\<close>

definition sample_timing :: Timing where
  "sample_timing =
     \<lparr>same_bank = (\<lambda>t. if t = ACTIVATE then [(READ, 14)] else []), other_banks_same_bankgroup = (\<lambda>_. []),
      other_bankgroups_same_rank = (\<lambda>_. []), other_ranks = (\<lambda>_. []), same_rank = (\<lambda>_. [])\<rparr>"

definition sample_cmd :: "CommandType \<Rightarrow> int \<Rightarrow> int \<Rightarrow> Command" where
  "sample_cmd t g k = mk_Command t (mk_Address 0 0 g k 5 0) 0"

lemma sample_activate:
  assumes "hbm_facts cfg" "0 \<le> g" "g < 4" "0 \<le> k" "k < 4" "bank_states cs 0 g k = new_BankState" "IsFAWReady cs 0 t"
  shows "\<exists>cs'. channel_step cfg sample_timing cs [(t, sample_cmd ACTIVATE g k)] cs' \<and>
    bank_states cs' 0 g k = (new_BankState\<lparr>bs_state := OPEN, open_row := 5\<rparr>)\<lparr>cmd_timing := (\<lambda>_. 0)(READ := t + 14)\<rparr> \<and>
    (\<forall>i j. (i, j) \<noteq> (g, k) \<longrightarrow> bank_states cs' 0 i j = bank_states cs 0 i j) \<and>
    four_aw cs' 0 = push_window t (t + of_int (tFAW cfg)) (four_aw cs 0)"
proof -
  have inb: "cs_in cfg 0 g k" using assms by (simp add: cs_in_def cs_rank_in_def hbm_facts_def)
  have ng: "\<not> IsGDDR cfg" using assms(1) by (simp add: hbm_facts_def IsGDDR_def)
  have "cs_GetReadyCommand cfg cs (sample_cmd READ g k) t = ret (sample_cmd ACTIVATE g k)"
    using inb assms(6,7) ng
    by (simp add: cs_GetReadyCommand_def sample_cmd_def mk_Command_def mk_Address_def command_defs new_BankState_def
        bank_GetReadyCommand_def required_type_def ActivationWindowOk_def)
  moreover have "IsValid (sample_cmd ACTIVATE g k)" by (simp add: sample_cmd_def mk_Command_def IsValid_def)
  moreover obtain cs' where cs': "UpdateTimingAndStates cfg sample_timing (sample_cmd ACTIVATE g k) t cs = ret cs'"
      "bank_states cs' 0 g k = (new_BankState\<lparr>bs_state := OPEN, open_row := 5\<rparr>)\<lparr>cmd_timing := (\<lambda>_. 0)(READ := t + 14)\<rparr>"
      "\<forall>i j. (i, j) \<noteq> (g, k) \<longrightarrow> bank_states cs' 0 i j = bank_states cs 0 i j"
      "four_aw cs' 0 = push_window t (t + of_int (tFAW cfg)) (four_aw cs 0)"
    using inb assms(6) ng
    by (simp add: UpdateTimingAndStates_def cs_UpdateState_def cs_update_bank_def bank_UpdateState_def new_BankState_def
        sample_cmd_def mk_Command_def mk_Address_def command_defs cs_UpdateTiming_def timing_update_defs
        sample_timing_def UpdateActivationTimes_def time_banks_def upd_bank_def apply_timings_def bank_UpdateTiming_def Let_def)
  ultimately show ?thesis using channel_step.issue by blast
qed

text \<open>
  C8. In a run of the channel whose clock does not go back, as those of a controller are, of any five activations of a rank the fifth
  comes no earlier than \<open>tFAW\<close> after the first.
\<close>

theorem four_activation_window:
  assumes "channel_run cfg tm tr cs" "sorted (map fst tr)" "activations r tr = pre @ t1 # mid @ t5 # post" "length mid = 3"
  shows "t1 + of_int (tFAW cfg) \<le> t5"
  by (rule run_four_activations [OF assms])

lemma sample_five:
  assumes "hbm_facts cfg"
  shows "\<exists>cs. channel_run cfg sample_timing
    [(0, sample_cmd ACTIVATE 0 0), (0, sample_cmd ACTIVATE 0 1), (0, sample_cmd ACTIVATE 0 2), (0, sample_cmd ACTIVATE 0 3),
     (of_int (tFAW cfg), sample_cmd ACTIVATE 1 0)] cs"
proof -
  let ?f = "of_int (tFAW cfg) :: 64 word"
  note aw = IsFAWReady_def push_window_def
  obtain c1 where c1: "channel_step cfg sample_timing new_ChannelState [(0, sample_cmd ACTIVATE 0 0)] c1"
      "\<forall>i j. (i, j) \<noteq> (0, 0) \<longrightarrow> bank_states c1 0 i j = new_BankState" "four_aw c1 0 = [?f]"
    using sample_activate [OF assms, of 0 0 new_ChannelState 0] by (auto simp: new_ChannelState_def aw)
  obtain c2 where c2: "channel_step cfg sample_timing c1 [(0, sample_cmd ACTIVATE 0 1)] c2"
      "\<forall>i j. (i, j) \<noteq> (0, 1) \<longrightarrow> bank_states c2 0 i j = bank_states c1 0 i j" "four_aw c2 0 = push_window 0 ?f [?f]"
    using sample_activate [OF assms, of 0 1 c1 0] c1(2,3) by (auto simp: IsFAWReady_def)
  have l2: "length (four_aw c2 0) \<le> 2" "set (four_aw c2 0) \<subseteq> {?f}" using c2(3) by (auto simp: push_window_def)
  have "IsFAWReady c2 0 0" using l2(1) by (cases "four_aw c2 0") (auto simp: IsFAWReady_def)
  then obtain c3 where c3: "channel_step cfg sample_timing c2 [(0, sample_cmd ACTIVATE 0 2)] c3"
      "\<forall>i j. (i, j) \<noteq> (0, 2) \<longrightarrow> bank_states c3 0 i j = bank_states c2 0 i j" "four_aw c3 0 = push_window 0 (0 + ?f) (four_aw c2 0)"
    using sample_activate [OF assms, of 0 2 c2 0] c1(2) c2(2) by auto
  have l3: "length (four_aw c3 0) \<le> 3" "set (four_aw c3 0) \<subseteq> {?f}"
    using c3(3) l2 by (auto simp: push_window_def split: list.splits)
  have "IsFAWReady c3 0 0" using l3(1) by (cases "four_aw c3 0") (auto simp: IsFAWReady_def)
  then obtain c4 where c4: "channel_step cfg sample_timing c3 [(0, sample_cmd ACTIVATE 0 3)] c4"
      "\<forall>i j. (i, j) \<noteq> (0, 3) \<longrightarrow> bank_states c4 0 i j = bank_states c3 0 i j" "four_aw c4 0 = push_window 0 (0 + ?f) (four_aw c3 0)"
    using sample_activate [OF assms, of 0 3 c3 0] c1(2) c2(2) c3(2) by auto
  have l4: "set (four_aw c4 0) \<subseteq> {?f}" using c4(3) l3(2) by (auto simp: push_window_def split: list.splits)
  have "IsFAWReady c4 0 ?f" using l4 by (auto simp: IsFAWReady_def split: list.splits)
  then obtain c5 where c5: "channel_step cfg sample_timing c4 [(?f, sample_cmd ACTIVATE 1 0)] c5"
    using sample_activate [OF assms, of 1 0 c4 ?f] c1(2) c2(2) c3(2) c4(2) by auto
  from channel_run.step [OF channel_run.step [OF channel_run.step [OF channel_run.step [OF channel_run.step
      [OF channel_run.start c1(1)] c2(1)] c3(1)] c4(1)] c5]
  show ?thesis by auto
qed

theorem four_activation_window_witness:
  "\<forall>c0. \<exists>cfg tr cs. new_Config HBM2_4Gb_x128 c0 = ret cfg \<and> channel_run cfg sample_timing tr cs \<and>
     length (activations 0 tr) = 5 \<and> hd (activations 0 tr) + of_int (tFAW cfg) \<le> last (activations 0 tr)"
proof
  fix c0
  obtain cfg where c: "new_Config HBM2_4Gb_x128 c0 = ret cfg" "hbm_facts cfg" using hbm_config by blast
  define tr where "tr = [(0, sample_cmd ACTIVATE 0 0), (0, sample_cmd ACTIVATE 0 1), (0, sample_cmd ACTIVATE 0 2),
    (0, sample_cmd ACTIVATE 0 3), (of_int (tFAW cfg) :: 64 word, sample_cmd ACTIVATE 1 0)]"
  obtain cs where cs: "channel_run cfg sample_timing tr cs" using sample_five [OF c(2)] by (auto simp: tr_def)
  have a: "activations 0 tr = [] @ 0 # [0, 0, 0] @ of_int (tFAW cfg) # []"
    by (simp add: activations_def tr_def sample_cmd_def mk_Command_def mk_Address_def)
  have "0 + of_int (tFAW cfg) \<le> (of_int (tFAW cfg) :: 64 word)"
    by (rule four_activation_window [OF cs _ a]) (simp_all add: tr_def)
  with c(1) cs a show "\<exists>cfg tr cs. new_Config HBM2_4Gb_x128 c0 = ret cfg \<and> channel_run cfg sample_timing tr cs \<and>
     length (activations 0 tr) = 5 \<and> hd (activations 0 tr) + of_int (tFAW cfg) \<le> last (activations 0 tr)"
    by auto
qed

text \<open>
  C23. Staggered refresh: after \<open>n\<close> cycles with no rank in self refresh the refresh queue
  was given exactly the refreshes of the ranks 0, 1, 2, ... in turn, one per elapsed
  interval, so every rank is due once in any \<open>ranks\<close> intervals.
\<close>

theorem refresh_round_robin:
  assumes "geometry_ok cfg" "refresh_policy cfg = RANK_LEVEL_STAGGERED" "0 < i" "i < 2 ^ 64"
    "\<forall>r. \<not> rank_is_sref cs r" "n < 2 ^ 64" "0 \<le> r" "r < ranks cfg"
  shows "\<exists>rf. refresh_cycles cfg n
      (\<lparr>rf_clk = 0, refresh_interval = i, next_rank = 0, next_bg = 0, next_bank = 0\<rparr>, cs) =
    ret (rf, cs\<lparr>refresh_q := refresh_q cs @
      map (\<lambda>j. rank_refresh (int j mod ranks cfg)) [0..<due_refreshes (nat i) n]\<rparr>) \<and>
    (\<forall>k. \<exists>j<k + nat (ranks cfg). k \<le> j \<and> int j mod ranks cfg = r)"
  using staggered_refresh_cycle [OF assms(1-6)] every_rank_due [OF assms(7,8)] by blast

theorem refresh_round_robin_witness:
  "\<forall>c0. \<exists>cfg rf cs. new_Config HBM2_4Gb_x128 c0 = ret cfg \<and>
     refresh_cycles cfg 8000
       (\<lparr>rf_clk = 0, refresh_interval = 3900, next_rank = 0, next_bg = 0, next_bank = 0\<rparr>, new_ChannelState) = ret (rf, cs) \<and>
     refresh_q cs = [rank_refresh 0, rank_refresh 0]"
proof
  fix c0
  obtain cfg where c: "new_Config HBM2_4Gb_x128 c0 = ret cfg" "hbm_facts cfg" using hbm_config by blast
  have geo: "geometry_ok cfg"
    using new_Config_system [OF c(1) hbm_sizes [OF c(2)]] c(2)
    by (auto simp: hbm_facts_def system_config_ok_def config_ok_def)
  have "\<exists>rf. refresh_cycles cfg 8000
      (\<lparr>rf_clk = 0, refresh_interval = 3900, next_rank = 0, next_bg = 0, next_bank = 0\<rparr>, new_ChannelState) =
    ret (rf, new_ChannelState\<lparr>refresh_q := refresh_q new_ChannelState @
      map (\<lambda>j. rank_refresh (int j mod ranks cfg)) [0..<due_refreshes (nat 3900) 8000]\<rparr>) \<and>
    (\<forall>k. \<exists>j<k + nat (ranks cfg). k \<le> j \<and> int j mod ranks cfg = 0)"
    by (rule refresh_round_robin [OF geo, of 3900 new_ChannelState 8000 0])
      (use c(2) in \<open>simp_all add: hbm_facts_def new_ChannelState_def\<close>)
  moreover have "refresh_q new_ChannelState @ map (\<lambda>j. rank_refresh (int j mod ranks cfg)) [0..<due_refreshes (nat 3900) 8000] =
      [rank_refresh 0, rank_refresh 0]"
    using c(2) by (simp add: due_refreshes_def new_ChannelState_def hbm_facts_def upt_rec)
  ultimately show "\<exists>cfg rf cs. new_Config HBM2_4Gb_x128 c0 = ret cfg \<and>
     refresh_cycles cfg 8000
       (\<lparr>rf_clk = 0, refresh_interval = 3900, next_rank = 0, next_bg = 0, next_bank = 0\<rparr>, new_ChannelState) = ret (rf, cs) \<and>
     refresh_q cs = [rank_refresh 0, rank_refresh 0]"
    using c(1) by fastforce
qed

section \<open>Banks, statistics and the ideal memory\<close>

text \<open>
  A bank that is not in self refresh serves a read or write after at most a precharge
  and an activation: following its own answers to the request, it issues the request itself
  as the last of at most three commands.
\<close>

theorem bank_serves_request:
  assumes "bank_ready b" "IsReadWrite cmd"
  shows "\<exists>ts. bank_serve 3 cmd b = ret (ts @ [cmd_type cmd]) \<and> ts \<in> {[], [ACTIVATE], [PRECHARGE, ACTIVATE]}"
  by (rule bank_serves_within_three [OF assms])

theorem bank_serves_request_witness:
  "\<exists>ts. bank_serve 3 (sample_cmd READ 0 0) new_BankState = ret (ts @ [READ])"
  using bank_serves_request [of new_BankState "sample_cmd READ 0 0"]
  by (auto simp: bank_ready_def new_BankState_def sample_cmd_def mk_Command_def command_defs)

text \<open>
  C31. Waking a sleeping rank ends the program. Take any accepted JEDEC configuration with positive
  sizes, one rank, self refresh, separate queues per bank, open pages and room in the queues. The
  memory constructed from it and left alone puts its ranks to sleep in the cycle in which
  \<open>sref_threshold\<close> idle cycles are reached. A read that comes \<open>d\<close> cycles later, where
  \<open>d + 2 < tCKESR\<close> and no refresh is due, is taken and scheduled in the next cycle; in the
  cycle after that the controller asks for its own \<open>SREF_EXIT\<close>, for which the bank in self refresh
  has no case, and the clock tick exits.
\<close>

theorem self_refresh_wake_up_aborts:
  assumes "new_Config r c0 = ret cfg" "sizes_ok cfg" "\<not> IsHMC cfg" "\<not> unified_queue cfg"
    "queue_structure cfg = ''PER_BANK''" "row_buf_policy cfg \<noteq> ''CLOSE_PAGE''" "(of_int (epoch_period cfg) :: 64 word) \<noteq> 0"
    "0 < to_size_t (cmd_queue_size cfg)" "0 < to_size_t (trans_queue_size cfg)"
    "enable_self_refresh cfg" "ranks cfg = 1" "sref_threshold cfg = int t" "0 < t"
    "int d + 2 < tCKESR cfg" "int (t + d) + 1 < (if refresh_policy cfg = BANK_LEVEL_STAGGERED then tREFIb cfg else tREFI cfg)"
  shows "\<exists>s s1 s2 s3. new_MemorySystem r c0 junk = ret (cfg, Jedec s) \<and>
    run_ticks (jedec_ops cfg (new_Timing cfg)) (t + d) s = ret ([], s1) \<and>
    js_AddTransaction cfg a False s1 = ret (True, s2) \<and>
    js_ClockTick cfg (new_Timing cfg) s2 = ret ([], s3) \<and> js_ClockTick cfg (new_Timing cfg) s3 = raise AbruptExit"
  by (rule self_refresh_run [OF assms(1-14)]) (use assms(15) in \<open>simp add: refresh_period_def\<close>)

theorem self_refresh_wake_up_aborts_witness:
  "\<exists>cfg s s1 s2 s3. new_MemorySystem HBM2_self_refresh undefined undefined = ret (cfg, Jedec s) \<and>
    run_ticks (jedec_ops cfg (new_Timing cfg)) 1005 s = ret ([], s1) \<and> js_AddTransaction cfg 4096 False s1 = ret (True, s2) \<and>
    js_ClockTick cfg (new_Timing cfg) s2 = ret ([], s3) \<and> js_ClockTick cfg (new_Timing cfg) s3 = raise AbruptExit"
proof -
  obtain cfg where c: "new_Config HBM2_self_refresh undefined = ret cfg" "sizes_ok cfg" "protocol cfg = HBM" "\<not> unified_queue cfg"
      "queue_structure cfg = ''PER_BANK''" "row_buf_policy cfg = ''OPEN_PAGE''" "epoch_period cfg = 1000000" "cmd_queue_size cfg = 8"
      "trans_queue_size cfg = 32" "enable_self_refresh cfg" "ranks cfg = 1" "sref_threshold cfg = 1000" "tCKESR cfg = 12" "tREFI cfg = 3900"
      "refresh_policy cfg = RANK_LEVEL_STAGGERED"
    using hbm_sref_config [of undefined] by blast
  have "\<not> IsHMC cfg" "row_buf_policy cfg \<noteq> ''CLOSE_PAGE''" "(of_int (epoch_period cfg) :: 64 word) \<noteq> 0"
    using c by (simp_all add: IsHMC_def)
  from self_refresh_wake_up_aborts [OF c(1,2) this(1) c(4,5) this(2,3) _ _ c(10,11), of 1000 5 undefined 4096]
  show ?thesis using c by (fastforce simp: to_size_t_def)
qed

text \<open>
  The histograms lose no sample: closing an epoch adds every sample of the epoch to
  exactly one bin, merges it into the counts of the run, and starts the next epoch empty.
\<close>

theorem histograms_complete:
  assumes "histo_ok st n"
  shows "sum_list (histo_bins (UpdateEpochStats st) n) = sum_list (histo_bins st n) + histo_total (epoch_histo_counts st n) \<and>
    histo_total (histo_counts (UpdateEpochStats st) n) = histo_total (histo_counts st n) + histo_total (epoch_histo_counts st n) \<and>
    epoch_histo_counts (UpdateEpochStats st) n = [] \<and> histo_ok (UpdateEpochStats st) n"
  using UpdateEpochStats_total [OF assms] by blast

theorem histograms_complete_witness:
  "sum_list (histo_bins (UpdateEpochStats (AddValue ''read_latency'' 30 (AddValue ''read_latency'' 1000 new_SimpleStats)))
     ''read_latency'') = 2"
proof -
  let ?st = "AddValue ''read_latency'' 30 (AddValue ''read_latency'' 1000 new_SimpleStats)"
  have "histo_ok ?st ''read_latency''"
    using histo_ok_new [of "''read_latency''"] by (simp add: histo_ok_def AddValue_def)
  from histograms_complete [OF this] show ?thesis
    by (simp add: AddValue_def new_SimpleStats_def InitHistoStat_def sum_list_replicate)
qed

text \<open>
  C32. The ideal memory loses nothing either: any number of cycles returns, and what was
  pending is still pending or was returned once. It returns the head of its buffer in every
  cycle in which the head is due.
\<close>

theorem ideal_conserves:
  "(\<exists>ts s'. run_ticks (ideal_ops cfg) n s = ret (ts, s') \<and> id_pend s = mset ts + id_pend s') \<and>
   (case infinite_buffer_q s of [] \<Rightarrow> True
      | t # q \<Rightarrow> \<not> id_due cfg (id_clk s) t \<or> (tr_addr t, tr_is_write t) \<in> set (fst (id_ClockTick cfg s)))"
proof -
  have "\<exists>ts s'. run_ticks (ideal_ops cfg) n s = ret (ts, s') \<and> True \<and> id_pend s = mset ts + id_pend s'"
    by (rule ideal.ticks_conserve) simp
  then show ?thesis using id_head_returned [of s] by (auto split: list.splits)
qed

theorem ideal_conserves_witness:
  "\<exists>ts s'. run_ticks (ideal_ops undefined) 3 new_IdealDRAMSystem = ret (ts, s')"
  using ideal_conserves [of undefined 3 new_IdealDRAMSystem] by blast

text \<open>
  The ideal memory passes over a finished transaction that directly follows another
  finished one: of a buffer in which all are due, a cycle returns every other one only.
\<close>

lemma id_scan_alternates:
  "\<forall>t\<in>set ts. due t \<Longrightarrow> id_scan due ts = (nths ts {i. even i}, nths ts {i. odd i})"
  by (induction due ts rule: id_scan.induct) (simp_all add: nths_Cons)

theorem ideal_skips_neighbour:
  assumes "\<forall>t\<in>set (infinite_buffer_q s). id_due cfg (id_clk s) t"
  shows "id_ClockTick cfg s =
    (map (\<lambda>t. (tr_addr t, tr_is_write t)) (nths (infinite_buffer_q s) {i. even i}),
     s\<lparr>infinite_buffer_q := nths (infinite_buffer_q s) {i. odd i}, id_clk := id_clk s + 1\<rparr>)"
  using id_scan_alternates [OF assms] by (simp add: id_ClockTick_def)

theorem ideal_skips_neighbour_witness:
  "fst (id_ClockTick (undefined\<lparr>ideal_memory_latency := 10\<rparr>)
     \<lparr>id_clk = 10, infinite_buffer_q = [mk_Transaction 0 False, mk_Transaction 64 False]\<rparr>) = [(0, False)]"
  using ideal_skips_neighbour [of "\<lparr>id_clk = 10, infinite_buffer_q = [mk_Transaction 0 False, mk_Transaction 64 False]\<rparr>"
      "undefined\<lparr>ideal_memory_latency := 10\<rparr>"]
  by (simp add: id_due_def mk_Transaction_def nths_Cons)

text \<open>
  C9. The latency of a read: a read of an address on an idle channel, whose bank is closed
  or has the row open, with no delay left, is pending for exactly one cycle for scheduling,
  the delay from activation to read (none for an open row) and the read delay, while no
  refresh falls due, and the next cycle returns it; the other channels may be busy.
\<close>

theorem read_latency:
  assumes "idle_channel cfg a hit n s" "js_WillAcceptTransaction cfg a False s"
    "0 < activate_to_read cfg" "0 < read_delay cfg" 
    "L = Suc ((if hit then 0 else nat (activate_to_read cfg)) + nat (read_delay cfg))"
    "unat (js_clk s) + Suc L < 2 ^ 64" "\<forall>j<L. quiet_at n (js_clk s + of_nat j)"
  shows "\<exists>s1 ts s2. js_AddTransaction cfg a False s = ret (True, s1) \<and>
    run_ticks (jedec_ops cfg (new_Timing cfg)) L s1 = ret (ts, s2) \<and> (a, False) \<in># js_pend cfg s2 \<and>
    (\<exists>us s3. js_ClockTick cfg (new_Timing cfg) s2 = ret (us, s3) \<and> (a, False) \<in> set us)"
  using read_latency_run [OF assms] .

theorem read_latency_witness:
  "\<exists>cfg s s1 ts s2 us s3. new_Config HBM2_4Gb_x128 undefined = ret cfg \<and> new_JedecDRAMSystem cfg (\<lambda>_. undefined) = ret s \<and>
     js_AddTransaction cfg 4096 False s = ret (True, s1) \<and> run_ticks (jedec_ops cfg (new_Timing cfg)) 31 s1 = ret (ts, s2) \<and>
     js_ClockTick cfg (new_Timing cfg) s2 = ret (us, s3) \<and> (4096, False) \<in> set us"
proof -
  obtain cfg s where c: "new_Config HBM2_4Gb_x128 undefined = ret cfg" "hbm_facts cfg"
      "new_JedecDRAMSystem cfg (\<lambda>_. undefined) = ret s" "js_ok cfg s" "js_pend cfg s = {#}" "js_clk s = 0"
    using hbm_memory by blast
  show ?thesis
    using quiet_start read_latency [OF hbm_idle [OF c(1,2,3,4)] hbm_first_read [OF c(1,2,3,4,6,5)], of 31 4096] hbm_delays [OF c(1)] c
    by auto
qed

end
