(* ===== verification/DS_Report.thy ===== *)
theory DS_Report
  imports DS_System Cpp_Strings "HOL-Library.AList"
begin

text \<open>
  The reports of the memory model (\<open>DRAMsim3-master/src/simple_stats.cc\<close>, the printing of
  \<open>dram_system.cc\<close> and the energies of \<open>configuration.cc\<close>): what is computed from the
  counters at the end of an epoch and of the run, and the text and JSON files that are
  written. Floating-point arithmetic, the order in which an \<open>unordered_map\<close> is traversed
  and the JSON library's printer are parameters.
\<close>

section \<open>What the library provides\<close>

datatype 'd json = JNull | JInt int | JUnsigned "64 word" | JDouble 'd | JObject "(string \<times> 'd json) list"

type_synonym 'd json_object = "(string \<times> 'd json) list"

text \<open>
  \<open>d_int\<close> converts an integer, \<open>d_ratio n m\<close> is the literal with the value \<open>n / m\<close>, \<open>strtod\<close> is
  \<open>None\<close> when no character is converted, \<open>iter\<close> gives the keys of a table in the order in which
  they are visited.
\<close>

record 'd report_lib =
  d_int :: "int \<Rightarrow> 'd"
  d_ratio :: "int \<Rightarrow> int \<Rightarrow> 'd"
  d_add :: "'d \<Rightarrow> 'd \<Rightarrow> 'd"
  d_sub :: "'d \<Rightarrow> 'd \<Rightarrow> 'd"
  d_mul :: "'d \<Rightarrow> 'd \<Rightarrow> 'd"
  d_div :: "'d \<Rightarrow> 'd \<Rightarrow> 'd"
  d_text :: "'d \<Rightarrow> string"
  strtod :: "string \<Rightarrow> 'd option"
  iter :: "string list \<Rightarrow> string list"
  j_dump :: "'d json_object \<Rightarrow> string"

section \<open>Energies\<close>

record 'd EnergyConfig =
  tCK :: 'd
  act_energy_inc :: 'd
  read_energy_inc :: 'd
  write_energy_inc :: 'd
  ref_energy_inc :: 'd
  refb_energy_inc :: 'd
  act_stb_energy_inc :: 'd
  pre_stb_energy_inc :: 'd
  pre_pd_energy_inc :: 'd
  sref_energy_inc :: 'd

definition GetReal :: "'d report_lib \<Rightarrow> INIReader \<Rightarrow> string \<Rightarrow> string \<Rightarrow> 'd \<Rightarrow> 'd" where
  "GetReal L r sec opt dflt = (case strtod L (rd_Get r sec opt []) of None \<Rightarrow> dflt | Some x \<Rightarrow> x)"

text \<open>The energy per command or cycle; the clock period is read with the timing parameters.\<close>

definition InitPowerParams :: "'d report_lib \<Rightarrow> INIReader \<Rightarrow> Config \<Rightarrow> 'd EnergyConfig" where
  "InitPowerParams L r cfg =
     (let mul = d_mul L; add = d_add L; sub = d_sub L; i = d_int L;
          p = (\<lambda>opt n. GetReal L r ''power'' opt (i n));
          VDD = GetReal L r ''power'' ''VDD'' (d_ratio L 12 10);
          IDD0 = p ''IDD0'' 48; IDD2P = p ''IDD2P'' 25; IDD2N = p ''IDD2N'' 34; IDD3N = p ''IDD3N'' 43;
          IDD4W = p ''IDD4W'' 123; IDD4R = p ''IDD4R'' 135; IDD5AB = p ''IDD5AB'' 250; IDD5PB = p ''IDD5PB'' 5;
          IDD6x = p ''IDD6x'' 31; devices = i (devices_per_rank cfg)
      in \<lparr>tCK = GetReal L r ''timing'' ''tCK'' (i 1),
          act_energy_inc = mul (mul VDD (sub (mul IDD0 (i (tRC cfg)))
            (add (mul IDD3N (i (tRAS cfg))) (mul IDD2N (i (tRP cfg)))))) devices,
          read_energy_inc = mul (mul (mul VDD (sub IDD4R IDD3N)) (i (burst_cycle cfg))) devices,
          write_energy_inc = mul (mul (mul VDD (sub IDD4W IDD3N)) (i (burst_cycle cfg))) devices,
          ref_energy_inc = mul (mul (mul VDD (sub IDD5AB IDD3N)) (i (tRFC cfg))) devices,
          refb_energy_inc = mul (mul (mul VDD (sub IDD5PB IDD3N)) (i (tRFCb cfg))) devices,
          act_stb_energy_inc = mul (mul VDD IDD3N) devices,
          pre_stb_energy_inc = mul (mul VDD IDD2N) devices,
          pre_pd_energy_inc = mul (mul VDD IDD2P) devices,
          sref_energy_inc = mul (mul VDD IDD6x) devices\<rparr>)"

section \<open>The reported values of a channel\<close>

definition counter_stats :: "(string \<times> string) list" where
  "counter_stats =
     [(''num_cycles'', ''Number of DRAM cycles''), (''epoch_num'', ''Number of epochs''),
      (''num_reads_done'', ''Number of read requests issued''), (''num_writes_done'', ''Number of read requests issued''),
      (''num_write_buf_hits'', ''Number of write buffer hits''), (''num_read_row_hits'', ''Number of read row buffer hits''),
      (''num_write_row_hits'', ''Number of write row buffer hits''), (''num_read_cmds'', ''Number of READ/READP commands''),
      (''num_write_cmds'', ''Number of WRITE/WRITEP commands''), (''num_act_cmds'', ''Number of ACT commands''),
      (''num_pre_cmds'', ''Number of PRE commands''), (''num_ondemand_pres'', ''Number of ondemend PRE commands''),
      (''num_ref_cmds'', ''Number of REF commands''), (''num_refb_cmds'', ''Number of REFb commands''),
      (''num_srefe_cmds'', ''Number of SREFE commands''), (''num_srefx_cmds'', ''Number of SREFX commands''),
      (''hbm_dual_cmds'', ''Number of cycles dual cmds issued'')]"

definition double_stats :: "(string \<times> string) list" where
  "double_stats =
     [(''act_energy'', ''Activation energy''), (''read_energy'', ''Read energy''), (''write_energy'', ''Write energy''),
      (''ref_energy'', ''Refresh energy''), (''refb_energy'', ''Refresh-bank energy'')]"

definition vec_counter_stats :: "(string \<times> string) list" where
  "vec_counter_stats =
     [(''all_bank_idle_cycles'', ''Cyles of all bank idle in rank''), (''rank_active_cycles'', ''Cyles of rank active''),
      (''sref_cycles'', ''Cyles of rank in SREF mode'')]"

definition vec_double_stats :: "(string \<times> string) list" where
  "vec_double_stats =
     [(''act_stb_energy'', ''Active standby energy''), (''pre_stb_energy'', ''Precharge standby energy''),
      (''sref_energy'', ''SREF energy'')]"

definition histo_stats :: "(string \<times> string \<times> int \<times> int \<times> nat) list" where
  "histo_stats =
     [(''read_latency'', ''Read request latency (cycles)'', 0, 200, 10),
      (''write_latency'', ''Write cmd latency (cycles)'', 0, 200, 10),
      (''interarrival_latency'', ''Request interarrival latency (cycles)'', 0, 100, 10)]"

definition calculated_stats :: "(string \<times> string) list" where
  "calculated_stats =
     [(''average_bandwidth'', ''Average bandwidth''), (''total_energy'', ''Total energy (pJ)''),
      (''average_power'', ''Average power (mW)''), (''average_read_latency'', ''Average read request latency (cycles)''),
      (''average_interarrival'', ''Average request interarrival latency (cycles)'')]"

record 'd Report =
  header_descs :: "string \<rightharpoonup> string"
  histo_headers :: "string \<Rightarrow> string list"
  doubles :: "string \<Rightarrow> 'd"
  vec_doubles :: "string \<Rightarrow> int \<Rightarrow> 'd"
  calculated :: "string \<Rightarrow> 'd"
  j_data :: "'d json_object"
  print_pairs :: "(string \<times> string) list"

text \<open>\<open>emplace\<close> leaves an entry that is there.\<close>

definition emplace :: "string \<Rightarrow> string \<Rightarrow> (string \<rightharpoonup> string) \<Rightarrow> (string \<rightharpoonup> string)" where
  "emplace n d m = (if m n = None then m(n \<mapsto> d) else m)"

definition indexed :: "string \<Rightarrow> int \<Rightarrow> string" where
  "indexed n i = n @ ''.'' @ to_string i"

definition InitStat :: "string \<times> string \<Rightarrow> 'd Report \<Rightarrow> 'd Report" where
  "InitStat nd rp = rp\<lparr>header_descs := emplace (fst nd) (snd nd) (header_descs rp)\<rparr>"

definition InitVecStat :: "int \<Rightarrow> string \<times> string \<Rightarrow> 'd Report \<Rightarrow> 'd Report" where
  "InitVecStat vec_len nd rp =
     rp\<lparr>header_descs := fold (\<lambda>i. emplace (indexed (fst nd) i) (indexed (snd nd @ '' rank'') i))
          [0..vec_len - 1] (header_descs rp)\<rparr>"

text \<open>The headers of a histogram: below the range, the bins, above the range.\<close>

definition bin_headers :: "string \<Rightarrow> int \<Rightarrow> int \<Rightarrow> nat \<Rightarrow> string list" where
  "bin_headers name start_val end_val num_bins =
     (let w = (end_val - start_val) div int num_bins
      in [name @ ''[-'' @ to_string start_val @ '']''] @
         map (\<lambda>i. name @ ''['' @ to_string (start_val + (i - 1) * w) @ ''-'' @ to_string (start_val + i * w - 1) @ '']'')
           [1..int num_bins] @
         [name @ ''['' @ to_string end_val @ ''-]''])"

definition InitHistoHeaders :: "string \<times> string \<times> int \<times> int \<times> nat \<Rightarrow> 'd Report \<Rightarrow> 'd Report" where
  "InitHistoHeaders h rp =
     (case h of (name, desc, start_val, end_val, num_bins) \<Rightarrow>
        let headers = bin_headers name start_val end_val num_bins
        in rp\<lparr>header_descs := fold (\<lambda>n. emplace n desc) headers (header_descs rp),
              histo_headers := (histo_headers rp)(name := headers)\<rparr>)"

definition new_Report :: "'d report_lib \<Rightarrow> Config \<Rightarrow> 'd Report" where
  "new_Report L cfg =
     (fold InitStat calculated_stats \<circ> fold InitHistoHeaders histo_stats \<circ>
      fold (InitVecStat (ranks cfg)) (vec_counter_stats @ vec_double_stats) \<circ>
      fold InitStat (counter_stats @ double_stats))
       \<lparr>header_descs = (\<lambda>_. None), histo_headers = (\<lambda>_. []), doubles = (\<lambda>_. d_int L 0),
        vec_doubles = (\<lambda>_ _. d_int L 0), calculated = (\<lambda>_. d_int L 0), j_data = [], print_pairs = []\<rparr>"

section \<open>Energies and averages\<close>

text \<open>The conversion of a counter and its product with an energy.\<close>

definition d_count :: "'d report_lib \<Rightarrow> 64 word \<Rightarrow> 'd" where
  "d_count L w = d_int L (uint w)"

definition energy :: "'d report_lib \<Rightarrow> 64 word \<Rightarrow> 'd \<Rightarrow> 'd" where
  "energy L w inc = d_mul L (d_count L w) inc"

definition update_doubles ::
    "'d report_lib \<Rightarrow> 'd EnergyConfig \<Rightarrow> (string \<Rightarrow> 64 word) \<Rightarrow> 'd Report \<Rightarrow> 'd Report" where
  "update_doubles L ec cnt rp =
     rp\<lparr>doubles := (doubles rp)
          (''act_energy'' := energy L (cnt ''num_act_cmds'') (act_energy_inc ec),
           ''read_energy'' := energy L (cnt ''num_read_cmds'') (read_energy_inc ec),
           ''write_energy'' := energy L (cnt ''num_write_cmds'') (write_energy_inc ec),
           ''ref_energy'' := energy L (cnt ''num_ref_cmds'') (ref_energy_inc ec),
           ''refb_energy'' := energy L (cnt ''num_refb_cmds'') (refb_energy_inc ec))\<rparr>"

text \<open>The loop over the ranks, with the background energy so far.\<close>

definition update_rank ::
    "'d report_lib \<Rightarrow> 'd EnergyConfig \<Rightarrow> (string \<Rightarrow> int \<Rightarrow> 64 word) \<Rightarrow> int \<Rightarrow> 'd \<times> 'd Report \<Rightarrow> 'd \<times> 'd Report" where
  "update_rank L ec vec i x =
     (let act_stb = energy L (vec ''rank_active_cycles'' i) (act_stb_energy_inc ec);
          pre_stb = energy L (vec ''all_bank_idle_cycles'' i) (pre_stb_energy_inc ec);
          sref = energy L (vec ''sref_cycles'' i) (sref_energy_inc ec);
          v = vec_doubles (snd x)
      in (d_add L (fst x) (d_add L (d_add L act_stb pre_stb) sref),
          (snd x)\<lparr>vec_doubles := v(''act_stb_energy'' := (v ''act_stb_energy'')(i := act_stb),
                                  ''pre_stb_energy'' := (v ''pre_stb_energy'')(i := pre_stb),
                                  ''sref_energy'' := (v ''sref_energy'')(i := sref))\<rparr>))"

definition GetHistoAvg :: "'d report_lib \<Rightarrow> HistoCount \<Rightarrow> 'd" where
  "GetHistoAvg L h =
     (let (accu_sum, count) = fold (\<lambda>(v, n) (a, c). (a + of_int v * n, c + n)) h (0, 0)
      in if count = 0 then d_int L 0 else d_div L (d_count L accu_sum) (d_count L count))"

definition update_calculated ::
    "'d report_lib \<Rightarrow> 'd EnergyConfig \<Rightarrow> Config \<Rightarrow> (string \<Rightarrow> 64 word) \<Rightarrow> (string \<Rightarrow> HistoCount) \<Rightarrow> 'd \<Rightarrow>
     'd Report \<Rightarrow> 'd Report" where
  "update_calculated L ec cfg cnt hist background_energy rp =
     (let total_reqs = cnt ''num_reads_done'' + cnt ''num_writes_done'';
          total_time = d_mul L (d_count L (cnt ''num_cycles'')) (tCK ec);
          avg_bw = d_div L (d_count L (total_reqs * of_int (request_size_bytes cfg))) total_time;
          d = doubles rp;
          total_energy = d_add L (d_add L (d_add L (d_add L (d_add L (d ''act_energy'') (d ''read_energy''))
                           (d ''write_energy'')) (d ''ref_energy'')) (d ''refb_energy'')) background_energy
      in rp\<lparr>calculated := (calculated rp)
              (''average_bandwidth'' := avg_bw, ''total_energy'' := total_energy,
               ''average_power'' := d_div L total_energy (d_count L (cnt ''num_cycles'')),
               ''average_read_latency'' := GetHistoAvg L (hist ''read_latency''),
               ''average_interarrival'' := GetHistoAvg L (hist ''interarrival_latency''))\<rparr>)"

definition RankBackgroundEnergy :: "'d report_lib \<Rightarrow> int \<Rightarrow> 'd Report \<Rightarrow> 'd" where
  "RankBackgroundEnergy L rank rp =
     d_add L (d_add L (vec_doubles rp ''act_stb_energy'' rank) (vec_doubles rp ''pre_stb_energy'' rank))
       (vec_doubles rp ''sref_energy'' rank)"

section \<open>What is printed\<close>

definition j_object :: "'d json_object \<Rightarrow> 'd json" where
  "j_object kvs = (if kvs = [] then JNull else JObject (fold (\<lambda>(k, v). AList.update k v) kvs []))"

text \<open>The lines of the text report, in the order in which they are pushed.\<close>

definition report_pairs ::
    "'d report_lib \<Rightarrow> Config \<Rightarrow> bool \<Rightarrow> SimpleStats \<Rightarrow> 'd Report \<Rightarrow> (string \<times> string) list" where
  "report_pairs L cfg epoch st rp =
     (let cnt = (if epoch then epoch_counters st else counters st);
          vec = (if epoch then epoch_vec_counters st else vec_counters st);
          bins = (if epoch then epoch_histo_bins st else histo_bins st);
          w = (\<lambda>x. to_string (uint (x :: 64 word)))
      in map (\<lambda>n. (n, w (cnt n))) (iter L (map fst counter_stats)) @
         concat (map (\<lambda>n. map (\<lambda>i. (indexed n i, w (vec n i))) [0..ranks cfg - 1]) (iter L (map fst vec_counter_stats))) @
         concat (map (\<lambda>n. map (\<lambda>i. (histo_headers rp n ! i, w (bins n ! i))) [0..<length (bins n)])
           (iter L (map fst histo_stats))) @
         map (\<lambda>n. (n, d_text L (doubles rp n))) (iter L (map fst double_stats)) @
         concat (map (\<lambda>n. map (\<lambda>i. (indexed n i, d_text L (vec_doubles rp n i))) [0..ranks cfg - 1])
           (iter L (map fst vec_double_stats))) @
         map (\<lambda>n. (n, d_text L (calculated rp n))) (iter L (map fst calculated_stats)))"

text \<open>The assignments to the JSON object, in their order; only the final report has the full histograms.\<close>

definition report_fields ::
    "'d report_lib \<Rightarrow> Config \<Rightarrow> int \<Rightarrow> bool \<Rightarrow> SimpleStats \<Rightarrow> 'd Report \<Rightarrow> 'd json_object" where
  "report_fields L cfg ch epoch st rp =
     (let cnt = (if epoch then epoch_counters st else counters st);
          vec = (if epoch then epoch_vec_counters st else vec_counters st);
          bins = (if epoch then epoch_histo_bins st else histo_bins st)
      in [(''channel'', JInt ch)] @
         map (\<lambda>n. (n, JUnsigned (cnt n))) (iter L (map fst counter_stats)) @
         [(''epoch_num'', JUnsigned (counters st ''epoch_num''))] @
         map (\<lambda>n. (n, j_object (map (\<lambda>i. (to_string i, JUnsigned (vec n i))) [0..ranks cfg - 1])))
           (iter L (map fst vec_counter_stats)) @
         concat (map (\<lambda>n. map (\<lambda>i. (histo_headers rp n ! i, JUnsigned (bins n ! i))) [0..<length (bins n)])
           (iter L (map fst histo_stats))) @
         (if epoch then []
          else map (\<lambda>n. (n, j_object (map (\<lambda>(v, c). (to_string v, JUnsigned c)) (histo_counts st n))))
                 (iter L (map fst histo_stats))) @
         map (\<lambda>n. (n, JDouble (doubles rp n))) (iter L (map fst double_stats)) @
         map (\<lambda>n. (n, j_object (map (\<lambda>i. (to_string i, JDouble (vec_doubles rp n i))) [0..ranks cfg - 1])))
           (iter L (map fst vec_double_stats)) @
         map (\<lambda>n. (n, JDouble (calculated rp n))) (iter L (map fst calculated_stats)))"

definition UpdatePrints ::
    "'d report_lib \<Rightarrow> Config \<Rightarrow> int \<Rightarrow> bool \<Rightarrow> SimpleStats \<Rightarrow> 'd Report \<Rightarrow> 'd Report" where
  "UpdatePrints L cfg ch epoch st rp =
     rp\<lparr>print_pairs := print_pairs rp @ report_pairs L cfg epoch st rp,
        j_data := fold (\<lambda>(k, v). AList.update k v) (report_fields L cfg ch epoch st rp) (j_data rp)\<rparr>"

section \<open>The end of an epoch and of the run\<close>

text \<open>The counters are added to the totals first; the averages are those of the epoch, which is cleared at the end.\<close>

definition rp_UpdateEpochStats ::
    "'d report_lib \<Rightarrow> 'd EnergyConfig \<Rightarrow> Config \<Rightarrow> int \<Rightarrow> SimpleStats \<times> 'd Report \<Rightarrow> SimpleStats \<times> 'd Report" where
  "rp_UpdateEpochStats L ec cfg ch x =
     (let st1 = UpdateCounters (fst x);
          (bg, rp1) = fold (update_rank L ec (epoch_vec_counters st1)) [0..ranks cfg - 1]
                        (d_int L 0, update_doubles L ec (epoch_counters st1) (snd x));
          st2 = UpdateHistoBins st1;
          rp2 = update_calculated L ec cfg (epoch_counters st2) (epoch_histo_counts st2) bg rp1
      in (st2\<lparr>epoch_counters := (\<lambda>_. 0), epoch_vec_counters := (\<lambda>_ _. 0), epoch_histo_counts := (\<lambda>_. [])\<rparr>,
          UpdatePrints L cfg ch True st2 rp2))"

definition rp_UpdateFinalStats ::
    "'d report_lib \<Rightarrow> 'd EnergyConfig \<Rightarrow> Config \<Rightarrow> int \<Rightarrow> SimpleStats \<times> 'd Report \<Rightarrow> SimpleStats \<times> 'd Report" where
  "rp_UpdateFinalStats L ec cfg ch x =
     (let st1 = UpdateCounters (fst x);
          (bg, rp1) = fold (update_rank L ec (vec_counters st1)) [0..ranks cfg - 1]
                        (d_int L 0, update_doubles L ec (counters st1) (snd x));
          st2 = UpdateHistoBins st1;
          rp2 = update_calculated L ec cfg (counters st2) (histo_counts st2) bg rp1
      in (st2, UpdatePrints L cfg ch False st2 rp2))"

definition rp_Reset :: "'d report_lib \<Rightarrow> SimpleStats \<times> 'd Report \<Rightarrow> SimpleStats \<times> 'd Report" where
  "rp_Reset L x =
     (stats_Reset (fst x),
      (snd x)\<lparr>doubles := (\<lambda>_. d_int L 0), vec_doubles := (\<lambda>_ _. d_int L 0), calculated := (\<lambda>_. d_int L 0)\<rparr>)"

section \<open>Files\<close>

text \<open>Every file can be opened for writing; one that is opened for reading as well has to exist.\<close>

record Output =
  files :: "string \<rightharpoonup> string"
  stdout :: string

definition file_out :: "string \<Rightarrow> string \<Rightarrow> Output \<Rightarrow> Output" where
  "file_out name txt fs = fs\<lparr>files := (files fs)(name \<mapsto> txt)\<rparr>"

definition file_app :: "string \<Rightarrow> string \<Rightarrow> Output \<Rightarrow> Output" where
  "file_app name txt fs =
     fs\<lparr>files := (files fs)(name \<mapsto> (case files fs name of None \<Rightarrow> [] | Some old \<Rightarrow> old) @ txt)\<rparr>"

text \<open>\<open>seekp (-2, cur)\<close> at the end of an existing file and one byte written there.\<close>

definition file_patch :: "string \<Rightarrow> char \<Rightarrow> Output \<Rightarrow> Output" where
  "file_patch name c fs =
     (case files fs name of
        None \<Rightarrow> fs
      | Some old \<Rightarrow> if length old < 2 then fs
                    else fs\<lparr>files := (files fs)(name \<mapsto> old[length old - 2 := c])\<rparr>)"

record OutputNames =
  json_stats_name :: string
  json_epoch_name :: string
  txt_stats_name :: string

definition output_names :: "(string \<Rightarrow> bool) \<Rightarrow> string \<Rightarrow> INIReader \<Rightarrow> OutputNames" where
  "output_names DirExist output_dir r =
     (let dir = (if \<not> DirExist output_dir then ''./'' else output_dir @ ''/'');
          output_prefix = dir @ rd_Get r ''other'' ''output_prefix'' ''dramsim3''
      in \<lparr>json_stats_name = output_prefix @ ''.json'', json_epoch_name = output_prefix @ ''epoch.json'',
          txt_stats_name = output_prefix @ ''.txt''\<rparr>)"

definition pad_right :: "nat \<Rightarrow> string \<Rightarrow> string" where
  "pad_right n s = s @ replicate (n - length s) (CHR '' '')"

definition pad_left :: "nat \<Rightarrow> string \<Rightarrow> string" where
  "pad_left n s = replicate (n - length s) (CHR '' '') @ s"

definition PrintStatText :: "string \<Rightarrow> string \<Rightarrow> string \<Rightarrow> string" where
  "PrintStatText name value description =
     pad_right 30 name @ '' = '' @ pad_left 12 value @ pad_left 5 '' # '' @ description @ [CHR 0x0A]"

definition GetTextHeader :: "int \<Rightarrow> bool \<Rightarrow> SimpleStats \<Rightarrow> string" where
  "GetTextHeader ch is_final st =
     replicate 43 (CHR ''#'') @ [CHR 0x0A] @ ''## Statistics of Channel '' @ to_string ch @
     (if is_final then [] else '' of epoch '' @ to_string (uint (counters st ''epoch_num''))) @
     [CHR 0x0A] @ replicate 43 (CHR ''#'') @ [CHR 0x0A]"

definition text_lines :: "'d Report \<Rightarrow> string" where
  "text_lines rp =
     concat (map (\<lambda>(n, v). PrintStatText n v (case header_descs rp n of None \<Rightarrow> [] | Some d \<Rightarrow> d)) (print_pairs rp))"

definition rp_PrintEpochStats ::
    "'d report_lib \<Rightarrow> 'd EnergyConfig \<Rightarrow> OutputNames \<Rightarrow> Config \<Rightarrow> int \<Rightarrow> SimpleStats \<times> 'd Report \<Rightarrow> Output \<Rightarrow>
     (SimpleStats \<times> 'd Report) \<times> Output" where
  "rp_PrintEpochStats L ec nm cfg ch x fs =
     (let (st, rp) = rp_UpdateEpochStats L ec cfg ch x;
          fs1 = (if output_level cfg \<ge> 1 then file_app (json_epoch_name nm) (j_dump L (j_data rp)) fs else fs);
          fs2 = (if output_level cfg \<ge> 2
                 then fs1\<lparr>stdout := stdout fs1 @ GetTextHeader ch False st @ text_lines rp\<rparr> else fs1)
      in ((st, rp\<lparr>print_pairs := []\<rparr>), fs2))"

definition rp_PrintFinalStats ::
    "'d report_lib \<Rightarrow> 'd EnergyConfig \<Rightarrow> OutputNames \<Rightarrow> Config \<Rightarrow> int \<Rightarrow> SimpleStats \<times> 'd Report \<Rightarrow> Output \<Rightarrow>
     (SimpleStats \<times> 'd Report) \<times> Output" where
  "rp_PrintFinalStats L ec nm cfg ch x fs =
     (let (st, rp) = rp_UpdateFinalStats L ec cfg ch x;
          fs1 = (if output_level cfg \<ge> 0
                 then file_app (json_stats_name nm) (''\"'' @ to_string ch @ ''\":'' @ j_dump L (j_data rp)) fs else fs);
          txt = GetTextHeader ch True st @ text_lines rp;
          fs2 = (if output_level cfg \<ge> 1
                 then if ch = 0 then file_out (txt_stats_name nm) txt fs1 else file_app (txt_stats_name nm) txt fs1
                 else fs1)
      in ((st, rp\<lparr>print_pairs := []\<rparr>), fs2))"

section \<open>The reports of a memory system\<close>

record 'd ReportedSystem =
  rs_system :: JedecDRAMSystem
  rs_reports :: "int \<Rightarrow> 'd Report"
  rs_output :: Output

definition ct_report ::
    "(int \<Rightarrow> SimpleStats \<times> 'd Report \<Rightarrow> Output \<Rightarrow> (SimpleStats \<times> 'd Report) \<times> Output) \<Rightarrow> (SimpleStats \<Rightarrow> SimpleStats) \<Rightarrow>
     int \<Rightarrow> 'd ReportedSystem \<Rightarrow> 'd ReportedSystem" where
  "ct_report print pre i rs =
     (let c = ctrls (rs_system rs) i;
          ((st, rp), fs) = print (ct_channel_id c) (pre (ct_stats c), rs_reports rs i) (rs_output rs)
      in rs\<lparr>rs_system := (rs_system rs)\<lparr>ctrls := (ctrls (rs_system rs))(i := c\<lparr>ct_stats := st\<rparr>)\<rparr>,
            rs_reports := (rs_reports rs)(i := rp), rs_output := fs\<rparr>)"

definition upd_output :: "(Output \<Rightarrow> Output) \<Rightarrow> 'd ReportedSystem \<Rightarrow> 'd ReportedSystem" where
  "upd_output f rs = rs\<lparr>rs_output := f (rs_output rs)\<rparr>"

definition epoch_of_channel ::
    "'d report_lib \<Rightarrow> 'd EnergyConfig \<Rightarrow> OutputNames \<Rightarrow> Config \<Rightarrow> int \<Rightarrow> 'd ReportedSystem \<Rightarrow> 'd ReportedSystem" where
  "epoch_of_channel L ec nm cfg i rs =
     upd_output (file_app (json_epoch_name nm) [CHR '','', CHR 0x0A])
       (ct_report (rp_PrintEpochStats L ec nm cfg) (Increment ''epoch_num'') i rs)"

definition final_of_channel ::
    "'d report_lib \<Rightarrow> 'd EnergyConfig \<Rightarrow> OutputNames \<Rightarrow> Config \<Rightarrow> int \<Rightarrow> 'd ReportedSystem \<Rightarrow> 'd ReportedSystem" where
  "final_of_channel L ec nm cfg i rs =
     (let rs1 = ct_report (rp_PrintFinalStats L ec nm cfg) id i rs
      in if i \<noteq> channels cfg - 1 then upd_output (file_app (json_stats_name nm) [CHR '','', CHR 0x0A]) rs1 else rs1)"

text \<open>\<open>BaseDRAMSystem::PrintEpochStats\<close>: the first epoch opens the bracket, a comma follows every channel.\<close>

definition rs_PrintEpochStats ::
    "'d report_lib \<Rightarrow> 'd EnergyConfig \<Rightarrow> OutputNames \<Rightarrow> Config \<Rightarrow> 'd ReportedSystem \<Rightarrow> 'd ReportedSystem" where
  "rs_PrintEpochStats L ec nm cfg rs =
     fold (epoch_of_channel L ec nm cfg) [0..channels cfg - 1]
       (if js_clk (rs_system rs) - of_int (epoch_period cfg) = 0
        then upd_output (file_out (json_epoch_name nm) ''['') rs else rs)"

definition rs_PrintStats ::
    "'d report_lib \<Rightarrow> 'd EnergyConfig \<Rightarrow> OutputNames \<Rightarrow> Config \<Rightarrow> 'd ReportedSystem \<Rightarrow> 'd ReportedSystem" where
  "rs_PrintStats L ec nm cfg rs =
     upd_output (file_app (json_stats_name nm) ''}'')
       (fold (final_of_channel L ec nm cfg) [0..channels cfg - 1]
         (upd_output (file_out (json_stats_name nm) ''{'' \<circ> file_patch (json_epoch_name nm) (CHR '']'')) rs))"

definition rs_ResetStats :: "'d report_lib \<Rightarrow> Config \<Rightarrow> 'd ReportedSystem \<Rightarrow> 'd ReportedSystem" where
  "rs_ResetStats L cfg rs =
     fold (ct_report (\<lambda>_ x fs. (rp_Reset L x, fs)) id) [0..channels cfg - 1] rs"

text \<open>A cycle of the JEDEC system with its reports.\<close>

definition rs_ClockTick ::
    "'d report_lib \<Rightarrow> 'd EnergyConfig \<Rightarrow> OutputNames \<Rightarrow> Config \<Rightarrow> Timing \<Rightarrow> 'd ReportedSystem \<Rightarrow>
     ((64 word \<times> bool) list \<times> 'd ReportedSystem) run" where
  "rs_ClockTick L ec nm cfg tm rs =
     (let (ts, s1) = drain_all (js_clk (rs_system rs)) [0..channels cfg - 1] (rs_system rs)
      in run_bind (for_run (js_tick_ctrl cfg tm) [0..channels cfg - 1] s1) (\<lambda>s2.
         let s3 = s2\<lparr>js_clk := js_clk s2 + 1\<rparr>; n = (of_int (epoch_period cfg) :: 64 word); rs3 = rs\<lparr>rs_system := s3\<rparr>
         in if n = 0 then raise DivideByZero
            else ret (ts, if js_clk s3 mod n = 0 then rs_PrintEpochStats L ec nm cfg rs3 else rs3)))"

end
