(* ===== verification/DS_Report_Inv.thy ===== *)
theory DS_Report_Inv
  imports DS_Report DS_Latency
begin

text \<open>
  What the reports contain: reporting does not change the simulation, the two JSON files are
  well formed and complete, every statistic is printed once with its description, and the
  energies of the epochs add up to those of the run.
\<close>

section \<open>Reporting does not influence the simulation\<close>

lemma rp_epoch_stats: "fst (rp_UpdateEpochStats L ec cfg ch x) = UpdateEpochStats (fst x)"
  by (simp add: rp_UpdateEpochStats_def UpdateEpochStats_def Let_def split: prod.split)

lemma rp_final_stats: "fst (rp_UpdateFinalStats L ec cfg ch x) = UpdateFinalStats (fst x)"
  by (simp add: rp_UpdateFinalStats_def UpdateFinalStats_def Let_def split: prod.split)

lemma rp_print_epoch_stats: "fst (fst (rp_PrintEpochStats L ec nm cfg ch x fs)) = UpdateEpochStats (fst x)"
  using rp_epoch_stats [of L ec cfg ch x] by (auto simp: rp_PrintEpochStats_def Let_def split: prod.split)

lemma ct_report_system:
  "rs_system (ct_report print pre i rs) =
     (rs_system rs)\<lparr>ctrls := (ctrls (rs_system rs))(i := (ctrls (rs_system rs) i)
       \<lparr>ct_stats := fst (fst (print (ct_channel_id (ctrls (rs_system rs) i)) (pre (ct_stats (ctrls (rs_system rs) i)), rs_reports rs i)
          (rs_output rs)))\<rparr>)\<rparr>"
  by (simp add: ct_report_def Let_def split: prod.split)

lemma upd_output_simps [simp]:
  "rs_system (upd_output f rs) = rs_system rs" "rs_reports (upd_output f rs) = rs_reports rs"
  "rs_output (upd_output f rs) = f (rs_output rs)"
  by (simp_all add: upd_output_def)

lemma rs_print_epoch_system: "rs_system (rs_PrintEpochStats L ec nm cfg rs) = js_PrintEpochStats cfg (rs_system rs)"
proof -
  have "rs_system (fold (epoch_of_channel L ec nm cfg) is rs) =
      fold (\<lambda>i s. s\<lparr>ctrls := (ctrls s)(i := ct_PrintEpochStats (ctrls s i))\<rparr>) is (rs_system rs)" for "is" rs
    by (induction "is" arbitrary: rs)
      (simp_all add: epoch_of_channel_def ct_report_system rp_print_epoch_stats ct_PrintEpochStats_def upd_stats_def)
  then show ?thesis by (simp add: rs_PrintEpochStats_def js_PrintEpochStats_def)
qed

lemma rs_ClockTick_system:
  "js_ClockTick cfg tm (rs_system rs) =
     run_bind (rs_ClockTick L ec nm cfg tm rs) (\<lambda>(ts, rs'). ret (ts, rs_system rs'))"
  by (auto simp: js_ClockTick_def rs_ClockTick_def js_advance_def run_bind_assoc Let_def rs_print_epoch_system
      split: prod.split intro!: run_bind_cong)

section \<open>The files\<close>

fun comma_list :: "string list \<Rightarrow> string" where
  "comma_list [] = []"
| "comma_list [e] = e"
| "comma_list (e # f # es) = e @ [CHR '','', CHR 0x0A] @ comma_list (f # es)"

definition comma_terminated :: "string list \<Rightarrow> string" where
  "comma_terminated es = concat (map (\<lambda>e. e @ [CHR '','', CHR 0x0A]) es)"

lemma comma_terminated_simps [simp]:
  "comma_terminated [] = []" "comma_terminated (e # es) = e @ CHR '','' # CHR 0x0A # comma_terminated es"
  "comma_terminated (es @ fs) = comma_terminated es @ comma_terminated fs"
  by (simp_all add: comma_terminated_def)

lemma comma_terminated_list: "es \<noteq> [] \<Longrightarrow> comma_terminated es = comma_list es @ [CHR '','', CHR 0x0A]"
  by (induction es rule: comma_list.induct) simp_all

definition names_apart :: "OutputNames \<Rightarrow> bool" where
  "names_apart nm \<longleftrightarrow> json_epoch_name nm \<noteq> json_stats_name nm \<and> json_epoch_name nm \<noteq> txt_stats_name nm \<and>
     json_stats_name nm \<noteq> txt_stats_name nm"

lemma output_names_apart: "names_apart (output_names de dir r)"
  by (simp add: names_apart_def output_names_def Let_def)

text \<open>What a channel adds to the file of the epochs and to the final file.\<close>

definition epoch_entry :: "'d report_lib \<Rightarrow> Config \<Rightarrow> 'd Report \<Rightarrow> string" where
  "epoch_entry L cfg rp = (if output_level cfg \<ge> 1 then j_dump L (j_data rp) else [])"

definition final_entry :: "'d report_lib \<Rightarrow> Config \<Rightarrow> int \<Rightarrow> 'd Report \<Rightarrow> string" where
  "final_entry L cfg ch rp =
     (if output_level cfg \<ge> 0 then ''\"'' @ to_string ch @ ''\":'' @ j_dump L (j_data rp) else [])"

lemma print_epoch_file:
  assumes "rp_PrintEpochStats L ec nm cfg ch x fs = ((st, rp), fs')" "files fs (json_epoch_name nm) = Some t"
  shows "files fs' (json_epoch_name nm) = Some (t @ epoch_entry L cfg rp)"
  using assms by (auto simp: rp_PrintEpochStats_def epoch_entry_def file_app_def Let_def split: prod.splits)

lemma print_final_file:
  assumes "rp_PrintFinalStats L ec nm cfg ch x fs = ((st, rp), fs')" "files fs (json_stats_name nm) = Some t" "names_apart nm"
  shows "files fs' (json_stats_name nm) = Some (t @ final_entry L cfg ch rp) \<and>
    files fs' (json_epoch_name nm) = files fs (json_epoch_name nm)"
  using assms
  by (auto simp: rp_PrintFinalStats_def final_entry_def file_app_def file_out_def names_apart_def Let_def split: prod.splits if_splits)

lemma report_epochs:
  assumes "distinct is" "files (rs_output rs) (json_epoch_name nm) = Some t"
    "rs' = fold (epoch_of_channel L ec nm cfg) is rs"
  shows "files (rs_output rs') (json_epoch_name nm) = Some (t @ comma_terminated (map (\<lambda>i. epoch_entry L cfg (rs_reports rs' i)) is)) \<and>
    (\<forall>j. j \<notin> set is \<longrightarrow> rs_reports rs' j = rs_reports rs j)"
  using assms
proof (induction "is" arbitrary: rs t)
  case (Cons i "is")
  let ?c = "ctrls (rs_system rs) i" and ?rs = "epoch_of_channel L ec nm cfg i rs"
  obtain st rp fs where p: "rp_PrintEpochStats L ec nm cfg (ct_channel_id ?c) (Increment ''epoch_num'' (ct_stats ?c), rs_reports rs i)
      (rs_output rs) = ((st, rp), fs)"
    by (metis surj_pair)
  have r: "rs_reports ?rs = (rs_reports rs)(i := rp)" by (simp add: epoch_of_channel_def ct_report_def Let_def p)
  have f: "files (rs_output ?rs) (json_epoch_name nm) = Some (t @ epoch_entry L cfg rp @ [CHR '','', CHR 0x0A])"
    using print_epoch_file [OF p Cons.prems(2)] by (simp add: epoch_of_channel_def ct_report_def Let_def p file_app_def)
  have d: "distinct is" "i \<notin> set is" using Cons.prems(1) by simp_all
  have e: "rs' = fold (epoch_of_channel L ec nm cfg) is ?rs" using Cons.prems(3) by simp
  from Cons.IH [OF d(1) f e] d(2) r show ?case by auto
qed simp

lemma print_epoch_files:
  assumes "files (rs_output rs) (json_epoch_name nm) = Some t \<or> js_clk (rs_system rs) = of_int (epoch_period cfg)"
    "rs' = rs_PrintEpochStats L ec nm cfg rs"
  shows "files (rs_output rs') (json_epoch_name nm) = Some
    ((if js_clk (rs_system rs) = of_int (epoch_period cfg) then ''['' else t) @
     comma_terminated (map (\<lambda>i. epoch_entry L cfg (rs_reports rs' i)) [0..channels cfg - 1]))"
  using assms(1) report_epochs [OF distinct_upto _ assms(2) [unfolded rs_PrintEpochStats_def]]
  by (auto simp: file_out_def)

text \<open>The final report closes the bracket and writes one member per channel.\<close>

definition final_entries :: "'d report_lib \<Rightarrow> Config \<Rightarrow> 'd ReportedSystem \<Rightarrow> string list" where
  "final_entries L cfg rs =
     map (\<lambda>i. final_entry L cfg (ct_channel_id (ctrls (rs_system rs) i)) (rs_reports rs i)) [0..channels cfg - 1]"

lemma report_final:
  assumes "names_apart nm" "m \<le> channels cfg" "files (rs_output rs) (json_stats_name nm) = Some t"
    "rs' = fold (final_of_channel L ec nm cfg) [m..channels cfg - 1] rs"
  shows "files (rs_output rs') (json_stats_name nm) = Some (t @ comma_list
      (map (\<lambda>i. final_entry L cfg (ct_channel_id (ctrls (rs_system rs') i)) (rs_reports rs' i)) [m..channels cfg - 1])) \<and>
    files (rs_output rs') (json_epoch_name nm) = files (rs_output rs) (json_epoch_name nm) \<and>
    (\<forall>j<m. rs_reports rs' j = rs_reports rs j \<and> ctrls (rs_system rs') j = ctrls (rs_system rs) j)"
  using assms(2-4)
proof (induction "nat (channels cfg - m)" arbitrary: m rs t)
  case 0
  then show ?case by simp
next
  case (Suc k)
  let ?c = "ctrls (rs_system rs) m" and ?rs = "final_of_channel L ec nm cfg m rs"
  have m: "m < channels cfg" using Suc.hyps(2) by simp
  obtain st rp fs where p: "rp_PrintFinalStats L ec nm cfg (ct_channel_id ?c) (ct_stats ?c, rs_reports rs m)
      (rs_output rs) = ((st, rp), fs)"
    by (metis surj_pair)
  note f = print_final_file [OF p Suc.prems(2) assms(1)]
  have s: "rs_reports ?rs = (rs_reports rs)(m := rp)" "ctrls (rs_system ?rs) = (ctrls (rs_system rs))(m := ?c\<lparr>ct_stats := st\<rparr>)"
    by (simp_all add: final_of_channel_def ct_report_def Let_def p)
  have g: "files (rs_output ?rs) (json_stats_name nm) = Some (t @ final_entry L cfg (ct_channel_id ?c) rp @
        (if m \<noteq> channels cfg - 1 then [CHR '','', CHR 0x0A] else []))"
      "files (rs_output ?rs) (json_epoch_name nm) = files (rs_output rs) (json_epoch_name nm)"
    using f assms(1) by (simp_all add: final_of_channel_def ct_report_def Let_def p file_app_def names_apart_def)
  have l: "[m..channels cfg - 1] = m # [m + 1..channels cfg - 1]" using m by (simp add: upto_rec1)
  have e: "rs' = fold (final_of_channel L ec nm cfg) [m + 1..channels cfg - 1] ?rs" using Suc.prems(3) l by simp
  have "k = nat (channels cfg - (m + 1))" "m + 1 \<le> channels cfg" using Suc.hyps(2) m by simp_all
  note IH = Suc.hyps(1) [OF this g(1) e]
  then have at: "rs_reports rs' m = rp" "ct_channel_id (ctrls (rs_system rs') m) = ct_channel_id ?c" using s by simp_all
  show ?case
  proof (cases "m = channels cfg - 1")
    case True
    then show ?thesis using IH s g(2) at l by auto
  next
    case False
    then have "[m + 1..channels cfg - 1] = (m + 1) # [m + 1 + 1..channels cfg - 1]" using m by (simp add: upto_rec1)
    then show ?thesis using IH s g(2) at l False by auto
  qed
qed

lemma print_stats_files:
  assumes "names_apart nm" "rs' = rs_PrintStats L ec nm cfg rs" "0 \<le> channels cfg"
  shows "files (rs_output rs') (json_stats_name nm) = Some (''{'' @ comma_list (final_entries L cfg rs') @ ''}'') \<and>
    files (rs_output rs') (json_epoch_name nm) = files (file_patch (json_epoch_name nm) (CHR '']'') (rs_output rs)) (json_epoch_name nm)"
proof -
  let ?rs = "upd_output (file_out (json_stats_name nm) ''{'' \<circ> file_patch (json_epoch_name nm) (CHR '']'')) rs"
  have "files (rs_output ?rs) (json_stats_name nm) = Some ''{''" by (simp add: file_out_def)
  from report_final [OF assms(1,3) this refl] show ?thesis
    using assms(1,2) by (simp add: rs_PrintStats_def file_app_def final_entries_def file_out_def names_apart_def)
qed

lemma patch_epochs:
  assumes "files fs name = Some (''['' @ comma_terminated es)" "es \<noteq> []"
  shows "files (file_patch name (CHR '']'') fs) name = Some (''['' @ comma_list es @ [CHR '']'', CHR 0x0A])"
  using assms by (simp add: file_patch_def comma_terminated_list list_update_append)

section \<open>The file of the epochs\<close>

fun rs_ticks ::
    "'d report_lib \<Rightarrow> 'd EnergyConfig \<Rightarrow> OutputNames \<Rightarrow> Config \<Rightarrow> Timing \<Rightarrow> nat \<Rightarrow> 'd ReportedSystem \<Rightarrow>
     ((64 word \<times> bool) list \<times> 'd ReportedSystem) run" where
  "rs_ticks L ec nm cfg tm 0 rs = ret ([], rs)"
| "rs_ticks L ec nm cfg tm (Suc n) rs =
     run_bind (rs_ticks L ec nm cfg tm n rs) (\<lambda>(us, rs1).
     run_bind (rs_ClockTick L ec nm cfg tm rs1) (\<lambda>(ts, rs2). ret (us @ ts, rs2)))"

text \<open>The entries of \<open>k\<close> epochs.\<close>

definition epoch_entries :: "'d report_lib \<Rightarrow> Config \<Rightarrow> (nat \<Rightarrow> int \<Rightarrow> 'd Report) \<Rightarrow> nat \<Rightarrow> string list" where
  "epoch_entries L cfg R k = concat (map (\<lambda>j. map (\<lambda>i. epoch_entry L cfg (R j i)) [0..channels cfg - 1]) [0..<k])"

lemma epoch_entries_Suc:
  "epoch_entries L cfg R (Suc k) = epoch_entries L cfg R k @ map (\<lambda>i. epoch_entry L cfg (R k i)) [0..channels cfg - 1]"
  by (simp add: epoch_entries_def)

lemma epoch_entries_cong: "(\<And>j. j < k \<Longrightarrow> R j = R' j) \<Longrightarrow> epoch_entries L cfg R k = epoch_entries L cfg R' k"
  unfolding epoch_entries_def by (intro arg_cong [where f = concat] map_cong) auto

lemma length_epoch_entries: "length (epoch_entries L cfg R k) = k * nat (channels cfg)"
  by (simp add: epoch_entries_def length_concat sum_list_triv comp_def)

lemma word_epoch:
  assumes "0 < p" "p < 2 ^ 64" "m < 2 ^ 64"
  shows "(of_nat m mod of_nat p = (0 :: 64 word)) = (p dvd m)" "(of_nat m = (of_nat p :: 64 word)) = (m = p)" "(of_nat p :: 64 word) \<noteq> 0"
proof -
  have u: "unat (of_nat m :: 64 word) = m" "unat (of_nat p :: 64 word) = p" using assms by (simp_all add: unat_of_nat take_bit_nat_eq_self)
  have "unat (of_nat m mod of_nat p :: 64 word) = m mod p" by (simp only: unat_mod u)
  then show "(of_nat m mod of_nat p = (0 :: 64 word)) = (p dvd m)"
    by (metis dvd_eq_mod_eq_0 unat_eq_zero)
  show "(of_nat m = (of_nat p :: 64 word)) = (m = p)" using u by metis
  show "(of_nat p :: 64 word) \<noteq> 0" using u(2) assms(1) by auto
qed

lemma epochs_Suc: "0 < p \<Longrightarrow> Suc n div p = (if p dvd Suc n then Suc (n div p) else n div p)"
  by (simp add: div_Suc mod_Suc dvd_eq_mod_eq_0)

section \<open>Which channel and epoch an entry is of\<close>

text \<open>Channel \<open>ch\<close> after \<open>e\<close> epochs; the histograms have their twelve bins.\<close>

definition marked :: "int \<Rightarrow> 64 word \<Rightarrow> int \<times> SimpleStats \<Rightarrow> bool" where
  "marked ch e x \<longleftrightarrow>
     fst x = ch \<and> epoch_counters (snd x) ''epoch_num'' = 0 \<and> counters (snd x) ''epoch_num'' = e \<and>
     (\<forall>n\<in>set (map fst histo_stats). length (epoch_histo_bins (snd x) n) = 12 \<and> length (histo_bins (snd x) n) = 12)"

abbreviation ct_marked :: "int \<Rightarrow> 64 word \<Rightarrow> Controller \<Rightarrow> bool" where
  "ct_marked ch e c \<equiv> marked ch e (ct_channel_id c, ct_stats c)"

lemma marked_simps [simp]:
  "n \<noteq> ''epoch_num'' \<Longrightarrow> marked ch e (i, Increment n st) = marked ch e (i, st)"
  "marked ch e (i, IncrementVec n k st) = marked ch e (i, st)"
  "marked ch e (i, AddValue n v st) = marked ch e (i, st)"
  by (simp_all add: marked_def Increment_def IncrementVec_def AddValue_def)

lemma first_ready_marked:
  "first_ready cfg cs clk pre cmds st = ret (cmd, st') \<Longrightarrow> marked ch e (i, st) \<Longrightarrow> marked ch e (i, st')"
proof (induction cmds arbitrary: pre st)
  case (Cons c post)
  obtain got where got: "cs_GetReadyCommand cfg cs c clk = ret got"
    using Cons.prems by (auto simp: run_elims)
  obtain ok st1 where arb: "ArbitratePrecharge cs pre c post st = (ok, st1)" by (cases "ArbitratePrecharge cs pre c post st")
  then have "marked ch e (i, st1)" using Cons.prems(2) by (auto simp: ArbitratePrecharge_def Let_def split: if_splits)
  then show ?case using Cons.prems Cons.IH got arb by (auto simp: Let_def split: if_splits)
qed simp

lemma issue_scan_marked:
  "issue_scan cfg cs n q st = ret (cmd, q', st') \<Longrightarrow> marked ch e (i, st) \<Longrightarrow> marked ch e (i, st')"
proof (induction n arbitrary: q st)
  case (Suc n)
  let ?q = "q\<lparr>queue_idx := next_queue_idx q\<rparr>"
  show ?case
  proof (cases "is_in_ref ?q \<and> ref_q_indices ?q (queue_idx ?q)")
    case True
    then have "issue_scan cfg cs n ?q st = ret (cmd, q', st')"
      using Suc.prems by (auto simp: Let_def checked_def split: if_splits)
    from Suc.IH [OF this Suc.prems(2)] show ?thesis .
  next
    case False
    obtain c st1 where c: "GetFirstReadyInQueue cfg cs ?q (queues ?q (queue_idx ?q)) st = ret (c, st1)"
      using Suc.prems False by (auto simp: Let_def checked_def run_elims split: if_splits)
    then have "marked ch e (i, st1)" using first_ready_marked Suc.prems(2) by (auto simp: GetFirstReadyInQueue_def)
    then show ?thesis using Suc.prems False c Suc.IH
      by (cases "IsValid c") (auto simp: Let_def checked_def run_elims split: if_splits)
  qed
qed simp

lemma get_command_marked: "ct_get_command cfg c = ret (cmd, c') \<Longrightarrow> ct_marked ch e c \<Longrightarrow> ct_marked ch e c'"
  by (auto simp: ct_get_command_def GetCommandToIssue_def run_elims dest: issue_scan_marked)

lemma pick_command_marked: "ct_pick_command cfg c = ret (cmd, c') \<Longrightarrow> ct_marked ch e c \<Longrightarrow> ct_marked ch e c'"
  by (auto simp: ct_pick_command_def run_elims split: if_splits dest: get_command_marked)

lemma UpdateCommandStats_marked: "UpdateCommandStats cmd c = ret c' \<Longrightarrow> ct_marked ch e c \<Longrightarrow> ct_marked ch e c'"
  by (cases "cmd_type cmd") (auto simp: UpdateCommandStats_def upd_stats_def)

lemma IssueCommand_marked:
  assumes "IssueCommand cfg tm cmd c = ret c'" "ct_marked ch e c"
  shows "ct_marked ch e c'"
  using assms(1)
proof (rule IssueCommand_steps)
  fix c1 c2 cs
  assume c1: "c1 = c \<or> c1 = complete_reads cfg (hex_addr cmd) c \<or>
     (\<exists>v ws. c1 = upd_stats (AddValue ''write_latency'' v) (c\<lparr>pending_wr_q := ws\<rparr>))"
    and 2: "UpdateCommandStats cmd c1 = ret c2" "c' = c2\<lparr>ct_channel := cs\<rparr>"
  have "ct_marked ch e c1" using c1 assms(2) by (auto simp: complete_reads_def upd_stats_def)
  then show ?thesis using UpdateCommandStats_marked [OF 2(1)] 2(2) by simp
qed

lemma issue_phase_marked:
  assumes "ct_issue_phase cfg tm c = ret (ev, c')" "ct_marked ch e c"
  shows "ct_marked ch e c'"
  using assms(1)
proof (cases rule: issue_phase_cases)
  case (none cmd)
  then show ?thesis using pick_command_marked assms(2) by blast
next
  case (one cmd c1 c2)
  then have "ct_marked ch e c2" using IssueCommand_marked pick_command_marked assms(2) by blast
  then show ?thesis using one(5) get_command_marked by blast
next
  case (two cmd c1 c2 second c3 c4)
  then have "ct_marked ch e c2" using IssueCommand_marked pick_command_marked assms(2) by blast
  then have "ct_marked ch e c4" using IssueCommand_marked [OF two(6)] get_command_marked [OF two(4)] by blast
  then show ?thesis using two(8) by (simp add: upd_stats_def)
qed

lemma count_ranks_marked: "ct_marked ch e c \<Longrightarrow> ct_marked ch e (fold (ct_count_rank cfg) is c)"
  by (induction "is" arbitrary: c) (simp_all add: ct_count_rank_def upd_stats_def)

lemma self_refresh_marked: "ct_self_refresh cfg tm is c = ret (ev, c') \<Longrightarrow> ct_marked ch e c \<Longrightarrow> ct_marked ch e c'"
proof (induction "is")
  case (Cons i "is")
  from Cons.prems(1) show ?case by (cases rule: self_refresh_cases) (use Cons IssueCommand_marked in blast)+
qed simp

lemma schedule_scan_stats:
  "schedule_scan cfg src pre post c = ret c' \<Longrightarrow> ct_stats c' = ct_stats c \<and> ct_channel_id c' = ct_channel_id c"
proof (induction post arbitrary: pre)
  case (Cons tr post)
  then show ?case
    by (auto simp: Let_def run_elims AddCommand_def checked_def set_source_queue_def split: if_splits trans_source.splits)
qed simp

lemma ScheduleTransaction_marked: "ScheduleTransaction cfg c = ret c' \<Longrightarrow> ct_marked ch e c \<Longrightarrow> ct_marked ch e c'"
  unfolding ScheduleTransaction_def Let_def
  by (drule schedule_scan_stats) (auto simp: start_draining_def split: if_splits)

lemma ClockTick_marked:
  assumes "ct_ClockTick cfg tm c = ret c'" "ct_marked ch e c"
  shows "ct_marked ch e c'"
proof -
  obtain ev where "ct_tick_trace cfg tm c = ret (ev, c')" using assms(1) by (auto simp: ct_ClockTick_def run_elims)
  then obtain rf cs ev1 c1 ev2 c3 c4 where
      ph: "ct_issue_phase cfg tm (c\<lparr>ct_refresh := rf, ct_channel := cs\<rparr>) = ret (ev1, c1)"
    and sr: "ct_self_refresh cfg tm [0..ranks cfg - 1] (fold (ct_count_rank cfg) [0..ranks cfg - 1] c1) = ret (ev2, c3) \<or>
     ev2 = [] \<and> c3 = fold (ct_count_rank cfg) [0..ranks cfg - 1] c1"
    and sc: "ScheduleTransaction cfg c3 = ret c4"
    and fin: "c' = upd_stats (Increment ''num_cycles'')
              (c4\<lparr>ct_clk := ct_clk c4 + 1, ct_queue := cq_ClockTick (ct_queue c4)\<rparr>)"
    by (rule tick_trace_steps)
  have "ct_marked ch e c1" using issue_phase_marked [OF ph] assms(2) by simp
  then have "ct_marked ch e (fold (ct_count_rank cfg) [0..ranks cfg - 1] c1)" by (rule count_ranks_marked)
  then have "ct_marked ch e c3" using sr self_refresh_marked by (auto split: if_splits)
  from ScheduleTransaction_marked [OF sc this] show ?thesis by (simp add: fin upd_stats_def)
qed

lemma drain_done_marked: "drain_done clk c = (ts, c') \<Longrightarrow> ct_marked ch e c \<Longrightarrow> ct_marked ch e c'"
proof (induction clk c arbitrary: ts rule: drain_done.induct)
  case (1 clk c)
  obtain t c1 where c1: "ReturnDoneTrans clk c = (t, c1)" by fastforce
  then have m: "ct_marked ch e c1"
    using "1.prems"(2) by (auto simp: ReturnDoneTrans_def Let_def upd_stats_def split: option.splits if_splits)
  show ?case
  proof (cases t)
    case None
    then show ?thesis using "1.prems"(1) c1 m by (simp add: drain_done.simps [of clk c])
  next
    case (Some x)
    obtain us where "drain_done clk c1 = (us, c')"
      using "1.prems"(1) c1 Some by (auto simp: drain_done.simps [of clk c] Let_def split: prod.splits)
    from "1.IH" [OF c1 [unfolded Some, symmetric] refl this m] show ?thesis .
  qed
qed

lemma length_fill_bins [simp]: "length (fill_bins bd w h bins) = length bins"
proof -
  have "length (fold (\<lambda>(v, n) b. let i = bin_index bd w (length b) v in b[i := b ! i + n]) h b) = length b" for b :: "64 word list"
    by (induction h arbitrary: b) (auto simp: Let_def)
  then show ?thesis by (simp add: fill_bins_def)
qed

lemma marked_new: "marked ch 0 (ch, new_SimpleStats)"
  by (simp add: marked_def histo_stats_def new_SimpleStats_def InitHistoStat_def)

lemma marked_epoch: "marked ch e (ch, st) \<Longrightarrow> marked ch (e + 1) (ch, UpdateEpochStats (Increment ''epoch_num'' st))"
  by (simp add: marked_def UpdateEpochStats_def UpdateHistoBins_def UpdateCounters_def Increment_def Let_def)

section \<open>The fields of an entry\<close>

definition iter_ok :: "'d report_lib \<Rightarrow> bool" where
  "iter_ok L \<longleftrightarrow> (\<forall>xs. mset (iter L xs) = mset xs)"

lemma set_iter: "iter_ok L \<Longrightarrow> set (iter L xs) = set xs"
  unfolding iter_ok_def by (metis set_mset_mset)

lemma map_of_assign: "map_of (fold (\<lambda>(k, v). AList.update k v) kvs xs) = map_of xs ++ map_of (rev kvs)"
  by (induction kvs arbitrary: xs) (auto simp: update_conv map_add_def fun_eq_iff split: option.splits)

definition header_for :: "string \<Rightarrow> string \<Rightarrow> bool" where
  "header_for n h \<longleftrightarrow> (\<exists>s. h = n @ s)"

definition headers_ok :: "'d Report \<Rightarrow> bool" where
  "headers_ok rp \<longleftrightarrow> (\<forall>n\<in>set (map fst histo_stats). length (histo_headers rp n) = 12 \<and> (\<forall>h\<in>set (histo_headers rp n). header_for n h))"

lemma headers_prefix:
  "headers_ok rp \<Longrightarrow> n \<in> set (map fst histo_stats) \<Longrightarrow> i < 12 \<Longrightarrow> header_for n (histo_headers rp n ! i)"
  by (auto simp: headers_ok_def)

lemma bin_headers_ok: "length (bin_headers n a b m) = m + 2 \<and> (\<forall>h\<in>set (bin_headers n a b m). header_for n h)"
  by (auto simp: bin_headers_def Let_def header_for_def)

lemma init_headers [simp]:
  "histo_headers (fold InitStat xs rp) = histo_headers rp" "histo_headers (fold (InitVecStat k) xs rp) = histo_headers rp"
  by (induction xs arbitrary: rp) (simp_all add: InitStat_def InitVecStat_def)

lemma headers_new: "headers_ok (new_Report L cfg)"
  using bin_headers_ok by (simp add: headers_ok_def new_Report_def histo_stats_def InitHistoHeaders_def Let_def)

lemma fields_of_epoch:
  assumes "iter_ok L" "headers_ok rp" "\<forall>n\<in>set (map fst histo_stats). length (epoch_histo_bins st n) = 12"
  shows "map_of (rev (report_fields L cfg ch True st rp)) ''channel'' = Some (JInt ch)"
    "map_of (rev (report_fields L cfg ch True st rp)) ''epoch_num'' = Some (JUnsigned (counters st ''epoch_num''))"
proof -
  define A where "A = map (\<lambda>n. (n, JUnsigned (epoch_counters st n) :: 'a json)) (iter L (map fst counter_stats))"
  obtain B where f: "report_fields L cfg ch True st rp =
        [(''channel'', JInt ch)] @ A @ [(''epoch_num'', JUnsigned (counters st ''epoch_num''))] @ B"
      and B: "B = map (\<lambda>n. (n, j_object (map (\<lambda>i. (to_string i, JUnsigned (epoch_vec_counters st n i))) [0..ranks cfg - 1])))
           (iter L (map fst vec_counter_stats)) @
         concat (map (\<lambda>n. map (\<lambda>i. (histo_headers rp n ! i, JUnsigned (epoch_histo_bins st n ! i))) [0..<length (epoch_histo_bins st n)])
           (iter L (map fst histo_stats))) @
         map (\<lambda>n. (n, JDouble (doubles rp n))) (iter L (map fst double_stats)) @
         map (\<lambda>n. (n, j_object (map (\<lambda>i. (to_string i, JDouble (vec_doubles rp n i))) [0..ranks cfg - 1])))
           (iter L (map fst vec_double_stats)) @
         map (\<lambda>n. (n, JDouble (calculated rp n))) (iter L (map fst calculated_stats))"
    by (simp add: report_fields_def Let_def A_def)
  have h: "histo_headers rp (fst x) ! i \<noteq> ''channel'' \<and> histo_headers rp (fst x) ! i \<noteq> ''epoch_num''"
    if "x \<in> set histo_stats" "i < 12" for x i
    using headers_prefix [OF assms(2), of "fst x" i] that by (auto simp: histo_stats_def header_for_def)
  have B': "map_of (rev B) k = None" if "k = ''channel'' \<or> k = ''epoch_num''" for k
  proof -
    have "k \<notin> fst ` set vec_counter_stats" "k \<notin> fst ` set double_stats" "k \<notin> fst ` set vec_double_stats"
        "k \<notin> fst ` set calculated_stats"
      using that by (auto simp: vec_counter_stats_def double_stats_def vec_double_stats_def calculated_stats_def)
    moreover have "\<forall>x\<in>set histo_stats. \<forall>i<length (epoch_histo_bins st (fst x)). k \<noteq> histo_headers rp (fst x) ! i"
      using h that assms(3) by (metis (no_types, lifting) image_eqI list.set_map)
    moreover have "fst ` set B = fst ` set vec_counter_stats \<union>
        (\<Union>x\<in>set histo_stats. (\<lambda>i. histo_headers rp (fst x) ! i) ` {0..<length (epoch_histo_bins st (fst x))}) \<union>
        fst ` set double_stats \<union> fst ` set vec_double_stats \<union> fst ` set calculated_stats"
      unfolding B by (simp add: set_iter [OF assms(1)] image_Un image_UN image_image Un_assoc)
    ultimately have "k \<notin> fst ` set B" by (simp add: image_iff)
    then show ?thesis by (simp add: map_of_eq_None_iff)
  qed
  have "map_of (rev A) ''channel'' = None"
    by (auto simp: map_of_eq_None_iff A_def set_iter [OF assms(1)] counter_stats_def)
  then show "map_of (rev (report_fields L cfg ch True st rp)) ''channel'' = Some (JInt ch)"
    "map_of (rev (report_fields L cfg ch True st rp)) ''epoch_num'' = Some (JUnsigned (counters st ''epoch_num''))"
    using B' by (simp_all add: f map_add_def)
qed

lemma update_rank_headers [simp]:
  "histo_headers (snd (fold (update_rank L ec vec) is x)) = histo_headers (snd x)"
  by (induction "is" arbitrary: x) (simp_all add: update_rank_def Let_def)

lemma entry_of_epoch:
  assumes m: "marked ch e (ch, st)" and rp: "iter_ok L" "headers_ok rp"
    and u: "rp_UpdateEpochStats L ec cfg ch (Increment ''epoch_num'' st, rp) = (st', rp')"
  shows "marked ch (e + 1) (ch, st')" "headers_ok rp'" "map_of (j_data rp') ''channel'' = Some (JInt ch)"
    "map_of (j_data rp') ''epoch_num'' = Some (JUnsigned (e + 1))"
proof -
  define st1 where "st1 = UpdateCounters (Increment ''epoch_num'' st)"
  define st2 where "st2 = UpdateHistoBins st1"
  obtain bg rp1 where r1: "fold (update_rank L ec (epoch_vec_counters st1)) [0..ranks cfg - 1]
      (d_int L 0, update_doubles L ec (epoch_counters st1) rp) = (bg, rp1)" by fastforce
  define rp2 where "rp2 = update_calculated L ec cfg (epoch_counters st2) (epoch_histo_counts st2) bg rp1"
  have e: "rp' = UpdatePrints L cfg ch True st2 rp2"
    using u r1 by (simp add: rp_UpdateEpochStats_def st1_def st2_def rp2_def Let_def)
  have "histo_headers rp1 = histo_headers rp"
    using update_rank_headers [of L ec "epoch_vec_counters st1" "[0..ranks cfg - 1]" "(d_int L 0, update_doubles L ec (epoch_counters st1) rp)"]
    unfolding r1 by (simp add: update_doubles_def)
  then have h: "headers_ok rp2" using rp(2) by (simp add: rp2_def update_calculated_def Let_def headers_ok_def)
  then show "headers_ok rp'" by (simp add: e UpdatePrints_def headers_ok_def)
  show "marked ch (e + 1) (ch, st')" using marked_epoch [OF m] rp_epoch_stats [of L ec cfg ch "(Increment ''epoch_num'' st, rp)"] u by simp
  have st2: "\<forall>n\<in>set (map fst histo_stats). length (epoch_histo_bins st2 n) = 12" "counters st2 ''epoch_num'' = e + 1"
    using m by (simp_all add: marked_def st2_def st1_def UpdateHistoBins_def UpdateCounters_def Increment_def Let_def)
  show "map_of (j_data rp') ''channel'' = Some (JInt ch)" "map_of (j_data rp') ''epoch_num'' = Some (JUnsigned (e + 1))"
    using fields_of_epoch [OF rp(1) h st2(1)] st2(2) by (simp_all add: e UpdatePrints_def map_of_assign map_add_def)
qed

section \<open>The epochs of a memory system\<close>

definition rs_marked :: "Config \<Rightarrow> 64 word \<Rightarrow> 'd ReportedSystem \<Rightarrow> bool" where
  "rs_marked cfg e rs \<longleftrightarrow>
     (\<forall>i\<in>set [0..channels cfg - 1]. ct_marked i e (ctrls (rs_system rs) i) \<and> headers_ok (rs_reports rs i))"

definition labelled :: "Config \<Rightarrow> 64 word \<Rightarrow> (int \<Rightarrow> 'd Report) \<Rightarrow> bool" where
  "labelled cfg e R \<longleftrightarrow>
     (\<forall>i\<in>set [0..channels cfg - 1]. map_of (j_data (R i)) ''channel'' = Some (JInt i) \<and>
        map_of (j_data (R i)) ''epoch_num'' = Some (JUnsigned e))"

lemma epochs_at:
  assumes "distinct is" "rs' = fold (epoch_of_channel L ec nm cfg) is rs"
  shows "(if i \<in> set is
      then let (st, rp) = rp_UpdateEpochStats L ec cfg (ct_channel_id (ctrls (rs_system rs) i))
                            (Increment ''epoch_num'' (ct_stats (ctrls (rs_system rs) i)), rs_reports rs i)
           in ctrls (rs_system rs') i = (ctrls (rs_system rs) i)\<lparr>ct_stats := st\<rparr> \<and> rs_reports rs' i = rp\<lparr>print_pairs := []\<rparr>
      else ctrls (rs_system rs') i = ctrls (rs_system rs) i \<and> rs_reports rs' i = rs_reports rs i)"
  using assms
proof (induction "is" arbitrary: rs)
  case (Cons k "is")
  let ?rs = "epoch_of_channel L ec nm cfg k rs"
  have d: "distinct is" "k \<notin> set is" using Cons.prems(1) by simp_all
  have e: "rs' = fold (epoch_of_channel L ec nm cfg) is ?rs" using Cons.prems(2) by simp
  obtain st rp where u: "rp_UpdateEpochStats L ec cfg (ct_channel_id (ctrls (rs_system rs) k))
      (Increment ''epoch_num'' (ct_stats (ctrls (rs_system rs) k)), rs_reports rs k) = (st, rp)" by fastforce
  have "ctrls (rs_system ?rs) = (ctrls (rs_system rs))(k := (ctrls (rs_system rs) k)\<lparr>ct_stats := st\<rparr>)"
      "rs_reports ?rs = (rs_reports rs)(k := rp\<lparr>print_pairs := []\<rparr>)"
    by (simp_all add: epoch_of_channel_def ct_report_def rp_PrintEpochStats_def Let_def u)
  then show ?case using Cons.IH [OF d(1) e] d(2) u by (auto split: if_splits)
qed simp

lemma print_epoch_marked:
  assumes "rs_marked cfg e rs" "iter_ok L" "rs' = rs_PrintEpochStats L ec nm cfg rs"
  shows "rs_marked cfg (e + 1) rs' \<and> labelled cfg (e + 1) (rs_reports rs')"
  unfolding rs_marked_def labelled_def ball_conj_distrib [symmetric]
proof
  fix i assume i: "i \<in> set [0..channels cfg - 1]"
  let ?c = "ctrls (rs_system rs) i"
  have m: "marked i e (i, ct_stats ?c)" "ct_channel_id ?c = i" "headers_ok (rs_reports rs i)"
    using assms(1) i by (auto simp: rs_marked_def marked_def)
  obtain st rp where u: "rp_UpdateEpochStats L ec cfg i (Increment ''epoch_num'' (ct_stats ?c), rs_reports rs i) = (st, rp)" by fastforce
  have "ctrls (rs_system rs') i = ?c\<lparr>ct_stats := st\<rparr> \<and> rs_reports rs' i = rp\<lparr>print_pairs := []\<rparr>"
    using epochs_at [OF distinct_upto assms(3) [unfolded rs_PrintEpochStats_def], of i] i m(2) u
    by (simp split: if_splits)
  then show "(ct_marked i (e + 1) (ctrls (rs_system rs') i) \<and> headers_ok (rs_reports rs' i)) \<and>
      map_of (j_data (rs_reports rs' i)) ''channel'' = Some (JInt i) \<and>
      map_of (j_data (rs_reports rs' i)) ''epoch_num'' = Some (JUnsigned (e + 1))"
    using entry_of_epoch [OF m(1) assms(2) m(3) u] m(2) by (simp add: headers_ok_def)
qed


lemma tick_marked:
  assumes "rs_ClockTick L ec nm cfg tm rs = ret (ts, rs')" "rs_marked cfg e rs"
  shows "\<exists>s. js_clk s = js_clk (rs_system rs) + 1 \<and> rs_marked cfg e (rs\<lparr>rs_system := s\<rparr>) \<and>
    rs' = (if js_clk s mod of_int (epoch_period cfg) = 0 then rs_PrintEpochStats L ec nm cfg (rs\<lparr>rs_system := s\<rparr>)
           else rs\<lparr>rs_system := s\<rparr>) \<and>
    js_clk (rs_system rs') = js_clk s"
proof -
  let ?I = "[0..channels cfg - 1]"
  obtain us s1 where d: "drain_all (js_clk (rs_system rs)) ?I (rs_system rs) = (us, s1)" by fastforce
  obtain s2 where s2: "for_run (js_tick_ctrl cfg tm) ?I s1 = ret s2"
      "rs' = (let s3 = s2\<lparr>js_clk := js_clk s2 + 1\<rparr>
              in if js_clk s3 mod of_int (epoch_period cfg) = 0 then rs_PrintEpochStats L ec nm cfg (rs\<lparr>rs_system := s3\<rparr>)
                 else rs\<lparr>rs_system := s3\<rparr>)"
    using assms(1) d unfolding rs_ClockTick_def Let_def
    by (cases "(of_int (epoch_period cfg) :: 64 word) = 0") (auto simp: run_bind_ret)
  have clk: "js_clk s2 = js_clk (rs_system rs)"
    using drain_all_at [OF distinct_upto d] tick_ctrls_at [OF distinct_upto s2(1)] by simp
  have "ct_marked i e (ctrls s2 i)" if i: "i \<in> set ?I" for i
  proof -
    have "ct_marked i e (ctrls s1 i)"
      using drain_all_at [OF distinct_upto d, of i] drain_done_marked i assms(2) unfolding rs_marked_def by (metis surjective_pairing)
    then show ?thesis using tick_ctrls_at [OF distinct_upto s2(1), of i] i ClockTick_marked by blast
  qed
  then have "rs_marked cfg e (rs\<lparr>rs_system := s2\<lparr>js_clk := js_clk s2 + 1\<rparr>\<rparr>)" using assms(2) by (simp add: rs_marked_def)
  moreover have "js_clk (rs_system (rs_PrintEpochStats L ec nm cfg x)) = js_clk (rs_system x)" for x
    using print_at [of cfg "rs_system x"] by (simp add: rs_print_epoch_system)
  ultimately show ?thesis
    using clk s2(2) by (intro exI [of _ "s2\<lparr>js_clk := js_clk s2 + 1\<rparr>"]) (simp add: Let_def)
qed

lemma epoch_file_run:
  assumes "js_clk (rs_system rs) = 0" "epoch_period cfg = int p" "0 < p" "p < 2 ^ 64" "iter_ok L" "rs_marked cfg 0 rs"
  shows "n < 2 ^ 64 \<Longrightarrow> rs_ticks L ec nm cfg tm n rs = ret (ts, rs') \<Longrightarrow>
    js_clk (rs_system rs') = of_nat n \<and> rs_marked cfg (of_nat (n div p)) rs' \<and>
    (p \<le> n \<longrightarrow> (\<exists>R. files (rs_output rs') (json_epoch_name nm) = Some (''['' @ comma_terminated (epoch_entries L cfg R (n div p))) \<and>
      (\<forall>j<n div p. labelled cfg (of_nat (Suc j)) (R j))))"
proof (induction n arbitrary: ts rs')
  case 0
  then show ?case using assms by simp
next
  case (Suc n)
  let ?k = "n div p"
  obtain us rs1 vs where t: "rs_ticks L ec nm cfg tm n rs = ret (us, rs1)" "rs_ClockTick L ec nm cfg tm rs1 = ret (vs, rs')"
    using Suc.prems(2) by (auto simp: run_elims)
  have n: "n < 2 ^ 64" using Suc.prems(1) by simp
  note IH = Suc.IH [OF n t(1)]
  obtain s where s: "js_clk s = js_clk (rs_system rs1) + 1" "rs_marked cfg (of_nat ?k) (rs1\<lparr>rs_system := s\<rparr>)"
      "rs' = (if js_clk s mod of_int (epoch_period cfg) = 0 then rs_PrintEpochStats L ec nm cfg (rs1\<lparr>rs_system := s\<rparr>)
           else rs1\<lparr>rs_system := s\<rparr>)" "js_clk (rs_system rs') = js_clk s"
    using tick_marked [OF t(2)] IH by blast
  have c: "js_clk s = of_nat (Suc n)" using IH s(1) by simp
  note w = word_epoch [OF assms(3,4) Suc.prems(1)]
  show ?case
  proof (cases "p dvd Suc n")
    case False
    then have e: "rs' = rs1\<lparr>rs_system := s\<rparr>" using s(3) c w(1) assms(2) by simp
    have "p \<le> Suc n \<Longrightarrow> p \<le> n" using False by (auto simp: le_Suc_eq)
    then show ?thesis using IH s(2) e c False assms(3) by (auto simp: epochs_Suc)
  next
    case True
    then have e: "rs' = rs_PrintEpochStats L ec nm cfg (rs1\<lparr>rs_system := s\<rparr>)" using s(3) c w(1) assms(2) by simp
    note m = print_epoch_marked [OF s(2) assms(5) e]
    have lab: "labelled cfg (of_nat (Suc ?k)) (rs_reports rs')" "rs_marked cfg (of_nat (Suc ?k)) rs'"
      using m by (simp_all add: add.commute)
    let ?new = "map (\<lambda>i. epoch_entry L cfg (rs_reports rs' i)) [0..channels cfg - 1]"
    have "\<exists>R. files (rs_output rs') (json_epoch_name nm) = Some (''['' @ comma_terminated (epoch_entries L cfg R (Suc ?k))) \<and>
        (\<forall>j<Suc ?k. labelled cfg (of_nat (Suc j)) (R j))"
    proof (cases "Suc n = p")
      case True
      then have f: "files (rs_output rs') (json_epoch_name nm) = Some (''['' @ comma_terminated ?new)" "?k = 0"
        using print_epoch_files [OF _ e] c assms(2,3) by auto
      have "epoch_entries L cfg (\<lambda>j. rs_reports rs') (Suc ?k) = ?new" by (simp add: epoch_entries_def f(2))
      then show ?thesis using f lab(1) by (intro exI [of _ "\<lambda>j. rs_reports rs'"]) simp
    next
      case False
      have "p \<le> n" using \<open>p dvd Suc n\<close> False dvd_imp_le [of p "Suc n"] by simp
      then obtain R where R: "files (rs_output rs1) (json_epoch_name nm) = Some (''['' @ comma_terminated (epoch_entries L cfg R ?k))"
          "\<forall>j<?k. labelled cfg (of_nat (Suc j)) (R j)"
        using IH by blast
      let ?R = "R(?k := rs_reports rs')"
      have "epoch_entries L cfg ?R (Suc ?k) = epoch_entries L cfg R ?k @ ?new"
        unfolding epoch_entries_Suc by (simp cong: epoch_entries_cong)
      moreover have "js_clk s \<noteq> of_int (epoch_period cfg)" using c w(2) False assms(2) by simp
      ultimately have "files (rs_output rs') (json_epoch_name nm) = Some (''['' @ comma_terminated (epoch_entries L cfg ?R (Suc ?k)))"
        using print_epoch_files [OF _ e, of "''['' @ comma_terminated (epoch_entries L cfg R ?k)"] R(1) by simp
      moreover have "\<forall>j<Suc ?k. labelled cfg (of_nat (Suc j)) (?R j)" using R(2) lab(1) by (auto simp: less_Suc_eq)
      ultimately show ?thesis by blast
    qed
    then show ?thesis using True s(4) c lab(2) assms(3) by (simp add: epochs_Suc)
  qed
qed

text \<open>The whole run with its final report.\<close>

lemma reports_of_run:
  assumes "js_clk (rs_system rs) = 0" "epoch_period cfg = int p" "0 < p" "p \<le> n" "n < 2 ^ 64" "iter_ok L" "rs_marked cfg 0 rs"
    and "names_apart nm" "0 < channels cfg" "rs_ticks L ec nm cfg tm n rs = ret (ts, rs')" "rf = rs_PrintStats L ec nm cfg rs'"
  shows "\<exists>R. files (rs_output rf) (json_epoch_name nm) =
      Some (''['' @ comma_list (epoch_entries L cfg R (n div p)) @ [CHR '']'', CHR 0x0A]) \<and>
    (\<forall>j<n div p. labelled cfg (of_nat (Suc j)) (R j)) \<and>
    files (rs_output rf) (json_stats_name nm) = Some (''{'' @ comma_list (final_entries L cfg rf) @ ''}'')"
proof -
  have "p < 2 ^ 64" using assms(4,5) by simp
  from epoch_file_run [OF assms(1-3) this assms(6,7,5,10)] assms(4)
  obtain R where R: "files (rs_output rs') (json_epoch_name nm) = Some (''['' @ comma_terminated (epoch_entries L cfg R (n div p)))"
      "\<forall>j<n div p. labelled cfg (of_nat (Suc j)) (R j)" by blast
  have "0 < n div p" using assms(3,4) by (simp add: div_greater_zero_iff)
  then have "epoch_entries L cfg R (n div p) \<noteq> []"
    using length_epoch_entries [of L cfg R "n div p"] assms(9) by (metis length_0_conv mult_is_0 neq0_conv zero_less_nat_eq)
  from patch_epochs [OF R(1) this] print_stats_files [OF assms(8,11)] assms(9) R(2) show ?thesis by auto
qed

text \<open>A final report is that of its channel.\<close>

lemma print_stats_channel:
  "ct_channel_id (ctrls (rs_system (rs_PrintStats L ec nm cfg rs)) i) = ct_channel_id (ctrls (rs_system rs) i)"
proof -
  have "ct_channel_id (ctrls (rs_system (fold (final_of_channel L ec nm cfg) is rs)) i) = ct_channel_id (ctrls (rs_system rs) i)" for "is" rs
    by (induction "is" arbitrary: rs) (simp_all add: final_of_channel_def ct_report_system Let_def)
  then show ?thesis by (simp add: rs_PrintStats_def)
qed

lemma final_entries_of_run:
  assumes "js_clk (rs_system rs) = 0" "epoch_period cfg = int p" "0 < p" "p \<le> n" "n < 2 ^ 64" "iter_ok L" "rs_marked cfg 0 rs"
    and "rs_ticks L ec nm cfg tm n rs = ret (ts, rs')" "rf = rs_PrintStats L ec nm cfg rs'"
  shows "final_entries L cfg rf = map (\<lambda>i. final_entry L cfg i (rs_reports rf i)) [0..channels cfg - 1]"
proof -
  have "p < 2 ^ 64" using assms(4,5) by simp
  from epoch_file_run [OF assms(1-3) this assms(6,7,5,8)] have "rs_marked cfg (of_nat (n div p)) rs'" by blast
  then have "\<forall>i\<in>set [0..channels cfg - 1]. ct_channel_id (ctrls (rs_system rf) i) = i"
    unfolding assms(9) print_stats_channel by (simp add: rs_marked_def marked_def)
  then show ?thesis by (simp add: final_entries_def)
qed

section \<open>Every statistic is printed\<close>

definition stat_names :: "Config \<Rightarrow> string list" where
  "stat_names cfg =
     map fst (counter_stats @ double_stats @ calculated_stats) @
     concat (map (\<lambda>n. map (indexed n) [0..ranks cfg - 1]) (map fst (vec_counter_stats @ vec_double_stats))) @
     concat (map (\<lambda>(n, d, a, b, m). bin_headers n a b m) histo_stats)"

text \<open>What the constructor fixes.\<close>

definition same_headers :: "'d Report \<Rightarrow> 'd Report \<Rightarrow> bool" where
  "same_headers rp rp' \<longleftrightarrow> header_descs rp' = header_descs rp \<and> histo_headers rp' = histo_headers rp"

lemma dom_emplace [simp]: "dom (emplace n d m) = insert n (dom m)"
  by (auto simp: emplace_def)

lemma dom_emplaces: "dom (fold (\<lambda>x. emplace (f x) (g x)) xs m) = f ` set xs \<union> dom m"
  by (induction xs arbitrary: m) auto

lemma dom_descs:
  "dom (header_descs (fold InitStat xs rp)) = fst ` set xs \<union> dom (header_descs rp)"
  "dom (header_descs (fold (InitVecStat k) xs rp)) = (\<Union>x\<in>set xs. indexed (fst x) ` {0..k - 1}) \<union> dom (header_descs rp)"
  by (induction xs arbitrary: rp) (auto simp: InitStat_def InitVecStat_def dom_emplaces)

lemma dom_histo_descs:
  "dom (header_descs (fold InitHistoHeaders xs rp)) =
     (\<Union>(n, d, a, b, m)\<in>set xs. set (bin_headers n a b m)) \<union> dom (header_descs rp)"
proof (induction xs arbitrary: rp)
  case (Cons x xs)
  obtain n d a b m where x: "x = (n, d, a, b, m)" by (cases x)
  have "dom (header_descs (InitHistoHeaders x rp)) = set (bin_headers n a b m) \<union> dom (header_descs rp)"
    using dom_emplaces [of "\<lambda>n. n" "\<lambda>_. d"] by (simp add: x InitHistoHeaders_def Let_def)
  with Cons show ?case by (simp add: x Un_ac)
qed simp

lemma descs_complete: "dom (header_descs (new_Report L cfg)) = set (stat_names cfg)"
proof -
  have "(\<Union>(n, d, a, b, m)\<in>set histo_stats. set (bin_headers n a b m)) =
      set (concat (map (\<lambda>(n, d, a, b, m). bin_headers n a b m) histo_stats))" by auto
  moreover have "(\<Union>x\<in>set (vec_counter_stats @ vec_double_stats). indexed (fst x) ` {0..ranks cfg - 1}) =
      set (concat (map (\<lambda>n. map (indexed n) [0..ranks cfg - 1]) (map fst (vec_counter_stats @ vec_double_stats))))" by auto
  ultimately show ?thesis
    unfolding new_Report_def comp_apply dom_descs dom_histo_descs stat_names_def set_append set_map
    by (simp add: image_Un Un_ac)
qed

lemma update_same_headers:
  "same_headers rp (snd (fold (update_rank L ec vec) is (b, rp)))"
  "same_headers rp (update_doubles L ec cnt rp)" "same_headers rp (update_calculated L ec cfg cnt hist bg rp)"
  "same_headers rp (UpdatePrints L cfg ch ep st rp)"
proof -
  show "same_headers rp (snd (fold (update_rank L ec vec) is (b, rp)))"
    by (induction "is" arbitrary: b rp) (auto simp: same_headers_def update_rank_def Let_def)
qed (simp_all add: same_headers_def update_doubles_def update_calculated_def UpdatePrints_def Let_def)

lemma mset_concat_iter: "iter_ok L \<Longrightarrow> mset (concat (map f (iter L xs))) = mset (concat (map f xs))"
  by (simp add: mset_concat iter_ok_def flip: sum_mset_sum_list)

lemma pairs_complete:
  assumes "iter_ok L" "same_headers (new_Report L cfg) rp"
    "\<forall>n\<in>set (map fst histo_stats). length (epoch_histo_bins st n) = 12 \<and> length (histo_bins st n) = 12"
  shows "mset (map fst (report_pairs L cfg epoch st rp)) = mset (stat_names cfg)"
proof -
  let ?bins = "if epoch then epoch_histo_bins st else histo_bins st"
  have it: "mset (map f (iter L xs)) = mset (map f xs)" for f :: "string \<Rightarrow> string" and xs
    using assms(1) by (simp add: iter_ok_def)
  have h: "map (\<lambda>i. histo_headers rp n ! i) [0..<length (?bins n)] = bin_headers n a b m"
    if "(n, d, a, b, m) \<in> set histo_stats" for n d a b m
  proof -
    have "histo_headers rp n = bin_headers n a b m" "length (bin_headers n a b m) = 12"
      using assms(2) that bin_headers_ok [of n a b m]
      by (auto simp: same_headers_def new_Report_def histo_stats_def InitHistoHeaders_def Let_def)
    moreover have "length (?bins n) = 12" using assms(3) that by force
    ultimately show ?thesis using map_nth [of "bin_headers n a b m"] by simp
  qed
  have hs: "map (\<lambda>n. map (\<lambda>i. histo_headers rp n ! i) [0..<length (?bins n)]) (map fst histo_stats) =
      map (\<lambda>(n, d, a, b, m). bin_headers n a b m) histo_stats"
    using h by auto
  have ms: "mset (map fst (report_pairs L cfg epoch st rp)) =
      mset (map (\<lambda>n. n) (iter L (map fst counter_stats))) +
      mset (concat (map (\<lambda>n. map (indexed n) [0..ranks cfg - 1]) (iter L (map fst vec_counter_stats)))) +
      mset (concat (map (\<lambda>n. map (\<lambda>i. histo_headers rp n ! i) [0..<length (?bins n)]) (iter L (map fst histo_stats)))) +
      mset (map (\<lambda>n. n) (iter L (map fst double_stats))) +
      mset (concat (map (\<lambda>n. map (indexed n) [0..ranks cfg - 1]) (iter L (map fst vec_double_stats)))) +
      mset (map (\<lambda>n. n) (iter L (map fst calculated_stats)))"
    by (simp add: report_pairs_def Let_def map_concat comp_def if_distrib [of "\<lambda>f. f _"] add_ac)
  show ?thesis unfolding ms it mset_concat_iter [OF assms(1)] hs stat_names_def by (simp add: add_ac)
qed

lemma final_report_complete:
  assumes "iter_ok L" "same_headers (new_Report L cfg) rp" "print_pairs rp = []" "marked ch e (ch, st)"
    "rp_UpdateFinalStats L ec cfg ch (st, rp) = (st', rp')"
  shows "mset (map fst (print_pairs rp')) = mset (stat_names cfg)" "\<forall>n\<in>set (map fst (print_pairs rp')). header_descs rp' n \<noteq> None"
    "\<forall>n\<in>set (map fst counter_stats). (n, to_string (uint (counters st n + epoch_counters st n))) \<in> set (print_pairs rp')"
proof -
  define st1 where "st1 = UpdateCounters st"
  obtain bg rp1 where r1: "fold (update_rank L ec (vec_counters st1)) [0..ranks cfg - 1]
      (d_int L 0, update_doubles L ec (counters st1) rp) = (bg, rp1)" by fastforce
  define rp2 where "rp2 = update_calculated L ec cfg (counters st') (histo_counts st') bg rp1"
  have e: "rp' = UpdatePrints L cfg ch False st' rp2" "st' = UpdateHistoBins st1"
    using assms(5) r1 by (auto simp: rp_UpdateFinalStats_def st1_def rp2_def Let_def)
  have sh: "same_headers (new_Report L cfg) rp2" "same_headers (new_Report L cfg) rp'"
    using assms(2) r1 update_same_headers(1) [of "update_doubles L ec (counters st1) rp" L ec "vec_counters st1" "[0..ranks cfg - 1]" "d_int L 0"]
      update_same_headers(2) [of rp L ec "counters st1"] update_same_headers(3) [of rp1 L ec cfg "counters st'" "histo_counts st'" bg]
      update_same_headers(4) [of rp2 L cfg ch False st']
    by (auto simp: same_headers_def rp2_def e(1))
  have "print_pairs (snd (fold (update_rank L ec vec) is (b, r))) = print_pairs r" for vec "is" b r
    by (induction "is" arbitrary: b r) (simp_all add: update_rank_def Let_def)
  from this [of "vec_counters st1" "[0..ranks cfg - 1]" "d_int L 0" "update_doubles L ec (counters st1) rp"]
  have "print_pairs rp2 = []" using assms(3) r1 by (simp add: rp2_def update_calculated_def update_doubles_def Let_def)
  then have p: "print_pairs rp' = report_pairs L cfg False st' rp2" by (simp add: e UpdatePrints_def)
  have "\<forall>n\<in>set (map fst histo_stats). length (epoch_histo_bins st' n) = 12 \<and> length (histo_bins st' n) = 12"
    using assms(4) by (simp add: e st1_def marked_def UpdateHistoBins_def UpdateCounters_def Let_def)
  from pairs_complete [OF assms(1) sh(1) this] p
  show names: "mset (map fst (print_pairs rp')) = mset (stat_names cfg)" by simp
  then have "set (map fst (print_pairs rp')) = dom (header_descs rp')"
    using descs_complete [of L cfg] sh(2) by (metis same_headers_def set_mset_mset)
  then show "\<forall>n\<in>set (map fst (print_pairs rp')). header_descs rp' n \<noteq> None" by auto
  have "counters st' n = counters st n + epoch_counters st n" for n by (simp add: e st1_def UpdateHistoBins_def UpdateCounters_def Let_def)
  then show "\<forall>n\<in>set (map fst counter_stats). (n, to_string (uint (counters st n + epoch_counters st n))) \<in> set (print_pairs rp')"
    unfolding p report_pairs_def Let_def by (auto simp: set_iter [OF assms(1)])
qed

section \<open>Energies add up\<close>

text \<open>Arithmetic without rounding.\<close>

definition exact_lib :: "('d :: comm_ring_1) report_lib \<Rightarrow> bool" where
  "exact_lib L \<longleftrightarrow> d_add L = (+) \<and> d_mul L = (*) \<and> d_int L = of_int"

definition counted :: "64 word \<Rightarrow> 'd :: comm_ring_1" where
  "counted w = of_int (uint w)"

definition energy_sum ::
    "('d :: comm_ring_1) EnergyConfig \<Rightarrow> Config \<Rightarrow> (string \<Rightarrow> 64 word) \<Rightarrow> (string \<Rightarrow> int \<Rightarrow> 64 word) \<Rightarrow> 'd" where
  "energy_sum ec cfg cnt vec =
     counted (cnt ''num_act_cmds'') * act_energy_inc ec + counted (cnt ''num_read_cmds'') * read_energy_inc ec +
     counted (cnt ''num_write_cmds'') * write_energy_inc ec + counted (cnt ''num_ref_cmds'') * ref_energy_inc ec +
     counted (cnt ''num_refb_cmds'') * refb_energy_inc ec +
     (\<Sum>i\<leftarrow>[0..ranks cfg - 1]. counted (vec ''rank_active_cycles'' i) * act_stb_energy_inc ec +
        counted (vec ''all_bank_idle_cycles'' i) * pre_stb_energy_inc ec + counted (vec ''sref_cycles'' i) * sref_energy_inc ec)"

lemma background_sum:
  assumes "exact_lib L"
  shows "fst (fold (update_rank L ec vec) is (b, rp)) = b +
      (\<Sum>i\<leftarrow>is. counted (vec ''rank_active_cycles'' i) * act_stb_energy_inc ec +
        counted (vec ''all_bank_idle_cycles'' i) * pre_stb_energy_inc ec + counted (vec ''sref_cycles'' i) * sref_energy_inc ec)"
    "doubles (snd (fold (update_rank L ec vec) is (b, rp))) = doubles rp"
  using assms
  by (induction "is" arbitrary: b rp)
    (simp_all add: update_rank_def Let_def exact_lib_def energy_def d_count_def counted_def algebra_simps)

lemma total_energy_sum:
  assumes "exact_lib L"
    "fold (update_rank L ec vec) [0..ranks cfg - 1] (d_int L 0, update_doubles L ec cnt rp) = (bg, rp1)"
  shows "calculated (update_calculated L ec cfg cnt hist bg rp1) ''total_energy'' = energy_sum ec cfg cnt vec"
  using background_sum [OF assms(1), of ec vec "[0..ranks cfg - 1]" "d_int L 0" "update_doubles L ec cnt rp"] assms
  by (simp add: update_calculated_def Let_def energy_sum_def update_doubles_def exact_lib_def energy_def d_count_def counted_def)

abbreviation total_energy :: "SimpleStats \<times> 'd Report \<Rightarrow> 'd" where
  "total_energy x \<equiv> calculated (snd x) ''total_energy''"

lemma epoch_energy:
  "exact_lib L \<Longrightarrow> total_energy (rp_UpdateEpochStats L ec cfg ch x) =
     energy_sum ec cfg (epoch_counters (fst x)) (epoch_vec_counters (fst x))"
  using total_energy_sum [of L ec "epoch_vec_counters (fst x)" cfg "epoch_counters (fst x)" "snd x"]
  by (simp add: rp_UpdateEpochStats_def UpdatePrints_def UpdateCounters_def UpdateHistoBins_def Let_def split: prod.split)

lemma final_energy:
  "exact_lib L \<Longrightarrow> total_energy (rp_UpdateFinalStats L ec cfg ch x) =
     energy_sum ec cfg (counters (UpdateCounters (fst x))) (vec_counters (UpdateCounters (fst x)))"
  using total_energy_sum [of L ec "vec_counters (UpdateCounters (fst x))" cfg "counters (UpdateCounters (fst x))" "snd x"]
  by (simp add: rp_UpdateFinalStats_def UpdatePrints_def UpdateHistoBins_def Let_def split: prod.split)

text \<open>The statistics after \<open>m\<close> counted events, with the total energies that the epochs reported.\<close>

inductive metered ::
    "'d report_lib \<Rightarrow> 'd EnergyConfig \<Rightarrow> Config \<Rightarrow> int \<Rightarrow> nat \<Rightarrow> 'd list \<Rightarrow> SimpleStats \<times> 'd Report \<Rightarrow> bool"
  for L ec cfg ch where
  new: "metered L ec cfg ch 0 [] (new_SimpleStats, rp)"
| counter: "metered L ec cfg ch m es (st, rp) \<Longrightarrow> metered L ec cfg ch (Suc m) es (Increment n st, rp)"
| vec_counter: "metered L ec cfg ch m es (st, rp) \<Longrightarrow> metered L ec cfg ch (Suc m) es (IncrementVec n i st, rp)"
| sample: "metered L ec cfg ch m es (st, rp) \<Longrightarrow> metered L ec cfg ch m es (AddValue n v st, rp)"
| epoch: "metered L ec cfg ch m es x \<Longrightarrow> x' = rp_UpdateEpochStats L ec cfg ch x \<Longrightarrow> metered L ec cfg ch m (es @ [total_energy x']) x'"
| reset: "metered L ec cfg ch m es x \<Longrightarrow> metered L ec cfg ch 0 [] (rp_Reset L x)"

definition within :: "nat \<Rightarrow> SimpleStats \<Rightarrow> bool" where
  "within m st \<longleftrightarrow>
     (\<forall>n. unat (counters st n) + unat (epoch_counters st n) \<le> m) \<and>
     (\<forall>n i. unat (vec_counters st n i) + unat (epoch_vec_counters st n i) \<le> m)"

lemma unat_add_le: "unat (a + b :: 64 word) \<le> unat a + unat b"
  by (simp add: unat_word_ariths)

lemma counted_unat: "counted w = of_nat (unat w)"
  unfolding counted_def uint_nat of_int_of_nat_eq ..

lemma counted_add: "unat (a :: 64 word) + unat b < 2 ^ 64 \<Longrightarrow> counted (a + b) = (counted a + counted b :: 'd :: comm_ring_1)"
  by (simp add: counted_unat unat_word_ariths)

lemma energy_sum_add:
  assumes "within m st" "m < 2 ^ 64"
  shows "energy_sum ec cfg (counters (UpdateCounters st)) (vec_counters (UpdateCounters st)) =
    energy_sum ec cfg (counters st) (vec_counters st) + energy_sum ec cfg (epoch_counters st) (epoch_vec_counters st)"
proof -
  have "counted (counters st n + epoch_counters st n) = (counted (counters st n) + counted (epoch_counters st n) :: 'a)" for n
    using assms by (intro counted_add) (auto simp: within_def intro: le_less_trans)
  moreover have "counted (vec_counters st n i + epoch_vec_counters st n i) =
      (counted (vec_counters st n i) + counted (epoch_vec_counters st n i) :: 'a)" for n i
    using assms by (intro counted_add) (auto simp: within_def intro: le_less_trans)
  ultimately show ?thesis
    by (simp add: energy_sum_def UpdateCounters_def algebra_simps sum_list_addf)
qed

lemma metered_sum:
  assumes "exact_lib L"
  shows "metered L ec cfg ch m es x \<Longrightarrow> m < 2 ^ 64 \<Longrightarrow>
    within m (fst x) \<and> energy_sum ec cfg (counters (fst x)) (vec_counters (fst x)) = sum_list es"
proof (induction rule: metered.induct)
  case (new rp)
  show ?case by (simp add: within_def new_SimpleStats_def InitHistoStat_def energy_sum_def counted_def)
next
  case (counter m es st rp n)
  then have "unat (counters st n) + unat (epoch_counters st n) \<le> m" by (simp add: within_def)
  then have "unat (counters st n) + unat (epoch_counters st n + 1) \<le> Suc m" using unat_add_le [of "epoch_counters st n" 1] by simp
  then show ?case using counter by (simp add: within_def Increment_def le_SucI)
next
  case (vec_counter m es st rp n i)
  then have "unat (vec_counters st n i) + unat (epoch_vec_counters st n i) \<le> m" by (simp add: within_def)
  then have "unat (vec_counters st n i) + unat (epoch_vec_counters st n i + 1) \<le> Suc m"
    using unat_add_le [of "epoch_vec_counters st n i" 1] by simp
  then show ?case using vec_counter by (simp add: within_def IncrementVec_def le_SucI)
next
  case (sample m es st rp n v)
  then show ?case by (simp add: within_def AddValue_def)
next
  case (epoch m es x x')
  have w: "within m (fst x)" and s: "energy_sum ec cfg (counters (fst x)) (vec_counters (fst x)) = sum_list es"
    using epoch by simp_all
  have st: "fst x' = UpdateEpochStats (fst x)" using epoch.hyps(2) by (simp add: rp_epoch_stats)
  have "counters (fst x') = counters (UpdateCounters (fst x))" "vec_counters (fst x') = vec_counters (UpdateCounters (fst x))"
    by (simp_all add: st UpdateEpochStats_def UpdateHistoBins_def Let_def)
  moreover have "within m (fst x')"
    using w unfolding st by (auto simp: within_def UpdateEpochStats_def UpdateHistoBins_def UpdateCounters_def Let_def
        intro: order_trans [OF unat_add_le])
  ultimately show ?case using energy_sum_add [OF w epoch.prems, of ec cfg] s epoch_energy [OF assms, of ec cfg ch x] epoch.hyps(2) by simp
next
  case (reset m es x)
  show ?case by (simp add: within_def rp_Reset_def stats_Reset_def energy_sum_def counted_def)
qed

lemma final_energy_sum:
  assumes "exact_lib L" "metered L ec cfg ch m es x" "m < 2 ^ 64"
  shows "total_energy (rp_UpdateFinalStats L ec cfg ch x) = sum_list es + total_energy (rp_UpdateEpochStats L ec cfg ch x)"
  using metered_sum [OF assms] final_energy [OF assms(1), of ec cfg ch x] epoch_energy [OF assms(1), of ec cfg ch x]
    energy_sum_add [OF _ assms(3), of "fst x" ec cfg] by simp

section \<open>Runs with reports\<close>

lemma rs_ticks_total:
  "js_ok cfg (rs_system rs) \<Longrightarrow> \<exists>ts rs'. rs_ticks L ec nm cfg tm n rs = ret (ts, rs') \<and> js_ok cfg (rs_system rs') \<and>
     run_ticks (jedec_ops cfg tm) n (rs_system rs) = ret (ts, rs_system rs')"
proof (induction n)
  case (Suc n)
  then obtain us rs1 where 1: "rs_ticks L ec nm cfg tm n rs = ret (us, rs1)" "js_ok cfg (rs_system rs1)"
      "run_ticks (jedec_ops cfg tm) n (rs_system rs) = ret (us, rs_system rs1)" by blast
  obtain vs s where 2: "js_ClockTick cfg tm (rs_system rs1) = ret (vs, s)" "js_ok cfg s" using js_tick [OF 1(2)] by blast
  then obtain rs2 where 3: "rs_ClockTick L ec nm cfg tm rs1 = ret (vs, rs2)" "rs_system rs2 = s"
    using rs_ClockTick_system [of cfg tm rs1 L ec nm] by (auto simp: run_elims)
  have "run_ticks (jedec_ops cfg tm) (n + 1) (rs_system rs) = ret (us @ vs, s)"
    by (rule run_ticks_append [OF 1(3) run_ticks_one [OF 2(1)]])
  then show ?case using 1(1) 2(2) 3 by auto
qed simp

lemma new_Controller_stats: "new_Controller cfg i = ret c \<Longrightarrow> ct_channel_id c = i \<and> ct_stats c = new_SimpleStats"
  by (auto simp: new_Controller_def run_elims)

lemma rs_marked_new:
  assumes "new_JedecDRAMSystem cfg junk = ret s"
  shows "rs_marked cfg 0 \<lparr>rs_system = s, rs_reports = (\<lambda>_. new_Report L cfg), rs_output = out\<rparr>"
proof -
  have c: "js_controllers cfg junk = ret s" using assms by (simp add: new_JedecDRAMSystem_def split: if_splits)
  have "ct_marked i 0 (ctrls s i)" if "i \<in> set [0..channels cfg - 1]" for i
  proof -
    have "new_Controller cfg i = ret (ctrls s i)" using new_controllers_at [OF c, of i] that by (simp add: ch_in_def)
    then show ?thesis using new_Controller_stats marked_new by metis
  qed
  then show ?thesis by (simp add: rs_marked_def headers_new)
qed

end
