(* ===== verification/Report_Properties.thy ===== *)
theory Report_Properties
  imports DS_Report_Inv DS_Setup
begin

text \<open>The properties of the reports, with instances on the program's memory.\<close>

text \<open>
  C27. Reports at output level 1 or above, for a run that starts at cycle 0 and reaches the
  end of its first epoch: the run with reports is the run without them, and its files are
  complete. The file of the epochs is a bracketed list with one report per finished epoch and
  channel, in order, labelled with its channel and the number of its epoch; the final file is
  an object with one member per channel, in order, under the number of the channel.
\<close>

theorem run_reports:
  assumes "js_ok cfg (rs_system rs)" "js_clk (rs_system rs) = 0" "rs_marked cfg 0 rs" "0 < channels cfg" "1 \<le> output_level cfg"
    "epoch_period cfg = int p" "0 < p" "p \<le> n" "n < 2 ^ 64" "iter_ok L" "names_apart nm"
  shows "\<exists>ts rs' R. rs_ticks L ec nm cfg tm n rs = ret (ts, rs') \<and>
    run_ticks (jedec_ops cfg tm) n (rs_system rs) = ret (ts, rs_system rs') \<and>
    files (rs_output (rs_PrintStats L ec nm cfg rs')) (json_epoch_name nm) =
      Some (''['' @ comma_list (concat (map (\<lambda>j. map (\<lambda>i. j_dump L (j_data (R j i))) [0..channels cfg - 1]) [0..<n div p])) @
        [CHR '']'', CHR 0x0A]) \<and>
    (\<forall>j<n div p. labelled cfg (of_nat (Suc j)) (R j)) \<and>
    files (rs_output (rs_PrintStats L ec nm cfg rs')) (json_stats_name nm) =
      Some (''{'' @ comma_list (map (\<lambda>i. ''\"'' @ to_string i @ ''\":'' @
        j_dump L (j_data (rs_reports (rs_PrintStats L ec nm cfg rs') i))) [0..channels cfg - 1]) @ ''}'')"
proof -
  obtain ts rs' where r: "rs_ticks L ec nm cfg tm n rs = ret (ts, rs')"
      "run_ticks (jedec_ops cfg tm) n (rs_system rs) = ret (ts, rs_system rs')"
    using rs_ticks_total [OF assms(1)] by blast
  let ?rf = "rs_PrintStats L ec nm cfg rs'"
  obtain R where R: "files (rs_output ?rf) (json_epoch_name nm) = Some (''['' @ comma_list (epoch_entries L cfg R (n div p)) @ [CHR '']'', CHR 0x0A])"
      "\<forall>j<n div p. labelled cfg (of_nat (Suc j)) (R j)"
      "files (rs_output ?rf) (json_stats_name nm) = Some (''{'' @ comma_list (final_entries L cfg ?rf) @ ''}'')"
    using reports_of_run [OF assms(2,6-10,3,11,4) r(1) refl] by blast
  have "final_entries L cfg ?rf = map (\<lambda>i. ''\"'' @ to_string i @ ''\":'' @ j_dump L (j_data (rs_reports ?rf i))) [0..channels cfg - 1]"
    using final_entries_of_run [OF assms(2,6-10,3) r(1) refl] assms(5) by (simp add: final_entry_def)
  moreover have "epoch_entries L cfg R (n div p) = concat (map (\<lambda>j. map (\<lambda>i. j_dump L (j_data (R j i))) [0..channels cfg - 1]) [0..<n div p])"
    using assms(5) by (simp add: epoch_entries_def epoch_entry_def)
  ultimately show ?thesis using r R by (intro exI [of _ ts] exI [of _ rs'] exI [of _ R]) simp
qed

text \<open>Integers as numbers, the order of declaration, and a printer that gives the number of members.\<close>

definition int_lib :: "int report_lib" where
  "int_lib = \<lparr>d_int = (\<lambda>i. i), d_ratio = (\<lambda>n m. n div m), d_add = (+), d_sub = (-), d_mul = (*), d_div = (div), d_text = to_string,
     strtod = (\<lambda>s. None), iter = (\<lambda>xs. xs), j_dump = (\<lambda>js. to_string (int (length js)))\<rparr>"

definition int_power :: "int EnergyConfig" where
  "int_power = \<lparr>tCK = 1, act_energy_inc = 500, read_energy_inc = 300, write_energy_inc = 280, ref_energy_inc = 9000,
     refb_energy_inc = 700, act_stb_energy_inc = 40, pre_stb_energy_inc = 30, pre_pd_energy_inc = 20, sref_energy_inc = 10\<rparr>"

definition sample_names :: OutputNames where
  "sample_names = \<lparr>json_stats_name = ''dramsim3.json'', json_epoch_name = ''dramsim3epoch.json'', txt_stats_name = ''dramsim3.txt''\<rparr>"

lemma int_lib_ok: "iter_ok int_lib" "exact_lib int_lib" "names_apart sample_names"
  by (simp_all add: iter_ok_def exact_lib_def int_lib_def names_apart_def sample_names_def fun_eq_iff)

lemma hbm_output:
  assumes "new_Config HBM2_4Gb_x128 c0 = ret c"
  shows "output_level c = 1"
proof -
  have "\<exists>c. new_Config HBM2_4Gb_x128 c0 = ret c \<and> output_level c = 1"
    unfolding new_Config_def hbm_system hbm_dram run_bind_simps
    by (simp add: CalculateSize_def cdiv_def SetAddressMapping_def field_widths_def field_at_def Let_def InitTimingParams_def
        InitOtherParams_def cfg_GetInteger_def HBM2_4Gb_x128_def ini_option_def log_sizes)
  then show ?thesis using assms by auto
qed

theorem run_reports_witness:
  "\<exists>cfg s ts rs' es. new_Config HBM2_4Gb_x128 undefined = ret cfg \<and> new_JedecDRAMSystem cfg (\<lambda>_. undefined) = ret s \<and>
     rs_ticks int_lib int_power sample_names cfg (new_Timing cfg) 2500000
       \<lparr>rs_system = s, rs_reports = (\<lambda>_. new_Report int_lib cfg), rs_output = \<lparr>files = (\<lambda>_. None), stdout = []\<rparr>\<rparr> = ret (ts, rs') \<and>
     length es = 16 \<and> files (rs_output (rs_PrintStats int_lib int_power sample_names cfg rs')) ''dramsim3epoch.json'' =
       Some (''['' @ comma_list es @ [CHR '']'', CHR 0x0A])"
proof -
  obtain cfg s where c: "new_Config HBM2_4Gb_x128 undefined = ret cfg" "hbm_facts cfg"
      "new_JedecDRAMSystem cfg (\<lambda>_. undefined) = ret s" "js_ok cfg s" "js_clk s = 0"
    using hbm_memory by blast
  let ?rs = "\<lparr>rs_system = s, rs_reports = (\<lambda>_. new_Report int_lib cfg), rs_output = \<lparr>files = (\<lambda>_. None), stdout = []\<rparr>\<rparr>"
  have f: "epoch_period cfg = int 1000000" "channels cfg = 8" using c(2) by (simp_all add: hbm_facts_def)
  have m: "rs_marked cfg 0 ?rs" by (rule rs_marked_new [OF c(3)])
  have o: "1 \<le> output_level cfg" using hbm_output [OF c(1)] by simp
  have pre: "js_ok cfg (rs_system ?rs)" "js_clk (rs_system ?rs) = 0" "0 < channels cfg" using c(4,5) f(2) by simp_all
  have nums: "0 < (1000000 :: nat)" "(1000000 :: nat) \<le> 2500000" "(2500000 :: nat) < 2 ^ 64" by simp_all
  let ?es = "\<lambda>R :: nat \<Rightarrow> int \<Rightarrow> int Report. concat (map (\<lambda>j. map (\<lambda>i. j_dump int_lib (j_data (R j i))) [0..channels cfg - 1]) [0..<2500000 div 1000000 :: nat])"
  obtain ts rs' R where r: "rs_ticks int_lib int_power sample_names cfg (new_Timing cfg) 2500000 ?rs = ret (ts, rs')"
      "files (rs_output (rs_PrintStats int_lib int_power sample_names cfg rs')) (json_epoch_name sample_names) =
        Some (''['' @ comma_list (?es R) @ [CHR '']'', CHR 0x0A])"
    using run_reports [OF pre(1,2) m pre(3) o f(1) nums int_lib_ok(1,3), of int_power "new_Timing cfg"] by blast
  have "length (?es R) = 16" by (simp add: length_concat sum_list_triv comp_def f(2))
  then show ?thesis using c(1,3) r by (auto simp: sample_names_def)
qed

text \<open>
  C28. Energies add up: in exact arithmetic the total energy of the final report is the sum
  of the totals that the epochs reported and of what the unfinished epoch would report, for
  up to 2^64 counted events.
\<close>

theorem energy_accounts:
  assumes "exact_lib L" "metered L ec cfg ch m es x" "m < 2 ^ 64"
  shows "calculated (snd (rp_UpdateFinalStats L ec cfg ch x)) ''total_energy'' =
    sum_list es + calculated (snd (rp_UpdateEpochStats L ec cfg ch x)) ''total_energy''"
  by (rule final_energy_sum [OF assms])

theorem energy_accounts_witness:
  "\<exists>cfg es x. ranks cfg = 1 \<and> metered int_lib int_power cfg 0 3 es x \<and> es = [800] \<and>
     calculated (snd (rp_UpdateFinalStats int_lib int_power cfg 0 x)) ''total_energy'' = 840"
proof -
  define cfg where "cfg = (undefined :: Config)\<lparr>ranks := 1\<rparr>"
  define x1 where "x1 = (Increment ''num_read_cmds'' (Increment ''num_act_cmds'' new_SimpleStats), new_Report int_lib cfg)"
  have m1: "metered int_lib int_power cfg 0 2 [] x1"
    unfolding x1_def numeral_2_eq_2 by (intro metered.counter metered.new)
  define x2 where "x2 = rp_UpdateEpochStats int_lib int_power cfg 0 x1"
  note m2 = metered.epoch [OF m1 x2_def]
  obtain st rp where x2: "x2 = (st, rp)" by fastforce
  define x3 where "x3 = (IncrementVec ''rank_active_cycles'' 0 st, rp)"
  have m3: "metered int_lib int_power cfg 0 3 [calculated (snd x2) ''total_energy''] x3"
    using metered.vec_counter [OF m2 [unfolded x2], of "''rank_active_cycles''" 0] by (simp add: x3_def x2 numeral_3_eq_3 numeral_2_eq_2)
  have e2: "calculated (snd x2) ''total_energy'' = 800"
    unfolding x2_def epoch_energy [OF int_lib_ok(2)]
    by (simp add: x1_def energy_sum_def counted_def Increment_def new_SimpleStats_def InitHistoStat_def int_power_def cfg_def)
  have "st = UpdateEpochStats (fst x1)" using rp_epoch_stats [of int_lib int_power cfg 0 x1] x2 by (simp add: x2_def)
  then have "calculated (snd (rp_UpdateEpochStats int_lib int_power cfg 0 x3)) ''total_energy'' = 40"
    unfolding epoch_energy [OF int_lib_ok(2)]
    by (simp add: x3_def energy_sum_def counted_def IncrementVec_def UpdateEpochStats_def UpdateHistoBins_def Let_def int_power_def cfg_def)
  then have "calculated (snd (rp_UpdateFinalStats int_lib int_power cfg 0 x3)) ''total_energy'' = 840"
    using energy_accounts [OF int_lib_ok(2) m3] e2 by simp
  moreover have "ranks cfg = 1" by (simp add: cfg_def)
  ultimately show ?thesis using m3 e2 by blast
qed

text \<open>
  The final report is complete: every statistic that the constructor declares, every
  rank and every bin, is printed exactly once and has a description, and a counter is
  printed with its total over the run.
\<close>

theorem report_complete:
  assumes "iter_ok L" "same_headers (new_Report L cfg) rp" "print_pairs rp = []" "marked ch e (ch, st)"
    "rp_UpdateFinalStats L ec cfg ch (st, rp) = (st', rp')"
  shows "mset (map fst (print_pairs rp')) = mset (stat_names cfg) \<and>
    (\<forall>n\<in>set (map fst (print_pairs rp')). header_descs rp' n \<noteq> None) \<and>
    (\<forall>n\<in>set (map fst counter_stats). (n, to_string (uint (counters st n + epoch_counters st n))) \<in> set (print_pairs rp'))"
  using final_report_complete [OF assms] by blast

theorem report_complete_witness:
  "\<exists>cfg rp'. ranks cfg = 2 \<and> snd (rp_UpdateFinalStats int_lib int_power cfg 3 (Increment ''num_cycles'' new_SimpleStats, new_Report int_lib cfg)) = rp' \<and>
     (''num_cycles'', ''1'') \<in> set (print_pairs rp')"
proof -
  define cfg where "cfg = (undefined :: Config)\<lparr>ranks := 2\<rparr>"
  let ?st = "Increment ''num_cycles'' new_SimpleStats"
  obtain st' rp' where u: "rp_UpdateFinalStats int_lib int_power cfg 3 (?st, new_Report int_lib cfg) = (st', rp')" by fastforce
  have n: "''num_cycles'' \<in> set (map fst counter_stats)" by (simp add: counter_stats_def)
  have one: "to_string 1 = ''1''" by code_simp
  have p: "print_pairs (new_Report int_lib cfg) = []"
    by (simp add: new_Report_def InitStat_def InitVecStat_def InitHistoHeaders_def counter_stats_def double_stats_def
        vec_counter_stats_def vec_double_stats_def histo_stats_def calculated_stats_def Let_def)
  have "marked 3 0 (3, ?st)" using marked_new by simp
  moreover have "same_headers (new_Report int_lib cfg) (new_Report int_lib cfg)" by (simp add: same_headers_def)
  ultimately have "(''num_cycles'', to_string (uint (counters ?st ''num_cycles'' + epoch_counters ?st ''num_cycles''))) \<in> set (print_pairs rp')"
    using report_complete [OF int_lib_ok(1) _ p _ u] n by blast
  then have "(''num_cycles'', ''1'') \<in> set (print_pairs rp')"
    by (simp add: one Increment_def new_SimpleStats_def InitHistoStat_def)
  moreover have "ranks cfg = 2" by (simp add: cfg_def)
  ultimately show ?thesis using u by auto
qed

end
