(* ===== verification/DS_Drivers.thy ===== *)
theory DS_Drivers
  imports DS_System_Inv
begin

text \<open>
  The traffic generators of DRAMsim3 (\<open>DRAMsim3-master/src/cpu.h\<close>, \<open>cpu.cc\<close>) and the loop of
  its own \<open>main\<close>: random requests, a stream over six arrays, and a trace file. They run on
  any memory behind the interface \<open>MemorySystem\<close>; what they write to their trace file is
  kept as a list of lines. The Mersenne twister is any sequence of 64-bit words.
\<close>

section \<open>The base class\<close>

datatype trace_line =
    RequestLine "64 word" bool "64 word"
  | CallbackLine "64 word" bool "64 word"

record 'm CPU =
  memory_system :: 'm
  cpu_clk :: "64 word"
  trace_out_file :: "trace_line list"

text \<open>\<open>ReadCallBack\<close> and \<open>WriteCallBack\<close>, for a transaction that the memory returns.\<close>

definition CallBack :: "addr_t \<times> bool \<Rightarrow> ('m, 'a) CPU_scheme \<Rightarrow> ('m, 'a) CPU_scheme" where
  "CallBack t c = c\<lparr>trace_out_file := trace_out_file c @ [CallbackLine (fst t) (snd t) (cpu_clk c)]\<rparr>"

text \<open>\<open>memory_system_.ClockTick()\<close> with its callbacks.\<close>

definition cpu_memory_tick :: "'m MemorySystem \<Rightarrow> ('m, 'a) CPU_scheme \<Rightarrow> ('m, 'a) CPU_scheme run" where
  "cpu_memory_tick ms c =
     run_bind (ms_ClockTick ms (memory_system c)) (\<lambda>(ts, m). ret (fold CallBack ts (c\<lparr>memory_system := m\<rparr>)))"

text \<open>A request that the memory accepts is added and written to the trace.\<close>

definition cpu_offer ::
    "'m MemorySystem \<Rightarrow> addr_t \<Rightarrow> bool \<Rightarrow> ('m, 'a) CPU_scheme \<Rightarrow> (bool \<times> ('m, 'a) CPU_scheme) run" where
  "cpu_offer ms a w c =
     (if ms_WillAcceptTransaction ms a w (memory_system c)
      then run_bind (ms_AddTransaction ms a w (memory_system c)) (\<lambda>(_, m).
             ret (True, c\<lparr>memory_system := m, trace_out_file := trace_out_file c @ [RequestLine a w (cpu_clk c)]\<rparr>))
      else ret (False, c))"

section \<open>Random requests\<close>

record 'm RandomCPU = "'m CPU" +
  last_addr :: "64 word"
  last_write :: bool
  rnd_pos :: nat
  rnd_get_next :: bool

text \<open>\<open>last_addr_\<close> is not initialised.\<close>

definition new_RandomCPU :: "'m \<Rightarrow> 64 word \<Rightarrow> 'm RandomCPU" where
  "new_RandomCPU m junk =
     \<lparr>memory_system = m, cpu_clk = 0, trace_out_file = [], last_addr = junk, last_write = False, rnd_pos = 0,
      rnd_get_next = True\<rparr>"

definition RandomCPU_ClockTick :: "'m MemorySystem \<Rightarrow> (nat \<Rightarrow> 64 word) \<Rightarrow> 'm RandomCPU \<Rightarrow> 'm RandomCPU run" where
  "RandomCPU_ClockTick ms gen c =
     run_bind (cpu_memory_tick ms c) (\<lambda>c1.
     let c2 = (if rnd_get_next c1
               then c1\<lparr>last_addr := gen (rnd_pos c1), last_write := (gen (rnd_pos c1 + 1) mod 3 = 0), rnd_pos := rnd_pos c1 + 2\<rparr>
               else c1)
     in run_bind (cpu_offer ms (last_addr c2) (last_write c2) c2) (\<lambda>(taken, c3).
        ret (c3\<lparr>rnd_get_next := taken, cpu_clk := cpu_clk c3 + 1\<rparr>)))"

section \<open>A stream over six arrays\<close>

datatype array_name = ArrA | ArrB | ArrC | ArrD | ArrE | ArrF

definition all_arrays :: "array_name list" where "all_arrays = [ArrA, ArrB, ArrC, ArrD, ArrE, ArrF]"

record 'm StreamCPU = "'m CPU" +
  array_addr :: "array_name \<Rightarrow> 64 word"
  offset :: "64 word"
  inserted :: "array_name \<Rightarrow> bool"
  stream_pos :: nat

definition new_StreamCPU :: "'m \<Rightarrow> (array_name \<Rightarrow> 64 word) \<Rightarrow> 'm StreamCPU" where
  "new_StreamCPU m junk =
     \<lparr>memory_system = m, cpu_clk = 0, trace_out_file = [], array_addr = junk, offset = 0, inserted = (\<lambda>_. False),
      stream_pos = 0\<rparr>"

definition array_size :: "64 word" where "array_size = push_bit 20 2"
definition stride :: "64 word" where "stride = 64"

definition array_write :: "array_name \<Rightarrow> bool" where "array_write x \<longleftrightarrow> x = ArrC"

text \<open>Fresh base addresses, drawn in the order of the arrays.\<close>

definition stream_restart :: "(nat \<Rightarrow> 64 word) \<Rightarrow> 'm StreamCPU \<Rightarrow> 'm StreamCPU" where
  "stream_restart gen c =
     (if array_size \<le> offset c \<or> cpu_clk c = 0
      then fold (\<lambda>x c. c\<lparr>array_addr := (array_addr c)(x := gen (stream_pos c)), stream_pos := stream_pos c + 1\<rparr>)
             all_arrays c \<lparr>offset := 0\<rparr>
      else c)"

definition stream_insert :: "'m MemorySystem \<Rightarrow> array_name \<Rightarrow> 'm StreamCPU \<Rightarrow> 'm StreamCPU run" where
  "stream_insert ms x c =
     (if inserted c x then ret c
      else run_bind (cpu_offer ms (array_addr c x + offset c) (array_write x) c) (\<lambda>(taken, c1).
             ret (if taken then c1\<lparr>inserted := (inserted c1)(x := True)\<rparr> else c1)))"

definition StreamCPU_ClockTick :: "'m MemorySystem \<Rightarrow> (nat \<Rightarrow> 64 word) \<Rightarrow> 'm StreamCPU \<Rightarrow> 'm StreamCPU run" where
  "StreamCPU_ClockTick ms gen c =
     run_bind (cpu_memory_tick ms c) (\<lambda>c1.
     run_bind (for_run (stream_insert ms) all_arrays (stream_restart gen c1)) (\<lambda>c2.
     let c3 = (if \<forall>x\<in>set all_arrays. inserted c2 x
               then c2\<lparr>offset := offset c2 + stride, inserted := (\<lambda>_. False)\<rparr> else c2)
     in ret (c3\<lparr>cpu_clk := cpu_clk c3 + 1\<rparr>)))"

section \<open>A trace file\<close>

text \<open>
  The file is the list of the lines that are left; \<open>final_newline\<close> tells whether its last
  line is terminated. Only a read that runs into the end sets \<open>eof\<close>.
\<close>

record 'm TraceBasedCPU = "'m CPU" +
  trace_rest :: "(64 word \<times> string \<times> 64 word) list"
  final_newline :: bool
  trace_eof :: bool
  cur_trans :: Transaction
  tr_get_next :: bool

text \<open>A file that cannot be opened ends the program; a file is its lines and its final newline.\<close>

type_synonym trace_file = "(64 word \<times> string \<times> 64 word) list \<times> bool"

definition new_TraceBasedCPU :: "(string \<Rightarrow> trace_file option) \<Rightarrow> string \<Rightarrow> 'm \<Rightarrow> Transaction \<Rightarrow> 'm TraceBasedCPU run" where
  "new_TraceBasedCPU files name m junk =
     (case files name of
        None \<Rightarrow> raise AbruptExit
      | Some (ls, nl) \<Rightarrow>
          ret \<lparr>memory_system = m, cpu_clk = 0, trace_out_file = [], trace_rest = ls, final_newline = nl, trace_eof = False,
               cur_trans = junk, tr_get_next = True\<rparr>)"

text \<open>
  \<open>trace_file_ >> trans_\<close>: past the last line nothing is extracted, so the address and the
  cycle stay what they were and the operation is not a write.
\<close>

definition trace_read :: "'m TraceBasedCPU \<Rightarrow> 'm TraceBasedCPU" where
  "trace_read c =
     (case trace_rest c of
        [] \<Rightarrow> c\<lparr>cur_trans := (cur_trans c)\<lparr>tr_is_write := False\<rparr>, trace_eof := True\<rparr>
      | (a, op, t) # rest \<Rightarrow>
          c\<lparr>cur_trans := trace_transaction a op t (cur_trans c), trace_rest := rest,
            trace_eof := (rest = [] \<and> \<not> final_newline c)\<rparr>)"

definition TraceBasedCPU_ClockTick :: "'m MemorySystem \<Rightarrow> 'm TraceBasedCPU \<Rightarrow> 'm TraceBasedCPU run" where
  "TraceBasedCPU_ClockTick ms c =
     run_bind (cpu_memory_tick ms c) (\<lambda>c1.
     run_bind
       (if trace_eof c1 then ret c1
        else let c2 = (if tr_get_next c1 then trace_read (c1\<lparr>tr_get_next := False\<rparr>) else c1); t = cur_trans c2
             in if added_cycle t \<le> cpu_clk c2
                then (if ms_WillAcceptTransaction ms (tr_addr t) (tr_is_write t) (memory_system c2)
                      then run_bind (ms_AddTransaction ms (tr_addr t) (tr_is_write t) (memory_system c2)) (\<lambda>(_, m).
                             ret (c2\<lparr>memory_system := m, tr_get_next := True\<rparr>))
                      else ret (c2\<lparr>tr_get_next := False\<rparr>))
                else ret c2)
       (\<lambda>c3. ret (c3\<lparr>cpu_clk := cpu_clk c3 + 1\<rparr>)))"

section \<open>The loop of the main program of DRAMsim3\<close>

fun cpu_cycles :: "('c \<Rightarrow> 'c run) \<Rightarrow> nat \<Rightarrow> 'c \<Rightarrow> 'c run" where
  "cpu_cycles tick 0 c = ret c"
| "cpu_cycles tick (Suc n) c = run_bind (tick c) (cpu_cycles tick n)"

text \<open>
  The choice of the driver and the loop. \<open>junk\<close> are the members that are not initialised; the
  generators of both drivers have the default seed. The result is the memory at the end.
\<close>

definition ds_main ::
    "'m MemorySystem \<Rightarrow> 'm \<Rightarrow> (nat \<Rightarrow> 64 word) \<Rightarrow> (string \<Rightarrow> trace_file option) \<Rightarrow>
     64 word \<times> (array_name \<Rightarrow> 64 word) \<times> Transaction \<Rightarrow> string \<Rightarrow> string \<Rightarrow> nat \<Rightarrow> 'm run" where
  "ds_main ms m gen files junk trace_file stream_type cycles =
     (if trace_file \<noteq> []
      then run_bind (new_TraceBasedCPU files trace_file m (snd (snd junk))) (\<lambda>c.
           run_bind (cpu_cycles (TraceBasedCPU_ClockTick ms) cycles c) (\<lambda>c1. ret (memory_system c1)))
      else if stream_type = ''stream'' \<or> stream_type = ''s''
      then run_bind (cpu_cycles (StreamCPU_ClockTick ms gen) cycles (new_StreamCPU m (fst (snd junk)))) (\<lambda>c1. ret (memory_system c1))
      else run_bind (cpu_cycles (RandomCPU_ClockTick ms gen) cycles (new_RandomCPU m (fst junk))) (\<lambda>c1. ret (memory_system c1)))"

section \<open>Requests and callbacks\<close>

fun request_of :: "trace_line \<Rightarrow> (addr_t \<times> bool) list" where
  "request_of (RequestLine a w t) = [(a, w)]"
| "request_of (CallbackLine a w t) = []"

fun callback_of :: "trace_line \<Rightarrow> (addr_t \<times> bool) list" where
  "callback_of (RequestLine a w t) = []"
| "callback_of (CallbackLine a w t) = [(a, w)]"

definition requests :: "trace_line list \<Rightarrow> (addr_t \<times> bool) list" where
  "requests ls = concat (map request_of ls)"

definition callbacks :: "trace_line list \<Rightarrow> (addr_t \<times> bool) list" where
  "callbacks ls = concat (map callback_of ls)"

lemma log_simps [simp]:
  "requests [] = []" "callbacks [] = []" "requests (ls @ ms) = requests ls @ requests ms"
  "callbacks (ls @ ms) = callbacks ls @ callbacks ms"
  "requests [l] = request_of l" "callbacks [l] = callback_of l"
  by (simp_all add: requests_def callbacks_def)

lemma fold_CallBack:
  "fold CallBack ts c = c\<lparr>trace_out_file := trace_out_file c @ map (\<lambda>t. CallbackLine (fst t) (snd t) (cpu_clk c)) ts\<rparr>"
  by (induction ts arbitrary: c) (simp_all add: CallBack_def)

lemma callback_log [simp]:
  "requests (map (\<lambda>t. CallbackLine (fst t) (snd t) k) ts) = []"
  "callbacks (map (\<lambda>t. CallbackLine (fst t) (snd t) k) ts) = ts"
  by (induction ts) (simp_all add: requests_def callbacks_def)

text \<open>The reads and writes of a list of requests.\<close>

definition n_reads :: "(addr_t \<times> bool) list \<Rightarrow> nat" where "n_reads rs = length (filter (\<lambda>r. \<not> snd r) rs)"
definition n_writes :: "(addr_t \<times> bool) list \<Rightarrow> nat" where "n_writes rs = length (filter snd rs)"

lemma n_simps [simp]:
  "n_reads [] = 0" "n_writes [] = 0" "n_reads (rs @ ss) = n_reads rs + n_reads ss" "n_writes (rs @ ss) = n_writes rs + n_writes ss"
  "n_reads [(a, w)] = (if w then 0 else 1)" "n_writes [(a, w)] = (if w then 1 else 0)"
  by (simp_all add: n_reads_def n_writes_def)

text \<open>
  The stream takes the arrays of an element in step: one write for five reads, up to the
  accesses of the current element that are already in.
\<close>

definition read_arrays :: "array_name set" where "read_arrays = {ArrA, ArrB, ArrD, ArrE, ArrF}"

definition in_step :: "'m StreamCPU \<Rightarrow> bool" where
  "in_step c \<longleftrightarrow>
     n_reads (requests (trace_out_file c)) + (if inserted c ArrC then 5 else 0) =
     5 * n_writes (requests (trace_out_file c)) + card {x \<in> read_arrays. inserted c x}"

lemma in_step_cong:
  "requests (trace_out_file c') = requests (trace_out_file c) \<Longrightarrow> inserted c' = inserted c \<Longrightarrow> in_step c' = in_step c"
  by (simp add: in_step_def)

lemma in_step_insert:
  assumes "in_step c" "\<not> inserted c x"
  shows "in_step (c\<lparr>memory_system := m, trace_out_file := trace_out_file c @ [RequestLine a (array_write x) k],
    inserted := (inserted c)(x := True)\<rparr>)"
proof (cases "x = ArrC")
  case True
  have "{y \<in> read_arrays. ((inserted c)(x := True)) y} = {y \<in> read_arrays. inserted c y}"
    using True by (auto simp: read_arrays_def)
  then show ?thesis using assms True by (simp add: in_step_def array_write_def)
next
  case False
  then have x: "x \<in> read_arrays" by (cases x) (auto simp: read_arrays_def)
  have "{y \<in> read_arrays. ((inserted c)(x := True)) y} = insert x {y \<in> read_arrays. inserted c y}"
    using x by auto
  moreover have "finite {y \<in> read_arrays. inserted c y}" by (simp add: read_arrays_def)
  ultimately have "card {y \<in> read_arrays. ((inserted c)(x := True)) y} = Suc (card {y \<in> read_arrays. inserted c y})"
    using assms(2) by simp
  then show ?thesis using assms False by (simp add: in_step_def array_write_def)
qed

lemma in_step_next:
  assumes "in_step c" "\<forall>x\<in>set all_arrays. inserted c x"
  shows "in_step (c\<lparr>offset := o', inserted := (\<lambda>_. False)\<rparr>)"
proof -
  have "{x \<in> read_arrays. inserted c x} = read_arrays" using assms(2) by (auto simp: read_arrays_def all_arrays_def)
  moreover have "card read_arrays = 5" by (simp add: read_arrays_def)
  ultimately show ?thesis using assms by (simp add: in_step_def all_arrays_def)
qed

section \<open>The drivers as clients of a memory\<close>

context memory_core
begin

text \<open>Every request in the trace was called back once or is pending.\<close>

definition balanced :: "('m, 'a) CPU_scheme \<Rightarrow> bool" where
  "balanced c \<longleftrightarrow> ok (memory_system c) \<and>
     mset (requests (trace_out_file c)) = mset (callbacks (trace_out_file c)) + pend (memory_system c)"

lemma balanced_cong:
  "memory_system c' = memory_system c \<Longrightarrow> trace_out_file c' = trace_out_file c \<Longrightarrow> balanced c' = balanced c"
  by (simp add: balanced_def)

lemma memory_tick_ok:
  assumes "ok (memory_system c)"
  shows "\<exists>m ls. cpu_memory_tick ms c = ret (c\<lparr>memory_system := m, trace_out_file := trace_out_file c @ ls\<rparr>) \<and>
    ok m \<and> requests ls = [] \<and> (balanced c \<longrightarrow> balanced (c\<lparr>memory_system := m, trace_out_file := trace_out_file c @ ls\<rparr>))"
proof -
  obtain ts m where ts: "ms_ClockTick ms (memory_system c) = ret (ts, m)" "ok m" "pend (memory_system c) = mset ts + pend m"
    using clock_tick assms by blast
  let ?ls = "map (\<lambda>t. CallbackLine (fst t) (snd t) (cpu_clk c)) ts"
  have "cpu_memory_tick ms c = ret (c\<lparr>memory_system := m, trace_out_file := trace_out_file c @ ?ls\<rparr>)"
    using ts(1) by (simp add: cpu_memory_tick_def fold_CallBack)
  then show ?thesis using ts(2,3) by (intro exI [of _ m] exI [of _ ?ls]) (simp add: balanced_def ac_simps)
qed

lemma offer_ok:
  assumes "ok (memory_system c)"
  shows "cpu_offer ms a w c = ret (False, c) \<or>
    (\<exists>m. cpu_offer ms a w c =
        ret (True, c\<lparr>memory_system := m, trace_out_file := trace_out_file c @ [RequestLine a w (cpu_clk c)]\<rparr>) \<and> ok m \<and>
      (balanced c \<longrightarrow> balanced (c\<lparr>memory_system := m, trace_out_file := trace_out_file c @ [RequestLine a w (cpu_clk c)]\<rparr>)))"
proof (cases "ms_WillAcceptTransaction ms a w (memory_system c)")
  case True
  then obtain m where "ms_AddTransaction ms a w (memory_system c) = ret (True, m)" "ok m"
      "pend m = add_mset (a, w) (pend (memory_system c))"
    using add_trans assms by blast
  then show ?thesis using True by (intro disjI2 exI [of _ m]) (simp add: cpu_offer_def balanced_def)
qed (simp add: cpu_offer_def)

lemma random_tick:
  assumes "balanced c"
  shows "\<exists>c'. RandomCPU_ClockTick ms gen c = ret c' \<and> balanced c'"
proof -
  obtain m ls where 1: "cpu_memory_tick ms c = ret (c\<lparr>memory_system := m, trace_out_file := trace_out_file c @ ls\<rparr>)"
      "balanced (c\<lparr>memory_system := m, trace_out_file := trace_out_file c @ ls\<rparr>)"
    using memory_tick_ok [of c] assms by (auto simp: balanced_def)
  define c1 where "c1 = c\<lparr>memory_system := m, trace_out_file := trace_out_file c @ ls\<rparr>"
  define c2 where "c2 = (if rnd_get_next c1
    then c1\<lparr>last_addr := gen (rnd_pos c1), last_write := (gen (rnd_pos c1 + 1) mod 3 = 0), rnd_pos := rnd_pos c1 + 2\<rparr> else c1)"
  have c2: "balanced c2" using 1(2) balanced_cong [of c2 c1] by (simp add: c2_def c1_def)
  then obtain taken c3 where c3: "cpu_offer ms (last_addr c2) (last_write c2) c2 = ret (taken, c3)" "balanced c3"
    using offer_ok [of c2 "last_addr c2" "last_write c2"] by (auto simp: balanced_def)
  have "RandomCPU_ClockTick ms gen c = ret (c3\<lparr>rnd_get_next := taken, cpu_clk := cpu_clk c3 + 1\<rparr>)"
    unfolding RandomCPU_ClockTick_def 1(1) run_bind_simps c1_def [symmetric] Let_def c2_def [symmetric] c3(1) by simp
  then show ?thesis using c3(2) balanced_cong [of "c3\<lparr>rnd_get_next := taken, cpu_clk := cpu_clk c3 + 1\<rparr>" c3] by simp
qed

lemma stream_insert_ok:
  assumes "balanced c \<and> in_step c"
  shows "\<exists>c'. stream_insert ms x c = ret c' \<and> balanced c' \<and> in_step c'"
proof (cases "inserted c x")
  case False
  have k: "ok (memory_system c)" using assms by (simp add: balanced_def)
  consider "cpu_offer ms (array_addr c x + offset c) (array_write x) c = ret (False, c)"
    | m where "cpu_offer ms (array_addr c x + offset c) (array_write x) c =
        ret (True, c\<lparr>memory_system := m, trace_out_file := trace_out_file c @ [RequestLine (array_addr c x + offset c) (array_write x) (cpu_clk c)]\<rparr>)"
      "balanced (c\<lparr>memory_system := m, trace_out_file := trace_out_file c @ [RequestLine (array_addr c x + offset c) (array_write x) (cpu_clk c)]\<rparr>)"
    using offer_ok [OF k, of "array_addr c x + offset c" "array_write x"] assms by blast
  then show ?thesis
  proof cases
    case 2
    let ?c = "c\<lparr>memory_system := m, trace_out_file := trace_out_file c @ [RequestLine (array_addr c x + offset c) (array_write x) (cpu_clk c)],
      inserted := (inserted c)(x := True)\<rparr>"
    have "stream_insert ms x c = ret ?c" using 2(1) False by (simp add: stream_insert_def)
    moreover have "in_step ?c" using in_step_insert [OF _ False] assms by blast
    moreover have "balanced ?c" using 2(2) by (simp add: balanced_def)
    ultimately show ?thesis by blast
  qed (use assms False in \<open>simp add: stream_insert_def\<close>)
qed (use assms in \<open>simp add: stream_insert_def\<close>)

lemma stream_restart_fields:
  "memory_system (stream_restart gen c) = memory_system c" "trace_out_file (stream_restart gen c) = trace_out_file c"
  "inserted (stream_restart gen c) = inserted c"
  by (simp_all add: stream_restart_def all_arrays_def)

lemma stream_tick:
  assumes "balanced c \<and> in_step c"
  shows "\<exists>c'. StreamCPU_ClockTick ms gen c = ret c' \<and> balanced c' \<and> in_step c'"
proof -
  obtain m ls where 1: "cpu_memory_tick ms c = ret (c\<lparr>memory_system := m, trace_out_file := trace_out_file c @ ls\<rparr>)"
      "balanced (c\<lparr>memory_system := m, trace_out_file := trace_out_file c @ ls\<rparr>)" "requests ls = []"
    using memory_tick_ok [of c] assms by (auto simp: balanced_def)
  define c1 where "c1 = c\<lparr>memory_system := m, trace_out_file := trace_out_file c @ ls\<rparr>"
  let ?r = "stream_restart gen c1"
  have "in_step c1" using assms in_step_cong [of c1 c] 1(3) by (simp add: c1_def)
  then have "in_step ?r" using in_step_cong [of ?r c1] by (simp add: stream_restart_fields)
  moreover have "balanced ?r" using 1(2) balanced_cong [of ?r c1] by (simp add: stream_restart_fields c1_def)
  ultimately obtain c2 where c2: "for_run (stream_insert ms) all_arrays ?r = ret c2" "balanced c2" "in_step c2"
    using for_run_total [of "\<lambda>c. balanced c \<and> in_step c" ?r all_arrays "stream_insert ms"] stream_insert_ok by blast
  define c3 where "c3 = (if \<forall>x\<in>set all_arrays. inserted c2 x
    then c2\<lparr>offset := offset c2 + stride, inserted := (\<lambda>_. False)\<rparr> else c2)"
  have "in_step c3" using c2(3) in_step_next [OF c2(3)] by (simp add: c3_def)
  moreover have "balanced c3" using c2(2) balanced_cong [of c3 c2] by (simp add: c3_def)
  moreover have "StreamCPU_ClockTick ms gen c = ret (c3\<lparr>cpu_clk := cpu_clk c3 + 1\<rparr>)"
    unfolding StreamCPU_ClockTick_def 1(1) run_bind_simps c1_def [symmetric] c2(1) Let_def c3_def [symmetric] by simp
  ultimately show ?thesis
    using balanced_cong [of "c3\<lparr>cpu_clk := cpu_clk c3 + 1\<rparr>" c3] in_step_cong [of "c3\<lparr>cpu_clk := cpu_clk c3 + 1\<rparr>" c3] by simp
qed

lemma trace_tick:
  assumes "ok (memory_system c)"
  shows "\<exists>c'. TraceBasedCPU_ClockTick ms c = ret c' \<and> ok (memory_system c')"
proof -
  obtain m ls where 1: "cpu_memory_tick ms c = ret (c\<lparr>memory_system := m, trace_out_file := trace_out_file c @ ls\<rparr>)" "ok m"
    using memory_tick_ok [OF assms] by blast
  define c1 where "c1 = c\<lparr>memory_system := m, trace_out_file := trace_out_file c @ ls\<rparr>"
  define c2 where "c2 = (if tr_get_next c1 then trace_read (c1\<lparr>tr_get_next := False\<rparr>) else c1)"
  have m2: "memory_system c2 = m" by (simp add: c2_def c1_def trace_read_def split: list.split prod.split)
  have add: "\<exists>m'. ms_AddTransaction ms a w m = ret (True, m') \<and> ok m'" if "ms_WillAcceptTransaction ms a w m" for a w
    using add_trans [OF 1(2) that] by blast
  define t where "t = cur_trans c2"
  obtain m' where m': "ms_WillAcceptTransaction ms (tr_addr t) (tr_is_write t) m \<Longrightarrow>
      ms_AddTransaction ms (tr_addr t) (tr_is_write t) m = ret (True, m') \<and> ok m'"
    using add [of "tr_addr t" "tr_is_write t"] by blast
  show ?thesis
    unfolding TraceBasedCPU_ClockTick_def 1(1) run_bind_simps c1_def [symmetric] Let_def c2_def [symmetric] t_def [symmetric] m2
    using 1(2) m' m2
    by (cases "trace_eof c1"; cases "added_cycle t \<le> cpu_clk c2"; cases "ms_WillAcceptTransaction ms (tr_addr t) (tr_is_write t) m")
      (simp_all add: c1_def)
qed

lemma cycles_total:
  assumes "\<And>c. P c \<Longrightarrow> \<exists>c'. tick c = ret c' \<and> P c'" "P c"
  shows "\<exists>c'. cpu_cycles tick n c = ret c' \<and> P c'"
  using assms(2)
proof (induction n arbitrary: c)
  case (Suc n)
  obtain c1 where "tick c = ret c1" "P c1" using assms(1) [OF Suc.prems] by blast
  with Suc.IH show ?case by fastforce
qed simp

text \<open>Any number of cycles of any driver returns.\<close>

lemma random_cycles: "balanced c \<Longrightarrow> \<exists>c'. cpu_cycles (RandomCPU_ClockTick ms gen) n c = ret c' \<and> balanced c'"
  by (rule cycles_total [where P = balanced]) (rule random_tick)

lemma stream_cycles:
  "balanced c \<Longrightarrow> in_step c \<Longrightarrow> \<exists>c'. cpu_cycles (StreamCPU_ClockTick ms gen) n c = ret c' \<and> balanced c' \<and> in_step c'"
  using cycles_total [where P = "\<lambda>c. balanced c \<and> in_step c", of "StreamCPU_ClockTick ms gen"] stream_tick by blast

lemma trace_cycles: "ok (memory_system c) \<Longrightarrow> \<exists>c'. cpu_cycles (TraceBasedCPU_ClockTick ms) n c = ret c' \<and> ok (memory_system c')"
  by (rule cycles_total [where P = "\<lambda>c. ok (memory_system c)"]) (rule trace_tick)

text \<open>
  A trace that ends with a newline: when all its lines are read, one more tick offers the
  last address once more, as a read.
\<close>

lemma trace_end_offers:
  assumes m: "ok (memory_system c)" and c: "trace_rest c = []" "\<not> trace_eof c" "tr_get_next c" "added_cycle (cur_trans c) \<le> cpu_clk c"
    and acc: "\<And>m. ok m \<Longrightarrow> ms_WillAcceptTransaction ms (tr_addr (cur_trans c)) False m"
  shows "\<exists>ts m1 c'. ms_ClockTick ms (memory_system c) = ret (ts, m1) \<and> TraceBasedCPU_ClockTick ms c = ret c' \<and> trace_eof c' \<and>
    mset ts + pend (memory_system c') = add_mset (tr_addr (cur_trans c), False) (pend (memory_system c))"
proof -
  obtain ts m1 where ts: "ms_ClockTick ms (memory_system c) = ret (ts, m1)" "ok m1" "pend (memory_system c) = mset ts + pend m1"
    using clock_tick [OF m] by blast
  obtain m2 where m2: "ms_AddTransaction ms (tr_addr (cur_trans c)) False m1 = ret (True, m2)"
      "pend m2 = add_mset (tr_addr (cur_trans c), False) (pend m1)"
    using add_trans [OF ts(2) acc [OF ts(2)]] by blast
  show ?thesis
    using ts m2 c acc [OF ts(2)]
    by (simp add: TraceBasedCPU_ClockTick_def cpu_memory_tick_def fold_CallBack trace_read_def)
qed

text \<open>The program ends well unless the trace file that it is given cannot be opened.\<close>

lemma main_total:
  assumes m: "ok m" "pend m = {#}"
  shows "if trace_file \<noteq> [] \<and> files trace_file = None
    then ds_main ms m gen files junk trace_file stream_type n = raise AbruptExit
    else \<exists>m'. ds_main ms m gen files junk trace_file stream_type n = ret m' \<and> ok m'"
proof -
  have b: "balanced (new_StreamCPU m a)" "in_step (new_StreamCPU m a)" "balanced (new_RandomCPU m x)" for a x
    using m by (simp_all add: balanced_def new_StreamCPU_def new_RandomCPU_def in_step_def)
  have "\<exists>m'. run_bind (cpu_cycles (StreamCPU_ClockTick ms gen) n (new_StreamCPU m a)) (\<lambda>c1. ret (memory_system c1)) = ret m' \<and> ok m'" for a
    using stream_cycles [OF b(1,2), of gen n a] by (auto simp: balanced_def)
  moreover have "\<exists>m'. run_bind (cpu_cycles (RandomCPU_ClockTick ms gen) n (new_RandomCPU m x)) (\<lambda>c1. ret (memory_system c1)) = ret m' \<and> ok m'" for x
    using random_cycles [OF b(3), of gen n x] by (auto simp: balanced_def)
  moreover have "\<exists>m'. run_bind (new_TraceBasedCPU files f m t) (\<lambda>c.
      run_bind (cpu_cycles (TraceBasedCPU_ClockTick ms) n c) (\<lambda>c1. ret (memory_system c1))) = ret m' \<and> ok m'"
    if f: "files f \<noteq> None" for f t
  proof -
    obtain ls nl where "files f = Some (ls, nl)" using f by auto
    then obtain c where c: "new_TraceBasedCPU files f m t = ret c" "memory_system c = m"
      by (simp add: new_TraceBasedCPU_def)
    then have "ok (memory_system c)" using m(1) by simp
    from trace_cycles [OF this, of n] c show ?thesis by auto
  qed
  ultimately show ?thesis by (auto simp: ds_main_def new_TraceBasedCPU_def split: option.split)
qed

end

text \<open>The drivers clock the memory once in each of their cycles.\<close>

context memory_clock
begin

lemma memory_tick_clock: "cpu_memory_tick ms c = ret c' \<Longrightarrow> mclk (memory_system c') = mclk (memory_system c) + 1"
  by (auto simp: cpu_memory_tick_def run_elims fold_CallBack dest: tick_clock)

lemma offer_clock: "cpu_offer ms a w c = ret (b, c') \<Longrightarrow> mclk (memory_system c') = mclk (memory_system c)"
  by (auto simp: cpu_offer_def run_elims dest: add_clock split: if_splits)

lemma random_tick_clock:
  assumes "RandomCPU_ClockTick ms gen c = ret c'"
  shows "mclk (memory_system c') = mclk (memory_system c) + 1"
proof -
  obtain c1 where c1: "cpu_memory_tick ms c = ret c1" using assms by (auto simp: RandomCPU_ClockTick_def run_elims)
  with assms show ?thesis
    using memory_tick_clock [OF c1] by (fastforce simp: RandomCPU_ClockTick_def Let_def run_elims split: if_splits dest: offer_clock)
qed

lemma stream_insert_clock: "stream_insert ms x c = ret c' \<Longrightarrow> mclk (memory_system c') = mclk (memory_system c)"
  by (auto simp: stream_insert_def run_elims split: if_splits dest: offer_clock)

lemma stream_inserts_clock: "for_run (stream_insert ms) xs c = ret c' \<Longrightarrow> mclk (memory_system c') = mclk (memory_system c)"
proof (induction xs arbitrary: c)
  case (Cons x xs)
  then obtain c1 where "stream_insert ms x c = ret c1" "for_run (stream_insert ms) xs c1 = ret c'" by (auto simp: run_elims)
  with Cons.IH [of c1] show ?case using stream_insert_clock by auto
qed simp

lemma stream_tick_clock:
  assumes "StreamCPU_ClockTick ms gen c = ret c'"
  shows "mclk (memory_system c') = mclk (memory_system c) + 1"
proof -
  obtain c1 c2 where c: "cpu_memory_tick ms c = ret c1" "for_run (stream_insert ms) all_arrays (stream_restart gen c1) = ret c2"
      "memory_system c' = memory_system c2"
    using assms by (auto simp: StreamCPU_ClockTick_def run_elims Let_def)
  then show ?thesis using memory_tick_clock [OF c(1)] stream_inserts_clock [OF c(2)] by (simp add: stream_restart_def all_arrays_def split: if_splits)
qed

lemma trace_tick_clock:
  assumes "TraceBasedCPU_ClockTick ms c = ret c'"
  shows "mclk (memory_system c') = mclk (memory_system c) + 1"
proof -
  obtain c1 where c1: "cpu_memory_tick ms c = ret c1" using assms by (auto simp: TraceBasedCPU_ClockTick_def run_elims)
  have [simp]: "memory_system (trace_read d) = memory_system d" for d :: "'m TraceBasedCPU"
    by (auto simp: trace_read_def split: list.split)
  show ?thesis
    using assms c1 memory_tick_clock [OF c1]
    by (auto simp: TraceBasedCPU_ClockTick_def Let_def run_elims split: if_splits dest!: add_clock)
qed

lemma cycles_clock:
  assumes "\<And>c c'. tick c = ret c' \<Longrightarrow> mclk (memory_system c') = mclk (memory_system c) + 1"
  shows "cpu_cycles tick n c = ret c' \<Longrightarrow> mclk (memory_system c') = mclk (memory_system c) + of_nat n"
proof (induction n arbitrary: c)
  case (Suc n)
  then obtain c1 where "tick c = ret c1" "cpu_cycles tick n c1 = ret c'" by (auto simp: run_elims)
  with Suc.IH [of c1] assms [of c c1] show ?case by (simp add: algebra_simps)
qed simp

lemma main_clock:
  assumes "ds_main ms m gen files junk trace_file stream_type n = ret m'"
  shows "mclk m' = mclk m + of_nat n"
proof -
  have r: "cpu_cycles (RandomCPU_ClockTick ms gen) n (new_RandomCPU m a) = ret c \<Longrightarrow> mclk (memory_system c) = mclk m + of_nat n" for a c
    using cycles_clock [OF random_tick_clock, where n = n and c = "new_RandomCPU m a" and c' = c] by (simp add: new_RandomCPU_def)
  have s: "cpu_cycles (StreamCPU_ClockTick ms gen) n (new_StreamCPU m a) = ret c \<Longrightarrow> mclk (memory_system c) = mclk m + of_nat n" for a c
    using cycles_clock [OF stream_tick_clock, where n = n and c = "new_StreamCPU m a" and c' = c] by (simp add: new_StreamCPU_def)
  have t: "new_TraceBasedCPU files f m j = ret d \<Longrightarrow> cpu_cycles (TraceBasedCPU_ClockTick ms) n d = ret c \<Longrightarrow>
      mclk (memory_system c) = mclk m + of_nat n" for f j d c
    using cycles_clock [OF trace_tick_clock, where n = n and c = d and c' = c] by (auto simp: new_TraceBasedCPU_def split: option.splits)
  show ?thesis using assms r s t by (auto simp: ds_main_def run_elims split: if_splits)
qed

end

end
