(* ===== verification/DS_Properties.thy ===== *)
theory DS_Properties
  imports DS_HMC_Setup DS_Drivers
begin

text \<open>
  The properties of the HMC memory and of the traffic generators of DRAMsim3, each with an
  instance on a configuration that is shipped with it.
\<close>

section \<open>Construction\<close>

text \<open>
  C16. Suppose that the constructor of the configuration accepts a file and that its sizes are
  positive, with a burst inside a row, self refresh is off, the queue structure is per bank or
  per rank, the epoch and the refresh interval are not zero, and its protocol has what it
  needs: separate queues for a JEDEC memory, links and a logic clock for HMC. Then the memory
  system of the right kind is constructed without an abort, good and empty, and the HMC system
  has time for 2^54 cycles.
\<close>

theorem memory_starts:
  assumes "new_Config r c0 = ret cfg" "sizes_ok cfg" "\<not> enable_self_refresh cfg"
    "queue_structure cfg \<in> {''PER_BANK'', ''PER_RANK''}" "(of_int (epoch_period cfg) :: 64 word) \<noteq> 0"
    "refresh_config_ok cfg" "protocol_ok cfg"
  shows "\<exists>b. new_MemorySystem r c0 junk = ret (cfg, b) \<and> base_ok cfg b \<and> base_pend cfg b = {#} \<and>
    (case b of Jedec s \<Rightarrow> \<not> IsHMC cfg | Hmc s \<Rightarrow> IsHMC cfg \<and> hm_time (2 ^ 54) s)"
proof -
  obtain b where b: "new_MemorySystem r c0 junk = ret (cfg, b)" "base_ok cfg b" "base_pend cfg b = {#}"
      "case b of Jedec s \<Rightarrow> True | Hmc s \<Rightarrow> \<forall>k. 800 * k + 1600 < 2 ^ 64 \<longrightarrow> hm_time k s"
    using memory_system_new [OF assms(1) new_Config_system [OF assms(1-5)] assms(6,7)] by blast
  moreover have "case b of Jedec s \<Rightarrow> \<not> IsHMC cfg | Hmc s \<Rightarrow> IsHMC cfg"
    using b(1) assms(1) by (auto simp: new_MemorySystem_def run_elims split: if_splits)
  ultimately show ?thesis by (auto split: BaseDRAMSystem.splits)
qed

theorem memory_starts_witness:
  "\<forall>c0 junk. (\<exists>cfg s. new_MemorySystem HBM2_4Gb_x128 c0 junk = ret (cfg, Jedec s) \<and> js_ok cfg s) \<and>
     (\<exists>cfg s. new_MemorySystem HMC_2GB_4Lx16 c0 junk = ret (cfg, Hmc s) \<and> hm_inv cfg {#} s)"
proof (intro allI conjI)
  fix c0 junk
  obtain cfg where c: "new_Config HBM2_4Gb_x128 c0 = ret cfg" "hbm_facts cfg" using hbm_config by blast
  have "\<exists>b. new_MemorySystem HBM2_4Gb_x128 c0 junk = ret (cfg, b) \<and> base_ok cfg b \<and> base_pend cfg b = {#} \<and>
      (case b of Jedec s \<Rightarrow> \<not> IsHMC cfg | Hmc s \<Rightarrow> IsHMC cfg \<and> hm_time (2 ^ 54) s)"
    by (rule memory_starts [OF c(1) hbm_sizes [OF c(2)]])
      (use c(2) in \<open>auto simp: hbm_facts_def refresh_config_ok_def new_Refresh_def cdiv_def protocol_ok_def IsHMC_def\<close>)
  moreover have "\<not> IsHMC cfg" using c(2) by (simp add: hbm_facts_def IsHMC_def)
  ultimately obtain b where "new_MemorySystem HBM2_4Gb_x128 c0 junk = ret (cfg, b)" "base_ok cfg b"
      "case b of Jedec s \<Rightarrow> \<not> IsHMC cfg | Hmc s \<Rightarrow> IsHMC cfg \<and> hm_time (2 ^ 54) s" "\<not> IsHMC cfg" by blast
  then show "\<exists>cfg s. new_MemorySystem HBM2_4Gb_x128 c0 junk = ret (cfg, Jedec s) \<and> js_ok cfg s"
    by (cases b) (auto simp: base_ok_def)
  obtain cfg where c: "new_Config HMC_2GB_4Lx16 c0 = ret cfg" "hmc_facts cfg" using hmc_config by blast
  have "sizes_ok cfg" "IsHMC cfg" using c(2) by (simp_all add: hmc_facts_def sizes_ok_def IsHMC_def)
  moreover have "\<exists>b. new_MemorySystem HMC_2GB_4Lx16 c0 junk = ret (cfg, b) \<and> base_ok cfg b \<and> base_pend cfg b = {#} \<and>
      (case b of Jedec s \<Rightarrow> \<not> IsHMC cfg | Hmc s \<Rightarrow> IsHMC cfg \<and> hm_time (2 ^ 54) s)"
    by (rule memory_starts [OF c(1) calculation(1)])
      (use c(2) in \<open>auto simp: hmc_facts_def refresh_config_ok_def new_Refresh_def cdiv_def protocol_ok_def IsHMC_def logic_period_def\<close>)
  ultimately obtain b where "new_MemorySystem HMC_2GB_4Lx16 c0 junk = ret (cfg, b)" "base_ok cfg b"
      "case b of Jedec s \<Rightarrow> \<not> IsHMC cfg | Hmc s \<Rightarrow> IsHMC cfg \<and> hm_time (2 ^ 54) s" "IsHMC cfg" by blast
  then show "\<exists>cfg s. new_MemorySystem HMC_2GB_4Lx16 c0 junk = ret (cfg, Hmc s) \<and> hm_inv cfg {#} s"
    by (cases b) (auto simp: base_ok_def)
qed

section \<open>Conservation\<close>

text \<open>
  C3. The memory system never aborts and loses nothing: from a good state any number of
  clock cycles returns (for the HMC system as many as its picosecond counters have room for,
  the loops of logic cycles included), reaches a good state, and every transaction that was
  pending is either still pending or was returned exactly once; nothing else is returned.
\<close>

theorem memory_conserves:
  assumes "base_ok cfg b" "base_time n b"
  shows "\<exists>ts b'. run_ticks (memory_ops cfg tm) n b = ret (ts, b') \<and> base_ok cfg b' \<and>
    base_pend cfg b = mset ts + base_pend cfg b'"
  by (rule base_ticks [OF assms])

lemma hmc_one_read:
  "\<exists>cfg s s1. new_Config HMC_2GB_4Lx16 c0 = ret cfg \<and> new_HMCMemorySystem cfg junk = ret s \<and>
     hm_AddTransaction cfg 4096 False s = ret (True, s1) \<and> hm_inv cfg {#} s1 \<and> hm_pend s1 = {#(4096, False)#} \<and> hm_time 1000 s1"
proof -
  obtain cfg s where m: "new_Config HMC_2GB_4Lx16 c0 = ret cfg" "hmc_facts cfg" "new_HMCMemorySystem cfg junk = ret s"
      "hm_inv cfg {#} s" "hm_pend s = {#}" "hm_WillAcceptTransaction s" "hm_time 1000 s"
    using hmc_memory [of c0 junk] by auto
  obtain s1 where s1: "hm_AddTransaction cfg 4096 False s = ret (True, s1)" "hm_inv cfg {#} s1"
      "hm_pend s1 = {#(4096, False)#}" "hm_frame s1 = hm_frame s"
    using hm_add [OF m(4) _ m(6), of 4096 False] m(2,5) by (auto simp: hmc_facts_def)
  then show ?thesis using hm_time_frame [OF s1(4)] m by blast
qed

theorem memory_conserves_witness:
  "\<forall>c0 junk tm. (\<exists>cfg s s1 ts b'. new_Config HMC_2GB_4Lx16 c0 = ret cfg \<and> new_HMCMemorySystem cfg junk = ret s \<and>
     hm_AddTransaction cfg 4096 False s = ret (True, s1) \<and>
     run_ticks (memory_ops cfg tm) 1000 (Hmc s1) = ret (ts, b') \<and> {#(4096, False)#} = mset ts + base_pend cfg b')"
proof (intro allI)
  fix c0 junk tm
  obtain cfg s s1 where m: "new_Config HMC_2GB_4Lx16 c0 = ret cfg" "new_HMCMemorySystem cfg junk = ret s"
      "hm_AddTransaction cfg 4096 False s = ret (True, s1)" "hm_inv cfg {#} s1" "hm_pend s1 = {#(4096, False)#}" "hm_time 1000 s1"
    using hmc_one_read by blast
  have "base_ok cfg (Hmc s1)" "base_time 1000 (Hmc s1)" "base_pend cfg (Hmc s1) = {#(4096, False)#}"
    using m(4-6) by (simp_all add: base_ok_def base_time_def base_pend_def)
  with memory_conserves [of cfg "Hmc s1" 1000 tm] m(1-3)
  show "\<exists>cfg s s1 ts b'. new_Config HMC_2GB_4Lx16 c0 = ret cfg \<and> new_HMCMemorySystem cfg junk = ret s \<and>
     hm_AddTransaction cfg 4096 False s = ret (True, s1) \<and>
     run_ticks (memory_ops cfg tm) 1000 (Hmc s1) = ret (ts, b') \<and> {#(4096, False)#} = mset ts + base_pend cfg b'" by metis
qed

section \<open>The HMC memory\<close>

text \<open>
  C26. When some link of a good HMC memory has room, a transaction is taken by one of the links, the loop over
  the links ends, and exactly this transaction is added to those on their way. A block size
  for which there is no request type ends the program.
\<close>

theorem hmc_accepts:
  assumes "hm_inv cfg {#} s" "hm_WillAcceptTransaction s"
  shows "if block_size cfg \<in> {0, 32, 64, 128, 256}
    then \<exists>s'. hm_AddTransaction cfg a w s = ret (True, s') \<and> hm_inv cfg {#} s' \<and>
      hm_pend s' = add_mset (a, w) (hm_pend s) \<and> (\<forall>k. hm_time k s' = hm_time k s)
    else hm_AddTransaction cfg a w s = raise AbruptExit"
proof (cases "block_size cfg \<in> {0, 32, 64, 128, 256}")
  case True
  obtain s' where "hm_AddTransaction cfg a w s = ret (True, s')" "hm_inv cfg {#} s'"
      "hm_pend s' = add_mset (a, w) (hm_pend s)" "hm_frame s' = hm_frame s"
    using hm_add [OF assms(1) True assms(2)] by blast
  then show ?thesis unfolding if_P [OF True] using hm_time_frame by blast
qed (auto simp: hm_AddTransaction_def block_request_def)

theorem hmc_accepts_witness:
  "\<forall>c0 junk. \<exists>cfg s s1. new_Config HMC_2GB_4Lx16 c0 = ret cfg \<and> new_HMCMemorySystem cfg junk = ret s \<and>
     hm_AddTransaction cfg 64 True s = ret (True, s1) \<and> hm_pend s1 = {#(64, True)#}"
proof (intro allI)
  fix c0 junk
  obtain cfg s where m: "new_Config HMC_2GB_4Lx16 c0 = ret cfg" "hmc_facts cfg" "new_HMCMemorySystem cfg junk = ret s"
      "hm_inv cfg {#} s" "hm_pend s = {#}" "hm_WillAcceptTransaction s"
    using hmc_memory [of c0 junk] by auto
  have "block_size cfg = 64" using m(2) by (simp add: hmc_facts_def)
  with hmc_accepts [OF m(4,6), of 64 True] m
  show "\<exists>cfg s s1. new_Config HMC_2GB_4Lx16 c0 = ret cfg \<and> new_HMCMemorySystem cfg junk = ret s \<and>
     hm_AddTransaction cfg 64 True s = ret (True, s1) \<and> hm_pend s1 = {#(64, True)#}" by auto
qed

text \<open>
  The arbitration of the crossbar visits every queue with a positive age exactly once
  in a logic cycle, whatever the ages and wherever the clock lets it start.
\<close>

theorem hmc_arbitration_complete:
  assumes "0 < n"
  shows "\<exists>q. BuildAgeQueue clk n age = ret q \<and> distinct q \<and> set q = {p. 0 \<le> p \<and> p < n \<and> 0 < age p}"
  by (rule BuildAgeQueue_visits [OF assms])

theorem hmc_arbitration_complete_witness:
  "\<exists>q. BuildAgeQueue 7 4 (\<lambda>p. if p = 2 then 0 else 1) = ret q \<and> distinct q \<and> 3 \<in> set q \<and> 2 \<notin> set q"
  using hmc_arbitration_complete [of 4 7 "\<lambda>p. if p = 2 then 0 else 1"] by auto

section \<open>The traffic generators\<close>

text \<open>
  C33. The random driver on the JEDEC memory: any number of cycles returns, whatever the
  random numbers are, and every request that it wrote to its trace has one callback line in
  it or is still pending in the memory.
\<close>

theorem random_driver_answered:
  assumes "js_ok cfg (memory_system c)" "js_pend cfg (memory_system c) = {#}" "trace_out_file c = []"
  shows "\<exists>c'. cpu_cycles (RandomCPU_ClockTick (jedec_ops cfg tm) gen) n c = ret c' \<and>
    mset (requests (trace_out_file c')) = mset (callbacks (trace_out_file c')) + js_pend cfg (memory_system c')"
proof -
  have "jedec.balanced cfg c" using assms by (simp add: jedec.balanced_def)
  from jedec.random_cycles [OF this, of tm gen n] show ?thesis by (auto simp: jedec.balanced_def)
qed

theorem random_driver_answered_witness:
  "\<forall>c0 junk tm gen. \<exists>cfg s c'. new_Config HBM2_4Gb_x128 c0 = ret cfg \<and> new_JedecDRAMSystem cfg junk = ret s \<and>
     cpu_cycles (RandomCPU_ClockTick (jedec_ops cfg tm) gen) 100
       (new_RandomCPU s 0) = ret c' \<and>
     size (callbacks (trace_out_file c')) \<le> size (requests (trace_out_file c'))"
proof (intro allI)
  fix c0 junk tm and gen :: "nat \<Rightarrow> 64 word"
  obtain cfg s where m: "new_Config HBM2_4Gb_x128 c0 = ret cfg" "new_JedecDRAMSystem cfg junk = ret s" "js_ok cfg s" "js_pend cfg s = {#}"
    using hbm_memory by blast
  let ?c = "new_RandomCPU s 0"
  obtain c' where c': "cpu_cycles (RandomCPU_ClockTick (jedec_ops cfg tm) gen) 100 ?c = ret c'"
      "mset (requests (trace_out_file c')) = mset (callbacks (trace_out_file c')) + js_pend cfg (memory_system c')"
    using random_driver_answered [of cfg ?c tm gen 100] m(3,4) by (auto simp: new_RandomCPU_def)
  have "size (callbacks (trace_out_file c')) \<le> size (requests (trace_out_file c'))"
    using arg_cong [OF c'(2), of size] by simp
  with c'(1) m(1,2) show "\<exists>cfg s c'. new_Config HBM2_4Gb_x128 c0 = ret cfg \<and> new_JedecDRAMSystem cfg junk = ret s \<and>
     cpu_cycles (RandomCPU_ClockTick (jedec_ops cfg tm) gen) 100 (new_RandomCPU s 0) = ret c' \<and>
     size (callbacks (trace_out_file c')) \<le> size (requests (trace_out_file c'))" by blast
qed

text \<open>
  The stream driver keeps its arrays in step: after any number of cycles on the JEDEC
  memory it has asked for five reads per write, up to the element that is in progress, and
  every request was called back once or is pending.
\<close>

theorem stream_driver_in_step:
  assumes "js_ok cfg (memory_system c)" "js_pend cfg (memory_system c) = {#}" "trace_out_file c = []" "inserted c = (\<lambda>_. False)"
  shows "\<exists>c'. cpu_cycles (StreamCPU_ClockTick (jedec_ops cfg tm) gen) n c = ret c' \<and>
    n_reads (requests (trace_out_file c')) \<le> 5 * n_writes (requests (trace_out_file c')) + 5 \<and>
    5 * n_writes (requests (trace_out_file c')) \<le> n_reads (requests (trace_out_file c')) + 5 \<and>
    mset (requests (trace_out_file c')) = mset (callbacks (trace_out_file c')) + js_pend cfg (memory_system c')"
proof -
  have "jedec.balanced cfg c" "in_step c" using assms by (simp_all add: jedec.balanced_def in_step_def)
  from jedec.stream_cycles [OF this, of tm gen n] obtain c' where c':
      "cpu_cycles (StreamCPU_ClockTick (jedec_ops cfg tm) gen) n c = ret c'" "jedec.balanced cfg c'" "in_step c'" by blast
  have "finite read_arrays" "card read_arrays = 5" by (simp_all add: read_arrays_def)
  then have "card {x \<in> read_arrays. inserted c' x} \<le> 5" using card_mono [of read_arrays] by fastforce
  then show ?thesis using c' by (simp add: in_step_def jedec.balanced_def split: if_splits)
qed

theorem stream_driver_in_step_witness:
  "\<forall>c0 junk tm gen. \<exists>cfg s c'. new_Config HBM2_4Gb_x128 c0 = ret cfg \<and> new_JedecDRAMSystem cfg junk = ret s \<and>
     cpu_cycles (StreamCPU_ClockTick (jedec_ops cfg tm) gen) 100
       (new_StreamCPU s (\<lambda>_. 0)) = ret c' \<and>
     n_reads (requests (trace_out_file c')) \<le> 5 * n_writes (requests (trace_out_file c')) + 5"
proof (intro allI)
  fix c0 junk tm and gen :: "nat \<Rightarrow> 64 word"
  obtain cfg s where m: "new_Config HBM2_4Gb_x128 c0 = ret cfg" "new_JedecDRAMSystem cfg junk = ret s" "js_ok cfg s" "js_pend cfg s = {#}"
    using hbm_memory by blast
  let ?c = "new_StreamCPU s (\<lambda>_. 0)"
  from stream_driver_in_step [of cfg ?c tm gen 100] m
  show "\<exists>cfg s c'. new_Config HBM2_4Gb_x128 c0 = ret cfg \<and> new_JedecDRAMSystem cfg junk = ret s \<and>
     cpu_cycles (StreamCPU_ClockTick (jedec_ops cfg tm) gen) 100 (new_StreamCPU s (\<lambda>_. 0)) = ret c' \<and>
     n_reads (requests (trace_out_file c')) \<le> 5 * n_writes (requests (trace_out_file c')) + 5" by (auto simp: new_StreamCPU_def)
qed

text \<open>
  C34. The stand-alone program of DRAMsim3 on a JEDEC memory: for a configuration that is accepted
  and has positive sizes, no self refresh, separate queues per bank or per rank and a nonzero
  epoch and refresh interval, the memory is constructed, and then, for any other arguments, the
  program ends abruptly when it is given a trace file that cannot be opened, and otherwise its
  loop returns with the memory in a good state and clocked exactly as often as the number of
  cycles that was asked for.
\<close>

theorem driver_main_total:
  assumes "new_Config r c0 = ret cfg" "sizes_ok cfg" "\<not> enable_self_refresh cfg"
    "queue_structure cfg \<in> {''PER_BANK'', ''PER_RANK''}" "(of_int (epoch_period cfg) :: 64 word) \<noteq> 0"
    "refresh_config_ok cfg" "\<not> IsHMC cfg" "\<not> unified_queue cfg"
  shows "\<exists>m. new_MemorySystem r c0 mem = ret (cfg, Jedec m) \<and>
    (if trace_file \<noteq> [] \<and> files trace_file = None
     then ds_main (jedec_ops cfg tm) m gen files junk trace_file stream_type n = raise AbruptExit
     else \<exists>m'. ds_main (jedec_ops cfg tm) m gen files junk trace_file stream_type n = ret m' \<and> js_ok cfg m' \<and> js_clk m' = of_nat n)"
proof -
  obtain m where m: "new_JedecDRAMSystem cfg mem = ret m" "js_ok cfg m" "js_pend cfg m = {#}" "js_clk m = 0"
    using js_ok_new [OF new_Config_system [OF assms(1-5)] assms(6,8,7), of mem] by blast
  have "new_MemorySystem r c0 mem = ret (cfg, Jedec m)" using assms(1,7) m(1) by (simp add: new_MemorySystem_def)
  then show ?thesis
    using jedec.main_total [OF m(2,3), of trace_file files tm gen junk stream_type n] m(4)
      jedec_clock.main_clock [of cfg tm m gen files junk trace_file stream_type n]
    by (intro exI [of _ m]) (auto split: if_splits)
qed

theorem driver_main_total_witness:
  "\<forall>c0 mem tm gen j. \<exists>cfg s m'. new_MemorySystem HBM2_4Gb_x128 c0 mem = ret (cfg, Jedec s) \<and>
     ds_main (jedec_ops cfg tm) s gen [''t'' \<mapsto> ([(0, ''READ'', 0), (64, ''WRITE'', 5)], True)] j ''t'' [] 1000 = ret m' \<and> js_clk m' = 1000 \<and>
     ds_main (jedec_ops cfg tm) s gen (\<lambda>_. None) j ''t'' [] 1000 = raise AbruptExit"
proof (intro allI)
  fix c0 mem tm and gen :: "nat \<Rightarrow> 64 word" and j
  obtain cfg where c: "new_Config HBM2_4Gb_x128 c0 = ret cfg" "hbm_facts cfg" using hbm_config by blast
  have p: "\<not> enable_self_refresh cfg" "queue_structure cfg \<in> {''PER_BANK'', ''PER_RANK''}" "(of_int (epoch_period cfg) :: 64 word) \<noteq> 0"
      "refresh_config_ok cfg" "\<not> IsHMC cfg" "\<not> unified_queue cfg"
    using c(2) by (auto simp: hbm_facts_def refresh_config_ok_def new_Refresh_def cdiv_def IsHMC_def)
  note d = driver_main_total [OF c(1) hbm_sizes [OF c(2)] p, of mem "''t''" _ tm gen j "[]" 1000]
  obtain s m' where "new_MemorySystem HBM2_4Gb_x128 c0 mem = ret (cfg, Jedec s)" "js_clk m' = 1000"
      "ds_main (jedec_ops cfg tm) s gen [''t'' \<mapsto> ([(0, ''READ'', 0), (64, ''WRITE'', 5)], True)] j ''t'' [] 1000 = ret m'"
    using d [of "[''t'' \<mapsto> ([(0, ''READ'', 0), (64, ''WRITE'', 5)], True)]"] by auto
  moreover have "ds_main (jedec_ops cfg tm) s gen (\<lambda>_. None) j ''t'' [] 1000 = raise AbruptExit"
    using d [of "\<lambda>_. None"] calculation(1) by simp
  ultimately show "\<exists>cfg s m'. new_MemorySystem HBM2_4Gb_x128 c0 mem = ret (cfg, Jedec s) \<and>
     ds_main (jedec_ops cfg tm) s gen [''t'' \<mapsto> ([(0, ''READ'', 0), (64, ''WRITE'', 5)], True)] j ''t'' [] 1000 = ret m' \<and> js_clk m' = 1000 \<and>
     ds_main (jedec_ops cfg tm) s gen (\<lambda>_. None) j ''t'' [] 1000 = raise AbruptExit"
    by blast
qed

text \<open>
  The trace driver issues a transaction that is not in its file: when a file that ends
  with a newline has been read to the end and its last line was taken, the next cycle sends
  the address of this line once more, as a read (here on the ideal memory, which accepts
  everything).
\<close>

theorem trace_driver_repeats_last:
  assumes "trace_rest c = []" "\<not> trace_eof c" "tr_get_next c" "added_cycle (cur_trans c) \<le> cpu_clk c"
  shows "\<exists>c'. TraceBasedCPU_ClockTick (ideal_ops cfg) c = ret c' \<and> trace_eof c' \<and>
    mset (fst (id_ClockTick cfg (memory_system c))) + id_pend (memory_system c') =
      add_mset (tr_addr (cur_trans c), False) (id_pend (memory_system c))"
  using ideal.trace_end_offers [OF _ assms, of cfg] by (auto simp: ideal_ops_def)

theorem trace_driver_repeats_last_witness:
  "\<exists>c1 c2. cpu_cycles (TraceBasedCPU_ClockTick (ideal_ops (undefined\<lparr>ideal_memory_latency := 10\<rparr>))) 1
     \<lparr>memory_system = new_IdealDRAMSystem, cpu_clk = 0, trace_out_file = [], trace_rest = [(64, ''WRITE'', 0)],
      final_newline = True, trace_eof = False, cur_trans = mk_Transaction 0 False, tr_get_next = True\<rparr> = ret c1 \<and>
     TraceBasedCPU_ClockTick (ideal_ops (undefined\<lparr>ideal_memory_latency := 10\<rparr>)) c1 = ret c2 \<and>
     id_pend (memory_system c2) = {#(64, False), (64, True)#}"
proof -
  let ?cfg = "undefined\<lparr>ideal_memory_latency := 10\<rparr>"
  let ?c = "\<lparr>memory_system = new_IdealDRAMSystem, cpu_clk = 0, trace_out_file = [], trace_rest = [(64, ''WRITE'', 0)],
      final_newline = True, trace_eof = False, cur_trans = mk_Transaction 0 False, tr_get_next = True\<rparr>"
  obtain c1 where c1: "cpu_cycles (TraceBasedCPU_ClockTick (ideal_ops ?cfg)) 1 ?c = ret c1" "trace_rest c1 = []" "\<not> trace_eof c1"
      "tr_get_next c1" "tr_addr (cur_trans c1) = 64" "added_cycle (cur_trans c1) = 0"
      "memory_system c1 = \<lparr>id_clk = 1, infinite_buffer_q = [(mk_Transaction 64 True)\<lparr>added_cycle := 1\<rparr>]\<rparr>"
    by (simp add: TraceBasedCPU_ClockTick_def cpu_memory_tick_def ideal_ops_def id_ClockTick_def new_IdealDRAMSystem_def
        trace_read_def trace_transaction_def id_AddTransaction_def mk_Transaction_def)
  have "fst (id_ClockTick ?cfg (memory_system c1)) = []"
    by (simp add: c1(7) id_ClockTick_def id_due_def)
  with trace_driver_repeats_last [OF c1(2-4), of ?cfg] c1 show ?thesis by (auto simp: id_pend_def mk_Transaction_def)
qed

end
