(* ===== verification/Thermal_Solver.thy ===== *)
theory Thermal_Solver
  imports DS_Report
begin

text \<open>
  The thermal solver (\<open>DRAMsim3-master/src/thermal_solver.c\<close>, \<open>thermal_config.h\<close>,
  \<open>sp_ienv.c\<close>): the conductance matrix of the stack of layers, its capacitances, the explicit
  time stepping and the system of equations that is given to SuperLU for the steady state.

  A \<open>double\<close> is a value of a type with the operations \<open>+\<close>, \<open>-\<close>, \<open>*\<close>, \<open>/\<close> and \<open><\<close>, of which the
  definitions assume nothing. SuperLU's solver is a parameter. Progress messages on standard
  output are left out, and memory can always be allocated.
\<close>

section \<open>Numbers\<close>

text \<open>\<open>d_trunc\<close> is the conversion to \<open>int\<close>, which drops the fraction.\<close>

record 'd thermal_lib =
  tl_report :: "'d report_lib"
  d_trunc :: "'d \<Rightarrow> int"
  d_ceil :: "'d \<Rightarrow> 'd"
  d_sqrt :: "'d \<Rightarrow> 'd"

abbreviation num :: "'d thermal_lib \<Rightarrow> int \<Rightarrow> 'd" where "num N \<equiv> d_int (tl_report N)"
abbreviation lit :: "'d thermal_lib \<Rightarrow> int \<Rightarrow> int \<Rightarrow> 'd" where "lit N \<equiv> d_ratio (tl_report N)"

section \<open>Material constants\<close>

definition T0 :: "'d thermal_lib \<Rightarrow> 'd" where "T0 N = lit N 27315 100"
definition R_TSV :: "'d thermal_lib \<Rightarrow> 'd" where "R_TSV N = lit N 5 (10 ^ 6)"
definition Kcu :: "'d thermal_lib \<Rightarrow> 'd" where "Kcu N = lit N 401 1"
definition Khs :: "'d thermal_lib \<Rightarrow> 'd" where "Khs N = lit N 4 1"
definition Chs :: "'d thermal_lib \<Rightarrow> 'd" where "Chs N = lit N 2420000 1"
definition Hhs :: "'d thermal_lib \<Rightarrow> 'd" where "Hhs N = lit N 1000 (10 ^ 6)"
definition M_PI :: "'d thermal_lib \<Rightarrow> 'd" where "M_PI N = lit N 314159265358979323846 (10 ^ 20)"

text \<open>Silicon, copper and insulator alternate: conductance, capacitance and height of layer \<open>i\<close>.\<close>

definition layer_K :: "'d thermal_lib \<Rightarrow> int \<Rightarrow> 'd" where
  "layer_K N i = (if i mod 3 = 0 then lit N 148 1 else if i mod 3 = 1 then Kcu N else lit N 15 10)"
definition layer_C :: "'d thermal_lib \<Rightarrow> int \<Rightarrow> 'd" where
  "layer_C N i = (if i mod 3 = 0 then lit N 1660000 1 else if i mod 3 = 1 then lit N 3200000 1 else lit N 1650000 1)"
definition layer_H :: "'d thermal_lib \<Rightarrow> int \<Rightarrow> 'd" where
  "layer_H N i = (if i mod 3 = 0 then lit N 400 (10 ^ 6) else if i mod 3 = 1 then lit N 5 (10 ^ 6) else lit N 20 (10 ^ 6))"

text \<open>The dimensions that every function of the solver is given; the numbers of cells include the border.\<close>

record 'd Die =
  die_W :: 'd
  die_L :: 'd
  die_P :: int
  die_X :: int
  die_Z :: int

abbreviation numLayer :: "'d Die \<Rightarrow> int" where "numLayer d \<equiv> die_P d * 3"
abbreviation plane :: "'d Die \<Rightarrow> int" where "plane d \<equiv> die_X d * die_Z d"
abbreviation nodes :: "'d Die \<Rightarrow> int" where "nodes d \<equiv> die_X d * die_Z d * (numLayer d + 1)"

definition gridX :: "('d::{plus,minus,times,inverse,ord}) thermal_lib \<Rightarrow> 'd Die \<Rightarrow> 'd" where
  "gridX N d = die_W d / num N (die_X d)"
definition gridZ :: "('d::{plus,minus,times,inverse,ord}) thermal_lib \<Rightarrow> 'd Die \<Rightarrow> 'd" where
  "gridZ N d = die_L d / num N (die_Z d)"

section \<open>Temperatures and capacitances\<close>

definition initialize_Temperature :: "'d Die \<Rightarrow> 'd \<Rightarrow> 'd list" where
  "initialize_Temperature d Tamb = replicate (nat (nodes d)) Tamb"

definition calculate_Cap_array :: "('d::{plus,minus,times,inverse,ord}) thermal_lib \<Rightarrow> 'd Die \<Rightarrow> 'd list" where
  "calculate_Cap_array N d =
     map (\<lambda>i. if i = 0 then Chs N * Hhs N * gridX N d * gridZ N d
              else layer_C N (i - 1) * layer_H N (i - 1) * gridX N d * gridZ N d) [0..numLayer d]"

section \<open>Thermal resistances\<close>

definition Rsinkx :: "('d::{plus,minus,times,inverse,ord}) thermal_lib \<Rightarrow> 'd Die \<Rightarrow> 'd" where
  "Rsinkx N d = gridX N d / Khs N / gridZ N d / Hhs N"
definition Rsinky :: "('d::{plus,minus,times,inverse,ord}) thermal_lib \<Rightarrow> 'd Die \<Rightarrow> 'd" where
  "Rsinky N d = Hhs N / Khs N / gridX N d / gridZ N d"
definition Rsinkz :: "('d::{plus,minus,times,inverse,ord}) thermal_lib \<Rightarrow> 'd Die \<Rightarrow> 'd" where
  "Rsinkz N d = gridZ N d / Khs N / gridX N d / Hhs N"
definition Ramb :: "('d::{plus,minus,times,inverse,ord}) thermal_lib \<Rightarrow> 'd Die \<Rightarrow> 'd" where
  "Ramb N d = Rsinky N d / num N 2"

text \<open>
  The tier whose through-silicon vias cross a layer, and their number in a cell, which the source
  sets to 0. The resistance of the vias of a cell is then a division by zero: infinite in
  floating point, with the inverse 0, which is also what the inverse gives in a field of HOL.
\<close>

definition mapTSV :: "'d Die \<Rightarrow> int \<Rightarrow> int" where
  "mapTSV d i =
     (if i = numLayer d - 2 then die_P d - 1
      else if i = 0 \<or> i = numLayer d - 1 then 0 else (i - 1) div 3 + 1)"

definition TSV :: "int \<Rightarrow> int \<Rightarrow> int \<Rightarrow> int" where
  "TSV i j k = 0"

definition Rvert :: "('d::{plus,minus,times,inverse,ord}) thermal_lib \<Rightarrow> 'd Die \<Rightarrow> int \<Rightarrow> int \<Rightarrow> int \<Rightarrow> 'd" where
  "Rvert N d i j k =
     (if k = 0 then Rsinky N d
      else let l = k - 1; tier = mapTSV d l; H = layer_H N l; K = layer_K N l; A = gridX N d * gridZ N d;
               vias = M_PI N * R_TSV N * R_TSV N * num N (TSV i j (tier - 1))
           in if tier \<noteq> 0
              then num N 1 / (num N 1 / (H / K / (A - vias)) + num N 1 / (H / Kcu N / vias))
              else H / K / A)"

definition Rhori :: "('d::{plus,minus,times,inverse,ord}) thermal_lib \<Rightarrow> 'd Die \<Rightarrow> int \<Rightarrow> 'd \<times> 'd" where
  "Rhori N d i =
     (if i = 0 then (Rsinkx N d, Rsinkz N d)
      else (gridX N d / layer_K N (i - 1) / gridZ N d / layer_H N (i - 1) * num N 10,
            gridZ N d / layer_K N (i - 1) / gridZ N d / layer_H N (i - 1) * num N 10))"

section \<open>The conductance matrix\<close>

text \<open>An entry is a row, a column and a value, all three stored as \<open>double\<close>.\<close>

type_synonym 'd entry = "'d \<times> 'd \<times> 'd"

definition node :: "'d Die \<Rightarrow> int \<Rightarrow> int \<Rightarrow> int \<Rightarrow> int" where
  "node d l j i = l * die_X d * die_Z d + j * die_X d + i"

definition midx_count :: "'d Die \<Rightarrow> int" where
  "midx_count d =
     fold (\<lambda>l. fold (\<lambda>i. fold (\<lambda>j c.
        c + (if i - 1 \<ge> 0 then 1 else 0) + (if i + 1 < die_X d then 1 else 0) +
            (if j - 1 \<ge> 0 then 1 else 0) + (if j + 1 < die_Z d then 1 else 0) +
            (if l < numLayer d then 1 else 0) + (if l > 0 then 1 else 0))
        [0..die_Z d - 1]) [0..die_X d - 1]) [0..numLayer d] 0 + nodes d"

text \<open>The neighbours of a node in the order in which they are written.\<close>

definition off_diagonal ::
    "('d::{plus,minus,times,inverse,ord}) thermal_lib \<Rightarrow> 'd Die \<Rightarrow> int \<Rightarrow> int \<Rightarrow> int \<Rightarrow> 'd entry list" where
  "off_diagonal N d l j i =
     (let r = num N (node d l j i); e = (\<lambda>c v. (r, num N c, num N (- 1) / v)); two = num N 2
      in (if l > 0 then [e (node d (l - 1) j i) (Rvert N d i j l / two + Rvert N d i j (l - 1) / two)] else []) @
         (if j - 1 \<ge> 0 then [e (node d l (j - 1) i) (snd (Rhori N d l))] else []) @
         (if i - 1 \<ge> 0 then [e (node d l j i - 1) (fst (Rhori N d l))] else []) @
         (if i + 1 < die_X d then [e (node d l j i + 1) (fst (Rhori N d l))] else []) @
         (if j + 1 < die_Z d then [e (node d l (j + 1) i) (snd (Rhori N d l))] else []) @
         (if l < numLayer d then [e (node d (l + 1) j i) (Rvert N d i j l / two + Rvert N d i j (l + 1) / two)] else []))"

definition diagonal ::
    "('d::{plus,minus,times,inverse,ord}) thermal_lib \<Rightarrow> 'd Die \<Rightarrow> int \<Rightarrow> int \<Rightarrow> int \<Rightarrow> 'd entry" where
  "diagonal N d l j i =
     (let r = num N (node d l j i);
          v = fold (\<lambda>(_, _, g) acc. acc - g) (off_diagonal N d l j i) (num N 0)
      in (r, r, if r < num N (plane d) then v + num N 1 / Ramb N d else v))"

text \<open>The last entry of a row is swapped towards the front, over those with a larger column.\<close>

fun bubble_back :: "('d::{plus,minus,times,inverse,ord}) entry \<Rightarrow> 'd entry list \<Rightarrow> 'd entry list" where
  "bubble_back e [] = [e]"
| "bubble_back e (x # xs) = (if fst (snd e) < fst (snd x) then x # bubble_back e xs else e # x # xs)"

definition midx_row ::
    "('d::{plus,minus,times,inverse,ord}) thermal_lib \<Rightarrow> 'd Die \<Rightarrow> int \<Rightarrow> int \<Rightarrow> int \<Rightarrow> 'd entry list" where
  "midx_row N d l j i = rev (bubble_back (diagonal N d l j i) (rev (off_diagonal N d l j i)))"

text \<open>The nodes in the order of the loops, and the entries written for them.\<close>

definition die_nodes :: "'d Die \<Rightarrow> (int \<times> int \<times> int) list" where
  "die_nodes d = [(l, j, i). l \<leftarrow> [0..numLayer d], j \<leftarrow> [0..die_Z d - 1], i \<leftarrow> [0..die_X d - 1]]"

definition midx_entries :: "('d::{plus,minus,times,inverse,ord}) thermal_lib \<Rightarrow> 'd Die \<Rightarrow> 'd entry list" where
  "midx_entries N d = concat (map (\<lambda>(l, j, i). midx_row N d l j i) (die_nodes d))"

text \<open>The array has room for the counted entries and is filled with zeros before.\<close>

definition calculate_Midx_array ::
    "('d::{plus,minus,times,inverse,ord}) thermal_lib \<Rightarrow> 'd Die \<Rightarrow> 'd entry list run" where
  "calculate_Midx_array N d =
     (let es = midx_entries N d; n = nat (midx_count d)
      in checked (length es \<le> n) (ret (es @ replicate (n - length es) (num N 0, num N 0, num N 0))))"

section \<open>The steady state\<close>

definition layerP :: "int \<Rightarrow> int" where "layerP l = l * 3"

text \<open>The power of the cells, \<open>powerM[i][j][l]\<close>.\<close>

type_synonym 'd power = "'d list list list"

definition power_at :: "'d power \<Rightarrow> int \<Rightarrow> int \<Rightarrow> int \<Rightarrow> 'd" where
  "power_at pm i j l = pm ! nat i ! nat j ! nat l"

definition store :: "int \<Rightarrow> 'a \<Rightarrow> 'a list \<Rightarrow> 'a list run" where
  "store k v xs = checked (0 \<le> k \<and> k < int (length xs)) (ret (xs[nat k := v]))"

text \<open>The start of every row in the list of entries; \<open>None\<close> is a cell that was not written.\<close>

definition row_starts ::
    "('d::{plus,minus,times,inverse,ord}) thermal_lib \<Rightarrow> 'd Die \<Rightarrow> 'd entry list \<Rightarrow> int option list run" where
  "row_starts N d es =
     run_bind (for_run (\<lambda>i (row, xa).
         let r = fst (es ! i)
         in if num N row < r
            then run_bind (store (d_trunc N r) (Some (int i)) xa) (\<lambda>xa'. ret (d_trunc N r, xa'))
            else ret (row, xa)) [0..<length es] (- 1, replicate (nat (nodes d + 1)) None)) (\<lambda>(row, xa).
     store (row + 1) (Some (int (length es))) xa)"

definition ambient_rhs :: "('d::{plus,minus,times,inverse,ord}) thermal_lib \<Rightarrow> 'd Die \<Rightarrow> 'd \<Rightarrow> 'd list run" where
  "ambient_rhs N d Tamb =
     for_run (\<lambda>i. store i (Tamb / Ramb N d)) [0..plane d - 1] (replicate (nat (nodes d)) (num N 0))"

definition steady_rhs ::
    "('d::{plus,minus,times,inverse,ord}) thermal_lib \<Rightarrow> 'd Die \<Rightarrow> 'd power \<Rightarrow> 'd \<Rightarrow> 'd list run" where
  "steady_rhs N d pm Tamb =
     run_bind (ambient_rhs N d Tamb)
       (for_run (\<lambda>l. for_run (\<lambda>i. for_run (\<lambda>j.
          store (plane d * (layerP l + 1) + j * die_X d + i) (power_at pm i j l))
          [0..die_Z d - 1]) [0..die_X d - 1]) [0..die_P d - 1])"

text \<open>
  \<open>pdgssv n a asub xa rhs\<close> is SuperLU's solution of the system whose matrix is given by
  compressed columns; the program gives it the rows.
\<close>

type_synonym 'd linear_solver = "nat \<Rightarrow> 'd list \<Rightarrow> int list \<Rightarrow> int list \<Rightarrow> 'd list \<Rightarrow> 'd list"

text \<open>The values, their columns, the starts of the rows and the right-hand side.\<close>

definition steady_system ::
    "('d::{plus,minus,times,inverse,ord}) thermal_lib \<Rightarrow> 'd Die \<Rightarrow> 'd power \<Rightarrow> 'd entry list \<Rightarrow> 'd \<Rightarrow>
     ('d list \<times> int list \<times> int list \<times> 'd list) run" where
  "steady_system N d pm Midx Tamb =
     run_bind (row_starts N d Midx) (\<lambda>xa.
     run_bind (steady_rhs N d pm Tamb) (\<lambda>rhs.
     checked (None \<notin> set xa)
       (ret (map (\<lambda>(_, _, g). g) Midx, map (\<lambda>(_, c, _). d_trunc N c) Midx, map the xa, rhs))))"

definition steady_thermal_solver ::
    "('d::{plus,minus,times,inverse,ord}) thermal_lib \<Rightarrow> 'd linear_solver \<Rightarrow> 'd Die \<Rightarrow> 'd power \<Rightarrow> 'd entry list \<Rightarrow> 'd \<Rightarrow> 'd list run" where
  "steady_thermal_solver N pdgssv d pm Midx Tamb =
     run_bind (steady_system N d pm Midx Tamb) (\<lambda>(a, asub, xa, rhs).
     ret (map (\<lambda>t. t - T0 N) (pdgssv (nat (nodes d)) a asub xa rhs)))"

section \<open>The transient solver\<close>

definition transient_rhs ::
    "('d::{plus,minus,times,inverse,ord}) thermal_lib \<Rightarrow> 'd Die \<Rightarrow> 'd power \<Rightarrow> 'd \<Rightarrow> 'd list run" where
  "transient_rhs N d pm Tamb =
     run_bind (ambient_rhs N d Tamb)
       (for_run (\<lambda>l. for_run (\<lambda>j. for_run (\<lambda>i.
          store (plane d * (layerP l + 1) + i * die_Z d + j) (power_at pm i j l))
          [0..die_X d - 1]) [0..die_Z d - 1]) [0..die_P d - 1])"

definition idx_of :: "('d::{plus,minus,times,inverse,ord}) thermal_lib \<Rightarrow> 'd \<Rightarrow> int" where
  "idx_of N x = d_trunc N (x + lit N 1 100)"

text \<open>The contribution of one entry to the new temperatures \<open>T\<close>, from the old ones \<open>Tp\<close>.\<close>

definition apply_entry ::
    "('d::{plus,minus,times,inverse,ord}) thermal_lib \<Rightarrow> 'd Die \<Rightarrow> 'd list \<Rightarrow> 'd \<Rightarrow> 'd list \<Rightarrow> 'd list \<Rightarrow> 'd entry \<Rightarrow> 'd list \<Rightarrow> 'd list run" where
  "apply_entry N d Cap dt P Tp e T =
     (let idx0 = idx_of N (fst e); idx1 = idx_of N (fst (snd e)); tmp_c = snd (snd e); n = int (length T)
      in run_bind (cdiv idx0 (plane d)) (\<lambda>idxC.
         checked (0 \<le> idx0 \<and> idx0 < n \<and> 0 \<le> idx1 \<and> idx1 < n \<and> 0 \<le> idxC \<and> idxC < int (length Cap))
           (let C = Cap ! nat idxC; old = T ! nat idx0; t1 = Tp ! nat idx1
            in if idx0 = idx1
               then store idx0 (old + ((num N 1 - tmp_c * dt / C) * t1 + P ! nat idx0 * dt / C)) T
               else store idx0 (old - tmp_c * t1 * dt / C) T)))"

text \<open>The entries are visited in blocks of eight.\<close>

function run_blocks :: "('e \<Rightarrow> 's \<Rightarrow> 's run) \<Rightarrow> 'e list \<Rightarrow> nat \<Rightarrow> 's \<Rightarrow> 's run" where
  "run_blocks f es j s =
     (if j < length es
      then let bound = (if j + 8 < length es then j + 8 else length es)
           in run_bind (for_run (\<lambda>b. f (es ! b)) [j..<bound] s) (run_blocks f es (j + 8))
      else ret s)"
  by auto
termination by (relation "measure (\<lambda>(f, es, j, s). length es - j)") auto

declare run_blocks.simps [simp del]

text \<open>Every iteration starts from zeros and swaps the two arrays.\<close>

definition transient_step ::
    "('d::{plus,minus,times,inverse,ord}) thermal_lib \<Rightarrow> 'd Die \<Rightarrow> 'd entry list \<Rightarrow> 'd list \<Rightarrow> 'd \<Rightarrow> 'd list \<Rightarrow> 'd list \<Rightarrow> 'd list run" where
  "transient_step N d Midx Cap dt P Tp =
     run_blocks (apply_entry N d Cap dt P Tp) Midx 0 (replicate (nat (nodes d)) (num N 0))"

definition transient_thermal_solver ::
    "('d::{plus,minus,times,inverse,ord}) thermal_lib \<Rightarrow> 'd Die \<Rightarrow> 'd power \<Rightarrow> 'd entry list \<Rightarrow> 'd list \<Rightarrow> 'd \<Rightarrow> int \<Rightarrow> 'd list \<Rightarrow> 'd \<Rightarrow> 'd list run" where
  "transient_thermal_solver N d pm Midx Cap time iters T_trans Tamb =
     run_bind (transient_rhs N d pm Tamb) (\<lambda>P.
     for_run (\<lambda>_. transient_step N d Midx Cap (time / num N iters) P) [0..iters - 1] T_trans)"

definition get_maxT :: "('d::{plus,minus,times,inverse,ord}) thermal_lib \<Rightarrow> 'd list \<Rightarrow> 'd" where
  "get_maxT N T = foldl (\<lambda>m t. if m < t then t else m) (num N 0) T"

section \<open>The parameters of SuperLU\<close>

datatype Machine = SGI | ORIGIN | DEC | CRAY_PVP | SUN | OTHER_MACH

text \<open>An invalid argument is reported and gives 0.\<close>

definition sp_ienv :: "Machine \<Rightarrow> int \<Rightarrow> int" where
  "sp_ienv mach ispec =
     (let tuned = (case mach of
          SGI \<Rightarrow> [20, 6, 100, 800, 100] | ORIGIN \<Rightarrow> [12, 6, 100, 400, 100] | DEC \<Rightarrow> [16, 6, 50, 100, 40]
        | CRAY_PVP \<Rightarrow> [1, 6, 64, 400, 200] | SUN \<Rightarrow> [8, 6, 100, 400, 40] | OTHER_MACH \<Rightarrow> [8, 1, 200, 200, 40])
      in if 1 \<le> ispec \<and> ispec \<le> 5 then tuned ! nat (ispec - 1)
         else if ispec = 6 then - 20 else if ispec = 7 \<or> ispec = 8 then - 1000000 else 0)"

end
