(* ===== verification/Thermal.thy ===== *)
theory Thermal
  imports Thermal_Solver
begin

unbundle bit_operations_syntax

text \<open>
  The thermal calculator (\<open>DRAMsim3-master/src/thermal.cc\<close>, \<open>thermal.h\<close> and the thermal part
  of \<open>configuration.cc\<close>): the floorplan of the banks, the place of every command on it, the
  maps of the energy that is spent, and the temperatures that the solver finds for them.
\<close>

section \<open>The parameters\<close>

record 'd ThermalConfig =
  const_logic_power :: 'd
  mat_dim_x :: int
  mat_dim_y :: int
  num_x_grids :: int
  num_y_grids :: int
  tile_row_num :: int
  row_tile :: int
  bank_asr :: 'd
  loc_mapping :: string
  bank_order :: int
  bank_layer_order :: int
  num_row_refresh :: int
  chip_dim_x :: 'd
  chip_dim_y :: 'd
  amb_temp :: 'd

text \<open>The tiles of a row are doubled while the bank is more than four times as long as wide.\<close>

partial_function (option) tile_rows :: "('d::{plus,minus,times,inverse,ord}) thermal_lib \<Rightarrow> 'd \<Rightarrow> int \<Rightarrow> int run" where
  "tile_rows N asr t = (if num N (t * t * 4) < asr then tile_rows N asr (t * 2) else ret t)"

text \<open>When the rows are tiled, the members of the other branch keep the contents \<open>tc\<close> of the memory.\<close>

definition InitThermalParams ::
    "('d::{plus,minus,times,inverse,ord}) thermal_lib \<Rightarrow> INIReader \<Rightarrow> Config \<Rightarrow> 'd EnergyConfig \<Rightarrow> 'd ThermalConfig \<Rightarrow> 'd ThermalConfig run" where
  "InitThermalParams N r c ec tc =
     (let g = cfg_GetInteger r ''thermal''; real = GetReal (tl_report N) r ''thermal'';
          mx = g ''mat_dim_x'' 512; my = g ''mat_dim_y'' 512
      in run_bind (cdiv (rows c) mx) (\<lambda>nx.
         run_bind (cdiv (columns c * device_width c) my) (\<lambda>ny.
         let asr = num N nx / num N ny;
             tc1 = tc\<lparr>const_logic_power := real ''const_logic_power'' (num N 5), mat_dim_x := mx, mat_dim_y := my,
                     num_x_grids := nx, tile_row_num := rows c, num_y_grids := ny, bank_asr := asr, row_tile := 1\<rparr>
         in if num N 4 < asr \<and> banks_per_group c = 1
            then run_bind (tile_rows N asr 1) (\<lambda>t.
                 run_bind (cdiv nx t) (\<lambda>nx'.
                 run_bind (cdiv (rows c) t) (\<lambda>trn.
                 ret (tc1\<lparr>row_tile := t, num_x_grids := nx', tile_row_num := trn, num_y_grids := ny * t,
                          bank_asr := num N nx' / num N (ny * t)\<rparr>))))
            else ret (tc1\<lparr>loc_mapping := rd_Get r ''thermal'' ''loc_mapping'' [],
                          bank_order := g ''bank_order'' 1, bank_layer_order := g ''bank_layer_order'' 0,
                          num_row_refresh :=
                            d_trunc N (d_ceil N (num N (rows c) / (num N 64 * lit N 1000000 1 / (num N (tREFI c) * tCK ec)))),
                          chip_dim_x := real ''chip_dim_x'' (lit N 1 100), chip_dim_y := real ''chip_dim_y'' (lit N 1 100),
                          amb_temp := real ''amb_temp'' (num N 40)\<rparr>))))"

section \<open>The state\<close>

text \<open>An output file: what is written to a stream that is not open is lost.\<close>

record Csv =
  csv_open :: bool
  csv_text :: string

definition csv_write :: "string \<Rightarrow> Csv \<Rightarrow> Csv" where
  "csv_write s f = (if csv_open f then f\<lparr>csv_text := csv_text f @ s\<rparr> else f)"

definition csv_close :: "Csv \<Rightarrow> Csv" where
  "csv_close f = f\<lparr>csv_open := False\<rparr>"

record 'd Thermal =
  numP :: int
  dimX :: int
  dimY :: int
  vault_x :: int
  vault_y :: int
  bank_x :: int
  bank_y :: int
  num_case :: int
  Tamb :: 'd
  T_size :: int
  th_Midx :: "'d entry list"
  th_Cap :: "'d list"
  time_iter :: int
  T_trans :: "'d list list"
  T_final :: "'d list list"
  accu_Pmap :: "'d list list"
  cur_Pmap :: "'d list list"
  refresh_count :: "int list list"
  background_energy :: "'d list list"
  avg_logic_power :: 'd
  sample_id :: int
  phy_pos :: "int list list option"
  final_csv :: Csv
  bank_csv :: Csv
  max_csv :: Csv
  epoch_csv :: Csv

abbreviation (input) num_dummy :: int where "num_dummy \<equiv> 2"

definition th_die :: "'d ThermalConfig \<Rightarrow> 'd Thermal \<Rightarrow> 'd Die" where
  "th_die tc th = \<lparr>die_W = chip_dim_x tc, die_L = chip_dim_y tc, die_P = numP th,
     die_X = dimX th + num_dummy, die_Z = dimY th + num_dummy\<rparr>"

section \<open>The floorplan\<close>

definition crem :: "int \<Rightarrow> int \<Rightarrow> int run" where
  "crem a b = (if b = 0 then raise DivideByZero else ret (sgn a * (\<bar>a\<bar> mod \<bar>b\<bar>)))"

definition square_array :: "('d::{plus,minus,times,inverse,ord}) thermal_lib \<Rightarrow> int \<Rightarrow> int" where
  "square_array N n =
     fold (\<lambda>x x_re. if x * (n div x) = n then x else x_re) (takeWhile (\<lambda>x. num N x \<le> d_sqrt N (num N n)) [1..n]) 1"

text \<open>The factorisation of the number of blocks whose floorplan is closest to a square.\<close>

definition aspect :: "('d::{plus,minus,times,inverse,ord}) thermal_lib \<Rightarrow> 'd \<Rightarrow> 'd \<Rightarrow> int \<Rightarrow> int \<Rightarrow> 'd" where
  "aspect N xd yd x y =
     (if num N y * yd \<le> num N x * xd then num N x * xd / num N y / yd else num N y * yd / num N x / xd)"

definition determineXY :: "('d::{plus,minus,times,inverse,ord}) thermal_lib \<Rightarrow> 'd \<Rightarrow> 'd \<Rightarrow> int \<Rightarrow> int" where
  "determineXY N xd yd n =
     fst (fold (\<lambda>y (x_re, asr_re).
       let x = n div y; asr = aspect N xd yd x y
       in if x * y = n \<and> asr < asr_re then (x, asr) else (x_re, asr_re)) [1..n] (1, num N 1000))"

definition swap_if :: "bool \<Rightarrow> int \<times> int \<Rightarrow> int \<times> int" where
  "swap_if b p = (if b then (snd p, fst p) else p)"

definition MapToVault :: "Config \<Rightarrow> 'd ThermalConfig \<Rightarrow> 'd Thermal \<Rightarrow> int \<Rightarrow> (int \<times> int) run" where
  "MapToVault c tc th channel_id =
     (if IsHMC c
      then let vault_factor = (if bank_order tc = 0 then vault_x th else vault_y th)
           in run_bind (cdiv channel_id vault_factor) (\<lambda>q. run_bind (crem channel_id vault_factor) (\<lambda>r.
              ret (swap_if (bank_order tc = 0) (q, r))))
      else if IsHBM c then run_bind (crem channel_id 2) (\<lambda>r. ret (0, r))
      else ret (0, 0))"

definition MapToBank :: "Config \<Rightarrow> 'd ThermalConfig \<Rightarrow> 'd Thermal \<Rightarrow> int \<Rightarrow> int \<Rightarrow> (int \<times> int) run" where
  "MapToBank c tc th bankgroup_id bank_id =
     (let abs_bank_id = bankgroup_id * banks_per_group c + bank_id;
          bank_factor = (if bank_order tc \<noteq> 0 then bank_y th else bank_x th);
          sw = swap_if (bank_order tc = 0)
      in if IsHMC c
         then run_bind (cdiv (banks c) (num_dies c)) (\<lambda>num_bank_per_layer.
              run_bind (crem abs_bank_id num_bank_per_layer) (\<lambda>bank_same_layer.
              run_bind (cdiv bank_same_layer bank_factor) (\<lambda>q. run_bind (crem bank_same_layer bank_factor) (\<lambda>r.
              ret (sw (q, r))))))
         else if IsHBM c
         then run_bind (cdiv bank_id 2) (\<lambda>q. run_bind (crem bank_id 2) (\<lambda>r. ret (bankgroup_id * 2 + q, r)))
         else if bankgroups c > 1
         then run_bind (cdiv bank_id 2) (\<lambda>q. run_bind (crem bank_id 2) (\<lambda>r.
              let (x, y) = sw (q, r)
              in ret (if bank_x th \<le> bank_y th then (x, y + bankgroup_id * 2) else (x + bankgroup_id * 2, y))))
         else run_bind (cdiv abs_bank_id bank_factor) (\<lambda>q. run_bind (crem abs_bank_id bank_factor) (\<lambda>r. ret (sw (q, r)))))"

definition MapToZ :: "Config \<Rightarrow> 'd ThermalConfig \<Rightarrow> 'd Thermal \<Rightarrow> int \<Rightarrow> int \<Rightarrow> int run" where
  "MapToZ c tc th channel_id bank_id =
     (if IsHMC c
      then run_bind (cdiv (banks c) (num_dies c)) (\<lambda>num_bank_per_layer.
           run_bind (cdiv bank_id num_bank_per_layer) (\<lambda>q.
           ret (if bank_layer_order tc = 0 then q else numP th - q - 2)))
      else if IsHBM c then cdiv channel_id 2
      else ret 0)"

section \<open>The location mapping\<close>

definition stoi_run :: "string \<Rightarrow> int run" where
  "stoi_run s = (case stoi s of None \<Rightarrow> raise (RuntimeError ''stoi'') | Some i \<Rightarrow> ret i)"

text \<open>A piece of a field is a position or a range of positions, in either direction.\<close>

definition bit_positions :: "string \<Rightarrow> int list run" where
  "bit_positions s =
     (if CHR '':'' \<notin> set s then run_bind (stoi_run s) (\<lambda>p. ret [p])
      else let a = takeWhile (\<lambda>ch. ch \<noteq> CHR '':'') s
           in run_bind (stoi_run a) (\<lambda>start_pos. run_bind (stoi_run (drop (Suc (length a)) s)) (\<lambda>end_pos.
              ret (if start_pos > end_pos then rev [end_pos..start_pos] else [start_pos..end_pos]))))"

definition field_bits :: "string \<Rightarrow> int list run" where
  "field_bits f = for_run (\<lambda>s ps. run_bind (bit_positions s) (\<lambda>qs. ret (ps @ qs))) (StringSplit (CHR ''-'') f) []"

definition SetPhyAddressMapping :: "string \<Rightarrow> int list list option run" where
  "SetPhyAddressMapping mapping_string =
     (if mapping_string = [] then ret None
      else let bit_fields = StringSplit (CHR '','') mapping_string
           in if length bit_fields \<noteq> 6 then raise AbruptExit
              else run_bind (for_run (\<lambda>f pos. run_bind (field_bits f) (\<lambda>bs. ret (pos @ [bs]))) bit_fields []) (\<lambda>pos. ret (Some pos)))"

text \<open>The bits of a field, most significant first, at their positions; a position is below 64.\<close>

definition place_field :: "int \<Rightarrow> int list \<Rightarrow> 64 word \<Rightarrow> 64 word" where
  "place_field origin pos hex =
     fold (\<lambda>j h. h OR push_bit (nat (pos ! j)) (word_of_int (GetBitInPos (word_of_int origin) (length pos - j - 1))))
       [0..<length pos] hex"

fun take_fields :: "64 word \<Rightarrow> int list list \<Rightarrow> nat \<Rightarrow> int list" where
  "take_fields hex [] pos = []"
| "take_fields hex (p # ps) pos = sint (ModuloWidth hex (length p) pos) # take_fields hex ps (pos + length p)"

definition GetPhyAddress :: "Config \<Rightarrow> int list list option \<Rightarrow> Address \<Rightarrow> Address" where
  "GetPhyAddress c mapping addr =
     (case mapping of
        None \<Rightarrow> addr
      | Some mapped_pos \<Rightarrow>
          let origin_pos = [ad_channel addr, ad_rank addr, ad_bankgroup addr, ad_bank addr, ad_row addr, ad_column addr];
              new_hex = fold (\<lambda>(o1, p). place_field o1 p) (zip origin_pos mapped_pos) 0;
              new_pos = rev (take_fields new_hex (rev mapped_pos) (nat (LogBase2 (cfg_BL c))))
          in mk_Address (new_pos ! 0) (new_pos ! 1) (new_pos ! 2) (new_pos ! 3) (new_pos ! 4) (new_pos ! 5))"

section \<open>The energy maps\<close>

definition pmap_add :: "('d::plus) list list \<Rightarrow> int \<Rightarrow> int \<Rightarrow> 'd \<Rightarrow> 'd list list run" where
  "pmap_add m case_id idx e =
     checked (0 \<le> case_id \<and> case_id < int (length m) \<and> 0 \<le> idx \<and> idx < int (length (m ! nat case_id)))
       (ret (m[nat case_id := (m ! nat case_id)[nat idx := m ! nat case_id ! nat idx + e]]))"

text \<open>Both maps take the energy of a cell.\<close>

definition add_energy_at :: "int \<Rightarrow> int \<Rightarrow> ('d::plus) \<Rightarrow> 'd Thermal \<Rightarrow> 'd Thermal run" where
  "add_energy_at case_id idx e th =
     run_bind (pmap_add (accu_Pmap th) case_id idx e) (\<lambda>a.
     run_bind (pmap_add (cur_Pmap th) case_id idx e) (\<lambda>u.
     ret (th\<lparr>accu_Pmap := a, cur_Pmap := u\<rparr>)))"

text \<open>A loop that pushes the result of every iteration.\<close>

fun map_run :: "('a \<Rightarrow> 'b run) \<Rightarrow> 'a list \<Rightarrow> 'b list run" where
  "map_run f [] = ret []"
| "map_run f (x # xs) = run_bind (f x) (\<lambda>y. run_bind (map_run f xs) (\<lambda>ys. ret (y # ys)))"

text \<open>The grid column and the tile of a row, and the cell of a bit of the row.\<close>

definition row_place :: "'d ThermalConfig \<Rightarrow> int \<Rightarrow> (int \<times> int) run" where
  "row_place tc row_id =
     run_bind (cdiv row_id (tile_row_num tc)) (\<lambda>col_tile_id.
     run_bind (cdiv row_id (mat_dim_x tc)) (\<lambda>mat_row.
     run_bind (cdiv mat_row (row_tile tc)) (\<lambda>grid_id_x. ret (col_tile_id, grid_id_x))))"

definition cell_place ::
    "'d ThermalConfig \<Rightarrow> 'd Thermal \<Rightarrow> int \<times> int \<Rightarrow> int \<times> int \<Rightarrow> int \<times> int \<Rightarrow> int \<Rightarrow> (int \<times> int) run" where
  "cell_place tc th vault bank rp col_id =
     run_bind (cdiv col_id (mat_dim_y tc)) (\<lambda>mat_col.
     run_bind (cdiv (num_y_grids tc) (row_tile tc)) (\<lambda>tile_width.
     let grid_id_y = mat_col + fst rp * tile_width
     in ret (fst vault * (bank_x th * num_x_grids tc) + fst bank * num_x_grids tc + snd rp,
             snd vault * (bank_y th * num_y_grids tc) + snd bank * num_y_grids tc + grid_id_y)))"

text \<open>The cells of a burst: one per bit of every column of the burst.\<close>

definition MapToXY ::
    "Config \<Rightarrow> 'd ThermalConfig \<Rightarrow> 'd Thermal \<Rightarrow> Command \<Rightarrow> int \<times> int \<Rightarrow> int \<times> int \<Rightarrow> (int \<times> int) list run" where
  "MapToXY c tc th cmd vault bank =
     run_bind (row_place tc (c_Row cmd)) (\<lambda>rp.
     map_run (\<lambda>(i, j).
       let phy_loc = GetPhyAddress c (phy_pos th) ((cmd_addr cmd)\<lparr>ad_column := c_Column cmd + i\<rparr>)
       in cell_place tc th vault bank rp (ad_column phy_loc * device_width c + j))
       (List.product [0..cfg_BL c - 1] [0..device_width c - 1]))"

definition LocationMappingANDaddEnergy ::
    "('d::{plus,minus,times,inverse,ord}) thermal_lib \<Rightarrow> Config \<Rightarrow> 'd ThermalConfig \<Rightarrow> int \<Rightarrow> Command \<Rightarrow> int \<Rightarrow> 'd \<Rightarrow>
     'd Thermal \<Rightarrow> 'd Thermal run" where
  "LocationMappingANDaddEnergy N c tc channel cmd case_id add_energy th =
     run_bind (MapToVault c tc th channel) (\<lambda>vault.
     run_bind (MapToBank c tc th (c_Bankgroup cmd) (c_Bank cmd)) (\<lambda>bank.
     run_bind (MapToXY c tc th cmd vault bank) (\<lambda>xys.
     run_bind (MapToZ c tc th channel (c_Bank cmd)) (\<lambda>z.
     for_run (\<lambda>(x, y). add_energy_at case_id (z * dimX th * dimY th + y * dimX th + x) (add_energy / num N (device_width c)))
       xys th))))"

text \<open>A refresh of row \<open>row0\<close> heats a column of cells of the bank with the absolute number \<open>bank0\<close>.\<close>

definition LocationMappingANDaddEnergy_RF ::
    "Config \<Rightarrow> 'd ThermalConfig \<Rightarrow> int \<Rightarrow> Command \<Rightarrow> int \<Rightarrow> int \<Rightarrow> int \<Rightarrow> ('d::plus) \<Rightarrow> 'd Thermal \<Rightarrow> 'd Thermal run" where
  "LocationMappingANDaddEnergy_RF c tc channel cmd bank0 row0 case_id add_energy th =
     run_bind (cdiv bank0 (banks_per_group c)) (\<lambda>bankgroup_id.
     run_bind (crem bank0 (banks_per_group c)) (\<lambda>bank_id.
     let new_addr = (cmd_addr cmd)\<lparr>ad_row := row0, ad_bankgroup := bankgroup_id, ad_bank := bank_id\<rparr>
     in run_bind (MapToVault c tc th channel) (\<lambda>vault.
        run_bind (MapToBank c tc th bankgroup_id bank_id) (\<lambda>bank.
        run_bind (MapToZ c tc th channel bank_id) (\<lambda>z.
        run_bind (row_place tc (ad_row (GetPhyAddress c (phy_pos th) new_addr))) (\<lambda>rp.
        run_bind (cell_place tc th vault bank rp 0) (\<lambda>(x, y).
        for_run (\<lambda>i. add_energy_at case_id (z * (dimX th * dimY th) + (y + i) * dimX th + x) add_energy)
          [0..num_y_grids tc - 1] th)))))))"

text \<open>The next block of rows of a bank to refresh, and the advance of the bank's counter.\<close>

definition next_refresh :: "Config \<Rightarrow> 'd ThermalConfig \<Rightarrow> int \<Rightarrow> int \<Rightarrow> 'd Thermal \<Rightarrow> (int \<times> 'd Thermal) run" where
  "next_refresh c tc rank_idx ib th =
     checked (0 \<le> rank_idx \<and> rank_idx < int (length (refresh_count th)) \<and>
              0 \<le> ib \<and> ib < int (length (refresh_count th ! nat rank_idx)))
       (let cs = refresh_count th ! nat rank_idx; n = cs ! nat ib;
            n' = (if (n + 1) * num_row_refresh tc = rows c then 0 else n + 1)
        in ret (n * num_row_refresh tc, th\<lparr>refresh_count := (refresh_count th)[nat rank_idx := cs[nat ib := n']]\<rparr>))"

definition refresh_bank_power ::
    "Config \<Rightarrow> 'd ThermalConfig \<Rightarrow> int \<Rightarrow> Command \<Rightarrow> int \<Rightarrow> ('d::plus) \<Rightarrow> int \<Rightarrow> 'd Thermal \<Rightarrow> 'd Thermal run" where
  "refresh_bank_power c tc channel cmd case_id e ib th =
     run_bind (next_refresh c tc (channel * ranks c + c_Rank cmd) ib th) (\<lambda>(row_s, th1).
     for_run (\<lambda>ir. LocationMappingANDaddEnergy_RF c tc channel cmd ib ir case_id e)
       [row_s..row_s + num_row_refresh tc - 1] th1)"

definition UpdateCMDPower ::
    "('d::{plus,minus,times,inverse,ord}) thermal_lib \<Rightarrow> Config \<Rightarrow> 'd ThermalConfig \<Rightarrow> 'd EnergyConfig \<Rightarrow> int \<Rightarrow> Command \<Rightarrow>
     'd Thermal \<Rightarrow> 'd Thermal run" where
  "UpdateCMDPower N c tc ec channel cmd th =
     (let stacked = (IsHMC c \<or> IsHBM c);
          device_scale = (if stacked then num N 1 else num N (devices_per_rank c));
          case_id = (if stacked then 0 else channel * ranks c + c_Rank cmd);
          scaled = (\<lambda>e. e / lit N 1000 1 / device_scale)
      in case cmd_type cmd of
           REFRESH \<Rightarrow>
             for_run (refresh_bank_power c tc channel cmd case_id
               (scaled (ref_energy_inc ec / num N (num_row_refresh tc) / num N (banks c) / num N (num_y_grids tc))))
               [0..banks c - 1] th
         | REFRESH_BANK \<Rightarrow>
             refresh_bank_power c tc channel cmd case_id
               (scaled (refb_energy_inc ec / num N (num_row_refresh tc) / num N (num_y_grids tc))) (c_Bank cmd) th
         | t \<Rightarrow>
             let inc = (if t = ACTIVATE then act_energy_inc ec
                           else if t = READ \<or> t = READ_PRECHARGE then read_energy_inc ec
                           else if t = WRITE \<or> t = WRITE_PRECHARGE then write_energy_inc ec else num N 0)
             in if num N 0 < inc
                then LocationMappingANDaddEnergy N c tc channel cmd case_id (scaled (inc / num N (cfg_BL c))) th
                else ret th)"

section \<open>Background energy and logic power\<close>

definition UpdatePowerMaps ::
    "('d::{plus,minus,times,inverse,ord}) thermal_lib \<Rightarrow> Config \<Rightarrow> 'd \<Rightarrow> bool \<Rightarrow> 64 word \<Rightarrow> 'd Thermal \<Rightarrow> 'd Thermal run" where
  "UpdatePowerMaps N c add_energy is_trans clk th =
     (let period = (if is_trans then num N (epoch_period c) else num N (uint clk)); layer = dimX th * dimY th;
          logic = avg_logic_power th / num N (dimX th) / num N (dimY th) * period;
          fill = (\<lambda>j m. run_bind
             (for_run (\<lambda>i m. pmap_add m j i add_energy) [0..layer * (numP th - 1) - 1] m)
             (for_run (\<lambda>i m. pmap_add m j i logic) [layer * (numP th - 1)..layer * numP th - 1]))
      in if is_trans then run_bind (for_run fill [0..num_case th - 1] (cur_Pmap th)) (\<lambda>m. ret (th\<lparr>cur_Pmap := m\<rparr>))
         else run_bind (for_run fill [0..num_case th - 1] (accu_Pmap th)) (\<lambda>m. ret (th\<lparr>accu_Pmap := m\<rparr>)))"

definition UpdateBackgroundEnergy :: "int \<Rightarrow> int \<Rightarrow> 'd \<Rightarrow> 'd Thermal \<Rightarrow> 'd Thermal run" where
  "UpdateBackgroundEnergy channel rank bg th =
     checked (0 \<le> channel \<and> channel < int (length (background_energy th)) \<and>
              0 \<le> rank \<and> rank < int (length (background_energy th ! nat channel)))
       (ret (th\<lparr>background_energy := (background_energy th)
          [nat channel := (background_energy th ! nat channel)[nat rank := bg]]\<rparr>))"

definition stacked_background :: "('d::{plus,minus,times,inverse,ord}) thermal_lib \<Rightarrow> 'd Thermal \<Rightarrow> 'd" where
  "stacked_background N th =
     fold (\<lambda>e s. s + e) (concat (background_energy th)) (num N 0) / num N (dimX th * dimY th * (numP th - 1))"

text \<open>
  The loops over the cells of a rank for memories that are not stacked: they test \<open>k\<close> and
  increment \<open>i\<close>, the channel. The first adds to cell \<open>k\<close>, the second to cell \<open>i\<close>.
  The counter \<open>i\<close> is unbounded here; in the source a signed \<open>int\<close> would overflow.
\<close>

partial_function (option) epoch_cells ::
    "int \<Rightarrow> ('d::plus) \<Rightarrow> int \<Rightarrow> int \<Rightarrow> int \<Rightarrow> 'd list list \<Rightarrow> (int \<times> 'd list list) run" where
  "epoch_cells n e case_id k i m =
     (if k < n
      then case pmap_add m case_id k e of
             Some (Inr m') \<Rightarrow> epoch_cells n e case_id k (i + 1) m'
           | Some (Inl err) \<Rightarrow> raise err
           | None \<Rightarrow> None
      else ret (i, m))"

partial_function (option) final_cells ::
    "int \<Rightarrow> ('d::plus) \<Rightarrow> int \<Rightarrow> int \<Rightarrow> int \<Rightarrow> 'd list list \<Rightarrow> (int \<times> 'd list list) run" where
  "final_cells n e case_id k i m =
     (if k < n
      then case pmap_add m case_id i e of
             Some (Inr m') \<Rightarrow> final_cells n e case_id k (i + 1) m'
           | Some (Inl err) \<Rightarrow> raise err
           | None \<Rightarrow> None
      else ret (i, m))"

text \<open>The loops over channels and ranks; an inner loop that returns was not entered and left \<open>i\<close> as it was.\<close>

definition unstacked_background ::
    "('d::{plus,minus,times,inverse,ord}) thermal_lib \<Rightarrow> Config \<Rightarrow> 'd Thermal \<Rightarrow>
     (int \<Rightarrow> 'd \<Rightarrow> int \<Rightarrow> int \<Rightarrow> int \<Rightarrow> 'd list list \<Rightarrow> (int \<times> 'd list list) run) \<Rightarrow> 'd list list \<Rightarrow> 'd list list run" where
  "unstacked_background N c th cells =
     for_run (\<lambda>i. for_run (\<lambda>j m.
       let case_id = i * ranks c + j; n = dimX th * dimY th * numP th;
           bg_energy = background_energy th ! nat i ! nat j / num N n
       in run_bind (cells n (bg_energy / num N 1000 / num N (devices_per_rank c)) case_id 0 i m) (\<lambda>(i', m'). ret m'))
       [0..ranks c - 1]) [0..channels c - 1]"

definition UpdateEpoch ::
    "('d::{plus,minus,times,inverse,ord}) thermal_lib \<Rightarrow> Config \<Rightarrow> 'd Thermal \<Rightarrow> 'd Thermal run" where
  "UpdateEpoch N c th =
     (if IsHBM c \<or> IsHMC c
      then UpdatePowerMaps N c (stacked_background N th / num N 1000) True (of_int (epoch_period c)) th
      else run_bind (unstacked_background N c th epoch_cells (cur_Pmap th)) (\<lambda>m. ret (th\<lparr>cur_Pmap := m\<rparr>)))"

definition SetLogicPower :: "'d \<Rightarrow> 'd Thermal \<Rightarrow> 'd Thermal" where
  "SetLogicPower logic_power th = th\<lparr>avg_logic_power := logic_power\<rparr>"

section \<open>Temperatures\<close>

text \<open>The power of every cell, with a border of zeros; a clock of 0 asks for the current epoch.\<close>

definition InitPowerM ::
    "('d::{plus,minus,times,inverse,ord}) thermal_lib \<Rightarrow> Config \<Rightarrow> int \<Rightarrow> 64 word \<Rightarrow> 'd Thermal \<Rightarrow> 'd power" where
  "InitPowerM N c case_id clk th =
     (let d = (if clk = 0 then num N (epoch_period c) else num N (uint clk));
          power_map = (if clk = 0 then cur_Pmap th else accu_Pmap th) ! nat case_id
      in map (\<lambda>i. map (\<lambda>j. map (\<lambda>l.
           if 1 \<le> i \<and> i \<le> dimX th \<and> 1 \<le> j \<and> j \<le> dimY th
           then power_map ! nat (l * (dimX th * dimY th) + (j - 1) * dimX th + (i - 1)) / d
           else num N 0) [0..numP th - 1]) [0..dimY th + num_dummy - 1]) [0..dimX th + num_dummy - 1])"

definition GetTotalPower :: "('d::{plus,minus,times,inverse,ord}) thermal_lib \<Rightarrow> 'd Thermal \<Rightarrow> 'd power \<Rightarrow> 'd" where
  "GetTotalPower N th pm =
     fold (\<lambda>i. fold (\<lambda>j. fold (\<lambda>l t. t + power_at pm (i + 1) (j + 1) l) [0..numP th - 1]) [0..dimY th - 1]) [0..dimX th - 1] (num N 0)"

definition epoch_time :: "('d::{plus,minus,times,inverse,ord}) thermal_lib \<Rightarrow> Config \<Rightarrow> 'd EnergyConfig \<Rightarrow> 'd" where
  "epoch_time N c ec = num N (epoch_period c) * tCK ec * lit N 1 (10 ^ 9)"

definition CalcTransT ::
    "('d::{plus,minus,times,inverse,ord}) thermal_lib \<Rightarrow> Config \<Rightarrow> 'd ThermalConfig \<Rightarrow> 'd EnergyConfig \<Rightarrow> int \<Rightarrow> 'd Thermal \<Rightarrow> 'd Thermal run" where
  "CalcTransT N c tc ec case_id th =
     run_bind (transient_thermal_solver N (th_die tc th) (InitPowerM N c case_id 0 th) (th_Midx th) (th_Cap th)
       (epoch_time N c ec) (time_iter th) (T_trans th ! nat case_id) (Tamb th)) (\<lambda>T.
     ret (th\<lparr>T_trans := (T_trans th)[nat case_id := T]\<rparr>))"

definition CalcFinalT ::
    "('d::{plus,minus,times,inverse,ord}) thermal_lib \<Rightarrow> 'd linear_solver \<Rightarrow> Config \<Rightarrow> 'd ThermalConfig \<Rightarrow> int \<Rightarrow> 64 word \<Rightarrow>
     'd Thermal \<Rightarrow> 'd Thermal run" where
  "CalcFinalT N pdgssv c tc case_id clk th =
     run_bind (steady_thermal_solver N pdgssv (th_die tc th) (InitPowerM N c case_id clk th) (th_Midx th) (Tamb th)) (\<lambda>T.
     ret (th\<lparr>T_final := (T_final th)[nat case_id := T]\<rparr>))"

text \<open>The largest stable step is the smallest ratio of capacitance and conductance, and the epoch is divided until it fits.\<close>

definition stable_dt :: "('d::{plus,minus,times,inverse,ord}) thermal_lib \<Rightarrow> int \<Rightarrow> 'd entry list \<Rightarrow> 'd list \<Rightarrow> 'd run" where
  "stable_dt N layer_dim Midx Cap =
     for_run (\<lambda>e dt.
       let idx0 = idx_of N (fst e); idx1 = idx_of N (fst (snd e)); g = snd (snd e)
       in run_bind (cdiv idx0 layer_dim) (\<lambda>idxC.
          if idx0 = idx1
          then checked (0 \<le> idxC \<and> idxC < int (length Cap))
                 (let q = Cap ! nat idxC / g in ret (if q < dt then q else dt))
          else ret dt)) Midx (num N 100)"

partial_function (option) divide_epoch :: "('d::{plus,minus,times,inverse,ord}) thermal_lib \<Rightarrow> 'd \<Rightarrow> 'd \<Rightarrow> int \<Rightarrow> int run" where
  "divide_epoch N time dt n = (if dt \<le> time / num N n then divide_epoch N time dt (n + 1) else ret n)"

definition calculate_time_step ::
    "('d::{plus,minus,times,inverse,ord}) thermal_lib \<Rightarrow> Config \<Rightarrow> 'd EnergyConfig \<Rightarrow> 'd Thermal \<Rightarrow> 'd Thermal run" where
  "calculate_time_step N c ec th =
     run_bind (stable_dt N ((dimX th + num_dummy) * (dimY th + num_dummy)) (th_Midx th) (th_Cap th)) (\<lambda>dt.
     run_bind (divide_epoch N (epoch_time N c ec) dt 10) (\<lambda>n. ret (th\<lparr>time_iter := n\<rparr>)))"

definition InitialParameters ::
    "('d::{plus,minus,times,inverse,ord}) thermal_lib \<Rightarrow> Config \<Rightarrow> 'd ThermalConfig \<Rightarrow> 'd EnergyConfig \<Rightarrow> 'd Thermal \<Rightarrow> 'd Thermal run" where
  "InitialParameters N c tc ec th =
     (let d = th_die tc th
      in run_bind (calculate_Midx_array N d) (\<lambda>Midx.
         run_bind (calculate_time_step N c ec (th\<lparr>th_Midx := Midx, th_Cap := calculate_Cap_array N d\<rparr>)) (\<lambda>th1.
         ret (th1\<lparr>T_trans := replicate (nat (num_case th)) (initialize_Temperature d (Tamb th))\<rparr>))))"

definition temp_max :: "('d::ord) list \<Rightarrow> 'd \<Rightarrow> 'd" where
  "temp_max ts m = fold (\<lambda>t m. if m < t then t else m) ts m"

definition GetMaxTofCase :: "('d::{plus,minus,times,inverse,ord}) thermal_lib \<Rightarrow> 'd Thermal \<Rightarrow> 'd list list \<Rightarrow> int \<Rightarrow> 'd" where
  "GetMaxTofCase N th temp_map case_id =
     temp_max (map (\<lambda>i. temp_map ! nat case_id ! nat i) [0..T_size th - 1]) (num N 0)"

definition temp_at :: "'d Thermal \<Rightarrow> 'd list list \<Rightarrow> int \<Rightarrow> int \<Rightarrow> int \<Rightarrow> int \<Rightarrow> 'd" where
  "temp_at th T case_id l j i =
     T ! nat case_id ! nat ((layerP l + 1) * ((dimX th + num_dummy) * (dimY th + num_dummy)) + j * (dimX th + num_dummy) + i)"

definition GetMaxTofCaseLayer ::
    "('d::{plus,minus,times,inverse,ord}) thermal_lib \<Rightarrow> 'd Thermal \<Rightarrow> 'd list list \<Rightarrow> int \<Rightarrow> int \<Rightarrow> 'd" where
  "GetMaxTofCaseLayer N th temp_map case_id layer =
     fold (\<lambda>(j, i) m. let t = temp_at th temp_map case_id layer j i - T0 N in if t < m then m else t)
       (List.product [1..dimY th] [1..dimX th]) (num N 0)"

section \<open>The files\<close>

definition csv_line :: "string list \<Rightarrow> string" where
  "csv_line fs = concat (map (\<lambda>f. f @ '','') (butlast fs)) @ last fs @ [CHR 0x0A]"

abbreviation dtext :: "'d thermal_lib \<Rightarrow> 'd \<Rightarrow> string" where "dtext N \<equiv> d_text (tl_report N)"

definition cell_power :: "('d::{plus,minus,times,inverse,ord}) thermal_lib \<Rightarrow> 'd Thermal \<Rightarrow> 'd list list \<Rightarrow> int \<Rightarrow> 64 word \<Rightarrow> int \<Rightarrow> int \<Rightarrow> int \<Rightarrow> 'd" where
  "cell_power N th P case_id scale l j i =
     P ! nat case_id ! nat (l * (dimX th * dimY th) + (j - 1) * dimX th + (i - 1)) / num N (uint scale)"

definition csv_cells :: "'d Thermal \<Rightarrow> (int \<times> int \<times> int) list" where
  "csv_cells th = List.product [0..numP th - 1] (List.product [1..dimY th] [1..dimX th])"

definition PrintCSV_trans ::
    "('d::{plus,minus,times,inverse,ord}) thermal_lib \<Rightarrow> 'd Thermal \<Rightarrow> 'd list list \<Rightarrow> 'd list list \<Rightarrow> int \<Rightarrow> 64 word \<Rightarrow> string" where
  "PrintCSV_trans N th P T case_id scale =
     concat (map (\<lambda>(l, j, i). csv_line [to_string case_id, to_string (i - 1), to_string (j - 1), to_string l,
       dtext N (cell_power N th P case_id scale l j i), dtext N (temp_at th T case_id l j i - T0 N), to_string (sample_id th)]) (csv_cells th))"

definition PrintCSV_final ::
    "('d::{plus,minus,times,inverse,ord}) thermal_lib \<Rightarrow> 'd Thermal \<Rightarrow> 'd list list \<Rightarrow> 'd list list \<Rightarrow> int \<Rightarrow> 64 word \<Rightarrow> string" where
  "PrintCSV_final N th P T case_id scale =
     concat (map (\<lambda>(l, j, i). csv_line [to_string case_id, to_string (i - 1), to_string (j - 1), to_string l,
       dtext N (cell_power N th P case_id scale l j i), dtext N (temp_at th T case_id l j i)]) (csv_cells th))"

text \<open>The first and last column and row of a bank on the floorplan.\<close>

definition bank_rect :: "Config \<Rightarrow> 'd ThermalConfig \<Rightarrow> 'd Thermal \<Rightarrow> int \<Rightarrow> int \<Rightarrow> int \<Rightarrow> (int \<times> int \<times> int \<times> int \<times> int) run" where
  "bank_rect c tc th vault_id bg bank =
     run_bind (MapToVault c tc th vault_id) (\<lambda>(vault_id_x, vault_id_y).
     run_bind (MapToZ c tc th vault_id (bg * banks_per_group c + bank)) (\<lambda>z.
     run_bind (MapToBank c tc th bg bank) (\<lambda>(bank_id_x, bank_id_y).
     let off_x = bank_x th * num_x_grids tc; off_y = bank_y th * num_y_grids tc
     in ret (vault_id_x * off_x + bank_id_x * num_x_grids tc, vault_id_x * off_x + (bank_id_x + 1) * num_x_grids tc - 1,
             vault_id_y * off_y + bank_id_y * num_y_grids tc, vault_id_y * off_y + (bank_id_y + 1) * num_y_grids tc - 1, z))))"

definition PrintCSV_bank :: "Config \<Rightarrow> 'd ThermalConfig \<Rightarrow> 'd Thermal \<Rightarrow> string run" where
  "PrintCSV_bank c tc th =
     for_run (\<lambda>vault_id. for_run (\<lambda>bg. for_run (\<lambda>bank txt.
       run_bind (bank_rect c tc th vault_id bg bank) (\<lambda>(start_x, end_x, start_y, end_y, z).
       ret (txt @ csv_line [to_string vault_id, to_string (bg * banks_per_group c + bank), to_string start_x, to_string end_x,
         to_string start_y, to_string end_y, to_string z])))
       [0..banks_per_group c - 1]) [0..bankgroups c - 1]) [0..channels c - 1]
       (csv_line [''vault_id'', ''bank_id'', ''start_x'', ''end_x'', ''start_y'', ''end_y'', ''z''])"

definition PrintCSVHeader_final :: string where
  "PrintCSVHeader_final = csv_line [''rank_channel_index'', ''x'', ''y'', ''z'', ''power'', ''temperature'']"

section \<open>The calculator\<close>

text \<open>The size of the floorplan for a protocol; vaults are not set for memories that are not stacked.\<close>

definition floorplan ::
    "('d::{plus,minus,times,inverse,ord}) thermal_lib \<Rightarrow> Config \<Rightarrow> 'd ThermalConfig \<Rightarrow> 'd Thermal \<Rightarrow> 'd Thermal run" where
  "floorplan N c tc th =
     (if IsHMC c
      then let bx = 1; by = 2; vx = determineXY N (num N bx * bank_asr tc) (num N by * num N 1) (channels c)
           in run_bind (cdiv (channels c) vx) (\<lambda>vy.
              ret (th\<lparr>numP := num_dies c + 1, bank_x := bx, bank_y := by, vault_x := vx, vault_y := vy,
                dimX := vx * bx * num_x_grids tc, dimY := vy * by * num_y_grids tc, num_case := 1\<rparr>))
      else if IsHBM c
      then ret (th\<lparr>numP := num_dies c + 1, bank_x := 8, bank_y := 2, vault_x := 1, vault_y := 2,
             dimX := 1 * 8 * num_x_grids tc, dimY := 2 * 2 * num_y_grids tc, num_case := 1\<rparr>)
      else let bx = determineXY N (bank_asr tc) (num N 1) (banks c)
           in run_bind (cdiv (banks c) bx) (\<lambda>by.
              ret (th\<lparr>numP := 1, bank_x := bx, bank_y := by, dimX := bx * num_x_grids tc, dimY := by * num_y_grids tc,
                num_case := ranks c * channels c\<rparr>)))"

definition open_if :: "bool \<Rightarrow> string \<Rightarrow> Csv" where
  "open_if b txt = \<lparr>csv_open = b, csv_text = (if b then txt else [])\<rparr>"

definition empty_maps ::
    "('d::{plus,minus,times,inverse,ord}) thermal_lib \<Rightarrow> Config \<Rightarrow> 'd ThermalConfig \<Rightarrow> int list list option \<Rightarrow> 'd Thermal \<Rightarrow> 'd Thermal" where
  "empty_maps N c tc pos th =
     (let cells = replicate (nat (num_case th)) (replicate (nat (numP th * dimX th * dimY th)) (num N 0))
      in th\<lparr>sample_id := 0, avg_logic_power := num N 0,
            background_energy := replicate (nat (channels c)) (replicate (nat (ranks c)) (num N 0)),
            Tamb := amb_temp tc + T0 N, phy_pos := pos, accu_Pmap := cells, cur_Pmap := cells,
            T_size := (numP th * 3 + 1) * (dimX th + num_dummy) * (dimY th + num_dummy),
            T_final := replicate (nat (num_case th)) []\<rparr>)"

definition open_files :: "Config \<Rightarrow> string \<Rightarrow> 'd Thermal \<Rightarrow> 'd Thermal" where
  "open_files c bank_text th =
     th\<lparr>final_csv := open_if (output_level c \<ge> 0) PrintCSVHeader_final,
        bank_csv := open_if (output_level c \<ge> 0) bank_text,
        max_csv := open_if (output_level c \<ge> 0) (csv_line [''layer'', ''max_temp'', ''epoch_time'']),
        epoch_csv := open_if (output_level c \<ge> 2)
          (csv_line [''rank_channel_index'', ''x'', ''y'', ''z'', ''power'', ''temperature'', ''epoch''])\<rparr>"

definition new_ThermalCalculator ::
    "('d::{plus,minus,times,inverse,ord}) thermal_lib \<Rightarrow> Config \<Rightarrow> 'd ThermalConfig \<Rightarrow> 'd EnergyConfig \<Rightarrow> 'd Thermal \<Rightarrow> 'd Thermal run" where
  "new_ThermalCalculator N c tc ec th0 =
     run_bind (floorplan N c tc th0) (\<lambda>th1.
     run_bind (SetPhyAddressMapping (loc_mapping tc)) (\<lambda>pos.
     run_bind (InitialParameters N c tc ec (empty_maps N c tc pos th1)) (\<lambda>th2.
     let th3 = th2\<lparr>refresh_count := replicate (nat (channels c * ranks c)) (replicate (nat (banks c)) 0)\<rparr>
     in run_bind (if output_level c \<ge> 0 then PrintCSV_bank c tc th3 else ret []) (\<lambda>bank_text.
        ret (open_files c bank_text th3)))))"

text \<open>The end of an epoch: temperatures of every case, their maxima, and empty current maps.\<close>

definition PrintTransPT ::
    "('d::{plus,minus,times,inverse,ord}) thermal_lib \<Rightarrow> Config \<Rightarrow> 'd ThermalConfig \<Rightarrow> 'd EnergyConfig \<Rightarrow> 64 word \<Rightarrow> 'd Thermal \<Rightarrow> 'd Thermal run" where
  "PrintTransPT N c tc ec clk th =
     (let ms = num N (uint clk) * tCK ec * lit N 1 (10 ^ 6)
      in run_bind (UpdateEpoch N c th) (\<lambda>th1.
         run_bind (for_run (\<lambda>ir th.
           run_bind (CalcTransT N c tc ec ir th) (\<lambda>th2.
           let maxima = concat (map (\<lambda>layer. csv_line [to_string layer, dtext N (GetMaxTofCaseLayer N th2 (T_trans th2) ir layer), dtext N ms])
                          [0..numP th2 - 1]);
               th3 = th2\<lparr>max_csv := csv_write maxima (max_csv th2)\<rparr>
           in ret (if output_level c \<ge> 2
                   then th3\<lparr>epoch_csv := csv_write (PrintCSV_trans N th3 (cur_Pmap th3) (T_trans th3) ir (of_int (epoch_period c))) (epoch_csv th3)\<rparr>
                   else th3))) [0..num_case th1 - 1] th1) (\<lambda>th4.
         ret (th4\<lparr>cur_Pmap := map (\<lambda>m. let n = nat (numP th4 * dimX th4 * dimY th4) in replicate n (num N 0) @ drop n m) (cur_Pmap th4),
                  sample_id := sample_id th4 + 1\<rparr>))))"

definition PrintFinalPT ::
    "('d::{plus,minus,times,inverse,ord}) thermal_lib \<Rightarrow> 'd linear_solver \<Rightarrow> Config \<Rightarrow> 'd ThermalConfig \<Rightarrow> 64 word \<Rightarrow> 'd Thermal \<Rightarrow> 'd Thermal run" where
  "PrintFinalPT N pdgssv c tc clk th =
     run_bind (if IsHBM c \<or> IsHMC c
               then UpdatePowerMaps N c (stacked_background N th / num N 1000) False clk th
               else run_bind (unstacked_background N c th final_cells (accu_Pmap th)) (\<lambda>m. ret (th\<lparr>accu_Pmap := m\<rparr>))) (\<lambda>th1.
     run_bind (for_run (\<lambda>ir th.
       run_bind (CalcFinalT N pdgssv c tc ir clk th) (\<lambda>th2.
       ret (th2\<lparr>final_csv := csv_write (PrintCSV_final N th2 (accu_Pmap th2) (T_final th2) ir clk) (final_csv th2)\<rparr>)))
       [0..num_case th1 - 1] th1) (\<lambda>th3.
     let th4 = th3\<lparr>final_csv := csv_close (final_csv th3), max_csv := csv_close (max_csv th3)\<rparr>
     in ret (if output_level c \<ge> 2 then th4\<lparr>epoch_csv := csv_close (epoch_csv th4)\<rparr> else th4)))"

end
