(* ===== verification/Thermal_Replay.thy ===== *)
theory Thermal_Replay
  imports Thermal
begin

text \<open>
  The replay of a command trace (\<open>DRAMsim3-master/src/thermal_replay.cc\<close>, \<open>thermal_replay.h\<close>)
  and the lines of such a trace, which a controller with \<open>CMD_TRACE\<close> writes (\<open>controller.cc\<close>,
  the printing of a command in \<open>common.cc\<close>). The trace file is the list of its lines. What
  \<open>fmt\<close> and the streams of the library do is modelled for the formats that are used.
\<close>

section \<open>The lines of a command trace\<close>

definition command_string :: "CommandType \<Rightarrow> string" where
  "command_string t =
     (case t of READ \<Rightarrow> ''read'' | READ_PRECHARGE \<Rightarrow> ''read_p'' | WRITE \<Rightarrow> ''write'' | WRITE_PRECHARGE \<Rightarrow> ''write_p''
      | ACTIVATE \<Rightarrow> ''activate'' | PRECHARGE \<Rightarrow> ''precharge'' | REFRESH_BANK \<Rightarrow> ''refresh_bank'' | REFRESH \<Rightarrow> ''refresh''
      | SREF_ENTER \<Rightarrow> ''self_refresh_enter'' | SREF_EXIT \<Rightarrow> ''self_refresh_exit'' | CMD_SIZE \<Rightarrow> ''WRONG'')"

text \<open>The format \<open>#x\<close>: hexadecimal digits after \<open>0x\<close>, and a sign before it.\<close>

definition hex_digit :: "nat \<Rightarrow> char" where
  "hex_digit d = (if d < 10 then digit_char d else char_of (87 + d))"

fun nat_to_hex :: "nat \<Rightarrow> string" where
  "nat_to_hex n = (if n < 16 then [hex_digit n] else nat_to_hex (n div 16) @ [hex_digit (n mod 16)])"

declare nat_to_hex.simps [simp del]

definition to_hex :: "int \<Rightarrow> string" where
  "to_hex i = (if i < 0 then [CHR ''-''] else []) @ ''0x'' @ nat_to_hex (nat \<bar>i\<bar>)"

definition print_command :: "Command \<Rightarrow> string" where
  "print_command cmd =
     pad_right 20 (command_string (cmd_type cmd)) @ '' '' @ pad_left 3 (to_string (c_Channel cmd)) @ '' '' @
     pad_left 3 (to_string (c_Rank cmd)) @ '' '' @ pad_left 3 (to_string (c_Bankgroup cmd)) @ '' '' @
     pad_left 3 (to_string (c_Bank cmd)) @ '' '' @ pad_left 8 (to_hex (c_Row cmd)) @ '' '' @ pad_left 8 (to_hex (c_Column cmd))"

text \<open>The line that \<open>Controller::IssueCommand\<close> writes, without its end.\<close>

definition command_trace_line :: "64 word \<Rightarrow> Command \<Rightarrow> string" where
  "command_trace_line clk cmd = pad_right 18 (to_string (uint clk)) @ '' '' @ print_command cmd"

text \<open>\<open>std::stoull\<close>: a value above the range is an error, a negated one wraps.\<close>

definition stoull_unsigned :: "bool \<Rightarrow> string \<Rightarrow> 64 word option" where
  "stoull_unsigned negated s =
     (let ds = takeWhile is_digit s; v = int (digits_val ds)
      in if ds = [] \<or> 2 ^ 64 \<le> v then None else Some (of_int (if negated then - v else v)))"

definition stoull :: "string \<Rightarrow> 64 word option" where
  "stoull s =
     (case dropWhile is_space s of
        c # cs \<Rightarrow> if c = CHR ''-'' then stoull_unsigned True cs
                  else if c = CHR ''+'' then stoull_unsigned False cs
                  else stoull_unsigned False (c # cs)
      | [] \<Rightarrow> None)"

definition stoull_run :: "string \<Rightarrow> 64 word run" where
  "stoull_run s = (case stoull s of None \<Rightarrow> raise (RuntimeError ''stoull'') | Some w \<Rightarrow> ret w)"

text \<open>A name that is not in the map gives the zero of the enumeration.\<close>

definition cmd_map :: "string \<Rightarrow> CommandType" where
  "cmd_map s =
     (case map_of (map (\<lambda>t. (command_string t, t)) [READ, READ_PRECHARGE, WRITE, WRITE_PRECHARGE, ACTIVATE, PRECHARGE,
        REFRESH_BANK, REFRESH, SREF_ENTER, SREF_EXIT]) s of Some t \<Rightarrow> t | None \<Rightarrow> READ)"

definition ParseLine :: "string \<Rightarrow> (64 word \<times> Command) run" where
  "ParseLine line =
     (let tokens = StringSplit (CHR '' '') line
      in if length tokens \<noteq> 8 then raise AbruptExit
         else run_bind (stoull_run (tokens ! 0)) (\<lambda>clk.
              run_bind (map_run stoi_run (drop 2 tokens)) (\<lambda>a.
              ret (clk, no_Command\<lparr>cmd_addr := mk_Address (a ! 0) (a ! 1) (a ! 2) (a ! 3) (a ! 4) (a ! 5),
                                  cmd_type := cmd_map (tokens ! 1)\<rparr>))))"

section \<open>The state of a replay\<close>

record 'd ThermalReplay =
  timed_commands :: "(64 word \<times> Command) list"
  thermal_calc :: "'d Thermal"
  last_clk :: "64 word"
  channel_stats :: "(SimpleStats \<times> 'd Report) list"
  bank_active :: "bool list list list list"
  replay_output :: Output

text \<open>All banks of all channels, ranks and groups.\<close>

definition idle_banks :: "Config \<Rightarrow> bool list list list list" where
  "idle_banks c =
     replicate (nat (channels c)) (replicate (nat (ranks c)) (replicate (nat (bankgroups c)) (replicate (nat (banks_per_group c)) False)))"

text \<open>The trace is \<open>None\<close> when the file cannot be opened. The configuration is read before.\<close>

definition new_ThermalReplay ::
    "('d::{plus,minus,times,inverse,ord}) thermal_lib \<Rightarrow> Config \<Rightarrow> 'd ThermalConfig \<Rightarrow> 'd EnergyConfig \<Rightarrow> 'd Thermal \<Rightarrow> Output \<Rightarrow>
     string list option \<Rightarrow> 'd ThermalReplay run" where
  "new_ThermalReplay N c tc ec th0 fs trace =
     run_bind (new_ThermalCalculator N c tc ec th0) (\<lambda>th.
     case trace of
       None \<Rightarrow> raise AbruptExit
     | Some ls \<Rightarrow>
         run_bind (map_run ParseLine ls) (\<lambda>cmds.
         ret \<lparr>timed_commands = cmds, thermal_calc = th, last_clk = 0,
              channel_stats = replicate (nat (channels c)) (new_SimpleStats, new_Report (tl_report N) c),
              bank_active = idle_banks c, replay_output = fs\<rparr>))"

definition IsRankActive :: "'d ThermalReplay \<Rightarrow> int \<Rightarrow> int \<Rightarrow> bool" where
  "IsRankActive tr channel rank = list_ex (list_ex id) (bank_active tr ! nat channel ! nat rank)"

section \<open>The steps of a replay\<close>

definition upd_replay_stats :: "int \<Rightarrow> (SimpleStats \<Rightarrow> SimpleStats) \<Rightarrow> 'd ThermalReplay \<Rightarrow> 'd ThermalReplay run" where
  "upd_replay_stats ch f tr =
     checked (0 \<le> ch \<and> ch < int (length (channel_stats tr)))
       (ret (tr\<lparr>channel_stats := (channel_stats tr)[nat ch := apfst f (channel_stats tr ! nat ch)]\<rparr>))"

text \<open>The cycles since the last command are background; their number is passed as an \<open>int\<close>.\<close>

definition count_background :: "Config \<Rightarrow> 64 word \<Rightarrow> 'd ThermalReplay \<Rightarrow> 'd ThermalReplay run" where
  "count_background c past_clks =
     for_run (\<lambda>i. for_run (\<lambda>j tr.
       upd_replay_stats i (IncrementVecBy (if IsRankActive tr i j then ''rank_active_cycles'' else ''all_bank_idle_cycles'') j
         (to_int32 (uint past_clks))) tr) [0..ranks c - 1]) [0..channels c - 1]"

definition command_stat :: "CommandType \<Rightarrow> string" where
  "command_stat t =
     (case t of READ \<Rightarrow> ''num_read_cmds'' | READ_PRECHARGE \<Rightarrow> ''num_read_cmds'' | WRITE \<Rightarrow> ''num_write_cmds''
      | WRITE_PRECHARGE \<Rightarrow> ''num_write_cmds'' | ACTIVATE \<Rightarrow> ''num_act_cmds'' | PRECHARGE \<Rightarrow> ''num_pre_cmds''
      | REFRESH \<Rightarrow> ''num_ref_cmds'' | REFRESH_BANK \<Rightarrow> ''num_refb_cmds'' | SREF_ENTER \<Rightarrow> ''num_srefe_cmds''
      | SREF_EXIT \<Rightarrow> ''num_srefx_cmds'' | CMD_SIZE \<Rightarrow> [])"

definition count_command :: "Command \<Rightarrow> 'd ThermalReplay \<Rightarrow> 'd ThermalReplay run" where
  "count_command cmd tr =
     (if cmd_type cmd = CMD_SIZE then raise AbruptExit
      else upd_replay_stats (c_Channel cmd) (Increment (command_stat (cmd_type cmd))) tr)"

definition set_bank :: "Command \<Rightarrow> bool \<Rightarrow> bool list list list list \<Rightarrow> bool list list list list run" where
  "set_bank cmd b m =
     (let ch = c_Channel cmd; r = c_Rank cmd; g = c_Bankgroup cmd; k = c_Bank cmd
      in checked (0 \<le> ch \<and> ch < int (length m) \<and> 0 \<le> r \<and> r < int (length (m ! nat ch)) \<and>
                  0 \<le> g \<and> g < int (length (m ! nat ch ! nat r)) \<and> 0 \<le> k \<and> k < int (length (m ! nat ch ! nat r ! nat g)))
           (ret (m[nat ch := (m ! nat ch)[nat r := (m ! nat ch ! nat r)[nat g := (m ! nat ch ! nat r ! nat g)[nat k := b]]]])))"

definition update_bank :: "Command \<Rightarrow> 'd ThermalReplay \<Rightarrow> 'd ThermalReplay run" where
  "update_bank cmd tr =
     (let t = cmd_type cmd
      in if t = ACTIVATE then run_bind (set_bank cmd True (bank_active tr)) (\<lambda>m. ret (tr\<lparr>bank_active := m\<rparr>))
         else if t = READ_PRECHARGE \<or> t = WRITE_PRECHARGE \<or> t = PRECHARGE
         then run_bind (set_bank cmd False (bank_active tr)) (\<lambda>m. ret (tr\<lparr>bank_active := m\<rparr>))
         else ret tr)"

text \<open>The report of an epoch for a channel, and the background energy of its ranks.\<close>

definition replay_epoch ::
    "('d::{plus,minus,times,inverse,ord}) thermal_lib \<Rightarrow> 'd EnergyConfig \<Rightarrow> OutputNames \<Rightarrow> Config \<Rightarrow> int \<Rightarrow> 'd ThermalReplay \<Rightarrow> 'd ThermalReplay run" where
  "replay_epoch N ec nm c i tr =
     checked (0 \<le> i \<and> i < int (length (channel_stats tr)))
       (let (x, fs) = rp_PrintEpochStats (tl_report N) ec nm c i (channel_stats tr ! nat i) (replay_output tr);
            tr1 = tr\<lparr>channel_stats := (channel_stats tr)[nat i := x], replay_output := fs\<rparr>
        in run_bind (for_run (\<lambda>r. UpdateBackgroundEnergy i r (RankBackgroundEnergy (tl_report N) r (snd x))) [0..ranks c - 1] (thermal_calc tr1))
             (\<lambda>th. ret (tr1\<lparr>thermal_calc := th\<rparr>)))"

definition ProcessCMD ::
    "('d::{plus,minus,times,inverse,ord}) thermal_lib \<Rightarrow> 'd EnergyConfig \<Rightarrow> OutputNames \<Rightarrow> Config \<Rightarrow> Command \<Rightarrow> 64 word \<Rightarrow>
     'd ThermalReplay \<Rightarrow> 'd ThermalReplay run" where
  "ProcessCMD N ec nm c cmd clk tr =
     run_bind (count_background c (clk - last_clk tr) tr) (\<lambda>tr1.
     run_bind (count_command cmd tr1) (\<lambda>tr2.
     run_bind (update_bank cmd tr2) (\<lambda>tr3.
     let n = (of_int (epoch_period c) :: 64 word)
     in if n = 0 then raise DivideByZero
        else run_bind (if clk mod n \<noteq> 0 then for_run (replay_epoch N ec nm c) [0..channels c - 1] tr3 else ret tr3) (\<lambda>tr4.
             ret (tr4\<lparr>last_clk := clk\<rparr>)))))"

text \<open>A command is charged to the thermal model after it is counted, always for channel 0.\<close>

definition replay_command ::
    "('d::{plus,minus,times,inverse,ord}) thermal_lib \<Rightarrow> 'd ThermalConfig \<Rightarrow> 'd EnergyConfig \<Rightarrow> OutputNames \<Rightarrow> Config \<Rightarrow> 64 word \<Rightarrow>
     64 word \<times> Command \<Rightarrow> 'd ThermalReplay \<Rightarrow> 'd ThermalReplay run" where
  "replay_command N tc ec nm c clk tcmd tr =
     run_bind (ProcessCMD N ec nm c (snd tcmd) (clk + fst tcmd) tr) (\<lambda>tr1.
     run_bind (UpdateCMDPower N c tc ec 0 (snd tcmd) (thermal_calc tr1)) (\<lambda>th. ret (tr1\<lparr>thermal_calc := th\<rparr>)))"

text \<open>One pass over the trace: the clock moves on by the time of the last command, and the banks are closed.\<close>

definition replay_pass ::
    "('d::{plus,minus,times,inverse,ord}) thermal_lib \<Rightarrow> 'd ThermalConfig \<Rightarrow> 'd EnergyConfig \<Rightarrow> OutputNames \<Rightarrow> Config \<Rightarrow>
     64 word \<times> 'd ThermalReplay \<Rightarrow> (64 word \<times> 'd ThermalReplay) run" where
  "replay_pass N tc ec nm c s =
     (case s of (clk, tr) \<Rightarrow>
        run_bind (for_run (replay_command N tc ec nm c clk) (timed_commands tr) tr) (\<lambda>tr1.
        let clk_offset = (if timed_commands tr = [] then 0 else fst (last (timed_commands tr)))
        in ret (clk + clk_offset, tr1\<lparr>bank_active := idle_banks c\<rparr>)))"

definition replay_final ::
    "'d thermal_lib \<Rightarrow> 'd EnergyConfig \<Rightarrow> OutputNames \<Rightarrow> Config \<Rightarrow> int \<Rightarrow> 'd ThermalReplay \<Rightarrow> 'd ThermalReplay run" where
  "replay_final N ec nm c i tr =
     checked (0 \<le> i \<and> i < int (length (channel_stats tr)))
       (let (x, fs) = rp_PrintFinalStats (tl_report N) ec nm c i (channel_stats tr ! nat i) (replay_output tr)
        in ret (tr\<lparr>channel_stats := (channel_stats tr)[nat i := x], replay_output := fs\<rparr>))"

definition replay_Run ::
    "('d::{plus,minus,times,inverse,ord}) thermal_lib \<Rightarrow> 'd linear_solver \<Rightarrow> 'd ThermalConfig \<Rightarrow> 'd EnergyConfig \<Rightarrow> OutputNames \<Rightarrow> Config \<Rightarrow>
     64 word \<Rightarrow> 'd ThermalReplay \<Rightarrow> 'd ThermalReplay run" where
  "replay_Run N pdgssv tc ec nm c repeats tr =
     run_bind (for_run (\<lambda>i. replay_pass N tc ec nm c) [0..<unat repeats] (0, tr)) (\<lambda>(clk, tr1).
     run_bind (for_run (replay_final N ec nm c) [0..channels c - 1] tr1) (\<lambda>tr2.
     run_bind (PrintFinalPT N pdgssv c tc clk (thermal_calc tr2)) (\<lambda>th. ret (tr2\<lparr>thermal_calc := th\<rparr>))))"

end
