(* ===== verification/Thermal_Matrix.thy ===== *)
theory Thermal_Matrix
  imports Thermal_Solver
begin

text \<open>
  The conductance matrix of the thermal solver: the entries that \<open>calculate_Midx_array\<close> writes
  fill the array exactly, they are sorted by row and column, the matrix is symmetric, its rows
  sum to the conductance of the heat sink, and the starts of the rows that are found in it make
  up a compressed matrix. These facts are about exact numbers (\<open>exact_num\<close>).
\<close>

section \<open>Exact numbers\<close>

definition exact_num :: "('d::linordered_field) thermal_lib \<Rightarrow> bool" where
  "exact_num N \<longleftrightarrow> num N = of_int \<and> lit N = (\<lambda>n m. of_int n / of_int m) \<and>
     (\<forall>n\<ge>0. d_trunc N (of_int n) = n \<and> d_trunc N (of_int n + of_int 1 / of_int 100) = n)"

definition die_ok :: "'d Die \<Rightarrow> bool" where
  "die_ok d \<longleftrightarrow> 0 < die_X d \<and> 0 < die_Z d \<and> 0 < die_P d"

lemma upto_conv_concat:
  assumes "0 \<le> a" "0 < b"
  shows "concat (map (\<lambda>l. map (\<lambda>r. l * b + r) [0..b - 1]) [0..a - 1]) = [0..a * b - 1]"
  using assms(1)
proof (induction a rule: int_ge_induct)
  case (step a)
  have "[0..(a + 1) * b - 1] = [0..a * b - 1] @ [a * b..(a + 1) * b - 1]"
    using upto_split1 [of 0 "a * b" "(a + 1) * b - 1"] step assms(2) by (simp add: algebra_simps)
  moreover have "[a * b..(a + 1) * b - 1] = map (\<lambda>r. a * b + r) [0..b - 1]"
    by (rule nth_equalityI) (auto simp: algebra_simps)
  moreover have "[0..a] = [0..a - 1] @ [a]" using upto_rec2 [of 0 a] step by simp
  ultimately show ?case using step by simp
qed simp

lemma die_nodes_nth:
  assumes "(l, j, i) \<in> set (die_nodes d)"
  shows "0 \<le> l" "l \<le> numLayer d" "0 \<le> j" "j < die_Z d" "0 \<le> i" "i < die_X d"
  using assms by (auto simp: die_nodes_def)

lemma node_plane: "node d l j i = l * plane d + (j * die_X d + i)"
  by (simp add: node_def algebra_simps)

lemma die_nodes_rows:
  assumes "die_ok d"
  shows "map (\<lambda>(l, j, i). node d l j i) (die_nodes d) = [0..nodes d - 1]"
proof -
  have p: "0 < plane d" using assms by (simp add: die_ok_def)
  have in_plane: "concat (map (\<lambda>j. map (\<lambda>i. j * die_X d + i) [0..die_X d - 1]) [0..die_Z d - 1]) = [0..plane d - 1]"
    using upto_conv_concat [of "die_Z d" "die_X d"] assms by (simp add: die_ok_def mult.commute)
  have "map (\<lambda>(l, j, i). node d l j i) (die_nodes d) =
      concat (map (\<lambda>l. map (\<lambda>r. l * plane d + r)
        (concat (map (\<lambda>j. map (\<lambda>i. j * die_X d + i) [0..die_X d - 1]) [0..die_Z d - 1]))) [0..numLayer d])"
    by (simp add: die_nodes_def map_concat comp_def node_plane)
  also have "\<dots> = [0..(numLayer d + 1) * plane d - 1]"
    unfolding in_plane using upto_conv_concat [OF _ p, of "numLayer d + 1"] assms by (simp add: die_ok_def)
  finally show ?thesis by (simp add: mult.commute)
qed

section \<open>Rows\<close>

lemma bubble_back_mset: "mset (bubble_back e xs) = add_mset e (mset xs)"
  by (induction xs) auto

lemma midx_row_mset: "mset (midx_row N d l j i) = add_mset (diagonal N d l j i) (mset (off_diagonal N d l j i))"
  by (simp add: midx_row_def bubble_back_mset)

lemma bubble_back_sorted:
  fixes e :: "('d::linordered_field) entry"
  assumes "sorted_wrt (\<lambda>a b. fst (snd b) < fst (snd a)) xs" "\<forall>x\<in>set xs. fst (snd x) \<noteq> fst (snd e)"
  shows "sorted_wrt (\<lambda>a b. fst (snd b) < fst (snd a)) (bubble_back e xs)"
  using assms
proof (induction xs)
  case (Cons x xs)
  have "set (bubble_back e xs) = insert e (set xs)" by (metis bubble_back_mset set_mset_add_mset_insert set_mset_mset)
  with Cons show ?case by (auto simp: not_less)
qed simp

lemma node_mono_plane: "die_ok d \<Longrightarrow> die_X d \<le> plane d \<and> die_Z d \<le> plane d"
  by (simp add: die_ok_def)

lemma node_range:
  assumes "die_ok d" "0 \<le> l" "l \<le> numLayer d" "0 \<le> j" "j < die_Z d" "0 \<le> i" "i < die_X d"
  shows "0 \<le> node d l j i" "node d l j i < nodes d" "node d l j i div plane d = l"
proof -
  have p: "0 < plane d" "0 \<le> j * die_X d" using assms by (simp_all add: die_ok_def)
  have "j * die_X d \<le> (die_Z d - 1) * die_X d" using assms by (intro mult_right_mono) auto
  then have r: "j * die_X d + i < plane d" using assms by (simp add: algebra_simps)
  show "0 \<le> node d l j i" using p assms by (simp add: node_plane)
  define q where "q = j * die_X d + i"
  have "(q + l * plane d) div plane d = l + q div plane d" using assms(1) by (intro div_mult_self1) (auto simp: die_ok_def)
  moreover have "q div plane d = 0" using p r assms unfolding q_def by (intro div_pos_pos_trivial) auto
  ultimately show "node d l j i div plane d = l" by (simp add: node_plane q_def add.commute)
  have "l * plane d \<le> numLayer d * plane d" using p assms by (intro mult_right_mono) auto
  then show "node d l j i < nodes d" using r by (simp add: node_plane algebra_simps)
qed

definition off_cols :: "'d Die \<Rightarrow> int \<Rightarrow> int \<Rightarrow> int \<Rightarrow> int list" where
  "off_cols d l j i =
     (if l > 0 then [node d (l - 1) j i] else []) @ (if j - 1 \<ge> 0 then [node d l (j - 1) i] else []) @
     (if i - 1 \<ge> 0 then [node d l j i - 1] else []) @ (if i + 1 < die_X d then [node d l j i + 1] else []) @
     (if j + 1 < die_Z d then [node d l (j + 1) i] else []) @ (if l < numLayer d then [node d (l + 1) j i] else [])"

lemma off_diagonal_cols: "map (\<lambda>(r, c, g). (r, c)) (off_diagonal N d l j i) =
    map (\<lambda>c. (num N (node d l j i), num N c)) (off_cols d l j i)"
  by (simp add: off_diagonal_def off_cols_def Let_def)

lemma node_steps:
  "node d (l - 1) j i = node d l j i - plane d" "node d (l + 1) j i = node d l j i + plane d"
  "node d l (j - 1) i = node d l j i - die_X d" "node d l (j + 1) i = node d l j i + die_X d"
  by (simp_all add: node_def algebra_simps)

lemma plane_order:
  assumes "die_ok d"
  shows "1 < die_X d \<Longrightarrow> 1 < plane d" "1 < die_Z d \<Longrightarrow> die_X d < plane d" "0 < die_X d" "0 < plane d"
proof -
  have *: "die_X d \<le> plane d" using node_mono_plane [OF assms] by simp
  then show "1 < die_X d \<Longrightarrow> 1 < plane d" by linarith
  show "1 < die_Z d \<Longrightarrow> die_X d < plane d" using assms by (simp add: die_ok_def)
  show "0 < die_X d" "0 < plane d" using assms by (simp_all add: die_ok_def)
qed

lemma off_cols_sorted:
  assumes "die_ok d" "0 \<le> j" "j < die_Z d" "0 \<le> i" "i < die_X d"
  shows "sorted_wrt (<) (off_cols d l j i)" "node d l j i \<notin> set (off_cols d l j i)"
proof -
  note p = plane_order [OF assms(1)]
  define P n where "P = plane d" and "n = node d l j i"
  have q: "1 < die_X d \<Longrightarrow> 1 < P" "1 < die_Z d \<Longrightarrow> die_X d < P" "0 < P" using p by (auto simp: P_def)
  show "sorted_wrt (<) (off_cols d l j i)" "node d l j i \<notin> set (off_cols d l j i)"
    using assms q p(3) unfolding off_cols_def node_steps P_def [symmetric] n_def [symmetric] by auto
qed

lemma off_cols_range:
  assumes "die_ok d" "(l, j, i) \<in> set (die_nodes d)" "c \<in> set (off_cols d l j i)"
  shows "0 \<le> c \<and> c < nodes d"
proof -
  note r = die_nodes_nth [OF assms(2)]
  have e: "node d l j i - 1 = node d l j (i - 1)" "node d l j i + 1 = node d l j (i + 1)" by (simp_all add: node_def)
  show ?thesis
    using assms(3) r node_range [OF assms(1)] unfolding off_cols_def e by (auto split: if_splits)
qed

lemma fold_minus_sum:
  fixes acc :: "'d::linordered_field"
  shows "fold (\<lambda>(_, _, g) acc. acc - g) es acc = acc - (\<Sum>(_, _, g)\<leftarrow>es. g)"
  by (induction es arbitrary: acc) (auto simp: algebra_simps)

text \<open>The conductances of a node add up to that of its connection to the environment.\<close>

lemma midx_row_sum:
  fixes N :: "('d::linordered_field) thermal_lib"
  assumes "exact_num N" "die_ok d" "(l, j, i) \<in> set (die_nodes d)"
  shows "(\<Sum>(_, _, g)\<leftarrow>midx_row N d l j i. g) = (if l = 0 then 1 / Ramb N d else 0)"
proof -
  note r = die_nodes_nth [OF assms(3)]
  have "node d l j i < plane d \<longleftrightarrow> l = 0"
    using node_range [OF assms(2) r] plane_order(4) [OF assms(2)] zdiv_eq_0_iff [of "node d l j i" "plane d"] by linarith
  then have d: "snd (snd (diagonal N d l j i)) + (\<Sum>(_, _, g)\<leftarrow>off_diagonal N d l j i. g) = (if l = 0 then 1 / Ramb N d else 0)"
    using assms(1) by (simp add: diagonal_def Let_def fold_minus_sum exact_num_def del: of_int_mult)
  have "(\<Sum>(_, _, g)\<leftarrow>midx_row N d l j i. g) = (\<Sum>(_, _, g)\<in>#mset (midx_row N d l j i). g)"
    by (simp add: sum_mset_sum_list [symmetric] case_prod_beta')
  also have "\<dots> = snd (snd (diagonal N d l j i)) + (\<Sum>(_, _, g)\<leftarrow>off_diagonal N d l j i. g)"
    by (simp add: midx_row_mset sum_mset_sum_list [symmetric] case_prod_beta')
  finally show ?thesis using d by simp
qed

lemma midx_row_entry:
  fixes N :: "('d::linordered_field) thermal_lib"
  assumes "exact_num N" "die_ok d" "(l, j, i) \<in> set (die_nodes d)" "e \<in> set (midx_row N d l j i)"
  shows "fst e = of_int (node d l j i) \<and> (\<exists>c\<ge>0. c < nodes d \<and> fst (snd e) = of_int c)"
proof -
  note r = die_nodes_nth [OF assms(3)]
  have "e = diagonal N d l j i \<or> e \<in> set (off_diagonal N d l j i)"
    using assms(4) midx_row_mset [of N d l j i] by (metis insert_iff set_mset_add_mset_insert set_mset_mset)
  then show ?thesis
  proof
    assume "e = diagonal N d l j i"
    then show ?thesis using assms(1) node_range [OF assms(2) r] by (auto simp: diagonal_def Let_def exact_num_def)
  next
    assume "e \<in> set (off_diagonal N d l j i)"
    then have "(fst e, fst (snd e)) \<in> set (map (\<lambda>(r, c, g). (r, c)) (off_diagonal N d l j i))"
      by (metis (mono_tags, lifting) case_prod_beta' image_eqI list.set_map)
    then have "(fst e, fst (snd e)) \<in> (\<lambda>c. (num N (node d l j i), num N c)) ` set (off_cols d l j i)"
      unfolding off_diagonal_cols by simp
    then show ?thesis using assms(1) off_cols_range [OF assms(2,3)] by (auto simp: exact_num_def)
  qed
qed

lemma midx_row_sorted:
  fixes N :: "('d::linordered_field) thermal_lib"
  assumes "exact_num N" "die_ok d" "(l, j, i) \<in> set (die_nodes d)"
  shows "sorted_wrt (\<lambda>a b. fst (snd a) < fst (snd b)) (midx_row N d l j i)"
proof -
  note r = die_nodes_nth [OF assms(3)]
  have m: "map (fst \<circ> snd) (off_diagonal N d l j i) = map of_int (off_cols d l j i)"
    using arg_cong [OF off_diagonal_cols [of N d l j i], of "map snd"] assms(1)
    by (simp add: exact_num_def comp_def case_prod_beta')
  have "sorted_wrt (<) (map (fst \<circ> snd) (off_diagonal N d l j i))"
    unfolding m using off_cols_sorted(1) [OF assms(2) r(3-6), of l] by (simp add: sorted_wrt_map)
  moreover have "\<forall>x\<in>set (off_diagonal N d l j i). fst (snd x) \<noteq> fst (snd (diagonal N d l j i))"
  proof
    fix x assume "x \<in> set (off_diagonal N d l j i)"
    then have "fst (snd x) \<in> set (map (fst \<circ> snd) (off_diagonal N d l j i))" by simp
    then show "fst (snd x) \<noteq> fst (snd (diagonal N d l j i))"
      unfolding m using off_cols_sorted(2) [OF assms(2) r(3-6), of l] assms(1) by (auto simp: diagonal_def Let_def exact_num_def)
  qed
  ultimately show ?thesis
    unfolding midx_row_def sorted_wrt_rev by (intro bubble_back_sorted) (simp_all add: sorted_wrt_rev sorted_wrt_map comp_def)
qed

lemma sorted_wrt_concat:
  assumes "\<And>xs. xs \<in> set rs \<Longrightarrow> sorted_wrt R xs" "sorted_wrt (\<lambda>xs ys. \<forall>x\<in>set xs. \<forall>y\<in>set ys. R x y) rs"
  shows "sorted_wrt R (concat rs)"
  using assms by (induction rs) (auto simp: sorted_wrt_append)

lemma die_nodes_sorted:
  assumes "die_ok d"
  shows "sorted_wrt (\<lambda>a b. (case a of (l, j, i) \<Rightarrow> node d l j i) < (case b of (l, j, i) \<Rightarrow> node d l j i)) (die_nodes d)"
  using sorted_wrt_upto [of 0 "nodes d - 1"] unfolding die_nodes_rows [OF assms, symmetric] sorted_wrt_map .

definition entry_less :: "('d::linordered_field) entry \<Rightarrow> 'd entry \<Rightarrow> bool" where
  "entry_less a b \<longleftrightarrow> fst a < fst b \<or> fst a = fst b \<and> fst (snd a) < fst (snd b)"

lemma midx_entries_sorted:
  fixes N :: "('d::linordered_field) thermal_lib"
  assumes "exact_num N" "die_ok d"
  shows "sorted_wrt entry_less (midx_entries N d)"
  unfolding midx_entries_def
proof (rule sorted_wrt_concat)
  fix es assume "es \<in> set (map (\<lambda>(l, j, i). midx_row N d l j i) (die_nodes d))"
  then obtain l j i where n: "(l, j, i) \<in> set (die_nodes d)" "es = midx_row N d l j i" by auto
  show "sorted_wrt entry_less es"
    unfolding n(2) by (rule sorted_wrt_mono_rel [OF _ midx_row_sorted [OF assms n(1)]])
      (use midx_row_entry [OF assms n(1)] in \<open>auto simp: entry_less_def\<close>)
next
  show "sorted_wrt (\<lambda>xs ys. \<forall>x\<in>set xs. \<forall>y\<in>set ys. entry_less x y)
      (map (\<lambda>(l, j, i). midx_row N d l j i) (die_nodes d))"
    unfolding sorted_wrt_map
    by (rule sorted_wrt_mono_rel [OF _ die_nodes_sorted [OF assms(2)]])
      (auto simp: entry_less_def dest!: midx_row_entry [OF assms])
qed

section \<open>The number of entries\<close>

definition neighbours :: "'d Die \<Rightarrow> int \<Rightarrow> int \<Rightarrow> int \<Rightarrow> int" where
  "neighbours d l j i =
     (if i - 1 \<ge> 0 then 1 else 0) + (if i + 1 < die_X d then 1 else 0) +
     (if j - 1 \<ge> 0 then 1 else 0) + (if j + 1 < die_Z d then 1 else 0) +
     (if l < numLayer d then 1 else 0) + (if l > 0 then 1 else 0)"

lemma fold_add_sum: "fold (\<lambda>x c. c + f x) xs = (\<lambda>c :: int. c + (\<Sum>x\<leftarrow>xs. f x))"
  by (induction xs) (auto simp: fun_eq_iff)

lemma int_sum_list: "int (\<Sum>x\<leftarrow>xs. f x) = (\<Sum>x\<leftarrow>xs. int (f x))"
  by (induction xs) auto

lemma sum_list_concat: "sum_list (concat xss) = (\<Sum>xs\<leftarrow>xss. sum_list xs)"
  by (induction xss) auto

lemma sum_list_upto: "(\<Sum>x\<leftarrow>[a..b]. f x) = sum f {a..b}"
  using sum.distinct_set_conv_list [of "[a..b]" f] by simp

lemma midx_count_sum:
  "midx_count d = (\<Sum>l\<in>{0..numLayer d}. \<Sum>j\<in>{0..die_Z d - 1}. \<Sum>i\<in>{0..die_X d - 1}. neighbours d l j i) + nodes d"
proof -
  have "midx_count d = fold (\<lambda>l. fold (\<lambda>i. fold (\<lambda>j c. c + neighbours d l j i)
      [0..die_Z d - 1]) [0..die_X d - 1]) [0..numLayer d] 0 + nodes d"
    by (simp add: midx_count_def neighbours_def add.assoc)
  also have "\<dots> = (\<Sum>l\<in>{0..numLayer d}. \<Sum>i\<in>{0..die_X d - 1}. \<Sum>j\<in>{0..die_Z d - 1}. neighbours d l j i) + nodes d"
    by (simp add: fold_add_sum sum_list_upto)
  also have "\<dots> = (\<Sum>l\<in>{0..numLayer d}. \<Sum>j\<in>{0..die_Z d - 1}. \<Sum>i\<in>{0..die_X d - 1}. neighbours d l j i) + nodes d"
    by (intro arg_cong2 [where f = "(+)"] sum.cong sum.swap refl)
  finally show ?thesis .
qed

lemma midx_row_length: "int (length (midx_row N d l j i)) = neighbours d l j i + 1"
proof -
  have "length (midx_row N d l j i) = Suc (length (off_diagonal N d l j i))"
    using arg_cong [OF midx_row_mset [of N d l j i], of size] by simp
  moreover have "int (length (off_diagonal N d l j i)) = neighbours d l j i"
    by (simp add: off_diagonal_def neighbours_def Let_def)
  ultimately show ?thesis by simp
qed

lemma midx_entries_length:
  assumes "die_ok d"
  shows "int (length (midx_entries N d)) = midx_count d"
proof -
  have "int (length (midx_entries N d)) = (\<Sum>(l, j, i)\<leftarrow>die_nodes d. neighbours d l j i + 1)"
    by (simp add: midx_entries_def length_concat comp_def case_prod_beta' midx_row_length int_sum_list)
  also have "\<dots> = (\<Sum>l\<in>{0..numLayer d}. \<Sum>j\<in>{0..die_Z d - 1}. \<Sum>i\<in>{0..die_X d - 1}. neighbours d l j i + 1)"
    by (simp add: die_nodes_def sum_list_concat map_concat comp_def sum_list_upto)
  also have "\<dots> = midx_count d"
    using assms by (simp add: midx_count_sum sum.distrib die_ok_def algebra_simps)
  finally show ?thesis .
qed

lemma calculate_Midx_array_total:
  "die_ok d \<Longrightarrow> calculate_Midx_array N d = ret (midx_entries N d)"
  using midx_entries_length [of d N, symmetric] by (simp add: calculate_Midx_array_def Let_def)

section \<open>Compressed rows\<close>

definition midx_rows :: "('d::{plus,minus,times,inverse,ord}) thermal_lib \<Rightarrow> 'd Die \<Rightarrow> 'd entry list list" where
  "midx_rows N d = map (\<lambda>(l, j, i). midx_row N d l j i) (die_nodes d)"

definition row_start :: "'a list list \<Rightarrow> nat \<Rightarrow> nat" where
  "row_start rs c = length (concat (take c rs))"

lemma length_midx_rows: "die_ok d \<Longrightarrow> length (midx_rows N d) = nat (nodes d)"
  using arg_cong [OF die_nodes_rows, of d length] by (simp add: midx_rows_def)

lemma midx_rows_nth:
  assumes "die_ok d" "c < nat (nodes d)"
  obtains l j i where "(l, j, i) \<in> set (die_nodes d)" "midx_rows N d ! c = midx_row N d l j i" "node d l j i = int c"
proof -
  have l: "c < length (die_nodes d)" using length_midx_rows [OF assms(1)] assms(2) by (simp add: midx_rows_def)
  obtain l j i where n: "die_nodes d ! c = (l, j, i)" by (metis prod_cases3)
  have "map (\<lambda>(l, j, i). node d l j i) (die_nodes d) ! c = int c"
    unfolding die_nodes_rows [OF assms(1)] using assms(2) by simp
  then show thesis using that [of l j i] l n nth_mem [OF l] by (simp add: midx_rows_def)
qed

lemma row_start_Suc: "c < length rs \<Longrightarrow> row_start rs (Suc c) = row_start rs c + length (rs ! c)"
  by (simp add: row_start_def take_Suc_conv_app_nth)

lemma row_start_0 [simp]: "row_start rs 0 = 0"
  by (simp add: row_start_def)

lemma row_start_all: "row_start rs (length rs) = length (concat rs)"
  by (simp add: row_start_def)

lemma nth_row:
  assumes "c < length rs" "k < length (rs ! c)"
  shows "concat rs ! (row_start rs c + k) = rs ! c ! k"
proof -
  have "concat rs = concat (take c rs) @ rs ! c @ concat (drop (Suc c) rs)"
    by (metis Cons_nth_drop_Suc append_take_drop_id assms(1) concat.simps(2) concat_append)
  then show ?thesis using assms(2) by (simp add: row_start_def nth_append)
qed

definition rows_of :: "('d::linordered_field) entry list list \<Rightarrow> bool" where
  "rows_of rs \<longleftrightarrow> (\<forall>c<length rs. rs ! c \<noteq> [] \<and> (\<forall>e\<in>set (rs ! c). fst e = of_int (int c)))"

definition scan_row ::
    "('d::{plus,minus,times,inverse,ord}) thermal_lib \<Rightarrow> 'd entry list \<Rightarrow> nat \<Rightarrow> int \<times> int option list \<Rightarrow> (int \<times> int option list) run" where
  "scan_row N es i s =
     (case s of (row, xa) \<Rightarrow> let r = fst (es ! i)
        in if num N row < r
           then run_bind (store (d_trunc N r) (Some (int i)) xa) (\<lambda>xa'. ret (d_trunc N r, xa'))
           else ret (row, xa))"

lemma row_starts_scan:
  "row_starts N d es = run_bind (for_run (scan_row N es) [0..<length es] (- 1, replicate (nat (nodes d + 1)) None))
     (\<lambda>(row, xa). store (row + 1) (Some (int (length es))) xa)"
proof -
  have "scan_row N es = (\<lambda>i (row, xa). let r = fst (es ! i)
        in if num N row < r
           then run_bind (store (d_trunc N r) (Some (int i)) xa) (\<lambda>xa'. ret (d_trunc N r, xa'))
           else ret (row, xa))"
    by (simp add: fun_eq_iff scan_row_def)
  then show ?thesis by (simp add: row_starts_def)
qed

lemma scan_same_row:
  fixes N :: "('d::linordered_field) thermal_lib"
  assumes "exact_num N" "\<And>i. i \<in> set is \<Longrightarrow> fst (es ! i) = of_int row"
  shows "for_run (scan_row N es) is (row, xa) = ret (row, xa)"
  using assms(2) by (induction "is") (use assms(1) in \<open>simp_all add: scan_row_def exact_num_def\<close>)

lemma scan_rows:
  fixes N :: "('d::linordered_field) thermal_lib"
  assumes "exact_num N" "rows_of rs" "m \<le> length rs"
  shows "for_run (scan_row N (concat rs)) [0..<row_start rs m] (- 1, replicate (length rs + 1) None) =
    ret (int m - 1, map (\<lambda>c. if c < m then Some (int (row_start rs c)) else None) [0..<length rs + 1])"
  using assms(3)
proof (induction m)
  case 0
  show ?case by (simp add: map_replicate_const)
next
  case (Suc m)
  then have m: "m < length rs" by simp
  define es where "es = concat rs"
  define k where "k = row_start rs m"
  obtain e r where e: "rs ! m = e # r" using assms(2) m by (cases "rs ! m") (auto simp: rows_of_def)
  have at: "fst (es ! (k + i)) = of_int (int m)" if "i < length (rs ! m)" for i
    using nth_row [OF m that] assms(2) m that nth_mem [OF that] by (auto simp: rows_of_def es_def k_def)
  define xa where "xa = map (\<lambda>c. if c < m then Some (int (row_start rs c)) else None) [0..<length rs + 1]"
  have tr: "d_trunc N (of_int (int m)) = int m" using assms(1) unfolding exact_num_def by (metis of_nat_0_le_iff)
  have one: "scan_row N es k (int m - 1, xa) = ret (int m, xa[m := Some (int k)])"
    using at [of 0] assms(1) m tr by (simp add: e scan_row_def exact_num_def store_def xa_def Let_def)
  have xa': "xa[m := Some (int k)] = map (\<lambda>c. if c < Suc m then Some (int (row_start rs c)) else None) [0..<length rs + 1]"
    by (rule nth_equalityI) (auto simp: xa_def k_def nth_list_update less_Suc_eq simp del: upt_Suc)
  have split: "[0..<row_start rs (Suc m)] = [0..<k] @ k # [Suc k..<k + length (rs ! m)]"
  proof -
    have "[0..<k + length (rs ! m)] = [0..<k] @ [k..<k + length (rs ! m)]" by (rule upt_add_eq_append) simp
    also have "[k..<k + length (rs ! m)] = k # [Suc k..<k + length (rs ! m)]" by (rule upt_conv_Cons) (simp add: e)
    finally show ?thesis using row_start_Suc [OF m] by (simp add: k_def)
  qed
  have rest: "for_run (scan_row N es) [Suc k..<k + length (rs ! m)] (int m, ys) = ret (int m, ys)" for ys
  proof (rule scan_same_row [OF assms(1)])
    fix i assume "i \<in> set [Suc k..<k + length (rs ! m)]"
    then show "fst (es ! i) = of_int (int m)" using at [of "i - k"] by auto
  qed
  show ?case
    using Suc.IH m one rest xa' unfolding split es_def [symmetric] k_def [symmetric] xa_def [symmetric]
    by (simp add: for_run_append)
qed

lemma row_starts_rows:
  fixes N :: "('d::linordered_field) thermal_lib"
  assumes "exact_num N" "rows_of rs" "nodes d = int (length rs)"
  shows "row_starts N d (concat rs) = ret (map (\<lambda>c. Some (int (row_start rs c))) [0..<length rs + 1])"
proof -
  let ?n = "length rs"
  have n: "nat (nodes d + 1) = ?n + 1" using assms(3) by simp
  have "row_starts N d (concat rs) = store (int ?n) (Some (int (row_start rs ?n)))
      (map (\<lambda>c. if c < ?n then Some (int (row_start rs c)) else None) [0..<?n + 1])"
    using scan_rows [OF assms(1,2) order_refl] unfolding row_starts_scan n by (simp add: row_start_all)
  also have "\<dots> = ret (map (\<lambda>c. Some (int (row_start rs c))) [0..<?n + 1])"
    by (simp add: store_def list_update_append)
  finally show ?thesis .
qed

lemma midx_rows_ok:
  fixes N :: "('d::linordered_field) thermal_lib"
  assumes "exact_num N" "die_ok d"
  shows "rows_of (midx_rows N d)"
  unfolding rows_of_def
proof (intro allI impI)
  fix c assume "c < length (midx_rows N d)"
  then have "c < nat (nodes d)" by (simp add: length_midx_rows [OF assms(2)])
  then obtain l j i where r: "(l, j, i) \<in> set (die_nodes d)" "midx_rows N d ! c = midx_row N d l j i" "node d l j i = int c"
    using midx_rows_nth [OF assms(2)] by metis
  have "midx_row N d l j i \<noteq> []" using midx_row_mset [of N d l j i] by auto
  then show "midx_rows N d ! c \<noteq> [] \<and> (\<forall>e\<in>set (midx_rows N d ! c). fst e = of_int (int c))"
    using midx_row_entry [OF assms r(1)] r(2,3) by auto
qed

section \<open>The matrix is symmetric\<close>

definition swap_entry :: "'d entry \<Rightarrow> 'd entry" where
  "swap_entry e = (case e of (r, c, g) \<Rightarrow> (c, r, g))"

lemma swap_entry_simps [simp]:
  "fst (swap_entry e) = fst (snd e)" "fst (snd (swap_entry e)) = fst e" "snd (snd (swap_entry e)) = snd (snd e)"
  "swap_entry (swap_entry e) = e"
  by (simp_all add: swap_entry_def split: prod.splits)

lemma die_nodes_iff:
  "(l, j, i) \<in> set (die_nodes d) \<longleftrightarrow> 0 \<le> l \<and> l \<le> numLayer d \<and> 0 \<le> j \<and> j < die_Z d \<and> 0 \<le> i \<and> i < die_X d"
  by (auto simp: die_nodes_def image_iff)

definition heat_link :: "('d::linordered_field) thermal_lib \<Rightarrow> int \<Rightarrow> int \<Rightarrow> 'd \<Rightarrow> 'd entry" where
  "heat_link N r c v = (num N r, num N c, num N (- 1) / v)"

lemma swap_link [simp]: "swap_entry (heat_link N r c v) = heat_link N c r v"
  by (simp add: swap_entry_def heat_link_def)

lemma set_off_diagonal:
  fixes N :: "('d::linordered_field) thermal_lib"
  defines "mid \<equiv> \<lambda>d i j l. Rvert N d i j l / num N 2 + Rvert N d i j (l - 1) / num N 2"
  shows "set (off_diagonal N d l j i) =
     (if l > 0 then {heat_link N (node d l j i) (node d (l - 1) j i) (mid d i j l)} else {}) \<union>
     (if j > 0 then {heat_link N (node d l j i) (node d l (j - 1) i) (snd (Rhori N d l))} else {}) \<union>
     (if i > 0 then {heat_link N (node d l j i) (node d l j (i - 1)) (fst (Rhori N d l))} else {}) \<union>
     (if i + 1 < die_X d then {heat_link N (node d l j i) (node d l j (i + 1)) (fst (Rhori N d l))} else {}) \<union>
     (if j + 1 < die_Z d then {heat_link N (node d l j i) (node d l (j + 1) i) (snd (Rhori N d l))} else {}) \<union>
     (if l < numLayer d then {heat_link N (node d l j i) (node d (l + 1) j i) (mid d i j (l + 1))} else {})"
proof -
  have e: "node d l j i - 1 = node d l j (i - 1)" "node d l j i + 1 = node d l j (i + 1)" by (simp_all add: node_def)
  show ?thesis
    unfolding off_diagonal_def Let_def e mid_def heat_link_def [symmetric] by (auto simp: add.commute)
qed

lemma off_diagonal_symmetric:
  fixes N :: "('d::linordered_field) thermal_lib"
  assumes "(l, j, i) \<in> set (die_nodes d)" "e \<in> set (off_diagonal N d l j i)"
  shows "\<exists>(l', j', i')\<in>set (die_nodes d). swap_entry e \<in> set (off_diagonal N d l' j' i')"
proof -
  have b: "0 \<le> l" "l \<le> numLayer d" "0 \<le> j" "j < die_Z d" "0 \<le> i" "i < die_X d"
    using assms(1) by (auto simp: die_nodes_iff)
  let ?mid = "\<lambda>l. Rvert N d i j l / num N 2 + Rvert N d i j (l - 1) / num N 2"
  let ?n = "node d"
  consider "l > 0" "e = heat_link N (?n l j i) (?n (l - 1) j i) (?mid l)"
    | "j > 0" "e = heat_link N (?n l j i) (?n l (j - 1) i) (snd (Rhori N d l))"
    | "i > 0" "e = heat_link N (?n l j i) (?n l j (i - 1)) (fst (Rhori N d l))"
    | "i + 1 < die_X d" "e = heat_link N (?n l j i) (?n l j (i + 1)) (fst (Rhori N d l))"
    | "j + 1 < die_Z d" "e = heat_link N (?n l j i) (?n l (j + 1) i) (snd (Rhori N d l))"
    | "l < numLayer d" "e = heat_link N (?n l j i) (?n (l + 1) j i) (?mid (l + 1))"
    using assms(2) unfolding set_off_diagonal by (auto split: if_splits)
  then show ?thesis
  proof cases
    case 1 then show ?thesis using b by (intro bexI [of _ "(l - 1, j, i)"]) (auto simp: set_off_diagonal die_nodes_iff)
  next
    case 2 then show ?thesis using b by (intro bexI [of _ "(l, j - 1, i)"]) (auto simp: set_off_diagonal die_nodes_iff)
  next
    case 3 then show ?thesis using b by (intro bexI [of _ "(l, j, i - 1)"]) (auto simp: set_off_diagonal die_nodes_iff)
  next
    case 4 then show ?thesis using b by (intro bexI [of _ "(l, j, i + 1)"]) (auto simp: set_off_diagonal die_nodes_iff)
  next
    case 5 then show ?thesis using b by (intro bexI [of _ "(l, j + 1, i)"]) (auto simp: set_off_diagonal die_nodes_iff)
  next
    case 6 then show ?thesis using b by (intro bexI [of _ "(l + 1, j, i)"]) (auto simp: set_off_diagonal die_nodes_iff)
  qed
qed

lemma set_midx_row: "set (midx_row N d l j i) = insert (diagonal N d l j i) (set (off_diagonal N d l j i))"
  using midx_row_mset [of N d l j i] by (metis set_mset_add_mset_insert set_mset_mset)

lemma midx_symmetric:
  fixes N :: "('d::linordered_field) thermal_lib"
  assumes "e \<in> set (midx_entries N d)"
  shows "swap_entry e \<in> set (midx_entries N d)"
proof -
  obtain l j i where n: "(l, j, i) \<in> set (die_nodes d)" "e \<in> set (midx_row N d l j i)"
    using assms by (auto simp: midx_entries_def)
  show ?thesis
  proof (cases "e = diagonal N d l j i")
    case True
    then have "swap_entry e = e" by (simp add: diagonal_def Let_def swap_entry_def)
    then show ?thesis using assms by simp
  next
    case False
    then have "e \<in> set (off_diagonal N d l j i)" using n(2) set_midx_row [of N d l j i] by simp
    from off_diagonal_symmetric [OF n(1) this] obtain l' j' i' where
      "(l', j', i') \<in> set (die_nodes d)" "swap_entry e \<in> set (off_diagonal N d l' j' i')" by auto
    then have "swap_entry e \<in> set (midx_row N d l' j' i')" using set_midx_row [of N d l' j' i'] by simp
    then show ?thesis using \<open>(l', j', i') \<in> _\<close> by (auto simp: midx_entries_def)
  qed
qed

lemma sorted_wrt_irrefl_distinct: "sorted_wrt R xs \<Longrightarrow> (\<And>x. \<not> R x x) \<Longrightarrow> distinct xs"
  by (induction xs) auto

lemma midx_sum_swap:
  fixes N :: "('d::linordered_field) thermal_lib"
  assumes "exact_num N" "die_ok d"
  shows "(\<Sum>e\<leftarrow>midx_entries N d. f e) = (\<Sum>e\<leftarrow>midx_entries N d. f (swap_entry e) :: 'd)"
proof -
  let ?S = "set (midx_entries N d)"
  have dst: "distinct (midx_entries N d)"
    by (rule sorted_wrt_irrefl_distinct [OF midx_entries_sorted [OF assms]]) (simp add: entry_less_def)
  have "(\<Sum>e\<in>?S. f e) = (\<Sum>e\<in>?S. f (swap_entry e))"
    by (rule sum.reindex_bij_witness [of _ swap_entry swap_entry]) (auto intro: midx_symmetric)
  then show ?thesis using dst by (simp add: sum_list_distinct_conv_sum_set)
qed

end
