(* ===== verification/Thermal_Balance.thy ===== *)
theory Thermal_Balance
  imports Thermal_Matrix
begin

text \<open>
  What the two solvers compute with the matrix: the right-hand sides they build, the balance of
  power and heat that the solution of the steady system has, and the time stepping of the
  transient solver, which is the explicit Euler method and obeys the first law.
\<close>

section \<open>Writing an array\<close>

lemma sum_list_store:
  fixes ys :: "('d::ab_group_add) list"
  shows "k < length ys \<Longrightarrow> sum_list (ys[k := v]) = sum_list ys + v - ys ! k"
  by (induction ys arbitrary: k) (auto simp: nth_Cons' less_Suc_eq_0_disj split: nat.splits)

lemma store_all:
  fixes ys :: "('d::ab_group_add) list"
  assumes "distinct (map k xs)" "\<And>x. x \<in> set xs \<Longrightarrow> 0 \<le> k x \<and> k x < int (length ys) \<and> ys ! nat (k x) = 0"
  shows "\<exists>zs. for_run (\<lambda>x. store (k x) (v x)) xs ys = ret zs \<and> length zs = length ys \<and>
    sum_list zs = sum_list ys + (\<Sum>x\<leftarrow>xs. v x) \<and> (\<forall>x\<in>set xs. zs ! nat (k x) = v x) \<and>
    (\<forall>p<length ys. int p \<notin> k ` set xs \<longrightarrow> zs ! p = ys ! p)"
  using assms
proof (induction xs arbitrary: ys)
  case (Cons x xs)
  define us where "us = ys[nat (k x) := v x]"
  have kx: "0 \<le> k x" "nat (k x) < length ys" "ys ! nat (k x) = 0" using Cons.prems(2) [of x] by auto
  have s: "store (k x) (v x) ys = ret us" using Cons.prems(2) [of x] by (simp add: store_def us_def)
  have "\<exists>zs. for_run (\<lambda>x. store (k x) (v x)) xs us = ret zs \<and> length zs = length us \<and>
    sum_list zs = sum_list us + (\<Sum>x\<leftarrow>xs. v x) \<and> (\<forall>x\<in>set xs. zs ! nat (k x) = v x) \<and>
    (\<forall>p<length us. int p \<notin> k ` set xs \<longrightarrow> zs ! p = us ! p)"
  proof (rule Cons.IH)
    show "distinct (map k xs)" using Cons.prems(1) by simp
    fix y assume y: "y \<in> set xs"
    then have "k y \<noteq> k x" using Cons.prems(1) by (auto simp: image_iff)
    then show "0 \<le> k y \<and> k y < int (length us) \<and> us ! nat (k y) = 0"
      using Cons.prems(2) [of y] y kx(1) by (auto simp: us_def nth_list_update)
  qed
  then obtain zs where z: "for_run (\<lambda>x. store (k x) (v x)) xs us = ret zs" "length zs = length us"
    "sum_list zs = sum_list us + (\<Sum>x\<leftarrow>xs. v x)" "\<forall>x\<in>set xs. zs ! nat (k x) = v x"
    "\<forall>p<length us. int p \<notin> k ` set xs \<longrightarrow> zs ! p = us ! p" by blast
  have kn: "int (nat (k x)) \<notin> k ` set xs" using Cons.prems(1) kx(1) by force
  have "zs ! nat (k x) = v x" using z(5) kn kx(2) by (simp add: us_def)
  then show ?case
    using s z kx by (auto simp: us_def sum_list_store nth_list_update)
qed simp

lemma for_run_nest: "for_run (\<lambda>x. for_run (g x) ys) xs s = for_run (\<lambda>(x, y). g x y) (List.product xs ys) s"
proof -
  have m: "for_run (\<lambda>(x, y). g x y) (map (Pair x) zs) t = for_run (g x) zs t" for x zs t
    by (induction zs arbitrary: t) (auto intro!: run_bind_cong)
  show ?thesis
    by (induction xs arbitrary: s) (auto simp: for_run_append m intro!: run_bind_cong)
qed

lemma for_run_nest3:
  "for_run (\<lambda>x. for_run (\<lambda>y. for_run (g x y) zs) ys) xs s =
   for_run (\<lambda>(x, y, z). g x y z) (List.product xs (List.product ys zs)) s"
proof -
  have "(\<lambda>x. for_run (\<lambda>y. for_run (g x y) zs) ys) = (\<lambda>x. for_run (\<lambda>(y, z). g x y z) (List.product ys zs))"
    by (simp add: fun_eq_iff for_run_nest)
  then show ?thesis
    using for_run_nest [of "\<lambda>x. \<lambda>(y, z). g x y z" "List.product ys zs" xs s] by simp
qed

section \<open>The right-hand sides\<close>

lemma ambient_rhs_total:
  fixes N :: "('d::linordered_field) thermal_lib"
  assumes "exact_num N" "die_ok d"
  shows "\<exists>ys. ambient_rhs N d Tamb = ret ys \<and> length ys = nat (nodes d) \<and>
    sum_list ys = of_int (plane d) * (Tamb / Ramb N d) \<and>
    (\<forall>p<nat (nodes d). ys ! p = (if int p < plane d then Tamb / Ramb N d else 0))"
proof -
  let ?z = "replicate (nat (nodes d)) (0 :: 'd)"
  have p: "0 < plane d" "plane d \<le> nodes d" using assms(2) plane_order(4) by (simp_all add: die_ok_def)
  have "\<exists>ys. for_run (\<lambda>i. store i (Tamb / Ramb N d)) [0..plane d - 1] ?z = ret ys \<and> length ys = length ?z \<and>
    sum_list ys = sum_list ?z + (\<Sum>i\<leftarrow>[0..plane d - 1]. Tamb / Ramb N d) \<and>
    (\<forall>i\<in>set [0..plane d - 1]. ys ! nat i = Tamb / Ramb N d) \<and>
    (\<forall>q<length ?z. int q \<notin> (\<lambda>i. i) ` set [0..plane d - 1] \<longrightarrow> ys ! q = ?z ! q)"
    by (rule store_all) (use p in auto)
  then obtain ys where y: "for_run (\<lambda>i. store i (Tamb / Ramb N d)) [0..plane d - 1] ?z = ret ys" "length ys = length ?z"
    "sum_list ys = sum_list ?z + (\<Sum>i\<leftarrow>[0..plane d - 1]. Tamb / Ramb N d)"
    "\<forall>i\<in>set [0..plane d - 1]. ys ! nat i = Tamb / Ramb N d"
    "\<forall>q<length ?z. int q \<notin> (\<lambda>i. i) ` set [0..plane d - 1] \<longrightarrow> ys ! q = ?z ! q" by blast
  have "ys ! q = (if int q < plane d then Tamb / Ramb N d else 0)" if "q < nat (nodes d)" for q
    using y(4) [rule_format, of "int q"] y(5) [rule_format, of q] that by auto
  moreover have "sum_list ys = of_int (plane d) * (Tamb / Ramb N d)"
    using y(3) p by (simp add: sum_list_triv sum_list_replicate)
  moreover have "ambient_rhs N d Tamb = ret ys" using y(1) assms(1) by (simp add: ambient_rhs_def exact_num_def)
  ultimately show ?thesis using y(2) by auto
qed

lemma radix_inj:
  fixes a b a' b' :: int
  assumes "a * n + b = a' * n + b'" "0 \<le> b" "b < n" "0 \<le> b'" "b' < n"
  shows "a = a' \<and> b = b'"
proof -
  have "(a * n + b) div n = a" "(a' * n + b') div n = a'" using assms(2-5) by simp_all
  then show ?thesis using assms(1) by auto
qed

lemma cell_range:
  fixes i j X Z :: int
  assumes "0 \<le> j" "j < Z" "0 \<le> i" "i < X"
  shows "0 \<le> j * X + i \<and> j * X + i < X * Z"
proof -
  have "j * X \<le> (Z - 1) * X" using assms by (intro mult_right_mono) auto
  then show ?thesis using assms by (simp add: algebra_simps)
qed

text \<open>The cells of the power map are written to places of their own outside the heat sink.\<close>

definition power_cells :: "'d Die \<Rightarrow> (int \<times> int \<times> int) list" where
  "power_cells d = List.product [0..die_P d - 1] (List.product [0..die_X d - 1] [0..die_Z d - 1])"

definition power_sum :: "'d Die \<Rightarrow> ('d::linordered_field) power \<Rightarrow> 'd" where
  "power_sum d pm = (\<Sum>(l, i, j)\<leftarrow>power_cells d. power_at pm i j l)"

lemma power_stored:
  fixes N :: "('d::linordered_field) thermal_lib"
  assumes "exact_num N" "die_ok d" "ambient_rhs N d Tamb = ret ys"
    and "distinct (map k (power_cells d))" "mset xs = mset (power_cells d)"
    and "\<And>l i j. (l, i, j) \<in> set (power_cells d) \<Longrightarrow> \<exists>q. k (l, i, j) = plane d * (layerP l + 1) + q \<and> 0 \<le> q \<and> q < plane d"
  shows "\<exists>zs. for_run (\<lambda>x. store (k x) (case x of (l, i, j) \<Rightarrow> power_at pm i j l)) xs ys = ret zs \<and>
    length zs = nat (nodes d) \<and> sum_list zs = of_int (plane d) * (Tamb / Ramb N d) + power_sum d pm \<and>
    (\<forall>(l, i, j)\<in>set (power_cells d). zs ! nat (k (l, i, j)) = power_at pm i j l) \<and>
    (\<forall>p<nat (nodes d). int p \<notin> k ` set (power_cells d) \<longrightarrow> zs ! p = (if int p < plane d then Tamb / Ramb N d else 0))"
proof -
  have y: "length ys = nat (nodes d)" "sum_list ys = of_int (plane d) * (Tamb / Ramb N d)"
    "\<forall>p<nat (nodes d). ys ! p = (if int p < plane d then Tamb / Ramb N d else 0)"
    using ambient_rhs_total [OF assms(1,2), of Tamb] assms(3) by auto
  let ?v = "\<lambda>(l, i, j). power_at pm i j l"
  have set: "set xs = set (power_cells d)" using assms(5) by (rule mset_eq_setD)
  have "\<exists>zs. for_run (\<lambda>x. store (k x) (?v x)) xs ys = ret zs \<and> length zs = length ys \<and>
    sum_list zs = sum_list ys + (\<Sum>x\<leftarrow>xs. ?v x) \<and> (\<forall>x\<in>set xs. zs ! nat (k x) = ?v x) \<and>
    (\<forall>p<length ys. int p \<notin> k ` set xs \<longrightarrow> zs ! p = ys ! p)"
  proof (rule store_all)
    show "distinct (map k xs)"
      using assms(4,5) by (metis mset_eq_imp_distinct_iff mset_map)
    fix x assume x: "x \<in> set xs"
    obtain l i j where e: "x = (l, i, j)" by (rule prod_cases3)
    then have l: "0 \<le> l" "l \<le> die_P d - 1" using x set by (auto simp: power_cells_def)
    obtain q where q: "k x = plane d * (layerP l + 1) + q" "0 \<le> q" "q < plane d" using assms(6) x e set by blast
    have "plane d * (layerP l + 1) \<le> plane d * numLayer d" "plane d * 1 \<le> plane d * (layerP l + 1)"
      using plane_order(4) [OF assms(2)] l by (intro mult_left_mono; simp add: layerP_def)+
    then have "plane d \<le> k x" "k x < nodes d" using q by (auto simp: algebra_simps)
    then show "0 \<le> k x \<and> k x < int (length ys) \<and> ys ! nat (k x) = 0"
      using y(1,3) plane_order(4) [OF assms(2)] by auto
  qed
  then obtain zs where z: "for_run (\<lambda>x. store (k x) (?v x)) xs ys = ret zs" "length zs = length ys"
      "sum_list zs = sum_list ys + (\<Sum>x\<leftarrow>xs. ?v x)" "\<forall>x\<in>set xs. zs ! nat (k x) = ?v x"
      "\<forall>p<length ys. int p \<notin> k ` set xs \<longrightarrow> zs ! p = ys ! p" by blast
  have "(\<Sum>x\<leftarrow>xs. ?v x) = power_sum d pm"
    unfolding power_sum_def sum_mset_sum_list [symmetric] mset_map assms(5) ..
  moreover have "\<forall>(l, i, j)\<in>set (power_cells d). zs ! nat (k (l, i, j)) = power_at pm i j l"
    using z(4) unfolding set by auto
  moreover have "\<forall>p<nat (nodes d). int p \<notin> k ` set (power_cells d) \<longrightarrow> zs ! p = (if int p < plane d then Tamb / Ramb N d else 0)"
    using z(5) y(1,3) unfolding set by simp
  ultimately show ?thesis using y(1,2) z(1-3) by auto
qed

lemma steady_key:
  assumes "die_ok d"
  shows "distinct (map (\<lambda>(l, i, j). plane d * (layerP l + 1) + j * die_X d + i) (power_cells d))"
    "(l, i, j) \<in> set (power_cells d) \<Longrightarrow>
       \<exists>q. plane d * (layerP l + 1) + j * die_X d + i = plane d * (layerP l + 1) + q \<and> 0 \<le> q \<and> q < plane d"
proof -
  have r: "0 \<le> j * die_X d + i \<and> j * die_X d + i < plane d" if "(l, i, j) \<in> set (power_cells d)" for l i j
    using that cell_range [of j "die_Z d" i "die_X d"] by (auto simp: power_cells_def)
  then show "(l, i, j) \<in> set (power_cells d) \<Longrightarrow>
       \<exists>q. plane d * (layerP l + 1) + j * die_X d + i = plane d * (layerP l + 1) + q \<and> 0 \<le> q \<and> q < plane d"
    by (intro exI [of _ "j * die_X d + i"]) auto
  show "distinct (map (\<lambda>(l, i, j). plane d * (layerP l + 1) + j * die_X d + i) (power_cells d))"
    unfolding distinct_map
  proof (intro conjI inj_onI)
    show "distinct (power_cells d)" by (simp add: power_cells_def distinct_product)
    fix x y assume xy: "x \<in> set (power_cells d)" "y \<in> set (power_cells d)"
      "(\<lambda>(l, i, j). plane d * (layerP l + 1) + j * die_X d + i) x = (\<lambda>(l, i, j). plane d * (layerP l + 1) + j * die_X d + i) y"
    obtain l i j l' i' j' where e: "x = (l, i, j)" "y = (l', i', j')" by (metis prod_cases3)
    have "layerP l + 1 = layerP l' + 1 \<and> j * die_X d + i = j' * die_X d + i'"
      using xy r [of l i j] r [of l' i' j'] by (intro radix_inj [of _ "plane d"]) (auto simp: e mult.commute add.assoc)
    moreover have "j = j' \<and> i = i'"
      using xy(1,2) calculation by (intro radix_inj [of _ "die_X d"]) (auto simp: e power_cells_def)
    ultimately show "x = y" by (simp add: e layerP_def)
  qed
qed

lemma steady_rhs_total:
  fixes N :: "('d::linordered_field) thermal_lib"
  assumes "exact_num N" "die_ok d"
  shows "\<exists>rhs. steady_rhs N d pm Tamb = ret rhs \<and> length rhs = nat (nodes d) \<and>
    sum_list rhs = of_int (plane d) * (Tamb / Ramb N d) + power_sum d pm \<and>
    (\<forall>(l, i, j)\<in>set (power_cells d). rhs ! nat (plane d * (layerP l + 1) + j * die_X d + i) = power_at pm i j l) \<and>
    (\<forall>p<nat (nodes d). int p \<notin> (\<lambda>(l, i, j). plane d * (layerP l + 1) + j * die_X d + i) ` set (power_cells d) \<longrightarrow>
      rhs ! p = (if int p < plane d then Tamb / Ramb N d else 0))"
proof -
  obtain ys where y: "ambient_rhs N d Tamb = ret ys" using ambient_rhs_total [OF assms] by blast
  then have "steady_rhs N d pm Tamb = for_run (\<lambda>(l, i, j). store (plane d * (layerP l + 1) + j * die_X d + i) (power_at pm i j l))
      (power_cells d) ys"
    by (simp add: steady_rhs_def for_run_nest3 power_cells_def)
  also have "\<dots> = for_run (\<lambda>x. store ((\<lambda>(l, i, j). plane d * (layerP l + 1) + j * die_X d + i) x) (case x of (l, i, j) \<Rightarrow> power_at pm i j l))
      (power_cells d) ys"
    by (simp add: case_prod_unfold)
  finally show ?thesis
    using power_stored [OF assms y steady_key(1) [OF assms(2)] refl, of pm] steady_key(2) [OF assms(2)] by auto
qed

section \<open>The steady state balances\<close>

text \<open>\<open>x\<close> solves the system whose matrix has the given compressed columns.\<close>

definition solves_columns ::
    "nat \<Rightarrow> ('d::linordered_field) list \<Rightarrow> int list \<Rightarrow> int list \<Rightarrow> 'd list \<Rightarrow> 'd list \<Rightarrow> bool" where
  "solves_columns n a asub xa rhs x \<longleftrightarrow> length x = n \<and>
     (\<forall>i<n. (\<Sum>c<n. \<Sum>k\<in>{nat (xa ! c)..<nat (xa ! Suc c)}. if asub ! k = int i then a ! k * x ! c else 0) = rhs ! i)"

lemma sum_row:
  fixes f :: "'e \<Rightarrow> 'd::comm_monoid_add"
  assumes "c < length rs"
  shows "(\<Sum>k\<in>{row_start rs c..<row_start rs (Suc c)}. f (concat rs ! k)) = (\<Sum>e\<leftarrow>rs ! c. f e)"
proof -
  let ?s = "row_start rs c"
  have "(\<Sum>k\<in>{?s..<row_start rs (Suc c)}. f (concat rs ! k)) = (\<Sum>k\<in>{0..<length (rs ! c)}. f (concat rs ! (?s + k)))"
    using sum.shift_bounds_nat_ivl [of "\<lambda>k. f (concat rs ! k)" 0 ?s "length (rs ! c)"]
    by (simp add: row_start_Suc [OF assms] add.commute)
  also have "\<dots> = (\<Sum>k\<in>{0..<length (rs ! c)}. f (rs ! c ! k))"
    by (rule sum.cong) (simp_all add: nth_row [OF assms])
  also have "\<dots> = (\<Sum>e\<leftarrow>rs ! c. f e)" by (simp add: sum_list_sum_nth)
  finally show ?thesis .
qed

lemma columns_sum:
  fixes es :: "('d::linordered_field) entry list"
  assumes "solves_columns n (map (\<lambda>(_, _, g). g) es) asub xa rhs x" "es = concat rs" "length rs = n" "length rhs = n"
    "\<And>c. c \<le> n \<Longrightarrow> nat (xa ! c) = row_start rs c"
    "length asub = length es" "\<And>c. c \<in> set asub \<Longrightarrow> 0 \<le> c \<and> c < int n"
  shows "sum_list rhs = (\<Sum>c<n. x ! c * (\<Sum>(_, _, g)\<leftarrow>rs ! c. g))"
proof -
  let ?I = "\<lambda>c. {row_start rs c..<row_start rs (Suc c)}"
  let ?a = "\<lambda>k. snd (snd (es ! k))"
  have le: "row_start rs (Suc c) \<le> length es" for c
    by (metis append_take_drop_id assms(2) concat_append le_add1 length_append row_start_def)
  have at: "map (\<lambda>(_, _, g). g) es ! k = ?a k" if "k \<in> ?I c" for c k
    using that le [of c] by (subst nth_map) (auto simp: case_prod_beta')
  have "sum_list rhs = (\<Sum>i<n. rhs ! i)" using assms(4) by (simp add: sum_list_sum_nth atLeast0LessThan)
  also have "\<dots> = (\<Sum>i<n. \<Sum>c<n. \<Sum>k\<in>?I c. if asub ! k = int i then map (\<lambda>(_, _, g). g) es ! k * x ! c else 0)"
    using assms(1) assms(5) by (intro sum.cong) (simp_all add: solves_columns_def)
  also have "\<dots> = (\<Sum>i<n. \<Sum>c<n. \<Sum>k\<in>?I c. if asub ! k = int i then ?a k * x ! c else 0)"
    by (intro sum.cong refl) (simp add: at)
  also have "\<dots> = (\<Sum>c<n. \<Sum>i<n. \<Sum>k\<in>?I c. if asub ! k = int i then ?a k * x ! c else 0)" by (rule sum.swap)
  also have "\<dots> = (\<Sum>c<n. \<Sum>k\<in>?I c. \<Sum>i<n. if asub ! k = int i then ?a k * x ! c else 0)"
    by (rule sum.cong [OF refl]) (rule sum.swap)
  also have "\<dots> = (\<Sum>c<n. \<Sum>k\<in>?I c. ?a k * x ! c)"
  proof (intro sum.cong refl)
    fix c k assume "k \<in> ?I c"
    then have "asub ! k \<in> set asub" using le [of c] assms(6) by (intro nth_mem) auto
    then have r: "0 \<le> asub ! k" "asub ! k < int n" using assms(7) by auto
    then have e: "(asub ! k = int i) = (nat (asub ! k) = i)" for i by auto
    show "(\<Sum>i<n. if asub ! k = int i then ?a k * x ! c else 0) = ?a k * x ! c"
      unfolding e using r by (subst sum.delta') auto
  qed
  also have "\<dots> = (\<Sum>c<n. x ! c * (\<Sum>(_, _, g)\<leftarrow>rs ! c. g))"
  proof (intro sum.cong refl)
    fix c assume "c \<in> {..<n}"
    then have "(\<Sum>k\<in>?I c. snd (snd (concat rs ! k))) = (\<Sum>e\<leftarrow>rs ! c. snd (snd e))"
      using sum_row [of c rs "\<lambda>e. snd (snd e)"] assms(3) by simp
    then show "(\<Sum>k\<in>?I c. ?a k * x ! c) = x ! c * (\<Sum>(_, _, g)\<leftarrow>rs ! c. g)"
      by (simp add: assms(2) case_prod_beta' mult.commute flip: sum_distrib_left)
  qed
  finally show ?thesis .
qed

lemma steady_system_total:
  fixes N :: "('d::linordered_field) thermal_lib"
  assumes "exact_num N" "die_ok d"
  shows "\<exists>rhs. steady_system N d pm (midx_entries N d) Tamb = ret (map (\<lambda>(_, _, g). g) (midx_entries N d),
      map (\<lambda>(_, c, _). d_trunc N c) (midx_entries N d), map (int \<circ> row_start (midx_rows N d)) [0..<nat (nodes d) + 1], rhs) \<and>
    length rhs = nat (nodes d) \<and> sum_list rhs = of_int (plane d) * (Tamb / Ramb N d) + power_sum d pm"
proof -
  obtain rhs where r: "steady_rhs N d pm Tamb = ret rhs" "length rhs = nat (nodes d)"
      "sum_list rhs = of_int (plane d) * (Tamb / Ramb N d) + power_sum d pm"
    using steady_rhs_total [OF assms] by blast
  have n: "0 \<le> nodes d" using assms(2) by (simp add: die_ok_def)
  have e: "midx_entries N d = concat (midx_rows N d)" by (simp add: midx_entries_def midx_rows_def)
  have "row_starts N d (midx_entries N d) = ret (map (\<lambda>c. Some (int (row_start (midx_rows N d) c))) [0..<nat (nodes d) + 1])"
    unfolding e using row_starts_rows [OF assms(1) midx_rows_ok [OF assms]] length_midx_rows [OF assms(2), of N] n by simp
  then show ?thesis using r by (simp add: steady_system_def comp_def image_iff del: upt_Suc)
qed

lemma midx_cols:
  fixes N :: "('d::linordered_field) thermal_lib"
  assumes "exact_num N" "die_ok d" "c \<in> set (map (\<lambda>(_, c, _). d_trunc N c) (midx_entries N d))"
  shows "0 \<le> c \<and> c < nodes d"
proof -
  obtain e where e: "e \<in> set (midx_entries N d)" "c = d_trunc N (fst (snd e))" using assms(3) by auto
  then obtain l j i where "(l, j, i) \<in> set (die_nodes d)" "e \<in> set (midx_row N d l j i)" by (auto simp: midx_entries_def)
  from midx_row_entry [OF assms(1,2) this] obtain k where "0 \<le> k" "k < nodes d" "fst (snd e) = of_int k" by auto
  then show ?thesis using e(2) assms(1) unfolding exact_num_def by auto
qed

lemma midx_rows_sum:
  fixes N :: "('d::linordered_field) thermal_lib"
  assumes "exact_num N" "die_ok d" "c < nat (nodes d)"
  shows "(\<Sum>(_, _, g)\<leftarrow>midx_rows N d ! c. g) = (if int c < plane d then 1 / Ramb N d else 0)"
proof -
  obtain l j i where r: "(l, j, i) \<in> set (die_nodes d)" "midx_rows N d ! c = midx_row N d l j i" "node d l j i = int c"
    using midx_rows_nth [OF assms(2,3)] by metis
  have "int c < plane d \<longleftrightarrow> l = 0"
    using node_range [OF assms(2) die_nodes_nth [OF r(1)]] plane_order(4) [OF assms(2)] zdiv_eq_0_iff [of "int c" "plane d"] r(3)
    by auto
  then show ?thesis using midx_row_sum [OF assms(1,2) r(1)] r(2) by simp
qed

lemma steady_balance:
  fixes N :: "('d::linordered_field) thermal_lib"
  assumes "exact_num N" "die_ok d"
    and "\<And>a asub xa rhs. steady_system N d pm (midx_entries N d) Tamb = ret (a, asub, xa, rhs) \<Longrightarrow>
      solves_columns (nat (nodes d)) a asub xa rhs (pdgssv (nat (nodes d)) a asub xa rhs)"
  shows "\<exists>ts. steady_thermal_solver N pdgssv d pm (midx_entries N d) Tamb = ret ts \<and> length ts = nat (nodes d) \<and>
    (\<Sum>r<nat (plane d). (ts ! r + T0 N - Tamb) / Ramb N d) = power_sum d pm"
proof -
  let ?n = "nat (nodes d)" and ?es = "midx_entries N d" and ?rs = "midx_rows N d"
  obtain rhs where s: "steady_system N d pm ?es Tamb = ret (map (\<lambda>(_, _, g). g) ?es,
      map (\<lambda>(_, c, _). d_trunc N c) ?es, map (int \<circ> row_start ?rs) [0..<?n + 1], rhs)"
    "length rhs = ?n" "sum_list rhs = of_int (plane d) * (Tamb / Ramb N d) + power_sum d pm"
    using steady_system_total [OF assms(1,2)] by blast
  define x where "x = pdgssv ?n (map (\<lambda>(_, _, g). g) ?es) (map (\<lambda>(_, c, _). d_trunc N c) ?es) (map (int \<circ> row_start ?rs) [0..<?n + 1]) rhs"
  note sol = assms(3) [OF s(1), folded x_def]
  have n: "plane d \<le> nodes d" "0 < plane d" using assms(2) plane_order(4) by (simp_all add: die_ok_def)
  have "sum_list rhs = (\<Sum>c<?n. x ! c * (\<Sum>(_, _, g)\<leftarrow>?rs ! c. g))"
  proof (rule columns_sum [OF sol])
    show "?es = concat ?rs" by (simp add: midx_entries_def midx_rows_def)
    show "length ?rs = ?n" by (rule length_midx_rows [OF assms(2)])
    show "length rhs = ?n" by (rule s(2))
    show "nat (map (int \<circ> row_start ?rs) [0..<?n + 1] ! c) = row_start ?rs c" if "c \<le> ?n" for c
      using that by (simp del: upt_Suc)
    show "0 \<le> c \<and> c < int ?n" if "c \<in> set (map (\<lambda>(_, c, _). d_trunc N c) ?es)" for c
      using midx_cols [OF assms(1,2) that] by simp
  qed simp
  also have "\<dots> = (\<Sum>c<?n. if c < nat (plane d) then x ! c / Ramb N d else 0)"
  proof (intro sum.cong refl)
    fix c assume "c \<in> {..<?n}"
    then show "x ! c * (\<Sum>(_, _, g)\<leftarrow>?rs ! c. g) = (if c < nat (plane d) then x ! c / Ramb N d else 0)"
      using midx_rows_sum [OF assms(1,2), of c] n by (auto simp: zless_nat_eq_int_zless)
  qed
  also have "\<dots> = (\<Sum>c<nat (plane d). x ! c / Ramb N d)"
    using n by (intro sum.mono_neutral_cong_right) auto
  finally have bal: "(\<Sum>c<nat (plane d). x ! c / Ramb N d) = of_int (plane d) * (Tamb / Ramb N d) + power_sum d pm"
    using s(3) by simp
  have lx: "length x = ?n" using sol by (simp add: solves_columns_def)
  have "(\<Sum>r<nat (plane d). (map (\<lambda>t. t - T0 N) x ! r + T0 N - Tamb) / Ramb N d) =
      (\<Sum>r<nat (plane d). x ! r / Ramb N d - Tamb / Ramb N d)"
    using lx n by (intro sum.cong refl) (auto simp: diff_divide_distrib)
  also have "\<dots> = power_sum d pm" using bal n by (simp add: sum_subtractf)
  finally show ?thesis using s(1) lx unfolding steady_thermal_solver_def x_def by simp
qed

section \<open>One explicit step\<close>

lemma for_run_nth: "for_run (\<lambda>b. f (es ! b)) is s = for_run f (map ((!) es) is) s"
  by (induction "is" arbitrary: s) (auto intro!: run_bind_cong)

lemma run_blocks_eq: "run_blocks f es j s = for_run f (drop j es) s"
proof (induction f es j s rule: run_blocks.induct)
  case (1 f es j s)
  show ?case
  proof (cases "j < length es")
    case True
    define b where "b = (if j + 8 < length es then j + 8 else length es)"
    have "drop j es = map ((!) es) [j..<b] @ drop (j + 8) es"
    proof -
      have "drop j es = map ((!) es) [j..<length es]" by (rule nth_equalityI) auto
      moreover have "[j..<length es] = [j..<b] @ [b..<length es]"
        using True upt_add_eq_append [of j b "length es - b"] by (auto simp: b_def)
      moreover have "map ((!) es) [b..<length es] = drop (j + 8) es" by (rule nth_equalityI) (auto simp: b_def)
      ultimately show ?thesis by simp
    qed
    then show ?thesis
      using 1 [OF True b_def] True
      by (subst run_blocks.simps) (simp add: Let_def for_run_append for_run_nth b_def [symmetric] cong: run_bind_cong)
  qed (simp add: run_blocks.simps)
qed

lemma for_run_accumulate:
  fixes w :: "'e \<Rightarrow> 'd::comm_monoid_add"
  assumes "\<And>e T. e \<in> set es \<Longrightarrow> length T = n \<Longrightarrow> f e T = ret (T[k e := T ! k e + w e]) \<and> k e < n" "length T = n"
  shows "\<exists>T'. for_run f es T = ret T' \<and> length T' = n \<and> (\<forall>r<n. T' ! r = T ! r + (\<Sum>e\<leftarrow>filter (\<lambda>e. k e = r) es. w e))"
  using assms
proof (induction es arbitrary: T)
  case (Cons e es)
  let ?U = "T[k e := T ! k e + w e]"
  have e: "f e T = ret ?U" "k e < n" using Cons.prems by auto
  obtain T' where "for_run f es ?U = ret T'" "length T' = n" "\<forall>r<n. T' ! r = ?U ! r + (\<Sum>e\<leftarrow>filter (\<lambda>e. k e = r) es. w e)"
    using Cons.IH [of ?U] Cons.prems by auto
  then show ?case using e Cons.prems(2) by (auto simp: nth_list_update add.assoc)
qed simp

lemma filter_row:
  fixes rs :: "('d::linordered_field) entry list list"
  assumes "rows_of rs" "c < length rs"
  shows "filter (\<lambda>e. fst e = of_int (int c)) (concat rs) = rs ! c"
proof -
  let ?f = "filter (\<lambda>e. fst e = of_int (int c))"
  have other: "?f (rs ! b) = (if b = c then rs ! b else [])" if "b < length rs" for b
    using that assms(1) by (auto simp: rows_of_def filter_empty_conv intro!: filter_True)
  have split: "rs = take c rs @ rs ! c # drop (Suc c) rs" using assms(2) by (rule id_take_nth_drop)
  have "concat (map ?f (take c rs)) = []" "concat (map ?f (drop (Suc c) rs)) = []"
    using other assms(2) by (auto simp: in_set_conv_nth concat_eq_Nil_conv)
  moreover have "?f (concat rs) = concat (map ?f (take c rs)) @ ?f (rs ! c) @ concat (map ?f (drop (Suc c) rs))"
    by (subst split) (simp add: filter_concat)
  ultimately show ?thesis using other [OF assms(2)] by (metis append_Nil append_Nil2)
qed

text \<open>What an entry adds to the temperature of its row.\<close>

definition heat ::
    "('d::linordered_field) thermal_lib \<Rightarrow> 'd Die \<Rightarrow> 'd list \<Rightarrow> 'd \<Rightarrow> 'd list \<Rightarrow> 'd list \<Rightarrow> 'd entry \<Rightarrow> 'd" where
  "heat N d Cap dt P Tp e =
     (let r = d_trunc N (fst e); c = d_trunc N (fst (snd e)); C = Cap ! nat (r div plane d)
      in (if r = c then Tp ! nat c + P ! nat r * dt / C else 0) - snd (snd e) * Tp ! nat c * dt / C)"

lemma entry_indices:
  fixes N :: "('d::linordered_field) thermal_lib"
  assumes "exact_num N" "die_ok d" "e \<in> set (midx_entries N d)"
  obtains l j i c where "(l, j, i) \<in> set (die_nodes d)" "e \<in> set (midx_row N d l j i)"
    "fst e = of_int (node d l j i)" "fst (snd e) = of_int c" "0 \<le> c" "c < nodes d"
proof -
  obtain l j i where n: "(l, j, i) \<in> set (die_nodes d)" "e \<in> set (midx_row N d l j i)"
    using assms(3) by (auto simp: midx_entries_def)
  from midx_row_entry [OF assms(1,2) n] show thesis using that n by auto
qed

lemma exact_index:
  assumes "exact_num N" "0 \<le> n"
  shows "idx_of N (of_int n) = n" "d_trunc N (of_int n) = n"
  using assms unfolding exact_num_def idx_of_def by auto

lemma apply_entry_exact:
  fixes N :: "('d::linordered_field) thermal_lib"
  assumes "exact_num N" "die_ok d" "e \<in> set (midx_entries N d)" "length T = nat (nodes d)" "length Cap = nat (numLayer d + 1)"
  defines "r \<equiv> nat (d_trunc N (fst e))"
  shows "apply_entry N d Cap dt P Tp e T = ret (T[r := T ! r + heat N d Cap dt P Tp e]) \<and> r < nat (nodes d)"
proof -
  obtain l j i c where n: "(l, j, i) \<in> set (die_nodes d)" "fst e = of_int (node d l j i)" "fst (snd e) = of_int c" "0 \<le> c" "c < nodes d"
    using entry_indices [OF assms(1-3)] by metis
  note q = die_nodes_nth [OF n(1)] and rg = node_range [OF assms(2) die_nodes_nth [OF n(1)]]
  have i0: "idx_of N (fst e) = node d l j i" "idx_of N (fst (snd e)) = c"
      "d_trunc N (fst e) = node d l j i" "d_trunc N (fst (snd e)) = c"
    using exact_index [OF assms(1)] n rg by simp_all
  have dv: "cdiv (node d l j i) (plane d) = ret l"
    using rg plane_order(4) [OF assms(2)] by (auto simp: cdiv_def sgn_if)
  have len: "int (length T) = nodes d" "int (length Cap) = numLayer d + 1" using assms(2,4,5) by (simp_all add: die_ok_def)
  have one: "num N 1 = 1" using assms(1) by (simp add: exact_num_def)
  show ?thesis
    using rg q n(4,5) len
    by (auto simp add: apply_entry_def Let_def i0 dv heat_def r_def store_def one algebra_simps diff_divide_distrib add_divide_distrib)
qed

lemma sum_list_diff: "(\<Sum>x\<leftarrow>xs. f x - g x) = (\<Sum>x\<leftarrow>xs. f x) - (\<Sum>x\<leftarrow>xs. g x :: 'd::ab_group_add)"
  by (induction xs) (auto simp: algebra_simps)

definition flow :: "('d::linordered_field) thermal_lib \<Rightarrow> 'd list \<Rightarrow> 'd entry list \<Rightarrow> 'd" where
  "flow N Tp row = (\<Sum>(_, c, g)\<leftarrow>row. g * Tp ! nat (d_trunc N c))"

lemma off_diagonal_neq:
  fixes N :: "('d::linordered_field) thermal_lib"
  assumes "exact_num N" "die_ok d" "(l, j, i) \<in> set (die_nodes d)" "x \<in> set (off_diagonal N d l j i)"
  shows "fst (snd x) \<noteq> of_int (node d l j i)"
proof -
  have "(fst x, fst (snd x)) \<in> set (map (\<lambda>(r, c, g). (r, c)) (off_diagonal N d l j i))"
    using assms(4) by (metis (mono_tags, lifting) case_prod_beta' image_eqI list.set_map)
  then show ?thesis
    unfolding off_diagonal_cols using off_cols_sorted(2) [OF assms(2) die_nodes_nth(3-6) [OF assms(3)], of l] assms(1)
    by (auto simp: exact_num_def)
qed

lemma heat_row:
  fixes N :: "('d::linordered_field) thermal_lib"
  assumes "exact_num N" "die_ok d" "(l, j, i) \<in> set (die_nodes d)"
  defines "r \<equiv> nat (node d l j i)"
  shows "(\<Sum>e\<leftarrow>midx_row N d l j i. heat N d Cap dt P Tp e) =
    Tp ! r + dt / Cap ! nat l * (P ! r - flow N Tp (midx_row N d l j i))"
proof -
  let ?row = "midx_row N d l j i" and ?C = "Cap ! nat l" and ?off = "off_diagonal N d l j i"
  note rg = node_range [OF assms(2) die_nodes_nth [OF assms(3)]]
  let ?w = "\<lambda>e. if fst (snd e) = of_int (node d l j i) then Tp ! r + P ! r * dt / ?C else 0"
  have e: "heat N d Cap dt P Tp e = ?w e - snd (snd e) * Tp ! nat (d_trunc N (fst (snd e))) * dt / ?C"
    if mem: "e \<in> set ?row" for e
  proof -
    obtain c where c: "fst e = of_int (node d l j i)" "fst (snd e) = of_int c" "0 \<le> c"
      using midx_row_entry [OF assms(1-3) mem] by auto
    then show ?thesis using exact_index [OF assms(1)] rg by (auto simp: heat_def Let_def r_def)
  qed
  have off: "\<forall>x\<in>set ?off. fst (snd x) \<noteq> of_int (node d l j i)" using off_diagonal_neq [OF assms(1-3)] by blast
  have "(\<Sum>e\<leftarrow>?row. ?w e) = (\<Sum>e\<in>#mset ?row. ?w e)" by (simp flip: sum_mset_sum_list)
  also have "\<dots> = ?w (diagonal N d l j i) + (\<Sum>e\<leftarrow>?off. ?w e)"
    unfolding midx_row_mset by (simp flip: sum_mset_sum_list)
  also have "(\<Sum>e\<leftarrow>?off. ?w e) = (\<Sum>e\<leftarrow>?off. 0)" using off by (intro arg_cong [of _ _ sum_list] map_cong) auto
  finally have w: "(\<Sum>e\<leftarrow>?row. ?w e) = Tp ! r + P ! r * dt / ?C"
    using assms(1) by (simp add: diagonal_def Let_def exact_num_def)
  have "(\<Sum>e\<leftarrow>?row. heat N d Cap dt P Tp e) =
      (\<Sum>e\<leftarrow>?row. ?w e - snd (snd e) * Tp ! nat (d_trunc N (fst (snd e))) * dt / ?C)"
    using e by (intro arg_cong [of _ _ sum_list] map_cong) auto
  also have "\<dots> = (\<Sum>e\<leftarrow>?row. ?w e) - (\<Sum>e\<leftarrow>?row. (dt / ?C) * (snd (snd e) * Tp ! nat (d_trunc N (fst (snd e)))))"
    unfolding sum_list_diff by (simp add: mult.commute)
  also have "(\<Sum>e\<leftarrow>?row. (dt / ?C) * (snd (snd e) * Tp ! nat (d_trunc N (fst (snd e))))) = dt / ?C * flow N Tp ?row"
    unfolding flow_def case_prod_beta' by (rule sum_list_const_mult)
  finally show ?thesis unfolding w by (simp add: algebra_simps)
qed

lemma transient_step_exact:
  fixes N :: "('d::linordered_field) thermal_lib"
  assumes "exact_num N" "die_ok d" "length Cap = nat (numLayer d + 1)"
  shows "\<exists>T. transient_step N d (midx_entries N d) Cap dt P Tp = ret T \<and> length T = nat (nodes d) \<and>
    (\<forall>(l, j, i)\<in>set (die_nodes d). T ! nat (node d l j i) =
       Tp ! nat (node d l j i) + dt / Cap ! nat l * (P ! nat (node d l j i) - flow N Tp (midx_row N d l j i)))"
proof -
  let ?n = "nat (nodes d)" and ?es = "midx_entries N d" and ?k = "\<lambda>e. nat (d_trunc N (fst e))"
  have "\<exists>T. for_run (apply_entry N d Cap dt P Tp) ?es (replicate ?n 0) = ret T \<and> length T = ?n \<and>
    (\<forall>r<?n. T ! r = replicate ?n 0 ! r + (\<Sum>e\<leftarrow>filter (\<lambda>e. ?k e = r) ?es. heat N d Cap dt P Tp e))"
    by (rule for_run_accumulate) (use apply_entry_exact [OF assms(1,2) _ _ assms(3)] in auto)
  then obtain T where T: "for_run (apply_entry N d Cap dt P Tp) ?es (replicate ?n 0) = ret T" "length T = ?n"
    "\<forall>r<?n. T ! r = (\<Sum>e\<leftarrow>filter (\<lambda>e. ?k e = r) ?es. heat N d Cap dt P Tp e)" by auto
  have "T ! nat (node d l j i) =
       Tp ! nat (node d l j i) + dt / Cap ! nat l * (P ! nat (node d l j i) - flow N Tp (midx_row N d l j i))"
    if n: "(l, j, i) \<in> set (die_nodes d)" for l j i
  proof -
    note rg = node_range [OF assms(2) die_nodes_nth [OF n]]
    let ?r = "nat (node d l j i)"
    have r: "?r < ?n" using rg by simp
    obtain l' j' i' where q: "(l', j', i') \<in> set (die_nodes d)" "midx_rows N d ! ?r = midx_row N d l' j' i'" "node d l' j' i' = int ?r"
      using midx_rows_nth [OF assms(2) r] by metis
    have "(\<lambda>(l, j, i). node d l j i) (l', j', i') = (\<lambda>(l, j, i). node d l j i) (l, j, i)" using q(3) rg(1) by simp
    moreover have "inj_on (\<lambda>(l, j, i). node d l j i) (set (die_nodes d))"
      using die_nodes_rows [OF assms(2)] by (metis distinct_map distinct_upto)
    ultimately have "(l', j', i') = (l, j, i)" using q(1) n by (metis (no_types, lifting) inj_onD)
    then have row: "midx_rows N d ! ?r = midx_row N d l j i" using q(2) by simp
    have "filter (\<lambda>e. ?k e = ?r) ?es = filter (\<lambda>e. fst e = of_int (int ?r)) ?es"
    proof (rule filter_cong [OF refl])
      fix e assume "e \<in> set ?es"
      then obtain m where "fst e = of_int m" "0 \<le> m"
        using entry_indices [OF assms(1,2)] node_range(1) [OF assms(2)] die_nodes_nth by metis
      then show "(?k e = ?r) = (fst e = of_int (int ?r))" using exact_index(2) [OF assms(1)] rg(1) by auto
    qed
    also have "\<dots> = midx_row N d l j i"
      using filter_row [OF midx_rows_ok [OF assms(1,2)], of ?r] r row length_midx_rows [OF assms(2), of N]
      by (simp add: midx_entries_def midx_rows_def)
    finally show ?thesis using T(3) r heat_row [OF assms(1,2) n] by simp
  qed
  then show ?thesis using T(1,2) assms(1) by (auto simp: transient_step_def run_blocks_eq exact_num_def)
qed

section \<open>A step balances\<close>

lemma transient_key:
  assumes "die_ok d"
  shows "distinct (map (\<lambda>(l, i, j). plane d * (layerP l + 1) + i * die_Z d + j) (power_cells d))"
    "(l, i, j) \<in> set (power_cells d) \<Longrightarrow>
       \<exists>q. plane d * (layerP l + 1) + i * die_Z d + j = plane d * (layerP l + 1) + q \<and> 0 \<le> q \<and> q < plane d"
proof -
  have r: "0 \<le> i * die_Z d + j \<and> i * die_Z d + j < plane d" if "(l, i, j) \<in> set (power_cells d)" for l i j
    using that cell_range [of i "die_X d" j "die_Z d"] by (auto simp: power_cells_def mult.commute)
  then show "(l, i, j) \<in> set (power_cells d) \<Longrightarrow>
       \<exists>q. plane d * (layerP l + 1) + i * die_Z d + j = plane d * (layerP l + 1) + q \<and> 0 \<le> q \<and> q < plane d"
    by (intro exI [of _ "i * die_Z d + j"]) auto
  show "distinct (map (\<lambda>(l, i, j). plane d * (layerP l + 1) + i * die_Z d + j) (power_cells d))"
    unfolding distinct_map
  proof (intro conjI inj_onI)
    show "distinct (power_cells d)" by (simp add: power_cells_def distinct_product)
    fix x y assume xy: "x \<in> set (power_cells d)" "y \<in> set (power_cells d)"
      "(\<lambda>(l, i, j). plane d * (layerP l + 1) + i * die_Z d + j) x = (\<lambda>(l, i, j). plane d * (layerP l + 1) + i * die_Z d + j) y"
    obtain l i j l' i' j' where e: "x = (l, i, j)" "y = (l', i', j')" by (metis prod_cases3)
    have "layerP l + 1 = layerP l' + 1 \<and> i * die_Z d + j = i' * die_Z d + j'"
      using xy r [of l i j] r [of l' i' j'] by (intro radix_inj [of _ "plane d"]) (auto simp: e mult.commute add.assoc)
    moreover have "i = i' \<and> j = j'"
      using xy(1,2) calculation by (intro radix_inj [of _ "die_Z d"]) (auto simp: e power_cells_def)
    ultimately show "x = y" by (simp add: e layerP_def)
  qed
qed

lemma transient_rhs_total:
  fixes N :: "('d::linordered_field) thermal_lib"
  assumes "exact_num N" "die_ok d"
  shows "\<exists>P. transient_rhs N d pm Tamb = ret P \<and> length P = nat (nodes d) \<and>
    sum_list P = of_int (plane d) * (Tamb / Ramb N d) + power_sum d pm \<and>
    (\<forall>(l, i, j)\<in>set (power_cells d). P ! nat (plane d * (layerP l + 1) + i * die_Z d + j) = power_at pm i j l) \<and>
    (\<forall>p<nat (nodes d). int p \<notin> (\<lambda>(l, i, j). plane d * (layerP l + 1) + i * die_Z d + j) ` set (power_cells d) \<longrightarrow>
       P ! p = (if int p < plane d then Tamb / Ramb N d else 0))"
proof -
  obtain ys where y: "ambient_rhs N d Tamb = ret ys" using ambient_rhs_total [OF assms] by blast
  let ?xs = "List.product [0..die_P d - 1] (List.product [0..die_Z d - 1] [0..die_X d - 1])"
  let ?t = "\<lambda>(l, j, i). (l, i, j)" and ?k = "\<lambda>(l, i, j). plane d * (layerP l + 1) + i * die_Z d + j"
  have m: "mset (map ?t ?xs) = mset (power_cells d)"
  proof (subst set_eq_iff_mset_eq_distinct [symmetric])
    show "distinct (map ?t ?xs)" by (simp add: distinct_map distinct_product inj_on_def)
    show "distinct (power_cells d)" by (simp add: power_cells_def distinct_product)
    show "set (map ?t ?xs) = set (power_cells d)" by (auto simp: power_cells_def image_iff)
  qed
  have sw: "for_run (\<lambda>(l, j, i). f (l, i, j)) xs s = for_run f (map ?t xs) s"
    for f :: "int \<times> int \<times> int \<Rightarrow> 'd list \<Rightarrow> 'd list run" and xs s
    by (induction xs arbitrary: s) (auto intro!: run_bind_cong)
  have "transient_rhs N d pm Tamb = for_run (\<lambda>(l, j, i). store (plane d * (layerP l + 1) + i * die_Z d + j) (power_at pm i j l)) ?xs ys"
    using y by (simp add: transient_rhs_def for_run_nest3)
  also have "\<dots> = for_run (\<lambda>x. store (?k x) (case x of (l, i, j) \<Rightarrow> power_at pm i j l)) (map ?t ?xs) ys"
    unfolding sw [of "\<lambda>x. store (?k x) (case x of (l, i, j) \<Rightarrow> power_at pm i j l)", symmetric] by simp
  finally show ?thesis
    using power_stored [OF assms y transient_key(1) [OF assms(2)] m, of pm] transient_key(2) [OF assms(2)] by auto
qed

lemma sum_nodes:
  fixes xs :: "('d::comm_monoid_add) list"
  assumes "die_ok d" "length xs = nat (nodes d)"
  shows "(\<Sum>(l, j, i)\<leftarrow>die_nodes d. xs ! nat (node d l j i)) = sum_list xs"
proof -
  have "(\<Sum>(l, j, i)\<leftarrow>die_nodes d. xs ! nat (node d l j i)) = (\<Sum>r\<leftarrow>map (\<lambda>(l, j, i). node d l j i) (die_nodes d). xs ! nat r)"
    by (simp add: comp_def case_prod_unfold)
  also have "\<dots> = (\<Sum>r\<in>{0..nodes d - 1}. xs ! nat r)" unfolding die_nodes_rows [OF assms(1)] by (rule sum_list_upto)
  also have "\<dots> = (\<Sum>r<nat (nodes d). xs ! r)"
    by (rule sum.reindex_bij_witness [of _ int nat]) auto
  also have "\<dots> = sum_list xs" using assms(2) by (simp add: sum_list_sum_nth atLeast0LessThan)
  finally show ?thesis .
qed

lemma flow_sum:
  fixes N :: "('d::linordered_field) thermal_lib"
  assumes "exact_num N" "die_ok d" "length Tp = nat (nodes d)"
  shows "(\<Sum>(l, j, i)\<leftarrow>die_nodes d. flow N Tp (midx_row N d l j i)) = (\<Sum>r<nat (plane d). Tp ! r / Ramb N d)"
proof -
  let ?t = "\<lambda>x. Tp ! nat (d_trunc N x)"
  have "(\<Sum>(l, j, i)\<leftarrow>die_nodes d. flow N Tp (midx_row N d l j i)) = (\<Sum>e\<leftarrow>midx_entries N d. snd (snd e) * ?t (fst (snd e)))"
    by (simp add: midx_entries_def flow_def map_concat sum_list_concat comp_def case_prod_unfold)
  also have "\<dots> = (\<Sum>e\<leftarrow>midx_entries N d. snd (snd e) * ?t (fst e))" by (subst midx_sum_swap [OF assms(1,2)]) simp
  also have "\<dots> = (\<Sum>(l, j, i)\<leftarrow>die_nodes d. \<Sum>e\<leftarrow>midx_row N d l j i. snd (snd e) * ?t (fst e))"
    by (simp add: midx_entries_def map_concat sum_list_concat comp_def case_prod_unfold)
  also have "\<dots> = (\<Sum>(l, j, i)\<leftarrow>die_nodes d. map (\<lambda>r. if int r < plane d then Tp ! r / Ramb N d else 0) [0..<nat (nodes d)] ! nat (node d l j i))"
  proof (intro arg_cong [of _ _ sum_list] map_cong refl, clarify)
    fix l j i assume n: "(l, j, i) \<in> set (die_nodes d)"
    note rg = node_range [OF assms(2) die_nodes_nth [OF n]]
    have "(\<Sum>e\<leftarrow>midx_row N d l j i. snd (snd e) * ?t (fst e)) = (\<Sum>e\<leftarrow>midx_row N d l j i. Tp ! nat (node d l j i) * snd (snd e))"
      using midx_row_entry [OF assms(1,2) n] exact_index(2) [OF assms(1) rg(1)]
      by (intro arg_cong [of _ _ sum_list] map_cong refl) (auto simp: mult.commute)
    also have "\<dots> = Tp ! nat (node d l j i) * (\<Sum>(_, _, g)\<leftarrow>midx_row N d l j i. g)"
      by (simp only: sum_list_const_mult case_prod_unfold)
    also have "\<dots> = (if l = 0 then Tp ! nat (node d l j i) / Ramb N d else 0)" unfolding midx_row_sum [OF assms(1,2) n] by simp
    also have "(l = 0) = (node d l j i < plane d)"
      using rg plane_order(4) [OF assms(2)] zdiv_eq_0_iff [of "node d l j i" "plane d"] by linarith
    finally show "(\<Sum>e\<leftarrow>midx_row N d l j i. snd (snd e) * ?t (fst e)) =
        map (\<lambda>r. if int r < plane d then Tp ! r / Ramb N d else 0) [0..<nat (nodes d)] ! nat (node d l j i)"
      using rg by simp
  qed
  also have "\<dots> = (\<Sum>r\<leftarrow>[0..<nat (nodes d)]. if int r < plane d then Tp ! r / Ramb N d else 0)"
    by (rule sum_nodes [OF assms(2)]) simp
  also have "\<dots> = (\<Sum>r<nat (nodes d). if int r < plane d then Tp ! r / Ramb N d else 0)"
    by (simp add: interv_sum_list_conv_sum_set_nat atLeast0LessThan)
  also have "\<dots> = (\<Sum>r<nat (plane d). Tp ! r / Ramb N d)"
  proof (intro sum.mono_neutral_cong_right)
    have "plane d \<le> nodes d" using assms(2) by (simp add: die_ok_def)
    then show "{..<nat (plane d)} \<subseteq> {..<nat (nodes d)}" by auto
  qed auto
  finally show ?thesis .
qed

text \<open>The heat that a step stores is the power it was given less what has left through the sink.\<close>

lemma transient_balance:
  fixes N :: "('d::linordered_field) thermal_lib"
  assumes "exact_num N" "die_ok d" "length Cap = nat (numLayer d + 1)" "0 \<notin> set Cap" "length Tp = nat (nodes d)"
    "transient_rhs N d pm Tamb = ret P" "transient_step N d (midx_entries N d) Cap dt P Tp = ret T"
  shows "(\<Sum>(l, j, i)\<leftarrow>die_nodes d. Cap ! nat l * (T ! nat (node d l j i) - Tp ! nat (node d l j i))) =
    dt * (power_sum d pm + (\<Sum>r<nat (plane d). (Tamb - Tp ! r) / Ramb N d))"
proof -
  have P: "length P = nat (nodes d)" "sum_list P = of_int (plane d) * (Tamb / Ramb N d) + power_sum d pm"
    using transient_rhs_total [OF assms(1,2), of pm Tamb] assms(6) by auto
  have T: "\<forall>(l, j, i)\<in>set (die_nodes d). T ! nat (node d l j i) =
       Tp ! nat (node d l j i) + dt / Cap ! nat l * (P ! nat (node d l j i) - flow N Tp (midx_row N d l j i))"
    using transient_step_exact [OF assms(1-3), of dt P Tp] assms(7) by auto
  have p: "0 < plane d" using plane_order(4) [OF assms(2)] .
  have "(\<Sum>(l, j, i)\<leftarrow>die_nodes d. Cap ! nat l * (T ! nat (node d l j i) - Tp ! nat (node d l j i))) =
      (\<Sum>(l, j, i)\<leftarrow>die_nodes d. dt * (P ! nat (node d l j i) - flow N Tp (midx_row N d l j i)))"
  proof (intro arg_cong [of _ _ sum_list] map_cong refl, clarify)
    fix l j i assume n: "(l, j, i) \<in> set (die_nodes d)"
    have "Cap ! nat l \<in> set Cap" using die_nodes_nth(1,2) [OF n] assms(3) by (intro nth_mem) auto
    then have "Cap ! nat l \<noteq> 0" using assms(4) by auto
    then show "Cap ! nat l * (T ! nat (node d l j i) - Tp ! nat (node d l j i)) = dt * (P ! nat (node d l j i) - flow N Tp (midx_row N d l j i))"
      using T n by auto
  qed
  also have "\<dots> = dt * ((\<Sum>(l, j, i)\<leftarrow>die_nodes d. P ! nat (node d l j i)) - (\<Sum>(l, j, i)\<leftarrow>die_nodes d. flow N Tp (midx_row N d l j i)))"
    unfolding case_prod_unfold sum_list_const_mult sum_list_diff ..
  also have "\<dots> = dt * (sum_list P - (\<Sum>r<nat (plane d). Tp ! r / Ramb N d))"
    unfolding sum_nodes [OF assms(2) P(1)] flow_sum [OF assms(1,2,5)] ..
  also have "\<dots> = dt * (power_sum d pm + (\<Sum>r<nat (plane d). (Tamb - Tp ! r) / Ramb N d))"
    using p by (simp add: P(2) diff_divide_distrib sum_subtractf)
  finally show ?thesis .
qed

lemma cap_nonzero:
  fixes N :: "('d::linordered_field) thermal_lib"
  assumes "exact_num N" "die_ok d" "0 < die_W d" "0 < die_L d"
  shows "length (calculate_Cap_array N d) = nat (numLayer d + 1)" "0 \<notin> set (calculate_Cap_array N d)"
proof -
  show "length (calculate_Cap_array N d) = nat (numLayer d + 1)" by (simp add: calculate_Cap_array_def)
  show "0 \<notin> set (calculate_Cap_array N d)"
    using assms
    by (auto simp: calculate_Cap_array_def gridX_def gridZ_def exact_num_def die_ok_def Chs_def Hhs_def layer_C_def layer_H_def
        split: if_splits)
qed

lemma sum_list_if: "(\<Sum>e\<leftarrow>es. if P e then f e else 0) = (\<Sum>e\<leftarrow>filter P es. f e :: 'd::monoid_add)"
  by (induction es) auto

lemma row_start_le: "row_start rs (Suc c) \<le> length (concat rs)"
  by (metis append_take_drop_id concat_append le_add1 length_append row_start_def)

text \<open>Because the matrix is symmetric, the solver that is given rows for columns solves the equations of the rows.\<close>

lemma column_equation:
  fixes N :: "('d::linordered_field) thermal_lib"
  assumes "exact_num N" "die_ok d" "i < nat (nodes d)"
  defines "rs \<equiv> midx_rows N d" and "es \<equiv> midx_entries N d"
  shows "(\<Sum>c<nat (nodes d). \<Sum>k\<in>{row_start rs c..<row_start rs (Suc c)}.
      if map (\<lambda>(_, c, _). d_trunc N c) es ! k = int i then map (\<lambda>(_, _, g). g) es ! k * x ! c else 0) = flow N x (rs ! i)"
proof -
  let ?n = "nat (nodes d)" and ?t = "\<lambda>v. nat (d_trunc N v)"
  let ?f = "\<lambda>c e. if d_trunc N (fst (snd e)) = int i then snd (snd e) * x ! c else 0"
  have es: "es = concat rs" by (simp add: es_def rs_def midx_entries_def midx_rows_def)
  have len: "length rs = ?n" unfolding rs_def by (rule length_midx_rows [OF assms(2)])
  have rows: "rows_of rs" unfolding rs_def by (rule midx_rows_ok [OF assms(1,2)])
  have row: "?t (fst e) = c \<and> fst e = of_int (int c) \<and> d_trunc N (fst e) = int c" if "e \<in> set (rs ! c)" "c < ?n" for e c
  proof -
    have "fst e = of_int (int c)" using rows that len by (auto simp: rows_of_def)
    then show ?thesis using exact_index(2) [OF assms(1), of "int c"] by simp
  qed
  have "(\<Sum>c<?n. \<Sum>k\<in>{row_start rs c..<row_start rs (Suc c)}.
      if map (\<lambda>(_, c, _). d_trunc N c) es ! k = int i then map (\<lambda>(_, _, g). g) es ! k * x ! c else 0) =
    (\<Sum>c<?n. \<Sum>k\<in>{row_start rs c..<row_start rs (Suc c)}. ?f c (concat rs ! k))"
  proof (intro sum.cong refl)
    fix c k assume "k \<in> {row_start rs c..<row_start rs (Suc c)}"
    then have "k < length es" using row_start_le [of rs c] unfolding es by simp
    then show "(if map (\<lambda>(_, c, _). d_trunc N c) es ! k = int i then map (\<lambda>(_, _, g). g) es ! k * x ! c else 0) = ?f c (concat rs ! k)"
      by (simp add: es case_prod_beta')
  qed
  also have "\<dots> = (\<Sum>c<?n. \<Sum>e\<leftarrow>rs ! c. ?f c e)" by (intro sum.cong refl sum_row) (simp add: len)
  also have "\<dots> = (\<Sum>c<?n. \<Sum>e\<leftarrow>rs ! c. ?f (?t (fst e)) e)"
    by (intro sum.cong refl arg_cong [of _ _ sum_list] map_cong) (simp_all add: row [THEN conjunct1])
  also have "\<dots> = (\<Sum>e\<leftarrow>es. ?f (?t (fst e)) e)"
    by (simp add: es map_concat sum_list_concat sum_list_sum_nth [of "map _ rs"] comp_def len atLeast0LessThan)
  also have "\<dots> = (\<Sum>e\<leftarrow>es. if d_trunc N (fst e) = int i then snd (snd e) * x ! ?t (fst (snd e)) else 0)"
    unfolding es_def by (subst midx_sum_swap [OF assms(1,2)]) (simp cong: if_cong)
  also have "\<dots> = (\<Sum>e\<leftarrow>es. if fst e = of_int (int i) then snd (snd e) * x ! ?t (fst (snd e)) else 0)"
  proof (intro arg_cong [of _ _ sum_list] map_cong refl if_cong)
    fix e assume "e \<in> set es"
    then obtain c where c: "c < ?n" "e \<in> set (rs ! c)" unfolding es set_concat by (metis UN_E in_set_conv_nth len)
    show "(d_trunc N (fst e) = int i) = (fst e = of_int (int i))" using row [OF c(2,1)] by (metis of_int_eq_iff of_nat_eq_iff)
  qed
  also have "\<dots> = flow N x (rs ! i)"
    using filter_row [OF rows, of i] assms(3) len by (simp add: sum_list_if es flow_def case_prod_unfold)
  finally show ?thesis .
qed

lemma columns_are_rows:
  fixes N :: "('d::linordered_field) thermal_lib"
  assumes "exact_num N" "die_ok d" "steady_system N d pm (midx_entries N d) Ta = ret (a, asub, xa, rhs)"
  shows "solves_columns (nat (nodes d)) a asub xa rhs x \<longleftrightarrow>
    length x = nat (nodes d) \<and> (\<forall>r<nat (nodes d). flow N x (midx_rows N d ! r) = rhs ! r)"
proof -
  let ?n = "nat (nodes d)"
  have s: "a = map (\<lambda>(_, _, g). g) (midx_entries N d)" "asub = map (\<lambda>(_, c, _). d_trunc N c) (midx_entries N d)"
      "xa = map (int \<circ> row_start (midx_rows N d)) [0..<?n + 1]"
    using steady_system_total [OF assms(1,2), of pm Ta] assms(3) by auto
  have "nat (xa ! c) = row_start (midx_rows N d) c" if "c \<le> ?n" for c using that unfolding s(3) by (simp del: upt_Suc)
  then have "(\<Sum>c<?n. \<Sum>k\<in>{nat (xa ! c)..<nat (xa ! Suc c)}. if asub ! k = int i then a ! k * x ! c else 0) =
      flow N x (midx_rows N d ! i)" if "i < ?n" for i
    using column_equation [OF assms(1,2) that, of x] unfolding s(1,2) by simp
  then show ?thesis unfolding solves_columns_def by auto
qed

lemma flow_const:
  fixes N :: "('d::linordered_field) thermal_lib"
  assumes "exact_num N" "die_ok d" "r < nat (nodes d)"
  shows "flow N (replicate (nat (nodes d)) t) (midx_rows N d ! r) = (if int r < plane d then t / Ramb N d else 0)"
proof -
  have "replicate (nat (nodes d)) t ! nat (d_trunc N (fst (snd e))) = t" if "e \<in> set (midx_rows N d ! r)" for e
  proof -
    have "midx_rows N d ! r \<in> set (midx_rows N d)" using assms(3) length_midx_rows [OF assms(2)] by (intro nth_mem) simp
    then have "e \<in> set (midx_entries N d)" using that unfolding midx_entries_def midx_rows_def set_concat by blast
    then have "d_trunc N (fst (snd e)) \<in> set (map (\<lambda>(_, c, _). d_trunc N c) (midx_entries N d))" by (force simp: case_prod_unfold)
    from midx_cols [OF assms(1,2) this] show ?thesis by simp
  qed
  then have "flow N (replicate (nat (nodes d)) t) (midx_rows N d ! r) = (\<Sum>e\<leftarrow>midx_rows N d ! r. t * snd (snd e))"
    unfolding flow_def by (intro arg_cong [of _ _ sum_list] map_cong refl) (simp add: case_prod_unfold)
  also have "\<dots> = t * (\<Sum>(_, _, g)\<leftarrow>midx_rows N d ! r. g)" by (simp only: sum_list_const_mult case_prod_unfold)
  finally show ?thesis using midx_rows_sum [OF assms] by simp
qed

section \<open>The time stepping\<close>

text \<open>One step of the explicit Euler method for \<open>C dT/dt = P - G T\<close>.\<close>

definition euler :: "('d::linordered_field) thermal_lib \<Rightarrow> 'd Die \<Rightarrow> 'd list \<Rightarrow> 'd \<Rightarrow> 'd list \<Rightarrow> 'd list \<Rightarrow> 'd list" where
  "euler N d Cap dt P T = map (\<lambda>r. T ! r + dt / Cap ! nat (int r div plane d) * (P ! r - flow N T (midx_rows N d ! r))) [0..<nat (nodes d)]"

lemma transient_step_euler:
  fixes N :: "('d::linordered_field) thermal_lib"
  assumes "exact_num N" "die_ok d" "length Cap = nat (numLayer d + 1)"
  shows "transient_step N d (midx_entries N d) Cap dt P Tp = ret (euler N d Cap dt P Tp)"
proof -
  obtain T where T: "transient_step N d (midx_entries N d) Cap dt P Tp = ret T" "length T = nat (nodes d)"
    "\<forall>(l, j, i)\<in>set (die_nodes d). T ! nat (node d l j i) =
       Tp ! nat (node d l j i) + dt / Cap ! nat l * (P ! nat (node d l j i) - flow N Tp (midx_row N d l j i))"
    using transient_step_exact [OF assms] by blast
  have "T = euler N d Cap dt P Tp"
  proof (rule nth_equalityI)
    fix p assume "p < length T"
    then have p: "p < nat (nodes d)" using T(2) by simp
    obtain l j i where n: "(l, j, i) \<in> set (die_nodes d)" "midx_rows N d ! p = midx_row N d l j i" "node d l j i = int p"
      using midx_rows_nth [OF assms(2) p] by metis
    have "int p div plane d = l" using node_range [OF assms(2) die_nodes_nth [OF n(1)]] n(3) by simp
    then show "T ! p = euler N d Cap dt P Tp ! p" using bspec [OF T(3) n(1)] n(2,3) p by (simp add: euler_def)
  qed (simp add: T(2) euler_def)
  then show ?thesis using T(1) by simp
qed

lemma for_run_steps: "(\<And>s. f s = ret (g s)) \<Longrightarrow> for_run (\<lambda>_. f) xs s = ret ((g ^^ length xs) s)"
  by (induction xs arbitrary: s) (simp_all add: funpow_swap1)

lemma transient_solver_euler:
  fixes N :: "('d::linordered_field) thermal_lib"
  assumes "exact_num N" "die_ok d" "length Cap = nat (numLayer d + 1)" "transient_rhs N d pm Ta = ret P"
  shows "transient_thermal_solver N d pm (midx_entries N d) Cap time iters T Ta =
    ret ((euler N d Cap (time / of_int iters) P ^^ nat iters) T)"
  using for_run_steps [where xs = "[0..iters - 1]" and s = T, OF transient_step_euler [OF assms(1-3), of "time / of_int iters" P]] assms(1,4)
  by (simp add: transient_thermal_solver_def exact_num_def)

end
