(* ===== verification/Thermal_Plan.thy ===== *)
theory Thermal_Plan
  imports Thermal Thermal_Balance
begin

text \<open>
  The floorplan of the thermal calculator: every vault, bank, row and column of a command is
  mapped to a cell of the floorplan.
\<close>

section \<open>The floorplan holds every command\<close>

text \<open>The whole number of grids that the banks are divided into.\<close>

definition grids_ok :: "Config \<Rightarrow> 'd ThermalConfig \<Rightarrow> bool" where
  "grids_ok c tc \<longleftrightarrow> 0 < num_x_grids tc \<and> 0 < mat_dim_x tc \<and> 0 < mat_dim_y tc \<and> 0 < row_tile tc \<and> 0 < tile_row_num tc \<and>
     rows c = num_x_grids tc * row_tile tc * mat_dim_x tc \<and> rows c = tile_row_num tc * row_tile tc \<and>
     (\<exists>w>0. num_y_grids tc = w * row_tile tc \<and> columns c * device_width c = w * mat_dim_y tc)"

definition vaults :: "Config \<Rightarrow> 'd Thermal \<Rightarrow> int \<times> int" where
  "vaults c th = (if IsHMC c then (vault_x th, vault_y th) else if IsHBM c then (1, 2) else (1, 1))"

text \<open>
  The banks have room on the floorplan: a layer of an HMC has two banks, of an HBM two channels
  of up to four groups of four, and a chip with bank groups is at least two banks wide.
\<close>

definition plan_ok :: "Config \<Rightarrow> 'd ThermalConfig \<Rightarrow> 'd Thermal \<Rightarrow> bool" where
  "plan_ok c tc th \<longleftrightarrow>
     dimX th = fst (vaults c th) * bank_x th * num_x_grids tc \<and> dimY th = snd (vaults c th) * bank_y th * num_y_grids tc \<and>
     0 < bank_x th \<and> 0 < bank_y th \<and> 0 < banks_per_group c \<and> banks c = bankgroups c * banks_per_group c \<and>
     (if IsHMC c then bank_x th = 1 \<and> bank_y th = 2 \<and> 0 < num_dies c \<and> banks c = num_dies c * 2 \<and> numP th = num_dies c + 1 \<and>
        0 < vault_x th \<and> 0 < vault_y th \<and> channels c = vault_x th * vault_y th
      else if IsHBM c then bank_x th = 8 \<and> bank_y th = 2 \<and> numP th = num_dies c + 1 \<and> channels c \<le> num_dies c * 2 \<and>
        bankgroups c \<le> 4 \<and> banks_per_group c \<le> 4
      else numP th = 1 \<and>
        (if bankgroups c > 1
         then banks_per_group c \<le> 4 \<and> (if bank_x th \<le> bank_y th then 2 \<le> bank_x th \<and> bankgroups c * 2 \<le> bank_y th
                                      else 2 \<le> bank_y th \<and> bankgroups c * 2 \<le> bank_x th)
         else banks c = bank_x th * bank_y th))"

lemma plan_ok_cong:
  assumes "numP th' = numP th" "dimX th' = dimX th" "dimY th' = dimY th" "vault_x th' = vault_x th" "vault_y th' = vault_y th"
    "bank_x th' = bank_x th" "bank_y th' = bank_y th"
  shows "plan_ok c tc th' = plan_ok c tc th"
  unfolding plan_ok_def vaults_def assms ..

lemma cdiv_pos: "0 \<le> a \<Longrightarrow> 0 < b \<Longrightarrow> cdiv a b = ret (a div b)"
  by (auto simp: cdiv_def sgn_if)

lemma crem_pos: "0 \<le> a \<Longrightarrow> 0 < b \<Longrightarrow> crem a b = ret (a mod b)"
  by (auto simp: crem_def sgn_if)

lemma div_mod_range:
  fixes a :: int
  assumes "0 \<le> a" "0 < b" "a < n * b"
  shows "0 \<le> a div b" "a div b < n" "0 \<le> a mod b" "a mod b < b"
proof -
  have "a div b * b = a - a mod b" by (simp add: minus_mod_eq_div_mult)
  then have "a div b * b < n * b" using assms pos_mod_sign [OF assms(2), of a] by linarith
  then show "a div b < n" using assms(2) by (simp add: mult_less_cancel_right)
qed (use assms in \<open>simp_all add: pos_imp_zdiv_nonneg_iff\<close>)

lemma hmc_layers:
  assumes "plan_ok c tc th" "IsHMC c"
  shows "cdiv (banks c) (num_dies c) = ret 2" "banks c = num_dies c * 2"
proof -
  have b: "banks c = num_dies c * 2" "0 < num_dies c" using assms by (simp_all add: plan_ok_def)
  then show "cdiv (banks c) (num_dies c) = ret 2" "banks c = num_dies c * 2" by (simp_all add: cdiv_pos)
qed

lemma MapToVault_range:
  assumes "plan_ok c tc th" "0 \<le> ch" "ch < channels c"
  shows "\<exists>x y. MapToVault c tc th ch = ret (x, y) \<and> 0 \<le> x \<and> x < fst (vaults c th) \<and> 0 \<le> y \<and> y < snd (vaults c th)"
proof (cases "IsHMC c")
  case True
  then have v: "0 < vault_x th" "0 < vault_y th" "ch < vault_x th * vault_y th" "ch < vault_y th * vault_x th"
    using assms by (auto simp: plan_ok_def mult.commute)
  show ?thesis
    using True div_mod_range [OF assms(2) v(1) v(4)] div_mod_range [OF assms(2) v(2) v(3)] v assms(2)
    by (auto simp: MapToVault_def vaults_def Let_def cdiv_pos crem_pos swap_if_def)
next
  case False
  then show ?thesis using assms(2) by (auto simp: MapToVault_def vaults_def crem_pos)
qed

lemma MapToBank_range:
  assumes "plan_ok c tc th" "0 \<le> bg" "bg < bankgroups c" "0 \<le> b" "b < banks_per_group c"
  shows "\<exists>x y. MapToBank c tc th bg b = ret (x, y) \<and> 0 \<le> x \<and> x < bank_x th \<and> 0 \<le> y \<and> y < bank_y th"
proof -
  let ?a = "bg * banks_per_group c + b"
  have a: "0 \<le> ?a" "?a < banks c" using cell_range [of bg "bankgroups c" b "banks_per_group c"] assms by (auto simp: plan_ok_def mult.commute)
  consider "IsHMC c" | "\<not> IsHMC c" "IsHBM c" | "\<not> IsHMC c" "\<not> IsHBM c" "bankgroups c > 1" | "\<not> IsHMC c" "\<not> IsHBM c" "\<not> bankgroups c > 1"
    by blast
  then show ?thesis
  proof cases
    case 1
    have p: "bank_x th = 1" "bank_y th = 2" "cdiv (banks c) (num_dies c) = ret 2"
      using 1 assms(1) hmc_layers [OF assms(1) 1] by (auto simp: plan_ok_def)
    have "?a mod 2 < 2" "0 \<le> ?a mod 2" by simp_all
    then show ?thesis using 1 p a(1) by (auto simp: MapToBank_def Let_def crem_pos cdiv_pos swap_if_def)
  next
    case 2
    have p: "bank_x th = 8" "bank_y th = 2" "bg < 4" "b < 4" using 2 assms by (auto simp: plan_ok_def)
    have "b div 2 < 2" "0 \<le> b div 2" using p(4) assms(4) by auto
    then show ?thesis using 2 p assms(2,4) by (auto simp: MapToBank_def Let_def crem_pos cdiv_pos)
  next
    case 3
    have p: "b < 4" "if bank_x th \<le> bank_y th then 2 \<le> bank_x th \<and> bankgroups c * 2 \<le> bank_y th
        else 2 \<le> bank_y th \<and> bankgroups c * 2 \<le> bank_x th"
      using 3 assms by (auto simp: plan_ok_def split: if_splits)
    have "b div 2 < 2" "0 \<le> b div 2" "b mod 2 < 2" "0 \<le> b mod 2" using p(1) assms(4) by auto
    then show ?thesis using 3 p assms(2-4) by (auto simp: MapToBank_def Let_def crem_pos cdiv_pos swap_if_def split: if_splits)
  next
    case 4
    have p: "0 < bank_x th" "0 < bank_y th" "?a < bank_x th * bank_y th" "?a < bank_y th * bank_x th"
      using 4 assms(1) a by (auto simp: plan_ok_def mult.commute)
    show ?thesis
      using 4 p a(1) div_mod_range [OF a(1) p(1) p(4)] div_mod_range [OF a(1) p(2) p(3)]
      by (auto simp: MapToBank_def Let_def crem_pos cdiv_pos swap_if_def)
  qed
qed

lemma MapToZ_range:
  assumes "plan_ok c tc th" "0 \<le> ch" "ch < channels c" "0 \<le> b" "b < banks c"
  shows "\<exists>z. MapToZ c tc th ch b = ret z \<and> 0 \<le> z \<and> z < numP th"
proof -
  have "IsHMC c \<Longrightarrow> cdiv (banks c) (num_dies c) = ret 2 \<and> b div 2 < num_dies c \<and> 0 \<le> b div 2 \<and> numP th = num_dies c + 1"
    using assms hmc_layers [OF assms(1)] by (auto simp: plan_ok_def)
  moreover have "\<not> IsHMC c \<Longrightarrow> IsHBM c \<Longrightarrow> ch div 2 < num_dies c \<and> 0 \<le> ch div 2 \<and> numP th = num_dies c + 1"
    using assms by (auto simp: plan_ok_def)
  moreover have "\<not> IsHMC c \<Longrightarrow> \<not> IsHBM c \<Longrightarrow> numP th = 1" using assms by (auto simp: plan_ok_def)
  ultimately show ?thesis using assms(2,4) by (auto simp: MapToZ_def cdiv_pos)
qed

unbundle bit_operations_syntax

section \<open>Physical locations stay in the bank\<close>

definition mapping_ok :: "Config \<Rightarrow> int list list option \<Rightarrow> bool" where
  "mapping_ok c pos \<longleftrightarrow> (case pos of None \<Rightarrow> True
     | Some ps \<Rightarrow> length ps = 6 \<and> (\<forall>p\<in>set ps. length p < 32) \<and> 2 ^ length (ps ! 4) \<le> rows c \<and> 2 ^ length (ps ! 5) \<le> columns c)"

lemma ModuloWidth_range:
  assumes "w < 32"
  shows "0 \<le> sint (ModuloWidth h w p)" "sint (ModuloWidth h w p) < 2 ^ w"
proof -
  let ?s = "drop_bit p h"
  have "?s XOR push_bit w (drop_bit w ?s) = take_bit w ?s"
  proof (rule bit_eqI)
    fix n
    have "w \<le> n \<Longrightarrow> w + p + (n - w) = p + n" by simp
    then show "bit (?s XOR push_bit w (drop_bit w ?s)) n = bit (take_bit w ?s) n" if "possible_bit TYPE(64 word) n"
      using that by (cases "n < w") (auto simp: bit_xor_iff bit_push_bit_iff bit_drop_bit_eq bit_take_bit_iff)
  qed
  then have m: "ModuloWidth h w p = take_bit w (ucast ?s)"
    using assms by (simp add: ModuloWidth_def Let_def) (rule bit_eqI, auto simp: bit_take_bit_iff bit_unsigned_iff)
  have u: "uint (take_bit w (ucast ?s :: 32 word)) < 2 ^ w"
    by (simp add: unsigned_take_bit_eq take_bit_int_less_exp)
  have "(2 :: int) ^ w \<le> 2 ^ 31" using assms by (intro power_increasing) auto
  moreover have "0 \<le> uint (take_bit w (ucast ?s :: 32 word))" by simp
  ultimately have "signed_take_bit 31 (uint (take_bit w (ucast ?s :: 32 word))) = uint (take_bit w (ucast ?s :: 32 word))"
    using u by (intro signed_take_bit_int_eq_self) linarith+
  then have "sint (ModuloWidth h w p) = uint (ModuloWidth h w p)" unfolding m sint_uint by simp
  then show "0 \<le> sint (ModuloWidth h w p)" "sint (ModuloWidth h w p) < 2 ^ w" using u unfolding m by auto
qed

lemma take_fields_nth:
  assumes "k < length ps"
  shows "length (take_fields h ps p) = length ps" "\<exists>q. take_fields h ps p ! k = sint (ModuloWidth h (length (ps ! k)) q)"
proof -
  show "length (take_fields h ps p) = length ps" by (induction ps arbitrary: p) auto
  show "\<exists>q. take_fields h ps p ! k = sint (ModuloWidth h (length (ps ! k)) q)"
    using assms
  proof (induction ps arbitrary: p k)
    case (Cons a ps)
    then show ?case by (cases k) auto
  qed simp
qed

lemma phy_field:
  assumes "length ps = 6" "k < 6"
  shows "\<exists>q. rev (take_fields h (rev ps) p) ! k = sint (ModuloWidth h (length (ps ! k)) q)"
proof -
  have "length (take_fields h (rev ps) p) = 6" using take_fields_nth(1) [of 0 "rev ps" h p] assms(1) by simp
  then have "rev (take_fields h (rev ps) p) ! k = take_fields h (rev ps) p ! (6 - Suc k)" using assms(2) by (simp add: rev_nth)
  moreover have "rev ps ! (6 - Suc k) = ps ! k" using assms by (simp add: rev_nth)
  ultimately show ?thesis using take_fields_nth(2) [of "6 - Suc k" "rev ps" h p] assms by simp
qed

lemma phy_range:
  assumes "mapping_ok c pos" "pos = None \<Longrightarrow> 0 \<le> ad_row a \<and> ad_row a < rows c"
  shows "0 \<le> ad_row (GetPhyAddress c pos a) \<and> ad_row (GetPhyAddress c pos a) < rows c"
proof (cases pos)
  case None
  then show ?thesis using assms(2) by (simp add: GetPhyAddress_def)
next
  case (Some ps)
  then have m: "length ps = 6" "length (ps ! 4) < 32" "2 ^ length (ps ! 4) \<le> rows c" using assms(1) by (auto simp: mapping_ok_def)
  show ?thesis
  proof -
    obtain h p where "ad_row (GetPhyAddress c pos a) = rev (take_fields h (rev ps) p) ! 4"
      by (simp add: GetPhyAddress_def Let_def mk_Address_def Some)
    moreover obtain q where "rev (take_fields h (rev ps) p) ! 4 = sint (ModuloWidth h (length (ps ! 4)) q)"
      using phy_field [OF m(1), of 4 h p] by auto
    ultimately show ?thesis using ModuloWidth_range [OF m(2), of h q] m(3) by linarith
  qed
qed

lemma phy_col_range:
  assumes "mapping_ok c pos" "pos = None \<Longrightarrow> 0 \<le> ad_column a \<and> ad_column a < columns c"
  shows "0 \<le> ad_column (GetPhyAddress c pos a) \<and> ad_column (GetPhyAddress c pos a) < columns c"
proof (cases pos)
  case None
  then show ?thesis using assms(2) by (simp add: GetPhyAddress_def)
next
  case (Some ps)
  then have m: "length ps = 6" "length (ps ! 5) < 32" "2 ^ length (ps ! 5) \<le> columns c" using assms(1) by (auto simp: mapping_ok_def)
  show ?thesis
  proof -
    obtain h p where "ad_column (GetPhyAddress c pos a) = rev (take_fields h (rev ps) p) ! 5"
      by (simp add: GetPhyAddress_def Let_def mk_Address_def Some)
    moreover obtain q where "rev (take_fields h (rev ps) p) ! 5 = sint (ModuloWidth h (length (ps ! 5)) q)"
      using phy_field [OF m(1), of 5 h p] by auto
    ultimately show ?thesis using ModuloWidth_range [OF m(2), of h q] m(3) by linarith
  qed
qed

section \<open>Cells\<close>

lemma grid_place:
  fixes v b g V B n :: int
  assumes "0 \<le> v" "v < V" "0 \<le> b" "b < B" "0 \<le> g" "g < n"
  shows "0 \<le> v * (B * n) + b * n + g \<and> v * (B * n) + b * n + g < V * B * n"
  using cell_range [of b B g n] cell_range [of v V "b * n + g" "B * n"] assms by (auto simp: algebra_simps)

lemma cell_index:
  assumes "0 \<le> z" "z < numP th" "0 \<le> y" "y < dimY th" "0 \<le> x" "x < dimX th"
  shows "0 \<le> z * dimX th * dimY th + y * dimX th + x \<and> z * dimX th * dimY th + y * dimX th + x < numP th * dimX th * dimY th"
  using cell_range [of y "dimY th" x "dimX th"] cell_range [of z "numP th" "y * dimX th + x" "dimX th * dimY th"] assms
  by (auto simp: algebra_simps)

lemma row_place_range:
  assumes "grids_ok c tc" "0 \<le> r" "r < rows c"
  shows "\<exists>t g. row_place tc r = ret (t, g) \<and> 0 \<le> t \<and> t < row_tile tc \<and> 0 \<le> g \<and> g < num_x_grids tc"
proof -
  have p: "0 < tile_row_num tc" "0 < mat_dim_x tc" "0 < row_tile tc" "r < row_tile tc * tile_row_num tc"
      "r < (num_x_grids tc * row_tile tc) * mat_dim_x tc"
    using assms by (auto simp: grids_ok_def mult.commute)
  note t = div_mod_range [OF assms(2) p(1) p(4)] and m = div_mod_range [OF assms(2) p(2) p(5)]
  note g = div_mod_range [OF m(1) p(3) m(2)]
  show ?thesis using t m g p assms(2) by (simp add: row_place_def cdiv_pos)
qed

text \<open>The cell of a bit is on the floorplan of the bank, and so are those below the first one of a tile.\<close>

lemma cell_place_range:
  assumes "grids_ok c tc" "plan_ok c tc th" "0 \<le> k" "k < columns c * device_width c"
    "0 \<le> t" "t < row_tile tc" "0 \<le> g" "g < num_x_grids tc"
    "0 \<le> vx" "vx < fst (vaults c th)" "0 \<le> vy" "vy < snd (vaults c th)" "0 \<le> bx" "bx < bank_x th" "0 \<le> b" "b < bank_y th"
  shows "\<exists>x y. cell_place tc th (vx, vy) (bx, b) (t, g) k = ret (x, y) \<and> 0 \<le> x \<and> x < dimX th \<and> 0 \<le> y \<and> y < dimY th"
proof -
  obtain w where w: "0 < w" "num_y_grids tc = w * row_tile tc" "columns c * device_width c = w * mat_dim_y tc"
    using assms(1) by (auto simp: grids_ok_def)
  have p: "0 < mat_dim_y tc" "0 < row_tile tc" using assms(1) by (auto simp: grids_ok_def)
  have k: "k < w * mat_dim_y tc" using assms(4) w(3) by simp
  note m = div_mod_range [OF assms(3) p(1) k]
  have "cdiv (num_y_grids tc) (row_tile tc) = ret w" using w p by (simp add: cdiv_pos)
  moreover have gy: "0 \<le> k div mat_dim_y tc + t * w" "k div mat_dim_y tc + t * w < num_y_grids tc"
    using m cell_range [of t "row_tile tc" "k div mat_dim_y tc" w] assms(5,6) w(2) by (auto simp: add.commute)
  moreover note grid_place [OF assms(9,10,13,14,7,8)] grid_place [OF assms(11,12,15,16) gy]
  ultimately show ?thesis
    using assms(2,3) p by (simp add: cell_place_def cdiv_pos plan_ok_def Let_def)
qed

end
