(* ===== verification/Thermal_Energy.thy ===== *)
theory Thermal_Energy
  imports Thermal_Plan
begin

text \<open>
  The energy maps of the thermal calculator: a command adds its energy to the maps, spread over
  the cells of its burst or of its refreshed rows, and the power that is given to the solver is
  that of the maps. The loops for memories that are not stacked do not end or leave the map.
\<close>

section \<open>Energy is added to the maps\<close>

definition maps_ok :: "'d Thermal \<Rightarrow> bool" where
  "maps_ok th \<longleftrightarrow> (\<forall>m\<in>{accu_Pmap th, cur_Pmap th}. length m = nat (num_case th) \<and>
     (\<forall>k<length m. length (m ! k) = nat (numP th * dimX th * dimY th)))"

text \<open>The counters of the refreshed blocks; a whole number of blocks makes up the rows of a bank.\<close>

definition refresh_blocks_ok :: "Config \<Rightarrow> 'd ThermalConfig \<Rightarrow> 'd Thermal \<Rightarrow> bool" where
  "refresh_blocks_ok c tc th \<longleftrightarrow> length (refresh_count th) = nat (channels c * ranks c) \<and>
     (\<forall>ns\<in>set (refresh_count th). length ns = nat (banks c) \<and> (\<forall>n\<in>set ns. 0 \<le> n \<and> (n + 1) * num_row_refresh tc \<le> rows c))"

definition core :: "'d Thermal \<Rightarrow> 'd Thermal" where
  "core th = th\<lparr>accu_Pmap := [], cur_Pmap := [], refresh_count := []\<rparr>"

text \<open>The states reached from \<open>th0\<close> while energy is added to the maps of one case.\<close>

definition heated :: "Config \<Rightarrow> 'd ThermalConfig \<Rightarrow> 'd Thermal \<Rightarrow> int \<Rightarrow> 'd Thermal \<Rightarrow> bool" where
  "heated c tc th0 case_id th \<longleftrightarrow> core th = core th0 \<and> maps_ok th \<and> refresh_blocks_ok c tc th \<and>
     (\<forall>k. int k \<noteq> case_id \<longrightarrow> accu_Pmap th ! k = accu_Pmap th0 ! k \<and> cur_Pmap th ! k = cur_Pmap th0 ! k)"

lemma core_fields:
  assumes "core th = core th0"
  shows "numP th = numP th0" "dimX th = dimX th0" "dimY th = dimY th0" "vault_x th = vault_x th0" "vault_y th = vault_y th0"
    "bank_x th = bank_x th0" "bank_y th = bank_y th0" "num_case th = num_case th0" "phy_pos th = phy_pos th0"
  using arg_cong [OF assms, of numP] arg_cong [OF assms, of dimX] arg_cong [OF assms, of dimY] arg_cong [OF assms, of vault_x]
    arg_cong [OF assms, of vault_y] arg_cong [OF assms, of bank_x] arg_cong [OF assms, of bank_y] arg_cong [OF assms, of num_case]
    arg_cong [OF assms, of phy_pos]
  by (simp_all add: core_def)

lemma heated_plan:
  assumes "heated c tc th0 k th" "plan_ok c tc th0"
  shows "plan_ok c tc th"
proof -
  have c: "core th = core th0" using assms(1) by (simp add: heated_def)
  show ?thesis using assms(2) plan_ok_cong [OF core_fields(1-7) [OF c]] by simp
qed

abbreviation accu_total :: "int \<Rightarrow> ('d::monoid_add) Thermal \<Rightarrow> 'd" where
  "accu_total k th \<equiv> sum_list (accu_Pmap th ! nat k)"
abbreviation cur_total :: "int \<Rightarrow> ('d::monoid_add) Thermal \<Rightarrow> 'd" where
  "cur_total k th \<equiv> sum_list (cur_Pmap th ! nat k)"

lemma pmap_add_total:
  fixes m :: "('d::ab_group_add) list list"
  assumes "0 \<le> k" "k < int (length m)" "0 \<le> i" "i < int (length (m ! nat k))"
  shows "\<exists>m'. pmap_add m k i e = ret m' \<and> length m' = length m \<and> (\<forall>q<length m. length (m' ! q) = length (m ! q)) \<and>
    (\<forall>q. int q \<noteq> k \<longrightarrow> m' ! q = m ! q) \<and> sum_list (m' ! nat k) = sum_list (m ! nat k) + e"
proof -
  have "nat k < length m" "nat i < length (m ! nat k)" using assms by linarith+
  then show ?thesis using assms by (auto simp: pmap_add_def nth_list_update sum_list_store)
qed

lemma add_energy_at_total:
  fixes th :: "('d::ab_group_add) Thermal"
  assumes "heated c tc th0 k th" "0 \<le> k" "k < num_case th" "0 \<le> i" "i < numP th * dimX th * dimY th"
  shows "\<exists>th'. add_energy_at k i e th = ret th' \<and> heated c tc th0 k th' \<and> accu_total k th' = accu_total k th + e \<and>
    cur_total k th' = cur_total k th + e"
proof -
  have m: "maps_ok th" using assms(1) by (simp add: heated_def)
  then have la: "k < int (length (accu_Pmap th))" "i < int (length (accu_Pmap th ! nat k))"
    and lc: "k < int (length (cur_Pmap th))" "i < int (length (cur_Pmap th ! nat k))"
    using assms(2-5) by (auto simp: maps_ok_def)
  obtain a where a: "pmap_add (accu_Pmap th) k i e = ret a" "length a = length (accu_Pmap th)"
    "\<forall>q<length (accu_Pmap th). length (a ! q) = length (accu_Pmap th ! q)" "\<forall>q. int q \<noteq> k \<longrightarrow> a ! q = accu_Pmap th ! q"
    "sum_list (a ! nat k) = sum_list (accu_Pmap th ! nat k) + e"
    using pmap_add_total [OF assms(2) la(1) assms(4) la(2)] by blast
  obtain u where u: "pmap_add (cur_Pmap th) k i e = ret u" "length u = length (cur_Pmap th)"
    "\<forall>q<length (cur_Pmap th). length (u ! q) = length (cur_Pmap th ! q)" "\<forall>q. int q \<noteq> k \<longrightarrow> u ! q = cur_Pmap th ! q"
    "sum_list (u ! nat k) = sum_list (cur_Pmap th ! nat k) + e"
    using pmap_add_total [OF assms(2) lc(1) assms(4) lc(2)] by blast
  have "heated c tc th0 k (th\<lparr>accu_Pmap := a, cur_Pmap := u\<rparr>)"
    using assms(1) m a(2-4) u(2-4) by (auto simp: heated_def core_def maps_ok_def refresh_blocks_ok_def)
  then show ?thesis using a(1,5) u(1,5) by (simp add: add_energy_at_def)
qed

lemma for_run_adds:
  fixes w :: "'d::linordered_field"
  assumes "P s" "\<And>x t. x \<in> set xs \<Longrightarrow> P t \<Longrightarrow> \<exists>t'. f x t = ret t' \<and> P t' \<and> m t' = m t + w \<and> n t' = n t + w"
  shows "\<exists>s'. for_run f xs s = ret s' \<and> P s' \<and> m s' = m s + of_nat (length xs) * w \<and> n s' = n s + of_nat (length xs) * w"
  using assms
proof (induction xs arbitrary: s)
  case (Cons x xs)
  obtain t where t: "f x s = ret t" "P t" "m t = m s + w" "n t = n s + w" using Cons.prems(2) [OF list.set_intros(1) Cons.prems(1)] by blast
  obtain s' where "for_run f xs t = ret s'" "P s'" "m s' = m t + of_nat (length xs) * w" "n s' = n t + of_nat (length xs) * w"
    using Cons.IH [OF t(2)] Cons.prems(2) [OF list.set_intros(2)] by blast
  then show ?case using t by (auto simp: algebra_simps)
qed simp

section \<open>Commands\<close>

lemma of_nat_nat_int: "0 \<le> i \<Longrightarrow> of_nat (nat i) = (of_int i :: 'd::ring_1)"
  by simp

lemma map_run_all:
  assumes "\<And>x. x \<in> set xs \<Longrightarrow> \<exists>y. f x = ret y \<and> Q y"
  shows "\<exists>ys. map_run f xs = ret ys \<and> length ys = length xs \<and> (\<forall>y\<in>set ys. Q y)"
  using assms
proof (induction xs)
  case (Cons x xs)
  then obtain y ys where "f x = ret y" "Q y" "map_run f xs = ret ys" "length ys = length xs" "\<forall>y\<in>set ys. Q y"
    by (metis list.set_intros)
  then show ?case by simp
qed simp

text \<open>The cells of a burst lie on the floorplan, one for every bit of every column.\<close>

lemma burst_cells:
  assumes "plan_ok c tc th" "grids_ok c tc" "mapping_ok c (phy_pos th)"
    "0 \<le> c_Row cmd" "c_Row cmd < rows c" "0 \<le> c_Column cmd" "c_Column cmd + cfg_BL c \<le> columns c"
    "0 \<le> vx" "vx < fst (vaults c th)" "0 \<le> vy" "vy < snd (vaults c th)" "0 \<le> bx" "bx < bank_x th" "0 \<le> b" "b < bank_y th"
  shows "\<exists>xys. MapToXY c tc th cmd (vx, vy) (bx, b) = ret xys \<and> length xys = nat (cfg_BL c) * nat (device_width c) \<and>
    (\<forall>p\<in>set xys. 0 \<le> fst p \<and> fst p < dimX th \<and> 0 \<le> snd p \<and> snd p < dimY th)"
proof -
  obtain t g where tg: "row_place tc (c_Row cmd) = ret (t, g)" "0 \<le> t" "t < row_tile tc" "0 \<le> g" "g < num_x_grids tc"
    using row_place_range [OF assms(2,4,5)] by blast
  let ?f = "\<lambda>(i, j). let phy_loc = GetPhyAddress c (phy_pos th) ((cmd_addr cmd)\<lparr>ad_column := c_Column cmd + i\<rparr>)
       in cell_place tc th (vx, vy) (bx, b) (t, g) (ad_column phy_loc * device_width c + j)"
  have "\<exists>ys. map_run ?f (List.product [0..cfg_BL c - 1] [0..device_width c - 1]) = ret ys \<and>
      length ys = length (List.product [0..cfg_BL c - 1] [0..device_width c - 1]) \<and>
      (\<forall>p\<in>set ys. 0 \<le> fst p \<and> fst p < dimX th \<and> 0 \<le> snd p \<and> snd p < dimY th)"
  proof (rule map_run_all)
    fix p assume p: "p \<in> set (List.product [0..cfg_BL c - 1] [0..device_width c - 1])"
    obtain i j where e: "p = (i, j)" by fastforce
    note ij = p [unfolded e]
    define col where "col = ad_column (GetPhyAddress c (phy_pos th) ((cmd_addr cmd)\<lparr>ad_column := c_Column cmd + i\<rparr>))"
    have "0 \<le> col" "col < columns c"
      using phy_col_range [OF assms(3), of "(cmd_addr cmd)\<lparr>ad_column := c_Column cmd + i\<rparr>"] ij assms(6,7) unfolding col_def by auto
    then have k: "0 \<le> col * device_width c + j" "col * device_width c + j < columns c * device_width c"
      using cell_range [of col "columns c" j "device_width c"] ij by (auto simp: mult.commute)
    show "\<exists>y. ?f p = ret y \<and> 0 \<le> fst y \<and> fst y < dimX th \<and> 0 \<le> snd y \<and> snd y < dimY th"
      using cell_place_range [OF assms(2,1) k tg(2-5) assms(8-15)] unfolding e Let_def col_def by auto
  qed
  then show ?thesis using tg(1) by (simp add: MapToXY_def length_product)
qed

text \<open>The commands whose row and columns have a place, and what their addresses have to satisfy; a rank refresh has no bank.\<close>

definition placed :: "CommandType \<Rightarrow> bool" where
  "placed t \<longleftrightarrow> t \<in> {ACTIVATE, READ, READ_PRECHARGE, WRITE, WRITE_PRECHARGE}"

definition cmd_bank_ok :: "Config \<Rightarrow> int \<Rightarrow> Command \<Rightarrow> bool" where
  "cmd_bank_ok c ch cmd \<longleftrightarrow> 0 \<le> ch \<and> ch < channels c \<and> 0 \<le> c_Rank cmd \<and> c_Rank cmd < ranks c \<and>
     (placed (cmd_type cmd) \<or> cmd_type cmd = REFRESH_BANK \<longrightarrow>
        0 \<le> c_Bankgroup cmd \<and> c_Bankgroup cmd < bankgroups c \<and> 0 \<le> c_Bank cmd \<and> c_Bank cmd < banks_per_group c)"

lemma bank_in_rank:
  assumes "plan_ok c tc th" "0 < bankgroups c" "0 \<le> b" "b < banks_per_group c"
  shows "b < banks c"
proof -
  have "banks_per_group c \<le> bankgroups c * banks_per_group c" using assms by (simp add: plan_ok_def)
  moreover have "banks c = bankgroups c * banks_per_group c" using assms(1) by (simp add: plan_ok_def)
  ultimately show ?thesis using assms(4) by linarith
qed

text \<open>The energy of a burst is spread over its cells.\<close>

lemma burst_energy:
  fixes N :: "('d::linordered_field) thermal_lib"
  assumes "exact_num N" "plan_ok c tc th" "grids_ok c tc" "mapping_ok c (phy_pos th)" "heated c tc th0 k th"
    "cmd_bank_ok c ch cmd" "0 \<le> c_Row cmd" "c_Row cmd < rows c" "0 \<le> c_Column cmd" "c_Column cmd + cfg_BL c \<le> columns c"
    "0 < device_width c" "0 < cfg_BL c" "0 \<le> k" "k < num_case th" "placed (cmd_type cmd)"
  shows "\<exists>th'. LocationMappingANDaddEnergy N c tc ch cmd k e th = ret th' \<and> heated c tc th0 k th' \<and>
    accu_total k th' = accu_total k th + of_int (cfg_BL c) * e \<and> cur_total k th' = cur_total k th + of_int (cfg_BL c) * e"
proof -
  have bk: "0 \<le> ch" "ch < channels c" "0 \<le> c_Bankgroup cmd" "c_Bankgroup cmd < bankgroups c" "0 \<le> c_Bank cmd" "c_Bank cmd < banks_per_group c"
    using assms(6,15) by (simp_all add: cmd_bank_ok_def)
  obtain vx vy where v: "MapToVault c tc th ch = ret (vx, vy)" "0 \<le> vx" "vx < fst (vaults c th)" "0 \<le> vy" "vy < snd (vaults c th)"
    using MapToVault_range [OF assms(2) bk(1,2)] by blast
  obtain bx b where b: "MapToBank c tc th (c_Bankgroup cmd) (c_Bank cmd) = ret (bx, b)" "0 \<le> bx" "bx < bank_x th" "0 \<le> b" "b < bank_y th"
    using MapToBank_range [OF assms(2) bk(3-6)] by blast
  obtain z where z: "MapToZ c tc th ch (c_Bank cmd) = ret z" "0 \<le> z" "z < numP th"
    using MapToZ_range [OF assms(2) bk(1,2,5)] bank_in_rank [OF assms(2) _ bk(5,6)] bk(3,4) by force
  obtain xys where xys: "MapToXY c tc th cmd (vx, vy) (bx, b) = ret xys" "length xys = nat (cfg_BL c) * nat (device_width c)"
    "\<forall>p\<in>set xys. 0 \<le> fst p \<and> fst p < dimX th \<and> 0 \<le> snd p \<and> snd p < dimY th"
    using burst_cells [OF assms(2-4,7-10) v(2-5) b(2-5)] by blast
  let ?e = "e / of_int (device_width c)" and ?i = "\<lambda>p. z * dimX th * dimY th + snd p * dimX th + fst p"
  have "\<exists>th'. for_run (\<lambda>p. add_energy_at k (?i p) ?e) xys th = ret th' \<and> (heated c tc th0 k th' \<and> core th' = core th) \<and>
    accu_total k th' = accu_total k th + of_nat (length xys) * ?e \<and> cur_total k th' = cur_total k th + of_nat (length xys) * ?e"
  proof (rule for_run_adds)
    fix p t assume p: "p \<in> set xys" and t: "heated c tc th0 k t \<and> core t = core th"
    note f = core_fields [of t th]
    have i: "0 \<le> ?i p \<and> ?i p < numP t * dimX t * dimY t" using cell_index [OF z(2,3)] xys(3) p t f by simp
    show "\<exists>t'. add_energy_at k (?i p) ?e t = ret t' \<and> (heated c tc th0 k t' \<and> core t' = core th) \<and>
      accu_total k t' = accu_total k t + ?e \<and> cur_total k t' = cur_total k t + ?e"
      using add_energy_at_total [of c tc th0 k t "?i p" ?e] t i f assms(13,14) by (auto simp: heated_def)
  qed (use assms(5) in simp)
  then obtain th' where th': "for_run (\<lambda>p. add_energy_at k (?i p) ?e) xys th = ret th'" "heated c tc th0 k th'"
    "accu_total k th' = accu_total k th + of_nat (length xys) * ?e" "cur_total k th' = cur_total k th + of_nat (length xys) * ?e"
    by blast
  have "of_nat (length xys) * ?e = of_int (cfg_BL c) * e" using xys(2) assms(11,12) by simp
  moreover have "num N (device_width c) = of_int (device_width c)" using assms(1) by (simp add: exact_num_def)
  ultimately show ?thesis
    using th' v(1) b(1) z(1) xys(1) by (auto simp: LocationMappingANDaddEnergy_def case_prod_unfold)
qed

lemma refresh_place:
  assumes "grids_ok c tc" "plan_ok c tc th" "0 \<le> g" "g < num_x_grids tc"
    "0 \<le> vx" "vx < fst (vaults c th)" "0 \<le> vy" "vy < snd (vaults c th)" "0 \<le> bx" "bx < bank_x th" "0 \<le> b" "b < bank_y th"
  shows "\<exists>x y. cell_place tc th (vx, vy) (bx, b) (0, g) 0 = ret (x, y) \<and> 0 \<le> x \<and> x < dimX th \<and>
    (\<forall>i\<in>{0..num_y_grids tc - 1}. 0 \<le> y + i \<and> y + i < dimY th)"
proof -
  have p: "0 < mat_dim_y tc" "0 < row_tile tc" "0 \<le> num_y_grids tc" using assms(1) by (auto simp: grids_ok_def)
  have "0 \<le> vy * (bank_y th * num_y_grids tc) + b * num_y_grids tc + i \<and>
      vy * (bank_y th * num_y_grids tc) + b * num_y_grids tc + i < dimY th" if "i \<in> {0..num_y_grids tc - 1}" for i
    using grid_place [OF assms(7,8,11,12), of i "num_y_grids tc"] that assms(2) by (auto simp: plan_ok_def)
  moreover have "0 \<le> vx * (bank_x th * num_x_grids tc) + bx * num_x_grids tc + g \<and>
      vx * (bank_x th * num_x_grids tc) + bx * num_x_grids tc + g < dimX th"
    using grid_place [OF assms(5,6,9,10,3,4)] assms(2) by (simp add: plan_ok_def)
  ultimately show ?thesis using p by (simp add: cell_place_def cdiv_pos Let_def)
qed

lemma row_energy:
  fixes th :: "('d::linordered_field) Thermal"
  assumes "plan_ok c tc th" "grids_ok c tc" "row_tile tc = 1" "mapping_ok c (phy_pos th)" "heated c tc th0 k th"
    "0 \<le> ch" "ch < channels c" "0 \<le> bk" "bk < banks c" "0 \<le> r" "r < rows c" "0 \<le> k" "k < num_case th"
  shows "\<exists>th'. LocationMappingANDaddEnergy_RF c tc ch cmd bk r k e th = ret th' \<and> heated c tc th0 k th' \<and>
    accu_total k th' = accu_total k th + of_int (num_y_grids tc) * e \<and> cur_total k th' = cur_total k th + of_int (num_y_grids tc) * e"
proof -
  have bpg: "0 < banks_per_group c" "bk < bankgroups c * banks_per_group c" using assms(1,9) by (auto simp: plan_ok_def)
  note d = div_mod_range [OF assms(8) bpg]
  let ?a = "(cmd_addr cmd)\<lparr>ad_row := r, ad_bankgroup := bk div banks_per_group c, ad_bank := bk mod banks_per_group c\<rparr>"
  obtain vx vy where v: "MapToVault c tc th ch = ret (vx, vy)" "0 \<le> vx" "vx < fst (vaults c th)" "0 \<le> vy" "vy < snd (vaults c th)"
    using MapToVault_range [OF assms(1,6,7)] by blast
  obtain bx b where b: "MapToBank c tc th (bk div banks_per_group c) (bk mod banks_per_group c) = ret (bx, b)"
      "0 \<le> bx" "bx < bank_x th" "0 \<le> b" "b < bank_y th"
    using MapToBank_range [OF assms(1) d] by blast
  have "0 < bankgroups c" using d(1,2) by linarith
  from bank_in_rank [OF assms(1) this d(3,4)] obtain z where z: "MapToZ c tc th ch (bk mod banks_per_group c) = ret z" "0 \<le> z" "z < numP th"
    using MapToZ_range [OF assms(1,6,7) d(3)] by blast
  have "0 \<le> ad_row (GetPhyAddress c (phy_pos th) ?a) \<and> ad_row (GetPhyAddress c (phy_pos th) ?a) < rows c"
    by (rule phy_range [OF assms(4)]) (use assms(10,11) in simp)
  then obtain t g where rp: "row_place tc (ad_row (GetPhyAddress c (phy_pos th) ?a)) = ret (t, g)" "0 \<le> t" "t < row_tile tc" "0 \<le> g" "g < num_x_grids tc"
    using row_place_range [OF assms(2)] by blast
  then have t: "t = 0" using assms(3) by simp
  obtain x y where xy: "cell_place tc th (vx, vy) (bx, b) (0, g) 0 = ret (x, y)" "0 \<le> x" "x < dimX th"
      "\<forall>i\<in>{0..num_y_grids tc - 1}. 0 \<le> y + i \<and> y + i < dimY th"
    using refresh_place [OF assms(2,1) rp(4,5) v(2-5) b(2-5)] by blast
  let ?i = "\<lambda>i. z * (dimX th * dimY th) + (y + i) * dimX th + x"
  have "\<exists>th'. for_run (\<lambda>i. add_energy_at k (?i i) e) [0..num_y_grids tc - 1] th = ret th' \<and> (heated c tc th0 k th' \<and> core th' = core th) \<and>
    accu_total k th' = accu_total k th + of_nat (length [0..num_y_grids tc - 1]) * e \<and>
    cur_total k th' = cur_total k th + of_nat (length [0..num_y_grids tc - 1]) * e"
  proof (rule for_run_adds)
    fix i s assume i: "i \<in> set [0..num_y_grids tc - 1]" and s: "heated c tc th0 k s \<and> core s = core th"
    note f = core_fields [of s th]
    have "0 \<le> ?i i \<and> ?i i < numP s * dimX s * dimY s"
      using cell_index [OF z(2,3), of "y + i" x] xy(2-4) i s f by (simp add: mult.assoc)
    then show "\<exists>s'. add_energy_at k (?i i) e s = ret s' \<and> (heated c tc th0 k s' \<and> core s' = core th) \<and>
      accu_total k s' = accu_total k s + e \<and> cur_total k s' = cur_total k s + e"
      using add_energy_at_total [of c tc th0 k s "?i i" e] s f assms(12,13) by (auto simp: heated_def)
  qed (use assms(5) in simp)
  moreover have "0 \<le> num_y_grids tc" using assms(2) by (auto simp: grids_ok_def)
  ultimately show ?thesis
    using v(1) b(1) z(1) rp(1) xy(1) t assms(8) bpg(1)
    by (auto simp: LocationMappingANDaddEnergy_RF_def Let_def cdiv_pos crem_pos)
qed

lemma next_refresh_total:
  assumes "refresh_blocks_ok c tc th" "0 \<le> ri" "ri < channels c * ranks c" "0 \<le> ib" "ib < banks c" "0 < num_row_refresh tc" "num_row_refresh tc dvd rows c"
  shows "\<exists>row_s rc. next_refresh c tc ri ib th = ret (row_s, th\<lparr>refresh_count := rc\<rparr>) \<and> 0 \<le> row_s \<and> row_s + num_row_refresh tc \<le> rows c \<and>
    refresh_blocks_ok c tc (th\<lparr>refresh_count := rc\<rparr>)"
proof -
  let ?ns = "refresh_count th ! nat ri" and ?nrr = "num_row_refresh tc"
  let ?n = "?ns ! nat ib"
  have l: "nat ri < length (refresh_count th)" "ri < int (length (refresh_count th))" using assms(1-3) by (auto simp: refresh_blocks_ok_def)
  have s: "length ?ns = nat (banks c)" "\<forall>n\<in>set ?ns. 0 \<le> n \<and> (n + 1) * ?nrr \<le> rows c" using assms(1) nth_mem [OF l(1)] by (auto simp: refresh_blocks_ok_def)
  have n: "0 \<le> ?n" "(?n + 1) * ?nrr \<le> rows c" using s assms(4,5) by (auto dest: nth_mem)
  obtain q where q: "rows c = ?nrr * q" using assms(7) by (rule dvdE)
  define n' where "n' = (if (?n + 1) * ?nrr = rows c then 0 else ?n + 1)"
  have "0 \<le> n' \<and> (n' + 1) * ?nrr \<le> rows c"
  proof (cases "(?n + 1) * ?nrr = rows c")
    case True
    have "?nrr * 1 \<le> ?nrr * (?n + 1)" using n(1) assms(6) by (intro mult_left_mono) auto
    then show ?thesis using True by (simp add: n'_def mult.commute)
  next
    case False
    then have "(?n + 1) * ?nrr < rows c" using n(2) by linarith
    then have "(?n + 1) * ?nrr < q * ?nrr" using q by (simp add: mult.commute)
    then have "?n + 2 \<le> q" using assms(6) by simp
    then have "(?n + 2) * ?nrr \<le> q * ?nrr" using assms(6) by (intro mult_right_mono) auto
    then show ?thesis using False n(1) q by (simp add: n'_def mult.commute add.commute)
  qed
  then have "refresh_blocks_ok c tc (th\<lparr>refresh_count := (refresh_count th)[nat ri := ?ns[nat ib := n']]\<rparr>)"
    using assms(1) s unfolding refresh_blocks_ok_def by (auto dest!: set_update_subset_insert [THEN subsetD])
  moreover have "0 \<le> ?n * ?nrr" "?n * ?nrr + ?nrr \<le> rows c" using n assms(6) by (simp_all add: algebra_simps)
  ultimately show ?thesis
    using l(2) assms(2,4,5) s(1) by (auto simp: next_refresh_def Let_def n'_def)
qed

lemma refresh_bank_energy:
  fixes th :: "('d::linordered_field) Thermal"
  assumes "plan_ok c tc th" "grids_ok c tc" "row_tile tc = 1" "mapping_ok c (phy_pos th)" "heated c tc th0 k th"
    "cmd_bank_ok c ch cmd" "0 \<le> ib" "ib < banks c" "0 < num_row_refresh tc" "num_row_refresh tc dvd rows c" "0 \<le> k" "k < num_case th"
  shows "\<exists>th'. refresh_bank_power c tc ch cmd k e ib th = ret th' \<and> heated c tc th0 k th' \<and>
    accu_total k th' = accu_total k th + of_int (num_row_refresh tc) * (of_int (num_y_grids tc) * e) \<and>
    cur_total k th' = cur_total k th + of_int (num_row_refresh tc) * (of_int (num_y_grids tc) * e)"
proof -
  have ri: "0 \<le> ch * ranks c + c_Rank cmd" "ch * ranks c + c_Rank cmd < channels c * ranks c" "0 \<le> ch" "ch < channels c"
    using assms(6) cell_range [of ch "channels c" "c_Rank cmd" "ranks c"] by (auto simp: cmd_bank_ok_def mult.commute)
  obtain row_s rc where nr: "next_refresh c tc (ch * ranks c + c_Rank cmd) ib th = ret (row_s, th\<lparr>refresh_count := rc\<rparr>)"
      "0 \<le> row_s" "row_s + num_row_refresh tc \<le> rows c" "refresh_blocks_ok c tc (th\<lparr>refresh_count := rc\<rparr>)"
    using next_refresh_total [OF _ ri(1,2) assms(7-10)] assms(5) unfolding heated_def by blast
  let ?th = "th\<lparr>refresh_count := rc\<rparr>"
  have h: "heated c tc th0 k ?th" using assms(5) nr(4) by (auto simp: heated_def core_def maps_ok_def)
  have "\<exists>th'. for_run (\<lambda>ir. LocationMappingANDaddEnergy_RF c tc ch cmd ib ir k e) [row_s..row_s + num_row_refresh tc - 1] ?th = ret th' \<and>
    heated c tc th0 k th' \<and>
    accu_total k th' = accu_total k ?th + of_nat (length [row_s..row_s + num_row_refresh tc - 1]) * (of_int (num_y_grids tc) * e) \<and>
    cur_total k th' = cur_total k ?th + of_nat (length [row_s..row_s + num_row_refresh tc - 1]) * (of_int (num_y_grids tc) * e)"
  proof (rule for_run_adds)
    show "heated c tc th0 k ?th" by (rule h)
    fix ir t assume ir: "ir \<in> set [row_s..row_s + num_row_refresh tc - 1]" and t: "heated c tc th0 k t"
    have ct: "core t = core th" using t assms(5) by (simp add: heated_def)
    note f = core_fields [OF ct]
    have p: "plan_ok c tc t" using assms(1) plan_ok_cong [OF f(1-7)] by simp
    show "\<exists>t'. LocationMappingANDaddEnergy_RF c tc ch cmd ib ir k e t = ret t' \<and> heated c tc th0 k t' \<and>
      accu_total k t' = accu_total k t + of_int (num_y_grids tc) * e \<and> cur_total k t' = cur_total k t + of_int (num_y_grids tc) * e"
      by (rule row_energy) (use p assms f t ri ir nr in auto)
  qed
  then show ?thesis using nr(1) assms(9) by (simp add: refresh_bank_power_def)
qed

text \<open>The energy that the configuration gives to a command.\<close>

definition command_energy :: "('d::linordered_field) EnergyConfig \<Rightarrow> CommandType \<Rightarrow> 'd" where
  "command_energy ec t =
     (case t of REFRESH \<Rightarrow> ref_energy_inc ec | REFRESH_BANK \<Rightarrow> refb_energy_inc ec
      | ACTIVATE \<Rightarrow> max 0 (act_energy_inc ec) | READ \<Rightarrow> max 0 (read_energy_inc ec) | READ_PRECHARGE \<Rightarrow> max 0 (read_energy_inc ec)
      | WRITE \<Rightarrow> max 0 (write_energy_inc ec) | WRITE_PRECHARGE \<Rightarrow> max 0 (write_energy_inc ec) | _ \<Rightarrow> 0)"

definition thermal_ok :: "Config \<Rightarrow> 'd ThermalConfig \<Rightarrow> 'd Thermal \<Rightarrow> bool" where
  "thermal_ok c tc th \<longleftrightarrow> plan_ok c tc th \<and> grids_ok c tc \<and> row_tile tc = 1 \<and> mapping_ok c (phy_pos th) \<and> maps_ok th \<and> refresh_blocks_ok c tc th \<and>
     0 < num_row_refresh tc \<and> num_row_refresh tc dvd rows c \<and> 0 < device_width c \<and> 0 < cfg_BL c \<and> 0 < devices_per_rank c \<and> 0 < bankgroups c \<and>
     num_case th = (if IsHMC c \<or> IsHBM c then 1 else ranks c * channels c)"

definition case_of :: "Config \<Rightarrow> int \<Rightarrow> Command \<Rightarrow> int" where
  "case_of c ch cmd = (if IsHMC c \<or> IsHBM c then 0 else ch * ranks c + c_Rank cmd)"

definition device_share :: "Config \<Rightarrow> 'd::linordered_field" where
  "device_share c = (if IsHMC c \<or> IsHBM c then 1 else of_int (devices_per_rank c))"

definition location_ok :: "Config \<Rightarrow> Command \<Rightarrow> bool" where
  "location_ok c cmd \<longleftrightarrow> placed (cmd_type cmd) \<longrightarrow>
     0 \<le> c_Row cmd \<and> c_Row cmd < rows c \<and> 0 \<le> c_Column cmd \<and> c_Column cmd + cfg_BL c \<le> columns c"

lemma heated_refl: "thermal_ok c tc th \<Longrightarrow> heated c tc th k th"
  by (simp add: heated_def thermal_ok_def)

lemma heated_thermal_ok:
  assumes "thermal_ok c tc th" "heated c tc th k th'"
  shows "thermal_ok c tc th'"
proof -
  have c: "core th' = core th" "maps_ok th'" "refresh_blocks_ok c tc th'" using assms(2) by (simp_all add: heated_def)
  show ?thesis using assms(1) c(2,3) heated_plan [OF assms(2)] core_fields(8,9) [OF c(1)] by (simp add: thermal_ok_def)
qed

lemma case_range:
  assumes "thermal_ok c tc th" "cmd_bank_ok c ch cmd"
  shows "0 \<le> case_of c ch cmd" "case_of c ch cmd < num_case th"
  using assms cell_range [of ch "channels c" "c_Rank cmd" "ranks c"] by (auto simp: case_of_def thermal_ok_def cmd_bank_ok_def)

lemma rank_refresh_energy:
  fixes th :: "('d::linordered_field) Thermal"
  assumes "thermal_ok c tc th" "cmd_bank_ok c ch cmd"
  defines "k \<equiv> case_of c ch cmd"
  shows "\<exists>th'. for_run (refresh_bank_power c tc ch cmd k e) [0..banks c - 1] th = ret th' \<and> heated c tc th k th' \<and>
    accu_total k th' = accu_total k th + of_int (banks c) * (of_int (num_row_refresh tc) * (of_int (num_y_grids tc) * e)) \<and>
    cur_total k th' = cur_total k th + of_int (banks c) * (of_int (num_row_refresh tc) * (of_int (num_y_grids tc) * e))"
proof -
  note ok = assms(1) [unfolded thermal_ok_def]
  note k = case_range [OF assms(1,2), folded k_def]
  let ?w = "of_int (num_row_refresh tc) * (of_int (num_y_grids tc) * e)"
  have "\<exists>th'. for_run (refresh_bank_power c tc ch cmd k e) [0..banks c - 1] th = ret th' \<and> heated c tc th k th' \<and>
    accu_total k th' = accu_total k th + of_nat (length [0..banks c - 1]) * ?w \<and>
    cur_total k th' = cur_total k th + of_nat (length [0..banks c - 1]) * ?w"
  proof (rule for_run_adds)
    show "heated c tc th k th" by (rule heated_refl [OF assms(1)])
    fix ib t assume ib: "ib \<in> set [0..banks c - 1]" and t: "heated c tc th k t"
    note ot = heated_thermal_ok [OF assms(1) t, unfolded thermal_ok_def]
    have "num_case t = num_case th" using t core_fields(8) [of t th] by (simp add: heated_def)
    then show "\<exists>t'. refresh_bank_power c tc ch cmd k e ib t = ret t' \<and> heated c tc th k t' \<and>
      accu_total k t' = accu_total k t + ?w \<and> cur_total k t' = cur_total k t + ?w"
      using ib ot k t assms(2) by (intro refresh_bank_energy) auto
  qed
  moreover have "0 \<le> banks c" using ok by (simp add: plan_ok_def)
  ultimately show ?thesis by simp
qed

lemma burst_command_energy:
  fixes N :: "('d::linordered_field) thermal_lib"
  assumes "exact_num N" "thermal_ok c tc th" "cmd_bank_ok c ch cmd" "location_ok c cmd" "\<not> IsRefresh cmd"
  defines "k \<equiv> case_of c ch cmd"
  shows "\<exists>th'. UpdateCMDPower N c tc ec ch cmd th = ret th' \<and> heated c tc th k th' \<and>
    accu_total k th' = accu_total k th + command_energy ec (cmd_type cmd) / 1000 / device_share c \<and>
    cur_total k th' = cur_total k th + command_energy ec (cmd_type cmd) / 1000 / device_share c"
proof -
  note ok = assms(2) [unfolded thermal_ok_def]
  note k = case_range [OF assms(2,3), folded k_def]
  define inc where "inc = (if cmd_type cmd = ACTIVATE then act_energy_inc ec
      else if cmd_type cmd = READ \<or> cmd_type cmd = READ_PRECHARGE then read_energy_inc ec
      else if cmd_type cmd = WRITE \<or> cmd_type cmd = WRITE_PRECHARGE then write_energy_inc ec else 0)"
  let ?e = "inc / of_int (cfg_BL c) / 1000 / device_share c"
  have bl: "of_int (cfg_BL c) * ?e = inc / 1000 / device_share c" using ok by simp
  have u: "UpdateCMDPower N c tc ec ch cmd th =
      (if 0 < inc then LocationMappingANDaddEnergy N c tc ch cmd k ?e th else ret th)"
    using assms(1,5) unfolding k_def
    by (cases "cmd_type cmd") (simp_all add: UpdateCMDPower_def Let_def inc_def exact_num_def case_of_def device_share_def IsRefresh_def mult.assoc)
  have m: "command_energy ec (cmd_type cmd) = max 0 inc"
    using assms(5) by (cases "cmd_type cmd") (simp_all add: command_energy_def inc_def IsRefresh_def)
  show ?thesis
  proof (cases "0 < inc")
    case True
    then have pl: "placed (cmd_type cmd)" by (auto simp: placed_def inc_def split: if_splits)
    then have loc: "0 \<le> c_Row cmd" "c_Row cmd < rows c" "0 \<le> c_Column cmd" "c_Column cmd + cfg_BL c \<le> columns c"
      using assms(4) by (simp_all add: location_ok_def)
    have "\<exists>th'. LocationMappingANDaddEnergy N c tc ch cmd k ?e th = ret th' \<and> heated c tc th k th' \<and>
      accu_total k th' = accu_total k th + of_int (cfg_BL c) * ?e \<and> cur_total k th' = cur_total k th + of_int (cfg_BL c) * ?e"
      using ok k loc pl assms(1,3) heated_refl [OF assms(2)] by (intro burst_energy) auto
    then show ?thesis using True unfolding u m bl by simp
  next
    case False
    then show ?thesis using heated_refl [OF assms(2)] by (simp add: u m)
  qed
qed

lemma command_energy_added:
  fixes N :: "('d::linordered_field) thermal_lib"
  assumes "exact_num N" "thermal_ok c tc th" "cmd_bank_ok c ch cmd" "location_ok c cmd"
  defines "k \<equiv> case_of c ch cmd"
  shows "\<exists>th'. UpdateCMDPower N c tc ec ch cmd th = ret th' \<and> heated c tc th k th' \<and>
    accu_total k th' = accu_total k th + command_energy ec (cmd_type cmd) / 1000 / device_share c \<and>
    cur_total k th' = cur_total k th + command_energy ec (cmd_type cmd) / 1000 / device_share c"
proof -
  note ok = assms(2) [unfolded thermal_ok_def]
  note k = case_range [OF assms(2,3), folded k_def]
  obtain w where "0 < w" "num_y_grids tc = w * row_tile tc" using ok by (auto simp: grids_ok_def)
  then have y: "0 < num_y_grids tc" using ok by simp
  have b: "0 < banks c" using ok by (simp add: plan_ok_def)
  have nums: "num N = of_int" "lit N 1000 1 = 1000" using assms(1) by (auto simp: exact_num_def)
  consider (rank) "cmd_type cmd = REFRESH" | (bank) "cmd_type cmd = REFRESH_BANK" | (burst) "\<not> IsRefresh cmd"
    by (auto simp: IsRefresh_def)
  then show ?thesis
  proof cases
    case burst
    then show ?thesis using burst_command_energy [OF assms(1-4)] by (simp add: k_def)
  next
    case rank
    let ?e = "ref_energy_inc ec / of_int (num_row_refresh tc) / of_int (banks c) / of_int (num_y_grids tc) / 1000 / device_share c"
    have "of_int (banks c) * (of_int (num_row_refresh tc) * (of_int (num_y_grids tc) * ?e)) = ref_energy_inc ec / 1000 / device_share c"
      using ok y b by simp
    moreover have "UpdateCMDPower N c tc ec ch cmd th = for_run (refresh_bank_power c tc ch cmd k ?e) [0..banks c - 1] th"
      using rank by (simp add: UpdateCMDPower_def Let_def nums k_def case_of_def device_share_def mult.assoc)
    ultimately show ?thesis
      using rank_refresh_energy [OF assms(2,3), of ?e] rank by (simp add: k_def command_energy_def)
  next
    case bank
    let ?e = "refb_energy_inc ec / of_int (num_row_refresh tc) / of_int (num_y_grids tc) / 1000 / device_share c"
    have e: "of_int (num_row_refresh tc) * (of_int (num_y_grids tc) * ?e) = refb_energy_inc ec / 1000 / device_share c"
      using ok y by simp
    have "\<exists>th'. refresh_bank_power c tc ch cmd k ?e (c_Bank cmd) th = ret th' \<and> heated c tc th k th' \<and>
      accu_total k th' = accu_total k th + of_int (num_row_refresh tc) * (of_int (num_y_grids tc) * ?e) \<and>
      cur_total k th' = cur_total k th + of_int (num_row_refresh tc) * (of_int (num_y_grids tc) * ?e)"
      using bank ok k assms(3) heated_refl [OF assms(2)] bank_in_rank [of c tc th "c_Bank cmd"]
      by (intro refresh_bank_energy) (auto simp: cmd_bank_ok_def)
    moreover have "UpdateCMDPower N c tc ec ch cmd th = refresh_bank_power c tc ch cmd k ?e (c_Bank cmd) th"
      using bank by (simp add: UpdateCMDPower_def Let_def nums k_def case_of_def device_share_def mult.assoc)
    ultimately show ?thesis using bank unfolding e by (simp add: command_energy_def)
  qed
qed

section \<open>The power of the solver is that of the maps\<close>

lemma sum_radix:
  fixes f :: "int \<Rightarrow> 'd::comm_monoid_add"
  assumes "0 \<le> a" "0 < b"
  shows "(\<Sum>x\<in>{0..a - 1}. \<Sum>y\<in>{0..b - 1}. f (x * b + y)) = (\<Sum>r\<in>{0..a * b - 1}. f r)"
proof -
  have "(\<Sum>r\<leftarrow>[0..a * b - 1]. f r) = (\<Sum>x\<leftarrow>[0..a - 1]. \<Sum>y\<leftarrow>[0..b - 1]. f (x * b + y))"
    unfolding upto_conv_concat [OF assms, symmetric] by (simp add: map_concat sum_list_concat comp_def)
  then show ?thesis by (simp add: sum_list_upto)
qed

lemma sum_list_nth_int:
  "(\<Sum>r\<in>{0..int (length xs) - 1}. xs ! nat r) = sum_list (xs :: ('d::comm_monoid_add) list)"
proof -
  have "(\<Sum>r\<in>{0..int (length xs) - 1}. xs ! nat r) = (\<Sum>r<length xs. xs ! r)"
    by (rule sum.reindex_bij_witness [of _ int nat]) auto
  then show ?thesis by (simp add: sum_list_sum_nth atLeast0LessThan)
qed

lemma sum_shift_int: "(\<Sum>i\<in>{1..n}. f (i - 1)) = (\<Sum>i\<in>{0..n - 1 :: int}. f i)"
  by (rule sum.reindex_bij_witness [of _ "\<lambda>i. i + 1" "\<lambda>i. i - 1"]) auto

lemma border_sum:
  fixes f :: "int \<Rightarrow> int \<Rightarrow> 'd::comm_monoid_add"
  shows "(\<Sum>i\<in>{0..X + 1}. \<Sum>j\<in>{0..Y + 1}. if 1 \<le> i \<and> i \<le> X \<and> 1 \<le> j \<and> j \<le> Y then f (j - 1) (i - 1) else 0) =
    (\<Sum>j\<in>{0..Y - 1}. \<Sum>i\<in>{0..X - 1}. f j i)"
proof -
  have inner: "(\<Sum>j\<in>{0..Y + 1}. if 1 \<le> i \<and> i \<le> X \<and> 1 \<le> j \<and> j \<le> Y then f (j - 1) (i - 1) else 0) =
      (if 1 \<le> i \<and> i \<le> X then \<Sum>j\<in>{0..Y - 1}. f j (i - 1) else 0)" for i
    unfolding sum_shift_int [of "\<lambda>j. f j (i - 1)", symmetric]
    by (cases "1 \<le> i \<and> i \<le> X") (auto intro!: sum.mono_neutral_cong_right)
  have "(\<Sum>i\<in>{0..X + 1}. if 1 \<le> i \<and> i \<le> X then \<Sum>j\<in>{0..Y - 1}. f j (i - 1) else 0) =
      (\<Sum>i\<in>{1..X}. \<Sum>j\<in>{0..Y - 1}. f j (i - 1))"
    by (intro sum.mono_neutral_cong_right) auto
  also have "\<dots> = (\<Sum>i\<in>{0..X - 1}. \<Sum>j\<in>{0..Y - 1}. f j i)"
    by (rule sum_shift_int [of "\<lambda>i. \<Sum>j\<in>{0..Y - 1}. f j i"])
  also have "\<dots> = (\<Sum>j\<in>{0..Y - 1}. \<Sum>i\<in>{0..X - 1}. f j i)" by (rule sum.swap)
  finally show ?thesis unfolding inner .
qed

lemma power_at_InitPowerM:
  assumes "0 \<le> i" "i < dimX th + 2" "0 \<le> j" "j < dimY th + 2" "0 \<le> l" "l < numP th"
  shows "power_at (InitPowerM N c k clk th) i j l =
    (if 1 \<le> i \<and> i \<le> dimX th \<and> 1 \<le> j \<and> j \<le> dimY th
     then (if clk = 0 then cur_Pmap th else accu_Pmap th) ! nat k ! nat (l * (dimX th * dimY th) + (j - 1) * dimX th + (i - 1)) /
       (if clk = 0 then num N (epoch_period c) else num N (uint clk))
     else num N 0)"
  using assms by (simp add: power_at_def InitPowerM_def Let_def)

lemma power_sum_InitPowerM:
  fixes N :: "('d::linordered_field) thermal_lib"
  assumes "exact_num N" "0 < dimX th" "0 < dimY th" "0 < numP th"
    "length ((if clk = 0 then cur_Pmap th else accu_Pmap th) ! nat k) = nat (numP th * dimX th * dimY th)"
  shows "power_sum (th_die tc th) (InitPowerM N c k clk th) =
    sum_list ((if clk = 0 then cur_Pmap th else accu_Pmap th) ! nat k) / of_int (if clk = 0 then epoch_period c else uint clk)"
proof -
  define m where "m = (if clk = 0 then cur_Pmap th else accu_Pmap th) ! nat k"
  define q where "q = (of_int (if clk = 0 then epoch_period c else uint clk) :: 'd)"
  let ?X = "dimX th" and ?Y = "dimY th" and ?P = "numP th"
  let ?f = "\<lambda>r. m ! nat r / q"
  have z: "num N = of_int" using assms(1) by (simp add: exact_num_def)
  have "power_sum (th_die tc th) (InitPowerM N c k clk th) =
      (\<Sum>l\<in>{0..?P - 1}. \<Sum>i\<in>{0..?X + 1}. \<Sum>j\<in>{0..?Y + 1}. power_at (InitPowerM N c k clk th) i j l)"
    by (simp add: power_sum_def power_cells_def th_die_def product_concat_map map_concat sum_list_concat comp_def sum_list_upto add.commute)
  also have "\<dots> = (\<Sum>l\<in>{0..?P - 1}. \<Sum>i\<in>{0..?X + 1}. \<Sum>j\<in>{0..?Y + 1}.
      if 1 \<le> i \<and> i \<le> ?X \<and> 1 \<le> j \<and> j \<le> ?Y then ?f (l * (?X * ?Y) + ((j - 1) * ?X + (i - 1))) else 0)"
    by (intro sum.cong refl) (auto simp: power_at_InitPowerM z m_def q_def add.assoc)
  also have "\<dots> = (\<Sum>l\<in>{0..?P - 1}. \<Sum>j\<in>{0..?Y - 1}. \<Sum>i\<in>{0..?X - 1}. ?f (l * (?X * ?Y) + (j * ?X + i)))"
    unfolding border_sum [of ?X ?Y "\<lambda>j i. ?f (_ * (?X * ?Y) + (j * ?X + i))"] ..
  also have "\<dots> = (\<Sum>l\<in>{0..?P - 1}. \<Sum>r\<in>{0..?Y * ?X - 1}. ?f (l * (?X * ?Y) + r))"
  proof (rule sum.cong [OF refl])
    fix l show "(\<Sum>j\<in>{0..?Y - 1}. \<Sum>i\<in>{0..?X - 1}. ?f (l * (?X * ?Y) + (j * ?X + i))) = (\<Sum>r\<in>{0..?Y * ?X - 1}. ?f (l * (?X * ?Y) + r))"
      by (rule sum_radix [of ?Y ?X "\<lambda>r. ?f (l * (?X * ?Y) + r)"]) (use assms(2,3) in auto)
  qed
  also have "\<dots> = (\<Sum>r\<in>{0..?P * (?X * ?Y) - 1}. ?f r)"
    using sum_radix [of ?P "?X * ?Y" ?f] assms(2-4) by (simp add: mult.commute)
  also have "\<dots> = sum_list m / q"
  proof -
    have "int (length m) = ?P * (?X * ?Y)" using assms(2-5) by (simp add: m_def mult.assoc)
    then show ?thesis using sum_list_nth_int [of m] by (simp flip: sum_divide_distrib)
  qed
  finally show ?thesis by (simp add: m_def q_def)
qed

section \<open>Memories that are not stacked\<close>

definition cell_there :: "'d list list \<Rightarrow> int \<Rightarrow> int \<Rightarrow> bool" where
  "cell_there m k i \<longleftrightarrow> 0 \<le> k \<and> k < int (length m) \<and> 0 \<le> i \<and> i < int (length (m ! nat k))"

lemma pmap_add_there: "cell_there m k i \<Longrightarrow> \<exists>m'. pmap_add m k i e = ret m' \<and> (\<forall>j. cell_there m' k j = cell_there m k j)"
  by (auto simp: cell_there_def pmap_add_def)

text \<open>The loop of \<open>UpdateEpoch\<close> stays at the first cell for ever.\<close>

lemma epoch_cells_None:
  assumes "k < n" "cell_there m case_id k"
  shows "epoch_cells n e case_id k i m = None"
proof -
  have "epoch_cells n e case_id k i m = Some r \<Longrightarrow> k < n \<Longrightarrow> cell_there m case_id k \<Longrightarrow> False" for r
  proof (induction arbitrary: rule: epoch_cells.raw_induct [rotated 1, consumes 1])
    case (1 rec n e case_id k i m r)
    from pmap_add_there [OF 1(4), of e] obtain m' where "pmap_add m case_id k e = ret m'" "cell_there m' case_id k"
      using 1(4) by blast
    then show ?case using 1(1) [of n e case_id k "i + 1" m' r] 1(2,3) by simp
  qed
  then show ?thesis using assms by (metis not_None_eq)
qed

text \<open>The loop of \<open>PrintFinalPT\<close> runs past the end of the map.\<close>

lemma final_cells_overrun:
  assumes "k < n" "0 \<le> case_id" "case_id < int (length m)" "0 \<le> i"
  shows "final_cells n e case_id k i m = raise OutOfBounds"
  using assms(3,4)
proof (induction "nat (int (length (m ! nat case_id)) - i)" arbitrary: i m)
  case 0
  then show ?case using assms(1) by (subst final_cells.simps) (simp add: pmap_add_def)
next
  case (Suc d)
  then have "cell_there m case_id i" using assms(2) by (simp add: cell_there_def)
  then obtain m' where m': "pmap_add m case_id i e = ret m'" "\<forall>j. cell_there m' case_id j = cell_there m case_id j"
    using pmap_add_there by blast
  have l: "case_id < int (length m')" "length (m' ! nat case_id) = length (m ! nat case_id)"
    using m'(1) Suc.prems assms(2) by (auto simp: pmap_add_def checked_def split: if_splits)
  have "final_cells n e case_id k (i + 1) m' = raise OutOfBounds"
    using Suc.hyps(1) [of m' "i + 1"] Suc.hyps(2) Suc.prems(2) l by simp
  then show ?case using assms(1) m'(1) by (subst final_cells.simps) simp
qed

end
