(* ===== verification/Thermal_Stable.thy ===== *)
theory Thermal_Stable
  imports Complex_Main Thermal_Energy
begin

text \<open>
  The time step that the calculator chooses is stable: with it the temperatures of a chip that
  spends no energy stay between the extremes of the chip and its surroundings. The constructor
  returns a calculator with such a time step, with cold maps and with a floorplan that holds
  every command.
\<close>

section \<open>Conductances are positive\<close>

lemma grid_pos:
  fixes N :: "('d::linordered_field) thermal_lib"
  assumes "exact_num N" "die_ok d" "0 < die_W d" "0 < die_L d"
  shows "0 < gridX N d" "0 < gridZ N d"
  using assms by (simp_all add: gridX_def gridZ_def exact_num_def die_ok_def)

lemma layer_pos:
  fixes N :: "('d::linordered_field) thermal_lib"
  assumes "exact_num N"
  shows "0 < layer_K N i" "0 < layer_C N i" "0 < layer_H N i" "0 < Khs N" "0 < Hhs N" "0 < Chs N"
  using assms by (simp_all add: layer_K_def layer_C_def layer_H_def Khs_def Hhs_def Chs_def Kcu_def exact_num_def)

lemma resistance_pos:
  fixes N :: "('d::linordered_field) thermal_lib"
  assumes "exact_num N" "die_ok d" "0 < die_W d" "0 < die_L d"
  shows "0 < Ramb N d" "0 < Rvert N d i j l" "0 < fst (Rhori N d l)" "0 < snd (Rhori N d l)"
proof -
  note g = grid_pos [OF assms] and l = layer_pos [OF assms(1)]
  have n: "num N 1 = 1" "num N 2 = 2" "num N 0 = 0" "num N 10 = 10" using assms(1) by (simp_all add: exact_num_def)
  show "0 < Ramb N d" using g l by (simp add: Ramb_def Rsinky_def n)
  show "0 < Rvert N d i j l" using g l by (simp add: Rvert_def Rsinky_def Let_def n TSV_def)
  show "0 < fst (Rhori N d l)" "0 < snd (Rhori N d l)" using g l by (simp_all add: Rhori_def Rsinkx_def Rsinkz_def n)
qed

lemma off_diagonal_neg:
  fixes N :: "('d::linordered_field) thermal_lib"
  assumes "exact_num N" "die_ok d" "0 < die_W d" "0 < die_L d" "e \<in> set (off_diagonal N d l j i)"
  shows "snd (snd e) < 0"
proof -
  note r = resistance_pos [OF assms(1-4)]
  have v: "0 < Rvert N d i j a / num N 2 + Rvert N d i j b / num N 2" for a b
    using r(2) [of i j a] r(2) [of i j b] assms(1) by (simp add: exact_num_def)
  have "num N (- 1) = - 1" using assms(1) by (simp add: exact_num_def)
  then show ?thesis
    using assms(5) r(3,4) [of l] v unfolding set_off_diagonal by (auto simp: heat_link_def split: if_splits)
qed

lemma diagonal_pos:
  fixes N :: "('d::linordered_field) thermal_lib"
  assumes "exact_num N" "die_ok d" "0 < die_W d" "0 < die_L d" "(l, j, i) \<in> set (die_nodes d)"
  shows "0 < snd (snd (diagonal N d l j i))"
proof -
  let ?off = "off_diagonal N d l j i"
  have "?off \<noteq> []" using assms(2) by (auto simp: off_diagonal_def Let_def die_ok_def)
  moreover have "(\<Sum>(_, _, g)\<leftarrow>xs. g) < 0" if "xs \<noteq> []" "set xs \<subseteq> set ?off" for xs
    using that
  proof (induction xs)
    case (Cons x xs)
    have "snd (snd x) < 0" using off_diagonal_neg [OF assms(1-4), of x l j i] Cons.prems by auto
    then show ?case using Cons by (cases "xs = []") (auto simp: case_prod_unfold intro: add_neg_neg)
  qed simp
  ultimately have "(\<Sum>(_, _, g)\<leftarrow>?off. g) < 0" by blast
  moreover have "(\<Sum>(_, _, g)\<leftarrow>midx_row N d l j i. g) = snd (snd (diagonal N d l j i)) + (\<Sum>(_, _, g)\<leftarrow>?off. g)"
    unfolding case_prod_unfold sum_mset_sum_list [symmetric] mset_map midx_row_mset by simp
  moreover have "0 \<le> (\<Sum>(_, _, g)\<leftarrow>midx_row N d l j i. g)"
    unfolding midx_row_sum [OF assms(1,2,5)] using resistance_pos(1) [OF assms(1-4)] by simp
  ultimately show ?thesis by linarith
qed

section \<open>The time step\<close>

lemma cap_nth:
  assumes "(l, j, i) \<in> set (die_nodes d)"
  shows "nat l < length (calculate_Cap_array N d)"
  using die_nodes_nth(1,2) [OF assms] by (simp add: calculate_Cap_array_def)

lemma for_run_descend:
  fixes s :: "'d::linordered_field"
  assumes "\<And>e t. e \<in> set es \<Longrightarrow> \<exists>t'. f e t = ret t' \<and> t' \<le> t \<and> (0 < t \<longrightarrow> 0 < t') \<and> B e t'"
    and "\<And>e t t'. B e t \<Longrightarrow> t' \<le> t \<Longrightarrow> B e t'"
  shows "\<exists>t. for_run f es s = ret t \<and> t \<le> s \<and> (0 < s \<longrightarrow> 0 < t) \<and> (\<forall>e\<in>set es. B e t)"
  using assms(1)
proof (induction es arbitrary: s)
  case (Cons e es)
  obtain u where u: "f e s = ret u" "u \<le> s" "0 < s \<longrightarrow> 0 < u" "B e u" using Cons.prems [of e s] by auto
  obtain t where t: "for_run f es u = ret t" "t \<le> u" "0 < u \<longrightarrow> 0 < t" "\<forall>e\<in>set es. B e t"
    using Cons.IH [of u] Cons.prems by auto
  then show ?case using u assms(2) [OF u(4) t(2)] by auto
qed simp

lemma stable_dt_total:
  fixes N :: "('d::linordered_field) thermal_lib"
  assumes "exact_num N" "die_ok d" "0 < die_W d" "0 < die_L d"
  defines "Cap \<equiv> calculate_Cap_array N d"
  shows "\<exists>dt. stable_dt N (plane d) (midx_entries N d) Cap = ret dt \<and> 0 < dt \<and>
    (\<forall>(l, j, i)\<in>set (die_nodes d). dt * snd (snd (diagonal N d l j i)) \<le> Cap ! nat l)"
proof -
  define f where "f = (\<lambda>e dt.
       let idx0 = idx_of N (fst e); idx1 = idx_of N (fst (snd e)); g = snd (snd e)
       in run_bind (cdiv idx0 (plane d)) (\<lambda>idxC.
          if idx0 = idx1
          then checked (0 \<le> idxC \<and> idxC < int (length Cap))
                 (let q = Cap ! nat idxC / g in ret (if q < dt then q else dt))
          else ret dt))"
  have cp: "0 < x" if "x \<in> set Cap" for x
    using that grid_pos [OF assms(1-4)] layer_pos [OF assms(1)] unfolding Cap_def calculate_Cap_array_def by auto
  have step: "\<exists>dt'. f e dt = ret dt' \<and> dt' \<le> dt \<and> (0 < dt \<longrightarrow> 0 < dt') \<and>
      (\<forall>(l, j, i)\<in>set (die_nodes d). e = diagonal N d l j i \<longrightarrow> dt' \<le> Cap ! nat l / snd (snd e))"
    if e: "e \<in> set (midx_entries N d)" for e dt
  proof -
    obtain l j i c where n: "(l, j, i) \<in> set (die_nodes d)" "e \<in> set (midx_row N d l j i)"
        "fst e = of_int (node d l j i)" "fst (snd e) = of_int c" "0 \<le> c" "c < nodes d"
      using entry_indices [OF assms(1,2) e] by metis
    note rg = node_range [OF assms(2) die_nodes_nth [OF n(1)]]
    have ix: "idx_of N (fst e) = node d l j i" "idx_of N (fst (snd e)) = c" using exact_index [OF assms(1)] n rg by simp_all
    have dv: "cdiv (node d l j i) (plane d) = ret l" using rg plane_order(4) [OF assms(2)] by (simp add: cdiv_pos)
    have l: "0 \<le> l" "l < int (length Cap)" using die_nodes_nth(1) [OF n(1)] cap_nth [OF n(1), of N] by (auto simp: Cap_def)
    have cl: "0 < Cap ! nat l" using cp l by (auto intro: nth_mem)
    have inj: "l' = l" if "(l', j', i') \<in> set (die_nodes d)" "e = diagonal N d l' j' i'" for l' j' i'
      using that rg(3) n(3) node_range(3) [OF assms(2) die_nodes_nth [OF that(1)]] assms(1)
      by (auto simp: diagonal_def Let_def exact_num_def)
    show ?thesis
    proof (cases "node d l j i = c")
      case True
      then have "e = diagonal N d l j i"
        using n(2,4) off_diagonal_neq [OF assms(1,2) n(1), of e] set_midx_row [of N d l j i] by auto
      then have "0 < Cap ! nat l / snd (snd e)" using diagonal_pos [OF assms(1-4) n(1)] cl by simp
      then show ?thesis using True ix dv l inj by (auto simp: f_def Let_def)
    next
      case False
      then have "e \<noteq> diagonal N d l' j' i'" if "(l', j', i') \<in> set (die_nodes d)" for l' j' i'
        using n(3,4) assms(1) by (auto simp: diagonal_def Let_def exact_num_def)
      then show ?thesis using False ix dv by (auto simp: f_def Let_def)
    qed
  qed
  have "\<exists>dt. for_run f (midx_entries N d) 100 = ret dt \<and> dt \<le> 100 \<and> (0 < (100 :: 'd) \<longrightarrow> 0 < dt) \<and> (\<forall>e\<in>set (midx_entries N d).
      \<forall>(l, j, i)\<in>set (die_nodes d). e = diagonal N d l j i \<longrightarrow> dt \<le> Cap ! nat l / snd (snd e))"
    by (rule for_run_descend [OF step]) auto
  then obtain dt where dt: "for_run f (midx_entries N d) 100 = ret dt" "0 < dt"
      "\<forall>e\<in>set (midx_entries N d). \<forall>(l, j, i)\<in>set (die_nodes d). e = diagonal N d l j i \<longrightarrow> dt \<le> Cap ! nat l / snd (snd e)"
    by auto
  have "dt * snd (snd (diagonal N d l j i)) \<le> Cap ! nat l" if n: "(l, j, i) \<in> set (die_nodes d)" for l j i
  proof -
    have "diagonal N d l j i \<in> set (midx_entries N d)"
      using n set_midx_row [of N d l j i] by (auto simp: midx_entries_def intro!: bexI [of _ "(l, j, i)"])
    then have "dt \<le> Cap ! nat l / snd (snd (diagonal N d l j i))" using dt(3) n by blast
    then show ?thesis using diagonal_pos [OF assms(1-4) n] by (simp add: pos_le_divide_eq)
  qed
  moreover have "stable_dt N (plane d) (midx_entries N d) Cap = ret dt"
    using dt(1) assms(1) unfolding stable_dt_def f_def by (simp add: exact_num_def)
  ultimately show ?thesis using dt(2) by auto
qed

lemma divide_epoch_total:
  fixes N :: "('d::archimedean_field) thermal_lib"
  assumes "exact_num N" "0 < dt" "0 < n"
  shows "\<exists>k. divide_epoch N time dt n = ret k \<and> n \<le> k \<and> time / of_int k < dt"
proof -
  obtain m where m: "time / dt < of_int m" using ex_less_of_int by blast
  have "\<exists>k. divide_epoch N time dt n = ret k \<and> n \<le> k \<and> time / of_int k < dt" if "0 < n" for n
    using that
  proof (induction "nat (m - n)" arbitrary: n rule: less_induct)
    case less
    show ?case
    proof (cases "dt \<le> time / of_int n")
      case True
      then have "of_int n * dt \<le> time" using less.prems by (simp add: pos_le_divide_eq mult.commute)
      then have "of_int n \<le> time / dt" using assms(2) by (simp add: pos_le_divide_eq)
      then have "n < m" using m by (metis of_int_less_iff order_le_less_trans)
      then obtain k where "divide_epoch N time dt (n + 1) = ret k" "n + 1 \<le> k" "time / of_int k < dt"
        using less.hyps [of "n + 1"] less.prems by auto
      then show ?thesis using True assms(1) by (subst divide_epoch.simps) (auto simp: exact_num_def)
    next
      case False
      then show ?thesis using assms(1) by (subst divide_epoch.simps) (auto simp: exact_num_def)
    qed
  qed
  then show ?thesis using assms(3) by blast
qed

section \<open>A stack without power cools monotonically\<close>

lemma flow_bound:
  fixes N :: "('d::linordered_field) thermal_lib"
  assumes "exact_num N" "die_ok d" "0 < die_W d" "0 < die_L d" "(l, j, i) \<in> set (die_nodes d)"
    "\<forall>t\<in>set Tp. lo \<le> t \<and> t \<le> hi" "length Tp = nat (nodes d)"
  defines "g \<equiv> snd (snd (diagonal N d l j i))" and "r \<equiv> nat (node d l j i)"
  shows "g * Tp ! r + ((if l = 0 then 1 / Ramb N d else 0) - g) * lo \<ge> flow N Tp (midx_row N d l j i)"
    "g * Tp ! r + ((if l = 0 then 1 / Ramb N d else 0) - g) * hi \<le> flow N Tp (midx_row N d l j i)"
proof -
  let ?off = "off_diagonal N d l j i"
  let ?v = "\<lambda>e. snd (snd e) * Tp ! nat (d_trunc N (fst (snd e)))"
  note rg = node_range [OF assms(2) die_nodes_nth [OF assms(5)]]
  have dg: "?v (diagonal N d l j i) = g * Tp ! r"
    using exact_index(2) [OF assms(1) rg(1)] assms(1) by (simp add: g_def r_def diagonal_def Let_def exact_num_def)
  have "flow N Tp (midx_row N d l j i) = (\<Sum>e\<in>#mset (midx_row N d l j i). ?v e)"
    by (simp add: flow_def case_prod_unfold flip: sum_mset_sum_list)
  then have fl: "flow N Tp (midx_row N d l j i) = g * Tp ! r + (\<Sum>e\<leftarrow>?off. ?v e)"
    unfolding midx_row_mset by (simp add: dg flip: sum_mset_sum_list)
  have "(\<Sum>(_, _, g)\<leftarrow>midx_row N d l j i. g) = g + (\<Sum>e\<leftarrow>?off. snd (snd e))"
    unfolding case_prod_unfold sum_mset_sum_list [symmetric] mset_map midx_row_mset by (simp add: g_def)
  then have off: "(\<Sum>e\<leftarrow>?off. snd (snd e)) = (if l = 0 then 1 / Ramb N d else 0) - g"
    unfolding midx_row_sum [OF assms(1,2,5)] by (simp add: algebra_simps)
  have b: "snd (snd e) * hi \<le> ?v e \<and> ?v e \<le> snd (snd e) * lo" if e: "e \<in> set ?off" for e
  proof -
    obtain c where c: "0 \<le> c" "c < nodes d" "fst (snd e) = of_int c"
      using midx_row_entry [OF assms(1,2,5), of e] e set_midx_row [of N d l j i] by auto
    then have "Tp ! nat (d_trunc N (fst (snd e))) \<in> set Tp" using exact_index(2) [OF assms(1)] assms(7) by (auto intro!: nth_mem)
    then show ?thesis
      using assms(6) off_diagonal_neg [OF assms(1-4) e] by (auto intro!: mult_left_mono_neg)
  qed
  have "(\<Sum>e\<leftarrow>?off. ?v e) \<le> (\<Sum>e\<leftarrow>?off. snd (snd e) * lo)" "(\<Sum>e\<leftarrow>?off. snd (snd e) * hi) \<le> (\<Sum>e\<leftarrow>?off. ?v e)"
    using b by (auto intro!: sum_list_mono)
  then show "g * Tp ! r + ((if l = 0 then 1 / Ramb N d else 0) - g) * lo \<ge> flow N Tp (midx_row N d l j i)"
    "g * Tp ! r + ((if l = 0 then 1 / Ramb N d else 0) - g) * hi \<le> flow N Tp (midx_row N d l j i)"
    unfolding fl off [symmetric] by (simp_all add: sum_list_mult_const)
qed

text \<open>A weighted mean of values between two bounds stays between them.\<close>

lemma weighted_step:
  fixes t :: "'d::linordered_field"
  assumes "lo \<le> t" "t \<le> hi" "lo \<le> Ta" "Ta \<le> hi" "0 < C" "0 \<le> dt" "dt * g \<le> C" "0 \<le> s"
    "F \<le> g * t + (s - g) * lo" "g * t + (s - g) * hi \<le> F"
  shows "lo \<le> t + dt / C * (s * Ta - F)" "t + dt / C * (s * Ta - F) \<le> hi"
proof -
  define u where "u = dt / C"
  have q: "0 \<le> u" "u * g \<le> 1" using assms(5-7) by (simp_all add: u_def pos_divide_le_eq)
  have "u * F \<le> u * (g * t + (s - g) * lo)" "u * (g * t + (s - g) * hi) \<le> u * F"
    "u * (s * lo) \<le> u * (s * Ta)" "u * (s * Ta) \<le> u * (s * hi)"
    using q assms(3,4,8-10) by (auto intro!: mult_left_mono)
  moreover have "0 \<le> (1 - u * g) * (t - lo)" "0 \<le> (1 - u * g) * (hi - t)" using q assms(1,2) by (auto intro!: mult_nonneg_nonneg)
  ultimately have "lo \<le> t + u * (s * Ta - F)" "t + u * (s * Ta - F) \<le> hi" by (simp_all add: algebra_simps)
  then show "lo \<le> t + dt / C * (s * Ta - F)" "t + dt / C * (s * Ta - F) \<le> hi" by (simp_all add: u_def)
qed

text \<open>With no power only the surroundings are in the right-hand sides of both solvers.\<close>

lemma zero_power_cells:
  assumes "die_ok d" "\<forall>(l, i, j)\<in>set (power_cells d). power_at pm i j l = (0 :: 'd::linordered_field)"
    "\<forall>(l, i, j)\<in>set (power_cells d). zs ! nat (k (l, i, j)) = power_at pm i j l"
    "\<forall>p<n. int p \<notin> k ` set (power_cells d) \<longrightarrow> zs ! p = (if int p < plane d then v else 0)"
    "\<And>l i j. (l, i, j) \<in> set (power_cells d) \<Longrightarrow> \<exists>q. k (l, i, j) = plane d * (layerP l + 1) + q \<and> 0 \<le> q \<and> q < plane d"
  shows "\<forall>p<n. zs ! p = (if int p < plane d then v else 0)"
proof (intro allI impI)
  fix p assume "p < n"
  show "zs ! p = (if int p < plane d then v else 0)"
  proof (cases "int p \<in> k ` set (power_cells d)")
    case True
    then obtain l i j where c: "(l, i, j) \<in> set (power_cells d)" "int p = k (l, i, j)" by auto
    have "zs ! nat (k (l, i, j)) = 0" using bspec [OF assms(3) c(1)] bspec [OF assms(2) c(1)] by simp
    then have "zs ! p = 0" unfolding c(2) [symmetric] by simp
    moreover have "plane d * 1 \<le> plane d * (layerP l + 1)"
      using c(1) plane_order(4) [OF assms(1)] by (intro mult_left_mono) (auto simp: power_cells_def layerP_def)
    then have "plane d \<le> int p" using assms(5) [OF c(1)] c(2) by auto
    ultimately show ?thesis by simp
  qed (use assms(4) \<open>p < n\<close> in blast)
qed

lemma zero_power_rhs:
  fixes N :: "('d::linordered_field) thermal_lib"
  assumes "exact_num N" "die_ok d" "\<forall>(l, i, j)\<in>set (power_cells d). power_at pm i j l = 0"
  shows "\<exists>P. transient_rhs N d pm Ta = ret P \<and> (\<forall>p<nat (nodes d). P ! p = (if int p < plane d then Ta / Ramb N d else 0))"
    "\<exists>P. steady_rhs N d pm Ta = ret P \<and> (\<forall>p<nat (nodes d). P ! p = (if int p < plane d then Ta / Ramb N d else 0))"
proof -
  let ?k = "\<lambda>(l, i, j). plane d * (layerP l + 1) + i * die_Z d + j"
  obtain P where P: "transient_rhs N d pm Ta = ret P"
      "\<forall>(l, i, j)\<in>set (power_cells d). P ! nat (?k (l, i, j)) = power_at pm i j l"
      "\<forall>p<nat (nodes d). int p \<notin> ?k ` set (power_cells d) \<longrightarrow> P ! p = (if int p < plane d then Ta / Ramb N d else 0)"
    using transient_rhs_total [OF assms(1,2), of pm Ta] by auto
  then show "\<exists>P. transient_rhs N d pm Ta = ret P \<and> (\<forall>p<nat (nodes d). P ! p = (if int p < plane d then Ta / Ramb N d else 0))"
    using zero_power_cells [OF assms(2,3) P(2,3)] transient_key(2) [OF assms(2)] by auto
  let ?s = "\<lambda>(l, i, j). plane d * (layerP l + 1) + j * die_X d + i"
  obtain P where P: "steady_rhs N d pm Ta = ret P"
      "\<forall>(l, i, j)\<in>set (power_cells d). P ! nat (?s (l, i, j)) = power_at pm i j l"
      "\<forall>p<nat (nodes d). int p \<notin> ?s ` set (power_cells d) \<longrightarrow> P ! p = (if int p < plane d then Ta / Ramb N d else 0)"
    using steady_rhs_total [OF assms(1,2), of pm Ta] by auto
  then show "\<exists>P. steady_rhs N d pm Ta = ret P \<and> (\<forall>p<nat (nodes d). P ! p = (if int p < plane d then Ta / Ramb N d else 0))"
    using zero_power_cells [OF assms(2,3) P(2,3)] steady_key(2) [OF assms(2)] by auto
qed

lemma transient_step_bounded:
  fixes N :: "('d::linordered_field) thermal_lib"
  assumes "exact_num N" "die_ok d" "0 < die_W d" "0 < die_L d" "\<forall>t\<in>set Tp. lo \<le> t \<and> t \<le> hi" "length Tp = nat (nodes d)"
    "lo \<le> Ta" "Ta \<le> hi" "0 \<le> dt" "\<forall>p<nat (nodes d). P ! p = (if int p < plane d then Ta / Ramb N d else 0)"
  defines "Cap \<equiv> calculate_Cap_array N d"
  assumes "\<forall>(l, j, i)\<in>set (die_nodes d). dt * snd (snd (diagonal N d l j i)) \<le> Cap ! nat l"
  shows "\<exists>T. transient_step N d (midx_entries N d) Cap dt P Tp = ret T \<and> length T = nat (nodes d) \<and> (\<forall>t\<in>set T. lo \<le> t \<and> t \<le> hi)"
proof -
  obtain T where T: "transient_step N d (midx_entries N d) Cap dt P Tp = ret T" "length T = nat (nodes d)"
    "\<forall>(l, j, i)\<in>set (die_nodes d). T ! nat (node d l j i) =
       Tp ! nat (node d l j i) + dt / Cap ! nat l * (P ! nat (node d l j i) - flow N Tp (midx_row N d l j i))"
    using transient_step_exact [OF assms(1,2) cap_nonzero(1) [OF assms(1-4)], of dt P Tp] by (auto simp: Cap_def)
  have "lo \<le> T ! p \<and> T ! p \<le> hi" if p: "p < nat (nodes d)" for p
  proof -
    obtain l j i where n: "(l, j, i) \<in> set (die_nodes d)" "node d l j i = int p" using midx_rows_nth [OF assms(2) p] by metis
    note rg = node_range [OF assms(2) die_nodes_nth [OF n(1)]]
    define s where "s = (if l = 0 then 1 / Ramb N d else 0)"
    have "(int p < plane d) = (l = 0)"
      using rg plane_order(4) [OF assms(2)] zdiv_eq_0_iff [of "int p" "plane d"] n(2) by auto
    then have P: "P ! p = s * Ta" using assms(10) p by (simp add: s_def)
    have C: "0 < Cap ! nat l" using cap_nth [OF n(1), of N] grid_pos [OF assms(1-4)] layer_pos [OF assms(1)] die_nodes_nth(1) [OF n(1)]
      by (simp add: Cap_def calculate_Cap_array_def)
    have t: "lo \<le> Tp ! p" "Tp ! p \<le> hi" using assms(5,6) p by auto
    have s: "0 \<le> s" using resistance_pos(1) [OF assms(1-4)] by (simp add: s_def)
    note fb = flow_bound [OF assms(1-4) n(1) assms(5,6), folded s_def]
    have g: "dt * snd (snd (diagonal N d l j i)) \<le> Cap ! nat l" using assms(12) n(1) by blast
    show ?thesis
      using weighted_step [OF t assms(7,8) C assms(9) g s, of "flow N Tp (midx_row N d l j i)"] fb T(3) n P by force
  qed
  then show ?thesis using T(1,2) by (auto simp: in_set_conv_nth)
qed

section \<open>The floorplan that the constructor chooses\<close>

lemma determineXY_divides:
  fixes xd :: "'d::{plus,minus,times,inverse,ord}"
  assumes "0 < n"
  shows "0 < determineXY N xd yd n" "determineXY N xd yd n dvd n"
proof -
  let ?P = "\<lambda>s :: int \<times> 'd. 0 < fst s \<and> fst s dvd n"
  have "?P (fold (\<lambda>y (x_re, asr_re). let x = n div y; asr = aspect N xd yd x y
       in if x * y = n \<and> asr < asr_re then (x, asr) else (x_re, asr_re)) [1..n] (1, num N 1000))"
  proof (rule fold_invariant [where Q = "\<lambda>y :: int. 1 \<le> y"])
    fix y :: int and s :: "int \<times> 'd" assume y: "1 \<le> y" and s: "?P s"
    have "0 < n div y \<and> n div y dvd n" if "n div y * y = n"
      using that assms y by (metis dvd_triv_left zero_less_mult_pos2 order_less_le_trans zero_less_one)
    then show "?P (case s of (x_re, asr_re) \<Rightarrow> let x = n div y; asr = aspect N xd yd x y
       in if x * y = n \<and> asr < asr_re then (x, asr) else (x_re, asr_re))"
      using s by (cases s) (auto simp: Let_def)
  qed auto
  then show "0 < determineXY N xd yd n" "determineXY N xd yd n dvd n" by (simp_all add: determineXY_def)
qed

text \<open>What a configuration has to satisfy for its banks to have room.\<close>

definition plan_fits :: "('d::{plus,minus,times,inverse,ord}) thermal_lib \<Rightarrow> Config \<Rightarrow> 'd ThermalConfig \<Rightarrow> bool" where
  "plan_fits N c tc \<longleftrightarrow> 0 < banks_per_group c \<and> 0 < bankgroups c \<and> banks c = bankgroups c * banks_per_group c \<and> 0 < channels c \<and>
     (if IsHMC c then 0 < num_dies c \<and> banks c = num_dies c * 2
      else if IsHBM c then channels c \<le> num_dies c * 2 \<and> bankgroups c \<le> 4 \<and> banks_per_group c \<le> 4
      else bankgroups c > 1 \<longrightarrow> banks_per_group c \<le> 4 \<and>
        (let x = determineXY N (bank_asr tc) (num N 1) (banks c); y = banks c div x
         in if x \<le> y then 2 \<le> x \<and> bankgroups c * 2 \<le> y else 2 \<le> y \<and> bankgroups c * 2 \<le> x))"

lemma floorplan_total:
  assumes "plan_fits N c tc"
  shows "\<exists>th. floorplan N c tc th0 = ret th \<and> plan_ok c tc th \<and> 0 < numP th \<and>
    num_case th = (if IsHMC c \<or> IsHBM c then 1 else ranks c * channels c)"
proof -
  have f: "0 < banks_per_group c" "0 < bankgroups c" "banks c = bankgroups c * banks_per_group c" "0 < channels c"
    using assms by (simp_all add: plan_fits_def)
  then have b: "0 < banks c" by simp
  consider "IsHMC c" | "\<not> IsHMC c" "IsHBM c" | "\<not> IsHMC c" "\<not> IsHBM c" by blast
  then show ?thesis
  proof cases
    case 1
    define vx where "vx = determineXY N (num N 1 * bank_asr tc) (num N 2 * num N 1) (channels c)"
    have v: "0 < vx" "vx dvd channels c" using determineXY_divides [OF f(4)] by (simp_all add: vx_def)
    then have "0 < channels c div vx" "channels c = vx * (channels c div vx)"
      using f(4) by (simp_all add: pos_imp_zdiv_pos_iff zdvd_imp_le)
    then show ?thesis
      using 1 v f assms by (auto simp: floorplan_def Let_def vx_def [symmetric] cdiv_pos plan_ok_def vaults_def plan_fits_def)
  next
    case 2
    then show ?thesis using f assms by (auto simp: floorplan_def plan_ok_def vaults_def plan_fits_def)
  next
    case 3
    define bx where "bx = determineXY N (bank_asr tc) (num N 1) (banks c)"
    have v: "0 < bx" "bx dvd banks c" using determineXY_divides [OF b] by (simp_all add: bx_def)
    define y where "y = banks c div bx"
    have y: "0 < y" "banks c = bx * y" using b v by (simp_all add: y_def pos_imp_zdiv_pos_iff zdvd_imp_le)
    have w: "bankgroups c > 1 \<longrightarrow> banks_per_group c \<le> 4 \<and> (if bx \<le> y then 2 \<le> bx \<and> bankgroups c * 2 \<le> y else 2 \<le> y \<and> bankgroups c * 2 \<le> bx)"
      using assms unfolding plan_fits_def Let_def bx_def [symmetric] y_def [symmetric] if_not_P [OF 3(1)] if_not_P [OF 3(2)] by blast
    have "floorplan N c tc th0 = ret (th0\<lparr>numP := 1, bank_x := bx, bank_y := y, dimX := bx * num_x_grids tc,
        dimY := y * num_y_grids tc, num_case := ranks c * channels c\<rparr>)"
      using 3 v b by (simp add: floorplan_def Let_def bx_def [symmetric] cdiv_pos y_def)
    then show ?thesis using 3 v f(1,2) w y f(3) [symmetric] by (auto simp: plan_ok_def vaults_def)
  qed
qed

section \<open>The constructor\<close>

definition solver_ready :: "('d::linordered_field) thermal_lib \<Rightarrow> Config \<Rightarrow> 'd ThermalConfig \<Rightarrow> 'd EnergyConfig \<Rightarrow> 'd Thermal \<Rightarrow> bool" where
  "solver_ready N c tc ec th \<longleftrightarrow> (let d = th_die tc th in die_ok d \<and> 0 < die_W d \<and> 0 < die_L d \<and>
     th_Midx th = midx_entries N d \<and> th_Cap th = calculate_Cap_array N d \<and> 10 \<le> time_iter th \<and>
     (\<forall>(l, j, i)\<in>set (die_nodes d). epoch_time N c ec / of_int (time_iter th) * snd (snd (diagonal N d l j i)) \<le> th_Cap th ! nat l))"

lemma InitialParameters_total:
  fixes N :: "('d::archimedean_field) thermal_lib"
  assumes "exact_num N" "die_ok (th_die tc th)" "0 < chip_dim_x tc" "0 < chip_dim_y tc"
  shows "\<exists>n. InitialParameters N c tc ec th = ret (th\<lparr>th_Midx := midx_entries N (th_die tc th),
      th_Cap := calculate_Cap_array N (th_die tc th), time_iter := n,
      T_trans := replicate (nat (num_case th)) (initialize_Temperature (th_die tc th) (Tamb th))\<rparr>) \<and> 10 \<le> n \<and>
    (\<forall>(l, j, i)\<in>set (die_nodes (th_die tc th)). epoch_time N c ec / of_int n * snd (snd (diagonal N (th_die tc th) l j i)) \<le>
       calculate_Cap_array N (th_die tc th) ! nat l)"
proof -
  let ?d = "th_die tc th"
  have w: "0 < die_W ?d" "0 < die_L ?d" using assms(3,4) by (simp_all add: th_die_def)
  obtain dt where dt: "stable_dt N (plane ?d) (midx_entries N ?d) (calculate_Cap_array N ?d) = ret dt" "0 < dt"
      "\<forall>(l, j, i)\<in>set (die_nodes ?d). dt * snd (snd (diagonal N ?d l j i)) \<le> calculate_Cap_array N ?d ! nat l"
    using stable_dt_total [OF assms(1,2) w] by blast
  obtain n where n: "divide_epoch N (epoch_time N c ec) dt 10 = ret n" "10 \<le> n" "epoch_time N c ec / of_int n < dt"
    using divide_epoch_total [OF assms(1) dt(2), of 10 "epoch_time N c ec"] by auto
  have "epoch_time N c ec / of_int n * snd (snd (diagonal N ?d l j i)) \<le> calculate_Cap_array N ?d ! nat l"
    if m: "(l, j, i) \<in> set (die_nodes ?d)" for l j i
  proof -
    have "epoch_time N c ec / of_int n * snd (snd (diagonal N ?d l j i)) \<le> dt * snd (snd (diagonal N ?d l j i))"
      using n(3) diagonal_pos [OF assms(1,2) w m] by (intro mult_right_mono) auto
    then show ?thesis using dt(3) m by fastforce
  qed
  moreover have "plane ?d = (dimX th + 2) * (dimY th + 2)" by (simp add: th_die_def)
  moreover note calculate_Midx_array_total [OF assms(2)] dt(1) n(1)
  ultimately show ?thesis
    using n(2) by (auto simp: InitialParameters_def calculate_time_step_def Let_def)
qed

lemma bank_rect_total:
  assumes "plan_ok c tc th" "0 \<le> v" "v < channels c" "0 \<le> bg" "bg < bankgroups c" "0 \<le> b" "b < banks_per_group c"
  shows "\<exists>r. bank_rect c tc th v bg b = ret r"
proof -
  have "0 \<le> bg * banks_per_group c + b" "bg * banks_per_group c + b < banks c"
    using cell_range [of bg "bankgroups c" b "banks_per_group c"] assms by (auto simp: plan_ok_def mult.commute)
  from MapToZ_range [OF assms(1-3) this] MapToVault_range [OF assms(1-3)] MapToBank_range [OF assms(1,4-7)]
  show ?thesis by (auto simp: bank_rect_def Let_def)
qed

lemma PrintCSV_bank_total:
  assumes "plan_ok c tc th"
  shows "\<exists>s. PrintCSV_bank c tc th = ret s"
proof -
  have "\<exists>s. PrintCSV_bank c tc th = ret s \<and> True"
    unfolding PrintCSV_bank_def
    by (intro for_run_total TrueI) (use bank_rect_total [OF assms] in \<open>force simp: case_prod_unfold\<close>)
  then show ?thesis by blast
qed

lemma th_die_ok:
  assumes "plan_ok c tc th" "grids_ok c tc" "0 < numP th" "0 < fst (vaults c th)" "0 < snd (vaults c th)"
  shows "die_ok (th_die tc th)" "0 < dimX th" "0 < dimY th"
proof -
  have "0 < num_y_grids tc" using assms(2) by (auto simp: grids_ok_def)
  then show "0 < dimX th" "0 < dimY th" using assms by (simp_all add: plan_ok_def grids_ok_def)
  then show "die_ok (th_die tc th)" using assms(3) by (simp add: die_ok_def th_die_def)
qed

lemma vaults_pos: "plan_ok c tc th \<Longrightarrow> 0 < fst (vaults c th) \<and> 0 < snd (vaults c th)"
  by (simp add: plan_ok_def vaults_def)

definition thermal_config_ok :: "('d::linordered_field) thermal_lib \<Rightarrow> Config \<Rightarrow> 'd ThermalConfig \<Rightarrow> bool" where
  "thermal_config_ok N c tc \<longleftrightarrow> plan_fits N c tc \<and> grids_ok c tc \<and> row_tile tc = 1 \<and> 0 < num_row_refresh tc \<and> num_row_refresh tc dvd rows c \<and>
     0 < device_width c \<and> 0 < cfg_BL c \<and> 0 < devices_per_rank c \<and> 0 < chip_dim_x tc \<and> 0 < chip_dim_y tc \<and>
     (\<exists>pos. SetPhyAddressMapping (loc_mapping tc) = ret pos \<and> mapping_ok c pos)"

definition cold :: "('d::linordered_field) Thermal \<Rightarrow> bool" where
  "cold th \<longleftrightarrow> (\<forall>m\<in>set (accu_Pmap th) \<union> set (cur_Pmap th). \<forall>e\<in>set m. e = 0)"

lemma empty_maps_fields [simp]:
  "numP (empty_maps N c tc pos th) = numP th" "dimX (empty_maps N c tc pos th) = dimX th" "dimY (empty_maps N c tc pos th) = dimY th"
  "vault_x (empty_maps N c tc pos th) = vault_x th" "vault_y (empty_maps N c tc pos th) = vault_y th"
  "bank_x (empty_maps N c tc pos th) = bank_x th" "bank_y (empty_maps N c tc pos th) = bank_y th"
  "num_case (empty_maps N c tc pos th) = num_case th" "phy_pos (empty_maps N c tc pos th) = pos"
  "Tamb (empty_maps N c tc pos th) = amb_temp tc + T0 N"
  by (simp_all add: empty_maps_def Let_def)

lemma open_files_fields [simp]:
  "numP (open_files c s th) = numP th" "dimX (open_files c s th) = dimX th" "dimY (open_files c s th) = dimY th"
  "vault_x (open_files c s th) = vault_x th" "vault_y (open_files c s th) = vault_y th"
  "bank_x (open_files c s th) = bank_x th" "bank_y (open_files c s th) = bank_y th"
  "num_case (open_files c s th) = num_case th" "phy_pos (open_files c s th) = phy_pos th"
  "accu_Pmap (open_files c s th) = accu_Pmap th" "cur_Pmap (open_files c s th) = cur_Pmap th"
  "refresh_count (open_files c s th) = refresh_count th" "th_Midx (open_files c s th) = th_Midx th"
  "th_Cap (open_files c s th) = th_Cap th" "time_iter (open_files c s th) = time_iter th" "Tamb (open_files c s th) = Tamb th" "T_trans (open_files c s th) = T_trans th"
  by (simp_all add: open_files_def)

lemma empty_maps_ok:
  assumes "exact_num N"
  shows "maps_ok (empty_maps N c tc pos th)" "cold (empty_maps N c tc pos th)"
  using assms by (auto simp: maps_ok_def cold_def empty_maps_def Let_def exact_num_def)

lemma new_ThermalCalculator_steps:
  assumes "floorplan N c tc th0 = ret th1" "SetPhyAddressMapping (loc_mapping tc) = ret pos"
    "InitialParameters N c tc ec (empty_maps N c tc pos th1) = ret th2"
    "th3 = th2\<lparr>refresh_count := replicate (nat (channels c * ranks c)) (replicate (nat (banks c)) 0)\<rparr>"
    "(if output_level c \<ge> 0 then PrintCSV_bank c tc th3 else ret []) = ret s"
  shows "new_ThermalCalculator N c tc ec th0 = ret (open_files c s th3)"
  unfolding new_ThermalCalculator_def assms(1-3) Let_def run_bind_simps assms(4) [symmetric] assms(5) ..

lemma thermal_constructed:
  fixes N :: "('d::archimedean_field) thermal_lib"
  assumes "exact_num N" "thermal_config_ok N c tc"
  shows "\<exists>th. new_ThermalCalculator N c tc ec th0 = ret th \<and> thermal_ok c tc th \<and> solver_ready N c tc ec th \<and> cold th \<and>
    Tamb th = amb_temp tc + T0 N \<and> T_trans th = replicate (nat (num_case th)) (initialize_Temperature (th_die tc th) (amb_temp tc + T0 N))"
proof -
  note ok = assms(2) [unfolded thermal_config_ok_def]
  obtain th1 where p: "floorplan N c tc th0 = ret th1" "plan_ok c tc th1" "0 < numP th1"
      "num_case th1 = (if IsHMC c \<or> IsHBM c then 1 else ranks c * channels c)"
    using floorplan_total [of N c tc th0] ok by blast
  obtain pos where pos: "SetPhyAddressMapping (loc_mapping tc) = ret pos" "mapping_ok c pos" using ok by blast
  let ?th2 = "empty_maps N c tc pos th1"
  let ?d = "th_die tc ?th2"
  have d: "?d = th_die tc th1" by (simp add: th_die_def)
  have dok: "die_ok ?d" using th_die_ok(1) [OF p(2) _ p(3)] vaults_pos [OF p(2)] ok unfolding d by blast
  obtain n where n: "InitialParameters N c tc ec ?th2 = ret (?th2\<lparr>th_Midx := midx_entries N ?d, th_Cap := calculate_Cap_array N ?d,
      time_iter := n, T_trans := replicate (nat (num_case ?th2)) (initialize_Temperature ?d (Tamb ?th2))\<rparr>)" "10 \<le> n"
    "\<forall>(l, j, i)\<in>set (die_nodes ?d). epoch_time N c ec / of_int n * snd (snd (diagonal N ?d l j i)) \<le> calculate_Cap_array N ?d ! nat l"
    using InitialParameters_total [OF assms(1) dok, of c ec] ok by blast
  define th3 where "th3 = ?th2\<lparr>th_Midx := midx_entries N ?d, th_Cap := calculate_Cap_array N ?d, time_iter := n,
      T_trans := replicate (nat (num_case ?th2)) (initialize_Temperature ?d (Tamb ?th2)),
      refresh_count := replicate (nat (channels c * ranks c)) (replicate (nat (banks c)) 0)\<rparr>"
  have "plan_ok c tc th3 = plan_ok c tc th1" by (rule plan_ok_cong) (simp_all add: th3_def)
  then have p3: "plan_ok c tc th3" using p(2) by simp
  obtain s where s: "(if output_level c \<ge> 0 then PrintCSV_bank c tc th3 else ret []) = ret s"
    using PrintCSV_bank_total [OF p3] by (cases "output_level c \<ge> 0") auto
  have new: "new_ThermalCalculator N c tc ec th0 = ret (open_files c s th3)"
    by (rule new_ThermalCalculator_steps [OF p(1) pos(1) n(1) _ s]) (simp add: th3_def)
  have "plan_ok c tc (open_files c s th3) = plan_ok c tc th3" by (rule plan_ok_cong) simp_all
  moreover have "num_row_refresh tc \<le> rows c" using ok by (auto simp: grids_ok_def intro: zdvd_imp_le)
  then have "refresh_blocks_ok c tc (open_files c s th3)" using ok by (auto simp: refresh_blocks_ok_def th3_def)
  moreover have "maps_ok (open_files c s th3)" "cold (open_files c s th3)"
    using empty_maps_ok [OF assms(1), of c tc pos th1] by (simp_all add: th3_def maps_ok_def cold_def)
  ultimately have "thermal_ok c tc (open_files c s th3)"
    using ok p3 p(4) pos(2) by (simp add: thermal_ok_def plan_fits_def th3_def)
  moreover have "th_die tc (open_files c s th3) = ?d" by (simp add: th_die_def th3_def)
  moreover from this have "solver_ready N c tc ec (open_files c s th3)"
    using dok ok n(2,3) by (simp add: solver_ready_def th3_def) (simp add: th_die_def)
  ultimately show ?thesis using new \<open>cold _\<close> by (auto simp: th3_def)
qed

end
