(* ===== verification/Thermal_Calc.thy ===== *)
theory Thermal_Calc
  imports Thermal_Stable
begin

text \<open>
  The epochs of the thermal calculator: the final temperatures carry the spent energy away, an
  epoch without energy relaxes, and an epoch of a memory that is not stacked does not end.
\<close>

section \<open>Memories that are not stacked\<close>

lemma upto_Cons: "0 < n \<Longrightarrow> [0..n - 1] = 0 # [1..n - 1 :: int]"
  by (simp add: upto_rec1)

lemma for_run_first_raises: "0 < n \<Longrightarrow> f 0 s = raise e \<Longrightarrow> for_run f [0..n - 1 :: int] s = raise e"
  by (simp add: upto_Cons)

lemma for_run_first_None: "0 < n \<Longrightarrow> f 0 s = None \<Longrightarrow> for_run f [0..n - 1 :: int] s = None"
  by (simp add: upto_Cons)

lemma unstacked_cells:
  assumes "thermal_ok c tc th" "\<not> IsHBM c" "\<not> IsHMC c" "0 < channels c" "0 < ranks c"
  shows "0 < dimX th * dimY th * numP th" "cell_there (cur_Pmap th) 0 0" "0 < length (accu_Pmap th)"
proof -
  note ok = assms(1) [unfolded thermal_ok_def]
  have n: "numP th = 1" using ok assms(2,3) by (simp add: plan_ok_def)
  have d: "0 < dimX th" "0 < dimY th" using th_die_ok(2,3) [of c tc th] vaults_pos [of c tc th] ok n by auto
  then show "0 < dimX th * dimY th * numP th" using n by simp
  have "0 < num_case th" using ok assms(2-5) by simp
  then show "cell_there (cur_Pmap th) 0 0" "0 < length (accu_Pmap th)" using ok d n by (auto simp: cell_there_def maps_ok_def)
qed

lemma unstacked_epoch_fails:
  assumes "thermal_ok c tc th" "\<not> IsHBM c" "\<not> IsHMC c" "0 < channels c" "0 < ranks c"
  shows "UpdateEpoch N c th = None" "PrintTransPT N c tc ec clk th = None"
    "PrintFinalPT N pdgssv c tc clk th = raise OutOfBounds"
proof -
  note cells = unstacked_cells [OF assms]
  have "unstacked_background N c th epoch_cells (cur_Pmap th) = None"
    unfolding unstacked_background_def Let_def
    by (intro for_run_first_None assms(4,5)) (simp add: epoch_cells_None [OF cells(1,2)])
  then show u: "UpdateEpoch N c th = None" using assms(2,3) by (simp add: UpdateEpoch_def)
  show "PrintTransPT N c tc ec clk th = None" by (simp add: PrintTransPT_def u)
  have "unstacked_background N c th final_cells (accu_Pmap th) = raise OutOfBounds"
    unfolding unstacked_background_def Let_def
    by (intro for_run_first_raises assms(4,5)) (use final_cells_overrun [OF cells(1) order_refl, of "accu_Pmap th" 0] cells(3) in simp)
  then show "PrintFinalPT N pdgssv c tc clk th = raise OutOfBounds" using assms(2,3) by (simp add: PrintFinalPT_def)
qed

section \<open>The final temperatures carry the spent energy away\<close>

lemma final_balance:
  fixes N :: "('d::linordered_field) thermal_lib"
  assumes "exact_num N" "thermal_ok c tc th" "solver_ready N c tc ec th" "0 \<le> k" "k < num_case th" "clk \<noteq> 0"
  defines "d \<equiv> th_die tc th"
  assumes solver: "\<And>a asub xa rhs. steady_system N d (InitPowerM N c k clk th) (th_Midx th) (Tamb th) = ret (a, asub, xa, rhs) \<Longrightarrow>
      solves_columns (nat (nodes d)) a asub xa rhs (pdgssv (nat (nodes d)) a asub xa rhs)"
  shows "\<exists>ts. CalcFinalT N pdgssv c tc k clk th = ret (th\<lparr>T_final := (T_final th)[nat k := ts]\<rparr>) \<and> length ts = nat (nodes d) \<and>
    steady_thermal_solver N pdgssv d (InitPowerM N c k clk th) (th_Midx th) (Tamb th) = ret ts \<and>
    (\<Sum>r<nat (plane d). (ts ! r + T0 N - Tamb th) / Ramb N d) = accu_total k th / of_int (uint clk)"
proof -
  note ok = assms(2) [unfolded thermal_ok_def]
  have m: "th_Midx th = midx_entries N d" "die_ok d" using assms(3) by (simp_all add: solver_ready_def Let_def d_def)
  have n: "0 < numP th" using m(2) by (simp add: die_ok_def d_def th_die_def)
  have dims: "0 < dimX th" "0 < dimY th" using th_die_ok(2,3) [of c tc th] vaults_pos [of c tc th] ok n by auto
  have "length (accu_Pmap th ! nat k) = nat (numP th * dimX th * dimY th)"
    using ok assms(4,5) by (auto simp: maps_ok_def)
  then have "power_sum d (InitPowerM N c k clk th) = accu_total k th / of_int (uint clk)"
    using power_sum_InitPowerM [OF assms(1) dims n, of clk k tc c] assms(6) by (simp add: d_def)
  moreover obtain ts where "steady_thermal_solver N pdgssv d (InitPowerM N c k clk th) (midx_entries N d) (Tamb th) = ret ts"
      "length ts = nat (nodes d)" "(\<Sum>r<nat (plane d). (ts ! r + T0 N - Tamb th) / Ramb N d) = power_sum d (InitPowerM N c k clk th)"
    using steady_balance [where pdgssv = pdgssv, OF assms(1) m(2) solver [unfolded m(1)]] by blast
  ultimately show ?thesis by (intro exI [of _ ts]) (simp add: CalcFinalT_def m(1) d_def [symmetric])
qed

section \<open>An epoch without energy\<close>

lemma transient_relaxes:
  fixes N :: "('d::linordered_field) thermal_lib"
  assumes "exact_num N" "die_ok d" "0 < die_W d" "0 < die_L d" "0 \<le> time" "0 < iters" "lo \<le> Ta" "Ta \<le> hi"
    "\<forall>(l, i, j)\<in>set (power_cells d). power_at pm i j l = 0" "length T = nat (nodes d)" "\<forall>t\<in>set T. lo \<le> t \<and> t \<le> hi"
  defines "Cap \<equiv> calculate_Cap_array N d"
  assumes "\<forall>(l, j, i)\<in>set (die_nodes d). time / of_int iters * snd (snd (diagonal N d l j i)) \<le> Cap ! nat l"
  shows "\<exists>T'. transient_thermal_solver N d pm (midx_entries N d) Cap time iters T Ta = ret T' \<and> length T' = nat (nodes d) \<and>
    (\<forall>t\<in>set T'. lo \<le> t \<and> t \<le> hi)"
proof -
  obtain P where P: "transient_rhs N d pm Ta = ret P" "\<forall>p<nat (nodes d). P ! p = (if int p < plane d then Ta / Ramb N d else 0)"
    using zero_power_rhs(1) [OF assms(1,2,9)] by blast
  let ?I = "\<lambda>T. length T = nat (nodes d) \<and> (\<forall>t\<in>set T. lo \<le> t \<and> t \<le> hi)"
  have step: "\<exists>T'. transient_step N d (midx_entries N d) Cap (time / of_int iters) P T = ret T' \<and> ?I T'" if "?I T" for T
    using transient_step_bounded [OF assms(1-4) _ _ assms(7,8) _ P(2), of T "time / of_int iters"] that assms(5,6,13)
    by (auto simp: Cap_def)
  have "\<exists>T'. for_run (\<lambda>_. transient_step N d (midx_entries N d) Cap (time / of_int iters) P) [0..iters - 1] T = ret T' \<and> ?I T'"
    by (rule for_run_total) (use step assms(10,11) in auto)
  then show ?thesis using P(1) assms(1) by (simp add: transient_thermal_solver_def exact_num_def)
qed

lemma cold_power:
  fixes N :: "('d::linordered_field) thermal_lib"
  assumes "exact_num N" "thermal_ok c tc th" "solver_ready N c tc ec th" "0 \<le> k" "k < num_case th"
    "\<forall>e\<in>set ((if clk = 0 then cur_Pmap th else accu_Pmap th) ! nat k). e = 0"
  shows "\<forall>(l, i, j)\<in>set (power_cells (th_die tc th)). power_at (InitPowerM N c k clk th) i j l = 0"
proof (clarify)
  fix l i j assume "(l, i, j) \<in> set (power_cells (th_die tc th))"
  then have r: "0 \<le> i" "i < dimX th + 2" "0 \<le> j" "j < dimY th + 2" "0 \<le> l" "l < numP th"
    by (auto simp: power_cells_def th_die_def)
  let ?m = "(if clk = 0 then cur_Pmap th else accu_Pmap th) ! nat k"
  have len: "length ?m = nat (numP th * dimX th * dimY th)" using assms(2,4,5) by (auto simp: thermal_ok_def maps_ok_def)
  have "?m ! nat (l * (dimX th * dimY th) + (j - 1) * dimX th + (i - 1)) = 0" if "1 \<le> i" "i \<le> dimX th" "1 \<le> j" "j \<le> dimY th"
  proof -
    have "0 \<le> (j - 1) * dimX th + (i - 1)" "(j - 1) * dimX th + (i - 1) < dimX th * dimY th"
      using cell_range [of "j - 1" "dimY th" "i - 1" "dimX th"] that by auto
    then have "0 \<le> l * (dimX th * dimY th) + ((j - 1) * dimX th + (i - 1))"
      "l * (dimX th * dimY th) + ((j - 1) * dimX th + (i - 1)) < numP th * (dimX th * dimY th)"
      using cell_range [of l "numP th" "(j - 1) * dimX th + (i - 1)" "dimX th * dimY th"] r by (auto simp: mult.commute)
    then have "nat (l * (dimX th * dimY th) + (j - 1) * dimX th + (i - 1)) < length ?m"
      using len by (simp add: add.assoc mult.assoc)
    then show ?thesis using assms(6) nth_mem by blast
  qed
  then show "power_at (InitPowerM N c k clk th) i j l = 0"
    using power_at_InitPowerM [OF r, of N c k clk] assms(1) by (simp add: exact_num_def)
qed

text \<open>A chip that spends no energy is in equilibrium at the temperature of its surroundings.\<close>

lemma ambient_solves:
  fixes N :: "('d::linordered_field) thermal_lib"
  assumes "exact_num N" "die_ok d" "\<forall>(l, i, j)\<in>set (power_cells d). power_at pm i j l = 0"
    "steady_system N d pm (midx_entries N d) Ta = ret (a, asub, xa, rhs)"
  shows "solves_columns (nat (nodes d)) a asub xa rhs (replicate (nat (nodes d)) Ta)"
proof -
  have "steady_rhs N d pm Ta = ret rhs"
    using assms(4) zero_power_rhs(2) [OF assms(1-3), of Ta] by (auto simp: steady_system_def checked_def run_bind_ret split: if_splits)
  then have "\<forall>p<nat (nodes d). rhs ! p = (if int p < plane d then Ta / Ramb N d else 0)"
    using zero_power_rhs(2) [OF assms(1-3), of Ta] by auto
  then show ?thesis unfolding columns_are_rows [OF assms(1,2,4)] using flow_const [OF assms(1,2)] by simp
qed

lemma CalcTransT_relaxes:
  fixes N :: "('d::linordered_field) thermal_lib"
  assumes "exact_num N" "thermal_ok c tc th" "solver_ready N c tc ec th" "0 \<le> k" "k < num_case th" "0 \<le> epoch_time N c ec"
    "\<forall>e\<in>set (cur_Pmap th ! nat k). e = 0" "lo \<le> Tamb th" "Tamb th \<le> hi"
    "length (T_trans th ! nat k) = nat (nodes (th_die tc th))" "\<forall>t\<in>set (T_trans th ! nat k). lo \<le> t \<and> t \<le> hi"
  shows "\<exists>T. CalcTransT N c tc ec k th = ret (th\<lparr>T_trans := (T_trans th)[nat k := T]\<rparr>) \<and>
    length T = nat (nodes (th_die tc th)) \<and> (\<forall>t\<in>set T. lo \<le> t \<and> t \<le> hi)"
proof -
  let ?d = "th_die tc th"
  note s = assms(3) [unfolded solver_ready_def Let_def]
  have "\<forall>(l, i, j)\<in>set (power_cells ?d). power_at (InitPowerM N c k 0 th) i j l = 0"
    by (rule cold_power [OF assms(1-5)]) (simp add: assms(7))
  from transient_relaxes [OF assms(1) _ _ _ assms(6) _ assms(8,9) this assms(10,11), of "time_iter th"] s
  obtain T where "transient_thermal_solver N ?d (InitPowerM N c k 0 th) (th_Midx th) (th_Cap th) (epoch_time N c ec)
      (time_iter th) (T_trans th ! nat k) (Tamb th) = ret T" "length T = nat (nodes ?d)" "\<forall>t\<in>set T. lo \<le> t \<and> t \<le> hi"
    by auto
  then show ?thesis by (intro exI [of _ T]) (simp add: CalcTransT_def)
qed

section \<open>The first law\<close>

definition heat_content :: "('d::linordered_field) Die \<Rightarrow> 'd list \<Rightarrow> 'd list \<Rightarrow> 'd" where
  "heat_content d Cap T = (\<Sum>(l, j, i)\<leftarrow>die_nodes d. Cap ! nat l * T ! nat (node d l j i))"

text \<open>What flows from the surroundings into the heat sink.\<close>

definition sink_inflow :: "('d::linordered_field) thermal_lib \<Rightarrow> 'd Die \<Rightarrow> 'd \<Rightarrow> 'd list \<Rightarrow> 'd" where
  "sink_inflow N d Ta T = (\<Sum>r<nat (plane d). (Ta - T ! r) / Ramb N d)"

lemma length_euler: "length (euler N d Cap dt P T) = nat (nodes d)"
  by (simp add: euler_def)

lemma euler_first_law:
  fixes N :: "('d::linordered_field) thermal_lib"
  assumes "exact_num N" "die_ok d" "length Cap = nat (numLayer d + 1)" "0 \<notin> set Cap" "length T = nat (nodes d)"
    "transient_rhs N d pm Ta = ret P"
  shows "heat_content d Cap (euler N d Cap dt P T) - heat_content d Cap T = dt * (power_sum d pm + sink_inflow N d Ta T)"
proof -
  have "heat_content d Cap (euler N d Cap dt P T) - heat_content d Cap T =
      (\<Sum>(l, j, i)\<leftarrow>die_nodes d. Cap ! nat l * (euler N d Cap dt P T ! nat (node d l j i) - T ! nat (node d l j i)))"
    unfolding heat_content_def case_prod_unfold right_diff_distrib sum_list_diff ..
  then show ?thesis
    using transient_balance [OF assms(1-6) transient_step_euler [OF assms(1-3)]] by (simp add: sink_inflow_def)
qed

lemma epoch_balance:
  fixes N :: "('d::linordered_field) thermal_lib"
  assumes "exact_num N" "die_ok d" "length Cap = nat (numLayer d + 1)" "0 \<notin> set Cap" "length T = nat (nodes d)"
    "transient_rhs N d pm Ta = ret P"
  shows "heat_content d Cap ((euler N d Cap dt P ^^ n) T) - heat_content d Cap T =
    (\<Sum>m<n. dt * (power_sum d pm + sink_inflow N d Ta ((euler N d Cap dt P ^^ m) T)))"
proof (induction n)
  case (Suc n)
  have "length ((euler N d Cap dt P ^^ n) T) = nat (nodes d)" using assms(5) by (cases n) (simp_all add: length_euler)
  from euler_first_law [OF assms(1-4) this assms(6), of dt] show ?case using Suc by (simp add: algebra_simps)
qed simp

section \<open>The energy of a sequence of commands\<close>

definition spent :: "Config \<Rightarrow> ('d::linordered_field) EnergyConfig \<Rightarrow> Command \<Rightarrow> 'd" where
  "spent c ec cmd = command_energy ec (cmd_type cmd) / 1000 / device_share c"

definition case_energy :: "Config \<Rightarrow> ('d::linordered_field) EnergyConfig \<Rightarrow> int \<Rightarrow> (int \<times> Command) list \<Rightarrow> 'd" where
  "case_energy c ec k xs = (\<Sum>(ch, cmd)\<leftarrow>filter (\<lambda>(ch, cmd). case_of c ch cmd = k) xs. spent c ec cmd)"

lemma command_energy_step:
  fixes N :: "('d::linordered_field) thermal_lib"
  assumes "exact_num N" "thermal_ok c tc th" "cmd_bank_ok c ch cmd" "location_ok c cmd"
  shows "\<exists>th'. UpdateCMDPower N c tc ec ch cmd th = ret th' \<and> thermal_ok c tc th' \<and> core th' = core th \<and>
    (\<forall>k\<in>{0..<num_case th}. accu_total k th' = accu_total k th + (if case_of c ch cmd = k then spent c ec cmd else 0) \<and>
       cur_total k th' = cur_total k th + (if case_of c ch cmd = k then spent c ec cmd else 0))"
proof -
  obtain th' where t: "UpdateCMDPower N c tc ec ch cmd th = ret th'" "heated c tc th (case_of c ch cmd) th'"
      "accu_total (case_of c ch cmd) th' = accu_total (case_of c ch cmd) th + spent c ec cmd"
      "cur_total (case_of c ch cmd) th' = cur_total (case_of c ch cmd) th + spent c ec cmd"
    using command_energy_added [OF assms, of ec] by (auto simp: spent_def)
  have "accu_total k th' = accu_total k th \<and> cur_total k th' = cur_total k th" if "case_of c ch cmd \<noteq> k" "0 \<le> k" for k
    using t(2) that unfolding heated_def by (metis int_nat_eq)
  then have "\<forall>k\<in>{0..<num_case th}. accu_total k th' = accu_total k th + (if case_of c ch cmd = k then spent c ec cmd else 0) \<and>
       cur_total k th' = cur_total k th + (if case_of c ch cmd = k then spent c ec cmd else 0)"
    using t(3,4) by auto
  moreover have "core th' = core th" using t(2) by (simp add: heated_def)
  ultimately show ?thesis using t(1) heated_thermal_ok [OF assms(2) t(2)] by blast
qed

lemma commands_energy:
  fixes N :: "('d::linordered_field) thermal_lib"
  assumes "exact_num N" "\<forall>(ch, cmd)\<in>set xs. cmd_bank_ok c ch cmd \<and> location_ok c cmd" "thermal_ok c tc th"
  shows "\<exists>th'. for_run (\<lambda>(ch, cmd). UpdateCMDPower N c tc ec ch cmd) xs th = ret th' \<and> thermal_ok c tc th' \<and> core th' = core th \<and>
    (\<forall>k\<in>{0..<num_case th}. accu_total k th' = accu_total k th + case_energy c ec k xs \<and>
       cur_total k th' = cur_total k th + case_energy c ec k xs)"
  using assms(2,3)
proof (induction xs arbitrary: th)
  case (Cons x xs)
  obtain ch cmd where x: "x = (ch, cmd)" by (rule prod.exhaust)
  obtain th1 where t1: "UpdateCMDPower N c tc ec ch cmd th = ret th1" "thermal_ok c tc th1" "core th1 = core th"
      "\<forall>k\<in>{0..<num_case th}. accu_total k th1 = accu_total k th + (if case_of c ch cmd = k then spent c ec cmd else 0) \<and>
         cur_total k th1 = cur_total k th + (if case_of c ch cmd = k then spent c ec cmd else 0)"
    using command_energy_step [OF assms(1) Cons.prems(2), of ch cmd ec] Cons.prems(1) x by auto
  obtain th' where t': "for_run (\<lambda>(ch, cmd). UpdateCMDPower N c tc ec ch cmd) xs th1 = ret th'" "thermal_ok c tc th'" "core th' = core th1"
      "\<forall>k\<in>{0..<num_case th1}. accu_total k th' = accu_total k th1 + case_energy c ec k xs \<and>
         cur_total k th' = cur_total k th1 + case_energy c ec k xs"
    using Cons.IH [OF _ t1(2)] Cons.prems(1) by auto
  have "num_case th1 = num_case th" by (rule core_fields(8) [OF t1(3)])
  then have "\<forall>k\<in>{0..<num_case th}. accu_total k th' = accu_total k th + case_energy c ec k (x # xs) \<and>
       cur_total k th' = cur_total k th + case_energy c ec k (x # xs)"
    using t1(4) t'(4) by (auto simp: case_energy_def x)
  then show ?case using t1(1,3) t'(1-3) x by auto
qed (simp add: case_energy_def)

lemma cold_total:
  assumes "thermal_ok c tc th" "cold th" "0 \<le> k" "k < num_case th"
  shows "accu_total k th = 0" "cur_total k th = 0" "\<forall>e\<in>set (accu_Pmap th ! nat k). e = 0" "\<forall>e\<in>set (cur_Pmap th ! nat k). e = 0"
proof -
  have zero: "sum_list m = (0 :: 'a)" if "\<forall>e\<in>set m. e = 0" for m using that by (induction m) auto
  have "accu_Pmap th ! nat k \<in> set (accu_Pmap th)" "cur_Pmap th ! nat k \<in> set (cur_Pmap th)"
    using assms(1,3,4) by (auto simp: thermal_ok_def maps_ok_def)
  then show "\<forall>e\<in>set (accu_Pmap th ! nat k). e = 0" "\<forall>e\<in>set (cur_Pmap th ! nat k). e = 0"
    using assms(2) by (auto simp: cold_def)
  then show "accu_total k th = 0" "cur_total k th = 0" by (simp_all add: zero)
qed

end
