(* ===== verification/Thermal_Replay_Inv.thy ===== *)
theory Thermal_Replay_Inv
  imports Thermal_Replay Thermal_Calc DS_Mapping
begin

text \<open>
  What a replay of a command trace does: a printed command is read back, the statistics count
  every command and every cycle, the energy maps hold the energy of the commands, and the final
  report adds the background energies.
\<close>

section \<open>A printed command is read back\<close>

lemma StringSplit_Nil [simp]: "StringSplit d [] = []"
  by (simp add: StringSplit.simps)

lemma StringSplit_delim [simp]: "StringSplit d (d # s) = StringSplit d s"
  by (simp add: StringSplit.simps [of d "d # s"])

lemma StringSplit_delims [simp]: "StringSplit d (replicate n d @ s) = StringSplit d s"
  by (induction n) simp_all

lemma StringSplit_step:
  "x \<noteq> [] \<Longrightarrow> StringSplit d x = (let item = takeWhile (\<lambda>c. c \<noteq> d) x; rest = StringSplit d (drop (Suc (length item)) x)
     in if item = [] then rest else item # rest)"
  by (subst StringSplit.simps) (cases x; simp)

lemma StringSplit_token:
  assumes "s \<noteq> []" "d \<notin> set s"
  shows "StringSplit d s = [s]" "StringSplit d (s @ d # r) = s # StringSplit d r"
proof -
  have t: "takeWhile (\<lambda>c. c \<noteq> d) s = s" using assms(2) by (auto simp: takeWhile_eq_all_conv)
  have u: "takeWhile (\<lambda>c. c \<noteq> d) (s @ d # r) = s" using assms(2) by (subst takeWhile_append2) auto
  show "StringSplit d s = [s]" "StringSplit d (s @ d # r) = s # StringSplit d r"
    using assms by (simp_all add: StringSplit_step Let_def t u)
qed

lemma no_space_digits: "CHR '' '' \<notin> set (nat_to_string n)"
proof
  assume "CHR '' '' \<in> set (nat_to_string n)"
  then obtain d where "d < 10" "CHR '' '' = digit_char d" using nat_to_string_digits by blast
  moreover have "is_space (CHR '' '')" by (simp add: is_space_def)
  ultimately show False using digit_char_facts(3) [of d] by metis
qed

lemma no_space_hex: "CHR '' '' \<notin> set (nat_to_hex n)"
proof (induction n rule: nat_to_hex.induct)
  case (1 n)
  have ne: "hex_digit d \<noteq> CHR '' ''" if "d < 16" for d
  proof -
    have "d \<in> {0..<16}" using that by simp
    then show ?thesis by (auto simp: hex_digit_def digit_char_def char_of_def atLeastLessThan_nat_numeral)
  qed
  show ?case using 1 ne [of n] ne [of "n mod 16"] by (subst nat_to_hex.simps) auto
qed

lemma token_facts:
  "to_string i \<noteq> []" "CHR '' '' \<notin> set (to_string i)" "to_hex i \<noteq> []" "CHR '' '' \<notin> set (to_hex i)"
  "command_string t \<noteq> []" "CHR '' '' \<notin> set (command_string t)"
proof -
  show "to_string i \<noteq> []" by (simp add: to_string_def nat_to_string.simps)
  show "CHR '' '' \<notin> set (to_string i)" using no_space_digits by (simp add: to_string_def)
  show "to_hex i \<noteq> []" "CHR '' '' \<notin> set (to_hex i)" using no_space_hex by (simp_all add: to_hex_def)
  show "command_string t \<noteq> []" "CHR '' '' \<notin> set (command_string t)" by (cases t; simp add: command_string_def)+
qed

lemma trace_line_tokens:
  "StringSplit (CHR '' '') (command_trace_line clk cmd) =
    [to_string (uint clk), command_string (cmd_type cmd), to_string (c_Channel cmd), to_string (c_Rank cmd), to_string (c_Bankgroup cmd),
     to_string (c_Bank cmd), to_hex (c_Row cmd), to_hex (c_Column cmd)]"
proof -
  have right: "StringSplit (CHR '' '') (pad_right n s @ CHR '' '' # r) = s # StringSplit (CHR '' '') r"
    if "s \<noteq> []" "CHR '' '' \<notin> set s" for n s r
  proof -
    have "pad_right n s @ CHR '' '' # r = s @ CHR '' '' # (replicate (n - length s) (CHR '' '') @ r)"
      by (simp add: pad_right_def replicate_app_Cons_same)
    then show ?thesis unfolding \<open>pad_right n s @ _ = _\<close> StringSplit_token(2) [OF that] by simp
  qed
  have left: "StringSplit (CHR '' '') (pad_left n s @ CHR '' '' # r) = s # StringSplit (CHR '' '') r"
    "StringSplit (CHR '' '') (pad_left n s) = [s]"
    if "s \<noteq> []" "CHR '' '' \<notin> set s" for n s r
    using StringSplit_token [OF that] by (simp_all add: pad_left_def)
  show ?thesis unfolding command_trace_line_def print_command_def by (simp add: right left token_facts)
qed

lemma stoi_hex: "stoi (to_hex i) = Some 0"
proof -
  have "\<not> is_space (CHR ''0'')" "\<not> is_space (CHR ''-'')" "is_digit (CHR ''0'')" "\<not> is_digit (CHR ''x'')" "digit_val (CHR ''0'') = 0"
    by (simp_all add: is_space_def is_digit_def digit_val_def)
  then show ?thesis by (simp add: to_hex_def stoi_def stoi_unsigned_def digits_val_def fits_int_def)
qed

lemma takeWhile_digits: "takeWhile is_digit (nat_to_string n) = nat_to_string n"
  using takeWhile_printed [of "[]" n] by simp

lemma stoull_to_string: "stoull (to_string (uint w)) = Some w"
proof -
  let ?n = "unat w"
  obtain c cs where c: "nat_to_string ?n = c # cs" by (cases "nat_to_string ?n") auto
  obtain d where "d < 10" "c = digit_char d" using nat_to_string_digits [of ?n] by (auto simp: c)
  then have f: "\<not> is_space c" "c \<noteq> CHR ''-''" "c \<noteq> CHR ''+''" by simp_all
  have "stoull (nat_to_string ?n) = stoull_unsigned False (nat_to_string ?n)" using f by (simp add: stoull_def c)
  also have "\<dots> = Some w" using unsigned_less [where ?'b = 64 and ?'a = nat, of w] by (simp add: stoull_unsigned_def takeWhile_digits Let_def)
  finally show ?thesis by (simp add: to_string_def)
qed

lemma cmd_map_string: "t \<noteq> CMD_SIZE \<Longrightarrow> cmd_map (command_string t) = t"
  by (cases t) (simp_all add: cmd_map_def command_string_def)

lemma stoi_signed:
  assumes "fits_int i"
  shows "stoi (to_string i) = Some i"
proof (cases "i < 0")
  case True
  then show ?thesis using assms
    by (simp add: to_string_def stoi_def is_space_def stoi_unsigned_def takeWhile_digits)
next
  case False
  then show ?thesis using stoi_to_string [of i "[]"] assms by (simp add: fits_int_def)
qed

lemma trace_line_parsed:
  assumes "IsValid cmd" "fits_int (c_Channel cmd)" "fits_int (c_Rank cmd)" "fits_int (c_Bankgroup cmd)" "fits_int (c_Bank cmd)"
  shows "ParseLine (command_trace_line clk cmd) =
    ret (clk, cmd\<lparr>cmd_addr := (cmd_addr cmd)\<lparr>ad_row := 0, ad_column := 0\<rparr>, hex_addr := 0\<rparr>)"
proof -
  have "cmd_map (command_string (cmd_type cmd)) = cmd_type cmd" using assms(1) by (simp add: IsValid_def cmd_map_string)
  then show ?thesis
    unfolding ParseLine_def trace_line_tokens
    by (simp add: stoull_run_def stoull_to_string stoi_run_def stoi_signed [OF assms(2)] stoi_signed [OF assms(3)] stoi_signed [OF assms(4)]
        stoi_signed [OF assms(5)] stoi_hex mk_Address_def no_Command_def mk_Command_def)
qed

section \<open>The final report of a stacked memory\<close>

lemma for_run_pmap:
  fixes m :: "('d::linordered_field) list list"
  assumes "0 \<le> k" "k < int (length m)" "\<forall>i\<in>set xs. 0 \<le> i \<and> i < int (length (m ! nat k))"
  shows "\<exists>m'. for_run (\<lambda>i m. pmap_add m k i e) xs m = ret m' \<and> length m' = length m \<and> (\<forall>q<length m. length (m' ! q) = length (m ! q)) \<and>
    sum_list (m' ! nat k) = sum_list (m ! nat k) + of_nat (length xs) * e"
proof -
  let ?P = "\<lambda>m'. length m' = length m \<and> (\<forall>q<length m. length (m' ! q) = length (m ! q))"
  have k: "nat k < length m" using assms(1,2) by linarith
  have "\<exists>m'. pmap_add t k i e = ret m' \<and> ?P m' \<and> sum_list (m' ! nat k) = sum_list (t ! nat k) + e \<and>
      sum_list (m' ! nat k) = sum_list (t ! nat k) + e" if "i \<in> set xs" "?P t" for i t
  proof -
    have "i < int (length (t ! nat k))" "0 \<le> i" "k < int (length t)" using assms that k by auto
    from pmap_add_total [OF assms(1) this(3,2,1), of e] show ?thesis using that(2) by force
  qed
  from for_run_adds [of ?P m xs _ "\<lambda>m. sum_list (m ! nat k)" e "\<lambda>m. sum_list (m ! nat k)", OF _ this] show ?thesis by fastforce
qed

lemma fold_sum: "fold (\<lambda>e s. s + e) xs (a :: 'd::comm_monoid_add) = a + sum_list xs"
  by (induction xs arbitrary: a) (simp_all add: add.assoc)

lemma stacked_planes:
  assumes "thermal_ok c tc th" "IsHBM c \<or> IsHMC c" "0 < channels c"
  shows "1 < numP th" "0 < dimX th" "0 < dimY th" "num_case th = 1" "length (accu_Pmap th) = 1"
    "length (accu_Pmap th ! 0) = nat (numP th * dimX th * dimY th)"
proof -
  note ok = assms(1) [unfolded thermal_ok_def]
  show n: "1 < numP th" using ok assms(2,3) by (auto simp: plan_ok_def split: if_splits)
  show "0 < dimX th" "0 < dimY th" using th_die_ok(2,3) [of c tc th] vaults_pos [of c tc th] ok n by auto
  show "num_case th = 1" using ok assms(2) by auto
  then show "length (accu_Pmap th) = 1" "length (accu_Pmap th ! 0) = nat (numP th * dimX th * dimY th)"
    using ok by (auto simp: maps_ok_def)
qed

lemma final_background:
  fixes N :: "('d::linordered_field) thermal_lib"
  assumes "exact_num N" "thermal_ok c tc th" "IsHBM c \<or> IsHMC c" "0 < channels c"
  shows "\<exists>m. UpdatePowerMaps N c (stacked_background N th / num N 1000) False clk th = ret (th\<lparr>accu_Pmap := m\<rparr>) \<and>
    maps_ok (th\<lparr>accu_Pmap := m\<rparr>) \<and> sum_list (m ! 0) =
      accu_total 0 th + sum_list (concat (background_energy th)) / 1000 + avg_logic_power th * of_int (uint clk)"
proof -
  note pl = stacked_planes [OF assms(2-4)]
  let ?L = "dimX th * dimY th" and ?m = "accu_Pmap th"
  have num: "num N = of_int" using assms(1) by (simp add: exact_num_def)
  have L: "0 < ?L" using pl by simp
  have len: "int (length (?m ! 0)) = ?L * numP th" using pl by (simp add: mult.commute mult.left_commute)
  define b where "b = stacked_background N th / 1000"
  define g where "g = avg_logic_power th / of_int (dimX th) / of_int (dimY th) * of_int (uint clk)"
  have le: "?L * (numP th - 1) \<le> ?L * numP th" "0 \<le> ?L * (numP th - 1)" using L pl(1) by (auto intro: mult_left_mono)
  obtain m1 where m1: "for_run (\<lambda>i m. pmap_add m 0 i b) [0..?L * (numP th - 1) - 1] ?m = ret m1" "length m1 = 1"
      "length (m1 ! 0) = length (?m ! 0)" "sum_list (m1 ! 0) = sum_list (?m ! 0) + of_nat (length [0..?L * (numP th - 1) - 1]) * b"
    using for_run_pmap [of 0 ?m "[0..?L * (numP th - 1) - 1]" b] pl(5) len le by auto
  obtain m2 where m2: "for_run (\<lambda>i m. pmap_add m 0 i g) [?L * (numP th - 1)..?L * numP th - 1] m1 = ret m2" "length m2 = 1"
      "length (m2 ! 0) = length (?m ! 0)" "sum_list (m2 ! 0) = sum_list (m1 ! 0) + of_nat (length [?L * (numP th - 1)..?L * numP th - 1]) * g"
    using for_run_pmap [of 0 m1 "[?L * (numP th - 1)..?L * numP th - 1]" g] m1(2,3) len le by auto
  have c1: "of_nat (length [0..?L * (numP th - 1) - 1]) * b = sum_list (concat (background_energy th)) / 1000"
  proof -
    have "of_nat (length [0..?L * (numP th - 1) - 1]) = (of_int (?L * (numP th - 1)) :: 'd)" using le by simp
    moreover have "of_int (?L * (numP th - 1)) \<noteq> (0 :: 'd)" using pl(1-3) by simp
    ultimately show ?thesis by (simp only: b_def stacked_background_def num fold_sum) simp
  qed
  have c2: "of_nat (length [?L * (numP th - 1)..?L * numP th - 1]) * g = avg_logic_power th * of_int (uint clk)"
  proof -
    have "?L * numP th - ?L * (numP th - 1) = ?L" by (simp add: algebra_simps)
    then have "of_nat (length [?L * (numP th - 1)..?L * numP th - 1]) = (of_int ?L :: 'd)" using L by simp
    then show ?thesis using pl(2,3) by (simp add: g_def)
  qed
  have "UpdatePowerMaps N c (stacked_background N th / num N 1000) False clk th = ret (th\<lparr>accu_Pmap := m2\<rparr>)"
    using m1(1) m2(1) by (simp add: UpdatePowerMaps_def Let_def pl(4) num b_def g_def)
  moreover have "maps_ok (th\<lparr>accu_Pmap := m2\<rparr>)"
    using assms(2) m2(2,3) pl(4,6) by (auto simp: thermal_ok_def maps_ok_def)
  ultimately show ?thesis using m1(4) m2(4) c1 c2 by (intro exI [of _ m2]) simp
qed

lemma final_report:
  fixes N :: "('d::linordered_field) thermal_lib"
  assumes "exact_num N" "thermal_ok c tc th" "IsHBM c \<or> IsHMC c" "0 < channels c" "th_Midx th = midx_entries N (th_die tc th)"
  shows "\<exists>th'. PrintFinalPT N pdgssv c tc clk th = ret th' \<and> background_energy th' = background_energy th \<and>
    accu_total 0 th' = accu_total 0 th + sum_list (concat (background_energy th)) / 1000 + avg_logic_power th * of_int (uint clk)"
proof -
  obtain m where m: "UpdatePowerMaps N c (stacked_background N th / num N 1000) False clk th = ret (th\<lparr>accu_Pmap := m\<rparr>)"
      "sum_list (m ! 0) = accu_total 0 th + sum_list (concat (background_energy th)) / 1000 + avg_logic_power th * of_int (uint clk)"
    using final_background [OF assms(1-4)] by blast
  let ?th = "th\<lparr>accu_Pmap := m\<rparr>"
  note pl = stacked_planes [OF assms(2-4)]
  have d: "die_ok (th_die tc th)" using pl(1-3) by (simp add: die_ok_def th_die_def)
  obtain a asub xa rhs where "steady_system N (th_die tc th) (InitPowerM N c 0 clk ?th) (midx_entries N (th_die tc th)) (Tamb th) = ret (a, asub, xa, rhs)"
    using steady_system_total [OF assms(1) d] by blast
  then obtain ts where "steady_thermal_solver N pdgssv (th_die tc th) (InitPowerM N c 0 clk ?th) (midx_entries N (th_die tc th)) (Tamb th) = ret ts"
    by (simp add: steady_thermal_solver_def)
  moreover have "th_die tc ?th = th_die tc th" by (simp add: th_die_def)
  ultimately have "CalcFinalT N pdgssv c tc 0 clk ?th = ret (?th\<lparr>T_final := (T_final th)[0 := ts]\<rparr>)"
    using assms(5) by (simp add: CalcFinalT_def)
  then show ?thesis using m pl(4) assms(3) by (auto simp: PrintFinalPT_def Let_def)
qed

section \<open>What a replay counts\<close>

text \<open>The count of an event over the run so far: the totals and the epoch that is not yet added.\<close>

definition tot :: "'d ThermalReplay \<Rightarrow> int \<Rightarrow> string \<Rightarrow> 64 word" where
  "tot tr i n = (let st = fst (channel_stats tr ! nat i) in counters st n + epoch_counters st n)"

definition rank_cycles :: "'d ThermalReplay \<Rightarrow> int \<Rightarrow> int \<Rightarrow> 64 word" where
  "rank_cycles tr i j =
     (let st = fst (channel_stats tr ! nat i); v = (\<lambda>n. vec_counters st n j + epoch_vec_counters st n j)
      in v ''rank_active_cycles'' + v ''all_bank_idle_cycles'')"

definition frame :: "'d Thermal \<Rightarrow> 'd Thermal" where
  "frame th = (core th)\<lparr>background_energy := []\<rparr>"

definition banks_shape :: "Config \<Rightarrow> bool list list list list \<Rightarrow> bool" where
  "banks_shape c m \<longleftrightarrow> length m = nat (channels c) \<and> (\<forall>x\<in>set m. length x = nat (ranks c) \<and>
     (\<forall>y\<in>set x. length y = nat (bankgroups c) \<and> (\<forall>z\<in>set y. length z = nat (banks_per_group c))))"

definition bg_ok :: "Config \<Rightarrow> 'd Thermal \<Rightarrow> bool" where
  "bg_ok c th \<longleftrightarrow> length (background_energy th) = nat (channels c) \<and> (\<forall>b\<in>set (background_energy th). length b = nat (ranks c))"

definition replay_ok :: "Config \<Rightarrow> 'd ThermalConfig \<Rightarrow> 'd ThermalReplay \<Rightarrow> bool" where
  "replay_ok c tc tr \<longleftrightarrow> thermal_ok c tc (thermal_calc tr) \<and> bg_ok c (thermal_calc tr) \<and>
     length (channel_stats tr) = nat (channels c) \<and> banks_shape c (bank_active tr)"

text \<open>Steps that only change the statistics.\<close>

definition same_but_stats :: "'d ThermalReplay \<Rightarrow> 'd ThermalReplay \<Rightarrow> bool" where
  "same_but_stats tr tr' \<longleftrightarrow> tr' = tr\<lparr>channel_stats := channel_stats tr'\<rparr> \<and> length (channel_stats tr') = length (channel_stats tr)"

lemma same_but_stats_ok: "same_but_stats tr tr' \<Longrightarrow> replay_ok c tc tr' = replay_ok c tc tr"
proof -
  assume s: "same_but_stats tr tr'"
  then have "thermal_calc tr' = thermal_calc tr" "bank_active tr' = bank_active tr"
    unfolding same_but_stats_def by (metis ThermalReplay.select_convs(2,5) ThermalReplay.surjective ThermalReplay.update_convs(4))+
  then show ?thesis using s by (simp add: replay_ok_def same_but_stats_def)
qed

lemma count_background_step:
  assumes "0 \<le> i" "i < int (length (channel_stats tr))" "n = ''rank_active_cycles'' \<or> n = ''all_bank_idle_cycles''"
  shows "\<exists>tr'. upd_replay_stats i (IncrementVecBy n j v) tr = ret tr' \<and> same_but_stats tr tr' \<and> tot tr' = tot tr \<and>
    (\<forall>a b. 0 \<le> a \<longrightarrow> rank_cycles tr' a b = rank_cycles tr a b + (if (a, b) = (i, j) then of_int v else 0))"
proof -
  have i: "nat i < length (channel_stats tr)" using assms by linarith
  have e: "nat a = nat i \<longleftrightarrow> a = i" if "0 \<le> a" for a using assms(1) that by auto
  show ?thesis using assms i
    by (auto simp: upd_replay_stats_def same_but_stats_def fun_eq_iff tot_def rank_cycles_def IncrementVecBy_def nth_list_update e Let_def)
qed

lemma same_but_stats_trans: "same_but_stats a b \<Longrightarrow> same_but_stats b d \<Longrightarrow> same_but_stats a d"
  unfolding same_but_stats_def by (metis ThermalReplay.update_convs(4) ThermalReplay.surjective)

lemma if_name: "(if b then x else y) = x \<or> (if b then x else y) = y"
  by simp

lemma count_background_list:
  assumes "distinct xs" "\<forall>(i, j)\<in>set xs. 0 \<le> i \<and> i < int (length (channel_stats tr))"
  shows "\<exists>tr'. for_run (\<lambda>(i, j) tr. upd_replay_stats i (IncrementVecBy (if IsRankActive tr i j then ''rank_active_cycles'' else ''all_bank_idle_cycles'') j v) tr)
      xs tr = ret tr' \<and> same_but_stats tr tr' \<and> tot tr' = tot tr \<and>
    (\<forall>a b. 0 \<le> a \<longrightarrow> rank_cycles tr' a b = rank_cycles tr a b + (if (a, b) \<in> set xs then of_int v else 0))"
  using assms
proof (induction xs arbitrary: tr)
  case (Cons x xs)
  obtain i j where x: "x = (i, j)" by (rule prod.exhaust)
  obtain t where t: "upd_replay_stats i (IncrementVecBy (if IsRankActive tr i j then ''rank_active_cycles'' else ''all_bank_idle_cycles'') j v) tr = ret t"
      "same_but_stats tr t" "tot t = tot tr"
      "\<forall>a b. 0 \<le> a \<longrightarrow> rank_cycles t a b = rank_cycles tr a b + (if (a, b) = (i, j) then of_int v else 0)"
    using count_background_step [of i tr "if IsRankActive tr i j then ''rank_active_cycles'' else ''all_bank_idle_cycles''" j v, OF _ _ if_name]
      Cons.prems(2) x by auto
  have "length (channel_stats t) = length (channel_stats tr)" using t(2) by (simp add: same_but_stats_def)
  then obtain t' where t': "for_run (\<lambda>(i, j) tr. upd_replay_stats i (IncrementVecBy (if IsRankActive tr i j then ''rank_active_cycles'' else ''all_bank_idle_cycles'') j v) tr) xs t = ret t'"
      "same_but_stats t t'" "tot t' = tot t"
      "\<forall>a b. 0 \<le> a \<longrightarrow> rank_cycles t' a b = rank_cycles t a b + (if (a, b) \<in> set xs then of_int v else 0)"
    using Cons.IH [of t] Cons.prems by auto
  have "\<forall>a b. 0 \<le> a \<longrightarrow> rank_cycles t' a b = rank_cycles tr a b + (if (a, b) \<in> set (x # xs) then of_int v else 0)"
    using t(4) t'(4) Cons.prems(1) x by auto
  then show ?case using t(1,3) t'(1,3) same_but_stats_trans [OF t(2) t'(2)] x by (intro exI [of _ t']) simp
qed (simp add: same_but_stats_def)

lemma count_background_total:
  assumes "length (channel_stats tr) = nat (channels c)"
  shows "\<exists>tr'. count_background c g tr = ret tr' \<and> same_but_stats tr tr' \<and> tot tr' = tot tr \<and>
    (\<forall>i\<in>{0..<channels c}. \<forall>j\<in>{0..<ranks c}. rank_cycles tr' i j = rank_cycles tr i j + of_int (to_int32 (uint g)))"
proof -
  let ?xs = "List.product [0..channels c - 1] [0..ranks c - 1]"
  have "count_background c g tr = for_run (\<lambda>(i, j) tr. upd_replay_stats i (IncrementVecBy (if IsRankActive tr i j then ''rank_active_cycles''
      else ''all_bank_idle_cycles'') j (to_int32 (uint g))) tr) ?xs tr"
    unfolding count_background_def for_run_nest by (simp add: case_prod_unfold)
  then show ?thesis
    using count_background_list [of ?xs tr "to_int32 (uint g)"] assms by (auto simp: distinct_product)
qed

lemma count_command_total:
  assumes "0 \<le> c_Channel cmd" "c_Channel cmd < int (length (channel_stats tr))" "IsValid cmd"
  shows "\<exists>tr'. count_command cmd tr = ret tr' \<and> same_but_stats tr tr' \<and> rank_cycles tr' = rank_cycles tr \<and>
    (\<forall>i n. 0 \<le> i \<longrightarrow> tot tr' i n = tot tr i n + (if c_Channel cmd = i \<and> command_stat (cmd_type cmd) = n then 1 else 0))"
proof -
  have i: "nat (c_Channel cmd) < length (channel_stats tr)" using assms by linarith
  have e: "nat a = nat (c_Channel cmd) \<longleftrightarrow> a = c_Channel cmd" if "0 \<le> a" for a using assms(1) that by auto
  show ?thesis using assms i
    by (auto simp: count_command_def IsValid_def upd_replay_stats_def same_but_stats_def fun_eq_iff tot_def rank_cycles_def Increment_def nth_list_update e Let_def)
qed

lemma list_all_update: "\<forall>x\<in>set xs. P x \<Longrightarrow> P v \<Longrightarrow> \<forall>x\<in>set (xs[n := v]). P x"
  by (metis in_set_conv_nth length_list_update nth_list_update_eq nth_list_update_neq)

definition bank_there :: "Config \<Rightarrow> Command \<Rightarrow> bool" where
  "bank_there c cmd \<longleftrightarrow> 0 \<le> c_Channel cmd \<and> c_Channel cmd < channels c \<and> 0 \<le> c_Rank cmd \<and> c_Rank cmd < ranks c \<and>
     0 \<le> c_Bankgroup cmd \<and> c_Bankgroup cmd < bankgroups c \<and> 0 \<le> c_Bank cmd \<and> c_Bank cmd < banks_per_group c"

text \<open>The commands that the replay can count and place.\<close>

definition replayable :: "Config \<Rightarrow> Command \<Rightarrow> bool" where
  "replayable c cmd \<longleftrightarrow> IsValid cmd \<and> cmd_bank_ok c (c_Channel cmd) cmd \<and> location_ok c cmd \<and> (cmd_type cmd = PRECHARGE \<longrightarrow> bank_there c cmd)"

lemma set_bank_total:
  assumes "banks_shape c m" "bank_there c cmd"
  shows "\<exists>m'. set_bank cmd b m = ret m' \<and> banks_shape c m'"
proof -
  let ?ch = "nat (c_Channel cmd)" and ?r = "nat (c_Rank cmd)" and ?g = "nat (c_Bankgroup cmd)"
  note s = assms(1) [unfolded banks_shape_def]
  have 1: "?ch < length m" using s assms(2) by (auto simp: bank_there_def)
  then have x: "m ! ?ch \<in> set m" by simp
  then have 2: "?r < length (m ! ?ch)" using s assms(2) by (auto simp: bank_there_def)
  then have y: "m ! ?ch ! ?r \<in> set (m ! ?ch)" by simp
  then have "length (m ! ?ch ! ?r) = nat (bankgroups c)" using s x by blast
  then have 3: "?g < length (m ! ?ch ! ?r)" using assms(2) by (auto simp: bank_there_def)
  then have z: "m ! ?ch ! ?r ! ?g \<in> set (m ! ?ch ! ?r)" by simp
  then have 4: "length (m ! ?ch ! ?r ! ?g) = nat (banks_per_group c)" using s x y by blast
  let ?z = "(m ! ?ch ! ?r ! ?g)[nat (c_Bank cmd) := b]"
  let ?y = "(m ! ?ch ! ?r)[?g := ?z]"
  let ?x = "(m ! ?ch)[?r := ?y]"
  let ?Y = "\<lambda>y. length y = nat (bankgroups c) \<and> (\<forall>z\<in>set y. length z = nat (banks_per_group c))"
  let ?X = "\<lambda>x. length x = nat (ranks c) \<and> (\<forall>y\<in>set x. ?Y y)"
  have "\<forall>z\<in>set ?y. length z = nat (banks_per_group c)" by (rule list_all_update) (use s x y 4 in auto)
  then have "\<forall>y\<in>set ?x. ?Y y" by (intro list_all_update [where P = ?Y]) (use s x y in auto)
  then have "\<forall>x\<in>set (m[?ch := ?x]). ?X x" using s x by (intro list_all_update [where P = ?X]) auto
  then have "banks_shape c (m[?ch := ?x])" using s by (simp add: banks_shape_def)
  then show ?thesis using 1 2 3 4 assms(2) by (simp add: set_bank_def Let_def bank_there_def nat_less_iff)
qed

lemma update_bank_total:
  assumes "replay_ok c tc tr" "replayable c cmd"
  shows "\<exists>m. update_bank cmd tr = ret (tr\<lparr>bank_active := m\<rparr>) \<and> banks_shape c m"
proof -
  have s: "banks_shape c (bank_active tr)" using assms(1) by (simp add: replay_ok_def)
  show ?thesis
  proof (cases "cmd_type cmd \<in> {ACTIVATE, READ_PRECHARGE, WRITE_PRECHARGE, PRECHARGE}")
    case True
    then have "bank_there c cmd" using assms(2) by (auto simp: replayable_def cmd_bank_ok_def bank_there_def placed_def)
    from set_bank_total [OF s this, of "cmd_type cmd = ACTIVATE"] obtain m where
      "set_bank cmd (cmd_type cmd = ACTIVATE) (bank_active tr) = ret m" "banks_shape c m" by blast
    then show ?thesis using True by (intro exI [of _ m]) (auto simp: update_bank_def Let_def)
  next
    case False
    then show ?thesis using s by (intro exI [of _ "bank_active tr"]) (simp add: update_bank_def Let_def)
  qed
qed

text \<open>The report of an epoch moves the counts of the epoch to the totals.\<close>

lemma epoch_report_counts:
  assumes "rp_PrintEpochStats L ec nm c i x fs = ((st, rp), fs')"
  shows "counters st n + epoch_counters st n = counters (fst x) n + epoch_counters (fst x) n"
    "vec_counters st n j + epoch_vec_counters st n j = vec_counters (fst x) n j + epoch_vec_counters (fst x) n j"
  using assms by (auto simp: rp_PrintEpochStats_def rp_UpdateEpochStats_def UpdateCounters_def UpdateHistoBins_def Let_def case_prod_unfold)

lemma final_report_counts:
  assumes "rp_PrintFinalStats L ec nm c i x fs = ((st, rp), fs')"
  shows "counters st n = counters (fst x) n + epoch_counters (fst x) n"
    "vec_counters st n j = vec_counters (fst x) n j + epoch_vec_counters (fst x) n j"
  using assms by (auto simp: rp_PrintFinalStats_def rp_UpdateFinalStats_def UpdateCounters_def UpdateHistoBins_def Let_def case_prod_unfold)

text \<open>The background energy of the ranks of a channel.\<close>

lemma background_set:
  assumes "bg_ok c th" "0 \<le> i" "i < channels c"
  shows "\<exists>b. for_run (\<lambda>r. UpdateBackgroundEnergy i r (f r)) [0..ranks c - 1] th = ret (th\<lparr>background_energy := b\<rparr>) \<and>
    bg_ok c (th\<lparr>background_energy := b\<rparr>)"
proof -
  let ?P = "\<lambda>t. (\<exists>b. t = th\<lparr>background_energy := b\<rparr>) \<and> bg_ok c t"
  have "\<exists>t'. for_run (\<lambda>r. UpdateBackgroundEnergy i r (f r)) [0..ranks c - 1] th = ret t' \<and> ?P t'"
  proof (rule for_run_total)
    have "th = th\<lparr>background_energy := background_energy th\<rparr>" by simp
    then show "?P th" using assms(1) by blast
    fix r t assume r: "r \<in> set [0..ranks c - 1]" and t: "?P t"
    have l: "length (background_energy t) = nat (channels c)" using t by (simp add: bg_ok_def)
    then have "background_energy t ! nat i \<in> set (background_energy t)" using assms(2,3) by simp
    then have "length (background_energy t ! nat i) = nat (ranks c)" using t by (simp add: bg_ok_def)
    then have "UpdateBackgroundEnergy i r (f r) t = ret (t\<lparr>background_energy := (background_energy t)
        [nat i := (background_energy t ! nat i)[nat r := f r]]\<rparr>)" "\<forall>b\<in>set ((background_energy t)
        [nat i := (background_energy t ! nat i)[nat r := f r]]). length b = nat (ranks c)"
      using r assms(2,3) l t by (auto simp: UpdateBackgroundEnergy_def bg_ok_def dest!: set_update_subset_insert [THEN subsetD])
    then show "\<exists>t'. UpdateBackgroundEnergy i r (f r) t = ret t' \<and> ?P t'" using t l by (auto simp: bg_ok_def)
  qed
  then show ?thesis by blast
qed

text \<open>Steps that change the statistics, the files and the background energies, and count nothing.\<close>

definition reported :: "Config \<Rightarrow> 'd ThermalReplay \<Rightarrow> 'd ThermalReplay \<Rightarrow> bool" where
  "reported c tr tr' \<longleftrightarrow> (\<exists>st b fs. tr' = tr\<lparr>channel_stats := st, thermal_calc := (thermal_calc tr)\<lparr>background_energy := b\<rparr>, replay_output := fs\<rparr> \<and>
     length st = length (channel_stats tr)) \<and> bg_ok c (thermal_calc tr') \<and> tot tr' = tot tr \<and> rank_cycles tr' = rank_cycles tr"

lemma reported_refl: "bg_ok c (thermal_calc tr) \<Longrightarrow> reported c tr tr"
proof -
  have "tr = tr\<lparr>channel_stats := channel_stats tr, thermal_calc := (thermal_calc tr)\<lparr>background_energy := background_energy (thermal_calc tr)\<rparr>,
      replay_output := replay_output tr\<rparr>" by simp
  then show "bg_ok c (thermal_calc tr) \<Longrightarrow> reported c tr tr" unfolding reported_def by metis
qed

lemma reported_step:
  assumes "reported c tr0 tr" "length (channel_stats tr0) = nat (channels c)" "0 \<le> i" "i < channels c"
  shows "\<exists>tr'. replay_epoch N ec nm c i tr = ret tr' \<and> reported c tr0 tr'"
proof -
  have l: "length (channel_stats tr) = nat (channels c)" using assms(1,2) by (auto simp: reported_def)
  have i: "nat i < length (channel_stats tr)" using l assms(3,4) by simp
  obtain st rp fs where p: "rp_PrintEpochStats (tl_report N) ec nm c i (channel_stats tr ! nat i) (replay_output tr) = ((st, rp), fs)"
    by (metis prod_cases3 prod.exhaust)
  have bg: "bg_ok c (thermal_calc tr)" using assms(1) by (simp add: reported_def)
  obtain b where b: "for_run (\<lambda>r. UpdateBackgroundEnergy i r (RankBackgroundEnergy (tl_report N) r rp)) [0..ranks c - 1] (thermal_calc tr) =
      ret ((thermal_calc tr)\<lparr>background_energy := b\<rparr>)" "bg_ok c ((thermal_calc tr)\<lparr>background_energy := b\<rparr>)"
    using background_set [OF bg assms(3,4), of "\<lambda>r. RankBackgroundEnergy (tl_report N) r rp"] by blast
  let ?tr = "tr\<lparr>channel_stats := (channel_stats tr)[nat i := (st, rp)], replay_output := fs, thermal_calc := (thermal_calc tr)\<lparr>background_energy := b\<rparr>\<rparr>"
  have "replay_epoch N ec nm c i tr = ret ?tr" using b(1) i assms(3,4) l by (simp add: replay_epoch_def p)
  moreover have "tot ?tr = tot tr" "rank_cycles ?tr = rank_cycles tr"
    using epoch_report_counts [OF p] i by (auto simp: fun_eq_iff tot_def rank_cycles_def nth_list_update Let_def)
  moreover obtain st0 b0 fs0 where e: "tr = tr0\<lparr>channel_stats := st0, thermal_calc := (thermal_calc tr0)\<lparr>background_energy := b0\<rparr>, replay_output := fs0\<rparr>"
      "length st0 = length (channel_stats tr0)" using assms(1) by (auto simp: reported_def)
  have "\<exists>st b fs. ?tr = tr0\<lparr>channel_stats := st, thermal_calc := (thermal_calc tr0)\<lparr>background_energy := b\<rparr>, replay_output := fs\<rparr> \<and>
      length st = length (channel_stats tr0)"
    by (intro exI [of _ "st0[nat i := (st, rp)]"] exI [of _ b] exI [of _ fs]) (simp add: e)
  ultimately have "reported c tr0 ?tr" using assms(1) b(2) unfolding reported_def by simp
  then show ?thesis using \<open>replay_epoch N ec nm c i tr = ret ?tr\<close> by blast
qed

lemma replay_epochs_total:
  assumes "length (channel_stats tr) = nat (channels c)" "bg_ok c (thermal_calc tr)"
  shows "\<exists>tr'. for_run (replay_epoch N ec nm c) [0..channels c - 1] tr = ret tr' \<and> reported c tr tr'"
  by (rule for_run_total [where P = "reported c tr"]) (use reported_refl [OF assms(2)] reported_step [OF _ assms(1)] in auto)

lemma thermal_ok_background [simp]: "thermal_ok c tc (th\<lparr>background_energy := b\<rparr>) = thermal_ok c tc th"
  by (simp add: thermal_ok_def plan_ok_def vaults_def maps_ok_def refresh_blocks_ok_def)

lemma ProcessCMD_total:
  fixes tr :: "('d::{plus,minus,times,inverse,ord}) ThermalReplay"
  assumes "replay_ok c tc tr" "replayable c cmd" "uint (clk - last_clk tr) < 2 ^ 31"
    "(of_int (epoch_period c) :: 64 word) \<noteq> 0"
  shows "\<exists>tr' b. ProcessCMD N ec nm c cmd clk tr = ret tr' \<and> replay_ok c tc tr' \<and> timed_commands tr' = timed_commands tr \<and>
    last_clk tr' = clk \<and> thermal_calc tr' = (thermal_calc tr)\<lparr>background_energy := b\<rparr> \<and>
    (\<forall>i n. 0 \<le> i \<longrightarrow> tot tr' i n = tot tr i n + (if c_Channel cmd = i \<and> command_stat (cmd_type cmd) = n then 1 else 0)) \<and>
    (\<forall>i\<in>{0..<channels c}. \<forall>j\<in>{0..<ranks c}. rank_cycles tr' i j = rank_cycles tr i j + (clk - last_clk tr))"
proof -
  have len: "length (channel_stats tr) = nat (channels c)" using assms(1) by (simp add: replay_ok_def)
  obtain t1 where t1: "count_background c (clk - last_clk tr) tr = ret t1" "same_but_stats tr t1" "tot t1 = tot tr"
      "\<forall>i\<in>{0..<channels c}. \<forall>j\<in>{0..<ranks c}. rank_cycles t1 i j = rank_cycles tr i j + of_int (to_int32 (uint (clk - last_clk tr)))"
    using count_background_total [OF len] by blast
  have g: "of_int (to_int32 (uint (clk - last_clk tr))) = clk - last_clk tr"
    using assms(3) by (simp add: to_int32_id)
  have len1: "length (channel_stats t1) = nat (channels c)" using t1(2) len by (simp add: same_but_stats_def)
  obtain t2 where t2: "count_command cmd t1 = ret t2" "same_but_stats t1 t2" "rank_cycles t2 = rank_cycles t1"
      "\<forall>i n. 0 \<le> i \<longrightarrow> tot t2 i n = tot t1 i n + (if c_Channel cmd = i \<and> command_stat (cmd_type cmd) = n then 1 else 0)"
    using count_command_total [of cmd t1] assms(2) len1 by (auto simp: replayable_def cmd_bank_ok_def)
  have s: "same_but_stats tr t2" by (rule same_but_stats_trans [OF t1(2) t2(2)])
  then have t2': "t2 = tr\<lparr>channel_stats := channel_stats t2\<rparr>" "length (channel_stats t2) = nat (channels c)"
    using len by (simp_all add: same_but_stats_def)
  have ok2: "replay_ok c tc t2" using assms(1) same_but_stats_ok [OF s] by simp
  obtain m where m: "update_bank cmd t2 = ret (t2\<lparr>bank_active := m\<rparr>)" "banks_shape c m"
    using update_bank_total [OF ok2 assms(2)] by blast
  let ?t3 = "t2\<lparr>bank_active := m\<rparr>"
  have bg: "bg_ok c (thermal_calc ?t3)" using ok2 by (simp add: replay_ok_def)
  obtain t4 where t4: "(if clk mod of_int (epoch_period c) \<noteq> 0 then for_run (replay_epoch N ec nm c) [0..channels c - 1] ?t3 else ret ?t3) = ret t4"
      "reported c ?t3 t4"
    using replay_epochs_total [of ?t3 c N ec nm] t2'(2) bg reported_refl [OF bg]
    by (cases "clk mod of_int (epoch_period c) \<noteq> 0") auto
  from t4(2) obtain st b fs where r: "t4 = ?t3\<lparr>channel_stats := st, thermal_calc := (thermal_calc ?t3)\<lparr>background_energy := b\<rparr>, replay_output := fs\<rparr>"
      "length st = length (channel_stats ?t3)" "bg_ok c (thermal_calc t4)" "tot t4 = tot ?t3" "rank_cycles t4 = rank_cycles ?t3"
    by (auto simp: reported_def)
  have f: "thermal_calc t2 = thermal_calc tr" "timed_commands t2 = timed_commands tr" by (subst t2'(1); simp)+
  have same: "tot ?t3 = tot t2" "rank_cycles ?t3 = rank_cycles t2" "tot (t4\<lparr>last_clk := clk\<rparr>) = tot t4" "rank_cycles (t4\<lparr>last_clk := clk\<rparr>) = rank_cycles t4"
    by (simp_all add: fun_eq_iff tot_def rank_cycles_def)
  have "ProcessCMD N ec nm c cmd clk tr = ret (t4\<lparr>last_clk := clk\<rparr>)"
    using t1(1) t2(1) m(1) t4(1) assms(4) by (simp add: ProcessCMD_def Let_def)
  moreover have "replay_ok c tc (t4\<lparr>last_clk := clk\<rparr>)"
    using ok2 r(1-3) m(2) by (auto simp: replay_ok_def)
  moreover have "\<forall>i\<in>{0..<channels c}. \<forall>j\<in>{0..<ranks c}. rank_cycles t4 i j = rank_cycles tr i j + (clk - last_clk tr)"
    using t1(4) t2(3) r(5) same(2) g by simp
  ultimately show ?thesis using t1(3) t2(4) r f same by (intro exI [of _ "t4\<lparr>last_clk := clk\<rparr>"] exI [of _ b]) simp
qed

section \<open>A whole replay\<close>

lemma frame_fields:
  assumes "frame th = frame th0"
  shows "numP th = numP th0" "dimX th = dimX th0" "dimY th = dimY th0" "th_Midx th = th_Midx th0" "avg_logic_power th = avg_logic_power th0"
    "num_case th = num_case th0"
  using arg_cong [OF assms, of numP] arg_cong [OF assms, of dimX] arg_cong [OF assms, of dimY] arg_cong [OF assms, of th_Midx]
    arg_cong [OF assms, of avg_logic_power] arg_cong [OF assms, of num_case]
  by (simp_all add: frame_def core_def)

text \<open>The effect of the commands \<open>ps\<close> on a replay that started in \<open>tr0\<close>.\<close>

definition replayed :: "Config \<Rightarrow> 'd ThermalConfig \<Rightarrow> ('d::linordered_field) EnergyConfig \<Rightarrow> 'd ThermalReplay \<Rightarrow> Command list \<Rightarrow> 'd ThermalReplay \<Rightarrow> bool" where
  "replayed c tc ec tr0 ps tr \<longleftrightarrow> replay_ok c tc tr \<and> timed_commands tr = timed_commands tr0 \<and>
     frame (thermal_calc tr) = frame (thermal_calc tr0) \<and>
     (\<forall>i n. 0 \<le> i \<longrightarrow> tot tr i n = tot tr0 i n + of_nat (length (filter (\<lambda>cmd. c_Channel cmd = i \<and> command_stat (cmd_type cmd) = n) ps))) \<and>
     (\<forall>i\<in>{0..<channels c}. \<forall>j\<in>{0..<ranks c}. rank_cycles tr i j = rank_cycles tr0 i j + (last_clk tr - last_clk tr0)) \<and>
     accu_total 0 (thermal_calc tr) = accu_total 0 (thermal_calc tr0) + (\<Sum>cmd\<leftarrow>ps. spent c ec cmd)"

lemma replayed_refl: "replay_ok c tc tr \<Longrightarrow> replayed c tc ec tr [] tr"
  by (simp add: replayed_def)

lemma replay_command_total:
  fixes N :: "('d::linordered_field) thermal_lib"
  assumes "exact_num N" "replayed c tc ec tr0 ps tr" "replayable c cmd" "uint (clk + t - last_clk tr) < 2 ^ 31"
    "(of_int (epoch_period c) :: 64 word) \<noteq> 0" "IsHBM c \<or> IsHMC c"
  shows "\<exists>tr'. replay_command N tc ec nm c clk (t, cmd) tr = ret tr' \<and> replayed c tc ec tr0 (ps @ [cmd]) tr' \<and> last_clk tr' = clk + t"
proof -
  have ok: "replay_ok c tc tr" using assms(2) by (simp add: replayed_def)
  obtain t1 b where t1: "ProcessCMD N ec nm c cmd (clk + t) tr = ret t1" "replay_ok c tc t1" "timed_commands t1 = timed_commands tr"
      "last_clk t1 = clk + t" "thermal_calc t1 = (thermal_calc tr)\<lparr>background_energy := b\<rparr>"
      "\<forall>i n. 0 \<le> i \<longrightarrow> tot t1 i n = tot tr i n + (if c_Channel cmd = i \<and> command_stat (cmd_type cmd) = n then 1 else 0)"
      "\<forall>i\<in>{0..<channels c}. \<forall>j\<in>{0..<ranks c}. rank_cycles t1 i j = rank_cycles tr i j + (clk + t - last_clk tr)"
    using ProcessCMD_total [OF ok assms(3-5)] by blast
  have th1: "thermal_ok c tc (thermal_calc t1)" "bg_ok c (thermal_calc t1)" using t1(2) by (simp_all add: replay_ok_def)
  have cmd: "cmd_bank_ok c 0 cmd" "location_ok c cmd" "case_of c 0 cmd = 0"
    using assms(3,6) by (auto simp: replayable_def cmd_bank_ok_def case_of_def)
  obtain th where th: "UpdateCMDPower N c tc ec 0 cmd (thermal_calc t1) = ret th" "thermal_ok c tc th" "core th = core (thermal_calc t1)"
      "\<forall>k\<in>{0..<num_case (thermal_calc t1)}. accu_total k th = accu_total k (thermal_calc t1) + (if case_of c 0 cmd = k then spent c ec cmd else 0)"
    using command_energy_step [OF assms(1) th1(1) cmd(1,2), of ec] by blast
  have "num_case (thermal_calc t1) = 1" using th1(1) assms(6) by (auto simp: thermal_ok_def)
  then have e: "accu_total 0 th = accu_total 0 (thermal_calc tr) + spent c ec cmd" using bspec [OF th(4), of 0] cmd(3) t1(5) by simp
  have "background_energy th = background_energy (thermal_calc t1)" using arg_cong [OF th(3), of background_energy] by (simp add: core_def)
  then have "bg_ok c th" using th1(2) by (simp add: bg_ok_def)
  let ?tr = "t1\<lparr>thermal_calc := th\<rparr>"
  have same: "tot ?tr = tot t1" "rank_cycles ?tr = rank_cycles t1" by (simp_all add: fun_eq_iff tot_def rank_cycles_def)
  have "frame th = frame (thermal_calc tr)" unfolding frame_def th(3) t1(5) by (simp add: core_def)
  moreover have "replay_ok c tc ?tr" using t1(2) th(2) \<open>bg_ok c th\<close> by (simp add: replay_ok_def)
  ultimately have "replayed c tc ec tr0 (ps @ [cmd]) ?tr"
    using assms(2) t1(3,4,6,7) e unfolding replayed_def same by (auto simp: add.assoc)
  moreover have "replay_command N tc ec nm c clk (t, cmd) tr = ret ?tr" using t1(1) th(1) by (simp add: replay_command_def)
  ultimately show ?thesis using t1(4) by auto
qed

text \<open>The cycles between two commands fit an \<open>int\<close>.\<close>

fun gaps_ok :: "64 word \<Rightarrow> (64 word \<times> Command) list \<Rightarrow> bool" where
  "gaps_ok t0 [] = True"
| "gaps_ok t0 ((t, cmd) # xs) = (uint (t - t0) < 2 ^ 31 \<and> gaps_ok t xs)"

definition trace_end :: "64 word \<Rightarrow> (64 word \<times> Command) list \<Rightarrow> 64 word" where
  "trace_end t0 xs = (if xs = [] then t0 else fst (last xs))"

lemma replay_commands_total:
  fixes N :: "('d::linordered_field) thermal_lib"
  assumes "exact_num N" "(of_int (epoch_period c) :: 64 word) \<noteq> 0" "IsHBM c \<or> IsHMC c"
    and "replayed c tc ec tr0 ps tr" "last_clk tr = clk + t0" "gaps_ok t0 xs" "\<forall>x\<in>set xs. replayable c (snd x)"
  shows "\<exists>tr'. for_run (replay_command N tc ec nm c clk) xs tr = ret tr' \<and> replayed c tc ec tr0 (ps @ map snd xs) tr' \<and>
    last_clk tr' = clk + trace_end t0 xs"
  using assms(4-7)
proof (induction xs arbitrary: tr ps t0)
  case (Cons x xs)
  obtain t cmd where x: "x = (t, cmd)" by (rule prod.exhaust)
  have g: "uint (clk + t - last_clk tr) < 2 ^ 31" using Cons.prems(2,3) x by simp
  have rp: "replayable c cmd" using Cons.prems(4) x by simp
  obtain t1 where t1: "replay_command N tc ec nm c clk x tr = ret t1" "replayed c tc ec tr0 (ps @ [cmd]) t1" "last_clk t1 = clk + t"
    using replay_command_total [OF assms(1) Cons.prems(1) rp g assms(2,3)] x by blast
  obtain tr' where "for_run (replay_command N tc ec nm c clk) xs t1 = ret tr'" "replayed c tc ec tr0 ((ps @ [cmd]) @ map snd xs) tr'"
      "last_clk tr' = clk + trace_end t xs"
    using Cons.IH [OF t1(2,3)] Cons.prems(3,4) x by auto
  then show ?case using t1(1) x by (auto simp: trace_end_def)
qed (simp add: trace_end_def)

lemma idle_banks_shape: "banks_shape c (idle_banks c)"
  by (auto simp: banks_shape_def idle_banks_def)

lemma replay_pass_total:
  fixes N :: "('d::linordered_field) thermal_lib"
  assumes "exact_num N" "(of_int (epoch_period c) :: 64 word) \<noteq> 0" "IsHBM c \<or> IsHMC c"
    and "replayed c tc ec tr0 ps tr" "last_clk tr = clk" "timed_commands tr0 = xs" "gaps_ok 0 xs" "\<forall>x\<in>set xs. replayable c (snd x)"
  shows "\<exists>tr'. replay_pass N tc ec nm c (clk, tr) = ret (clk + trace_end 0 xs, tr') \<and> replayed c tc ec tr0 (ps @ map snd xs) tr' \<and>
    last_clk tr' = clk + trace_end 0 xs"
proof -
  have "last_clk tr = clk + 0" "timed_commands tr = xs" using assms(4-6) by (simp_all add: replayed_def)
  then obtain t1 where t1: "for_run (replay_command N tc ec nm c clk) (timed_commands tr) tr = ret t1"
      "replayed c tc ec tr0 (ps @ map snd xs) t1" "last_clk t1 = clk + trace_end 0 xs"
    using replay_commands_total [OF assms(1-4) _ assms(7,8)] by blast
  let ?tr = "t1\<lparr>bank_active := idle_banks c\<rparr>"
  have "tot ?tr = tot t1" "rank_cycles ?tr = rank_cycles t1" by (simp_all add: fun_eq_iff tot_def rank_cycles_def)
  then have "replayed c tc ec tr0 (ps @ map snd xs) ?tr"
    using t1(2) idle_banks_shape [of c] by (simp add: replayed_def replay_ok_def)
  moreover have "replay_pass N tc ec nm c (clk, tr) = ret (clk + trace_end 0 xs, ?tr)"
    using t1(1) \<open>timed_commands tr = xs\<close> by (simp add: replay_pass_def trace_end_def Let_def)
  ultimately show ?thesis using t1(3) by (intro exI [of _ ?tr]) simp
qed

lemma replay_passes_total:
  fixes N :: "('d::linordered_field) thermal_lib"
  assumes "exact_num N" "(of_int (epoch_period c) :: 64 word) \<noteq> 0" "IsHBM c \<or> IsHMC c"
    and "replay_ok c tc tr0" "last_clk tr0 = 0" "timed_commands tr0 = xs" "gaps_ok 0 xs" "\<forall>x\<in>set xs. replayable c (snd x)"
  shows "\<exists>tr. for_run (\<lambda>i. replay_pass N tc ec nm c) [0..<n] (0, tr0) = ret (of_nat n * trace_end 0 xs, tr) \<and>
    replayed c tc ec tr0 (concat (replicate n (map snd xs))) tr \<and> last_clk tr = of_nat n * trace_end 0 xs"
proof (induction n)
  case 0
  then show ?case using replayed_refl [OF assms(4)] assms(5) by simp
next
  case (Suc n)
  then obtain tr where tr: "for_run (\<lambda>i. replay_pass N tc ec nm c) [0..<n] (0, tr0) = ret (of_nat n * trace_end 0 xs, tr)"
    "replayed c tc ec tr0 (concat (replicate n (map snd xs))) tr" "last_clk tr = of_nat n * trace_end 0 xs" by blast
  obtain tr' where tr': "replay_pass N tc ec nm c (of_nat n * trace_end 0 xs, tr) = ret (of_nat n * trace_end 0 xs + trace_end 0 xs, tr')"
    "replayed c tc ec tr0 (concat (replicate n (map snd xs)) @ map snd xs) tr'" "last_clk tr' = of_nat n * trace_end 0 xs + trace_end 0 xs"
    using replay_pass_total [OF assms(1-3) tr(2,3) assms(6-8)] by blast
  have "concat (replicate (Suc n) (map snd xs)) = concat (replicate n (map snd xs)) @ map snd xs"
    by (simp flip: replicate_append_same)
  then show ?case using tr(1) tr' by (auto simp: for_run_append algebra_simps)
qed

text \<open>The final report of the statistics.\<close>

definition closed_stats :: "'d ThermalReplay \<Rightarrow> int set \<Rightarrow> 'd ThermalReplay \<Rightarrow> bool" where
  "closed_stats tr A tr' \<longleftrightarrow> (\<exists>st fs. tr' = tr\<lparr>channel_stats := st, replay_output := fs\<rparr> \<and> length st = length (channel_stats tr) \<and>
     (\<forall>i. 0 \<le> i \<longrightarrow> i \<notin> A \<longrightarrow> st ! nat i = channel_stats tr ! nat i) \<and>
     (\<forall>i\<in>A. (\<forall>n. counters (fst (st ! nat i)) n = tot tr i n) \<and>
       (\<forall>j. vec_counters (fst (st ! nat i)) ''rank_active_cycles'' j + vec_counters (fst (st ! nat i)) ''all_bank_idle_cycles'' j = rank_cycles tr i j)))"

lemma replay_finals_total:
  assumes "distinct xs" "\<forall>i\<in>set xs. 0 \<le> i \<and> i < int (length (channel_stats tr))" "closed_stats tr A tr1" "\<forall>i\<in>A. 0 \<le> i" "set xs \<inter> A = {}"
  shows "\<exists>tr'. for_run (replay_final N ec nm c) xs tr1 = ret tr' \<and> closed_stats tr (A \<union> set xs) tr'"
  using assms
proof (induction xs arbitrary: A tr1)
  case (Cons i xs)
  obtain st fs where s: "tr1 = tr\<lparr>channel_stats := st, replay_output := fs\<rparr>" "length st = length (channel_stats tr)"
      "\<forall>i. 0 \<le> i \<longrightarrow> i \<notin> A \<longrightarrow> st ! nat i = channel_stats tr ! nat i"
      "\<forall>i\<in>A. (\<forall>n. counters (fst (st ! nat i)) n = tot tr i n) \<and>
       (\<forall>j. vec_counters (fst (st ! nat i)) ''rank_active_cycles'' j + vec_counters (fst (st ! nat i)) ''all_bank_idle_cycles'' j = rank_cycles tr i j)"
    using Cons.prems(3) by (auto simp: closed_stats_def)
  have i: "0 \<le> i" "i < int (length st)" "i \<notin> A" "nat i < length st" using Cons.prems(2,5) s(2) by auto
  obtain st' rp fs' where p: "rp_PrintFinalStats (tl_report N) ec nm c i (st ! nat i) fs = ((st', rp), fs')"
    by (metis prod_cases3 prod.exhaust)
  let ?t = "tr\<lparr>channel_stats := st[nat i := (st', rp)], replay_output := fs'\<rparr>"
  have step: "replay_final N ec nm c i tr1 = ret ?t" using p i(1,2) by (simp add: replay_final_def s(1))
  have at: "st ! nat i = channel_stats tr ! nat i" using s(3) i by blast
  have "closed_stats tr (insert i A) ?t"
    unfolding closed_stats_def
  proof (intro exI conjI ballI allI impI)
    fix k assume k: "k \<in> insert i A"
    then have k0: "0 \<le> k" using i(1) Cons.prems(4) by auto
    show "counters (fst (st[nat i := (st', rp)] ! nat k)) n = tot tr k n" for n
      using s(4) k k0 i final_report_counts(1) [OF p] by (auto simp: nth_list_update tot_def Let_def at)
    show "vec_counters (fst (st[nat i := (st', rp)] ! nat k)) ''rank_active_cycles'' j +
        vec_counters (fst (st[nat i := (st', rp)] ! nat k)) ''all_bank_idle_cycles'' j = rank_cycles tr k j" for j
      using s(4) k k0 i final_report_counts(2) [OF p] by (auto simp: nth_list_update rank_cycles_def Let_def at)
  qed (use s i in \<open>auto simp: nth_list_update\<close>)
  from Cons.IH [OF _ _ this] Cons.prems i(1) obtain tr' where
    "for_run (replay_final N ec nm c) xs ?t = ret tr'" "closed_stats tr (insert i A \<union> set xs) tr'" by auto
  then show ?case using step by auto
qed auto

lemma sum_repeated: "(\<Sum>x\<leftarrow>concat (replicate n ys). f x) = of_nat n * (\<Sum>x\<leftarrow>ys. f x :: 'd::linordered_field)"
  by (induction n) (simp_all add: algebra_simps)

lemma length_repeated: "length (filter P (concat (replicate n ys))) = n * length (filter P ys)"
  by (induction n) simp_all

lemma replay_run_total:
  fixes N :: "('d::linordered_field) thermal_lib"
  assumes "exact_num N" "(of_int (epoch_period c) :: 64 word) \<noteq> 0" "IsHBM c \<or> IsHMC c" "0 < channels c"
    and "replay_ok c tc tr0" "last_clk tr0 = 0" "timed_commands tr0 = xs" "gaps_ok 0 xs" "\<forall>x\<in>set xs. replayable c (snd x)"
    and "th_Midx (thermal_calc tr0) = midx_entries N (th_die tc (thermal_calc tr0))"
    and "\<And>i n. 0 \<le> i \<Longrightarrow> i < channels c \<Longrightarrow> tot tr0 i n = 0" "\<And>i j. 0 \<le> i \<Longrightarrow> i < channels c \<Longrightarrow> rank_cycles tr0 i j = 0"
  shows "\<exists>tr. replay_Run N pdgssv tc ec nm c repeats tr0 = ret tr \<and>
    (\<forall>i\<in>{0..<channels c}. let st = fst (channel_stats tr ! nat i) in
      (\<forall>j\<in>{0..<ranks c}. vec_counters st ''rank_active_cycles'' j + vec_counters st ''all_bank_idle_cycles'' j = repeats * trace_end 0 xs) \<and>
      (\<forall>n. counters st n = repeats * of_nat (length (filter (\<lambda>(t, cmd). c_Channel cmd = i \<and> command_stat (cmd_type cmd) = n) xs)))) \<and>
    accu_total 0 (thermal_calc tr) = accu_total 0 (thermal_calc tr0) + of_nat (unat repeats) * (\<Sum>(t, cmd)\<leftarrow>xs. spent c ec cmd) +
      sum_list (concat (background_energy (thermal_calc tr))) / 1000 + avg_logic_power (thermal_calc tr0) * of_int (uint (repeats * trace_end 0 xs))"
proof -
  obtain t1 where t1: "for_run (\<lambda>i. replay_pass N tc ec nm c) [0..<unat repeats] (0, tr0) = ret (repeats * trace_end 0 xs, t1)"
      "replayed c tc ec tr0 (concat (replicate (unat repeats) (map snd xs))) t1" "last_clk t1 = repeats * trace_end 0 xs"
    using replay_passes_total [OF assms(1-3,5-9), of ec nm "unat repeats"] by auto
  have ok: "replay_ok c tc t1" and fr: "frame (thermal_calc t1) = frame (thermal_calc tr0)" using t1(2) by (simp_all add: replayed_def)
  have len: "length (channel_stats t1) = nat (channels c)" and th: "thermal_ok c tc (thermal_calc t1)" using ok by (simp_all add: replay_ok_def)
  have "closed_stats t1 {} t1" unfolding closed_stats_def by (intro exI [of _ "channel_stats t1"] exI [of _ "replay_output t1"]) simp
  then obtain t2 where t2: "for_run (replay_final N ec nm c) [0..channels c - 1] t1 = ret t2" "closed_stats t1 {0..<channels c} t2"
    using replay_finals_total [of "[0..channels c - 1]" t1 "{}" t1 N ec nm c] len by (auto simp: atLeastLessThanPlusOne_atLeastAtMost_int [symmetric])
  then have tc2: "thermal_calc t2 = thermal_calc t1" by (auto simp: closed_stats_def)
  have mx: "th_Midx (thermal_calc t1) = midx_entries N (th_die tc (thermal_calc t1))"
    using frame_fields [OF fr] assms(10) by (simp add: th_die_def)
  obtain th' where th': "PrintFinalPT N pdgssv c tc (repeats * trace_end 0 xs) (thermal_calc t1) = ret th'"
      "background_energy th' = background_energy (thermal_calc t1)"
      "accu_total 0 th' = accu_total 0 (thermal_calc t1) + sum_list (concat (background_energy (thermal_calc t1))) / 1000 +
         avg_logic_power (thermal_calc t1) * of_int (uint (repeats * trace_end 0 xs))"
    using final_report [OF assms(1) th assms(3,4) mx] by blast
  have run: "replay_Run N pdgssv tc ec nm c repeats tr0 = ret (t2\<lparr>thermal_calc := th'\<rparr>)"
    using t1(1) t2(1) th'(1) tc2 by (simp add: replay_Run_def)
  have rc: "rank_cycles t1 i j = repeats * trace_end 0 xs" if "0 \<le> i" "i < channels c" "0 \<le> j" "j < ranks c" for i j
    using t1(2,3) that assms(6,12) by (simp add: replayed_def)
  have ct: "tot t1 i n = repeats * of_nat (length (filter (\<lambda>(t, cmd). c_Channel cmd = i \<and> command_stat (cmd_type cmd) = n) xs))"
    if "0 \<le> i" "i < channels c" for i n
    using t1(2) that assms(11) by (simp add: replayed_def length_repeated filter_map comp_def case_prod_unfold)
  have en: "accu_total 0 (thermal_calc t1) = accu_total 0 (thermal_calc tr0) + of_nat (unat repeats) * (\<Sum>(t, cmd)\<leftarrow>xs. spent c ec cmd)"
    using t1(2) by (simp add: replayed_def sum_repeated comp_def case_prod_unfold)
  have "\<forall>i\<in>{0..<channels c}. let st = fst (channel_stats t2 ! nat i) in
      (\<forall>j\<in>{0..<ranks c}. vec_counters st ''rank_active_cycles'' j + vec_counters st ''all_bank_idle_cycles'' j = repeats * trace_end 0 xs) \<and>
      (\<forall>n. counters st n = repeats * of_nat (length (filter (\<lambda>(t, cmd). c_Channel cmd = i \<and> command_stat (cmd_type cmd) = n) xs)))"
    using t2(2) rc ct by (auto simp: closed_stats_def Let_def)
  then show ?thesis
    using run th'(2,3) en frame_fields(5) [OF fr] by (intro exI [of _ "t2\<lparr>thermal_calc := th'\<rparr>"]) simp
qed

section \<open>The constructor of a replay\<close>

lemma new_calculator_fields:
  assumes "new_ThermalCalculator N c tc ec th0 = ret th"
  shows "background_energy th = replicate (nat (channels c)) (replicate (nat (ranks c)) (num N 0))" "avg_logic_power th = num N 0"
  using assms
  by (auto simp: new_ThermalCalculator_def run_bind_ret InitialParameters_def calculate_time_step_def open_files_def empty_maps_def Let_def)

lemma new_replay:
  fixes N :: "('d::archimedean_field) thermal_lib"
  assumes "exact_num N" "thermal_config_ok N c tc" "IsHBM c \<or> IsHMC c" "map_run ParseLine ls = ret xs"
  shows "\<exists>tr. new_ThermalReplay N c tc ec th0 fs (Some ls) = ret tr \<and> replay_ok c tc tr \<and> last_clk tr = 0 \<and> timed_commands tr = xs \<and>
    th_Midx (thermal_calc tr) = midx_entries N (th_die tc (thermal_calc tr)) \<and> accu_total 0 (thermal_calc tr) = 0 \<and>
    avg_logic_power (thermal_calc tr) = 0 \<and>
    (\<forall>i n. 0 \<le> i \<longrightarrow> i < channels c \<longrightarrow> tot tr i n = 0) \<and> (\<forall>i j. 0 \<le> i \<longrightarrow> i < channels c \<longrightarrow> rank_cycles tr i j = 0)"
proof -
  obtain th where th: "new_ThermalCalculator N c tc ec th0 = ret th" "thermal_ok c tc th" "solver_ready N c tc ec th" "cold th"
    using thermal_constructed [OF assms(1,2)] by blast
  have n: "num_case th = 1" using th(2) assms(3) by (auto simp: thermal_ok_def)
  have z: "num N 0 = 0" using assms(1) by (simp add: exact_num_def)
  note f = new_calculator_fields [OF th(1), unfolded z]
  let ?tr = "\<lparr>timed_commands = xs, thermal_calc = th, last_clk = 0,
      channel_stats = replicate (nat (channels c)) (new_SimpleStats, new_Report (tl_report N) c), bank_active = idle_banks c, replay_output = fs\<rparr>"
  have "new_ThermalReplay N c tc ec th0 fs (Some ls) = ret ?tr" using th(1) assms(4) by (simp add: new_ThermalReplay_def)
  moreover have "replay_ok c tc ?tr" using th(2) f(1) idle_banks_shape [of c] by (auto simp: replay_ok_def bg_ok_def)
  moreover have "th_Midx th = midx_entries N (th_die tc th)" using th(3) by (simp add: solver_ready_def Let_def)
  moreover have "accu_total 0 th = 0" using cold_total(1) [OF th(2,4), of 0] n by simp
  moreover have "tot ?tr i k = 0" "rank_cycles ?tr i j = 0" if "0 \<le> i" "i < channels c" for i j k
    using that by (simp_all add: tot_def rank_cycles_def new_SimpleStats_def InitHistoStat_def Let_def)
  ultimately show ?thesis using f(2) by (intro exI [of _ ?tr]) simp
qed

end
