(* ===== verification/Thermal_Properties.thy ===== *)
theory Thermal_Properties
  imports Thermal_Replay_Inv DS_Setup
begin

text \<open>
  The properties of the thermal model, with instances on the program's HBM memory. They are
  about exact numbers (\<open>exact_num\<close>); the instances use the rational numbers.
\<close>

section \<open>The memory of the program\<close>

text \<open>Rational numbers, and no number in a text.\<close>

definition rat_lib :: "rat thermal_lib" where
  "rat_lib = \<lparr>tl_report = \<lparr>d_int = of_int, d_ratio = (\<lambda>n m. of_int n / of_int m), d_add = (+), d_sub = (-), d_mul = (*), d_div = (/),
       d_text = (\<lambda>x. to_string \<lfloor>x\<rfloor>), strtod = (\<lambda>s. None), iter = (\<lambda>xs. xs), j_dump = (\<lambda>js. [])\<rparr>,
     d_trunc = (\<lambda>x. if x < 0 then \<lceil>x\<rceil> else \<lfloor>x\<rfloor>), d_ceil = (\<lambda>x. of_int \<lceil>x\<rceil>), d_sqrt = (\<lambda>x. x)\<rparr>"

definition rat_power :: "rat EnergyConfig" where
  "rat_power = \<lparr>tCK = 1, act_energy_inc = 504, read_energy_inc = 804, write_energy_inc = 1068, ref_energy_inc = 60840,
     refb_energy_inc = 700, act_stb_energy_inc = 66, pre_stb_energy_inc = 48, pre_pd_energy_inc = 34, sref_energy_inc = 37\<rparr>"

lemma exact_rat_lib: "exact_num rat_lib"
proof -
  have "\<lfloor>rat_of_int n + 1 / 100\<rfloor> = n" for n by (simp add: floor_unique)
  moreover have "\<not> rat_of_int n + 1 / 100 < 0" if "0 \<le> n" for n
  proof -
    have "0 \<le> rat_of_int n" using that by simp
    then show ?thesis by linarith
  qed
  ultimately show ?thesis by (simp add: exact_num_def rat_lib_def)
qed

definition hbm_thermal :: "Config \<Rightarrow> rat ThermalConfig \<Rightarrow> bool" where
  "hbm_thermal c tc \<longleftrightarrow> hbm_facts c \<and> banks c = 16 \<and> device_width c = 128 \<and> num_dies c = 4 \<and> devices_per_rank c = 1 \<and>
     const_logic_power tc = 5 \<and> mat_dim_x tc = 512 \<and> mat_dim_y tc = 512 \<and> num_x_grids tc = 32 \<and> num_y_grids tc = 32 \<and>
     tile_row_num tc = 16384 \<and> row_tile tc = 1 \<and> loc_mapping tc = [] \<and> bank_order tc = 1 \<and> bank_layer_order tc = 0 \<and>
     num_row_refresh tc = 1 \<and> chip_dim_x tc = 1 / 100 \<and> chip_dim_y tc = 1 / 100 \<and> amb_temp tc = 40"

lemma hbm_device:
  assumes "new_Config HBM2_4Gb_x128 c0 = ret c"
  shows "banks c = 16" "device_width c = 128" "num_dies c = 4" "devices_per_rank c = 1"
proof -
  have "\<exists>c. new_Config HBM2_4Gb_x128 c0 = ret c \<and> banks c = 16 \<and> device_width c = 128 \<and> num_dies c = 4 \<and> devices_per_rank c = 1"
    unfolding new_Config_def hbm_system hbm_dram run_bind_simps
    by (simp add: CalculateSize_def cdiv_def SetAddressMapping_def field_widths_def field_at_def Let_def InitTimingParams_def
        InitOtherParams_def cfg_GetInteger_def HBM2_4Gb_x128_def ini_option_def log_sizes)
  then show "banks c = 16" "device_width c = 128" "num_dies c = 4" "devices_per_rank c = 1" using assms by auto
qed

lemma hbm_thermal_params:
  assumes "new_Config HBM2_4Gb_x128 c0 = ret c" "hbm_facts c"
  shows "\<exists>tc. InitThermalParams rat_lib HBM2_4Gb_x128 c rat_power tc0 = ret tc \<and> hbm_thermal c tc"
proof -
  note d = hbm_device [OF assms(1)]
  have "\<lceil>(16384 * 3900 / 64000000 :: rat)\<rceil> = 1" by (rule ceiling_unique) auto
  then show ?thesis using assms(2) d
    by (auto simp: InitThermalParams_def hbm_thermal_def hbm_facts_def Let_def cdiv_def cfg_GetInteger_def GetReal_def rat_lib_def
        rat_power_def HBM2_4Gb_x128_def ini_option_def)
qed

lemma hbm_thermal_ok: "hbm_thermal c tc \<Longrightarrow> thermal_config_ok rat_lib c tc"
  by (auto simp: hbm_thermal_def hbm_facts_def thermal_config_ok_def plan_fits_def grids_ok_def IsHMC_def IsHBM_def
      SetPhyAddressMapping_def mapping_ok_def)

lemma hbm_calculator:
  "\<exists>c tc th. new_Config HBM2_4Gb_x128 undefined = ret c \<and> InitThermalParams rat_lib HBM2_4Gb_x128 c rat_power undefined = ret tc \<and>
     hbm_thermal c tc \<and> new_ThermalCalculator rat_lib c tc rat_power undefined = ret th \<and> thermal_ok c tc th \<and>
     solver_ready rat_lib c tc rat_power th \<and> cold th \<and> Tamb th = 31315 / 100 \<and>
     T_trans th = [initialize_Temperature (th_die tc th) (Tamb th)] \<and> num_case th = 1"
proof -
  obtain c where c: "new_Config HBM2_4Gb_x128 undefined = ret c" "hbm_facts c" using hbm_config by blast
  obtain tc where tc: "InitThermalParams rat_lib HBM2_4Gb_x128 c rat_power undefined = ret tc" "hbm_thermal c tc"
    using hbm_thermal_params [OF c] by blast
  obtain th where th: "new_ThermalCalculator rat_lib c tc rat_power undefined = ret th" "thermal_ok c tc th"
      "solver_ready rat_lib c tc rat_power th" "cold th" "Tamb th = amb_temp tc + T0 rat_lib"
      "T_trans th = replicate (nat (num_case th)) (initialize_Temperature (th_die tc th) (amb_temp tc + T0 rat_lib))"
    using thermal_constructed [OF exact_rat_lib hbm_thermal_ok [OF tc(2)], of rat_power undefined] by blast
  have "amb_temp tc + T0 rat_lib = 31315 / 100" using tc(2) by (simp add: hbm_thermal_def T0_def rat_lib_def)
  moreover have "num_case th = 1" using th(2) tc(2) by (simp add: thermal_ok_def hbm_thermal_def hbm_facts_def IsHBM_def)
  ultimately show ?thesis using c(1) tc th by auto
qed

section \<open>The properties\<close>

text \<open>
  C35. With exact numbers and a configuration whose banks have room on the floorplan, the
  constructor of the thermal calculator returns: every command has its cell on the floorplan
  (\<open>thermal_ok\<close>), the solver has its matrix and capacitances and divides an epoch into stable
  time steps (\<open>solver_ready\<close>), the energy maps are empty and every node has the temperature of
  the surroundings.
\<close>

theorem thermal_calculator_starts:
  fixes N :: "('d::archimedean_field) thermal_lib"
  assumes "exact_num N" "thermal_config_ok N c tc"
  shows "\<exists>th. new_ThermalCalculator N c tc ec th0 = ret th \<and> thermal_ok c tc th \<and> solver_ready N c tc ec th \<and> cold th \<and>
    T_trans th = replicate (nat (num_case th)) (initialize_Temperature (th_die tc th) (amb_temp tc + T0 N))"
  using thermal_constructed [OF assms] by blast

theorem thermal_calculator_starts_witness:
  "\<exists>c tc th. new_Config HBM2_4Gb_x128 undefined = ret c \<and> InitThermalParams rat_lib HBM2_4Gb_x128 c rat_power undefined = ret tc \<and>
     new_ThermalCalculator rat_lib c tc rat_power undefined = ret th \<and> thermal_ok c tc th \<and>
     solver_ready rat_lib c tc rat_power th \<and> cold th"
proof -
  obtain c where c: "new_Config HBM2_4Gb_x128 undefined = ret c" "hbm_facts c" using hbm_config by blast
  obtain tc where tc: "InitThermalParams rat_lib HBM2_4Gb_x128 c rat_power undefined = ret tc" "hbm_thermal c tc"
    using hbm_thermal_params [OF c] by blast
  show ?thesis using thermal_calculator_starts [OF exact_rat_lib hbm_thermal_ok [OF tc(2)], of rat_power undefined] c(1) tc(1) by blast
qed

text \<open>
  C20. No energy is lost on the floorplan: after any sequence of commands both energy maps of
  a case (a rank, or the whole of a stacked memory) hold what the configuration gives to the
  commands of that case, in the unit of the maps and per device, and the calculator keeps its
  invariant.
\<close>

theorem command_energy_mapped:
  fixes N :: "('d::linordered_field) thermal_lib"
  assumes "exact_num N" "\<forall>(ch, cmd)\<in>set xs. cmd_bank_ok c ch cmd \<and> location_ok c cmd" "thermal_ok c tc th"
  shows "\<exists>th'. for_run (\<lambda>(ch, cmd). UpdateCMDPower N c tc ec ch cmd) xs th = ret th' \<and> thermal_ok c tc th' \<and> core th' = core th \<and>
    (\<forall>k\<in>{0..<num_case th}. accu_total k th' = accu_total k th + case_energy c ec k xs \<and>
       cur_total k th' = cur_total k th + case_energy c ec k xs)"
  by (rule commands_energy [OF assms])

definition sample_commands :: "(int \<times> Command) list" where
  "sample_commands = [(3, mk_Command ACTIVATE (mk_Address 3 0 2 1 100 8) 0), (3, mk_Command READ (mk_Address 3 0 2 1 100 8) 0),
     (5, mk_Command REFRESH (mk_Address (- 1) 0 (- 1) (- 1) (- 1) (- 1)) 0), (3, mk_Command PRECHARGE (mk_Address (- 1) 0 2 1 (- 1) (- 1)) 0)]"

theorem command_energy_mapped_witness:
  "\<exists>c tc th th'. new_Config HBM2_4Gb_x128 undefined = ret c \<and> InitThermalParams rat_lib HBM2_4Gb_x128 c rat_power undefined = ret tc \<and>
     new_ThermalCalculator rat_lib c tc rat_power undefined = ret th \<and>
     for_run (\<lambda>(ch, cmd). UpdateCMDPower rat_lib c tc rat_power ch cmd) sample_commands th = ret th' \<and>
     accu_total 0 th' = 62148 / 1000"
proof -
  obtain c tc th where h: "new_Config HBM2_4Gb_x128 undefined = ret c" "InitThermalParams rat_lib HBM2_4Gb_x128 c rat_power undefined = ret tc"
      "hbm_thermal c tc" "new_ThermalCalculator rat_lib c tc rat_power undefined = ret th" "thermal_ok c tc th" "cold th" "num_case th = 1"
    using hbm_calculator by blast
  have s: "\<forall>(ch, cmd)\<in>set sample_commands. cmd_bank_ok c ch cmd \<and> location_ok c cmd"
    using h(3) by (auto simp: sample_commands_def cmd_bank_ok_def location_ok_def hbm_thermal_def hbm_facts_def mk_Command_def mk_Address_def
        placed_def)
  obtain th' where t: "for_run (\<lambda>(ch, cmd). UpdateCMDPower rat_lib c tc rat_power ch cmd) sample_commands th = ret th'"
      "\<forall>k\<in>{0..<num_case th}. accu_total k th' = accu_total k th + case_energy c rat_power k sample_commands"
    using command_energy_mapped [OF exact_rat_lib s h(5), of rat_power] by blast
  have "case_energy c rat_power 0 sample_commands = 62148 / 1000"
    using h(3) by (simp add: case_energy_def sample_commands_def case_of_def spent_def device_share_def command_energy_def rat_power_def
        hbm_thermal_def hbm_facts_def IsHBM_def mk_Command_def)
  moreover have "accu_total 0 th = 0" by (rule cold_total(1) [OF h(5,6)]) (simp_all add: h(7))
  ultimately have "accu_total 0 th' = 62148 / 1000" using bspec [OF t(2), of 0] h(7) by simp
  then show ?thesis using h(1,2,4) t(1) by blast
qed

text \<open>
  C21. The conductance matrix is assembled right: the counted number of entries is exactly what
  is written, the entries are sorted by row and column without repetition, the matrix is
  symmetric, and a row sums to the conductance from the heat sink to the surroundings in the
  plane of the sink and to zero in the layers above.
\<close>

theorem conductance_matrix_assembled:
  fixes N :: "('d::linordered_field) thermal_lib"
  assumes "exact_num N" "die_ok d"
  shows "\<exists>es. calculate_Midx_array N d = ret es \<and> int (length es) = midx_count d \<and> sorted_wrt entry_less es \<and>
    (\<forall>r c g. (r, c, g) \<in> set es \<longrightarrow> (c, r, g) \<in> set es) \<and>
    (\<forall>n<nat (nodes d). (\<Sum>(r, c, g)\<leftarrow>filter (\<lambda>(r, c, g). r = of_int (int n)) es. g) = (if int n < plane d then 1 / Ramb N d else 0))"
proof (intro exI conjI)
  show "calculate_Midx_array N d = ret (midx_entries N d)" by (rule calculate_Midx_array_total [OF assms(2)])
  show "int (length (midx_entries N d)) = midx_count d" by (rule midx_entries_length [OF assms(2)])
  show "sorted_wrt entry_less (midx_entries N d)" by (rule midx_entries_sorted [OF assms])
  show "\<forall>r c g. (r, c, g) \<in> set (midx_entries N d) \<longrightarrow> (c, r, g) \<in> set (midx_entries N d)"
    using midx_symmetric by (fastforce simp: swap_entry_def)
  have e: "midx_entries N d = concat (midx_rows N d)" by (simp add: midx_entries_def midx_rows_def)
  show "\<forall>n<nat (nodes d). (\<Sum>(r, c, g)\<leftarrow>filter (\<lambda>(r, c, g). r = of_int (int n)) (midx_entries N d). g) =
      (if int n < plane d then 1 / Ramb N d else 0)"
    using filter_row [OF midx_rows_ok [OF assms]] length_midx_rows [OF assms(2)] midx_rows_sum [OF assms]
    unfolding e case_prod_unfold by simp
qed

definition sample_die :: "rat Die" where
  "sample_die = \<lparr>die_W = 1 / 100, die_L = 1 / 100, die_P = 2, die_X = 4, die_Z = 3\<rparr>"

definition sample_power :: "rat power" where
  "sample_power = replicate 4 (replicate 3 [1 / 2, 0])"

lemma sample_die_ok: "die_ok sample_die" by (simp add: die_ok_def sample_die_def)

theorem conductance_matrix_assembled_witness:
  "\<exists>es. calculate_Midx_array rat_lib sample_die = ret es \<and> length es = 466 \<and> sorted_wrt entry_less es"
proof -
  have "midx_count sample_die = 466" unfolding sample_die_def by code_simp
  then show ?thesis using conductance_matrix_assembled [OF exact_rat_lib sample_die_ok] by auto
qed

text \<open>
  C17. When SuperLU solves the system it is given, the final temperatures of a case satisfy the
  heat equation of every node, although the rows of the matrix were passed as its columns, and
  the heat that leaves through the sink is the average power of the case: its energy map over
  the simulated cycles.
\<close>

theorem final_temperatures_balance:
  fixes N :: "('d::linordered_field) thermal_lib"
  assumes "exact_num N" "thermal_ok c tc th" "solver_ready N c tc ec th" "0 \<le> k" "k < num_case th" "clk \<noteq> 0" "d = th_die tc th"
    and "\<forall>a asub xa rhs. steady_system N d (InitPowerM N c k clk th) (th_Midx th) (Tamb th) = ret (a, asub, xa, rhs) \<longrightarrow>
      solves_columns (nat (nodes d)) a asub xa rhs (pdgssv (nat (nodes d)) a asub xa rhs)"
  shows "\<exists>ts rhs. CalcFinalT N pdgssv c tc k clk th = ret (th\<lparr>T_final := (T_final th)[nat k := ts]\<rparr>) \<and>
    steady_rhs N d (InitPowerM N c k clk th) (Tamb th) = ret rhs \<and>
    (\<forall>r<nat (nodes d). flow N (map (\<lambda>t. t + T0 N) ts) (midx_rows N d ! r) = rhs ! r) \<and>
    (\<Sum>r<nat (plane d). (ts ! r + T0 N - Tamb th) / Ramb N d) = accu_total k th / of_int (uint clk)"
proof -
  have m: "th_Midx th = midx_entries N d" "die_ok d" using assms(3,7) by (simp_all add: solver_ready_def Let_def)
  let ?pm = "InitPowerM N c k clk th"
  obtain a asub xa rhs where s: "steady_system N d ?pm (midx_entries N d) (Tamb th) = ret (a, asub, xa, rhs)"
    using steady_system_total [OF assms(1) m(2)] by blast
  define x where "x = pdgssv (nat (nodes d)) a asub xa rhs"
  have "solves_columns (nat (nodes d)) a asub xa rhs x" using assms(8) s unfolding m(1) x_def by blast
  then have eqs: "\<forall>r<nat (nodes d). flow N x (midx_rows N d ! r) = rhs ! r" unfolding columns_are_rows [OF assms(1) m(2) s] by blast
  have rhs: "steady_rhs N d ?pm (Tamb th) = ret rhs"
    using s by (auto simp: steady_system_def checked_def run_bind_ret split: if_splits)
  obtain ts where ts: "CalcFinalT N pdgssv c tc k clk th = ret (th\<lparr>T_final := (T_final th)[nat k := ts]\<rparr>)"
      "steady_thermal_solver N pdgssv d ?pm (th_Midx th) (Tamb th) = ret ts"
      "(\<Sum>r<nat (plane d). (ts ! r + T0 N - Tamb th) / Ramb N d) = accu_total k th / of_int (uint clk)"
    using final_balance [OF assms(1-6), of pdgssv] assms(8) unfolding assms(7) by blast
  then have "map (\<lambda>t. t + T0 N) ts = x" by (auto simp: steady_thermal_solver_def m(1) s x_def comp_def)
  then show ?thesis using eqs rhs ts(1,3) by blast
qed

theorem final_temperatures_balance_witness:
  "\<exists>c tc th ts. new_Config HBM2_4Gb_x128 undefined = ret c \<and> InitThermalParams rat_lib HBM2_4Gb_x128 c rat_power undefined = ret tc \<and>
     new_ThermalCalculator rat_lib c tc rat_power undefined = ret th \<and>
     CalcFinalT rat_lib (\<lambda>n a asub xa rhs. replicate n (31315 / 100)) c tc 0 1000 th = ret (th\<lparr>T_final := (T_final th)[0 := ts]\<rparr>) \<and>
     (\<Sum>r<nat (plane (th_die tc th)). (ts ! r + T0 rat_lib - Tamb th) / Ramb rat_lib (th_die tc th)) = 0"
proof -
  obtain c tc th where h: "new_Config HBM2_4Gb_x128 undefined = ret c" "InitThermalParams rat_lib HBM2_4Gb_x128 c rat_power undefined = ret tc"
      "new_ThermalCalculator rat_lib c tc rat_power undefined = ret th" "thermal_ok c tc th" "solver_ready rat_lib c tc rat_power th"
      "cold th" "num_case th = 1" "Tamb th = 31315 / 100"
    using hbm_calculator by blast
  let ?d = "th_die tc th" and ?p = "\<lambda>n a asub xa rhs. replicate n (31315 / 100) :: rat list"
  have m: "th_Midx th = midx_entries rat_lib ?d" "die_ok ?d" using h(5) by (simp_all add: solver_ready_def Let_def)
  have z: "accu_total 0 th = 0" "\<forall>e\<in>set (accu_Pmap th ! nat 0). e = 0" using cold_total(1,3) [OF h(4,6), of 0] h(7) by simp_all
  have pm: "\<forall>(l, i, j)\<in>set (power_cells ?d). power_at (InitPowerM rat_lib c 0 1000 th) i j l = 0"
    by (rule cold_power [OF exact_rat_lib h(4,5)]) (use z h(7) in simp_all)
  have "\<forall>a asub xa rhs. steady_system rat_lib ?d (InitPowerM rat_lib c 0 1000 th) (th_Midx th) (Tamb th) = ret (a, asub, xa, rhs) \<longrightarrow>
      solves_columns (nat (nodes ?d)) a asub xa rhs (?p (nat (nodes ?d)) a asub xa rhs)"
    using ambient_solves [OF exact_rat_lib m(2) pm] unfolding m(1) h(8) by blast
  from final_temperatures_balance [where pdgssv = ?p and k = 0 and clk = 1000, OF exact_rat_lib h(4,5) _ _ _ refl this] h(7) z(1) obtain ts where
    "CalcFinalT rat_lib ?p c tc 0 1000 th = ret (th\<lparr>T_final := (T_final th)[0 := ts]\<rparr>)"
    "(\<Sum>r<nat (plane ?d). (ts ! r + T0 rat_lib - Tamb th) / Ramb rat_lib ?d) = 0"
    by auto
  then show ?thesis using h(1-3) by blast
qed

text \<open>
  C18. The transient solver, which visits the entries of the matrix in blocks of eight and
  adds up the contributions of each entry, computes exactly the steps of the explicit Euler
  method for the heat equation, one per iteration.
\<close>

theorem transient_is_euler:
  fixes N :: "('d::linordered_field) thermal_lib"
  assumes "exact_num N" "die_ok d" "length Cap = nat (numLayer d + 1)"
  shows "\<exists>P. transient_rhs N d pm Ta = ret P \<and>
    transient_thermal_solver N d pm (midx_entries N d) Cap time iters T Ta =
      ret ((euler N d Cap (time / of_int iters) P ^^ nat iters) T)"
  using transient_rhs_total [OF assms(1,2)] transient_solver_euler [OF assms] by blast

theorem transient_is_euler_witness:
  "\<exists>P. transient_rhs rat_lib sample_die sample_power 300 = ret P \<and>
    transient_thermal_solver rat_lib sample_die sample_power (midx_entries rat_lib sample_die) (calculate_Cap_array rat_lib sample_die)
      (1 / 1000) 10 (replicate 84 350) 300 =
      ret ((euler rat_lib sample_die (calculate_Cap_array rat_lib sample_die) (1 / 10000) P ^^ 10) (replicate 84 350))"
  using transient_is_euler [OF exact_rat_lib sample_die_ok, of "calculate_Cap_array rat_lib sample_die" sample_power 300 "1 / 1000" 10 "replicate 84 350"]
  by (simp add: calculate_Cap_array_def)

text \<open>
  C36. The transient solver obeys the first law: over an epoch the heat that is stored in the
  chip changes by the power of the cells and the flow from the surroundings into the sink,
  added up over the time steps.
\<close>

theorem epoch_first_law:
  fixes N :: "('d::linordered_field) thermal_lib"
  assumes "exact_num N" "die_ok d" "length Cap = nat (numLayer d + 1)" "0 \<notin> set Cap" "length T = nat (nodes d)" "dt = time / of_int iters"
  shows "\<exists>P T'. transient_rhs N d pm Ta = ret P \<and>
    transient_thermal_solver N d pm (midx_entries N d) Cap time iters T Ta = ret T' \<and>
    heat_content d Cap T' = heat_content d Cap T +
      (\<Sum>m<nat iters. dt * (power_sum d pm + sink_inflow N d Ta ((euler N d Cap dt P ^^ m) T)))"
proof -
  obtain P where P: "transient_rhs N d pm Ta = ret P" using transient_rhs_total [OF assms(1,2)] by blast
  show ?thesis
    using transient_solver_euler [OF assms(1-3) P, of time iters T] epoch_balance [where n = "nat iters" and dt = dt, OF assms(1-5) P] P
    unfolding assms(6) by (auto simp: algebra_simps)
qed

theorem epoch_first_law_witness:
  "\<exists>P T'. transient_rhs rat_lib sample_die sample_power 300 = ret P \<and>
    transient_thermal_solver rat_lib sample_die sample_power (midx_entries rat_lib sample_die) (calculate_Cap_array rat_lib sample_die)
      (1 / 1000) 1 (replicate 84 350) 300 = ret T' \<and>
    heat_content sample_die (calculate_Cap_array rat_lib sample_die) T' =
      heat_content sample_die (calculate_Cap_array rat_lib sample_die) (replicate 84 350) +
      1 / 1000 * (power_sum sample_die sample_power + sink_inflow rat_lib sample_die 300 (replicate 84 350))"
proof -
  have "length (replicate 84 (350 :: rat)) = nat (nodes sample_die)" by (simp add: sample_die_def)
  moreover have "0 < die_W sample_die" "0 < die_L sample_die" by (simp_all add: sample_die_def)
  ultimately show ?thesis
    using epoch_first_law [where time = "1 / 1000" and iters = 1 and pm = sample_power and Ta = 300, OF exact_rat_lib sample_die_ok
        cap_nonzero [OF exact_rat_lib sample_die_ok] _ refl, of "replicate 84 350"] by simp
qed

text \<open>
  C19. An epoch in which a case spends no energy relaxes: the time step that was chosen is small
  enough for every temperature to stay between the extremes of the chip and its surroundings.
\<close>

theorem idle_epoch_relaxes:
  fixes N :: "('d::linordered_field) thermal_lib"
  assumes "exact_num N" "thermal_ok c tc th" "solver_ready N c tc ec th" "0 \<le> k" "k < num_case th" "0 \<le> epoch_time N c ec"
    "\<forall>e\<in>set (cur_Pmap th ! nat k). e = 0" "lo \<le> Tamb th" "Tamb th \<le> hi"
    "length (T_trans th ! nat k) = nat (nodes (th_die tc th))" "\<forall>t\<in>set (T_trans th ! nat k). lo \<le> t \<and> t \<le> hi"
  shows "\<exists>T. CalcTransT N c tc ec k th = ret (th\<lparr>T_trans := (T_trans th)[nat k := T]\<rparr>) \<and>
    length T = nat (nodes (th_die tc th)) \<and> (\<forall>t\<in>set T. lo \<le> t \<and> t \<le> hi)"
  by (rule CalcTransT_relaxes [OF assms])

theorem idle_epoch_relaxes_witness:
  "\<exists>c tc th T. new_Config HBM2_4Gb_x128 undefined = ret c \<and> InitThermalParams rat_lib HBM2_4Gb_x128 c rat_power undefined = ret tc \<and>
     new_ThermalCalculator rat_lib c tc rat_power undefined = ret th \<and>
     CalcTransT rat_lib c tc rat_power 0 th = ret (th\<lparr>T_trans := (T_trans th)[0 := T]\<rparr>) \<and> (\<forall>t\<in>set T. t = 31315 / 100)"
proof -
  obtain c tc th where h: "new_Config HBM2_4Gb_x128 undefined = ret c" "InitThermalParams rat_lib HBM2_4Gb_x128 c rat_power undefined = ret tc"
      "new_ThermalCalculator rat_lib c tc rat_power undefined = ret th" "thermal_ok c tc th" "solver_ready rat_lib c tc rat_power th"
      "cold th" "num_case th = 1" "Tamb th = 31315 / 100" "T_trans th = [initialize_Temperature (th_die tc th) (Tamb th)]"
      "hbm_thermal c tc"
    using hbm_calculator by blast
  have "0 \<le> epoch_time rat_lib c rat_power"
    using h(10) by (simp add: epoch_time_def rat_lib_def rat_power_def hbm_thermal_def hbm_facts_def)
  moreover have "\<forall>e\<in>set (cur_Pmap th ! nat 0). e = 0" using cold_total(4) [OF h(4,6), of 0] h(7) by simp
  ultimately obtain T where "CalcTransT rat_lib c tc rat_power 0 th = ret (th\<lparr>T_trans := (T_trans th)[0 := T]\<rparr>)"
      "\<forall>t\<in>set T. 31315 / 100 \<le> t \<and> t \<le> 31315 / 100"
    using idle_epoch_relaxes [OF exact_rat_lib h(4,5), of 0 "31315 / 100" "31315 / 100"] h(7-9)
    by (auto simp: initialize_Temperature_def)
  then show ?thesis using h(1-3) by (intro exI [of _ c] exI [of _ tc] exI [of _ th] exI [of _ T]) (auto intro: antisym)
qed

text \<open>
  C37. For a memory that is not stacked the background energy is never spread: the loop of an
  epoch increments the wrong variable and does not leave its first cell, so that the epoch does
  not end, and the loop of the final report runs past the end of the map.
\<close>

theorem unstacked_background_lost:
  assumes "thermal_ok c tc th" "\<not> IsHBM c" "\<not> IsHMC c" "0 < channels c" "0 < ranks c"
  shows "UpdateEpoch N c th = None \<and> PrintTransPT N c tc ec clk th = None \<and> PrintFinalPT N pdgssv c tc clk th = raise OutOfBounds"
  using unstacked_epoch_fails [OF assms] by blast

definition ddr_config :: Config where
  "ddr_config = undefined\<lparr>protocol := DDR3, channels := 1, ranks := 1, bankgroups := 1, banks_per_group := 8, banks := 8,
     rows := 1024, columns := 1024, device_width := 8, cfg_BL := 8, devices_per_rank := 8, output_level := 1\<rparr>"

definition ddr_thermal :: "rat ThermalConfig" where
  "ddr_thermal = \<lparr>const_logic_power = 5, mat_dim_x = 512, mat_dim_y = 512, num_x_grids = 2, num_y_grids = 16, tile_row_num = 1024,
     row_tile = 1, bank_asr = 1 / 8, loc_mapping = [], bank_order = 1, bank_layer_order = 0, num_row_refresh = 1,
     chip_dim_x = 1 / 100, chip_dim_y = 1 / 100, amb_temp = 40\<rparr>"

theorem unstacked_background_lost_witness:
  "\<exists>th. new_ThermalCalculator rat_lib ddr_config ddr_thermal rat_power undefined = ret th \<and>
     UpdateEpoch rat_lib ddr_config th = None \<and>
     PrintFinalPT rat_lib (\<lambda>n a asub xa rhs. rhs) ddr_config ddr_thermal 1000 th = raise OutOfBounds"
proof -
  have "thermal_config_ok rat_lib ddr_config ddr_thermal"
    by (auto simp: thermal_config_ok_def plan_fits_def grids_ok_def IsHMC_def IsHBM_def ddr_config_def ddr_thermal_def
        SetPhyAddressMapping_def mapping_ok_def)
  from thermal_constructed [OF exact_rat_lib this, of rat_power undefined] obtain th where
    th: "new_ThermalCalculator rat_lib ddr_config ddr_thermal rat_power undefined = ret th" "thermal_ok ddr_config ddr_thermal th" by blast
  show ?thesis
    using unstacked_background_lost [OF th(2), of rat_lib] th(1) by (auto simp: IsHBM_def IsHMC_def ddr_config_def)
qed

text \<open>
  C38. The two solvers place the power of a cell at different nodes. The matrix and the steady
  solver number the nodes of a layer row by row, so that the power of cell \<open>(i, j)\<close> belongs to
  node \<open>j * dimX + i\<close>; the right-hand side of the transient solver has it at \<open>i * dimZ + j\<close>, the
  node in row \<open>(i * dimZ + j) div dimX\<close> and column \<open>(i * dimZ + j) mod dimX\<close>. This is the same
  node only for the cells on the diagonal, and the transposed one on a square floorplan.
\<close>

theorem transient_power_misplaced:
  fixes N :: "('d::linordered_field) thermal_lib"
  assumes "exact_num N" "die_ok d" "(l, i, j) \<in> set (power_cells d)" "n = node d (layerP l + 1) ((i * die_Z d + j) div die_X d) ((i * die_Z d + j) mod die_X d)"
  shows "\<exists>P rhs. transient_rhs N d pm Ta = ret P \<and> steady_rhs N d pm Ta = ret rhs \<and>
    rhs ! nat (node d (layerP l + 1) j i) = power_at pm i j l \<and> P ! nat n = power_at pm i j l \<and>
    (n = node d (layerP l + 1) j i \<longleftrightarrow> i * (die_Z d - 1) = j * (die_X d - 1)) \<and>
    (die_X d = die_Z d \<longrightarrow> n = node d (layerP l + 1) i j)"
proof -
  obtain P where P: "transient_rhs N d pm Ta = ret P"
      "\<forall>(l, i, j)\<in>set (power_cells d). P ! nat (plane d * (layerP l + 1) + i * die_Z d + j) = power_at pm i j l"
    using transient_rhs_total [OF assms(1,2), of pm Ta] by auto
  obtain rhs where r: "steady_rhs N d pm Ta = ret rhs"
      "\<forall>(l, i, j)\<in>set (power_cells d). rhs ! nat (plane d * (layerP l + 1) + j * die_X d + i) = power_at pm i j l"
    using steady_rhs_total [OF assms(1,2), of pm Ta] by auto
  have n: "n = plane d * (layerP l + 1) + i * die_Z d + j" unfolding assms(4) node_plane by (simp add: add.assoc mult.commute)
  have "n = node d (layerP l + 1) j i \<longleftrightarrow> i * (die_Z d - 1) = j * (die_X d - 1)"
    "die_X d = die_Z d \<longrightarrow> n = node d (layerP l + 1) i j"
    unfolding n node_plane by (auto simp: algebra_simps)
  then show ?thesis
    using P(1) r(1) bspec [OF P(2) assms(3)] bspec [OF r(2) assms(3)] n
    by (intro exI [of _ P] exI [of _ rhs]) (simp add: node_plane add.assoc mult.commute)
qed

definition hot_cell :: "rat power" where
  "hot_cell = [[[0, 0], [0, 0], [0, 0], [0, 0]], [[0, 0], [0, 0], [7, 0], [0, 0]],
      [[0, 0], [0, 0], [0, 0], [0, 0]], [[0, 0], [0, 0], [0, 0], [0, 0]]]"

theorem transient_power_misplaced_witness:
  "\<exists>P rhs. transient_rhs rat_lib (sample_die\<lparr>die_Z := 4\<rparr>) hot_cell 300 = ret P \<and>
    steady_rhs rat_lib (sample_die\<lparr>die_Z := 4\<rparr>) hot_cell 300 = ret rhs \<and>
    rhs ! 25 = 7 \<and> P ! 22 = 7"
  using transient_power_misplaced [OF exact_rat_lib, of "sample_die\<lparr>die_Z := 4\<rparr>" 0 1 2 22 hot_cell 300]
  by (simp add: sample_die_def hot_cell_def die_ok_def power_cells_def power_at_def node_def layerP_def)




text \<open>
  C39. A line that a controller writes to its command trace is read back by the replay with the
  same clock, command, channel, rank, bank group and bank. Its row and column are lost: they are
  printed in hexadecimal after \<open>0x\<close> and read in decimal up to the \<open>x\<close>, which gives 0.
\<close>

theorem trace_line_read_back:
  assumes "IsValid cmd" "fits_int (c_Channel cmd)" "fits_int (c_Rank cmd)" "fits_int (c_Bankgroup cmd)" "fits_int (c_Bank cmd)"
  shows "ParseLine (command_trace_line clk cmd) =
    ret (clk, cmd\<lparr>cmd_addr := (cmd_addr cmd)\<lparr>ad_row := 0, ad_column := 0\<rparr>, hex_addr := 0\<rparr>)"
  by (rule trace_line_parsed [OF assms])

theorem trace_line_read_back_witness:
  "command_trace_line 24 (mk_Command READ (mk_Address 3 0 2 1 100 8) 4096) =
     ''24                 read                   3   0   2   1     0x64      0x8'' \<and>
   ParseLine (command_trace_line 24 (mk_Command READ (mk_Address 3 0 2 1 100 8) 4096)) = ret (24, mk_Command READ (mk_Address 3 0 2 1 0 0) 0)"
proof -
  have "command_trace_line 24 (mk_Command READ (mk_Address 3 0 2 1 100 8) 4096) =
     ''24                 read                   3   0   2   1     0x64      0x8''" by code_simp
  then show ?thesis
    using trace_line_read_back [of "mk_Command READ (mk_Address 3 0 2 1 100 8) 4096" 24]
    by (simp add: mk_Command_def mk_Address_def IsValid_def fits_int_def)
qed

text \<open>
  C40. The replay cannot read a trace with a rank refresh: the refresh that the channel state
  queues has channel -1, its line is read back with that channel, and the statistics of channel
  -1 are out of bounds.
\<close>

theorem traced_refresh_fails:
  assumes "replay_ok c tc tr" "fits_int r"
  shows "\<exists>cmd. ParseLine (command_trace_line t (last (refresh_q (RankNeedRefresh r True cs)))) = ret (t, cmd) \<and>
    cmd_type cmd = REFRESH \<and> c_Rank cmd = r \<and> replay_command N tc ec nm c clk (t, cmd) tr = raise OutOfBounds"
proof -
  let ?cmd = "mk_Command REFRESH (mk_Address (- 1) r (- 1) (- 1) 0 0) 0"
  have q: "last (refresh_q (RankNeedRefresh r True cs)) = mk_Command REFRESH (mk_Address (- 1) r (- 1) (- 1) (- 1) (- 1)) (- 1)"
    by (simp add: RankNeedRefresh_def)
  have "ParseLine (command_trace_line t (last (refresh_q (RankNeedRefresh r True cs)))) = ret (t, ?cmd)"
    unfolding q using trace_line_parsed [of "mk_Command REFRESH (mk_Address (- 1) r (- 1) (- 1) (- 1) (- 1)) (- 1)" t] assms(2)
    by (simp add: mk_Command_def mk_Address_def IsValid_def fits_int_def)
  moreover obtain t1 where "count_background c (clk + t - last_clk tr) tr = ret t1"
    using count_background_total [of tr c "clk + t - last_clk tr"] assms(1) by (auto simp: replay_ok_def)
  then have "replay_command N tc ec nm c clk (t, ?cmd) tr = raise OutOfBounds"
    by (simp add: replay_command_def ProcessCMD_def count_command_def upd_replay_stats_def mk_Command_def mk_Address_def)
  ultimately show ?thesis by (intro exI [of _ ?cmd]) (simp add: mk_Command_def mk_Address_def)
qed

theorem traced_refresh_fails_witness:
  "\<exists>c tc tr cmd. new_Config HBM2_4Gb_x128 undefined = ret c \<and> InitThermalParams rat_lib HBM2_4Gb_x128 c rat_power undefined = ret tc \<and>
     new_ThermalReplay rat_lib c tc rat_power undefined undefined (Some []) = ret tr \<and>
     ParseLine (command_trace_line 3900 (last (refresh_q (RankNeedRefresh 0 True undefined)))) = ret (3900, cmd) \<and>
     replay_command rat_lib tc rat_power undefined c 0 (3900, cmd) tr = raise OutOfBounds"
proof -
  obtain c where c: "new_Config HBM2_4Gb_x128 undefined = ret c" "hbm_facts c" using hbm_config by blast
  obtain tc where tc: "InitThermalParams rat_lib HBM2_4Gb_x128 c rat_power undefined = ret tc" "hbm_thermal c tc"
    using hbm_thermal_params [OF c] by blast
  have "IsHBM c \<or> IsHMC c" using c(2) by (simp add: hbm_facts_def IsHBM_def)
  then obtain tr where "new_ThermalReplay rat_lib c tc rat_power undefined undefined (Some []) = ret tr" "replay_ok c tc tr"
    using new_replay [OF exact_rat_lib hbm_thermal_ok [OF tc(2)], of "[]" "[]" rat_power undefined undefined] by auto
  then show ?thesis using traced_refresh_fails [of c tc tr 0 3900 undefined rat_lib rat_power undefined 0] c(1) tc(1) by (auto simp: fits_int_def)
qed

end
