(* ===== verification/Event_Queue_Sim.thy ===== *)
theory Event_Queue_Sim
  imports Event_Queue_Run
begin

text \<open>
  The event queue as its clients see it: a list of events in the order of time and priority,
  a clock, and the events that were processed so far. The linked bins simulate it for every
  sequence of calls, with the same failures.
\<close>

section \<open>Specification\<close>

datatype queue_call = Schedule eid tick | Deschedule eid | ServiceOne | ServiceUntil tick

record abs_queue =
  aq_events :: "eid list"
  aq_key :: "eid \<Rightarrow> tick \<times> int"
  aq_now :: tick
  aq_done :: "eid list"

fun abs_call :: "queue_call \<Rightarrow> abs_queue \<Rightarrow> abs_queue run" where
  "abs_call (Schedule e w) a =
     (if e \<in> set (aq_events a) \<or> w < aq_now a then raise AssertFailed
      else let k = (aq_key a)(e := (w, snd (aq_key a e)))
           in ret (a\<lparr>aq_events := insert_at k (k e) e (aq_events a), aq_key := k\<rparr>))"
| "abs_call (Deschedule e) a =
     (if e \<in> set (aq_events a) then ret (a\<lparr>aq_events := remove1 e (aq_events a)\<rparr>) else raise event_not_found)"
| "abs_call ServiceOne a =
     (case aq_events a of
        [] \<Rightarrow> raise NullDeref
      | e # es \<Rightarrow> ret (a\<lparr>aq_events := es, aq_now := fst (aq_key a e), aq_done := aq_done a @ [e]\<rparr>))"
| "abs_call (ServiceUntil w) a =
     (let due = (\<lambda>e. fst (aq_key a e) \<le> w)
      in ret (a\<lparr>aq_events := dropWhile due (aq_events a), aq_now := w,
                aq_done := aq_done a @ takeWhile due (aq_events a)\<rparr>))"

text \<open>The calls on the queue of the program, with callbacks that leave the queue alone.\<close>

fun run_call :: "(eid \<Rightarrow> 'a \<Rightarrow> 'a) \<Rightarrow> queue_call \<Rightarrow> 'a EventQueue_scheme \<Rightarrow> 'a EventQueue_scheme run" where
  "run_call f (Schedule e w) q = eq_schedule e w q"
| "run_call f (Deschedule e) q = eq_deschedule e q"
| "run_call f ServiceOne q = eq_serviceOne (pure_process f) q"
| "run_call f (ServiceUntil w) q = eq_serviceEvents (pure_process f) w q"

section \<open>Simulation\<close>

definition queue_sim :: "(eid \<Rightarrow> 'a \<Rightarrow> 'a) \<Rightarrow> 'a \<Rightarrow> 'a EventQueue_scheme \<Rightarrow> abs_queue \<Rightarrow> bool" where
  "queue_sim f x q a \<longleftrightarrow>
     eq_list q (aq_events a) \<and> key_of (events q) = aq_key a \<and> cur_tick q = aq_now a \<and>
     EventQueue.more q = fold f (aq_done a) x"

text \<open>The two runs end alike: in related states, or in the same error.\<close>

definition alike :: "('q \<Rightarrow> 'a \<Rightarrow> bool) \<Rightarrow> 'q run \<Rightarrow> 'a run \<Rightarrow> bool" where
  "alike R c a \<longleftrightarrow>
     (\<exists>e. c = raise e \<and> a = raise e) \<or> (\<exists>q' a'. c = ret q' \<and> a = ret a' \<and> R q' a')"

lemma alike_bind:
  assumes "alike R c a" "\<And>q a. R q a \<Longrightarrow> alike R (f q) (g a)"
  shows "alike R (run_bind c f) (run_bind a g)"
  using assms unfolding alike_def by fastforce

lemma alike_for_run:
  assumes "\<And>i q a. R q a \<Longrightarrow> alike R (f i q) (g i a)" "R q a"
  shows "alike R (for_run f is q) (for_run g is a)"
  using assms(2)
proof (induction "is" arbitrary: q a)
  case (Cons i "is")
  show ?case
    unfolding for_run.simps by (rule alike_bind [OF assms(1) [OF Cons.prems] Cons.IH])
qed (simp add: alike_def)

lemma schedule_alike:
  assumes sim: "queue_sim f x q a"
  shows "alike (queue_sim f x) (eq_schedule e w q) (abs_call (Schedule e w) a)"
proof (cases "e \<in> set (aq_events a) \<or> w < aq_now a")
  case True
  have "eq_schedule e w q = raise AssertFailed"
    using sim True eq_list_scheduled [of q "aq_events a" e]
    by (auto simp: queue_sim_def eq_schedule_def assert_that_def not_le)
  then show ?thesis using True by (simp add: alike_def)
next
  case False
  define k where "k = (\<lambda>x. if x = e then (w, ev_priority (events q e)) else key_of (events q) x)"
  have l: "eq_list q (aq_events a)" and key: "key_of (events q) = aq_key a" and now: "cur_tick q = aq_now a"
    using sim by (auto simp: queue_sim_def)
  obtain h p where r: "eq_schedule e w q = ret (q\<lparr>events := h, qhead := p\<rparr>)"
      "eq_list (q\<lparr>events := h, qhead := p\<rparr>) (insert_at k (k e) e (aq_events a))" "key_of h = k"
    using eq_schedule_list [OF l _ _ k_def] False now by (auto simp: not_less)
  have "snd (aq_key a e) = ev_priority (events q e)" by (simp add: ev_key_def flip: fun_cong [OF key])
  then have k: "(aq_key a)(e := (w, snd (aq_key a e))) = k" by (auto simp: k_def key [symmetric])
  have "abs_call (Schedule e w) a = ret (a\<lparr>aq_events := insert_at k (k e) e (aq_events a), aq_key := k\<rparr>)"
    using False by (simp add: Let_def k)
  then show ?thesis using r sim by (simp add: alike_def queue_sim_def)
qed

lemma deschedule_alike:
  assumes sim: "queue_sim f x q a"
  shows "alike (queue_sim f x) (eq_deschedule e q) (abs_call (Deschedule e) a)"
proof -
  have l: "eq_list q (aq_events a)" using sim by (simp add: queue_sim_def)
  show ?thesis
  proof (cases "e \<in> set (aq_events a)")
    case True
    then show ?thesis
      using eq_remove_list [OF l True] sim by (auto simp: alike_def queue_sim_def eq_deschedule_def)
  next
    case False
    then show ?thesis using eq_deschedule_missing [OF l False] by (simp add: alike_def)
  qed
qed

lemma service_alike:
  assumes sim: "queue_sim f x q a"
  shows "alike (queue_sim f x) (eq_serviceOne (pure_process f) q) (abs_call ServiceOne a)"
proof (cases "aq_events a")
  case Nil
  then show ?thesis
    using sim eq_list_head [of q "[]"] by (simp add: alike_def queue_sim_def eq_serviceOne_def)
next
  case (Cons e es)
  then have l: "eq_list q (e # es)" using sim by (simp add: queue_sim_def)
  have key: "key_of (events q) = aq_key a" using sim by (auto simp: queue_sim_def)
  have "ev_when (events q e) = fst (aq_key a e)" by (simp add: ev_key_def flip: fun_cong [OF key])
  then show ?thesis
    using eq_pop_list [OF l] eq_list_head [OF l] sim Cons
    by (simp add: alike_def queue_sim_def eq_serviceOne_def pure_process_def)
qed

lemma service_until_alike:
  assumes sim: "queue_sim f x q a"
  shows "alike (queue_sim f x) (eq_serviceEvents (pure_process f) w q) (abs_call (ServiceUntil w) a)"
proof -
  have l: "eq_list q (aq_events a)" and key: "key_of (events q) = aq_key a" using sim by (auto simp: queue_sim_def)
  have w: "ev_when (events q e) = fst (aq_key a e)" for e by (simp add: ev_key_def flip: fun_cong [OF key])
  from eq_serviceEvents_pure [OF l, of f w] obtain q' where "eq_serviceEvents (pure_process f) w q = ret q'" "cur_tick q' = w"
      "eq_list q' (dropWhile (\<lambda>e. fst (aq_key a e) \<le> w) (aq_events a))"
      "EventQueue.more q' = fold f (takeWhile (\<lambda>e. fst (aq_key a e) \<le> w) (aq_events a)) (EventQueue.more q)"
      "key_of (events q') = key_of (events q)"
    unfolding w by blast
  then show ?thesis using sim by (simp add: alike_def queue_sim_def Let_def)
qed

lemma queue_call_alike:
  "queue_sim f x q a \<Longrightarrow> alike (queue_sim f x) (run_call f c q) (abs_call c a)"
  by (cases c) (simp_all only: run_call.simps schedule_alike deschedule_alike service_alike service_until_alike)

lemma queue_calls_alike:
  "queue_sim f x q a \<Longrightarrow> alike (queue_sim f x) (for_run (run_call f) cs q) (for_run abs_call cs a)"
  by (rule alike_for_run [where R = "queue_sim f x"]) (rule queue_call_alike)

lemma queue_sim_new:
  assumes "\<And>e. \<not> ev_scheduled (h e)"
  shows "queue_sim f () (new_EventQueue n h) \<lparr>aq_events = [], aq_key = key_of h, aq_now = 0, aq_done = []\<rparr>"
  using eq_list_new [of h n] assms by (simp add: queue_sim_def new_EventQueue_def)

end
