(* ===== verification/Sim_Objects.thy ===== *)
theory Sim_Objects
  imports Ports
begin

text \<open>
  Simulation objects and probes (\<open>src/common/object.h\<close>, \<open>object.cpp\<close>, \<open>src/probe/named.h\<close>,
  \<open>probe.h\<close>, \<open>probe.cpp\<close>): the global list of objects with its lookup by name, and the probe
  points, listeners and managers that connect them. Objects are identified by their place in
  the list, probe points, listeners and managers by numbers; a template argument of the probe
  classes is a number that stands for the type.
\<close>

section \<open>Objects\<close>

type_synonym oid = nat

record 'r objects =
  simObjectList :: "string list"
  objNameResolver :: "'r option"

text \<open>The constructor passes the name with a suffix to \<open>Named\<close>.\<close>

definition SimObject_name :: "string \<Rightarrow> string" where
  "SimObject_name n = n @ ''.Event''"

definition new_SimObject :: "string \<Rightarrow> 'r objects \<Rightarrow> oid \<times> 'r objects" where
  "new_SimObject n s = (length (simObjectList s), s\<lparr>simObjectList := simObjectList s @ [SimObject_name n]\<rparr>)"

fun find_from :: "oid \<Rightarrow> string \<Rightarrow> string list \<Rightarrow> oid option" where
  "find_from i n [] = None"
| "find_from i n (x # xs) = (if x = n then Some i else find_from (Suc i) n xs)"

definition SimObject_find :: "string \<Rightarrow> 'r objects \<Rightarrow> oid option" where
  "SimObject_find n s = find_from 0 n (simObjectList s)"

definition setSimObjectResolver :: "'r option \<Rightarrow> 'r objects \<Rightarrow> 'r objects" where
  "setSimObjectResolver r s = s\<lparr>objNameResolver := r\<rparr>"

definition getSimObjectResolver :: "'r objects \<Rightarrow> 'r option" where
  "getSimObjectResolver s = objNameResolver s"

text \<open>The inherited \<open>getPort\<close> fails an assertion.\<close>

definition SimObject_getPort :: "string \<Rightarrow> port_id run" where
  "SimObject_getPort if_name = raise AssertFailed"

text \<open>
  A new object is found under its own name with the suffix, if no older object has it, and
  never under the name that it was constructed with.
\<close>

lemma find_new:
  assumes "new_SimObject n s = (i, s')"
  shows "SimObject_find (SimObject_name n) s' = (case SimObject_find (SimObject_name n) s of None \<Rightarrow> Some i | Some j \<Rightarrow> Some j)"
    "SimObject_find n s' = SimObject_find n s"
proof -
  have app: "find_from k m (xs @ [x]) = (case find_from k m xs of None \<Rightarrow> if x = m then Some (k + length xs) else None | Some j \<Rightarrow> Some j)" for k m xs x
    by (induction k m xs rule: find_from.induct) (auto split: option.splits)
  have i: "i = length (simObjectList s)" "simObjectList s' = simObjectList s @ [SimObject_name n]"
    using assms by (auto simp: new_SimObject_def)
  show "SimObject_find (SimObject_name n) s' = (case SimObject_find (SimObject_name n) s of None \<Rightarrow> Some i | Some j \<Rightarrow> Some j)"
    using i by (simp add: SimObject_find_def app split: option.splits)
  show "SimObject_find n s' = SimObject_find n s"
    using i by (simp add: SimObject_find_def app SimObject_name_def split: option.splits)
qed

section \<open>Probes\<close>

type_synonym lid = nat
type_synonym pid = nat
type_synonym arg_type = nat

record ProbeListener =
  pl_name :: string
  pl_arg :: arg_type

record ProbePoint =
  pp_name :: string
  pp_arg :: arg_type
  listeners :: "lid option list"

record ProbeManager =
  pm_name :: string
  points :: "pid list"

text \<open>
  The live listeners, the probe points, and what the listeners were notified of: the
  callbacks of the listeners are arbitrary, so the calls are recorded in order.
\<close>

record 'v probes =
  live :: "lid \<Rightarrow> ProbeListener option"
  point :: "pid \<Rightarrow> ProbePoint"
  heard :: "(lid \<times> 'v) list"

text \<open>\<open>dynamic_cast\<close> of a listener to the type of the point: null when the types differ.\<close>

definition cast_listener :: "arg_type \<Rightarrow> lid \<Rightarrow> ProbeListener \<Rightarrow> lid option" where
  "cast_listener a l x = (if pl_arg x = a then Some l else None)"

definition pp_addListener :: "pid \<Rightarrow> lid \<Rightarrow> 'v probes \<Rightarrow> 'v probes run" where
  "pp_addListener p l s =
     (case live s l of
        None \<Rightarrow> raise NullDeref
      | Some x \<Rightarrow>
          let c = cast_listener (pp_arg (point s p)) l x
          in ret (if c \<in> set (listeners (point s p)) then s
                  else s\<lparr>point := (point s)(p := (point s p)\<lparr>listeners := listeners (point s p) @ [c]\<rparr>)\<rparr>))"

definition pp_removeListener :: "pid \<Rightarrow> lid \<Rightarrow> 'v probes \<Rightarrow> 'v probes run" where
  "pp_removeListener p l s =
     (case live s l of
        None \<Rightarrow> raise NullDeref
      | Some x \<Rightarrow>
          ret (s\<lparr>point := (point s)(p := (point s p)\<lparr>listeners :=
                  removeAll (cast_listener (pp_arg (point s p)) l x) (listeners (point s p))\<rparr>)\<rparr>))"

definition listener_notify :: "'v \<Rightarrow> lid option \<Rightarrow> 'v probes \<Rightarrow> 'v probes run" where
  "listener_notify v c s =
     (case c of
        None \<Rightarrow> raise NullDeref
      | Some l \<Rightarrow> if live s l = None then raise NullDeref else ret (s\<lparr>heard := heard s @ [(l, v)]\<rparr>))"

definition pp_notify :: "pid \<Rightarrow> 'v \<Rightarrow> 'v probes \<Rightarrow> 'v probes run" where
  "pp_notify p v s = for_run (listener_notify v) (listeners (point s p)) s"

definition hasListeners :: "pid \<Rightarrow> 'v probes \<Rightarrow> bool" where
  "hasListeners p s \<longleftrightarrow> length (listeners (point s p)) > 0"

text \<open>The manager: its functions return whether a point had the name.\<close>

definition named_points :: "ProbeManager \<Rightarrow> string \<Rightarrow> 'v probes \<Rightarrow> pid list" where
  "named_points m n s = filter (\<lambda>p. pp_name (point s p) = n) (points m)"

definition pm_addListener :: "ProbeManager \<Rightarrow> string \<Rightarrow> lid \<Rightarrow> 'v probes \<Rightarrow> (bool \<times> 'v probes) run" where
  "pm_addListener m n l s =
     run_bind (for_run (\<lambda>p. pp_addListener p l) (named_points m n s) s) (\<lambda>s1. ret (named_points m n s \<noteq> [], s1))"

definition pm_removeListener :: "ProbeManager \<Rightarrow> string \<Rightarrow> lid \<Rightarrow> 'v probes \<Rightarrow> (bool \<times> 'v probes) run" where
  "pm_removeListener m n l s =
     run_bind (for_run (\<lambda>p. pp_removeListener p l) (named_points m n s) s) (\<lambda>s1. ret (named_points m n s \<noteq> [], s1))"

definition getFirstProbePoint :: "ProbeManager \<Rightarrow> string \<Rightarrow> 'v probes \<Rightarrow> pid option" where
  "getFirstProbePoint m n s = (case named_points m n s of [] \<Rightarrow> None | p # _ \<Rightarrow> Some p)"

definition addPoint :: "pid \<Rightarrow> 'v probes \<Rightarrow> ProbeManager \<Rightarrow> ProbeManager" where
  "addPoint p s m =
     (if getFirstProbePoint m (pp_name (point s p)) s \<noteq> None then m else m\<lparr>points := points m @ [p]\<rparr>)"

definition new_ProbePoint ::
    "ProbeManager option \<Rightarrow> string \<Rightarrow> arg_type \<Rightarrow> pid \<Rightarrow> 'v probes \<Rightarrow> ProbeManager option \<times> 'v probes" where
  "new_ProbePoint mo n a p s =
     (let s1 = s\<lparr>point := (point s)(p := \<lparr>pp_name = n, pp_arg = a, listeners = []\<rparr>)\<rparr>
      in (map_option (addPoint p s1) mo, s1))"

text \<open>\<open>connect\<close> makes a listener and adds it; the deleter removes it and deletes it.\<close>

definition pm_connect :: "ProbeManager \<Rightarrow> lid \<Rightarrow> ProbeListener \<Rightarrow> 'v probes \<Rightarrow> 'v probes run" where
  "pm_connect m l x s =
     run_bind (pm_addListener m (pl_name x) l (s\<lparr>live := (live s)(l := Some x)\<rparr>)) (\<lambda>(_, s1). ret s1)"

definition listener_cleanup :: "ProbeManager \<Rightarrow> lid \<Rightarrow> 'v probes \<Rightarrow> 'v probes run" where
  "listener_cleanup m l s =
     (case live s l of
        None \<Rightarrow> raise NullDeref
      | Some x \<Rightarrow> run_bind (pm_removeListener m (pl_name x) l s) (\<lambda>(_, s1). ret (s1\<lparr>live := (live s1)(l := None)\<rparr>)))"

section \<open>The points of a manager\<close>

text \<open>The names of a manager's points are distinct, so a name stands for at most one point.\<close>

definition manager_ok :: "ProbeManager \<Rightarrow> 'v probes \<Rightarrow> bool" where
  "manager_ok m s \<longleftrightarrow> distinct (map (\<lambda>p. pp_name (point s p)) (points m))"

lemma named_points_Nil: "named_points m n s = [] \<longleftrightarrow> n \<notin> (\<lambda>p. pp_name (point s p)) ` set (points m)"
  by (auto simp: named_points_def filter_empty_conv)

lemma named_points_cong:
  "(\<And>p. pp_name (point s' p) = pp_name (point s p)) \<Longrightarrow> named_points m n s' = named_points m n s"
  by (simp add: named_points_def)

lemma named_points_one:
  assumes "manager_ok m s"
  shows "named_points m n s = (case getFirstProbePoint m n s of None \<Rightarrow> [] | Some p \<Rightarrow> [p])"
proof -
  have "distinct (map (\<lambda>p. pp_name (point s p)) ps) \<Longrightarrow> length (filter (\<lambda>p. pp_name (point s p) = n) ps) \<le> 1" for ps
    by (induction ps) (auto simp: filter_empty_conv rev_image_eqI)
  from this [of "points m"] show ?thesis
    using assms by (auto simp: manager_ok_def getFirstProbePoint_def named_points_def split: list.splits)
qed

lemma getFirst_name: "getFirstProbePoint m n s = Some p \<Longrightarrow> pp_name (point s p) = n \<and> p \<in> set (points m)"
  by (auto simp: getFirstProbePoint_def named_points_def split: list.splits dest!: filter_eq_ConsD)

lemma addPoint_ok: "manager_ok m s \<Longrightarrow> manager_ok (addPoint p s m) s"
  by (auto simp: manager_ok_def addPoint_def getFirstProbePoint_def named_points_Nil split: list.splits)

section \<open>Connecting, notifying and disconnecting\<close>

definition listeners_ok :: "pid \<Rightarrow> 'v probes \<Rightarrow> bool" where
  "listeners_ok p s \<longleftrightarrow> distinct (listeners (point s p)) \<and> (\<forall>c\<in>set (listeners (point s p)). case c of None \<Rightarrow> False | Some l \<Rightarrow> live s l \<noteq> None)"

text \<open>Every attached listener is notified once, in the order of attachment.\<close>

lemma notify_all:
  "\<forall>c\<in>set cs. case c of None \<Rightarrow> False | Some l \<Rightarrow> live s l \<noteq> None \<Longrightarrow>
     for_run (listener_notify v) cs s = ret (s\<lparr>heard := heard s @ map (\<lambda>c. (the c, v)) cs\<rparr>)"
  by (induction cs arbitrary: s) (auto simp: listener_notify_def split: option.splits)

lemma pp_notify_ok:
  "listeners_ok p s \<Longrightarrow> pp_notify p v s = ret (s\<lparr>heard := heard s @ map (\<lambda>c. (the c, v)) (listeners (point s p))\<rparr>)"
  by (simp add: pp_notify_def listeners_ok_def notify_all)

text \<open>A listener of another type is attached as a null pointer, and the next notification fails.\<close>

lemma notify_null:
  assumes "None \<in> set cs" "\<forall>c\<in>set cs. case c of None \<Rightarrow> True | Some l \<Rightarrow> live s l \<noteq> None"
  shows "for_run (listener_notify v) cs s = raise NullDeref"
  using assms by (induction cs arbitrary: s) (auto simp: listener_notify_def split: option.splits)

lemma connect_adds:
  assumes m: "manager_ok m s" "getFirstProbePoint m (pl_name x) s = Some p" and fresh: "Some l \<notin> set (listeners (point s p))"
    and ok: "listeners_ok p s"
  shows "pm_connect m l x s = ret (s\<lparr>live := (live s)(l := Some x),
    point := (point s)(p := (point s p)\<lparr>listeners := listeners (point s p) @ [cast_listener (pp_arg (point s p)) l x]\<rparr>)\<rparr>)"
proof -
  let ?s = "s\<lparr>live := (live s)(l := Some x)\<rparr>"
  have "named_points m (pl_name x) ?s = [p]"
    using named_points_one [OF m(1), of "pl_name x"] m(2) named_points_cong [of ?s s m "pl_name x"] by simp
  moreover have "cast_listener (pp_arg (point s p)) l x \<notin> set (listeners (point s p))"
    using fresh ok by (auto simp: cast_listener_def listeners_ok_def)
  ultimately show ?thesis by (simp add: pm_connect_def pm_addListener_def pp_addListener_def)
qed

lemma cleanup_removes:
  assumes m: "manager_ok m s" "getFirstProbePoint m (pl_name x) s = Some p" and l: "live s l = Some x"
  shows "listener_cleanup m l s = ret (s\<lparr>live := (live s)(l := None),
    point := (point s)(p := (point s p)\<lparr>listeners := removeAll (cast_listener (pp_arg (point s p)) l x) (listeners (point s p))\<rparr>)\<rparr>)"
proof -
  have "named_points m (pl_name x) s = [p]" using named_points_one [OF m(1), of "pl_name x"] m(2) by simp
  then show ?thesis using l by (simp add: listener_cleanup_def pm_removeListener_def pp_removeListener_def)
qed

end
