(* ===== verification/Buffer_Dram.thy ===== *)
theory Buffer_Dram
  imports Sim_Objects
begin

text \<open>
  The stand-alone pair of \<open>src/buffer/buffer.h\<close>, \<open>buffer.cpp\<close>, \<open>src/dram/dram.h\<close> and
  \<open>dram.cpp\<close>: a buffer that sends one request when it is initialised, and a memory that
  answers ten ticks later. The fetch event and the retry function of the buffer are empty in
  the source.
\<close>

section \<open>State\<close>

record Buffer =
  maxSize :: nat
  dataQueue :: "pptr list"
  outstandingReqs :: "64 word"
  waitingRetry :: bool

record Dram =
  pendingPkt :: "pptr option"
  respEvent :: eid

record buf_sys = sim +
  buffer :: Buffer
  dram :: Dram

definition new_Buffer :: Buffer where
  "new_Buffer = \<lparr>maxSize = 32, dataQueue = [], outstandingReqs = 0, waitingRetry = False\<rparr>"

definition new_Dram :: "eid \<Rightarrow> Dram" where
  "new_Dram e = \<lparr>pendingPkt = None, respEvent = e\<rparr>"

definition buffer_getPort :: "string \<Rightarrow> port_id run" where
  "buffer_getPort if_name = (if if_name = ''mem_side'' then ret BufferMem else raise (RuntimeError ''No such port''))"

definition dram_getPort :: "string \<Rightarrow> port_id run" where
  "dram_getPort if_name = (if if_name \<noteq> ''mem_side'' then SimObject_getPort if_name else ret DramMem)"

section \<open>Operations\<close>

text \<open>
  The third argument of the packet's constructor, which sets \<open>is_write\<close>, has the default
  \<open>true\<close>.
\<close>

definition buffer_init :: "(port_id \<Rightarrow> 'a buf_sys_scheme receivers) \<Rightarrow> 'a buf_sys_scheme \<Rightarrow> 'a buf_sys_scheme run" where
  "buffer_init rc s =
     (let (pkt, s1) = alloc_pkt (new_DataPacket 0x1000 42 True) s
      in run_bind (sendTimingReq rc (ports s1 BufferMem) pkt s1) (\<lambda>(ok, s2). ret s2))"

definition buffer_recvTimingResp :: "pptr \<Rightarrow> 'a buf_sys_scheme \<Rightarrow> (bool \<times> 'a buf_sys_scheme) run" where
  "buffer_recvTimingResp pkt s =
     ret (True, s\<lparr>buffer := (buffer s)\<lparr>dataQueue := dataQueue (buffer s) @ [pkt],
                                        outstandingReqs := outstandingReqs (buffer s) - 1\<rparr>\<rparr>)"

definition buffer_recvReqRetry :: "'a buf_sys_scheme \<Rightarrow> 'a buf_sys_scheme run" where
  "buffer_recvReqRetry s = ret (s\<lparr>buffer := (buffer s)\<lparr>waitingRetry := False\<rparr>\<rparr>)"

definition dram_accessAndRespond :: "'a buf_sys_scheme \<Rightarrow> 'a buf_sys_scheme run" where
  "dram_accessAndRespond s = eq_schedule (respEvent (dram s)) (cur_tick s + 10) s"

definition dram_recvTimingReq :: "pptr \<Rightarrow> 'a buf_sys_scheme \<Rightarrow> (bool \<times> 'a buf_sys_scheme) run" where
  "dram_recvTimingReq pkt s =
     run_bind (dram_accessAndRespond (s\<lparr>dram := (dram s)\<lparr>pendingPkt := Some pkt\<rparr>\<rparr>)) (\<lambda>s1. ret (True, s1))"

text \<open>The event is scheduled only after a packet was stored; a null packet is an error here.\<close>

definition dram_sendResponse :: "(port_id \<Rightarrow> 'a buf_sys_scheme receivers) \<Rightarrow> 'a buf_sys_scheme \<Rightarrow> 'a buf_sys_scheme run" where
  "dram_sendResponse rc s =
     (case pendingPkt (dram s) of
        None \<Rightarrow> raise NullDeref
      | Some pkt \<Rightarrow> run_bind (sendTimingResp rc (ports s DramMem) pkt s) (\<lambda>(ok, s1). ret s1))"

definition bd_receivers :: "port_id \<Rightarrow> 'a buf_sys_scheme receivers" where
  "bd_receivers p =
     (case p of
        BufferMem \<Rightarrow> default_receivers\<lparr>rcv_TimingResp := buffer_recvTimingResp, rcv_ReqRetry := buffer_recvReqRetry\<rparr>
      | DramMem \<Rightarrow> default_receivers\<lparr>rcv_TimingReq := dram_recvTimingReq, rcv_RespRetry := ret\<rparr>
      | _ \<Rightarrow> default_receivers)"

definition bd_process :: "eid \<Rightarrow> 'a buf_sys_scheme \<Rightarrow> 'a buf_sys_scheme run" where
  "bd_process e s = (if e = respEvent (dram s) then dram_sendResponse bd_receivers s else ret s)"

section \<open>A request and its response\<close>

lemma eq_list_buf_sys [simp]:
  "eq_list (s\<lparr>buffer := b\<rparr>) xs = eq_list s xs" "eq_list (s\<lparr>dram := d\<rparr>) xs = eq_list s xs"
  by (simp_all add: eq_list_def eq_repr_def)

lemma eq_pop_buf_sys [simp]:
  "buffer (eq_pop e s) = buffer s" "dram (eq_pop e s) = dram s" "ports (eq_pop e s) = ports s"
  by (simp_all add: eq_pop_def Let_def split: option.splits)

lemma dram_request:
  fixes s :: "'a buf_sys_scheme"
  assumes q: "eq_list s []" and t: "cur_tick s \<le> cur_tick s + 10"
  shows "\<exists>s1. dram_recvTimingReq pkt s = ret (True, s1) \<and> eq_list s1 [respEvent (dram s)] \<and>
    ev_when (events s1 (respEvent (dram s))) = cur_tick s + 10 \<and> dram s1 = (dram s)\<lparr>pendingPkt := Some pkt\<rparr> \<and>
    buffer s1 = buffer s \<and> ports s1 = ports s \<and> cur_tick s1 = cur_tick s"
proof -
  let ?e = "respEvent (dram s)" and ?s = "s\<lparr>dram := (dram s)\<lparr>pendingPkt := Some pkt\<rparr>\<rparr>"
  define k where "k = (\<lambda>x. if x = ?e then (cur_tick s + 10, ev_priority (events ?s ?e)) else key_of (events ?s) x)"
  have l: "eq_list ?s []" using q by simp
  obtain h p where r: "eq_schedule ?e (cur_tick s + 10) ?s = ret (?s\<lparr>events := h, qhead := p\<rparr>)"
      "eq_list (?s\<lparr>events := h, qhead := p\<rparr>) (insert_at k (k ?e) ?e [])" "key_of h = k"
    using eq_schedule_list [OF l _ _ k_def] t by auto
  have "ev_when (h ?e) = cur_tick s + 10" using key_of_when [OF r(3)] by (simp add: k_def)
  then show ?thesis
    using r(1,2) by (simp add: dram_recvTimingReq_def dram_accessAndRespond_def insert_at_def)
qed

lemma dram_busy:
  assumes "ev_scheduled (events s (respEvent (dram s)))"
  shows "dram_recvTimingReq pkt s = raise AssertFailed"
  using assms by (simp add: dram_recvTimingReq_def dram_accessAndRespond_def eq_schedule_scheduled)

lemma bd_answer:
  fixes s :: "'a buf_sys_scheme"
  assumes q: "eq_list s [respEvent (dram s)]" and d: "pendingPkt (dram s) = Some pkt" and l: "link (ports s DramMem) = Linked BufferMem"
    and t: "cur_tick s < limit"
  shows "\<exists>s2. simulate bd_process limit s = ret s2 \<and> eq_list s2 [] \<and> cur_tick s2 = ev_when (events s (respEvent (dram s))) \<and>
    buffer s2 = (buffer s)\<lparr>dataQueue := dataQueue (buffer s) @ [pkt], outstandingReqs := outstandingReqs (buffer s) - 1\<rparr> \<and>
    dram s2 = dram s"
proof -
  let ?e = "respEvent (dram s)" and ?s1 = "eq_pop (respEvent (dram s)) s"
  let ?s2 = "?s1\<lparr>buffer := (buffer s)\<lparr>dataQueue := dataQueue (buffer s) @ [pkt], outstandingReqs := outstandingReqs (buffer s) - 1\<rparr>\<rparr>"
  have hd: "qhead s = Some ?e" using eq_list_head [OF q] by simp
  note pop = eq_pop_list [OF q]
  have "bd_process ?e ?s1 = ret ?s2"
    using d l by (simp add: bd_process_def dram_sendResponse_def timing_defs bd_receivers_def buffer_recvTimingResp_def)
  then have one: "eq_serviceOne bd_process s = ret ?s2" by (simp add: eq_serviceOne_def hd)
  have "qhead ?s2 = None" using eq_list_head [of ?s2 "[]"] pop(1) by simp
  then have "simulate bd_process limit s = ret ?s2"
    using hd t one by (simp add: simulate.simps [of _ limit s] simulate.simps [of _ limit ?s2] eq_empty_def)
  then show ?thesis using pop by simp
qed

text \<open>The initialisation of the buffer and the run: one packet goes to the memory and comes back.\<close>

lemma bd_roundtrip:
  fixes s :: "'a buf_sys_scheme"
  assumes q: "eq_list s []" and n: "linked (ports s) BufferMem DramMem" and t: "cur_tick s \<le> cur_tick s + 10" "cur_tick s < limit"
  shows "\<exists>s1 s2. buffer_init bd_receivers s = ret s1 \<and> ev_scheduled (events s1 (respEvent (dram s1))) \<and>
    simulate bd_process limit s1 = ret s2 \<and> eq_list s2 [] \<and> cur_tick s2 = cur_tick s + 10 \<and>
    dataQueue (buffer s2) = dataQueue (buffer s) @ [next_pkt s] \<and> outstandingReqs (buffer s2) = outstandingReqs (buffer s) - 1"
proof -
  obtain pkt s0 where a: "alloc_pkt (new_DataPacket 0x1000 42 True) s = (pkt, s0)" by fastforce
  then have s0: "pkt = next_pkt s" "eq_list s0 []" "ports s0 = ports s" "cur_tick s0 = cur_tick s" "buffer s0 = buffer s" "dram s0 = dram s"
    using q by (auto simp: alloc_pkt_def eq_list_def eq_repr_def)
  obtain s1 where s1: "dram_recvTimingReq pkt s0 = ret (True, s1)" "eq_list s1 [respEvent (dram s)]"
      "ev_when (events s1 (respEvent (dram s))) = cur_tick s + 10" "dram s1 = (dram s)\<lparr>pendingPkt := Some pkt\<rparr>"
      "buffer s1 = buffer s" "ports s1 = ports s" "cur_tick s1 = cur_tick s"
    using dram_request [OF s0(2), of pkt] t(1) s0 by auto
  have "sendTimingReq bd_receivers (ports s0 BufferMem) pkt s0 = ret (True, s1)"
    using n s0(3) s1(1) by (intro send_linked(1) [where q = DramMem]) (simp_all add: linked_def bd_receivers_def)
  then have i: "buffer_init bd_receivers s = ret s1" by (simp add: buffer_init_def a)
  have "link (ports s1 DramMem) = Linked BufferMem" using n s1(6) by (simp add: linked_def)
  then obtain s2 where "simulate bd_process limit s1 = ret s2" "eq_list s2 []" "cur_tick s2 = cur_tick s + 10"
      "buffer s2 = (buffer s)\<lparr>dataQueue := dataQueue (buffer s) @ [pkt], outstandingReqs := outstandingReqs (buffer s) - 1\<rparr>"
    using bd_answer [of s1 pkt limit] s1 t(2) by auto
  then show ?thesis using i s0(1) eq_list_scheduled [OF s1(2)] s1(4) by auto
qed

end
