(* ===== verification/Spec2Isabelle.thy ===== *)
theory Spec2Isabelle
  imports Main_Program Memory_Properties Report_Properties DS_Properties Thermal_Properties Event_Queue_Sim Buffer_Dram
begin

text \<open>
  A verification development of a discrete-event simulator of a GNN accelerator's memory
  path (\<open>src/\<close> of the repository) and of the cycle-accurate DRAM model that it drives
  (\<open>DRAMsim3-master/\<close>). File names are relative to the root of the repository.

  \<^bold>\<open>The program.\<close> \<open>src/main.cpp\<close> builds an event queue, a wrapper around the memory system, an
  arbiter, four upstream buffers and eight memory channels, binds their ports by name and
  services events up to tick 1000. An upstream buffer sends read requests; the arbiter buffers
  them per bank and upstream and forwards them in turn to the channel of the bank; the channel
  hands them to the memory system through the wrapper, which is clocked by an event of its
  own; a completed read travels back the same way. The memory system decodes the address,
  queues the transaction in a controller, turns it into commands that respect the timing
  tables, and calls back when the data is there. DRAMsim3 has a second memory system (HMC,
  with a crossbar in front of the vaults), an ideal one, and traffic generators with a main
  loop of their own.

  \<^bold>\<open>The model.\<close> A C++ object is a record, an enumeration a datatype; a method is a function
  that takes the state and returns it updated. Every function that can fail returns \<open>'a run\<close>
  (\<open>Sim_Prelude\<close>): an error value for a failed assertion, an exception, an abrupt exit or
  the use of a dangling pointer. Time and addresses are 64-bit words that wrap around;
  the counters of the cycle-accurate model, a C \<open>int\<close> or \<open>uint64_t\<close> that only counts up, are
  unbounded. Objects that point at each other live in one record of the whole simulator,
  which extends the record of the event queue; a virtual call goes through a record of
  functions on that state. The theories follow the files:

  \<^item> \<open>Sim_Prelude\<close>, \<open>Cpp_Strings\<close>: errors, loops, multi-maps of outstanding requests,
    \<open>to_string\<close> and \<open>stoi\<close>.
  \<^item> \<open>Event_Queue\<close> (\<open>src/event/eventq.h\<close>, \<open>eventq.cpp\<close>): the linked bins, with
    \<open>insert\<close>, \<open>remove\<close>, \<open>schedule\<close>, \<open>deschedule\<close>, \<open>reschedule\<close>, \<open>serviceOne\<close>,
    \<open>serviceEvents\<close>. \<open>Event_Queue_Refine\<close> and \<open>Event_Queue_Spec\<close> relate the pointers to
    a list in the order of service; \<open>Event_Queue_Run\<close> has the locale \<open>timed_queue\<close>
    (interpreted as \<open>evq\<close>) for batches of events and the locale \<open>event_handler\<close> for
    callbacks; \<open>Event_Queue_Sim\<close> has the abstract queue and the simulation.
  \<^item> \<open>Packets\<close> (\<open>src/common/packet.h\<close>), \<open>Ports\<close> (\<open>src/common/port.h\<close>, \<open>port.cpp\<close>, \<open>timing.h\<close>,
    \<open>timing.cpp\<close>), \<open>Sim_Objects\<close> (\<open>src/common/object.h\<close>, \<open>object.cpp\<close>, \<open>src/probe\<close>).
  \<^item> \<open>Dram_Arb\<close>, \<open>Dram_Arb_Inv\<close>, \<open>Dram_Arb_Run\<close> (\<open>src/dram/dram_arb.h\<close>, \<open>dram_arb.cpp\<close>): the
    arbiter, its invariant, and its rounds under the contract \<open>arb_env\<close> with its peers.
  \<^item> \<open>Up_Buffer\<close> (\<open>src/buffer/UpBuffer.h\<close>, \<open>UpBuffer.cpp\<close>), \<open>Mem_Channel\<close>
    (\<open>src/dram/dramsim3.h\<close>, \<open>dramsim3.cpp\<close>, \<open>dramsim3_wrapper.h\<close>, \<open>dramsim3_wrapper.cpp\<close>),
    \<open>Buffer_Dram\<close> (\<open>src/buffer/buffer.cpp\<close>, \<open>src/dram/dram.cpp\<close>: an older pair that \<open>main\<close>
    does not construct).
  \<^item> \<open>Main_System\<close>, \<open>Main_Inv\<close>, \<open>Main_Run\<close>, \<open>Main_Setup\<close>, \<open>Main_Program\<close> (\<open>src/main.cpp\<close>): the
    composition, its invariant, the callbacks, the start and the program's properties. The
    locale \<open>program_memory\<close> is what the program needs of its memory; it extends
    \<open>memory_backend\<close>, is a sublocale of \<open>arb_env\<close> and \<open>event_handler\<close>, and is interpreted on
    the JEDEC system with the shipped configuration (\<open>hbm\<close>) and on the ideal one
    (\<open>ideal_hbm\<close>).
  \<^item> \<open>Mem_Interface\<close>: the interface of \<open>DRAMsim3-master/src/memory_system.h\<close> as the locales
    \<open>memory_core\<close> and \<open>memory_backend\<close>, interpreted on the JEDEC system (\<open>jedec\<close>) and the
    ideal system (\<open>ideal\<close>) in \<open>DS_System_Inv\<close>, and the locale \<open>memory_clock\<close> of the memories
    whose clock counts the calls (\<open>jedec_clock\<close>, \<open>ideal_clock\<close>).
  \<^item> \<open>Ini_Reader\<close>, \<open>Ini_Correct\<close>, \<open>Ini_Config\<close> (\<open>DRAMsim3-master/ext/headers/INIReader.h\<close> and the
    constructor in \<open>configuration.cc\<close>): the reader of configuration files, its correctness
    against a description of files, and the two files that are used, line by line.
  \<^item> \<open>DS_Common\<close>, \<open>DS_Config\<close>, \<open>DS_Mapping\<close>, \<open>DS_Timing\<close>, \<open>DS_Bank\<close>, \<open>DS_Channel\<close>,
    \<open>DS_CmdQueue\<close>, \<open>DS_Controller\<close>, \<open>DS_Stats\<close>, \<open>DS_System\<close>, \<open>DS_HMC\<close>, \<open>DS_Drivers\<close>: one
    theory per file of \<open>DRAMsim3-master/src\<close> (\<open>common\<close>, \<open>configuration\<close>, \<open>timing\<close>,
    \<open>bankstate\<close>, \<open>channel_state\<close> with \<open>refresh\<close>, \<open>command_queue\<close>, \<open>controller\<close>,
    \<open>simple_stats\<close>, \<open>dram_system\<close> with \<open>memory_system\<close>, \<open>hmc\<close>, \<open>cpu\<close> with \<open>main\<close>). The
    theories that end in \<open>_Inv\<close>, \<open>_Safe\<close>, \<open>_Cycle\<close> and \<open>_Setup\<close> hold their invariants;
    \<open>DS_Report\<close> has the energies, averages and report files, over an arbitrary floating-point
    arithmetic; \<open>DS_Latency\<close> follows one read through its cycles, \<open>DS_Self_Refresh\<close> a memory
    that is left alone into self refresh and the attempt to wake it, \<open>DS_Trace\<close> relates the commands that a
    controller issues to the runs of its channel state.
  \<^item> \<open>Thermal_Solver\<close>, \<open>Thermal\<close>, \<open>Thermal_Replay\<close> (\<open>thermal_solver.c\<close> with \<open>thermal_config.h\<close> and
    \<open>sp_ienv.c\<close>, \<open>thermal.cc\<close>, \<open>thermal_replay.cc\<close>, and \<open>Config::InitThermalParams\<close>): the heat model of
    the \<open>THERMAL\<close> build. The solver assembles the conductance matrix of the stack of layers as a
    list of entries and solves for the steady state or steps through time; the calculator has
    the floorplan, maps commands to cells, keeps the energy maps, and prints; the replay reads a
    command trace and drives the calculator. A \<open>double\<close> is a value of an arbitrary type with the
    arithmetic operations, of which the definitions assume nothing; the theorems about numbers
    assume exact arithmetic (\<open>exact_num\<close>), so they show that the computation is right up to
    rounding. \<open>Thermal_Matrix\<close> and \<open>Thermal_Balance\<close> are about the matrix and the solvers,
    \<open>Thermal_Plan\<close> and \<open>Thermal_Energy\<close> about the floorplan and the energies, \<open>Thermal_Stable\<close> about
    the time step, \<open>Thermal_Calc\<close> about the calculator as a whole, \<open>Thermal_Replay_Inv\<close> about the
    replay.

  \<^bold>\<open>What is shown.\<close> The program, on the text of the configuration file that it ships with, is set up, runs to its
  limit and ends without any failure; at the end every read that the arbiter accepted is in
  exactly one place (\<open>Main_Program\<close>). The memory systems never abort from a good state, lose
  nothing and return every transaction once; the commands that a controller
  issues form a run of the channel automaton, so they respect the timing tables and the
  activation window; a read on an idle channel takes exactly the delays of the configuration; an address decodes to its mixed-radix digits, all
  in range, and injectively (\<open>Memory_Properties\<close>, \<open>DS_Properties\<close>). The reports do not change the
  simulation, from output level 1 on their files are well formed and complete, and the energies
  of the epochs add up (\<open>Report_Properties\<close>). The thermal calculator puts all energy of the commands on its maps, its
  matrix is symmetric with the right row sums, the steady temperatures balance the power, the
  blocked transient solver is the explicit Euler method, obeys the first law and is stable with
  the time step that is chosen, and a replay accounts for all commands and cycles
  (\<open>Thermal_Properties\<close>). The linked event queue is
  a refinement of a sorted list for every sequence of calls, and its loops return; the
  arbiter accepts exactly within its capacity, answers in order and serves the upstreams in
  turn; ports, packets and probes satisfy their round trips (this theory). Several theorems
  state behaviour that is hardly intended: an idle arbiter re-arms its event
  forever, a read that comes soon after its rank has gone to sleep ends the program, a trace with
  a final newline repeats its last address, the thermal epoch of a memory that is not stacked
  never ends, the transient solver puts the power of a cell at another node, and a command trace
  is not read back with its rows.

  \<^bold>\<open>Bounds.\<close> The loops over pointers and the service loops are \<open>partial_function (option)\<close>;
  that they return is proved, so no fuel is needed. The program's receivers call each other
  (a response may make a buffer send its next request, a retry may make the arbiter send);
  \<open>call_depth\<close> is the depth to which the model resolves these calls, and deeper calls are
  an error that the run is shown not to reach. \<open>main_limit\<close> is the limit of 1000 ticks in
  \<open>main.cpp\<close>. The clock of the HMC logic is counted in picoseconds as in the source; the
  theorem about the ticks holds for as long as its counter does not overflow.

  \<^bold>\<open>Not modelled.\<close> The calls that the \<open>THERMAL\<close> build adds to the controllers and memory systems,
  which the program does not enable: the thermal model is a component of its own, driven by
  the replay. SuperLU's solver is a parameter, with the hypothesis that it solves the system
  where that matters. The debug output and the command line parsers; the simulator shell
  (\<open>src/event/Simulator.cpp\<close>), whose body is commented out; the vendored headers but for the
  reader of configuration files. The random numbers of the traffic generator and the contents
  of a trace file are parameters.
\<close>

section \<open>Concrete states\<close>

text \<open>A fresh queue, and a simulator with one live read packet and a fresh arbiter.\<close>

definition sample_queue :: EventQueue where
  "sample_queue = new_EventQueue ''mainq'' (\<lambda>_. new_Event Default_Pri)"

definition sample_arb :: DramArb where
  "sample_arb = arb_blank (\<lambda>_. 0) (\<lambda>_ _. False) (\<lambda>_ _. False) 10 4 0 1"

definition sample_sys :: arb_sys where
  "sample_sys =
     \<lparr>objName = ''mainq'', qhead = None, cur_tick = 0, events = (\<lambda>_. new_Event Default_Pri),
      pkts = [0 \<mapsto> new_DataPacket 64 64 False, 1 \<mapsto> new_DataPacket 128 64 True], next_pkt = 2,
      ports = (\<lambda>_. new_Port RequestPort ''p''), arb = sample_arb\<rparr>"

lemma sample_queue_list: "eq_list sample_queue []"
  by (simp add: sample_queue_def eq_list_new new_Event_def)

lemma sample_queue_tick [simp]: "cur_tick sample_queue = 0"
  by (simp add: sample_queue_def new_EventQueue_def)

lemma sample_queue_priority [simp]: "ev_priority (events sample_queue e) = 0"
  by (simp add: sample_queue_def new_EventQueue_def new_Event_def Default_Pri_def)

lemma sample_arb_ok: "arb_ok sample_arb"
  by (auto simp: sample_arb_def arb_blank_def arb_ok_def bank_ok_def valid_up_def num_up_def)

lemma eq_list_empty_sim: "qhead s = None \<Longrightarrow> (\<And>e. \<not> ev_scheduled (events s e)) \<Longrightarrow> eq_list s []"
  using eq_list_new [of "events s" "objName s"] by (simp add: eq_list_def eq_repr_def new_EventQueue_def)

lemma sample_sys_wf: "eq_wf sample_sys"
  unfolding eq_wf_def
  by (rule exI [of _ "[]"]) (simp add: eq_list_empty_sim sample_sys_def new_Event_def)

lemma sample_sys_simps [simp]:
  "arb sample_sys = sample_arb" "cur_tick sample_sys = 0"
  "pkts sample_sys = [0 \<mapsto> new_DataPacket 64 64 False, 1 \<mapsto> new_DataPacket 128 64 True]"
  by (simp_all add: sample_sys_def)

section \<open>The event queue\<close>

text \<open>
  C5. Scheduling any batch of distinct idle events succeeds, and servicing the queue up
  to time \<open>w\<close> returns after running exactly the queued events due by then, each once, in
  the order of time and priority, with the later ones left queued and the clock at \<open>w\<close>.
\<close>

theorem events_serviced_in_order:
  assumes "eq_list q xs" "distinct (map fst es)" "set xs \<inter> fst ` set es = {}"
    "\<forall>(e, t)\<in>set es. cur_tick q \<le> t"
  shows "\<exists>q1 q2 ys. for_run (\<lambda>(e, t). eq_schedule e t) es q = ret q1 \<and>
    mset ys = mset xs + mset (map fst es) \<and> sorted (map (\<lambda>e. ev_key (events q1 e)) ys) \<and>
    (\<forall>(e, t)\<in>set es. ev_key (events q1 e) = (t, ev_priority (events q e))) \<and>
    eq_serviceEvents (pure_process f) w q1 = ret q2 \<and> cur_tick q2 = w \<and>
    eq_list q2 (dropWhile (\<lambda>e. ev_when (events q1 e) \<le> w) ys) \<and>
    EventQueue.more q2 =
      fold f (takeWhile (\<lambda>e. ev_when (events q1 e) \<le> w) ys) (EventQueue.more q1)"
proof -
  obtain q1 ys where q1: "for_run (\<lambda>(e, t). eq_schedule e t) es q = ret q1" "eq_list q1 ys"
      "mset ys = mset xs + mset (map fst es)" "sorted (map (key_of (events q1)) ys)"
      "\<forall>(e, t)\<in>set es. key_of (events q1) e = (t, ev_priority (events q e))"
    using evq.push_all [OF assms] by blast
  from eq_serviceEvents_pure [OF q1(2)] obtain q2 where
      "eq_serviceEvents (pure_process f) w q1 = ret q2" "cur_tick q2 = w"
      "eq_list q2 (dropWhile (\<lambda>e. ev_when (events q1 e) \<le> w) ys)"
      "EventQueue.more q2 = fold f (takeWhile (\<lambda>e. ev_when (events q1 e) \<le> w) ys) (EventQueue.more q1)"
    by blast
  with q1 show ?thesis by (intro exI [of _ q1] exI [of _ q2] exI [of _ ys]) auto
qed

theorem events_serviced_in_order_witness:
  "\<exists>q1 q2 ys. for_run (\<lambda>(e, t). eq_schedule e t) [(3, 5), (7, 2)] sample_queue = ret q1 \<and>
     mset ys = mset [3 :: eid, 7] \<and> eq_serviceEvents (pure_process (\<lambda>_ x. x)) 2 q1 = ret q2 \<and> cur_tick q2 = 2"
  using events_serviced_in_order [OF sample_queue_list, of "[(3, 5), (7, 2)]" "\<lambda>_ x. x" 2] by auto

text \<open>
  \<open>schedule\<close> on a well-formed queue: an idle event at a time not in the past is
  inserted in front of its equals, no other event moves, and the clock and all other state
  stay; a scheduled event, or a time in the past, fails the assertion.
\<close>

theorem schedule_inserts:
  assumes "eq_list q xs"
  shows "if e \<notin> set xs \<and> cur_tick q \<le> w
    then \<exists>h p. eq_schedule e w q = ret (q\<lparr>events := h, qhead := p\<rparr>) \<and>
      eq_list (q\<lparr>events := h, qhead := p\<rparr>)
        (insert_at (key_of (events q)) (w, ev_priority (events q e)) e xs) \<and>
      (\<forall>x. ev_key (h x) = (if x = e then (w, ev_priority (events q e)) else ev_key (events q x)))
    else eq_schedule e w q = raise AssertFailed"
proof (cases "e \<notin> set xs \<and> cur_tick q \<le> w")
  case True
  define k where "k = (\<lambda>x. if x = e then (w, ev_priority (events q e)) else key_of (events q) x)"
  obtain h p where r: "eq_schedule e w q = ret (q\<lparr>events := h, qhead := p\<rparr>)"
      "eq_list (q\<lparr>events := h, qhead := p\<rparr>) (insert_at k (k e) e xs)" "key_of h = k"
    using eq_schedule_list [OF assms _ _ k_def] True by blast
  have ke: "k e = (w, ev_priority (events q e))" by (simp add: k_def)
  have "insert_at k (k e) e xs = insert_at (key_of (events q)) (w, ev_priority (events q e)) e xs"
    unfolding ke by (rule insert_at_cong) (use True in \<open>auto simp: k_def\<close>)
  moreover have "ev_key (h x) = (if x = e then (w, ev_priority (events q e)) else ev_key (events q x))" for x
    using fun_cong [OF r(3), of x] by (simp add: k_def)
  ultimately show ?thesis using r(1,2) unfolding if_P [OF True] by metis
next
  case False
  then show ?thesis
    using eq_list_scheduled [OF assms] by (auto simp: eq_schedule_def assert_that_def)
qed

theorem schedule_inserts_witness:
  "\<exists>h p. eq_schedule 3 5 sample_queue = ret (sample_queue\<lparr>events := h, qhead := p\<rparr>) \<and>
     eq_list (sample_queue\<lparr>events := h, qhead := p\<rparr>) [3]"
  using schedule_inserts [OF sample_queue_list, of 3 5] by (simp add: insert_at_def) blast

text \<open>
  \<open>deschedule\<close> removes exactly the given event and keeps the order of the rest and the
  clock; for an event that is not queued it throws.
\<close>

theorem deschedule_removes:
  assumes "eq_list q xs"
  shows "if e \<in> set xs
    then \<exists>h p. eq_deschedule e q = ret (q\<lparr>events := h, qhead := p\<rparr>) \<and>
      eq_list (q\<lparr>events := h, qhead := p\<rparr>) (remove1 e xs) \<and> key_of h = key_of (events q)
    else eq_deschedule e q = raise (RuntimeError ''event not found!'')"
  using eq_remove_list [OF assms, of e] eq_deschedule_missing [OF assms, of e]
  by (auto simp: eq_deschedule_def event_not_found_def)

theorem deschedule_removes_witness:
  "eq_deschedule 3 sample_queue = raise (RuntimeError ''event not found!'')"
  using deschedule_removes [OF sample_queue_list, of 3] by simp

text \<open>
  Taking the head of a running queue: it is a scheduled event that no other scheduled
  event precedes in time and priority, the clock moves forward to its time, exactly it
  becomes idle, and the queue stays well formed.
\<close>

theorem pop_earliest:
  assumes "eq_wf q" "qhead q = Some e"
  shows "eq_wf (eq_pop e q) \<and> cur_tick (eq_pop e q) = ev_when (events q e) \<and>
    cur_tick q \<le> cur_tick (eq_pop e q) \<and> e \<in> pending q \<and>
    (\<forall>x\<in>pending q. ev_le (events q e) (events q x)) \<and> pending (eq_pop e q) = pending q - {e}"
  using eq_pop_wf [OF assms] by (auto simp: pending_def ev_order_key)

theorem pop_earliest_witness:
  "\<exists>q. eq_schedule 3 5 sample_queue = ret q \<and> eq_wf q \<and> qhead q = Some 3 \<and> cur_tick (eq_pop 3 q) = 5"
proof -
  have idle: "\<not> ev_scheduled (events sample_queue 3)" using eq_list_scheduled [OF sample_queue_list] by simp
  have wf: "eq_wf sample_queue" using sample_queue_list by (auto simp: eq_wf_def)
  obtain h p where q: "eq_schedule 3 5 sample_queue = ret (sample_queue\<lparr>events := h, qhead := p\<rparr>)"
      "eq_wf (sample_queue\<lparr>events := h, qhead := p\<rparr>)"
      "\<forall>x. ev_scheduled (h x) \<longleftrightarrow> x = 3 \<or> ev_scheduled (events sample_queue x)"
      "\<forall>x. ev_when (h x) = (if x = 3 then 5 else ev_when (events sample_queue x))"
    using eq_schedule_wf [OF wf idle, of 5, unfolded sample_queue_tick, OF word_zero_le] by blast
  have s: "ev_scheduled (h x) \<longleftrightarrow> x = 3" for x
    using q(3) eq_list_scheduled [OF sample_queue_list, of x] by simp
  have p: "p = Some 3"
  proof -
    obtain xs where xs: "eq_list (sample_queue\<lparr>events := h, qhead := p\<rparr>) xs" using q(2) by (auto simp: eq_wf_def)
    have mem: "x \<in> set xs \<longleftrightarrow> x = 3" for x
      using eq_list_scheduled [OF xs, of x] s [of x] by simp
    show ?thesis
    proof (cases xs)
      case (Cons y ys)
      then show ?thesis using eq_list_head [OF xs] mem [of y] by simp
    qed (use mem [of 3] in simp)
  qed
  show ?thesis using pop_earliest [OF q(2), of 3] q(1,2) q(4) p by simp
qed

text \<open>
  The destructor of a well-formed queue returns, leaving it empty with no event
  scheduled and the clock unchanged.
\<close>

theorem destroy_empties:
  assumes "eq_list q xs"
  shows "\<exists>h. eq_destroy q = ret (q\<lparr>events := h, qhead := None\<rparr>) \<and> (\<forall>e. \<not> ev_scheduled (h e))"
  by (rule eq_destroy_list [OF assms])

theorem destroy_empties_witness: "\<exists>h. eq_destroy sample_queue = ret (sample_queue\<lparr>events := h, qhead := None\<rparr>)"
  using destroy_empties [OF sample_queue_list] by blast

text \<open>
  C4. The linked bins refine the specification: for every sequence of calls to schedule,
  deschedule and service, from related states, the queue of the program and the abstract
  queue both fail with the same error or both return, in related states, having processed
  the same events in the same order.
\<close>

theorem queue_refines_list:
  assumes "queue_sim f x q a"
  shows "(\<exists>e. for_run (run_call f) cs q = raise e \<and> for_run abs_call cs a = raise e) \<or>
    (\<exists>q' a'. for_run (run_call f) cs q = ret q' \<and> for_run abs_call cs a = ret a' \<and> queue_sim f x q' a')"
  using queue_calls_alike [OF assms, of cs] unfolding alike_def .

theorem queue_refines_list_witness:
  "\<exists>q'. for_run (run_call (\<lambda>_ u. u)) [Schedule 3 5, Schedule 7 2, ServiceOne, Schedule 7 5, Deschedule 3, ServiceUntil 9] sample_queue = ret q' \<and>
     eq_list q' [] \<and> cur_tick q' = 9"
proof -
  let ?cs = "[Schedule 3 5, Schedule 7 2, ServiceOne, Schedule 7 5, Deschedule 3, ServiceUntil 9] :: queue_call list"
  let ?a = "\<lparr>aq_events = [], aq_key = key_of (\<lambda>_. new_Event Default_Pri), aq_now = 0, aq_done = []\<rparr>"
  have "queue_sim (\<lambda>_ u. u) () sample_queue ?a"
    unfolding sample_queue_def by (rule queue_sim_new) (simp add: new_Event_def)
  moreover obtain a' where "for_run abs_call ?cs ?a = ret a'" "aq_events a' = []" "aq_now a' = 9"
    by (simp add: insert_at_def ev_key_def new_Event_def Let_def)
  ultimately show ?thesis using queue_refines_list [of "\<lambda>_ u. u" "()" sample_queue ?a ?cs] by (auto simp: queue_sim_def)
qed

section \<open>Upstream buffers\<close>

text \<open>
  C24. A port of an upstream buffer is a queue of four packets, one more than the configured
  size of three: a response is taken exactly while fewer are there and is put at the end, a
  refusal changes no data, and handing data to the compute side then removes the oldest
  packet of the port; both keep the invariant of the buffer and of the event queue.
\<close>

theorem upstream_buffer_fifo:
  assumes "up_ok (ups s u)" "valid_port i" "eq_wf s" "cur_tick s \<noteq> - 1"
  shows "\<exists>taken s1 s2. up_recvTimingResp u pkt i s = ret (taken, s1) \<and> (taken \<longleftrightarrow> length (buffer_Data (ups s u) i) < 4) \<and>
    buffer_Data (ups s1 u) i = (if taken then buffer_Data (ups s u) i @ [pkt] else buffer_Data (ups s u) i) \<and>
    up_ok (ups s1 u) \<and> eq_wf s1 \<and>
    send_data_2cal u s1 = ret s2 \<and> buffer_Data (ups s2 u) i = tl (buffer_Data (ups s1 u) i) \<and> up_ok (ups s2 u) \<and> eq_wf s2"
proof -
  let ?b = "ups s u"
  have len: "length (buffer_Data ?b i) \<le> 4" using assms(1) by (simp add: up_ok_def)
  obtain taken s1 where s1: "up_recvTimingResp u pkt i s = ret (taken, s1)" "taken \<longleftrightarrow> length (buffer_Data ?b i) < 4"
      "buffer_Data (ups s1 u) i = (if taken then buffer_Data ?b i @ [pkt] else buffer_Data ?b i)"
      "up_ok (ups s1 u)" "eq_wf s1" "cur_tick s1 = cur_tick s"
  proof (cases "length (buffer_Data ?b i) = 4")
    case True
    let ?s = "upd_up u (\<lambda>b. b\<lparr>up_retryResp := (up_retryResp b)(i := True)\<rparr>) s"
    have "eq_wf ?s" using assms(3) by (simp add: upd_up_def eq_wf_def eq_list_def eq_repr_def)
    then show ?thesis
      using that [of False ?s] up_recvTimingResp_spec [OF assms, of pkt] True assms(1) by (simp add: upd_up_def)
  next
    case False
    then obtain h p b where h: "up_recvTimingResp u pkt i s = ret (True, s\<lparr>ups := (ups s)(u := b), events := h, qhead := p\<rparr>)"
        "buffer_Data b i = buffer_Data ?b i @ [pkt]" "up_ok b" "eq_wf (s\<lparr>ups := (ups s)(u := b), events := h, qhead := p\<rparr>)"
      using up_recvTimingResp_spec [OF assms, of pkt] by auto
    then show ?thesis
      using that [of True "s\<lparr>ups := (ups s)(u := b), events := h, qhead := p\<rparr>"] len False by simp
  qed
  obtain h p where "send_data_2cal u s1 = ret (s1\<lparr>ups := (ups s1)(u := up_drop {i. valid_port i} (ups s1 u)), events := h, qhead := p\<rparr>)"
      "up_ok (up_drop {i. valid_port i} (ups s1 u))"
      "eq_wf (s1\<lparr>ups := (ups s1)(u := up_drop {i. valid_port i} (ups s1 u)), events := h, qhead := p\<rparr>)"
    using send_data_2cal_spec [OF s1(4,5) _ refl] s1(6) assms(4) by auto
  with s1 assms(2) show ?thesis by (auto simp: up_drop_def)
qed

text \<open>A simulator in which no event is scheduled, with fresh upstream buffers.\<close>

definition sample_ups :: up_sys where
  "sample_ups = arb_sys.extend sample_sys \<lparr>ups = (\<lambda>_. new_UpBuffer (\<lambda>_. False) 0 5 6)\<rparr>"

theorem upstream_buffer_fifo_witness:
  "\<exists>s1 s2. up_recvTimingResp 1 0 2 sample_ups = ret (True, s1) \<and> buffer_Data (ups s1 1) 2 = [0] \<and>
     send_data_2cal 1 s1 = ret s2 \<and> buffer_Data (ups s2 1) 2 = []"
proof -
  have "eq_wf sample_ups" unfolding eq_wf_def
    by (rule exI [of _ "[]"]) (simp add: eq_list_empty_sim sample_ups_def arb_sys.extend_def sample_sys_def new_Event_def)
  moreover have "up_ok (ups sample_ups 1)" "cur_tick sample_ups \<noteq> - 1" "buffer_Data (ups sample_ups 1) 2 = []"
    by (simp_all add: sample_ups_def arb_sys.extend_def sample_sys_def up_ok_new) (simp add: new_UpBuffer_def)
  moreover have "valid_port 2" by (simp add: valid_port_def up_num_ports_def)
  ultimately show ?thesis using upstream_buffer_fifo [of sample_ups 1 2 0] by fastforce
qed

section \<open>Packets and ports\<close>

text \<open>
  A batch of read packets is freshly allocated with the requested addresses and sizes,
  no earlier packet changes, and freeing the whole batch gives the heap back as it was.
\<close>

theorem packet_batch_roundtrip:
  assumes "heap_wf s" "create_batch_read_packets rs s = (ps, s1)"
  shows "map (pkts s1) ps = map (\<lambda>(a, n). Some (new_DataPacket a n False)) rs \<and>
    (\<forall>p\<in>set ps. pkts s p = None) \<and> distinct ps \<and>
    (\<exists>s2. free_packets ps s1 = ret s2 \<and> pkts s2 = pkts s)"
proof -
  note b = create_batch_spec [OF assms]
  have live: "\<forall>p\<in>set ps. pkts s1 p \<noteq> None"
  proof
    fix p assume "p \<in> set ps"
    then have "pkts s1 p \<in> set (map (pkts s1) ps)" by simp
    also have "\<dots> = set (map (\<lambda>(a, n). Some (new_DataPacket a n False)) rs)" using b by metis
    finally show "pkts s1 p \<noteq> None" by auto
  qed
  have old: "pkts s p = None" if "next_pkt s \<le> p" for p
    using heap_wf_fresh [OF assms(1) that] .
  have new: "pkts s1 p = None" if "next_pkt s1 \<le> p" for p
    using heap_wf_fresh [OF _ that] b by blast
  have "(\<lambda>p. if p \<in> set ps then None else pkts s1 p) = pkts s"
  proof
    fix p
    consider "p < next_pkt s" | "p \<in> set ps" | "next_pkt s1 \<le> p"
      using b by (cases "p < next_pkt s"; cases "next_pkt s1 \<le> p") auto
    then show "(if p \<in> set ps then None else pkts s1 p) = pkts s p"
      by cases (use b old new in auto)
  qed
  moreover have "distinct ps" "\<forall>p\<in>set ps. pkts s p = None" using b old by auto
  ultimately show ?thesis using free_packets_spec [OF _ live] b by auto
qed

theorem packet_batch_roundtrip_witness:
  "\<exists>ps s1 s2. create_batch_read_packets [(0, 64), (64, 32)] sample_sys = (ps, s1) \<and>
     free_packets ps s1 = ret s2 \<and> pkts s2 = pkts sample_sys"
proof -
  have wf: "heap_wf sample_sys" by (simp add: heap_wf_def sample_sys_def)
  obtain ps s1 where r: "create_batch_read_packets [(0, 64), (64, 32)] sample_sys = (ps, s1)" by fastforce
  from packet_batch_roundtrip [OF wf r] r show ?thesis by blast
qed

text \<open>
  Binding a list of request and response ports, no port named twice, links exactly
  these pairs with each other, leaves all other ports alone and keeps the network well
  formed.
\<close>

theorem bindings_link_pairs:
  assumes "net_ok n" "distinct (map fst pqs @ map snd pqs)"
    "\<forall>(p, q)\<in>set pqs. port_kind (n p) = RequestPort \<and> port_kind (n q) = ResponsePort \<and>
        unlinked (n p) \<and> unlinked (n q)"
  shows "\<exists>n'. for_run (\<lambda>(p, q). bindPorts p q) pqs n = ret n' \<and> net_ok n' \<and>
    (\<forall>(p, q)\<in>set pqs. linked n' p q) \<and>
    (\<forall>x. x \<notin> set (map fst pqs @ map snd pqs) \<longrightarrow> n' x = n x)"
  by (rule bind_all [OF assms])

theorem bindings_link_pairs_witness:
  "\<exists>n'. for_run (\<lambda>(p, q). bindPorts p q) [(ArbRequest 0, MemSide 0)]
     (\<lambda>p. new_Port (if p = ArbRequest 0 then RequestPort else ResponsePort) ''p'') = ret n' \<and>
     linked n' (ArbRequest 0) (MemSide 0)"
  using bindings_link_pairs [of "\<lambda>p. new_Port (if p = ArbRequest 0 then RequestPort else ResponsePort) ''p''"
      "[(ArbRequest 0, MemSide 0)]"]
  by (simp add: net_ok_def new_Port_def unlinked_def del: for_run.simps) blast

text \<open>Unbinding a pair right after binding it restores the network exactly.\<close>

theorem unbind_undoes_bind:
  assumes "port_kind (n p) = RequestPort" "port_kind (n q) = ResponsePort"
    "unlinked (n p)" "unlinked (n q)"
  shows "run_bind (bindPorts p q n) (port_unbind p) = ret n"
  using port_unbind_bind [OF assms] bindPorts_bind [OF assms(1,2)] by simp

theorem unbind_undoes_bind_witness:
  "let n = (\<lambda>p. new_Port (if p = ArbRequest 0 then RequestPort else ResponsePort) ''p'')
   in run_bind (bindPorts (ArbRequest 0) (MemSide 0) n) (port_unbind (ArbRequest 0)) = ret n"
  unfolding Let_def by (rule unbind_undoes_bind) (simp_all add: new_Port_def unlinked_def)

section \<open>The arbiter\<close>

text \<open>
  C29. The constructor of the arbiter establishes the arbiter's invariant for one to five
  upstreams, whatever the uninitialised members held; with more upstreams it writes past
  the end of the statically sized retry arrays.
\<close>

theorem arbiter_constructed:
  assumes "0 < nups" "0 \<le> bsize" "bsize < 2 ^ 31" "ae \<noteq> re"
  shows "if nups \<le> num_up
    then \<exists>a. new_DramArb jnbr jreq jresp bsize nups ae re = ret a \<and> arb_ok a \<and> num_upstreams a = nups \<and>
      (\<forall>b u. valid_bank b \<and> valid_up a u \<longrightarrow> \<not> retryReq a b u \<and> \<not> retryResp a b u)
    else new_DramArb jnbr jreq jresp bsize nups ae re = raise OutOfBounds"
  using new_DramArb_ok [OF assms(1) _ assms(2-4)] new_DramArb_too_many [of nups]
  by (cases "nups \<le> num_up") (simp, blast, simp)

theorem arbiter_constructed_witness:
  "(\<exists>a. new_DramArb (\<lambda>_. 7) (\<lambda>_ _. True) (\<lambda>_ _. True) 10 4 0 1 = ret a \<and> arb_ok a) \<and>
   new_DramArb (\<lambda>_. 7) (\<lambda>_ _. True) (\<lambda>_ _. True) 10 6 0 1 = raise OutOfBounds"
  using arbiter_constructed [of 4 10 0 1 "\<lambda>_. 7" "\<lambda>_ _. True" "\<lambda>_ _. True"]
    arbiter_constructed [of 6 10 0 1 "\<lambda>_. 7" "\<lambda>_ _. True" "\<lambda>_ _. True"]
  by (auto simp: num_up_def)

text \<open>
  C11. Flow control of the arbiter: a read is taken exactly when outstanding reads and
  queued responses of its bank are fewer than \<open>buf_size\<close>, a write when its input buffer is
  not full. An accepted request is queued last, the arbitration event becomes pending and
  the invariant (with its bound on the buffers) holds again; a refused one only sets the
  retry flag of its bank and upstream.
\<close>

theorem arbiter_flow_control:
  assumes "arb_ok (arb s)" "valid_bank b" "valid_up (arb s) u" "pkts s pkt = Some d"
    "eq_wf s" "cur_tick s \<noteq> - 1"
  shows "if (if isRead d then int (nbrOutstandingReads (arb s) b + length (responseQueue (arb s) b)) < buf_size (arb s)
             else int (length (writeInBufs (arb s) b u)) < buf_size (arb s))
    then \<exists>h p a. arb_recvTimingReqUp pkt b u s = ret (True, s\<lparr>arb := a, events := h, qhead := p\<rparr>) \<and>
      a = (if isRead d then accept_read pkt (getAddr d) b u (arb s) else accept_write pkt b u (arb s)) \<and>
      arb_ok a \<and> eq_wf (s\<lparr>arb := a, events := h, qhead := p\<rparr>) \<and> ev_scheduled (h (arbEvent a))
    else arb_recvTimingReqUp pkt b u s = ret (False, arb_set_retryReq b u True s)"
proof -
  have size: "0 \<le> buf_size (arb s)" "buf_size (arb s) < 2 ^ 31" using assms(1) by (auto simp: arb_ok_def)
  then have w: "int (length (writeInBufs (arb s) b u)) < buf_size (arb s) \<longleftrightarrow>
      length (writeInBufs (arb s) b u) < to_size_t (buf_size (arb s))"
    by (simp add: zless_nat_eq_int_zless)
  define acc where "acc \<longleftrightarrow> (if isRead d then can_accept_read (arb s) b
    else length (writeInBufs (arb s) b u) < to_size_t (buf_size (arb s)))"
  define a where "a = (if isRead d then accept_read pkt (getAddr d) b u (arb s) else accept_write pkt b u (arb s))"
  have ev: "arbEvent a = arbEvent (arb s)" by (simp add: a_def accept_read_def accept_write_def)
  have "\<exists>h p. arb_recvTimingReqUp pkt b u s = ret (True, s\<lparr>arb := a, events := h, qhead := p\<rparr>) \<and>
      arb_ok a \<and> eq_wf (s\<lparr>arb := a, events := h, qhead := p\<rparr>) \<and> ev_scheduled (h (arbEvent a))" if acc: acc
    using recvTimingReqUp_accept [OF assms acc [unfolded acc_def] a_def] ev by metis
  moreover have "arb_recvTimingReqUp pkt b u s = ret (False, arb_set_retryReq b u True s)" if ref: "\<not> acc"
    using ref by (intro recvTimingReqUp_refuse [OF assms(1-4)]) (simp add: acc_def split: if_splits)
  ultimately show ?thesis
    unfolding w can_accept_bound [OF assms(1), symmetric] acc_def [symmetric] a_def [symmetric]
    by (cases acc) (simp_all only: if_True if_False, blast+)
qed

theorem arbiter_flow_control_witness:
  "\<exists>h p. arb_recvTimingReqUp 0 2 3 sample_sys =
     ret (True, sample_sys\<lparr>arb := accept_read 0 64 2 3 sample_arb, events := h, qhead := p\<rparr>)"
proof -
  have v: "valid_bank 2" "valid_up sample_arb 3"
    by (simp_all add: valid_bank_def num_banks_def valid_up_def sample_arb_def arb_blank_def)
  have e: "nbrOutstandingReads sample_arb 2 = 0" "responseQueue sample_arb 2 = []" "buf_size sample_arb = 10"
    by (simp_all add: sample_arb_def arb_blank_def)
  show ?thesis
    using arbiter_flow_control [of sample_sys 2 3 0 "new_DataPacket 64 64 False"] sample_arb_ok sample_sys_wf v
    by (simp add: e packet_defs) blast
qed

text \<open>
  C12. A response from memory completes the oldest outstanding read of its address and is
  queued for the upstream that had asked for it, keeping the invariant; the two tables of
  outstanding reads never disagree. A response for an address nobody waits for fails an
  assertion.
\<close>

theorem arbiter_response_in_order:
  assumes "arb_ok (arb s)" "valid_bank b" "pkts s pkt = Some d" "eq_wf s" "cur_tick s \<noteq> - 1"
  shows "case mq_at (outstandingReads (arb s) b) (getAddr d) of
      [] \<Rightarrow> arb_recvTimingResp pkt b s = raise AssertFailed
    | r # rs \<Rightarrow> (\<exists>u us a h p.
        mq_at (outstandingUpstream (arb s) b) (getAddr d) = u # us \<and> valid_up (arb s) u \<and>
        arb_recvTimingResp pkt b s = ret (True, s\<lparr>arb := a, events := h, qhead := p\<rparr>) \<and>
        responseQueue a b = responseQueue (arb s) b @ [(r, u)] \<and>
        mq_at (outstandingReads a b) (getAddr d) = rs \<and> mq_at (outstandingUpstream a b) (getAddr d) = us \<and>
        arb_ok a \<and> eq_wf (s\<lparr>arb := a, events := h, qhead := p\<rparr>) \<and> ev_scheduled (h (sendResponseEvent a)))"
proof (cases "mq_at (outstandingReads (arb s) b) (getAddr d)")
  case Nil
  then show ?thesis using recvTimingResp_unknown [OF assms(2,3)] by simp
next
  case (Cons r rs)
  then obtain m where m: "mq_pop (outstandingReads (arb s) b) (getAddr d) = Some (r, m)"
    by (auto simp: mq_pop_def)
  obtain u mu where u: "mq_pop (outstandingUpstream (arb s) b) (getAddr d) = Some (u, mu)" "valid_up (arb s) u"
    using pop_agree [OF arb_ok_bank [OF assms(1,2)] m] by metis
  let ?a = "arb_complete b r m u mu (arb s)"
  have "responseQueue ?a b = responseQueue (arb s) b @ [(r, u)]" "outstandingReads ?a b = m"
      "outstandingUpstream ?a b = mu" "sendResponseEvent ?a = sendResponseEvent (arb s)"
    by (simp_all add: arb_complete_def)
  moreover have "mq_at m (getAddr d) = rs" using mq_at_pop [OF m] Cons by simp
  moreover have "mq_at (outstandingUpstream (arb s) b) (getAddr d) = u # mq_at mu (getAddr d)"
    using mq_at_pop [OF u(1)] by simp
  ultimately show ?thesis
    using recvTimingResp_spec [OF assms m u(1) refl] u(2) unfolding Cons list.case by metis
qed

theorem arbiter_response_in_order_witness:
  "\<exists>a h p. arb_recvTimingResp 0 2 (sample_sys\<lparr>arb := accept_read 0 64 2 3 sample_arb\<rparr>) =
     ret (True, sample_sys\<lparr>arb := a, events := h, qhead := p\<rparr>) \<and> responseQueue a 2 = [(0, 3)]"
proof -
  let ?s = "sample_sys\<lparr>arb := accept_read 0 64 2 3 sample_arb\<rparr>"
  have v: "valid_bank 2" "valid_up sample_arb 3" "can_accept_read sample_arb 2"
    by (simp_all add: valid_bank_def num_banks_def valid_up_def sample_arb_def arb_blank_def
        can_accept_read_def)
  have ok: "arb_ok (arb ?s)" using accept_read_ok(1) [OF sample_arb_ok v] by simp
  have wf: "eq_wf ?s" using sample_sys_wf by (simp add: eq_wf_def eq_list_def eq_repr_def)
  have at: "mq_at (outstandingReads (accept_read 0 64 2 3 sample_arb) 2) 64 = [0]"
      "mq_at (outstandingUpstream (accept_read 0 64 2 3 sample_arb) 2) 64 = [3]"
      "responseQueue (accept_read 0 64 2 3 sample_arb) 2 = []"
    by (simp_all add: accept_read_def mq_at_push sample_arb_def arb_blank_def)
  show ?thesis
    using arbiter_response_in_order [OF ok v(1), of 0 "new_DataPacket 64 64 False"] wf
    by (simp add: at packet_defs) blast
qed



text \<open>
  The ports of the arbiter and of the upstream buffers are found under the names the
  main program spells for them.
\<close>

theorem port_names_resolve:
  assumes "arb_ok a" "valid_bank b" "valid_up a u"
  shows "arb_getPort a (''response'' @ to_string b @ ''_'' @ to_string u) idx = ret (ArbResponse b u) \<and>
    arb_getPort a (''request'' @ to_string b) idx = ret (ArbRequest b) \<and>
    up_getPort v (''buf_side'' @ to_string b) = ret (UpSide v b)"
proof -
  have "u < 2 ^ 31" using assms(1,3) by (auto simp: arb_ok_def valid_up_def num_up_def)
  moreover have "valid_port b" using assms(2) by (simp add: valid_bank_def valid_port_def num_banks_def up_num_ports_def)
  ultimately show ?thesis
    using getPort_response [OF assms(2,3)] getPort_request [OF assms(2)] up_getPort_name by blast
qed

theorem port_names_resolve_witness: "arb_getPort sample_arb ''response2_3'' 0 = ret (ArbResponse 2 3)"
proof -
  have "to_string 2 = ''2''" "to_string 3 = ''3''" by code_simp+
  then show ?thesis
    using port_names_resolve [OF sample_arb_ok, of 2 3 0]
    by (simp add: valid_bank_def num_banks_def valid_up_def sample_arb_def arb_blank_def)
qed

text \<open>C30. An idle arbiter re-arms its arbitration event for the next tick, forever.\<close>

theorem idle_arbiter_rearms:
  assumes "\<And>b u. readInBufs (arb s) b u = []" "\<And>b u. writeInBufs (arb s) b u = []"
    "eq_wf s" "cur_tick s \<noteq> - 1" "\<not> ev_scheduled (events s (arbEvent (arb s)))"
  shows "\<exists>h p. arbitrate rc s = ret (s\<lparr>events := h, qhead := p\<rparr>) \<and>
    ev_scheduled (h (arbEvent (arb s))) \<and> ev_when (h (arbEvent (arb s))) = cur_tick s + 1"
  using eq_schedule_wf [OF assms(3,5) next_tick_le [OF assms(4)]] assms(5)
  unfolding arbitrate_idle [OF assms(1,2)] schedule_next_def by auto

theorem idle_arbiter_rearms_witness:
  "\<exists>h p. arbitrate (\<lambda>_. default_receivers) sample_sys = ret (sample_sys\<lparr>events := h, qhead := p\<rparr>) \<and> ev_when (h 0) = 1"
  using idle_arbiter_rearms [of sample_sys "\<lambda>_. default_receivers"] sample_sys_wf
  by (simp add: sample_arb_def arb_blank_def sample_sys_def new_Event_def) blast

section \<open>Probes and the stand-alone memory\<close>

text \<open>
  A listener that is connected to a point of its type hears every value once, after the
  listeners that were there before; disconnecting it restores the points, the listeners and
  everything else but what was heard. A listener of another type is attached as a null
  pointer, and the next notification fails.
\<close>

theorem probe_roundtrip:
  assumes "manager_ok m s" "getFirstProbePoint m (pl_name x) s = Some p" "listeners_ok p s" "live s l = None"
  shows "if pl_arg x = pp_arg (point s p)
    then \<exists>s1 s2. pm_connect m l x s = ret s1 \<and> pp_notify p v s1 = ret s2 \<and>
      heard s2 = heard s @ map (\<lambda>c. (the c, v)) (listeners (point s p)) @ [(l, v)] \<and>
      listener_cleanup m l s2 = ret (s\<lparr>heard := heard s2\<rparr>)
    else \<exists>s1. pm_connect m l x s = ret s1 \<and> pp_notify p v s1 = raise NullDeref"
proof -
  have fresh: "Some l \<notin> set (listeners (point s p))" using assms(3,4) by (force simp: listeners_ok_def)
  define q where "q = (point s p)\<lparr>listeners := listeners (point s p) @ [cast_listener (pp_arg (point s p)) l x]\<rparr>"
  define s1 where "s1 = s\<lparr>live := (live s)(l := Some x), point := (point s)(p := q)\<rparr>"
  have c: "pm_connect m l x s = ret s1" using connect_adds [OF assms(1,2) fresh assms(3)] by (simp add: s1_def q_def)
  show ?thesis
  proof (cases "pl_arg x = pp_arg (point s p)")
    case True
    then have cast: "cast_listener (pp_arg (point s p)) l x = Some l" by (simp add: cast_listener_def)
    have "listeners_ok p s1" using assms(3) fresh by (auto simp: listeners_ok_def s1_def q_def cast split: option.splits)
    then have n: "pp_notify p v s1 = ret (s1\<lparr>heard := heard s @ map (\<lambda>c. (the c, v)) (listeners (point s p)) @ [(l, v)]\<rparr>)"
      (is "_ = ret ?s2") by (simp add: pp_notify_ok) (simp add: s1_def q_def cast)
    have name: "pp_name (point ?s2 y) = pp_name (point s y)" for y by (simp add: s1_def q_def)
    have "manager_ok m ?s2" "getFirstProbePoint m (pl_name x) ?s2 = Some p"
      using assms(1,2) name by (simp_all add: manager_ok_def getFirstProbePoint_def named_points_def)
    from cleanup_removes [OF this, of l] have "listener_cleanup m l ?s2 = ret (s\<lparr>heard := heard ?s2\<rparr>)"
      using assms(4) fresh by (simp add: s1_def q_def cast fun_upd_idem)
    then show ?thesis using c n True by auto
  next
    case False
    then have "None \<in> set (listeners (point s1 p))" by (simp add: s1_def q_def cast_listener_def)
    moreover have "\<forall>c\<in>set (listeners (point s1 p)). case c of None \<Rightarrow> True | Some k \<Rightarrow> live s1 k \<noteq> None"
      using assms(3) by (auto simp: listeners_ok_def s1_def q_def cast_listener_def split: option.splits if_splits)
    ultimately have "pp_notify p v s1 = raise NullDeref" using notify_null by (auto simp: pp_notify_def)
    then show ?thesis using c False by simp
  qed
qed

theorem probe_roundtrip_witness:
  "\<exists>s1 s2. pm_connect \<lparr>pm_name = ''obj'', points = [4]\<rparr> 1 \<lparr>pl_name = ''hit'', pl_arg = 7\<rparr>
       \<lparr>live = Map.empty, point = (\<lambda>_. \<lparr>pp_name = ''hit'', pp_arg = 7, listeners = []\<rparr>), heard = []\<rparr> = ret s1 \<and>
     pp_notify 4 (42 :: int) s1 = ret s2 \<and> heard s2 = [(1, 42)]"
proof -
  let ?m = "\<lparr>pm_name = ''obj'', points = [4]\<rparr>"
  let ?s = "\<lparr>live = Map.empty, point = (\<lambda>_. \<lparr>pp_name = ''hit'', pp_arg = 7, listeners = []\<rparr>), heard = []\<rparr> :: int probes"
  have "manager_ok ?m ?s" "getFirstProbePoint ?m ''hit'' ?s = Some 4" "listeners_ok 4 ?s"
    by (simp_all add: manager_ok_def getFirstProbePoint_def named_points_def listeners_ok_def)
  then show ?thesis using probe_roundtrip [of ?m ?s "\<lparr>pl_name = ''hit'', pl_arg = 7\<rparr>" 4 1 42] by auto
qed

text \<open>
  The stand-alone memory answers a request after exactly ten ticks: the packet that the
  buffer sends when it is initialised is back in its queue at that time and the simulation
  ends; the counter of outstanding requests, which nothing ever increments, is decremented. A
  second request before the answer fails the assertion of the event queue.
\<close>

theorem dram_answers:
  fixes s :: buf_sys
  assumes "eq_list s []" "linked (ports s) BufferMem DramMem" "cur_tick s \<le> cur_tick s + 10" "cur_tick s < limit"
  shows "\<exists>s1 s2. buffer_init bd_receivers s = ret s1 \<and> dram_recvTimingReq pkt s1 = raise AssertFailed \<and>
    simulate bd_process limit s1 = ret s2 \<and> eq_list s2 [] \<and> cur_tick s2 = cur_tick s + 10 \<and>
    dataQueue (buffer s2) = dataQueue (buffer s) @ [next_pkt s] \<and> outstandingReqs (buffer s2) = outstandingReqs (buffer s) - 1"
  using bd_roundtrip [OF assms] dram_busy by blast

definition sample_buf :: buf_sys where
  "sample_buf =
     \<lparr>objName = ''mainq'', qhead = None, cur_tick = 0, events = (\<lambda>_. new_Event Default_Pri), pkts = Map.empty, next_pkt = 0,
      ports = (\<lambda>p. if p = DramMem
         then \<lparr>portName = ''d'', port_kind = ResponsePort, peer = Some BufferMem, connected = True, link = Linked BufferMem\<rparr>
         else \<lparr>portName = ''b'', port_kind = RequestPort, peer = Some DramMem, connected = True, link = Linked DramMem\<rparr>),
      buffer = new_Buffer, dram = new_Dram 0\<rparr>"

theorem dram_answers_witness:
  "\<exists>s1 s2. buffer_init bd_receivers sample_buf = ret s1 \<and> simulate bd_process 1000 s1 = ret s2 \<and> cur_tick s2 = 10 \<and>
     dataQueue (buffer s2) = [0] \<and> outstandingReqs (buffer s2) = - 1"
proof -
  have "eq_list sample_buf []" by (rule eq_list_empty_sim) (simp_all add: sample_buf_def new_Event_def)
  moreover have "linked (ports sample_buf) BufferMem DramMem" by (simp add: sample_buf_def linked_def)
  ultimately show ?thesis
    using dram_answers [of sample_buf 1000 7] by (auto simp: sample_buf_def new_Buffer_def)
qed

section \<open>Configuration files\<close>

text \<open>
  C25. Reading a file: for a file of sections, options, continuation lines, comments, blank
  lines and lines that are neither, each line at most 198 characters long, the reader reports
  the number of the first line that is neither (0 if there is none), knows exactly the
  sections with options, and every lookup, in any case, returns the joined values that the
  file gives to the option, or the default. A printed \<open>long\<close> is read back.
\<close>

theorem ini_file_read:
  assumes "\<forall>i\<in>set is. item_ok i" "r = ini_parse (Some (print_ini is))" "bs = bindings [] [] is"
  shows "parse_error r = int (error_line 1 [] is) \<and> ini_sections r = fst ` set bs \<and>
    (\<forall>sec name d. ini_Get r sec name d =
      (let vs = values_for (MakeKey sec name) bs in if vs = [] then d else joined vs)) \<and>
    (\<forall>sec name i d. values_for (MakeKey sec name) bs = [to_string i] \<and> - (2 ^ 63) \<le> i \<and> i < 2 ^ 63 \<longrightarrow>
      ini_GetInteger r sec name d = i)"
proof (intro conjI allI impI)
  show "parse_error r = int (error_line 1 [] is)" "ini_sections r = fst ` set bs"
    using assms by (simp_all add: parse_printed bind_all_sections ini_start_def)
  show g: "ini_Get r sec name d = (let vs = values_for (MakeKey sec name) bs in if vs = [] then d else joined vs)" for sec name d
    using assms by (simp add: Get_printed)
  show "ini_GetInteger r sec name d = i"
    if "values_for (MakeKey sec name) bs = [to_string i] \<and> - (2 ^ 63) \<le> i \<and> i < 2 ^ 63" for sec name i d
    using that g [of sec name "[]"] strtol_printed [of i] clamp_id [of i]
    by (simp add: ini_GetInteger_def joined_single)
qed

theorem ini_file_read_witness:
  "ini_GetInteger (ini_parse (Some (print_ini [Remark '' memory'', Sec ''System'', Opt ''Channels'' ''8'', Junk ''?'']))) ''system'' ''channels'' 1 = 8 \<and>
   parse_error (ini_parse (Some (print_ini [Remark '' memory'', Sec ''System'', Opt ''Channels'' ''8'', Junk ''?'']))) = 4"
proof -
  let ?is = "[Remark '' memory'', Sec ''System'', Opt ''Channels'' ''8'', Junk ''?'']"
  have ok: "\<forall>i\<in>set ?is. item_ok i" by code_simp
  have v: "values_for (MakeKey ''system'' ''channels'') (bindings [] [] ?is) = [to_string 8]" by code_simp
  have e: "error_line 1 [] ?is = 4" by simp
  note f = ini_file_read [OF ok refl refl]
  have "ini_GetInteger (ini_parse (Some (print_ini ?is))) ''system'' ''channels'' 1 = 8" using f v by auto
  moreover have "parse_error (ini_parse (Some (print_ini ?is))) = 4" using f e by simp
  ultimately show ?thesis by blast
qed

text \<open>
  The configuration files that the program and the HMC system use are read from their
  text into memories of the expected shape; a file that cannot be opened ends the program.
\<close>

theorem shipped_files_load:
  "(\<exists>c. load_Config (Some HBM2_4Gb_x128_ini) c0 = ret c \<and> hbm_facts c) \<and>
   (\<exists>c. load_Config (Some HMC_2GB_4Lx16_ini) c0 = ret c \<and> hmc_facts c) \<and>
   load_Config None c0 = raise AbruptExit"
proof -
  have "load_Config None c0 = raise AbruptExit" by (simp add: load_Config_def ini_parse_def)
  then show ?thesis using hbm_config hmc_config unfolding load_hbm load_hmc by metis
qed

end
